(* ===== verification/Prelude.thy ===== *)
theory Prelude
  imports Complex_Main "HOL-Library.AList"
begin

text \<open>
  Shared vocabulary of the development: JavaScript numbers and values, the JavaScript
  \<open>Map\<close> as an insertion-ordered association list, and the lemma collections the
  component theories use.

  \<^item> Clock readings and other quantities that the code only adds and compares are exact
    reals (\<open>time\<close>); values that cross a trust boundary and may be \<open>NaN\<close> or infinite are
    \<open>jsnum\<close>. Rounding of IEEE doubles is not modelled.
  \<^item> A synchronous method runs to completion; the clock is an argument, read once per call.
  \<^item> A JavaScript \<open>Map\<close> iterates in insertion order, \<open>set\<close> on a present key keeps the
    key's place, and \<open>delete\<close> during iteration is allowed: exactly \<open>AList.update\<close>,
    \<open>AList.delete\<close> and \<open>filter\<close> on an association list with distinct keys.
\<close>

named_theorems jmap_simps "reading a Map after set, delete and filter"
named_theorems wf_intros "operations keep a component's well-formedness"

type_synonym time = real

subsection \<open>Numbers\<close>

datatype jsnum = NaN | NegInf | PosInf | Fin real

fun is_finite :: "jsnum \<Rightarrow> bool" where
  "is_finite (Fin _) = True"
| "is_finite _ = False"

text \<open>The relational operators: every comparison with \<open>NaN\<close> is false.\<close>

fun js_less :: "jsnum \<Rightarrow> jsnum \<Rightarrow> bool" where
  "js_less NaN _ = False"
| "js_less _ NaN = False"
| "js_less NegInf y = (y \<noteq> NegInf)"
| "js_less _ NegInf = False"
| "js_less PosInf _ = False"
| "js_less _ PosInf = True"
| "js_less (Fin a) (Fin b) = (a < b)"

fun js_numeq :: "jsnum \<Rightarrow> jsnum \<Rightarrow> bool" where
  "js_numeq NaN _ = False"
| "js_numeq x y = (x = y)"

lemma js_less_irrefl [simp]: "\<not> js_less x x"
  by (cases x) auto

lemma js_less_trans: "js_less x y \<Longrightarrow> js_less y z \<Longrightarrow> js_less x z"
  by (cases x; cases y; cases z) auto

lemma js_less_linear: "x \<noteq> NaN \<Longrightarrow> y \<noteq> NaN \<Longrightarrow> js_less x y \<or> x = y \<or> js_less y x"
  by (cases x; cases y) auto

subsection \<open>Values\<close>

text \<open>
  An \<open>unknown\<close> of the sources: a JSON-like value. Objects are property lists in
  enumeration order.
\<close>

datatype jsval =
    JUndefined
  | JNull
  | JBool bool
  | JNum jsnum
  | JStr string
  | JArr "jsval list"
  | JObj "(string \<times> jsval) list"

type_synonym jsrecord = "(string \<times> jsval) list"

text \<open>
  \<open>a === b\<close>. Two objects or arrays are the same only by identity; the code compares
  against primitive values, and a value that came from elsewhere is never identical to a
  fresh one, so two composite values are different.
\<close>

fun js_strict_eq :: "jsval \<Rightarrow> jsval \<Rightarrow> bool" where
  "js_strict_eq JUndefined JUndefined = True"
| "js_strict_eq JNull JNull = True"
| "js_strict_eq (JBool a) (JBool b) = (a = b)"
| "js_strict_eq (JNum a) (JNum b) = js_numeq a b"
| "js_strict_eq (JStr a) (JStr b) = (a = b)"
| "js_strict_eq _ _ = False"

definition ownprop :: "jsrecord \<Rightarrow> string \<Rightarrow> jsval" where
  "ownprop r k = (case map_of r k of None \<Rightarrow> JUndefined | Some v \<Rightarrow> v)"

lemma ownprop_Nil [simp]: "ownprop [] k = JUndefined"
  by (simp add: ownprop_def)

lemma ownprop_Cons [simp]: "ownprop ((k', v) # r) k = (if k = k' then v else ownprop r k)"
  by (simp add: ownprop_def)

fun is_composite :: "jsval \<Rightarrow> bool" where
  "is_composite (JArr _) = True"
| "is_composite (JObj _) = True"
| "is_composite _ = False"

lemma js_strict_eq_sym: "js_strict_eq x y = js_strict_eq y x"
proof -
  have "js_numeq a b = js_numeq b a" for a b
    by (cases a; cases b) auto
  then show ?thesis
    by (cases x; cases y) auto
qed

lemma js_numeq_trans: "js_numeq a b \<Longrightarrow> js_numeq b c \<Longrightarrow> js_numeq a c"
  by (cases a; cases b) auto

lemma js_strict_eq_trans: "js_strict_eq x y \<Longrightarrow> js_strict_eq y z \<Longrightarrow> js_strict_eq x z"
  by (induction x y rule: js_strict_eq.induct; cases z) (auto dest: js_numeq_trans)

subsection \<open>Strings\<close>

definition starts_with :: "string \<Rightarrow> string \<Rightarrow> bool" where
  "starts_with p s = (take (length p) s = p)"

definition ends_with :: "string \<Rightarrow> string \<Rightarrow> bool" where
  "ends_with p s = (length p \<le> length s \<and> drop (length s - length p) s = p)"

text \<open>An optional string in a boolean position: absent and empty strings are falsy.\<close>

fun truthy :: "string option \<Rightarrow> bool" where
  "truthy None = False"
| "truthy (Some s) = (s \<noteq> [])"

text \<open>\<open>Array.prototype.join\<close>\<close>

fun join :: "string \<Rightarrow> string list \<Rightarrow> string" where
  "join sep [] = []"
| "join sep [x] = x"
| "join sep (x # xs) = x @ sep @ join sep xs"

text \<open>A natural number in a template string, and \<open>parseInt\<close> of a digit sequence.\<close>

definition digit_char :: "nat \<Rightarrow> char" where
  "digit_char d = char_of (48 + d)"

definition is_digit :: "char \<Rightarrow> bool" where
  "is_digit c \<longleftrightarrow> 48 \<le> (of_char c :: nat) \<and> (of_char c :: nat) \<le> 57"

fun nat_str :: "nat \<Rightarrow> string" where
  "nat_str n = (if n < 10 then [digit_char n] else nat_str (n div 10) @ [digit_char (n mod 10)])"

declare nat_str.simps [simp del]

definition str_nat :: "string \<Rightarrow> nat" where
  "str_nat s = foldl (\<lambda>a c. 10 * a + (of_char c - 48)) 0 s"

lemma of_digit_char: "d < 10 \<Longrightarrow> (of_char (digit_char d) :: nat) = 48 + d"
  by (simp add: digit_char_def of_char_mod_256)

lemma is_digit_char: "d < 10 \<Longrightarrow> is_digit (digit_char d)"
  by (simp add: is_digit_def of_digit_char)

lemma str_nat_snoc: "str_nat (s @ [c]) = 10 * str_nat s + (of_char c - 48)"
  by (simp add: str_nat_def)

lemma str_nat_str [simp]: "str_nat (nat_str n) = n"
proof (induction n rule: nat_str.induct)
  case (1 n)
  show ?case
  proof (cases "n < 10")
    case True
    then show ?thesis
      by (simp add: nat_str.simps[of n] str_nat_def of_digit_char)
  next
    case False
    with 1 show ?thesis
      by (simp add: nat_str.simps[of n] str_nat_snoc of_digit_char)
  qed
qed

lemma nat_str_digits: "c \<in> set (nat_str n) \<Longrightarrow> is_digit c"
proof (induction n rule: nat_str.induct)
  case (1 n)
  then show ?case
    by (cases "n < 10") (auto simp: nat_str.simps[of n] is_digit_char)
qed

lemma nat_str_nonempty [simp]: "nat_str n \<noteq> []"
  by (simp add: nat_str.simps[of n])

lemma takeWhile_digits: "\<not> is_digit c \<Longrightarrow> takeWhile is_digit (nat_str n @ c # r) = nat_str n"
  by (simp add: takeWhile_append2 nat_str_digits)

lemma nat_str_sep_inject:
  assumes "nat_str n @ c # r = nat_str m @ c # r'" and "\<not> is_digit c"
  shows "n = m"
proof -
  have "nat_str n = nat_str m"
    using takeWhile_digits[OF assms(2), of n r] takeWhile_digits[OF assms(2), of m r'] assms(1)
    by simp
  then show ?thesis
    using str_nat_str by metis
qed

lemma nth_update_if: "j < length xs \<Longrightarrow> xs[i := x] ! j = (if i = j then x else xs ! j)"
  by auto

subsection \<open>The JavaScript Map\<close>

type_synonym ('k, 'v) jmap = "('k \<times> 'v) list"

abbreviation jget :: "('k, 'v) jmap \<Rightarrow> 'k \<Rightarrow> 'v option" where
  "jget m k \<equiv> map_of m k"

abbreviation jset :: "'k \<Rightarrow> 'v \<Rightarrow> ('k, 'v) jmap \<Rightarrow> ('k, 'v) jmap" where
  "jset k v m \<equiv> AList.update k v m"

abbreviation jdelete :: "'k \<Rightarrow> ('k, 'v) jmap \<Rightarrow> ('k, 'v) jmap" where
  "jdelete k m \<equiv> AList.delete k m"

abbreviation jhas :: "('k, 'v) jmap \<Rightarrow> 'k \<Rightarrow> bool" where
  "jhas m k \<equiv> map_of m k \<noteq> None"

abbreviation jkeys :: "('k, 'v) jmap \<Rightarrow> 'k list" where
  "jkeys m \<equiv> map fst m"

abbreviation jvalues :: "('k, 'v) jmap \<Rightarrow> 'v list" where
  "jvalues m \<equiv> map snd m"

definition wf_map :: "('k, 'v) jmap \<Rightarrow> bool" where
  "wf_map m \<longleftrightarrow> distinct (jkeys m)"

lemma wf_map_Nil [wf_intros]: "wf_map []"
  by (simp add: wf_map_def)

lemma wf_map_set [wf_intros]: "wf_map m \<Longrightarrow> wf_map (jset k v m)"
  by (simp add: wf_map_def distinct_update)

lemma wf_map_delete [wf_intros]: "wf_map m \<Longrightarrow> wf_map (jdelete k m)"
  by (simp add: wf_map_def distinct_delete)

lemma wf_map_filter [wf_intros]: "wf_map m \<Longrightarrow> wf_map (filter P m)"
  by (simp add: wf_map_def distinct_map_filter)

lemma wf_map_tl [wf_intros]: "wf_map m \<Longrightarrow> wf_map (tl m)"
  by (cases m) (auto simp: wf_map_def)

lemma jget_set [jmap_simps]: "jget (jset k v m) k' = (if k' = k then Some v else jget m k')"
  by (simp add: update_conv')

lemma jget_delete [jmap_simps]: "jget (jdelete k m) k' = (if k' = k then None else jget m k')"
  by (simp add: delete_conv')

lemma jget_filter [jmap_simps]:
  "wf_map m \<Longrightarrow>
    jget (filter P m) k = (case jget m k of None \<Rightarrow> None | Some v \<Rightarrow> if P (k, v) then Some v else None)"
  by (induction m) (auto simp: wf_map_def map_of_eq_None_iff[THEN iffD2] image_iff split: option.splits)

lemma jget_in: "wf_map m \<Longrightarrow> (k, v) \<in> set m \<longleftrightarrow> jget m k = Some v"
  by (simp add: wf_map_def)

lemma jvalues_get: "wf_map m \<Longrightarrow> v \<in> set (jvalues m) \<longleftrightarrow> (\<exists>k. jget m k = Some v)"
  by (force simp: jget_in[symmetric])

lemma jhas_iff: "jhas m k \<longleftrightarrow> k \<in> fst ` set m"
  by (simp add: map_of_eq_None_iff)

lemma jvalues_I: "jget m k = Some v \<Longrightarrow> v \<in> set (jvalues m)"
  by (force dest: map_of_SomeD)

lemma jvalues_E: "wf_map m \<Longrightarrow> v \<in> set (jvalues m) \<Longrightarrow> \<exists>k. jget m k = Some v"
  by (simp only: jvalues_get)

lemma set_jset: "wf_map m \<Longrightarrow> set (jset k v m) = insert (k, v) {p \<in> set m. fst p \<noteq> k}"
proof -
  assume wf: "wf_map m"
  have "p \<in> set (jset k v m) \<longleftrightarrow> p = (k, v) \<or> (p \<in> set m \<and> fst p \<noteq> k)" for p
    using jget_in[OF wf_map_set[OF wf], of "fst p" "snd p" k v] jget_in[OF wf, of "fst p" "snd p"]
    by (cases p) (auto simp: jget_set split: if_splits)
  then show ?thesis by blast
qed

lemma set_jdelete: "set (jdelete k m) = {p \<in> set m. fst p \<noteq> k}"
  by (auto simp: AList.delete_eq)

lemma jset_new: "jget m k = None \<Longrightarrow> jset k v m = m @ [(k, v)]"
  by (induction m) auto

lemma length_jset: "length (jset k v m) = (if jhas m k then length m else Suc (length m))"
  by (induction m) auto

lemma length_jdelete_le: "length (jdelete k m) \<le> length m"
  by (simp add: AList.delete_eq)

lemma length_jdelete: "wf_map m \<Longrightarrow> jhas m k \<Longrightarrow> Suc (length (jdelete k m)) = length m"
proof (induction m)
  case (Cons p m)
  show ?case
  proof (cases "fst p = k")
    case True
    with Cons.prems have "k \<notin> fst ` set m"
      by (auto simp: wf_map_def)
    with True show ?thesis
      by (cases p) (simp add: delete_id)
  next
    case False
    with Cons show ?thesis
      by (cases p) (auto simp: wf_map_def)
  qed
qed simp

text \<open>Moving a key to the end, the way a least-recently-used map refreshes it.\<close>

lemma jset_jdelete: "jset k v (jdelete k m) = jdelete k m @ [(k, v)]"
  by (rule jset_new) (simp add: jget_delete)

text \<open>A map seen around one key: what a write to another key does to the part after it.\<close>

lemma jdelete_split:
  "k' \<noteq> k \<Longrightarrow> jdelete k' (xs @ (k, v) # ys) = jdelete k' xs @ (k, v) # jdelete k' ys"
  by (simp add: AList.delete_eq)

lemma jset_split:
  "k' \<noteq> k \<Longrightarrow> \<exists>xs' ys'. jset k' v' (xs @ (k, v) # ys) = xs' @ (k, v) # ys' \<and> length ys' \<le> Suc (length ys)"
proof (cases "k' \<in> fst ` set xs")
  case True
  assume "k' \<noteq> k"
  from True have "jset k' v' (xs @ (k, v) # ys) = jset k' v' xs @ (k, v) # ys"
    by (induction xs) auto
  then show ?thesis
    using le_Suc_eq by blast
next
  case False
  assume "k' \<noteq> k"
  with False have "jset k' v' (xs @ (k, v) # ys) = xs @ (k, v) # jset k' v' ys"
    by (induction xs) auto
  moreover have "length (jset k' v' ys) \<le> Suc (length ys)"
    by (simp add: length_jset)
  ultimately show ?thesis by blast
qed

lemma jset_here: "k \<notin> fst ` set xs \<Longrightarrow> jset k v' (xs @ (k, v) # ys) = xs @ (k, v') # ys"
  by (induction xs) auto

text \<open>Errors as values: go on with the result, unless it is an error.\<close>

definition then_do :: "'e + 'a \<Rightarrow> ('a \<Rightarrow> 'e + 'b) \<Rightarrow> 'e + 'b" where
  "then_do x f = (case x of Inl e \<Rightarrow> Inl e | Inr v \<Rightarrow> f v)"

lemma then_do_simps [simp]: "then_do (Inl e) f = Inl e" "then_do (Inr v) f = f v"
  by (simp_all add: then_do_def)

lemma then_do_Inr: "then_do x f = Inr y \<longleftrightarrow> (\<exists>v. x = Inr v \<and> f v = Inr y)"
  by (cases x) auto

end
