(* ===== verification/Errors.thy ===== *)
theory Errors
  imports Prelude
begin

text \<open>
  The stable error taxonomy of \<open>packages/core/src/errors.ts\<close>: categories, retryable
  codes, the structured envelope, and \<open>toStructuredError\<close>, which normalises any thrown
  value. The other components throw \<open>perr\<close> values, a code with its category: English
  messages are not modelled there.
\<close>

datatype error_category =
    CONFIG | VALIDATION | TRANSPORT | PROTOCOL | DEVICE | CAPABILITY | POLICY | SAFETY
  | LEASE | OPERATION | TIMEOUT | AUTH | MODULE | GENERATOR | UNSUPPORTED

datatype perr = PErr (err_code: string) (err_cat: error_category)

definition RETRYABLE_CODES :: "string list" where
  "RETRYABLE_CODES =
    [''TRANSPORT_DISCONNECTED'', ''TRANSPORT_TIMEOUT'', ''DEVICE_BUSY'', ''LEASE_EXPIRED'',
     ''OPERATION_TIMEOUT'', ''TRANSPORT_RECONNECTING'']"

record structured_error =
  se_code :: string
  se_category :: error_category
  se_message :: string
  se_retryable :: bool
  se_device :: "string option"
  se_capability :: "string option"
  se_operation :: "string option"
  se_details :: "jsrecord option"

text \<open>The options of the \<open>PinoutStructuredError\<close> constructor.\<close>

record structured_options =
  so_retryable :: "bool option"
  so_device :: "string option"
  so_capability :: "string option"
  so_operation :: "string option"
  so_details :: "jsrecord option"

record pinout_structured =
  ps_code :: string
  ps_category :: error_category
  ps_message :: string
  ps_retryable :: bool
  ps_device :: "string option"
  ps_capability :: "string option"
  ps_operation :: "string option"
  ps_details :: jsrecord

definition PinoutStructuredError ::
  "string \<Rightarrow> error_category \<Rightarrow> string \<Rightarrow> structured_options \<Rightarrow> pinout_structured" where
  "PinoutStructuredError code cat msg opts =
    \<lparr>ps_code = code, ps_category = cat, ps_message = msg,
     ps_retryable = (case so_retryable opts of Some r \<Rightarrow> r | None \<Rightarrow> code \<in> set RETRYABLE_CODES),
     ps_device = so_device opts, ps_capability = so_capability opts,
     ps_operation = so_operation opts,
     ps_details = (case so_details opts of Some d \<Rightarrow> d | None \<Rightarrow> [])\<rparr>"

text \<open>An optional field is serialised only when it is truthy.\<close>

definition keep_truthy :: "string option \<Rightarrow> string option" where
  "keep_truthy s = (if truthy s then s else None)"

definition toJSON :: "pinout_structured \<Rightarrow> structured_error" where
  "toJSON e =
    \<lparr>se_code = ps_code e, se_category = ps_category e, se_message = ps_message e,
     se_retryable = ps_retryable e, se_device = keep_truthy (ps_device e),
     se_capability = keep_truthy (ps_capability e), se_operation = keep_truthy (ps_operation e),
     se_details = (if ps_details e = [] then None else Some (ps_details e))\<rparr>"

definition classifyCode :: "string \<Rightarrow> error_category" where
  "classifyCode code =
    (if starts_with ''POLICY_'' code then POLICY
     else if starts_with ''SAFETY_'' code then SAFETY
     else if starts_with ''LEASE_'' code then LEASE
     else if starts_with ''MODULE_'' code then MODULE
     else if starts_with ''GENERATOR_'' code then GENERATOR
     else if starts_with ''TRANSPORT_'' code then TRANSPORT
     else if starts_with ''CONFIG_'' code then CONFIG
     else if starts_with ''AUTH_'' code then AUTH
     else if code = ''VALIDATION_ERROR'' then VALIDATION
     else if code = ''UNSUPPORTED_CAPABILITY'' then UNSUPPORTED
     else if code = ''PROTOCOL_ERROR'' then PROTOCOL
     else if code = ''TIMEOUT'' \<or> code = ''OPERATION_TIMEOUT'' then TIMEOUT
     else if code = ''DISCONNECTED'' \<or> code = ''TRANSPORT_ERROR'' then TRANSPORT
     else if code = ''ABORTED'' then OPERATION
     else DEVICE)"

text \<open>
  A thrown value by its class: a structured error, another \<open>PinoutError\<close> (its code and
  message), any other \<open>Error\<close>, or a value that is not an error (its \<open>String(\<dots>)\<close>).
\<close>

datatype thrown =
    ThrownStructured pinout_structured
  | ThrownPinout string string
  | ThrownError string
  | ThrownOther string

record error_context =
  ec_device :: "string option"
  ec_capability :: "string option"
  ec_operation :: "string option"

fun toStructuredError :: "thrown \<Rightarrow> error_context \<Rightarrow> structured_error" where
  "toStructuredError (ThrownStructured e) ctx = toJSON e"
| "toStructuredError (ThrownPinout code msg) ctx =
    \<lparr>se_code = code, se_category = classifyCode code, se_message = msg,
     se_retryable = (code \<in> set RETRYABLE_CODES), se_device = keep_truthy (ec_device ctx),
     se_capability = keep_truthy (ec_capability ctx),
     se_operation = keep_truthy (ec_operation ctx), se_details = None\<rparr>"
| "toStructuredError (ThrownError msg) ctx =
    \<lparr>se_code = ''INTERNAL_ERROR'', se_category = DEVICE, se_message = msg,
     se_retryable = False, se_device = keep_truthy (ec_device ctx),
     se_capability = None, se_operation = None, se_details = None\<rparr>"
| "toStructuredError (ThrownOther s) ctx =
    \<lparr>se_code = ''INTERNAL_ERROR'', se_category = DEVICE, se_message = s,
     se_retryable = False, se_device = None,
     se_capability = None, se_operation = None, se_details = None\<rparr>"

lemma classifyCode_lease: "classifyCode (''LEASE_'' @ s) = LEASE"
  by (simp add: classifyCode_def starts_with_def)

lemma classifyCode_safety: "classifyCode (''SAFETY_'' @ s) = SAFETY"
  by (simp add: classifyCode_def starts_with_def)

end
