(* ===== verification/Halt.thy ===== *)
theory Halt
  imports Errors
begin

text \<open>
  The safety halt coordinator, \<open>packages/core/src/halt/haltCoordinator.ts\<close>: the state with
  its two sticky flags, every operation, the gate that physical invocations consult, and the
  delivery of state changes to listeners. The lemmas show what an emergency stop guarantees,
  that recovery takes two steps, and that the delivered changes are a complete audit trail.
\<close>

datatype safety_state = NORMAL | RESTRICTED | HALTED | ESTOP_REQUESTED | FAULTED

record state_change =
  ch_from :: safety_state
  ch_to :: safety_state
  ch_reason :: string
  ch_actor :: "string option"
  ch_at :: time

text \<open>
  Listeners are numbered. A delivery records who was called: \<open>Some l\<close> for a subscribed
  listener, \<open>None\<close> for the constructor's \<open>onStateChange\<close>, in call order (latest last).
  Callbacks do not call back into the coordinator.
\<close>

record halt_coordinator =
  currentState :: safety_state
  currentReason :: string
  estopRequested :: bool
  faulted :: bool
  listeners :: "nat list"
  hasExternal :: bool
  deliveries :: "(nat option \<times> state_change) list"

definition HaltCoordinator :: "bool \<Rightarrow> halt_coordinator" where
  "HaltCoordinator ext =
    \<lparr>currentState = NORMAL, currentReason = '''', estopRequested = False, faulted = False,
     listeners = [], hasExternal = ext, deliveries = []\<rparr>"

record halt_verdict =
  v_allowed :: bool
  v_code :: "string option"
  v_message :: "string option"

definition or_default :: "string \<Rightarrow> string \<Rightarrow> string" where
  "or_default r d = (if r = '''' then d else r)"

definition gate :: "halt_coordinator \<Rightarrow> halt_verdict" where
  "gate h =
    (case currentState h of
      NORMAL \<Rightarrow> \<lparr>v_allowed = True, v_code = None, v_message = None\<rparr>
    | RESTRICTED \<Rightarrow> \<lparr>v_allowed = True, v_code = None, v_message = None\<rparr>
    | HALTED \<Rightarrow> \<lparr>v_allowed = False, v_code = Some ''SAFETY_HALTED'',
        v_message = Some (or_default (currentReason h) ''Runtime is halted.'')\<rparr>
    | ESTOP_REQUESTED \<Rightarrow> \<lparr>v_allowed = False, v_code = Some ''SAFETY_ESTOP_REQUESTED'',
        v_message = Some (or_default (currentReason h) ''Emergency stop requested.'')\<rparr>
    | FAULTED \<Rightarrow> \<lparr>v_allowed = False, v_code = Some ''SAFETY_FAULTED'',
        v_message = Some (or_default (currentReason h) ''Runtime is faulted.'')\<rparr>)"

definition enforceGate :: "halt_coordinator \<Rightarrow> perr + unit" where
  "enforceGate h =
    (if v_allowed (gate h) then Inr ()
     else Inl (PErr (case v_code (gate h) of Some c \<Rightarrow> c | None \<Rightarrow> ''SAFETY_HALTED'') SAFETY))"

definition transition_halt ::
  "safety_state \<Rightarrow> string \<Rightarrow> string option \<Rightarrow> time \<Rightarrow> halt_coordinator \<Rightarrow> halt_coordinator" where
  "transition_halt to rsn actor now h =
    (if currentState h = to \<and> currentReason h = rsn then h
     else
       let change = \<lparr>ch_from = currentState h, ch_to = to, ch_reason = rsn,
                     ch_actor = actor, ch_at = now\<rparr>
       in h\<lparr>currentState := to, currentReason := rsn,
            deliveries := deliveries h @ map (\<lambda>l. (Some l, change)) (listeners h)
              @ (if hasExternal h then [(None, change)] else [])\<rparr>)"

definition halt :: "string \<Rightarrow> string option \<Rightarrow> time \<Rightarrow> halt_coordinator \<Rightarrow> halt_coordinator" where
  "halt rsn actor now h = transition_halt HALTED rsn actor now h"

definition requestEstop ::
  "string \<Rightarrow> string option \<Rightarrow> time \<Rightarrow> halt_coordinator \<Rightarrow> halt_coordinator" where
  "requestEstop rsn actor now h =
    transition_halt ESTOP_REQUESTED rsn actor now (h\<lparr>estopRequested := True\<rparr>)"

definition clearEstop :: "string option \<Rightarrow> time \<Rightarrow> halt_coordinator \<Rightarrow> halt_coordinator" where
  "clearEstop actor now h =
    (if \<not> estopRequested h then h
     else
       let h' = h\<lparr>estopRequested := False\<rparr>
       in if currentState h' = ESTOP_REQUESTED
          then transition_halt HALTED ''Estop cleared; awaiting explicit resume.'' actor now h'
          else h')"

definition fault :: "string \<Rightarrow> string option \<Rightarrow> time \<Rightarrow> halt_coordinator \<Rightarrow> halt_coordinator" where
  "fault rsn actor now h = transition_halt FAULTED rsn actor now (h\<lparr>faulted := True\<rparr>)"

definition clearFault :: "string option \<Rightarrow> time \<Rightarrow> halt_coordinator \<Rightarrow> halt_coordinator" where
  "clearFault actor now h =
    (if \<not> faulted h then h
     else
       let h' = h\<lparr>faulted := False\<rparr>
       in if currentState h' = FAULTED
          then transition_halt NORMAL ''Fault cleared.'' actor now h'
          else h')"

definition resume ::
  "string \<Rightarrow> string option \<Rightarrow> time \<Rightarrow> halt_coordinator \<Rightarrow> perr + halt_coordinator" where
  "resume rsn actor now h =
    (if estopRequested h then Inl (PErr ''SAFETY_ESTOP_STILL_ACTIVE'' SAFETY)
     else if faulted h then Inl (PErr ''SAFETY_FAULT_STILL_ACTIVE'' SAFETY)
     else if currentState h = HALTED \<or> currentState h = RESTRICTED
     then Inr (transition_halt NORMAL rsn actor now h)
     else Inr h)"

definition restrict ::
  "string \<Rightarrow> string option \<Rightarrow> time \<Rightarrow> halt_coordinator \<Rightarrow> halt_coordinator" where
  "restrict rsn actor now h =
    (if currentState h = NORMAL then transition_halt RESTRICTED rsn actor now h else h)"

definition subscribe_halt :: "nat \<Rightarrow> halt_coordinator \<Rightarrow> halt_coordinator" where
  "subscribe_halt l h = h\<lparr>listeners := (if l \<in> set (listeners h) then listeners h else listeners h @ [l])\<rparr>"

definition unsubscribe_halt :: "nat \<Rightarrow> halt_coordinator \<Rightarrow> halt_coordinator" where
  "unsubscribe_halt l h = h\<lparr>listeners := removeAll l (listeners h)\<rparr>"

fun safetyStateEventName :: "safety_state \<Rightarrow> string" where
  "safetyStateEventName NORMAL = ''safety.resumed''"
| "safetyStateEventName RESTRICTED = ''safety.restricted''"
| "safetyStateEventName HALTED = ''safety.halted''"
| "safetyStateEventName ESTOP_REQUESTED = ''safety.estop_requested''"
| "safetyStateEventName FAULTED = ''safety.faulted''"

subsection \<open>Calls and runs\<close>

text \<open>
  A call of a public method with its arguments; a rejected \<open>resume\<close> throws before it
  writes, so the state is unchanged.
\<close>

datatype halt_call =
    Halt string "string option" time
  | RequestEstop string "string option" time
  | ClearEstop "string option" time
  | Fault string "string option" time
  | ClearFault "string option" time
  | Resume string "string option" time
  | Restrict string "string option" time
  | Subscribe nat
  | Unsubscribe nat

fun halt_apply :: "halt_coordinator \<Rightarrow> halt_call \<Rightarrow> halt_coordinator" where
  "halt_apply h (Halt r a t) = halt r a t h"
| "halt_apply h (RequestEstop r a t) = requestEstop r a t h"
| "halt_apply h (ClearEstop a t) = clearEstop a t h"
| "halt_apply h (Fault r a t) = fault r a t h"
| "halt_apply h (ClearFault a t) = clearFault a t h"
| "halt_apply h (Resume r a t) = (case resume r a t h of Inl _ \<Rightarrow> h | Inr h' \<Rightarrow> h')"
| "halt_apply h (Restrict r a t) = restrict r a t h"
| "halt_apply h (Subscribe l) = subscribe_halt l h"
| "halt_apply h (Unsubscribe l) = unsubscribe_halt l h"

definition halt_run :: "halt_coordinator \<Rightarrow> halt_call list \<Rightarrow> halt_coordinator" where
  "halt_run h cs = foldl halt_apply h cs"

fun is_ClearEstop :: "halt_call \<Rightarrow> bool" where
  "is_ClearEstop (ClearEstop _ _) = True"
| "is_ClearEstop _ = False"

fun is_Fault :: "halt_call \<Rightarrow> bool" where
  "is_Fault (Fault _ _ _) = True"
| "is_Fault _ = False"

fun is_Resume :: "halt_call \<Rightarrow> bool" where
  "is_Resume (Resume _ _ _) = True"
| "is_Resume _ = False"

fun is_ClearFault :: "halt_call \<Rightarrow> bool" where
  "is_ClearFault (ClearFault _ _) = True"
| "is_ClearFault _ = False"

lemmas halt_op_defs = halt_def requestEstop_def clearEstop_def fault_def clearFault_def
  resume_def restrict_def subscribe_halt_def unsubscribe_halt_def

lemma halt_run_simps [simp]:
  "halt_run h [] = h"
  "halt_run h (c # cs) = halt_run (halt_apply h c) cs"
  by (simp_all add: halt_run_def)

lemma transition_halt_fields [simp]:
  "currentState (transition_halt to r a t h) = to"
  "currentReason (transition_halt to r a t h) = r"
  "estopRequested (transition_halt to r a t h) = estopRequested h"
  "faulted (transition_halt to r a t h) = faulted h"
  "listeners (transition_halt to r a t h) = listeners h"
  "hasExternal (transition_halt to r a t h) = hasExternal h"
  by (auto simp: transition_halt_def Let_def)

lemma gate_allowed: "v_allowed (gate h) \<longleftrightarrow> currentState h \<in> {NORMAL, RESTRICTED}"
  by (cases "currentState h") (auto simp: gate_def)

lemma enforceGate_ok: "enforceGate h = Inr () \<longleftrightarrow> v_allowed (gate h)"
  by (simp add: enforceGate_def)

text \<open>The states in which an emergency stop holds and no fault has displaced it.\<close>

definition estop_held :: "halt_coordinator \<Rightarrow> bool" where
  "estop_held h \<longleftrightarrow> estopRequested h \<and> currentState h \<in> {HALTED, ESTOP_REQUESTED}"

lemma estop_held_apply:
  "estop_held h \<Longrightarrow> \<not> is_ClearEstop c \<Longrightarrow> \<not> is_Fault c \<Longrightarrow> estop_held (halt_apply h c)"
  by (cases c) (auto simp: estop_held_def halt_op_defs Let_def)

lemma estop_held_run:
  "estop_held h \<Longrightarrow> (\<And>c. c \<in> set cs \<Longrightarrow> \<not> is_ClearEstop c \<and> \<not> is_Fault c) \<Longrightarrow>
    estop_held (halt_run h cs)"
  by (induction cs arbitrary: h) (auto intro: estop_held_apply)

lemma estop_held_gate: "estop_held h \<Longrightarrow> \<not> v_allowed (gate h)"
  by (auto simp: estop_held_def gate_allowed)

text \<open>Without a resume and without clearing a fault, no call opens a closed gate.\<close>

lemma closed_gate_apply:
  "\<not> v_allowed (gate h) \<Longrightarrow> \<not> is_Resume c \<Longrightarrow> \<not> is_ClearFault c \<Longrightarrow>
    \<not> v_allowed (gate (halt_apply h c))"
  by (cases c) (auto simp: gate_allowed halt_op_defs Let_def)

lemma closed_gate_run:
  "\<not> v_allowed (gate h) \<Longrightarrow> (\<And>c. c \<in> set cs \<Longrightarrow> \<not> is_Resume c \<and> \<not> is_ClearFault c) \<Longrightarrow>
    \<not> v_allowed (gate (halt_run h cs))"
proof (induction cs arbitrary: h)
  case (Cons c cs)
  then show ?case
    using closed_gate_apply[of h c] by simp
qed simp

subsection \<open>The audit trail\<close>

text \<open>The changes delivered to the external observer, oldest first.\<close>

definition external_changes :: "halt_coordinator \<Rightarrow> state_change list" where
  "external_changes h = map snd (filter (\<lambda>d. fst d = None) (deliveries h))"

fun change_path :: "safety_state \<Rightarrow> state_change list \<Rightarrow> safety_state \<Rightarrow> bool" where
  "change_path s [] t = (s = t)"
| "change_path s (c # cs) t = (ch_from c = s \<and> change_path (ch_to c) cs t)"

lemma change_path_snoc [simp]:
  "change_path s (cs @ [c]) t \<longleftrightarrow> change_path s cs (ch_from c) \<and> ch_to c = t"
  by (induction cs arbitrary: s) auto

lemma external_changes_transition:
  "external_changes (transition_halt to r a t h) =
    external_changes h @
      (if (currentState h = to \<and> currentReason h = r) \<or> \<not> hasExternal h then []
       else [\<lparr>ch_from = currentState h, ch_to = to, ch_reason = r, ch_actor = a, ch_at = t\<rparr>])"
  by (auto simp: transition_halt_def external_changes_def Let_def)

lemma external_changes_frame [simp]:
  "external_changes (h\<lparr>estopRequested := b\<rparr>) = external_changes h"
  "external_changes (h\<lparr>faulted := b\<rparr>) = external_changes h"
  "external_changes (h\<lparr>listeners := ls\<rparr>) = external_changes h"
  by (simp_all add: external_changes_def)

definition audited :: "halt_coordinator \<Rightarrow> bool" where
  "audited h \<longleftrightarrow> hasExternal h \<and> change_path NORMAL (external_changes h) (currentState h)"

lemma audited_transition: "audited h \<Longrightarrow> audited (transition_halt to r a t h)"
  by (auto simp: audited_def external_changes_transition)

lemma audited_frame [simp]:
  "audited (h\<lparr>estopRequested := b\<rparr>) = audited h"
  "audited (h\<lparr>faulted := b\<rparr>) = audited h"
  "audited (h\<lparr>listeners := ls\<rparr>) = audited h"
  by (simp_all add: audited_def)

lemma audited_apply: "audited h \<Longrightarrow> audited (halt_apply h c)"
  by (cases c) (auto simp: halt_op_defs Let_def intro: audited_transition)

lemma audited_run: "audited h \<Longrightarrow> audited (halt_run h cs)"
  by (induction cs arbitrary: h) (auto intro: audited_apply)

subsection \<open>Properties\<close>

text \<open>C6: After an emergency stop was requested, in whatever state, the gate stays closed
  through every sequence of calls that contains neither \<open>clearEstop\<close> nor a new \<open>fault\<close>:
  halts, resumes, restrictions and fault clearings cannot reopen it, and every physical
  invocation is refused with a safety error.\<close>

theorem estop_sticky:
  assumes "\<forall>c\<in>set cs. \<not> is_ClearEstop c \<and> \<not> is_Fault c"
  shows "\<not> v_allowed (gate (halt_run (requestEstop r a t h) cs)) \<and>
    (\<exists>code. enforceGate (halt_run (requestEstop r a t h) cs) = Inl (PErr code SAFETY))"
proof -
  have "estop_held (requestEstop r a t h)"
    by (simp add: estop_held_def requestEstop_def)
  then have "estop_held (halt_run (requestEstop r a t h) cs)"
    using assms by (auto intro: estop_held_run)
  then show ?thesis
    by (auto dest: estop_held_gate simp: enforceGate_def)
qed

theorem estop_sticky_witness:
  "\<not> v_allowed (gate (halt_run (requestEstop ''smoke'' None 5 (HaltCoordinator True))
      [Resume ''go'' None 6, Halt ''again'' (Some ''op'') 7, ClearFault None 8, Resume ''go'' None 9]))"
  using estop_sticky[of "[Resume ''go'' None 6, Halt ''again'' (Some ''op'') 7, ClearFault None 8,
    Resume ''go'' None 9]" "''smoke''" None 5 "HaltCoordinator True"]
  by simp

text \<open>Recovery from an emergency stop takes two explicit steps. While the stop is active
  \<open>resume\<close> fails with \<open>SAFETY_ESTOP_STILL_ACTIVE\<close>; \<open>clearEstop\<close> alone leaves the gate
  closed (the runtime is \<open>HALTED\<close>); \<open>clearEstop\<close> and then \<open>resume\<close> returns to
  \<open>NORMAL\<close> with the gate open, provided no fault is pending.\<close>

theorem estop_two_step_recovery:
  assumes "\<not> faulted h"
  shows "resume r2 a2 t2 (requestEstop r a t h) = Inl (PErr ''SAFETY_ESTOP_STILL_ACTIVE'' SAFETY) \<and>
    currentState (clearEstop a1 t1 (requestEstop r a t h)) = HALTED \<and>
    \<not> v_allowed (gate (clearEstop a1 t1 (requestEstop r a t h))) \<and>
    (\<exists>h'. resume r2 a2 t2 (clearEstop a1 t1 (requestEstop r a t h)) = Inr h' \<and>
      currentState h' = NORMAL \<and> \<not> estopRequested h' \<and> enforceGate h' = Inr ())"
  using assms by (auto simp: resume_def clearEstop_def requestEstop_def Let_def gate_allowed enforceGate_ok)

text \<open>The emergency stop is not sticky across faults: raising a fault and clearing it
  after an emergency stop puts the coordinator back to \<open>NORMAL\<close> and opens the gate, although
  the stop was never cleared (\<open>isEstopRequested\<close> is still true and \<open>resume\<close> would still
  refuse).\<close>

theorem clear_fault_bypasses_estop:
  "let h' = clearFault a3 t3 (fault r2 a2 t2 (requestEstop r1 a1 t1 h)) in
    currentState h' = NORMAL \<and> enforceGate h' = Inr () \<and> estopRequested h' \<and>
    resume r4 a4 t4 h' = Inl (PErr ''SAFETY_ESTOP_STILL_ACTIVE'' SAFETY)"
  by (simp add: Let_def clearFault_def fault_def requestEstop_def enforceGate_ok gate_allowed resume_def)

text \<open>The audit trail is complete: from a fresh coordinator, through any calls, the
  changes delivered to \<open>onStateChange\<close> form an unbroken chain from \<open>NORMAL\<close> to the
  current state, each starting where the one before ended.\<close>

theorem halt_audit_complete:
  "change_path NORMAL (external_changes (halt_run (HaltCoordinator True) cs))
    (currentState (halt_run (HaltCoordinator True) cs))"
proof -
  have "audited (HaltCoordinator True)"
    by (simp add: audited_def HaltCoordinator_def external_changes_def)
  then show ?thesis
    using audited_run by (auto simp: audited_def)
qed

end
