(* ===== verification/Lease.thy ===== *)
theory Lease
  imports Errors
begin

text \<open>
  Resource leases, \<open>packages/core/src/lease/leaseManager.ts\<close>: the manager's state, every
  public method with its lazy reaping of expired leases, and the contract the policy layer
  relies on (locale \<open>lease_authority\<close>). The lemmas show mutual exclusion, that a granted
  lease gives access until it expires, that foreign calls cannot touch a lease, and that a
  crashed owner loses its lease after the maximal time to live.
\<close>

datatype lease_mode = Exclusive | SharedRead

datatype lease_scope =
    DeviceScope string
  | CapabilityScope string "string list"

fun scope_device :: "lease_scope \<Rightarrow> string" where
  "scope_device (DeviceScope d) = d"
| "scope_device (CapabilityScope d _) = d"

record lease =
  l_id :: string
  l_mode :: lease_mode
  l_scope :: lease_scope
  l_owner :: string
  l_createdAt :: time
  l_expiresAt :: time
  l_renewable :: bool

record lease_manager =
  lm_leases :: "(string, lease) jmap"
  lm_sequence :: nat
  lm_maxTtl :: time

definition DEFAULT_TTL_MS :: time where
  "DEFAULT_TTL_MS = 60000"

definition DEFAULT_MAX_LEASE_TTL_MS :: time where
  "DEFAULT_MAX_LEASE_TTL_MS = 300000"

definition LeaseManager :: "time option \<Rightarrow> lease_manager" where
  "LeaseManager maxTtl =
    \<lparr>lm_leases = [], lm_sequence = 0,
     lm_maxTtl = (case maxTtl of Some m \<Rightarrow> m | None \<Rightarrow> DEFAULT_MAX_LEASE_TTL_MS)\<rparr>"

record acquire_options =
  ao_scope :: lease_scope
  ao_owner :: string
  ao_ttl :: "jsnum option"
  ao_mode :: "lease_mode option"

text \<open>The structured errors the manager throws, with the details they carry.\<close>

datatype lease_error =
    LeaseConflict string string time
  | LeaseExpired
  | LeaseNotOwner string

fun lease_perr :: "lease_error \<Rightarrow> perr" where
  "lease_perr (LeaseConflict _ _ _) = PErr ''LEASE_CONFLICT'' LEASE"
| "lease_perr LeaseExpired = PErr ''LEASE_EXPIRED'' LEASE"
| "lease_perr (LeaseNotOwner _) = PErr ''LEASE_NOT_OWNER'' AUTH"

subsection \<open>Helpers of the class\<close>

definition clampTtl :: "time \<Rightarrow> jsnum \<Rightarrow> time" where
  "clampTtl maxTtl ttl =
    (case ttl of Fin t \<Rightarrow> (if t < 1 then 1 else min t maxTtl) | _ \<Rightarrow> 1)"

definition isExpired :: "time \<Rightarrow> lease \<Rightarrow> bool" where
  "isExpired now l = (l_expiresAt l \<le> now)"

definition leaseCoversDevice :: "lease \<Rightarrow> string \<Rightarrow> bool" where
  "leaseCoversDevice l d = (scope_device (l_scope l) = d)"

definition scopesOverlap :: "lease \<Rightarrow> lease_scope \<Rightarrow> bool" where
  "scopesOverlap a b =
    (if \<not> leaseCoversDevice a (scope_device b) then False
     else (case b of
       DeviceScope _ \<Rightarrow> True
     | CapabilityScope _ bcaps \<Rightarrow>
         (case l_scope a of
           DeviceScope _ \<Rightarrow> True
         | CapabilityScope _ acaps \<Rightarrow> (\<exists>c\<in>set bcaps. c \<in> set acaps))))"

definition drainExpired :: "time \<Rightarrow> lease_manager \<Rightarrow> lease list \<times> lease_manager" where
  "drainExpired now m =
    (map snd (filter (\<lambda>p. isExpired now (snd p)) (lm_leases m)),
     m\<lparr>lm_leases := filter (\<lambda>p. \<not> isExpired now (snd p)) (lm_leases m)\<rparr>)"

definition reapExpired :: "time \<Rightarrow> lease_manager \<Rightarrow> nat \<times> lease_manager" where
  "reapExpired now m = (length (fst (drainExpired now m)), snd (drainExpired now m))"

subsection \<open>Public methods\<close>

text \<open>The scan of \<open>acquire\<close>: the first conflicting lease, in insertion order.\<close>

fun find_conflict :: "lease_mode \<Rightarrow> lease_scope \<Rightarrow> lease list \<Rightarrow> lease option" where
  "find_conflict mode sc [] = None"
| "find_conflict mode sc (l # ls) =
    (if \<not> scopesOverlap l sc then find_conflict mode sc ls
     else if l_mode l = Exclusive \<or> mode = Exclusive then Some l
     else find_conflict mode sc ls)"

definition lease_id :: "nat \<Rightarrow> string \<Rightarrow> string" where
  "lease_id n rnd = ''lease_'' @ nat_str n @ CHR ''_'' # rnd"

text \<open>\<open>rnd\<close> is the random suffix of the id; a thrown call leaves the reaped state.\<close>

definition acquire ::
  "acquire_options \<Rightarrow> string \<Rightarrow> time \<Rightarrow> lease_manager \<Rightarrow> (lease_error + lease) \<times> lease_manager" where
  "acquire opts rnd now m0 =
    (let m = snd (reapExpired now m0);
         mode = (case ao_mode opts of Some x \<Rightarrow> x | None \<Rightarrow> Exclusive)
     in case find_conflict mode (ao_scope opts) (jvalues (lm_leases m)) of
          Some l \<Rightarrow> (Inl (LeaseConflict (l_id l) (l_owner l) (l_expiresAt l)), m)
        | None \<Rightarrow>
            let n = Suc (lm_sequence m);
                l = \<lparr>l_id = lease_id n rnd, l_mode = mode, l_scope = ao_scope opts,
                     l_owner = ao_owner opts, l_createdAt = now,
                     l_expiresAt = now + clampTtl (lm_maxTtl m)
                       (case ao_ttl opts of Some t \<Rightarrow> t | None \<Rightarrow> Fin DEFAULT_TTL_MS),
                     l_renewable = True\<rparr>
            in (Inr l, m\<lparr>lm_leases := jset (l_id l) l (lm_leases m), lm_sequence := n\<rparr>))"

definition renew ::
  "string \<Rightarrow> string \<Rightarrow> jsnum option \<Rightarrow> time \<Rightarrow> lease_manager \<Rightarrow> (lease_error + lease) \<times> lease_manager" where
  "renew lid own ttl now m =
    (case jget (lm_leases m) lid of
       None \<Rightarrow> (Inl LeaseExpired, m\<lparr>lm_leases := jdelete lid (lm_leases m)\<rparr>)
     | Some l \<Rightarrow>
         if isExpired now l then (Inl LeaseExpired, m\<lparr>lm_leases := jdelete lid (lm_leases m)\<rparr>)
         else if l_owner l \<noteq> own then (Inl (LeaseNotOwner (l_owner l)), m)
         else
           let l' = l\<lparr>l_expiresAt := now + clampTtl (lm_maxTtl m)
                       (case ttl of Some t \<Rightarrow> t | None \<Rightarrow> Fin DEFAULT_TTL_MS)\<rparr>
           in (Inr l', m\<lparr>lm_leases := jset lid l' (lm_leases m)\<rparr>))"

definition release :: "string \<Rightarrow> string \<Rightarrow> lease_manager \<Rightarrow> (lease_error + unit) \<times> lease_manager" where
  "release lid own m =
    (case jget (lm_leases m) lid of
       None \<Rightarrow> (Inr (), m)
     | Some l \<Rightarrow>
         if l_owner l \<noteq> own then (Inl (LeaseNotOwner (l_owner l)), m)
         else (Inr (), m\<lparr>lm_leases := jdelete lid (lm_leases m)\<rparr>))"

definition forceRelease :: "string \<Rightarrow> lease_manager \<Rightarrow> lease_manager" where
  "forceRelease lid m = m\<lparr>lm_leases := jdelete lid (lm_leases m)\<rparr>"

definition get_lease :: "string \<Rightarrow> time \<Rightarrow> lease_manager \<Rightarrow> lease option \<times> lease_manager" where
  "get_lease lid now m =
    (case jget (lm_leases m) lid of
       None \<Rightarrow> (None, m)
     | Some l \<Rightarrow>
         if isExpired now l then (None, m\<lparr>lm_leases := jdelete lid (lm_leases m)\<rparr>)
         else (Some l, m))"

definition list_leases ::
  "string option \<Rightarrow> string option \<Rightarrow> time \<Rightarrow> lease_manager \<Rightarrow> lease list \<times> lease_manager" where
  "list_leases fowner fdev now m0 =
    (let m = snd (reapExpired now m0)
     in (filter (\<lambda>l. \<not> (truthy fowner \<and> Some (l_owner l) \<noteq> fowner)
                   \<and> \<not> (truthy fdev \<and> \<not> leaseCoversDevice l (the fdev)))
           (jvalues (lm_leases m)), m))"

text \<open>The scan of \<open>permits\<close>; the result carries the conflicting foreign lease, if any.\<close>

definition covers :: "lease \<Rightarrow> string \<Rightarrow> string \<Rightarrow> bool" where
  "covers l d c =
    (leaseCoversDevice l d \<and>
     (case l_scope l of DeviceScope _ \<Rightarrow> True | CapabilityScope _ caps \<Rightarrow> c \<in> set caps))"

fun permits_scan ::
  "string \<Rightarrow> string \<Rightarrow> string \<Rightarrow> lease_mode \<Rightarrow> bool \<Rightarrow> lease list \<Rightarrow> bool \<times> lease option" where
  "permits_scan own d c mode has [] = (has, None)"
| "permits_scan own d c mode has (l # ls) =
    (if \<not> covers l d c then permits_scan own d c mode has ls
     else if l_owner l = own then
       permits_scan own d c mode (has \<or> mode = SharedRead \<or> l_mode l = Exclusive) ls
     else if mode = SharedRead \<and> l_mode l = SharedRead then permits_scan own d c mode has ls
     else (False, Some l))"

definition permits ::
  "string \<Rightarrow> string \<Rightarrow> string \<Rightarrow> lease_mode \<Rightarrow> time \<Rightarrow> lease_manager \<Rightarrow>
    (bool \<times> lease option) \<times> lease_manager" where
  "permits own d c mode now m0 =
    (let m = snd (reapExpired now m0)
     in (permits_scan own d c mode False (jvalues (lm_leases m)), m))"

subsection \<open>Calls and runs\<close>

datatype lease_call =
    Acquire acquire_options string time
  | Renew string string "jsnum option" time
  | Release string string
  | ForceRelease string
  | GetLease string time
  | ListLeases "string option" "string option" time
  | Permits string string string lease_mode time
  | Drain time

fun lease_apply :: "lease_manager \<Rightarrow> lease_call \<Rightarrow> lease_manager" where
  "lease_apply m (Acquire opts rnd t) = snd (acquire opts rnd t m)"
| "lease_apply m (Renew i o' ttl t) = snd (renew i o' ttl t m)"
| "lease_apply m (Release i o') = snd (release i o' m)"
| "lease_apply m (ForceRelease i) = forceRelease i m"
| "lease_apply m (GetLease i t) = snd (get_lease i t m)"
| "lease_apply m (ListLeases a b t) = snd (list_leases a b t m)"
| "lease_apply m (Permits o' d c md t) = snd (permits o' d c md t m)"
| "lease_apply m (Drain t) = snd (drainExpired t m)"

definition lease_run :: "lease_manager \<Rightarrow> lease_call list \<Rightarrow> lease_manager" where
  "lease_run m cs = foldl lease_apply m cs"

inductive lease_reachable :: "lease_manager \<Rightarrow> bool" where
  init: "lease_reachable (LeaseManager maxTtl)"
| call: "lease_reachable m \<Longrightarrow> lease_reachable (lease_apply m c)"

lemma lease_run_simps [simp]:
  "lease_run m [] = m"
  "lease_run m (c # cs) = lease_run (lease_apply m c) cs"
  by (simp_all add: lease_run_def)

lemma lease_reachable_run: "lease_reachable m \<Longrightarrow> lease_reachable (lease_run m cs)"
  by (induction cs arbitrary: m) (auto intro: lease_reachable.call)

subsection \<open>The invariant\<close>

definition same_claim :: "lease \<Rightarrow> lease \<Rightarrow> bool" where
  "same_claim a b \<longleftrightarrow> l_id a = l_id b \<and> l_mode a = l_mode b \<and> l_scope a = l_scope b \<and> l_owner a = l_owner b"

definition lease_inv :: "lease_manager \<Rightarrow> bool" where
  "lease_inv m \<longleftrightarrow>
    wf_map (lm_leases m) \<and>
    (\<forall>k l. jget (lm_leases m) k = Some l \<longrightarrow>
      l_id l = k \<and> (\<exists>n r. k = lease_id n r \<and> n \<le> lm_sequence m)) \<and>
    (\<forall>k1 k2 l1 l2. jget (lm_leases m) k1 = Some l1 \<longrightarrow> jget (lm_leases m) k2 = Some l2 \<longrightarrow>
      k1 \<noteq> k2 \<longrightarrow> scopesOverlap l1 (l_scope l2) \<longrightarrow> l_mode l1 = SharedRead \<and> l_mode l2 = SharedRead)"

lemma lease_invI:
  assumes "wf_map (lm_leases m)"
    and "\<And>k l. jget (lm_leases m) k = Some l \<Longrightarrow>
      l_id l = k \<and> (\<exists>n r. k = lease_id n r \<and> n \<le> lm_sequence m)"
    and "\<And>k1 k2 a b. jget (lm_leases m) k1 = Some a \<Longrightarrow> jget (lm_leases m) k2 = Some b \<Longrightarrow> k1 \<noteq> k2 \<Longrightarrow>
      scopesOverlap a (l_scope b) \<Longrightarrow> l_mode a = SharedRead \<and> l_mode b = SharedRead"
  shows "lease_inv m"
  unfolding lease_inv_def using assms by blast

lemma scopesOverlap_sym: "scopesOverlap a (l_scope b) = scopesOverlap b (l_scope a)"
  by (cases "l_scope a"; cases "l_scope b") (auto simp: scopesOverlap_def leaseCoversDevice_def)

lemma scopesOverlap_cong: "l_scope a = l_scope a' \<Longrightarrow> scopesOverlap a s = scopesOverlap a' s"
  by (cases s) (simp_all add: scopesOverlap_def leaseCoversDevice_def)

lemma lease_id_inject: "lease_id n r = lease_id n' r' \<Longrightarrow> n = n'"
proof -
  assume "lease_id n r = lease_id n' r'"
  moreover have "\<not> is_digit CHR ''_''"
    by (simp add: is_digit_def)
  ultimately show "n = n'"
    by (auto simp: lease_id_def dest: nat_str_sep_inject)
qed

text \<open>Dropping leases, and changing only their times, keeps the invariant.\<close>

lemma lease_inv_sub:
  assumes inv: "lease_inv m" and wf: "wf_map L"
    and sub: "\<And>k l. jget L k = Some l \<Longrightarrow> \<exists>l0. jget (lm_leases m) k = Some l0 \<and> same_claim l l0"
  shows "lease_inv (m\<lparr>lm_leases := L\<rparr>)"
proof -
  have "l_id l = k \<and> (\<exists>n r. k = lease_id n r \<and> n \<le> lm_sequence m)" if "jget L k = Some l" for k l
    using sub[OF that] inv by (auto simp: lease_inv_def same_claim_def)
  moreover have "l_mode l1 = SharedRead \<and> l_mode l2 = SharedRead"
    if l1: "jget L k1 = Some l1" and l2: "jget L k2 = Some l2" and "k1 \<noteq> k2"
      and ov: "scopesOverlap l1 (l_scope l2)" for k1 k2 l1 l2
  proof -
    obtain a b where "jget (lm_leases m) k1 = Some a" "same_claim l1 a"
        "jget (lm_leases m) k2 = Some b" "same_claim l2 b"
      using sub[OF l1] sub[OF l2] by auto
    moreover from this ov have "scopesOverlap a (l_scope b)"
      using scopesOverlap_cong[of l1 a] by (simp add: same_claim_def)
    ultimately show ?thesis
      using inv \<open>k1 \<noteq> k2\<close> unfolding lease_inv_def same_claim_def by metis
  qed
  ultimately show ?thesis
    using wf by (simp add: lease_inv_def)
qed

lemma lease_inv_key:
  "lease_inv m \<Longrightarrow> jget (lm_leases m) k = Some l \<Longrightarrow>
    l_id l = k \<and> (\<exists>n r. k = lease_id n r \<and> n \<le> lm_sequence m)"
  unfolding lease_inv_def by blast

lemma lease_inv_wf: "lease_inv m \<Longrightarrow> wf_map (lm_leases m)"
  by (simp add: lease_inv_def)

lemma lease_inv_keep:
  assumes "lease_inv m" shows "lease_inv (m\<lparr>lm_leases := filter P (lm_leases m)\<rparr>)"
    and "lease_inv (m\<lparr>lm_leases := jdelete k (lm_leases m)\<rparr>)"
proof -
  have wf: "wf_map (lm_leases m)"
    using assms by (rule lease_inv_wf)
  show "lease_inv (m\<lparr>lm_leases := filter P (lm_leases m)\<rparr>)"
    by (rule lease_inv_sub[OF assms wf_map_filter[OF wf]])
      (auto simp: jget_filter[OF wf] same_claim_def split: option.splits if_splits)
  show "lease_inv (m\<lparr>lm_leases := jdelete k (lm_leases m)\<rparr>)"
    by (rule lease_inv_sub[OF assms wf_map_delete[OF wf]])
      (auto simp: jmap_simps same_claim_def split: if_splits)
qed

lemma reapExpired_state:
  "snd (reapExpired now m) = m\<lparr>lm_leases := filter (\<lambda>p. \<not> isExpired now (snd p)) (lm_leases m)\<rparr>"
  by (simp add: reapExpired_def drainExpired_def)

lemma lease_inv_reap: "lease_inv m \<Longrightarrow> lease_inv (snd (reapExpired now m))"
  by (simp add: reapExpired_state lease_inv_keep)

lemma jget_reap:
  "lease_inv m \<Longrightarrow> jget (lm_leases (snd (reapExpired now m))) k =
    (case jget (lm_leases m) k of None \<Rightarrow> None | Some l \<Rightarrow> if isExpired now l then None else Some l)"
  by (simp add: reapExpired_state jget_filter[OF lease_inv_wf] split: option.splits)

lemma find_conflict_None:
  "find_conflict mode sc ls = None \<longleftrightarrow>
    (\<forall>l\<in>set ls. scopesOverlap l sc \<longrightarrow> l_mode l = SharedRead \<and> mode = SharedRead)"
proof (induction ls)
  case (Cons l ls)
  have "x = Exclusive \<or> x = SharedRead" for x
    by (cases x) auto
  with Cons show ?case by auto
qed simp

lemma find_conflict_Some:
  "find_conflict mode sc ls = Some l \<Longrightarrow>
    l \<in> set ls \<and> scopesOverlap l sc \<and> (l_mode l = Exclusive \<or> mode = Exclusive)"
  by (induction ls) (auto split: if_splits)

text \<open>Adding a lease that the scan found no conflict for keeps the invariant.\<close>

lemma lease_inv_add:
  assumes inv: "lease_inv m" and id: "l_id l = lease_id (Suc (lm_sequence m)) rnd"
    and free: "find_conflict (l_mode l) (l_scope l) (jvalues (lm_leases m)) = None"
  shows "lease_inv (m\<lparr>lm_leases := jset (l_id l) l (lm_leases m), lm_sequence := Suc (lm_sequence m)\<rparr>)"
proof -
  let ?L = "jset (l_id l) l (lm_leases m)"
  have wf: "wf_map (lm_leases m)"
    using inv by (rule lease_inv_wf)
  have get: "jget ?L k = (if k = l_id l then Some l else jget (lm_leases m) k)" for k
    by (rule jget_set)
  have shared: "l_mode a = SharedRead \<and> l_mode l = SharedRead"
    if "jget (lm_leases m) k = Some a" "scopesOverlap a (l_scope l)" for k a
  proof -
    have "a \<in> set (jvalues (lm_leases m))"
      using that(1) by (rule jvalues_I)
    with that(2) free show ?thesis
      unfolding find_conflict_None by blast
  qed
  have keys: "l_id a = k \<and> (\<exists>n r. k = lease_id n r \<and> n \<le> Suc (lm_sequence m))" if "jget ?L k = Some a" for k a
  proof (cases "k = l_id l")
    case True
    with that get[of k] have "a = l" by simp
    with True id show ?thesis by auto
  next
    case False
    with that have "jget (lm_leases m) k = Some a" by (simp add: get)
    with inv have "l_id a = k" "\<exists>n r. k = lease_id n r \<and> n \<le> lm_sequence m"
      by (auto simp: lease_inv_def)
    then show ?thesis by (metis le_SucI)
  qed
  have pairs: "l_mode a = SharedRead \<and> l_mode b = SharedRead"
    if ab: "jget ?L k1 = Some a" "jget ?L k2 = Some b" "k1 \<noteq> k2" "scopesOverlap a (l_scope b)" for k1 k2 a b
  proof -
    have "scopesOverlap b (l_scope a)"
      using ab(4) by (simp add: scopesOverlap_sym)
    show ?thesis
    proof (cases "k1 = l_id l \<or> k2 = l_id l")
      case True
      then have "(a = l \<and> jget (lm_leases m) k2 = Some b) \<or> (b = l \<and> jget (lm_leases m) k1 = Some a)"
        using ab(1-3) get[of k1] get[of k2] by (elim disjE) simp_all
      with ab(4) \<open>scopesOverlap b (l_scope a)\<close> shared show ?thesis by blast
    next
      case False
      with ab(1,2) get[of k1] get[of k2] have "jget (lm_leases m) k1 = Some a" "jget (lm_leases m) k2 = Some b"
        by simp_all
      with inv ab(3,4) show ?thesis unfolding lease_inv_def by blast
    qed
  qed
  show ?thesis
  proof (rule lease_invI, goal_cases)
    case 1
    show ?case using wf_map_set[OF wf] by simp
  next
    case (2 k a)
    then show ?case using keys[of k a] by simp
  next
    case (3 k1 k2 a b)
    then show ?case using pairs[of k1 a k2 b] by simp
  qed
qed

lemma acquire_cases:
  obtains (conflict) l where
      "find_conflict (case ao_mode opts of Some x \<Rightarrow> x | None \<Rightarrow> Exclusive) (ao_scope opts)
        (jvalues (lm_leases (snd (reapExpired now m)))) = Some l"
      "acquire opts rnd now m = (Inl (LeaseConflict (l_id l) (l_owner l) (l_expiresAt l)), snd (reapExpired now m))"
  | (granted) l where
      "find_conflict (l_mode l) (l_scope l) (jvalues (lm_leases (snd (reapExpired now m)))) = None"
      "l_id l = lease_id (Suc (lm_sequence m)) rnd"
      "l_scope l = ao_scope opts" "l_owner l = ao_owner opts"
      "l_mode l = (case ao_mode opts of Some x \<Rightarrow> x | None \<Rightarrow> Exclusive)"
      "l_expiresAt l = now + clampTtl (lm_maxTtl m) (case ao_ttl opts of Some t \<Rightarrow> t | None \<Rightarrow> Fin DEFAULT_TTL_MS)"
      "acquire opts rnd now m = (Inr l, (snd (reapExpired now m))
        \<lparr>lm_leases := jset (l_id l) l (lm_leases (snd (reapExpired now m))), lm_sequence := Suc (lm_sequence m)\<rparr>)"
proof (cases "find_conflict (case ao_mode opts of Some x \<Rightarrow> x | None \<Rightarrow> Exclusive) (ao_scope opts)
        (jvalues (lm_leases (snd (reapExpired now m))))")
  case None
  then show ?thesis
    by (intro granted[of "the (Some (projr (fst (acquire opts rnd now m))))"])
      (auto simp: acquire_def Let_def reapExpired_state)
next
  case (Some l)
  then show ?thesis
    by (intro conflict[of l]) (auto simp: acquire_def Let_def)
qed

lemma lease_inv_acquire: "lease_inv m \<Longrightarrow> lease_inv (snd (acquire opts rnd now m))"
proof (cases rule: acquire_cases[of opts now m rnd])
  case (conflict l)
  then show "lease_inv m \<Longrightarrow> ?thesis"
    by (simp add: lease_inv_reap)
next
  case (granted l)
  assume inv: "lease_inv m"
  have "lm_sequence (snd (reapExpired now m)) = lm_sequence m"
    by (simp add: reapExpired_state)
  with granted lease_inv_add[OF lease_inv_reap[OF inv], of l now rnd] show ?thesis
    by simp
qed

lemma lease_inv_renew: "lease_inv m \<Longrightarrow> lease_inv (snd (renew i o' ttl now m))"
proof (cases "jget (lm_leases m) i")
  case (Some l)
  assume inv: "lease_inv m"
  have "lease_inv (m\<lparr>lm_leases := jset i (l\<lparr>l_expiresAt := e\<rparr>) (lm_leases m)\<rparr>)" for e
    using Some inv
    by (intro lease_inv_sub[OF inv wf_map_set[OF lease_inv_wf[OF inv]]])
      (auto simp: jmap_simps same_claim_def split: if_splits)
  with Some inv show ?thesis
    by (auto simp: renew_def Let_def lease_inv_keep)
qed (simp add: renew_def lease_inv_keep)

lemma lease_inv_apply: "lease_inv m \<Longrightarrow> lease_inv (lease_apply m c)"
  by (cases c)
    (auto simp: lease_inv_acquire lease_inv_renew lease_inv_keep lease_inv_reap release_def forceRelease_def
      get_lease_def list_leases_def permits_def drainExpired_def Let_def split: option.splits)

lemma lease_inv_init: "lease_inv (LeaseManager maxTtl)"
  by (simp add: lease_inv_def LeaseManager_def wf_map_Nil)

lemma lease_reachable_inv: "lease_reachable m \<Longrightarrow> lease_inv m"
  by (induction rule: lease_reachable.induct) (auto intro: lease_inv_init lease_inv_apply)

subsection \<open>The contract with the policy layer\<close>

text \<open>
  What a client that gates actions on leases relies on: at one instant at most one owner is
  granted exclusive access to a capability, and asking does not change what is granted.
\<close>

locale lease_authority =
  fixes grants :: "'s \<Rightarrow> string \<Rightarrow> string \<Rightarrow> string \<Rightarrow> bool"
    and ask :: "'s \<Rightarrow> string \<Rightarrow> string \<Rightarrow> string \<Rightarrow> 's"
  assumes grants_exclusive: "grants s o1 d c \<Longrightarrow> grants s o2 d c \<Longrightarrow> o1 = o2"
    and grants_ask: "grants (ask s o1 d c) o2 d' c' = grants s o2 d' c'"
begin

fun ask_all :: "'s \<Rightarrow> (string \<times> string \<times> string) list \<Rightarrow> 's" where
  "ask_all s [] = s"
| "ask_all s ((u, d, c) # qs) = ask_all (ask s u d c) qs"

lemma grants_ask_all: "grants (ask_all s qs) u d c = grants s u d c"
  by (induction s qs rule: ask_all.induct) (simp_all add: grants_ask)

lemma one_owner_at_a_time:
  "grants s o1 d c \<Longrightarrow> grants (ask_all s qs) o2 d c \<Longrightarrow> o1 = o2"
  by (simp add: grants_ask_all grants_exclusive)

end

lemma permits_scan_granted:
  "fst (permits_scan own d c mode has ls) \<longleftrightarrow>
    (\<forall>l\<in>set ls. covers l d c \<longrightarrow> l_owner l \<noteq> own \<longrightarrow> mode = SharedRead \<and> l_mode l = SharedRead) \<and>
    (has \<or> (\<exists>l\<in>set ls. covers l d c \<and> l_owner l = own \<and> (mode = SharedRead \<or> l_mode l = Exclusive)))"
  by (induction ls arbitrary: has) auto

lemma reap_idem: "snd (reapExpired now (snd (reapExpired now m))) = snd (reapExpired now m)"
  by (simp add: reapExpired_state)

lemma permits_granted:
  "fst (fst (permits own d c mode now m)) \<longleftrightarrow>
    (\<forall>l\<in>set (jvalues (lm_leases (snd (reapExpired now m)))).
      covers l d c \<longrightarrow> l_owner l \<noteq> own \<longrightarrow> mode = SharedRead \<and> l_mode l = SharedRead) \<and>
    (\<exists>l\<in>set (jvalues (lm_leases (snd (reapExpired now m)))).
      covers l d c \<and> l_owner l = own \<and> (mode = SharedRead \<or> l_mode l = Exclusive))"
  unfolding permits_def Let_def fst_conv permits_scan_granted by simp

lemma permits_state: "snd (permits own d c mode now m) = snd (reapExpired now m)"
  by (simp add: permits_def Let_def)

text \<open>An instant of a manager: its state and the clock.\<close>

definition lease_grants :: "lease_manager \<times> time \<Rightarrow> string \<Rightarrow> string \<Rightarrow> string \<Rightarrow> bool" where
  "lease_grants s u d c = fst (fst (permits u d c Exclusive (snd s) (fst s)))"

definition lease_ask :: "lease_manager \<times> time \<Rightarrow> string \<Rightarrow> string \<Rightarrow> string \<Rightarrow> lease_manager \<times> time" where
  "lease_ask s u d c = (snd (permits u d c Exclusive (snd s) (fst s)), snd s)"

interpretation leases: lease_authority lease_grants lease_ask
proof unfold_locales
  show "lease_grants s o1 d c \<Longrightarrow> lease_grants s o2 d c \<Longrightarrow> o1 = o2" for s o1 o2 d c
    unfolding lease_grants_def permits_granted using lease_mode.distinct(1) by blast
  show "lease_grants (lease_ask s o1 d c) o2 d' c' = lease_grants s o2 d' c'" for s o1 d c o2 d' c'
    unfolding lease_grants_def permits_granted by (simp add: lease_ask_def permits_state reap_idem)
qed

subsection \<open>Durability and crash safety\<close>

fun call_time :: "lease_call \<Rightarrow> time option" where
  "call_time (Acquire _ _ t) = Some t"
| "call_time (Renew _ _ _ t) = Some t"
| "call_time (Release _ _) = None"
| "call_time (ForceRelease _) = None"
| "call_time (GetLease _ t) = Some t"
| "call_time (ListLeases _ _ t) = Some t"
| "call_time (Permits _ _ _ _ t) = Some t"
| "call_time (Drain t) = Some t"

definition before :: "time \<Rightarrow> lease_call \<Rightarrow> bool" where
  "before T c \<longleftrightarrow> (case call_time c of None \<Rightarrow> True | Some t \<Rightarrow> t < T)"

text \<open>Calls that are not the owner's own \<open>release\<close> or \<open>renew\<close> of the lease, nor an
  administrative \<open>forceRelease\<close> of it.\<close>

fun foreign_to :: "lease \<Rightarrow> lease_call \<Rightarrow> bool" where
  "foreign_to l (Release i u) = (\<not> (i = l_id l \<and> u = l_owner l))"
| "foreign_to l (Renew i u _ _) = (\<not> (i = l_id l \<and> u = l_owner l))"
| "foreign_to l (ForceRelease i) = (i \<noteq> l_id l)"
| "foreign_to l _ = True"

lemma jget_acquire_other:
  assumes "lease_inv m" "jget (lm_leases m) k = Some l" "\<not> isExpired now l"
  shows "jget (lm_leases (snd (acquire opts rnd now m))) k = Some l"
proof (cases rule: acquire_cases[of opts now m rnd])
  case (conflict l')
  with assms show ?thesis by (simp add: jget_reap)
next
  case (granted l')
  obtain n r where "k = lease_id n r" "n \<le> lm_sequence m"
    using lease_inv_key[OF assms(1,2)] by blast
  with granted(2) have "k \<noteq> l_id l'"
    using lease_id_inject by (metis Suc_n_not_le_n)
  with granted(7) assms show ?thesis by (simp add: jget_set jget_reap)
qed

lemma lease_survives_call:
  assumes inv: "lease_inv m" and get: "jget (lm_leases m) (l_id l) = Some l"
    and bef: "before (l_expiresAt l) c" and "foreign_to l c"
  shows "jget (lm_leases (lease_apply m c)) (l_id l) = Some l"
proof -
  have live: "\<not> isExpired t l" if "call_time c = Some t" for t
    using that bef by (auto simp: before_def isExpired_def)
  have reap: "jget (lm_leases (snd (reapExpired t m))) (l_id l) = Some l" if "call_time c = Some t" for t
    using that live by (simp add: jget_reap[OF inv] get)
  show ?thesis
  proof (cases c)
    case (Acquire opts rnd t)
    then show ?thesis using live by (simp add: jget_acquire_other[OF inv get])
  next
    case (Renew i u ttl t)
    then show ?thesis
      using assms(4) get live by (auto simp: renew_def jmap_simps Let_def split: option.splits)
  next
    case (Release i u)
    then show ?thesis
      using assms(4) get by (auto simp: release_def jmap_simps split: option.splits)
  next
    case (ForceRelease i)
    then show ?thesis
      using assms(4) get by (auto simp: forceRelease_def jmap_simps)
  next
    case (GetLease i t)
    then show ?thesis
      using get live by (auto simp: get_lease_def jmap_simps split: option.splits)
  next
    case (ListLeases a b t)
    then show ?thesis using reap by (simp add: list_leases_def Let_def)
  next
    case (Permits u d c' md t)
    then show ?thesis using reap by (simp add: permits_state)
  next
    case (Drain t)
    then show ?thesis using reap by (simp add: reapExpired_def)
  qed
qed

lemma lease_survives_run:
  assumes "lease_inv m" "jget (lm_leases m) (l_id l) = Some l"
    and "\<forall>c\<in>set cs. before (l_expiresAt l) c \<and> foreign_to l c"
  shows "lease_inv (lease_run m cs) \<and> jget (lm_leases (lease_run m cs)) (l_id l) = Some l"
  using assms
proof (induction cs arbitrary: m)
  case (Cons c cs)
  then show ?case
    using lease_inv_apply[of m c] lease_survives_call[of m l c] by simp
qed simp

lemma covers_overlap: "covers a d c \<Longrightarrow> covers b d c \<Longrightarrow> scopesOverlap a (l_scope b)"
  by (cases "l_scope a"; cases "l_scope b") (auto simp: covers_def scopesOverlap_def leaseCoversDevice_def)

lemma stored_exclusive_permits:
  assumes inv: "lease_inv m" and get: "jget (lm_leases m) (l_id l) = Some l"
    and excl: "l_mode l = Exclusive" and cov: "covers l d c" and live: "now < l_expiresAt l"
  shows "fst (fst (permits (l_owner l) d c mode now m))"
proof -
  let ?m = "snd (reapExpired now m)"
  have inv': "lease_inv ?m"
    using inv by (rule lease_inv_reap)
  have get': "jget (lm_leases ?m) (l_id l) = Some l"
    using get live by (simp add: jget_reap[OF inv] isExpired_def)
  have "l' = l" if l': "l' \<in> set (jvalues (lm_leases ?m))" "covers l' d c" for l'
  proof -
    obtain k where k: "jget (lm_leases ?m) k = Some l'"
      using jvalues_E[OF lease_inv_wf[OF inv'] l'(1)] by blast
    have "k = l_id l"
    proof (rule ccontr)
      assume "k \<noteq> l_id l"
      moreover have "scopesOverlap l' (l_scope l)"
        using l'(2) cov by (rule covers_overlap)
      ultimately have "l_mode l = SharedRead"
        using inv' k get' unfolding lease_inv_def by blast
      with excl show False by simp
    qed
    with k get' show ?thesis by simp
  qed
  moreover have "l \<in> set (jvalues (lm_leases ?m))"
    using get' by (rule jvalues_I)
  ultimately show ?thesis
    using cov excl unfolding permits_granted by blast
qed

definition expires_by :: "time \<Rightarrow> lease_manager \<Rightarrow> bool" where
  "expires_by T m \<longleftrightarrow> (\<forall>l\<in>set (jvalues (lm_leases m)). l_expiresAt l \<le> T)"

lemma clampTtl_le: "clampTtl maxTtl ttl \<le> max 1 maxTtl"
  by (cases ttl) (auto simp: clampTtl_def)

lemma clampTtl_pos: "1 \<le> maxTtl \<Longrightarrow> 1 \<le> clampTtl maxTtl ttl"
  by (cases ttl) (auto simp: clampTtl_def)

lemma set_update_subset: "set (AList.update k v m) \<subseteq> insert (k, v) (set m)"
  by (induction m) auto

lemma expires_by_jset:
  "\<forall>l\<in>set (jvalues L). l_expiresAt l \<le> T \<Longrightarrow> l_expiresAt l' \<le> T \<Longrightarrow>
    \<forall>l\<in>set (jvalues (jset k l' L)). l_expiresAt l \<le> T"
  using set_update_subset[of k l' L] by fastforce

lemma expires_by_keep:
  assumes "expires_by T m"
  shows "expires_by T (m\<lparr>lm_leases := filter P (lm_leases m)\<rparr>)"
    and "expires_by T (m\<lparr>lm_leases := jdelete k (lm_leases m)\<rparr>)"
    and "expires_by T (snd (reapExpired now m))"
  using assms by (auto simp: expires_by_def AList.delete_eq reapExpired_state)

lemma lm_maxTtl_apply: "lm_maxTtl (lease_apply m c) = lm_maxTtl m"
  by (cases c) (auto simp: acquire_def renew_def release_def forceRelease_def get_lease_def list_leases_def
      permits_state drainExpired_def reapExpired_state Let_def split: option.splits)

lemma expires_by_acquire:
  assumes "expires_by T m" "now + max 1 (lm_maxTtl m) \<le> T"
  shows "expires_by T (snd (acquire opts rnd now m))"
proof (cases rule: acquire_cases[of opts now m rnd])
  case (conflict l)
  with assms show ?thesis by (simp add: expires_by_keep)
next
  case (granted l)
  have "l_expiresAt l \<le> T"
    using granted(6) assms(2) clampTtl_le by (smt (verit))
  then show ?thesis
    using granted(7) expires_by_keep(3)[OF assms(1), of now]
    by (simp add: expires_by_def del: set_map)
      (rule expires_by_jset; simp)
qed

lemma expires_by_renew:
  assumes "expires_by T m" "now + max 1 (lm_maxTtl m) \<le> T"
  shows "expires_by T (snd (renew i u ttl now m))"
proof -
  have "now + clampTtl (lm_maxTtl m) x \<le> T" for x
    using assms(2) clampTtl_le[of "lm_maxTtl m" x] by linarith
  then have "expires_by T (m\<lparr>lm_leases := jset i (l\<lparr>l_expiresAt := now + clampTtl (lm_maxTtl m) x\<rparr>) (lm_leases m)\<rparr>)" for l x
    using expires_by_jset[of "lm_leases m" T "l\<lparr>l_expiresAt := now + clampTtl (lm_maxTtl m) x\<rparr>" i] assms(1)
    by (simp add: expires_by_def del: set_map)
  with assms(1) show ?thesis
    by (auto simp: renew_def Let_def expires_by_keep split: option.splits)
qed

lemma expires_by_apply:
  assumes "expires_by T m" "case call_time c of None \<Rightarrow> True | Some t \<Rightarrow> t + max 1 (lm_maxTtl m) \<le> T"
  shows "expires_by T (lease_apply m c)"
  using assms
  by (cases c) (auto simp: expires_by_acquire expires_by_renew expires_by_keep release_def forceRelease_def
      get_lease_def list_leases_def permits_state drainExpired_def Let_def split: option.splits)

lemma expires_by_run:
  assumes "expires_by T m"
    and "\<forall>c\<in>set cs. case call_time c of None \<Rightarrow> True | Some t \<Rightarrow> t + max 1 (lm_maxTtl m) \<le> T"
  shows "expires_by T (lease_run m cs)"
  using assms
proof (induction cs arbitrary: m)
  case (Cons c cs)
  from Cons.prems have "expires_by T (lease_apply m c)"
    by (intro expires_by_apply) auto
  moreover from Cons.prems(2) have "\<forall>c'\<in>set cs. case call_time c' of None \<Rightarrow> True
      | Some t \<Rightarrow> t + max 1 (lm_maxTtl (lease_apply m c)) \<le> T"
    unfolding lm_maxTtl_apply by simp
  ultimately show ?case
    using Cons.IH[of "lease_apply m c"] by simp
qed simp

lemma all_expired_reap: "expires_by T m \<Longrightarrow> T \<le> now \<Longrightarrow> lm_leases (snd (reapExpired now m)) = []"
  by (auto simp: expires_by_def reapExpired_state isExpired_def filter_empty_conv)

subsection \<open>Properties\<close>

text \<open>The concrete managers of the witnesses: one exclusive lease taken at time 0.\<close>

definition wit_opts :: acquire_options where
  "wit_opts = \<lparr>ao_scope = CapabilityScope ''arm'' [''move''], ao_owner = ''a'', ao_ttl = Some (Fin 1000), ao_mode = None\<rparr>"

definition wit_lease :: lease where
  "wit_lease = \<lparr>l_id = lease_id 1 ''x'', l_mode = Exclusive, l_scope = CapabilityScope ''arm'' [''move''],
    l_owner = ''a'', l_createdAt = 0, l_expiresAt = 1000, l_renewable = True\<rparr>"

lemma wit_acquire:
  "acquire wit_opts ''x'' 0 (LeaseManager None) =
    (Inr wit_lease, \<lparr>lm_leases = [(lease_id 1 ''x'', wit_lease)], lm_sequence = 1, lm_maxTtl = 300000\<rparr>)"
  by (simp add: acquire_def LeaseManager_def reapExpired_def drainExpired_def wit_opts_def wit_lease_def
      clampTtl_def DEFAULT_MAX_LEASE_TTL_MS_def Let_def)

text \<open>C5: Mutual exclusion of the lease table. In every manager that any sequence of calls can
  produce, two stored leases with different ids and overlapping scopes are both shared-read
  leases: an exclusive lease never coexists with another lease on the same resource, and the
  table keeps one entry per id under that id.\<close>

theorem lease_mutual_exclusion:
  assumes "lease_reachable m"
    and "jget (lm_leases m) i = Some a" "jget (lm_leases m) j = Some b" "i \<noteq> j"
    and "scopesOverlap a (l_scope b)"
  shows "l_mode a = SharedRead \<and> l_mode b = SharedRead \<and> l_id a = i \<and> l_id b = j"
  using lease_reachable_inv[OF assms(1)] assms(2-5) unfolding lease_inv_def by blast

theorem lease_mutual_exclusion_witness:
  "\<exists>m a b. lease_reachable m \<and> jget (lm_leases m) (lease_id 1 ''x'') = Some a \<and>
    jget (lm_leases m) (lease_id 2 ''y'') = Some b \<and> scopesOverlap a (l_scope b) \<and>
    l_mode a = SharedRead \<and> l_mode b = SharedRead"
proof -
  let ?o = "\<lambda>u. \<lparr>ao_scope = DeviceScope ''arm'', ao_owner = u, ao_ttl = None, ao_mode = Some SharedRead\<rparr>"
  let ?m = "lease_run (LeaseManager None) [Acquire (?o ''a'') ''x'' 0, Acquire (?o ''b'') ''y'' 0]"
  have ids: "lease_id (Suc 0) ''x'' \<noteq> lease_id (Suc (Suc 0)) ''y''"
    using lease_id_inject by fastforce
  have m: "?m = \<lparr>lm_leases =
      [(lease_id 1 ''x'', \<lparr>l_id = lease_id 1 ''x'', l_mode = SharedRead, l_scope = DeviceScope ''arm'',
          l_owner = ''a'', l_createdAt = 0, l_expiresAt = 60000, l_renewable = True\<rparr>),
       (lease_id 2 ''y'', \<lparr>l_id = lease_id 2 ''y'', l_mode = SharedRead, l_scope = DeviceScope ''arm'',
          l_owner = ''b'', l_createdAt = 0, l_expiresAt = 60000, l_renewable = True\<rparr>)],
      lm_sequence = 2, lm_maxTtl = 300000\<rparr>"
    using ids by (simp add: acquire_def LeaseManager_def reapExpired_def drainExpired_def isExpired_def
        clampTtl_def DEFAULT_MAX_LEASE_TTL_MS_def DEFAULT_TTL_MS_def scopesOverlap_def leaseCoversDevice_def
        Let_def numeral_2_eq_2)
  have r: "lease_reachable ?m"
    by (rule lease_reachable_run, rule lease_reachable.init)
  have "lease_id 2 ''y'' \<noteq> lease_id 1 ''x''"
    using ids by (simp add: numeral_2_eq_2)
  then obtain a b where ab: "jget (lm_leases ?m) (lease_id 1 ''x'') = Some a"
      "jget (lm_leases ?m) (lease_id 2 ''y'') = Some b" "scopesOverlap a (l_scope b)"
    unfolding m by (simp add: scopesOverlap_def leaseCoversDevice_def)
  with lease_mutual_exclusion[OF r ab(1,2) _ ab(3)] \<open>lease_id 2 ''y'' \<noteq> lease_id 1 ''x''\<close> r show ?thesis
    by (metis)
qed

text \<open>C37: Unless someone forces its release, a granted exclusive lease is effective and durable. After \<open>acquire\<close> returned an
  exclusive lease, any acquires, renews, releases, checks and reaping at times before its expiry, by anyone, that are
  neither the holder's own \<open>release\<close> or \<open>renew\<close> of it nor a \<open>forceRelease\<close> of it (which checks no owner, so that any
  caller can make it) leave \<open>permits\<close> true for the holder on every covered capability until the lease's expiry, and
  false for the exclusive use of every other owner.\<close>

theorem lease_grant_durable:
  assumes "lease_reachable m" and acq: "acquire opts rnd now m = (Inr l, m')"
    and excl: "l_mode l = Exclusive" and cov: "covers l d c"
    and calls: "\<forall>x\<in>set cs. before (l_expiresAt l) x \<and> foreign_to l x"
    and live: "t < l_expiresAt l"
  shows "fst (fst (permits (l_owner l) d c mode t (lease_run m' cs))) \<and>
    (\<forall>u. u \<noteq> l_owner l \<longrightarrow> \<not> fst (fst (permits u d c Exclusive t (lease_run m' cs))))"
proof -
  have inv: "lease_inv m'"
    using lease_inv_acquire[OF lease_reachable_inv[OF assms(1)], of opts rnd now] acq by simp
  have "jget (lm_leases m') (l_id l) = Some l"
    by (rule acquire_cases[of opts now m rnd]) (use acq in \<open>auto simp: jget_set\<close>)
  then have run: "lease_inv (lease_run m' cs)" "jget (lm_leases (lease_run m' cs)) (l_id l) = Some l"
    using lease_survives_run[OF inv _ calls] by auto
  note held = stored_exclusive_permits[OF run excl cov live]
  have "lease_grants (lease_run m' cs, t) (l_owner l) d c"
    using held by (simp add: lease_grants_def)
  then show ?thesis
    using held leases.grants_exclusive by (fastforce simp: lease_grants_def)
qed

theorem lease_grant_durable_witness:
  "fst (fst (permits ''a'' ''arm'' ''move'' Exclusive 999
    (lease_run (snd (acquire wit_opts ''x'' 0 (LeaseManager None)))
      [Acquire wit_opts ''y'' 10, Renew (lease_id 1 ''x'') ''b'' None 20, Release (lease_id 1 ''x'') ''b'', Drain 30])))"
  using lease_grant_durable[OF lease_reachable.init wit_acquire, of "''arm''" "''move''"
      "[Acquire wit_opts ''y'' 10, Renew (lease_id 1 ''x'') ''b'' None 20, Release (lease_id 1 ''x'') ''b'', Drain 30]"
      999 Exclusive]
  by (simp add: wit_acquire wit_lease_def covers_def leaseCoversDevice_def before_def)

text \<open>A crashed owner cannot hold a machine forever. If all calls so far read the clock at
  \<open>T\<close> or earlier, then from \<open>T\<close> plus the maximal time to live on (whatever times to live were asked for) every
  acquisition succeeds and no owner is granted anything by an old lease.\<close>

theorem lease_crash_safety:
  assumes "\<forall>c\<in>set cs. case call_time c of None \<Rightarrow> True | Some t \<Rightarrow> t \<le> T"
    and "T + max 1 (lm_maxTtl (LeaseManager mt)) \<le> now"
  shows "(\<exists>l. fst (acquire opts rnd now (lease_run (LeaseManager mt) cs)) = Inr l) \<and>
    \<not> fst (fst (permits u d c mode now (lease_run (LeaseManager mt) cs)))"
proof -
  let ?m = "lease_run (LeaseManager mt) cs"
  have "expires_by now (LeaseManager mt)"
    by (simp add: expires_by_def LeaseManager_def)
  moreover have "case call_time c of None \<Rightarrow> True | Some t \<Rightarrow> t + max 1 (lm_maxTtl (LeaseManager mt)) \<le> now"
    if "c \<in> set cs" for c
    using assms(1)[THEN bspec, OF that] assms(2) by (auto split: option.splits)
  ultimately have "expires_by now ?m"
    by (intro expires_by_run) auto
  then have empty: "lm_leases (snd (reapExpired now ?m)) = []"
    by (rule all_expired_reap) simp
  have "\<exists>l. fst (acquire opts rnd now ?m) = Inr l"
    by (rule acquire_cases[of opts now ?m rnd]) (auto simp: empty)
  then show ?thesis
    by (simp add: permits_granted empty)
qed

theorem lease_crash_safety_witness:
  "\<exists>l. fst (acquire wit_opts ''z'' 300010
    (lease_run (LeaseManager None) [Acquire wit_opts ''x'' 0, Renew (lease_id 1 ''x'') ''a'' (Some PosInf) 10])) = Inr l"
  using lease_crash_safety[of "[Acquire wit_opts ''x'' 0, Renew (lease_id 1 ''x'') ''a'' (Some PosInf) 10]" 10 None 300010]
  by (simp add: LeaseManager_def DEFAULT_MAX_LEASE_TTL_MS_def)

end
