(* ===== verification/Json_Key.thy ===== *)
theory Json_Key
  imports Prelude
begin

text \<open>
  \<open>JSON.stringify\<close> on an array of strings and nulls, as the idempotency store uses it to
  build one key from four parts, with the proof that different arrays have different texts.
  Characters are code units below 256.
\<close>

definition hex_digit :: "nat \<Rightarrow> char" where
  "hex_digit d = (if d < 10 then char_of (48 + d) else char_of (87 + d))"

definition json_escape :: "char \<Rightarrow> string" where
  "json_escape c =
    (if c = CHR 0x22 then [CHR 0x5C, CHR 0x22]
     else if c = CHR 0x5C then [CHR 0x5C, CHR 0x5C]
     else if c = CHR 0x08 then [CHR 0x5C, CHR ''b'']
     else if c = CHR 0x09 then [CHR 0x5C, CHR ''t'']
     else if c = CHR 0x0A then [CHR 0x5C, CHR ''n'']
     else if c = CHR 0x0C then [CHR 0x5C, CHR ''f'']
     else if c = CHR 0x0D then [CHR 0x5C, CHR ''r'']
     else if (of_char c :: nat) < 32 then
       [CHR 0x5C, CHR ''u'', CHR ''0'', CHR ''0'',
        hex_digit (of_char c div 16), hex_digit (of_char c mod 16)]
     else [c])"

definition json_string :: "string \<Rightarrow> string" where
  "json_string s = CHR 0x22 # concat (map json_escape s) @ [CHR 0x22]"

fun json_opt :: "string option \<Rightarrow> string" where
  "json_opt None = ''null''"
| "json_opt (Some s) = json_string s"

fun json_items :: "string option list \<Rightarrow> string" where
  "json_items [] = '']''"
| "json_items [x] = json_opt x @ '']''"
| "json_items (x # xs) = json_opt x @ CHR '','' # json_items xs"

definition json_array :: "string option list \<Rightarrow> string" where
  "json_array xs = CHR ''['' # json_items xs"

lemma of_hex_digit: "d < 16 \<Longrightarrow> (of_char (hex_digit d) :: nat) = (if d < 10 then 48 + d else 87 + d)"
  by (simp add: hex_digit_def of_char_mod_256)

lemma hex_digit_inject: "d < 16 \<Longrightarrow> e < 16 \<Longrightarrow> hex_digit d = hex_digit e \<Longrightarrow> d = e"
  by (drule arg_cong[where f = "of_char :: char \<Rightarrow> nat"]) (auto simp: of_hex_digit split: if_splits)

text \<open>A control character is determined by its two hex digits.\<close>

lemma hex_pair_inject:
  assumes "hex_digit (of_char c div 16) = hex_digit (of_char c' div 16)"
    and "hex_digit (of_char c mod 16) = hex_digit (of_char c' mod 16)"
  shows "c = c'"
proof -
  have small: "(of_char x :: nat) div 16 < 16" for x :: char
    by (simp add: less_mult_imp_div_less)
  have "(of_char c :: nat) div 16 = of_char c' div 16"
    by (rule hex_digit_inject[OF small small assms(1)])
  moreover have "(of_char c :: nat) mod 16 = of_char c' mod 16"
    using assms(2) by (intro hex_digit_inject) auto
  ultimately have "(of_char c :: nat) = of_char c'"
    by (metis div_mult_mod_eq)
  then show ?thesis by simp
qed

lemma json_escape_no_quote: "json_escape c @ r \<noteq> CHR 0x22 # r'"
  by (simp add: json_escape_def)

text \<open>The escapes are a prefix code, so a quoted text ends at one place only.\<close>

lemma json_escape_prefix: "json_escape c @ r = json_escape c' @ r' \<Longrightarrow> c = c' \<and> r = r'"
proof (cases "(of_char c :: nat) < 32 \<and> (of_char c' :: nat) < 32")
  case True
  assume "json_escape c @ r = json_escape c' @ r'"
  with True show ?thesis
    by (auto simp: json_escape_def split: if_splits intro: hex_pair_inject)
next
  case False
  assume "json_escape c @ r = json_escape c' @ r'"
  with False show ?thesis
    by (auto simp: json_escape_def split: if_splits)
qed

lemma json_chars_prefix:
  "concat (map json_escape s) @ CHR 0x22 # r = concat (map json_escape s') @ CHR 0x22 # r' \<Longrightarrow> s = s' \<and> r = r'"
proof (induction s arbitrary: s')
  case Nil
  then show ?case
    using json_escape_no_quote by (cases s') (auto dest: sym)
next
  case (Cons c s)
  show ?case
  proof (cases s')
    case Nil
    with Cons.prems show ?thesis
      using json_escape_no_quote by simp
  next
    case (Cons c' t')
    with Cons.prems have "json_escape c @ concat (map json_escape s) @ CHR 0x22 # r
        = json_escape c' @ concat (map json_escape t') @ CHR 0x22 # r'"
      by simp
    from json_escape_prefix[OF this] Cons Cons.IH[of t'] show ?thesis by auto
  qed
qed

lemma json_string_prefix: "json_string s @ r = json_string s' @ r' \<Longrightarrow> s = s' \<and> r = r'"
  using json_chars_prefix[of s r s' r'] by (simp add: json_string_def)

lemma json_opt_prefix: "json_opt x @ r = json_opt y @ r' \<Longrightarrow> x = y \<and> r = r'"
proof (cases x; cases y)
  fix a b
  assume "json_opt x @ r = json_opt y @ r'" "x = Some a" "y = Some b"
  then show ?thesis
    using json_string_prefix[of a r b r'] by simp
qed (simp_all add: json_string_def)

lemma json_opt_inject: "json_opt x = json_opt y \<Longrightarrow> x = y"
  using json_opt_prefix[of x "[]" y "[]"] by simp

lemma json_items_inject: "length xs = length ys \<Longrightarrow> json_items xs = json_items ys \<Longrightarrow> xs = ys"
proof (induction xs arbitrary: ys rule: json_items.induct)
  case (2 x)
  then show ?case
    by (cases ys) (auto dest: json_opt_inject)
next
  case (3 x x' xs)
  then obtain y y' ys' where "ys = y # y' # ys'"
    by (metis length_Suc_conv)
  with "3.prems" have "x = y \<and> json_items (x' # xs) = json_items (y' # ys')"
    by (auto dest!: json_opt_prefix)
  with "3.IH"[of "y' # ys'"] "3.prems" \<open>ys = y # y' # ys'\<close> show ?case by simp
qed simp

lemma json_array_inject: "length xs = length ys \<Longrightarrow> json_array xs = json_array ys \<Longrightarrow> xs = ys"
  by (simp add: json_array_def json_items_inject)

end
