(* ===== verification/Idempotency.thy ===== *)
theory Idempotency
  imports Errors Json_Key
begin

text \<open>
  The bounded idempotency store, \<open>packages/core/src/operation/idempotencyStore.ts\<close>, with the
  operation statuses and error records it shares with the operation manager (declared in
  \<open>packages/core/src/spec/types.ts\<close> and \<open>operationManager.ts\<close>). The lemmas show the memory
  bound, that keys never collide across callers, and what the least-recently-used eviction
  guarantees; the locale \<open>dedupe_store\<close> is the contract the operation manager uses.
\<close>

datatype op_status =
    Queued | Running | Cancelling | Completed | Failed | Cancelled | TimedOut | Rejected
  | RequiresReconciliation | Uncertain | Aborted | StopUnconfirmed

record op_error =
  oe_code :: string
  oe_message :: string
  oe_retryable :: bool
  oe_details :: "jsrecord option"

record tombstone =
  ts_operationId :: string
  ts_deviceId :: string
  ts_capability :: string
  ts_owner :: "string option"
  ts_key :: string
  ts_status :: op_status
  ts_createdAt :: time
  ts_result :: "jsrecord option"
  ts_error :: "op_error option"
  ts_lastUsedAt :: time

record idem_store =
  is_tombstones :: "(string, tombstone) jmap"
  is_maxEntries :: nat
  is_retentionMs :: time
  is_evictedLookups :: nat

definition BoundedIdempotencyStore :: "nat option \<Rightarrow> time option \<Rightarrow> idem_store" where
  "BoundedIdempotencyStore maxE ret =
    \<lparr>is_tombstones = [],
     is_maxEntries = (case maxE of Some n \<Rightarrow> n | None \<Rightarrow> 10000),
     is_retentionMs = (case ret of Some r \<Rightarrow> r | None \<Rightarrow> 24 * 60 * 60 * 1000),
     is_evictedLookups = 0\<rparr>"

definition keyFor :: "string \<Rightarrow> string \<Rightarrow> string option \<Rightarrow> string \<Rightarrow> string" where
  "keyFor dev cap owner key = json_array [Some dev, Some cap, owner, Some key]"

definition aged :: "idem_store \<Rightarrow> time \<Rightarrow> tombstone \<Rightarrow> bool" where
  "aged s now t = (now - ts_createdAt t > is_retentionMs s)"

record idem_lookup =
  lk_hit :: bool
  lk_operationId :: "string option"
  lk_expiredOrEvicted :: bool
  lk_tombstone :: "tombstone option"

text \<open>A hit touches the tombstone and moves it to the end of the iteration order.\<close>

definition lookup_under :: "string \<Rightarrow> time \<Rightarrow> idem_store \<Rightarrow> idem_lookup \<times> idem_store" where
  "lookup_under k now s =
    (case jget (is_tombstones s) k of
       None \<Rightarrow> (\<lparr>lk_hit = False, lk_operationId = None, lk_expiredOrEvicted = False, lk_tombstone = None\<rparr>, s)
     | Some t \<Rightarrow>
         if aged s now t then
           (\<lparr>lk_hit = False, lk_operationId = None, lk_expiredOrEvicted = True, lk_tombstone = None\<rparr>,
            s\<lparr>is_tombstones := jdelete k (is_tombstones s), is_evictedLookups := Suc (is_evictedLookups s)\<rparr>)
         else
           let t' = t\<lparr>ts_lastUsedAt := now\<rparr>
           in (\<lparr>lk_hit = True, lk_operationId = Some (ts_operationId t'), lk_expiredOrEvicted = False,
                lk_tombstone = Some t'\<rparr>,
               s\<lparr>is_tombstones := jset k t' (jdelete k (is_tombstones s))\<rparr>))"

definition idem_find ::
  "string \<Rightarrow> string \<Rightarrow> string option \<Rightarrow> string \<Rightarrow> time \<Rightarrow> idem_store \<Rightarrow> idem_lookup \<times> idem_store" where
  "idem_find dev cap owner key now s = lookup_under (keyFor dev cap owner key) now s"

text \<open>The eviction loop: while too large, drop the first entry and count it.\<close>

fun evict_loop :: "nat \<Rightarrow> (string, tombstone) jmap \<Rightarrow> nat \<Rightarrow> (string, tombstone) jmap \<times> nat" where
  "evict_loop maxE [] n = ([], n)"
| "evict_loop maxE (p # m) n =
    (if length (p # m) > maxE then evict_loop maxE m (Suc n) else (p # m, n))"

definition evictOverflow :: "idem_store \<Rightarrow> idem_store" where
  "evictOverflow s =
    (let (m, n) = evict_loop (is_maxEntries s) (is_tombstones s) (is_evictedLookups s)
     in s\<lparr>is_tombstones := m, is_evictedLookups := n\<rparr>)"

definition recordUnder :: "string \<Rightarrow> tombstone \<Rightarrow> time \<Rightarrow> idem_store \<Rightarrow> idem_store" where
  "recordUnder k t now s =
    evictOverflow (s\<lparr>is_tombstones := jset k (t\<lparr>ts_lastUsedAt := now\<rparr>) (is_tombstones s)\<rparr>)"

text \<open>The patch of \<open>updateUnder\<close>: absent fields keep the stored value.\<close>

record idem_patch =
  pt_status :: "op_status option"
  pt_result :: "jsrecord option"
  pt_error :: "op_error option"

definition patch_tombstone :: "idem_patch \<Rightarrow> time \<Rightarrow> tombstone \<Rightarrow> tombstone" where
  "patch_tombstone p now t =
    t\<lparr>ts_status := (case pt_status p of Some x \<Rightarrow> x | None \<Rightarrow> ts_status t),
      ts_result := (case pt_result p of Some x \<Rightarrow> Some x | None \<Rightarrow> ts_result t),
      ts_error := (case pt_error p of Some x \<Rightarrow> Some x | None \<Rightarrow> ts_error t),
      ts_lastUsedAt := now\<rparr>"

definition updateUnder :: "string \<Rightarrow> idem_patch \<Rightarrow> time \<Rightarrow> idem_store \<Rightarrow> idem_store" where
  "updateUnder k p now s =
    (case jget (is_tombstones s) k of
       None \<Rightarrow> s
     | Some t \<Rightarrow> s\<lparr>is_tombstones := jset k (patch_tombstone p now t) (is_tombstones s)\<rparr>)"

definition deleteUnder :: "string \<Rightarrow> idem_store \<Rightarrow> bool \<times> idem_store" where
  "deleteUnder k s =
    (jhas (is_tombstones s) k, s\<lparr>is_tombstones := jdelete k (is_tombstones s)\<rparr>)"

definition remove_key ::
  "string \<Rightarrow> string \<Rightarrow> string option \<Rightarrow> string \<Rightarrow> idem_store \<Rightarrow> bool \<times> idem_store" where
  "remove_key dev cap owner key s = deleteUnder (keyFor dev cap owner key) s"

definition idem_size :: "idem_store \<Rightarrow> nat" where
  "idem_size s = length (is_tombstones s)"

definition hydrate_entry :: "time \<Rightarrow> tombstone \<Rightarrow> idem_store \<Rightarrow> idem_store" where
  "hydrate_entry now t s =
    (if now - ts_createdAt t \<le> is_retentionMs s
     then s\<lparr>is_tombstones :=
       jset (keyFor (ts_deviceId t) (ts_capability t) (ts_owner t) (ts_key t)) t (is_tombstones s)\<rparr>
     else s)"

definition hydrate_store :: "tombstone list \<Rightarrow> time \<Rightarrow> idem_store \<Rightarrow> nat \<times> idem_store" where
  "hydrate_store ts now s =
    (let s' = evictOverflow (fold (hydrate_entry now) ts s) in (idem_size s', s'))"

definition reapExpired_store :: "time \<Rightarrow> idem_store \<Rightarrow> nat \<times> idem_store" where
  "reapExpired_store now s =
    (length (filter (\<lambda>p. aged s now (snd p)) (is_tombstones s)),
     s\<lparr>is_tombstones := filter (\<lambda>p. \<not> aged s now (snd p)) (is_tombstones s)\<rparr>)"

subsection \<open>Calls and runs\<close>

datatype idem_call =
    ILookup string time
  | IRecord string tombstone time
  | IUpdate string idem_patch time
  | IDelete string
  | IHydrate "tombstone list" time
  | IReap time

fun idem_apply :: "idem_store \<Rightarrow> idem_call \<Rightarrow> idem_store" where
  "idem_apply s (ILookup k t) = snd (lookup_under k t s)"
| "idem_apply s (IRecord k x t) = recordUnder k x t s"
| "idem_apply s (IUpdate k p t) = updateUnder k p t s"
| "idem_apply s (IDelete k) = snd (deleteUnder k s)"
| "idem_apply s (IHydrate ts t) = snd (hydrate_store ts t s)"
| "idem_apply s (IReap t) = snd (reapExpired_store t s)"

definition idem_run :: "idem_store \<Rightarrow> idem_call list \<Rightarrow> idem_store" where
  "idem_run s cs = foldl idem_apply s cs"

lemma idem_run_simps [simp]:
  "idem_run s [] = s"
  "idem_run s (c # cs) = idem_run (idem_apply s c) cs"
  by (simp_all add: idem_run_def)

subsection \<open>Well-formedness and the bound\<close>

definition idem_ok :: "idem_store \<Rightarrow> bool" where
  "idem_ok s \<longleftrightarrow> wf_map (is_tombstones s) \<and> length (is_tombstones s) \<le> is_maxEntries s"

lemma evict_loop_drop: "fst (evict_loop maxE m n) = drop (length m - maxE) m"
proof (induction maxE m n rule: evict_loop.induct)
  case (2 maxE p m n)
  then show ?case
    by (auto simp: Suc_diff_le not_less)
qed simp

lemma evictOverflow_tombstones [simp]:
  "is_tombstones (evictOverflow s) = drop (length (is_tombstones s) - is_maxEntries s) (is_tombstones s)"
  using evict_loop_drop[of "is_maxEntries s" "is_tombstones s" "is_evictedLookups s"]
  by (simp add: evictOverflow_def case_prod_beta)

lemma evictOverflow_frame [simp]:
  "is_maxEntries (evictOverflow s) = is_maxEntries s"
  "is_retentionMs (evictOverflow s) = is_retentionMs s"
  by (simp_all add: evictOverflow_def split: prod.splits)

lemma wf_map_drop [wf_intros]: "wf_map m \<Longrightarrow> wf_map (drop n m)"
  by (simp add: wf_map_def drop_map[symmetric])

lemma idem_ok_evict: "wf_map (is_tombstones s) \<Longrightarrow> idem_ok (evictOverflow s)"
  by (simp add: idem_ok_def wf_map_drop)

lemma hydrate_fold_wf: "wf_map (is_tombstones s) \<Longrightarrow> wf_map (is_tombstones (fold (hydrate_entry now) ts s))"
  by (induction ts arbitrary: s) (auto simp: hydrate_entry_def wf_map_set)

lemma length_touch: "jget m k = Some t \<Longrightarrow> wf_map m \<Longrightarrow> length (jset k t' (jdelete k m)) = length m"
  by (simp add: jset_jdelete length_jdelete)

lemma idem_ok_apply: "idem_ok s \<Longrightarrow> idem_ok (idem_apply s c)"
proof (cases c)
  case (ILookup k t)
  assume ok: "idem_ok s"
  show ?thesis
  proof (cases "jget (is_tombstones s) k")
    case None
    with ok ILookup show ?thesis by (simp add: lookup_under_def)
  next
    case (Some x)
    moreover have "length (jdelete k (is_tombstones s)) \<le> is_maxEntries s"
      using ok length_jdelete_le[of k "is_tombstones s"] by (simp add: idem_ok_def)
    ultimately show ?thesis
      using ok ILookup length_touch[OF Some]
      by (auto simp: lookup_under_def idem_ok_def Let_def intro: wf_intros)
  qed
next
  case (IRecord k x t)
  assume "idem_ok s"
  with IRecord show ?thesis
    by (simp add: recordUnder_def idem_ok_def[of s]) (intro idem_ok_evict, simp add: wf_map_set)
next
  case (IUpdate k p t)
  assume "idem_ok s"
  with IUpdate show ?thesis
    by (auto simp: updateUnder_def idem_ok_def wf_map_set length_jset split: option.splits)
next
  case (IDelete k)
  assume "idem_ok s"
  with IDelete show ?thesis
    using length_jdelete_le[of k "is_tombstones s"] by (auto simp: deleteUnder_def idem_ok_def wf_map_delete)
next
  case (IHydrate ts t)
  assume "idem_ok s"
  with IHydrate show ?thesis
    by (simp add: hydrate_store_def Let_def idem_ok_def[of s] hydrate_fold_wf idem_ok_evict)
next
  case (IReap t)
  assume "idem_ok s"
  with IReap show ?thesis
    by (auto simp: reapExpired_store_def idem_ok_def wf_map_filter intro: le_trans[OF length_filter_le])
qed

lemma idem_ok_run: "idem_ok s \<Longrightarrow> idem_ok (idem_run s cs)"
  by (induction cs arbitrary: s) (auto intro: idem_ok_apply)

lemma idem_ok_init: "idem_ok (BoundedIdempotencyStore maxE ret)"
  by (simp add: idem_ok_def BoundedIdempotencyStore_def wf_map_Nil)

lemma is_maxEntries_apply [simp]: "is_maxEntries (idem_apply s c) = is_maxEntries s"
proof -
  have "is_maxEntries (fold (hydrate_entry t) ts s) = is_maxEntries s" for t ts s
    by (induction ts arbitrary: s) (auto simp: hydrate_entry_def)
  then show ?thesis
    by (cases c) (auto simp: lookup_under_def recordUnder_def updateUnder_def deleteUnder_def hydrate_store_def
      reapExpired_store_def Let_def split: option.splits)
qed

lemma is_retentionMs_apply [simp]: "is_retentionMs (idem_apply s c) = is_retentionMs s"
proof -
  have "is_retentionMs (fold (hydrate_entry t) ts s) = is_retentionMs s" for t ts s
    by (induction ts arbitrary: s) (auto simp: hydrate_entry_def)
  then show ?thesis
    by (cases c) (auto simp: lookup_under_def recordUnder_def updateUnder_def deleteUnder_def hydrate_store_def
      reapExpired_store_def Let_def split: option.splits)
qed

subsection \<open>What eviction guarantees\<close>

definition held :: "string \<Rightarrow> string \<Rightarrow> time \<Rightarrow> nat \<Rightarrow> idem_store \<Rightarrow> bool" where
  "held k op cr n s \<longleftrightarrow>
    (\<exists>xs t ys. is_tombstones s = xs @ (k, t) # ys \<and> ts_operationId t = op \<and> ts_createdAt t = cr \<and>
      length ys \<le> n)"

text \<open>Calls that are not aimed at removing key \<open>k\<close>, with clocks at most \<open>T\<close>, and the number
  of entries each can move behind \<open>k\<close>.\<close>

fun gentle :: "string \<Rightarrow> time \<Rightarrow> idem_call \<Rightarrow> bool" where
  "gentle k T (ILookup _ t) = (t \<le> T)"
| "gentle k T (IRecord k' _ _) = (k' \<noteq> k)"
| "gentle k T (IUpdate _ _ _) = True"
| "gentle k T (IDelete k') = (k' \<noteq> k)"
| "gentle k T (IHydrate _ _) = False"
| "gentle k T (IReap t) = (t \<le> T)"

fun touches :: "idem_call \<Rightarrow> nat" where
  "touches (ILookup _ _) = 1"
| "touches (IRecord _ _ _) = 1"
| "touches _ = 0"

lemma heldI:
  "is_tombstones s = xs @ (k, t) # ys \<Longrightarrow> ts_operationId t = op \<Longrightarrow> ts_createdAt t = cr \<Longrightarrow>
    length ys \<le> n \<Longrightarrow> held k op cr n s"
  unfolding held_def by blast

lemma held_evict:
  assumes "held k op cr n s" "n < is_maxEntries s"
  shows "held k op cr n (evictOverflow s)"
proof -
  obtain xs t ys where s: "is_tombstones s = xs @ (k, t) # ys" "ts_operationId t = op" "ts_createdAt t = cr" "length ys \<le> n"
    using assms(1) by (auto simp: held_def)
  have "length (is_tombstones s) - is_maxEntries s \<le> length xs"
    using s assms(2) by simp
  then have "is_tombstones (evictOverflow s) = drop (length (is_tombstones s) - is_maxEntries s) xs @ (k, t) # ys"
    by (simp add: s(1))
  with s show ?thesis
    unfolding held_def by blast
qed

lemma held_get: "wf_map (is_tombstones s) \<Longrightarrow> held k op cr n s \<Longrightarrow>
  \<exists>t. jget (is_tombstones s) k = Some t \<and> ts_operationId t = op \<and> ts_createdAt t = cr"
  by (auto simp: held_def wf_map_def)

lemma held_set_other:
  assumes "held k op cr n s" "k' \<noteq> k"
  shows "held k op cr (Suc n) (s\<lparr>is_tombstones := jset k' v (is_tombstones s)\<rparr>)"
proof -
  obtain xs t ys where s: "is_tombstones s = xs @ (k, t) # ys" "ts_operationId t = op" "ts_createdAt t = cr" "length ys \<le> n"
    using assms(1) by (auto simp: held_def)
  obtain xs' ys' where "jset k' v (is_tombstones s) = xs' @ (k, t) # ys'" "length ys' \<le> Suc (length ys)"
    using jset_split[OF assms(2), of v xs t ys] by (auto simp: s(1))
  with s show ?thesis
    by (intro heldI[of _ xs' k t ys']) auto
qed

lemma held_update_other:
  assumes "held k op cr n s" "k' \<noteq> k" "jhas (is_tombstones s) k'"
  shows "held k op cr n (s\<lparr>is_tombstones := jset k' v (is_tombstones s)\<rparr>)"
proof -
  obtain xs t ys where s: "is_tombstones s = xs @ (k, t) # ys" "ts_operationId t = op" "ts_createdAt t = cr" "length ys \<le> n"
    using assms(1) by (auto simp: held_def)
  show ?thesis
  proof (cases "k' \<in> fst ` set xs")
    case True
    then have "jset k' v (xs @ (k, t) # ys) = jset k' v xs @ (k, t) # ys"
      by (induction xs) auto
    with s show ?thesis by (auto simp: held_def)
  next
    case False
    then have "jset k' v (xs @ (k, t) # ys) = xs @ (k, t) # jset k' v ys"
      using assms(2) by (induction xs) auto
    moreover have "jhas ys k'"
      using assms(2,3) False unfolding jhas_iff s(1) by auto
    ultimately show ?thesis
      using s by (intro heldI[of _ xs k t "jset k' v ys"]) (simp_all add: length_jset)
  qed
qed

lemma held_delete_other:
  assumes "held k op cr n s" "k' \<noteq> k"
  shows "held k op cr n (s\<lparr>is_tombstones := jdelete k' (is_tombstones s), is_evictedLookups := e\<rparr>)"
proof -
  obtain xs t ys where s: "is_tombstones s = xs @ (k, t) # ys" "ts_operationId t = op" "ts_createdAt t = cr" "length ys \<le> n"
    using assms(1) by (auto simp: held_def)
  then have "is_tombstones (s\<lparr>is_tombstones := jdelete k' (is_tombstones s), is_evictedLookups := e\<rparr>) =
      jdelete k' xs @ (k, t) # jdelete k' ys"
    using assms(2) by (simp add: jdelete_split)
  then show ?thesis
    unfolding held_def using s(2-4) length_jdelete_le[of k' ys] le_trans by blast
qed

lemma held_mono: "held k op cr n s \<Longrightarrow> n \<le> n' \<Longrightarrow> held k op cr n' s"
  by (force simp: held_def)

lemma held_last: "is_tombstones s = xs @ [(k, t)] \<Longrightarrow> held k (ts_operationId t) (ts_createdAt t) n s"
  unfolding held_def by (intro exI[of _ xs] exI[of _ t] exI[of _ "[]"]) simp

lemma held_lookup:
  assumes ok: "idem_ok s" and h: "held k op cr n s" and "t \<le> cr + is_retentionMs s"
  shows "held k op cr (Suc n) (snd (lookup_under k' t s))"
proof -
  have wf: "wf_map (is_tombstones s)"
    using ok by (simp add: idem_ok_def)
  obtain x where x: "jget (is_tombstones s) k = Some x" "ts_operationId x = op" "ts_createdAt x = cr"
    using held_get[OF wf h] by blast
  show ?thesis
  proof (cases "k' = k")
    case True
    have "\<not> aged s t x"
      using assms(3) x by (simp add: aged_def)
    with True x(1) have "is_tombstones (snd (lookup_under k' t s)) =
        jdelete k (is_tombstones s) @ [(k, x\<lparr>ts_lastUsedAt := t\<rparr>)]"
      by (simp add: lookup_under_def Let_def jset_jdelete)
    from held_last[OF this] x(2,3) show ?thesis by simp
  next
    case False
    have del: "held k op cr n (s\<lparr>is_tombstones := jdelete k' (is_tombstones s), is_evictedLookups := e\<rparr>)" for e
      using h False by (rule held_delete_other)
    have "held k op cr (Suc n) (s\<lparr>is_tombstones := jset k' v (jdelete k' (is_tombstones s))\<rparr>)" for v
      using held_set_other[OF del[of "is_evictedLookups s"] False, of v] by simp
    then show ?thesis
      using del held_mono[OF h, of "Suc n"] held_mono[OF del, of "Suc n"]
      by (auto simp: lookup_under_def Let_def split: option.splits)
  qed
qed

lemma held_reap:
  assumes h: "held k op cr n s" and "t \<le> cr + is_retentionMs s"
  shows "held k op cr n (snd (reapExpired_store t s))"
proof -
  obtain xs x ys where s: "is_tombstones s = xs @ (k, x) # ys" "ts_operationId x = op" "ts_createdAt x = cr" "length ys \<le> n"
    using h by (auto simp: held_def)
  have "\<not> aged s t x"
    using assms(2) s(3) by (simp add: aged_def)
  then have "is_tombstones (snd (reapExpired_store t s)) =
      filter (\<lambda>p. \<not> aged s t (snd p)) xs @ (k, x) # filter (\<lambda>p. \<not> aged s t (snd p)) ys"
    by (simp add: reapExpired_store_def s(1))
  then show ?thesis
    unfolding held_def using s(2-4) length_filter_le le_trans by blast
qed

lemma held_patch_self:
  assumes wf: "wf_map (is_tombstones s)" and h: "held k op cr n s" and x: "jget (is_tombstones s) k = Some x"
  shows "held k op cr n (s\<lparr>is_tombstones := jset k (patch_tombstone p t x) (is_tombstones s)\<rparr>)"
proof -
  obtain xs y ys where s: "is_tombstones s = xs @ (k, y) # ys" "ts_operationId y = op" "ts_createdAt y = cr" "length ys \<le> n"
    using h by (auto simp: held_def)
  have "k \<notin> fst ` set xs"
    using wf by (auto simp: wf_map_def s(1))
  moreover from this have "jget xs k = None"
    by (simp add: map_of_eq_None_iff)
  then have "x = y"
    using x by (simp add: s(1) map_add_def)
  ultimately show ?thesis
    using s by (intro heldI[of _ xs k "patch_tombstone p t y" ys]) (simp_all add: jset_here patch_tombstone_def)
qed

lemma held_apply:
  assumes ok: "idem_ok s" and h: "held k op cr n s" and g: "gentle k (cr + is_retentionMs s) c"
    and room: "n + touches c < is_maxEntries s"
  shows "held k op cr (n + touches c) (idem_apply s c)"
proof -
  have wf: "wf_map (is_tombstones s)"
    using ok by (simp add: idem_ok_def)
  show ?thesis
  proof (cases c)
    case (ILookup k' t)
    with held_lookup[OF ok h, of t k'] g show ?thesis by simp
  next
    case (IRecord k' x t)
    with held_set_other[OF h, of k'] g room show ?thesis
      by (simp add: recordUnder_def held_evict)
  next
    case (IUpdate k' p t)
    then show ?thesis
      using h held_patch_self[OF wf h] held_update_other[OF h, of k']
      by (cases "k' = k") (auto simp: updateUnder_def split: option.splits)
  next
    case (IDelete k')
    with held_delete_other[OF h, of k' "is_evictedLookups s"] g show ?thesis
      by (simp add: deleteUnder_def)
  next
    case (IHydrate ts t)
    with g show ?thesis by simp
  next
    case (IReap t)
    with held_reap[OF h, of t] g show ?thesis by simp
  qed
qed

lemma held_run:
  assumes "idem_ok s" "held k op cr n s" "\<forall>c\<in>set cs. gentle k (cr + is_retentionMs s) c"
    and "n + sum_list (map touches cs) < is_maxEntries s"
  shows "held k op cr (n + sum_list (map touches cs)) (idem_run s cs)"
  using assms
proof (induction cs arbitrary: s n)
  case (Cons c cs)
  have "held k op cr (n + touches c) (idem_apply s c)"
    using Cons.prems by (intro held_apply) auto
  with Cons.IH[of "idem_apply s c" "n + touches c"] Cons.prems idem_ok_apply[of s c] show ?case
    by (simp add: add.assoc)
qed simp

lemma keyFor_inject:
  "keyFor d c u k = keyFor d' c' u' k' \<longleftrightarrow> d = d' \<and> c = c' \<and> u = u' \<and> k = k'"
  using json_array_inject[of "[Some d, Some c, u, Some k]" "[Some d', Some c', u', Some k']"]
  by (auto simp: keyFor_def)

subsection \<open>The contract with the operation manager\<close>

text \<open>
  A deduplicating store: after \<open>put\<close> under a key, \<open>find\<close> with the same key returns the
  recorded operation while the retention window lasts, finding it again does not lose it, and
  other keys keep what they had. \<open>fresh\<close> says the key has no record.
\<close>

locale dedupe_store =
  fixes find :: "'k \<Rightarrow> time \<Rightarrow> 's \<Rightarrow> string option"
    and touch :: "'k \<Rightarrow> time \<Rightarrow> 's \<Rightarrow> 's"
    and put :: "'k \<Rightarrow> string \<Rightarrow> time \<Rightarrow> 's \<Rightarrow> 's"
    and ok :: "'s \<Rightarrow> bool"
    and born :: "'k \<Rightarrow> 's \<Rightarrow> time option"
    and window :: "'s \<Rightarrow> time"
  assumes ok_touch: "ok s \<Longrightarrow> ok (touch k t s)"
    and ok_put: "ok s \<Longrightarrow> ok (put k op t s)"
    and window_touch: "window (touch k t s) = window s"
    and window_put: "window (put k op t s) = window s"
    and put_find: "ok s \<Longrightarrow> t' \<le> t + window s \<Longrightarrow> find k t' (put k op t s) = Some op"
    and put_born: "ok s \<Longrightarrow> born k (put k op t s) = Some t"
    and touch_find: "ok s \<Longrightarrow> find k t s = Some op \<Longrightarrow> born k s = Some b \<Longrightarrow> t' \<le> b + window s \<Longrightarrow>
      find k t' (touch k t s) = Some op"
    and touch_born: "ok s \<Longrightarrow> find k t s = Some op \<Longrightarrow> born k (touch k t s) = born k s"
begin

fun retries :: "'k \<Rightarrow> time list \<Rightarrow> 's \<Rightarrow> string option list" where
  "retries k [] s = []"
| "retries k (t # ts) s = find k t s # retries k ts (touch k t s)"

lemma retries_stable:
  assumes "ok s" "born k s = Some b" "\<forall>t\<in>set ts. t \<le> b + window s"
    and "\<And>t. t \<le> b + window s \<Longrightarrow> find k t s = Some op"
  shows "\<forall>r\<in>set (retries k ts s). r = Some op"
  using assms
proof (induction ts arbitrary: s)
  case (Cons t ts)
  have hit: "find k t s = Some op"
    using Cons.prems by simp
  have "\<forall>r\<in>set (retries k ts (touch k t s)). r = Some op"
  proof (rule Cons.IH)
    show "ok (touch k t s)" "born k (touch k t s) = Some b"
      using Cons.prems(1,2) hit by (simp_all add: ok_touch touch_born)
    show "\<forall>t'\<in>set ts. t' \<le> b + window (touch k t s)"
      using Cons.prems(3) by (simp add: window_touch)
    show "find k t' (touch k t s) = Some op" if "t' \<le> b + window (touch k t s)" for t'
      using touch_find[OF Cons.prems(1) hit Cons.prems(2)] that by (simp add: window_touch)
  qed
  with hit show ?case by simp
qed simp

text \<open>Every retry of a recorded key inside the window finds the one recorded operation.\<close>

lemma retries_after_put:
  assumes "ok s" "\<forall>t'\<in>set ts. t' \<le> t + window s"
  shows "\<forall>r\<in>set (retries k ts (put k op t s)). r = Some op"
  using assms by (intro retries_stable[where b = t]) (auto simp: ok_put put_born window_put put_find)

end

text \<open>The bounded store provides it, for keys of four parts.\<close>

type_synonym idem_key = "string \<times> string \<times> string option \<times> string"

fun key_text :: "idem_key \<Rightarrow> string" where
  "key_text (d, c, u, k) = keyFor d c u k"

definition st_find :: "idem_key \<Rightarrow> time \<Rightarrow> idem_store \<Rightarrow> string option" where
  "st_find k t s = lk_operationId (fst (lookup_under (key_text k) t s))"

definition st_touch :: "idem_key \<Rightarrow> time \<Rightarrow> idem_store \<Rightarrow> idem_store" where
  "st_touch k t s = snd (lookup_under (key_text k) t s)"

fun queued_tombstone :: "idem_key \<Rightarrow> string \<Rightarrow> time \<Rightarrow> tombstone" where
  "queued_tombstone (d, c, u, k) op t =
    \<lparr>ts_operationId = op, ts_deviceId = d, ts_capability = c, ts_owner = u, ts_key = k,
     ts_status = Queued, ts_createdAt = t, ts_result = None, ts_error = None, ts_lastUsedAt = t\<rparr>"

definition st_put :: "idem_key \<Rightarrow> string \<Rightarrow> time \<Rightarrow> idem_store \<Rightarrow> idem_store" where
  "st_put k op t s = recordUnder (key_text k) (queued_tombstone k op t) t s"

definition st_ok :: "idem_store \<Rightarrow> bool" where
  "st_ok s \<longleftrightarrow> idem_ok s \<and> 0 < is_maxEntries s \<and> 0 \<le> is_retentionMs s"

definition st_born :: "idem_key \<Rightarrow> idem_store \<Rightarrow> time option" where
  "st_born k s = map_option ts_createdAt (jget (is_tombstones s) (key_text k))"

lemma queued_tombstone_simps [simp]:
  "ts_operationId (queued_tombstone k op t) = op"
  "ts_createdAt (queued_tombstone k op t) = t"
  by (cases k; simp)+

lemma key_text_inject: "key_text k = key_text k' \<longleftrightarrow> k = k'"
  by (cases k; cases k') (auto simp: keyFor_inject)

text \<open>A record just written is there: it is last, or it replaced an entry and nothing is dropped.\<close>

lemma recordUnder_get:
  assumes ok: "idem_ok s" and pos: "0 < is_maxEntries s"
  shows "jget (is_tombstones (recordUnder k x t s)) k = Some (x\<lparr>ts_lastUsedAt := t\<rparr>)"
proof (cases "jhas (is_tombstones s) k")
  case True
  then have "length (jset k (x\<lparr>ts_lastUsedAt := t\<rparr>) (is_tombstones s)) \<le> is_maxEntries s"
    using ok by (simp add: length_jset idem_ok_def)
  then show ?thesis
    by (simp add: recordUnder_def jget_set)
next
  case False
  let ?s = "s\<lparr>is_tombstones := jset k (x\<lparr>ts_lastUsedAt := t\<rparr>) (is_tombstones s)\<rparr>"
  have set: "is_tombstones ?s = is_tombstones s @ [(k, x\<lparr>ts_lastUsedAt := t\<rparr>)]"
    using False by (simp add: jset_new)
  have "length (is_tombstones ?s) - is_maxEntries ?s \<le> length (is_tombstones s)"
    using pos by (simp add: set del: One_nat_def)
  then have "is_tombstones (recordUnder k x t s) =
      drop (length (is_tombstones ?s) - is_maxEntries ?s) (is_tombstones s) @ [(k, x\<lparr>ts_lastUsedAt := t\<rparr>)]"
    unfolding recordUnder_def evictOverflow_tombstones set by simp
  moreover have "jget (drop n (is_tombstones s) @ [(k, y)]) k = Some y" for n y
  proof -
    have "k \<notin> fst ` set (drop n (is_tombstones s))"
      using False in_set_dropD[of _ n "is_tombstones s"] unfolding jhas_iff by blast
    then have "jget (drop n (is_tombstones s)) k = None"
      by (simp only: map_of_eq_None_iff not_False_eq_True)
    then show ?thesis by (simp add: map_add_def)
  qed
  ultimately show ?thesis by simp
qed

lemma lookup_under_tombstone:
  "jget (is_tombstones s) k = Some x \<Longrightarrow> \<not> aged s t x \<Longrightarrow>
    jget (is_tombstones (snd (lookup_under k t s))) k = Some (x\<lparr>ts_lastUsedAt := t\<rparr>) \<and>
    lk_operationId (fst (lookup_under k t s)) = Some (ts_operationId x) \<and>
    is_retentionMs (snd (lookup_under k t s)) = is_retentionMs s"
  by (simp add: lookup_under_def Let_def jget_set)

lemma lookup_under_hit:
  "lk_operationId (fst (lookup_under k t s)) = Some op \<longleftrightarrow>
    (\<exists>x. jget (is_tombstones s) k = Some x \<and> \<not> aged s t x \<and> ts_operationId x = op)"
  by (auto simp: lookup_under_def Let_def split: option.splits)

interpretation idem: dedupe_store st_find st_touch st_put st_ok st_born is_retentionMs
proof unfold_locales
  fix s :: idem_store and k :: idem_key and t t' b :: time and op :: string
  have frame: "st_touch k t s = idem_apply s (ILookup (key_text k) t)"
      "st_put k op t s = idem_apply s (IRecord (key_text k) (queued_tombstone k op t) t)"
    by (simp_all add: st_touch_def st_put_def)
  show "is_retentionMs (st_touch k t s) = is_retentionMs s" "is_retentionMs (st_put k op t s) = is_retentionMs s"
    by (simp_all only: frame is_retentionMs_apply)
  {
    assume ok: "st_ok s"
    then show "st_ok (st_touch k t s)" "st_ok (st_put k op t s)"
      unfolding st_ok_def frame by (simp_all add: idem_ok_apply del: idem_apply.simps)
    have rec: "jget (is_tombstones (st_put k op t s)) (key_text k) = Some (queued_tombstone k op t\<lparr>ts_lastUsedAt := t\<rparr>)"
      using ok by (simp add: st_put_def st_ok_def recordUnder_get)
    then show "st_born k (st_put k op t s) = Some t"
      by (simp add: st_born_def)
    show "t' \<le> t + is_retentionMs s \<Longrightarrow> st_find k t' (st_put k op t s) = Some op"
      using rec by (auto simp: st_find_def lookup_under_hit aged_def frame simp del: idem_apply.simps)
    show "st_find k t s = Some op \<Longrightarrow> st_born k (st_touch k t s) = st_born k s"
      using lookup_under_tombstone by (fastforce simp: st_find_def lookup_under_hit st_born_def st_touch_def)
    show "st_find k t s = Some op \<Longrightarrow> st_born k s = Some b \<Longrightarrow> t' \<le> b + is_retentionMs s \<Longrightarrow>
        st_find k t' (st_touch k t s) = Some op"
      using lookup_under_tombstone[of s "key_text k" _ t]
      by (auto simp: st_find_def lookup_under_hit st_born_def st_touch_def aged_def)
  }
qed

subsection \<open>Properties\<close>

text \<open>Bounded memory. From an empty store, through any sequence of lookups, records,
  updates, deletions, hydrations and reapings, the store never holds more than
  \<open>maxEntries\<close> tombstones and has at most one per key.\<close>

theorem idempotency_bounded:
  "idem_size (idem_run (BoundedIdempotencyStore maxE ret) cs) \<le> (case maxE of Some n \<Rightarrow> n | None \<Rightarrow> 10000) \<and>
    distinct (jkeys (is_tombstones (idem_run (BoundedIdempotencyStore maxE ret) cs)))"
proof -
  have "is_maxEntries (idem_run s cs) = is_maxEntries s" for s
    by (induction cs arbitrary: s) (simp_all del: idem_apply.simps)
  moreover have "idem_ok (idem_run (BoundedIdempotencyStore maxE ret) cs)"
    by (rule idem_ok_run[OF idem_ok_init])
  ultimately show ?thesis
    by (simp add: idem_ok_def idem_size_def wf_map_def BoundedIdempotencyStore_def)
qed

text \<open>No cross-caller collisions. A tombstone recorded for one (device, capability, owner,
  key) changes the answer of a lookup with different parts in no way other than by eviction of
  the oldest entry: with room left in the store, the lookup returns what it returned before.\<close>

theorem idempotency_no_collision:
  assumes "(d, c, u, k) \<noteq> (d', c', u', k')" and "idem_size s < is_maxEntries s"
  shows "fst (idem_find d' c' u' k' now (recordUnder (keyFor d c u k) x t s)) = fst (idem_find d' c' u' k' now s)"
proof -
  have "length (jset (keyFor d c u k) y (is_tombstones s)) \<le> is_maxEntries s" for y
    using assms(2) by (simp add: length_jset idem_size_def)
  moreover have "keyFor d' c' u' k' \<noteq> keyFor d c u k"
    using assms(1) by (auto simp: keyFor_inject)
  ultimately show ?thesis
    by (simp add: idem_find_def lookup_under_def recordUnder_def aged_def jget_set Let_def split: option.splits)
qed

theorem idempotency_no_collision_witness:
  "fst (idem_find ''arm'' ''move'' None ''k1'' 5
      (recordUnder (keyFor ''arm'' ''move'' (Some ''bob'') ''k1'')
        (queued_tombstone (''arm'', ''move'', Some ''bob'', ''k1'') ''op_1_x'' 4) 4 (BoundedIdempotencyStore None None))) =
    fst (idem_find ''arm'' ''move'' None ''k1'' 5 (BoundedIdempotencyStore None None))"
  by (rule idempotency_no_collision) (simp_all add: idem_size_def BoundedIdempotencyStore_def)

text \<open>What least-recently-used eviction guarantees. A tombstone recorded under a fresh key
  is still found, with its operation, after any calls that do not delete, re-record or rehydrate it
  and stay within the retention window, as long as fewer than \<open>maxEntries\<close> lookups and
  records happened in between.\<close>

theorem idempotency_lru_retention:
  assumes "idem_ok s" and "jget (is_tombstones s) k = None"
    and "\<forall>c\<in>set cs. gentle k (ts_createdAt x + is_retentionMs s) c"
    and "sum_list (map touches cs) < is_maxEntries s"
    and "now \<le> ts_createdAt x + is_retentionMs s"
  shows "lk_operationId (fst (lookup_under k now (idem_run (recordUnder k x t s) cs))) = Some (ts_operationId x)"
proof -
  let ?s = "recordUnder k x t s"
  have s: "?s = idem_apply s (IRecord k x t)"
    by simp
  have "held k (ts_operationId x) (ts_createdAt x) 0 (s\<lparr>is_tombstones := jset k (x\<lparr>ts_lastUsedAt := t\<rparr>) (is_tombstones s)\<rparr>)"
    using assms(2) by (intro heldI[of _ "is_tombstones s" k "x\<lparr>ts_lastUsedAt := t\<rparr>" "[]"]) (simp_all add: jset_new)
  then have h: "held k (ts_operationId x) (ts_createdAt x) 0 ?s"
    unfolding recordUnder_def using assms(4) by (intro held_evict) simp_all
  have ok: "idem_ok ?s"
    unfolding s by (rule idem_ok_apply[OF assms(1)])
  have frame: "is_retentionMs ?s = is_retentionMs s" "is_maxEntries ?s = is_maxEntries s"
    unfolding s by (simp_all only: is_retentionMs_apply is_maxEntries_apply)
  have "held k (ts_operationId x) (ts_createdAt x) (0 + sum_list (map touches cs)) (idem_run ?s cs)"
    using assms(3,4) by (intro held_run[OF ok h]) (simp_all add: frame)
  moreover have run: "idem_ok (idem_run ?s cs)"
    by (rule idem_ok_run[OF ok])
  ultimately obtain y where y: "jget (is_tombstones (idem_run ?s cs)) k = Some y"
      "ts_operationId y = ts_operationId x" "ts_createdAt y = ts_createdAt x"
    using held_get[of "idem_run ?s cs"] unfolding idem_ok_def by blast
  have "is_retentionMs (idem_run s' cs) = is_retentionMs s'" for s'
    by (induction cs arbitrary: s') (simp_all del: idem_apply.simps)
  then have "\<not> aged (idem_run ?s cs) now y"
    using y(3) assms(5) by (simp add: aged_def frame)
  with y show ?thesis
    by (auto simp: lookup_under_hit)
qed

theorem idempotency_lru_retention_witness:
  "lk_operationId (fst (lookup_under ''k'' 50
    (idem_run (recordUnder ''k'' (queued_tombstone (''d'', ''c'', None, ''k'') ''op_1_x'' 0) 0 (BoundedIdempotencyStore (Some 3) (Some 100)))
      [IRecord ''j'' (queued_tombstone (''d'', ''c'', None, ''j'') ''op_2_x'' 1) 1, ILookup ''j'' 2, IReap 60]))) = Some ''op_1_x''"
  using idempotency_lru_retention[of "BoundedIdempotencyStore (Some 3) (Some 100)" "''k''"
      "[IRecord ''j'' (queued_tombstone (''d'', ''c'', None, ''j'') ''op_2_x'' 1) 1, ILookup ''j'' 2, IReap 60]"
      "queued_tombstone (''d'', ''c'', None, ''k'') ''op_1_x'' 0" 50 0]
  by (simp add: idem_ok_init BoundedIdempotencyStore_def idem_ok_def wf_map_Nil)

end
