(* ===== verification/Journal.thy ===== *)
theory Journal
  imports Errors Json_Key
begin

text \<open>
  The append-only control journal, \<open>packages/core/src/journal/journal.ts\<close>: redaction of
  secret-looking keys, truncation of large payloads, appending, queries and the renumbering
  after a restart, over the in-memory storage. The JSONL file storage is file I/O and is not
  modelled. \<open>num_text\<close> is the text of a number in \<open>JSON.stringify\<close>.
\<close>

subsection \<open>Redaction\<close>

definition lower_char :: "char \<Rightarrow> char" where
  "lower_char c = (if 65 \<le> (of_char c :: nat) \<and> (of_char c :: nat) \<le> 90 then char_of ((of_char c :: nat) + 32) else c)"

fun has_infix :: "string \<Rightarrow> string \<Rightarrow> bool" where
  "has_infix p [] = (p = [])"
| "has_infix p (c # s) = (starts_with p (c # s) \<or> has_infix p s)"

text \<open>The alternatives of \<open>SECRET_KEY_PATTERN\<close>, matched anywhere and case-insensitively.\<close>

definition secret_words :: "string list" where
  "secret_words =
    [''pass'', ''secret'', ''token'', ''credential'', ''authorization'',
     ''apikey'', ''api-key'', ''api_key'', ''privatekey'', ''private-key'', ''private_key'']"

definition SECRET_KEY_PATTERN :: "string \<Rightarrow> bool" where
  "SECRET_KEY_PATTERN key = (\<exists>w\<in>set secret_words. has_infix w (map lower_char key))"

definition REDACTED :: jsval where
  "REDACTED = JStr ''[REDACTED]''"

fun redact_value :: "nat \<Rightarrow> jsval \<Rightarrow> jsval" and redact_fields :: "nat \<Rightarrow> jsrecord \<Rightarrow> jsrecord" where
  "redact_value d (JObj f) =
    JObj (if Suc d > 4 then [(''truncated'', JBool True)] else redact_fields (Suc d) f)"
| "redact_value d (JArr xs) = JArr (take 32 xs)"
| "redact_value d v = v"
| "redact_fields d [] = []"
| "redact_fields d ((k, v) # r) =
    (k, if SECRET_KEY_PATTERN k then REDACTED else redact_value d v) # redact_fields d r"

definition redactPayload :: "jsrecord \<Rightarrow> nat \<Rightarrow> jsrecord" where
  "redactPayload payload depth =
    (if depth > 4 then [(''truncated'', JBool True)] else redact_fields depth payload)"

subsection \<open>Truncation\<close>

text \<open>
  \<open>JSON.stringify\<close>: absent (\<open>undefined\<close>) properties are left out, absent array items and
  non-finite numbers are \<open>null\<close>.
\<close>

fun json_text :: "(jsnum \<Rightarrow> string) \<Rightarrow> jsval \<Rightarrow> string"
  and json_texts :: "(jsnum \<Rightarrow> string) \<Rightarrow> jsval list \<Rightarrow> string list"
  and json_fields :: "(jsnum \<Rightarrow> string) \<Rightarrow> jsrecord \<Rightarrow> string list" where
  "json_text nt JUndefined = ''null''"
| "json_text nt JNull = ''null''"
| "json_text nt (JBool b) = (if b then ''true'' else ''false'')"
| "json_text nt (JNum n) = (if is_finite n then nt n else ''null'')"
| "json_text nt (JStr s) = json_string s"
| "json_text nt (JArr xs) = ''['' @ join '','' (json_texts nt xs) @ '']''"
| "json_text nt (JObj f) = ''{'' @ join '','' (json_fields nt f) @ ''}''"
| "json_texts nt [] = []"
| "json_texts nt (x # xs) = json_text nt x # json_texts nt xs"
| "json_fields nt [] = []"
| "json_fields nt ((k, v) # f) =
    (if v = JUndefined then json_fields nt f
     else (json_string k @ '':'' @ json_text nt v) # json_fields nt f)"

definition truncatePayload :: "(jsnum \<Rightarrow> string) \<Rightarrow> jsrecord \<Rightarrow> nat \<Rightarrow> jsrecord option" where
  "truncatePayload nt payload maxChars =
    (if payload = [] then None
     else
       let json = json_text nt (JObj payload)
       in if length json \<le> maxChars then Some payload
          else Some [(''truncated'', JBool True),
                     (''originalChars'', JNum (Fin (real (length json)))),
                     (''preview'', JStr (take 512 json))])"

subsection \<open>The journal\<close>

record 'k journal_entry =
  je_sequence :: nat
  je_at :: time
  je_kind :: 'k
  je_deviceId :: "string option"
  je_operationId :: "string option"
  je_payload :: "jsrecord option"

record 'k journal =
  jn_sequence :: nat
  jn_storage :: "'k journal_entry list"
  jn_maxPayloadChars :: nat

definition Journal :: "nat option \<Rightarrow> 'k journal" where
  "Journal maxChars =
    \<lparr>jn_sequence = 0, jn_storage = [],
     jn_maxPayloadChars = (case maxChars of Some n \<Rightarrow> n | None \<Rightarrow> 4096)\<rparr>"

definition journal_append ::
  "(jsnum \<Rightarrow> string) \<Rightarrow> 'k \<Rightarrow> string option \<Rightarrow> string option \<Rightarrow> jsrecord \<Rightarrow> time \<Rightarrow> 'k journal \<Rightarrow>
    'k journal_entry \<times> 'k journal" where
  "journal_append nt kind dev op payload now j =
    (let n = Suc (jn_sequence j);
         entry = \<lparr>je_sequence = n, je_at = now, je_kind = kind, je_deviceId = dev, je_operationId = op,
                  je_payload = (if payload = [] then None
                    else truncatePayload nt (redactPayload payload 0) (jn_maxPayloadChars j))\<rparr>
     in (entry, j\<lparr>jn_sequence := n, jn_storage := jn_storage j @ [entry]\<rparr>))"

record 'k journal_filter =
  jq_deviceId :: "string option"
  jq_operationId :: "string option"
  jq_kinds :: "'k list option"
  jq_afterSequence :: "nat option"
  jq_limit :: "nat option"

definition query_match :: "'k journal_filter \<Rightarrow> 'k journal_entry \<Rightarrow> bool" where
  "query_match q e =
    (\<not> (truthy (jq_deviceId q) \<and> je_deviceId e \<noteq> jq_deviceId q) \<and>
     \<not> (truthy (jq_operationId q) \<and> je_operationId e \<noteq> jq_operationId q) \<and>
     (case jq_kinds q of None \<Rightarrow> True | Some ks \<Rightarrow> je_kind e \<in> set ks) \<and>
     (case jq_afterSequence q of None \<Rightarrow> True | Some n \<Rightarrow> \<not> je_sequence e \<le> n))"

text \<open>The collecting loop: an entry is pushed before the limit is compared.\<close>

fun query_loop :: "'k journal_filter \<Rightarrow> nat \<Rightarrow> 'k journal_entry list \<Rightarrow> 'k journal_entry list" where
  "query_loop q n [] = []"
| "query_loop q n (e # es) =
    (if \<not> query_match q e then query_loop q n es
     else if (case jq_limit q of None \<Rightarrow> False | Some l \<Rightarrow> Suc n \<ge> l) then [e]
     else e # query_loop q (Suc n) es)"

definition journal_query :: "'k journal_filter \<Rightarrow> 'k journal \<Rightarrow> 'k journal_entry list" where
  "journal_query q j = query_loop q 0 (sort_key je_sequence (jn_storage j))"

definition journal_hydrate :: "'k journal \<Rightarrow> nat \<times> 'k journal" where
  "journal_hydrate j =
    (let mx = foldl (\<lambda>acc e. max acc (je_sequence e)) 0 (jn_storage j);
         n = max (jn_sequence j) mx
     in (n, j\<lparr>jn_sequence := n\<rparr>))"

subsection \<open>Lemmas on redaction\<close>

text \<open>
  A secret is exposed by a value when some object in it, not inside an array, has a
  secret-looking key whose value is not the redaction marker.
\<close>

fun exposes :: "jsval \<Rightarrow> bool" and exposes_fields :: "jsrecord \<Rightarrow> bool" where
  "exposes (JObj f) = exposes_fields f"
| "exposes v = False"
| "exposes_fields [] = False"
| "exposes_fields ((k, v) # r) =
    ((if SECRET_KEY_PATTERN k then v \<noteq> REDACTED else exposes v) \<or> exposes_fields r)"

lemma secret_truncated: "\<not> SECRET_KEY_PATTERN ''truncated''"
  by (simp add: SECRET_KEY_PATTERN_def secret_words_def lower_char_def starts_with_def)

lemma redact_exposes:
  "\<not> exposes (redact_value d v)" "\<not> exposes_fields (redact_fields d f)"
  by (induction d v and d f rule: redact_value_redact_fields.induct) (auto simp: secret_truncated)

lemma redactPayload_exposes: "\<not> exposes_fields (redactPayload payload d)"
  by (simp add: redactPayload_def redact_exposes secret_truncated)

fun depth_of :: "jsval \<Rightarrow> nat" and depth_fields :: "jsrecord \<Rightarrow> nat" where
  "depth_of (JObj f) = Suc (depth_fields f)"
| "depth_of v = 0"
| "depth_fields [] = 0"
| "depth_fields ((k, v) # r) = max (depth_of v) (depth_fields r)"

lemma redact_depth:
  "d \<le> 4 \<Longrightarrow> depth_of (redact_value d v) \<le> 5 - d"
  "d \<le> 4 \<Longrightarrow> depth_fields (redact_fields d f) \<le> 5 - d"
proof (induction d v and d f rule: redact_value_redact_fields.induct)
  case (1 d f)
  then show ?case by (cases "4 < Suc d") auto
qed (auto simp: REDACTED_def)

lemma redact_keys: "map fst (redact_fields d f) = map fst f"
  by (induction f) auto

subsection \<open>Lemmas on numbering and queries\<close>

lemma foldl_max_ge: "acc \<le> foldl (\<lambda>acc e. max acc (je_sequence e)) acc es \<and>
  (\<forall>e\<in>set es. je_sequence e \<le> foldl (\<lambda>acc e. max acc (je_sequence e)) acc es)"
proof (induction es arbitrary: acc)
  case (Cons e es)
  from Cons[of "max acc (je_sequence e)"] show ?case by auto
qed simp

definition journal_ok :: "'k journal \<Rightarrow> bool" where
  "journal_ok j \<longleftrightarrow> sorted_wrt (<) (map je_sequence (jn_storage j)) \<and>
    (\<forall>e\<in>set (jn_storage j). je_sequence e \<le> jn_sequence j)"

lemma journal_ok_append: "journal_ok j \<Longrightarrow> journal_ok (snd (journal_append nt k d p pl t j))"
  by (auto simp: journal_ok_def journal_append_def Let_def sorted_wrt_append)

lemma journal_ok_hydrate: "journal_ok j \<Longrightarrow> journal_ok (snd (journal_hydrate j))"
  by (auto simp: journal_ok_def journal_hydrate_def Let_def)

lemma journal_ok_sorted: "journal_ok j \<Longrightarrow> sort_key je_sequence (jn_storage j) = jn_storage j"
  by (intro sorted_sort_id sort_key_id_if_sorted) (auto simp: journal_ok_def strict_sorted_imp_sorted)

lemma query_loop_filter:
  "jq_limit q = None \<Longrightarrow> query_loop q n es = filter (query_match q) es"
  by (induction es arbitrary: n) auto

lemma query_loop_take:
  "jq_limit q = Some l \<Longrightarrow> n < l \<Longrightarrow> query_loop q n es = take (l - n) (filter (query_match q) es)"
proof (induction es arbitrary: n)
  case (Cons e es)
  show ?case
  proof (cases "Suc n < l")
    case True
    with Cons show ?thesis
      by (simp add: Suc_diff_Suc[symmetric] not_le)
  next
    case False
    with Cons.prems have "l - n = Suc 0" by simp
    with Cons False show ?thesis by simp
  qed
qed simp

lemma redact_fields_Nil [simp]: "redact_fields d f = [] \<longleftrightarrow> f = []"
  by (cases f) auto

lemma query_loop_max:
  "jq_limit q = Some l \<Longrightarrow> query_loop q 0 es = take (max 1 l) (filter (query_match q) es)"
proof (cases "l = 0")
  case True
  moreover assume "jq_limit q = Some l"
  ultimately show ?thesis
    by (induction es) auto
qed (simp add: query_loop_take)

text \<open>A run of appends, each with its kind, device, operation, payload and clock reading.\<close>

fun journal_appends ::
  "(jsnum \<Rightarrow> string) \<Rightarrow> ('k \<times> string option \<times> string option \<times> jsrecord \<times> time) list \<Rightarrow>
    'k journal \<Rightarrow> 'k journal_entry list \<times> 'k journal" where
  "journal_appends nt [] j = ([], j)"
| "journal_appends nt ((k, d, op, p, t) # xs) j =
    (let (e, j1) = journal_append nt k d op p t j; (es, j2) = journal_appends nt xs j1 in (e # es, j2))"

lemma journal_appends_spec:
  "fst (journal_appends nt xs j) = es \<Longrightarrow>
    jn_storage (snd (journal_appends nt xs j)) = jn_storage j @ es \<and>
    map je_sequence es = [Suc (jn_sequence j) ..< Suc (jn_sequence j + length xs)]"
proof (induction nt xs j arbitrary: es rule: journal_appends.induct)
  case (2 nt k d op p t xs j)
  let ?e = "fst (journal_append nt k d op p t j)" and ?j = "snd (journal_append nt k d op p t j)"
  have j: "jn_sequence ?j = Suc (jn_sequence j)" "jn_storage ?j = jn_storage j @ [?e]"
    "je_sequence ?e = Suc (jn_sequence j)"
    by (simp_all add: journal_append_def Let_def)
  let ?es = "fst (journal_appends nt xs ?j)"
  have es: "es = ?e # ?es"
    "snd (journal_appends nt ((k, d, op, p, t) # xs) j) = snd (journal_appends nt xs ?j)"
    using 2(2) by (auto simp: split_beta Let_def)
  have IH: "jn_storage (snd (journal_appends nt xs ?j)) = jn_storage ?j @ ?es \<and>
    map je_sequence ?es = [Suc (jn_sequence ?j) ..< Suc (jn_sequence ?j + length xs)]"
    by (rule 2(1)[where x = "journal_append nt k d op p t j", OF refl prod.collapse refl])
  then show ?case
    unfolding es(2) by (simp add: es(1) j upt_conv_Cons del: upt_Suc)
qed simp

lemma hydrate_max: "e \<in> set (jn_storage j) \<Longrightarrow> je_sequence e \<le> jn_sequence (snd (journal_hydrate j))"
  using foldl_max_ge[of 0 "jn_storage j"] by (auto simp: journal_hydrate_def Let_def intro: le_trans)

lemma hydrate_storage [simp]: "jn_storage (snd (journal_hydrate j)) = jn_storage j"
  by (simp add: journal_hydrate_def Let_def)

subsection \<open>Properties\<close>

text \<open>what an entry records of a payload shows no value under a secret-looking key of any
  object reached through objects, at most five objects deep: it is the redacted payload, or, when
  the text of that is too long, the first 512 characters of the redacted text.\<close>

theorem journal_redacts:
  "case je_payload (fst (journal_append nt kind dev op payload now j)) of
     None \<Rightarrow> payload = []
   | Some p \<Rightarrow> \<not> exposes_fields p \<and> depth_fields p \<le> 5 \<and>
       (p = redactPayload payload 0 \<or>
        (\<exists>n. p = [(''truncated'', JBool True), (''originalChars'', JNum n),
                  (''preview'', JStr (take 512 (json_text nt (JObj (redactPayload payload 0)))))]))"
proof -
  have plain: "\<not> SECRET_KEY_PATTERN ''originalChars''" "\<not> SECRET_KEY_PATTERN ''preview''"
    by (simp_all add: SECRET_KEY_PATTERN_def secret_words_def lower_char_def starts_with_def)
  show ?thesis
    using redact_depth(2)[of 0 payload]
    by (simp add: journal_append_def truncatePayload_def Let_def redactPayload_exposes
        redactPayload_def[of payload 0] redact_exposes plain secret_truncated)
qed

text \<open>redaction does not look inside arrays: a password in an object of a list is written
  to the journal as it is.\<close>

theorem journal_leaks_in_arrays:
  "redactPayload [(''accounts'', JArr [JObj [(''password'', JStr s)]])] 0 =
    [(''accounts'', JArr [JObj [(''password'', JStr s)]])]"
  by (simp add: redactPayload_def SECRET_KEY_PATTERN_def secret_words_def lower_char_def starts_with_def)

text \<open>after a restart on any stored entries, the entries appended next are stored after
  them in order, and are numbered consecutively above every stored number.\<close>

theorem journal_numbering:
  assumes "fst (journal_appends nt xs (snd (journal_hydrate j))) = es"
  shows "jn_storage (snd (journal_appends nt xs (snd (journal_hydrate j)))) = jn_storage j @ es \<and>
    (\<exists>n. map je_sequence es = [Suc n ..< Suc (n + length xs)] \<and>
      (\<forall>e\<in>set (jn_storage j). je_sequence e \<le> n))"
  using journal_appends_spec[OF assms] hydrate_max by auto

theorem journal_numbering_witness:
  "let e = \<lparr>je_sequence = 7, je_at = 1, je_kind = ''k'', je_deviceId = None, je_operationId = None,
            je_payload = None\<rparr>;
       j = (Journal None :: string journal)\<lparr>jn_storage := [e]\<rparr>;
       xs = [(''a'', None, None, [], 2), (''b'', None, None, [], 3)];
       es = fst (journal_appends (\<lambda>_. []) xs (snd (journal_hydrate j)))
   in map je_sequence es = [8, 9] \<and>
     jn_storage (snd (journal_appends (\<lambda>_. []) xs (snd (journal_hydrate j)))) = e # es"
proof -
  let ?e = "\<lparr>je_sequence = 7, je_at = 1, je_kind = ''k'', je_deviceId = None, je_operationId = None,
    je_payload = None\<rparr>"
  let ?j = "(Journal None :: string journal)\<lparr>jn_storage := [?e]\<rparr>"
  let ?xs = "[(''a'', None, None, [], 2), (''b'', None, None, [], 3)]"
  let ?es = "fst (journal_appends (\<lambda>_. []) ?xs (snd (journal_hydrate ?j)))"
  have "jn_storage (snd (journal_appends (\<lambda>_. []) ?xs (snd (journal_hydrate ?j)))) = jn_storage ?j @ ?es"
    using journal_numbering[of "\<lambda>_. []" ?xs ?j] by blast
  moreover have "map je_sequence ?es = [8, 9]"
    by (simp add: journal_append_def journal_hydrate_def Journal_def Let_def)
  ultimately show ?thesis
    by (simp add: Let_def)
qed

text \<open>a query answers the matching entries in the order of their numbers, cut at the limit;
  a limit of zero still answers one entry.\<close>

theorem journal_query_spec:
  "journal_query q j =
    (let hits = filter (query_match q) (sort_key je_sequence (jn_storage j))
     in case jq_limit q of None \<Rightarrow> hits | Some l \<Rightarrow> take (max 1 l) hits)"
  by (cases "jq_limit q") (simp_all add: journal_query_def query_loop_filter query_loop_max)

end
