(* ===== verification/Policy.thy ===== *)
theory Policy
  imports Errors
begin

text \<open>
  The baseline policy engine: \<open>packages/core/src/policy/types.ts\<close>, \<open>engine.ts\<close> and
  \<open>errors.ts\<close>, and the declarative module policies with their merge,
  \<open>packages/core/src/module/policies.ts\<close>. An evaluation is \<open>Inl\<close> the thrown error or
  \<open>Inr ()\<close>. The rule kinds of the safety engine are in the same datatype, since that
  engine hands its whole rule list to \<open>evaluatePolicies\<close>.
\<close>

subsection \<open>Rules, contexts and errors\<close>

datatype constraint_provenance =
    DOCUMENTED | CONFIGURED | INFERRED | UNKNOWN | CONFLICTED

record policy_context =
  pc_deviceId :: string
  pc_capability :: string
  pc_payload :: jsrecord
  pc_state :: jsval

text \<open>
  A thrown error by its class, the three policy errors that \<open>check\<close> knows, a
  \<open>PinoutStructuredError\<close> with the rule id of its details, and any other throw.
\<close>

datatype policy_thrown =
    PolicyConstraintViolation
  | PolicyPreconditionFailed
  | PolicyActionDenied
  | PolicyStructured perr "string option"
  | PolicyOther thrown

record range_rule =
  rr_field :: string
  rr_min :: jsnum
  rr_max :: jsnum
  rr_message :: "string option"

record state_rule =
  sr_field :: string
  sr_equals :: jsval
  sr_maxStateAgeMs :: "time option"
  sr_message :: "string option"

record axis_bounds =
  ab_min :: jsnum
  ab_max :: jsnum

datatype rule_body =
    NumericRange range_rule
  | StateEquals state_rule
  | WorkspaceBounds axis_bounds axis_bounds axis_bounds
  | Custom "policy_context \<Rightarrow> policy_thrown option"
  | Rate real "time option"
  | Interlock string "jsval option" "time option"
  | Sequence string jsnum
  | Approval
  | LeaseHeld
  | Deadman "time option"
  | Resource string "real option"

record policy_rule =
  pr_capability :: string
  pr_body :: rule_body
  pr_id :: "string option"
  pr_provenance :: "constraint_provenance option"

subsection \<open>Evaluation\<close>

text \<open>A property read \<open>v[k]\<close> on an object or an array; other values have no such property.\<close>

fun js_prop :: "jsval \<Rightarrow> string \<Rightarrow> jsval" where
  "js_prop (JObj r) k = ownprop r k"
| "js_prop (JArr xs) k =
    ownprop (zip (map nat_str [0..<length xs]) xs @ [(''length'', JNum (Fin (real (length xs))))]) k"
| "js_prop _ k = JUndefined"

text \<open>
  \<open>value < min || value > max\<close> on a finite number; a \<open>NaN\<close> bound compares false.
\<close>

definition in_range :: "jsnum \<Rightarrow> jsnum \<Rightarrow> real \<Rightarrow> bool" where
  "in_range mn mx x = (\<not> js_less (Fin x) mn \<and> \<not> js_less mx (Fin x))"

definition number_in_range :: "jsnum \<Rightarrow> jsnum \<Rightarrow> jsval \<Rightarrow> bool" where
  "number_in_range mn mx v = (case v of JNum (Fin x) \<Rightarrow> in_range mn mx x | _ \<Rightarrow> False)"

definition evaluateNumericRange :: "range_rule \<Rightarrow> policy_context \<Rightarrow> policy_thrown + unit" where
  "evaluateNumericRange r ctx =
    (case ownprop (pc_payload ctx) (rr_field r) of
      JNum (Fin x) \<Rightarrow>
        if js_less (Fin x) (rr_min r) \<or> js_less (rr_max r) (Fin x) then Inl PolicyConstraintViolation
        else Inr ()
    | _ \<Rightarrow> Inl PolicyConstraintViolation)"

text \<open>
  \<open>state.observedAt\<close> of \<open>null\<close> or \<open>undefined\<close> is a \<open>TypeError\<close>; the other values answer
  the property or \<open>undefined\<close>.
\<close>

definition assertFreshState :: "jsval \<Rightarrow> time \<Rightarrow> time \<Rightarrow> policy_thrown + unit" where
  "assertFreshState state maxAge now =
    (if state = JNull \<or> state = JUndefined then Inl (PolicyOther (ThrownError ''TypeError''))
     else
       (case js_prop state ''observedAt'' of
         JNum (Fin seen) \<Rightarrow>
           if now - seen < 0 \<or> now - seen > maxAge
           then Inl (PolicyStructured (PErr ''SAFETY_STATE_STALE'' SAFETY) None)
           else Inr ()
       | _ \<Rightarrow> Inl (PolicyStructured (PErr ''SAFETY_STATE_STALE'' SAFETY) None)))"

definition evaluateStateEquals :: "state_rule \<Rightarrow> policy_context \<Rightarrow> time \<Rightarrow> policy_thrown + unit" where
  "evaluateStateEquals r ctx wall =
    (case (case sr_maxStateAgeMs r of None \<Rightarrow> Inr () | Some a \<Rightarrow> assertFreshState (pc_state ctx) a wall) of
      Inl e \<Rightarrow> Inl e
    | Inr _ \<Rightarrow>
        (if \<not> js_strict_eq (js_prop (pc_state ctx) (sr_field r)) (sr_equals r)
         then Inl PolicyPreconditionFailed else Inr ()))"

fun evaluate_axes :: "(string \<times> axis_bounds) list \<Rightarrow> policy_context \<Rightarrow> policy_thrown + unit" where
  "evaluate_axes [] ctx = Inr ()"
| "evaluate_axes ((axis, b) # r) ctx =
    (if number_in_range (ab_min b) (ab_max b) (ownprop (pc_payload ctx) axis)
     then evaluate_axes r ctx else Inl PolicyConstraintViolation)"

definition evaluateWorkspaceBounds ::
  "axis_bounds \<Rightarrow> axis_bounds \<Rightarrow> axis_bounds \<Rightarrow> policy_context \<Rightarrow> policy_thrown + unit" where
  "evaluateWorkspaceBounds x y z ctx = evaluate_axes [(''x'', x), (''y'', y), (''z'', z)] ctx"

definition evaluate_rule :: "rule_body \<Rightarrow> policy_context \<Rightarrow> time \<Rightarrow> policy_thrown + unit" where
  "evaluate_rule b ctx wall =
    (case b of
      NumericRange r \<Rightarrow> evaluateNumericRange r ctx
    | StateEquals r \<Rightarrow> evaluateStateEquals r ctx wall
    | WorkspaceBounds x y z \<Rightarrow> evaluateWorkspaceBounds x y z ctx
    | Custom f \<Rightarrow> (case f ctx of None \<Rightarrow> Inr () | Some e \<Rightarrow> Inl e)
    | _ \<Rightarrow> Inr ())"

text \<open>\<open>wall\<close> is the \<open>Date.now()\<close> that \<open>assertFreshState\<close> reads by default.\<close>

fun evaluatePolicies :: "policy_rule list \<Rightarrow> policy_context \<Rightarrow> time \<Rightarrow> policy_thrown + unit" where
  "evaluatePolicies [] ctx wall = Inr ()"
| "evaluatePolicies (r # rs) ctx wall =
    (if pr_capability r \<noteq> pc_capability ctx then evaluatePolicies rs ctx wall
     else (case evaluate_rule (pr_body r) ctx wall of
             Inl e \<Rightarrow> Inl e
           | Inr _ \<Rightarrow> evaluatePolicies rs ctx wall))"

subsection \<open>Declarative module policies\<close>

record numeric_constraint =
  nc_min :: "jsnum option"
  nc_max :: "jsnum option"

record capability_policy =
  cp_constraints :: "(string \<times> numeric_constraint) list"
  cp_requires :: "(string \<times> jsval) list"

definition plain_rule :: "string \<Rightarrow> rule_body \<Rightarrow> policy_rule" where
  "plain_rule cap b = \<lparr>pr_capability = cap, pr_body = b, pr_id = None, pr_provenance = None\<rparr>"

fun constraint_rules :: "string \<Rightarrow> string \<times> numeric_constraint \<Rightarrow> policy_rule list" where
  "constraint_rules cap (field, b) =
    (case (nc_min b, nc_max b) of
      (Some mn, Some mx) \<Rightarrow>
        [plain_rule cap (NumericRange \<lparr>rr_field = field, rr_min = mn, rr_max = mx, rr_message = None\<rparr>)]
    | (None, Some mx) \<Rightarrow>
        [plain_rule cap (NumericRange \<lparr>rr_field = field, rr_min = NegInf, rr_max = mx, rr_message = None\<rparr>)]
    | (Some mn, None) \<Rightarrow>
        [plain_rule cap (NumericRange \<lparr>rr_field = field, rr_min = mn, rr_max = PosInf, rr_message = None\<rparr>)]
    | (None, None) \<Rightarrow> [])"

fun requires_rule :: "string \<Rightarrow> string \<times> jsval \<Rightarrow> policy_rule" where
  "requires_rule cap (field, v) =
    plain_rule cap (StateEquals \<lparr>sr_field = field, sr_equals = v, sr_maxStateAgeMs = None, sr_message = None\<rparr>)"

text \<open>An absent \<open>constraints\<close> or \<open>requires\<close> is the empty list.\<close>

definition policiesFromDeclarative :: "(string \<times> capability_policy) list \<Rightarrow> policy_rule list" where
  "policiesFromDeclarative m =
    concat (map (\<lambda>(cap, p).
      concat (map (constraint_rules cap) (cp_constraints p)) @ map (requires_rule cap) (cp_requires p)) m)"

subsection \<open>Merging module and deployment policies\<close>

fun rule_kind :: "rule_body \<Rightarrow> string" where
  "rule_kind (NumericRange _) = ''numericRange''"
| "rule_kind (StateEquals _) = ''stateEquals''"
| "rule_kind (WorkspaceBounds _ _ _) = ''workspaceBounds''"
| "rule_kind (Custom _) = ''custom''"
| "rule_kind (Rate _ _) = ''rate''"
| "rule_kind (Interlock _ _ _) = ''interlock''"
| "rule_kind (Sequence _ _) = ''sequence''"
| "rule_kind Approval = ''approval''"
| "rule_kind LeaseHeld = ''lease''"
| "rule_kind (Deadman _) = ''deadman''"
| "rule_kind (Resource _ _) = ''resource''"

fun ruleKindField :: "rule_body \<Rightarrow> string option" where
  "ruleKindField (NumericRange r) = Some (rr_field r)"
| "ruleKindField (StateEquals r) = Some (sr_field r)"
| "ruleKindField (WorkspaceBounds _ _ _) = Some ''workspace''"
| "ruleKindField _ = None"

text \<open>\<open>Math.max\<close> and \<open>Math.min\<close>: \<open>NaN\<close> absorbs.\<close>

definition js_max :: "jsnum \<Rightarrow> jsnum \<Rightarrow> jsnum" where
  "js_max a b = (if a = NaN \<or> b = NaN then NaN else if js_less a b then b else a)"

definition js_min :: "jsnum \<Rightarrow> jsnum \<Rightarrow> jsnum" where
  "js_min a b = (if a = NaN \<or> b = NaN then NaN else if js_less b a then b else a)"

definition same_slot :: "policy_rule \<Rightarrow> policy_rule \<Rightarrow> bool" where
  "same_slot d r =
    (pr_capability r = pr_capability d \<and> rule_kind (pr_body r) = rule_kind (pr_body d) \<and>
     ruleKindField (pr_body r) = ruleKindField (pr_body d))"

text \<open>\<open>findIndex\<close>: the first index whose element satisfies the predicate.\<close>

fun find_index :: "('a \<Rightarrow> bool) \<Rightarrow> 'a list \<Rightarrow> nat option" where
  "find_index P [] = None"
| "find_index P (x # xs) = (if P x then Some 0 else map_option Suc (find_index P xs))"

definition tighten :: "range_rule \<Rightarrow> range_rule \<Rightarrow> range_rule" where
  "tighten e d =
    \<lparr>rr_field = rr_field e, rr_min = js_max (rr_min e) (rr_min d), rr_max = js_min (rr_max e) (rr_max d),
     rr_message = (case rr_message d of Some s \<Rightarrow> Some s | None \<Rightarrow> rr_message e)\<rparr>"

definition merge_one :: "policy_rule list \<Rightarrow> policy_rule \<Rightarrow> policy_rule list" where
  "merge_one merged d =
    (case find_index (same_slot d) merged of
      None \<Rightarrow> merged @ [d]
    | Some i \<Rightarrow>
        (case (pr_body (merged ! i), pr_body d) of
          (NumericRange e, NumericRange dr) \<Rightarrow>
            merged[i := plain_rule (pr_capability (merged ! i)) (NumericRange (tighten e dr))]
        | (StateEquals e, StateEquals ds) \<Rightarrow> merged[i := d]
        | _ \<Rightarrow> merged @ [d]))"

definition mergeModulePolicies :: "policy_rule list \<Rightarrow> policy_rule list \<Rightarrow> policy_rule list" where
  "mergeModulePolicies module_rules deploy = foldl merge_one module_rules deploy"

subsection \<open>Lemmas on evaluation\<close>

lemma evaluatePolicies_ok:
  "evaluatePolicies rs ctx wall = Inr () \<longleftrightarrow>
    (\<forall>r\<in>set rs. pr_capability r = pc_capability ctx \<longrightarrow> evaluate_rule (pr_body r) ctx wall = Inr ())"
  by (induction rs) (auto split: sum.splits)

declare evaluatePolicies.simps [simp del]

lemma evaluatePolicies_append:
  "evaluatePolicies (rs @ rs') ctx wall = Inr () \<longleftrightarrow>
    evaluatePolicies rs ctx wall = Inr () \<and> evaluatePolicies rs' ctx wall = Inr ()"
  by (auto simp: evaluatePolicies_ok)

lemma evaluate_range_ok:
  "evaluate_rule (NumericRange r) ctx wall = Inr () \<longleftrightarrow>
    number_in_range (rr_min r) (rr_max r) (ownprop (pc_payload ctx) (rr_field r))"
  by (auto simp: evaluate_rule_def evaluateNumericRange_def number_in_range_def in_range_def
      split: jsval.splits jsnum.splits)

lemma evaluate_workspace_ok:
  "evaluate_rule (WorkspaceBounds x y z) ctx wall = Inr () \<longleftrightarrow>
    number_in_range (ab_min x) (ab_max x) (ownprop (pc_payload ctx) ''x'') \<and>
    number_in_range (ab_min y) (ab_max y) (ownprop (pc_payload ctx) ''y'') \<and>
    number_in_range (ab_min z) (ab_max z) (ownprop (pc_payload ctx) ''z'')"
  by (simp add: evaluate_rule_def evaluateWorkspaceBounds_def)

text \<open>The acceptance predicate of the declarative baseline, without errors and order.\<close>

definition fresh_state :: "jsval \<Rightarrow> time \<Rightarrow> time \<Rightarrow> bool" where
  "fresh_state state maxAge now =
    (case js_prop state ''observedAt'' of
      JNum (Fin t) \<Rightarrow> 0 \<le> now - t \<and> now - t \<le> maxAge | _ \<Rightarrow> False)"

lemma assertFreshState_ok: "assertFreshState st a now = Inr () \<longleftrightarrow> fresh_state st a now"
  by (cases st) (auto simp: assertFreshState_def fresh_state_def split: jsval.splits jsnum.splits)

lemma evaluate_state_ok:
  "evaluate_rule (StateEquals r) ctx wall = Inr () \<longleftrightarrow>
    js_strict_eq (js_prop (pc_state ctx) (sr_field r)) (sr_equals r) \<and>
    (case sr_maxStateAgeMs r of None \<Rightarrow> True | Some a \<Rightarrow> fresh_state (pc_state ctx) a wall)"
  by (cases "sr_maxStateAgeMs r")
    (auto simp: evaluate_rule_def evaluateStateEquals_def assertFreshState_ok[symmetric] split: sum.splits)

subsection \<open>Lemmas on merging\<close>

lemma in_range_tighten:
  assumes "rr_min e \<noteq> NaN" "rr_min d \<noteq> NaN" "rr_max e \<noteq> NaN" "rr_max d \<noteq> NaN"
  shows "in_range (rr_min (tighten e d)) (rr_max (tighten e d)) x \<longleftrightarrow>
    in_range (rr_min e) (rr_max e) x \<and> in_range (rr_min d) (rr_max d) x"
  using assms
  by (cases "rr_min e"; cases "rr_min d"; cases "rr_max e"; cases "rr_max d")
    (auto simp: in_range_def tighten_def js_max_def js_min_def)

fun proper_bounds :: "rule_body \<Rightarrow> bool" where
  "proper_bounds (NumericRange r) = (rr_min r \<noteq> NaN \<and> rr_max r \<noteq> NaN)"
| "proper_bounds _ = True"

lemma proper_tighten:
  "proper_bounds (NumericRange e) \<Longrightarrow> proper_bounds (NumericRange d) \<Longrightarrow>
    proper_bounds (NumericRange (tighten e d))"
  by (auto simp: tighten_def js_max_def js_min_def)

lemma find_index_Some:
  "find_index P xs = Some i \<Longrightarrow> i < length xs \<and> P (xs ! i)"
  by (induction xs arbitrary: i) (auto split: if_splits)

fun is_state_rule :: "policy_rule \<Rightarrow> bool" where
  "is_state_rule r = (case pr_body r of StateEquals _ \<Rightarrow> True | _ \<Rightarrow> False)"

text \<open>
  What the rules other than state preconditions accept, and when a rule list accepts no more
  than another in that sense.
\<close>

definition passes :: "policy_rule list \<Rightarrow> policy_context \<Rightarrow> time \<Rightarrow> bool" where
  "passes rs ctx wall = (\<forall>r\<in>set rs. \<not> is_state_rule r \<longrightarrow> pr_capability r = pc_capability ctx \<longrightarrow>
    evaluate_rule (pr_body r) ctx wall = Inr ())"

definition keeps_rules :: "policy_rule list \<Rightarrow> policy_rule list \<Rightarrow> bool" where
  "keeps_rules rs merged = (\<forall>ctx wall. passes merged ctx wall \<longrightarrow> passes rs ctx wall)"

lemma keeps_refl: "keeps_rules rs rs"
  by (simp add: keeps_rules_def)

lemma keeps_trans: "keeps_rules a b \<Longrightarrow> keeps_rules b c \<Longrightarrow> keeps_rules a c"
  by (simp add: keeps_rules_def)

lemma keeps_Cons: "keeps_rules (d # rs) m \<longleftrightarrow> keeps_rules [d] m \<and> keeps_rules rs m"
  by (auto simp: keeps_rules_def passes_def)

lemma keeps_append_both: "keeps_rules a b \<Longrightarrow> keeps_rules (a @ c) (b @ c)"
  by (auto simp: keeps_rules_def passes_def)

lemma passes_evaluate: "evaluatePolicies rs ctx wall = Inr () \<Longrightarrow> passes rs ctx wall"
  by (simp add: passes_def evaluatePolicies_ok)

lemma keeps_list_update:
  assumes "i < length merged"
    and "\<And>ctx wall. passes [r'] ctx wall \<Longrightarrow> passes [merged ! i] ctx wall"
  shows "keeps_rules merged (merged[i := r'])"
  unfolding keeps_rules_def
proof (intro allI impI)
  fix ctx wall
  assume ok: "passes (merged[i := r']) ctx wall"
  have "passes [r'] ctx wall"
    using ok set_update_memI[OF assms(1), of r'] by (simp add: passes_def)
  note here = assms(2)[OF this]
  have "passes [merged ! j] ctx wall" if "j < length merged" for j
  proof (cases "j = i")
    case False
    with that have "merged ! j \<in> set (merged[i := r'])"
      by (metis length_list_update nth_list_update_neq nth_mem)
    with ok show ?thesis
      by (simp add: passes_def)
  qed (use here in simp)
  then show "passes merged ctx wall"
    by (auto simp: passes_def in_set_conv_nth)
qed

lemma tighten_ok:
  assumes "proper_bounds (NumericRange e)" "proper_bounds (NumericRange d)" "rr_field d = rr_field e"
  shows "evaluate_rule (NumericRange (tighten e d)) ctx wall = Inr () \<longleftrightarrow>
    evaluate_rule (NumericRange e) ctx wall = Inr () \<and> evaluate_rule (NumericRange d) ctx wall = Inr ()"
  using assms in_range_tighten[of e d]
  by (auto simp: evaluate_range_ok number_in_range_def tighten_def split: jsval.splits jsnum.splits)

text \<open>One deployment rule: either it is appended, or it meets a rule of its slot.\<close>

lemma merge_one_cases:
  obtains "merge_one merged d = merged @ [d]"
  | i e dr where "i < length merged" "same_slot d (merged ! i)" "pr_body (merged ! i) = NumericRange e"
      "pr_body d = NumericRange dr" "rr_field dr = rr_field e"
      "merge_one merged d = merged[i := plain_rule (pr_capability (merged ! i)) (NumericRange (tighten e dr))]"
  | i where "i < length merged" "is_state_rule (merged ! i)" "is_state_rule d" "merge_one merged d = merged[i := d]"
proof (cases "find_index (same_slot d) merged")
  case None
  then show thesis
    using that(1) by (simp add: merge_one_def)
next
  case (Some i)
  note i = find_index_Some[OF Some]
  show thesis
  proof (cases "pr_body (merged ! i)")
    case (NumericRange e)
    with i obtain dr where "pr_body d = NumericRange dr" "rr_field dr = rr_field e"
      by (cases "pr_body d") (auto simp: same_slot_def)
    with Some i NumericRange show thesis
      by (intro that(2)[of i e dr]) (simp_all add: merge_one_def)
  next
    case (StateEquals e)
    with i obtain ds where "pr_body d = StateEquals ds"
      by (cases "pr_body d") (auto simp: same_slot_def)
    with Some i StateEquals show thesis
      by (intro that(3)[of i]) (simp_all add: merge_one_def)
  qed (use Some that(1) in \<open>simp_all add: merge_one_def\<close>)
qed

definition all_proper :: "policy_rule list \<Rightarrow> bool" where
  "all_proper rs = (\<forall>r\<in>set rs. proper_bounds (pr_body r))"

lemma all_proper_update: "all_proper rs \<Longrightarrow> proper_bounds (pr_body r) \<Longrightarrow> all_proper (rs[i := r])"
  unfolding all_proper_def using set_update_subset_insert[of rs i r] by blast

lemma merge_one_keeps:
  assumes "all_proper merged" "proper_bounds (pr_body d)"
  shows "keeps_rules (d # merged) (merge_one merged d) \<and> all_proper (merge_one merged d)"
proof (rule merge_one_cases[of merged d])
  assume m: "merge_one merged d = merged @ [d]"
  show ?thesis
    using assms unfolding m by (auto simp: keeps_rules_def passes_def all_proper_def)
next
  fix i e dr
  let ?r = "plain_rule (pr_capability (merged ! i)) (NumericRange (tighten e dr))"
  assume i: "i < length merged" "same_slot d (merged ! i)" "pr_body (merged ! i) = NumericRange e"
      "pr_body d = NumericRange dr" "rr_field dr = rr_field e"
    and m: "merge_one merged d = merged[i := ?r]"
  have cap: "pr_capability d = pr_capability (merged ! i)"
    using i(2) by (simp add: same_slot_def)
  have proper: "proper_bounds (NumericRange e)" "proper_bounds (NumericRange dr)"
    using assms i nth_mem[OF i(1)] unfolding all_proper_def by metis+
  have r: "passes [?r] ctx wall \<longleftrightarrow> passes [merged ! i, d] ctx wall" for ctx wall
    using tighten_ok[OF proper i(5), of ctx wall] i(3,4) cap by (auto simp: passes_def plain_rule_def)
  have "keeps_rules merged (merged[i := ?r])"
  proof (rule keeps_list_update[OF i(1)])
    fix ctx wall
    assume "passes [?r] ctx wall"
    then show "passes [merged ! i] ctx wall"
      unfolding r by (simp add: passes_def)
  qed
  moreover have "keeps_rules [?r] (merged[i := ?r])"
    using set_update_memI[OF i(1), of ?r] by (simp add: keeps_rules_def passes_def)
  then have "keeps_rules [merged ! i, d] (merged[i := ?r])"
    unfolding keeps_rules_def r .
  then have "keeps_rules [d] (merged[i := ?r])"
    using keeps_Cons[of "merged ! i" "[d]"] by blast
  ultimately have "keeps_rules (d # merged) (merged[i := ?r])"
    using keeps_Cons[of d merged] by blast
  moreover have "all_proper (merged[i := ?r])"
    using all_proper_update[OF assms(1), of ?r i] proper_tighten[OF proper] by (simp add: plain_rule_def)
  ultimately show ?thesis
    unfolding m by blast
next
  fix i
  assume i: "i < length merged" "is_state_rule (merged ! i)" "is_state_rule d"
    and m: "merge_one merged d = merged[i := d]"
  have "keeps_rules merged (merged[i := d])"
    by (rule keeps_list_update[OF i(1)]) (use i(2) in \<open>simp add: passes_def\<close>)
  moreover have "keeps_rules [d] (merged[i := d])"
    using i(3) by (simp add: keeps_rules_def passes_def)
  ultimately show ?thesis
    using assms keeps_Cons[of d merged] unfolding m by (auto intro: all_proper_update)
qed

lemma merge_keeps:
  assumes "all_proper merged" "all_proper ds"
  shows "keeps_rules (merged @ ds) (mergeModulePolicies merged ds)"
  using assms
proof (induction ds arbitrary: merged)
  case Nil
  then show ?case
    by (simp add: mergeModulePolicies_def keeps_refl)
next
  case (Cons d ds)
  have d: "proper_bounds (pr_body d)" and ds: "all_proper ds"
    using Cons.prems(2) by (simp_all add: all_proper_def)
  note one = merge_one_keeps[OF Cons.prems(1) d]
  have "keeps_rules (merge_one merged d @ ds) (mergeModulePolicies merged (d # ds))"
    using Cons.IH[OF _ ds] one by (simp add: mergeModulePolicies_def)
  moreover have "keeps_rules (merged @ d # ds) ((d # merged) @ ds)"
    by (auto simp: keeps_rules_def passes_def)
  moreover have "keeps_rules ((d # merged) @ ds) (merge_one merged d @ ds)"
    using one by (intro keeps_append_both) blast
  ultimately show ?case
    using keeps_trans by blast
qed

definition declared_range :: "numeric_constraint \<Rightarrow> jsval \<Rightarrow> bool" where
  "declared_range b v = (nc_min b \<noteq> None \<or> nc_max b \<noteq> None \<longrightarrow>
    number_in_range (case nc_min b of Some x \<Rightarrow> x | None \<Rightarrow> NegInf)
      (case nc_max b of Some x \<Rightarrow> x | None \<Rightarrow> PosInf) v)"

lemma constraint_rules_ok:
  "evaluatePolicies (constraint_rules cap c) ctx wall = Inr () \<longleftrightarrow>
    (cap = pc_capability ctx \<longrightarrow> declared_range (snd c) (ownprop (pc_payload ctx) (fst c)))"
  by (cases c; cases "nc_min (snd c)"; cases "nc_max (snd c)")
    (auto simp: plain_rule_def evaluate_range_ok evaluatePolicies_ok declared_range_def)

lemma requires_rule_ok:
  "evaluatePolicies [requires_rule cap c] ctx wall = Inr () \<longleftrightarrow>
    (cap = pc_capability ctx \<longrightarrow> js_strict_eq (js_prop (pc_state ctx) (fst c)) (snd c))"
  by (cases c) (auto simp: plain_rule_def evaluate_state_ok evaluatePolicies_ok)

lemma evaluatePolicies_concat:
  "evaluatePolicies (concat xs) ctx wall = Inr () \<longleftrightarrow> (\<forall>rs\<in>set xs. evaluatePolicies rs ctx wall = Inr ())"
  by (auto simp: evaluatePolicies_ok)

lemma evaluatePolicies_map:
  "evaluatePolicies (map f xs) ctx wall = Inr () \<longleftrightarrow> (\<forall>x\<in>set xs. evaluatePolicies [f x] ctx wall = Inr ())"
  by (auto simp: evaluatePolicies_ok)

subsection \<open>Properties\<close>

text \<open>the baseline policy check accepts an invocation exactly when every declared constraint
  on its capability holds: each constrained payload field is a finite number within its bounds,
  each required state field has the required value, and, where an age limit is set, was observed
  recently enough. A state value that is not an object never passes a precondition.\<close>

theorem declarative_policies_exact:
  "evaluatePolicies (policiesFromDeclarative m) ctx wall = Inr () \<longleftrightarrow>
    (\<forall>(cap, p)\<in>set m. cap = pc_capability ctx \<longrightarrow>
      (\<forall>(field, b)\<in>set (cp_constraints p). declared_range b (ownprop (pc_payload ctx) field)) \<and>
      (\<forall>(field, v)\<in>set (cp_requires p). js_strict_eq (js_prop (pc_state ctx) field) v))"
  unfolding policiesFromDeclarative_def evaluatePolicies_concat
  by (simp del: requires_rule.simps evaluatePolicies.simps
      add: evaluatePolicies_append evaluatePolicies_concat evaluatePolicies_map constraint_rules_ok
        requires_rule_ok split_beta)
    blast

definition wit_context :: "real \<Rightarrow> policy_context" where
  "wit_context v = \<lparr>pc_deviceId = ''arm'', pc_capability = ''move'', pc_payload = [(''speed'', JNum (Fin v))],
    pc_state = JObj [(''door'', JStr ''open'')]\<rparr>"

theorem declarative_policies_exact_witness:
  "evaluatePolicies (policiesFromDeclarative
      [(''move'', \<lparr>cp_constraints = [(''speed'', \<lparr>nc_min = Some (Fin 0), nc_max = Some (Fin 100)\<rparr>)],
                   cp_requires = [(''door'', JStr ''open'')]\<rparr>)]) (wit_context 50) 0 = Inr ()"
  unfolding declarative_policies_exact
  by (simp add: wit_context_def declared_range_def number_in_range_def in_range_def)

text \<open>merging deployment policies into module policies can only tighten what is not a state
  precondition: whatever the merged rules accept satisfies every numeric range, workspace and
  custom rule of the module and of the deployment on that capability.\<close>

theorem merge_tightens:
  assumes "all_proper module_rules" "all_proper deploy"
    and "evaluatePolicies (mergeModulePolicies module_rules deploy) ctx wall = Inr ()"
    and "r \<in> set (module_rules @ deploy)" "\<not> is_state_rule r" "pr_capability r = pc_capability ctx"
  shows "evaluate_rule (pr_body r) ctx wall = Inr ()"
  using merge_keeps[OF assms(1,2)] passes_evaluate[OF assms(3)] assms(4-6)
  unfolding keeps_rules_def passes_def by blast

definition wit_range :: "real \<Rightarrow> policy_rule" where
  "wit_range v = plain_rule ''move''
    (NumericRange \<lparr>rr_field = ''speed'', rr_min = Fin 0, rr_max = Fin v, rr_message = None\<rparr>)"

theorem merge_tightens_witness:
  "evaluate_rule (pr_body (wit_range 100)) (wit_context 40) 0 = Inr ()"
proof (rule merge_tightens[of "[wit_range 100]" "[wit_range 50]"])
  show "evaluatePolicies (mergeModulePolicies [wit_range 100] [wit_range 50]) (wit_context 40) 0 = Inr ()"
    by (simp add: mergeModulePolicies_def merge_one_def same_slot_def wit_range_def plain_rule_def tighten_def
        js_max_def js_min_def evaluatePolicies.simps evaluate_rule_def evaluateNumericRange_def wit_context_def)
qed (simp_all add: all_proper_def wit_range_def plain_rule_def wit_context_def)

text \<open>the merge is not tightening for state preconditions: a deployment precondition on the same
  field replaces the module's, so a module that requires a closed door accepts an open one.\<close>

theorem merge_drops_precondition:
  assumes "pc_capability ctx = cap" and "js_strict_eq (js_prop (pc_state ctx) field) v"
    and "\<not> js_strict_eq (js_prop (pc_state ctx) field) v0"
  shows "evaluatePolicies [requires_rule cap (field, v0)] ctx wall = Inl PolicyPreconditionFailed \<and>
    evaluatePolicies (mergeModulePolicies [requires_rule cap (field, v0)] [requires_rule cap (field, v)])
      ctx wall = Inr ()"
  using assms
  by (simp add: mergeModulePolicies_def merge_one_def same_slot_def plain_rule_def evaluate_rule_def
      evaluateStateEquals_def evaluatePolicies.simps)

theorem merge_drops_precondition_witness:
  "evaluatePolicies [requires_rule ''move'' (''door'', JStr ''closed'')] (wit_context 1) 0 =
      Inl PolicyPreconditionFailed \<and>
    evaluatePolicies (mergeModulePolicies [requires_rule ''move'' (''door'', JStr ''closed'')]
      [requires_rule ''move'' (''door'', JStr ''open'')]) (wit_context 1) 0 = Inr ()"
  by (rule merge_drops_precondition) (simp_all add: wit_context_def)

end
