(* ===== verification/Safety.thy ===== *)
theory Safety
  imports Policy Lease
begin

text \<open>
  The safety engine \<open>packages/core/src/policy/safety.ts\<close>: the baseline policy rules first,
  then rate limits, interlocks, sequences, approvals, leases, deadman switches and resource
  budgets, with reservations that can be committed or rolled back. The engine shares its
  \<open>LeaseManager\<close>. Clocks are arguments: \<open>now\<close> is the injected clock, \<open>wall\<close> the
  \<open>Date.now()\<close> of the baseline freshness check. Messages are not modelled.
\<close>

subsection \<open>State\<close>

record approval_record =
  ap_id :: string
  ap_deviceId :: string
  ap_capability :: string
  ap_grantedBy :: string
  ap_grantedAt :: time
  ap_expiresAt :: "time option"
  ap_usedAt :: "time option"

record resource_budget =
  bu_limit :: real
  bu_windowMs :: time
  bu_consumed :: "(time \<times> real) list"

record consumables =
  co_rateWindows :: "(string, time list) jmap"
  co_approvals :: "(string, approval_record) jmap"
  co_budgets :: "(string, resource_budget) jmap"

record policy_decision =
  pd_allowed :: bool
  pd_code :: "string option"
  pd_ruleId :: "string option"

record safety_engine =
  sg_rules :: "policy_rule list"
  sg_leaseManager :: "lease_manager option"
  sg_rateWindows :: "(string, time list) jmap"
  sg_interlocks :: "(string, jsval) jmap"
  sg_sequences :: "(string, jsnum) jmap"
  sg_approvals :: "(string, approval_record) jmap"
  sg_deadman :: "(string, time) jmap"
  sg_budgets :: "(string, resource_budget) jmap"
  sg_hasListener :: bool
  sg_rejections :: "(policy_decision \<times> policy_context) list"

definition SafetyEngine :: "policy_rule list \<Rightarrow> lease_manager option \<Rightarrow> bool \<Rightarrow> safety_engine" where
  "SafetyEngine rules lm listener =
    \<lparr>sg_rules = rules, sg_leaseManager = lm, sg_rateWindows = [], sg_interlocks = [], sg_sequences = [],
     sg_approvals = [], sg_deadman = [], sg_budgets = [], sg_hasListener = listener, sg_rejections = []\<rparr>"

text \<open>The context of an enforcement carries the caller's lease owner.\<close>

record safety_context = policy_context +
  sc_owner :: "string option"

type_synonym 'a enforced = "(policy_thrown + 'a) \<times> safety_engine"

definition reject :: "policy_rule \<Rightarrow> string \<Rightarrow> policy_thrown" where
  "reject rule code = PolicyStructured (PErr code SAFETY) (pr_id rule)"

subsection \<open>Rule implementations\<close>

definition rate_key :: "safety_context \<Rightarrow> string" where
  "rate_key ctx = pc_deviceId ctx @ ''::'' @ pc_capability ctx"

definition or_nil :: "'a list option \<Rightarrow> 'a list" where
  "or_nil x = (case x of None \<Rightarrow> [] | Some w \<Rightarrow> w)"

definition or_else :: "'a \<Rightarrow> 'a option \<Rightarrow> 'a" where
  "or_else d x = (case x of None \<Rightarrow> d | Some w \<Rightarrow> w)"

text \<open>
  The window object of a present key is filtered in place, before the limit is compared.
\<close>

definition enforceRate ::
  "policy_rule \<Rightarrow> real \<Rightarrow> time option \<Rightarrow> safety_context \<Rightarrow> time \<Rightarrow> safety_engine \<Rightarrow> unit enforced" where
  "enforceRate rule maxPer win ctx now s =
    (let key = rate_key ctx;
         w = filter (\<lambda>t. t > now - or_else 1000 win) (or_nil (jget (sg_rateWindows s) key));
         filtered = (if jhas (sg_rateWindows s) key then jset key w (sg_rateWindows s) else sg_rateWindows s)
     in if real (length w) \<ge> maxPer
        then (Inl (reject rule ''SAFETY_RATE_LIMIT''), s\<lparr>sg_rateWindows := filtered\<rparr>)
        else (Inr (), s\<lparr>sg_rateWindows := jset key (w @ [now]) (sg_rateWindows s)\<rparr>))"

definition enforceInterlock ::
  "policy_rule \<Rightarrow> string \<Rightarrow> jsval option \<Rightarrow> time option \<Rightarrow> safety_context \<Rightarrow> time \<Rightarrow>
    safety_engine \<Rightarrow> unit enforced" where
  "enforceInterlock rule name mustBe maxAge ctx now s =
    (case (case maxAge of None \<Rightarrow> Inr () | Some a \<Rightarrow> assertFreshState (pc_state ctx) a now) of
      Inl e \<Rightarrow> (Inl e, s)
    | Inr _ \<Rightarrow>
        (if \<not> js_strict_eq (or_else JUndefined (jget (sg_interlocks s) name)) (or_else (JBool True) mustBe)
         then (Inl (reject rule ''SAFETY_INTERLOCK_NOT_SATISFIED''), s)
         else (Inr (), s)))"

definition enforceSequence ::
  "policy_rule \<Rightarrow> string \<Rightarrow> jsnum \<Rightarrow> safety_context \<Rightarrow> safety_engine \<Rightarrow> unit enforced" where
  "enforceSequence rule name least_step ctx s =
    (case jget (sg_sequences s) name of
      None \<Rightarrow> (Inl (reject rule ''SAFETY_SEQUENCE_NOT_SATISFIED''), s)
    | Some step \<Rightarrow>
        (if js_less step least_step then (Inl (reject rule ''SAFETY_SEQUENCE_NOT_SATISFIED''), s)
         else (Inr (), s)))"

definition approval_usable :: "safety_context \<Rightarrow> time \<Rightarrow> approval_record \<Rightarrow> bool" where
  "approval_usable ctx now a =
    (\<not> (ap_deviceId a \<noteq> pc_deviceId ctx \<or> ap_capability a \<noteq> pc_capability ctx) \<and>
     ap_usedAt a = None \<and>
     (case ap_expiresAt a of None \<Rightarrow> True | Some e \<Rightarrow> \<not> e \<le> now))"

text \<open>The first usable approval in insertion order is marked as used.\<close>

fun use_approval ::
  "safety_context \<Rightarrow> time \<Rightarrow> (string, approval_record) jmap \<Rightarrow> (string, approval_record) jmap option" where
  "use_approval ctx now [] = None"
| "use_approval ctx now ((k, a) # m) =
    (if approval_usable ctx now a then Some ((k, a\<lparr>ap_usedAt := Some now\<rparr>) # m)
     else map_option (Cons (k, a)) (use_approval ctx now m))"

definition enforceApproval ::
  "policy_rule \<Rightarrow> safety_context \<Rightarrow> time \<Rightarrow> safety_engine \<Rightarrow> unit enforced" where
  "enforceApproval rule ctx now s =
    (case use_approval ctx now (sg_approvals s) of
      None \<Rightarrow> (Inl (reject rule ''SAFETY_APPROVAL_REQUIRED''), s)
    | Some m \<Rightarrow> (Inr (), s\<lparr>sg_approvals := m\<rparr>))"

definition enforceLease ::
  "policy_rule \<Rightarrow> safety_context \<Rightarrow> time \<Rightarrow> safety_engine \<Rightarrow> unit enforced" where
  "enforceLease rule ctx now s =
    (case sg_leaseManager s of
      None \<Rightarrow> (Inl (reject rule ''SAFETY_LEASE_MANAGER_MISSING''), s)
    | Some lm \<Rightarrow>
        (case sc_owner ctx of
          None \<Rightarrow> (Inl (reject rule ''SAFETY_LEASE_OWNER_REQUIRED''), s)
        | Some u \<Rightarrow>
            if u = '''' then (Inl (reject rule ''SAFETY_LEASE_OWNER_REQUIRED''), s)
            else
              (let (verdict, lm') = permits u (pc_deviceId ctx) (pc_capability ctx) Exclusive now lm
               in if \<not> fst verdict then (Inl (reject rule ''SAFETY_LEASE_REQUIRED''), s\<lparr>sg_leaseManager := Some lm'\<rparr>)
                  else (Inr (), s\<lparr>sg_leaseManager := Some lm'\<rparr>))))"

definition enforceDeadman ::
  "policy_rule \<Rightarrow> time option \<Rightarrow> safety_context \<Rightarrow> time \<Rightarrow> safety_engine \<Rightarrow> unit enforced" where
  "enforceDeadman rule maxAge ctx now s =
    (case jget (sg_deadman s) (pc_deviceId ctx) of
      None \<Rightarrow> (Inl (reject rule ''SAFETY_DEADMAN_STALE''), s)
    | Some t \<Rightarrow>
        (if now - t > or_else 1000 maxAge then (Inl (reject rule ''SAFETY_DEADMAN_STALE''), s)
         else (Inr (), s)))"

definition enforceResource ::
  "policy_rule \<Rightarrow> string \<Rightarrow> real option \<Rightarrow> safety_context \<Rightarrow> time \<Rightarrow> safety_engine \<Rightarrow> unit enforced" where
  "enforceResource rule res cost ctx now s =
    (case jget (sg_budgets s) res of
      None \<Rightarrow> (Inl (reject rule ''SAFETY_BUDGET_NOT_CONFIGURED''), s)
    | Some b0 \<Rightarrow>
        (let b = b0\<lparr>bu_consumed := filter (\<lambda>(t, c). t > now - bu_windowMs b0) (bu_consumed b0)\<rparr>;
             c = or_else 1 cost;
             total = sum_list (map snd (bu_consumed b))
         in if total + c > bu_limit b
            then (Inl (reject rule ''SAFETY_BUDGET_EXHAUSTED''), s\<lparr>sg_budgets := jset res b (sg_budgets s)\<rparr>)
            else (Inr (), s\<lparr>sg_budgets := jset res (b\<lparr>bu_consumed := bu_consumed b @ [(now, c)]\<rparr>) (sg_budgets s)\<rparr>)))"

definition enforce_rule :: "policy_rule \<Rightarrow> safety_context \<Rightarrow> time \<Rightarrow> safety_engine \<Rightarrow> unit enforced" where
  "enforce_rule rule ctx now s =
    (case pr_body rule of
      Rate n w \<Rightarrow> enforceRate rule n w ctx now s
    | Interlock i v a \<Rightarrow> enforceInterlock rule i v a ctx now s
    | Sequence q n \<Rightarrow> enforceSequence rule q n ctx s
    | Approval \<Rightarrow> enforceApproval rule ctx now s
    | LeaseHeld \<Rightarrow> enforceLease rule ctx now s
    | Deadman a \<Rightarrow> enforceDeadman rule a ctx now s
    | Resource r c \<Rightarrow> enforceResource rule r c ctx now s
    | _ \<Rightarrow> (Inr (), s))"

subsection \<open>Enforcement\<close>

fun is_legacy :: "rule_body \<Rightarrow> bool" where
  "is_legacy (NumericRange _) = True"
| "is_legacy (StateEquals _) = True"
| "is_legacy (WorkspaceBounds _ _ _) = True"
| "is_legacy (Custom _) = True"
| "is_legacy _ = False"

text \<open>Lease rules apply whatever capability they name.\<close>

definition v2_applies :: "policy_rule \<Rightarrow> safety_context \<Rightarrow> bool" where
  "v2_applies rule ctx =
    (\<not> is_legacy (pr_body rule) \<and> \<not> (rule_kind (pr_body rule) \<noteq> ''lease'' \<and> pr_capability rule \<noteq> pc_capability ctx))"

fun enforce_v2 :: "policy_rule list \<Rightarrow> safety_context \<Rightarrow> time \<Rightarrow> safety_engine \<Rightarrow> unit enforced" where
  "enforce_v2 [] ctx now s = (Inr (), s)"
| "enforce_v2 (r # rs) ctx now s =
    (if \<not> v2_applies r ctx then enforce_v2 rs ctx now s
     else (case enforce_rule r ctx now s of
             (Inl e, s') \<Rightarrow> (Inl e, s')
           | (Inr _, s') \<Rightarrow> enforce_v2 rs ctx now s'))"

definition enforceRules :: "safety_context \<Rightarrow> time \<Rightarrow> time \<Rightarrow> safety_engine \<Rightarrow> unit enforced" where
  "enforceRules ctx now wall s =
    (case evaluatePolicies (sg_rules s) (policy_context.truncate ctx) wall of
      Inl e \<Rightarrow> (Inl e, s)
    | Inr _ \<Rightarrow> enforce_v2 (sg_rules s) ctx now s)"

definition snapshotConsumables :: "safety_engine \<Rightarrow> consumables" where
  "snapshotConsumables s =
    \<lparr>co_rateWindows = sg_rateWindows s, co_approvals = sg_approvals s, co_budgets = sg_budgets s\<rparr>"

definition restoreConsumables :: "consumables \<Rightarrow> safety_engine \<Rightarrow> safety_engine" where
  "restoreConsumables c s =
    s\<lparr>sg_rateWindows := co_rateWindows c, sg_approvals := co_approvals c, sg_budgets := co_budgets c\<rparr>"

text \<open>
  \<open>(error as \<lbrace> ruleId \<rbrace>).ruleId\<close>: no error class has that property (a structured error
  keeps the rule id in its details), so it is \<open>undefined\<close>.
\<close>

definition error_ruleId :: "policy_thrown \<Rightarrow> string option" where
  "error_ruleId e = None"

fun policy_error_code :: "policy_thrown \<Rightarrow> string option" where
  "policy_error_code PolicyConstraintViolation = Some ''POLICY_CONSTRAINT_VIOLATION''"
| "policy_error_code PolicyPreconditionFailed = Some ''POLICY_PRECONDITION_FAILED''"
| "policy_error_code PolicyActionDenied = Some ''POLICY_ACTION_DENIED''"
| "policy_error_code (PolicyStructured e _) = Some (err_code e)"
| "policy_error_code (PolicyOther _) = None"

definition decision_of :: "policy_thrown \<Rightarrow> policy_decision" where
  "decision_of e = \<lparr>pd_allowed = False, pd_code = policy_error_code e, pd_ruleId = error_ruleId e\<rparr>"

definition notifyRejection :: "policy_thrown \<Rightarrow> safety_context \<Rightarrow> safety_engine \<Rightarrow> safety_engine" where
  "notifyRejection e ctx s =
    (if policy_error_code e = None \<or> \<not> sg_hasListener s then s
     else s\<lparr>sg_rejections := sg_rejections s @ [(decision_of e, policy_context.truncate ctx)]\<rparr>)"

record safety_reservation =
  rv_saved :: consumables
  rv_active :: bool

definition reserve :: "safety_context \<Rightarrow> time \<Rightarrow> time \<Rightarrow> safety_engine \<Rightarrow> safety_reservation enforced" where
  "reserve ctx now wall s =
    (let saved = snapshotConsumables s
     in case enforceRules ctx now wall s of
          (Inl e, s') \<Rightarrow> (Inl e, notifyRejection e ctx (restoreConsumables saved s'))
        | (Inr _, s') \<Rightarrow> (Inr \<lparr>rv_saved = saved, rv_active = True\<rparr>, s'))"

definition commit :: "safety_reservation \<Rightarrow> safety_reservation" where
  "commit r = r\<lparr>rv_active := False\<rparr>"

definition rollback :: "safety_reservation \<Rightarrow> safety_engine \<Rightarrow> safety_reservation \<times> safety_engine" where
  "rollback r s =
    (if \<not> rv_active r then (r, s)
     else (r\<lparr>rv_active := False\<rparr>, restoreConsumables (rv_saved r) s))"

definition enforce :: "safety_context \<Rightarrow> time \<Rightarrow> time \<Rightarrow> safety_engine \<Rightarrow> unit enforced" where
  "enforce ctx now wall s =
    (case reserve ctx now wall s of
      (Inl e, s') \<Rightarrow> (Inl e, s')
    | (Inr r, s') \<Rightarrow> (let r' = commit r in (Inr (), s')))"

text \<open>\<open>check\<close> turns a known rejection into a decision and rethrows anything else.\<close>

definition check :: "safety_context \<Rightarrow> time \<Rightarrow> time \<Rightarrow> safety_engine \<Rightarrow> policy_decision enforced" where
  "check ctx now wall s =
    (case enforce ctx now wall s of
      (Inr _, s') \<Rightarrow> (Inr \<lparr>pd_allowed = True, pd_code = None, pd_ruleId = None\<rparr>, s')
    | (Inl e, s') \<Rightarrow>
        (if policy_error_code e = None then (Inl e, s') else (Inr (decision_of e), s')))"

definition preview :: "safety_context \<Rightarrow> time \<Rightarrow> time \<Rightarrow> safety_engine \<Rightarrow> policy_decision enforced" where
  "preview ctx now wall s =
    (let saved = snapshotConsumables s; (res, s') = check ctx now wall s
     in (res, restoreConsumables saved s'))"

subsection \<open>State feeds\<close>

definition setInterlock :: "string \<Rightarrow> jsval \<Rightarrow> safety_engine \<Rightarrow> safety_engine" where
  "setInterlock name v s = s\<lparr>sg_interlocks := jset name v (sg_interlocks s)\<rparr>"

definition getInterlock :: "string \<Rightarrow> safety_engine \<Rightarrow> jsval option" where
  "getInterlock name s = jget (sg_interlocks s) name"

definition setSequenceStep :: "string \<Rightarrow> jsnum \<Rightarrow> safety_engine \<Rightarrow> safety_engine" where
  "setSequenceStep name n s = s\<lparr>sg_sequences := jset name n (sg_sequences s)\<rparr>"

text \<open>\<open>granted\<close> is the optional \<open>grantedAt\<close> of the record; the stored one has it filled in.\<close>

definition recordApproval ::
  "approval_record \<Rightarrow> time option \<Rightarrow> time \<Rightarrow> safety_engine \<Rightarrow> approval_record \<times> safety_engine" where
  "recordApproval a granted now s =
    (let full = a\<lparr>ap_grantedAt := or_else now granted\<rparr>
     in (full, s\<lparr>sg_approvals := jset (ap_id full) full (sg_approvals s)\<rparr>))"

definition heartbeatDeadman :: "string \<Rightarrow> time \<Rightarrow> safety_engine \<Rightarrow> safety_engine" where
  "heartbeatDeadman d now s = s\<lparr>sg_deadman := jset d now (sg_deadman s)\<rparr>"

definition getDeadmanLastAlive :: "string \<Rightarrow> safety_engine \<Rightarrow> time option" where
  "getDeadmanLastAlive d s = jget (sg_deadman s) d"

definition clearDeadman :: "string \<Rightarrow> safety_engine \<Rightarrow> safety_engine" where
  "clearDeadman d s = s\<lparr>sg_deadman := jdelete d (sg_deadman s)\<rparr>"

definition listDeadmanRules :: "safety_engine \<Rightarrow> policy_rule list" where
  "listDeadmanRules s = filter (\<lambda>r. case pr_body r of Deadman _ \<Rightarrow> True | _ \<Rightarrow> False) (sg_rules s)"

definition configureBudget :: "string \<Rightarrow> real \<Rightarrow> time \<Rightarrow> safety_engine \<Rightarrow> safety_engine" where
  "configureBudget res limit win s =
    s\<lparr>sg_budgets := jset res \<lparr>bu_limit = limit, bu_windowMs = win, bu_consumed = []\<rparr> (sg_budgets s)\<rparr>"

subsection \<open>What each rule demands\<close>

definition rate_window :: "safety_engine \<Rightarrow> string \<Rightarrow> time list" where
  "rate_window s key = or_nil (jget (sg_rateWindows s) key)"

definition engine_grants :: "safety_engine \<Rightarrow> time \<Rightarrow> string \<Rightarrow> string \<Rightarrow> string \<Rightarrow> bool" where
  "engine_grants s now u d c =
    (case sg_leaseManager s of None \<Rightarrow> False | Some lm \<Rightarrow> lease_grants (lm, now) u d c)"

definition spent :: "resource_budget \<Rightarrow> time \<Rightarrow> real" where
  "spent b now = sum_list (map snd (filter (\<lambda>(t, c). t > now - bu_windowMs b) (bu_consumed b)))"

definition rule_holds :: "policy_rule \<Rightarrow> safety_context \<Rightarrow> time \<Rightarrow> safety_engine \<Rightarrow> bool" where
  "rule_holds r ctx now s =
    (case pr_body r of
      Rate n w \<Rightarrow> real (length (filter (\<lambda>t. t > now - or_else 1000 w) (rate_window s (rate_key ctx)))) < n
    | Interlock i v a \<Rightarrow>
        (case a of None \<Rightarrow> True | Some age \<Rightarrow> fresh_state (pc_state ctx) age now) \<and>
        js_strict_eq (or_else JUndefined (jget (sg_interlocks s) i)) (or_else (JBool True) v)
    | Sequence q n \<Rightarrow> (case jget (sg_sequences s) q of None \<Rightarrow> False | Some step \<Rightarrow> \<not> js_less step n)
    | Approval \<Rightarrow> (\<exists>a\<in>set (jvalues (sg_approvals s)). approval_usable ctx now a)
    | LeaseHeld \<Rightarrow>
        (case sc_owner ctx of None \<Rightarrow> False
         | Some u \<Rightarrow> u \<noteq> [] \<and> engine_grants s now u (pc_deviceId ctx) (pc_capability ctx))
    | Deadman a \<Rightarrow>
        (case jget (sg_deadman s) (pc_deviceId ctx) of None \<Rightarrow> False | Some t \<Rightarrow> now - t \<le> or_else 1000 a)
    | Resource res c \<Rightarrow>
        (case jget (sg_budgets s) res of None \<Rightarrow> False | Some b \<Rightarrow> spent b now + or_else 1 c \<le> bu_limit b)
    | _ \<Rightarrow> True)"

lemma use_approval_None:
  "use_approval ctx now m = None \<longleftrightarrow> (\<forall>a\<in>set (jvalues m). \<not> approval_usable ctx now a)"
  by (induction m) (auto split: if_splits)

lemma enforce_rule_ok:
  "fst (enforce_rule r ctx now s) = Inr () \<longleftrightarrow> rule_holds r ctx now s"
proof (cases "pr_body r")
  case (Interlock i v a)
  then show ?thesis
    by (cases a)
      (auto simp: enforce_rule_def rule_holds_def enforceInterlock_def assertFreshState_ok[symmetric]
        split: sum.splits)
next
  case Approval
  then show ?thesis
    using use_approval_None[of ctx now "sg_approvals s"]
    by (auto simp: enforce_rule_def rule_holds_def enforceApproval_def split: option.splits)
next
  case LeaseHeld
  then show ?thesis
    by (auto simp: enforce_rule_def rule_holds_def enforceLease_def engine_grants_def lease_grants_def
        split: option.splits prod.splits)
next
  case (Resource res c)
  then show ?thesis
    by (auto simp: enforce_rule_def rule_holds_def enforceResource_def Let_def spent_def split: option.splits)
qed (auto simp: enforce_rule_def rule_holds_def enforceRate_def enforceSequence_def enforceDeadman_def
    rate_window_def Let_def split: option.splits)

fun consuming :: "rule_body \<Rightarrow> bool" where
  "consuming (Rate _ _) = True"
| "consuming Approval = True"
| "consuming (Resource _ _) = True"
| "consuming _ = False"

subsection \<open>What enforcement leaves alone\<close>

definition same_feeds :: "time \<Rightarrow> safety_engine \<Rightarrow> safety_engine \<Rightarrow> bool" where
  "same_feeds now s s' \<longleftrightarrow> sg_rules s' = sg_rules s \<and> sg_interlocks s' = sg_interlocks s \<and>
    sg_sequences s' = sg_sequences s \<and> sg_deadman s' = sg_deadman s \<and>
    sg_hasListener s' = sg_hasListener s \<and> engine_grants s' now = engine_grants s now"

lemma same_feeds_refl [simp]: "same_feeds now s s"
  by (simp add: same_feeds_def)

lemma same_feeds_trans: "same_feeds now s s' \<Longrightarrow> same_feeds now s' s'' \<Longrightarrow> same_feeds now s s''"
  by (simp add: same_feeds_def)

lemma same_feeds_lease:
  assumes "sg_leaseManager s = Some lm"
  shows "same_feeds now s (s\<lparr>sg_leaseManager := Some (snd (permits u d c Exclusive now lm))\<rparr>)"
  using leases.grants_ask[of "(lm, now)" u d c] assms
  by (auto simp: same_feeds_def engine_grants_def lease_ask_def fun_eq_iff)

lemma enforce_rule_feeds: "same_feeds now s (snd (enforce_rule r ctx now s))"
proof (cases "pr_body r")
  case LeaseHeld
  then show ?thesis
    using same_feeds_lease[of s _ now]
    by (auto simp: enforce_rule_def enforceLease_def split: option.splits prod.splits)
      (metis snd_conv)+
next
  case (Interlock i v a)
  then show ?thesis
    by (auto simp: enforce_rule_def enforceInterlock_def split: sum.splits)
qed (auto simp: enforce_rule_def same_feeds_def enforceRate_def enforceSequence_def enforceDeadman_def
    enforceApproval_def enforceResource_def engine_grants_def fun_eq_iff Let_def split: option.splits)

lemma enforce_v2_feeds: "same_feeds now s (snd (enforce_v2 rs ctx now s))"
proof (induction rs arbitrary: s)
  case (Cons r rs)
  then show ?case
    using enforce_rule_feeds[of now s r ctx]
    by (auto split: prod.splits sum.splits intro: same_feeds_trans)
qed simp

lemma rule_holds_feeds:
  "\<not> consuming (pr_body r) \<Longrightarrow> same_feeds now s s' \<Longrightarrow> rule_holds r ctx now s' = rule_holds r ctx now s"
  by (cases "pr_body r") (auto simp: rule_holds_def same_feeds_def split: option.splits)

lemma enforce_v2_Cons_ok:
  "fst (enforce_v2 (r # rs) ctx now s) = Inr () \<longleftrightarrow>
    (if v2_applies r ctx then rule_holds r ctx now s \<and>
        fst (enforce_v2 rs ctx now (snd (enforce_rule r ctx now s))) = Inr ()
     else fst (enforce_v2 rs ctx now s) = Inr ())"
  by (auto simp: enforce_rule_ok[symmetric] split: prod.splits sum.splits)

declare enforce_v2.simps(2) [simp del]

lemma enforce_v2_static:
  assumes "fst (enforce_v2 rs ctx now s) = Inr ()" "r \<in> set rs" "v2_applies r ctx" "\<not> consuming (pr_body r)"
  shows "rule_holds r ctx now s"
  using assms
proof (induction rs arbitrary: s)
  case (Cons a rs)
  show ?case
  proof (cases "r = a")
    case False
    with Cons have "rule_holds r ctx now s \<or>
        rule_holds r ctx now (snd (enforce_rule a ctx now s))"
      by (auto simp: enforce_v2_Cons_ok split: if_splits)
    then show ?thesis
      using rule_holds_feeds[OF assms(4) enforce_rule_feeds] by blast
  qed (use Cons in \<open>simp add: enforce_v2_Cons_ok\<close>)
qed simp

lemma enforce_v2_complete:
  assumes "\<forall>r\<in>set rs. v2_applies r ctx \<longrightarrow> \<not> consuming (pr_body r) \<and> rule_holds r ctx now s"
  shows "fst (enforce_v2 rs ctx now s) = Inr ()"
  using assms
proof (induction rs arbitrary: s)
  case (Cons a rs)
  have "\<forall>r\<in>set rs. v2_applies r ctx \<longrightarrow>
      \<not> consuming (pr_body r) \<and> rule_holds r ctx now (snd (enforce_rule a ctx now s))"
    using Cons.prems rule_holds_feeds[OF _ enforce_rule_feeds] by auto
  with Cons show ?case
    by (auto simp: enforce_v2_Cons_ok)
qed simp

lemma reserve_ok:
  "(\<exists>rv. fst (reserve ctx now wall s) = Inr rv) \<longleftrightarrow>
    evaluatePolicies (sg_rules s) (policy_context.truncate ctx) wall = Inr () \<and>
    fst (enforce_v2 (sg_rules s) ctx now s) = Inr ()"
  by (auto simp: reserve_def enforceRules_def Let_def split: sum.splits prod.splits)

lemma reserve_static:
  "fst (reserve ctx now wall s) = Inr rv \<Longrightarrow> r \<in> set (sg_rules s) \<Longrightarrow> v2_applies r ctx \<Longrightarrow>
    \<not> consuming (pr_body r) \<Longrightarrow> rule_holds r ctx now s"
  using reserve_ok[of ctx now wall s] enforce_v2_static by blast

lemma reserve_complete:
  "evaluatePolicies (sg_rules s) (policy_context.truncate ctx) wall = Inr () \<and>
    (\<forall>r\<in>set (sg_rules s). v2_applies r ctx \<longrightarrow> \<not> consuming (pr_body r) \<and> rule_holds r ctx now s) \<Longrightarrow>
    \<exists>rv. fst (reserve ctx now wall s) = Inr rv"
  unfolding reserve_ok using enforce_v2_complete by blast

subsection \<open>Reservations\<close>

text \<open>
  The contract of a reservation for its client: a refused attempt leaves the consumables as
  they were, and undoing an attempt brings back the consumables from before it, whatever
  happened in between.
\<close>

locale reservations =
  fixes attempt :: "'s \<Rightarrow> 'q \<Rightarrow> 's \<times> 'r option"
    and undo :: "'r \<Rightarrow> 's \<Rightarrow> 's"
    and view :: "'s \<Rightarrow> 'v"
  assumes refused: "attempt s q = (s', None) \<Longrightarrow> view s' = view s"
    and undone: "attempt s q = (s1, Some r) \<Longrightarrow> view (undo r s2) = view s"
begin

fun failing :: "'s \<Rightarrow> 'q list \<Rightarrow> 's" where
  "failing s [] = s"
| "failing s (q # qs) =
    (case attempt s q of (s1, None) \<Rightarrow> failing s1 qs | (s1, Some r) \<Rightarrow> failing (undo r s1) qs)"

lemma failing_view: "view (failing s qs) = view s"
proof (induction s qs rule: failing.induct)
  case (2 s q qs)
  then show ?case
    using refused[of s q] undone[of s q] by (auto split: prod.splits option.splits)
qed simp

lemma overlapping_lost:
  assumes "attempt s q = (s1, Some r)"
  shows "view (undo r (fst (attempt s1 q'))) = view s"
  by (rule undone[OF assms])

end

type_synonym safety_request = "safety_context \<times> time \<times> time"

fun engine_attempt :: "safety_engine \<Rightarrow> safety_request \<Rightarrow> safety_engine \<times> safety_reservation option" where
  "engine_attempt s (ctx, now, wall) =
    (case reserve ctx now wall s of (Inl e, s') \<Rightarrow> (s', None) | (Inr r, s') \<Rightarrow> (s', Some r))"

definition engine_undo :: "safety_reservation \<Rightarrow> safety_engine \<Rightarrow> safety_engine" where
  "engine_undo r s = snd (rollback r s)"

lemma snapshot_restore [simp]: "snapshotConsumables (restoreConsumables c s) = c"
  by (simp add: snapshotConsumables_def restoreConsumables_def)

lemma snapshot_notify [simp]: "snapshotConsumables (notifyRejection e ctx s) = snapshotConsumables s"
  by (simp add: snapshotConsumables_def notifyRejection_def)

lemma reserve_refused:
  "reserve ctx now wall s = (Inl e, s') \<Longrightarrow> snapshotConsumables s' = snapshotConsumables s"
  by (auto simp: reserve_def Let_def split: sum.splits prod.splits)

lemma reserve_saved:
  "reserve ctx now wall s = (Inr r, s') \<Longrightarrow> rv_saved r = snapshotConsumables s \<and> rv_active r"
  by (auto simp: reserve_def Let_def split: sum.splits prod.splits)

interpretation booking: reservations engine_attempt engine_undo snapshotConsumables
proof unfold_locales
  show "engine_attempt s q = (s', None) \<Longrightarrow> snapshotConsumables s' = snapshotConsumables s" for s q s'
    by (cases q) (auto split: prod.splits sum.splits dest: reserve_refused)
  show "engine_attempt s q = (s1, Some r) \<Longrightarrow>
      snapshotConsumables (engine_undo r s2) = snapshotConsumables s" for s q s1 r s2
    by (cases q) (auto simp: engine_undo_def rollback_def split: prod.splits sum.splits dest: reserve_saved)
qed

subsection \<open>Runs of an engine\<close>

text \<open>
  Calls on an engine whose reservations are all committed at once; \<open>SLeases\<close> is any change
  of the shared lease manager. A run answers the accepted enforcements with their times.
\<close>

datatype safety_call =
    SEnforce safety_context time time
  | SPreview safety_context time time
  | SInterlock string jsval
  | SSequence string jsnum
  | SApproval approval_record "time option" time
  | SHeartbeat string time
  | SClearDeadman string
  | SLeases "lease_manager option"

fun safety_step :: "safety_call \<Rightarrow> safety_engine \<Rightarrow> (safety_context \<times> time) list \<times> safety_engine" where
  "safety_step (SEnforce ctx now wall) s =
    ((if fst (enforce ctx now wall s) = Inr () then [(ctx, now)] else []), snd (enforce ctx now wall s))"
| "safety_step (SPreview ctx now wall) s = ([], snd (preview ctx now wall s))"
| "safety_step (SInterlock i v) s = ([], setInterlock i v s)"
| "safety_step (SSequence q n) s = ([], setSequenceStep q n s)"
| "safety_step (SApproval a g now) s = ([], snd (recordApproval a g now s))"
| "safety_step (SHeartbeat d now) s = ([], heartbeatDeadman d now s)"
| "safety_step (SClearDeadman d) s = ([], clearDeadman d s)"
| "safety_step (SLeases lm) s = ([], s\<lparr>sg_leaseManager := lm\<rparr>)"

fun safety_run :: "safety_call list \<Rightarrow> safety_engine \<Rightarrow> (safety_context \<times> time) list \<times> safety_engine" where
  "safety_run [] s = ([], s)"
| "safety_run (c # cs) s =
    (fst (safety_step c s) @ fst (safety_run cs (snd (safety_step c s))),
     snd (safety_run cs (snd (safety_step c s))))"

lemma enforce_result:
  "fst (enforce ctx now wall s) = Inr () \<longleftrightarrow>
    evaluatePolicies (sg_rules s) (policy_context.truncate ctx) wall = Inr () \<and>
    fst (enforce_v2 (sg_rules s) ctx now s) = Inr ()"
  by (auto simp: enforce_def reserve_def enforceRules_def Let_def split: sum.splits prod.splits)

lemma enforce_accepted_state:
  "fst (enforce ctx now wall s) = Inr () \<Longrightarrow>
    snd (enforce ctx now wall s) = snd (enforce_v2 (sg_rules s) ctx now s)"
  by (auto simp: enforce_def reserve_def enforceRules_def Let_def split: sum.splits prod.splits)

lemma enforce_rejected_view:
  assumes "fst (enforce ctx now wall s) \<noteq> Inr ()"
  shows "snapshotConsumables (snd (enforce ctx now wall s)) = snapshotConsumables s"
proof -
  obtain e s' where "reserve ctx now wall s = (Inl e, s')"
    using assms by (cases "reserve ctx now wall s") (auto simp: enforce_def split: sum.splits)
  then show ?thesis
    using reserve_refused by (simp add: enforce_def)
qed

lemma preview_view: "snapshotConsumables (snd (preview ctx now wall s)) = snapshotConsumables s"
  by (simp add: preview_def Let_def split: prod.splits)

text \<open>
  What an enforcement may change beside the consumables: leases that have expired leave the shared manager, and a refusal
  is noted for the listener.
\<close>

definition reaped :: "time \<Rightarrow> safety_engine \<Rightarrow> lease_manager option set" where
  "reaped now s = {sg_leaseManager s, map_option (\<lambda>lm. snd (reapExpired now lm)) (sg_leaseManager s)}"

definition aside :: "time \<Rightarrow> safety_engine \<Rightarrow> safety_engine \<Rightarrow> bool" where
  "aside now s s' \<longleftrightarrow> sg_leaseManager s' \<in> reaped now s \<and>
    s = s'\<lparr>sg_leaseManager := sg_leaseManager s, sg_rateWindows := sg_rateWindows s, sg_approvals := sg_approvals s,
      sg_budgets := sg_budgets s\<rparr>"

definition untouched :: "time \<Rightarrow> safety_engine \<Rightarrow> safety_engine \<Rightarrow> bool" where
  "untouched now s s' \<longleftrightarrow> (\<exists>lm log. lm \<in> reaped now s \<and> length log \<le> 1 \<and>
    s' = s\<lparr>sg_leaseManager := lm, sg_rejections := sg_rejections s @ log\<rparr>)"

lemma aside_refl [simp]: "aside now s s"
  by (simp add: aside_def reaped_def)

lemma reap_twice: "snd (reapExpired now (snd (reapExpired now lm))) = snd (reapExpired now lm)"
  by (simp add: reapExpired_def drainExpired_def)

lemma aside_trans: "aside now s s1 \<Longrightarrow> aside now s1 s2 \<Longrightarrow> aside now s s2"
  by (cases s; cases s1; cases s2) (auto simp: aside_def reaped_def option.map_comp comp_def reap_twice)

lemma enforce_rule_aside: "aside now s (snd (enforce_rule r ctx now s))"
  by (cases "pr_body r")
    (auto simp: aside_def reaped_def enforce_rule_def enforceRate_def enforceInterlock_def enforceSequence_def
      enforceApproval_def enforceLease_def permits_def enforceDeadman_def enforceResource_def Let_def
      split: option.splits sum.splits)

lemma enforce_v2_aside: "aside now s (snd (enforce_v2 rs ctx now s))"
proof (induction rs arbitrary: s)
  case (Cons r rs)
  then show ?case
    using enforce_rule_aside[of now s r ctx] by (auto simp: enforce_v2.simps split: prod.splits sum.splits intro: aside_trans)
qed simp

lemma enforceRules_aside: "aside now s (snd (enforceRules ctx now wall s))"
  using enforce_v2_aside[of now s "sg_rules s" ctx] by (auto simp: enforceRules_def split: sum.splits)

lemma restored_untouched:
  "aside now s s' \<Longrightarrow> untouched now s (restoreConsumables (snapshotConsumables s) s') \<and>
    untouched now s (notifyRejection e ctx (restoreConsumables (snapshotConsumables s) s'))"
  by (cases s; cases s') (auto simp: aside_def untouched_def restoreConsumables_def snapshotConsumables_def notifyRejection_def)

lemma refused_untouched: "reserve ctx now wall s = (Inl e, s') \<Longrightarrow> untouched now s s'"
  using enforceRules_aside[of now s ctx wall] restored_untouched[of now s]
  by (auto simp: reserve_def Let_def split: sum.splits prod.splits)

lemma preview_untouched: "untouched now s (snd (preview ctx now wall s))"
proof (cases "reserve ctx now wall s")
  case (Pair r s')
  show ?thesis
  proof (cases r)
    case (Inl e)
    with Pair have "restoreConsumables (snapshotConsumables s) s' = s'"
      using reserve_refused[of ctx now wall s e s'] by (cases s') (simp add: restoreConsumables_def snapshotConsumables_def)
    then show ?thesis
      using Pair Inl refused_untouched[of ctx now wall s e s']
      by (simp add: preview_def check_def enforce_def Let_def split: prod.splits)
  next
    case (Inr rv)
    with Pair have "aside now s s'"
      using enforceRules_aside[of now s ctx wall] by (auto simp: reserve_def Let_def split: sum.splits prod.splits)
    then show ?thesis
      using Pair Inr restored_untouched[of now s s'] by (simp add: preview_def check_def enforce_def Let_def)
  qed
qed

lemma enforceRules_rules: "sg_rules (snd (enforceRules ctx now wall s)) = sg_rules s"
  using enforce_v2_feeds[of now s "sg_rules s" ctx]
  by (auto simp: enforceRules_def same_feeds_def split: sum.splits)

lemma reserve_rules: "sg_rules (snd (reserve ctx now wall s)) = sg_rules s"
  using enforceRules_rules[of ctx now wall s]
  by (auto simp: reserve_def Let_def notifyRejection_def restoreConsumables_def split: sum.splits prod.splits)

lemma enforce_snd: "snd (enforce ctx now wall s) = snd (reserve ctx now wall s)"
  by (auto simp: enforce_def Let_def split: sum.splits prod.splits)

lemma preview_rules: "sg_rules (snd (preview ctx now wall s)) = sg_rules s"
  using reserve_rules[of ctx now wall s] enforce_snd[of ctx now wall s]
  by (auto simp: preview_def check_def Let_def restoreConsumables_def split: sum.splits prod.splits if_splits)

lemma safety_step_rules: "sg_rules (snd (safety_step c s)) = sg_rules s"
  by (cases c)
    (simp_all add: enforce_snd reserve_rules preview_rules setInterlock_def setSequenceStep_def
      recordApproval_def heartbeatDeadman_def clearDeadman_def Let_def)

subsection \<open>Rate windows\<close>

definition rates :: "policy_rule list \<Rightarrow> safety_context \<Rightarrow> (real \<times> time) list" where
  "rates rs ctx = concat (map (\<lambda>r. case pr_body r of
      Rate n w \<Rightarrow> if pr_capability r = pc_capability ctx then [(n, or_else 1000 w)] else [] | _ \<Rightarrow> []) rs)"

fun rate_fold :: "(real \<times> time) list \<Rightarrow> time \<Rightarrow> time list \<Rightarrow> time list" where
  "rate_fold [] now w = w"
| "rate_fold ((n, l) # rs) now w = rate_fold rs now (filter (\<lambda>t. t > now - l) w @ [now])"

lemma enforce_rule_window:
  "fst (enforce_rule r ctx now s) = Inr () \<Longrightarrow>
    rate_window (snd (enforce_rule r ctx now s)) key =
      (case pr_body r of
        Rate n w \<Rightarrow> if key = rate_key ctx then filter (\<lambda>t. t > now - or_else 1000 w) (rate_window s key) @ [now]
                    else rate_window s key
      | _ \<Rightarrow> rate_window s key)"
  by (cases "pr_body r")
    (auto simp: enforce_rule_def rate_window_def enforceRate_def enforceInterlock_def enforceSequence_def
      enforceApproval_def enforceLease_def enforceDeadman_def enforceResource_def Let_def jget_set or_nil_def
      split: option.splits sum.splits prod.splits if_splits)

lemma enforce_v2_window:
  "fst (enforce_v2 rs ctx now s) = Inr () \<Longrightarrow>
    rate_window (snd (enforce_v2 rs ctx now s)) key =
      (if key = rate_key ctx then rate_fold (rates rs ctx) now (rate_window s key) else rate_window s key)"
proof (induction rs arbitrary: s)
  case (Cons r rs)
  show ?case
  proof (cases "v2_applies r ctx")
    case True
    let ?s = "snd (enforce_rule r ctx now s)"
    have ok: "fst (enforce_rule r ctx now s) = Inr ()" "fst (enforce_v2 rs ctx now ?s) = Inr ()"
      using Cons.prems True by (simp_all add: enforce_v2_Cons_ok enforce_rule_ok)
    have eq: "snd (enforce_v2 (r # rs) ctx now s) = snd (enforce_v2 rs ctx now ?s)"
      using True ok(1) by (auto simp: enforce_v2.simps split: prod.splits sum.splits)
    show ?thesis
      unfolding eq Cons.IH[OF ok(2)] enforce_rule_window[OF ok(1)]
      using True by (cases "pr_body r") (auto simp: rates_def v2_applies_def)
  next
    case False
    with Cons show ?thesis
      by (cases "pr_body r") (auto simp: enforce_v2.simps rates_def v2_applies_def)
  qed
qed (simp add: rates_def)

lemma enforce_v2_rate_holds:
  "fst (enforce_v2 rs ctx now s) = Inr () \<Longrightarrow> rates rs ctx = [(n, w)] \<Longrightarrow>
    real (length (filter (\<lambda>t. t > now - w) (rate_window s (rate_key ctx)))) < n"
proof (induction rs arbitrary: s)
  case (Cons r rs)
  show ?case
  proof (cases "v2_applies r ctx")
    case True
    let ?s = "snd (enforce_rule r ctx now s)"
    have ok: "rule_holds r ctx now s" "fst (enforce_rule r ctx now s) = Inr ()"
      "fst (enforce_v2 rs ctx now ?s) = Inr ()"
      using Cons.prems True by (simp_all add: enforce_v2_Cons_ok enforce_rule_ok)
    show ?thesis
    proof (cases "\<exists>m l. pr_body r = Rate m l")
      case True
      with Cons.prems(2) \<open>v2_applies r ctx\<close> ok(1) show ?thesis
        by (auto simp: rates_def rule_holds_def v2_applies_def)
    next
      case False
      then have "rates rs ctx = [(n, w)]" "rate_window ?s (rate_key ctx) = rate_window s (rate_key ctx)"
        using Cons.prems(2) enforce_rule_window[OF ok(2), of "rate_key ctx"]
        by (auto simp: rates_def split: rule_body.splits)
      with Cons.IH[OF ok(3)] show ?thesis
        by simp
    qed
  next
    case False
    with Cons show ?thesis
      by (cases "pr_body r") (auto simp: enforce_v2.simps rates_def v2_applies_def)
  qed
qed (simp add: rates_def)

text \<open>The clock readings of a run, and the accepted times under one rate key.\<close>

fun safety_times :: "safety_call \<Rightarrow> time list" where
  "safety_times (SEnforce _ now _) = [now]"
| "safety_times (SPreview _ now _) = [now]"
| "safety_times _ = []"

fun safety_contexts :: "safety_call \<Rightarrow> safety_context list" where
  "safety_contexts (SEnforce ctx _ _) = [ctx]"
| "safety_contexts (SPreview ctx _ _) = [ctx]"
| "safety_contexts _ = []"

definition accepted_times :: "string \<Rightarrow> (safety_context \<times> time) list \<Rightarrow> time list" where
  "accepted_times key acc = map snd (filter (\<lambda>p. rate_key (fst p) = key) acc)"

definition sliding :: "time \<Rightarrow> time \<Rightarrow> time list \<Rightarrow> time list" where
  "sliding w T ts = filter (\<lambda>t. T - w < t \<and> t \<le> T) ts"

text \<open>
  The stored window and the accepted times agree on every window ending now or later, and no
  window of the accepted times is overfull.
\<close>

definition rate_inv :: "real \<Rightarrow> time \<Rightarrow> time \<Rightarrow> time list \<Rightarrow> time list \<Rightarrow> bool" where
  "rate_inv n w t0 A W \<longleftrightarrow> (\<forall>t\<in>set A. t \<le> t0) \<and>
    (\<forall>T\<ge>t0. filter (\<lambda>t. T - w < t) W = filter (\<lambda>t. T - w < t) A) \<and>
    (\<forall>T. real (length (sliding w T A)) < n + 1)"

lemma rate_inv_later: "rate_inv n w t0 A W \<Longrightarrow> t0 \<le> t1 \<Longrightarrow> rate_inv n w t1 A W"
  by (force simp: rate_inv_def)

lemma sliding_all: "\<forall>t\<in>set A. t \<le> T \<Longrightarrow> sliding w T A = filter (\<lambda>t. T - w < t) A"
  by (auto simp: sliding_def intro: filter_cong)

lemma rate_inv_accept:
  assumes inv: "rate_inv n w t0 A W" and now: "t0 \<le> now"
    and room: "real (length (filter (\<lambda>t. t > now - w) W)) < n"
  shows "rate_inv n w now (A @ [now]) (filter (\<lambda>t. t > now - w) W @ [now])"
proof -
  have eqT: "filter (\<lambda>t. T - w < t) W = filter (\<lambda>t. T - w < t) A" if "now \<le> T" for T
    using inv now that by (simp add: rate_inv_def)
  have le: "\<forall>t\<in>set A. t \<le> now"
    using inv now by (auto simp: rate_inv_def)
  have "filter (\<lambda>t. T - w < t) (filter (\<lambda>t. t > now - w) W) = filter (\<lambda>t. T - w < t) A" if "now \<le> T" for T
    unfolding eqT[OF that, symmetric] filter_filter using that by (intro filter_cong) auto
  moreover have "real (length (sliding w T (A @ [now]))) < n + 1" for T
  proof (cases "now \<le> T")
    case True
    have "length (sliding w T A) \<le> length (filter (\<lambda>t. now - w < t) A)"
      unfolding sliding_def using True
      by (induction A) auto
    then show ?thesis
      using room eqT[of now] by (auto simp: sliding_def)
  next
    case False
    then show ?thesis
      using inv by (auto simp: rate_inv_def sliding_def)
  qed
  ultimately show ?thesis
    using le unfolding rate_inv_def by auto
qed

definition rate_setup :: "real \<Rightarrow> time \<Rightarrow> safety_context \<Rightarrow> safety_call list \<Rightarrow> safety_engine \<Rightarrow> bool" where
  "rate_setup n w ctx0 cs s \<longleftrightarrow> rates (sg_rules s) ctx0 = [(n, w)] \<and>
    (\<forall>c\<in>set cs. \<forall>ctx\<in>set (safety_contexts c).
      rate_key ctx = rate_key ctx0 \<longrightarrow> pc_capability ctx = pc_capability ctx0)"

lemma rates_cong: "pc_capability ctx = pc_capability ctx' \<Longrightarrow> rates rs ctx = rates rs ctx'"
  by (auto simp: rates_def intro!: arg_cong[where f = concat] map_cong split: rule_body.splits)

lemma view_window:
  "snapshotConsumables s' = snapshotConsumables s \<Longrightarrow> rate_window s' key = rate_window s key"
  by (simp add: snapshotConsumables_def rate_window_def)

lemma enforce_rate_inv:
  assumes inv: "rate_inv n w t0 A (rate_window s (rate_key ctx0))" and now: "t0 \<le> now"
    and rates: "rates (sg_rules s) ctx0 = [(n, w)]"
    and cap: "rate_key ctx = rate_key ctx0 \<longrightarrow> pc_capability ctx = pc_capability ctx0"
  shows "rate_inv n w now (A @ accepted_times (rate_key ctx0) (fst (safety_step (SEnforce ctx now wall) s)))
    (rate_window (snd (safety_step (SEnforce ctx now wall) s)) (rate_key ctx0))"
proof (cases "fst (enforce ctx now wall s) = Inr ()")
  case True
  note state = enforce_accepted_state[OF True] enforce_result[of ctx now wall s]
  then have ok: "fst (enforce_v2 (sg_rules s) ctx now s) = Inr ()"
    using True by blast
  show ?thesis
  proof (cases "rate_key ctx = rate_key ctx0")
    case key: True
    then have r: "rates (sg_rules s) ctx = [(n, w)]"
      using cap rates by (simp add: rates_cong[of ctx ctx0])
    show ?thesis
      using rate_inv_accept[OF inv now] enforce_v2_rate_holds[OF ok r] True key
      by (simp add: state(1) enforce_v2_window[OF ok] accepted_times_def r)
  next
    case False
    then show ?thesis
      using True rate_inv_later[OF inv now]
      by (simp add: state(1) enforce_v2_window[OF ok] accepted_times_def)
  qed
next
  case False
  then show ?thesis
    using view_window[OF enforce_rejected_view[OF False], of "rate_key ctx0"] rate_inv_later[OF inv now]
    by (simp add: accepted_times_def)
qed

lemma safety_run_rate:
  assumes "rate_setup n w ctx0 cs s" "rate_inv n w t0 A (rate_window s (rate_key ctx0))"
    and "sorted (t0 # concat (map safety_times cs))"
  shows "\<exists>t1. rate_inv n w t1 (A @ accepted_times (rate_key ctx0) (fst (safety_run cs s)))
    (rate_window (snd (safety_run cs s)) (rate_key ctx0))"
  using assms
proof (induction cs arbitrary: s A t0)
  case Nil
  then show ?case
    by (auto simp: accepted_times_def)
next
  case (Cons c cs)
  let ?A = "A @ accepted_times (rate_key ctx0) (fst (safety_step c s))" and ?s = "snd (safety_step c s)"
  have ready: "rate_setup n w ctx0 cs ?s"
    using Cons.prems(1) by (simp add: rate_setup_def safety_step_rules)
  have "\<exists>l. rate_inv n w l ?A (rate_window ?s (rate_key ctx0)) \<and> sorted (l # concat (map safety_times cs))"
  proof (cases c)
    case (SEnforce ctx now wall)
    then show ?thesis
      using Cons.prems enforce_rate_inv[OF Cons.prems(2), of now ctx wall]
      by (auto simp: rate_setup_def)
  next
    case (SPreview ctx now wall)
    then show ?thesis
      using Cons.prems(2,3) view_window[OF preview_view[of ctx now wall s], of "rate_key ctx0"]
      by (auto simp: accepted_times_def)
  qed (use Cons.prems(2,3) in \<open>auto simp: accepted_times_def rate_window_def setInterlock_def
      setSequenceStep_def recordApproval_def heartbeatDeadman_def clearDeadman_def Let_def\<close>)
  then obtain l where l: "rate_inv n w l ?A (rate_window ?s (rate_key ctx0))"
    "sorted (l # concat (map safety_times cs))"
    by blast
  show ?case
    using Cons.IH[OF ready l] by (simp add: accepted_times_def)
qed

subsection \<open>Approvals\<close>

definition unused_approvals :: "safety_engine \<Rightarrow> string \<Rightarrow> string \<Rightarrow> nat" where
  "unused_approvals s d c = length (filter (\<lambda>p. ap_deviceId (snd p) = d \<and> ap_capability (snd p) = c \<and>
    ap_usedAt (snd p) = None) (sg_approvals s))"

abbreviation "count_unused d c m \<equiv> length (filter (\<lambda>p. ap_deviceId (snd p) = d \<and>
  ap_capability (snd p) = c \<and> ap_usedAt (snd p) = None) m)"

lemma use_approval_count:
  "use_approval ctx now m = Some m' \<Longrightarrow>
    count_unused d c m' + (if pc_deviceId ctx = d \<and> pc_capability ctx = c then 1 else 0) = count_unused d c m"
  by (induction m arbitrary: m') (auto simp: approval_usable_def split: if_splits)

lemma enforce_rule_approvals:
  "sg_approvals (snd (enforce_rule r ctx now s)) =
    (case pr_body r of Approval \<Rightarrow> (case use_approval ctx now (sg_approvals s) of
        None \<Rightarrow> sg_approvals s | Some m \<Rightarrow> m) | _ \<Rightarrow> sg_approvals s)"
  by (cases "pr_body r")
    (auto simp: enforce_rule_def enforceRate_def enforceInterlock_def enforceSequence_def
      enforceApproval_def enforceLease_def enforceDeadman_def enforceResource_def Let_def
      split: option.splits sum.splits prod.splits if_splits)

lemma enforce_rule_unused:
  assumes "fst (enforce_rule r ctx now s) = Inr ()"
  shows "unused_approvals (snd (enforce_rule r ctx now s)) d c +
      (if pr_body r = Approval \<and> pc_deviceId ctx = d \<and> pc_capability ctx = c then 1 else 0)
    \<le> unused_approvals s d c"
proof (cases "pr_body r = Approval")
  case True
  then obtain m where "use_approval ctx now (sg_approvals s) = Some m"
    using assms by (auto simp: enforce_rule_def enforceApproval_def split: option.splits)
  with use_approval_count[OF this, of d c] True show ?thesis
    by (simp add: unused_approvals_def enforce_rule_approvals)
next
  case False
  then show ?thesis
    by (cases "pr_body r") (simp_all add: unused_approvals_def enforce_rule_approvals)
qed

lemma enforce_v2_unused:
  "fst (enforce_v2 rs ctx now s) = Inr () \<Longrightarrow>
    unused_approvals (snd (enforce_v2 rs ctx now s)) d c +
      (if (\<exists>r\<in>set rs. pr_body r = Approval \<and> pr_capability r = c) \<and> pc_deviceId ctx = d \<and> pc_capability ctx = c
       then 1 else 0)
    \<le> unused_approvals s d c"
proof (induction rs arbitrary: s)
  case (Cons r rs)
  show ?case
  proof (cases "v2_applies r ctx")
    case True
    let ?s = "snd (enforce_rule r ctx now s)"
    have ok: "fst (enforce_rule r ctx now s) = Inr ()" "fst (enforce_v2 rs ctx now ?s) = Inr ()"
      using Cons.prems True by (simp_all add: enforce_v2_Cons_ok enforce_rule_ok)
    have eq: "snd (enforce_v2 (r # rs) ctx now s) = snd (enforce_v2 rs ctx now ?s)"
      using True ok(1) by (auto simp: enforce_v2.simps split: prod.splits sum.splits)
    show ?thesis
      unfolding eq using Cons.IH[OF ok(2)] enforce_rule_unused[OF ok(1), of d c]
      by (auto split: if_splits)
  next
    case False
    then have "pr_body r = Approval \<Longrightarrow> pr_capability r \<noteq> pc_capability ctx"
      by (simp add: v2_applies_def)
    moreover have "fst (enforce_v2 rs ctx now s) = Inr ()"
      using False Cons.prems by (simp add: enforce_v2.simps)
    note Cons.IH[OF this]
    ultimately show ?thesis
      using False by (auto simp: enforce_v2.simps split: if_splits)
  qed
qed simp

fun recorded_approvals :: "safety_call list \<Rightarrow> nat" where
  "recorded_approvals [] = 0"
| "recorded_approvals (SApproval a g now # cs) = Suc (recorded_approvals cs)"
| "recorded_approvals (_ # cs) = recorded_approvals cs"

lemma recorded_approvals_Cons: "recorded_approvals (x # cs) = recorded_approvals [x] + recorded_approvals cs"
  by (cases x) auto

definition accepted_for :: "string \<Rightarrow> string \<Rightarrow> (safety_context \<times> time) list \<Rightarrow> nat" where
  "accepted_for d c acc = length (filter (\<lambda>p. pc_deviceId (fst p) = d \<and> pc_capability (fst p) = c) acc)"

lemma accepted_for_append: "accepted_for d c (xs @ ys) = accepted_for d c xs + accepted_for d c ys"
  by (simp add: accepted_for_def)

lemma count_unused_jset: "count_unused d c (jset k a m) \<le> Suc (count_unused d c m)"
  by (induction m) auto

lemma view_unused:
  "snapshotConsumables s' = snapshotConsumables s \<Longrightarrow> unused_approvals s' d c = unused_approvals s d c"
  by (simp add: snapshotConsumables_def unused_approvals_def)

lemma safety_step_unused:
  assumes "\<exists>r\<in>set (sg_rules s). pr_body r = Approval \<and> pr_capability r = c"
  shows "unused_approvals (snd (safety_step x s)) d c + accepted_for d c (fst (safety_step x s))
    \<le> unused_approvals s d c + recorded_approvals [x]"
proof (cases x)
  case (SEnforce ctx now wall)
  show ?thesis
  proof (cases "fst (enforce ctx now wall s) = Inr ()")
    case True
    then have "fst (enforce_v2 (sg_rules s) ctx now s) = Inr ()"
      by (simp add: enforce_result)
    from enforce_v2_unused[OF this, of d c] assms True SEnforce show ?thesis
      by (auto simp: enforce_accepted_state accepted_for_def)
  next
    case False
    with view_unused[OF enforce_rejected_view[OF False], of d c] SEnforce show ?thesis
      by (simp add: accepted_for_def)
  qed
next
  case (SPreview ctx now wall)
  then show ?thesis
    using view_unused[OF preview_view[of ctx now wall s], of d c] by (simp add: accepted_for_def)
next
  case (SApproval a g now)
  then show ?thesis
    using count_unused_jset[of d c]
    by (simp add: accepted_for_def recordApproval_def Let_def unused_approvals_def)
qed (simp_all add: accepted_for_def unused_approvals_def setInterlock_def setSequenceStep_def
    heartbeatDeadman_def clearDeadman_def)

lemma safety_run_unused:
  "\<exists>r\<in>set (sg_rules s). pr_body r = Approval \<and> pr_capability r = c \<Longrightarrow>
    accepted_for d c (fst (safety_run cs s)) \<le> unused_approvals s d c + recorded_approvals cs"
proof (induction cs arbitrary: s)
  case (Cons x cs)
  have "accepted_for d c (fst (safety_run cs (snd (safety_step x s))))
      \<le> unused_approvals (snd (safety_step x s)) d c + recorded_approvals cs"
    using Cons by (simp add: safety_step_rules)
  then show ?case
    using safety_step_unused[OF Cons.prems, of x d]
    using recorded_approvals_Cons[of x cs] by (simp add: accepted_for_append)
qed (simp add: accepted_for_def)

subsection \<open>Properties\<close>

text \<open>
  What an accepted rule takes: a slot of the rate window, the first usable approval, a share of a budget. The rules
  that take something are asked in order, each after what the earlier ones took.
\<close>

definition charge :: "policy_rule \<Rightarrow> safety_context \<Rightarrow> time \<Rightarrow> safety_engine \<Rightarrow> safety_engine" where
  "charge r ctx now s =
    (case pr_body r of
      Rate n w \<Rightarrow> s\<lparr>sg_rateWindows := jset (rate_key ctx)
        (filter (\<lambda>t. now - or_else 1000 w < t) (rate_window s (rate_key ctx)) @ [now]) (sg_rateWindows s)\<rparr>
    | Approval \<Rightarrow> s\<lparr>sg_approvals := the (use_approval ctx now (sg_approvals s))\<rparr>
    | Resource res c \<Rightarrow>
        (let b = the (jget (sg_budgets s) res) in
         s\<lparr>sg_budgets := jset res (b\<lparr>bu_consumed :=
           filter (\<lambda>(t, c). now - bu_windowMs b < t) (bu_consumed b) @ [(now, or_else 1 c)]\<rparr>) (sg_budgets s)\<rparr>)
    | _ \<Rightarrow> s)"

fun affordable :: "policy_rule list \<Rightarrow> safety_context \<Rightarrow> time \<Rightarrow> safety_engine \<Rightarrow> bool" where
  "affordable [] ctx now s = True"
| "affordable (r # rs) ctx now s = (rule_holds r ctx now s \<and> affordable rs ctx now (charge r ctx now s))"

definition demands :: "policy_rule list \<Rightarrow> safety_context \<Rightarrow> policy_rule list" where
  "demands rs ctx = filter (\<lambda>r. v2_applies r ctx \<and> consuming (pr_body r)) rs"

definition conditions :: "policy_rule list \<Rightarrow> safety_context \<Rightarrow> policy_rule list" where
  "conditions rs ctx = filter (\<lambda>r. v2_applies r ctx \<and> \<not> consuming (pr_body r)) rs"

definition same_consumables :: "safety_engine \<Rightarrow> safety_engine \<Rightarrow> bool" where
  "same_consumables s s' \<longleftrightarrow> snapshotConsumables s = snapshotConsumables s'"

lemmas consumables_defs = same_consumables_def snapshotConsumables_def

lemma rule_charges:
  "consuming (pr_body r) \<Longrightarrow> rule_holds r ctx now s \<Longrightarrow>
    same_consumables (snd (enforce_rule r ctx now s)) (charge r ctx now s)"
  using use_approval_None[of ctx now "sg_approvals s"]
  by (cases "pr_body r")
    (auto simp: consumables_defs charge_def enforce_rule_def enforceRate_def enforceApproval_def enforceResource_def
      rule_holds_def rate_window_def spent_def Let_def split: option.splits)

lemma rule_keeps_consumables:
  "\<not> consuming (pr_body r) \<Longrightarrow> same_consumables (snd (enforce_rule r ctx now s)) s"
  by (cases "pr_body r")
    (auto simp: consumables_defs enforce_rule_def enforceInterlock_def enforceSequence_def enforceLease_def
      enforceDeadman_def split: option.splits sum.splits prod.splits)

lemma rule_holds_consumables:
  "consuming (pr_body r) \<Longrightarrow> same_consumables s s' \<Longrightarrow> rule_holds r ctx now s = rule_holds r ctx now s'"
  by (cases "pr_body r") (auto simp: rule_holds_def consumables_defs rate_window_def)

lemma charge_consumables: "same_consumables s s' \<Longrightarrow> same_consumables (charge r ctx now s) (charge r ctx now s')"
  by (cases "pr_body r") (auto simp: charge_def consumables_defs rate_window_def Let_def)

lemma affordable_consumables:
  "list_all (\<lambda>r. consuming (pr_body r)) rs \<Longrightarrow> same_consumables s s' \<Longrightarrow> affordable rs ctx now s = affordable rs ctx now s'"
proof (induction rs arbitrary: s s')
  case (Cons r rs)
  show ?case
    using Cons.prems rule_holds_consumables[of r s s'] Cons.IH[OF _ charge_consumables[OF Cons.prems(2)]] by simp
qed simp

lemma demands_consuming: "list_all (\<lambda>r. consuming (pr_body r)) (demands rs ctx)"
  by (simp add: demands_def list_all_iff)

lemma enforce_v2_decides:
  "fst (enforce_v2 rs ctx now s) = Inr () \<longleftrightarrow>
    list_all (\<lambda>r. rule_holds r ctx now s) (conditions rs ctx) \<and> affordable (demands rs ctx) ctx now s"
proof (induction rs arbitrary: s)
  case (Cons r rs)
  let ?s = "snd (enforce_rule r ctx now s)"
  have feeds: "list_all (\<lambda>r. rule_holds r ctx now ?s) (conditions rs ctx) =
      list_all (\<lambda>r. rule_holds r ctx now s) (conditions rs ctx)"
    using rule_holds_feeds[OF _ enforce_rule_feeds] by (auto simp: conditions_def list_all_iff)
  show ?case
  proof (cases "v2_applies r ctx")
    case applies: True
    show ?thesis
    proof (cases "consuming (pr_body r)")
      case True
      then show ?thesis
        using applies Cons feeds affordable_consumables[OF demands_consuming rule_charges[OF True]]
        by (auto simp: enforce_v2_Cons_ok demands_def conditions_def)
    next
      case False
      then show ?thesis
        using applies Cons feeds affordable_consumables[OF demands_consuming rule_keeps_consumables[OF False]]
        by (auto simp: enforce_v2_Cons_ok demands_def conditions_def)
    qed
  qed (simp add: enforce_v2_Cons_ok Cons demands_def conditions_def)
qed (simp_all add: demands_def conditions_def)

text \<open>Two rules that draw on the same store: the window of the capability, its approvals, one budget.\<close>

fun draws_on :: "rule_body \<Rightarrow> string \<times> string" where
  "draws_on (Rate _ _) = (''rate'', [])"
| "draws_on Approval = (''approval'', [])"
| "draws_on (Resource res _) = (''budget'', res)"
| "draws_on _ = ([], [])"

lemma rule_holds_charge:
  "consuming (pr_body r) \<Longrightarrow> consuming (pr_body r') \<Longrightarrow> draws_on (pr_body r) \<noteq> draws_on (pr_body r') \<Longrightarrow>
    rule_holds r ctx now (charge r' ctx now s) = rule_holds r ctx now s"
  by (cases "pr_body r"; cases "pr_body r'")
    (auto simp: rule_holds_def charge_def rate_window_def jget_set Let_def)

lemma affordable_distinct:
  "list_all (\<lambda>r. consuming (pr_body r)) rs \<Longrightarrow> distinct (map (\<lambda>r. draws_on (pr_body r)) rs) \<Longrightarrow>
    affordable rs ctx now s \<longleftrightarrow> list_all (\<lambda>r. rule_holds r ctx now s) rs"
proof (induction rs arbitrary: s)
  case (Cons r rs)
  have "list_all (\<lambda>x. rule_holds x ctx now (charge r ctx now s)) rs = list_all (\<lambda>x. rule_holds x ctx now s) rs"
  proof (rule list_all_cong[OF refl])
    fix x assume x: "x \<in> set rs"
    then have "draws_on (pr_body x) \<noteq> draws_on (pr_body r)"
      using Cons.prems(2) by (metis (no_types, lifting) distinct.simps(2) imageI list.set_map list.simps(9))
    then show "rule_holds x ctx now (charge r ctx now s) = rule_holds x ctx now s"
      using x Cons.prems(1) by (intro rule_holds_charge) (simp_all add: list_all_iff)
  qed
  with Cons show ?case
    by simp
qed simp

text \<open>C1: What the safety gate decides. A reservation is accepted exactly when the baseline policies accept, every applicable
  interlock, sequence, lease and deadman rule holds in the state before it, and the applicable rate, approval and
  resource rules hold in their order, each in the state before it charged with what the earlier ones took. When no two
  of the latter draw on the same store, it is accepted exactly when the policies accept and every applicable rule holds
  in the state before it.\<close>

theorem safety_gate_decides:
  "((\<exists>rv. fst (reserve ctx now wall s) = Inr rv) \<longleftrightarrow>
      evaluatePolicies (sg_rules s) (policy_context.truncate ctx) wall = Inr () \<and>
      list_all (\<lambda>r. rule_holds r ctx now s) (conditions (sg_rules s) ctx) \<and>
      affordable (demands (sg_rules s) ctx) ctx now s) \<and>
   (distinct (map (\<lambda>r. draws_on (pr_body r)) (demands (sg_rules s) ctx)) \<longrightarrow>
      ((\<exists>rv. fst (reserve ctx now wall s) = Inr rv) \<longleftrightarrow>
        evaluatePolicies (sg_rules s) (policy_context.truncate ctx) wall = Inr () \<and>
        list_all (\<lambda>r. v2_applies r ctx \<longrightarrow> rule_holds r ctx now s) (sg_rules s)))"
proof -
  have "list_all (\<lambda>r. v2_applies r ctx \<longrightarrow> rule_holds r ctx now s) rs \<longleftrightarrow>
      list_all (\<lambda>r. rule_holds r ctx now s) (conditions rs ctx) \<and> list_all (\<lambda>r. rule_holds r ctx now s) (demands rs ctx)" for rs
    by (auto simp: list_all_iff conditions_def demands_def)
  then show ?thesis
    unfolding reserve_ok enforce_v2_decides using affordable_distinct[OF demands_consuming] by auto
qed

definition wit_ctx :: "string option \<Rightarrow> safety_context" where
  "wit_ctx u = \<lparr>pc_deviceId = ''arm'', pc_capability = ''move'', pc_payload = [], pc_state = JNull, sc_owner = u\<rparr>"

definition wit_gate :: "real \<Rightarrow> safety_engine" where
  "wit_gate n = setInterlock ''door'' (JBool True)
    (SafetyEngine [plain_rule ''move'' (Interlock ''door'' None None), plain_rule ''move'' (Rate n None)] None False)"

lemma wit_gate_simps:
  "sg_rules (wit_gate n) = [plain_rule ''move'' (Interlock ''door'' None None), plain_rule ''move'' (Rate n None)]"
  "rule_holds (plain_rule ''move'' (Interlock ''door'' None None)) (wit_ctx None) 5 (wit_gate n)"
  "rule_holds (plain_rule ''move'' (Rate n None)) (wit_ctx None) 5 (wit_gate n) \<longleftrightarrow> 0 < n"
  by (simp_all add: wit_gate_def setInterlock_def SafetyEngine_def plain_rule_def rule_holds_def or_else_def rate_window_def
      or_nil_def)

theorem safety_gate_decides_witness:
  "(\<exists>rv. fst (reserve (wit_ctx None) 5 5 (wit_gate 1)) = Inr rv) \<and>
   \<not> (\<exists>rv. fst (reserve (wit_ctx None) 5 5 (wit_gate 0)) = Inr rv)"
proof -
  have "distinct (map (\<lambda>r. draws_on (pr_body r)) (demands (sg_rules (wit_gate n)) (wit_ctx None)))" for n
    unfolding wit_gate_simps(1) by (simp add: demands_def plain_rule_def)
  note decided = safety_gate_decides[THEN conjunct2, rule_format, OF this, of 5 5]
  have "evaluatePolicies (sg_rules (wit_gate n)) (policy_context.truncate (wit_ctx None)) 5 = Inr ()" for n
    unfolding wit_gate_simps(1)
    by (simp add: plain_rule_def evaluatePolicies.simps evaluate_rule_def wit_ctx_def policy_context.defs)
  moreover have "v2_applies (plain_rule ''move'' b) (wit_ctx None)" if "b = Rate n None" for b n
    using that by (simp add: v2_applies_def plain_rule_def wit_ctx_def)
  ultimately show ?thesis
    unfolding decided by (simp add: wit_gate_simps)
qed

text \<open>a lease rule admits one caller at a time. When a reservation of one owner was accepted under a
  lease rule, a reservation of another owner for the same device and capability at that instant is
  refused.\<close>

theorem lease_rule_one_owner:
  assumes "r \<in> set (sg_rules s)" "pr_body r = LeaseHeld"
    and "reserve c1 now w1 s = (Inr rv, s1)"
    and "pc_deviceId c2 = pc_deviceId c1" "pc_capability c2 = pc_capability c1" "sc_owner c2 \<noteq> sc_owner c1"
  shows "\<exists>e. fst (reserve c2 now w2 s1) = Inl e"
proof (rule ccontr)
  assume "\<not> ?thesis"
  then obtain rv2 where rv2: "fst (reserve c2 now w2 s1) = Inr rv2"
    by (cases "fst (reserve c2 now w2 s1)") auto
  have lease: "v2_applies r c" "\<not> consuming (pr_body r)" for c
    using assms(2) by (simp_all add: v2_applies_def)
  have s1: "s1 = snd (enforce_v2 (sg_rules s) c1 now s)"
    using assms(3) by (auto simp: reserve_def enforceRules_def Let_def split: sum.splits prod.splits)
  have feeds: "same_feeds now s s1"
    unfolding s1 by (rule enforce_v2_feeds)
  have "rule_holds r c1 now s"
    using reserve_static[of c1 now w1 s rv] assms(1,3) lease by simp
  moreover have "rule_holds r c2 now s1"
    using reserve_static[OF rv2] assms(1) lease feeds
    by (simp add: same_feeds_def)
  ultimately obtain u v where uv: "sc_owner c1 = Some u" "sc_owner c2 = Some v"
    "engine_grants s now u (pc_deviceId c1) (pc_capability c1)"
    "engine_grants s now v (pc_deviceId c1) (pc_capability c1)"
    using assms(2,4,5) feeds by (auto simp: rule_holds_def same_feeds_def split: option.splits)
  then have "u = v"
    unfolding engine_grants_def by (auto split: option.splits intro: leases.grants_exclusive)
  with uv assms(6) show False
    by simp
qed

lemmas engine_eval = reserve_def enforceRules_def enforce_def enforce_rule_def evaluatePolicies.simps
  evaluate_rule_def enforce_v2.simps v2_applies_def plain_rule_def SafetyEngine_def wit_ctx_def
  policy_context.defs Let_def

definition wit_lease_engine :: safety_engine where
  "wit_lease_engine = SafetyEngine [plain_rule ''move'' LeaseHeld]
    (Some (snd (acquire wit_opts ''x'' 0 (LeaseManager None)))) True"

theorem lease_rule_one_owner_witness:
  "(\<exists>rv. fst (reserve (wit_ctx (Some ''a'')) 5 5 wit_lease_engine) = Inr rv) \<and>
    (\<exists>e. fst (reserve (wit_ctx (Some ''b'')) 5 5 (snd (reserve (wit_ctx (Some ''a'')) 5 5 wit_lease_engine))) = Inl e)"
proof -
  have grants: "lease_grants (snd (acquire wit_opts ''x'' 0 (LeaseManager None)), 5) ''a'' ''arm'' ''move''"
    by (simp add: wit_acquire lease_grants_def permits_def reapExpired_def drainExpired_def isExpired_def
        wit_lease_def covers_def leaseCoversDevice_def Let_def)
  have "\<exists>rv. fst (reserve (wit_ctx (Some ''a'')) 5 5 wit_lease_engine) = Inr rv"
    by (rule reserve_complete)
      (simp add: wit_lease_engine_def SafetyEngine_def plain_rule_def evaluatePolicies.simps evaluate_rule_def
        wit_ctx_def rule_holds_def engine_grants_def grants v2_applies_def)
  then obtain rv s1 where rv: "reserve (wit_ctx (Some ''a'')) 5 5 wit_lease_engine = (Inr rv, s1)"
    by (metis prod.collapse)
  have "\<exists>e. fst (reserve (wit_ctx (Some ''b'')) 5 5 s1) = Inl e"
    by (rule lease_rule_one_owner[OF _ _ rv, of "plain_rule ''move'' LeaseHeld"])
      (simp_all add: wit_lease_engine_def SafetyEngine_def plain_rule_def wit_ctx_def)
  with rv show ?thesis
    by simp
qed

text \<open>C8: enforcement is transactional. A refused reservation, a preview with any outcome, and a
  reservation that is rolled back leave the rate windows, approvals and budgets as they were.\<close>

theorem reservation_transactional:
  "(\<forall>e. fst (reserve ctx now wall s) = Inl e \<longrightarrow>
      snapshotConsumables (snd (reserve ctx now wall s)) = snapshotConsumables s) \<and>
   snapshotConsumables (snd (preview ctx now wall s)) = snapshotConsumables s \<and>
   (\<forall>rv. fst (reserve ctx now wall s) = Inr rv \<longrightarrow>
      snapshotConsumables (snd (rollback rv (snd (reserve ctx now wall s)))) = snapshotConsumables s)"
proof -
  have "engine_attempt s (ctx, now, wall) = (snd (reserve ctx now wall s), None)"
    if "fst (reserve ctx now wall s) = Inl e" for e
    using that by (auto split: prod.splits sum.splits)
  moreover have "engine_attempt s (ctx, now, wall) = (snd (reserve ctx now wall s), Some rv)"
    if "fst (reserve ctx now wall s) = Inr rv" for rv
    using that by (auto split: prod.splits sum.splits)
  ultimately show ?thesis
    using booking.refused booking.undone preview_view unfolding engine_undo_def by metis
qed

theorem reservation_transactional_witness:
  "let s = snd (recordApproval \<lparr>ap_id = ''a'', ap_deviceId = ''arm'', ap_capability = ''move'', ap_grantedBy = ''op'',
        ap_grantedAt = 0, ap_expiresAt = None, ap_usedAt = None\<rparr> None 1
        (SafetyEngine [plain_rule ''move'' Approval] None False));
       res = reserve (wit_ctx None) 5 5 s
   in (\<exists>rv. fst res = Inr rv \<and> snapshotConsumables (snd (rollback rv (snd res))) = snapshotConsumables s) \<and>
     snapshotConsumables (snd res) \<noteq> snapshotConsumables s"
proof -
  let ?a = "\<lparr>ap_id = ''a'', ap_deviceId = ''arm'', ap_capability = ''move'', ap_grantedBy = ''op'',
    ap_grantedAt = 0, ap_expiresAt = None, ap_usedAt = None\<rparr>"
  let ?s = "snd (recordApproval ?a None 1 (SafetyEngine [plain_rule ''move'' Approval] None False))"
  let ?res = "reserve (wit_ctx None) 5 5 ?s"
  have ok: "\<exists>rv. fst ?res = Inr rv" "snapshotConsumables (snd ?res) \<noteq> snapshotConsumables ?s"
    by (simp_all add: engine_eval recordApproval_def enforceApproval_def approval_usable_def or_else_def
        snapshotConsumables_def)
  then show ?thesis
    using reservation_transactional[of "wit_ctx None" 5 5 ?s] unfolding Let_def by blast
qed

text \<open>overlapping reservations lose updates. When a second enforcement is accepted and committed between
  a reservation and its rollback, the rollback also gives back everything the second one consumed:
  its approval can be used again and its rate and budget charges are forgotten.\<close>

theorem rollback_erases_committed:
  assumes "reserve c1 now1 wall1 s = (Inr rv, s1)" and "enforce c2 now2 wall2 s1 = (Inr (), s2)"
  shows "snapshotConsumables (snd (rollback rv s2)) = snapshotConsumables s"
proof -
  have "engine_attempt s (c1, now1, wall1) = (s1, Some rv)"
    using assms(1) by simp
  moreover have "fst (engine_attempt s1 (c2, now2, wall2)) = s2"
    using assms(2) by (auto simp: enforce_def Let_def split: prod.splits sum.splits)
  ultimately show ?thesis
    using booking.overlapping_lost[of s "(c1, now1, wall1)" s1 rv "(c2, now2, wall2)"]
    by (simp add: engine_undo_def)
qed

definition wit_approval :: "string \<Rightarrow> approval_record" where
  "wit_approval i = \<lparr>ap_id = i, ap_deviceId = ''arm'', ap_capability = ''move'', ap_grantedBy = ''op'',
    ap_grantedAt = 0, ap_expiresAt = None, ap_usedAt = None\<rparr>"

theorem rollback_erases_committed_witness:
  "\<exists>rv s1 s2. reserve (wit_ctx None) 5 5
      ((SafetyEngine [plain_rule ''move'' Approval] None False)\<lparr>sg_approvals :=
        [(''a'', wit_approval ''a''), (''b'', wit_approval ''b'')]\<rparr>) = (Inr rv, s1) \<and>
    enforce (wit_ctx None) 6 6 s1 = (Inr (), s2) \<and>
    unused_approvals s2 ''arm'' ''move'' = 0 \<and> unused_approvals (snd (rollback rv s2)) ''arm'' ''move'' = 2"
proof -
  let ?s = "(SafetyEngine [plain_rule ''move'' Approval] None False)\<lparr>sg_approvals :=
    [(''a'', wit_approval ''a''), (''b'', wit_approval ''b'')]\<rparr>"
  obtain rv s1 where r: "reserve (wit_ctx None) 5 5 ?s = (Inr rv, s1)"
    "sg_rules s1 = sg_rules ?s" "sg_approvals s1 =
      [(''a'', (wit_approval ''a'')\<lparr>ap_usedAt := Some 5\<rparr>), (''b'', wit_approval ''b'')]"
    by (simp add: engine_eval enforceApproval_def approval_usable_def wit_approval_def Let_def)
  obtain s2 where e: "enforce (wit_ctx None) 6 6 s1 = (Inr (), s2)" "unused_approvals s2 ''arm'' ''move'' = 0"
    using r(2,3)
    by (simp add: engine_eval enforceApproval_def approval_usable_def wit_approval_def Let_def unused_approvals_def)
  have "unused_approvals (snd (rollback rv s2)) ''arm'' ''move'' = unused_approvals ?s ''arm'' ''move''"
    by (rule view_unused[OF rollback_erases_committed[OF r(1) e(1)]])
  also have "\<dots> = 2"
    by (simp add: unused_approvals_def wit_approval_def)
  finally show ?thesis
    using r(1) e by blast
qed

text \<open>C35: The rate limit of a single rule holds on every sliding window, without rollbacks. Take a fresh engine with exactly
  one rate rule for the capability, whose number is not negative, and any sequence of enforcements that are committed at once, previews and changes of
  interlocks, steps, approvals and deadman timers, but no rollback, with a clock that does not go back; let no other
  device and capability among them have the same \<open>device::capability\<close> text. Then every window of the rule's length
  contains fewer accepted invocations than the rule's number plus one. With two rules for one capability, or with
  rollbacks, the bound fails: \<open>rate_rules_interfere\<close>, \<open>rollback_erases_committed\<close>.\<close>

theorem rate_limit_bound:
  assumes "rate_setup n w ctx0 cs (SafetyEngine rules lm listener)" and "0 \<le> n"
    and "sorted (concat (map safety_times cs))"
  shows "real (length (sliding w T (accepted_times (rate_key ctx0)
    (fst (safety_run cs (SafetyEngine rules lm listener)))))) < n + 1"
proof (cases "concat (map safety_times cs)")
  case Nil
  then have "fst (safety_run cs s) = []" for s
  proof (induction cs arbitrary: s)
    case (Cons c cs)
    then show ?case by (cases c) simp_all
  qed simp
  with assms(2) show ?thesis
    by (simp add: accepted_times_def sliding_def)
next
  case (Cons t ts)
  have "rate_inv n w t [] (rate_window (SafetyEngine rules lm listener) (rate_key ctx0))"
    using assms(2) by (simp add: rate_inv_def rate_window_def SafetyEngine_def or_nil_def sliding_def)
  moreover have "sorted (t # concat (map safety_times cs))"
    using assms(3) Cons by simp
  ultimately obtain t1 where "rate_inv n w t1 ([] @ accepted_times (rate_key ctx0)
      (fst (safety_run cs (SafetyEngine rules lm listener))))
    (rate_window (snd (safety_run cs (SafetyEngine rules lm listener))) (rate_key ctx0))"
    using safety_run_rate[OF assms(1)] by blast
  then show ?thesis
    by (simp add: rate_inv_def)
qed

theorem rate_limit_bound_witness:
  "real (length (sliding 1000 600 (accepted_times ''arm::move''
    (fst (safety_run [SEnforce (wit_ctx None) 100 100, SEnforce (wit_ctx None) 500 500, SEnforce (wit_ctx None) 600 600]
      (SafetyEngine [plain_rule ''move'' (Rate 2 None)] None False)))))) < 2 + 1"
  using rate_limit_bound[of 2 1000 "wit_ctx None" "[SEnforce (wit_ctx None) 100 100,
      SEnforce (wit_ctx None) 500 500, SEnforce (wit_ctx None) 600 600]"
      "[plain_rule ''move'' (Rate 2 None)]" None False 600]
  by (simp add: rate_setup_def rates_def plain_rule_def SafetyEngine_def wit_ctx_def rate_key_def or_else_def)

text \<open>rate rules of one capability share a window and spoil each other. With a limit of ten per
  second and a limit of three per minute, an invocation every two seconds is accepted forever: the
  shorter rule forgets the older times that the longer rule would count.\<close>

definition two_rates :: "policy_rule list" where
  "two_rates = [plain_rule ''move'' (Rate 10 (Some 1000)), plain_rule ''move'' (Rate 3 (Some 60000))]"

fun every_two_seconds :: "nat \<Rightarrow> time \<Rightarrow> safety_call list" where
  "every_two_seconds 0 t = []"
| "every_two_seconds (Suc k) t = SEnforce (wit_ctx None) t t # every_two_seconds k (t + 2000)"

lemma two_rates_step:
  assumes "sg_rules s = two_rates" "\<forall>x\<in>set (rate_window s ''arm::move''). x \<le> t - 2000"
  shows "fst (enforce (wit_ctx None) t t s) = Inr () \<and>
    (\<forall>x\<in>set (rate_window (snd (enforce (wit_ctx None) t t s)) ''arm::move''). x \<le> t)"
proof -
  have "filter (\<lambda>x. t - 1000 < x) (rate_window s ''arm::move'') = []"
    using assms(2) by (auto simp: filter_empty_conv)
  then show ?thesis
    by (simp add: assms(1) engine_eval two_rates_def enforceRate_def rate_key_def rate_window_def or_else_def
        or_nil_def jget_set)
qed

lemma two_rates_run:
  "sg_rules s = two_rates \<Longrightarrow> \<forall>x\<in>set (rate_window s ''arm::move''). x \<le> t - 2000 \<Longrightarrow>
    length (fst (safety_run (every_two_seconds k t) s)) = k"
proof (induction k arbitrary: s t)
  case (Suc k)
  let ?s = "snd (enforce (wit_ctx None) t t s)"
  have "sg_rules ?s = two_rates"
    using safety_step_rules[of "SEnforce (wit_ctx None) t t" s] Suc.prems(1) by simp
  with two_rates_step[OF Suc.prems] Suc.IH[of ?s "t + 2000"] show ?case
    by simp
qed simp

theorem rate_rules_interfere:
  "length (fst (safety_run (every_two_seconds k 0) (SafetyEngine two_rates None False))) = k"
  by (rule two_rates_run) (simp_all add: SafetyEngine_def rate_window_def or_nil_def)

text \<open>an approval is good for one invocation. Through any calls with committed enforcements, the
  number of accepted invocations of an approval-gated capability of a device is at most the number
  of its unused approvals at the start plus the approvals recorded meanwhile.\<close>

theorem approval_single_use:
  assumes "\<exists>r\<in>set (sg_rules s). pr_body r = Approval \<and> pr_capability r = c"
  shows "accepted_for d c (fst (safety_run cs s)) \<le> unused_approvals s d c + recorded_approvals cs"
  by (rule safety_run_unused[OF assms])

theorem approval_single_use_witness:
  "accepted_for ''arm'' ''move'' (fst (safety_run [SApproval (wit_approval ''a'') None 1, SEnforce (wit_ctx None) 2 2,
      SPreview (wit_ctx None) 3 3, SEnforce (wit_ctx None) 4 4]
    (SafetyEngine [plain_rule ''move'' Approval] None True))) \<le> 1"
  using approval_single_use[of "SafetyEngine [plain_rule ''move'' Approval] None True" "''move''" "''arm''"
      "[SApproval (wit_approval ''a'') None 1, SEnforce (wit_ctx None) 2 2,
        SPreview (wit_ctx None) 3 3, SEnforce (wit_ctx None) 4 4]"]
  by (simp add: SafetyEngine_def plain_rule_def unused_approvals_def)

end
