(* ===== verification/Safety_Merge.thy ===== *)
theory Safety_Merge
  imports Safety
begin

text \<open>
  Merging module baseline rules with deployment rules, \<open>mergeModuleAndDeploymentRules\<close> of
  \<open>packages/core/src/policy/safety.ts\<close>: a deployment rule that would widen a module range or
  contradict a module precondition is left out and reported as a conflict.
\<close>

datatype constraint_conflict =
    RangeWidening string string "jsnum \<times> jsnum" "jsnum \<times> jsnum"
  | StateMismatch string string jsval jsval

definition configured :: "policy_rule \<Rightarrow> policy_rule" where
  "configured d = d\<lparr>pr_provenance := Some (or_else CONFIGURED (pr_provenance d))\<rparr>"

definition widens :: "range_rule \<Rightarrow> range_rule \<Rightarrow> bool" where
  "widens d m = (js_less (rr_min d) (rr_min m) \<or> js_less (rr_max m) (rr_max d))"

text \<open>The module's numeric ranges on the same field, and its preconditions on the same field.\<close>

fun range_counterparts :: "policy_rule list \<Rightarrow> string \<Rightarrow> string \<Rightarrow> range_rule list" where
  "range_counterparts [] cap field = []"
| "range_counterparts (r # rs) cap field =
    (case pr_body r of
      NumericRange m \<Rightarrow>
        if pr_capability r = cap \<and> rr_field m = field then m # range_counterparts rs cap field
        else range_counterparts rs cap field
    | _ \<Rightarrow> range_counterparts rs cap field)"

fun state_counterparts :: "policy_rule list \<Rightarrow> string \<Rightarrow> string \<Rightarrow> state_rule list" where
  "state_counterparts [] cap field = []"
| "state_counterparts (r # rs) cap field =
    (case pr_body r of
      StateEquals m \<Rightarrow>
        if pr_capability r = cap \<and> sr_field m = field then m # state_counterparts rs cap field
        else state_counterparts rs cap field
    | _ \<Rightarrow> state_counterparts rs cap field)"

fun is_mismatch :: "string \<Rightarrow> string \<Rightarrow> constraint_conflict \<Rightarrow> bool" where
  "is_mismatch cap field (StateMismatch c f _ _) = (c = cap \<and> f = field)"
| "is_mismatch cap field (RangeWidening _ _ _ _) = False"

definition range_conflicts :: "policy_rule list \<Rightarrow> string \<Rightarrow> range_rule \<Rightarrow> constraint_conflict list" where
  "range_conflicts module_rules cap d =
    map (\<lambda>m. RangeWidening cap (rr_field d) (rr_min m, rr_max m) (rr_min d, rr_max d))
      (filter (widens d) (range_counterparts module_rules cap (rr_field d)))"

definition state_conflicts :: "policy_rule list \<Rightarrow> string \<Rightarrow> state_rule \<Rightarrow> constraint_conflict list" where
  "state_conflicts module_rules cap d =
    map (\<lambda>m. StateMismatch cap (sr_field d) (sr_equals m) (sr_equals d))
      (filter (\<lambda>m. \<not> js_strict_eq (sr_equals m) (sr_equals d)) (state_counterparts module_rules cap (sr_field d)))"

definition merge_deployment ::
  "policy_rule list \<Rightarrow> policy_rule list \<times> constraint_conflict list \<Rightarrow> policy_rule \<Rightarrow>
    policy_rule list \<times> constraint_conflict list" where
  "merge_deployment module_rules acc d =
    (case pr_body d of
      NumericRange dr \<Rightarrow>
        (let new = range_conflicts module_rules (pr_capability d) dr
         in (if new = [] then fst acc @ [configured d] else fst acc, snd acc @ new))
    | StateEquals ds \<Rightarrow>
        (let conflicts = snd acc @ state_conflicts module_rules (pr_capability d) ds
         in (if list_ex (is_mismatch (pr_capability d) (sr_field ds)) conflicts then fst acc
             else fst acc @ [configured d], conflicts))
    | _ \<Rightarrow> (fst acc @ [configured d], snd acc))"

definition mergeModuleAndDeploymentRules ::
  "policy_rule list \<Rightarrow> policy_rule list \<Rightarrow> policy_rule list \<times> constraint_conflict list" where
  "mergeModuleAndDeploymentRules module_rules deploy = foldl (merge_deployment module_rules) (module_rules, []) deploy"

subsection \<open>Lemmas\<close>

lemma range_counterparts_set:
  "m \<in> set (range_counterparts rs cap field) \<longleftrightarrow>
    (\<exists>r\<in>set rs. pr_body r = NumericRange m \<and> pr_capability r = cap \<and> rr_field m = field)"
  by (induction rs) (auto split: rule_body.splits)

lemma state_counterparts_set:
  "m \<in> set (state_counterparts rs cap field) \<longleftrightarrow>
    (\<exists>r\<in>set rs. pr_body r = StateEquals m \<and> pr_capability r = cap \<and> sr_field m = field)"
  by (induction rs) (auto split: rule_body.splits)

text \<open>What one deployment rule may add to a module, and the conflict that names its field.\<close>

definition compatible :: "policy_rule list \<Rightarrow> policy_rule \<Rightarrow> bool" where
  "compatible module_rules d =
    (case pr_body d of
      NumericRange dr \<Rightarrow>
        \<forall>m\<in>set (range_counterparts module_rules (pr_capability d) (rr_field dr)). \<not> widens dr m
    | StateEquals ds \<Rightarrow>
        \<forall>m\<in>set (state_counterparts module_rules (pr_capability d) (sr_field ds)).
          js_strict_eq (sr_equals m) (sr_equals ds)
    | _ \<Rightarrow> True)"

fun conflict_field :: "constraint_conflict \<Rightarrow> string \<times> string" where
  "conflict_field (RangeWidening c f _ _) = (c, f)"
| "conflict_field (StateMismatch c f _ _) = (c, f)"

definition merge_inv ::
  "policy_rule list \<Rightarrow> policy_rule list \<Rightarrow> policy_rule list \<times> constraint_conflict list \<Rightarrow> bool" where
  "merge_inv module_rules seen_rules acc \<longleftrightarrow>
    (\<exists>extra. fst acc = module_rules @ extra \<and>
      (\<forall>e\<in>set extra. compatible module_rules e \<and> (\<exists>d\<in>set seen_rules. e = configured d))) \<and>
    (\<forall>d\<in>set seen_rules. configured d \<in> set (fst acc) \<or>
      (\<exists>c\<in>set (snd acc). Some (snd (conflict_field c)) = ruleKindField (pr_body d) \<and>
        fst (conflict_field c) = pr_capability d))"

lemma configured_body [simp]: "pr_body (configured d) = pr_body d" "pr_capability (configured d) = pr_capability d"
  by (simp_all add: configured_def)

lemma compatible_configured: "compatible module_rules (configured d) = compatible module_rules d"
  by (simp add: compatible_def split: rule_body.split)

lemma merge_invI:
  assumes "fst acc = module_rules @ extra"
    and "\<And>e. e \<in> set extra \<Longrightarrow> compatible module_rules e"
    and "\<And>e. e \<in> set extra \<Longrightarrow> \<exists>d\<in>set seen_rules. e = configured d"
    and "\<And>d. d \<in> set seen_rules \<Longrightarrow> configured d \<in> set (fst acc) \<or>
      (\<exists>c\<in>set (snd acc). Some (snd (conflict_field c)) = ruleKindField (pr_body d) \<and>
        fst (conflict_field c) = pr_capability d)"
  shows "merge_inv module_rules seen_rules acc"
  using assms unfolding merge_inv_def by blast

text \<open>The two ways a deployment rule ends: added, or in conflict; conflicts only grow.\<close>

lemma merge_deployment_cases:
  obtains more where "compatible module_rules d"
      "merge_deployment module_rules acc d = (fst acc @ [configured d], snd acc @ more)"
  | more c where "c \<in> set (snd acc @ more)" "Some (snd (conflict_field c)) = ruleKindField (pr_body d)"
      "fst (conflict_field c) = pr_capability d"
      "merge_deployment module_rules acc d = (fst acc, snd acc @ more)"
proof (cases "pr_body d")
  case (NumericRange dr)
  show thesis
  proof (cases "range_conflicts module_rules (pr_capability d) dr")
    case Nil
    with NumericRange show thesis
      by (intro that(1)[of "[]"])
        (auto simp: merge_deployment_def range_conflicts_def filter_empty_conv compatible_def)
  next
    case (Cons c cs)
    then have "c \<in> set (range_conflicts module_rules (pr_capability d) dr)"
      by simp
    then have "conflict_field c = (pr_capability d, rr_field dr)"
      by (auto simp: range_conflicts_def)
    with NumericRange Cons show thesis
      by (intro that(2)[of c "range_conflicts module_rules (pr_capability d) dr"])
        (auto simp: merge_deployment_def)
  qed
next
  case (StateEquals ds)
  let ?new = "state_conflicts module_rules (pr_capability d) ds"
  show thesis
  proof (cases "list_ex (is_mismatch (pr_capability d) (sr_field ds)) (snd acc @ ?new)")
    case True
    then obtain c where "c \<in> set (snd acc @ ?new)" "is_mismatch (pr_capability d) (sr_field ds) c"
      by (auto simp: list_ex_iff)
    with StateEquals True show thesis
      by (intro that(2)[of c ?new]) (cases c; auto simp: merge_deployment_def Let_def)+
  next
    case False
    moreover have "compatible module_rules d"
    proof -
      have "\<forall>c\<in>set ?new. \<not> is_mismatch (pr_capability d) (sr_field ds) c"
        using False by (auto simp: list_ex_iff)
      then show ?thesis
        using StateEquals by (fastforce simp: state_conflicts_def compatible_def)
    qed
    ultimately show thesis
      using StateEquals by (intro that(1)[of ?new]) (simp_all add: merge_deployment_def Let_def)
  qed
qed (rule that(1)[of "[]"], simp_all add: merge_deployment_def compatible_def)+

lemma merge_inv_step:
  assumes "merge_inv module_rules seen_rules acc"
  shows "merge_inv module_rules (seen_rules @ [d]) (merge_deployment module_rules acc d)"
proof -
  obtain extra where extra: "fst acc = module_rules @ extra"
    "\<forall>e\<in>set extra. compatible module_rules e \<and> (\<exists>d\<in>set seen_rules. e = configured d)"
    using assms unfolding merge_inv_def by blast
  have seen: "configured x \<in> set (fst acc) \<or>
      (\<exists>c\<in>set (snd acc). Some (snd (conflict_field c)) = ruleKindField (pr_body x) \<and>
        fst (conflict_field c) = pr_capability x)" if "x \<in> set seen_rules" for x
    using assms that unfolding merge_inv_def by blast
  show ?thesis
  proof (rule merge_deployment_cases[of module_rules d acc])
    fix more
    assume a: "compatible module_rules d"
      "merge_deployment module_rules acc d = (fst acc @ [configured d], snd acc @ more)"
    show ?thesis
      unfolding a(2)
      by (rule merge_invI[of _ _ "extra @ [configured d]"]) (use extra a(1) seen in \<open>auto simp: compatible_configured\<close>)
  next
    fix more c
    assume a: "c \<in> set (snd acc @ more)" "Some (snd (conflict_field c)) = ruleKindField (pr_body d)"
      "fst (conflict_field c) = pr_capability d"
      "merge_deployment module_rules acc d = (fst acc, snd acc @ more)"
    show ?thesis
      unfolding a(4)
      by (rule merge_invI[of _ _ extra]) (use extra a(1-3) seen in auto)
  qed
qed

lemma merge_inv_run:
  "merge_inv module_rules seen_rules acc \<Longrightarrow>
    merge_inv module_rules (seen_rules @ ds) (foldl (merge_deployment module_rules) acc ds)"
proof (induction ds arbitrary: seen_rules acc)
  case (Cons d ds)
  then show ?case
    using Cons.IH[OF merge_inv_step[OF Cons.prems, of d]] by simp
qed simp

lemma merged_rules_accept:
  assumes "mergeModuleAndDeploymentRules module_rules deploy = (rules, conflicts)"
    and "evaluatePolicies rules ctx wall = Inr ()"
  shows "evaluatePolicies module_rules ctx wall = Inr ()"
proof -
  have "merge_inv module_rules [] (module_rules, [])"
    by (simp add: merge_inv_def)
  from merge_inv_run[OF this, of deploy] have "merge_inv module_rules deploy (rules, conflicts)"
    using assms(1) by (simp add: mergeModuleAndDeploymentRules_def)
  then show ?thesis
    using assms(2) unfolding merge_inv_def by (auto simp: evaluatePolicies_append)
qed

subsection \<open>Properties\<close>

text \<open>a deployment can only tighten. The merged rules are the module's rules followed by deployment
  rules none of which widens a module range or contradicts a module precondition; every deployment
  rule is either among them or reported as a conflict on its capability and field; and whatever the
  merged baseline rules accept, the module's rules accept.\<close>

theorem deployment_only_tightens:
  assumes "mergeModuleAndDeploymentRules module_rules deploy = (rules, conflicts)"
  shows "(\<exists>extra. rules = module_rules @ extra \<and>
      (\<forall>e\<in>set extra. compatible module_rules e \<and> (\<exists>d\<in>set deploy. e = configured d))) \<and>
    (\<forall>d\<in>set deploy. configured d \<in> set rules \<or>
      (\<exists>c\<in>set conflicts. Some (snd (conflict_field c)) = ruleKindField (pr_body d) \<and>
        fst (conflict_field c) = pr_capability d)) \<and>
    (evaluatePolicies rules ctx wall = Inr () \<longrightarrow> evaluatePolicies module_rules ctx wall = Inr ())"
proof -
  have "merge_inv module_rules [] (module_rules, [])"
    by (simp add: merge_inv_def)
  from merge_inv_run[OF this, of deploy] have "merge_inv module_rules deploy (rules, conflicts)"
    using assms by (simp add: mergeModuleAndDeploymentRules_def)
  then show ?thesis
    unfolding merge_inv_def by (auto simp: evaluatePolicies_append)
qed

theorem deployment_only_tightens_witness:
  "\<exists>rules conflicts. mergeModuleAndDeploymentRules [wit_range 100] [wit_range 200, wit_range 50] = (rules, conflicts) \<and>
    rules = [wit_range 100, configured (wit_range 50)] \<and> length conflicts = 1 \<and>
    evaluatePolicies [wit_range 100] (wit_context 40) 0 = Inr ()"
proof -
  obtain rules conflicts where
    m: "mergeModuleAndDeploymentRules [wit_range 100] [wit_range 200, wit_range 50] = (rules, conflicts)"
    by fastforce
  have r: "rules = [wit_range 100, configured (wit_range 50)] \<and> length conflicts = 1"
    using m by (auto simp: mergeModuleAndDeploymentRules_def merge_deployment_def wit_range_def plain_rule_def
        range_conflicts_def widens_def Let_def)
  have "evaluatePolicies rules (wit_context 40) 0 = Inr ()"
    using r by (simp add: wit_range_def plain_rule_def configured_def wit_context_def evaluate_rule_def
        evaluateNumericRange_def ownprop_def evaluatePolicies.simps)
  with m r deployment_only_tightens[OF m, of "wit_context 40" 0] show ?thesis
    by blast
qed

end
