(* ===== verification/Operations.thy ===== *)
theory Operations
  imports Idempotency Journal Errors
begin

text \<open>
  The operation lifecycle, \<open>packages/core/src/operation/operationManager.ts\<close>. Operation
  objects live in a heap (\<open>om_heap\<close>, a reference is an index) because the map of operations and
  the closures of \<open>start\<close> share them: an operation that left the map is still mutated by its
  closure. Every synchronous stretch between two \<open>await\<close>s is one step, so every interleaving
  that the event loop allows is a sequence of steps. Clock readings, random id suffixes and the
  outcome of the device's \<open>run\<close> are arguments of the steps. The recovery from the journal is in
  the theory \<open>Op_Recovery\<close>.
\<close>

subsection \<open>Data\<close>

definition TERMINAL_STATUSES :: "op_status list" where
  "TERMINAL_STATUSES =
    [Completed, Failed, Cancelled, TimedOut, Rejected, RequiresReconciliation, Uncertain, Aborted,
     StopUnconfirmed]"

definition isTerminalOperationStatus :: "op_status \<Rightarrow> bool" where
  "isTerminalOperationStatus s = (s \<in> set TERMINAL_STATUSES)"

datatype op_kind =
    EvRequested | EvStarted | EvProgress | EvCompleted | EvFailed | EvCancelled | EvTimedOut
  | EvRejected | EvReconciled | EvUncertain | EvAborted | EvStopUnconfirmed

datatype reconciliation_resolution = ObservedComplete | ObservedNotDone | Abandoned

record op_progress =
  pg_fraction :: "jsnum option"
  pg_message :: "string option"
  pg_at :: time

text \<open>A record read back from a journal may carry an unknown resolution, here \<open>None\<close>.\<close>

record reconciliation_record =
  rc_resolution :: "reconciliation_resolution option"
  rc_note :: "string option"
  rc_actor :: "string option"
  rc_reconciledAt :: time

record op_snapshot =
  op_id :: string
  op_deviceId :: string
  op_capability :: string
  op_status :: op_status
  op_idempotencyKey :: "string option"
  op_owner :: "string option"
  op_createdAt :: time
  op_startedAt :: "time option"
  op_deadline :: "time option"
  op_cancelRequestedAt :: "time option"
  op_finishedAt :: "time option"
  op_progress :: "op_progress option"
  op_result :: "jsrecord option"
  op_error :: "op_error option"
  op_reconciled :: bool
  op_reconciliation :: "reconciliation_record option"

text \<open>The stored object also has its abort controller: \<open>Some b\<close> once started, \<open>b\<close> when aborted.\<close>

record operation = op_snapshot +
  op_abort :: "bool option"

record op_event =
  ev_kind :: op_kind
  ev_operationId :: string
  ev_deviceId :: string
  ev_capability :: string
  ev_at :: time
  ev_data :: jsrecord

text \<open>
  The closure of \<open>start\<close>: waiting for its microtask, at \<open>await beforeDispatch\<close>, at
  \<open>await run\<close>, at \<open>await afterDispatchBeforeAck\<close> with the result, or finished; and
  whether the deadline timer is armed.
\<close>

datatype run_phase = Scheduled | AwaitingBefore | Dispatched | AwaitingAfter jsrecord | Finished

record op_run =
  rn_phase :: run_phase
  rn_timer :: bool

text \<open>A waiter of \<open>cancel\<close> and \<open>waitFor\<close> wants a snapshot, one of \<open>waitForResult\<close> the result.\<close>

datatype waiter = WSnapshot nat | WResult nat

datatype op_answer = AnsSnapshot op_snapshot | AnsValue jsrecord | AnsError perr

datatype promise = Settled op_answer | Pending nat

datatype op_fault = NotFound | NotUncertain op_status | InvalidProgress | TypeError

record op_manager =
  om_heap :: "operation list"
  om_operations :: "(string, nat) jmap"
  om_waiters :: "(string, waiter list) jmap"
  om_listeners :: "(string, nat) jmap"
  om_sets :: "nat list list"
  om_sequence :: nat
  om_store :: idem_store
  om_journal :: "op_kind journal option"
  om_numText :: "jsnum \<Rightarrow> string"
  om_retentionMs :: time
  om_maxOperations :: nat
  om_runs :: "(nat, op_run) jmap"
  om_events :: "op_event list"
  om_answers :: "(nat \<times> op_answer) list"
  om_nextPromise :: nat
  om_delivered :: "(nat \<times> op_progress) list"
  om_uncaught :: nat

record manager_options =
  mo_journal :: "op_kind journal option"
  mo_retentionMs :: "time option"
  mo_maxOperations :: "nat option"

definition OperationManager ::
  "(jsnum \<Rightarrow> string) \<Rightarrow> idem_store option \<Rightarrow> manager_options \<Rightarrow> op_manager" where
  "OperationManager nt store opts =
    \<lparr>om_heap = [], om_operations = [], om_waiters = [], om_listeners = [], om_sets = [], om_sequence = 0,
     om_store = (case store of None \<Rightarrow> BoundedIdempotencyStore None None | Some s \<Rightarrow> s),
     om_journal = mo_journal opts, om_numText = nt,
     om_retentionMs = (case mo_retentionMs opts of None \<Rightarrow> 24 * 60 * 60 * 1000 | Some r \<Rightarrow> r),
     om_maxOperations = (case mo_maxOperations opts of None \<Rightarrow> 10000 | Some n \<Rightarrow> n),
     om_runs = [], om_events = [], om_answers = [], om_nextPromise = 0, om_delivered = [], om_uncaught = 0\<rparr>"

subsection \<open>The heap\<close>

definition cell :: "op_manager \<Rightarrow> nat \<Rightarrow> operation" where
  "cell m r = om_heap m ! r"

definition set_cell :: "nat \<Rightarrow> (operation \<Rightarrow> operation) \<Rightarrow> op_manager \<Rightarrow> op_manager" where
  "set_cell r f m = m\<lparr>om_heap := (om_heap m)[r := f (om_heap m ! r)]\<rparr>"

definition terminal_at :: "op_manager \<Rightarrow> nat \<Rightarrow> bool" where
  "terminal_at m r = isTerminalOperationStatus (op_status (cell m r))"

definition publicSnapshot :: "operation \<Rightarrow> op_snapshot" where
  "publicSnapshot op = op_snapshot.truncate op"

subsection \<open>Events\<close>

definition opt_str :: "string \<Rightarrow> string option \<Rightarrow> jsrecord" where
  "opt_str k v = (case v of None \<Rightarrow> [] | Some s \<Rightarrow> [(k, JStr s)])"

definition error_json :: "op_error \<Rightarrow> jsval" where
  "error_json e = JObj ([(''code'', JStr (oe_code e)), (''message'', JStr (oe_message e)),
    (''retryable'', JBool (oe_retryable e))] @
    (case oe_details e of None \<Rightarrow> [] | Some d \<Rightarrow> [(''details'', JObj d)]))"

definition emit ::
  "op_kind \<Rightarrow> nat \<Rightarrow> time \<Rightarrow> jsrecord \<Rightarrow> op_manager \<Rightarrow> op_manager" where
  "emit kind r now data m =
    (let op = cell m r;
         e = \<lparr>ev_kind = kind, ev_operationId = op_id op, ev_deviceId = op_deviceId op,
              ev_capability = op_capability op, ev_at = now, ev_data = data\<rparr>
     in m\<lparr>om_events := om_events m @ [e],
          om_journal := map_option (\<lambda>j. snd (journal_append (om_numText m) kind (Some (op_deviceId op))
            (Some (op_id op)) data now j)) (om_journal m)\<rparr>)"

subsection \<open>Retention, transition and settlement\<close>

definition stale_terminal :: "op_manager \<Rightarrow> time \<Rightarrow> nat \<Rightarrow> bool" where
  "stale_terminal m now r =
    (terminal_at m r \<and>
     (case op_finishedAt (cell m r) of None \<Rightarrow> False | Some t \<Rightarrow> now - t > om_retentionMs m))"

text \<open>The overflow loop drops the oldest entry while it is terminal and the map is too large.\<close>

fun drop_overflow :: "op_manager \<Rightarrow> (string, nat) jmap \<Rightarrow> (string, nat) jmap" where
  "drop_overflow m [] = []"
| "drop_overflow m (p # ps) =
    (if length (p # ps) > om_maxOperations m then
       (if \<not> terminal_at m (snd p) then p # ps else drop_overflow m ps)
     else p # ps)"

definition retainOperations :: "time \<Rightarrow> op_manager \<Rightarrow> op_manager" where
  "retainOperations now m =
    m\<lparr>om_operations :=
      drop_overflow m (filter (\<lambda>p. \<not> stale_terminal m now (snd p)) (om_operations m))\<rparr>"

definition update_store :: "operation \<Rightarrow> idem_patch \<Rightarrow> time \<Rightarrow> op_manager \<Rightarrow> op_manager" where
  "update_store op patch now m =
    (case op_idempotencyKey op of
      None \<Rightarrow> m
    | Some k \<Rightarrow>
        (if k = '''' then m
         else m\<lparr>om_store := updateUnder (keyFor (op_deviceId op) (op_capability op) (op_owner op) k)
                 patch now (om_store m)\<rparr>))"

definition transition ::
  "nat \<Rightarrow> op_status \<Rightarrow> jsrecord option \<Rightarrow> op_error option \<Rightarrow> time \<Rightarrow> op_manager \<Rightarrow> op_manager" where
  "transition r st res err now m =
    (let m1 = set_cell r (\<lambda>op. op\<lparr>op_status := st, op_finishedAt := Some now,
                op_result := (case res of None \<Rightarrow> op_result op | Some x \<Rightarrow> Some x),
                op_error := (case err of None \<Rightarrow> op_error op | Some x \<Rightarrow> Some x)\<rparr>) m
     in retainOperations now
          (update_store (cell m1 r) \<lparr>pt_status = Some st, pt_result = res, pt_error = err\<rparr> now m1))"

text \<open>How \<open>waitForResult\<close> delivers a terminal snapshot.\<close>

definition error_code_or :: "string \<Rightarrow> op_snapshot \<Rightarrow> string" where
  "error_code_or d s = (case op_error s of None \<Rightarrow> d | Some e \<Rightarrow> oe_code e)"

definition deliver :: "op_snapshot \<Rightarrow> op_answer" where
  "deliver s =
    (case op_status s of
      Completed \<Rightarrow> AnsValue (case op_result s of None \<Rightarrow> [] | Some v \<Rightarrow> v)
    | RequiresReconciliation \<Rightarrow> AnsError (PErr ''OPERATION_REQUIRES_RECONCILIATION'' OPERATION)
    | Uncertain \<Rightarrow> AnsError (PErr ''OPERATION_REQUIRES_RECONCILIATION'' OPERATION)
    | Aborted \<Rightarrow> AnsError (PErr (error_code_or ''OPERATION_ABORTED'' s) OPERATION)
    | StopUnconfirmed \<Rightarrow> AnsError (PErr ''OPERATION_STOP_UNCONFIRMED'' OPERATION)
    | Failed \<Rightarrow> AnsError (PErr (error_code_or ''OPERATION_FAILED'' s) OPERATION)
    | Cancelled \<Rightarrow> AnsError (PErr ''ABORTED'' OPERATION)
    | TimedOut \<Rightarrow> AnsError (PErr ''OPERATION_TIMEOUT'' TIMEOUT)
    | _ \<Rightarrow> AnsError (PErr ''OPERATION_REJECTED'' OPERATION))"

fun answer_waiter :: "op_snapshot \<Rightarrow> waiter \<Rightarrow> nat \<times> op_answer" where
  "answer_waiter s (WSnapshot n) = (n, AnsSnapshot s)"
| "answer_waiter s (WResult n) = (n, deliver s)"

definition waiters_of :: "op_manager \<Rightarrow> string \<Rightarrow> waiter list" where
  "waiters_of m i = (case jget (om_waiters m) i of None \<Rightarrow> [] | Some ws \<Rightarrow> ws)"

text \<open>
  \<open>settle\<close> reads the operation from the map: when it is no longer there, reading its status is
  a \<open>TypeError\<close>, here the answer \<open>False\<close>.
\<close>

definition settle :: "string \<Rightarrow> op_manager \<Rightarrow> bool \<times> op_manager" where
  "settle i m =
    (case jget (om_operations m) i of
      None \<Rightarrow> (False, m)
    | Some r \<Rightarrow>
        if \<not> terminal_at m r then (True, m)
        else (True, m\<lparr>om_waiters := jdelete i (om_waiters m),
               om_answers := om_answers m @
                 map (answer_waiter (publicSnapshot (cell m r))) (waiters_of m i)\<rparr>))"

definition add_waiter :: "string \<Rightarrow> (nat \<Rightarrow> waiter) \<Rightarrow> op_manager \<Rightarrow> promise \<times> op_manager" where
  "add_waiter i w m =
    (Pending (om_nextPromise m),
     m\<lparr>om_waiters := jset i (waiters_of m i @ [w (om_nextPromise m)]) (om_waiters m),
       om_nextPromise := Suc (om_nextPromise m)\<rparr>)"

subsection \<open>Beginning an operation\<close>

record begin_options =
  bo_deviceId :: string
  bo_capability :: string
  bo_owner :: "string option"
  bo_idempotencyKey :: "string option"
  bo_deadline :: "time option"
  bo_timeoutMs :: "time option"

definition op_key :: "nat \<Rightarrow> string \<Rightarrow> string" where
  "op_key n rnd = ''op_'' @ nat_str n @ CHR ''_'' # rnd"

definition alloc :: "operation \<Rightarrow> op_manager \<Rightarrow> op_manager" where
  "alloc op m =
    m\<lparr>om_operations := jset (op_id op) (length (om_heap m)) (om_operations m), om_heap := om_heap m @ [op]\<rparr>"

definition restored_operation :: "tombstone \<Rightarrow> operation" where
  "restored_operation t =
    \<lparr>op_id = ts_operationId t, op_deviceId = ts_deviceId t, op_capability = ts_capability t,
     op_status = ts_status t, op_idempotencyKey = Some (ts_key t), op_owner = ts_owner t,
     op_createdAt = ts_createdAt t, op_startedAt = None, op_deadline = None, op_cancelRequestedAt = None,
     op_finishedAt = Some (ts_lastUsedAt t), op_progress = None, op_result = ts_result t,
     op_error = ts_error t, op_reconciled = False, op_reconciliation = None, op_abort = None\<rparr>"

definition new_operation :: "string \<Rightarrow> begin_options \<Rightarrow> time \<Rightarrow> operation" where
  "new_operation i o' now =
    \<lparr>op_id = i, op_deviceId = bo_deviceId o', op_capability = bo_capability o', op_status = Queued,
     op_idempotencyKey = (if truthy (bo_idempotencyKey o') then bo_idempotencyKey o' else None),
     op_owner = bo_owner o', op_createdAt = now, op_startedAt = None,
     op_deadline = (case bo_deadline o' of Some d \<Rightarrow> Some d
                    | None \<Rightarrow> map_option (\<lambda>t. now + t) (bo_timeoutMs o')),
     op_cancelRequestedAt = None, op_finishedAt = None, op_progress = None, op_result = None,
     op_error = None, op_reconciled = False, op_reconciliation = None, op_abort = None\<rparr>"

text \<open>\<open>start\<close> up to its \<open>queueMicrotask\<close>: the abort controller, the timer, the closure.\<close>

definition start_op :: "nat \<Rightarrow> op_manager \<Rightarrow> op_manager" where
  "start_op r m =
    (let m1 = set_cell r (\<lambda>op. op\<lparr>op_abort := Some False\<rparr>) m
     in m1\<lparr>om_runs := jset r \<lparr>rn_phase = Scheduled, rn_timer = (op_deadline (cell m1 r) \<noteq> None)\<rparr> (om_runs m1)\<rparr>)"

definition fresh_begin :: "begin_options \<Rightarrow> string \<Rightarrow> time \<Rightarrow> op_manager \<Rightarrow> string \<times> op_manager" where
  "fresh_begin o' rnd now m0 =
    (let m = m0\<lparr>om_sequence := Suc (om_sequence m0)\<rparr>;
         i = op_key (om_sequence m) rnd;
         r = length (om_heap m);
         m1 = alloc (new_operation i o' now) m;
         m2 = emit EvRequested r now
                (opt_str ''idempotencyKey'' (bo_idempotencyKey o') @ opt_str ''owner'' (bo_owner o') @
                 [(''capability'', JStr (bo_capability o'))]) m1;
         m3 = (case bo_idempotencyKey o' of
                 None \<Rightarrow> m2
               | Some k \<Rightarrow>
                   if k = '''' then m2
                   else m2\<lparr>om_store := recordUnder
                     (keyFor (bo_deviceId o') (bo_capability o') (bo_owner o') k)
                     (queued_tombstone (bo_deviceId o', bo_capability o', bo_owner o', k) i now) now (om_store m2)\<rparr>)
     in (i, start_op r m3))"

text \<open>The answer is \<open>deduped\<close> and the id of the handle.\<close>

definition begin_op :: "begin_options \<Rightarrow> string \<Rightarrow> time \<Rightarrow> op_manager \<Rightarrow> (bool \<times> string) \<times> op_manager" where
  "begin_op o' rnd now m =
    (case bo_idempotencyKey o' of
      None \<Rightarrow> (let (i, m') = fresh_begin o' rnd now m in ((False, i), m'))
    | Some k \<Rightarrow>
        (if k = '''' then (let (i, m') = fresh_begin o' rnd now m in ((False, i), m'))
         else
           (let (lk, st) = idem_find (bo_deviceId o') (bo_capability o') (bo_owner o') k now (om_store m);
                m1 = m\<lparr>om_store := st\<rparr>
            in if lk_hit lk \<and> truthy (lk_operationId lk) \<and> jhas (om_operations m1) (the (lk_operationId lk))
               then ((True, the (lk_operationId lk)), m1)
               else (case (lk_hit lk, lk_tombstone lk) of
                   (True, Some t) \<Rightarrow> ((True, ts_operationId t), alloc (restored_operation t) m1)
                 | _ \<Rightarrow> (let (i, m') = fresh_begin o' rnd now m1 in ((False, i), m'))))))"

subsection \<open>Reading and waiting\<close>

definition get_operation :: "string \<Rightarrow> op_manager \<Rightarrow> op_snapshot option" where
  "get_operation i m = map_option (\<lambda>r. publicSnapshot (cell m r)) (jget (om_operations m) i)"

definition list_operations :: "string option \<Rightarrow> op_status option \<Rightarrow> op_manager \<Rightarrow> op_snapshot list" where
  "list_operations dev st m =
    map publicSnapshot
      (filter (\<lambda>op. \<not> (truthy dev \<and> Some (op_deviceId op) \<noteq> dev) \<and> \<not> (st \<noteq> None \<and> Some (op_status op) \<noteq> st))
        (map (cell m) (jvalues (om_operations m))))"

definition waitFor :: "string \<Rightarrow> op_manager \<Rightarrow> (op_fault + promise) \<times> op_manager" where
  "waitFor i m =
    (case jget (om_operations m) i of
      None \<Rightarrow> (Inl NotFound, m)
    | Some r \<Rightarrow>
        if terminal_at m r then (Inr (Settled (AnsSnapshot (publicSnapshot (cell m r)))), m)
        else (let (p, m') = add_waiter i WSnapshot m in (Inr p, m')))"

definition getHandle :: "string \<Rightarrow> op_manager \<Rightarrow> op_fault + string" where
  "getHandle i m = (if jhas (om_operations m) i then Inr i else Inl NotFound)"

text \<open>The handle's \<open>waitForResult\<close>; on an operation that left the map it is a \<open>TypeError\<close>.\<close>

definition waitForResult :: "string \<Rightarrow> op_manager \<Rightarrow> (op_fault + promise) \<times> op_manager" where
  "waitForResult i m =
    (case jget (om_operations m) i of
      None \<Rightarrow> (Inl TypeError, m)
    | Some r \<Rightarrow>
        if terminal_at m r then (Inr (Settled (deliver (publicSnapshot (cell m r)))), m)
        else (let (p, m') = add_waiter i WResult m in (Inr p, m')))"

text \<open>Progress listeners: the sets are objects, shared by the map and the unsubscribe closures.\<close>

definition subscribeProgress :: "string \<Rightarrow> nat \<Rightarrow> op_manager \<Rightarrow> (nat \<times> string \<times> nat) \<times> op_manager" where
  "subscribeProgress i l m =
    (let (set_ref, m1) =
       (case jget (om_listeners m) i of
          Some q \<Rightarrow> (q, m)
        | None \<Rightarrow> (length (om_sets m),
            m\<lparr>om_listeners := jset i (length (om_sets m)) (om_listeners m), om_sets := om_sets m @ [[]]\<rparr>))
     in ((set_ref, i, l),
         m1\<lparr>om_sets := (om_sets m1)[set_ref :=
           (if l \<in> set (om_sets m1 ! set_ref) then om_sets m1 ! set_ref else om_sets m1 ! set_ref @ [l])]\<rparr>))"

fun unsubscribeProgress :: "nat \<times> string \<times> nat \<Rightarrow> op_manager \<Rightarrow> op_manager" where
  "unsubscribeProgress (q, i, l) m =
    (let ls = removeAll l (om_sets m ! q);
         m1 = m\<lparr>om_sets := (om_sets m)[q := ls]\<rparr>
     in if ls = [] then m1\<lparr>om_listeners := jdelete i (om_listeners m1)\<rparr> else m1)"

subsection \<open>Cancellation and reconciliation\<close>

definition cancelled_error :: "string option \<Rightarrow> op_error" where
  "cancelled_error reason =
    \<lparr>oe_code = ''OPERATION_CANCELLED'',
     oe_message = (case reason of None \<Rightarrow> ''Cancelled before start.'' | Some s \<Rightarrow> s),
     oe_retryable = False,
     oe_details = Some [(''stopConfirmed'', JBool True), (''queued'', JBool True)]\<rparr>"

definition cancel_op :: "string \<Rightarrow> string option \<Rightarrow> time \<Rightarrow> op_manager \<Rightarrow> (op_fault + promise) \<times> op_manager" where
  "cancel_op i reason now m =
    (case jget (om_operations m) i of
      None \<Rightarrow> (Inl NotFound, m)
    | Some r \<Rightarrow>
        if terminal_at m r then (Inr (Settled (AnsSnapshot (publicSnapshot (cell m r)))), m)
        else if op_status (cell m r) = Queued then
          (let m1 = transition r Cancelled None (Some (cancelled_error reason)) now m;
               m2 = emit EvCancelled r now (opt_str ''reason'' reason @ [(''stopConfirmed'', JBool True)]) m1;
               (ok, m3) = settle i m2
           in if ok then (Inr (Settled (AnsSnapshot (publicSnapshot (cell m3 r)))), m3) else (Inl TypeError, m3))
        else
          (let m1 = set_cell r (\<lambda>op. op\<lparr>op_status := Cancelling, op_cancelRequestedAt := Some now,
                 op_abort := map_option (\<lambda>_. True) (op_abort op)\<rparr>) m;
               (p, m2) = add_waiter i WSnapshot m1
           in (Inr p, m2)))"

record reconcile_options =
  ro_resolution :: reconciliation_resolution
  ro_note :: "string option"
  ro_actor :: "string option"
  ro_result :: "jsrecord option"

fun resolution_str :: "reconciliation_resolution \<Rightarrow> string" where
  "resolution_str ObservedComplete = ''observedComplete''"
| "resolution_str ObservedNotDone = ''observedNotDone''"
| "resolution_str Abandoned = ''abandoned''"

definition note_or :: "string \<Rightarrow> string option \<Rightarrow> string" where
  "note_or d note = (case note of None \<Rightarrow> d | Some s \<Rightarrow> s)"

fun status_str :: "op_status \<Rightarrow> string" where
  "status_str Queued = ''queued''"
| "status_str Running = ''running''"
| "status_str Cancelling = ''cancelling''"
| "status_str Completed = ''completed''"
| "status_str Failed = ''failed''"
| "status_str Cancelled = ''cancelled''"
| "status_str TimedOut = ''timed_out''"
| "status_str Rejected = ''rejected''"
| "status_str RequiresReconciliation = ''requires_reconciliation''"
| "status_str Uncertain = ''uncertain''"
| "status_str Aborted = ''aborted''"
| "status_str StopUnconfirmed = ''stop_unconfirmed''"

text \<open>An optional string spread only when it is truthy.\<close>

definition truthy_str :: "string \<Rightarrow> string option \<Rightarrow> jsrecord" where
  "truthy_str k v = (if truthy v then opt_str k v else [])"

definition resolve_operation :: "reconcile_options \<Rightarrow> time \<Rightarrow> operation \<Rightarrow> operation" where
  "resolve_operation o' now op0 =
    (let op = op0\<lparr>op_reconciled := True,
           op_reconciliation := Some \<lparr>rc_resolution = Some (ro_resolution o'), rc_note = ro_note o',
             rc_actor = ro_actor o', rc_reconciledAt = now\<rparr>,
           op_finishedAt := Some now\<rparr>
     in case ro_resolution o' of
          ObservedComplete \<Rightarrow>
            op\<lparr>op_status := Completed, op_error := None,
               op_result := Some (case ro_result o' of Some v \<Rightarrow> v
                 | None \<Rightarrow> [(''reconciled'', JBool True), (''resolution'', JStr ''observedComplete'')] @
                     truthy_str ''note'' (ro_note o'))\<rparr>
        | ObservedNotDone \<Rightarrow>
            op\<lparr>op_status := Cancelled,
               op_error := Some \<lparr>oe_code = ''OPERATION_RECONCILED_NOT_DONE'',
                 oe_message = note_or ''Reconciled as not done by operator.'' (ro_note o'), oe_retryable = False,
                 oe_details = Some ([(''resolution'', JStr ''observedNotDone'')] @ truthy_str ''actor'' (ro_actor o'))\<rparr>\<rparr>
        | Abandoned \<Rightarrow>
            op\<lparr>op_status := Failed,
               op_error := Some \<lparr>oe_code = ''OPERATION_ABANDONED'',
                 oe_message = note_or ''Operation abandoned during reconciliation.'' (ro_note o'), oe_retryable = False,
                 oe_details = Some ([(''resolution'', JStr ''abandoned'')] @ truthy_str ''actor'' (ro_actor o'))\<rparr>\<rparr>)"

definition needs_reconciliation :: "op_status \<Rightarrow> bool" where
  "needs_reconciliation s = (\<not> (s \<noteq> RequiresReconciliation \<and> s \<noteq> Uncertain \<and> s \<noteq> StopUnconfirmed))"

definition reconcile :: "string \<Rightarrow> reconcile_options \<Rightarrow> time \<Rightarrow> op_manager \<Rightarrow> (op_fault + op_snapshot) \<times> op_manager" where
  "reconcile i o' now m =
    (case jget (om_operations m) i of
      None \<Rightarrow> (Inl NotFound, m)
    | Some r \<Rightarrow>
        if \<not> needs_reconciliation (op_status (cell m r)) then (Inl (NotUncertain (op_status (cell m r))), m)
        else
          (let m1 = set_cell r (resolve_operation o' now) m;
               op = cell m1 r;
               m2 = update_store op \<lparr>pt_status = Some (op_status op), pt_result = op_result op,
                      pt_error = op_error op\<rparr> now m1;
               m3 = emit EvReconciled r now
                 ([(''resolution'', JStr (resolution_str (ro_resolution o')))] @ opt_str ''note'' (ro_note o') @
                  opt_str ''actor'' (ro_actor o') @ [(''status'', JStr (status_str (op_status op)))] @
                  (case op_result op of None \<Rightarrow> [] | Some v \<Rightarrow> [(''result'', JObj v)]) @
                  (case op_error op of None \<Rightarrow> [] | Some e \<Rightarrow> [(''error'', error_json e)])) m2;
               (ok, m4) = settle i m3
           in if \<not> ok then (Inl TypeError, m4)
              else (let m5 = retainOperations now m4 in (Inr (publicSnapshot (cell m5 r)), m5))))"

subsection \<open>The closure of start\<close>

definition set_run :: "nat \<Rightarrow> (op_run \<Rightarrow> op_run) \<Rightarrow> op_manager \<Rightarrow> op_manager" where
  "set_run r f m = (case jget (om_runs m) r of None \<Rightarrow> m | Some c \<Rightarrow> m\<lparr>om_runs := jset r (f c) (om_runs m)\<rparr>)"

definition phase_of :: "op_manager \<Rightarrow> nat \<Rightarrow> run_phase" where
  "phase_of m r = (case jget (om_runs m) r of None \<Rightarrow> Finished | Some c \<Rightarrow> rn_phase c)"

definition goto_phase :: "nat \<Rightarrow> run_phase \<Rightarrow> op_manager \<Rightarrow> op_manager" where
  "goto_phase r p m = set_run r (\<lambda>c. c\<lparr>rn_phase := p\<rparr>) m"

text \<open>The closure ends: the timer is cleared.\<close>

definition finish_run :: "nat \<Rightarrow> op_manager \<Rightarrow> op_manager" where
  "finish_run r m = set_run r (\<lambda>c. c\<lparr>rn_phase := Finished, rn_timer := False\<rparr>) m"

definition disarm :: "nat \<Rightarrow> op_manager \<Rightarrow> op_manager" where
  "disarm r m = set_run r (\<lambda>c. c\<lparr>rn_timer := False\<rparr>) m"

text \<open>A \<open>settle\<close> outside the \<open>try\<close> block: its \<open>TypeError\<close> is an unhandled rejection.\<close>

definition settle_uncaught :: "nat \<Rightarrow> op_manager \<Rightarrow> op_manager" where
  "settle_uncaught r m =
    (let (ok, m') = settle (op_id (cell m r)) m
     in if ok then m' else m'\<lparr>om_uncaught := Suc (om_uncaught m')\<rparr>)"

text \<open>
  A \<open>settle\<close> inside the \<open>try\<close> block: its \<open>TypeError\<close> ends in the \<open>catch\<close>, where the
  operation is terminal, so nothing more happens.
\<close>

definition settle_caught :: "nat \<Rightarrow> op_manager \<Rightarrow> op_manager" where
  "settle_caught r m = snd (settle (op_id (cell m r)) m)"

definition microtask :: "nat \<Rightarrow> op_manager \<Rightarrow> op_manager" where
  "microtask r m =
    (if phase_of m r \<noteq> Scheduled then m
     else if terminal_at m r then finish_run r m
     else goto_phase r AwaitingBefore m)"

definition before_done :: "nat \<Rightarrow> time \<Rightarrow> op_manager \<Rightarrow> op_manager" where
  "before_done r now m =
    (if phase_of m r \<noteq> AwaitingBefore then m
     else
       (let m1 = set_cell r (\<lambda>op. op\<lparr>op_status := Running, op_startedAt := Some now\<rparr>) m
        in goto_phase r Dispatched (emit EvStarted r now [] m1)))"

definition plain_error :: "string \<Rightarrow> string \<Rightarrow> bool \<Rightarrow> op_error" where
  "plain_error code msg retry =
    \<lparr>oe_code = code, oe_message = msg, oe_retryable = retry, oe_details = None\<rparr>"

definition before_failed :: "nat \<Rightarrow> string \<Rightarrow> time \<Rightarrow> op_manager \<Rightarrow> op_manager" where
  "before_failed r msg now m =
    (if phase_of m r \<noteq> AwaitingBefore then m
     else
       (let m1 = finish_run r m;
            m2 = transition r Aborted None
              (Some (plain_error ''OPERATION_ABORTED_BEFORE_DISPATCH'' msg False)) now m1
        in settle_uncaught r (emit EvAborted r now [] m2)))"

text \<open>\<open>run\<close> returned: a terminal operation is left as it is.\<close>

definition run_done :: "nat \<Rightarrow> jsrecord \<Rightarrow> op_manager \<Rightarrow> op_manager" where
  "run_done r res m =
    (if phase_of m r \<noteq> Dispatched then m
     else if terminal_at m r then finish_run r m
     else goto_phase r (AwaitingAfter res) m)"

definition after_done :: "nat \<Rightarrow> time \<Rightarrow> op_manager \<Rightarrow> op_manager" where
  "after_done r now m =
    (case phase_of m r of
      AwaitingAfter res \<Rightarrow>
        (let m1 = transition r Completed (Some res) None now m
         in finish_run r (settle_caught r (emit EvCompleted r now [(''result'', JObj res)] m1)))
    | _ \<Rightarrow> m)"

definition after_failed :: "nat \<Rightarrow> string \<Rightarrow> time \<Rightarrow> op_manager \<Rightarrow> op_manager" where
  "after_failed r msg now m =
    (case phase_of m r of
      AwaitingAfter res \<Rightarrow>
        (let m1 = transition r RequiresReconciliation None
               (Some (plain_error ''OPERATION_REQUIRES_RECONCILIATION'' msg False)) now m
         in finish_run r (settle_caught r (emit EvUncertain r now [] m1)))
    | _ \<Rightarrow> m)"

text \<open>
  What a run throws: whether it is a \<open>StopUnconfirmedError\<close> by class or name, its \<open>code\<close>
  property, whether it is an \<open>AbortedError\<close> or named \<open>AbortError\<close>, and the thrown value.
\<close>

record run_error =
  re_stopUnconfirmed :: bool
  re_code :: "string option"
  re_aborted :: bool
  re_thrown :: thrown

fun thrown_message :: "thrown \<Rightarrow> string option" where
  "thrown_message (ThrownStructured e) = Some (ps_message e)"
| "thrown_message (ThrownPinout c msg) = Some msg"
| "thrown_message (ThrownError msg) = Some msg"
| "thrown_message (ThrownOther s) = None"

fun thrown_text :: "thrown \<Rightarrow> string" where
  "thrown_text (ThrownOther s) = s"
| "thrown_text t = (case thrown_message t of None \<Rightarrow> '''' | Some msg \<Rightarrow> msg)"

definition isStopUnconfirmed :: "run_error \<Rightarrow> bool" where
  "isStopUnconfirmed e = (re_stopUnconfirmed e \<or> re_code e = Some ''STOP_UNCONFIRMED'')"

fun category_str :: "error_category \<Rightarrow> string" where
  "category_str CONFIG = ''CONFIG''"
| "category_str VALIDATION = ''VALIDATION''"
| "category_str TRANSPORT = ''TRANSPORT''"
| "category_str PROTOCOL = ''PROTOCOL''"
| "category_str DEVICE = ''DEVICE''"
| "category_str CAPABILITY = ''CAPABILITY''"
| "category_str POLICY = ''POLICY''"
| "category_str SAFETY = ''SAFETY''"
| "category_str LEASE = ''LEASE''"
| "category_str OPERATION = ''OPERATION''"
| "category_str TIMEOUT = ''TIMEOUT''"
| "category_str AUTH = ''AUTH''"
| "category_str MODULE = ''MODULE''"
| "category_str GENERATOR = ''GENERATOR''"
| "category_str UNSUPPORTED = ''UNSUPPORTED''"

definition structured_json :: "structured_error \<Rightarrow> jsval" where
  "structured_json e =
    JObj ([(''code'', JStr (se_code e)), (''category'', JStr (category_str (se_category e))),
           (''message'', JStr (se_message e)), (''retryable'', JBool (se_retryable e))] @
          opt_str ''device'' (se_device e) @ opt_str ''capability'' (se_capability e) @
          opt_str ''operation'' (se_operation e) @
          (case se_details e of None \<Rightarrow> [] | Some d \<Rightarrow> [(''details'', JObj d)]))"

definition stop_error :: "string \<Rightarrow> jsrecord \<Rightarrow> op_error" where
  "stop_error msg extra =
    \<lparr>oe_code = ''OPERATION_STOP_UNCONFIRMED'', oe_message = msg, oe_retryable = False,
     oe_details = Some ([(''stopConfirmed'', JBool False)] @ extra)\<rparr>"

definition run_failed :: "nat \<Rightarrow> run_error \<Rightarrow> time \<Rightarrow> op_manager \<Rightarrow> op_manager" where
  "run_failed r e now m =
    (if phase_of m r \<noteq> Dispatched then m
     else if terminal_at m r then finish_run r m
     else
       (let op = cell m r;
            structured = toStructuredError (re_thrown e)
              \<lparr>ec_device = Some (op_deviceId op), ec_capability = Some (op_capability op), ec_operation = Some (op_id op)\<rparr>;
            m1 = finish_run r m
        in settle_uncaught r
          (if op_abort op = Some True then
             (if isStopUnconfirmed e then
                (let err = stop_error (case thrown_message (re_thrown e) of Some msg \<Rightarrow> msg
                         | None \<Rightarrow> ''Cancellation requested but device failed to confirm stop.'') []
                 in emit EvStopUnconfirmed r now
                      [(''reason'', JStr (thrown_text (re_thrown e))), (''error'', error_json err)]
                      (transition r StopUnconfirmed None (Some err) now m1))
              else if re_aborted e then
                (let err = \<lparr>oe_code = ''OPERATION_CANCELLED'', oe_message = ''Operation cancelled.'', oe_retryable = True,
                            oe_details = Some [(''stopConfirmed'', JBool True)]\<rparr>
                 in emit EvCancelled r now
                      [(''reason'', JStr (thrown_text (re_thrown e))), (''error'', error_json err)]
                      (transition r Cancelled None (Some err) now m1))
              else
                (let err = stop_error (''Cancellation requested but device failed: '' @ se_message structured)
                         [(''cause'', structured_json structured)]
                 in emit EvStopUnconfirmed r now
                      [(''code'', JStr ''OPERATION_STOP_UNCONFIRMED''), (''error'', error_json err)]
                      (transition r StopUnconfirmed None (Some err) now m1)))
           else
             (let err = \<lparr>oe_code = se_code structured, oe_message = se_message structured,
                         oe_retryable = se_retryable structured,
                         oe_details = (case se_details structured of None \<Rightarrow> None | Some d \<Rightarrow> if d = [] then None else Some d)\<rparr>
              in emit EvFailed r now [(''code'', JStr (se_code structured)), (''error'', error_json err)]
                   (transition r Failed None (Some err) now m1)))))"

text \<open>The deadline timer: only a running operation times out.\<close>

definition deadline_fires :: "nat \<Rightarrow> time \<Rightarrow> op_manager \<Rightarrow> op_manager" where
  "deadline_fires r now m =
    (case jget (om_runs m) r of
      None \<Rightarrow> m
    | Some c \<Rightarrow>
        if \<not> rn_timer c then m
        else
          (let m0 = disarm r m
           in if \<not> terminal_at m0 r \<and> op_status (cell m0 r) = Running then
                (let err = plain_error ''OPERATION_TIMEOUT'' ''Operation exceeded its deadline.'' True;
                     m1 = set_cell r (\<lambda>op. op\<lparr>op_abort := map_option (\<lambda>_. True) (op_abort op)\<rparr>) m0;
                     m2 = transition r TimedOut None (Some err) now m1
                 in settle_uncaught r (emit EvTimedOut r now [(''error'', error_json err)] m2))
              else m0))"

text \<open>\<open>reportProgress\<close> of the context, callable since \<open>run\<close> was called.\<close>

definition invalid_fraction :: "jsnum option \<Rightarrow> bool" where
  "invalid_fraction f = (case f of None \<Rightarrow> False
    | Some x \<Rightarrow> js_less x (Fin 0) \<or> js_less (Fin 1) x \<or> \<not> is_finite x)"

definition started_phase :: "run_phase \<Rightarrow> bool" where
  "started_phase p = (case p of Scheduled \<Rightarrow> False | AwaitingBefore \<Rightarrow> False | _ \<Rightarrow> True)"

definition reportProgress ::
  "nat \<Rightarrow> jsnum option \<Rightarrow> string option \<Rightarrow> time \<Rightarrow> op_manager \<Rightarrow> (op_fault + unit) \<times> op_manager" where
  "reportProgress r fraction msg now m =
    (if terminal_at m r then (Inr (), m)
     else if invalid_fraction fraction then (Inl InvalidProgress, m)
     else
       (let p = \<lparr>pg_fraction = fraction, pg_message = msg, pg_at = now\<rparr>;
            m1 = set_cell r (\<lambda>op. op\<lparr>op_progress := Some p\<rparr>) m;
            m2 = emit EvProgress r now
              ([(''fraction'', case fraction of None \<Rightarrow> JNull | Some x \<Rightarrow> JNum x)] @ opt_str ''message'' msg) m1
        in (Inr (), case jget (om_listeners m2) (op_id (cell m2 r)) of
              None \<Rightarrow> m2
            | Some q \<Rightarrow> m2\<lparr>om_delivered := om_delivered m2 @ map (\<lambda>l. (l, p)) (om_sets m2 ! q)\<rparr>)))"

subsection \<open>Calls and runs\<close>

datatype op_call =
    CBegin begin_options string time
  | CCancel string "string option" time
  | CReconcile string reconcile_options time
  | CWaitFor string
  | CWaitForResult string
  | CSubscribe string nat
  | CUnsubscribe nat string nat
  | CMicrotask nat
  | CBeforeDone nat time
  | CBeforeFailed nat string time
  | CRunDone nat jsrecord
  | CAfterDone nat time
  | CAfterFailed nat string time
  | CRunFailed nat run_error time
  | CDeadline nat time
  | CProgress nat "jsnum option" "string option" time

fun op_apply :: "op_manager \<Rightarrow> op_call \<Rightarrow> op_manager" where
  "op_apply m (CBegin o' rnd t) = snd (begin_op o' rnd t m)"
| "op_apply m (CCancel i reason t) = snd (cancel_op i reason t m)"
| "op_apply m (CReconcile i o' t) = snd (reconcile i o' t m)"
| "op_apply m (CWaitFor i) = snd (waitFor i m)"
| "op_apply m (CWaitForResult i) = snd (waitForResult i m)"
| "op_apply m (CSubscribe i l) = snd (subscribeProgress i l m)"
| "op_apply m (CUnsubscribe q i l) = (if q < length (om_sets m) then unsubscribeProgress (q, i, l) m else m)"
| "op_apply m (CMicrotask r) = microtask r m"
| "op_apply m (CBeforeDone r t) = before_done r t m"
| "op_apply m (CBeforeFailed r msg t) = before_failed r msg t m"
| "op_apply m (CRunDone r res) = run_done r res m"
| "op_apply m (CAfterDone r t) = after_done r t m"
| "op_apply m (CAfterFailed r msg t) = after_failed r msg t m"
| "op_apply m (CRunFailed r e t) = run_failed r e t m"
| "op_apply m (CDeadline r t) = deadline_fires r t m"
| "op_apply m (CProgress r f msg t) =
    (if jhas (om_runs m) r \<and> started_phase (phase_of m r) then snd (reportProgress r f msg t m) else m)"

definition op_run_calls :: "op_manager \<Rightarrow> op_call list \<Rightarrow> op_manager" where
  "op_run_calls m cs = foldl op_apply m cs"

lemma op_run_calls_simps [simp]:
  "op_run_calls m [] = m"
  "op_run_calls m (c # cs) = op_run_calls (op_apply m c) cs"
  by (simp_all add: op_run_calls_def)

inductive op_reachable :: "op_manager \<Rightarrow> bool" where
  init: "op_reachable (OperationManager nt st opts)"
| step: "op_reachable m \<Longrightarrow> op_reachable (op_apply m c)"

subsection \<open>Frames\<close>

named_theorems op_frames "what the building blocks leave alone"

lemma set_cell_frame [op_frames]:
  "om_store (set_cell r f m) = om_store m" "om_operations (set_cell r f m) = om_operations m"
  "om_runs (set_cell r f m) = om_runs m" "om_sequence (set_cell r f m) = om_sequence m"
  "length (om_heap (set_cell r f m)) = length (om_heap m)"
  "om_waiters (set_cell r f m) = om_waiters m" "om_answers (set_cell r f m) = om_answers m"
  by (simp_all add: set_cell_def)

lemma cell_set_cell [op_frames]:
  "r < length (om_heap m) \<Longrightarrow> cell (set_cell q f m) r = (if q = r then f (cell m r) else cell m r)"
  by (simp add: cell_def set_cell_def nth_list_update)

lemma emit_frame [op_frames]:
  "om_store (emit k r t d m) = om_store m" "om_operations (emit k r t d m) = om_operations m"
  "om_runs (emit k r t d m) = om_runs m" "om_sequence (emit k r t d m) = om_sequence m"
  "om_heap (emit k r t d m) = om_heap m" "cell (emit k r t d m) = cell m"
  "om_waiters (emit k r t d m) = om_waiters m" "om_answers (emit k r t d m) = om_answers m"
  by (simp_all add: emit_def Let_def cell_def fun_eq_iff)

lemma update_store_frame [op_frames]:
  "om_operations (update_store op p t m) = om_operations m" "om_runs (update_store op p t m) = om_runs m"
  "om_sequence (update_store op p t m) = om_sequence m" "om_heap (update_store op p t m) = om_heap m"
  "cell (update_store op p t m) = cell m"
  "om_waiters (update_store op p t m) = om_waiters m" "om_answers (update_store op p t m) = om_answers m"
  by (simp_all add: update_store_def cell_def fun_eq_iff split: option.splits)

lemma retain_frame [op_frames]:
  "om_store (retainOperations t m) = om_store m" "om_runs (retainOperations t m) = om_runs m"
  "om_sequence (retainOperations t m) = om_sequence m" "om_heap (retainOperations t m) = om_heap m"
  "cell (retainOperations t m) = cell m"
  "om_waiters (retainOperations t m) = om_waiters m" "om_answers (retainOperations t m) = om_answers m"
  by (simp_all add: retainOperations_def cell_def fun_eq_iff)

lemma transition_frame [op_frames]:
  "om_runs (transition r st res err t m) = om_runs m" "om_sequence (transition r st res err t m) = om_sequence m"
  "length (om_heap (transition r st res err t m)) = length (om_heap m)"
  by (simp_all add: transition_def Let_def op_frames)

lemma cell_transition [op_frames]:
  "q < length (om_heap m) \<Longrightarrow> cell (transition r st res err t m) q =
    (if r = q then (cell m q)\<lparr>op_status := st, op_finishedAt := Some t,
       op_result := (case res of None \<Rightarrow> op_result (cell m q) | Some x \<Rightarrow> Some x),
       op_error := (case err of None \<Rightarrow> op_error (cell m q) | Some x \<Rightarrow> Some x)\<rparr> else cell m q)"
  by (simp add: transition_def Let_def op_frames)

lemma settle_frame [op_frames]:
  "om_store (snd (settle i m)) = om_store m" "om_operations (snd (settle i m)) = om_operations m"
  "om_runs (snd (settle i m)) = om_runs m" "om_sequence (snd (settle i m)) = om_sequence m"
  "om_heap (snd (settle i m)) = om_heap m" "cell (snd (settle i m)) = cell m"
  by (simp_all add: settle_def cell_def fun_eq_iff split: option.splits)

lemma settle_uncaught_frame [op_frames]:
  "om_store (settle_uncaught r m) = om_store m" "om_operations (settle_uncaught r m) = om_operations m"
  "om_runs (settle_uncaught r m) = om_runs m" "om_sequence (settle_uncaught r m) = om_sequence m"
  "om_heap (settle_uncaught r m) = om_heap m" "cell (settle_uncaught r m) = cell m"
  using settle_frame[of "op_id (cell m r)" m]
  by (auto simp: settle_uncaught_def cell_def fun_eq_iff split: prod.splits if_splits)

lemma settle_caught_frame [op_frames]:
  "om_store (settle_caught r m) = om_store m" "om_operations (settle_caught r m) = om_operations m"
  "om_runs (settle_caught r m) = om_runs m" "om_sequence (settle_caught r m) = om_sequence m"
  "om_heap (settle_caught r m) = om_heap m" "cell (settle_caught r m) = cell m"
  by (simp_all add: settle_caught_def op_frames)

lemma set_run_frame [op_frames]:
  "om_store (set_run r f m) = om_store m" "om_operations (set_run r f m) = om_operations m"
  "om_sequence (set_run r f m) = om_sequence m" "om_heap (set_run r f m) = om_heap m"
  "cell (set_run r f m) = cell m" "om_waiters (set_run r f m) = om_waiters m"
  "om_answers (set_run r f m) = om_answers m"
  by (simp_all add: set_run_def cell_def fun_eq_iff split: option.splits)

lemma run_step_frame [op_frames]:
  "om_store (finish_run r m) = om_store m" "om_heap (finish_run r m) = om_heap m" "cell (finish_run r m) = cell m"
  "om_operations (finish_run r m) = om_operations m" "om_sequence (finish_run r m) = om_sequence m"
  "om_store (goto_phase r p m) = om_store m" "om_heap (goto_phase r p m) = om_heap m"
  "om_operations (goto_phase r p m) = om_operations m" "om_sequence (goto_phase r p m) = om_sequence m"
  "cell (goto_phase r p m) = cell m" "om_store (disarm r m) = om_store m" "om_heap (disarm r m) = om_heap m"
  "om_operations (disarm r m) = om_operations m" "om_sequence (disarm r m) = om_sequence m"
  "cell (disarm r m) = cell m"
  "om_waiters (finish_run r m) = om_waiters m" "om_answers (finish_run r m) = om_answers m"
  "om_waiters (goto_phase r p m) = om_waiters m" "om_answers (goto_phase r p m) = om_answers m"
  by (simp_all add: finish_run_def goto_phase_def disarm_def op_frames)

lemma add_waiter_frame [op_frames]:
  "om_store (snd (add_waiter i w m)) = om_store m" "om_heap (snd (add_waiter i w m)) = om_heap m"
  "om_operations (snd (add_waiter i w m)) = om_operations m" "om_runs (snd (add_waiter i w m)) = om_runs m"
  "om_sequence (snd (add_waiter i w m)) = om_sequence m" "cell (snd (add_waiter i w m)) = cell m"
  by (simp_all add: add_waiter_def cell_def fun_eq_iff)

lemma cell_start [op_frames]:
  "q < length (om_heap m) \<Longrightarrow> r \<noteq> q \<Longrightarrow> cell (start_op r m) q = cell m q"
  by (simp add: start_op_def Let_def set_cell_def cell_def)

lemma cell_alloc [op_frames]: "q < length (om_heap m) \<Longrightarrow> cell (alloc op m) q = cell m q"
  by (simp add: alloc_def cell_def nth_append)

lemma fresh_begin_cell:
  "q < length (om_heap m) \<Longrightarrow> cell (snd (fresh_begin o' rnd t m)) q = cell m q"
  by (simp add: fresh_begin_def Let_def op_frames emit_def alloc_def start_op_def set_cell_def cell_def nth_append
      split: option.splits)

lemma begin_op_cases:
  obtains st where "begin_op o' rnd t m =
      ((False, fst (fresh_begin o' rnd t (m\<lparr>om_store := st\<rparr>))), snd (fresh_begin o' rnd t (m\<lparr>om_store := st\<rparr>)))"
  | st i where "begin_op o' rnd t m = ((True, i), m\<lparr>om_store := st\<rparr>)"
  | st x where "begin_op o' rnd t m = ((True, ts_operationId x), alloc (restored_operation x) (m\<lparr>om_store := st\<rparr>))"
proof (cases "truthy (bo_idempotencyKey o')")
  case False
  then have "begin_op o' rnd t m =
      ((False, fst (fresh_begin o' rnd t (m\<lparr>om_store := om_store m\<rparr>))),
       snd (fresh_begin o' rnd t (m\<lparr>om_store := om_store m\<rparr>)))"
    by (auto simp: begin_op_def split: option.splits prod.splits)
  then show thesis by (rule that(1))
next
  case True
  then obtain k where k: "bo_idempotencyKey o' = Some k" "k \<noteq> []"
    by (cases "bo_idempotencyKey o'") auto
  obtain lk st where f: "idem_find (bo_deviceId o') (bo_capability o') (bo_owner o') k t (om_store m) = (lk, st)"
    by fastforce
  show thesis
  proof (cases "lk_hit lk \<and> truthy (lk_operationId lk) \<and> jhas (om_operations m) (the (lk_operationId lk))")
    case True
    with k f show thesis
      by (intro that(2)[of "the (lk_operationId lk)" st]) (simp add: begin_op_def)
  next
    case no_op: False
    show thesis
    proof (cases "lk_hit lk \<and> lk_tombstone lk \<noteq> None")
      case True
      then obtain x where "lk_hit lk" "lk_tombstone lk = Some x"
        by auto
      with k f no_op show thesis
        by (intro that(3)[of x st]) (auto simp: begin_op_def Let_def)
    next
      case False
      with k f no_op show thesis
        by (intro that(1)[of st]) (cases "lk_hit lk"; cases "lk_tombstone lk";
          simp add: begin_op_def split_beta Let_def)
    qed
  qed
qed

lemma cell_store [simp]: "cell (m\<lparr>om_store := st\<rparr>) = cell m"
  by (simp add: cell_def fun_eq_iff)

lemma begin_op_cell:
  assumes "q < length (om_heap m)"
  shows "cell (snd (begin_op o' rnd t m)) q = cell m q"
proof (rule begin_op_cases[of o' rnd t m])
  fix st
  assume b: "begin_op o' rnd t m =
      ((False, fst (fresh_begin o' rnd t (m\<lparr>om_store := st\<rparr>))), snd (fresh_begin o' rnd t (m\<lparr>om_store := st\<rparr>)))"
  show ?thesis
    using assms fresh_begin_cell[of q "m\<lparr>om_store := st\<rparr>"] by (simp add: b)
next
  fix st i
  assume b: "begin_op o' rnd t m = ((True, i), m\<lparr>om_store := st\<rparr>)"
  show ?thesis by (simp add: b)
next
  fix st x
  assume b: "begin_op o' rnd t m = ((True, ts_operationId x), alloc (restored_operation x) (m\<lparr>om_store := st\<rparr>))"
  show ?thesis
    using assms by (simp add: b op_frames)
qed

subsection \<open>Terminal operations are frozen\<close>

text \<open>
  The calls that may change a terminal operation: its closure resuming from one of the awaits
  after which the status is not looked at again, and a reconciliation of it.
\<close>

fun may_overwrite :: "op_manager \<Rightarrow> nat \<Rightarrow> op_call \<Rightarrow> bool" where
  "may_overwrite m r (CBeforeDone q _) = (q = r)"
| "may_overwrite m r (CBeforeFailed q _ _) = (q = r)"
| "may_overwrite m r (CAfterDone q _) = (q = r)"
| "may_overwrite m r (CAfterFailed q _ _) = (q = r)"
| "may_overwrite m r (CReconcile i _ _) = (jget (om_operations m) i = Some r)"
| "may_overwrite m r _ = False"

lemma cancel_cell:
  assumes "q < length (om_heap m)" "terminal_at m q"
  shows "cell (snd (cancel_op i reason t m)) q = cell m q"
proof (cases "jget (om_operations m) i")
  case (Some r)
  show ?thesis
  proof (cases "terminal_at m r")
    case False
    then have "r \<noteq> q"
      using assms by blast
    with assms Some False show ?thesis
      by (simp add: cancel_op_def Let_def split_beta op_frames)
  qed (use Some in \<open>simp add: cancel_op_def\<close>)
qed (simp add: cancel_op_def)

lemma reconcile_cell:
  "q < length (om_heap m) \<Longrightarrow> jget (om_operations m) i \<noteq> Some q \<Longrightarrow>
    cell (snd (reconcile i o' t m)) q = cell m q"
  by (cases "jget (om_operations m) i") (simp_all add: reconcile_def Let_def split_beta op_frames)

lemma waitFor_cell: "cell (snd (waitFor i m)) = cell m" "cell (snd (waitForResult i m)) = cell m"
  by (auto simp: waitFor_def waitForResult_def split_beta op_frames split: option.splits)

lemma progress_cell:
  "q < length (om_heap m) \<Longrightarrow> terminal_at m q \<Longrightarrow> cell (snd (reportProgress r f msg t m)) q = cell m q"
  by (cases "r = q") (auto simp: reportProgress_def Let_def op_frames cell_def set_cell_def emit_def
      split: option.splits)

lemma subscribe_cell:
  "cell (snd (subscribeProgress i l m)) = cell m" "cell (unsubscribeProgress (a, i, l) m) = cell m"
  by (auto simp: subscribeProgress_def Let_def cell_def fun_eq_iff split: option.splits)

lemma deadline_cell:
  "q < length (om_heap m) \<Longrightarrow> terminal_at m q \<Longrightarrow> cell (deadline_fires r t m) q = cell m q"
  by (cases "r = q") (auto simp: deadline_fires_def Let_def op_frames terminal_at_def split: option.splits)

lemma run_failed_cell:
  "q < length (om_heap m) \<Longrightarrow> terminal_at m q \<Longrightarrow> cell (run_failed r e t m) q = cell m q"
  by (cases "r = q") (simp_all add: run_failed_def Let_def op_frames terminal_at_def)

lemma frozen_apply:
  assumes "q < length (om_heap m)" "terminal_at m q" "\<not> may_overwrite m q c"
  shows "cell (op_apply m c) q = cell m q"
  using assms
  by (cases c)
    (auto simp: begin_op_cell cancel_cell reconcile_cell waitFor_cell progress_cell subscribe_cell deadline_cell
      run_failed_cell microtask_def before_done_def before_failed_def run_done_def after_done_def
      after_failed_def op_frames Let_def simp del: unsubscribeProgress.simps split: run_phase.splits)

lemma fresh_begin_heap: "length (om_heap (snd (fresh_begin o' rnd t m))) = Suc (length (om_heap m))"
  by (simp add: fresh_begin_def Let_def start_op_def set_cell_def alloc_def emit_def split: option.splits)

lemma op_apply_heap: "length (om_heap m) \<le> length (om_heap (op_apply m c))"
proof (cases c)
  case (CBegin o' rnd t)
  show ?thesis
  proof (rule begin_op_cases[of o' rnd t m])
    fix st
    assume "begin_op o' rnd t m =
      ((False, fst (fresh_begin o' rnd t (m\<lparr>om_store := st\<rparr>))), snd (fresh_begin o' rnd t (m\<lparr>om_store := st\<rparr>)))"
    then show ?thesis
      using fresh_begin_heap[of o' rnd t "m\<lparr>om_store := st\<rparr>"] CBegin by simp
  qed (use CBegin in \<open>simp_all add: alloc_def\<close>)
qed (auto simp: cancel_op_def reconcile_def waitFor_def waitForResult_def subscribeProgress_def reportProgress_def
    deadline_fires_def run_failed_def microtask_def before_done_def before_failed_def run_done_def after_done_def
    after_failed_def op_frames Let_def split_beta split: option.splits run_phase.splits)

fun never_overwrites :: "op_manager \<Rightarrow> nat \<Rightarrow> op_call list \<Rightarrow> bool" where
  "never_overwrites m r [] = True"
| "never_overwrites m r (c # cs) = (\<not> may_overwrite m r c \<and> never_overwrites (op_apply m c) r cs)"

lemma frozen_run:
  assumes "q < length (om_heap m)" "terminal_at m q" "never_overwrites m q cs"
  shows "cell (op_run_calls m cs) q = cell m q"
  using assms
proof (induction cs arbitrary: m)
  case (Cons c cs)
  have eq: "cell (op_apply m c) q = cell m q"
    using Cons.prems frozen_apply by simp
  then have "terminal_at (op_apply m c) q"
    using Cons.prems(2) by (simp add: terminal_at_def)
  with Cons.IH[of "op_apply m c"] Cons.prems op_apply_heap[of m c] eq show ?case
    by (simp del: op_apply.simps)
qed simp

subsection \<open>Tombstones survive every call but begin\<close>

definition tomb_kept :: "idem_store \<Rightarrow> idem_store \<Rightarrow> bool" where
  "tomb_kept s s' \<longleftrightarrow> is_retentionMs s' = is_retentionMs s \<and> is_maxEntries s' = is_maxEntries s \<and>
    jkeys (is_tombstones s') = jkeys (is_tombstones s) \<and>
    (\<forall>k x. jget (is_tombstones s) k = Some x \<longrightarrow>
      (\<exists>y. jget (is_tombstones s') k = Some y \<and> ts_operationId y = ts_operationId x \<and>
        ts_createdAt y = ts_createdAt x))"

lemma tomb_kept_refl [simp]: "tomb_kept s s"
  by (simp add: tomb_kept_def)

lemma tomb_kept_trans: "tomb_kept a b \<Longrightarrow> tomb_kept b c \<Longrightarrow> tomb_kept a c"
  unfolding tomb_kept_def by metis

lemma jkeys_patch: "jget m k = Some x \<Longrightarrow> jkeys (jset k v m) = jkeys m"
  by (induction m) (auto split: if_splits)

lemma tomb_kept_held:
  assumes "tomb_kept s s'" "idem_ok s" "held k op cr n s"
  shows "held k op cr n s' \<and> idem_ok s'"
proof -
  obtain xs x ys where s: "is_tombstones s = xs @ (k, x) # ys" "ts_operationId x = op" "ts_createdAt x = cr" "length ys \<le> n"
    using assms(3) by (auto simp: held_def)
  have keys: "jkeys (is_tombstones s') = jkeys xs @ k # jkeys ys"
    using assms(1) s(1) by (simp add: tomb_kept_def)
  then obtain xs' y ys' where s': "is_tombstones s' = xs' @ (k, y) # ys'" "jkeys ys' = jkeys ys"
    by (auto simp: map_eq_append_conv map_eq_Cons_conv)
  have wf: "wf_map (is_tombstones s)" "wf_map (is_tombstones s')"
    using assms(1,2) by (simp_all add: idem_ok_def tomb_kept_def wf_map_def)
  then have "jget (is_tombstones s) k = Some x" "jget (is_tombstones s') k = Some y"
    using jget_in[OF wf(1), of k x] jget_in[OF wf(2), of k y] s(1) s'(1) by simp_all
  moreover from this obtain y' where "jget (is_tombstones s') k = Some y'" "ts_operationId y' = ts_operationId x"
      "ts_createdAt y' = ts_createdAt x"
    using assms(1) unfolding tomb_kept_def by blast
  ultimately have "ts_operationId y = op" "ts_createdAt y = cr"
    using s(2,3) by simp_all
  moreover have "length ys' = length ys" "length (is_tombstones s') = length (is_tombstones s)"
    using s'(2) assms(1) by (auto simp: tomb_kept_def dest: map_eq_imp_length_eq)
  ultimately show ?thesis
    using s(4) wf assms(1,2) heldI[OF s'(1)] by (simp add: idem_ok_def tomb_kept_def)
qed

lemma tomb_kept_update: "tomb_kept s (updateUnder k p t s)"
  by (auto simp: tomb_kept_def updateUnder_def jget_set patch_tombstone_def jkeys_patch split: option.splits)

lemma tomb_kept_update_store: "tomb_kept (om_store m) (om_store (update_store op p t m))"
  by (auto simp: update_store_def tomb_kept_update split: option.splits)

lemma tomb_kept_transition: "tomb_kept (om_store m) (om_store (transition r st res err t m))"
  using tomb_kept_update_store[of "set_cell r f m" for f] by (simp add: transition_def Let_def op_frames)

lemma tomb_kept_deadline: "tomb_kept (om_store m) (om_store (deadline_fires r t m))"
  using tomb_kept_transition[of "set_cell r f (disarm r m)" for f]
  by (auto simp: deadline_fires_def Let_def op_frames split: option.splits)

lemma tomb_kept_run_failed: "tomb_kept (om_store m) (om_store (run_failed r e t m))"
  using tomb_kept_transition[of "finish_run r m"] by (simp add: run_failed_def Let_def op_frames)

lemma tomb_kept_reconcile: "tomb_kept (om_store m) (om_store (snd (reconcile i o' t m)))"
  using tomb_kept_update_store[of "set_cell r f m" for r f]
  by (auto simp: reconcile_def Let_def split_beta op_frames split: option.splits)

lemma tomb_kept_cancel: "tomb_kept (om_store m) (om_store (snd (cancel_op i reason t m)))"
  by (auto simp: cancel_op_def Let_def split_beta op_frames tomb_kept_transition split: option.splits)

lemma tomb_kept_steps:
  "tomb_kept (om_store m) (om_store (before_failed r msg t m))"
  "tomb_kept (om_store m) (om_store (after_done r t m))"
  "tomb_kept (om_store m) (om_store (after_failed r msg t m))"
  using tomb_kept_transition[of "finish_run r m"] tomb_kept_transition[of m]
  by (auto simp: before_failed_def after_done_def after_failed_def Let_def op_frames split: run_phase.splits)

fun is_begin :: "op_call \<Rightarrow> bool" where
  "is_begin (CBegin _ _ _) = True"
| "is_begin _ = False"

lemma subscribe_store:
  "om_store (snd (subscribeProgress i l m)) = om_store m" "om_store (unsubscribeProgress (a, i, l) m) = om_store m"
  by (auto simp: subscribeProgress_def Let_def split: option.splits)

lemma tomb_kept_apply: "\<not> is_begin c \<Longrightarrow> tomb_kept (om_store m) (om_store (op_apply m c))"
  by (cases c)
    (auto simp: tomb_kept_steps tomb_kept_cancel tomb_kept_reconcile tomb_kept_run_failed tomb_kept_deadline
      microtask_def before_done_def run_done_def waitFor_def waitForResult_def reportProgress_def subscribe_store
      op_frames Let_def split_beta simp del: unsubscribeProgress.simps split: option.splits)

text \<open>A fresh operation is recorded under its scoped key.\<close>

lemma fresh_begin_store:
  assumes "bo_idempotencyKey o' = Some k" "k \<noteq> []"
  shows "om_store (snd (fresh_begin o' rnd t m)) =
    st_put (bo_deviceId o', bo_capability o', bo_owner o', k) (fst (fresh_begin o' rnd t m)) t (om_store m)"
  using assms by (simp add: fresh_begin_def Let_def st_put_def start_op_def op_frames alloc_def)

lemma begin_fresh_store:
  assumes "begin_op o' rnd t m = ((False, i), m')" "bo_idempotencyKey o' = Some k" "k \<noteq> []"
  shows "om_store m' = st_put (bo_deviceId o', bo_capability o', bo_owner o', k) i t
    (st_touch (bo_deviceId o', bo_capability o', bo_owner o', k) t (om_store m))"
proof -
  let ?key = "(bo_deviceId o', bo_capability o', bo_owner o', k)"
  obtain lk st where f: "idem_find (bo_deviceId o') (bo_capability o') (bo_owner o') k t (om_store m) = (lk, st)"
    by fastforce
  have fresh: "fresh_begin o' rnd t (m\<lparr>om_store := st\<rparr>) = (i, m')"
    using assms f
    by (cases "lk_hit lk"; cases "lk_tombstone lk") (auto simp: begin_op_def Let_def split: if_splits prod.splits)
  have "st = st_touch ?key t (om_store m)"
    using f by (simp add: st_touch_def idem_find_def)
  moreover have "om_store m' = st_put ?key i t st"
    using fresh_begin_store[OF assms(2,3), of rnd t "m\<lparr>om_store := st\<rparr>"] by (simp add: fresh)
  ultimately show ?thesis
    by simp
qed

lemma begin_fresh_id: "begin_op o' rnd t m = ((False, i), m') \<Longrightarrow> i = op_key (Suc (om_sequence m)) rnd"
  by (rule begin_op_cases[of o' rnd t m]) (auto simp: fresh_begin_def Let_def)

lemma fresh_begin_no_key:
  "bo_idempotencyKey o' = None \<or> bo_idempotencyKey o' = Some [] \<Longrightarrow> om_store (snd (fresh_begin o' rnd t m)) = om_store m"
  by (auto simp: fresh_begin_def Let_def start_op_def op_frames alloc_def)

text \<open>What a \<open>begin\<close> does to the store: nothing without a key; a touch when the key is found, else a record.\<close>

lemma begin_store:
  "om_store (snd (begin_op o' rnd t m)) =
    (case bo_idempotencyKey o' of
      None \<Rightarrow> om_store m
    | Some k \<Rightarrow>
        if k = [] then om_store m
        else
          (let key = (bo_deviceId o', bo_capability o', bo_owner o', k); st = st_touch key t (om_store m)
           in if st_find key t (om_store m) \<noteq> None then st
              else st_put key (op_key (Suc (om_sequence m)) rnd) t st))"
proof (cases "bo_idempotencyKey o'")
  case None
  then show ?thesis
    using fresh_begin_no_key[of o' rnd t m] by (simp add: begin_op_def split_beta)
next
  case (Some k)
  let ?key = "(bo_deviceId o', bo_capability o', bo_owner o', k)"
  show ?thesis
  proof (cases "k = []")
    case True
    then show ?thesis
      using Some fresh_begin_no_key[of o' rnd t m] by (simp add: begin_op_def split_beta)
  next
    case False
    let ?lk = "fst (lookup_under (key_text ?key) t (om_store m))" and ?st = "snd (lookup_under (key_text ?key) t (om_store m))"
    have fresh: "om_store (snd (fresh_begin o' rnd t (m\<lparr>om_store := ?st\<rparr>))) = st_put ?key (op_key (Suc (om_sequence m)) rnd) t ?st"
      using fresh_begin_store[OF Some False, of rnd t "m\<lparr>om_store := ?st\<rparr>"] by (simp add: fresh_begin_def Let_def)
    have lk: "(lk_hit ?lk \<longleftrightarrow> lk_operationId ?lk \<noteq> None) \<and> (lk_hit ?lk \<longleftrightarrow> lk_tombstone ?lk \<noteq> None)"
      by (auto simp: lookup_under_def Let_def split: option.split)
    show ?thesis
      using Some False fresh lk
      by (auto simp: begin_op_def idem_find_def st_find_def st_touch_def Let_def split_beta alloc_def split: option.splits bool.splits)
  qed
qed

text \<open>Calls within the window, and what they do to a tombstone: each \<open>begin\<close> moves at most one entry behind it.\<close>

fun begins_by :: "time \<Rightarrow> op_call \<Rightarrow> bool" where
  "begins_by T (CBegin _ _ t) = (t \<le> T)"
| "begins_by T _ = True"

lemma held_begin:
  assumes ok: "idem_ok (om_store m)" and h: "held (key_text key) i cr n (om_store m)"
    and t: "t \<le> cr + is_retentionMs (om_store m)" and room: "Suc n < is_maxEntries (om_store m)"
  shows "held (key_text key) i cr (Suc n) (om_store (snd (begin_op o' rnd t m))) \<and> idem_ok (om_store (snd (begin_op o' rnd t m)))
    \<and> is_retentionMs (om_store (snd (begin_op o' rnd t m))) = is_retentionMs (om_store m)
    \<and> is_maxEntries (om_store (snd (begin_op o' rnd t m))) = is_maxEntries (om_store m)"
proof -
  let ?s = "om_store m"
  have frame: "st_touch k t ?s = idem_apply ?s (ILookup (key_text k) t)"
    "st_put k j t s = idem_apply s (IRecord (key_text k) (queued_tombstone k j t) t)" for k j s
    by (simp_all add: st_touch_def st_put_def)
  have touch: "held (key_text key) i cr (Suc n) (st_touch k t ?s)" for k
    unfolding st_touch_def by (rule held_lookup[OF ok h t])
  have miss: "held (key_text key) i cr n (st_touch k t ?s) \<and> key_text k \<noteq> key_text key" if "st_find k t ?s = None" for k
  proof -
    obtain x where x: "jget (is_tombstones ?s) (key_text key) = Some x" "ts_createdAt x = cr"
      using held_get[OF _ h] ok by (auto simp: idem_ok_def)
    have other: "key_text k \<noteq> key_text key"
      using that x t by (auto simp: st_find_def lookup_under_def aged_def Let_def split: option.splits if_splits)
    then show ?thesis
      using that h held_delete_other[OF h other]
      by (auto simp: st_find_def st_touch_def lookup_under_def Let_def split: option.splits if_splits)
  qed
  have put: "held (key_text key) i cr (Suc n) (st_put k j t (st_touch k t ?s))" if "st_find k t ?s = None" for k j
    using held_set_other[of "key_text key" i cr n "st_touch k t ?s" "key_text k"] miss[OF that] room
    by (simp add: st_put_def recordUnder_def held_evict frame del: idem_apply.simps)
  have "held (key_text key) i cr (Suc n) ?s"
    by (rule held_mono[OF h]) simp
  with touch put show ?thesis
    unfolding begin_store using ok
    by (auto simp: Let_def frame idem_ok_apply simp del: idem_apply.simps key_text.simps split: option.split)
qed

lemma held_op:
  assumes "idem_ok (om_store m)" "held (key_text key) i cr n (om_store m)" "begins_by (cr + is_retentionMs (om_store m)) c"
    "n + (if is_begin c then 1 else 0) < is_maxEntries (om_store m)"
  shows "held (key_text key) i cr (n + (if is_begin c then 1 else 0)) (om_store (op_apply m c)) \<and> idem_ok (om_store (op_apply m c)) \<and>
    is_retentionMs (om_store (op_apply m c)) = is_retentionMs (om_store m) \<and>
    is_maxEntries (om_store (op_apply m c)) = is_maxEntries (om_store m)"
proof (cases "is_begin c")
  case True
  then show ?thesis
    using held_begin[OF assms(1,2)] assms(3,4) by (cases c) simp_all
next
  case False
  then show ?thesis
    using tomb_kept_held[OF tomb_kept_apply[OF False] assms(1,2)] tomb_kept_apply[OF False, of m]
    by (simp add: tomb_kept_def del: op_apply.simps)
qed

lemma held_ops:
  assumes "idem_ok (om_store m)" "held (key_text key) i cr n (om_store m)"
    "list_all (begins_by (cr + is_retentionMs (om_store m))) cs"
    "n + length (filter is_begin cs) < is_maxEntries (om_store m)"
  shows "held (key_text key) i cr (n + length (filter is_begin cs)) (om_store (op_run_calls m cs)) \<and>
    idem_ok (om_store (op_run_calls m cs)) \<and> is_retentionMs (om_store (op_run_calls m cs)) = is_retentionMs (om_store m)"
  using assms
proof (induction cs arbitrary: m n)
  case (Cons c cs)
  note step = held_op[OF Cons.prems(1,2), of c]
  show ?case
    using step Cons.IH[of "op_apply m c" "n + (if is_begin c then 1 else 0)"] Cons.prems(3,4)
    by (auto simp del: op_apply.simps split: if_splits)
qed simp

lemma begin_fresh_held:
  assumes "begin_op o' rnd t m = ((False, i), m')" "bo_idempotencyKey o' = Some k" "k \<noteq> []" "st_ok (om_store m)"
  shows "held (key_text (bo_deviceId o', bo_capability o', bo_owner o', k)) i t 0 (om_store m') \<and> idem_ok (om_store m') \<and>
    is_retentionMs (om_store m') = is_retentionMs (om_store m) \<and> is_maxEntries (om_store m') = is_maxEntries (om_store m)"
proof -
  let ?key = "(bo_deviceId o', bo_capability o', bo_owner o', k)"
  let ?st = "st_touch ?key t (om_store m)"
  have store: "om_store m' = st_put ?key i t ?st"
    by (rule begin_fresh_store[OF assms(1-3)])
  have ok: "st_ok ?st" "st_ok (om_store m')"
    unfolding store using assms(4) by (simp_all add: idem.ok_touch idem.ok_put)
  have "st_find ?key t (om_store m) = None"
  proof (rule ccontr)
    assume hit: "\<not> ?thesis"
    have "\<exists>r. fst (begin_op o' rnd t m) = (True, r)"
      using hit assms(2,3)
      by (auto simp: begin_op_def st_find_def idem_find_def lookup_under_def Let_def split: option.splits if_splits)
    then show False
      using assms(1) by simp
  qed
  then have new: "jget (is_tombstones ?st) (key_text ?key) = None"
    by (auto simp: st_find_def st_touch_def lookup_under_def Let_def jget_delete split: option.splits if_splits)
  have "held (key_text ?key) i t 0 (?st\<lparr>is_tombstones := jset (key_text ?key) ((queued_tombstone ?key i t)\<lparr>ts_lastUsedAt := t\<rparr>) (is_tombstones ?st)\<rparr>)"
    using new by (intro heldI[of _ "is_tombstones ?st" _ "(queued_tombstone ?key i t)\<lparr>ts_lastUsedAt := t\<rparr>" "[]"])
      (simp_all add: jset_new del: queued_tombstone.simps)
  then have "held (key_text ?key) i t 0 (om_store m')"
    unfolding store st_put_def recordUnder_def using ok(1) by (intro held_evict) (simp_all add: st_ok_def)
  moreover have "is_maxEntries (om_store m') = is_maxEntries (om_store m)"
    unfolding store st_put_def st_touch_def using is_maxEntries_apply[of _ "IRecord _ _ _"] is_maxEntries_apply[of _ "ILookup _ _"]
    by simp
  ultimately show ?thesis
    using ok(2) by (simp add: st_ok_def store idem.window_put idem.window_touch)
qed

text \<open>A hit of the store makes \<open>begin\<close> return the recorded operation and start nothing.\<close>

lemma begin_hit:
  assumes "st_find (bo_deviceId o', bo_capability o', bo_owner o', k) t (om_store m) = Some i" "i \<noteq> []"
    and "bo_idempotencyKey o' = Some k" "k \<noteq> []"
  shows "fst (begin_op o' rnd t m) = (True, i) \<and> om_runs (snd (begin_op o' rnd t m)) = om_runs m \<and>
    om_sequence (snd (begin_op o' rnd t m)) = om_sequence m \<and> om_events (snd (begin_op o' rnd t m)) = om_events m"
proof -
  obtain lk st where f: "idem_find (bo_deviceId o') (bo_capability o') (bo_owner o') k t (om_store m) = (lk, st)"
    by fastforce
  then have "lk_operationId lk = Some i"
    using assms(1) by (simp add: st_find_def idem_find_def)
  moreover from this f obtain x where "lk_hit lk" "lk_tombstone lk = Some x" "ts_operationId x = i"
    by (auto simp: idem_find_def lookup_under_def Let_def split: option.splits if_splits)
  ultimately show ?thesis
    using assms(2-4) f by (auto simp: begin_op_def Let_def alloc_def)
qed

subsection \<open>Properties\<close>

text \<open>C4: A retry never runs an operation twice. After an operation was begun with an idempotency key, through any calls,
  of which fewer than the store's \<open>maxEntries\<close> are \<open>begin\<close>s and these come within the retention window, another
  \<open>begin\<close> with the same device, capability, owner and key within the window answers \<open>deduped\<close> with the same
  operation; it emits no event and starts no run, even when the operation has left the operations map.\<close>

theorem begin_idempotent:
  assumes "begin_op o1 rnd1 t1 m = ((False, i), m1)" "bo_idempotencyKey o1 = Some k" "k \<noteq> []"
    and "st_ok (om_store m)" "t2 \<le> t1 + is_retentionMs (om_store m)"
    and "length (filter is_begin cs) < is_maxEntries (om_store m)"
    and "list_all (begins_by (t1 + is_retentionMs (om_store m))) cs"
    and "bo_idempotencyKey o2 = Some k" "bo_deviceId o2 = bo_deviceId o1" "bo_capability o2 = bo_capability o1"
      "bo_owner o2 = bo_owner o1"
  shows "fst (begin_op o2 rnd2 t2 (op_run_calls m1 cs)) = (True, i) \<and>
    om_runs (snd (begin_op o2 rnd2 t2 (op_run_calls m1 cs))) = om_runs (op_run_calls m1 cs) \<and>
    om_events (snd (begin_op o2 rnd2 t2 (op_run_calls m1 cs))) = om_events (op_run_calls m1 cs)"
proof -
  let ?key = "(bo_deviceId o1, bo_capability o1, bo_owner o1, k)" and ?m' = "op_run_calls m1 cs"
  have h: "held (key_text ?key) i t1 0 (om_store m1)" "idem_ok (om_store m1)"
      "is_retentionMs (om_store m1) = is_retentionMs (om_store m)" "is_maxEntries (om_store m1) = is_maxEntries (om_store m)"
    using begin_fresh_held[OF assms(1-4)] by simp_all
  have run: "held (key_text ?key) i t1 (0 + length (filter is_begin cs)) (om_store ?m') \<and> idem_ok (om_store ?m') \<and>
      is_retentionMs (om_store ?m') = is_retentionMs (om_store m1)"
    using assms(6,7) by (intro held_ops[OF h(2,1)]) (simp_all add: h)
  then obtain x where "jget (is_tombstones (om_store ?m')) (key_text ?key) = Some x" "ts_operationId x = i" "ts_createdAt x = t1"
    using held_get[of "om_store ?m'"] unfolding idem_ok_def by blast
  then have "st_find ?key t2 (om_store ?m') = Some i"
    unfolding st_find_def lookup_under_hit using assms(5) run h(3) by (auto simp: aged_def)
  moreover have "i \<noteq> []"
    using begin_fresh_id[OF assms(1)] by (simp add: op_key_def)
  ultimately show ?thesis
    using begin_hit[of o2 k t2 ?m' i rnd2] assms(3,8-11) by simp
qed

definition wit_begin :: "string option \<Rightarrow> begin_options" where
  "wit_begin k = \<lparr>bo_deviceId = ''arm'', bo_capability = ''move'', bo_owner = None, bo_idempotencyKey = k,
    bo_deadline = None, bo_timeoutMs = None\<rparr>"

definition wit_manager :: "nat option \<Rightarrow> op_manager" where
  "wit_manager n = OperationManager (\<lambda>_. []) None \<lparr>mo_journal = None, mo_retentionMs = None, mo_maxOperations = n\<rparr>"

theorem begin_idempotent_witness:
  "let (res, m1) = begin_op (wit_begin (Some ''k'')) ''x'' 5 (wit_manager None)
   in fst (begin_op (wit_begin (Some ''k'')) ''y'' 100
       (op_run_calls m1 [CMicrotask 0, CBegin (wit_begin (Some ''j'')) ''z'' 6, CBeforeDone 0 6])) = (True, op_key 1 ''x'')"
proof -
  have b: "begin_op (wit_begin (Some ''k'')) ''x'' 5 (wit_manager None) =
      ((False, op_key 1 ''x''), snd (begin_op (wit_begin (Some ''k'')) ''x'' 5 (wit_manager None)))"
    by (simp add: begin_op_def wit_begin_def wit_manager_def OperationManager_def idem_find_def lookup_under_def
        BoundedIdempotencyStore_def fresh_begin_def Let_def)
  show ?thesis
    using begin_idempotent[OF b, of "''k''" 100 "[CMicrotask 0, CBegin (wit_begin (Some ''j'')) ''z'' 6, CBeforeDone 0 6]" "wit_begin (Some ''k'')" "''y''"]
    by (simp add: wit_begin_def wit_manager_def OperationManager_def BoundedIdempotencyStore_def st_ok_def
        idem_ok_init[unfolded BoundedIdempotencyStore_def] split_beta idem_ok_def wf_map_Nil)
qed

text \<open>C36: a terminal operation is final. Through any calls in which neither its own closure resumes from
  an await that is not followed by a new look at the status, nor an operator reconciles it, the
  whole stored object stays as it is: status, result, error and times.\<close>

theorem terminal_is_final:
  assumes "r < length (om_heap m)" "terminal_at m r" "never_overwrites m r cs"
  shows "cell (op_run_calls m cs) r = cell m r"
  by (rule frozen_run[OF assms])

definition wit_started :: op_manager where
  "wit_started = op_run_calls (wit_manager None) [CBegin (wit_begin None) ''x'' 5, CMicrotask 0]"

lemmas op_eval = op_run_calls_simps begin_op_def wit_begin_def wit_manager_def OperationManager_def
  fresh_begin_def start_op_def alloc_def emit_def new_operation_def set_cell_def cell_def microtask_def
  phase_of_def goto_phase_def set_run_def terminal_at_def isTerminalOperationStatus_def TERMINAL_STATUSES_def
  cancel_op_def transition_def update_store_def retainOperations_def stale_terminal_def settle_def
  before_done_def publicSnapshot_def op_snapshot.defs waiters_of_def run_done_def after_done_def
  settle_caught_def finish_run_def waitForResult_def waitFor_def add_waiter_def Let_def wit_started_def

theorem terminal_is_final_witness:
  "let m = snd (cancel_op (op_key 1 ''x'') None 6 (op_run_calls (wit_manager None) [CBegin (wit_begin None) ''x'' 5]))
   in op_status (cell (op_run_calls m [CMicrotask 0, CBegin (wit_begin None) ''y'' 9, CDeadline 0 10]) 0) = Cancelled"
proof -
  let ?m = "snd (cancel_op (op_key 1 ''x'') None 6 (op_run_calls (wit_manager None) [CBegin (wit_begin None) ''x'' 5]))"
  have m: "0 < length (om_heap ?m)" "op_status (cell ?m 0) = Cancelled" "terminal_at ?m 0"
    by (simp_all add: op_eval)
  have "never_overwrites ?m 0 [CMicrotask 0, CBegin (wit_begin None) ''y'' 9, CDeadline 0 10]"
    by simp
  from terminal_is_final[OF m(1,3) this] m(2) show ?thesis
    by (simp add: Let_def del: op_run_calls_simps)
qed

lemma limits_frame [op_frames]:
  "om_maxOperations (set_cell r f m) = om_maxOperations m" "om_retentionMs (set_cell r f m) = om_retentionMs m"
  "om_maxOperations (update_store op p t m) = om_maxOperations m"
  "om_retentionMs (update_store op p t m) = om_retentionMs m"
  by (simp_all add: set_cell_def update_store_def split: option.splits)

lemma retain_keeps:
  assumes "jget (om_operations m) i = Some r" "wf_map (om_operations m)"
    and "length (om_operations m) \<le> om_maxOperations m" "\<not> stale_terminal m t r"
  shows "jget (om_operations (retainOperations t m)) i = Some r"
proof -
  let ?kept = "filter (\<lambda>p. \<not> stale_terminal m t (snd p)) (om_operations m)"
  have "length ?kept \<le> om_maxOperations m"
    using assms(3) length_filter_le le_trans by blast
  then have "drop_overflow m ?kept = ?kept"
    by (cases ?kept) auto
  then show ?thesis
    using assms(1,2,4) by (simp add: retainOperations_def jget_filter)
qed

lemma transition_keeps:
  assumes "jget (om_operations m) i = Some r" "wf_map (om_operations m)" "r < length (om_heap m)"
    and "length (om_operations m) \<le> om_maxOperations m" "0 \<le> om_retentionMs m"
  shows "jget (om_operations (transition r st res err t m)) i = Some r"
  unfolding transition_def Let_def
  by (rule retain_keeps) (use assms in \<open>simp_all add: op_frames stale_terminal_def\<close>)

text \<open>a cancelled operation can still be dispatched. Once the closure of an operation has passed its
  first status check, \<open>cancel\<close> answers with the status \<open>cancelled\<close> and settles the waiters,
  and the closure then sets the operation to \<open>running\<close> and calls the device.\<close>

theorem cancelled_then_dispatched:
  assumes "phase_of m r = AwaitingBefore" "jget (om_operations m) i = Some r" "r < length (om_heap m)"
    and "op_status (cell m r) = Queued" "op_id (cell m r) = i"
    and "wf_map (om_operations m)" "length (om_operations m) \<le> om_maxOperations m" "0 \<le> om_retentionMs m"
  shows "\<exists>s m1. cancel_op i reason t m = (Inr (Settled (AnsSnapshot s)), m1) \<and> op_status s = Cancelled \<and>
    op_status (cell (before_done r t2 m1) r) = Running \<and> phase_of (before_done r t2 m1) r = Dispatched"
proof -
  let ?m1 = "transition r Cancelled None (Some (cancelled_error reason)) t m"
  let ?m2 = "emit EvCancelled r t (opt_str ''reason'' reason @ [(''stopConfirmed'', JBool True)]) ?m1"
  let ?m3 = "snd (settle i ?m2)"
  have "jget (om_operations ?m2) i = Some r"
    using transition_keeps[OF assms(2,6,3,7,8)] by (simp add: op_frames)
  then have ok: "fst (settle i ?m2)"
    by (simp add: settle_def)
  have queued: "\<not> terminal_at m r"
    using assms(4) by (simp add: terminal_at_def isTerminalOperationStatus_def TERMINAL_STATUSES_def)
  have c: "cancel_op i reason t m = (Inr (Settled (AnsSnapshot (publicSnapshot (cell ?m3 r)))), ?m3)"
    using assms(2,4) queued ok by (simp add: cancel_op_def Let_def split_beta)
  have "op_status (cell ?m3 r) = Cancelled"
    using assms(3) by (simp add: op_frames)
  moreover have "phase_of ?m3 r = AwaitingBefore" "jget (om_runs m) r \<noteq> None"
    using assms(1) by (auto simp: phase_of_def op_frames split: option.splits)
  moreover have "r < length (om_heap ?m3)"
    using assms(3) by (simp add: op_frames)
  ultimately have "op_status (cell (before_done r t2 ?m3) r) = Running"
    "phase_of (before_done r t2 ?m3) r = Dispatched"
    by (auto simp: before_done_def Let_def op_frames)
      (auto simp: phase_of_def goto_phase_def set_run_def op_frames jget_set split: option.splits)
  with c \<open>op_status (cell ?m3 r) = Cancelled\<close> show ?thesis
    by (auto simp: publicSnapshot_def op_snapshot.defs)
qed

theorem cancelled_then_dispatched_witness:
  "\<exists>s m1. cancel_op (op_key 1 ''x'') None 6 wit_started = (Inr (Settled (AnsSnapshot s)), m1) \<and>
    op_status s = Cancelled \<and> op_status (cell (before_done 0 7 m1) 0) = Running \<and>
    phase_of (before_done 0 7 m1) 0 = Dispatched"
  by (rule cancelled_then_dispatched) (simp_all add: op_eval wf_map_def)

text \<open>retention can drop an operation at the moment it completes, before its waiters are told. With a
  limit of one operation and two begun, the first completes, is evicted as the oldest terminal
  one, and the caller waiting for its result is never answered.\<close>

theorem evicted_before_settled:
  "let m = op_run_calls (wit_manager (Some 1))
       [CBegin (wit_begin None) ''x'' 1, CBegin (wit_begin None) ''y'' 2, CWaitForResult (op_key 1 ''x''),
        CMicrotask 0, CBeforeDone 0 3, CRunDone 0 [], CAfterDone 0 4]
   in op_status (cell m 0) = Completed \<and> jget (om_operations m) (op_key 1 ''x'') = None \<and>
     om_answers m = [] \<and> waiters_of m (op_key 1 ''x'') = [WResult 0] \<and> phase_of m 0 = Finished"
proof -
  have neq: "op_key (Suc (Suc 0)) ''y'' \<noteq> op_key (Suc 0) ''x''" "op_key (Suc 0) ''x'' \<noteq> op_key (Suc (Suc 0)) ''y''"
    by (simp_all add: op_key_def nat_str.simps digit_char_def)
  show ?thesis
    by (simp add: op_eval neq)
qed

end
