(* ===== verification/Op_Recovery.thy ===== *)
theory Op_Recovery
  imports Operations
begin

text \<open>
  \<open>OperationManager.hydrate\<close> of \<open>packages/core/src/operation/operationManager.ts\<close>: after a
  restart the journal is replayed into operation states; an operation without a terminal entry was
  interrupted before its dispatch (\<open>aborted\<close>) or after it (\<open>requires_reconciliation\<close>). Numbers of
  operation ids are below \<open>2^53\<close>. A primitive \<open>result\<close> in a reconciled entry has no
  properties and is read as the empty object.
\<close>

record op_state =
  os_operationId :: string
  os_deviceId :: string
  os_capability :: string
  os_owner :: "string option"
  os_idempotencyKey :: "string option"
  os_createdAt :: time
  os_startedAt :: "time option"
  os_finishedAt :: "time option"
  os_progress :: "op_progress option"
  os_status :: op_status
  os_result :: "jsrecord option"
  os_error :: "op_error option"
  os_reconciled :: bool
  os_reconciliation :: "reconciliation_record option"
  os_hasRequested :: bool
  os_hasStarted :: bool
  os_hasTerminal :: bool

definition str_prop :: "jsrecord \<Rightarrow> string \<Rightarrow> string option" where
  "str_prop r k = (case ownprop r k of JStr s \<Rightarrow> Some s | _ \<Rightarrow> None)"

text \<open>A value as an object: \<open>typeof v === 'object'\<close> and not \<open>null\<close>.\<close>

fun as_object :: "jsval \<Rightarrow> jsrecord option" where
  "as_object (JObj f) = Some f"
| "as_object (JArr xs) = Some (zip (map nat_str [0..<length xs]) xs)"
| "as_object _ = None"

definition first_some :: "'a option \<Rightarrow> 'a option \<Rightarrow> 'a option" where
  "first_some a b = (case a of Some x \<Rightarrow> Some x | None \<Rightarrow> b)"

definition new_state :: "string \<Rightarrow> string \<Rightarrow> jsrecord \<Rightarrow> time \<Rightarrow> op_state" where
  "new_state i d payload t =
    \<lparr>os_operationId = i, os_deviceId = d,
     os_capability = (case str_prop payload ''capability'' of Some c \<Rightarrow> c | None \<Rightarrow> ''unknown''),
     os_owner = str_prop payload ''owner'', os_idempotencyKey = str_prop payload ''idempotencyKey'',
     os_createdAt = t, os_startedAt = None, os_finishedAt = None, os_progress = None, os_status = Queued,
     os_result = None, os_error = None, os_reconciled = False, os_reconciliation = None,
     os_hasRequested = False, os_hasStarted = False, os_hasTerminal = False\<rparr>"

definition read_identity :: "jsrecord \<Rightarrow> op_state \<Rightarrow> op_state" where
  "read_identity payload op =
    op\<lparr>os_capability := (case str_prop payload ''capability'' of Some c \<Rightarrow> c | None \<Rightarrow> os_capability op),
       os_owner := first_some (str_prop payload ''owner'') (os_owner op),
       os_idempotencyKey := first_some (str_prop payload ''idempotencyKey'') (os_idempotencyKey op)\<rparr>"

definition terminal_entry :: "op_status \<Rightarrow> time \<Rightarrow> op_state \<Rightarrow> op_state" where
  "terminal_entry st t op = op\<lparr>os_hasTerminal := True, os_status := st, os_finishedAt := Some t\<rparr>"

text \<open>The error object of a failed entry, when it has a string code and message.\<close>

definition read_error :: "jsrecord \<Rightarrow> op_error option" where
  "read_error payload =
    (case as_object (ownprop payload ''error'') of
      None \<Rightarrow> None
    | Some err \<Rightarrow>
        (case (str_prop err ''code'', str_prop err ''message'') of
          (Some c, Some msg) \<Rightarrow>
            Some \<lparr>oe_code = c, oe_message = msg,
              oe_retryable = (case ownprop err ''retryable'' of JBool b \<Rightarrow> b | _ \<Rightarrow> False),
              oe_details = as_object (ownprop err ''details'')\<rparr>
        | _ \<Rightarrow> None))"

definition read_resolution :: "jsrecord \<Rightarrow> reconciliation_resolution option" where
  "read_resolution payload =
    (case str_prop payload ''resolution'' of
      None \<Rightarrow> None
    | Some s \<Rightarrow>
        if s = ''observedComplete'' then Some ObservedComplete
        else if s = ''observedNotDone'' then Some ObservedNotDone
        else if s = ''abandoned'' then Some Abandoned else None)"

definition read_reconciled :: "jsrecord \<Rightarrow> time \<Rightarrow> op_state \<Rightarrow> op_state" where
  "read_reconciled payload t op0 =
    (let res = read_resolution payload;
         op = op0\<lparr>os_hasTerminal := True, os_reconciled := True,
           os_reconciliation := Some \<lparr>rc_resolution = res, rc_note = str_prop payload ''note'',
             rc_actor = str_prop payload ''actor'', rc_reconciledAt = t\<rparr>,
           os_finishedAt := Some t\<rparr>
     in if res = Some ObservedComplete then
          op\<lparr>os_status := Completed, os_error := None,
             os_result := Some (if ownprop payload ''result'' = JUndefined \<or> ownprop payload ''result'' = JNull
               then [(''reconciled'', JBool True), (''resolution'', JStr ''observedComplete'')]
               else case as_object (ownprop payload ''result'') of Some f \<Rightarrow> f | None \<Rightarrow> [])\<rparr>
        else if res = Some ObservedNotDone then
          op\<lparr>os_status := Cancelled,
             os_error := Some (plain_error ''OPERATION_RECONCILED_NOT_DONE'' ''Reconciled as not done.'' False)\<rparr>
        else
          op\<lparr>os_status := Failed,
             os_error := Some (plain_error ''OPERATION_ABANDONED'' ''Operation abandoned during reconciliation.'' False)\<rparr>)"

definition read_entry :: "op_kind \<Rightarrow> jsrecord \<Rightarrow> time \<Rightarrow> op_state \<Rightarrow> op_state" where
  "read_entry kind payload t op =
    (case kind of
      EvRequested \<Rightarrow> op\<lparr>os_hasRequested := True, os_createdAt := t, os_status := Queued\<rparr>
    | EvStarted \<Rightarrow> op\<lparr>os_hasStarted := True, os_startedAt := Some t, os_status := Running\<rparr>
    | EvProgress \<Rightarrow> op\<lparr>os_progress := Some
        \<lparr>pg_fraction = (case ownprop payload ''fraction'' of JNum n \<Rightarrow> Some n | _ \<Rightarrow> None),
         pg_message = str_prop payload ''message'', pg_at = t\<rparr>\<rparr>
    | EvCompleted \<Rightarrow> (terminal_entry Completed t op)
        \<lparr>os_result := first_some (as_object (ownprop payload ''result'')) (os_result op)\<rparr>
    | EvFailed \<Rightarrow> (terminal_entry Failed t op)\<lparr>os_error := first_some (read_error payload) (os_error op)\<rparr>
    | EvCancelled \<Rightarrow> (terminal_entry Cancelled t op)
        \<lparr>os_error := Some (plain_error ''OPERATION_CANCELLED''
           (case str_prop payload ''reason'' of Some s \<Rightarrow> s | None \<Rightarrow> ''Operation cancelled.'') True)\<rparr>
    | EvTimedOut \<Rightarrow> (terminal_entry TimedOut t op)
        \<lparr>os_error := Some (plain_error ''OPERATION_TIMEOUT'' ''Operation exceeded its deadline.'' True)\<rparr>
    | EvRejected \<Rightarrow> terminal_entry Rejected t op
    | EvReconciled \<Rightarrow> read_reconciled payload t op
    | EvAborted \<Rightarrow> (terminal_entry Aborted t op)
        \<lparr>os_error := Some (plain_error ''OPERATION_ABORTED_BEFORE_DISPATCH''
           ''Operation was accepted but not dispatched before restart.'' False)\<rparr>
    | EvStopUnconfirmed \<Rightarrow> (terminal_entry StopUnconfirmed t op)
        \<lparr>os_error := Some (plain_error ''OPERATION_STOP_UNCONFIRMED''
           ''Cancellation was requested but device stop was unconfirmed.'' False)\<rparr>
    | EvUncertain \<Rightarrow> op)"

text \<open>The state of one operation after one more of its entries.\<close>

definition entry_state :: "op_kind journal_entry \<Rightarrow> string \<Rightarrow> string \<Rightarrow> op_state option \<Rightarrow> op_state" where
  "entry_state e i d old =
    (let payload = (case je_payload e of None \<Rightarrow> [] | Some p \<Rightarrow> p);
         op = (case old of Some op \<Rightarrow> op | None \<Rightarrow> new_state i d payload (je_at e))
     in read_entry (je_kind e) payload (je_at e) (read_identity payload op))"

definition replay_entry :: "(string, op_state) jmap \<Rightarrow> op_kind journal_entry \<Rightarrow> (string, op_state) jmap" where
  "replay_entry ops e =
    (if \<not> truthy (je_operationId e) \<or> \<not> truthy (je_deviceId e) then ops
     else jset (the (je_operationId e))
       (entry_state e (the (je_operationId e)) (the (je_deviceId e)) (jget ops (the (je_operationId e)))) ops)"

text \<open>The crash windows.\<close>

definition close_window :: "time \<Rightarrow> op_state \<Rightarrow> op_state" where
  "close_window now op =
    (if os_hasTerminal op then op
     else if os_hasStarted op then
       op\<lparr>os_status := RequiresReconciliation, os_finishedAt := Some now,
          os_error := Some \<lparr>oe_code = ''OPERATION_REQUIRES_RECONCILIATION'',
            oe_message = ''Process restarted while operation was in flight. Physical outcome is uncertain and requires reconciliation.'',
            oe_retryable = False,
            oe_details = Some ([(''crashWindow'', JStr ''after_dispatch_before_ack'')] @
              (case os_startedAt op of None \<Rightarrow> [] | Some t \<Rightarrow> [(''startedAt'', JNum (Fin t))]))\<rparr>\<rparr>
     else
       op\<lparr>os_status := Aborted, os_finishedAt := Some now,
          os_error := Some \<lparr>oe_code = ''OPERATION_ABORTED_BEFORE_DISPATCH'',
            oe_message = ''Operation was accepted but not dispatched before process restart.'',
            oe_retryable = False,
            oe_details = Some [(''crashWindow'', JStr ''before_dispatch''), (''createdAt'', JNum (Fin (os_createdAt op)))]\<rparr>\<rparr>)"

definition state_operation :: "op_state \<Rightarrow> operation" where
  "state_operation op =
    \<lparr>op_id = os_operationId op, op_deviceId = os_deviceId op, op_capability = os_capability op,
     op_status = os_status op,
     op_idempotencyKey = (if truthy (os_idempotencyKey op) then os_idempotencyKey op else None),
     op_owner = os_owner op, op_createdAt = os_createdAt op, op_startedAt = os_startedAt op, op_deadline = None,
     op_cancelRequestedAt = None, op_finishedAt = os_finishedAt op, op_progress = os_progress op,
     op_result = os_result op, op_error = os_error op, op_reconciled = os_reconciled op,
     op_reconciliation = os_reconciliation op, op_abort = None\<rparr>"

text \<open>\<open>/^op_(\d+)_/\<close>: the number of an operation id.\<close>

definition id_number :: "string \<Rightarrow> nat option" where
  "id_number i =
    (let rest = drop 3 i; digits = takeWhile is_digit rest
     in if starts_with ''op_'' i \<and> digits \<noteq> [] \<and> starts_with ''_'' (dropWhile is_digit rest)
        then Some (str_nat digits) else None)"

definition state_tombstone :: "op_state \<Rightarrow> tombstone option" where
  "state_tombstone op =
    (if \<not> truthy (os_idempotencyKey op) then None
     else Some \<lparr>ts_operationId = os_operationId op, ts_deviceId = os_deviceId op,
       ts_capability = os_capability op, ts_owner = os_owner op, ts_key = the (os_idempotencyKey op),
       ts_status = os_status op, ts_createdAt = os_createdAt op, ts_result = os_result op,
       ts_error = os_error op,
       ts_lastUsedAt = (case os_finishedAt op of Some t \<Rightarrow> t | None \<Rightarrow> os_createdAt op)\<rparr>)"

definition restore_state :: "op_state \<Rightarrow> op_manager \<Rightarrow> op_manager" where
  "restore_state op m =
    (let m1 = alloc (state_operation op) m
     in case id_number (os_operationId op) of
          None \<Rightarrow> m1
        | Some n \<Rightarrow> if n > om_sequence m1 then m1\<lparr>om_sequence := n\<rparr> else m1)"

definition hydrate_kinds :: "op_kind list" where
  "hydrate_kinds = [EvRequested, EvStarted, EvProgress, EvCompleted, EvFailed, EvCancelled, EvTimedOut,
    EvRejected, EvReconciled, EvUncertain, EvAborted, EvStopUnconfirmed]"

definition recovered_states :: "op_kind journal \<Rightarrow> time \<Rightarrow> op_state list" where
  "recovered_states j now =
    map (close_window now) (jvalues (foldl replay_entry []
      (journal_query \<lparr>jq_deviceId = None, jq_operationId = None, jq_kinds = Some hydrate_kinds,
        jq_afterSequence = None, jq_limit = None\<rparr> j)))"

definition hydrate_manager :: "time \<Rightarrow> op_manager \<Rightarrow> op_manager" where
  "hydrate_manager now m =
    (case om_journal m of
      None \<Rightarrow> m
    | Some j \<Rightarrow>
        (let states = recovered_states j now;
             m1 = fold restore_state states m
         in m1\<lparr>om_store := snd (hydrate_store (List.map_filter state_tombstone states) now (om_store m1))\<rparr>))"

subsection \<open>Replaying the entries of one operation\<close>

definition entries_of :: "string \<Rightarrow> op_kind journal_entry list \<Rightarrow> op_kind journal_entry list" where
  "entries_of i es = filter (\<lambda>e. je_operationId e = Some i \<and> i \<noteq> [] \<and> truthy (je_deviceId e)) es"

definition replay_one :: "string \<Rightarrow> op_state option \<Rightarrow> op_kind journal_entry \<Rightarrow> op_state option" where
  "replay_one i old e = Some (entry_state e i (the (je_deviceId e)) old)"

lemma replay_get:
  "jget (foldl replay_entry ops es) i = foldl (replay_one i) (jget ops i) (entries_of i es)"
proof (induction es arbitrary: ops)
  case (Cons e es)
  have "jget (replay_entry ops e) i =
      (if je_operationId e = Some i \<and> i \<noteq> [] \<and> truthy (je_deviceId e) then replay_one i (jget ops i) e
       else jget ops i)"
    by (cases "je_operationId e") (auto simp: replay_entry_def replay_one_def jget_set)
  with Cons.IH[of "replay_entry ops e"] show ?case
    by (auto simp: entries_of_def)
qed (simp add: entries_of_def)

fun terminal_kind :: "op_kind \<Rightarrow> bool" where
  "terminal_kind EvRequested = False"
| "terminal_kind EvStarted = False"
| "terminal_kind EvProgress = False"
| "terminal_kind EvUncertain = False"
| "terminal_kind _ = True"

lemma entry_state_flags:
  "os_operationId (entry_state e i d old) = (case old of None \<Rightarrow> i | Some op \<Rightarrow> os_operationId op)"
  "os_hasTerminal (entry_state e i d old) \<longleftrightarrow>
    terminal_kind (je_kind e) \<or> (case old of None \<Rightarrow> False | Some op \<Rightarrow> os_hasTerminal op)"
  "os_hasStarted (entry_state e i d old) \<longleftrightarrow>
    je_kind e = EvStarted \<or> (case old of None \<Rightarrow> False | Some op \<Rightarrow> os_hasStarted op)"
  by (cases "je_kind e"; cases old;
      simp add: entry_state_def read_entry_def read_identity_def new_state_def terminal_entry_def
        read_reconciled_def Let_def)+

definition quiet_kind :: "op_kind \<Rightarrow> bool" where
  "quiet_kind k = (k = EvProgress \<or> k = EvUncertain)"

lemma entry_state_quiet:
  "quiet_kind (je_kind e) \<Longrightarrow> os_status (entry_state e i d (Some op)) = os_status op"
  by (auto simp: quiet_kind_def entry_state_def read_entry_def read_identity_def Let_def)

lemma replay_flags:
  "foldl (replay_one i) old es = Some op \<Longrightarrow>
    (case old of None \<Rightarrow> os_operationId op = i | Some op0 \<Rightarrow> os_operationId op = os_operationId op0) \<and>
    (os_hasTerminal op \<longleftrightarrow> (\<exists>e\<in>set es. terminal_kind (je_kind e)) \<or>
      (case old of None \<Rightarrow> False | Some op0 \<Rightarrow> os_hasTerminal op0)) \<and>
    (os_hasStarted op \<longleftrightarrow> (\<exists>e\<in>set es. je_kind e = EvStarted) \<or>
      (case old of None \<Rightarrow> False | Some op0 \<Rightarrow> os_hasStarted op0))"
proof (induction es arbitrary: old)
  case Nil
  then show ?case by simp
next
  case (Cons e es)
  then show ?case
    using Cons.IH[of "replay_one i old e"]
    by (auto simp: replay_one_def entry_state_flags split: option.splits)
qed

lemma replay_quiet:
  "\<forall>e\<in>set es. quiet_kind (je_kind e) \<Longrightarrow>
    \<exists>op'. foldl (replay_one i) (Some op) es = Some op' \<and> os_status op' = os_status op"
proof (induction es arbitrary: op)
  case (Cons e es)
  then obtain op' where "foldl (replay_one i) (Some (entry_state e i (the (je_deviceId e)) (Some op))) es = Some op'"
    "os_status op' = os_status (entry_state e i (the (je_deviceId e)) (Some op))"
    by fastforce
  with Cons.prems entry_state_quiet[of e i "the (je_deviceId e)" op] show ?case
    by (auto simp: replay_one_def[of _ "Some op"])
qed simp

text \<open>The status that a terminal entry records.\<close>

fun kind_status :: "op_kind \<Rightarrow> op_status option" where
  "kind_status EvCompleted = Some Completed"
| "kind_status EvFailed = Some Failed"
| "kind_status EvCancelled = Some Cancelled"
| "kind_status EvTimedOut = Some TimedOut"
| "kind_status EvRejected = Some Rejected"
| "kind_status EvAborted = Some Aborted"
| "kind_status EvStopUnconfirmed = Some StopUnconfirmed"
| "kind_status _ = None"

lemma entry_state_kind:
  "kind_status (je_kind e) = Some st \<Longrightarrow> os_status (entry_state e i d old) = st"
  by (cases "je_kind e") (auto simp: entry_state_def read_entry_def terminal_entry_def Let_def)

text \<open>The status an entry of the journal sets: progress and uncertainty set none.\<close>

definition entry_status :: "op_kind journal_entry \<Rightarrow> op_status option" where
  "entry_status e =
    (case je_kind e of
      EvRequested \<Rightarrow> Some Queued
    | EvStarted \<Rightarrow> Some Running
    | EvReconciled \<Rightarrow>
        (case read_resolution (case je_payload e of None \<Rightarrow> [] | Some p \<Rightarrow> p) of
          Some ObservedComplete \<Rightarrow> Some Completed
        | Some ObservedNotDone \<Rightarrow> Some Cancelled
        | _ \<Rightarrow> Some Failed)
    | k \<Rightarrow> kind_status k)"

text \<open>The status a history ends in: that of its last entry that sets one.\<close>

definition history_status :: "op_kind journal_entry list \<Rightarrow> op_status option" where
  "history_status es = foldl (\<lambda>st e. first_some (entry_status e) st) None es"

lemma entry_state_status:
  "first_some (Some (os_status (entry_state e i d old))) None =
    first_some (entry_status e) (Some (case old of None \<Rightarrow> Queued | Some op \<Rightarrow> os_status op))"
  by (cases "je_kind e"; cases old)
    (auto simp: entry_state_def entry_status_def read_entry_def read_identity_def terminal_entry_def read_reconciled_def
      new_state_def first_some_def Let_def split: option.splits reconciliation_resolution.splits)

lemma replay_status_from:
  "foldl (replay_one i) (Some op0) es = Some op \<Longrightarrow>
    Some (os_status op) = foldl (\<lambda>st e. first_some (entry_status e) st) (Some (os_status op0)) es"
proof (induction es arbitrary: op0)
  case (Cons e es)
  then show ?case
    using entry_state_status[of e i "the (je_deviceId e)" "Some op0"] by (simp add: replay_one_def first_some_def)
qed simp

lemma status_from: "foldl (\<lambda>st e. first_some (entry_status e) st) (Some x) es \<noteq> None"
  by (induction es arbitrary: x) (auto simp: first_some_def split: option.split)

text \<open>Before any entry that sets a status the operation is queued.\<close>

lemma replay_status:
  assumes "foldl (replay_one i) None es = Some op"
  shows "history_status es = None \<or> history_status es = Some (os_status op)"
proof -
  have "foldl (\<lambda>st e. first_some (entry_status e) st) x es = None \<or>
      foldl (\<lambda>st e. first_some (entry_status e) st) x es = foldl (\<lambda>st e. first_some (entry_status e) st) (Some y) es"
    if "x = None \<or> x = Some y" for x y
    using that
  proof (induction es arbitrary: x y)
    case (Cons e es)
    then show ?case
      by (cases "entry_status e") (auto simp: first_some_def)
  qed auto
  note same = this[of None]
  show ?thesis
  proof (cases es)
    case (Cons e rest)
    let ?op = "entry_state e i (the (je_deviceId e)) None"
    have "Some (os_status op) = foldl (\<lambda>st e. first_some (entry_status e) st) (Some (os_status ?op)) rest"
      using replay_status_from[of i ?op rest op] assms Cons by (simp add: replay_one_def)
    then have "Some (os_status op) = foldl (\<lambda>st e. first_some (entry_status e) st) (Some Queued) es"
      using entry_state_status[of e i "the (je_deviceId e)" None] Cons by (simp add: first_some_def)
    then show ?thesis
      using same[of Queued] by (simp add: history_status_def)
  qed (use assms in simp)
qed

lemma terminal_sets_status:
  assumes "list_ex (\<lambda>e. terminal_kind (je_kind e)) es"
  shows "history_status es \<noteq> None"
proof -
  have set: "entry_status e \<noteq> None" if "terminal_kind (je_kind e)" for e
    using that by (cases "je_kind e") (auto simp: entry_status_def split: option.split reconciliation_resolution.split)
  have "foldl (\<lambda>st e. first_some (entry_status e) st) x es \<noteq> None" for x
    using assms
  proof (induction es arbitrary: x)
    case (Cons e es)
    show ?case
    proof (cases "entry_status e")
      case None
      with Cons set[of e] show ?thesis
        by auto
    next
      case (Some st)
      then show ?thesis
        using status_from[of st es] by (simp add: first_some_def)
    qed
  qed simp
  then show ?thesis
    by (simp add: history_status_def)
qed

subsection \<open>The recovered manager\<close>

lemma replay_ids:
  "wf_map ops \<Longrightarrow> \<forall>(i, op)\<in>set ops. os_operationId op = i \<Longrightarrow>
    wf_map (foldl replay_entry ops es) \<and> (\<forall>(i, op)\<in>set (foldl replay_entry ops es). os_operationId op = i)"
proof (induction es arbitrary: ops)
  case (Cons e es)
  have "os_operationId (entry_state e i d (jget ops i)) = i" for i d
    using Cons.prems jget_in[OF Cons.prems(1)] by (auto simp: entry_state_flags split: option.splits)
  then have "\<forall>(i, op)\<in>set (replay_entry ops e). os_operationId op = i"
    using Cons.prems by (auto simp: replay_entry_def set_jset)
  moreover have "wf_map (replay_entry ops e)"
    using Cons.prems(1) by (simp add: replay_entry_def wf_map_set)
  ultimately show ?case
    using Cons.IH by simp
qed simp

lemma restore_frame:
  "om_runs (restore_state op m) = om_runs m" "om_events (restore_state op m) = om_events m"
  "om_journal (restore_state op m) = om_journal m"
  "om_heap (restore_state op m) = om_heap m @ [state_operation op]"
  "om_operations (restore_state op m) = jset (os_operationId op) (length (om_heap m)) (om_operations m)"
  "om_sequence m \<le> om_sequence (restore_state op m)"
  by (auto simp: restore_state_def Let_def alloc_def state_operation_def split: option.splits)

lemma restore_sequence: "id_number (os_operationId op) = Some n \<Longrightarrow> n \<le> om_sequence (restore_state op m)"
  by (simp add: restore_state_def Let_def alloc_def)

lemma restore_all_frame:
  "om_runs (fold restore_state states m) = om_runs m \<and> om_events (fold restore_state states m) = om_events m \<and>
    om_sequence m \<le> om_sequence (fold restore_state states m)"
proof (induction states arbitrary: m)
  case (Cons op states)
  show ?case
    using Cons.IH[of "restore_state op m"] restore_frame[where op = op and m = m] by (simp add: le_trans)
qed simp

lemma restore_all_sequence:
  "op \<in> set states \<Longrightarrow> id_number (os_operationId op) = Some n \<Longrightarrow> n \<le> om_sequence (fold restore_state states m)"
proof (induction states arbitrary: m)
  case (Cons x states)
  show ?case
  proof (cases "op = x")
    case True
    with restore_sequence[of x n m] Cons.prems(2) restore_all_frame[of states "restore_state x m"] show ?thesis
      by (simp add: le_trans)
  qed (use Cons in simp)
qed simp

lemma restore_all_keys:
  "fst ` set (om_operations (fold restore_state states m)) =
    fst ` set (om_operations m) \<union> os_operationId ` set states"
proof (induction states arbitrary: m)
  case (Cons x states)
  then show ?case
    by (auto simp: restore_frame dom_update)
qed simp

lemma restore_all_get:
  assumes "distinct (map os_operationId states)" "op \<in> set states"
  shows "\<exists>r < length (om_heap (fold restore_state states m)).
    jget (om_operations (fold restore_state states m)) (os_operationId op) = Some r \<and>
    cell (fold restore_state states m) r = state_operation op"
  using assms
proof (induction states rule: rev_induct)
  case (snoc x states)
  let ?m = "fold restore_state states m"
  show ?case
  proof (cases "op = x")
    case True
    then show ?thesis
      by (simp add: restore_frame jget_set cell_def)
  next
    case False
    then have op: "op \<in> set states" "distinct (map os_operationId states)"
      "os_operationId x \<notin> os_operationId ` set states"
      using snoc.prems by auto
    then have neq: "os_operationId op \<noteq> os_operationId x"
      by (metis imageI)
    obtain r where r: "r < length (om_heap ?m)" "jget (om_operations ?m) (os_operationId op) = Some r"
      "cell ?m r = state_operation op"
      using snoc.IH[OF op(2,1)] by blast
    then show ?thesis
      using neq by (auto simp: restore_frame jget_set cell_def nth_append intro!: exI[of _ r])
  qed
qed simp

lemma close_window_id [simp]: "os_operationId (close_window now op) = os_operationId op"
  by (simp add: close_window_def)

lemma recovered_ids: "distinct (map os_operationId (recovered_states j now))"
proof -
  let ?es = "journal_query \<lparr>jq_deviceId = None, jq_operationId = None, jq_kinds = Some hydrate_kinds,
    jq_afterSequence = None, jq_limit = None\<rparr> j"
  let ?ops = "foldl replay_entry [] ?es"
  have ok: "wf_map ?ops" "\<forall>(i, op)\<in>set ?ops. os_operationId op = i"
    using replay_ids[of "[]" ?es] by (simp_all add: wf_map_Nil)
  have "map os_operationId (recovered_states j now) = jkeys ?ops"
    using ok(2) by (auto simp: recovered_states_def)
  with ok(1) show ?thesis
    by (simp add: wf_map_def)
qed

text \<open>All kinds are asked for, so the replay sees the whole journal in order.\<close>

definition journal_history :: "string \<Rightarrow> op_kind journal \<Rightarrow> op_kind journal_entry list" where
  "journal_history i j = entries_of i (sort_key je_sequence (jn_storage j))"

lemma hydrate_query:
  "journal_query \<lparr>jq_deviceId = None, jq_operationId = None, jq_kinds = Some hydrate_kinds,
    jq_afterSequence = None, jq_limit = None\<rparr> j = sort_key je_sequence (jn_storage j)"
proof -
  have "k \<in> set hydrate_kinds" for k
    by (cases k) (simp_all add: hydrate_kinds_def)
  then show ?thesis
    by (simp add: journal_query_def query_loop_filter query_match_def)
qed

lemma recovered_state:
  assumes "journal_history i j \<noteq> []"
  shows "\<exists>op. foldl (replay_one i) None (journal_history i j) = Some op \<and>
    close_window now op \<in> set (recovered_states j now) \<and> os_operationId op = i"
proof -
  let ?ops = "foldl replay_entry [] (sort_key je_sequence (jn_storage j))"
  have get: "jget ?ops i = foldl (replay_one i) None (journal_history i j)"
    by (simp add: replay_get journal_history_def)
  have "\<exists>op. foldl (replay_one i) None (journal_history i j) = Some op"
  proof (cases "journal_history i j" rule: rev_cases)
    case (snoc xs x)
    then show ?thesis by (simp add: replay_one_def)
  qed (use assms in simp)
  then obtain op where op: "foldl (replay_one i) None (journal_history i j) = Some op"
    by blast
  with get have "op \<in> set (jvalues ?ops)"
    by (intro jvalues_I[of _ i]) simp
  then have "close_window now op \<in> set (recovered_states j now)"
    by (auto simp: recovered_states_def hydrate_query)
  with op replay_flags[OF op] show ?thesis
    by simp
qed

lemma hydrate_get:
  assumes "om_journal m = Some j" "op \<in> set (recovered_states j now)"
  shows "get_operation (os_operationId op) (hydrate_manager now m) = Some (publicSnapshot (state_operation op))"
  using restore_all_get[OF recovered_ids assms(2), of m] assms(1)
  by (auto simp: hydrate_manager_def get_operation_def Let_def)

subsection \<open>Properties\<close>

text \<open>C7: Recovery classifies every journaled operation by its crash window and replays none. After \<open>hydrate\<close>, an
  operation with entries in the journal but no terminal one is \<open>requires_reconciliation\<close> when it was started and
  \<open>aborted\<close> when it was not. One with a terminal entry, wherever it stands, has the status that the last of its entries
  which sets a status gives it: a terminal status when that entry is terminal, \<open>running\<close> or \<open>queued\<close> when a started or
  requested entry was written after the terminal one. No run is started and no event emitted.\<close>

theorem recovery_windows:
  assumes "om_journal m = Some j" "journal_history i j = es" "es \<noteq> []"
  shows "\<exists>s. get_operation i (hydrate_manager now m) = Some s \<and>
    Some (op_status s) =
      (if list_ex (\<lambda>e. terminal_kind (je_kind e)) es then history_status es
       else if list_ex (\<lambda>e. je_kind e = EvStarted) es then Some RequiresReconciliation
       else Some Aborted) \<and>
    om_runs (hydrate_manager now m) = om_runs m \<and> om_events (hydrate_manager now m) = om_events m"
proof -
  obtain op where op: "foldl (replay_one i) None es = Some op" "close_window now op \<in> set (recovered_states j now)"
    "os_operationId op = i"
    using recovered_state[of i j now] assms by auto
  let ?s = "publicSnapshot (state_operation (close_window now op))"
  have get: "get_operation i (hydrate_manager now m) = Some ?s"
    using hydrate_get[OF assms(1) op(2)] op(3) by simp
  have status: "op_status ?s = os_status (close_window now op)"
    by (simp add: publicSnapshot_def op_snapshot.defs state_operation_def)
  have "om_runs (hydrate_manager now m) = om_runs m \<and> om_events (hydrate_manager now m) = om_events m"
    using restore_all_frame[of "recovered_states j now" m] assms(1) by (simp add: hydrate_manager_def Let_def)
  moreover have "Some (os_status op) = history_status es" if "list_ex (\<lambda>e. terminal_kind (je_kind e)) es"
    using replay_status[OF op(1)] terminal_sets_status[OF that] by auto
  moreover have "Some (os_status (close_window now op)) =
      (if list_ex (\<lambda>e. terminal_kind (je_kind e)) es then Some (os_status op)
       else if list_ex (\<lambda>e. je_kind e = EvStarted) es then Some RequiresReconciliation else Some Aborted)"
    using replay_flags[OF op(1)] by (simp add: close_window_def list_ex_iff)
  ultimately have "Some (op_status ?s) =
      (if list_ex (\<lambda>e. terminal_kind (je_kind e)) es then history_status es
       else if list_ex (\<lambda>e. je_kind e = EvStarted) es then Some RequiresReconciliation else Some Aborted) \<and>
    om_runs (hydrate_manager now m) = om_runs m \<and> om_events (hydrate_manager now m) = om_events m"
    unfolding status by (simp only: split: if_split) blast
  with get show ?thesis
    by blast
qed

definition wit_entry :: "nat \<Rightarrow> op_kind \<Rightarrow> op_kind journal_entry" where
  "wit_entry n k = \<lparr>je_sequence = n, je_at = 10, je_kind = k, je_deviceId = Some ''arm'',
    je_operationId = Some ''op_7_x'', je_payload = None\<rparr>"

definition wit_journal :: "op_kind list \<Rightarrow> op_kind journal" where
  "wit_journal ks = (Journal None)\<lparr>jn_storage := map (\<lambda>(n, k). wit_entry n k) (zip [0..<length ks] ks)\<rparr>"

definition wit_restarted :: "op_kind list \<Rightarrow> op_manager" where
  "wit_restarted ks = OperationManager (\<lambda>_. []) None
    \<lparr>mo_journal = Some (wit_journal ks), mo_retentionMs = None, mo_maxOperations = None\<rparr>"

lemma wit_restarted_journal: "om_journal (wit_restarted ks) = Some (wit_journal ks)"
  by (simp add: wit_restarted_def OperationManager_def)

theorem recovery_windows_witness:
  "\<exists>s. get_operation ''op_7_x'' (hydrate_manager 99 (wit_restarted [EvRequested, EvStarted, EvProgress])) = Some s \<and>
    op_status s = RequiresReconciliation"
proof -
  let ?es = "[wit_entry 0 EvRequested, wit_entry 1 EvStarted, wit_entry 2 EvProgress]"
  have h: "journal_history ''op_7_x'' (wit_journal [EvRequested, EvStarted, EvProgress]) = ?es"
    by (simp add: journal_history_def entries_of_def wit_journal_def wit_entry_def)
  show ?thesis
    using recovery_windows[OF wit_restarted_journal h, of 99] by (auto simp: wit_entry_def)
qed

lemma id_number_op_key: "id_number (op_key n rnd) = Some n"
proof -
  have "\<not> is_digit (CHR ''_'')"
    by (simp add: is_digit_def)
  then have "takeWhile is_digit (nat_str n @ CHR ''_'' # rnd) = nat_str n"
    "dropWhile is_digit (nat_str n @ CHR ''_'' # rnd) = CHR ''_'' # rnd"
    by (simp_all add: takeWhile_digits dropWhile_append2 nat_str_digits)
  then show ?thesis
    by (simp add: id_number_def op_key_def starts_with_def)
qed

text \<open>Operation ids are never reused across a restart: the first operation begun on a recovered manager
  gets an id that no operation of the journal has.\<close>

theorem recovered_ids_not_reused:
  assumes "om_journal m = Some j" "begin_op o' rnd t (hydrate_manager now m) = ((False, i), m')"
  shows "journal_history i j = []"
proof (rule ccontr)
  assume "journal_history i j \<noteq> []"
  from recovered_state[OF this, of now] obtain op where
    op: "close_window now op \<in> set (recovered_states j now)" "os_operationId op = i"
    by blast
  have i: "i = op_key (Suc (om_sequence (hydrate_manager now m))) rnd"
    by (rule begin_fresh_id[OF assms(2)])
  have "id_number (os_operationId (close_window now op)) = Some (Suc (om_sequence (hydrate_manager now m)))"
    using op(2) by (simp add: i id_number_op_key)
  from restore_all_sequence[OF op(1) this, of m] show False
    using assms(1) by (simp add: hydrate_manager_def Let_def)
qed

theorem recovered_ids_not_reused_witness:
  "\<exists>i m'. begin_op (wit_begin None) ''x'' 100 (hydrate_manager 99 (wit_restarted [EvRequested])) = ((False, i), m') \<and>
    journal_history i (wit_journal [EvRequested]) = []"
proof -
  have "fst (fst (begin_op (wit_begin None) ''x'' 100 (hydrate_manager 99 (wit_restarted [EvRequested])))) = False"
    by (simp add: begin_op_def wit_begin_def split_beta Let_def)
  then obtain i m' where
    b: "begin_op (wit_begin None) ''x'' 100 (hydrate_manager 99 (wit_restarted [EvRequested])) = ((False, i), m')"
    by (metis (full_types) prod.collapse)
  then show ?thesis
    using recovered_ids_not_reused[OF wit_restarted_journal b] by blast
qed

text \<open>recovery can leave an operation running that nothing runs. An operation that was cancelled and then
  dispatched has the entries requested, cancelled, started; \<open>hydrate\<close> takes the cancelled entry as
  terminal but the status from the started one, so the operation comes back as \<open>running\<close>, without
  a closure, and cannot be reconciled.\<close>

theorem recovery_leaves_running:
  assumes "om_journal m = Some j" "map je_kind (journal_history i j) = [EvRequested, EvCancelled, EvStarted]"
  shows "\<exists>s. get_operation i (hydrate_manager now m) = Some s \<and> op_status s = Running \<and>
    om_runs (hydrate_manager now m) = om_runs m"
proof -
  obtain a b c where h: "journal_history i j = [a, b, c]" "je_kind a = EvRequested" "je_kind b = EvCancelled"
    "je_kind c = EvStarted"
    using assms(2) by (auto simp: map_eq_Cons_conv)
  obtain op where op: "foldl (replay_one i) None (journal_history i j) = Some op"
    "close_window now op \<in> set (recovered_states j now)" "os_operationId op = i"
    using recovered_state[of i j now] h(1) by auto
  have "os_hasTerminal op"
    using replay_flags[OF op(1)] h by simp
  moreover have "os_status op = Running"
    using op(1) h by (auto simp: replay_one_def entry_state_def[of c] read_entry_def read_identity_def Let_def)
  ultimately have "op_status (publicSnapshot (state_operation (close_window now op))) = Running"
    by (simp add: publicSnapshot_def op_snapshot.defs state_operation_def close_window_def)
  moreover have "om_runs (hydrate_manager now m) = om_runs m"
    using restore_all_frame[of "recovered_states j now" m] assms(1) by (simp add: hydrate_manager_def Let_def)
  ultimately show ?thesis
    using hydrate_get[OF assms(1) op(2)] op(3) by simp
qed

theorem recovery_leaves_running_witness:
  "\<exists>s. get_operation ''op_7_x'' (hydrate_manager 99 (wit_restarted [EvRequested, EvCancelled, EvStarted])) = Some s \<and>
    op_status s = Running \<and> om_runs (hydrate_manager 99 (wit_restarted [EvRequested, EvCancelled, EvStarted])) = []"
  using recovery_leaves_running[OF wit_restarted_journal, of "''op_7_x''" "[EvRequested, EvCancelled, EvStarted]" 99]
  by (auto simp: journal_history_def entries_of_def wit_journal_def wit_entry_def wit_restarted_def OperationManager_def)

end
