(* ===== verification/Frame_Stream.thy ===== *)
theory Frame_Stream
  imports Prelude
begin

text \<open>
  The contract between a byte stream client and its frame codec. A client appends every chunk
  to its buffer and takes complete frames from the head while there are any; the codec promises
  that a decoded frame does not depend on the bytes after it and that decoding makes progress.
  Then the frames do not depend on how the transport cut the stream into chunks.
\<close>

locale frame_codec =
  fixes enc :: "'f \<Rightarrow> 'b list"
    and dec :: "'b list \<Rightarrow> ('f \<times> nat) option"
    and drain :: "'b list \<Rightarrow> 'f list \<times> 'b list"
    and ok :: "'f \<Rightarrow> bool"
  assumes dec_enc: "ok f \<Longrightarrow> dec (enc f) = Some (f, length (enc f))"
    and dec_consumes: "dec bs = Some (f, n) \<Longrightarrow> 0 < n \<and> n \<le> length bs"
    and dec_extend: "dec bs = Some (f, n) \<Longrightarrow> dec (bs @ tail) = Some (f, n)"
    and dec_empty: "dec [] = None"
    and drain_unfold: "drain bs = (case dec bs of None \<Rightarrow> ([], bs)
      | Some (f, n) \<Rightarrow> (f # fst (drain (drop n bs)), snd (drain (drop n bs))))"
begin

text \<open>The buffer and the frames after a sequence of chunks.\<close>

fun feed :: "'b list \<Rightarrow> 'b list list \<Rightarrow> 'f list \<times> 'b list" where
  "feed buf [] = ([], buf)"
| "feed buf (c # cs) =
    (fst (drain (buf @ c)) @ fst (feed (snd (drain (buf @ c))) cs), snd (feed (snd (drain (buf @ c))) cs))"

lemma drain_append:
  "drain (a @ b) = (fst (drain a) @ fst (drain (snd (drain a) @ b)), snd (drain (snd (drain a) @ b)))"
proof (induction "length a" arbitrary: a rule: less_induct)
  case less
  show ?case
  proof (cases "dec a")
    case None
    then show ?thesis
      using drain_unfold[of a] by simp
  next
    case (Some p)
    then obtain f n where p: "dec a = Some (f, n)"
      by (cases p) simp
    have n: "0 < n" "n \<le> length a"
      using dec_consumes[OF p] by auto
    have a: "drain a = (f # fst (drain (drop n a)), snd (drain (drop n a)))"
      using drain_unfold[of a] p by simp
    have "drain (a @ b) = (f # fst (drain (drop n a @ b)), snd (drain (drop n a @ b)))"
      using drain_unfold[of "a @ b"] dec_extend[OF p] n by simp
    also have "drain (drop n a @ b) = (fst (drain (drop n a)) @ fst (drain (snd (drain (drop n a)) @ b)),
        snd (drain (snd (drain (drop n a)) @ b)))"
      by (rule less.hyps) (use n in simp)
    finally show ?thesis
      by (simp add: a)
  qed
qed

lemma drain_rest: "drain (snd (drain a)) = ([], snd (drain a))"
  using drain_append[of a "[]"] by (metis append_Nil2 append_self_conv fst_conv prod.collapse snd_conv)

text \<open>Chunking does not matter.\<close>

lemma feed_drain:
  "drain buf = ([], buf) \<Longrightarrow> feed buf cs = drain (buf @ concat cs)"
proof (induction cs arbitrary: buf)
  case (Cons c cs)
  have "feed (snd (drain (buf @ c))) cs = drain (snd (drain (buf @ c)) @ concat cs)"
    by (rule Cons.IH[OF drain_rest])
  then show ?case
    using drain_append[of "buf @ c" "concat cs"] by simp
qed simp

lemma drain_frames: "\<forall>f\<in>set fs. ok f \<Longrightarrow> drain (concat (map enc fs)) = (fs, [])"
proof (induction fs)
  case Nil
  show ?case
    using drain_unfold[of "[]"] dec_empty by simp
next
  case (Cons f fs)
  then show ?case
    using drain_unfold[of "enc f @ concat (map enc fs)"] dec_extend[OF dec_enc, of f "concat (map enc fs)"]
    by simp
qed

lemma frames_survive_chunking:
  assumes "\<forall>f\<in>set fs. ok f" "concat cs = concat (map enc fs)"
  shows "feed [] cs = (fs, [])"
proof -
  have "drain [] = ([], [])"
    using drain_unfold[of "[]"] dec_empty by simp
  then show ?thesis
    using feed_drain[of "[]" cs] drain_frames[OF assms(1)] assms(2) by simp
qed

end

end
