(* ===== verification/Modbus_Wire.thy ===== *)
theory Modbus_Wire
  imports Frame_Stream "HOL-Library.Word"
begin

text \<open>
  The Modbus codec, \<open>packages/protocols-modbus/src/wire.ts\<close>: PDUs, MBAP frames over TCP and
  CRC-protected RTU frames. A byte is an \<open>8 word\<close>, a number an \<open>int\<close>; storing a number in a
  \<open>Uint8Array\<close> is \<open>word_of_int\<close>. Reading past the end of an array gives \<open>undefined\<close>,
  which the bitwise operators take as zero.
\<close>

unbundle bit_operations_syntax

type_synonym byte = "8 word"

subsection \<open>Errors\<close>

datatype modbus_error =
    MODBUS_PROTOCOL_ERROR | MODBUS_INVALID_QUANTITY | MODBUS_CRC_ERROR
  | MODBUS_EXCEPTION string
  | MODBUS_NOT_CONNECTED | MODBUS_CONNECTION_CLOSED | MODBUS_TIMEOUT | MODBUS_INFLIGHT
  | MODBUS_INVALID_VALUE | MODBUS_INVALID_SLAVE
  | MODBUS_MAP_DUPLICATE | MODBUS_MAP_INVALID | MODBUS_MAP_UNKNOWN_ENTRY | MODBUS_MAP_READ_ONLY

definition EXCEPTION_NAMES :: "(int \<times> string) list" where
  "EXCEPTION_NAMES =
    [(1, ''ILLEGAL_FUNCTION''), (2, ''ILLEGAL_DATA_ADDRESS''), (3, ''ILLEGAL_DATA_VALUE''),
     (4, ''SERVER_DEVICE_FAILURE''), (5, ''ACKNOWLEDGE''), (6, ''SERVER_DEVICE_BUSY''),
     (8, ''MEMORY_PARITY_ERROR''), (10, ''GATEWAY_PATH_UNAVAILABLE''), (11, ''GATEWAY_TARGET_FAILED'')]"

definition exceptionError :: "int \<Rightarrow> modbus_error" where
  "exceptionError code =
    MODBUS_EXCEPTION (case map_of EXCEPTION_NAMES code of Some n \<Rightarrow> n | None \<Rightarrow> ''EXCEPTION'')"

subsection \<open>Bytes\<close>

definition hi_byte :: "int \<Rightarrow> byte" where
  "hi_byte n = word_of_int (n div 256)"

definition lo_byte :: "int \<Rightarrow> byte" where
  "lo_byte n = word_of_int n"

definition byte_at :: "byte list \<Rightarrow> nat \<Rightarrow> byte" where
  "byte_at bs i = (if i < length bs then bs ! i else 0)"

text \<open>\<open>(a << 8) | b\<close> of two bytes.\<close>

definition be16 :: "byte \<Rightarrow> byte \<Rightarrow> int" where
  "be16 a b = 256 * uint a + uint b"

subsection \<open>CRC16\<close>

definition crc_bit :: "16 word \<Rightarrow> 16 word" where
  "crc_bit crc = (if bit crc 0 then drop_bit 1 crc XOR 0xA001 else drop_bit 1 crc)"

fun crc_bits :: "nat \<Rightarrow> 16 word \<Rightarrow> 16 word" where
  "crc_bits 0 crc = crc"
| "crc_bits (Suc n) crc = crc_bits n (crc_bit crc)"

definition crc_byte :: "16 word \<Rightarrow> byte \<Rightarrow> 16 word" where
  "crc_byte crc b = crc_bits 8 (crc XOR ucast b)"

definition crc16 :: "byte list \<Rightarrow> 16 word" where
  "crc16 bs = foldl crc_byte 0xFFFF bs"

subsection \<open>PDUs\<close>

definition assertQuantity :: "int \<Rightarrow> int \<Rightarrow> bool" where
  "assertQuantity fc q = (1 \<le> q \<and> q \<le> (if fc = 1 \<or> fc = 2 then 2000 else 125))"

definition encodeReadRequest :: "int \<Rightarrow> int \<Rightarrow> int \<Rightarrow> modbus_error + byte list" where
  "encodeReadRequest fc start q =
    (if \<not> assertQuantity fc q then Inl MODBUS_INVALID_QUANTITY
     else Inr [lo_byte fc, hi_byte start, lo_byte start, hi_byte q, lo_byte q])"

definition encodeWriteSingle :: "int \<Rightarrow> int \<Rightarrow> int \<Rightarrow> byte list" where
  "encodeWriteSingle fc address value =
    [lo_byte fc, hi_byte address, lo_byte address, hi_byte value, lo_byte value]"

text \<open>The byte whose bit \<open>i\<close> is the \<open>i\<close>th of up to eight booleans.\<close>

fun pack_bits :: "nat \<Rightarrow> bool list \<Rightarrow> byte" where
  "pack_bits i [] = 0"
| "pack_bits i (v # vs) = (if v then push_bit i 1 else 0) OR pack_bits (Suc i) vs"

fun pack_coils :: "bool list \<Rightarrow> byte list" where
  "pack_coils [] = []"
| "pack_coils (v # vs) = pack_bits 0 (take 8 (v # vs)) # pack_coils (drop 8 (v # vs))"

definition encodeWriteMultipleCoils :: "int \<Rightarrow> bool list \<Rightarrow> byte list" where
  "encodeWriteMultipleCoils address values =
    (let n = int (length values) in
     [0x0F, hi_byte address, lo_byte address, hi_byte n, lo_byte n, lo_byte ((n + 7) div 8)] @ pack_coils values)"

definition encodeWriteMultipleRegisters :: "int \<Rightarrow> int list \<Rightarrow> byte list" where
  "encodeWriteMultipleRegisters address values =
    (let n = int (length values) in
     [0x10, hi_byte address, lo_byte address, hi_byte n, lo_byte n, lo_byte (n * 2)] @
     concat (map (\<lambda>v. [hi_byte v, lo_byte v]) values))"

datatype pdu_result =
    Bits "bool list"
  | Registers "int list"
  | Echo int int int
  | ExceptionResponse int int

text \<open>The two value loops; they read past a truncated PDU without noticing.\<close>

definition decode_bits :: "byte list \<Rightarrow> nat \<Rightarrow> bool list" where
  "decode_bits pdu count = map (\<lambda>i. bit (byte_at pdu (2 + i div 8)) (i mod 8)) [0..<count * 8]"

definition decode_registers :: "byte list \<Rightarrow> nat \<Rightarrow> int list" where
  "decode_registers pdu count =
    map (\<lambda>i. be16 (byte_at pdu (2 + 2 * i)) (byte_at pdu (3 + 2 * i))) [0..<count div 2]"

text \<open>
  The byte count of a register response that has none is \<open>undefined\<close>, and
  \<open>undefined % 2 !== 0\<close> holds.
\<close>

definition decodePdu :: "byte list \<Rightarrow> int \<Rightarrow> modbus_error + pdu_result" where
  "decodePdu pdu req =
    (case pdu of
      [] \<Rightarrow> Inl MODBUS_PROTOCOL_ERROR
    | fc # _ \<Rightarrow>
        if uint fc = req + 128 then
          (if length pdu < 2 then Inl MODBUS_PROTOCOL_ERROR
           else Inr (ExceptionResponse req (uint (byte_at pdu 1))))
        else if uint fc \<noteq> req then Inl MODBUS_PROTOCOL_ERROR
        else if fc = 1 \<or> fc = 2 then Inr (Bits (decode_bits pdu (unat (byte_at pdu 1))))
        else if fc = 3 \<or> fc = 4 then
          (if length pdu < 2 \<or> odd (unat (byte_at pdu 1)) then Inl MODBUS_PROTOCOL_ERROR
           else Inr (Registers (decode_registers pdu (unat (byte_at pdu 1)))))
        else if fc = 5 \<or> fc = 6 \<or> fc = 0x0F \<or> fc = 0x10 then
          Inr (Echo (uint fc) (be16 (byte_at pdu 1) (byte_at pdu 2)) (be16 (byte_at pdu 3) (byte_at pdu 4)))
        else Inl MODBUS_PROTOCOL_ERROR)"

subsection \<open>MBAP frames\<close>

record mbap_frame =
  mb_transactionId :: int
  mb_protocolId :: int
  mb_unitId :: byte
  mb_pdu :: "byte list"

definition encodeMbap :: "int \<Rightarrow> byte \<Rightarrow> byte list \<Rightarrow> byte list" where
  "encodeMbap tid unit pdu =
    (let n = int (length pdu) + 1 in
     [hi_byte tid, lo_byte tid, 0, 0, hi_byte n, lo_byte n, unit] @ pdu)"

definition mbap_total :: "byte list \<Rightarrow> nat" where
  "mbap_total bs = nat (be16 (byte_at bs 4) (byte_at bs 5)) + 6"

text \<open>\<open>frame.slice(7, expected)\<close> is empty when \<open>expected\<close> is below seven.\<close>

definition decodeMbap :: "byte list \<Rightarrow> modbus_error + mbap_frame" where
  "decodeMbap frame =
    (if length frame < 7 then Inl MODBUS_PROTOCOL_ERROR
     else if length frame < mbap_total frame then Inl MODBUS_PROTOCOL_ERROR
     else Inr \<lparr>mb_transactionId = be16 (byte_at frame 0) (byte_at frame 1),
               mb_protocolId = be16 (byte_at frame 2) (byte_at frame 3),
               mb_unitId = byte_at frame 6,
               mb_pdu = drop 7 (take (mbap_total frame) frame)\<rparr>)"

definition tryDecodeMbap :: "byte list \<Rightarrow> (mbap_frame \<times> nat) option" where
  "tryDecodeMbap buffer =
    (if length buffer < 7 then None
     else if length buffer < mbap_total buffer then None
     else (case decodeMbap buffer of Inl _ \<Rightarrow> None | Inr f \<Rightarrow> Some (f, mbap_total buffer)))"

subsection \<open>RTU frames\<close>

definition encodeRtu :: "byte \<Rightarrow> byte list \<Rightarrow> byte list" where
  "encodeRtu addr pdu =
    (let crc = crc16 (addr # pdu) in addr # pdu @ [ucast crc, ucast (drop_bit 8 crc)])"

definition decodeRtu :: "byte list \<Rightarrow> int \<Rightarrow> byte \<Rightarrow> modbus_error + pdu_result" where
  "decodeRtu frame req addr =
    (if length frame < 4 then Inl MODBUS_PROTOCOL_ERROR
     else if byte_at frame 0 \<noteq> addr then Inl MODBUS_PROTOCOL_ERROR
     else
       (let n = length frame;
            received = be16 (byte_at frame (n - 1)) (byte_at frame (n - 2))
        in if received \<noteq> uint (crc16 (take (n - 2) frame)) then Inl MODBUS_CRC_ERROR
           else decodePdu (drop 1 (take (n - 2) frame)) req))"

subsection \<open>Lemmas on bytes\<close>

lemma uint_hi_byte: "0 \<le> n \<Longrightarrow> n < 65536 \<Longrightarrow> uint (hi_byte n) = n div 256"
  by (simp add: hi_byte_def uint_word_of_int take_bit_eq_mod)

lemma uint_lo_byte: "uint (lo_byte n) = n mod 256"
  by (simp add: lo_byte_def uint_word_of_int take_bit_eq_mod)

lemma uint_hi_byte_mod: "uint (hi_byte n) = n div 256 mod 256"
  by (simp add: hi_byte_def uint_word_of_int take_bit_eq_mod)

lemma be16_mod: "be16 (hi_byte n) (lo_byte n) = n mod 65536"
  using mod_mult2_eq'[of n 256 256] by (simp add: be16_def uint_hi_byte_mod uint_lo_byte)

lemma be16_bytes [simp]: "0 \<le> n \<Longrightarrow> n < 65536 \<Longrightarrow> be16 (hi_byte n) (lo_byte n) = n"
  by (simp add: be16_def uint_hi_byte uint_lo_byte)

lemma be16_range: "0 \<le> be16 a b" "be16 a b < 65536"
proof -
  have "uint a < 256" "uint b < 256"
    using uint_lt2p[of a] uint_lt2p[of b] by simp_all
  then show "0 \<le> be16 a b" "be16 a b < 65536"
    using uint_ge_0[of a] uint_ge_0[of b] by (simp_all add: be16_def del: uint_ge_0)
qed

lemma byte_at_Cons [simp]: "byte_at (b # bs) 0 = b" "byte_at (b # bs) (Suc i) = byte_at bs i"
  by (simp_all add: byte_at_def)

lemma byte_at_Cons2: "byte_at (a # b # bs) (2 + i) = byte_at bs i" "byte_at (a # b # bs) (3 + i) = byte_at bs (Suc i)"
  by (simp_all add: byte_at_def)

lemma byte_at_append: "i < length a \<Longrightarrow> byte_at (a @ b) i = byte_at a i"
  by (simp add: byte_at_def nth_append)

subsection \<open>The stream codec\<close>

lemma tryDecodeMbap_Some:
  "tryDecodeMbap bs = Some (f, n) \<longleftrightarrow> 7 \<le> length bs \<and> n = mbap_total bs \<and> n \<le> length bs \<and> decodeMbap bs = Inr f"
  by (auto simp: tryDecodeMbap_def decodeMbap_def split: sum.splits)

lemma mbap_total_pos: "6 \<le> mbap_total bs"
  by (simp add: mbap_total_def)

text \<open>The receive loop of the clients and of the simulator: take frames while there are any.\<close>

function mbap_drain :: "byte list \<Rightarrow> mbap_frame list \<times> byte list" where
  "mbap_drain bs =
    (case tryDecodeMbap bs of
      None \<Rightarrow> ([], bs)
    | Some (f, n) \<Rightarrow> (f # fst (mbap_drain (drop n bs)), snd (mbap_drain (drop n bs))))"
  by pat_completeness auto
termination
proof (relation "measure length", goal_cases)
  case (2 bs p f n)
  then have "tryDecodeMbap bs = Some (f, n)" by simp
  then show ?case
    using mbap_total_pos[of bs] by (auto simp: tryDecodeMbap_Some)
next
  case (3 bs p f n)
  then have "tryDecodeMbap bs = Some (f, n)" by simp
  then show ?case
    using mbap_total_pos[of bs] by (auto simp: tryDecodeMbap_Some)
qed simp

declare mbap_drain.simps [simp del]

definition mbap_enc :: "mbap_frame \<Rightarrow> byte list" where
  "mbap_enc f = encodeMbap (mb_transactionId f) (mb_unitId f) (mb_pdu f)"

definition mbap_ok :: "mbap_frame \<Rightarrow> bool" where
  "mbap_ok f \<longleftrightarrow> 0 \<le> mb_transactionId f \<and> mb_transactionId f < 65536 \<and> mb_protocolId f = 0 \<and>
    length (mb_pdu f) < 65535"

lemma mbap_header:
  "byte_at ([a, b, c, d, e, f, g] @ p) 0 = a" "byte_at ([a, b, c, d, e, f, g] @ p) 1 = b"
  "byte_at ([a, b, c, d, e, f, g] @ p) 2 = c" "byte_at ([a, b, c, d, e, f, g] @ p) 3 = d"
  "byte_at ([a, b, c, d, e, f, g] @ p) 4 = e" "byte_at ([a, b, c, d, e, f, g] @ p) 5 = f"
  "byte_at ([a, b, c, d, e, f, g] @ p) 6 = g" "drop 7 ([a, b, c, d, e, f, g] @ p) = p"
  "length ([a, b, c, d, e, f, g] @ p) = length p + 7"
  by (simp_all add: byte_at_def)

lemma mbap_dec_enc: "mbap_ok f \<Longrightarrow> tryDecodeMbap (mbap_enc f) = Some (f, length (mbap_enc f))"
proof -
  assume ok: "mbap_ok f"
  let ?n = "int (length (mb_pdu f)) + 1"
  have n: "be16 (hi_byte ?n) (lo_byte ?n) = ?n" "be16 (0::byte) 0 = 0"
    "be16 (hi_byte (mb_transactionId f)) (lo_byte (mb_transactionId f)) = mb_transactionId f"
    using ok by (auto intro!: be16_bytes simp: mbap_ok_def) (simp add: be16_def)
  note e = mbap_enc_def encodeMbap_def Let_def mbap_header
  have len: "length (mbap_enc f) = length (mb_pdu f) + 7"
    by (simp only: e)
  have total: "mbap_total (mbap_enc f) = length (mb_pdu f) + 7"
    unfolding mbap_total_def e n by (simp add: nat_add_distrib)
  have "take (length (mb_pdu f) + 7) (mbap_enc f) = mbap_enc f"
    by (simp add: len)
  then have "decodeMbap (mbap_enc f) = Inr \<lparr>mb_transactionId = be16 (byte_at (mbap_enc f) 0) (byte_at (mbap_enc f) 1),
      mb_protocolId = be16 (byte_at (mbap_enc f) 2) (byte_at (mbap_enc f) 3),
      mb_unitId = byte_at (mbap_enc f) 6, mb_pdu = drop 7 (mbap_enc f)\<rparr>"
    by (simp only: decodeMbap_def total len) simp
  then have "decodeMbap (mbap_enc f) = Inr f"
    using ok by (simp only: e n) (simp add: mbap_ok_def)
  then show ?thesis
    by (simp add: tryDecodeMbap_Some total len)
qed

lemma mbap_extend:
  assumes "7 \<le> length bs" "mbap_total bs \<le> length bs"
  shows "mbap_total (bs @ tail) = mbap_total bs" "decodeMbap (bs @ tail) = decodeMbap bs"
proof -
  show t: "mbap_total (bs @ tail) = mbap_total bs"
    using assms(1) by (simp add: mbap_total_def byte_at_append)
  have "bs \<noteq> []"
    using assms(1) by auto
  then show "decodeMbap (bs @ tail) = decodeMbap bs"
    using assms unfolding decodeMbap_def t by (simp add: byte_at_append)
qed

interpretation mbap: frame_codec mbap_enc tryDecodeMbap mbap_drain mbap_ok
proof unfold_locales
  show "mbap_ok f \<Longrightarrow> tryDecodeMbap (mbap_enc f) = Some (f, length (mbap_enc f))" for f
    by (rule mbap_dec_enc)
  show "tryDecodeMbap bs = Some (f, n) \<Longrightarrow> 0 < n \<and> n \<le> length bs" for bs f n
    using mbap_total_pos[of bs] by (simp add: tryDecodeMbap_Some)
  show "tryDecodeMbap bs = Some (f, n) \<Longrightarrow> tryDecodeMbap (bs @ tail) = Some (f, n)" for bs f n tail
    using mbap_extend[of bs tail] by (auto simp: tryDecodeMbap_Some)
  show "tryDecodeMbap [] = None"
    by (simp add: tryDecodeMbap_def)
  show "mbap_drain bs = (case tryDecodeMbap bs of None \<Rightarrow> ([], bs)
      | Some (f, n) \<Rightarrow> (f # fst (mbap_drain (drop n bs)), snd (mbap_drain (drop n bs))))" for bs
    by (rule mbap_drain.simps)
qed

subsection \<open>Packed values\<close>

lemma byte_at_pairs:
  "i < length vs \<Longrightarrow> byte_at (concat (map (\<lambda>v. [hi_byte v, lo_byte v]) vs) @ r) (2 * i) = hi_byte (vs ! i)"
  "i < length vs \<Longrightarrow> byte_at (concat (map (\<lambda>v. [hi_byte v, lo_byte v]) vs) @ r) (Suc (2 * i)) = lo_byte (vs ! i)"
proof (induction vs arbitrary: i)
  case (Cons v vs)
  { case 1 then show ?case using Cons.IH(1) by (cases i) auto }
  { case 2 then show ?case using Cons.IH(2) by (cases i) auto }
qed simp_all

lemma length_pairs [simp]: "length (concat (map (\<lambda>v. [f v, g v]) vs)) = 2 * length vs"
  by (induction vs) auto

lemma decode_register_pairs:
  "decode_registers (a # b # concat (map (\<lambda>v. [hi_byte v, lo_byte v]) vs)) (2 * length vs) = map (\<lambda>v. v mod 65536) vs"
  using byte_at_pairs[of _ vs "[]"]
  by (auto simp: decode_registers_def byte_at_Cons2 be16_mod intro!: nth_equalityI)

lemma bit_pack_bits:
  "bit (pack_bits k vs) j \<longleftrightarrow> k \<le> j \<and> j < k + length vs \<and> j < 8 \<and> vs ! (j - k)"
proof (induction vs arbitrary: k)
  case (Cons v vs)
  have "bit (if v then push_bit k 1 else (0::byte)) j \<longleftrightarrow> v \<and> j = k \<and> j < 8"
    by (auto simp: bit_simps)
  then have step: "bit (pack_bits k (v # vs)) j \<longleftrightarrow> v \<and> j = k \<and> j < 8 \<or>
      Suc k \<le> j \<and> j < Suc k + length vs \<and> j < 8 \<and> vs ! (j - Suc k)"
    by (simp only: pack_bits.simps bit_or_iff Cons.IH)
  show ?case
  proof (cases "k < j")
    case True
    then have "j - k = Suc (j - Suc k)" by simp
    with True step show ?thesis by simp
  next
    case False
    with step show ?thesis by (cases "j = k") auto
  qed
qed simp

lemma length_pack_coils: "length (pack_coils vs) = (length vs + 7) div 8"
  by (induction vs rule: pack_coils.induct) auto

lemma bit_pack_coils:
  "i < 8 * length (pack_coils vs) \<Longrightarrow>
    bit (pack_coils vs ! (i div 8)) (i mod 8) \<longleftrightarrow> i < length vs \<and> vs ! i"
proof (induction vs arbitrary: i rule: pack_coils.induct)
  case (2 v vs)
  show ?case
  proof (cases "i < 8")
    case True
    then show ?thesis
      by (cases i) (auto simp add: bit_pack_bits min_def simp del: pack_bits.simps)
  next
    case False
    then have i: "i div 8 = Suc ((i - 8) div 8)" "i mod 8 = (i - 8) mod 8"
      by (simp_all add: le_div_geq le_mod_geq)
    have "bit (pack_coils (drop 8 (v # vs)) ! ((i - 8) div 8)) ((i - 8) mod 8) \<longleftrightarrow>
        i - 8 < length (drop 8 (v # vs)) \<and> drop 8 (v # vs) ! (i - 8)"
      using 2(2) False by (intro 2(1)) auto
    moreover have "drop 8 (v # vs) ! (i - 8) = (v # vs) ! i" if "i < length (v # vs)"
      using False that by (simp add: nth_drop)
    ultimately show ?thesis
      using False unfolding i pack_coils.simps nth_Cons_Suc by auto
  qed
qed simp

lemma decode_packed_bits:
  "decode_bits (a # b # pack_coils vs) (length (pack_coils vs)) =
    vs @ replicate (8 * length (pack_coils vs) - length vs) False"
proof (rule nth_equalityI)
  show "length (decode_bits (a # b # pack_coils vs) (length (pack_coils vs))) =
      length (vs @ replicate (8 * length (pack_coils vs) - length vs) False)"
    by (simp add: decode_bits_def length_pack_coils)
  fix i
  assume "i < length (decode_bits (a # b # pack_coils vs) (length (pack_coils vs)))"
  then have i: "i < 8 * length (pack_coils vs)"
    by (simp add: decode_bits_def)
  then have "i div 8 < length (pack_coils vs)"
    by (simp add: div_less_iff_less_mult mult.commute)
  then have "byte_at (a # b # pack_coils vs) (2 + i div 8) = pack_coils vs ! (i div 8)"
    by (simp add: byte_at_def)
  then show "decode_bits (a # b # pack_coils vs) (length (pack_coils vs)) ! i =
      (vs @ replicate (8 * length (pack_coils vs) - length vs) False) ! i"
    using i bit_pack_coils[OF i] by (auto simp: decode_bits_def nth_append)
qed

subsection \<open>The checksum\<close>

text \<open>One shift of the register, with the polynomial's top bit set, loses no information.\<close>

lemma xor_cancel: "a XOR m = b XOR m \<Longrightarrow> a = (b :: 16 word)"
proof -
  assume "a XOR m = b XOR m"
  then have "(a XOR m) XOR m = (b XOR m) XOR m"
    by simp
  then show "a = b"
    by (simp only: xor.assoc xor_self_eq xor.right_neutral)
qed

lemma crc_bit_top: "bit (crc_bit z) 15 \<longleftrightarrow> bit z 0"
proof -
  have "bit (0xA001 :: 16 word) 15" "\<not> bit (drop_bit 1 z) 15"
    by (auto simp: bit_drop_bit_eq dest: bit_imp_le_length)
  then show ?thesis
    by (simp add: crc_bit_def bit_xor_iff)
qed

lemma crc_bit_inj: "crc_bit x = crc_bit y \<Longrightarrow> x = y"
proof -
  assume eq: "crc_bit x = crc_bit y"
  have low: "bit x 0 = bit y 0"
    using eq crc_bit_top[of x] crc_bit_top[of y] by simp
  have rest: "drop_bit 1 x = drop_bit 1 y"
  proof (cases "bit x 0")
    case True
    then show ?thesis
      using eq low by (intro xor_cancel[of "drop_bit 1 x" "0xA001"]) (simp add: crc_bit_def)
  next
    case False
    then show ?thesis
      using eq low by (simp add: crc_bit_def)
  qed
  have "bit x n = bit y n" for n
  proof (cases n)
    case (Suc m)
    then show ?thesis
      using arg_cong[OF rest, of "\<lambda>w. bit w m"] by (simp add: bit_drop_bit_eq)
  qed (simp add: low)
  then show "x = y"
    by (intro bit_eqI)
qed

lemma crc_bits_inj: "crc_bits n x = crc_bits n y \<Longrightarrow> x = y"
  by (induction n arbitrary: x y) (auto dest: crc_bit_inj)

lemma crc_byte_inj: "crc_byte x a = crc_byte y a \<Longrightarrow> x = y"
  by (auto simp only: crc_byte_def dest!: crc_bits_inj xor_cancel)

lemma crc_byte_inj2: "crc_byte x a = crc_byte x b \<Longrightarrow> (ucast a :: 16 word) = ucast b"
  by (metis crc_byte_def crc_bits_inj xor.commute xor_cancel)

lemma crc16_append: "crc16 (a @ b) = foldl crc_byte (crc16 a) b"
  by (simp add: crc16_def)

lemma crc_foldl_inj: "foldl crc_byte x bs = foldl crc_byte y bs \<Longrightarrow> x = y"
  by (induction bs arbitrary: x y) (auto dest!: crc_byte_inj)

text \<open>Two messages that differ in one byte have different checksums.\<close>

lemma crc16_detects_byte:
  assumes "b \<noteq> b'"
  shows "crc16 (xs @ b # ys) \<noteq> crc16 (xs @ b' # ys)"
proof
  assume "crc16 (xs @ b # ys) = crc16 (xs @ b' # ys)"
  then have "crc_byte (crc16 xs) b = crc_byte (crc16 xs) b'"
    by (auto simp: crc16_append dest: crc_foldl_inj)
  then have e: "(ucast b :: 16 word) = ucast b'"
    by (rule crc_byte_inj2)
  have u: "bit (ucast x :: 16 word) n = (bit x n \<and> n < 16)" for x :: byte and n
    by (simp add: bit_ucast_iff conj_commute)
  then have "bit b n = bit b' n" if "n < 8" for n
    using arg_cong[OF e, of "\<lambda>w. bit w n"] that by (simp add: u)
  then have "b = b'"
    by (intro bit_word_eqI) simp
  then show False
    using assms by simp
qed

lemma be16_crc: "be16 (ucast (drop_bit 8 c)) (ucast (c :: 16 word)) = uint c"
proof -
  have "0 \<le> uint c div 256" "uint c div 256 < 256"
    using uint_lt2p[of c] by (simp_all add: pos_imp_zdiv_nonneg_iff)
  then have "uint (ucast (drop_bit 8 c) :: byte) = uint c div 256"
    by (simp add: unsigned_ucast_eq unsigned_drop_bit_eq take_bit_eq_mod drop_bit_eq_div uint_div_distrib)
  moreover have "uint (ucast c :: byte) = uint c mod 256"
    by (simp add: unsigned_ucast_eq take_bit_eq_mod)
  ultimately show ?thesis
    by (simp add: be16_def)
qed

lemma decode_encode_rtu:
  assumes "pdu \<noteq> []"
  shows "decodeRtu (encodeRtu addr pdu) req addr = decodePdu pdu req"
proof -
  let ?c = "crc16 (addr # pdu)"
  let ?f = "(addr # pdu) @ [ucast ?c, ucast (drop_bit 8 ?c)]"
  have f: "encodeRtu addr pdu = ?f"
    by (simp add: encodeRtu_def Let_def)
  have n: "length ?f = length pdu + 3" "4 \<le> length ?f"
    using assms by (cases pdu; simp)+
  have "byte_at ?f (length ?f - 1) = ucast (drop_bit 8 ?c)" "byte_at ?f (length ?f - 2) = ucast ?c"
    by (simp_all add: byte_at_def nth_append)
  moreover have "take (length ?f - 2) ?f = addr # pdu" "byte_at ?f 0 = addr"
    by simp_all
  ultimately show ?thesis
    using n(2) assms unfolding f decodeRtu_def Let_def by (simp only: be16_crc) simp
qed

end
