(* ===== verification/Modbus_Sim.thy ===== *)
theory Modbus_Sim
  imports Modbus_Wire
begin

text \<open>
  The simulated Modbus server, \<open>packages/protocols-modbus/src/simulator.ts\<close>: four address
  spaces, the handler of a request PDU and the receive loop of a connection.
\<close>

record modbus_server =
  sv_coils :: "(int, bool) jmap"
  sv_discreteInputs :: "(int, bool) jmap"
  sv_holdingRegisters :: "(int, int) jmap"
  sv_inputRegisters :: "(int, int) jmap"

definition getCoil :: "modbus_server \<Rightarrow> int \<Rightarrow> bool" where
  "getCoil s a = (case jget (sv_coils s) a of Some v \<Rightarrow> v | None \<Rightarrow> False)"

definition setCoil :: "int \<Rightarrow> bool \<Rightarrow> modbus_server \<Rightarrow> modbus_server" where
  "setCoil a v s = s\<lparr>sv_coils := jset a v (sv_coils s)\<rparr>"

definition getDiscreteInput :: "modbus_server \<Rightarrow> int \<Rightarrow> bool" where
  "getDiscreteInput s a = (case jget (sv_discreteInputs s) a of Some v \<Rightarrow> v | None \<Rightarrow> False)"

definition setDiscreteInput :: "int \<Rightarrow> bool \<Rightarrow> modbus_server \<Rightarrow> modbus_server" where
  "setDiscreteInput a v s = s\<lparr>sv_discreteInputs := jset a v (sv_discreteInputs s)\<rparr>"

definition getHoldingRegister :: "modbus_server \<Rightarrow> int \<Rightarrow> int" where
  "getHoldingRegister s a = (case jget (sv_holdingRegisters s) a of Some v \<Rightarrow> v | None \<Rightarrow> 0)"

definition setHoldingRegister :: "int \<Rightarrow> int \<Rightarrow> modbus_server \<Rightarrow> modbus_server" where
  "setHoldingRegister a v s = s\<lparr>sv_holdingRegisters := jset a (v mod 65536) (sv_holdingRegisters s)\<rparr>"

definition getInputRegister :: "modbus_server \<Rightarrow> int \<Rightarrow> int" where
  "getInputRegister s a = (case jget (sv_inputRegisters s) a of Some v \<Rightarrow> v | None \<Rightarrow> 0)"

definition setInputRegister :: "int \<Rightarrow> int \<Rightarrow> modbus_server \<Rightarrow> modbus_server" where
  "setInputRegister a v s = s\<lparr>sv_inputRegisters := jset a (v mod 65536) (sv_inputRegisters s)\<rparr>"

subsection \<open>The request handler\<close>

text \<open>\<open>Math.ceil(quantity / 8)\<close> data bytes after the function code and the byte count.\<close>

definition bits_response :: "byte \<Rightarrow> bool list \<Rightarrow> byte list" where
  "bits_response fc vs = [fc, lo_byte (int ((length vs + 7) div 8))] @ pack_coils vs"

definition registers_response :: "byte \<Rightarrow> int list \<Rightarrow> byte list" where
  "registers_response fc vs =
    [fc, lo_byte (int (length vs) * 2)] @ concat (map (\<lambda>v. [hi_byte v, lo_byte v]) vs)"

definition addresses :: "int \<Rightarrow> nat \<Rightarrow> int list" where
  "addresses a q = map (\<lambda>i. a + int i) [0..<q]"

fun write_coils :: "byte list \<Rightarrow> int \<Rightarrow> nat list \<Rightarrow> modbus_server \<Rightarrow> modbus_server" where
  "write_coils bytes a [] s = s"
| "write_coils bytes a (i # is) s =
    write_coils bytes a is (setCoil (a + int i) (bit (byte_at bytes (i div 8)) (i mod 8)) s)"

fun write_registers :: "byte list \<Rightarrow> int \<Rightarrow> nat list \<Rightarrow> modbus_server \<Rightarrow> modbus_server" where
  "write_registers bytes a [] s = s"
| "write_registers bytes a (i # is) s =
    write_registers bytes a is
      (setHoldingRegister (a + int i) (be16 (byte_at bytes (2 * i)) (byte_at bytes (2 * i + 1))) s)"

text \<open>
  The function code of an empty PDU is \<open>undefined\<close>: it falls through to the default, where
  \<open>0x80 + undefined\<close> is stored as zero.
\<close>

definition handlePdu :: "modbus_server \<Rightarrow> byte list \<Rightarrow> modbus_server \<times> byte list" where
  "handlePdu s pdu =
    (if pdu = [] then (s, [0, 1])
     else
      (let fc = byte_at pdu 0;
           address = be16 (byte_at pdu 1) (byte_at pdu 2);
           operand = be16 (byte_at pdu 3) (byte_at pdu 4);
           quantity = nat operand;
           dataBytes = take (unat (byte_at pdu 5)) (drop 6 pdu)
       in if fc = 1 then (s, bits_response 1 (map (getCoil s) (addresses address quantity)))
          else if fc = 2 then (s, bits_response 2 (map (getDiscreteInput s) (addresses address quantity)))
          else if fc = 3 then (s, registers_response 3 (map (getHoldingRegister s) (addresses address quantity)))
          else if fc = 4 then (s, registers_response 4 (map (getInputRegister s) (addresses address quantity)))
          else if fc = 5 then (setCoil address (operand = 0xFF00) s, pdu)
          else if fc = 6 then (setHoldingRegister address operand s, pdu)
          else if fc = 0x0F then (write_coils dataBytes address [0..<quantity] s, take 6 pdu)
          else if fc = 0x10 then (write_registers dataBytes address [0..<quantity] s, take 6 pdu)
          else (s, [0x80 + fc, 1])))"

subsection \<open>The connection\<close>

text \<open>One chunk: the handler runs on every complete frame, and its answers are written back.\<close>

fun serve_frames :: "modbus_server \<Rightarrow> mbap_frame list \<Rightarrow> modbus_server \<times> byte list" where
  "serve_frames s [] = (s, [])"
| "serve_frames s (f # fs) =
    (let (s', r) = handlePdu s (mb_pdu f);
         (s'', out) = serve_frames s' fs
     in (s'', encodeMbap (mb_transactionId f) (mb_unitId f) r @ out))"

definition server_data :: "modbus_server \<Rightarrow> byte list \<Rightarrow> byte list \<Rightarrow> modbus_server \<times> byte list \<times> byte list" where
  "server_data s buffer chunk =
    (let (fs, rest) = mbap_drain (buffer @ chunk);
         (s', out) = serve_frames s fs
     in (s', rest, out))"

subsection \<open>Lemmas\<close>

lemma getCoil_set: "getCoil (setCoil a v s) b = (if b = a then v else getCoil s b)"
  by (simp add: getCoil_def setCoil_def jget_set)

lemma getHolding_set:
  "getHoldingRegister (setHoldingRegister a v s) b = (if b = a then v mod 65536 else getHoldingRegister s b)"
  by (simp add: getHoldingRegister_def setHoldingRegister_def jget_set)

lemma setters_frame [simp]:
  "getHoldingRegister (setCoil a v s) b = getHoldingRegister s b"
  "getCoil (setHoldingRegister a n s) b = getCoil s b"
  by (simp_all add: getHoldingRegister_def setCoil_def getCoil_def setHoldingRegister_def)

lemma length_addresses [simp]: "length (addresses a q) = q"
  by (simp add: addresses_def)

lemma nth_addresses [simp]: "i < q \<Longrightarrow> addresses a q ! i = a + int i"
  by (simp add: addresses_def)

lemma write_coils_get:
  "distinct is \<Longrightarrow> getCoil (write_coils bytes a is s) b =
    (if b - a \<in> int ` set is then bit (byte_at bytes (nat (b - a) div 8)) (nat (b - a) mod 8) else getCoil s b)"
  by (induction "is" arbitrary: s) (auto simp: getCoil_set)

lemma write_registers_get:
  "distinct is \<Longrightarrow> getHoldingRegister (write_registers bytes a is s) b =
    (if b - a \<in> int ` set is
     then be16 (byte_at bytes (2 * nat (b - a))) (byte_at bytes (2 * nat (b - a) + 1))
     else getHoldingRegister s b)"
  by (induction "is" arbitrary: s) (auto simp: getHolding_set be16_range mod_pos_pos_trivial)

lemma take_encodeMbap:
  "tid \<in> {0..<65536} \<Longrightarrow> length pdu < 65535 \<Longrightarrow>
    mbap_drain (encodeMbap tid unit pdu) = ([\<lparr>mb_transactionId = tid, mb_protocolId = 0, mb_unitId = unit, mb_pdu = pdu\<rparr>], [])"
  using mbap.drain_frames[of "[\<lparr>mb_transactionId = tid, mb_protocolId = 0, mb_unitId = unit, mb_pdu = pdu\<rparr>]"]
  by (simp add: mbap_enc_def mbap_ok_def)

lemma server_data_frame:
  "tid \<in> {0..<65536} \<Longrightarrow> length pdu < 65535 \<Longrightarrow>
    server_data s [] (encodeMbap tid unit pdu) =
      (fst (handlePdu s pdu), [], encodeMbap tid unit (snd (handlePdu s pdu)))"
  by (simp add: server_data_def take_encodeMbap split_beta Let_def)

end
