(* ===== verification/Modbus_Client.thy ===== *)
theory Modbus_Client
  imports Modbus_Sim
begin

text \<open>
  The Modbus clients, \<open>packages/protocols-modbus/src/tcpClient.ts\<close> and \<open>rtuClient.ts\<close>.
  A pending promise is named by the number of its request; a step that settles promises returns
  them with their outcome. The read and write methods, which both files spell out alike, are
  written over the client's \<open>request\<close>.
\<close>

subsection \<open>The TCP client\<close>

record tcp_client =
  tc_connected :: bool
  tc_closed :: bool
  tc_buffer :: "byte list"
  tc_nextTransactionId :: int
  tc_pending :: "(int, nat) jmap"
  tc_timers :: "(nat \<times> int) list"
  tc_unitId :: byte
  tc_requests :: nat

definition new_tcp_client :: "int \<Rightarrow> tcp_client" where
  "new_tcp_client unit =
    \<lparr>tc_connected = False, tc_closed = False, tc_buffer = [], tc_nextTransactionId = 0,
     tc_pending = [], tc_timers = [], tc_unitId = word_of_int unit, tc_requests = 0\<rparr>"

definition tcp_connect :: "tcp_client \<Rightarrow> tcp_client" where
  "tcp_connect c = c\<lparr>tc_connected := True\<rparr>"

text \<open>\<open>request\<close> up to its await: the promise is \<open>tc_requests\<close>, the frame is written.\<close>

definition tcp_request :: "tcp_client \<Rightarrow> byte list \<Rightarrow> modbus_error + (tcp_client \<times> byte list)" where
  "tcp_request c pdu =
    (if tc_closed c \<or> \<not> tc_connected c then Inl MODBUS_NOT_CONNECTED
     else
      (let tid = tc_nextTransactionId c;
           r = tc_requests c
       in Inr (c\<lparr>tc_nextTransactionId := (tid + 1) mod 65536,
                 tc_timers := tc_timers c @ [(r, tid)],
                 tc_pending := jset tid r (tc_pending c),
                 tc_requests := Suc r\<rparr>,
               encodeMbap tid (tc_unitId c) pdu)))"

definition clear_timer :: "nat \<Rightarrow> tcp_client \<Rightarrow> tcp_client" where
  "clear_timer r c = c\<lparr>tc_timers := filter (\<lambda>(r', _). r' \<noteq> r) (tc_timers c)\<rparr>"

text \<open>The timer of request \<open>r\<close>, set for the transaction id \<open>tid\<close>.\<close>

definition tcp_timeout :: "nat \<Rightarrow> int \<Rightarrow> tcp_client \<Rightarrow> tcp_client \<times> (nat \<times> modbus_error)" where
  "tcp_timeout r tid c =
    (clear_timer r (c\<lparr>tc_pending := jdelete tid (tc_pending c)\<rparr>), (r, MODBUS_TIMEOUT))"

fun deliver_frames :: "mbap_frame list \<Rightarrow> tcp_client \<Rightarrow> tcp_client \<times> (nat \<times> byte list) list" where
  "deliver_frames [] c = (c, [])"
| "deliver_frames (f # fs) c =
    (case jget (tc_pending c) (mb_transactionId f) of
      None \<Rightarrow> deliver_frames fs c
    | Some r \<Rightarrow>
        (let (c', out) = deliver_frames fs
               (clear_timer r (c\<lparr>tc_pending := jdelete (mb_transactionId f) (tc_pending c)\<rparr>))
         in (c', (r, mb_pdu f) # out)))"

definition tcp_data :: "tcp_client \<Rightarrow> byte list \<Rightarrow> tcp_client \<times> (nat \<times> byte list) list" where
  "tcp_data c chunk =
    (let (fs, rest) = mbap_drain (tc_buffer c @ chunk)
     in deliver_frames fs (c\<lparr>tc_buffer := rest\<rparr>))"

definition tcp_failAll :: "modbus_error \<Rightarrow> tcp_client \<Rightarrow> tcp_client \<times> (nat \<times> modbus_error) list" where
  "tcp_failAll e c =
    (foldr clear_timer (jvalues (tc_pending c)) (c\<lparr>tc_pending := []\<rparr>),
     map (\<lambda>(_, r). (r, e)) (tc_pending c))"

definition tcp_close :: "tcp_client \<Rightarrow> tcp_client \<times> (nat \<times> modbus_error) list" where
  "tcp_close c = tcp_failAll MODBUS_CONNECTION_CLOSED (c\<lparr>tc_closed := True, tc_connected := False\<rparr>)"

text \<open>What \<open>request\<close> does with the PDU its promise resolved to.\<close>

definition tcp_response :: "int \<Rightarrow> byte list \<Rightarrow> modbus_error + pdu_result" where
  "tcp_response fc pdu =
    (case decodePdu pdu fc of
      Inl e \<Rightarrow> Inl e
    | Inr (ExceptionResponse _ code) \<Rightarrow> Inl (exceptionError code)
    | Inr r \<Rightarrow> Inr r)"

subsection \<open>The RTU client\<close>

record rtu_client =
  ru_slaveAddress :: byte
  ru_inflight :: "nat option"
  ru_closed :: bool
  ru_requests :: nat

definition new_rtu_client :: "int \<Rightarrow> modbus_error + rtu_client" where
  "new_rtu_client addr =
    (if addr < 1 \<or> 247 < addr then Inl MODBUS_INVALID_SLAVE
     else Inr \<lparr>ru_slaveAddress = word_of_int addr, ru_inflight = None, ru_closed = False, ru_requests = 0\<rparr>)"

definition rtu_request :: "rtu_client \<Rightarrow> byte list \<Rightarrow> modbus_error + (rtu_client \<times> byte list)" where
  "rtu_request c pdu =
    (if ru_closed c then Inl MODBUS_NOT_CONNECTED
     else if ru_inflight c \<noteq> None then Inl MODBUS_INFLIGHT
     else Inr (c\<lparr>ru_inflight := Some (ru_requests c), ru_requests := Suc (ru_requests c)\<rparr>,
               encodeRtu (ru_slaveAddress c) pdu))"

text \<open>One chunk of the transport settles the request in flight; unsolicited bytes are dropped.\<close>

definition rtu_chunk :: "rtu_client \<Rightarrow> byte list \<Rightarrow> rtu_client \<times> (nat \<times> byte list) list" where
  "rtu_chunk c chunk =
    (case ru_inflight c of
      None \<Rightarrow> (c, [])
    | Some r \<Rightarrow> (c\<lparr>ru_inflight := None\<rparr>, [(r, chunk)]))"

definition rtu_timeout :: "nat \<Rightarrow> rtu_client \<Rightarrow> rtu_client \<times> (nat \<times> modbus_error)" where
  "rtu_timeout r c = (c\<lparr>ru_inflight := None\<rparr>, (r, MODBUS_TIMEOUT))"

definition rtu_failPending :: "modbus_error \<Rightarrow> rtu_client \<Rightarrow> rtu_client \<times> (nat \<times> modbus_error) list" where
  "rtu_failPending e c =
    (case ru_inflight c of None \<Rightarrow> (c, []) | Some r \<Rightarrow> (c\<lparr>ru_inflight := None\<rparr>, [(r, e)]))"

definition rtu_close :: "rtu_client \<Rightarrow> rtu_client \<times> (nat \<times> modbus_error) list" where
  "rtu_close c = rtu_failPending MODBUS_CONNECTION_CLOSED (c\<lparr>ru_closed := True\<rparr>)"

definition rtu_response :: "rtu_client \<Rightarrow> int \<Rightarrow> byte list \<Rightarrow> modbus_error + pdu_result" where
  "rtu_response c fc frame = decodeRtu frame fc (ru_slaveAddress c)"

subsection \<open>The methods\<close>

type_synonym 's request = "int \<Rightarrow> byte list \<Rightarrow> 's \<Rightarrow> (modbus_error + pdu_result) \<times> 's"

fun bits_of :: "pdu_result \<Rightarrow> bool list" where
  "bits_of (Bits vs) = vs"
| "bits_of _ = []"

fun registers_of :: "pdu_result \<Rightarrow> int list" where
  "registers_of (Registers vs) = vs"
| "registers_of _ = []"

definition readBits :: "'s request \<Rightarrow> int \<Rightarrow> int \<Rightarrow> int \<Rightarrow> 's \<Rightarrow> (modbus_error + bool list) \<times> 's" where
  "readBits req fc start q s =
    (case encodeReadRequest fc start q of
      Inl e \<Rightarrow> (Inl e, s)
    | Inr pdu \<Rightarrow> (case req fc pdu s of (Inl e, s') \<Rightarrow> (Inl e, s') | (Inr r, s') \<Rightarrow> (Inr (bits_of r), s')))"

definition readRegisters :: "'s request \<Rightarrow> int \<Rightarrow> int \<Rightarrow> int \<Rightarrow> 's \<Rightarrow> (modbus_error + int list) \<times> 's" where
  "readRegisters req fc start q s =
    (case encodeReadRequest fc start q of
      Inl e \<Rightarrow> (Inl e, s)
    | Inr pdu \<Rightarrow> (case req fc pdu s of (Inl e, s') \<Rightarrow> (Inl e, s') | (Inr r, s') \<Rightarrow> (Inr (registers_of r), s')))"

definition readCoils :: "'s request \<Rightarrow> int \<Rightarrow> int \<Rightarrow> 's \<Rightarrow> (modbus_error + bool list) \<times> 's" where
  "readCoils req = readBits req 1"

definition readDiscreteInputs :: "'s request \<Rightarrow> int \<Rightarrow> int \<Rightarrow> 's \<Rightarrow> (modbus_error + bool list) \<times> 's" where
  "readDiscreteInputs req = readBits req 2"

definition readHoldingRegisters :: "'s request \<Rightarrow> int \<Rightarrow> int \<Rightarrow> 's \<Rightarrow> (modbus_error + int list) \<times> 's" where
  "readHoldingRegisters req = readRegisters req 3"

definition readInputRegisters :: "'s request \<Rightarrow> int \<Rightarrow> int \<Rightarrow> 's \<Rightarrow> (modbus_error + int list) \<times> 's" where
  "readInputRegisters req = readRegisters req 4"

definition write_done :: "(modbus_error + pdu_result) \<times> 's \<Rightarrow> (modbus_error + unit) \<times> 's" where
  "write_done x = (case x of (Inl e, s) \<Rightarrow> (Inl e, s) | (Inr _, s) \<Rightarrow> (Inr (), s))"

definition writeSingleCoil :: "'s request \<Rightarrow> int \<Rightarrow> bool \<Rightarrow> 's \<Rightarrow> (modbus_error + unit) \<times> 's" where
  "writeSingleCoil req a v s =
    write_done (req 0x05 (encodeWriteSingle 0x05 a (if v then 0xFF00 else 0)) s)"

definition writeSingleRegister :: "'s request \<Rightarrow> int \<Rightarrow> int \<Rightarrow> 's \<Rightarrow> (modbus_error + unit) \<times> 's" where
  "writeSingleRegister req a v s =
    (if v < 0 \<or> 0xFFFF < v then (Inl MODBUS_INVALID_VALUE, s)
     else write_done (req 0x06 (encodeWriteSingle 0x06 a v) s))"

definition writeMultipleCoils :: "'s request \<Rightarrow> int \<Rightarrow> bool list \<Rightarrow> 's \<Rightarrow> (modbus_error + unit) \<times> 's" where
  "writeMultipleCoils req a vs s = write_done (req 0x0F (encodeWriteMultipleCoils a vs) s)"

definition writeMultipleRegisters :: "'s request \<Rightarrow> int \<Rightarrow> int list \<Rightarrow> 's \<Rightarrow> (modbus_error + unit) \<times> 's" where
  "writeMultipleRegisters req a vs s = write_done (req 0x10 (encodeWriteMultipleRegisters a vs) s)"

text \<open>
  A TCP request against the simulated server: the frame reaches the connection, the answer comes
  back as one chunk, and the promise settles or the timer fires.
\<close>

record modbus_link =
  ln_client :: tcp_client
  ln_server :: modbus_server
  ln_socket :: "byte list"

definition link_request :: "modbus_link request" where
  "link_request fc pdu l =
    (case tcp_request (ln_client l) pdu of
      Inl e \<Rightarrow> (Inl e, l)
    | Inr (c, frame) \<Rightarrow>
       (let (srv, buf, reply) = server_data (ln_server l) (ln_socket l) frame;
            (c', out) = tcp_data c reply;
            r = tc_requests (ln_client l)
        in case map_of out r of
             Some resp \<Rightarrow> (tcp_response fc resp, \<lparr>ln_client = c', ln_server = srv, ln_socket = buf\<rparr>)
           | None \<Rightarrow> (Inl MODBUS_TIMEOUT,
               \<lparr>ln_client = fst (tcp_timeout r (tc_nextTransactionId (ln_client l)) c'),
                ln_server = srv, ln_socket = buf\<rparr>)))"

text \<open>An RTU request over a transport that answers a written frame with one chunk, or not at all.\<close>

definition rtu_exchange :: "(byte list \<Rightarrow> byte list option) \<Rightarrow> rtu_client request" where
  "rtu_exchange bus fc pdu c =
    (case rtu_request c pdu of
      Inl e \<Rightarrow> (Inl e, c)
    | Inr (c', frame) \<Rightarrow>
       (case bus frame of
          None \<Rightarrow> (Inl MODBUS_TIMEOUT, fst (rtu_timeout (ru_requests c) c'))
        | Some chunk \<Rightarrow>
           (let (c'', out) = rtu_chunk c' chunk
            in case map_of out (ru_requests c) of
                 Some frame' \<Rightarrow> (rtu_response c'' fc frame', c'')
               | None \<Rightarrow> (Inl MODBUS_TIMEOUT, fst (rtu_timeout (ru_requests c) c'')))))"

end
