(* ===== verification/Modbus_Laws.thy ===== *)
theory Modbus_Laws
  imports Modbus_Client
begin

text \<open>
  What the Modbus client and the simulated server promise together: the contract of a request
  answered by the server, the methods under that contract, and its interpretation on the TCP link.
\<close>

subsection \<open>The server on encoded requests\<close>

lemma lo_byte_numeral [simp]: "lo_byte (numeral n) = numeral n" "lo_byte 1 = 1"
  by (simp_all add: lo_byte_def)

lemma length_responses [simp]:
  "length (registers_response fc vs) = 2 * length vs + 2"
  "length (bits_response fc bs) = (length bs + 7) div 8 + 2"
  by (simp_all add: registers_response_def bits_response_def length_pack_coils)

lemma handle_read_registers:
  "0 \<le> a \<Longrightarrow> a < 65536 \<Longrightarrow> 0 \<le> q \<Longrightarrow> q < 65536 \<Longrightarrow>
    handlePdu s [3, hi_byte a, lo_byte a, hi_byte q, lo_byte q] =
      (s, registers_response 3 (map (getHoldingRegister s) (addresses a (nat q))))"
  by (simp add: handlePdu_def Let_def byte_at_def)

lemma handle_read_coils:
  "0 \<le> a \<Longrightarrow> a < 65536 \<Longrightarrow> 0 \<le> q \<Longrightarrow> q < 65536 \<Longrightarrow>
    handlePdu s [1, hi_byte a, lo_byte a, hi_byte q, lo_byte q] =
      (s, bits_response 1 (map (getCoil s) (addresses a (nat q))))"
  by (simp add: handlePdu_def Let_def byte_at_def)

lemma handle_write_register:
  "0 \<le> a \<Longrightarrow> a < 65536 \<Longrightarrow> 0 \<le> v \<Longrightarrow> v < 65536 \<Longrightarrow>
    handlePdu s (encodeWriteSingle 6 a v) = (setHoldingRegister a v s, encodeWriteSingle 6 a v)"
  by (simp add: handlePdu_def encodeWriteSingle_def Let_def byte_at_def)

lemma handle_write_registers:
  assumes "0 \<le> a" "a < 65536" "length vs < 65536"
  shows "handlePdu s (encodeWriteMultipleRegisters a vs) =
    (write_registers (take (2 * length vs mod 256) (concat (map (\<lambda>v. [hi_byte v, lo_byte v]) vs))) a [0..<length vs] s,
     take 6 (encodeWriteMultipleRegisters a vs))"
proof -
  have "unat (lo_byte (int (length vs) * 2)) = 2 * length vs mod 256"
    by (simp add: unat_eq_nat_uint uint_lo_byte nat_mod_distrib nat_mult_distrib mult.commute)
  then show ?thesis
    using assms by (simp add: handlePdu_def encodeWriteMultipleRegisters_def Let_def byte_at_def)
qed

lemma decode_registers_response:
  assumes "length vs \<le> 125"
  shows "tcp_response 3 (registers_response 3 vs) = Inr (Registers (map (\<lambda>v. v mod 65536) vs))"
proof -
  have "unat (lo_byte (int (length vs) * 2)) = 2 * length vs"
    using assms by (simp add: unat_eq_nat_uint uint_lo_byte nat_mod_distrib nat_mult_distrib mult.commute)
  then show ?thesis
    by (simp add: tcp_response_def registers_response_def decodePdu_def byte_at_def decode_register_pairs)
qed

lemma decode_bits_response:
  assumes "length vs \<le> 2000"
  shows "tcp_response 1 (bits_response 1 vs) =
    Inr (Bits (vs @ replicate (8 * ((length vs + 7) div 8) - length vs) False))"
proof -
  have "(length vs + 7) div 8 < 256"
    using assms by (simp add: less_eq_div_iff_mult_less_eq div_less_iff_less_mult)
  then have "unat (lo_byte (int ((length vs + 7) div 8))) = length (pack_coils vs)"
    by (simp add: unat_eq_nat_uint uint_lo_byte nat_mod_distrib length_pack_coils)
  moreover have "byte_at (1 # lo_byte (int ((length vs + 7) div 8)) # pack_coils vs) 1 =
      lo_byte (int ((length vs + 7) div 8))"
    by (simp add: byte_at_def)
  ultimately show ?thesis
    by (simp add: tcp_response_def bits_response_def decodePdu_def decode_packed_bits del: pack_coils.simps)
      (simp add: length_pack_coils)
qed

lemma decode_echo:
  "tcp_response 6 (encodeWriteSingle 6 a v) = Inr (Echo 6 (be16 (hi_byte a) (lo_byte a)) (be16 (hi_byte v) (lo_byte v)))"
  "tcp_response 5 (encodeWriteSingle 5 a v) = Inr (Echo 5 (be16 (hi_byte a) (lo_byte a)) (be16 (hi_byte v) (lo_byte v)))"
  "\<exists>b c. tcp_response 16 (take 6 (encodeWriteMultipleRegisters a vs)) = Inr (Echo 16 b c)"
  by (simp_all add: tcp_response_def encodeWriteSingle_def encodeWriteMultipleRegisters_def decodePdu_def
      byte_at_def Let_def)

lemma handle_write_coil:
  "0 \<le> a \<Longrightarrow> a < 65536 \<Longrightarrow> 0 \<le> v \<Longrightarrow> v < 65536 \<Longrightarrow>
    handlePdu s (encodeWriteSingle 5 a v) = (setCoil a (v = 0xFF00) s, encodeWriteSingle 5 a v)"
  by (simp add: handlePdu_def encodeWriteSingle_def Let_def byte_at_def)

lemma written_register:
  assumes "i < length vs"
  shows "getHoldingRegister
      (write_registers (take (2 * length vs mod 256) (concat (map (\<lambda>v. [hi_byte v, lo_byte v]) vs))) a [0..<length vs] s)
      (a + int i) =
    (if i < length vs mod 128 then vs ! i mod 65536 else 0)"
proof -
  let ?d = "concat (map (\<lambda>v. [hi_byte v, lo_byte v]) vs)" and ?n = "2 * (length vs mod 128)"
  have n: "2 * length vs mod 256 = ?n"
    using mult_mod_right[of 2 "length vs" 128] by simp
  have "a + int i - a \<in> int ` set [0..<length vs]"
    using assms by auto
  then have r: "getHoldingRegister (write_registers (take ?n ?d) a [0..<length vs] s) (a + int i) =
      be16 (byte_at (take ?n ?d) (2 * i)) (byte_at (take ?n ?d) (2 * i + 1))"
    by (simp add: write_registers_get)
  show ?thesis
  proof (cases "i < length vs mod 128")
    case True
    then have "byte_at (take ?n ?d) (2 * i) = byte_at ?d (2 * i)"
      "byte_at (take ?n ?d) (2 * i + 1) = byte_at ?d (Suc (2 * i))"
      using assms by (simp_all add: byte_at_def)
    with True show ?thesis
      unfolding n r using byte_at_pairs[OF assms, of "[]"] by (simp add: be16_mod del: One_nat_def)
  next
    case False
    then have "byte_at (take ?n ?d) (2 * i) = 0" "byte_at (take ?n ?d) (2 * i + 1) = 0"
      by (simp_all add: byte_at_def)
    with False show ?thesis
      unfolding n r by (simp add: be16_def)
  qed
qed

subsection \<open>The contract of a request\<close>

locale modbus_slave =
  fixes request :: "'s request"
    and slave :: "'s \<Rightarrow> modbus_server"
    and idle :: "'s \<Rightarrow> bool"
  assumes answered: "\<lbrakk>idle s; length pdu < 65535; length (snd (handlePdu (slave s) pdu)) < 65535\<rbrakk> \<Longrightarrow>
      fst (request fc pdu s) = tcp_response fc (snd (handlePdu (slave s) pdu))"
    and served: "\<lbrakk>idle s; length pdu < 65535; length (snd (handlePdu (slave s) pdu)) < 65535\<rbrakk> \<Longrightarrow>
      slave (snd (request fc pdu s)) = fst (handlePdu (slave s) pdu)"
    and idles: "\<lbrakk>idle s; length pdu < 65535; length (snd (handlePdu (slave s) pdu)) < 65535\<rbrakk> \<Longrightarrow>
      idle (snd (request fc pdu s))"
begin

lemma exchange:
  assumes "idle s" "length pdu < 65535" "handlePdu (slave s) pdu = (srv, resp)" "length resp < 65535"
  shows "\<exists>s'. request fc pdu s = (tcp_response fc resp, s') \<and> slave s' = srv \<and> idle s'"
  using answered[of s pdu fc] served[of s pdu fc] idles[of s pdu fc] assms
  by (intro exI[of _ "snd (request fc pdu s)"]) (simp add: prod_eq_iff)

lemma read_holding:
  assumes "idle s" "0 \<le> a" "a < 65536" "1 \<le> q" "q \<le> 125"
  shows "\<exists>s'. readHoldingRegisters request a q s =
      (Inr (map (\<lambda>b. getHoldingRegister (slave s) b mod 65536) (addresses a (nat q))), s') \<and>
    slave s' = slave s \<and> idle s'"
proof -
  let ?vs = "map (getHoldingRegister (slave s)) (addresses a (nat q))"
  have pdu: "encodeReadRequest 3 a q = Inr [3, hi_byte a, lo_byte a, hi_byte q, lo_byte q]"
    using assms by (simp add: encodeReadRequest_def assertQuantity_def)
  have "length (registers_response 3 ?vs) < 65535"
    using assms by simp
  then obtain s' where "request 3 [3, hi_byte a, lo_byte a, hi_byte q, lo_byte q] s =
      (tcp_response 3 (registers_response 3 ?vs), s')" "slave s' = slave s" "idle s'"
    using exchange[OF assms(1) _ handle_read_registers, of a q 3] assms by (auto simp del: length_responses)
  moreover have "tcp_response 3 (registers_response 3 ?vs) = Inr (Registers (map (\<lambda>v. v mod 65536) ?vs))"
    using assms by (intro decode_registers_response) simp
  ultimately show ?thesis
    by (simp add: readHoldingRegisters_def readRegisters_def pdu comp_def)
qed

lemma read_coils:
  assumes "idle s" "0 \<le> a" "a < 65536" "1 \<le> q" "q \<le> 2000"
  shows "\<exists>s'. readCoils request a q s =
      (Inr (map (getCoil (slave s)) (addresses a (nat q)) @ replicate (8 * ((nat q + 7) div 8) - nat q) False), s') \<and>
    slave s' = slave s \<and> idle s'"
proof -
  let ?vs = "map (getCoil (slave s)) (addresses a (nat q))"
  have pdu: "encodeReadRequest 1 a q = Inr [1, hi_byte a, lo_byte a, hi_byte q, lo_byte q]"
    using assms by (simp add: encodeReadRequest_def assertQuantity_def)
  have "length (bits_response 1 ?vs) < 65535"
    using assms by simp
  then obtain s' where "request 1 [1, hi_byte a, lo_byte a, hi_byte q, lo_byte q] s =
      (tcp_response 1 (bits_response 1 ?vs), s')" "slave s' = slave s" "idle s'"
    using exchange[OF assms(1) _ handle_read_coils, of a q 1] assms by (auto simp del: length_responses)
  moreover have "tcp_response 1 (bits_response 1 ?vs) =
      Inr (Bits (?vs @ replicate (8 * ((length ?vs + 7) div 8) - length ?vs) False))"
    using assms by (intro decode_bits_response) simp
  ultimately show ?thesis
    by (simp add: readCoils_def readBits_def pdu)
qed

lemma write_registers:
  assumes "idle s" "0 \<le> a" "a < 65536" "length vs \<le> 30000"
  shows "\<exists>s'. writeMultipleRegisters request a vs s = (Inr (), s') \<and> idle s' \<and>
    (\<forall>i<length vs. getHoldingRegister (slave s') (a + int i) = (if i < length vs mod 128 then vs ! i mod 65536 else 0))"
proof -
  let ?pdu = "encodeWriteMultipleRegisters a vs"
  have len: "length ?pdu < 65535" "length (take 6 ?pdu) < 65535" "length vs < 65536"
    using assms by (simp_all add: encodeWriteMultipleRegisters_def Let_def min_def)
  then obtain s' where s': "request 16 ?pdu s = (tcp_response 16 (take 6 ?pdu), s')" "idle s'"
    "slave s' = write_registers (take (2 * length vs mod 256) (concat (map (\<lambda>v. [hi_byte v, lo_byte v]) vs))) a
       [0..<length vs] (slave s)"
    using exchange[OF assms(1) len(1) handle_write_registers[OF assms(2,3) len(3)] len(2), of 16] by blast
  moreover have "writeMultipleRegisters request a vs s = (Inr (), s')"
    using s'(1) decode_echo(3)[of a vs] by (auto simp: writeMultipleRegisters_def write_done_def)
  ultimately show ?thesis
    using written_register by auto
qed

lemma write_register:
  assumes "idle s" "0 \<le> a" "a < 65536" "0 \<le> v" "v < 65536"
  shows "\<exists>s'. writeSingleRegister request a v s = (Inr (), s') \<and> idle s' \<and>
    slave s' = setHoldingRegister a v (slave s)"
proof -
  obtain s' where "request 6 (encodeWriteSingle 6 a v) s = (tcp_response 6 (encodeWriteSingle 6 a v), s')"
    "slave s' = setHoldingRegister a v (slave s)" "idle s'"
    using exchange[OF assms(1) _ handle_write_register[OF assms(2-5)], of 6] by (auto simp: encodeWriteSingle_def)
  then show ?thesis
    using assms by (simp add: writeSingleRegister_def write_done_def decode_echo)
qed

lemma write_coil:
  assumes "idle s" "0 \<le> a" "a < 65536"
  shows "\<exists>s'. writeSingleCoil request a v s = (Inr (), s') \<and> idle s' \<and> slave s' = setCoil a v (slave s)"
proof -
  let ?w = "if v then 0xFF00 else 0 :: int"
  have w: "0 \<le> ?w" "?w < 65536" "(?w = 0xFF00) = v"
    by simp_all
  obtain s' where "request 5 (encodeWriteSingle 5 a ?w) s = (tcp_response 5 (encodeWriteSingle 5 a ?w), s')"
    "slave s' = setCoil a v (slave s)" "idle s'"
    using exchange[OF assms(1) _ handle_write_coil[OF assms(2,3) w(1,2)], of 5] unfolding w(3)
    by (auto simp: encodeWriteSingle_def)
  then show ?thesis
    by (simp add: writeSingleCoil_def write_done_def decode_echo)
qed

lemma register_round_trip:
  assumes "idle s" "0 \<le> a" "a < 65536" "vs \<noteq> []" "length vs \<le> 125"
  shows "fst (readHoldingRegisters request a (int (length vs)) (snd (writeMultipleRegisters request a vs s))) =
    Inr (map (\<lambda>v. v mod 65536) vs)"
proof -
  obtain s' where s': "writeMultipleRegisters request a vs s = (Inr (), s')" "idle s'"
    "\<forall>i<length vs. getHoldingRegister (slave s') (a + int i) = vs ! i mod 65536"
    using write_registers[OF assms(1-3), of vs] assms(4,5) by auto
  have "map (\<lambda>b. getHoldingRegister (slave s') b mod 65536) (addresses a (length vs)) = map (\<lambda>v. v mod 65536) vs"
    using s'(3) by (intro nth_equalityI) auto
  moreover have "1 \<le> int (length vs)"
    using assms(4) by (cases vs) auto
  ultimately show ?thesis
    using read_holding[OF s'(2) assms(2,3), of "int (length vs)"] assms(5) by (auto simp: s'(1))
qed

end

subsection \<open>The TCP link keeps the contract\<close>

definition link_idle :: "modbus_link \<Rightarrow> bool" where
  "link_idle l \<longleftrightarrow> tc_connected (ln_client l) \<and> \<not> tc_closed (ln_client l) \<and> tc_buffer (ln_client l) = [] \<and>
    tc_nextTransactionId (ln_client l) \<in> {0..<65536} \<and> tc_pending (ln_client l) = [] \<and> ln_socket l = []"

lemma link_request_idle:
  assumes "link_idle l" "length pdu < 65535" "length (snd (handlePdu (ln_server l) pdu)) < 65535"
  shows "fst (link_request fc pdu l) = tcp_response fc (snd (handlePdu (ln_server l) pdu)) \<and>
    ln_server (snd (link_request fc pdu l)) = fst (handlePdu (ln_server l) pdu) \<and>
    link_idle (snd (link_request fc pdu l))"
  using assms
  by (simp add: link_request_def tcp_request_def link_idle_def Let_def split_beta server_data_frame
      tcp_data_def take_encodeMbap clear_timer_def del: atLeastLessThan_iff)
    simp

interpretation link: modbus_slave link_request ln_server link_idle
  by unfold_locales (simp_all add: link_request_idle)

subsection \<open>Chunks of the response stream\<close>

fun tcp_chunks :: "byte list list \<Rightarrow> tcp_client \<Rightarrow> tcp_client \<times> (nat \<times> byte list) list" where
  "tcp_chunks [] c = (c, [])"
| "tcp_chunks (x # xs) c =
    (let (c', out) = tcp_data c x; (c'', out') = tcp_chunks xs c' in (c'', out @ out'))"

lemma deliver_buffer:
  "deliver_frames fs (c\<lparr>tc_buffer := b\<rparr>) =
    ((fst (deliver_frames fs c))\<lparr>tc_buffer := b\<rparr>, snd (deliver_frames fs c))"
proof (induction fs arbitrary: c)
  case (Cons f fs)
  have "clear_timer r (c\<lparr>tc_buffer := b, tc_pending := p\<rparr>) = (clear_timer r (c\<lparr>tc_pending := p\<rparr>))\<lparr>tc_buffer := b\<rparr>" for r p
    by (simp add: clear_timer_def)
  then show ?case
    by (simp add: Cons.IH split: option.split prod.split)
qed simp

lemma deliver_keeps_buffer: "tc_buffer (fst (deliver_frames fs c)) = tc_buffer c"
  by (induction fs c rule: deliver_frames.induct)
    (auto simp: clear_timer_def split_beta Let_def split: option.split)

lemma deliver_append:
  "deliver_frames (fs @ gs) c =
    (fst (deliver_frames gs (fst (deliver_frames fs c))),
     snd (deliver_frames fs c) @ snd (deliver_frames gs (fst (deliver_frames fs c))))"
  by (induction fs c rule: deliver_frames.induct) (auto simp: split_beta Let_def split: option.split)

lemma tcp_data_eq:
  "tcp_data c x =
    ((fst (deliver_frames (fst (mbap_drain (tc_buffer c @ x))) c))\<lparr>tc_buffer := snd (mbap_drain (tc_buffer c @ x))\<rparr>,
     snd (deliver_frames (fst (mbap_drain (tc_buffer c @ x))) c))"
  by (simp add: tcp_data_def deliver_buffer split_beta Let_def)

lemma tcp_data_append:
  "tcp_data c (x @ y) =
    (fst (tcp_data (fst (tcp_data c x)) y), snd (tcp_data c x) @ snd (tcp_data (fst (tcp_data c x)) y))"
  using mbap.drain_append[of "tc_buffer c @ x" y]
  by (simp add: tcp_data_eq deliver_append deliver_buffer)

lemma drain_None: "tryDecodeMbap bs = None \<Longrightarrow> mbap_drain bs = ([], bs)"
  by (simp add: mbap_drain.simps[of bs])

lemma drained_None: "tryDecodeMbap (snd (mbap_drain bs)) = None"
  using mbap.drain_rest[of bs] mbap_drain.simps[of "snd (mbap_drain bs)"]
  by (auto split: option.splits)

text \<open>The responses a client delivers, and to which requests, do not depend on how the transport
  cuts the byte stream into chunks.
\<close>

theorem modbus_chunking:
  assumes "tryDecodeMbap (tc_buffer c) = None"
  shows "tcp_chunks xs c = tcp_data c (concat xs)"
  using assms
proof (induction xs arbitrary: c)
  case Nil
  then show ?case
    by (simp add: tcp_data_eq drain_None)
next
  case (Cons x xs)
  have "tryDecodeMbap (tc_buffer (fst (tcp_data c x))) = None"
    by (simp add: tcp_data_eq drained_None)
  then show ?case
    using Cons.IH by (simp add: tcp_data_append split_beta Let_def)
qed

theorem modbus_chunking_witness:
  "tcp_chunks [[0, 0, 0], [0, 0, 3, 1, 0x83], [2]] (new_tcp_client 1) = tcp_data (new_tcp_client 1) [0, 0, 0, 0, 0, 3, 1, 0x83, 2]"
  using modbus_chunking[of "new_tcp_client 1" "[[0, 0, 0], [0, 0, 3, 1, 0x83], [2]]"]
  by (simp add: new_tcp_client_def tryDecodeMbap_def)

subsection \<open>Registers and coils end to end\<close>

definition link_sample :: modbus_link where
  "link_sample =
    \<lparr>ln_client = tcp_connect (new_tcp_client 1),
     ln_server = \<lparr>sv_coils = [(9, True)], sv_discreteInputs = [], sv_holdingRegisters = [], sv_inputRegisters = []\<rparr>,
     ln_socket = []\<rparr>"

lemma link_sample_idle: "link_idle link_sample"
  by (simp add: link_sample_def link_idle_def tcp_connect_def new_tcp_client_def)

text \<open>C30: A block of 1 to 125 registers with 16-bit values, written over an idle link at an address of 16 bits through the
  client, the frames and the simulated server, is read back as written. 125 is what one read can ask for; the client
  also accepts longer writes, and of \<open>n\<close> registers only the first \<open>n mod 128\<close> are kept: \<open>long_writes_lose_data\<close>.
\<close>

theorem registers_survive_the_wire:
  assumes "link_idle l" "0 \<le> a" "a < 65536" "vs \<noteq> []" "length vs \<le> 125" "\<forall>v\<in>set vs. 0 \<le> v \<and> v < 65536"
  shows "fst (readHoldingRegisters link_request a (int (length vs)) (snd (writeMultipleRegisters link_request a vs l))) = Inr vs"
proof -
  have "map (\<lambda>v. v mod 65536) vs = vs"
    using assms(6) by (simp add: map_idI)
  then show ?thesis
    using link.register_round_trip[OF assms(1-5)] by simp
qed

theorem registers_survive_the_wire_witness:
  "fst (readHoldingRegisters link_request 40 3 (snd (writeMultipleRegisters link_request 40 [1, 65535, 258] link_sample))) =
    Inr [1, 65535, 258]"
  using registers_survive_the_wire[of link_sample 40 "[1, 65535, 258]"] link_sample_idle by simp

text \<open>A block write is not limited to what its one-byte byte count can say: of a block of
  \<open>n\<close> registers, all but the first \<open>n mod 128\<close> are written as zero, and the write is reported as done.
\<close>

theorem long_writes_lose_data:
  assumes "link_idle l" "0 \<le> a" "a < 65536" "length vs \<le> 30000" "i < length vs"
  shows "fst (writeMultipleRegisters link_request a vs l) = Inr () \<and>
    getHoldingRegister (ln_server (snd (writeMultipleRegisters link_request a vs l))) (a + int i) =
      (if i < length vs mod 128 then vs ! i mod 65536 else 0)"
  using link.write_registers[OF assms(1-4)] assms(5) by auto

theorem long_writes_lose_data_witness:
  "fst (writeMultipleRegisters link_request 0 (replicate 128 7) link_sample) = Inr () \<and>
    getHoldingRegister (ln_server (snd (writeMultipleRegisters link_request 0 (replicate 128 7) link_sample))) 5 = 0"
  using long_writes_lose_data[OF link_sample_idle, of 0 "replicate 128 7" 5] by simp

text \<open>A coil read answers with whole bytes: the requested coils, and after them \<open>False\<close> up to a
  multiple of eight, which the client does not cut off.
\<close>

theorem coil_reads_are_padded:
  assumes "link_idle l" "0 \<le> a" "a < 65536" "1 \<le> q" "q \<le> 2000"
  shows "fst (readCoils link_request a q l) =
    Inr (map (getCoil (ln_server l)) (addresses a (nat q)) @ replicate (8 * ((nat q + 7) div 8) - nat q) False)"
  using link.read_coils[OF assms] by auto

theorem coil_reads_are_padded_witness:
  "fst (readCoils link_request 8 2 link_sample) = Inr [False, True, False, False, False, False, False, False]"
proof -
  have "map (getCoil (ln_server link_sample)) (addresses 8 2) = [False, True]"
    by (simp add: addresses_def getCoil_def link_sample_def upt_rec)
  moreover have "replicate (8 * ((2 + 7) div 8) - 2) False = [False, False, False, False, False, False]"
    by code_simp
  ultimately show ?thesis
    using coil_reads_are_padded[OF link_sample_idle, of 8 2] by simp
qed

subsection \<open>The RTU line\<close>

text \<open>A request frame arrives as it was sent, and a frame with one byte of its address or PDU
  damaged is refused: as another slave's, or by the checksum.
\<close>

theorem rtu_frames_checked:
  assumes "pdu \<noteq> []" "b \<noteq> b'" "encodeRtu addr pdu = xs @ b # ys" "2 \<le> length ys"
  shows "decodeRtu (encodeRtu addr pdu) req addr = decodePdu pdu req \<and>
    decodeRtu (xs @ b' # ys) req addr = Inl (if xs = [] then MODBUS_PROTOCOL_ERROR else MODBUS_CRC_ERROR)"
proof
  let ?g = "xs @ b' # ys" and ?c = "crc16 (addr # pdu)"
  have "length (drop (length ys - 2) ys) = 2"
    using assms(4) by simp
  then obtain p q where "drop (length ys - 2) ys = [p, q]"
    by (auto simp: numeral_2_eq_2 length_Suc_conv simp del: length_drop)
  then obtain zs where ys: "ys = zs @ [p, q]"
    by (metis append_take_drop_id)
  have f: "(addr # pdu) @ [ucast ?c, ucast (drop_bit 8 ?c)] = (xs @ b # zs) @ [p, q]"
    using assms(3) unfolding encodeRtu_def Let_def ys by (simp only: append.simps append_assoc)
  have l: "length (addr # pdu) = length (xs @ b # zs) \<or> length [ucast ?c, ucast (drop_bit 8 ?c)] = length [p, q]"
    by simp
  have m: "addr # pdu = xs @ b # zs" "p = ucast ?c" "q = ucast (drop_bit 8 ?c)"
    using iffD1[OF append_eq_append_conv[OF l] f] by (blast, blast, blast)
  have len: "4 \<le> length ?g" "length ?g = length zs + length xs + 3"
    using arg_cong[OF m(1), of length] assms(1) by (cases pdu; simp add: ys)+
  show "decodeRtu ?g req addr = Inl (if xs = [] then MODBUS_PROTOCOL_ERROR else MODBUS_CRC_ERROR)"
  proof (cases xs)
    case Nil
    then show ?thesis
      using m(1) assms(2) len(1) by (simp add: decodeRtu_def byte_at_def)
  next
    case (Cons x xs')
    have "byte_at ?g 0 = addr"
      using m(1) Cons by simp
    moreover have "be16 (byte_at ?g (length ?g - 1)) (byte_at ?g (length ?g - 2)) = uint ?c"
      unfolding m(2,3) ys by (simp add: byte_at_def nth_append be16_crc)
    moreover have "take (length ?g - 2) ?g = xs @ b' # zs"
      by (simp add: ys)
    moreover have "uint ?c \<noteq> uint (crc16 (xs @ b' # zs))"
      unfolding m(1) word_uint_eq_iff[symmetric] by (rule crc16_detects_byte[OF assms(2)])
    ultimately show ?thesis
      using len(1) Cons by (simp add: decodeRtu_def Let_def)
  qed
  show "decodeRtu (encodeRtu addr pdu) req addr = decodePdu pdu req"
    by (rule decode_encode_rtu[OF assms(1)])
qed

theorem rtu_frames_checked_witness:
  "decodeRtu ([11, 3, 2, 0xAA] @ 0xCD # drop 5 (encodeRtu 11 [3, 2, 0xAB, 0xCD])) 3 11 = Inl MODBUS_CRC_ERROR"
proof -
  let ?f = "encodeRtu 11 [3, 2, 0xAB, 0xCD]"
  have "?f = [11, 3, 2] @ 0xAB # drop 4 ?f" "length (drop 4 ?f) = 3" "drop 4 ?f = 0xCD # drop 5 ?f"
    by (simp_all add: encodeRtu_def Let_def)
  then show ?thesis
    using rtu_frames_checked[of "[3, 2, 0xAB, 0xCD]" "0xAB" "0xAA" 11 "[11, 3, 2]" "drop 4 ?f" 3] by simp
qed

text \<open>The RTU client does not look for exception responses: a write the slave refused is reported
  as done, and a refused read returns no values, where the TCP client throws.
\<close>

theorem rtu_hides_exceptions:
  assumes "\<not> ru_closed c" "ru_inflight c = None"
  shows "fst (writeSingleCoil (rtu_exchange (\<lambda>_. Some (encodeRtu (ru_slaveAddress c) [0x85, code]))) a v c) = Inr () \<and>
    fst (readHoldingRegisters (rtu_exchange (\<lambda>_. Some (encodeRtu (ru_slaveAddress c) [0x83, code]))) a 1 c) = Inr [] \<and>
    tcp_response 5 [0x85, code] = Inl (exceptionError (uint code)) \<and>
    tcp_response 3 [0x83, code] = Inl (exceptionError (uint code))"
proof -
  have d: "decodePdu [0x85, code] 5 = Inr (ExceptionResponse 5 (uint code))"
    "decodePdu [0x83, code] 3 = Inr (ExceptionResponse 3 (uint code))"
    by (simp_all add: decodePdu_def byte_at_def)
  show ?thesis
    using assms
    by (simp add: writeSingleCoil_def readHoldingRegisters_def readRegisters_def encodeReadRequest_def
        assertQuantity_def rtu_exchange_def rtu_request_def rtu_chunk_def rtu_response_def
        write_done_def decode_encode_rtu tcp_response_def d)
qed

definition rtu_sample :: rtu_client where
  "rtu_sample = \<lparr>ru_slaveAddress = 11, ru_inflight = None, ru_closed = False, ru_requests = 0\<rparr>"

theorem rtu_hides_exceptions_witness:
  "fst (writeSingleCoil (rtu_exchange (\<lambda>_. Some (encodeRtu 11 [0x85, 2]))) 7 True rtu_sample) = Inr ()"
  using rtu_hides_exceptions[of rtu_sample 2 7 True] by (simp add: rtu_sample_def)

subsection \<open>Transaction ids\<close>

text \<open>A burst of requests the server leaves unanswered.\<close>

fun burst :: "nat \<Rightarrow> byte list \<Rightarrow> tcp_client \<Rightarrow> tcp_client" where
  "burst 0 pdu c = c"
| "burst (Suc n) pdu c =
    (case tcp_request (burst n pdu c) pdu of Inl _ \<Rightarrow> burst n pdu c | Inr (c', _) \<Rightarrow> c')"

lemma burst_state:
  "n \<le> 65536 \<Longrightarrow> burst n pdu (tcp_connect (new_tcp_client u)) =
    (tcp_connect (new_tcp_client u))\<lparr>tc_nextTransactionId := int n mod 65536,
      tc_pending := map (\<lambda>i. (int i, i)) [0..<n], tc_timers := map (\<lambda>i. (i, int i)) [0..<n],
      tc_requests := n\<rparr>"
proof (induction n)
  case 0
  show ?case
    by (simp add: new_tcp_client_def tcp_connect_def)
next
  case (Suc n)
  have "jget (map (\<lambda>i. (int i, i)) [0..<n]) (int n) = None"
    by (auto simp: map_of_eq_None_iff)
  then have "jset (int n) n (map (\<lambda>i. (int i, i)) [0..<n]) = map (\<lambda>i. (int i, i)) [0..<Suc n]"
    by (simp add: jset_new)
  moreover have "(int n mod 65536 + 1) mod 65536 = int (Suc n) mod 65536"
    by (simp add: mod_simps add.commute)
  ultimately show ?case
    using Suc by (simp add: tcp_request_def Let_def tcp_connect_def new_tcp_client_def)
qed

text \<open>A transaction id that is still awaited is not refused, as the client's description says,
  but taken over: after 65536 unanswered requests the next one replaces the first, whose promise
  no response can settle any more, and when the first one's timer fires the new one is forgotten.
\<close>

theorem transaction_id_reused:
  "let c = burst 65536 pdu (tcp_connect (new_tcp_client u)) in
    jget (tc_pending c) 0 = Some 0 \<and>
    (\<exists>c' frame. tcp_request c pdu = Inr (c', frame) \<and> jget (tc_pending c') 0 = Some 65536 \<and>
      0 \<notin> set (jvalues (tc_pending c')) \<and> (0, 0) \<in> set (tc_timers c') \<and>
      jget (tc_pending (fst (tcp_timeout 0 0 c'))) 0 = None)"
proof -
  let ?p = "map (\<lambda>i. (int i, i)) [0..<65536] :: (int, nat) jmap"
  have wf: "wf_map ?p"
    by (simp add: wf_map_def comp_def distinct_map)
  have first: "jget ?p 0 = Some 0"
    unfolding jget_in[OF wf, symmetric] by (auto simp: image_iff)
  have "p \<in> set (jset 0 65536 ?p) \<Longrightarrow> snd p \<noteq> 0" for p
    unfolding set_jset[OF wf] by auto
  then have gone: "0 \<notin> set (jvalues (jset 0 65536 ?p))"
    by force
  have timer: "(0, 0) \<in> set (map (\<lambda>i. (i, int i)) [0..<65536])"
    by (auto simp: image_iff)
  show ?thesis
    unfolding burst_state[OF order_refl]
    by (simp add: timer tcp_request_def tcp_connect_def new_tcp_client_def tcp_timeout_def clear_timer_def
        first gone jget_set jget_delete Let_def del: upt_Suc set_map)
qed

end
