(* ===== verification/Register_Map.thy ===== *)
theory Register_Map
  imports Modbus_Laws
begin

text \<open>
  Named devices over a Modbus client, \<open>packages/protocols-modbus/src/registerMap.ts\<close>: the
  validation of a map, its capabilities, and reads and writes with scaling. Scales, offsets and
  scaled values are exact reals; the written value may be any JavaScript number or a boolean.
\<close>

datatype register_area = AreaCoil | AreaDiscrete | AreaHolding | AreaInput

datatype register_access = AccessRead | AccessWrite

datatype register_type = TypeBool | TypeUint16

record register_entry =
  re_name :: string
  re_area :: register_area
  re_address :: int
  re_access :: register_access
  re_type :: register_type
  re_scale :: "real option"
  re_offset :: "real option"
  re_unit :: "string option"

fun validate_entries :: "string list \<Rightarrow> register_entry list \<Rightarrow> modbus_error option" where
  "validate_entries seen [] = None"
| "validate_entries seen (e # es) =
    (if re_name e \<in> set seen then Some MODBUS_MAP_DUPLICATE
     else if re_access e = AccessWrite \<and> re_type e = TypeUint16 \<and> re_area e \<noteq> AreaHolding then Some MODBUS_MAP_INVALID
     else if re_access e = AccessWrite \<and> re_type e = TypeBool \<and> re_area e \<noteq> AreaCoil then Some MODBUS_MAP_INVALID
     else validate_entries (re_name e # seen) es)"

definition validateMap :: "register_entry list \<Rightarrow> modbus_error option" where
  "validateMap m = validate_entries [] m"

record register_device =
  rd_byName :: "(string, register_entry) jmap"
  rd_capabilities :: "(string \<times> register_access \<times> string option) list"

definition access_name :: "register_access \<Rightarrow> string" where
  "access_name a = (case a of AccessRead \<Rightarrow> ''read'' | AccessWrite \<Rightarrow> ''write'')"

definition createRegisterMapDevice :: "register_entry list \<Rightarrow> modbus_error + register_device" where
  "createRegisterMapDevice m =
    (case validateMap m of
      Some e \<Rightarrow> Inl e
    | None \<Rightarrow> Inr
       \<lparr>rd_byName = foldl (\<lambda>t e. jset (re_name e) e t) [] m,
        rd_capabilities =
          map (\<lambda>e. (''modbus.'' @ re_name e @ ''.'' @ access_name (re_access e), re_access e, re_unit e)) m\<rparr>)"

definition scale_of :: "register_entry \<Rightarrow> real" where
  "scale_of e = (case re_scale e of Some k \<Rightarrow> k | None \<Rightarrow> 1)"

definition offset_of :: "register_entry \<Rightarrow> real" where
  "offset_of e = (case re_offset e of Some k \<Rightarrow> k | None \<Rightarrow> 0)"

definition applyScaling :: "register_entry \<Rightarrow> int \<Rightarrow> real" where
  "applyScaling e raw = of_int raw * scale_of e + offset_of e"

datatype map_value = MBool bool | MNum jsnum

text \<open>\<open>Boolean(value)\<close>\<close>

fun as_boolean :: "map_value \<Rightarrow> bool" where
  "as_boolean (MBool b) = b"
| "as_boolean (MNum NaN) = False"
| "as_boolean (MNum (Fin x)) = (x \<noteq> 0)"
| "as_boolean (MNum _) = True"

text \<open>\<open>values[0] ?? dflt\<close>\<close>

definition first_or :: "'a \<Rightarrow> 'a list \<Rightarrow> 'a" where
  "first_or d xs = (case xs of [] \<Rightarrow> d | x # _ \<Rightarrow> x)"

definition map_read :: "'s request \<Rightarrow> register_device \<Rightarrow> string \<Rightarrow> 's \<Rightarrow> (modbus_error + map_value) \<times> 's" where
  "map_read req d name s =
    (case jget (rd_byName d) name of
      None \<Rightarrow> (Inl MODBUS_MAP_UNKNOWN_ENTRY, s)
    | Some e \<Rightarrow>
       (case re_area e of
          AreaCoil \<Rightarrow> apfst (map_sum id (\<lambda>vs. MBool (first_or False vs))) (readCoils req (re_address e) 1 s)
        | AreaDiscrete \<Rightarrow> apfst (map_sum id (\<lambda>vs. MBool (first_or False vs))) (readDiscreteInputs req (re_address e) 1 s)
        | AreaHolding \<Rightarrow>
            apfst (map_sum id (\<lambda>vs. MNum (Fin (applyScaling e (first_or 0 vs))))) (readHoldingRegisters req (re_address e) 1 s)
        | AreaInput \<Rightarrow>
            apfst (map_sum id (\<lambda>vs. MNum (Fin (applyScaling e (first_or 0 vs))))) (readInputRegisters req (re_address e) 1 s)))"

text \<open>
  \<open>Math.round(x)\<close> is the floor of \<open>x + 1/2\<close>. With a zero scale the quotient is infinite or
  \<open>NaN\<close>, and one of the two range checks refuses it.
\<close>

definition map_write :: "'s request \<Rightarrow> register_device \<Rightarrow> string \<Rightarrow> map_value \<Rightarrow> 's \<Rightarrow> (modbus_error + unit) \<times> 's" where
  "map_write req d name v s =
    (case jget (rd_byName d) name of
      None \<Rightarrow> (Inl MODBUS_MAP_UNKNOWN_ENTRY, s)
    | Some e \<Rightarrow>
        if re_access e \<noteq> AccessWrite then (Inl MODBUS_MAP_READ_ONLY, s)
        else if re_type e = TypeBool then writeSingleCoil req (re_address e) (as_boolean v) s
        else
          (case v of
            MNum (Fin x) \<Rightarrow>
              (if scale_of e = 0 then (Inl MODBUS_INVALID_VALUE, s)
               else
                 (let raw = \<lfloor>(x - offset_of e) / scale_of e + 1 / 2\<rfloor>
                  in if raw < 0 \<or> raw > 0xFFFF then (Inl MODBUS_INVALID_VALUE, s)
                     else writeSingleRegister req (re_address e) raw s))
          | _ \<Rightarrow> (Inl MODBUS_INVALID_VALUE, s)))"

subsection \<open>Lemmas\<close>

lemma validate_entries_ok:
  "validate_entries seen m = None \<longleftrightarrow>
    distinct (map re_name m) \<and> set (map re_name m) \<inter> set seen = {} \<and>
    (\<forall>e\<in>set m. re_access e = AccessWrite \<longrightarrow>
      (re_type e = TypeUint16 \<longrightarrow> re_area e = AreaHolding) \<and> (re_type e = TypeBool \<longrightarrow> re_area e = AreaCoil))"
  by (induction m arbitrary: seen) auto

lemma by_name_fold:
  "distinct (map re_name m) \<Longrightarrow>
    jget (foldl (\<lambda>t e. jset (re_name e) e t) t m) n =
      (case map_of (map (\<lambda>e. (re_name e, e)) m) n of Some e \<Rightarrow> Some e | None \<Rightarrow> jget t n)"
  by (induction m arbitrary: t)
    (auto simp: jget_set map_of_eq_None_iff[THEN iffD2] image_iff split: option.split)

lemma device_lookup:
  assumes "createRegisterMapDevice m = Inr d" "jget (rd_byName d) name = Some e"
  shows "e \<in> set m \<and> re_name e = name \<and>
    (re_access e = AccessWrite \<longrightarrow> (re_type e = TypeUint16 \<longrightarrow> re_area e = AreaHolding) \<and>
      (re_type e = TypeBool \<longrightarrow> re_area e = AreaCoil))"
proof -
  have ok: "validate_entries [] m = None" and d: "rd_byName d = foldl (\<lambda>t e. jset (re_name e) e t) [] m"
    using assms(1) by (auto simp: createRegisterMapDevice_def validateMap_def split: option.splits)
  then have "map_of (map (\<lambda>e. (re_name e, e)) m) name = Some e"
    using assms(2) by (auto simp: validate_entries_ok by_name_fold split: option.splits)
  then have "e \<in> set m" "re_name e = name"
    by (auto dest!: map_of_SomeD)
  then show ?thesis
    using ok by (auto simp: validate_entries_ok)
qed

text \<open>C38: Only what the map declares is written: a write that reaches the client goes to the
  address of an entry with write access, as a coil write for a boolean coil entry or a register
  write within sixteen bits for a holding entry, and nothing else is ever sent.
\<close>

theorem only_declared_writes:
  assumes "createRegisterMapDevice m = Inr d" "map_write req d name v s = (res, s')" "s' \<noteq> s"
  shows "\<exists>e\<in>set m. re_name e = name \<and> re_access e = AccessWrite \<and>
    (re_type e = TypeBool \<and> re_area e = AreaCoil \<and>
       (res, s') = write_done (req 5 (encodeWriteSingle 5 (re_address e) (if as_boolean v then 0xFF00 else 0)) s) \<or>
     re_type e = TypeUint16 \<and> re_area e = AreaHolding \<and>
       (\<exists>raw\<in>{0..65535}. (res, s') = write_done (req 6 (encodeWriteSingle 6 (re_address e) raw) s)))"
proof -
  obtain e where e: "jget (rd_byName d) name = Some e"
    using assms(2,3) by (auto simp: map_write_def split: option.splits)
  have w: "re_access e = AccessWrite"
    using assms(2,3) e by (auto simp: map_write_def split: if_splits)
  note decl = device_lookup[OF assms(1) e]
  have "re_type e = TypeBool \<or> re_type e = TypeUint16"
    by (cases "re_type e") auto
  then show ?thesis
  proof
    assume t: "re_type e = TypeBool"
    then have "map_write req d name v s = write_done (req 5 (encodeWriteSingle 5 (re_address e) (if as_boolean v then 0xFF00 else 0)) s)"
      using w e by (simp add: map_write_def writeSingleCoil_def)
    then show ?thesis
      using decl w t assms(2) by auto
  next
    assume t: "re_type e = TypeUint16"
    then obtain x where v: "v = MNum (Fin x)"
      using w e assms(2,3) by (auto simp: map_write_def split: map_value.splits jsnum.splits)
    define raw where "raw = \<lfloor>(x - offset_of e) / scale_of e + 1 / 2\<rfloor>"
    have sent: "map_write req d name v s =
        (if scale_of e = 0 \<or> raw < 0 \<or> raw > 65535 then (Inl MODBUS_INVALID_VALUE, s)
         else write_done (req 6 (encodeWriteSingle 6 (re_address e) raw) s))"
      using w e t unfolding v map_write_def raw_def[symmetric] writeSingleRegister_def Let_def
      by (simp add: raw_def[symmetric])
    then have "0 \<le> raw" "raw \<le> 65535"
      "map_write req d name v s = write_done (req 6 (encodeWriteSingle 6 (re_address e) raw) s)"
      using assms(2,3) by (auto split: if_splits)
    then show ?thesis
      using decl w t assms(2) by (intro bexI[of _ e]) auto
  qed
qed

definition valve :: register_entry where
  "valve = \<lparr>re_name = ''valve'', re_area = AreaHolding, re_address = 17, re_access = AccessWrite,
    re_type = TypeUint16, re_scale = Some (1/10), re_offset = Some (-5), re_unit = None\<rparr>"

definition valve_device :: register_device where
  "valve_device = \<lparr>rd_byName = [(''valve'', valve)], rd_capabilities = [(''modbus.valve.write'', AccessWrite, None)]\<rparr>"

lemma valve_created: "createRegisterMapDevice [valve] = Inr valve_device"
  by (simp add: createRegisterMapDevice_def validateMap_def valve_def valve_device_def access_name_def)

theorem only_declared_writes_witness:
  "\<exists>e\<in>set [valve]. re_name e = ''valve'' \<and> re_access e = AccessWrite"
proof -
  let ?req = "\<lambda>fc pdu log. (Inr (Echo 6 17 80), log @ [(fc, pdu)]) :: (modbus_error + pdu_result) \<times> (int \<times> byte list) list"
  have "map_write ?req valve_device ''valve'' (MNum (Fin 3)) [] = (Inr (), [(6, encodeWriteSingle 6 17 80)])"
    by (simp add: map_write_def valve_device_def valve_def scale_of_def offset_of_def Let_def
        writeSingleRegister_def write_done_def)
  from only_declared_writes[OF valve_created this] show ?thesis
    by auto
qed

text \<open>A scaled value that the device accepts is read back, through the client, the frames and
  the simulated server, within half a scaling step.
\<close>

theorem scaled_round_trip:
  assumes "link_idle l" "jget (rd_byName d) name = Some e" "re_area e = AreaHolding" "re_type e = TypeUint16"
    and "0 \<le> re_address e" "re_address e < 65536"
    and "map_write link_request d name (MNum (Fin x)) l = (Inr (), l')"
  shows "\<exists>y. fst (map_read link_request d name l') = Inr (MNum (Fin y)) \<and> \<bar>y - x\<bar> \<le> \<bar>scale_of e\<bar> / 2"
proof -
  let ?raw = "\<lfloor>(x - offset_of e) / scale_of e + 1 / 2\<rfloor>"
  have k: "scale_of e \<noteq> 0" and raw: "0 \<le> ?raw" "?raw < 65536"
    and wr: "writeSingleRegister link_request (re_address e) ?raw l = (Inr (), l')"
    using assms(2,4,7) by (auto simp: map_write_def Let_def split: if_splits)
  obtain "link_idle l'" "ln_server l' = setHoldingRegister (re_address e) ?raw (ln_server l)"
    using link.write_register[OF assms(1,5,6) raw] wr by auto
  then have "fst (map_read link_request d name l') = Inr (MNum (Fin (applyScaling e ?raw)))"
    using link.read_holding[of l' "re_address e" 1] assms(2,3,5,6) raw
    by (auto simp: map_read_def first_or_def addresses_def getHolding_set mod_pos_pos_trivial)
  moreover have "\<bar>applyScaling e ?raw - x\<bar> \<le> \<bar>scale_of e\<bar> / 2"
  proof -
    let ?q = "(x - offset_of e) / scale_of e"
    have "applyScaling e ?raw - x = scale_of e * (of_int ?raw - ?q)"
      using k by (simp add: applyScaling_def field_simps)
    moreover have "\<bar>of_int ?raw - ?q\<bar> \<le> 1 / 2"
      by linarith
    then have "\<bar>scale_of e\<bar> * \<bar>of_int ?raw - ?q\<bar> \<le> \<bar>scale_of e\<bar> * (1 / 2)"
      by (rule mult_left_mono) simp
    ultimately show ?thesis
      by (simp only: abs_mult)
  qed
  ultimately show ?thesis by blast
qed

theorem scaled_round_trip_witness:
  "\<exists>y. fst (map_read link_request valve_device ''valve''
      (snd (map_write link_request valve_device ''valve'' (MNum (Fin (8/3))) link_sample))) = Inr (MNum (Fin y)) \<and>
    \<bar>y - 8/3\<bar> \<le> 1/20"
proof -
  obtain l' where "writeSingleRegister link_request 17 77 link_sample = (Inr (), l')"
    using link.write_register[OF link_sample_idle, of 17 77] by auto
  then have "map_write link_request valve_device ''valve'' (MNum (Fin (8/3))) link_sample = (Inr (), l')"
    by (simp add: map_write_def valve_device_def valve_def scale_of_def offset_of_def Let_def)
  then show ?thesis
    using scaled_round_trip[OF link_sample_idle, of valve_device "''valve''" valve "8/3" l']
    by (simp add: valve_device_def valve_def scale_of_def)
qed

end
