(* ===== verification/Frames.thy ===== *)
theory Frames
  imports Prelude
begin

text \<open>
  Rigid-body frame mathematics, \<open>packages/core/src/frames/frames.ts\<close>: quaternions, the
  application, composition and inversion of transforms, and the search for a chain of transforms.
  Coordinates are exact reals, the one clock reading of a call is an argument.
\<close>

datatype frame_error = QuaternionZero | AxisZero | FrameMismatch

record vector3 =
  v_x :: real
  v_y :: real
  v_z :: real

record quaternion4 =
  q_x :: real
  q_y :: real
  q_z :: real
  q_w :: real

record rigid_pose =
  po_position :: vector3
  po_orientation :: quaternion4

record frame_reference =
  fr_frame :: string
  fr_pose :: rigid_pose

record transform =
  tf_from :: string
  tf_to :: string
  tf_translation :: vector3
  tf_rotation :: quaternion4
  tf_at :: time

definition vector3 :: "real \<Rightarrow> real \<Rightarrow> real \<Rightarrow> vector3" where
  "vector3 x y z = \<lparr>v_x = x, v_y = y, v_z = z\<rparr>"

definition quaternion :: "real \<Rightarrow> real \<Rightarrow> real \<Rightarrow> real \<Rightarrow> frame_error + quaternion4" where
  "quaternion x y z w =
    (let l = sqrt (x\<^sup>2 + y\<^sup>2 + z\<^sup>2 + w\<^sup>2)
     in if l = 0 then Inl QuaternionZero else Inr \<lparr>q_x = x / l, q_y = y / l, q_z = z / l, q_w = w / l\<rparr>)"

definition quaternionFromAxisAngle :: "vector3 \<Rightarrow> real \<Rightarrow> frame_error + quaternion4" where
  "quaternionFromAxisAngle axis radians =
    (let l = sqrt ((v_x axis)\<^sup>2 + (v_y axis)\<^sup>2 + (v_z axis)\<^sup>2)
     in if l = 0 then Inl AxisZero
        else
          (let half = radians / 2; s = sin half / l
           in quaternion (v_x axis * s) (v_y axis * s) (v_z axis * s) (cos half)))"

definition pose :: "vector3 \<Rightarrow> quaternion4 \<Rightarrow> rigid_pose" where
  "pose p q = \<lparr>po_position = p, po_orientation = q\<rparr>"

definition frameReference :: "string \<Rightarrow> rigid_pose \<Rightarrow> frame_reference" where
  "frameReference f p = \<lparr>fr_frame = f, fr_pose = p\<rparr>"

definition makeTransform :: "string \<Rightarrow> string \<Rightarrow> vector3 \<Rightarrow> quaternion4 \<Rightarrow> time \<Rightarrow> transform" where
  "makeTransform f t tr rot now =
    \<lparr>tf_from = f, tf_to = t, tf_translation = tr, tf_rotation = rot, tf_at = now\<rparr>"

definition quaternionMultiply :: "quaternion4 \<Rightarrow> quaternion4 \<Rightarrow> frame_error + quaternion4" where
  "quaternionMultiply a b =
    quaternion
      (q_w a * q_x b + q_x a * q_w b + q_y a * q_z b - q_z a * q_y b)
      (q_w a * q_y b - q_x a * q_z b + q_y a * q_w b + q_z a * q_x b)
      (q_w a * q_z b + q_x a * q_y b - q_y a * q_x b + q_z a * q_w b)
      (q_w a * q_w b - q_x a * q_x b - q_y a * q_y b - q_z a * q_z b)"

definition quaternionConjugate :: "quaternion4 \<Rightarrow> quaternion4" where
  "quaternionConjugate q = \<lparr>q_x = - q_x q, q_y = - q_y q, q_z = - q_z q, q_w = q_w q\<rparr>"

definition cross :: "vector3 \<Rightarrow> vector3 \<Rightarrow> vector3" where
  "cross a b =
    \<lparr>v_x = v_y a * v_z b - v_z a * v_y b,
     v_y = v_z a * v_x b - v_x a * v_z b,
     v_z = v_x a * v_y b - v_y a * v_x b\<rparr>"

definition rotateVector :: "quaternion4 \<Rightarrow> vector3 \<Rightarrow> vector3" where
  "rotateVector q v =
    (let qv = vector3 (q_x q) (q_y q) (q_z q);
         t = cross qv v;
         t2 = cross qv t
     in \<lparr>v_x = v_x v + 2 * (q_w q * v_x t + v_x t2),
         v_y = v_y v + 2 * (q_w q * v_y t + v_y t2),
         v_z = v_z v + 2 * (q_w q * v_z t + v_z t2)\<rparr>)"

definition vadd :: "vector3 \<Rightarrow> vector3 \<Rightarrow> vector3" where
  "vadd a b = vector3 (v_x a + v_x b) (v_y a + v_y b) (v_z a + v_z b)"

definition applyTransform :: "transform \<Rightarrow> frame_reference \<Rightarrow> frame_error + frame_reference" where
  "applyTransform t r =
    (if fr_frame r \<noteq> tf_from t then Inl FrameMismatch
     else
       (let rotated = rotateVector (tf_rotation t) (po_position (fr_pose r));
            position = vadd rotated (tf_translation t)
        in case quaternionMultiply (tf_rotation t) (po_orientation (fr_pose r)) of
             Inl e \<Rightarrow> Inl e
           | Inr q \<Rightarrow> Inr (frameReference (tf_to t) (pose position q))))"

definition composeTransforms :: "transform \<Rightarrow> transform \<Rightarrow> time \<Rightarrow> frame_error + transform" where
  "composeTransforms f s now =
    (if tf_to f \<noteq> tf_from s then Inl FrameMismatch
     else
       (let rotated = rotateVector (tf_rotation f) (tf_translation s);
            translation = vadd (tf_translation f) rotated
        in case quaternionMultiply (tf_rotation f) (tf_rotation s) of
             Inl e \<Rightarrow> Inl e
           | Inr q \<Rightarrow> Inr (makeTransform (tf_from f) (tf_to s) translation q now)))"

definition invertTransform :: "transform \<Rightarrow> time \<Rightarrow> transform" where
  "invertTransform t now =
    (let inverse = quaternionConjugate (tf_rotation t);
         rotated = rotateVector inverse (tf_translation t)
     in makeTransform (tf_to t) (tf_from t) (vector3 (- v_x rotated) (- v_y rotated) (- v_z rotated)) inverse now)"

text \<open>One pass over the list: a transform that leaves the current frame is taken, any other skipped.\<close>

fun chain_loop ::
  "transform list \<Rightarrow> string \<Rightarrow> string \<Rightarrow> transform option \<Rightarrow> time \<Rightarrow> frame_error + (transform option \<times> string)" where
  "chain_loop [] cur to acc now = Inr (acc, cur)"
| "chain_loop (t # ts) cur to acc now =
    (if tf_from t \<noteq> cur then chain_loop ts cur to acc now
     else (case (case acc of None \<Rightarrow> Inr t | Some c \<Rightarrow> composeTransforms c t now) of
       Inl e \<Rightarrow> Inl e
     | Inr c \<Rightarrow> if tf_to t = to then Inr (Some c, tf_to t) else chain_loop ts (tf_to t) to (Some c) now))"

definition transformChain :: "transform list \<Rightarrow> string \<Rightarrow> string \<Rightarrow> time \<Rightarrow> frame_error + transform" where
  "transformChain ts src dst now =
    (case chain_loop ts src dst None now of
      Inl e \<Rightarrow> Inl e
    | Inr (acc, cur) \<Rightarrow> (case acc of None \<Rightarrow> Inl FrameMismatch | Some c \<Rightarrow> if cur \<noteq> dst then Inl FrameMismatch else Inr c))"

definition transformFrameReference ::
  "transform list \<Rightarrow> frame_reference \<Rightarrow> string \<Rightarrow> time \<Rightarrow> frame_error + frame_reference" where
  "transformFrameReference ts r target now =
    (if fr_frame r = target then Inr r
     else (case transformChain ts (fr_frame r) target now of Inl e \<Rightarrow> Inl e | Inr c \<Rightarrow> applyTransform c r))"

subsection \<open>Unit quaternions\<close>

definition norm2 :: "quaternion4 \<Rightarrow> real" where
  "norm2 q = (q_x q)\<^sup>2 + (q_y q)\<^sup>2 + (q_z q)\<^sup>2 + (q_w q)\<^sup>2"

definition hamilton :: "quaternion4 \<Rightarrow> quaternion4 \<Rightarrow> quaternion4" where
  "hamilton a b =
    \<lparr>q_x = q_w a * q_x b + q_x a * q_w b + q_y a * q_z b - q_z a * q_y b,
     q_y = q_w a * q_y b - q_x a * q_z b + q_y a * q_w b + q_z a * q_x b,
     q_z = q_w a * q_z b + q_x a * q_y b - q_y a * q_x b + q_z a * q_w b,
     q_w = q_w a * q_w b - q_x a * q_x b - q_y a * q_y b - q_z a * q_z b\<rparr>"

lemma norm2_hamilton: "norm2 (hamilton a b) = norm2 a * norm2 b"
  by (simp add: norm2_def hamilton_def power2_eq_square algebra_simps)

lemma multiply_unit: "norm2 a = 1 \<Longrightarrow> norm2 b = 1 \<Longrightarrow> quaternionMultiply a b = Inr (hamilton a b)"
  using norm2_hamilton[of a b] by (simp add: quaternionMultiply_def quaternion_def norm2_def hamilton_def Let_def)

lemma norm2_conjugate [simp]: "norm2 (quaternionConjugate q) = norm2 q"
  by (simp add: norm2_def quaternionConjugate_def)

lemma rotate_vadd: "rotateVector q (vadd a b) = vadd (rotateVector q a) (rotateVector q b)"
  by (simp add: rotateVector_def vadd_def vector3_def cross_def Let_def algebra_simps)

lemma vadd_assoc: "vadd (vadd a b) c = vadd a (vadd b c)"
  by (simp add: vadd_def vector3_def)

lemma vadd_commute: "vadd a b = vadd b a"
  by (simp add: vadd_def vector3_def add.commute)

lemma rotate_hamilton:
  assumes "norm2 a = 1" "norm2 b = 1"
  shows "rotateVector (hamilton a b) v = rotateVector a (rotateVector b v)"
proof -
  obtain ax ay az aw where a: "a = \<lparr>q_x = ax, q_y = ay, q_z = az, q_w = aw\<rparr>" by (cases a) auto
  obtain bx byy bz bw where b: "b = \<lparr>q_x = bx, q_y = byy, q_z = bz, q_w = bw\<rparr>" by (cases b) auto
  obtain x y z where v: "v = \<lparr>v_x = x, v_y = y, v_z = z\<rparr>" by (cases v) auto
  have n: "ax\<^sup>2 + ay\<^sup>2 + az\<^sup>2 + aw\<^sup>2 = 1" "bx\<^sup>2 + byy\<^sup>2 + bz\<^sup>2 + bw\<^sup>2 = 1"
    using assms by (simp_all add: a b norm2_def)
  show ?thesis
    unfolding a b v rotateVector_def hamilton_def cross_def vector3_def Let_def
    apply simp
    using n by (intro conjI; algebra)
qed

lemma rotate_conjugate:
  assumes "norm2 q = 1"
  shows "rotateVector (quaternionConjugate q) (rotateVector q v) = v"
proof -
  obtain a b c d where q: "q = \<lparr>q_x = a, q_y = b, q_z = c, q_w = d\<rparr>" by (cases q) auto
  obtain x y z where v: "v = \<lparr>v_x = x, v_y = y, v_z = z\<rparr>" by (cases v) auto
  have n: "a\<^sup>2 + b\<^sup>2 + c\<^sup>2 + d\<^sup>2 = 1"
    using assms by (simp add: q norm2_def)
  show ?thesis
    unfolding q v rotateVector_def quaternionConjugate_def cross_def vector3_def Let_def
    apply simp
    using n by (intro conjI; algebra)
qed

lemma hamilton_conjugate:
  assumes "norm2 q = 1"
  shows "hamilton (quaternionConjugate q) (hamilton q r) = r"
proof -
  obtain a b c d where q: "q = \<lparr>q_x = a, q_y = b, q_z = c, q_w = d\<rparr>" by (cases q) auto
  obtain x y z w where r: "r = \<lparr>q_x = x, q_y = y, q_z = z, q_w = w\<rparr>" by (cases r) auto
  have n: "a\<^sup>2 + b\<^sup>2 + c\<^sup>2 + d\<^sup>2 = 1"
    using assms by (simp add: q norm2_def)
  show ?thesis
    unfolding q r hamilton_def quaternionConjugate_def
    apply simp
    using n by (intro conjI; algebra)
qed

text \<open>A transform's action on points, and the two steps of a chain of two.\<close>

definition act :: "transform \<Rightarrow> vector3 \<Rightarrow> vector3" where
  "act t p = vadd (rotateVector (tf_rotation t) p) (tf_translation t)"

definition unit_transform :: "transform \<Rightarrow> bool" where
  "unit_transform t \<longleftrightarrow> norm2 (tf_rotation t) = 1"

definition unit_reference :: "frame_reference \<Rightarrow> bool" where
  "unit_reference r \<longleftrightarrow> norm2 (po_orientation (fr_pose r)) = 1"

lemma apply_unit:
  assumes "unit_transform t" "unit_reference r" "fr_frame r = tf_from t"
  shows "applyTransform t r = Inr (frameReference (tf_to t)
    (pose (act t (po_position (fr_pose r))) (hamilton (tf_rotation t) (po_orientation (fr_pose r)))))"
  using assms
  by (simp add: applyTransform_def act_def unit_transform_def unit_reference_def multiply_unit Let_def)

lemma compose_unit:
  assumes "unit_transform f" "unit_transform s" "tf_to f = tf_from s"
  shows "composeTransforms f s now = Inr (makeTransform (tf_from f) (tf_to s)
    (vadd (tf_translation f) (rotateVector (tf_rotation f) (tf_translation s)))
    (hamilton (tf_rotation f) (tf_rotation s)) now)"
  using assms by (simp add: composeTransforms_def unit_transform_def multiply_unit Let_def)

lemma act_compose:
  assumes "unit_transform f" "unit_transform s"
  shows "act (makeTransform a b (vadd (tf_translation f) (rotateVector (tf_rotation f) (tf_translation s)))
      (hamilton (tf_rotation f) (tf_rotation s)) now) p = act f (act s p)"
  using assms
  by (simp add: act_def makeTransform_def unit_transform_def rotate_hamilton rotate_vadd vadd_assoc)
    (simp add: vadd_commute)

text \<open>Composing the transform from A to B with the one from B to C gives a transform labelled
  from A to C that moves points by the second transform first and the first one last: the opposite
  of going through the two frames one after the other.\<close>

theorem compose_order_reversed:
  assumes "unit_transform f" "unit_transform s" "unit_reference r"
    and "tf_to f = tf_from s" "fr_frame r = tf_from f"
  shows "\<exists>c x y z. composeTransforms f s now = Inr c \<and> applyTransform c r = Inr x \<and>
    applyTransform f r = Inr y \<and> applyTransform s y = Inr z \<and>
    fr_frame x = tf_to s \<and> fr_frame z = tf_to s \<and>
    po_position (fr_pose x) = act f (act s (po_position (fr_pose r))) \<and>
    po_position (fr_pose z) = act s (act f (po_position (fr_pose r)))"
proof -
  let ?c = "makeTransform (tf_from f) (tf_to s)
    (vadd (tf_translation f) (rotateVector (tf_rotation f) (tf_translation s)))
    (hamilton (tf_rotation f) (tf_rotation s)) now"
  let ?y = "frameReference (tf_to f)
    (pose (act f (po_position (fr_pose r))) (hamilton (tf_rotation f) (po_orientation (fr_pose r))))"
  have c: "unit_transform ?c"
    using assms(1,2) by (simp add: unit_transform_def makeTransform_def norm2_hamilton)
  have y: "unit_reference ?y"
    using assms(1,3) by (simp add: unit_transform_def unit_reference_def frameReference_def pose_def norm2_hamilton)
  have "fr_frame r = tf_from ?c" "fr_frame ?y = tf_from s"
    using assms(4,5) by (simp_all add: makeTransform_def frameReference_def)
  then show ?thesis
    using compose_unit[OF assms(1,2,4)] apply_unit[OF c assms(3)] apply_unit[OF assms(1,3,5)]
      apply_unit[OF assms(2) y] act_compose[OF assms(1,2)]
    by (simp add: frameReference_def pose_def makeTransform_def)
qed

definition half_turn :: transform where
  "half_turn = makeTransform ''world'' ''base'' (vector3 0 0 0) \<lparr>q_x = 0, q_y = 0, q_z = 1, q_w = 0\<rparr> 0"

definition one_step :: transform where
  "one_step = makeTransform ''base'' ''tcp'' (vector3 1 0 0) \<lparr>q_x = 0, q_y = 0, q_z = 0, q_w = 1\<rparr> 0"

definition origin :: frame_reference where
  "origin = frameReference ''world'' (pose (vector3 0 0 0) \<lparr>q_x = 0, q_y = 0, q_z = 0, q_w = 1\<rparr>)"

theorem compose_order_reversed_witness:
  "\<exists>c x y z. composeTransforms half_turn one_step 0 = Inr c \<and> applyTransform c origin = Inr x \<and>
    applyTransform half_turn origin = Inr y \<and> applyTransform one_step y = Inr z \<and>
    v_x (po_position (fr_pose x)) = -1 \<and> v_x (po_position (fr_pose z)) = 1"
proof -
  have u: "unit_transform half_turn" "unit_transform one_step" "unit_reference origin"
    "tf_to half_turn = tf_from one_step" "fr_frame origin = tf_from half_turn"
    by (simp_all add: unit_transform_def unit_reference_def half_turn_def one_step_def origin_def
        makeTransform_def frameReference_def pose_def norm2_def)
  have "v_x (act half_turn (act one_step (po_position (fr_pose origin)))) = -1"
    "v_x (act one_step (act half_turn (po_position (fr_pose origin)))) = 1"
    by (simp_all add: act_def half_turn_def one_step_def origin_def makeTransform_def frameReference_def
        pose_def rotateVector_def vadd_def vector3_def cross_def Let_def)
  then show ?thesis
    using compose_order_reversed[OF u, of 0] by metis
qed

text \<open>Inverting a transform undoes it: a pose taken through a transform and back through its
  inverse is the pose it was, position and orientation.\<close>

theorem invert_undoes:
  assumes "unit_transform t" "unit_reference r" "fr_frame r = tf_from t"
  shows "\<exists>x. applyTransform t r = Inr x \<and> applyTransform (invertTransform t now) x = Inr r"
proof -
  let ?x = "frameReference (tf_to t)
    (pose (act t (po_position (fr_pose r))) (hamilton (tf_rotation t) (po_orientation (fr_pose r))))"
  have x: "unit_reference ?x"
    using assms by (simp add: unit_transform_def unit_reference_def frameReference_def pose_def norm2_hamilton)
  have i: "unit_transform (invertTransform t now)" "fr_frame ?x = tf_from (invertTransform t now)"
    using assms(1) by (simp_all add: unit_transform_def invertTransform_def makeTransform_def frameReference_def Let_def)
  have undo: "act (invertTransform t now) (act t p) = p" for p
  proof -
    have "act (invertTransform t now) (act t p) =
        vadd (vadd (rotateVector (quaternionConjugate (tf_rotation t)) (rotateVector (tf_rotation t) p))
          (rotateVector (quaternionConjugate (tf_rotation t)) (tf_translation t)))
         (tf_translation (invertTransform t now))"
      by (simp add: act_def[of "invertTransform t now"] act_def[of t] rotate_vadd)
        (simp add: invertTransform_def makeTransform_def Let_def)
    also have "\<dots> = p"
      using rotate_conjugate[of "tf_rotation t" p] assms(1)
      by (simp add: unit_transform_def invertTransform_def makeTransform_def vadd_def vector3_def Let_def)
    finally show ?thesis .
  qed
  have "hamilton (tf_rotation (invertTransform t now)) (hamilton (tf_rotation t) q) = q" for q
    using hamilton_conjugate assms(1) by (simp add: unit_transform_def invertTransform_def makeTransform_def Let_def)
  then have "applyTransform (invertTransform t now) ?x = Inr r"
    using apply_unit[OF i(1) x i(2)] undo assms(3)
    by (simp add: frameReference_def pose_def) (simp add: invertTransform_def makeTransform_def Let_def)
  then show ?thesis
    using apply_unit[OF assms] by blast
qed

theorem invert_undoes_witness:
  "\<exists>x. applyTransform half_turn origin = Inr x \<and> applyTransform (invertTransform half_turn 5) x = Inr origin"
  by (rule invert_undoes)
    (simp_all add: unit_transform_def unit_reference_def half_turn_def origin_def makeTransform_def
      frameReference_def pose_def norm2_def)

end
