(* ===== verification/Units.thy ===== *)
theory Units
  imports Prelude
begin

text \<open>
  Unit conversion, \<open>packages/core/src/spec/units.ts\<close>, over exact reals: the canonical base units,
  the table of linear factors, pressures through Pascal and temperatures through Kelvin. The
  reference is the quantity a number denotes in SI units, by an affine map for every unit.
\<close>

datatype unit_name =
    U_m | U_mm | U_cm | U_km | U_rad | U_deg | U_rev | U_mps | U_mmps | U_radps | U_degps | U_rpm
  | U_mps2 | U_radps2 | U_N | U_Nm | U_kg | U_g | U_C | U_F | U_K | U_V | U_mV | U_A | U_mA | U_W
  | U_Pa | U_kPa | U_bar | U_psi | U_Hz | U_percent | U_lux | U_counts | U_bool | U_string

definition CANONICAL :: "(unit_name \<times> unit_name) list" where
  "CANONICAL =
    [(U_mm, U_m), (U_cm, U_m), (U_km, U_m), (U_deg, U_rad), (U_rev, U_rad), (U_mmps, U_mps),
     (U_degps, U_radps), (U_rpm, U_radps), (U_g, U_kg), (U_C, U_K), (U_F, U_K), (U_mA, U_A)]"

definition toCanonical :: "real \<Rightarrow> unit_name \<Rightarrow> real \<times> unit_name" where
  "toCanonical v u =
    (case u of
      U_mm \<Rightarrow> (v / 1000, U_m)
    | U_cm \<Rightarrow> (v / 100, U_m)
    | U_km \<Rightarrow> (v * 1000, U_m)
    | U_mmps \<Rightarrow> (v / 1000, U_mps)
    | U_deg \<Rightarrow> (v * pi / 180, U_rad)
    | U_degps \<Rightarrow> (v * pi / 180, U_radps)
    | U_rev \<Rightarrow> (v * 2 * pi, U_rad)
    | U_rpm \<Rightarrow> (v * 2 * pi / 60, U_radps)
    | U_g \<Rightarrow> (v / 1000, U_kg)
    | U_mA \<Rightarrow> (v / 1000, U_A)
    | _ \<Rightarrow> (case map_of CANONICAL u of Some c \<Rightarrow> (v, c) | None \<Rightarrow> (v, u)))"

definition psi_factor :: real where
  "psi_factor = 6894757293168361 / 1000000000000"

definition LINEAR :: "((unit_name \<times> unit_name) \<times> real) list" where
  "LINEAR =
    [((U_mm, U_m), 1000), ((U_cm, U_m), 100), ((U_km, U_m), 1 / 1000),
     ((U_deg, U_rad), 180 / pi), ((U_rev, U_rad), 1 / (2 * pi)),
     ((U_mmps, U_mps), 1000), ((U_degps, U_radps), 180 / pi), ((U_rpm, U_radps), 60 / (2 * pi)),
     ((U_g, U_kg), 1000), ((U_mA, U_A), 1000),
     ((U_kPa, U_Pa), 1 / 1000), ((U_bar, U_Pa), 1 / 100000), ((U_psi, U_Pa), 1 / psi_factor)]"

definition celsiusToKelvin :: "real \<Rightarrow> real" where
  "celsiusToKelvin v = v + 27315 / 100"

definition kelvinToCelsius :: "real \<Rightarrow> real" where
  "kelvinToCelsius v = v - 27315 / 100"

definition fahrenheitToKelvin :: "real \<Rightarrow> real" where
  "fahrenheitToKelvin v = (v - 32) * 5 / 9 + 27315 / 100"

definition kelvinToFahrenheit :: "real \<Rightarrow> real" where
  "kelvinToFahrenheit v = (v - 27315 / 100) * 9 / 5 + 32"

definition pressureToPa :: "(unit_name \<times> real) list" where
  "pressureToPa = [(U_Pa, 1), (U_kPa, 1000), (U_bar, 100000), (U_psi, psi_factor)]"

text \<open>\<open>None\<close> is the thrown error: there is no deterministic conversion.\<close>

definition convert :: "real \<Rightarrow> unit_name \<Rightarrow> unit_name \<Rightarrow> real option" where
  "convert v src dst =
    (if src = dst then Some v
     else (case map_of LINEAR (src, dst) of
       Some k \<Rightarrow> Some (v / k)
     | None \<Rightarrow> (case map_of LINEAR (dst, src) of
         Some k \<Rightarrow> Some (v * k)
       | None \<Rightarrow> (case (map_of pressureToPa src, map_of pressureToPa dst) of
           (Some a, Some b) \<Rightarrow> Some (v * a / b)
         | _ \<Rightarrow>
             (if src = U_C \<and> dst = U_K then Some (celsiusToKelvin v)
              else if src = U_K \<and> dst = U_C then Some (kelvinToCelsius v)
              else if src = U_F \<and> dst = U_K then Some (fahrenheitToKelvin v)
              else if src = U_K \<and> dst = U_F then Some (kelvinToFahrenheit v)
              else if src = U_C \<and> dst = U_F then Some (kelvinToFahrenheit (celsiusToKelvin v))
              else if src = U_F \<and> dst = U_C then Some (kelvinToCelsius (fahrenheitToKelvin v))
              else None)))))"

subsection \<open>The reference\<close>

text \<open>The SI unit of the quantity, the factor and the offset of a unit.\<close>

fun si :: "unit_name \<Rightarrow> unit_name \<times> real \<times> real" where
  "si U_mm = (U_m, 1 / 1000, 0)"
| "si U_cm = (U_m, 1 / 100, 0)"
| "si U_km = (U_m, 1000, 0)"
| "si U_deg = (U_rad, pi / 180, 0)"
| "si U_rev = (U_rad, 2 * pi, 0)"
| "si U_mmps = (U_mps, 1 / 1000, 0)"
| "si U_degps = (U_radps, pi / 180, 0)"
| "si U_rpm = (U_radps, 2 * pi / 60, 0)"
| "si U_g = (U_kg, 1 / 1000, 0)"
| "si U_mA = (U_A, 1 / 1000, 0)"
| "si U_C = (U_K, 1, 27315 / 100)"
| "si U_F = (U_K, 5 / 9, 27315 / 100 - 160 / 9)"
| "si U_kPa = (U_Pa, 1000, 0)"
| "si U_bar = (U_Pa, 100000, 0)"
| "si U_psi = (U_Pa, psi_factor, 0)"
| "si u = (u, 1, 0)"

definition quantity :: "real \<Rightarrow> unit_name \<Rightarrow> unit_name \<times> real" where
  "quantity v u = (case si u of (d, k, b) \<Rightarrow> (d, v * k + b))"

lemma psi_pos [simp]: "psi_factor \<noteq> 0"
  by (simp add: psi_factor_def)

lemma si_factor: "fst (snd (si u)) \<noteq> 0"
  by (cases u) simp_all

lemma quantity_inject: "quantity v u = quantity w u \<longleftrightarrow> v = w"
  using si_factor[of u] by (auto simp: quantity_def split: prod.splits)

lemma LINEAR_entries: "\<forall>(p, k)\<in>set LINEAR. k \<noteq> 0 \<and> (\<forall>v. quantity (v / k) (snd p) = quantity v (fst p))"
  by (simp add: LINEAR_def quantity_def)

lemma LINEAR_cases:
  "map_of LINEAR p = Some k \<Longrightarrow> k \<noteq> 0 \<and> quantity (v / k) (snd p) = quantity v (fst p)"
  using LINEAR_entries by (auto dest!: map_of_SomeD)

lemma pressure_cases:
  "map_of pressureToPa a = Some k \<Longrightarrow> k \<noteq> 0 \<and> quantity v a = (U_Pa, v * k)"
  by (auto simp: pressureToPa_def quantity_def split: if_splits)

lemma temperature_cases:
  "quantity (celsiusToKelvin v) U_K = quantity v U_C"
  "quantity (kelvinToCelsius v) U_C = quantity v U_K"
  "quantity (fahrenheitToKelvin v) U_K = quantity v U_F"
  "quantity (kelvinToFahrenheit v) U_F = quantity v U_K"
  by (simp_all add: quantity_def celsiusToKelvin_def kelvinToCelsius_def fahrenheitToKelvin_def
      kelvinToFahrenheit_def field_simps)

lemma convert_sound: "convert v src dst = Some x \<Longrightarrow> quantity x dst = quantity v src"
proof (cases "src = dst")
  case False
  assume c: "convert v src dst = Some x"
  consider (lin) k where "map_of LINEAR (src, dst) = Some k" "x = v / k"
    | (rev) k where "map_of LINEAR (dst, src) = Some k" "x = v * k"
    | (pressure) a b where "map_of pressureToPa src = Some a" "map_of pressureToPa dst = Some b" "x = v * a / b"
    | (temperature) "(src, dst, x) \<in> {(U_C, U_K, celsiusToKelvin v), (U_K, U_C, kelvinToCelsius v),
        (U_F, U_K, fahrenheitToKelvin v), (U_K, U_F, kelvinToFahrenheit v),
        (U_C, U_F, kelvinToFahrenheit (celsiusToKelvin v)), (U_F, U_C, kelvinToCelsius (fahrenheitToKelvin v))}"
    using c False by (auto simp: convert_def split: option.splits if_splits)
  then show ?thesis
  proof cases
    case lin
    then show ?thesis using LINEAR_cases[of "(src, dst)" k v] by simp
  next
    case rev
    then have "x / k = v" using LINEAR_cases[of "(dst, src)" k x] by simp
    then show ?thesis using LINEAR_cases[of "(dst, src)" k x] rev(1) by simp
  next
    case pressure
    then show ?thesis using pressure_cases[of src a v] pressure_cases[of dst b x] by simp
  next
    case temperature
    then show ?thesis by (auto simp: temperature_cases)
  qed
qed (simp add: convert_def)

text \<open>Conversion is defined in both directions or in neither.\<close>

lemma convert_None:
  "convert v src dst = None \<longleftrightarrow> src \<noteq> dst \<and> map_of LINEAR (src, dst) = None \<and> map_of LINEAR (dst, src) = None \<and>
    (map_of pressureToPa src = None \<or> map_of pressureToPa dst = None) \<and>
    (src, dst) \<notin> {(U_C, U_K), (U_K, U_C), (U_F, U_K), (U_K, U_F), (U_C, U_F), (U_F, U_C)}"
  by (cases "map_of LINEAR (src, dst)"; cases "map_of LINEAR (dst, src)"; cases "map_of pressureToPa src";
      cases "map_of pressureToPa dst") (simp_all add: convert_def)

lemma convert_symmetric: "convert v src dst = None \<longleftrightarrow> convert w dst src = None"
  unfolding convert_None by auto

text \<open>A conversion that succeeds denotes the same physical quantity in the new unit, and converting
  the result back gives the number it started from.\<close>

theorem convert_exact:
  assumes "convert v src dst = Some x"
  shows "quantity x dst = quantity v src \<and> convert x dst src = Some v"
proof
  show "quantity x dst = quantity v src"
    by (rule convert_sound[OF assms])
  obtain w where w: "convert x dst src = Some w"
    using convert_symmetric[of v src dst x] assms by auto
  then have "quantity w src = quantity v src"
    using convert_sound[OF w] convert_sound[OF assms] by simp
  then show "convert x dst src = Some v"
    using w by (simp add: quantity_inject)
qed

theorem convert_exact_witness:
  "convert 212 U_F U_C = Some 100 \<and> convert 100 U_C U_F = Some 212"
proof -
  have "convert 212 U_F U_C = Some 100"
    by (simp add: convert_def LINEAR_def pressureToPa_def fahrenheitToKelvin_def kelvinToCelsius_def)
  from this convert_exact[OF this] show ?thesis by simp
qed

text \<open>The canonical form keeps the quantity for every unit but degrees Celsius and Fahrenheit:
  those are relabelled as Kelvin with the number unchanged.\<close>

theorem canonical_exact_except_temperature:
  "(\<forall>v. case toCanonical v u of (x, u') \<Rightarrow> quantity x u' = quantity v u) \<longleftrightarrow> u \<notin> {U_C, U_F}"
proof (cases "u \<in> {U_C, U_F}")
  case True
  have "quantity 0 U_C \<noteq> quantity 0 U_K" "quantity 0 U_F \<noteq> quantity 0 U_K"
    by (simp_all add: quantity_def)
  then have "\<exists>v. quantity v U_K \<noteq> quantity v U_C" "\<exists>v. quantity v U_K \<noteq> quantity v U_F"
    by metis+
  with True show ?thesis
    by (auto simp: toCanonical_def CANONICAL_def)
next
  case False
  then show ?thesis
    by (cases u) (auto simp: toCanonical_def CANONICAL_def quantity_def)
qed

end
