(* ===== verification/Schema.thy ===== *)
theory Schema
  imports Prelude
begin

text \<open>
  The validator of capability payloads and results, \<open>packages/core/src/schema.ts\<close>, with the
  schema type of \<open>types.ts\<close>. An error is the path of the offending value and its kind. The reference
  is the meaning of a schema as a predicate on values, written independently of the validator's order.
\<close>

datatype schema = Schema
  (sc_type: "string option")
  (sc_properties: "(string \<times> schema) list option")
  (sc_required: "string list option")
  (sc_items: "schema option")
  (sc_minItems: "real option")
  (sc_maxItems: "real option")
  (sc_enum: "jsval list option")
  (sc_minimum: "jsnum option")
  (sc_maximum: "jsnum option")
  (sc_minLength: "real option")
  (sc_additionalProperties: "bool option")

datatype schema_fault =
    MustBeObject | MissingField string | UnexpectedField string | MustBeArray | TooFewItems | TooManyItems
  | MustBeInteger | MustBeNumber | MustBeBoolean | MustBeString | TooShort | NotInEnum
  | BelowMinimum | AboveMaximum

type_synonym schema_check = "(string \<times> schema_fault) + unit"

definition plain_schema :: schema where
  "plain_schema = Schema None None None None None None None None None None None"

text \<open>
  The names every object inherits from \<open>Object.prototype\<close>. The operator \<open>in\<close> and a property
  read see them: an inherited function used as a schema has no \<open>type\<close> and no \<open>enum\<close>.
\<close>

definition object_prototype :: "string list" where
  "object_prototype =
    [''constructor'', ''__defineGetter__'', ''__defineSetter__'', ''hasOwnProperty'', ''__lookupGetter__'',
     ''__lookupSetter__'', ''isPrototypeOf'', ''propertyIsEnumerable'', ''toString'', ''valueOf'',
     ''__proto__'', ''toLocaleString'']"

definition has_key :: "string \<Rightarrow> jsrecord \<Rightarrow> bool" where
  "has_key k f = (k \<in> fst ` set f \<or> k \<in> set object_prototype)"

definition property_schema :: "(string \<times> schema) list \<Rightarrow> string \<Rightarrow> schema option" where
  "property_schema props k =
    (case map_of props k of
      Some s \<Rightarrow> Some s
    | None \<Rightarrow> if k \<in> set object_prototype then Some plain_schema else None)"

definition is_integer :: "jsnum \<Rightarrow> bool" where
  "is_integer n = (case n of Fin r \<Rightarrow> of_int \<lfloor>r\<rfloor> = r | _ \<Rightarrow> False)"

text \<open>\<open>Array.prototype.includes\<close> compares like \<open>===\<close>, but finds \<open>NaN\<close>.\<close>

definition enum_includes :: "jsval list \<Rightarrow> jsval \<Rightarrow> bool" where
  "enum_includes es v = (\<exists>e\<in>set es. js_strict_eq e v \<or> (e = JNum NaN \<and> v = JNum NaN))"

definition assertNumericBounds :: "schema \<Rightarrow> jsnum \<Rightarrow> string \<Rightarrow> schema_check" where
  "assertNumericBounds s n path =
    (if (case sc_minimum s of Some m \<Rightarrow> js_less n m | None \<Rightarrow> False) then Inl (path, BelowMinimum)
     else if (case sc_maximum s of Some m \<Rightarrow> js_less m n | None \<Rightarrow> False) then Inl (path, AboveMaximum)
     else Inr ())"

fun missing_field :: "string list \<Rightarrow> jsrecord \<Rightarrow> string option" where
  "missing_field [] f = None"
| "missing_field (k # ks) f = (if has_key k f then missing_field ks f else Some k)"

definition sub_path :: "string \<Rightarrow> string \<Rightarrow> string" where
  "sub_path path key = (if path = [] then key else path @ ''.'' @ key)"

definition index_path :: "string \<Rightarrow> nat \<Rightarrow> string" where
  "index_path path i = path @ ''['' @ nat_str i @ '']''"

definition or_empty :: "'a list option \<Rightarrow> 'a list" where
  "or_empty x = (case x of Some l \<Rightarrow> l | None \<Rightarrow> [])"

definition enum_check :: "schema \<Rightarrow> jsval \<Rightarrow> string \<Rightarrow> schema_check" where
  "enum_check s v path =
    (case sc_enum s of
      Some es \<Rightarrow> if enum_includes es v then Inr () else Inl (path, NotInEnum)
    | None \<Rightarrow> Inr ())"

text \<open>Everything but objects and arrays.\<close>

definition assert_scalar :: "schema \<Rightarrow> jsval \<Rightarrow> string \<Rightarrow> schema_check" where
  "assert_scalar s v path =
    (if sc_type s = Some ''integer'' then
       (case v of
         JNum n \<Rightarrow> if is_integer n then assertNumericBounds s n path else Inl (path, MustBeInteger)
       | _ \<Rightarrow> Inl (path, MustBeInteger))
     else if sc_type s = Some ''number'' then
       (case v of
         JNum n \<Rightarrow> if is_finite n then assertNumericBounds s n path else Inl (path, MustBeNumber)
       | _ \<Rightarrow> Inl (path, MustBeNumber))
     else if sc_type s = Some ''boolean'' then
       (case v of JBool _ \<Rightarrow> Inr () | _ \<Rightarrow> Inl (path, MustBeBoolean))
     else if sc_type s = Some ''string'' then
       (case v of
         JStr t \<Rightarrow>
           if (case sc_minLength s of Some n \<Rightarrow> real (length t) < n | None \<Rightarrow> False) then Inl (path, TooShort)
           else enum_check s v path
       | _ \<Rightarrow> Inl (path, MustBeString))
     else enum_check s v path)"

fun assertSchema :: "schema \<Rightarrow> jsval \<Rightarrow> string \<Rightarrow> schema_check"
  and assert_entries :: "schema \<Rightarrow> jsrecord \<Rightarrow> string \<Rightarrow> schema_check"
  and assert_items :: "schema \<Rightarrow> jsval list \<Rightarrow> nat \<Rightarrow> string \<Rightarrow> schema_check" where
  "assertSchema s v path =
    (if sc_type s = Some ''object'' then
       (case v of
         JObj f \<Rightarrow>
           (case missing_field (or_empty (sc_required s)) f of
             Some k \<Rightarrow> Inl (path, MissingField k)
           | None \<Rightarrow> assert_entries s f path)
       | _ \<Rightarrow> Inl (path, MustBeObject))
     else if sc_type s = Some ''array'' then
       (case v of
         JArr xs \<Rightarrow>
           if (case sc_minItems s of Some n \<Rightarrow> real (length xs) < n | None \<Rightarrow> False) then Inl (path, TooFewItems)
           else if (case sc_maxItems s of Some n \<Rightarrow> n < real (length xs) | None \<Rightarrow> False) then Inl (path, TooManyItems)
           else (case sc_items s of None \<Rightarrow> Inr () | Some s' \<Rightarrow> assert_items s' xs 0 path)
       | _ \<Rightarrow> Inl (path, MustBeArray))
     else assert_scalar s v path)"
| "assert_entries s [] path = Inr ()"
| "assert_entries s ((k, c) # f) path =
    (case property_schema (or_empty (sc_properties s)) k of
      None \<Rightarrow>
        if sc_additionalProperties s = Some False then Inl (path, UnexpectedField k)
        else assert_entries s f path
    | Some s' \<Rightarrow>
        (case assertSchema s' c (sub_path path k) of
          Inl e \<Rightarrow> Inl e
        | Inr _ \<Rightarrow> assert_entries s f path))"
| "assert_items s [] i path = Inr ()"
| "assert_items s (x # xs) i path =
    (case assertSchema s x (index_path path i) of
      Inl e \<Rightarrow> Inl e
    | Inr _ \<Rightarrow> assert_items s xs (Suc i) path)"

declare assertSchema.simps [simp del]

text \<open>The object test after a successful check, and the error class of the output check.\<close>

datatype schema_error = InputInvalid string schema_fault | OutputInvalid string schema_fault

definition validateInputSchema :: "schema \<Rightarrow> jsval \<Rightarrow> string \<Rightarrow> schema_error + jsrecord" where
  "validateInputSchema s v path =
    (case assertSchema s v (if path = [] then ''payload'' else path) of
      Inl (p, e) \<Rightarrow> Inl (InputInvalid p e)
    | Inr _ \<Rightarrow> (case v of JObj f \<Rightarrow> Inr f | _ \<Rightarrow> Inl (InputInvalid ''payload'' MustBeObject)))"

definition validateOutputSchema :: "schema \<Rightarrow> jsval \<Rightarrow> schema_error + jsrecord" where
  "validateOutputSchema s v =
    (case assertSchema s v ''result'' of
      Inl (p, e) \<Rightarrow> Inl (OutputInvalid p e)
    | Inr _ \<Rightarrow> (case v of JObj f \<Rightarrow> Inr f | _ \<Rightarrow> Inl (OutputInvalid ''output'' MustBeObject)))"

subsection \<open>The meaning of a schema\<close>

definition in_bounds :: "schema \<Rightarrow> jsnum \<Rightarrow> bool" where
  "in_bounds s n \<longleftrightarrow>
    (\<forall>m. sc_minimum s = Some m \<longrightarrow> \<not> js_less n m) \<and> (\<forall>m. sc_maximum s = Some m \<longrightarrow> \<not> js_less m n)"

definition scalar_type :: "schema \<Rightarrow> jsval \<Rightarrow> bool" where
  "scalar_type s v \<longleftrightarrow>
    (sc_type s = Some ''integer'' \<longrightarrow> (\<exists>n. v = JNum n \<and> is_integer n \<and> in_bounds s n)) \<and>
    (sc_type s = Some ''number'' \<longrightarrow> (\<exists>n. v = JNum n \<and> is_finite n \<and> in_bounds s n)) \<and>
    (sc_type s = Some ''boolean'' \<longrightarrow> (\<exists>b. v = JBool b)) \<and>
    (sc_type s = Some ''string'' \<longrightarrow> (\<exists>t. v = JStr t \<and> (\<forall>n. sc_minLength s = Some n \<longrightarrow> n \<le> real (length t))))"

inductive conforms :: "schema \<Rightarrow> jsval \<Rightarrow> bool" where
  object: "sc_type s = Some ''object'' \<Longrightarrow>
    set (or_empty (sc_required s)) \<subseteq> fst ` set f \<Longrightarrow>
    (\<And>k c s'. (k, c) \<in> set f \<Longrightarrow> map_of (or_empty (sc_properties s)) k = Some s' \<Longrightarrow> conforms s' c) \<Longrightarrow>
    (\<And>k c. (k, c) \<in> set f \<Longrightarrow> sc_additionalProperties s = Some False \<Longrightarrow>
      map_of (or_empty (sc_properties s)) k \<noteq> None) \<Longrightarrow>
    conforms s (JObj f)"
| array: "sc_type s = Some ''array'' \<Longrightarrow>
    (\<And>n. sc_minItems s = Some n \<Longrightarrow> n \<le> real (length xs)) \<Longrightarrow>
    (\<And>n. sc_maxItems s = Some n \<Longrightarrow> real (length xs) \<le> n) \<Longrightarrow>
    (\<And>s' x. sc_items s = Some s' \<Longrightarrow> x \<in> set xs \<Longrightarrow> conforms s' x) \<Longrightarrow>
    conforms s (JArr xs)"
| scalar: "sc_type s \<noteq> Some ''object'' \<Longrightarrow> sc_type s \<noteq> Some ''array'' \<Longrightarrow> scalar_type s v \<Longrightarrow>
    (\<And>es. sc_enum s = Some es \<Longrightarrow> enum_includes es v) \<Longrightarrow> conforms s v"

subsection \<open>Soundness and completeness\<close>

text \<open>
  The values and schemas outside of which the inherited names and the ignored enumerations show:
  no object of the value has a key of \<open>Object.prototype\<close>, no schema requires one, and an enumeration
  stands only where the validator reads it.
\<close>

fun own_keys :: "jsval \<Rightarrow> bool" where
  "own_keys (JObj f) = (\<forall>p\<in>set f. fst p \<notin> set object_prototype \<and> own_keys (snd p))"
| "own_keys (JArr xs) = (\<forall>x\<in>set xs. own_keys x)"
| "own_keys _ = True"

function regular :: "schema \<Rightarrow> bool" where
  "regular s =
    (set (or_empty (sc_required s)) \<inter> set object_prototype = {} \<and>
     (sc_type s \<in> {Some ''integer'', Some ''number'', Some ''boolean''} \<longrightarrow> sc_enum s = None) \<and>
     (\<forall>p\<in>set (or_empty (sc_properties s)). regular (snd p)) \<and>
     (case sc_items s of None \<Rightarrow> True | Some s' \<Rightarrow> regular s'))"
  by auto
termination
proof (relation "measure size", goal_cases)
  case (2 s p)
  have "size (snd p) \<le> size_prod (\<lambda>_. 0) size p"
    by (cases p) simp
  with 2 show ?case
    by (cases s) (auto simp: or_empty_def less_Suc_eq_le
        dest!: size_list_estimation'[where f = "size_prod (\<lambda>_. 0) size" and y = "size (snd p)"] split: option.splits)
next
  case (3 s s')
  then show ?case
    by (cases s) auto
qed simp

declare regular.simps [simp del]

lemma regularD:
  assumes "regular s"
  shows "set (or_empty (sc_required s)) \<inter> set object_prototype = {}"
    "sc_type s \<in> {Some ''integer'', Some ''number'', Some ''boolean''} \<Longrightarrow> sc_enum s = None"
    "map_of (or_empty (sc_properties s)) k = Some s' \<Longrightarrow> regular s'"
    "sc_items s = Some s' \<Longrightarrow> regular s'"
  using assms by (auto simp: regular.simps[of s] dest!: map_of_SomeD)

lemma missing_None: "missing_field ks f = None \<longleftrightarrow> (\<forall>k\<in>set ks. has_key k f)"
  by (induction ks) auto

lemma bounds_ok: "assertNumericBounds s n path = Inr () \<longleftrightarrow> in_bounds s n"
  by (auto simp: assertNumericBounds_def in_bounds_def split: option.splits)

lemma enum_ok: "enum_check s v path = Inr () \<longleftrightarrow> (\<forall>es. sc_enum s = Some es \<longrightarrow> enum_includes es v)"
  by (auto simp: enum_check_def split: option.splits)

lemma assert_scalar_ok:
  assumes "regular s"
  shows "assert_scalar s v path = Inr () \<longleftrightarrow> scalar_type s v \<and> (\<forall>es. sc_enum s = Some es \<longrightarrow> enum_includes es v)"
  using regularD(2)[OF assms]
  by (cases v) (auto simp: assert_scalar_def scalar_type_def bounds_ok enum_ok not_less split: option.splits)

inductive_simps conforms_object: "conforms s (JObj f)"
inductive_simps conforms_array: "conforms s (JArr xs)"
inductive_simps conforms_any: "conforms s v"

definition entry_ok :: "schema \<Rightarrow> string \<times> jsval \<Rightarrow> bool" where
  "entry_ok s p = (case map_of (or_empty (sc_properties s)) (fst p) of
     None \<Rightarrow> sc_additionalProperties s \<noteq> Some False | Some s' \<Rightarrow> conforms s' (snd p))"

lemma property_own: "k \<notin> set object_prototype \<Longrightarrow> property_schema props k = map_of props k"
  by (auto simp: property_schema_def split: option.split)

lemma conforms_object_entries:
  "sc_type s = Some ''object'' \<Longrightarrow>
    conforms s (JObj f) \<longleftrightarrow> set (or_empty (sc_required s)) \<subseteq> fst ` set f \<and> (\<forall>p\<in>set f. entry_ok s p)"
  by (auto simp: conforms_object entry_ok_def split: option.splits)

lemma conforms_nonobject: "sc_type s = Some ''object'' \<Longrightarrow> \<forall>f. v \<noteq> JObj f \<Longrightarrow> \<not> conforms s v"
  by (auto elim: conforms.cases)

lemma conforms_nonarray: "sc_type s = Some ''array'' \<Longrightarrow> \<forall>xs. v \<noteq> JArr xs \<Longrightarrow> \<not> conforms s v"
  by (auto elim: conforms.cases)

lemma assert_conforms:
  "own_keys v \<Longrightarrow> regular s \<Longrightarrow> assertSchema s v path = Inr () \<longleftrightarrow> conforms s v"
  "own_keys (JObj f) \<Longrightarrow> regular s \<Longrightarrow> assert_entries s f path = Inr () \<longleftrightarrow> (\<forall>p\<in>set f. entry_ok s p)"
  "own_keys (JArr xs) \<Longrightarrow> regular s \<Longrightarrow> assert_items s xs i path = Inr () \<longleftrightarrow> (\<forall>x\<in>set xs. conforms s x)"
proof (induction s v path and s f path and s xs i path rule: assertSchema_assert_entries_assert_items.induct)
  case (1 s v path)
  show ?case
  proof (cases "sc_type s = Some ''object''")
    case True
    show ?thesis
    proof (cases v)
      case (JObj f)
      have keys: "(\<forall>k\<in>set (or_empty (sc_required s)). has_key k f) \<longleftrightarrow> set (or_empty (sc_required s)) \<subseteq> fst ` set f"
        using regularD(1)[OF 1(4)] by (auto simp: has_key_def)
      show ?thesis
        using True JObj 1(1)[OF True JObj] 1(3,4) keys missing_None[of "or_empty (sc_required s)" f]
        by (auto simp: assertSchema.simps conforms_object_entries split: option.splits)
    qed (use True conforms_nonobject[of s v] in \<open>simp_all add: assertSchema.simps\<close>)
  next
    case obj: False
    show ?thesis
    proof (cases "sc_type s = Some ''array''")
      case True
      show ?thesis
      proof (cases v)
        case (JArr xs)
        show ?thesis
          using True JArr 1(2)[OF obj True JArr] 1(3,4) regularD(4)[OF 1(4)]
          by (auto simp: assertSchema.simps conforms_array not_less split: option.splits)
      qed (use True conforms_nonarray[of s v] in \<open>simp_all add: assertSchema.simps\<close>)
    next
      case False
      then show ?thesis
        using obj assert_scalar_ok[OF 1(4), of v path]
        by (auto simp: assertSchema.simps conforms_any[of s v])
    qed
  qed
next
  case (3 s k c f path)
  have p: "property_schema (or_empty (sc_properties s)) k = map_of (or_empty (sc_properties s)) k"
    using 3(4) by (intro property_own) simp
  show ?case
    using 3 p regularD(3)[OF 3(5), of k]
    by (auto simp: entry_ok_def[of s "(k, c)"] split: option.splits sum.splits)
next
  case (5 s x xs i path)
  then show ?case
    by (auto split: sum.splits)
qed auto

text \<open>C11: On regular input the schema validator is exact. If no object of the payload, at any depth, has a key that is a
  name of \<open>Object.prototype\<close>, if no schema, at any depth, requires such a name, and if no schema of type integer, number
  or boolean has an enumeration (the validator does not read it there), then the validator accepts exactly the objects
  that have the type the schema describes, and hands them on unchanged. Outside of these conditions it accepts more:
  \<open>schema_loopholes\<close>.\<close>

theorem schema_exact:
  assumes "own_keys v" "regular s"
  shows "validateInputSchema s v path = Inr f \<longleftrightarrow> v = JObj f \<and> conforms s v"
  using assert_conforms(1)[OF assms]
  by (cases v) (auto simp: validateInputSchema_def split: sum.splits if_splits)

definition angle_schema :: schema where
  "angle_schema = Schema (Some ''object'')
    (Some [(''angle'', Schema (Some ''number'') None None None None None None (Some (Fin 0)) (Some (Fin 180)) None None)])
    (Some [''angle'']) None None None None None None None (Some False)"

theorem schema_exact_witness:
  "conforms angle_schema (JObj [(''angle'', JNum (Fin 90))]) \<and>
    \<not> conforms angle_schema (JObj [(''angle'', JNum (Fin 200))])"
proof -
  have r: "regular angle_schema"
    unfolding angle_schema_def
    by (subst regular.simps, simp add: or_empty_def object_prototype_def, subst regular.simps, simp add: or_empty_def)
  have "own_keys (JObj [(''angle'', JNum (Fin n))])" for n
    by (simp add: object_prototype_def)
  note exact = schema_exact[OF this r, of _ "''payload''"]
  have "validateInputSchema angle_schema (JObj [(''angle'', JNum (Fin 90))]) ''payload'' = Inr [(''angle'', JNum (Fin 90))]"
    "validateInputSchema angle_schema (JObj [(''angle'', JNum (Fin 200))]) ''payload'' \<noteq> Inr [(''angle'', JNum (Fin 200))]"
    by (simp_all add: validateInputSchema_def assertSchema.simps angle_schema_def or_empty_def has_key_def
        property_schema_def assert_scalar_def assertNumericBounds_def)
  then show ?thesis
    using exact by blast
qed

lemma assert_inherited: "assertSchema plain_schema v path = Inr ()"
  by (subst assertSchema.simps) (simp add: plain_schema_def assert_scalar_def enum_check_def)

text \<open>The validator lets through what the schema forbids: a field or a required field with a name
  that objects inherit, whatever its value, and a number or boolean outside its enumeration.\<close>

theorem schema_loopholes:
  "k \<in> set object_prototype \<Longrightarrow>
    validateInputSchema (Schema (Some ''object'') None None None None None None None None None (Some False))
      (JObj [(k, v)]) path = Inr [(k, v)] \<and>
    validateInputSchema (Schema (Some ''object'') None (Some [k]) None None None None None None None None) (JObj []) path = Inr [] \<and>
    assertSchema (Schema (Some ''integer'') None None None None None (Some [JNum (Fin 1), JNum (Fin 2)]) None None None None)
      (JNum (Fin 7)) path = Inr ()"
proof -
  assume k: "k \<in> set object_prototype"
  let ?closed = "Schema (Some ''object'') None None None None None None None None None (Some False)"
  let ?needs = "Schema (Some ''object'') None (Some [k]) None None None None None None None None"
  have "assertSchema ?closed (JObj [(k, v)]) q = Inr ()" for q
    using k by (simp add: assertSchema.simps[of ?closed] or_empty_def property_schema_def assert_inherited)
  moreover have "assertSchema ?needs (JObj []) q = Inr ()" for q
    using k by (simp add: assertSchema.simps[of ?needs] or_empty_def has_key_def)
  ultimately show ?thesis
    by (simp add: validateInputSchema_def assertSchema.simps[of _ "JNum (Fin 7)"] assert_scalar_def
        assertNumericBounds_def is_integer_def)
qed

theorem schema_loopholes_witness:
  "validateInputSchema (Schema (Some ''object'') None None None None None None None None None (Some False))
      (JObj [(''constructor'', JStr ''x'')]) '''' = Inr [(''constructor'', JStr ''x'')]"
  using schema_loopholes[of "''constructor''" "JStr ''x''" "''''"] by (simp add: object_prototype_def)

end
