(* ===== verification/Support_Level.thy ===== *)
theory Support_Level
  imports Prelude
begin

text \<open>
  The evidence ladder, \<open>packages/core/src/spec/supportLevel.ts\<close>: four ordered levels, the rule that a
  claim of hardware verification needs a dated record, and the mappings of the five older
  vocabularies. \<open>Date.parse\<close> of a date-only text accepts months 1 to 12 and days 1 to 31, as
  the engine of Node does.
\<close>

datatype support_level = UNKNOWN_LEVEL | SIMULATED_LEVEL | COMPILE_TESTED_LEVEL | HARDWARE_VERIFIED_LEVEL

datatype manifest_status = CANDIDATE | REVIEWED | TESTED

datatype support_status =
  StIMPLEMENTED | StHARDWARE_VERIFIED | StSIMULATED | StCOMPILE_TESTED | StPLANNED | StEXPERIMENTAL

datatype catalog_status =
    CtPLANNED | CtSPEC_ONLY | CtIMPLEMENTED | CtCOMPILE_TESTED | CtSIMULATED | CtINTEGRATION_VERIFIED
  | CtHARDWARE_VERIFIED | CtEXPERIMENTAL

datatype conformance_level = L0 | L1 | L2 | L3 | L4 | L5

datatype generator_lifecycle =
  GENERATED | CONFORMANCE_PASSED | SIMULATION_TESTED | HUMAN_REVIEWED | HARDWARE_TESTED

definition SUPPORT_LEVELS :: "support_level list" where
  "SUPPORT_LEVELS = [UNKNOWN_LEVEL, SIMULATED_LEVEL, COMPILE_TESTED_LEVEL, HARDWARE_VERIFIED_LEVEL]"

fun supportLevelRank :: "support_level \<Rightarrow> int" where
  "supportLevelRank UNKNOWN_LEVEL = 0"
| "supportLevelRank SIMULATED_LEVEL = 1"
| "supportLevelRank COMPILE_TESTED_LEVEL = 2"
| "supportLevelRank HARDWARE_VERIFIED_LEVEL = 3"

definition compareSupportLevels :: "support_level \<Rightarrow> support_level \<Rightarrow> int" where
  "compareSupportLevels l r = supportLevelRank l - supportLevelRank r"

text \<open>The order of the ladder, by rank.\<close>

instantiation support_level :: linorder
begin

definition less_eq_support_level :: "support_level \<Rightarrow> support_level \<Rightarrow> bool" where
  "less_eq_support_level a b = (supportLevelRank a \<le> supportLevelRank b)"

definition less_support_level :: "support_level \<Rightarrow> support_level \<Rightarrow> bool" where
  "less_support_level a b = (supportLevelRank a < supportLevelRank b)"

instance
proof
  fix a b :: support_level
  assume "a \<le> b" "b \<le> a"
  then show "a = b"
    by (cases a; cases b) (simp_all add: less_eq_support_level_def)
qed (auto simp: less_eq_support_level_def less_support_level_def)

end

definition capSupportLevel :: "support_level \<Rightarrow> support_level \<Rightarrow> support_level" where
  "capSupportLevel l mx = (if compareSupportLevels l mx > 0 then mx else l)"

definition is_space :: "char \<Rightarrow> bool" where
  "is_space c \<longleftrightarrow> (of_char c :: nat) \<in> {9, 10, 11, 12, 13, 32, 160}"

definition js_trim :: "string \<Rightarrow> string" where
  "js_trim s = rev (dropWhile is_space (rev (dropWhile is_space s)))"

text \<open>\<open>/^(\d{4}-\d{2}-\d{2})/\<close> and the month and day of its match.\<close>

definition date_prefix :: "string \<Rightarrow> string option" where
  "date_prefix s =
    (let p = take 10 s
     in if length p = 10 \<and> list_all is_digit (take 4 p) \<and> p ! 4 = CHR ''-'' \<and> list_all is_digit (take 2 (drop 5 p)) \<and>
           p ! 7 = CHR ''-'' \<and> list_all is_digit (drop 8 p)
        then Some p else None)"

definition date_parses :: "string \<Rightarrow> bool" where
  "date_parses p =
    (str_nat (take 2 (drop 5 p)) \<in> {1..12} \<and> str_nat (drop 8 p) \<in> {1..31})"

definition isDatedHardwareRecord :: "string option \<Rightarrow> bool" where
  "isDatedHardwareRecord d =
    (case d of
      None \<Rightarrow> False
    | Some s \<Rightarrow>
        (let t = js_trim s
         in if t = [] then False else (case date_prefix t of None \<Rightarrow> False | Some p \<Rightarrow> date_parses p)))"

record support_options =
  sl_generated :: "bool option"
  sl_hardwareRecordDate :: "string option"

definition applyEvidenceRules :: "support_level \<Rightarrow> support_options \<Rightarrow> support_level" where
  "applyEvidenceRules level opts =
    (let hasRecord = isDatedHardwareRecord (sl_hardwareRecordDate opts);
         resolved = (if level = HARDWARE_VERIFIED_LEVEL \<and> \<not> hasRecord then COMPILE_TESTED_LEVEL else level)
     in if sl_generated opts = Some True \<and> \<not> hasRecord then capSupportLevel resolved COMPILE_TESTED_LEVEL
        else resolved)"

definition mapFromManifestStatus :: "manifest_status \<Rightarrow> support_options \<Rightarrow> support_level" where
  "mapFromManifestStatus s opts = applyEvidenceRules
    (case s of CANDIDATE \<Rightarrow> UNKNOWN_LEVEL | REVIEWED \<Rightarrow> SIMULATED_LEVEL | TESTED \<Rightarrow> COMPILE_TESTED_LEVEL) opts"

definition mapFromSupportStatus :: "support_status \<Rightarrow> support_options \<Rightarrow> support_level" where
  "mapFromSupportStatus s opts = applyEvidenceRules
    (case s of
      StSIMULATED \<Rightarrow> SIMULATED_LEVEL
    | StCOMPILE_TESTED \<Rightarrow> COMPILE_TESTED_LEVEL
    | StIMPLEMENTED \<Rightarrow> COMPILE_TESTED_LEVEL
    | StHARDWARE_VERIFIED \<Rightarrow> HARDWARE_VERIFIED_LEVEL
    | StPLANNED \<Rightarrow> UNKNOWN_LEVEL
    | StEXPERIMENTAL \<Rightarrow> UNKNOWN_LEVEL) opts"

definition mapFromCatalogStatus :: "catalog_status \<Rightarrow> support_options \<Rightarrow> support_level" where
  "mapFromCatalogStatus s opts = applyEvidenceRules
    (case s of
      CtSIMULATED \<Rightarrow> SIMULATED_LEVEL
    | CtCOMPILE_TESTED \<Rightarrow> COMPILE_TESTED_LEVEL
    | CtIMPLEMENTED \<Rightarrow> COMPILE_TESTED_LEVEL
    | CtINTEGRATION_VERIFIED \<Rightarrow> COMPILE_TESTED_LEVEL
    | CtHARDWARE_VERIFIED \<Rightarrow> HARDWARE_VERIFIED_LEVEL
    | CtPLANNED \<Rightarrow> UNKNOWN_LEVEL
    | CtSPEC_ONLY \<Rightarrow> UNKNOWN_LEVEL
    | CtEXPERIMENTAL \<Rightarrow> UNKNOWN_LEVEL) opts"

definition mapFromConformanceLevel :: "conformance_level \<Rightarrow> support_options \<Rightarrow> support_level" where
  "mapFromConformanceLevel l opts = applyEvidenceRules
    (case l of
      L0 \<Rightarrow> UNKNOWN_LEVEL | L1 \<Rightarrow> UNKNOWN_LEVEL | L2 \<Rightarrow> UNKNOWN_LEVEL
    | L3 \<Rightarrow> SIMULATED_LEVEL
    | L4 \<Rightarrow> COMPILE_TESTED_LEVEL
    | L5 \<Rightarrow> HARDWARE_VERIFIED_LEVEL) opts"

definition mapFromGeneratorLifecycle :: "generator_lifecycle \<Rightarrow> support_options \<Rightarrow> support_level" where
  "mapFromGeneratorLifecycle l opts = applyEvidenceRules
    (case l of
      GENERATED \<Rightarrow> UNKNOWN_LEVEL
    | CONFORMANCE_PASSED \<Rightarrow> UNKNOWN_LEVEL
    | SIMULATION_TESTED \<Rightarrow> SIMULATED_LEVEL
    | HUMAN_REVIEWED \<Rightarrow> COMPILE_TESTED_LEVEL
    | HARDWARE_TESTED \<Rightarrow> HARDWARE_VERIFIED_LEVEL)
    (opts\<lparr>sl_generated := Some (sl_generated opts \<noteq> Some False)\<rparr>)"

subsection \<open>The rule\<close>

lemma cap_min: "capSupportLevel l mx = min l mx"
  by (auto simp: capSupportLevel_def compareSupportLevels_def min_def less_eq_support_level_def
      intro: supportLevelRank.elims)

lemma apply_never_raises: "applyEvidenceRules l opts \<le> l"
  by (cases l) (auto simp: applyEvidenceRules_def cap_min Let_def less_eq_support_level_def min_def)

lemma apply_without_record:
  "\<not> isDatedHardwareRecord (sl_hardwareRecordDate opts) \<Longrightarrow> applyEvidenceRules l opts = min l COMPILE_TESTED_LEVEL"
  by (cases l) (auto simp: applyEvidenceRules_def cap_min Let_def less_eq_support_level_def min_def)

lemma apply_with_record:
  "isDatedHardwareRecord (sl_hardwareRecordDate opts) \<Longrightarrow> applyEvidenceRules l opts = l"
  by (simp add: applyEvidenceRules_def Let_def)

lemmas map_defs = mapFromManifestStatus_def mapFromSupportStatus_def mapFromCatalogStatus_def
  mapFromConformanceLevel_def mapFromGeneratorLifecycle_def

text \<open>Nothing is claimed to be verified on hardware without a dated record: without one, every one of
  the five vocabularies maps to at most \<open>COMPILE_TESTED\<close>, whatever the options say, and with one, the rules
  change nothing.\<close>

theorem hardware_needs_record:
  "(\<not> isDatedHardwareRecord (sl_hardwareRecordDate opts) \<longrightarrow>
     mapFromManifestStatus a opts \<le> COMPILE_TESTED_LEVEL \<and> mapFromSupportStatus b opts \<le> COMPILE_TESTED_LEVEL \<and>
     mapFromCatalogStatus c opts \<le> COMPILE_TESTED_LEVEL \<and> mapFromConformanceLevel d opts \<le> COMPILE_TESTED_LEVEL \<and>
     mapFromGeneratorLifecycle e opts \<le> COMPILE_TESTED_LEVEL) \<and>
   (isDatedHardwareRecord (sl_hardwareRecordDate opts) \<longrightarrow>
     mapFromConformanceLevel L5 opts = HARDWARE_VERIFIED_LEVEL \<and>
     mapFromGeneratorLifecycle HARDWARE_TESTED opts = HARDWARE_VERIFIED_LEVEL)"
  by (simp add: map_defs apply_without_record apply_with_record)

theorem hardware_needs_record_witness:
  "mapFromCatalogStatus CtHARDWARE_VERIFIED \<lparr>sl_generated = None, sl_hardwareRecordDate = Some ''2026-13-01''\<rparr> \<le> COMPILE_TESTED_LEVEL \<and>
    mapFromConformanceLevel L5 \<lparr>sl_generated = None, sl_hardwareRecordDate = Some '' 2026-07-01T10:00''\<rparr> = HARDWARE_VERIFIED_LEVEL"
proof -
  have "\<not> isDatedHardwareRecord (Some ''2026-13-01'')" "isDatedHardwareRecord (Some '' 2026-07-01T10:00'')"
    by code_simp+
  then show ?thesis
    using hardware_needs_record[of "\<lparr>sl_generated = None, sl_hardwareRecordDate = Some ''2026-13-01''\<rparr>"]
      hardware_needs_record[of "\<lparr>sl_generated = None, sl_hardwareRecordDate = Some '' 2026-07-01T10:00''\<rparr>"]
    by simp
qed

end
