(* ===== verification/Evidence.thy ===== *)
theory Evidence
  imports Prelude
begin

text \<open>
  Physical evidence, \<open>packages/core/src/spec/evidence.ts\<close>: what was commanded, what a device
  acknowledged and what was observed are kept apart, and an observation grows stale. A time stamp text
  is the instant it parses to, in milliseconds, or a text that is not a date.
\<close>

datatype evidence_source = Commanded | Acknowledged | GpioReadback | Sensor | Simulated | NoSource

datatype provenance = ProvSimulated | ProvHardware | ProvUnknown

datatype stamp = Instant int | NotADate string

text \<open>The time argument of the record functions: a text, a number of milliseconds or a \<open>Date\<close>.\<close>

datatype stamp_input = StampText stamp | StampMs int | StampDate int

record 'a evidence_value =
  ev_value :: "'a option"
  ev_at :: "stamp option"
  ev_source :: evidence_source

record 'a evidence_state =
  es_commanded :: "'a evidence_value"
  es_acknowledged :: "'a evidence_value"
  es_observed :: "'a evidence_value"
  es_freshnessMs :: "int option"
  es_stale :: bool
  es_provenance :: provenance

definition formatIsoTimestamp :: "stamp_input option \<Rightarrow> int \<Rightarrow> stamp" where
  "formatIsoTimestamp i wall =
    (case i of
      None \<Rightarrow> Instant wall
    | Some (StampText s) \<Rightarrow> s
    | Some (StampMs n) \<Rightarrow> Instant n
    | Some (StampDate n) \<Rightarrow> Instant n)"

text \<open>\<open>None\<close> is \<open>NaN\<close>.\<close>

definition getTimestampMs :: "stamp_input option \<Rightarrow> int \<Rightarrow> int option" where
  "getTimestampMs i wall =
    (case i of
      None \<Rightarrow> Some wall
    | Some (StampMs n) \<Rightarrow> Some n
    | Some (StampText (Instant n)) \<Rightarrow> Some n
    | Some (StampText (NotADate _)) \<Rightarrow> None
    | Some (StampDate n) \<Rightarrow> Some n)"

definition no_value :: "'a evidence_value" where
  "no_value = \<lparr>ev_value = None, ev_at = None, ev_source = NoSource\<rparr>"

definition unknownEvidence :: "provenance \<Rightarrow> 'a evidence_state" where
  "unknownEvidence p =
    \<lparr>es_commanded = no_value, es_acknowledged = no_value, es_observed = no_value,
     es_freshnessMs = None, es_stale = False, es_provenance = p\<rparr>"

record 'a partial_evidence =
  pe_commanded :: "'a evidence_value option"
  pe_acknowledged :: "'a evidence_value option"
  pe_observed :: "'a evidence_value option"
  pe_freshnessMs :: "int option option"
  pe_stale :: "bool option"
  pe_provenance :: "provenance option"

definition given :: "'a option \<Rightarrow> 'a \<Rightarrow> 'a" where
  "given x d = (case x of Some v \<Rightarrow> v | None \<Rightarrow> d)"

definition createEvidenceState :: "'a partial_evidence option \<Rightarrow> 'a evidence_state" where
  "createEvidenceState initial =
    (let d = unknownEvidence ProvUnknown
     in case initial of
       None \<Rightarrow> d
     | Some i \<Rightarrow>
        \<lparr>es_commanded = given (pe_commanded i) (es_commanded d),
         es_acknowledged = given (pe_acknowledged i) (es_acknowledged d),
         es_observed = given (pe_observed i) (es_observed d),
         es_freshnessMs = given (pe_freshnessMs i) (es_freshnessMs d),
         es_stale = given (pe_stale i) (es_stale d),
         es_provenance = given (pe_provenance i) (es_provenance d)\<rparr>)"

definition recordCommanded ::
  "'a option \<Rightarrow> stamp_input option \<Rightarrow> provenance option \<Rightarrow> int \<Rightarrow> 'a evidence_state \<Rightarrow> 'a evidence_state" where
  "recordCommanded v t p wall s =
    s\<lparr>es_commanded := \<lparr>ev_value = v, ev_at = Some (formatIsoTimestamp t wall), ev_source = Commanded\<rparr>,
      es_provenance := given p (es_provenance s)\<rparr>"

definition recordAcknowledged ::
  "'a option \<Rightarrow> stamp_input option \<Rightarrow> provenance option \<Rightarrow> int \<Rightarrow> 'a evidence_state \<Rightarrow> 'a evidence_state" where
  "recordAcknowledged v t p wall s =
    s\<lparr>es_acknowledged := \<lparr>ev_value = v, ev_at = Some (formatIsoTimestamp t wall), ev_source = Acknowledged\<rparr>,
      es_provenance := given p (es_provenance s)\<rparr>"

text \<open>
  Both readings as \<open>NaN\<close>: a comparison with it is false, \<open>Math.max\<close> hands it on; the freshness
  \<open>NaN\<close> is kept apart from \<open>null\<close> by the flag of the result.
\<close>

datatype 'a fresh = Fresh "'a evidence_state" | FreshNaN "'a evidence_state"

definition computeFreshness ::
  "stamp_input option \<Rightarrow> int option \<Rightarrow> int \<Rightarrow> 'a evidence_state \<Rightarrow> 'a fresh" where
  "computeFreshness now maxAge wall s =
    (case ev_at (es_observed s) of
      None \<Rightarrow> Fresh (s\<lparr>es_freshnessMs := None, es_stale := False\<rparr>)
    | Some (NotADate _) \<Rightarrow> Fresh (s\<lparr>es_freshnessMs := None, es_stale := True\<rparr>)
    | Some (Instant obs) \<Rightarrow>
        (case getTimestampMs now wall of
          None \<Rightarrow> FreshNaN (s\<lparr>es_freshnessMs := None, es_stale := (if maxAge = None then es_stale s else False)\<rparr>)
        | Some n \<Rightarrow>
            (let age = max 0 (n - obs)
             in Fresh (s\<lparr>es_freshnessMs := Some age,
                  es_stale := (case maxAge of Some a \<Rightarrow> age > a | None \<Rightarrow> es_stale s)\<rparr>))))"

definition fresh_state :: "'a fresh \<Rightarrow> 'a evidence_state" where
  "fresh_state r = (case r of Fresh s \<Rightarrow> s | FreshNaN s \<Rightarrow> s)"

definition recordObserved ::
  "'a option \<Rightarrow> evidence_source \<Rightarrow> stamp_input option \<Rightarrow> provenance option \<Rightarrow> int option \<Rightarrow> int \<Rightarrow>
    'a evidence_state \<Rightarrow> 'a evidence_state" where
  "recordObserved v src t p maxAge wall s =
    (let iso = formatIsoTimestamp t wall;
         nxt = s\<lparr>es_observed := \<lparr>ev_value = v, ev_at = Some iso, ev_source = src\<rparr>,
                 es_freshnessMs := Some 0, es_stale := False, es_provenance := given p (es_provenance s)\<rparr>
     in fresh_state (computeFreshness (Some (StampText iso)) maxAge wall nxt))"

definition isStale :: "int \<Rightarrow> stamp_input option \<Rightarrow> int \<Rightarrow> 'a evidence_state \<Rightarrow> bool" where
  "isStale maxAge now wall s =
    (case ev_at (es_observed s) of
      None \<Rightarrow> True
    | Some (NotADate _) \<Rightarrow> True
    | Some (Instant obs) \<Rightarrow>
        (case getTimestampMs now wall of
          None \<Rightarrow> False
        | Some n \<Rightarrow> n - obs > maxAge \<or> n - obs < 0))"

definition hasObservedValue :: "'a evidence_state \<Rightarrow> bool" where
  "hasObservedValue s \<longleftrightarrow>
    ev_value (es_observed s) \<noteq> None \<and> ev_at (es_observed s) \<noteq> None \<and> ev_source (es_observed s) \<noteq> NoSource"

subsection \<open>Histories\<close>

datatype 'a evidence_call =
    ECommand "'a option" "stamp_input option" "provenance option" int
  | EAcknowledge "'a option" "stamp_input option" "provenance option" int
  | EObserve "'a option" evidence_source "stamp_input option" "provenance option" "int option" int
  | EFreshness "stamp_input option" "int option" int

fun evidence_apply :: "'a evidence_state \<Rightarrow> 'a evidence_call \<Rightarrow> 'a evidence_state" where
  "evidence_apply s (ECommand v t p w) = recordCommanded v t p w s"
| "evidence_apply s (EAcknowledge v t p w) = recordAcknowledged v t p w s"
| "evidence_apply s (EObserve v src t p a w) = recordObserved v src t p a w s"
| "evidence_apply s (EFreshness n a w) = fresh_state (computeFreshness n a w s)"

definition evidence_run :: "'a evidence_state \<Rightarrow> 'a evidence_call list \<Rightarrow> 'a evidence_state" where
  "evidence_run s cs = foldl evidence_apply s cs"

fun observations :: "'a evidence_call list \<Rightarrow> 'a evidence_value list" where
  "observations [] = []"
| "observations (EObserve v src t p a w # cs) =
    \<lparr>ev_value = v, ev_at = Some (formatIsoTimestamp t w), ev_source = src\<rparr> # observations cs"
| "observations (_ # cs) = observations cs"

lemma freshness_observed [simp]: "es_observed (fresh_state (computeFreshness n a w s)) = es_observed s"
  by (simp add: computeFreshness_def fresh_state_def Let_def split: option.split stamp.split)

lemma observed_step:
  "es_observed (evidence_apply s c) = (case observations [c] of [] \<Rightarrow> es_observed s | o' # _ \<Rightarrow> o')"
  by (cases c) (simp_all add: recordCommanded_def recordAcknowledged_def recordObserved_def Let_def)

lemma observations_Cons: "observations (c # cs) = observations [c] @ observations cs"
  by (cases c) simp_all

lemma observed_run:
  "es_observed (evidence_run s cs) = (if observations cs = [] then es_observed s else List.last (observations cs))"
proof (induction cs arbitrary: s)
  case Nil
  show ?case by (simp add: evidence_run_def)
next
  case (Cons c cs)
  have "evidence_run s (c # cs) = evidence_run (evidence_apply s c) cs"
    by (simp add: evidence_run_def)
  then show ?case
    using Cons.IH[of "evidence_apply s c"] observed_step[of s c]
    by (cases c) (auto simp: observations_Cons[of c cs])
qed

text \<open>What is reported as observed was observed: after any history of commands, acknowledgements and
  freshness updates the observed value is the one of the last observation, and without an observation
  there is none.\<close>

theorem observed_is_observed:
  "es_observed (evidence_run (unknownEvidence p) cs) =
     (if observations cs = [] then no_value else List.last (observations cs)) \<and>
   (observations cs = [] \<longrightarrow> \<not> hasObservedValue (evidence_run (unknownEvidence p) cs))"
  by (simp add: observed_run unknownEvidence_def hasObservedValue_def no_value_def)

theorem observed_is_observed_witness:
  "\<not> hasObservedValue (evidence_run (unknownEvidence ProvHardware)
    [ECommand (Some True) None None 10, EAcknowledge (Some True) None None 20, EFreshness None (Some 5) 99])"
  using observed_is_observed[of ProvHardware "[ECommand (Some True) None None 10,
    EAcknowledge (Some True) None None 20, EFreshness None (Some 5) 99]"] by simp

text \<open>The two staleness tests agree exactly while the observation is not in the future: an observation
  whose clock runs ahead is fresh for \<open>computeFreshness\<close> and stale for \<open>isStale\<close>.\<close>

theorem staleness_tests_disagree:
  assumes "ev_at (es_observed s) = Some (Instant obs)" "0 \<le> maxAge"
  shows "es_stale (fresh_state (computeFreshness (Some (StampMs now)) (Some maxAge) wall s)) =
      isStale maxAge (Some (StampMs now)) wall s \<longleftrightarrow> obs \<le> now"
  using assms
  by (auto simp: computeFreshness_def fresh_state_def isStale_def getTimestampMs_def Let_def)

definition ahead :: "bool evidence_state" where
  "ahead = recordObserved (Some True) Sensor (Some (StampMs 500)) None None 100 (unknownEvidence ProvHardware)"

theorem staleness_tests_disagree_witness:
  "es_stale (fresh_state (computeFreshness (Some (StampMs 100)) (Some 50) 100 ahead)) \<noteq>
    isStale 50 (Some (StampMs 100)) 100 ahead"
proof -
  have "ev_at (es_observed ahead) = Some (Instant 500)"
    by (simp add: ahead_def recordObserved_def formatIsoTimestamp_def Let_def)
  from staleness_tests_disagree[OF this, of 50 100 100] show ?thesis by simp
qed

end
