(* ===== verification/Device_Graph.thy ===== *)
theory Device_Graph
  imports Errors "HOL-Library.Multiset"
begin

text \<open>
  The graph of composed devices, \<open>packages/core/src/graph/deviceGraph.ts\<close>. The loops that follow
  links between devices need not end: they are partial functions into \<open>option\<close>, where \<open>None\<close>
  is not returning. The lemmas show when they return and what \<open>link\<close> leaves behind.
\<close>

record device_identity =
  di_id :: string
  di_moduleId :: string
  di_deviceClass :: string
  di_vendor :: "string option"
  di_model :: "string option"
  di_label :: "string option"
  di_firmwareVersion :: "string option"

datatype health_status = CONNECTED | DEGRADED | HFAULTED | DISCONNECTED | HUNKNOWN

datatype lifecycle = Connecting | Ready | Busy | LFaulted | Stopped | LDisconnected

record device_health =
  dh_status :: health_status
  dh_lifecycle :: lifecycle
  dh_message :: "string option"
  dh_lastUpdated :: time

record device_transport =
  dt_kind :: string
  dt_endpoint :: "string option"
  dt_options :: "jsrecord option"

record device_descriptor =
  dd_identity :: device_identity
  dd_capabilities :: "string list"
  dd_health :: device_health
  dd_simulated :: bool
  dd_children :: "string list"
  dd_parent :: "string option"
  dd_tags :: "string list"
  dd_transport :: device_transport
  dd_support :: string

record node_input =
  ni_id :: string
  ni_deviceClass :: string
  ni_moduleId :: string
  ni_capabilities :: "string list"
  ni_simulated :: "bool option"
  ni_label :: "string option"
  ni_vendor :: "string option"
  ni_model :: "string option"
  ni_tags :: "string list option"
  ni_support :: "string option"
  ni_transport :: "device_transport option"

type_synonym device_graph = "(string, device_descriptor) jmap"

definition default_to :: "'a \<Rightarrow> 'a option \<Rightarrow> 'a" where
  "default_to d x = (case x of Some v \<Rightarrow> v | None \<Rightarrow> d)"

definition register_node :: "node_input \<Rightarrow> device_graph \<Rightarrow> perr + (device_descriptor \<times> device_graph)" where
  "register_node i g =
    (if jhas g (ni_id i) then Inl (PErr ''DEVICE_ALREADY_REGISTERED'' DEVICE)
     else
       (let d = \<lparr>dd_identity = \<lparr>di_id = ni_id i, di_moduleId = ni_moduleId i, di_deviceClass = ni_deviceClass i,
                    di_vendor = ni_vendor i, di_model = ni_model i, di_label = ni_label i,
                    di_firmwareVersion = None\<rparr>,
                 dd_capabilities = ni_capabilities i,
                 dd_health = \<lparr>dh_status = HUNKNOWN, dh_lifecycle = Connecting, dh_message = None, dh_lastUpdated = 0\<rparr>,
                 dd_simulated = default_to True (ni_simulated i),
                 dd_children = [], dd_parent = None,
                 dd_tags = default_to [] (ni_tags i),
                 dd_transport = default_to \<lparr>dt_kind = ''simulated'', dt_endpoint = None, dt_options = None\<rparr> (ni_transport i),
                 dd_support = default_to ''IMPLEMENTED'' (ni_support i)\<rparr>
        in Inr (d, jset (ni_id i) d g)))"

text \<open>The walk up the parents, starting at \<open>current\<close>.\<close>

definition parent_of :: "device_graph \<Rightarrow> string \<Rightarrow> string option" where
  "parent_of g i = (case jget g i of None \<Rightarrow> None | Some n \<Rightarrow> dd_parent n)"

partial_function (option) walk_up :: "device_graph \<Rightarrow> string option \<Rightarrow> string \<Rightarrow> bool option" where
  "walk_up g current cand =
    (case current of
      None \<Rightarrow> Some False
    | Some c \<Rightarrow> if c = cand then Some True else walk_up g (parent_of g c) cand)"

definition descendsFrom :: "device_graph \<Rightarrow> string \<Rightarrow> string \<Rightarrow> bool option" where
  "descendsFrom g anc cand = walk_up g (parent_of g anc) cand"

definition add_child :: "string \<Rightarrow> string \<Rightarrow> device_graph \<Rightarrow> device_graph" where
  "add_child p c g =
    (case jget g p of
      None \<Rightarrow> g
    | Some n \<Rightarrow> if c \<in> set (dd_children n) then g else jset p (n\<lparr>dd_children := dd_children n @ [c]\<rparr>) g)"

definition set_parent :: "string \<Rightarrow> string \<Rightarrow> device_graph \<Rightarrow> device_graph" where
  "set_parent p c g = (case jget g c of None \<Rightarrow> g | Some n \<Rightarrow> jset c (n\<lparr>dd_parent := Some p\<rparr>) g)"

definition link_devices :: "string \<Rightarrow> string \<Rightarrow> device_graph \<Rightarrow> (perr + device_graph) option" where
  "link_devices p c g =
    (if \<not> jhas g p \<or> \<not> jhas g c then Some (Inl (PErr ''DEVICE_NOT_FOUND'' DEVICE))
     else if c = p then Some (Inl (PErr ''GRAPH_CYCLE'' CONFIG))
     else (case descendsFrom g p c of
       None \<Rightarrow> None
     | Some b \<Rightarrow>
         if b then Some (Inl (PErr ''GRAPH_CYCLE'' CONFIG))
         else Some (Inr (set_parent p c (add_child p c g)))))"

definition get_device :: "string \<Rightarrow> device_graph \<Rightarrow> device_descriptor option" where
  "get_device i g = jget g i"

definition require_device :: "string \<Rightarrow> device_graph \<Rightarrow> perr + device_descriptor" where
  "require_device i g = (case get_device i g of None \<Rightarrow> Inl (PErr ''DEVICE_NOT_FOUND'' DEVICE) | Some n \<Rightarrow> Inr n)"

definition device_ids :: "device_graph \<Rightarrow> string list" where
  "device_ids g = jkeys g"

fun require_all :: "device_graph \<Rightarrow> string list \<Rightarrow> perr + device_descriptor list" where
  "require_all g [] = Inr []"
| "require_all g (i # is) =
    (case require_device i g of
      Inl e \<Rightarrow> Inl e
    | Inr n \<Rightarrow> (case require_all g is of Inl e \<Rightarrow> Inl e | Inr ns \<Rightarrow> Inr (n # ns)))"

definition children_of :: "string \<Rightarrow> device_graph \<Rightarrow> perr + device_descriptor list" where
  "children_of i g = (case require_device i g of Inl e \<Rightarrow> Inl e | Inr n \<Rightarrow> require_all g (dd_children n))"

partial_function (option) subtree_loop ::
  "device_graph \<Rightarrow> string list \<Rightarrow> string list \<Rightarrow> (perr + string list) option" where
  "subtree_loop g queue out =
    (case queue of
      [] \<Rightarrow> Some (Inr out)
    | x # q \<Rightarrow>
        (case require_device x g of
          Inl e \<Rightarrow> Some (Inl e)
        | Inr n \<Rightarrow> subtree_loop g (q @ dd_children n) (out @ [x])))"

definition subtree :: "string \<Rightarrow> device_graph \<Rightarrow> (perr + string list) option" where
  "subtree i g = (case require_device i g of Inl e \<Rightarrow> Some (Inl e) | Inr n \<Rightarrow> subtree_loop g (dd_children n) [])"

subsection \<open>Addresses\<close>

record resolved_address =
  ra_deviceId :: string
  ra_capability :: string
  ra_path :: "string list"

fun split_dots :: "string \<Rightarrow> string list" where
  "split_dots [] = [[]]"
| "split_dots (c # s) =
    (if c = CHR ''.'' then [] # split_dots s
     else (case split_dots s of [] \<Rightarrow> [[c]] | w # ws \<Rightarrow> (c # w) # ws))"

definition segments_of :: "string \<Rightarrow> string list" where
  "segments_of address = filter (\<lambda>s. s \<noteq> []) (split_dots address)"

text \<open>The loop over the segments after the root; the result is the device, its path and the rest.\<close>

fun walk_down :: "device_graph \<Rightarrow> string \<Rightarrow> string list \<Rightarrow> string list \<Rightarrow> perr + (string \<times> string list \<times> string list)" where
  "walk_down g cur path [] = Inr (cur, path, [])"
| "walk_down g cur path (s # ss) =
    (case require_device cur g of
      Inl e \<Rightarrow> Inl e
    | Inr n \<Rightarrow> if s \<in> set (dd_children n) then walk_down g s (path @ [s]) ss else Inr (cur, path, s # ss))"

definition resolve :: "string \<Rightarrow> device_graph \<Rightarrow> perr + resolved_address" where
  "resolve address g =
    (let segments = segments_of address
     in if length segments < 2 then Inl (PErr ''VALIDATION_ERROR'' VALIDATION)
        else if \<not> jhas g (segments ! 0) then Inl (PErr ''DEVICE_NOT_FOUND'' DEVICE)
        else (case walk_down g (segments ! 0) [segments ! 0] (drop 1 segments) of
          Inl e \<Rightarrow> Inl e
        | Inr (dev, path, rest) \<Rightarrow>
            if join ''.'' rest = [] then Inl (PErr ''VALIDATION_ERROR'' VALIDATION)
            else Inr \<lparr>ra_deviceId = dev, ra_capability = join ''.'' rest, ra_path = path\<rparr>))"

subsection \<open>Queries and updates\<close>

record graph_query =
  gq_deviceClass :: "string option"
  gq_capability :: "string option"
  gq_moduleId :: "string option"
  gq_tag :: "string option"
  gq_parent :: "string option"
  gq_simulated :: "bool option"

definition query_node :: "graph_query \<Rightarrow> device_descriptor \<Rightarrow> bool" where
  "query_node q n =
    (\<not> (truthy (gq_deviceClass q) \<and> Some (di_deviceClass (dd_identity n)) \<noteq> gq_deviceClass q) \<and>
     \<not> (truthy (gq_moduleId q) \<and> Some (di_moduleId (dd_identity n)) \<noteq> gq_moduleId q) \<and>
     \<not> (truthy (gq_capability q) \<and> the (gq_capability q) \<notin> set (dd_capabilities n)) \<and>
     \<not> (truthy (gq_tag q) \<and> the (gq_tag q) \<notin> set (dd_tags n)) \<and>
     (case gq_parent q of None \<Rightarrow> True | Some p \<Rightarrow> dd_parent n = Some p) \<and>
     (case gq_simulated q of None \<Rightarrow> True | Some b \<Rightarrow> dd_simulated n = b))"

definition query_graph :: "graph_query \<Rightarrow> device_graph \<Rightarrow> device_descriptor list" where
  "query_graph q g = filter (query_node q) (jvalues g)"

definition refresh_node :: "node_input \<Rightarrow> device_descriptor \<Rightarrow> device_descriptor" where
  "refresh_node i n =
    n\<lparr>dd_identity := (dd_identity n)
        \<lparr>di_moduleId := ni_moduleId i, di_deviceClass := ni_deviceClass i,
         di_vendor := (case ni_vendor i of None \<Rightarrow> di_vendor (dd_identity n) | Some v \<Rightarrow> Some v),
         di_model := (case ni_model i of None \<Rightarrow> di_model (dd_identity n) | Some v \<Rightarrow> Some v),
         di_label := (case ni_label i of None \<Rightarrow> di_label (dd_identity n) | Some v \<Rightarrow> Some v)\<rparr>,
      dd_capabilities := ni_capabilities i,
      dd_simulated := default_to (dd_simulated n) (ni_simulated i),
      dd_tags := default_to (dd_tags n) (ni_tags i),
      dd_support := (case ni_support i of None \<Rightarrow> dd_support n | Some v \<Rightarrow> if v = [] then dd_support n else v),
      dd_transport := default_to (dd_transport n) (ni_transport i)\<rparr>"

definition upsert_node :: "node_input \<Rightarrow> device_graph \<Rightarrow> perr + (device_descriptor \<times> device_graph)" where
  "upsert_node i g =
    (case jget g (ni_id i) of
      None \<Rightarrow> register_node i g
    | Some n \<Rightarrow> Inr (refresh_node i n, jset (ni_id i) (refresh_node i n) g))"

record health_patch =
  hp_status :: "health_status option"
  hp_lifecycle :: "lifecycle option"
  hp_message :: "string option"
  hp_lastUpdated :: "time option"

definition update_node :: "(device_descriptor \<Rightarrow> device_descriptor) \<Rightarrow> string \<Rightarrow> device_graph \<Rightarrow>
    perr + (device_descriptor \<times> device_graph)" where
  "update_node f i g =
    (case jget g i of
      None \<Rightarrow> Inl (PErr ''DEVICE_NOT_FOUND'' DEVICE)
    | Some n \<Rightarrow> Inr (f n, jset i (f n) g))"

definition updateHealth :: "string \<Rightarrow> health_patch \<Rightarrow> time \<Rightarrow> device_graph \<Rightarrow> perr + (device_descriptor \<times> device_graph)" where
  "updateHealth i h now g = update_node
    (\<lambda>n. n\<lparr>dd_health :=
      \<lparr>dh_status = default_to (dh_status (dd_health n)) (hp_status h),
       dh_lifecycle = default_to (dh_lifecycle (dd_health n)) (hp_lifecycle h),
       dh_message = (case hp_message h of None \<Rightarrow> dh_message (dd_health n) | Some v \<Rightarrow> Some v),
       dh_lastUpdated = default_to now (hp_lastUpdated h)\<rparr>\<rparr>) i g"

definition updateSupport :: "string \<Rightarrow> string \<Rightarrow> device_graph \<Rightarrow> perr + (device_descriptor \<times> device_graph)" where
  "updateSupport i v g = update_node (\<lambda>n. n\<lparr>dd_support := v\<rparr>) i g"

definition updateTransport :: "string \<Rightarrow> device_transport \<Rightarrow> device_graph \<Rightarrow> perr + (device_descriptor \<times> device_graph)" where
  "updateTransport i v g = update_node (\<lambda>n. n\<lparr>dd_transport := v\<rparr>) i g"

subsection \<open>Calls\<close>

datatype graph_call =
    GRegister node_input
  | GLink string string
  | GUpsert node_input
  | GHealth string health_patch time
  | GSupport string string
  | GTransport string device_transport

definition stored :: "device_graph \<Rightarrow> perr + (device_descriptor \<times> device_graph) \<Rightarrow> device_graph" where
  "stored g r = (case r of Inl _ \<Rightarrow> g | Inr (_, g') \<Rightarrow> g')"

text \<open>A call that throws leaves the graph as it is; one that does not return is \<open>None\<close>.\<close>

fun graph_apply :: "device_graph \<Rightarrow> graph_call \<Rightarrow> device_graph option" where
  "graph_apply g (GRegister i) = Some (stored g (register_node i g))"
| "graph_apply g (GLink p c) = map_option (case_sum (\<lambda>_. g) id) (link_devices p c g)"
| "graph_apply g (GUpsert i) = Some (stored g (upsert_node i g))"
| "graph_apply g (GHealth i h t) = Some (stored g (updateHealth i h t g))"
| "graph_apply g (GSupport i v) = Some (stored g (updateSupport i v g))"
| "graph_apply g (GTransport i v) = Some (stored g (updateTransport i v g))"

inductive graph_reachable :: "device_graph \<Rightarrow> bool" where
  empty: "graph_reachable []"
| call: "graph_reachable g \<Longrightarrow> graph_apply g c = Some g' \<Longrightarrow> graph_reachable g'"

subsection \<open>Links as relations\<close>

definition parent_rel :: "device_graph \<Rightarrow> (string \<times> string) set" where
  "parent_rel g = {(c, p). parent_of g c = Some p}"

definition children_at :: "device_graph \<Rightarrow> string \<Rightarrow> string list" where
  "children_at g p = (case jget g p of None \<Rightarrow> [] | Some n \<Rightarrow> dd_children n)"

definition child_rel :: "device_graph \<Rightarrow> (string \<times> string) set" where
  "child_rel g = {(p, c). c \<in> set (children_at g p)}"

text \<open>Parents are acyclic, every device is among its parent's children, and every child exists.\<close>

definition graph_ok :: "device_graph \<Rightarrow> bool" where
  "graph_ok g \<longleftrightarrow> acyclic (parent_rel g) \<and> (parent_rel g)\<inverse> \<subseteq> child_rel g \<and> (\<forall>(p, c)\<in>child_rel g. jhas g c)"

lemma parent_rel_iff [simp]: "(c, p) \<in> parent_rel g \<longleftrightarrow> parent_of g c = Some p"
  by (simp add: parent_rel_def)

lemma child_rel_iff [simp]: "(p, c) \<in> child_rel g \<longleftrightarrow> c \<in> set (children_at g p)"
  by (simp add: child_rel_def)

lemma parent_child: "graph_ok g \<Longrightarrow> parent_of g c = Some p \<Longrightarrow> c \<in> set (children_at g p)"
  unfolding graph_ok_def by (meson converseI child_rel_iff parent_rel_iff subsetD)

lemma child_exists: "graph_ok g \<Longrightarrow> c \<in> set (children_at g p) \<Longrightarrow> jhas g c"
  by (auto simp: graph_ok_def dest!: bspec[of _ _ "(p, c)"])

lemma child_parent_exists: "c \<in> set (children_at g p) \<Longrightarrow> jhas g p"
  by (cases "jget g p") (auto simp: children_at_def)

lemma finite_parent_rel: "finite (parent_rel g)"
proof (rule finite_subset)
  show "parent_rel g \<subseteq> (\<lambda>c. (c, the (parent_of g c))) ` dom (map_of g)"
    by (auto simp: parent_of_def image_iff split: option.splits)
qed (simp add: finite_dom_map_of)

lemma finite_child_rel: "finite (child_rel g)"
proof (rule finite_subset)
  show "child_rel g \<subseteq> (\<Union>p\<in>dom (map_of g). {p} \<times> set (children_at g p))"
    using child_parent_exists by fastforce
qed (simp add: finite_dom_map_of)

subsection \<open>Walking up\<close>

lemma walk_up_None [simp]: "walk_up g None cand = Some False"
  by (simp add: walk_up.simps)

lemma walk_up_Some: "walk_up g (Some c) cand = (if c = cand then Some True else walk_up g (parent_of g c) cand)"
  by (subst walk_up.simps) simp

lemma descends_returns:
  assumes "acyclic (parent_rel g)"
  shows "descendsFrom g c cand = Some ((c, cand) \<in> (parent_rel g)\<^sup>+)"
proof -
  have "wf ((parent_rel g)\<inverse>)"
    by (rule finite_acyclic_wf_converse[OF finite_parent_rel assms])
  then show ?thesis
  proof (induction c rule: wf_induct_rule)
    case (less c)
    show ?case
    proof (cases "parent_of g c")
      case None
      then have "(c, x) \<notin> (parent_rel g)\<^sup>+" for x
        by (auto dest: tranclD)
      with None show ?thesis
        by (simp add: descendsFrom_def)
    next
      case (Some p)
      then have "walk_up g (parent_of g p) cand = Some ((p, cand) \<in> (parent_rel g)\<^sup>+)"
        using less[of p] by (simp add: descendsFrom_def)
      moreover have "(c, cand) \<in> (parent_rel g)\<^sup>+ \<longleftrightarrow> p = cand \<or> (p, cand) \<in> (parent_rel g)\<^sup>+"
        using Some by (subst trancl_unfold_left) (auto simp: relcomp_unfold rtrancl_eq_or_trancl)
      ultimately show ?thesis
        using Some by (simp add: descendsFrom_def walk_up_Some)
    qed
  qed
qed

subsection \<open>The invariant\<close>

definition same_links :: "device_graph \<Rightarrow> device_graph \<Rightarrow> bool" where
  "same_links g g' \<longleftrightarrow> parent_of g' = parent_of g \<and> children_at g' = children_at g \<and> (\<forall>i. jhas g i \<longrightarrow> jhas g' i)"

lemma same_links_refl [simp]: "same_links g g"
  by (simp add: same_links_def)

lemma same_links_ok: "same_links g g' \<Longrightarrow> graph_ok g \<Longrightarrow> graph_ok g'"
  by (auto simp: same_links_def graph_ok_def parent_rel_def child_rel_def)

lemma update_same_links:
  assumes "jget g i = Some n" "dd_parent n' = dd_parent n" "dd_children n' = dd_children n"
  shows "same_links g (jset i n' g)"
  using assms by (auto simp: same_links_def parent_of_def children_at_def jget_set fun_eq_iff)

lemma register_same_links: "same_links g (stored g (register_node i g))"
  by (auto simp: register_node_def stored_def Let_def same_links_def parent_of_def children_at_def jget_set fun_eq_iff)

lemma updated_same_links:
  "(\<And>n. dd_parent (f n) = dd_parent n) \<Longrightarrow> (\<And>n. dd_children (f n) = dd_children n) \<Longrightarrow>
    same_links g (stored g (update_node f i g))"
  by (auto simp: update_node_def stored_def intro: update_same_links split: option.split)

lemma upsert_same_links: "same_links g (stored g (upsert_node i g))"
  using register_same_links[of g i]
  by (auto simp: upsert_node_def stored_def refresh_node_def intro!: update_same_links split: option.split)

lemma unlinked_call:
  "graph_apply g c = Some g' \<Longrightarrow> (\<forall>p ch. c \<noteq> GLink p ch) \<Longrightarrow> same_links g g'"
  using register_same_links[of g] upsert_same_links[of g]
  by (cases c) (auto simp: updateHealth_def updateSupport_def updateTransport_def intro!: updated_same_links)

definition linked :: "string \<Rightarrow> string \<Rightarrow> device_graph \<Rightarrow> device_graph" where
  "linked p c g = set_parent p c (add_child p c g)"

lemma jget_linked:
  assumes "c \<noteq> p" "jhas g p" "jhas g c"
  shows "jget (linked p c g) i =
    (if i = c then map_option (\<lambda>n. n\<lparr>dd_parent := Some p\<rparr>) (jget g i)
     else if i = p then map_option (\<lambda>n. n\<lparr>dd_children := (if c \<in> set (dd_children n) then dd_children n else dd_children n @ [c])\<rparr>) (jget g i)
     else jget g i)"
  using assms by (auto simp: linked_def set_parent_def add_child_def jget_set split: option.splits)

lemma linked_parent:
  "c \<noteq> p \<Longrightarrow> jhas g p \<Longrightarrow> jhas g c \<Longrightarrow> parent_of (linked p c g) = (parent_of g)(c := Some p)"
  by (auto simp: parent_of_def jget_linked fun_eq_iff split: option.splits)

lemma linked_children:
  "c \<noteq> p \<Longrightarrow> jhas g p \<Longrightarrow> jhas g c \<Longrightarrow>
    children_at (linked p c g) = (children_at g)
      (p := (if c \<in> set (children_at g p) then children_at g p else children_at g p @ [c]))"
  by (auto simp: children_at_def jget_linked fun_eq_iff split: option.splits)

lemma linked_has: "c \<noteq> p \<Longrightarrow> jhas g p \<Longrightarrow> jhas g c \<Longrightarrow> jhas (linked p c g) i \<longleftrightarrow> jhas g i"
  by (simp add: jget_linked)

lemma link_outcome:
  assumes "graph_ok g" "link_devices p c g = Some (Inr g')"
  shows "c \<noteq> p" "jhas g p" "jhas g c" "(p, c) \<notin> (parent_rel g)\<^sup>*" "g' = linked p c g"
proof -
  have "acyclic (parent_rel g)"
    using assms(1) by (simp add: graph_ok_def)
  note d = descends_returns[OF this, of p c]
  show "c \<noteq> p" "jhas g p" "jhas g c" "g' = linked p c g"
    using assms(2) by (auto simp: link_devices_def d linked_def split: if_splits)
  then show "(p, c) \<notin> (parent_rel g)\<^sup>*"
    using assms(2) by (auto simp: link_devices_def d rtrancl_eq_or_trancl split: if_splits)
qed

lemma link_ok:
  assumes "graph_ok g" "link_devices p c g = Some (Inr g')"
  shows "graph_ok g'"
proof -
  note o' = link_outcome[OF assms]
  have "acyclic (insert (c, p) (parent_rel g))"
    using assms(1) o'(4) by (simp add: graph_ok_def acyclic_insert)
  moreover have "parent_rel g' \<subseteq> insert (c, p) (parent_rel g)"
    unfolding o'(5) by (auto simp: parent_rel_def linked_parent[OF o'(1-3)] split: if_splits)
  ultimately have "acyclic (parent_rel g')"
    by (rule acyclic_subset)
  moreover have "(parent_rel g')\<inverse> \<subseteq> child_rel g'"
    using parent_child[OF assms(1)] unfolding o'(5)
    by (auto simp: parent_rel_def linked_parent[OF o'(1-3)] linked_children[OF o'(1-3)] split: if_splits)
  moreover have "\<forall>(a, b)\<in>child_rel g'. jhas g' b"
    using child_exists[OF assms(1)] o'(2,3) unfolding o'(5)
    by (auto simp: linked_children[OF o'(1-3)] jget_linked[OF o'(1-3)] split: if_splits)
  ultimately show ?thesis
    by (simp add: graph_ok_def)
qed

lemma graph_apply_ok: "graph_ok g \<Longrightarrow> graph_apply g c = Some g' \<Longrightarrow> graph_ok g'"
proof (cases "\<exists>p ch. c = GLink p ch")
  case True
  assume ok: "graph_ok g" and c: "graph_apply g c = Some g'"
  from True c obtain p ch z where z: "link_devices p ch g = Some z" "g' = case_sum (\<lambda>_. g) id z"
    by auto
  with ok show ?thesis
    by (cases z) (auto dest: link_ok)
next
  case False
  assume "graph_ok g" "graph_apply g c = Some g'"
  with False show ?thesis
    using unlinked_call[of g c g'] same_links_ok[of g g'] by blast
qed

lemma graph_reachable_ok: "graph_reachable g \<Longrightarrow> graph_ok g"
proof (induction rule: graph_reachable.induct)
  case empty
  show ?case
    by (auto simp: graph_ok_def parent_rel_def child_rel_def parent_of_def children_at_def acyclic_def)
qed (rule graph_apply_ok)

subsection \<open>Subtrees\<close>

lemma subtree_loop_Nil [simp]: "subtree_loop g [] out = Some (Inr out)"
  by (simp add: subtree_loop.simps)

lemma subtree_loop_Cons:
  "jhas g x \<Longrightarrow> subtree_loop g (x # q) out = subtree_loop g (q @ children_at g x) (out @ [x])"
  by (subst subtree_loop.simps) (auto simp: require_device_def get_device_def children_at_def)

lemma subtree_children: "jhas g i \<Longrightarrow> subtree i g = subtree_loop g (children_at g i) []"
  by (auto simp: subtree_def require_device_def get_device_def children_at_def)

lemma rtrancl_first_step: "(x, y) \<in> r\<^sup>* \<longleftrightarrow> y = x \<or> (\<exists>c. (x, c) \<in> r \<and> (c, y) \<in> r\<^sup>*)"
  by (auto elim: converse_rtranclE intro: converse_rtrancl_into_rtrancl)

lemma subtree_loop_returns:
  assumes "wf ((child_rel g)\<inverse>)" and has: "\<And>p c. c \<in> set (children_at g p) \<Longrightarrow> jhas g c"
    and "\<forall>x\<in>set q. jhas g x"
  shows "\<exists>r. subtree_loop g q out = Some (Inr r) \<and> set r = set out \<union> (child_rel g)\<^sup>* `` set q"
  using wf_mult1[OF assms(1)] assms(3)
proof (induction "mset q" arbitrary: q out rule: wf_induct_rule)
  case less
  show ?case
  proof (cases q)
    case (Cons x q')
    have "(mset (q' @ children_at g x), mset q) \<in> mult1 ((child_rel g)\<inverse>)"
      unfolding Cons by (intro mult1I[where a = x and ?M0.0 = "mset q'" and K = "mset (children_at g x)"]) auto
    moreover have "\<forall>y\<in>set (q' @ children_at g x). jhas g y"
      using less(2) has[of _ x] Cons by auto
    ultimately obtain r where r: "subtree_loop g (q' @ children_at g x) (out @ [x]) = Some (Inr r)"
        "set r = set (out @ [x]) \<union> (child_rel g)\<^sup>* `` set (q' @ children_at g x)"
      using less(1) by blast
    have "(child_rel g)\<^sup>* `` {x} = insert x ((child_rel g)\<^sup>* `` set (children_at g x))"
      by (auto simp: rtrancl_first_step[of x])
    then have "(child_rel g)\<^sup>* `` set q = insert x ((child_rel g)\<^sup>* `` set (q' @ children_at g x))"
      unfolding Cons by auto
    then show ?thesis
      using r less(2) Cons by (auto simp: subtree_loop_Cons)
  qed simp
qed

lemma parents_acyclic_children:
  assumes "graph_ok g" "\<forall>p. \<forall>c\<in>set (children_at g p). parent_of g c = Some p"
  shows "wf ((child_rel g)\<inverse>)"
proof -
  have "child_rel g \<subseteq> (parent_rel g)\<inverse>"
    using assms(2) by auto
  moreover have "acyclic ((parent_rel g)\<inverse>)"
    using assms(1) by (simp add: graph_ok_def)
  ultimately have "acyclic (child_rel g)"
    by (meson acyclic_subset)
  then show ?thesis
    by (rule finite_acyclic_wf_converse[OF finite_child_rel])
qed

lemma subtree_reaches:
  assumes "graph_ok g" "\<forall>p. \<forall>c\<in>set (children_at g p). parent_of g c = Some p" "jhas g i"
  shows "\<exists>out. subtree i g = Some (Inr out) \<and> set out = {d. (i, d) \<in> (child_rel g)\<^sup>+}"
proof -
  have "\<forall>x\<in>set (children_at g i). jhas g x"
    using child_exists[OF assms(1)] by blast
  then have "\<exists>r. subtree_loop g (children_at g i) [] = Some (Inr r) \<and>
      set r = set [] \<union> (child_rel g)\<^sup>* `` set (children_at g i)"
    by (intro subtree_loop_returns parents_acyclic_children[OF assms(1,2)]) (use child_exists[OF assms(1)] in auto)
  then obtain r where r: "subtree_loop g (children_at g i) [] = Some (Inr r)"
      "set r = (child_rel g)\<^sup>* `` set (children_at g i)"
    by auto
  have "(child_rel g)\<^sup>* `` set (children_at g i) = {d. (i, d) \<in> (child_rel g)\<^sup>+}"
    by (auto simp: trancl_unfold_left)
  then show ?thesis
    using r by (simp add: subtree_children[OF assms(3)])
qed

lemma subtree_loop_lasso:
  assumes has: "\<And>p c. c \<in> set (children_at g p) \<Longrightarrow> jhas g c"
    and S: "\<And>x. x \<in> S \<Longrightarrow> \<exists>c\<in>set (children_at g x). c \<in> S"
    and q: "\<forall>x\<in>set q. jhas g x" "set q \<inter> S \<noteq> {}"
  shows "subtree_loop g q out = None"
proof (rule ccontr)
  assume "subtree_loop g q out \<noteq> None"
  then obtain r where "subtree_loop g q out = Some r"
    by auto
  then have "(\<forall>p c. c \<in> set (children_at g p) \<longrightarrow> jhas g c) \<longrightarrow> (\<forall>x\<in>S. \<exists>c\<in>set (children_at g x). c \<in> S) \<longrightarrow>
      (\<forall>x\<in>set q. jhas g x) \<longrightarrow> set q \<inter> S = {}"
  proof (rule subtree_loop.raw_induct[rotated])
    fix f :: "device_graph \<Rightarrow> string list \<Rightarrow> string list \<Rightarrow> (perr + string list) option"
    fix g q out r
    assume ih: "\<And>g q out r. f g q out = Some r \<Longrightarrow>
        (\<forall>p c. c \<in> set (children_at g p) \<longrightarrow> jhas g c) \<longrightarrow> (\<forall>x\<in>S. \<exists>c\<in>set (children_at g x). c \<in> S) \<longrightarrow>
        (\<forall>x\<in>set q. jhas g x) \<longrightarrow> set q \<inter> S = {}"
      and step: "(case q of [] \<Rightarrow> Some (Inr out) | x # q \<Rightarrow>
        (case require_device x g of Inl e \<Rightarrow> Some (Inl e)
         | Inr n \<Rightarrow> f g (q @ dd_children n) (out @ [x]))) = Some r"
    show "(\<forall>p c. c \<in> set (children_at g p) \<longrightarrow> jhas g c) \<longrightarrow> (\<forall>x\<in>S. \<exists>c\<in>set (children_at g x). c \<in> S) \<longrightarrow>
        (\<forall>x\<in>set q. jhas g x) \<longrightarrow> set q \<inter> S = {}"
    proof (intro impI)
      assume has: "\<forall>p c. c \<in> set (children_at g p) \<longrightarrow> jhas g c"
        and S: "\<forall>x\<in>S. \<exists>c\<in>set (children_at g x). c \<in> S" and q: "\<forall>x\<in>set q. jhas g x"
      show "set q \<inter> S = {}"
      proof (cases q)
        case (Cons x q')
        with q step have "f g (q' @ children_at g x) (out @ [x]) = Some r"
          by (auto simp: require_device_def get_device_def children_at_def)
        moreover have "\<forall>y\<in>set (q' @ children_at g x). jhas g y"
          using has q Cons by auto
        ultimately have "set (q' @ children_at g x) \<inter> S = {}"
          using ih has S by blast
        with S Cons show ?thesis
          by fastforce
      qed simp
    qed
  qed
  with has S q show False
    by blast
qed

subsection \<open>Paths and addresses\<close>

fun child_path :: "device_graph \<Rightarrow> string \<Rightarrow> string list \<Rightarrow> bool" where
  "child_path g cur [] = True"
| "child_path g cur (d # ds) = (d \<in> set (children_at g cur) \<and> child_path g d ds)"

definition plain_segment :: "string \<Rightarrow> bool" where
  "plain_segment s \<longleftrightarrow> s \<noteq> [] \<and> CHR ''.'' \<notin> set s"

lemma split_dots_plain: "CHR ''.'' \<notin> set s \<Longrightarrow> split_dots s = [s]"
  by (induction s) auto

lemma split_dots_dot: "CHR ''.'' \<notin> set s \<Longrightarrow> split_dots (s @ CHR ''.'' # t) = s # split_dots t"
  by (induction s) auto

lemma split_dots_join:
  "ws \<noteq> [] \<Longrightarrow> \<forall>w\<in>set ws. plain_segment w \<Longrightarrow> split_dots (join ''.'' ws) = ws"
  by (induction "''.''" ws rule: join.induct) (auto simp: plain_segment_def split_dots_plain split_dots_dot)

lemma segments_join:
  "ws \<noteq> [] \<Longrightarrow> \<forall>w\<in>set ws. plain_segment w \<Longrightarrow> segments_of (join ''.'' ws) = ws"
  by (simp add: segments_of_def split_dots_join) (simp add: plain_segment_def filter_id_conv)

lemma walk_down_path:
  assumes "\<And>p c. c \<in> set (children_at g p) \<Longrightarrow> jhas g c"
  shows "jhas g cur \<Longrightarrow> child_path g cur ds \<Longrightarrow> caps \<noteq> [] \<Longrightarrow>
    hd caps \<notin> set (children_at g (List.last (cur # ds))) \<Longrightarrow>
    walk_down g cur path (ds @ caps) = Inr (List.last (cur # ds), path @ ds, caps)"
proof (induction ds arbitrary: cur path)
  case Nil
  then show ?case
    by (cases caps) (auto simp: require_device_def get_device_def children_at_def)
next
  case (Cons d ds)
  from Cons.prems(1,2) have "jhas g d"
    using assms by auto
  then have "walk_down g d (path @ [d]) (ds @ caps) = Inr (List.last (d # ds), (path @ [d]) @ ds, caps)"
    using Cons.prems by (intro Cons.IH) auto
  with Cons.prems(1,2) show ?case
    by (auto simp: require_device_def get_device_def children_at_def)
qed

lemma join_nonempty: "ws \<noteq> [] \<Longrightarrow> \<forall>w\<in>set ws. plain_segment w \<Longrightarrow> join ''.'' ws \<noteq> []"
  by (cases ws rule: remdups_adj.cases) (auto simp: plain_segment_def)

subsection \<open>Properties\<close>

definition node_in :: "string \<Rightarrow> node_input" where
  "node_in i = \<lparr>ni_id = i, ni_deviceClass = ''robot'', ni_moduleId = ''m'', ni_capabilities = [], ni_simulated = None,
    ni_label = None, ni_vendor = None, ni_model = None, ni_tags = None, ni_support = None, ni_transport = None\<rparr>"

fun graph_run :: "device_graph \<Rightarrow> graph_call list \<Rightarrow> device_graph option" where
  "graph_run g [] = Some g"
| "graph_run g (c # cs) = (case graph_apply g c of None \<Rightarrow> None | Some g' \<Rightarrow> graph_run g' cs)"

lemma graph_run_reachable: "graph_run g cs = Some g' \<Longrightarrow> graph_reachable g \<Longrightarrow> graph_reachable g'"
  by (induction cs arbitrary: g) (auto split: option.splits intro: graph_reachable.call)

definition cell :: device_graph where
  "cell = stored [] (register_node (node_in ''cell'') [])"

definition cell_arm :: device_graph where
  "cell_arm = linked ''cell'' ''arm'' (stored cell (register_node (node_in ''arm'') cell))"

lemma cell_arm_run: "graph_run [] [GRegister (node_in ''cell''), GRegister (node_in ''arm''), GLink ''cell'' ''arm''] = Some cell_arm"
  by (simp add: cell_arm_def cell_def register_node_def stored_def node_in_def Let_def link_devices_def
      descendsFrom_def parent_of_def linked_def)

lemma cell_arm_reachable: "graph_reachable cell_arm"
  using graph_run_reachable[OF cell_arm_run graph_reachable.empty] .

lemma cell_arm_links:
  "children_at cell_arm = (\<lambda>p. if p = ''cell'' then [''arm''] else [])"
  "parent_of cell_arm = (\<lambda>c. if c = ''arm'' then Some ''cell'' else None)"
  by (auto simp: fun_eq_iff cell_arm_def cell_def register_node_def stored_def node_in_def Let_def
      parent_of_def children_at_def linked_def set_parent_def add_child_def split: option.splits)

lemma cell_arm_has: "jhas cell_arm ''cell''" "jhas cell_arm ''arm''"
  by (simp_all add: cell_arm_def cell_def register_node_def stored_def node_in_def Let_def
      linked_def set_parent_def add_child_def)

text \<open>C32: In every reachable graph the parents form a forest, the walk up the parents that \<open>link\<close>
  makes ends, and \<open>link\<close> does what it should on every pair of ids: unknown devices and pairs
  that would close a cycle of parents are refused, and every other pair is linked.\<close>

theorem graph_links_acyclic:
  assumes "graph_reachable g"
  shows "acyclic (parent_rel g) \<and>
    link_devices p c g =
      Some (if \<not> jhas g p \<or> \<not> jhas g c then Inl (PErr ''DEVICE_NOT_FOUND'' DEVICE)
            else if (p, c) \<in> (parent_rel g)\<^sup>* then Inl (PErr ''GRAPH_CYCLE'' CONFIG)
            else Inr (set_parent p c (add_child p c g)))"
proof -
  have a: "acyclic (parent_rel g)"
    using graph_reachable_ok[OF assms] by (simp add: graph_ok_def)
  then show ?thesis
    by (auto simp: link_devices_def descends_returns rtrancl_eq_or_trancl)
qed

theorem graph_links_acyclic_witness:
  "link_devices ''arm'' ''cell'' cell_arm = Some (Inl (PErr ''GRAPH_CYCLE'' CONFIG))"
proof -
  have "(''arm'', ''cell'') \<in> (parent_rel cell_arm)\<^sup>*"
    by (intro r_into_rtrancl) (simp add: cell_arm_links)
  then show ?thesis
    using graph_links_acyclic[OF cell_arm_reachable, of "''arm''" "''cell''"] cell_arm_has by simp
qed

text \<open>C39: While no device has been linked under a second parent, \<open>subtree\<close> returns, and it lists
  exactly the devices below the one it is asked for.\<close>

theorem subtree_returns:
  assumes "graph_reachable g" and "\<forall>p. \<forall>c\<in>set (children_at g p). parent_of g c = Some p" and "jhas g i"
  shows "\<exists>out. subtree i g = Some (Inr out) \<and> set out = {d. (i, d) \<in> (child_rel g)\<^sup>+}"
  by (rule subtree_reaches[OF graph_reachable_ok[OF assms(1)] assms(2,3)])

theorem subtree_returns_witness:
  "\<exists>out. subtree ''cell'' cell_arm = Some (Inr out) \<and> set out = {d. (''cell'', d) \<in> (child_rel cell_arm)\<^sup>+}"
  by (rule subtree_returns[OF cell_arm_reachable _ cell_arm_has(1)]) (simp add: cell_arm_links)

text \<open>\<open>link\<close> does not take a device from its old parent's children, and its cycle test follows
  parents only. So with two devices \<open>a\<close> and \<open>b\<close> that have no parent, linking a third device \<open>c\<close>
  under \<open>a\<close>, then under \<open>b\<close>, then \<open>a\<close> under \<open>c\<close> is accepted three times, and \<open>subtree\<close> of \<open>a\<close>
  then never returns.\<close>

theorem relinked_subtree_diverges:
  assumes "graph_reachable g" and "distinct [a, b, c]" and "jhas g a" "jhas g b" "jhas g c"
    and "parent_of g a = None" "parent_of g b = None"
  shows "\<exists>g'. graph_run g [GLink a c, GLink b c, GLink c a] = Some g' \<and>
    parent_of g' c = Some b \<and> parent_of g' a = Some c \<and> subtree a g' = None"
proof -
  define g1 g2 g3 where "g1 = linked a c g" and "g2 = linked b c g1" and "g3 = linked c a g2"
  have d: "c \<noteq> a" "c \<noteq> b" "a \<noteq> c" "a \<noteq> b"
    using assms(2) by auto
  have h1: "jhas g1 i = jhas g i" for i
    unfolding g1_def by (rule linked_has[OF d(1) assms(3,5)])
  have h2: "jhas g2 i = jhas g i" for i
    using linked_has[OF d(2), of g1 i] h1 assms(4,5) unfolding g2_def by blast
  have h3: "jhas g3 i = jhas g i" for i
    using linked_has[OF d(3), of g2 i] h2 assms(3,5) unfolding g3_def by blast
  note h = h1 h2 h3
  have P1: "parent_of g1 = (parent_of g)(c := Some a)"
    unfolding g1_def by (rule linked_parent[OF d(1) assms(3,5)])
  have P2: "parent_of g2 = (parent_of g1)(c := Some b)"
    unfolding g2_def using h1 assms(4,5) by (intro linked_parent[OF d(2)]) auto
  have P3: "parent_of g3 = (parent_of g2)(a := Some c)"
    unfolding g3_def using h2 assms(3,5) by (intro linked_parent[OF d(3)]) auto
  have l1: "link_devices a c g = Some (Inr g1)"
    using assms by (auto simp: link_devices_def descendsFrom_def g1_def linked_def)
  have l2: "link_devices b c g1 = Some (Inr g2)"
    using assms h P1 by (auto simp: link_devices_def descendsFrom_def g2_def linked_def)
  have l3: "link_devices c a g2 = Some (Inr g3)"
    using assms h P1 P2 by (auto simp: link_devices_def descendsFrom_def walk_up_Some g3_def linked_def)
  note ok3 = link_ok[OF link_ok[OF link_ok[OF graph_reachable_ok[OF assms(1)] l1] l2] l3]
  have C1: "children_at g1 = (children_at g)(a := (if c \<in> set (children_at g a) then children_at g a else children_at g a @ [c]))"
    unfolding g1_def by (rule linked_children[OF d(1) assms(3,5)])
  have C2: "children_at g2 = (children_at g1)(b := (if c \<in> set (children_at g1 b) then children_at g1 b else children_at g1 b @ [c]))"
    unfolding g2_def using h1 assms(4,5) by (intro linked_children[OF d(2)]) auto
  have C3: "children_at g3 = (children_at g2)(c := (if a \<in> set (children_at g2 c) then children_at g2 c else children_at g2 c @ [a]))"
    unfolding g3_def using h2 assms(3,5) by (intro linked_children[OF d(3)]) auto
  have "c \<in> set (children_at g3 a)" "a \<in> set (children_at g3 c)"
    using d by (auto simp: C1 C2 C3)
  then have "subtree_loop g3 (children_at g3 a) [] = None"
    using child_exists[OF ok3] by (intro subtree_loop_lasso[where S = "{a, c}"]) auto
  then have "subtree a g3 = None"
    using assms(3) h3[of a] by (metis subtree_children)
  then show ?thesis
    using l1 l2 l3 P1 P2 P3 assms(2) by (auto simp: id_def)
qed

definition three :: device_graph where
  "three = the (graph_run [] [GRegister (node_in ''a''), GRegister (node_in ''b''), GRegister (node_in ''c'')])"

theorem relinked_subtree_diverges_witness:
  "\<exists>g'. graph_run three [GLink ''a'' ''c'', GLink ''b'' ''c'', GLink ''c'' ''a''] = Some g' \<and>
    parent_of g' ''c'' = Some ''b'' \<and> parent_of g' ''a'' = Some ''c'' \<and> subtree ''a'' g' = None"
proof (rule relinked_subtree_diverges)
  have "graph_run [] [GRegister (node_in ''a''), GRegister (node_in ''b''), GRegister (node_in ''c'')] = Some three"
    by (simp add: three_def)
  then show "graph_reachable three"
    by (rule graph_run_reachable) (rule graph_reachable.empty)
qed (simp_all add: three_def register_node_def stored_def node_in_def Let_def parent_of_def)

text \<open>An address is the device path and the capability: joining with dots the ids on a path of
  children from a root and the segments of a capability, the first of which is not itself a
  child of the last device, resolves to that device, that capability and that path.\<close>

theorem resolve_follows_path:
  assumes "graph_reachable g" and "jhas g r0" and "child_path g r0 ds"
    and "caps \<noteq> []" and "hd caps \<notin> set (children_at g (List.last (r0 # ds)))"
    and "\<forall>s\<in>set (r0 # ds @ caps). plain_segment s"
  shows "resolve (join ''.'' (r0 # ds @ caps)) g =
    Inr \<lparr>ra_deviceId = List.last (r0 # ds), ra_capability = join ''.'' caps, ra_path = r0 # ds\<rparr>"
proof -
  have s: "segments_of (join ''.'' (r0 # ds @ caps)) = r0 # ds @ caps"
    by (rule segments_join[OF _ assms(6)]) simp
  have w: "walk_down g r0 [r0] (ds @ caps) = Inr (List.last (r0 # ds), [r0] @ ds, caps)"
    using child_exists[OF graph_reachable_ok[OF assms(1)]] assms(2-5) by (intro walk_down_path) auto
  have "join ''.'' caps \<noteq> []"
    using assms(4,6) by (intro join_nonempty) auto
  moreover have "\<not> length (r0 # ds @ caps) < 2"
    using assms(4) by (cases caps) auto
  ultimately show ?thesis
    unfolding resolve_def Let_def s using w assms(2) by (simp del: last.simps)
qed

theorem resolve_follows_path_witness:
  "resolve ''cell.arm.motion.move'' cell_arm =
    Inr \<lparr>ra_deviceId = ''arm'', ra_capability = ''motion.move'', ra_path = [''cell'', ''arm'']\<rparr>"
  using resolve_follows_path[OF cell_arm_reachable cell_arm_has(1), of "[''arm'']" "[''motion'', ''move'']"]
  by (simp add: cell_arm_links plain_segment_def)

end
