(* ===== verification/Stream_Bus.thy ===== *)
theory Stream_Bus
  imports Errors
begin

text \<open>
  The in-runtime broker of high-rate frames, \<open>packages/core/src/stream/streamBus.ts\<close>.

  A promise is a number; \<open>settled\<close> lists the promises of \<open>next()\<close> that have been resolved, in
  order, each with the subscriber it was made for and its result (\<open>None\<close> is done). The closure \<open>sub.notify\<close> is \<open>None\<close> while it does nothing and
  \<open>Some w\<close> while it resolves promise \<open>w\<close>. A subscriber is a number too, the place of its
  \<open>SubscriberQueue\<close> in the store \<open>queues\<close>. The set of a stream's subscribers and its list of
  end signals hold these numbers.
\<close>

record stream_descriptor =
  sd_id :: string
  sd_deviceId :: string
  sd_name :: string
  sd_codec :: "string option"
  sd_nominalRateHz :: "time option"
  sd_layout :: "string option"
  sd_metadata :: "jsrecord option"

datatype frame_data = Raw "nat list" | Struct jsrecord | Scalar jsnum

record stream_frame =
  sf_streamId :: string
  sf_sequence :: nat
  sf_sourceAt :: "time option"
  sf_at :: time
  sf_data :: frame_data
  sf_metadata :: "jsrecord option"

datatype backpressure = DropOldest | DropLatest | LatestOnly

record subscriber =
  sq_stream :: string
  sq_queue :: "stream_frame list"
  sq_bufferSize :: int
  sq_policy :: backpressure
  sq_notify :: "nat option"
  sq_closed :: bool
  sq_iteratorDone :: bool
  sq_ended :: bool

record stream_stats =
  st_published :: nat
  st_dropped :: nat

record stream_bus =
  sb_streams :: "(string, stream_descriptor) jmap"
  sb_subscribers :: "(string, nat list) jmap"
  sb_latest :: "(string, stream_frame) jmap"
  sb_sequences :: "(string, nat) jmap"
  sb_endSignals :: "(string, nat list) jmap"
  sb_stats :: "(string, stream_stats) jmap"
  sb_queues :: "subscriber list"
  sb_settled :: "(nat \<times> nat \<times> stream_frame option) list"
  sb_promises :: nat

definition empty_bus :: stream_bus where
  "empty_bus = \<lparr>sb_streams = [], sb_subscribers = [], sb_latest = [], sb_sequences = [], sb_endSignals = [],
    sb_stats = [], sb_queues = [], sb_settled = [], sb_promises = 0\<rparr>"

definition DEFAULT_BUFFER :: int where
  "DEFAULT_BUFFER = 64"

subsection \<open>One subscriber\<close>

text \<open>
  What \<open>publish\<close> does to one subscriber's queue: the new queue and whether the stream's
  \<open>dropped\<close> counter goes up.
\<close>

definition offer :: "stream_frame \<Rightarrow> subscriber \<Rightarrow> subscriber \<times> bool" where
  "offer f s =
    (if sq_policy s = LatestOnly then (s\<lparr>sq_queue := [f]\<rparr>, False)
     else if int (length (sq_queue s)) \<ge> sq_bufferSize s then
       (if sq_policy s = DropOldest then (s\<lparr>sq_queue := tl (sq_queue s) @ [f]\<rparr>, True)
        else (s, True))
     else (s\<lparr>sq_queue := sq_queue s @ [f]\<rparr>, False))"

text \<open>
  \<open>finish\<close>: the iterator is done, its \<open>ended\<close> promise resolves, and the subscriber leaves the
  set and the list of end signals. The bus part is \<open>forget\<close>.
\<close>

definition forget :: "nat \<Rightarrow> string \<Rightarrow> stream_bus \<Rightarrow> stream_bus" where
  "forget i sid b = b
    \<lparr>sb_subscribers := (case jget (sb_subscribers b) sid of None \<Rightarrow> sb_subscribers b
        | Some l \<Rightarrow> jset sid (removeAll i l) (sb_subscribers b)),
     sb_endSignals := (case jget (sb_endSignals b) sid of None \<Rightarrow> sb_endSignals b
        | Some l \<Rightarrow> jset sid (remove1 i l) (sb_endSignals b))\<rparr>"

definition put_sub :: "nat \<Rightarrow> subscriber \<Rightarrow> stream_bus \<Rightarrow> stream_bus" where
  "put_sub i s b = b\<lparr>sb_queues := (sb_queues b)[i := s]\<rparr>"

definition finish :: "nat \<Rightarrow> stream_bus \<Rightarrow> stream_bus" where
  "finish i b =
    (let s = sb_queues b ! i
     in if sq_iteratorDone s then b
        else forget i (sq_stream s) (put_sub i (s\<lparr>sq_iteratorDone := True, sq_ended := True\<rparr>) b))"

definition settle :: "nat \<Rightarrow> nat \<Rightarrow> stream_frame option \<Rightarrow> stream_bus \<Rightarrow> stream_bus" where
  "settle i w r b = b\<lparr>sb_settled := sb_settled b @ [(i, w, r)]\<rparr>"

text \<open>Calling \<open>sub.notify()\<close>.\<close>

definition notify :: "nat \<Rightarrow> stream_bus \<Rightarrow> stream_bus" where
  "notify i b =
    (let s = sb_queues b ! i in
     case sq_notify s of
       None \<Rightarrow> b
     | Some w \<Rightarrow>
         (let b1 = put_sub i (s\<lparr>sq_notify := None\<rparr>) b in
          if sq_iteratorDone s then settle i w None b1
          else (case sq_queue s of
            f # q \<Rightarrow> settle i w (Some f) (put_sub i (s\<lparr>sq_notify := None, sq_queue := q\<rparr>) b)
          | [] \<Rightarrow> if sq_closed s then settle i w None (finish i b1) else b1)))"

definition next_frame :: "nat \<Rightarrow> stream_bus \<Rightarrow> nat \<times> stream_bus" where
  "next_frame i b0 =
    (let w = sb_promises b0; b = b0\<lparr>sb_promises := Suc w\<rparr>; s = sb_queues b ! i in
     if sq_iteratorDone s then (w, settle i w None b)
     else (case sq_queue s of
       f # q \<Rightarrow> (w, settle i w (Some f) (put_sub i (s\<lparr>sq_queue := q\<rparr>) b))
     | [] \<Rightarrow> if sq_closed s then (w, settle i w None (finish i b))
             else (w, put_sub i (s\<lparr>sq_notify := Some w\<rparr>) b)))"

text \<open>\<open>close()\<close> of a handle, and \<open>return()\<close> of its iterator, which does the same.\<close>

definition close_handle :: "nat \<Rightarrow> stream_bus \<Rightarrow> stream_bus" where
  "close_handle i b = finish i (notify i (put_sub i ((sb_queues b ! i)\<lparr>sq_closed := True\<rparr>) b))"

subsection \<open>The bus\<close>

definition register_stream :: "stream_descriptor \<Rightarrow> stream_bus \<Rightarrow> string + stream_bus" where
  "register_stream d b =
    (if jhas (sb_streams b) (sd_id d) then Inl (''Stream '' @ sd_id d @ '' is already registered.'')
     else Inr (b\<lparr>sb_streams := jset (sd_id d) d (sb_streams b),
                 sb_stats := jset (sd_id d) \<lparr>st_published = 0, st_dropped = 0\<rparr> (sb_stats b)\<rparr>))"

definition list_streams :: "string option \<Rightarrow> stream_bus \<Rightarrow> stream_descriptor list" where
  "list_streams dev b = filter (\<lambda>d. \<not> (truthy dev \<and> Some (sd_deviceId d) \<noteq> dev)) (jvalues (sb_streams b))"

definition get_stream :: "string \<Rightarrow> stream_bus \<Rightarrow> stream_descriptor option" where
  "get_stream sid b = jget (sb_streams b) sid"

definition count_drop :: "string \<Rightarrow> bool \<Rightarrow> stream_bus \<Rightarrow> stream_bus" where
  "count_drop sid d b =
    (if d then b\<lparr>sb_stats := (case jget (sb_stats b) sid of None \<Rightarrow> sb_stats b
        | Some t \<Rightarrow> jset sid (t\<lparr>st_dropped := Suc (st_dropped t)\<rparr>) (sb_stats b))\<rparr> else b)"

definition deliver :: "string \<Rightarrow> stream_frame \<Rightarrow> nat \<Rightarrow> stream_bus \<Rightarrow> stream_bus" where
  "deliver sid f i b =
    (case offer f (sb_queues b ! i) of (s, d) \<Rightarrow> notify i (count_drop sid d (put_sub i s b)))"

record publish_options =
  po_sourceAt :: "time option"
  po_metadata :: "jsrecord option"

definition new_frame :: "string \<Rightarrow> frame_data \<Rightarrow> publish_options \<Rightarrow> time \<Rightarrow> stream_bus \<Rightarrow> stream_frame" where
  "new_frame sid data opts now b =
    \<lparr>sf_streamId = sid, sf_sequence = (case jget (sb_sequences b) sid of None \<Rightarrow> 0 | Some n \<Rightarrow> n),
     sf_sourceAt = po_sourceAt opts, sf_at = now, sf_data = data, sf_metadata = po_metadata opts\<rparr>"

definition record_frame :: "stream_frame \<Rightarrow> stream_bus \<Rightarrow> stream_bus" where
  "record_frame f b =
    (let sid = sf_streamId f in
     b\<lparr>sb_sequences := jset sid (Suc (sf_sequence f)) (sb_sequences b),
       sb_latest := jset sid f (sb_latest b),
       sb_stats := (case jget (sb_stats b) sid of None \<Rightarrow> sb_stats b
         | Some t \<Rightarrow> jset sid (t\<lparr>st_published := Suc (st_published t)\<rparr>) (sb_stats b))\<rparr>)"

definition subs_of :: "string \<Rightarrow> stream_bus \<Rightarrow> nat list" where
  "subs_of sid b = (case jget (sb_subscribers b) sid of None \<Rightarrow> [] | Some l \<Rightarrow> l)"

definition publish :: "string \<Rightarrow> frame_data \<Rightarrow> publish_options \<Rightarrow> time \<Rightarrow> stream_bus \<Rightarrow> string + (stream_frame \<times> stream_bus)" where
  "publish sid data opts now b =
    (if \<not> jhas (sb_streams b) sid then Inl (''Cannot publish to unknown stream '' @ sid)
     else (let f = new_frame sid data opts now b
           in Inr (f, fold (deliver sid f) (subs_of sid b) (record_frame f b))))"

definition snapshot :: "string \<Rightarrow> stream_bus \<Rightarrow> stream_frame option" where
  "snapshot sid b = jget (sb_latest b) sid"

record subscribe_options =
  so_bufferSize :: "int option"
  so_policy :: "backpressure option"

definition subscribe :: "string \<Rightarrow> subscribe_options \<Rightarrow> stream_bus \<Rightarrow> string + (nat \<times> stream_bus)" where
  "subscribe sid opts b =
    (if \<not> jhas (sb_streams b) sid then Inl (''Unknown stream '' @ sid)
     else (let i = length (sb_queues b);
               s = \<lparr>sq_stream = sid, sq_queue = [],
                    sq_bufferSize = (case so_bufferSize opts of None \<Rightarrow> DEFAULT_BUFFER | Some n \<Rightarrow> n),
                    sq_policy = (case so_policy opts of None \<Rightarrow> DropOldest | Some p \<Rightarrow> p),
                    sq_notify = None, sq_closed = False, sq_iteratorDone = False, sq_ended = False\<rparr>
           in Inr (i, b\<lparr>sb_queues := sb_queues b @ [s],
                        sb_subscribers := jset sid (subs_of sid b @ [i]) (sb_subscribers b),
                        sb_endSignals := jset sid
                          ((case jget (sb_endSignals b) sid of None \<Rightarrow> [] | Some l \<Rightarrow> l) @ [i]) (sb_endSignals b)\<rparr>)))"

definition resolve_ended :: "nat \<Rightarrow> stream_bus \<Rightarrow> stream_bus" where
  "resolve_ended i b = put_sub i ((sb_queues b ! i)\<lparr>sq_ended := True\<rparr>) b"

definition close_sub :: "nat \<Rightarrow> stream_bus \<Rightarrow> stream_bus" where
  "close_sub i b = notify i (put_sub i ((sb_queues b ! i)\<lparr>sq_closed := True\<rparr>) b)"

definition closeStream :: "string \<Rightarrow> stream_bus \<Rightarrow> stream_bus" where
  "closeStream sid b =
    (let signals = (case jget (sb_endSignals b) sid of None \<Rightarrow> [] | Some l \<Rightarrow> l);
         b1 = fold resolve_ended signals b;
         b2 = b1\<lparr>sb_endSignals := jdelete sid (sb_endSignals b1)\<rparr>;
         b3 = fold close_sub (subs_of sid b2) b2
     in b3\<lparr>sb_subscribers := (case jget (sb_subscribers b3) sid of None \<Rightarrow> sb_subscribers b3
        | Some _ \<Rightarrow> jset sid [] (sb_subscribers b3))\<rparr>)"

definition stream_stats_of :: "string \<Rightarrow> stream_bus \<Rightarrow> (nat \<times> nat \<times> nat) option" where
  "stream_stats_of sid b = (case jget (sb_stats b) sid of None \<Rightarrow> None
     | Some t \<Rightarrow> Some (st_published t, st_dropped t, length (subs_of sid b)))"

subsection \<open>Calls\<close>

datatype bus_call =
    BRegister stream_descriptor
  | BPublish string frame_data publish_options time
  | BSubscribe string subscribe_options
  | BNext nat
  | BClose nat
  | BCloseStream string

text \<open>A handle is a value that \<open>subscribe\<close> returned: a number below \<open>length (sb_queues b)\<close>.\<close>

fun bus_apply :: "bus_call \<Rightarrow> stream_bus \<Rightarrow> stream_bus option" where
  "bus_apply (BRegister d) b = (case register_stream d b of Inl _ \<Rightarrow> None | Inr b' \<Rightarrow> Some b')"
| "bus_apply (BPublish sid data opts now) b = (case publish sid data opts now b of Inl _ \<Rightarrow> None | Inr (_, b') \<Rightarrow> Some b')"
| "bus_apply (BSubscribe sid opts) b = (case subscribe sid opts b of Inl _ \<Rightarrow> None | Inr (_, b') \<Rightarrow> Some b')"
| "bus_apply (BNext i) b = (if i < length (sb_queues b) then Some (snd (next_frame i b)) else None)"
| "bus_apply (BClose i) b = (if i < length (sb_queues b) then Some (close_handle i b) else None)"
| "bus_apply (BCloseStream sid) b = Some (closeStream sid b)"

inductive bus_reachable :: "stream_bus \<Rightarrow> bool" where
  start: "bus_reachable empty_bus"
| call: "bus_reachable b \<Longrightarrow> bus_apply c b = Some b' \<Longrightarrow> bus_reachable b'"

subsection \<open>Reading the state after a step\<close>

abbreviation sub :: "stream_bus \<Rightarrow> nat \<Rightarrow> subscriber" where
  "sub b i \<equiv> sb_queues b ! i"

definition delivered :: "nat \<Rightarrow> stream_bus \<Rightarrow> stream_frame list" where
  "delivered i b = concat (map (\<lambda>(j, w, r). if j = i then (case r of None \<Rightarrow> [] | Some f \<Rightarrow> [f]) else []) (sb_settled b))"

named_theorems bus_simps "the parts of the bus after a primitive step"

lemma put_sub_parts [bus_simps]:
  "sb_queues (put_sub i s b) = (sb_queues b)[i := s]" "sb_settled (put_sub i s b) = sb_settled b"
  "sb_streams (put_sub i s b) = sb_streams b" "sb_sequences (put_sub i s b) = sb_sequences b"
  "subs_of sid (put_sub i s b) = subs_of sid b" "delivered j (put_sub i s b) = delivered j b"
  by (simp_all add: put_sub_def subs_of_def delivered_def)

lemma settle_parts [bus_simps]:
  "sb_queues (settle i w r b) = sb_queues b" "sb_streams (settle i w r b) = sb_streams b"
  "sb_sequences (settle i w r b) = sb_sequences b" "subs_of sid (settle i w r b) = subs_of sid b"
  "delivered j (settle i w r b) = delivered j b @ (if i = j then (case r of None \<Rightarrow> [] | Some f \<Rightarrow> [f]) else [])"
  by (simp_all add: settle_def subs_of_def delivered_def)

lemma forget_parts [bus_simps]:
  "sb_queues (forget i s b) = sb_queues b" "sb_streams (forget i s b) = sb_streams b"
  "sb_sequences (forget i s b) = sb_sequences b" "delivered j (forget i s b) = delivered j b"
  "subs_of sid (forget i s b) = (if s = sid then removeAll i (subs_of sid b) else subs_of sid b)"
  by (auto simp: forget_def subs_of_def delivered_def jget_set split: option.split)

lemma count_drop_parts [bus_simps]:
  "sb_queues (count_drop s d b) = sb_queues b" "sb_streams (count_drop s d b) = sb_streams b"
  "sb_sequences (count_drop s d b) = sb_sequences b" "delivered j (count_drop s d b) = delivered j b"
  "subs_of sid (count_drop s d b) = subs_of sid b"
  by (auto simp: count_drop_def subs_of_def delivered_def)

lemma record_frame_parts [bus_simps]:
  "sb_queues (record_frame f b) = sb_queues b" "sb_streams (record_frame f b) = sb_streams b"
  "sb_sequences (record_frame f b) = jset (sf_streamId f) (Suc (sf_sequence f)) (sb_sequences b)"
  "delivered j (record_frame f b) = delivered j b" "subs_of sid (record_frame f b) = subs_of sid b"
  by (auto simp: record_frame_def subs_of_def delivered_def Let_def)

lemma finish_parts [bus_simps]:
  "sb_streams (finish i b) = sb_streams b" "sb_sequences (finish i b) = sb_sequences b"
  "delivered j (finish i b) = delivered j b" "length (sb_queues (finish i b)) = length (sb_queues b)"
  by (auto simp: finish_def Let_def bus_simps)

lemma finish_other: "j \<noteq> i \<Longrightarrow> sub (finish i b) j = sub b j"
  by (auto simp: finish_def Let_def bus_simps)

lemma notify_parts [bus_simps]:
  "sb_streams (notify i b) = sb_streams b" "sb_sequences (notify i b) = sb_sequences b"
  "length (sb_queues (notify i b)) = length (sb_queues b)"
  by (auto simp: notify_def Let_def bus_simps split: option.split list.split)

lemma notify_other: "j \<noteq> i \<Longrightarrow> sub (notify i b) j = sub b j" "j \<noteq> i \<Longrightarrow> delivered j (notify i b) = delivered j b"
  by (auto simp: notify_def Let_def bus_simps finish_other split: option.split list.split)

text \<open>What \<open>notify\<close> does for a subscriber that is open.\<close>

lemma notify_open:
  assumes "i < length (sb_queues b)" "\<not> sq_closed (sub b i)" "\<not> sq_iteratorDone (sub b i)"
  shows "sub (notify i b) i = (if sq_notify (sub b i) = None then sub b i
      else (sub b i)\<lparr>sq_notify := None, sq_queue := tl (sq_queue (sub b i))\<rparr>)"
    and "delivered i (notify i b) = delivered i b @
      (if sq_notify (sub b i) = None then [] else take 1 (sq_queue (sub b i)))"
    and "subs_of sid (notify i b) = subs_of sid b"
  using assms by (auto simp: notify_def Let_def bus_simps split: option.split list.split)

subsection \<open>The set of subscribers\<close>

text \<open>
  \<open>open_subs X b\<close>: every member of a stream's set is a subscriber of that stream whose iterator
  is not done, and it is closed only when it is one of \<open>X\<close>.
\<close>

definition open_subs :: "nat set \<Rightarrow> stream_bus \<Rightarrow> bool" where
  "open_subs X b \<longleftrightarrow> (\<forall>sid. distinct (subs_of sid b) \<and> (\<forall>j\<in>set (subs_of sid b).
      j < length (sb_queues b) \<and> sq_stream (sub b j) = sid \<and> \<not> sq_iteratorDone (sub b j) \<and>
      (sq_closed (sub b j) \<longrightarrow> j \<in> X)))"

lemma open_subsI:
  "(\<And>sid. distinct (subs_of sid b)) \<Longrightarrow> (\<And>sid j. j \<in> set (subs_of sid b) \<Longrightarrow> j < length (sb_queues b) \<and>
     sq_stream (sub b j) = sid \<and> \<not> sq_iteratorDone (sub b j) \<and> (sq_closed (sub b j) \<longrightarrow> j \<in> X)) \<Longrightarrow> open_subs X b"
  by (simp add: open_subs_def)

lemma open_subsD:
  assumes "open_subs X b" "j \<in> set (subs_of sid b)"
  shows "j < length (sb_queues b)" "sq_stream (sub b j) = sid" "\<not> sq_iteratorDone (sub b j)"
    "sq_closed (sub b j) \<Longrightarrow> j \<in> X"
  using assms by (auto simp: open_subs_def)

lemma open_subs_distinct: "open_subs X b \<Longrightarrow> distinct (subs_of sid b)"
  by (simp add: open_subs_def)

lemma open_subs_put:
  assumes "open_subs X b" "sq_stream s = sq_stream (sub b i)" "sq_iteratorDone s = sq_iteratorDone (sub b i)"
    "sq_closed s \<Longrightarrow> sq_closed (sub b i) \<or> i \<in> X"
  shows "open_subs X (put_sub i s b)"
proof (rule open_subsI)
  fix sid j
  assume "j \<in> set (subs_of sid (put_sub i s b))"
  then have "j \<in> set (subs_of sid b)"
    by (simp add: bus_simps)
  then show "j < length (sb_queues (put_sub i s b)) \<and> sq_stream (sub (put_sub i s b) j) = sid \<and>
     \<not> sq_iteratorDone (sub (put_sub i s b) j) \<and> (sq_closed (sub (put_sub i s b) j) \<longrightarrow> j \<in> X)"
    using open_subsD[OF assms(1), of j sid] assms(2-4) by (cases "j = i") (auto simp: bus_simps)
qed (simp add: bus_simps open_subs_distinct[OF assms(1)])

lemma open_subs_settle: "open_subs X (settle i w r b) = open_subs X b"
  by (simp add: open_subs_def bus_simps)

lemma open_subs_mono: "open_subs X b \<Longrightarrow> X \<subseteq> Y \<Longrightarrow> open_subs Y b"
  unfolding open_subs_def by blast

lemma open_subs_finish:
  assumes "open_subs X b"
  shows "open_subs (X - {i}) (finish i b)"
proof (rule open_subsI)
  fix sid
  show "distinct (subs_of sid (finish i b))"
    using open_subs_distinct[OF assms] by (auto simp: finish_def Let_def bus_simps distinct_removeAll)
next
  fix sid j
  assume j: "j \<in> set (subs_of sid (finish i b))"
  then have j': "j \<in> set (subs_of sid b)" "j \<noteq> i"
    using open_subsD[OF assms, of j sid] by (auto simp: finish_def Let_def bus_simps split: if_splits)
  then show "j < length (sb_queues (finish i b)) \<and> sq_stream (sub (finish i b) j) = sid \<and>
     \<not> sq_iteratorDone (sub (finish i b) j) \<and> (sq_closed (sub (finish i b) j) \<longrightarrow> j \<in> X - {i})"
    using open_subsD[OF assms j'(1)] by (auto simp: bus_simps finish_other)
qed

lemma open_subs_notify: "open_subs X b \<Longrightarrow> open_subs X (notify i b)"
  by (auto simp: notify_def Let_def open_subs_settle intro!: open_subs_put
      intro: open_subs_mono[OF open_subs_finish] split: option.split list.split)

lemma offer_flags:
  "sq_stream (fst (offer f s)) = sq_stream s" "sq_iteratorDone (fst (offer f s)) = sq_iteratorDone s"
  "sq_closed (fst (offer f s)) = sq_closed s" "sq_notify (fst (offer f s)) = sq_notify s"
  "sq_policy (fst (offer f s)) = sq_policy s" "sq_bufferSize (fst (offer f s)) = sq_bufferSize s"
  by (auto simp: offer_def)

lemma open_subs_count_drop: "open_subs X (count_drop s d b) = open_subs X b"
  by (simp add: open_subs_def bus_simps)

lemma deliver_split: "deliver sid f i b = notify i (count_drop sid (snd (offer f (sub b i))) (put_sub i (fst (offer f (sub b i))) b))"
  by (simp add: deliver_def case_prod_unfold)

lemma open_subs_deliver: "open_subs X b \<Longrightarrow> open_subs X (deliver sid f i b)"
  unfolding deliver_split
  by (intro open_subs_notify) (auto simp: open_subs_count_drop offer_flags intro!: open_subs_put)

lemma deliver_parts:
  "sb_streams (deliver sid f i b) = sb_streams b" "sb_sequences (deliver sid f i b) = sb_sequences b"
  "length (sb_queues (deliver sid f i b)) = length (sb_queues b)"
  by (simp_all add: deliver_split bus_simps)

lemma deliver_other:
  "j \<noteq> i \<Longrightarrow> sub (deliver sid f i b) j = sub b j" "j \<noteq> i \<Longrightarrow> delivered j (deliver sid f i b) = delivered j b"
  by (simp_all add: deliver_split notify_other bus_simps)

lemma deliver_subs:
  assumes "i < length (sb_queues b)" "\<not> sq_closed (sub b i)" "\<not> sq_iteratorDone (sub b i)"
  shows "subs_of s (deliver sid f i b) = subs_of s b"
proof -
  let ?b = "count_drop sid (snd (offer f (sub b i))) (put_sub i (fst (offer f (sub b i))) b)"
  have "subs_of s (notify i ?b) = subs_of s ?b"
    using assms by (intro notify_open(3)) (simp_all add: bus_simps offer_flags)
  then show ?thesis
    by (simp add: deliver_split bus_simps)
qed

lemma open_subs_next: "open_subs X b \<Longrightarrow> open_subs X (snd (next_frame i b))"
proof -
  assume o': "open_subs X b"
  define c where "c = b\<lparr>sb_promises := Suc (sb_promises b)\<rparr>"
  have p: "sub c i = sub b i" "open_subs X c"
    using o' by (simp_all add: c_def open_subs_def subs_of_def)
  have "snd (next_frame i b) =
    (if sq_iteratorDone (sub c i) then settle i (sb_promises b) None c
     else (case sq_queue (sub c i) of
       f # q \<Rightarrow> settle i (sb_promises b) (Some f) (put_sub i ((sub c i)\<lparr>sq_queue := q\<rparr>) c)
     | [] \<Rightarrow> if sq_closed (sub c i) then settle i (sb_promises b) None (finish i c)
             else put_sub i ((sub c i)\<lparr>sq_notify := Some (sb_promises b)\<rparr>) c))"
    by (simp add: next_frame_def Let_def c_def split: list.split)
  then show ?thesis
    using p(2) by (auto simp: open_subs_settle intro!: open_subs_put
      intro: open_subs_mono[OF open_subs_finish] split: list.split)
qed

lemma open_subs_close: "open_subs {} b \<Longrightarrow> open_subs {} (close_handle i b)"
proof -
  assume "open_subs {} b"
  then have "open_subs {i} (put_sub i ((sub b i)\<lparr>sq_closed := True\<rparr>) b)"
    by (intro open_subs_put) (auto intro: open_subs_mono)
  then have "open_subs {i} (notify i (put_sub i ((sub b i)\<lparr>sq_closed := True\<rparr>) b))"
    by (rule open_subs_notify)
  from open_subs_finish[OF this, of i] show ?thesis
    by (simp add: close_handle_def)
qed

lemma open_subs_publish:
  assumes "open_subs X b" "publish sid data opts now b = Inr (f, b')"
  shows "open_subs X b'"
proof -
  have fold: "open_subs X c \<Longrightarrow> open_subs X (fold (deliver sid f) L c)" for L c
    by (induction L arbitrary: c) (auto intro: open_subs_deliver)
  have "open_subs X (record_frame f b)"
    using assms(1) by (simp add: open_subs_def bus_simps)
  then show ?thesis
    using assms(2) fold by (auto simp: publish_def Let_def split: if_splits)
qed

lemma open_subs_subscribe:
  assumes "open_subs X b" "subscribe sid opts b = Inr (i, b')"
  shows "open_subs X b'"
proof (rule open_subsI)
  have b': "i = length (sb_queues b)" "length (sb_queues b') = Suc (length (sb_queues b))"
    "sub b' (length (sb_queues b)) = (sub b' i)" "\<And>j. j < length (sb_queues b) \<Longrightarrow> sub b' j = sub b j"
    "\<And>s. subs_of s b' = (if s = sid then subs_of s b @ [i] else subs_of s b)"
    "sq_stream (sub b' i) = sid" "\<not> sq_iteratorDone (sub b' i)" "\<not> sq_closed (sub b' i)"
    using assms(2) by (auto simp: subscribe_def Let_def subs_of_def jget_set nth_append split: if_splits)
  fix s
  show "distinct (subs_of s b')"
    using open_subs_distinct[OF assms(1), of s] open_subsD(1)[OF assms(1), of i s] b'(1,5) by auto
  fix j
  assume "j \<in> set (subs_of s b')"
  then consider "j = i" "s = sid" | "j \<in> set (subs_of s b)"
    using b'(5) by (auto split: if_splits)
  then show "j < length (sb_queues b') \<and> sq_stream (sub b' j) = s \<and> \<not> sq_iteratorDone (sub b' j) \<and>
     (sq_closed (sub b' j) \<longrightarrow> j \<in> X)"
  proof cases
    case 1
    then show ?thesis
      using b' by simp
  next
    case 2
    from open_subsD[OF assms(1) 2] show ?thesis
      using b' by auto
  qed
qed

lemma close_sub_parts:
  "open_subs X b \<Longrightarrow> open_subs (insert i X) (close_sub i b)" 
  "sq_stream (sub (close_sub i b) j) = sq_stream (sub b j)"
  "length (sb_queues (close_sub i b)) = length (sb_queues b)"
proof -
  show "open_subs X b \<Longrightarrow> open_subs (insert i X) (close_sub i b)"
    unfolding close_sub_def by (intro open_subs_notify open_subs_put) (auto intro: open_subs_mono)
  show "length (sb_queues (close_sub i b)) = length (sb_queues b)"
    by (simp add: close_sub_def bus_simps)
  show "sq_stream (sub (close_sub i b) j) = sq_stream (sub b j)"
    by (cases "j = i"; cases "i < length (sb_queues b)")
      (auto simp: close_sub_def notify_def finish_def Let_def bus_simps notify_other list_update_beyond
        split: option.split list.split)
qed

lemma open_subs_resolve: "open_subs X b \<Longrightarrow> open_subs X (fold resolve_ended L b)"
proof (induction L arbitrary: b)
  case (Cons i L)
  have "open_subs X (resolve_ended i b)"
    unfolding resolve_ended_def by (rule open_subs_put[OF Cons.prems]) auto
  from Cons.IH[OF this] show ?case
    by simp
qed simp

lemma fold_close_sub:
  "open_subs X b \<Longrightarrow> open_subs (X \<union> set L) (fold close_sub L b) \<and>
    (\<forall>j. sq_stream (sub (fold close_sub L b) j) = sq_stream (sub b j))"
proof (induction L arbitrary: b X)
  case (Cons i L)
  from Cons.IH[OF close_sub_parts(1)[OF Cons.prems, of i]] show ?case
    by (simp add: close_sub_parts insert_commute Un_commute)
qed simp

lemma open_subs_closeStream:
  assumes "open_subs {} b"
  shows "open_subs {} (closeStream sid b)"
proof -
  define b1 where "b1 = fold resolve_ended (case jget (sb_endSignals b) sid of None \<Rightarrow> [] | Some l \<Rightarrow> l) b"
  define b2 where "b2 = b1\<lparr>sb_endSignals := jdelete sid (sb_endSignals b1)\<rparr>"
  define b3 where "b3 = fold close_sub (subs_of sid b2) b2"
  have o2: "open_subs {} b2"
    using open_subs_resolve[OF assms] by (simp add: b1_def b2_def open_subs_def subs_of_def)
  have o3: "open_subs (set (subs_of sid b2)) b3" and s3: "sq_stream (sub b3 j) = sq_stream (sub b2 j)" for j
    using fold_close_sub[OF o2, of "subs_of sid b2"] by (auto simp: b3_def)
  have c: "closeStream sid b = b3\<lparr>sb_subscribers := (case jget (sb_subscribers b3) sid of None \<Rightarrow> sb_subscribers b3
        | Some _ \<Rightarrow> jset sid [] (sb_subscribers b3))\<rparr>" (is "_ = ?c")
    unfolding closeStream_def b1_def b2_def b3_def Let_def by (rule refl)
  have s: "subs_of s ?c = (if s = sid then [] else subs_of s b3)" for s
    by (auto simp: subs_of_def jget_set split: option.split)
  show ?thesis
    unfolding c
  proof (rule open_subsI)
    fix s j
    assume "j \<in> set (subs_of s ?c)"
    then have j: "j \<in> set (subs_of s b3)" "s \<noteq> sid"
      by (auto simp: s split: if_splits)
    note d = open_subsD[OF o3 j(1)]
    have "j \<notin> set (subs_of sid b2)"
      using d(2) open_subsD(2)[OF o2, of j sid] s3[of j] j(2) by auto
    with d show "j < length (sb_queues ?c) \<and> sq_stream (sub ?c j) = s \<and> \<not> sq_iteratorDone (sub ?c j) \<and>
       (sq_closed (sub ?c j) \<longrightarrow> j \<in> {})"
      by auto
  qed (subst s, simp add: open_subs_distinct[OF o3])
qed

lemma bus_apply_open: "open_subs {} b \<Longrightarrow> bus_apply c b = Some b' \<Longrightarrow> open_subs {} b'"
proof (cases c)
  case (BRegister d)
  assume o': "open_subs {} b" "bus_apply c b = Some b'"
  then have "subs_of s b' = subs_of s b" "sb_queues b' = sb_queues b" for s
    using BRegister by (auto simp: register_stream_def subs_of_def split: if_splits)
  with o'(1) show ?thesis
    by (simp add: open_subs_def)
qed (auto split: sum.splits if_splits intro: open_subs_publish open_subs_subscribe open_subs_next open_subs_close open_subs_closeStream)

lemma reachable_open: "bus_reachable b \<Longrightarrow> open_subs {} b"
proof (induction rule: bus_reachable.induct)
  case start
  show ?case
    by (simp add: open_subs_def empty_bus_def subs_of_def)
qed (rule bus_apply_open)

subsection \<open>The abstract reader\<close>

text \<open>
  A log of every frame published since the subscription and a cursor: a reader that falls more
  than \<open>n\<close> frames behind skips to the oldest of the last \<open>n\<close>; with the policy that drops the latest, a frame enters
  the log only while fewer than \<open>n\<close> are unread. \<open>lr_pending\<close> says that a read
  waits for the next frame, \<open>lr_out\<close> is what the reader has received, \<open>lr_seq\<close> the number of
  the next frame.
\<close>

record log_reader =
  lr_log :: "stream_frame list"
  lr_pos :: nat
  lr_pending :: bool
  lr_out :: "stream_frame list"
  lr_seq :: nat

definition log_cursor :: "nat \<Rightarrow> log_reader \<Rightarrow> nat" where
  "log_cursor n r = max (lr_pos r) (length (lr_log r) - n)"

definition log_read :: "nat \<Rightarrow> log_reader \<Rightarrow> log_reader" where
  "log_read n r =
    (let p = log_cursor n r
     in if p < length (lr_log r) then r\<lparr>lr_pos := Suc p, lr_pending := False, lr_out := lr_out r @ [lr_log r ! p]\<rparr>
        else r\<lparr>lr_pending := True\<rparr>)"

text \<open>Does the frame enter the log? With a buffer below one it never does, and a read that waits is forgotten.\<close>

definition log_takes :: "backpressure \<Rightarrow> nat \<Rightarrow> log_reader \<Rightarrow> bool" where
  "log_takes pol n r \<longleftrightarrow> pol \<noteq> DropLatest \<or> length (lr_log r) - lr_pos r < n"

definition log_publish :: "backpressure \<Rightarrow> nat \<Rightarrow> stream_frame \<Rightarrow> log_reader \<Rightarrow> log_reader" where
  "log_publish pol n f r =
    (if \<not> log_takes pol n r then r\<lparr>lr_pending := False, lr_seq := Suc (lr_seq r)\<rparr>
     else (let r' = r\<lparr>lr_log := lr_log r @ [f], lr_seq := Suc (lr_seq r)\<rparr>
           in if lr_pending r then log_read n r' else r'))"

fun log_call :: "string \<Rightarrow> nat \<Rightarrow> backpressure \<Rightarrow> nat \<Rightarrow> bus_call \<Rightarrow> log_reader \<Rightarrow> log_reader" where
  "log_call sid i pol n (BPublish s d opts now) r =
    (if s = sid then log_publish pol n \<lparr>sf_streamId = sid, sf_sequence = lr_seq r, sf_sourceAt = po_sourceAt opts,
        sf_at = now, sf_data = d, sf_metadata = po_metadata opts\<rparr> r
     else r)"
| "log_call sid i pol n (BNext j) r = (if j = i then log_read n r else r)"
| "log_call sid i pol n c r = r"

definition capacity :: "subscriber \<Rightarrow> nat" where
  "capacity s =
    (if sq_policy s = LatestOnly then 1
     else if sq_policy s = DropLatest then nat (sq_bufferSize s)
     else max 1 (nat (sq_bufferSize s)))"

definition next_sequence :: "string \<Rightarrow> stream_bus \<Rightarrow> nat" where
  "next_sequence sid b = (case jget (sb_sequences b) sid of None \<Rightarrow> 0 | Some n \<Rightarrow> n)"

definition reads_log :: "string \<Rightarrow> nat \<Rightarrow> backpressure \<Rightarrow> nat \<Rightarrow> stream_bus \<Rightarrow> log_reader \<Rightarrow> bool" where
  "reads_log sid i pol n b r \<longleftrightarrow>
    i \<in> set (subs_of sid b) \<and> sq_policy (sub b i) = pol \<and> capacity (sub b i) = n \<and>
    next_sequence sid b = lr_seq r \<and> lr_pos r \<le> length (lr_log r) \<and>
    (pol = DropLatest \<longrightarrow> length (lr_log r) - lr_pos r \<le> n) \<and>
    sq_queue (sub b i) = drop (log_cursor n r) (lr_log r) \<and>
    (sq_notify (sub b i) \<noteq> None \<longleftrightarrow> lr_pending r) \<and> (lr_pending r \<longrightarrow> sq_queue (sub b i) = []) \<and>
    delivered i b = lr_out r"

lemma capacity_update [bus_simps]:
  "capacity (s\<lparr>sq_notify := x\<rparr>) = capacity s" "capacity (s\<lparr>sq_queue := q\<rparr>) = capacity s"
  by (simp_all add: capacity_def)

lemma capacity_cong: "sq_policy s = sq_policy t \<Longrightarrow> sq_bufferSize s = sq_bufferSize t \<Longrightarrow> capacity s = capacity t"
  by (simp add: capacity_def)

lemma log_read_drop:
  assumes "drop (log_cursor n r) (lr_log r) = f # q"
  shows "log_read n r = r\<lparr>lr_pos := Suc (log_cursor n r), lr_pending := False, lr_out := lr_out r @ [f]\<rparr>"
    and "drop (log_cursor n (log_read n r)) (lr_log r) = q"
    and "lr_pos (log_read n r) \<le> length (lr_log r)"
proof -
  have p: "log_cursor n r < length (lr_log r)"
    using assms by (metis drop_all leI list.distinct(1))
  moreover have "lr_log r ! log_cursor n r = f"
    using assms p by (metis Cons_nth_drop_Suc list.inject)
  ultimately show e: "log_read n r = r\<lparr>lr_pos := Suc (log_cursor n r), lr_pending := False, lr_out := lr_out r @ [f]\<rparr>"
    by (simp add: log_read_def Let_def)
  have "log_cursor n (log_read n r) = Suc (log_cursor n r)"
    unfolding e by (simp add: log_cursor_def)
  then show "drop (log_cursor n (log_read n r)) (lr_log r) = q"
    using assms p by (metis Cons_nth_drop_Suc list.inject)
  show "lr_pos (log_read n r) \<le> length (lr_log r)"
    using p by (simp add: e)
qed

lemma log_read_empty: "drop (log_cursor n r) (lr_log r) = [] \<Longrightarrow> log_read n r = r\<lparr>lr_pending := True\<rparr>"
  by (simp add: log_read_def Let_def)

lemma offer_log:
  assumes "sq_queue s = drop (max p (length l - capacity s)) l" "p \<le> length l" "sq_policy s \<noteq> DropLatest"
  shows "sq_queue (fst (offer f s)) = drop (max p (length (l @ [f]) - capacity s)) (l @ [f])"
proof -
  have c: "1 \<le> capacity s"
    using assms(3) by (simp add: capacity_def)
  have len: "length (sq_queue s) = length l - max p (length l - capacity s)"
    by (simp add: assms(1))
  consider "sq_policy s = LatestOnly" | "sq_policy s = DropOldest" "int (length (sq_queue s)) \<ge> sq_bufferSize s"
    | "sq_policy s = DropOldest" "int (length (sq_queue s)) < sq_bufferSize s"
    using assms(3) by (cases "sq_policy s") force+
  then show ?thesis
  proof cases
    case 1
    then have "max p (length (l @ [f]) - capacity s) = length l"
      using assms(2) by (simp add: capacity_def)
    with 1 show ?thesis
      by (simp add: offer_def)
  next
    case 2
    then have cap: "capacity s = max 1 (nat (sq_bufferSize s))"
      by (simp add: capacity_def)
    show ?thesis
    proof (cases "sq_queue s")
      case Nil
      then have "max p (length (l @ [f]) - capacity s) = length l"
        using len c assms(2) cap 2(2) by auto
      with 2 Nil show ?thesis
        by (simp add: offer_def)
    next
      case (Cons g q)
      then have "capacity s \<le> length (sq_queue s)"
        using cap 2(2) by (simp add: nat_le_iff)
      then have "max p (length (l @ [f]) - capacity s) = Suc (max p (length l - capacity s))"
        using len c assms(2) by (auto simp: max_def split: if_splits)
      moreover have "tl (sq_queue s) = drop (Suc (max p (length l - capacity s))) l"
        by (simp add: assms(1) drop_Suc drop_tl)
      ultimately show ?thesis
        using 2 Cons len by (simp add: offer_def)
    qed
  next
    case 3
    then have "max p (length (l @ [f]) - capacity s) = max p (length l - capacity s)"
      using len c assms(2) by (auto simp: capacity_def)
    with 3 assms(1,2) show ?thesis
      using c by (simp add: offer_def)
  qed
qed

lemma offer_latest:
  assumes "sq_queue s = drop p l" "p \<le> length l" "sq_policy s = DropLatest"
  shows "sq_queue (fst (offer f s)) = (if length l - p < capacity s then drop p (l @ [f]) else drop p l)"
proof -
  have "length (sq_queue s) = length l - p"
    by (simp add: assms(1))
  then have "int (length (sq_queue s)) \<ge> sq_bufferSize s \<longleftrightarrow> \<not> length l - p < capacity s"
    using assms(3) by (simp add: capacity_def nat_le_iff not_less)
  then show ?thesis
    using assms by (simp add: offer_def)
qed

lemma fold_deliver_all:
  "open_subs {} b \<Longrightarrow> set L \<subseteq> set (subs_of sid b) \<Longrightarrow>
    open_subs {} (fold (deliver sid f) L b) \<and> (\<forall>s. subs_of s (fold (deliver sid f) L b) = subs_of s b) \<and>
    sb_streams (fold (deliver sid f) L b) = sb_streams b \<and> sb_sequences (fold (deliver sid f) L b) = sb_sequences b \<and>
    length (sb_queues (fold (deliver sid f) L b)) = length (sb_queues b) \<and>
    (\<forall>i. i \<notin> set L \<longrightarrow> sub (fold (deliver sid f) L b) i = sub b i \<and>
      delivered i (fold (deliver sid f) L b) = delivered i b)"
proof (induction L arbitrary: b)
  case (Cons j L)
  have j: "j < length (sb_queues b)" "\<not> sq_closed (sub b j)" "\<not> sq_iteratorDone (sub b j)"
    using open_subsD[OF Cons.prems(1), of j sid] Cons.prems(2) by auto
  note s = deliver_subs[OF j]
  have "open_subs {} (deliver sid f j b)" "set L \<subseteq> set (subs_of sid (deliver sid f j b))"
    using open_subs_deliver[OF Cons.prems(1)] Cons.prems(2) by (auto simp: s)
  from Cons.IH[OF this] show ?case
    by (auto simp: s deliver_parts deliver_other)
qed simp

lemmas fold_deliver = fold_deliver_all[THEN conjunct1]
  fold_deliver_all[THEN conjunct2, THEN conjunct1, rule_format]
  fold_deliver_all[THEN conjunct2, THEN conjunct2, THEN conjunct1]
  fold_deliver_all[THEN conjunct2, THEN conjunct2, THEN conjunct2, THEN conjunct1]
  fold_deliver_all[THEN conjunct2, THEN conjunct2, THEN conjunct2, THEN conjunct2, THEN conjunct1]
  fold_deliver_all[THEN conjunct2, THEN conjunct2, THEN conjunct2, THEN conjunct2, THEN conjunct2, rule_format]

lemma deliver_reads:
  assumes i: "i < length (sb_queues b)" "\<not> sq_closed (sub b i)" "\<not> sq_iteratorDone (sub b i)"
    and r: "sq_policy (sub b i) = pol" "capacity (sub b i) = n" "lr_pos r \<le> length (lr_log r)"
      "sq_queue (sub b i) = drop (log_cursor n r) (lr_log r)"
      "sq_notify (sub b i) \<noteq> None \<longleftrightarrow> lr_pending r" "lr_pending r \<longrightarrow> sq_queue (sub b i) = []"
      "delivered i b = lr_out r" "pol = DropLatest \<longrightarrow> length (lr_log r) - lr_pos r \<le> n"
  shows "let b' = deliver sid f i b; r' = log_publish pol n f r in
    sq_policy (sub b' i) = pol \<and> (pol = DropLatest \<longrightarrow> length (lr_log r') - lr_pos r' \<le> n) \<and> capacity (sub b' i) = n \<and> lr_pos r' \<le> length (lr_log r') \<and>
    sq_queue (sub b' i) = drop (log_cursor n r') (lr_log r') \<and>
    (sq_notify (sub b' i) \<noteq> None \<longleftrightarrow> lr_pending r') \<and> (lr_pending r' \<longrightarrow> sq_queue (sub b' i) = []) \<and>
    delivered i b' = lr_out r'"
proof -
  define s where "s = fst (offer f (sub b i))"
  define c where "c = count_drop sid (snd (offer f (sub b i))) (put_sub i s b)"
  define r1 where "r1 = r\<lparr>lr_log := lr_log r @ [f], lr_seq := Suc (lr_seq r)\<rparr>"
  have latest: "sq_queue s = (if log_takes pol n r then drop (log_cursor n r1) (lr_log r1) else drop (log_cursor n r) (lr_log r))"
    if "pol = DropLatest"
  proof -
    have "log_cursor n r = lr_pos r"
      using r(8) that by (simp add: log_cursor_def)
    moreover from this have "log_takes pol n r \<Longrightarrow> log_cursor n r1 = lr_pos r"
      using r(8) that by (simp add: log_cursor_def r1_def log_takes_def)
    ultimately show ?thesis
      unfolding s_def using offer_latest[of "sub b i" "lr_pos r" "lr_log r" f] r(1-4) that
      by (simp add: log_takes_def r1_def)
  qed
  have flags: "sq_policy s = sq_policy (sub b i)" "capacity s = capacity (sub b i)" "sq_notify s = sq_notify (sub b i)"
    by (simp_all add: s_def offer_flags capacity_def)
  have cs: "sub c i = s" "i < length (sb_queues c)" "delivered i c = delivered i b"
    using i by (simp_all add: c_def bus_simps)
  have open': "\<not> sq_closed (sub c i)" "\<not> sq_iteratorDone (sub c i)"
    using i by (simp_all add: cs s_def offer_flags)
  note no = notify_open[OF cs(2) open']
  have d: "deliver sid f i b = notify i c"
    by (simp add: deliver_split c_def s_def)
  show ?thesis
  proof (cases "log_takes pol n r")
    case False
    then have "pol = DropLatest" and p: "log_publish pol n f r = r\<lparr>lr_pending := False, lr_seq := Suc (lr_seq r)\<rparr>"
      by (auto simp: log_takes_def log_publish_def)
    with latest False r(4) have q: "sq_queue s = sq_queue (sub b i)"
      by simp
    show ?thesis
      unfolding d p Let_def using no r flags cs q by (auto simp: log_cursor_def bus_simps)
  next
    case takes: True
    have q: "sq_queue s = drop (log_cursor n r1) (lr_log r1)"
    proof (cases "pol = DropLatest")
      case False
      then have "sq_queue s = drop (max (lr_pos r) (length (lr_log r @ [f]) - capacity (sub b i))) (lr_log r @ [f])"
        unfolding s_def using r(1-4) by (intro offer_log) (simp_all add: log_cursor_def)
      then show ?thesis
        using r(2) by (simp add: r1_def log_cursor_def)
    qed (use latest takes in simp)
    have "log_cursor n r1 < length (lr_log r1)"
      using r(1,2,3) takes by (auto simp: log_cursor_def r1_def capacity_def log_takes_def split: if_splits)
    then obtain g q' where g: "sq_queue s = g # q'"
      unfolding q by (metis Cons_nth_drop_Suc)
    have fits: "length (lr_log r1) - lr_pos r1 \<le> n" if "pol = DropLatest"
      using takes that by (simp add: r1_def log_takes_def)
  show ?thesis
  proof (cases "lr_pending r")
    case False
    then have "sub (notify i c) i = s" "delivered i (notify i c) = lr_out r" "log_publish pol n f r = r1"
      using no r(5,7) cs flags takes by (auto simp: log_publish_def r1_def Let_def)
    with False show ?thesis
      using r flags q fits by (simp add: d Let_def) (simp add: r1_def)
  next
    case True
    from log_read_drop[of n r1 g q'] q g
    have l: "log_read n r1 = r1\<lparr>lr_pos := Suc (log_cursor n r1), lr_pending := False, lr_out := lr_out r1 @ [g]\<rparr>"
      "drop (log_cursor n (log_read n r1)) (lr_log r1) = q'" "lr_pos (log_read n r1) \<le> length (lr_log r1)"
      by simp_all
    have p: "log_publish pol n f r = log_read n r1"
      using True takes by (simp add: log_publish_def r1_def Let_def)
    have s': "sub (notify i c) i = s\<lparr>sq_notify := None, sq_queue := q'\<rparr>" "delivered i (notify i c) = lr_out r @ [g]"
      using True no r(5,7) cs flags g by auto
    have lg: "lr_log (log_read n r1) = lr_log r1" "lr_pending (log_read n r1) = False" "lr_out (log_read n r1) = lr_out r @ [g]"
      by (simp_all add: l(1)) (simp add: r1_def)
    have "length (lr_log (log_read n r1)) - lr_pos (log_read n r1) \<le> n" if "pol = DropLatest"
      using fits[OF that] by (simp add: l(1) log_cursor_def)
    then show ?thesis
      unfolding d p Let_def s' lg using r(1,2) flags(1,2) l(2,3) by (simp add: bus_simps)
  qed
  qed
qed

lemma publish_reads:
  assumes op: "open_subs {} b" and r: "reads_log sid i pol n b r" and p: "publish sid d opts now b = Inr (f, b')"
  shows "reads_log sid i pol n b' (log_call sid i pol n (BPublish sid d opts now) r)"
proof -
  define c where "c = record_frame f b"
  have f: "f = new_frame sid d opts now b" and b': "b' = fold (deliver sid f) (subs_of sid b) c"
    using p by (auto simp: publish_def Let_def c_def split: if_splits)
  have fsid: "sf_streamId f = sid" "sf_sequence f = next_sequence sid b"
    by (simp_all add: f new_frame_def next_sequence_def)
  have oc: "open_subs {} c"
    using op by (simp add: c_def open_subs_def bus_simps)
  have sc: "subs_of s c = subs_of s b" for s
    by (simp add: c_def bus_simps)
  have "i \<in> set (subs_of sid b)"
    using r by (simp add: reads_log_def)
  then obtain A B where AB: "subs_of sid b = A @ i # B"
    by (meson split_list)
  with open_subs_distinct[OF op, of sid] have ni: "i \<notin> set A" "i \<notin> set B"
    by auto
  define c1 where "c1 = fold (deliver sid f) A c"
  have A: "set A \<subseteq> set (subs_of sid c)"
    by (auto simp: sc AB)
  note fa = fold_deliver[OF oc A, where f = f, folded c1_def]
  have i1: "i < length (sb_queues c1)" "\<not> sq_closed (sub c1 i)" "\<not> sq_iteratorDone (sub c1 i)"
    using open_subsD[OF fa(1), of i sid] by (auto simp: fa(2) sc AB)
  define c2 where "c2 = deliver sid f i c1"
  have o2: "open_subs {} c2"
    unfolding c2_def by (rule open_subs_deliver[OF fa(1)])
  have s2: "subs_of s c2 = subs_of s b" for s
    by (simp add: c2_def deliver_subs[OF i1] fa(2) sc)
  have B: "set B \<subseteq> set (subs_of sid c2)"
    by (auto simp: s2 AB)
  note fb = fold_deliver[OF o2 B, where f = f]
  have b2: "b' = fold (deliver sid f) B c2"
    by (simp add: b' AB c1_def c2_def)
  have eq: "sub c1 i = sub b i" "delivered i c1 = delivered i b"
    using fa(6)[OF ni(1)] by (simp_all add: c_def bus_simps)
  have "next_sequence sid b' = Suc (next_sequence sid b)"
    using fb(4) fa(4) by (simp add: next_sequence_def b2 c2_def deliver_parts c_def bus_simps jget_set fsid)
  moreover have "lr_seq (log_publish pol n f r) = Suc (lr_seq r)"
    by (simp add: log_publish_def log_read_def Let_def)
  moreover have "\<lparr>sf_streamId = sid, sf_sequence = lr_seq r, sf_sourceAt = po_sourceAt opts,
        sf_at = now, sf_data = d, sf_metadata = po_metadata opts\<rparr> = f"
    using r by (simp add: f new_frame_def reads_log_def next_sequence_def)
  moreover have "let r' = log_publish pol n f r in
    sq_policy (sub c2 i) = pol \<and> (pol = DropLatest \<longrightarrow> length (lr_log r') - lr_pos r' \<le> n) \<and> capacity (sub c2 i) = n \<and> lr_pos r' \<le> length (lr_log r') \<and>
    sq_queue (sub c2 i) = drop (log_cursor n r') (lr_log r') \<and>
    (sq_notify (sub c2 i) \<noteq> None \<longleftrightarrow> lr_pending r') \<and> (lr_pending r' \<longrightarrow> sq_queue (sub c2 i) = []) \<and>
    delivered i c2 = lr_out r'"
    using deliver_reads[OF i1, of pol n r sid f] r unfolding c2_def eq Let_def reads_log_def by blast
  ultimately show ?thesis
    using fb(6)[OF ni(2)] r by (auto simp: reads_log_def b2 Let_def fb(2) s2)
qed

text \<open>The other calls.\<close>

lemma next_reads:
  assumes op: "open_subs {} b" and r: "reads_log sid i pol n b r"
  shows "reads_log sid i pol n (snd (next_frame i b)) (log_read n r)"
proof -
  define c where "c = b\<lparr>sb_promises := Suc (sb_promises b)\<rparr>"
  have i: "i \<in> set (subs_of sid b)"
    using r by (simp add: reads_log_def)
  note s = open_subsD[OF op i]
  have c: "sub c i = sub b i" "delivered j c = delivered j b" "subs_of x c = subs_of x b"
    "sb_sequences c = sb_sequences b" "sb_queues c = sb_queues b" for j x
    by (simp_all add: c_def delivered_def subs_of_def)
  show ?thesis
  proof (cases "sq_queue (sub b i)")
    case Nil
    then have "snd (next_frame i b) = put_sub i ((sub b i)\<lparr>sq_notify := Some (sb_promises b)\<rparr>) c"
      using s by (auto simp: next_frame_def Let_def c_def)
    moreover have "log_read n r = r\<lparr>lr_pending := True\<rparr>"
      using r Nil by (intro log_read_empty) (simp add: reads_log_def)
    ultimately show ?thesis
      using r Nil s(1) by (simp add: reads_log_def c bus_simps next_sequence_def log_cursor_def)
  next
    case (Cons f q)
    then have e: "snd (next_frame i b) = settle i (sb_promises b) (Some f) (put_sub i ((sub b i)\<lparr>sq_queue := q\<rparr>) c)"
      using s by (auto simp: next_frame_def Let_def c_def)
    have np: "\<not> lr_pending r" "sq_notify (sub b i) = None"
      using r Cons by (auto simp: reads_log_def)
    have "drop (log_cursor n r) (lr_log r) = f # q"
      using r Cons by (simp add: reads_log_def)
    note l = log_read_drop[OF this]
    have "lr_log (log_read n r) = lr_log r" "lr_out (log_read n r) = lr_out r @ [f]"
      "lr_seq (log_read n r) = lr_seq r" "\<not> lr_pending (log_read n r)"
      by (simp_all add: l(1))
    moreover have "length (lr_log r) - lr_pos (log_read n r) \<le> n"
      by (simp add: l(1) log_cursor_def)
    ultimately show ?thesis
      using r s(1) l(2,3) np unfolding e
      by (simp add: reads_log_def c bus_simps next_sequence_def)
  qed
qed

text \<open>What the reader can see of the bus; \<open>sq_ended\<close> is not part of it.\<close>

definition same_view :: "string \<Rightarrow> nat \<Rightarrow> stream_bus \<Rightarrow> stream_bus \<Rightarrow> bool" where
  "same_view sid i b b' \<longleftrightarrow>
    (i \<in> set (subs_of sid b) \<longrightarrow> i \<in> set (subs_of sid b')) \<and> next_sequence sid b' = next_sequence sid b \<and>
    delivered i b' = delivered i b \<and> sq_policy (sub b' i) = sq_policy (sub b i) \<and>
    sq_bufferSize (sub b' i) = sq_bufferSize (sub b i) \<and> sq_queue (sub b' i) = sq_queue (sub b i) \<and>
    sq_notify (sub b' i) = sq_notify (sub b i)"

lemma same_view_reads: "same_view sid i b b' \<Longrightarrow> reads_log sid i pol n b r \<Longrightarrow> reads_log sid i pol n b' r"
  using capacity_cong[of "sub b' i" "sub b i"] by (auto simp: same_view_def reads_log_def)

lemma same_view_refl [simp]: "same_view sid i b b"
  by (simp add: same_view_def)

lemma same_view_trans: "same_view sid i b c \<Longrightarrow> same_view sid i c d \<Longrightarrow> same_view sid i b d"
  by (simp add: same_view_def)

lemma same_view_put_other: "j \<noteq> i \<Longrightarrow> same_view sid i b (put_sub j s b)"
  by (simp add: same_view_def bus_simps next_sequence_def)

lemma same_view_settle_other: "j \<noteq> i \<Longrightarrow> same_view sid i b (settle j w x b)"
  by (simp add: same_view_def bus_simps next_sequence_def)

lemma same_view_finish_other: "j \<noteq> i \<Longrightarrow> same_view sid i b (finish j b)"
  by (auto simp: same_view_def finish_other bus_simps next_sequence_def) (auto simp: finish_def Let_def bus_simps)

lemma same_view_notify_other: "j \<noteq> i \<Longrightarrow> same_view sid i b (notify j b)"
  by (auto simp: notify_def Let_def split: option.split list.split
      intro!: same_view_put_other same_view_trans[OF _ same_view_settle_other]
        same_view_trans[OF _ same_view_finish_other])

lemma same_view_promises: "same_view sid i b (b\<lparr>sb_promises := k\<rparr>)"
  by (simp add: same_view_def subs_of_def next_sequence_def delivered_def)

lemma same_view_next_other: "j \<noteq> i \<Longrightarrow> same_view sid i b (snd (next_frame j b))"
  by (auto simp: next_frame_def Let_def split: list.split
      intro!: same_view_promises same_view_trans[OF _ same_view_put_other]
        same_view_trans[OF _ same_view_settle_other] same_view_trans[OF _ same_view_finish_other])

lemma same_view_close_other: "j \<noteq> i \<Longrightarrow> same_view sid i b (close_handle j b)"
  unfolding close_handle_def
  by (intro same_view_trans[OF _ same_view_finish_other] same_view_trans[OF _ same_view_notify_other] same_view_put_other)

lemma same_view_resolve: "same_view sid i b (fold resolve_ended L b)"
proof (induction L arbitrary: b)
  case (Cons j L)
  have "same_view sid i b (resolve_ended j b)"
    by (cases "j = i"; cases "i < length (sb_queues b)")
      (simp_all add: same_view_def resolve_ended_def bus_simps next_sequence_def list_update_beyond)
  with Cons.IH show ?case
    by (simp add: same_view_trans)
qed simp

lemma same_view_close_subs: "i \<notin> set L \<Longrightarrow> same_view sid i b (fold close_sub L b)"
proof (induction L arbitrary: b)
  case (Cons j L)
  have "same_view sid i b (close_sub j b)"
    unfolding close_sub_def using Cons.prems
    by (intro same_view_trans[OF _ same_view_notify_other] same_view_put_other) auto
  with Cons show ?case
    by (auto intro: same_view_trans)
qed simp

lemma same_view_closeStream:
  assumes "open_subs {} b" "i \<in> set (subs_of sid b)" "s \<noteq> sid"
  shows "same_view sid i b (closeStream s b)"
proof -
  define b1 where "b1 = fold resolve_ended (case jget (sb_endSignals b) s of None \<Rightarrow> [] | Some l \<Rightarrow> l) b"
  define b2 where "b2 = b1\<lparr>sb_endSignals := jdelete s (sb_endSignals b1)\<rparr>"
  define b3 where "b3 = fold close_sub (subs_of s b2) b2"
  have c: "closeStream s b = b3\<lparr>sb_subscribers := (case jget (sb_subscribers b3) s of None \<Rightarrow> sb_subscribers b3
        | Some _ \<Rightarrow> jset s [] (sb_subscribers b3))\<rparr>"
    unfolding closeStream_def b1_def b2_def b3_def Let_def by (rule refl)
  have subs1: "subs_of x (fold resolve_ended L b0) = subs_of x b0" for x L b0
    by (induction L arbitrary: b0) (simp_all add: resolve_ended_def bus_simps)
  have "i \<notin> set (subs_of s b2)"
    using open_subsD(2)[OF assms(1,2)] open_subsD(2)[OF assms(1), of i s] assms(3) subs1
    by (auto simp: b2_def b1_def subs_of_def)
  then have "same_view sid i b2 b3"
    unfolding b3_def by (rule same_view_close_subs)
  moreover have "same_view sid i b b1"
    unfolding b1_def by (rule same_view_resolve)
  moreover have "same_view sid i b1 b2"
    by (simp add: b2_def same_view_def subs_of_def next_sequence_def delivered_def)
  moreover have "same_view sid i b3 (closeStream s b)"
    using assms(3) unfolding c by (auto simp: same_view_def subs_of_def next_sequence_def delivered_def jget_set split: option.split)
  ultimately show ?thesis
    by (meson same_view_trans)
qed

lemma call_reads:
  assumes "open_subs {} b" "reads_log sid i pol n b r" "bus_apply c b = Some b'" "c \<noteq> BClose i" "c \<noteq> BCloseStream sid"
  shows "reads_log sid i pol n b' (log_call sid i pol n c r)"
proof -
  have i: "i \<in> set (subs_of sid b)" "i < length (sb_queues b)"
    using assms(2) open_subsD(1)[OF assms(1), of i sid] by (auto simp: reads_log_def)
  show ?thesis
  proof (cases c)
    case (BRegister d)
    with assms(3) have "same_view sid i b b'"
      by (auto simp: register_stream_def same_view_def subs_of_def next_sequence_def delivered_def split: if_splits)
    from same_view_reads[OF this assms(2)] show ?thesis
      by (simp add: BRegister)
  next
    case (BPublish s d opts now)
    with assms(3) obtain f where p: "publish s d opts now b = Inr (f, b')"
      by (auto split: sum.splits)
    show ?thesis
    proof (cases "s = sid")
      case True
      with p publish_reads[OF assms(1,2)] show ?thesis
        by (simp add: BPublish)
    next
      case False
      have b': "f = new_frame s d opts now b" "b' = fold (deliver s f) (subs_of s b) (record_frame f b)"
        using p by (auto simp: publish_def Let_def split: if_splits)
      have o': "open_subs {} (record_frame f b)" "set (subs_of s b) \<subseteq> set (subs_of s (record_frame f b))"
        using assms(1) by (simp_all add: open_subs_def bus_simps)
      have "i \<notin> set (subs_of s b)"
        using open_subsD(2)[OF assms(1) i(1)] open_subsD(2)[OF assms(1), of i s] False by auto
      from fold_deliver(6)[OF o' this, where f = f] fold_deliver(2,4)[OF o', where f = f] False
      have "same_view sid i b b'"
        by (simp add: same_view_def b'(2) bus_simps next_sequence_def jget_set) (simp add: b'(1) new_frame_def)
      from same_view_reads[OF this assms(2)] False show ?thesis
        by (simp add: BPublish)
    qed
  next
    case (BSubscribe s opts)
    with assms(3) i have "same_view sid i b b'"
      by (auto simp: subscribe_def Let_def same_view_def subs_of_def next_sequence_def delivered_def jget_set nth_append
          split: if_splits sum.splits)
    from same_view_reads[OF this assms(2)] show ?thesis
      by (simp add: BSubscribe)
  next
    case (BNext j)
    with assms(3) have b': "b' = snd (next_frame j b)"
      by (auto split: if_splits)
    show ?thesis
      using next_reads[OF assms(1,2)] same_view_reads[OF same_view_next_other assms(2), of j]
      by (cases "j = i") (simp_all add: BNext b')
  next
    case (BClose j)
    with assms(3,4) show ?thesis
      using same_view_reads[OF same_view_close_other assms(2), of j] by (auto split: if_splits)
  next
    case (BCloseStream s)
    with assms(3,5) show ?thesis
      using same_view_reads[OF same_view_closeStream[OF assms(1) i(1)] assms(2), of s] by auto
  qed
qed

subsection \<open>Properties\<close>

fun bus_run :: "bus_call list \<Rightarrow> stream_bus \<Rightarrow> stream_bus option" where
  "bus_run [] b = Some b"
| "bus_run (c # cs) b = (case bus_apply c b of None \<Rightarrow> None | Some b' \<Rightarrow> bus_run cs b')"

lemma bus_run_reachable: "bus_run cs b = Some b' \<Longrightarrow> bus_reachable b \<Longrightarrow> bus_reachable b'"
  by (induction cs arbitrary: b) (auto split: option.splits intro: bus_reachable.call)

lemma run_reads:
  "bus_reachable b \<Longrightarrow> reads_log sid i pol n b r \<Longrightarrow> bus_run cs b = Some b' \<Longrightarrow>
    BClose i \<notin> set cs \<Longrightarrow> BCloseStream sid \<notin> set cs \<Longrightarrow> reads_log sid i pol n b' (fold (log_call sid i pol n) cs r)"
proof (induction cs arbitrary: b r)
  case (Cons c cs)
  then obtain b1 where b1: "bus_apply c b = Some b1" "bus_run cs b1 = Some b'"
    by (auto split: option.splits)
  have "reads_log sid i pol n b1 (log_call sid i pol n c r)"
    using Cons.prems b1(1) by (intro call_reads[OF reachable_open]) auto
  from Cons.IH[OF bus_reachable.call[OF Cons.prems(1) b1(1)] this b1(2)] Cons.prems show ?case
    by simp
qed simp

definition new_reader :: "nat \<Rightarrow> log_reader" where
  "new_reader k = \<lparr>lr_log = [], lr_pos = 0, lr_pending = False, lr_out = [], lr_seq = k\<rparr>"

definition settled_for :: "nat \<Rightarrow> stream_bus \<Rightarrow> bool" where
  "settled_for k b \<longleftrightarrow> (\<forall>(j, w, x)\<in>set (sb_settled b). j < k)"

lemma settled_mono: "settled_for k b \<Longrightarrow> k \<le> l \<Longrightarrow> settled_for l b"
  by (auto simp: settled_for_def)

lemma settled_put [simp]: "settled_for k (put_sub i s b) = settled_for k b"
  by (simp add: settled_for_def put_sub_def)

lemma settled_settle [simp]: "settled_for k (settle i w x b) \<longleftrightarrow> settled_for k b \<and> i < k"
  by (auto simp: settled_for_def settle_def)

lemma settled_finish [simp]: "settled_for k (finish i b) = settled_for k b"
  by (simp add: finish_def Let_def forget_def settled_for_def put_sub_def)

lemma settled_count_drop [simp]: "settled_for k (count_drop s d b) = settled_for k b"
  by (simp add: count_drop_def settled_for_def)

lemma settled_notify: "settled_for k b \<Longrightarrow> i < k \<Longrightarrow> settled_for k (notify i b)"
  by (auto simp: notify_def Let_def split: option.split list.split)

lemma settled_next: "settled_for k b \<Longrightarrow> i < k \<Longrightarrow> settled_for k (snd (next_frame i b))"
proof -
  assume a: "settled_for k b" "i < k"
  then have "settled_for k (b\<lparr>sb_promises := Suc (sb_promises b)\<rparr>)"
    by (simp add: settled_for_def)
  with a show ?thesis
    by (auto simp: next_frame_def Let_def split: list.split)
qed

lemma settled_deliver: "settled_for k b \<Longrightarrow> i < k \<Longrightarrow> settled_for k (deliver s f i b)"
  by (simp add: deliver_split settled_notify)

lemma settled_fold:
  "(\<And>j b. settled_for k b \<Longrightarrow> j \<in> set L \<Longrightarrow> settled_for k (g j b)) \<Longrightarrow> settled_for k b \<Longrightarrow> settled_for k (fold g L b)"
  by (induction L arbitrary: b) auto

lemma settled_apply:
  assumes "open_subs {} b" "settled_for (length (sb_queues b)) b" "bus_apply c b = Some b'"
  shows "settled_for (length (sb_queues b')) b'"
proof (cases c)
  case (BRegister d)
  with assms(2,3) show ?thesis
    by (auto simp: register_stream_def settled_for_def split: if_splits)
next
  case (BPublish s d opts now)
  with assms(3) obtain f where b': "b' = fold (deliver s f) (subs_of s b) (record_frame f b)"
    by (auto simp: publish_def Let_def split: if_splits sum.splits)
  have o': "open_subs {} (record_frame f b)" "set (subs_of s b) \<subseteq> set (subs_of s (record_frame f b))"
    using assms(1) by (simp_all add: open_subs_def bus_simps)
  have "settled_for (length (sb_queues b)) (record_frame f b)"
    using assms(2) by (simp add: record_frame_def settled_for_def Let_def)
  then show ?thesis
    unfolding b' fold_deliver(5)[OF o'] record_frame_parts(1)
    using open_subsD(1)[OF assms(1), of _ s] by (intro settled_fold settled_deliver) auto
next
  case (BSubscribe s opts)
  with assms(2,3) settled_mono[OF assms(2), of "Suc (length (sb_queues b))"] show ?thesis
    by (auto simp: subscribe_def Let_def settled_for_def split: if_splits sum.splits)
next
  case (BNext j)
  have "length (sb_queues (snd (next_frame j b))) = length (sb_queues b)"
    by (auto simp: next_frame_def Let_def bus_simps split: list.split)
  with BNext assms(2,3) show ?thesis
    by (auto intro: settled_next split: if_splits)
next
  case (BClose j)
  with assms(2,3) show ?thesis
    by (auto simp: close_handle_def bus_simps intro!: settled_notify split: if_splits)
next
  case (BCloseStream s)
  define b1 where "b1 = fold resolve_ended (case jget (sb_endSignals b) s of None \<Rightarrow> [] | Some l \<Rightarrow> l) b"
  define b2 where "b2 = b1\<lparr>sb_endSignals := jdelete s (sb_endSignals b1)\<rparr>"
  have b': "sb_queues b' = sb_queues (fold close_sub (subs_of s b2) b2)" "sb_settled b' = sb_settled (fold close_sub (subs_of s b2) b2)"
    using BCloseStream assms(3) by (auto simp: closeStream_def Let_def b1_def b2_def)
  have L: "length (sb_queues (fold close_sub L b0)) = length (sb_queues b0)"
    "length (sb_queues (fold resolve_ended L b0)) = length (sb_queues b0)"
    "settled_for k (fold resolve_ended L b0) = settled_for k b0"
    "subs_of x (fold resolve_ended L b0) = subs_of x b0" for L b0 k x
    by (induction L arbitrary: b0) (simp_all add: close_sub_parts resolve_ended_def bus_simps)
  have len: "length (sb_queues b2) = length (sb_queues b)" "subs_of s b2 = subs_of s b" "settled_for k b2 = settled_for k b" for k
    using L(3)[of k] L(4)[of s] by (simp_all add: b2_def b1_def L subs_of_def settled_for_def)
  have "settled_for (length (sb_queues b)) (fold close_sub (subs_of s b2) b2)"
    using assms(2) open_subsD(1)[OF assms(1), of _ s]
    by (intro settled_fold) (auto simp: len close_sub_def intro!: settled_notify)
  then show ?thesis
    by (simp add: b' settled_for_def L len)
qed

lemma reachable_settled: "bus_reachable b \<Longrightarrow> settled_for (length (sb_queues b)) b"
proof (induction rule: bus_reachable.induct)
  case start
  show ?case
    by (simp add: settled_for_def empty_bus_def)
qed (rule settled_apply[OF reachable_open])

lemma subscribe_reads:
  assumes "bus_reachable b" "subscribe sid opts b = Inr (i, b0)"
  shows "reads_log sid i (sq_policy (sub b0 i)) (capacity (sub b0 i)) b0 (new_reader (next_sequence sid b))"
proof -
  have "delivered (length (sb_queues b)) b = []"
    using reachable_settled[OF assms(1)] by (auto simp: settled_for_def delivered_def)
  moreover have b0: "i = length (sb_queues b)" "subs_of sid b0 = subs_of sid b @ [i]" "sb_sequences b0 = sb_sequences b"
    "sb_settled b0 = sb_settled b" "sq_queue (sub b0 i) = []" "sq_notify (sub b0 i) = None"
    "sq_policy (sub b0 i) = (case so_policy opts of None \<Rightarrow> DropOldest | Some p \<Rightarrow> p)"
    using assms(2) by (auto simp: subscribe_def Let_def subs_of_def jget_set split: if_splits)
  moreover have "delivered i b0 = delivered i b" "next_sequence sid b0 = next_sequence sid b"
    by (simp_all add: delivered_def next_sequence_def b0(3,4))
  ultimately show ?thesis
    by (simp add: reads_log_def new_reader_def log_cursor_def)
qed

text \<open>C10: A subscription refines a log with a cursor, under each of the three policies. From \<open>subscribe\<close> on, whatever
  calls follow on the bus (of other subscribers and other streams too) until the handle or its stream is closed, the
  frames the consumer has been given are exactly those that a reader of a log gets. With the default policy and with
  latest-only the log is that of all published frames, and the reader keeps its place but is moved forward to the oldest
  of the last \<open>n\<close>; with drop-latest the reader is never moved, and a frame enters the log only while fewer than \<open>n\<close> are
  unread. The queue is exactly the part of the log yet to be read. \<open>n\<close> is the buffer size: 1 for latest-only, at least 1
  for the default policy, and 0 for drop-latest with a buffer below 1, which never hands out a frame.\<close>

theorem subscription_refines_log:
  assumes "bus_reachable b" and "subscribe sid opts b = Inr (i, b0)"
    and "bus_run cs b0 = Some b'" and "BClose i \<notin> set cs" and "BCloseStream sid \<notin> set cs"
  shows "let pol = (case so_policy opts of None \<Rightarrow> DropOldest | Some p \<Rightarrow> p); n = capacity (sub b0 i);
      r = fold (log_call sid i pol n) cs (new_reader (next_sequence sid b))
    in delivered i b' = lr_out r \<and> sq_queue (sub b' i) = drop (log_cursor n r) (lr_log r)"
proof -
  have "bus_apply (BSubscribe sid opts) b = Some b0"
    using assms(2) by simp
  from bus_reachable.call[OF assms(1) this] have "bus_reachable b0" .
  moreover have "sq_policy (sub b0 i) = (case so_policy opts of None \<Rightarrow> DropOldest | Some p \<Rightarrow> p)"
    using assms(2) by (auto simp: subscribe_def Let_def split: if_splits)
  ultimately show ?thesis
    using run_reads[OF _ subscribe_reads[OF assms(1,2)] assms(3-5)] by (simp add: reads_log_def Let_def)
qed

definition imu :: stream_descriptor where
  "imu = \<lparr>sd_id = ''imu'', sd_deviceId = ''d'', sd_name = ''imu'', sd_codec = None, sd_nominalRateHz = None,
    sd_layout = None, sd_metadata = None\<rparr>"

definition imu_bus :: stream_bus where
  "imu_bus = the (bus_apply (BRegister imu) empty_bus)"

definition imu_opts :: subscribe_options where
  "imu_opts = \<lparr>so_bufferSize = Some 1, so_policy = None\<rparr>"

definition imu_sub :: stream_bus where
  "imu_sub = snd (projr (subscribe ''imu'' imu_opts imu_bus))"

definition imu_pub :: "real \<Rightarrow> bus_call" where
  "imu_pub x = BPublish ''imu'' (Scalar (Fin x)) \<lparr>po_sourceAt = None, po_metadata = None\<rparr> 0"

lemma imu_reachable: "bus_reachable imu_bus"
proof -
  have "bus_apply (BRegister imu) empty_bus = Some imu_bus"
    by (simp add: imu_bus_def register_stream_def empty_bus_def)
  from bus_reachable.call[OF bus_reachable.start this] show ?thesis .
qed

lemma imu_subscribed: "subscribe ''imu'' imu_opts imu_bus = Inr (0, imu_sub)"
  by (simp add: imu_sub_def subscribe_def imu_bus_def register_stream_def empty_bus_def imu_def Let_def)

lemma publish_total:
  assumes "bus_reachable b" "jhas (sb_streams b) s"
  shows "\<exists>b'. bus_apply (BPublish s d opts now) b = Some b' \<and> jhas (sb_streams b') s \<and>
    length (sb_queues b') = length (sb_queues b)"
proof -
  let ?f = "new_frame s d opts now b"
  have o': "open_subs {} (record_frame ?f b)" "set (subs_of s b) \<subseteq> set (subs_of s (record_frame ?f b))"
    using reachable_open[OF assms(1)] by (simp_all add: open_subs_def bus_simps)
  show ?thesis
    using assms(2) fold_deliver(3,5)[OF o'] by (simp add: publish_def Let_def bus_simps)
qed

definition imu_frame :: "nat \<Rightarrow> real \<Rightarrow> stream_frame" where
  "imu_frame k x = \<lparr>sf_streamId = ''imu'', sf_sequence = k, sf_sourceAt = None, sf_at = 0,
    sf_data = Scalar (Fin x), sf_metadata = None\<rparr>"

lemma imu_step:
  "log_call ''imu'' 0 DropOldest n (imu_pub x) \<lparr>lr_log = l, lr_pos = p, lr_pending = False, lr_out = out, lr_seq = k\<rparr> =
    \<lparr>lr_log = l @ [imu_frame k x], lr_pos = p, lr_pending = False, lr_out = out, lr_seq = Suc k\<rparr>"
  by (simp add: imu_pub_def imu_frame_def log_publish_def log_takes_def)

lemma imu_read:
  "log_read 1 \<lparr>lr_log = [f, g], lr_pos = 0, lr_pending = False, lr_out = [], lr_seq = k\<rparr> =
    \<lparr>lr_log = [f, g], lr_pos = 2, lr_pending = False, lr_out = [g], lr_seq = k\<rparr>"
  by (simp add: log_read_def log_cursor_def)

lemma imu_log:
  "lr_out (fold (log_call ''imu'' 0 DropOldest 1) [imu_pub 1, imu_pub 2, BNext 0] (new_reader 0)) = [imu_frame 1 2]"
  by (simp add: new_reader_def imu_step del: One_nat_def) (simp add: imu_read[simplified])

text \<open>Two frames into a queue of one, then a read: the reader gets the second frame.\<close>

theorem subscription_refines_log_witness:
  "\<exists>b'. bus_run [imu_pub 1, imu_pub 2, BNext 0] imu_sub = Some b' \<and>
    map sf_sequence (delivered 0 b') = [1]"
proof -
  have "bus_apply (BSubscribe ''imu'' imu_opts) imu_bus = Some imu_sub"
    using imu_subscribed by simp
  from bus_reachable.call[OF imu_reachable this] have r0: "bus_reachable imu_sub" .
  have s0: "jhas (sb_streams imu_sub) ''imu''" "0 < length (sb_queues imu_sub)"
    by (simp_all add: imu_sub_def subscribe_def imu_bus_def register_stream_def empty_bus_def imu_def Let_def)
  obtain b1 where b1: "bus_apply (imu_pub 1) imu_sub = Some b1" "jhas (sb_streams b1) ''imu''" "0 < length (sb_queues b1)"
    using publish_total[OF r0 s0(1)] s0(2) unfolding imu_pub_def by metis
  obtain b2 where b2: "bus_apply (imu_pub 2) b1 = Some b2" "0 < length (sb_queues b2)"
    using publish_total[OF bus_reachable.call[OF r0 b1(1)] b1(2)] b1(3) unfolding imu_pub_def by metis
  obtain b' where b': "bus_run [imu_pub 1, imu_pub 2, BNext 0] imu_sub = Some b'"
    using b1(1) b2 by simp
  have c: "capacity (sub imu_sub 0) = 1"
    by (simp add: imu_sub_def subscribe_def imu_bus_def register_stream_def empty_bus_def imu_def imu_opts_def Let_def
        capacity_def)
  have n: "next_sequence ''imu'' imu_bus = 0"
    by (simp add: imu_bus_def register_stream_def empty_bus_def next_sequence_def)
  have "let n = capacity (sub imu_sub 0);
      r = fold (log_call ''imu'' 0 DropOldest n) [imu_pub 1, imu_pub 2, BNext 0] (new_reader (next_sequence ''imu'' imu_bus))
    in delivered 0 b' = lr_out r \<and> sq_queue (sub b' 0) = drop (log_cursor n r) (lr_log r)"
    using subscription_refines_log[OF imu_reachable imu_subscribed b'] by (simp add: imu_opts_def imu_pub_def)
  from this[unfolded Let_def c n]
  have d: "delivered 0 b' = lr_out (fold (log_call ''imu'' 0 DropOldest 1) [imu_pub 1, imu_pub 2, BNext 0] (new_reader 0))"
    by (rule conjunct1)
  have "map sf_sequence (delivered 0 b') = [1]"
    unfolding d imu_log by (simp add: imu_frame_def)
  then show ?thesis
    by (intro exI[of _ b'] conjI b')
qed

end
