(* ===== verification/Stream_Order.thy ===== *)
theory Stream_Order
  imports Stream_Bus
begin

text \<open>
  What a consumer of the broker of \<open>Stream_Bus\<close> can rely on in every reachable state: frames come
  in order and none twice, queues are bounded; and what it cannot: a second pending read loses the
  first one.
\<close>

subsection \<open>Order and bound\<close>

definition seen :: "nat \<Rightarrow> stream_bus \<Rightarrow> stream_frame list" where
  "seen i b = delivered i b @ sq_queue (sub b i)"

text \<open>
  \<open>in_order b\<close>: what each subscriber has received, followed by what waits in its queue, is a list of
  frames of its stream with strictly increasing sequence numbers, and the queue is bounded.
\<close>

definition in_order :: "stream_bus \<Rightarrow> bool" where
  "in_order b \<longleftrightarrow> (\<forall>i<length (sb_queues b).
    length (sq_queue (sub b i)) \<le> capacity (sub b i) \<and> sorted_wrt (<) (map sf_sequence (seen i b)) \<and>
    (\<forall>f\<in>set (seen i b). sf_streamId f = sq_stream (sub b i) \<and> sf_sequence f < next_sequence (sq_stream (sub b i)) b))"

definition keeps_seen :: "stream_bus \<Rightarrow> stream_bus \<Rightarrow> bool" where
  "keeps_seen b b' \<longleftrightarrow> length (sb_queues b') = length (sb_queues b) \<and>
    (\<forall>s. next_sequence s b \<le> next_sequence s b') \<and>
    (\<forall>i<length (sb_queues b). seen i b' = seen i b \<and> length (sq_queue (sub b' i)) \<le> length (sq_queue (sub b i)) \<and>
      capacity (sub b' i) = capacity (sub b i) \<and> sq_stream (sub b' i) = sq_stream (sub b i))"

lemma keeps_seen_in_order: "keeps_seen b b' \<Longrightarrow> in_order b \<Longrightarrow> in_order b'"
  unfolding keeps_seen_def in_order_def by (metis (no_types, lifting) le_trans order.strict_trans2)

lemma keeps_seen_refl [simp]: "keeps_seen b b"
  by (simp add: keeps_seen_def)

lemma keeps_seen_trans: "keeps_seen b c \<Longrightarrow> keeps_seen c d \<Longrightarrow> keeps_seen b d"
  unfolding keeps_seen_def by (metis (no_types, lifting) le_trans)

lemma keeps_seen_put:
  assumes "sq_queue s = sq_queue (sub b i)" "sq_stream s = sq_stream (sub b i)" "sq_policy s = sq_policy (sub b i)"
    "sq_bufferSize s = sq_bufferSize (sub b i)"
  shows "keeps_seen b (put_sub i s b)"
  using assms capacity_cong[OF assms(3,4)]
  by (auto simp: keeps_seen_def seen_def bus_simps next_sequence_def nth_update_if)

lemma keeps_seen_settle_None: "keeps_seen b (settle i w None b)"
  by (simp add: keeps_seen_def seen_def bus_simps next_sequence_def)

lemma keeps_seen_take:
  assumes "sq_queue (sub b i) = f # q" "sq_queue s = q" "sq_stream s = sq_stream (sub b i)" "sq_policy s = sq_policy (sub b i)"
    "sq_bufferSize s = sq_bufferSize (sub b i)" "i < length (sb_queues b)"
  shows "keeps_seen b (settle i w (Some f) (put_sub i s b))"
  using assms capacity_cong[OF assms(4,5)]
  by (auto simp: keeps_seen_def seen_def bus_simps next_sequence_def nth_update_if)

lemma keeps_seen_finish: "keeps_seen b (finish i b)"
proof -
  have f: "keeps_seen c (forget i s c)" for c s
    by (simp add: keeps_seen_def seen_def bus_simps next_sequence_def)
  show ?thesis
    by (auto simp: finish_def Let_def intro: keeps_seen_trans[OF keeps_seen_put f])
qed

lemma keeps_seen_notify: "i < length (sb_queues b) \<Longrightarrow> keeps_seen b (notify i b)"
  by (auto simp: notify_def Let_def split: option.split list.split
      intro: keeps_seen_take keeps_seen_put keeps_seen_trans[OF keeps_seen_put keeps_seen_settle_None]
        keeps_seen_trans[OF keeps_seen_trans[OF keeps_seen_put keeps_seen_finish] keeps_seen_settle_None])

lemma keeps_seen_next: "i < length (sb_queues b) \<Longrightarrow> keeps_seen b (snd (next_frame i b))"
proof -
  assume i: "i < length (sb_queues b)"
  let ?c = "b\<lparr>sb_promises := Suc (sb_promises b)\<rparr>"
  have c: "keeps_seen b ?c"
    by (simp add: keeps_seen_def seen_def delivered_def next_sequence_def)
  have "keeps_seen ?c (snd (next_frame i b))"
    using i by (auto simp: next_frame_def Let_def keeps_seen_settle_None split: list.split
      intro: keeps_seen_take keeps_seen_put keeps_seen_trans[OF keeps_seen_finish keeps_seen_settle_None])
  with c show ?thesis
    by (rule keeps_seen_trans)
qed

lemma keeps_seen_close: "i < length (sb_queues b) \<Longrightarrow> keeps_seen b (close_handle i b)"
  unfolding close_handle_def
  by (intro keeps_seen_trans[OF _ keeps_seen_finish] keeps_seen_trans[OF _ keeps_seen_notify] keeps_seen_put)
    (simp_all add: bus_simps)

lemma offer_queue:
  "\<exists>xs. sq_queue (fst (offer f s)) = xs \<and> (xs = [f] \<or> xs = sq_queue s \<or> xs = sq_queue s @ [f] \<or> xs = tl (sq_queue s) @ [f])"
  by (auto simp: offer_def)

lemma offer_bound: "length (sq_queue s) \<le> capacity s \<Longrightarrow> length (sq_queue (fst (offer f s))) \<le> capacity s"
  by (cases "sq_queue s") (auto simp: offer_def capacity_def split: if_splits)

lemma offer_subseq:
  assumes "sorted_wrt (<) (map sf_sequence (d @ sq_queue s))" "\<forall>g\<in>set (d @ sq_queue s). sf_sequence g < sf_sequence f"
  shows "sorted_wrt (<) (map sf_sequence (d @ sq_queue (fst (offer f s))))"
    and "set (d @ sq_queue (fst (offer f s))) \<subseteq> insert f (set (d @ sq_queue s))"
proof -
  have tl: "sorted_wrt (<) (map sf_sequence (d @ tl (sq_queue s)))" "set (tl (sq_queue s)) \<subseteq> set (sq_queue s)"
    using assms(1) by (cases "sq_queue s"; auto simp: sorted_wrt_append)+
  have tlf: "\<forall>g\<in>set (tl (sq_queue s)). sf_sequence g < sf_sequence f"
    using assms(2) tl(2) by auto
  show "sorted_wrt (<) (map sf_sequence (d @ sq_queue (fst (offer f s))))"
    using offer_queue[of f s] assms tl tlf by (auto simp: sorted_wrt_append)
  show "set (d @ sq_queue (fst (offer f s))) \<subseteq> insert f (set (d @ sq_queue s))"
    using offer_queue[of f s] tl by auto
qed

lemma deliver_in_order:
  assumes b: "in_order b" and i: "i < length (sb_queues b)"
    and f: "sf_streamId f = sq_stream (sub b i)" "sf_sequence f < next_sequence (sq_stream (sub b i)) b"
      "\<forall>g\<in>set (seen i b). sf_sequence g < sf_sequence f"
  shows "in_order (deliver sid f i b)"
proof -
  define s where "s = fst (offer f (sub b i))"
  define c where "c = count_drop sid (snd (offer f (sub b i))) (put_sub i s b)"
  have c: "length (sb_queues c) = length (sb_queues b)" "next_sequence x c = next_sequence x b"
    "delivered j c = delivered j b" "j < length (sb_queues b) \<Longrightarrow> sub c j = (if i = j then s else sub b j)" for x j
    by (simp_all add: c_def bus_simps next_sequence_def nth_update_if)
  have bi: "length (sq_queue (sub b i)) \<le> capacity (sub b i)" "sorted_wrt (<) (map sf_sequence (seen i b))"
    "\<forall>g\<in>set (seen i b). sf_streamId g = sq_stream (sub b i) \<and> sf_sequence g < next_sequence (sq_stream (sub b i)) b"
    using b i by (auto simp: in_order_def)
  have s: "capacity s = capacity (sub b i)" "sq_stream s = sq_stream (sub b i)" "length (sq_queue s) \<le> capacity (sub b i)"
    using offer_bound[OF bi(1)] by (simp_all add: s_def offer_flags capacity_def)
  have "sorted_wrt (<) (map sf_sequence (delivered i b @ sq_queue s))"
    "set (delivered i b @ sq_queue s) \<subseteq> insert f (set (seen i b))"
    unfolding s_def seen_def using bi(2) f(3) by (intro offer_subseq; simp add: seen_def)+
  then have "in_order c"
    using b f bi(3) s by (auto simp: in_order_def c seen_def)
  then have "in_order (notify i c)"
    using keeps_seen_in_order[OF keeps_seen_notify] i c(1) by simp
  then show ?thesis
    by (simp add: deliver_split c_def s_def)
qed

lemma seen_deliver_other: "j \<noteq> i \<Longrightarrow> seen j (deliver sid f i b) = seen j b"
  by (simp add: seen_def deliver_other)

lemma fold_deliver_in_order:
  "in_order b \<Longrightarrow> distinct L \<Longrightarrow> sf_sequence f < next_sequence sid b \<Longrightarrow> sf_streamId f = sid \<Longrightarrow>
    (\<And>i. i \<in> set L \<Longrightarrow> i < length (sb_queues b) \<and> sq_stream (sub b i) = sid \<and> (\<forall>g\<in>set (seen i b). sf_sequence g < sf_sequence f)) \<Longrightarrow>
    in_order (fold (deliver sid f) L b)"
proof (induction L arbitrary: b)
  case (Cons i L)
  have "in_order (deliver sid f i b)"
    using Cons.prems(1,3,4) Cons.prems(5)[of i] by (intro deliver_in_order) auto
  moreover have "next_sequence sid (deliver sid f i b) = next_sequence sid b"
    by (simp add: next_sequence_def deliver_parts)
  moreover have "j < length (sb_queues (deliver sid f i b)) \<and> sq_stream (sub (deliver sid f i b) j) = sid \<and>
      (\<forall>g\<in>set (seen j (deliver sid f i b)). sf_sequence g < sf_sequence f)" if "j \<in> set L" for j
  proof -
    have ne: "j \<noteq> i"
      using that Cons.prems(2) by auto
    show ?thesis
      using that Cons.prems(5)[of j] deliver_other[OF ne, of sid f b] seen_deliver_other[OF ne, of sid f b]
      by (simp add: deliver_parts)
  qed
  ultimately show ?case
    using Cons.prems(2-4) Cons.IH[of "deliver sid f i b"] by simp
qed simp

lemma publish_in_order:
  assumes "open_subs {} b" "in_order b" "publish sid d opts now b = Inr (f, b')"
  shows "in_order b'"
proof -
  have f: "f = new_frame sid d opts now b" and b': "b' = fold (deliver sid f) (subs_of sid b) (record_frame f b)"
    using assms(3) by (auto simp: publish_def Let_def split: if_splits)
  have fs: "sf_streamId f = sid" "sf_sequence f = next_sequence sid b"
    by (simp_all add: f new_frame_def next_sequence_def)
  have r: "next_sequence x (record_frame f b) = (if x = sid then Suc (next_sequence sid b) else next_sequence x b)"
    "seen i (record_frame f b) = seen i b" for x i
    by (simp_all add: next_sequence_def seen_def bus_simps jget_set fs(1)) (simp add: fs next_sequence_def)
  have "keeps_seen b (record_frame f b)"
    by (simp add: keeps_seen_def r) (simp add: bus_simps)
  then have "in_order (record_frame f b)"
    by (rule keeps_seen_in_order[OF _ assms(2)])
  then show ?thesis
    unfolding b'
  proof (rule fold_deliver_in_order)
    fix i
    assume i: "i \<in> set (subs_of sid b)"
    show "i < length (sb_queues (record_frame f b)) \<and> sq_stream (sub (record_frame f b) i) = sid \<and>
        (\<forall>g\<in>set (seen i (record_frame f b)). sf_sequence g < sf_sequence f)"
      using open_subsD(1,2)[OF assms(1) i] assms(2) by (auto simp: r fs in_order_def bus_simps)
  qed (simp_all add: fs r open_subs_distinct[OF assms(1)])
qed

lemma keeps_seen_fold:
  "(\<And>i b. i < n \<Longrightarrow> length (sb_queues b) = n \<Longrightarrow> keeps_seen b (g i b)) \<Longrightarrow> \<forall>i\<in>set L. i < n \<Longrightarrow>
    length (sb_queues b) = n \<Longrightarrow> keeps_seen b (fold g L b)"
proof (induction L arbitrary: b)
  case (Cons i L)
  have "keeps_seen b (g i b)"
    using Cons.prems by simp
  moreover from this have "length (sb_queues (g i b)) = n"
    using Cons.prems(3) by (simp add: keeps_seen_def)
  ultimately show ?case
    using Cons.IH[OF Cons.prems(1), of "g i b"] Cons.prems(2) by (auto intro: keeps_seen_trans)
qed simp

lemma closeStream_in_order:
  assumes "open_subs {} b" "in_order b"
  shows "in_order (closeStream s b)"
proof -
  define L where "L = (case jget (sb_endSignals b) s of None \<Rightarrow> [] | Some l \<Rightarrow> l)"
  define b1 where "b1 = fold resolve_ended L b"
  define b2 where "b2 = b1\<lparr>sb_endSignals := jdelete s (sb_endSignals b1)\<rparr>"
  define b3 where "b3 = fold close_sub (subs_of s b2) b2"
  have r: "keeps_seen b (fold resolve_ended L b) \<and> subs_of s (fold resolve_ended L b) = subs_of s b" for L and b :: stream_bus
  proof (induction L arbitrary: b)
    case (Cons i L)
    have "keeps_seen b (resolve_ended i b)" "subs_of s (resolve_ended i b) = subs_of s b"
      unfolding resolve_ended_def by (intro keeps_seen_put) (simp_all add: bus_simps)
    with Cons show ?case
      by (auto intro: keeps_seen_trans)
  qed simp
  have b2: "keeps_seen b b2" "subs_of s b2 = subs_of s b"
    using r[of b L] by (auto simp: b2_def b1_def keeps_seen_def seen_def delivered_def next_sequence_def subs_of_def)
  have "keeps_seen b2 b3"
    unfolding b3_def
  proof (rule keeps_seen_fold)
    fix i and b :: stream_bus
    assume "i < length (sb_queues b2)" "length (sb_queues b) = length (sb_queues b2)"
    then show "keeps_seen b (close_sub i b)"
      unfolding close_sub_def
      by (intro keeps_seen_trans[OF _ keeps_seen_notify] keeps_seen_put) (simp_all add: bus_simps)
  qed (use open_subsD(1)[OF assms(1), of _ s] b2 in \<open>auto simp: keeps_seen_def\<close>)
  moreover have "keeps_seen b3 (closeStream s b)"
    unfolding closeStream_def Let_def L_def[symmetric] b1_def[symmetric] b2_def[symmetric] b3_def[symmetric]
    by (simp add: keeps_seen_def seen_def delivered_def next_sequence_def)
  ultimately show ?thesis
    using b2(1) assms(2) by (meson keeps_seen_in_order)
qed

lemma apply_in_order:
  assumes "open_subs {} b" "in_order b" "bus_apply c b = Some b'" "settled_for (length (sb_queues b)) b"
  shows "in_order b'"
proof (cases c)
  case (BRegister d)
  then have "sb_queues b' = sb_queues b" "sb_settled b' = sb_settled b" "sb_sequences b' = sb_sequences b"
    using assms(3) by (auto simp: register_stream_def split: if_splits)
  then have "keeps_seen b b'"
    by (simp add: keeps_seen_def seen_def delivered_def next_sequence_def)
  then show ?thesis
    by (rule keeps_seen_in_order[OF _ assms(2)])
next
  case (BPublish s d opts now)
  then obtain f where "publish s d opts now b = Inr (f, b')"
    using assms(3) by (auto split: sum.splits)
  with assms(1,2) show ?thesis
    by (rule publish_in_order)
next
  case (BSubscribe s opts)
  then obtain i where i: "subscribe s opts b = Inr (i, b')"
    using assms(3) by (auto split: sum.splits)
  let ?n = "length (sb_queues b)"
  have d: "delivered k b' = delivered k b" "next_sequence x b' = next_sequence x b" for k x
    using i by (auto simp: subscribe_def Let_def delivered_def next_sequence_def split: if_splits)
  have n: "delivered ?n b = []"
    using assms(4) by (auto simp: settled_for_def delivered_def)
  have q: "length (sb_queues b') = Suc ?n" "sq_queue (sub b' ?n) = []"
    using i by (auto simp: subscribe_def Let_def split: if_splits)
  have old: "sub b' k = sub b k" if "k < ?n" for k
    using i that by (auto simp: subscribe_def Let_def nth_append split: if_splits)
  show ?thesis
    unfolding in_order_def
  proof (intro allI impI)
    fix k
    assume "k < length (sb_queues b')"
    then consider "k = ?n" | "k < ?n"
      using q(1) by linarith
    then show "length (sq_queue (sub b' k)) \<le> capacity (sub b' k) \<and> sorted_wrt (<) (map sf_sequence (seen k b')) \<and>
      (\<forall>f\<in>set (seen k b'). sf_streamId f = sq_stream (sub b' k) \<and> sf_sequence f < next_sequence (sq_stream (sub b' k)) b')"
    proof cases
      case 1
      then show ?thesis
        by (simp add: seen_def d n q)
    next
      case 2
      with assms(2) show ?thesis
        by (simp add: seen_def d old in_order_def)
    qed
  qed
next
  case (BNext j)
  then have "j < length (sb_queues b)" "b' = snd (next_frame j b)"
    using assms(3) by (simp_all split: if_splits)
  then show ?thesis
    using keeps_seen_in_order[OF keeps_seen_next assms(2)] by simp
next
  case (BClose j)
  then have "j < length (sb_queues b)" "b' = close_handle j b"
    using assms(3) by (simp_all split: if_splits)
  then show ?thesis
    using keeps_seen_in_order[OF keeps_seen_close assms(2)] by simp
next
  case (BCloseStream s)
  with assms(3) have "b' = closeStream s b"
    by simp
  then show ?thesis
    using closeStream_in_order[OF assms(1,2)] by simp
qed

lemma reachable_in_order: "bus_reachable b \<Longrightarrow> in_order b"
proof (induction rule: bus_reachable.induct)
  case start
  show ?case
    by (simp add: in_order_def empty_bus_def)
qed (rule apply_in_order[OF reachable_open _ _ reachable_settled])

text \<open>In every reachable state of the bus, each subscriber has been given frames of its own
  stream only, in strictly increasing order of sequence number (so none twice), the frames that
  wait in its queue come later still, and its queue never holds more than its buffer size (one
  frame, for a latest-only queue or a buffer size below one).\<close>

theorem frames_in_order_and_bounded:
  assumes "bus_reachable b" and "i < length (sb_queues b)"
  shows "sorted_wrt (<) (map sf_sequence (delivered i b @ sq_queue (sb_queues b ! i))) \<and>
    (\<forall>f\<in>set (delivered i b @ sq_queue (sb_queues b ! i)). sf_streamId f = sq_stream (sb_queues b ! i)) \<and>
    length (sq_queue (sb_queues b ! i)) \<le> capacity (sb_queues b ! i)"
  using reachable_in_order[OF assms(1)] assms(2) by (auto simp: in_order_def seen_def)

theorem frames_in_order_and_bounded_witness:
  "sorted_wrt (<) (map sf_sequence (delivered 0 imu_sub @ sq_queue (sb_queues imu_sub ! 0)))"
proof -
  have "bus_apply (BSubscribe ''imu'' imu_opts) imu_bus = Some imu_sub"
    using imu_subscribed by simp
  from frames_in_order_and_bounded[OF bus_reachable.call[OF imu_reachable this], of 0] show ?thesis
    by (auto simp: imu_sub_def subscribe_def imu_bus_def register_stream_def empty_bus_def imu_def Let_def)
qed

subsection \<open>A read that is lost\<close>

text \<open>\<open>orphan w b\<close>: promise \<open>w\<close> is not resolved and no \<open>notify\<close> closure can resolve it.\<close>

definition orphan :: "nat \<Rightarrow> stream_bus \<Rightarrow> bool" where
  "orphan w b \<longleftrightarrow> (\<forall>(j, v, x)\<in>set (sb_settled b). v \<noteq> w) \<and>
    (\<forall>s\<in>set (sb_queues b). sq_notify s \<noteq> Some w)"

lemma orphan_put: "orphan w b \<Longrightarrow> sq_notify s \<noteq> Some w \<Longrightarrow> orphan w (put_sub i s b)"
  by (auto simp: orphan_def put_sub_def dest: set_update_subset_insert[THEN subsetD])

lemma orphan_settle: "orphan w b \<Longrightarrow> v \<noteq> w \<Longrightarrow> orphan w (settle i v x b)"
  by (auto simp: orphan_def settle_def)

lemma orphan_notify_of: "orphan w b \<Longrightarrow> i < length (sb_queues b) \<Longrightarrow> sq_notify (sub b i) \<noteq> Some w"
  by (simp add: orphan_def)

lemma orphan_finish: "orphan w b \<Longrightarrow> i < length (sb_queues b) \<Longrightarrow> orphan w (finish i b)"
proof -
  assume a: "orphan w b" "i < length (sb_queues b)"
  have f: "orphan w (forget i s c) = orphan w c" for s c
    by (simp add: orphan_def forget_def)
  show ?thesis
    using a orphan_notify_of[OF a] by (auto simp: finish_def Let_def f intro!: orphan_put)
qed

lemma orphan_notify: "orphan w b \<Longrightarrow> i < length (sb_queues b) \<Longrightarrow> orphan w (notify i b)"
  using orphan_notify_of[of w b i]
  by (auto simp: notify_def Let_def bus_simps intro!: orphan_put orphan_settle orphan_finish split: option.split list.split)

lemma orphan_next:
  "orphan w b \<Longrightarrow> i < length (sb_queues b) \<Longrightarrow> sb_promises b \<noteq> w \<Longrightarrow> orphan w (snd (next_frame i b))"
proof -
  assume a: "orphan w b" "i < length (sb_queues b)" and w: "sb_promises b \<noteq> w"
  then have "orphan w (b\<lparr>sb_promises := Suc (sb_promises b)\<rparr>)"
    by (auto simp: orphan_def)
  with w show ?thesis
    using a(2) orphan_notify_of[OF a]
    by (auto simp: next_frame_def Let_def intro!: orphan_put orphan_settle orphan_finish split: list.split)
qed

lemma orphan_deliver: "orphan w b \<Longrightarrow> i < length (sb_queues b) \<Longrightarrow> orphan w (deliver sid f i b)"
proof -
  assume a: "orphan w b" "i < length (sb_queues b)"
  have c: "orphan w (count_drop s d c) = orphan w c" for s d c
    by (simp add: orphan_def count_drop_def)
  show ?thesis
    unfolding deliver_split using a orphan_notify_of[OF a]
    by (intro orphan_notify) (auto simp: c bus_simps offer_flags intro!: orphan_put)
qed

lemma orphan_fold:
  "(\<And>i b. i \<in> set L \<Longrightarrow> length (sb_queues b) = n \<Longrightarrow> orphan w b \<Longrightarrow> orphan w (g i b) \<and> length (sb_queues (g i b)) = n) \<Longrightarrow>
    orphan w b \<Longrightarrow> length (sb_queues b) = n \<Longrightarrow> orphan w (fold g L b)"
  by (induction L arbitrary: b) auto

lemma orphan_closeStream:
  assumes "open_subs {} b" "orphan w b"
  shows "orphan w (closeStream s b)"
proof -
  define L where "L = (case jget (sb_endSignals b) s of None \<Rightarrow> [] | Some l \<Rightarrow> l)"
  define b1 where "b1 = fold resolve_ended L b"
  define b2 where "b2 = b1\<lparr>sb_endSignals := jdelete s (sb_endSignals b1)\<rparr>"
  have r: "length (sb_queues (fold resolve_ended L c)) = length (sb_queues c)" "subs_of s (fold resolve_ended L c) = subs_of s c" for L and c :: stream_bus
    by (induction L arbitrary: c) (simp_all add: resolve_ended_def bus_simps)
  have "orphan w b1"
    unfolding b1_def
  proof (rule orphan_fold)
    fix i and c :: stream_bus
    assume "i \<in> set L" "length (sb_queues c) = length (sb_queues b)" "orphan w c"
    then show "orphan w (resolve_ended i c) \<and> length (sb_queues (resolve_ended i c)) = length (sb_queues b)"
      using orphan_notify_of[of w c i] orphan_put[of w c _ i]
      by (cases "i < length (sb_queues c)") (auto simp: resolve_ended_def bus_simps put_sub_def list_update_beyond)
  qed (simp_all add: assms(2))
  then have o2: "orphan w b2"
    by (simp add: b2_def orphan_def)
  have len: "length (sb_queues b2) = length (sb_queues b)" "subs_of s b2 = subs_of s b"
    using r(2)[of L b] by (simp_all add: b2_def b1_def r(1) subs_of_def)
  have "orphan w (fold close_sub (subs_of s b2) b2)"
  proof (rule orphan_fold[OF _ o2 refl])
    fix i and c :: stream_bus
    assume i: "i \<in> set (subs_of s b2)" "length (sb_queues c) = length (sb_queues b2)" "orphan w c"
    then have "i < length (sb_queues c)"
      using open_subsD(1)[OF assms(1), of i s] len by simp
    with i show "orphan w (close_sub i c) \<and> length (sb_queues (close_sub i c)) = length (sb_queues b2)"
      using orphan_notify_of[of w c i] unfolding close_sub_parts(3)
      by (auto simp: close_sub_def bus_simps intro!: orphan_notify orphan_put)
  qed
  then show ?thesis
    unfolding closeStream_def Let_def L_def[symmetric] b1_def[symmetric] b2_def[symmetric]
    by (simp add: orphan_def)
qed

lemma orphan_apply:
  assumes "open_subs {} b" "orphan w b" "bus_apply c b = Some b'" "\<forall>j. c = BNext j \<longrightarrow> sb_promises b \<noteq> w"
  shows "orphan w b'"
proof (cases c)
  case (BRegister d)
  with assms(2,3) show ?thesis
    by (auto simp: register_stream_def orphan_def split: if_splits)
next
  case (BPublish s d opts now)
  then obtain f where b': "b' = fold (deliver s f) (subs_of s b) (record_frame f b)"
    using assms(3) by (auto simp: publish_def Let_def split: if_splits sum.splits)
  have "orphan w (record_frame f b)"
    using assms(2) by (simp add: orphan_def record_frame_def Let_def)
  then show ?thesis
    unfolding b'
  proof (rule orphan_fold[where n = "length (sb_queues b)", rotated])
    fix i and c :: stream_bus
    assume "i \<in> set (subs_of s b)" "length (sb_queues c) = length (sb_queues b)" "orphan w c"
    then show "orphan w (deliver s f i c) \<and> length (sb_queues (deliver s f i c)) = length (sb_queues b)"
      using open_subsD(1)[OF assms(1), of i s] by (simp add: orphan_deliver deliver_parts)
  qed (simp add: bus_simps)
next
  case (BSubscribe s opts)
  with assms(2,3) show ?thesis
    by (auto simp: subscribe_def Let_def orphan_def split: if_splits sum.splits)
next
  case (BNext j)
  then have "j < length (sb_queues b)" "b' = snd (next_frame j b)"
    using assms(3) by (simp_all split: if_splits)
  then show ?thesis
    using orphan_next[OF assms(2)] assms(4) BNext by simp
next
  case (BClose j)
  then have j: "j < length (sb_queues b)" "b' = close_handle j b"
    using assms(3) by (simp_all split: if_splits)
  then show ?thesis
    using orphan_notify_of[OF assms(2) j(1)] assms(2)
    by (auto simp: close_handle_def bus_simps intro!: orphan_finish orphan_notify orphan_put)
next
  case (BCloseStream s)
  with assms(3) have "b' = closeStream s b"
    by simp
  then show ?thesis
    using orphan_closeStream[OF assms(1,2)] by simp
qed

lemma promises_parts [bus_simps]:
  "sb_promises (put_sub i s b) = sb_promises b" "sb_promises (settle i w x b) = sb_promises b"
  "sb_promises (forget i sid b) = sb_promises b" "sb_promises (count_drop sid d b) = sb_promises b"
  "sb_promises (record_frame f b) = sb_promises b"
  by (simp_all add: put_sub_def settle_def forget_def count_drop_def record_frame_def Let_def)

lemma promises_finish [bus_simps]: "sb_promises (finish i b) = sb_promises b"
  by (simp add: finish_def Let_def bus_simps)

lemma promises_notify [bus_simps]: "sb_promises (notify i b) = sb_promises b"
  by (auto simp: notify_def Let_def bus_simps split: option.split list.split)

lemma promises_fold: "(\<And>i b. sb_promises (g i b) = sb_promises b) \<Longrightarrow> sb_promises (fold g L b) = sb_promises b"
  by (induction L arbitrary: b) auto

lemma promises_apply:
  "bus_apply c b = Some b' \<Longrightarrow> sb_promises b' = (case c of BNext j \<Rightarrow> Suc (sb_promises b) | _ \<Rightarrow> sb_promises b)"
proof (cases c)
  case (BPublish s d opts now)
  assume "bus_apply c b = Some b'"
  then obtain f where "b' = fold (deliver s f) (subs_of s b) (record_frame f b)"
    using BPublish by (auto simp: publish_def Let_def split: if_splits sum.splits)
  moreover have "sb_promises (deliver s f i c) = sb_promises c" for i c
    by (simp add: deliver_split bus_simps)
  ultimately show ?thesis
    using BPublish by (simp add: promises_fold bus_simps)
next
  case (BCloseStream s)
  assume "bus_apply c b = Some b'"
  then have b': "b' = closeStream s b"
    using BCloseStream by simp
  have "sb_promises (close_sub i c) = sb_promises c" "sb_promises (resolve_ended i c) = sb_promises c" for i c
    by (simp_all add: close_sub_def resolve_ended_def bus_simps)
  then show ?thesis
    by (simp add: b' closeStream_def Let_def promises_fold BCloseStream)
next
  case (BNext j)
  assume "bus_apply c b = Some b'"
  then have "b' = snd (next_frame j b)"
    using BNext by (simp split: if_splits)
  then show ?thesis
    by (simp add: BNext next_frame_def Let_def bus_simps split: list.split)
qed (auto simp: register_stream_def subscribe_def close_handle_def Let_def bus_simps split: if_splits)

lemma reachable_fresh: "bus_reachable b \<Longrightarrow> sb_promises b \<le> w \<Longrightarrow> orphan w b"
proof (induction rule: bus_reachable.induct)
  case start
  show ?case
    by (simp add: orphan_def empty_bus_def)
next
  case (call b c b')
  have "sb_promises b \<le> sb_promises b'" "\<forall>j. c = BNext j \<longrightarrow> sb_promises b' = Suc (sb_promises b)"
    using promises_apply[OF call.hyps(2)] by (auto split: bus_call.splits)
  then show ?case
    using orphan_apply[OF reachable_open[OF call.hyps(1)] call.IH call.hyps(2)] call.prems by fastforce
qed

lemma orphan_run:
  "bus_run cs b = Some b' \<Longrightarrow> bus_reachable b \<Longrightarrow> orphan w b \<Longrightarrow> w < sb_promises b \<Longrightarrow> orphan w b'"
proof (induction cs arbitrary: b)
  case (Cons c cs)
  then obtain b1 where b1: "bus_apply c b = Some b1" "bus_run cs b1 = Some b'"
    by (auto split: option.splits)
  have "w < sb_promises b1"
    using promises_apply[OF b1(1)] Cons.prems(4) by (auto split: bus_call.splits)
  moreover have "orphan w b1"
    using orphan_apply[OF reachable_open[OF Cons.prems(2)] Cons.prems(3) b1(1)] Cons.prems(4) by auto
  ultimately show ?case
    using Cons.IH[OF b1(2) bus_reachable.call[OF Cons.prems(2) b1(1)]] by blast
qed simp

text \<open>A subscriber has room for one waiting read. When \<open>next()\<close> is called twice on an open
  handle whose queue is empty, the second call replaces the closure of the first, and the first
  promise stays pending whatever happens on the bus afterwards: no frame, no \<open>close\<close> and no
  \<open>closeStream\<close> ever resolves it.\<close>

theorem overlapping_read_is_lost:
  assumes "bus_reachable b" and "i < length (sb_queues b)" and "sq_queue (sb_queues b ! i) = []"
    and "\<not> sq_closed (sb_queues b ! i)" and "\<not> sq_iteratorDone (sb_queues b ! i)"
    and "bus_run (BNext i # BNext i # cs) b = Some b'"
  shows "\<forall>j x. (j, fst (next_frame i b), x) \<notin> set (sb_settled b')"
proof -
  define w where "w = sb_promises b"
  define b1 where "b1 = snd (next_frame i b)"
  define b2 where "b2 = snd (next_frame i b1)"
  have b1: "b1 = put_sub i ((sub b i)\<lparr>sq_notify := Some w\<rparr>) (b\<lparr>sb_promises := Suc w\<rparr>)"
    using assms(3-5) by (simp add: b1_def next_frame_def Let_def w_def)
  have s1: "sub b1 i = (sub b i)\<lparr>sq_notify := Some w\<rparr>" "length (sb_queues b1) = length (sb_queues b)"
    "sb_promises b1 = Suc w"
    using assms(2) by (simp_all add: b1 bus_simps)
  have b2: "b2 = put_sub i ((sub b1 i)\<lparr>sq_notify := Some (Suc w)\<rparr>) (b1\<lparr>sb_promises := Suc (Suc w)\<rparr>)"
    using assms(3-5) s1 by (simp add: b2_def next_frame_def Let_def)
  have r1: "bus_apply (BNext i) b = Some b1" and r2: "bus_apply (BNext i) b1 = Some b2"
    using assms(2) s1(2) by (simp_all add: b1_def b2_def)
  have reach: "bus_reachable b2"
    using bus_reachable.call[OF bus_reachable.call[OF assms(1) r1] r2] .
  have "orphan w b"
    by (rule reachable_fresh[OF assms(1)]) (simp add: w_def)
  then have "orphan w (b\<lparr>sb_promises := Suc (Suc w)\<rparr>)"
    by (simp add: orphan_def)
  then have "orphan w (put_sub i ((sub b1 i)\<lparr>sq_notify := Some (Suc w)\<rparr>) (b\<lparr>sb_promises := Suc (Suc w)\<rparr>))"
    by (intro orphan_put) simp_all
  moreover have "b2 = put_sub i ((sub b1 i)\<lparr>sq_notify := Some (Suc w)\<rparr>) (b\<lparr>sb_promises := Suc (Suc w)\<rparr>)"
    unfolding b2 by (subst (2) b1) (simp add: put_sub_def)
  ultimately have o2: "orphan w b2"
    by simp
  have w2: "w < sb_promises b2"
    by (simp add: b2 bus_simps)
  have run: "bus_run cs b2 = Some b'"
    using assms(6) by (simp only: bus_run.simps r1 r2 option.case)
  have "orphan w b'"
    by (rule orphan_run[OF run reach o2 w2])
  moreover have "fst (next_frame i b) = w"
    using assms(3-5) by (simp add: next_frame_def Let_def w_def)
  ultimately show ?thesis
    by (auto simp: orphan_def)
qed

theorem overlapping_read_is_lost_witness:
  "\<exists>b'. bus_run [BNext 0, BNext 0] imu_sub = Some b' \<and> (\<forall>j x. (j, 0, x) \<notin> set (sb_settled b'))"
proof -
  have "bus_apply (BSubscribe ''imu'' imu_opts) imu_bus = Some imu_sub"
    using imu_subscribed by simp
  note r = bus_reachable.call[OF imu_reachable this]
  have s: "sq_queue (sub imu_sub 0) = []" "\<not> sq_closed (sub imu_sub 0)" "\<not> sq_iteratorDone (sub imu_sub 0)"
    "0 < length (sb_queues imu_sub)" "sb_promises imu_sub = 0"
    by (simp_all add: imu_sub_def subscribe_def imu_bus_def register_stream_def empty_bus_def imu_def Let_def)
  have "length (sb_queues (snd (next_frame 0 imu_sub))) = length (sb_queues imu_sub)"
    using s by (simp add: next_frame_def Let_def put_sub_def)
  then obtain b' where run: "bus_run [BNext 0, BNext 0] imu_sub = Some b'"
    using s(4) by simp
  have "fst (next_frame 0 imu_sub) = 0"
    using s by (simp add: next_frame_def Let_def)
  then have "\<forall>j x. (j, 0, x) \<notin> set (sb_settled b')"
    using overlapping_read_is_lost[OF r s(4,1,2,3) run] by simp
  with run show ?thesis
    by blast
qed

end
