(* ===== verification/Text_Codec.thy ===== *)
theory Text_Codec
  imports Prelude
begin

text \<open>
  What the line reader uses of the platform's \<open>TextDecoder\<close> (streaming, with the byte order mark
  removed) and \<open>TextEncoder\<close>: the UTF-8 decoder and encoder of the WHATWG Encoding Standard. A
  byte is a number below 256, a code point a number, and a JavaScript string a list of UTF-16
  code units. The lemmas show that decoding is a fold over the bytes, so chunks do not matter, and
  that it undoes the encoder.
\<close>

type_synonym code_point = nat
type_synonym code_unit = nat

subsection \<open>UTF-16\<close>

definition units_of :: "code_point \<Rightarrow> code_unit list" where
  "units_of c = (if c < 65536 then [c]
     else [55296 + (c - 65536) div 1024, 56320 + (c - 65536) mod 1024])"

definition utf16 :: "code_point list \<Rightarrow> code_unit list" where
  "utf16 cs = concat (map units_of cs)"

text \<open>The conversion to scalar values: a surrogate that is not half of a pair becomes U+FFFD.\<close>

definition high_surrogate :: "code_unit \<Rightarrow> bool" where
  "high_surrogate u \<longleftrightarrow> 55296 \<le> u \<and> u < 56320"

definition low_surrogate :: "code_unit \<Rightarrow> bool" where
  "low_surrogate u \<longleftrightarrow> 56320 \<le> u \<and> u < 57344"

fun scalars :: "code_unit list \<Rightarrow> code_point list" where
  "scalars [] = []"
| "scalars (u # us) =
    (if high_surrogate u then
       (case us of
         [] \<Rightarrow> [65533]
       | v # vs \<Rightarrow> if low_surrogate v then (65536 + (u - 55296) * 1024 + (v - 56320)) # scalars vs
                  else 65533 # scalars us)
     else if low_surrogate u then 65533 # scalars us
     else u # scalars us)"

definition scalar_value :: "code_point \<Rightarrow> bool" where
  "scalar_value c \<longleftrightarrow> c < 55296 \<or> (57344 \<le> c \<and> c < 1114112)"

lemma scalars_utf16: "\<forall>c\<in>set cs. scalar_value c \<Longrightarrow> scalars (utf16 cs) = cs"
proof (induction cs)
  case (Cons c cs)
  then have "scalars (utf16 cs) = cs" "scalar_value c"
    by simp_all
  then show ?case
    by (auto simp: utf16_def units_of_def scalar_value_def high_surrogate_def low_surrogate_def)
qed (simp add: utf16_def)

subsection \<open>UTF-8\<close>

definition utf8_of :: "code_point \<Rightarrow> nat list" where
  "utf8_of c =
    (if c < 128 then [c]
     else if c < 2048 then [192 + c div 64, 128 + c mod 64]
     else if c < 65536 then [224 + c div 4096, 128 + c div 64 mod 64, 128 + c mod 64]
     else [240 + c div 262144, 128 + c div 4096 mod 64, 128 + c div 64 mod 64, 128 + c mod 64])"

definition encode_text :: "code_unit list \<Rightarrow> nat list" where
  "encode_text us = concat (map utf8_of (scalars us))"

text \<open>The decoder's state: the bytes still needed of the current character, its bits so far, the
  bounds of the next byte, and whether the start of the stream has been seen.\<close>

record utf8_decoder =
  ud_needed :: nat
  ud_point :: nat
  ud_lower :: nat
  ud_upper :: nat
  ud_bomSeen :: bool

definition new_decoder :: utf8_decoder where
  "new_decoder = \<lparr>ud_needed = 0, ud_point = 0, ud_lower = 128, ud_upper = 191, ud_bomSeen = False\<rparr>"

definition emit :: "code_point \<Rightarrow> utf8_decoder \<Rightarrow> code_point list \<times> utf8_decoder" where
  "emit c d = ((if c = 65279 \<and> \<not> ud_bomSeen d then [] else [c]),
     d\<lparr>ud_needed := 0, ud_point := 0, ud_lower := 128, ud_upper := 191, ud_bomSeen := True\<rparr>)"

definition lead_byte :: "nat \<Rightarrow> utf8_decoder \<Rightarrow> code_point list \<times> utf8_decoder" where
  "lead_byte b d =
    (if b < 128 then emit b d
     else if 194 \<le> b \<and> b \<le> 223 then ([], d\<lparr>ud_needed := 1, ud_point := b - 192\<rparr>)
     else if 224 \<le> b \<and> b \<le> 239 then
       ([], d\<lparr>ud_needed := 2, ud_point := b - 224, ud_lower := (if b = 224 then 160 else 128),
             ud_upper := (if b = 237 then 159 else 191)\<rparr>)
     else if 240 \<le> b \<and> b \<le> 244 then
       ([], d\<lparr>ud_needed := 3, ud_point := b - 240, ud_lower := (if b = 240 then 144 else 128),
             ud_upper := (if b = 244 then 143 else 191)\<rparr>)
     else emit 65533 d)"

definition decode_byte :: "nat \<Rightarrow> utf8_decoder \<Rightarrow> code_point list \<times> utf8_decoder" where
  "decode_byte b d =
    (if ud_needed d = 0 then lead_byte b d
     else if b < ud_lower d \<or> ud_upper d < b then
       (case emit 65533 d of (xs, d1) \<Rightarrow> (case lead_byte b d1 of (ys, d2) \<Rightarrow> (xs @ ys, d2)))
     else (let p = ud_point d * 64 + (b - 128)
           in if ud_needed d = 1 then emit p d
              else ([], d\<lparr>ud_needed := ud_needed d - 1, ud_point := p, ud_lower := 128, ud_upper := 191\<rparr>)))"

fun decode_points :: "nat list \<Rightarrow> utf8_decoder \<Rightarrow> code_point list \<times> utf8_decoder" where
  "decode_points [] d = ([], d)"
| "decode_points (b # bs) d =
    (case decode_byte b d of (xs, d1) \<Rightarrow> (case decode_points bs d1 of (ys, d2) \<Rightarrow> (xs @ ys, d2)))"

definition decode_chunk :: "nat list \<Rightarrow> utf8_decoder \<Rightarrow> code_unit list \<times> utf8_decoder" where
  "decode_chunk bs d = (case decode_points bs d of (cs, d') \<Rightarrow> (utf16 cs, d'))"

definition decode_flush :: "utf8_decoder \<Rightarrow> code_unit list" where
  "decode_flush d = (if ud_needed d = 0 then [] else utf16 (fst (emit 65533 d)))"

subsection \<open>Chunks and round trip\<close>

lemma decode_points_append:
  "decode_points (xs @ ys) d =
    (case decode_points xs d of (us, d1) \<Rightarrow> (case decode_points ys d1 of (vs, d2) \<Rightarrow> (us @ vs, d2)))"
  by (induction xs arbitrary: d) (auto split: prod.splits)

lemma utf16_append: "utf16 (xs @ ys) = utf16 xs @ utf16 ys"
  by (simp add: utf16_def)

lemma decode_chunk_append:
  "decode_chunk (xs @ ys) d =
    (case decode_chunk xs d of (us, d1) \<Rightarrow> (case decode_chunk ys d1 of (vs, d2) \<Rightarrow> (us @ vs, d2)))"
  by (simp add: decode_chunk_def decode_points_append utf16_append split: prod.splits)

definition ready :: "utf8_decoder \<Rightarrow> bool" where
  "ready d \<longleftrightarrow> ud_needed d = 0 \<and> ud_lower d = 128 \<and> ud_upper d = 191 \<and> ud_point d = 0"

lemma ready_emit: "ready d \<Longrightarrow> emit c d = ((if c = 65279 \<and> \<not> ud_bomSeen d then [] else [c]), d\<lparr>ud_bomSeen := True\<rparr>)"
  by (cases d) (simp add: emit_def ready_def)

lemma mod64: "(x :: nat) mod 64 \<le> 63"
  using mod_less_divisor[of 64 x] by simp

lemma div64: "(x :: nat) div 4096 = x div 64 div 64" "(x :: nat) div 262144 = x div 64 div 64 div 64"
  by (simp_all add: div_mult2_eq[symmetric])

lemma split64: "(x :: nat) div 64 * 64 + x mod 64 = x"
  by simp

lemma decode_point:
  assumes "ready d" "scalar_value c"
  shows "decode_points (utf8_of c) d = emit c d"
proof -
  have "c < 1114112"
    using assms(2) by (auto simp: scalar_value_def)
  then consider "c < 128" | "128 \<le> c" "c < 2048" | "2048 \<le> c" "c < 65536" | "65536 \<le> c" "c < 1114112"
    by (meson not_le)
  then show ?thesis
  proof cases
    case 1
    then show ?thesis
      using assms(1) by (simp add: utf8_of_def decode_byte_def lead_byte_def ready_def split: prod.split)
  next
    case 2
    define a where "a = c div 64"
    have a: "2 \<le> a" "a \<le> 31" "a * 64 + c mod 64 = c"
      using 2 split64[of c] unfolding a_def by linarith+
    with 2 mod64[of c] show ?thesis
      using assms(1) unfolding utf8_of_def a_def[symmetric]
      by (simp add: decode_byte_def lead_byte_def ready_def emit_def Let_def)
  next
    case 3
    define q a b where "q = c div 64" and "a = q div 64" and "b = q mod 64"
    have c: "a * 64 + b = q" "q * 64 + c mod 64 = c"
      using split64[of q] split64[of c] by (simp_all add: a_def b_def q_def)
    have m: "b \<le> 63" "c mod 64 \<le> 63"
      using mod64 by (simp_all add: b_def)
    have q: "32 \<le> q" "q \<le> 1023" "q \<le> 863 \<or> 896 \<le> q"
      using 3 c(2) m(2) assms(2) unfolding scalar_value_def by linarith+
    have "a \<le> 15" "a = 0 \<Longrightarrow> 32 \<le> b" "a = 13 \<Longrightarrow> b \<le> 31"
      using q c(1) m(1) by linarith+
    with 3 m c show ?thesis
      using assms(1) unfolding utf8_of_def div64 q_def[symmetric] a_def[symmetric] b_def[symmetric]
      by (auto simp: decode_byte_def lead_byte_def ready_def emit_def Let_def)
  next
    case 4
    define q r a b e where "q = c div 64" and "r = q div 64" and "a = r div 64" and "b = r mod 64" and "e = q mod 64"
    have c: "a * 64 + b = r" "r * 64 + e = q" "q * 64 + c mod 64 = c"
      using split64[of r] split64[of q] split64[of c] by (simp_all add: a_def b_def r_def q_def e_def)
    have m: "b \<le> 63" "e \<le> 63" "c mod 64 \<le> 63"
      using mod64 by (simp_all add: b_def e_def)
    have q: "1024 \<le> q" "q < 17408"
      using 4 c(3) m(3) by linarith+
    have r: "16 \<le> r" "r < 272"
      using q c(2) m(2) by linarith+
    have "a \<le> 4" "a = 0 \<Longrightarrow> 16 \<le> b" "a = 4 \<Longrightarrow> b \<le> 15"
      using r c(1) m(1) by linarith+
    with 4 m c show ?thesis
      using assms(1) unfolding utf8_of_def div64 q_def[symmetric] r_def[symmetric] a_def[symmetric] b_def[symmetric] e_def[symmetric]
      by (auto simp: decode_byte_def lead_byte_def ready_def emit_def Let_def)
  qed
qed

lemma decode_started:
  "ready d \<Longrightarrow> ud_bomSeen d \<Longrightarrow> \<forall>c\<in>set cs. scalar_value c \<Longrightarrow>
    decode_points (concat (map utf8_of cs)) d = (cs, d)"
proof (induction cs)
  case (Cons c cs)
  have d: "d\<lparr>ud_bomSeen := True\<rparr> = d"
    using Cons.prems(2) by simp
  have "decode_points (utf8_of c) d = ([c], d)"
    using Cons.prems decode_point[of d c] by (simp add: ready_emit d)
  with Cons show ?case
    by (simp add: decode_points_append)
qed simp

lemma decode_utf8:
  assumes "\<forall>c\<in>set cs. scalar_value c" "cs = [] \<or> hd cs \<noteq> 65279"
  shows "fst (decode_points (concat (map utf8_of cs)) new_decoder) = cs"
    and "ud_needed (snd (decode_points (concat (map utf8_of cs)) new_decoder)) = 0"
proof -
  have r: "ready new_decoder" "ready (new_decoder\<lparr>ud_bomSeen := True\<rparr>)"
    by (simp_all add: ready_def new_decoder_def)
  have "decode_points (concat (map utf8_of cs)) new_decoder =
      (cs, if cs = [] then new_decoder else new_decoder\<lparr>ud_bomSeen := True\<rparr>)"
  proof (cases cs)
    case (Cons c cs')
    have "decode_points (utf8_of c) new_decoder = ([c], new_decoder\<lparr>ud_bomSeen := True\<rparr>)"
      using assms Cons decode_point[OF r(1), of c] by (simp add: ready_emit[OF r(1)])
    with assms(1) Cons decode_started[OF r(2), of cs'] show ?thesis
      by (simp add: decode_points_append)
  qed simp
  then show "fst (decode_points (concat (map utf8_of cs)) new_decoder) = cs"
    and "ud_needed (snd (decode_points (concat (map utf8_of cs)) new_decoder)) = 0"
    by (auto simp: new_decoder_def)
qed

end
