(* ===== verification/Line_Reader.thy ===== *)
theory Line_Reader
  imports Text_Codec
begin

text \<open>
  The framing of the line protocol, \<open>packages/core/src/lineReader.ts\<close>: \<open>readLines\<close> over the chunks a
  transport delivers, and \<open>encodeLine\<close>. The asynchronous generator is the list of what it yields
  and of what it reports through \<open>onOversize\<close>, in order.
\<close>

datatype line_event = Line "code_unit list" | Oversize nat

definition strip_cr :: "code_unit list \<Rightarrow> code_unit list" where
  "strip_cr s = (if s \<noteq> [] \<and> List.last s = 13 then butlast s else s)"

text \<open>The white space that \<open>String.prototype.trim\<close> removes.\<close>

definition white_space :: "code_unit \<Rightarrow> bool" where
  "white_space u \<longleftrightarrow> u \<in> set [9, 10, 11, 12, 13, 32, 160, 5760, 8232, 8233, 8239, 8287, 12288, 65279] \<or>
    (8192 \<le> u \<and> u \<le> 8202)"

definition trim :: "code_unit list \<Rightarrow> code_unit list" where
  "trim s = rev (dropWhile white_space (rev (dropWhile white_space s)))"

lemma rest_shorter: "x \<in> set buf \<Longrightarrow> length (tl (dropWhile (\<lambda>u. u \<noteq> x) buf)) < length buf"
  using length_dropWhile_le[of "\<lambda>u. u \<noteq> x" "tl buf"]
  by (cases buf) (auto simp: le_imp_less_Suc intro: le_less_trans[OF diff_le_self])

text \<open>The loop over the line feeds of the buffer: events, the \<open>discardingOversizeLine\<close> flag, the rest.\<close>

function (sequential) drain :: "nat \<Rightarrow> bool \<Rightarrow> code_unit list \<Rightarrow> line_event list \<times> bool \<times> code_unit list" where
  "drain m disc buf =
    (if 10 \<in> set buf then
       (let line = strip_cr (takeWhile (\<lambda>u. u \<noteq> 10) buf);
            ev = (if \<not> disc \<and> length line \<le> m \<and> 0 < length line then [Line line]
                  else if m < length line then [Oversize (length line)] else [])
        in case drain m False (tl (dropWhile (\<lambda>u. u \<noteq> 10) buf)) of (es, d, r) \<Rightarrow> (ev @ es, d, r))
     else ([], disc, buf))"
  by pat_completeness auto

termination
  by (relation "measure (\<lambda>(m, disc, buf). length buf)") (auto dest: rest_shorter)

declare drain.simps [simp del]

record line_reader =
  rd_decoder :: utf8_decoder
  rd_buffer :: "code_unit list"
  rd_discarding :: bool

definition new_line_reader :: line_reader where
  "new_line_reader = \<lparr>rd_decoder = new_decoder, rd_buffer = [], rd_discarding = False\<rparr>"

definition read_units :: "nat \<Rightarrow> code_unit list \<Rightarrow> line_reader \<Rightarrow> line_event list \<times> line_reader" where
  "read_units m us s =
    (case drain m (rd_discarding s) (rd_buffer s @ us) of (es, disc, buf) \<Rightarrow>
       if m < length buf then (es @ [Oversize (length buf)], s\<lparr>rd_buffer := [], rd_discarding := True\<rparr>)
       else (es, s\<lparr>rd_buffer := buf, rd_discarding := disc\<rparr>))"

definition read_chunk :: "nat \<Rightarrow> nat list \<Rightarrow> line_reader \<Rightarrow> line_event list \<times> line_reader" where
  "read_chunk m chunk s =
    (case decode_chunk chunk (rd_decoder s) of (us, d) \<Rightarrow> read_units m us (s\<lparr>rd_decoder := d\<rparr>))"

definition read_end :: "nat \<Rightarrow> line_reader \<Rightarrow> line_event list" where
  "read_end m s =
    (let leftover = trim (strip_cr (rd_buffer s @ decode_flush (rd_decoder s)))
     in if \<not> rd_discarding s \<and> 0 < length leftover \<and> length leftover \<le> m then [Line leftover]
        else if m < length leftover then [Oversize (length leftover)] else [])"

fun read_from :: "nat \<Rightarrow> nat list list \<Rightarrow> line_reader \<Rightarrow> line_event list" where
  "read_from m [] s = read_end m s"
| "read_from m (c # cs) s = (case read_chunk m c s of (es, s') \<Rightarrow> es @ read_from m cs s')"

definition readLines :: "nat \<Rightarrow> nat list list \<Rightarrow> line_event list" where
  "readLines m chunks = read_from m chunks new_line_reader"

definition encodeLine :: "code_unit list \<Rightarrow> nat list" where
  "encodeLine t = encode_text (if t \<noteq> [] \<and> List.last t = 10 then t else t @ [10])"

subsection \<open>Memory\<close>

fun run_chunks :: "nat \<Rightarrow> nat list list \<Rightarrow> line_reader \<Rightarrow> line_reader" where
  "run_chunks m [] s = s"
| "run_chunks m (c # cs) s = run_chunks m cs (snd (read_chunk m c s))"

lemma read_units_bound: "length (rd_buffer (snd (read_units m us s))) \<le> m"
  by (auto simp: read_units_def split: prod.splits)

lemma run_chunks_bound: "length (rd_buffer s) \<le> m \<Longrightarrow> length (rd_buffer (run_chunks m cs s)) \<le> m"
proof (induction cs arbitrary: s)
  case (Cons c cs)
  have "length (rd_buffer (snd (read_chunk m c s))) \<le> m"
    by (auto simp: read_chunk_def read_units_bound split: prod.splits)
  then show ?case
    by (simp add: Cons.IH)
qed simp

lemma drain_bounds:
  "drain m disc buf = (es, d, r) \<Longrightarrow> (\<forall>l. Line l \<in> set es \<longrightarrow> 0 < length l \<and> length l \<le> m \<and> 10 \<notin> set l)"
proof (induction m disc buf arbitrary: es d r rule: drain.induct)
  case (1 m disc buf)
  show ?case
  proof (cases "10 \<in> set buf")
    case True
    define line where "line = strip_cr (takeWhile (\<lambda>u. u \<noteq> 10) buf)"
    obtain es' where es': "drain m False (tl (dropWhile (\<lambda>u. u \<noteq> 10) buf)) = (es', d, r)"
      and es: "es = (if \<not> disc \<and> length line \<le> m \<and> 0 < length line then [Line line]
          else if m < length line then [Oversize (length line)] else []) @ es'"
      using 1(2) True by (subst (asm) drain.simps) (auto simp: Let_def line_def split: prod.splits)
    have "set line \<subseteq> set (takeWhile (\<lambda>u. u \<noteq> 10) buf)"
      by (auto simp: line_def strip_cr_def dest: in_set_butlastD)
    then have "10 \<notin> set line"
      by (auto dest: set_takeWhileD)
    with 1(1)[OF True line_def refl es'] es show ?thesis
      by (auto split: if_splits)
  next
    case False
    with 1(2) show ?thesis
      by (subst (asm) drain.simps) simp
  qed
qed

subsection \<open>Round trip\<close>

text \<open>\<open>framed ls\<close> is the text of the lines \<open>ls\<close>, each with its line feed.\<close>

definition framed :: "code_unit list list \<Rightarrow> code_unit list" where
  "framed ls = concat (map (\<lambda>l. l @ [10]) ls)"

definition good_line :: "nat \<Rightarrow> code_unit list \<Rightarrow> bool" where
  "good_line m l \<longleftrightarrow> l \<noteq> [] \<and> length l \<le> m \<and> 10 \<notin> set l \<and> List.last l \<noteq> 13"

lemma framed_simps [simp]: "framed [] = []" "framed (l # ls) = l @ 10 # framed ls"
  by (simp_all add: framed_def)

lemma framed_append: "framed (ks @ ls) = framed ks @ framed ls"
  by (simp add: framed_def)

lemma drain_good:
  "\<forall>l\<in>set ks. good_line m l \<Longrightarrow> 10 \<notin> set rest \<Longrightarrow> drain m False (framed ks @ rest) = (map Line ks, False, rest)"
proof (induction ks)
  case Nil
  then show ?case
    by (simp add: drain.simps)
next
  case (Cons l ks)
  have l: "10 \<notin> set l" "strip_cr l = l" "length l \<le> m" "l \<noteq> []"
    using Cons.prems(1) by (simp_all add: good_line_def strip_cr_def)
  have t: "takeWhile (\<lambda>u. u \<noteq> 10) (l @ 10 # ys) = l" "dropWhile (\<lambda>u. u \<noteq> 10) (l @ 10 # ys) = 10 # ys" for ys
    using l(1) by (auto simp: takeWhile_append dropWhile_append)
  have "drain m False (framed ks @ rest) = (map Line ks, False, rest)"
    using Cons by simp
  then show ?case
    using l by (subst drain.simps) (simp add: t Let_def)
qed

text \<open>A prefix of framed lines is some whole lines and a part of the next.\<close>

lemma framed_prefix:
  "xs @ ys = framed ls \<Longrightarrow> \<forall>l\<in>set ls. 10 \<notin> set l \<Longrightarrow>
    \<exists>ks ls' rest. ls = ks @ ls' \<and> xs = framed ks @ rest \<and> rest @ ys = framed ls' \<and> 10 \<notin> set rest \<and>
      (rest \<noteq> [] \<longrightarrow> ls' \<noteq> [] \<and> length rest \<le> length (hd ls'))"
proof (induction ls arbitrary: xs)
  case Nil
  then show ?case
    by (intro exI[of _ "[]"]) simp
next
  case (Cons l ls)
  have l: "10 \<notin> set l"
    using Cons.prems(2) by simp
  show ?case
  proof (cases "length xs \<le> length l")
    case True
    have "xs = take (length xs) (l @ 10 # framed ls)"
      using Cons.prems(1) by (metis append_eq_conv_conj framed_simps(2))
    then have "xs = take (length xs) l"
      using True by simp
    then have "10 \<notin> set xs"
      using l by (metis in_set_takeD)
    with True Cons.prems(1) show ?thesis
      by (intro exI[of _ "[]"] exI[of _ "l # ls"] exI[of _ xs]) simp
  next
    case False
    from Cons.prems(1) obtain us where "xs = l @ us \<and> us @ ys = 10 # framed ls \<or> xs @ us = l"
      by (auto simp: append_eq_append_conv2)
    with False have "xs = l @ us" "us @ ys = 10 # framed ls" "us \<noteq> []"
      by auto
    then obtain zs where zs: "xs = l @ 10 # zs" "zs @ ys = framed ls"
      by (auto simp: append_eq_Cons_conv)
    obtain ks ls' rest where "ls = ks @ ls'" "zs = framed ks @ rest" "rest @ ys = framed ls'" "10 \<notin> set rest"
      "rest \<noteq> [] \<longrightarrow> ls' \<noteq> [] \<and> length rest \<le> length (hd ls')"
      using Cons.IH[OF zs(2)] Cons.prems(2) by auto
    then show ?thesis
      by (intro exI[of _ "l # ks"] exI[of _ ls'] exI[of _ rest]) (simp add: zs(1))
  qed
qed

lemma read_units_good:
  assumes "rd_buffer s @ us @ ys = framed ls" "\<forall>l\<in>set ls. good_line m l" "\<not> rd_discarding s"
  shows "\<exists>ks ls'. ls = ks @ ls' \<and> fst (read_units m us s) = map Line ks \<and>
    rd_buffer (snd (read_units m us s)) @ ys = framed ls' \<and> \<not> rd_discarding (snd (read_units m us s)) \<and>
    rd_decoder (snd (read_units m us s)) = rd_decoder s \<and> 10 \<notin> set (rd_buffer (snd (read_units m us s)))"
proof -
  have "(rd_buffer s @ us) @ ys = framed ls" "\<forall>l\<in>set ls. 10 \<notin> set l"
    using assms(1,2) by (auto simp: good_line_def)
  from framed_prefix[OF this] obtain ks ls' rest where k: "ls = ks @ ls'" "rd_buffer s @ us = framed ks @ rest"
    "rest @ ys = framed ls'" "10 \<notin> set rest" "rest \<noteq> [] \<longrightarrow> ls' \<noteq> [] \<and> length rest \<le> length (hd ls')"
    by blast
  have d: "drain m (rd_discarding s) (rd_buffer s @ us) = (map Line ks, False, rest)"
    unfolding k(2) using assms(2,3) k(1,4) by (simp add: drain_good)
  have "length rest \<le> m"
  proof (cases "rest = []")
    case False
    then have "good_line m (hd ls')" "length rest \<le> length (hd ls')"
      using assms(2) k(1,5) by auto
    then show ?thesis
      by (auto simp: good_line_def)
  qed simp
  with d k(1,3,4) show ?thesis
    by (auto simp: read_units_def)
qed

lemma read_from_good:
  "\<forall>l\<in>set ls. good_line m l \<Longrightarrow> \<not> rd_discarding s \<Longrightarrow> 10 \<notin> set (rd_buffer s) \<Longrightarrow>
    decode_chunk (concat cs) (rd_decoder s) = (us, d) \<Longrightarrow> ud_needed d = 0 \<Longrightarrow> rd_buffer s @ us = framed ls \<Longrightarrow>
    read_from m cs s = map Line ls"
proof (induction cs arbitrary: s us ls)
  case Nil
  then have u: "us = []" "d = rd_decoder s"
    by (simp_all add: decode_chunk_def utf16_def)
  have "rd_buffer s = framed ls"
    using Nil.prems(6) u by simp
  with Nil.prems(3) have "ls = []"
    by (cases ls) auto
  with Nil u show ?case
    by (simp add: read_end_def decode_flush_def trim_def strip_cr_def)
next
  case (Cons c cs)
  obtain us1 d1 where 1: "decode_chunk c (rd_decoder s) = (us1, d1)"
    by (cases "decode_chunk c (rd_decoder s)")
  obtain us2 d2 where 2: "decode_chunk (concat cs) d1 = (us2, d2)"
    by (cases "decode_chunk (concat cs) d1")
  have us: "us = us1 @ us2" "d2 = d"
    using Cons.prems(4) 1 2 by (auto simp: decode_chunk_append)
  let ?s = "s\<lparr>rd_decoder := d1\<rparr>"
  obtain ks ls' where k: "ls = ks @ ls'" "fst (read_units m us1 ?s) = map Line ks"
    "rd_buffer (snd (read_units m us1 ?s)) @ us2 = framed ls'" "\<not> rd_discarding (snd (read_units m us1 ?s))"
    "rd_decoder (snd (read_units m us1 ?s)) = d1" "10 \<notin> set (rd_buffer (snd (read_units m us1 ?s)))"
    using read_units_good[of ?s us1 us2 ls m] Cons.prems us by auto
  have "read_from m cs (snd (read_units m us1 ?s)) = map Line ls'"
    using Cons.prems(1,5) k 2 us(2) by (intro Cons.IH[of ls' _ us2]) auto
  then show ?case
    using k(1,2) by (simp add: read_chunk_def 1 case_prod_unfold)
qed

subsection \<open>Properties\<close>

lemma encode_framed:
  assumes "\<forall>l\<in>set ls. l \<noteq> [] \<and> List.last l \<noteq> 10 \<and> (\<exists>cs. l = utf16 cs \<and> (\<forall>c\<in>set cs. scalar_value c))"
  shows "\<exists>cs. concat (map encodeLine ls) = concat (map utf8_of cs) \<and> utf16 cs = framed ls \<and> (\<forall>c\<in>set cs. scalar_value c)"
  using assms
proof (induction ls)
  case Nil
  show ?case
    by (intro exI[of _ "[]"]) (simp add: utf16_def)
next
  case (Cons l ls)
  then obtain cs' where cs': "concat (map encodeLine ls) = concat (map utf8_of cs')" "utf16 cs' = framed ls" "\<forall>c\<in>set cs'. scalar_value c"
    by auto
  from Cons.prems obtain cs where cs: "l = utf16 cs" "\<forall>c\<in>set cs. scalar_value c" "List.last l \<noteq> 10"
    by auto
  have t: "utf16 (cs @ [10]) = l @ [10]"
    using cs(1) by (simp add: utf16_append) (simp add: utf16_def units_of_def)
  have "scalars (l @ [10]) = cs @ [10]"
    using scalars_utf16[of "cs @ [10]"] cs(2) t by (simp add: scalar_value_def)
  then have "encodeLine l = concat (map utf8_of (cs @ [10]))"
    using cs(3) by (simp add: encodeLine_def encode_text_def)
  moreover have "utf16 ((cs @ [10]) @ cs') = framed (l # ls)"
    unfolding utf16_append[of "cs @ [10]"] t cs'(2) by simp
  ultimately show ?case
    using cs(2) cs'(1,3) by (intro exI[of _ "(cs @ [10]) @ cs'"]) (auto simp: scalar_value_def)
qed

text \<open>Lines survive the wire. Any list of lines, each a well-formed text that is not empty, has
  no line feed, does not end in a carriage return and has at most \<open>m\<close> code units, sent one by one
  through \<open>encodeLine\<close> and cut into any chunks whatever (inside a character too), is read back as
  exactly these lines, unless the stream starts with a byte order mark.\<close>

theorem lines_survive_chunking:
  assumes "\<forall>l\<in>set ls. good_line m l \<and> (\<exists>cs. l = utf16 cs \<and> (\<forall>c\<in>set cs. scalar_value c))"
    and "ls = [] \<or> hd (hd ls) \<noteq> 65279" and "concat chunks = concat (map encodeLine ls)"
  shows "readLines m chunks = map Line ls"
proof -
  have "\<forall>l\<in>set ls. l \<noteq> [] \<and> List.last l \<noteq> 10 \<and> (\<exists>cs. l = utf16 cs \<and> (\<forall>c\<in>set cs. scalar_value c))"
    using assms(1) List.last_in_set unfolding good_line_def by metis
  from encode_framed[OF this] obtain cs where cs: "concat (map encodeLine ls) = concat (map utf8_of cs)"
    "utf16 cs = framed ls" "\<forall>c\<in>set cs. scalar_value c"
    by blast
  have "cs = [] \<or> hd cs \<noteq> 65279"
  proof (cases cs)
    case (Cons c cs')
    then have f: "units_of c @ utf16 cs' = framed ls"
      using cs(2) by (simp add: utf16_def)
    then obtain l ls' where ls: "ls = l # ls'"
      by (cases ls) (auto simp: units_of_def split: if_splits)
    with assms(1) have "l \<noteq> []"
      by (simp add: good_line_def)
    with f ls have "hd (units_of c) = hd l"
      by (cases l) (auto simp: units_of_def split: if_splits)
    with assms(2) ls Cons show ?thesis
      by (auto simp: units_of_def split: if_splits)
  qed simp
  note d = decode_utf8[OF cs(3) this]
  show ?thesis
    unfolding readLines_def
  proof (rule read_from_good)
    show "decode_chunk (concat chunks) (rd_decoder new_line_reader) =
        (framed ls, snd (decode_points (concat (map utf8_of cs)) new_decoder))"
      using assms(3) cs(1,2) d(1) by (simp add: decode_chunk_def new_line_reader_def case_prod_unfold)
    show "ud_needed (snd (decode_points (concat (map utf8_of cs)) new_decoder)) = 0"
      by (rule d(2))
  qed (use assms(1) in \<open>auto simp: new_line_reader_def\<close>)
qed

text \<open>Two lines, the first with the two-byte character U+00E9, cut inside that character.\<close>

theorem lines_survive_chunking_witness:
  "readLines 8 [[104, 195], [169, 10, 111], [107, 10]] = map Line [[104, 233], [111, 107]]"
proof (rule lines_survive_chunking)
  show "\<forall>l\<in>set [[104, 233], [111, 107]]. good_line 8 l \<and> (\<exists>cs. l = utf16 cs \<and> (\<forall>c\<in>set cs. scalar_value c))"
  proof -
    have "[104, 233] = utf16 [104, 233]" "[111, 107] = utf16 [111, 107]"
      by (simp_all add: utf16_def units_of_def)
    then show ?thesis
      by (auto simp: good_line_def scalar_value_def
          intro!: exI[of "\<lambda>cs. [104, 233] = utf16 cs \<and> _ cs" "[104, 233]"] exI[of "\<lambda>cs. [111, 107] = utf16 cs \<and> _ cs" "[111, 107]"])
  qed
qed (simp_all add: encodeLine_def encode_text_def high_surrogate_def low_surrogate_def utf8_of_def)

text \<open>Untrusted input cannot make the reader hold more than \<open>m\<close> code units between chunks, and
  every line it yields has between 1 and \<open>m\<close> code units, whatever bytes arrive in whatever chunks.\<close>

theorem line_reader_bounded:
  "length (rd_buffer (run_chunks m chunks new_line_reader)) \<le> m \<and>
    (\<forall>l. Line l \<in> set (readLines m chunks) \<longrightarrow> 0 < length l \<and> length l \<le> m)"
proof -
  have "Line l \<in> set (read_from m chunks s) \<Longrightarrow> 0 < length l \<and> length l \<le> m" for l s
  proof (induction chunks arbitrary: s)
    case Nil
    then show ?case
      by (auto simp: read_end_def Let_def split: if_splits)
  next
    case (Cons c cs)
    obtain us d where 1: "decode_chunk c (rd_decoder s) = (us, d)"
      by (cases "decode_chunk c (rd_decoder s)")
    obtain es disc r where 2: "drain m (rd_discarding s) (rd_buffer s @ us) = (es, disc, r)"
      by (cases "drain m (rd_discarding s) (rd_buffer s @ us)")
    from drain_bounds[OF 2] have "Line l \<in> set es \<Longrightarrow> 0 < length l \<and> length l \<le> m"
      by blast
    with Cons show ?case
      by (auto simp: read_chunk_def read_units_def 1 2 split: if_splits)
  qed
  moreover have "length (rd_buffer new_line_reader) \<le> m"
    by (simp add: new_line_reader_def)
  ultimately show ?thesis
    by (simp add: run_chunks_bound readLines_def)
qed

theorem line_reader_bounded_witness:
  "length (rd_buffer (run_chunks 3 [[97, 97, 97, 97]] new_line_reader)) \<le> 3"
  using line_reader_bounded[of 3 "[[97, 97, 97, 97]]"] by simp

text \<open>The carriage return counts against the limit until its line feed has arrived. A line of
  exactly \<open>m\<close> characters that ends in CR LF is yielded when one chunk brings it whole, and thrown
  away when the chunk boundary falls between the CR and the LF.\<close>

theorem crlf_line_depends_on_chunks:
  "readLines m [replicate m 97 @ [13], [10]] = [Oversize (Suc m)] \<and>
    (0 < m \<longrightarrow> readLines m [replicate m 97 @ [13, 10]] = [Line (replicate m 97)])"
proof -
  have d: "decode_points (replicate k 97 @ bs) dec = (case decode_points bs (if k = 0 then dec else dec\<lparr>ud_bomSeen := True\<rparr>) of (cs, d) \<Rightarrow> (replicate k 97 @ cs, d))"
    if "ready dec" for k bs dec
    using that
  proof (induction k arbitrary: dec)
    case (Suc k)
    have "decode_byte 97 dec = ([97], dec\<lparr>ud_bomSeen := True\<rparr>)"
      using Suc.prems by (simp add: decode_byte_def lead_byte_def ready_emit) (simp add: ready_def)
    moreover have "ready (dec\<lparr>ud_bomSeen := True\<rparr>)"
      using Suc.prems by (simp add: ready_def)
    ultimately show ?case
      using Suc.IH[of "dec\<lparr>ud_bomSeen := True\<rparr>"] by (simp split: prod.splits)
  qed simp
  have dec: "ready new_decoder" "ready (new_decoder\<lparr>ud_bomSeen := True\<rparr>)"
    by (simp_all add: ready_def new_decoder_def)
  have b: "decode_byte c dec = ([c], dec\<lparr>ud_bomSeen := True\<rparr>)" if "ready dec" "c < 128" for c dec
    using that by (simp add: decode_byte_def lead_byte_def ready_emit) (simp add: ready_def)
  have u: "utf16 (replicate k 97 @ cs) = replicate k 97 @ utf16 cs" for k cs
    by (induction k) (simp_all add: utf16_def units_of_def)
  let ?d = "new_decoder\<lparr>ud_bomSeen := True\<rparr>"
  have c: "decode_chunk (replicate m 97 @ [13]) new_decoder = (replicate m 97 @ [13], ?d)"
    "decode_chunk [10] ?d = ([10], ?d)"
    "decode_chunk (replicate m 97 @ [13, 10]) new_decoder = (replicate m 97 @ [13, 10], ?d)"
    by (simp_all add: decode_chunk_def d dec b u) (simp_all add: utf16_def units_of_def)
  have f: "decode_flush ?d = []"
    by (simp add: decode_flush_def new_decoder_def)
  have r1: "read_chunk m (replicate m 97 @ [13]) new_line_reader =
      ([Oversize (Suc m)], \<lparr>rd_decoder = ?d, rd_buffer = [], rd_discarding = True\<rparr>)"
    by (simp add: read_chunk_def read_units_def new_line_reader_def c drain.simps)
  have r2: "read_chunk m [10] \<lparr>rd_decoder = ?d, rd_buffer = [], rd_discarding = True\<rparr> =
      ([], \<lparr>rd_decoder = ?d, rd_buffer = [], rd_discarding = False\<rparr>)"
    by (simp add: read_chunk_def read_units_def c drain.simps Let_def strip_cr_def)
  have t: "takeWhile (\<lambda>u :: nat. u \<noteq> 10) (replicate m 97 @ [13, 10]) = replicate m 97 @ [13]"
    "dropWhile (\<lambda>u :: nat. u \<noteq> 10) (replicate m 97 @ [13, 10]) = [10]"
    by (simp_all add: takeWhile_append dropWhile_append)
  have r3: "read_chunk m (replicate m 97 @ [13, 10]) new_line_reader =
      ([Line (replicate m 97)], \<lparr>rd_decoder = ?d, rd_buffer = [], rd_discarding = False\<rparr>)" if "0 < m"
  proof -
    have "drain m False (replicate m 97 @ [13, 10]) = ([Line (replicate m 97)], False, [])"
      using that by (subst drain.simps) (simp add: t Let_def strip_cr_def drain.simps[of m False "[]"])
    then show ?thesis
      by (simp add: read_chunk_def read_units_def new_line_reader_def c)
  qed
  show ?thesis
    using r3 by (auto simp: readLines_def r1 r2 read_end_def f strip_cr_def trim_def)
qed

theorem crlf_line_depends_on_chunks_witness:
  "readLines 2 [[97, 97, 13], [10]] \<noteq> readLines 2 [[97, 97, 13, 10]]"
  using crlf_line_depends_on_chunks[of 2] by (simp add: numeral_2_eq_2)

end
