(* ===== verification/Firmata_Wire.thy ===== *)
theory Firmata_Wire
  imports Text_Codec
begin

unbundle bit_operations_syntax

text \<open>
  The Firmata v2.5 codec, \<open>packages/protocols-firmata/src/wire.ts\<close>: the encoders of the host, the
  decoders of the device's messages and the streaming decoder. A byte is a number below 256;
  numbers that callers pass are \<open>jsnum\<close>, since the encoders check them.
\<close>

datatype firmata_error = FValidation | FProtocol

definition digitalPort :: nat where "digitalPort = 144"
definition analogStatus :: nat where "analogStatus = 224"
definition reportAnalog :: nat where "reportAnalog = 192"
definition reportDigital :: nat where "reportDigital = 208"
definition setPinModeByte :: nat where "setPinModeByte = 244"
definition setDigitalPinValue :: nat where "setDigitalPinValue = 245"
definition reportVersion :: nat where "reportVersion = 249"
definition systemReset :: nat where "systemReset = 255"
definition startSysex :: nat where "startSysex = 240"
definition endSysex :: nat where "endSysex = 247"

lemmas status_bytes = digitalPort_def analogStatus_def reportAnalog_def reportDigital_def setPinModeByte_def
  setDigitalPinValue_def reportVersion_def systemReset_def startSysex_def endSysex_def

definition extendedAnalog :: nat where "extendedAnalog = 111"
definition pinStateQuery :: nat where "pinStateQuery = 109"
definition pinStateResponse :: nat where "pinStateResponse = 110"
definition capabilityQuery :: nat where "capabilityQuery = 107"
definition capabilityResponse :: nat where "capabilityResponse = 108"
definition analogMappingQuery :: nat where "analogMappingQuery = 105"
definition analogMappingResponse :: nat where "analogMappingResponse = 106"
definition servoConfig :: nat where "servoConfig = 112"
definition stringData :: nat where "stringData = 113"
definition i2cRequest :: nat where "i2cRequest = 118"
definition i2cReply :: nat where "i2cReply = 119"
definition i2cConfig :: nat where "i2cConfig = 120"
definition reportFirmware :: nat where "reportFirmware = 121"
definition samplingInterval :: nat where "samplingInterval = 122"

lemmas sysex_commands = extendedAnalog_def pinStateQuery_def pinStateResponse_def capabilityQuery_def
  capabilityResponse_def analogMappingQuery_def analogMappingResponse_def servoConfig_def stringData_def
  i2cRequest_def i2cReply_def i2cConfig_def reportFirmware_def samplingInterval_def

definition FirmataSimulatorDiagnosticsSysex :: nat where "FirmataSimulatorDiagnosticsSysex = 0"

datatype pin_mode = MInput | MOutput | MAnalog | MPwm | MServo | MI2c | MPullup

fun FirmataPinMode :: "pin_mode \<Rightarrow> nat" where
  "FirmataPinMode MInput = 0"
| "FirmataPinMode MOutput = 1"
| "FirmataPinMode MAnalog = 2"
| "FirmataPinMode MPwm = 3"
| "FirmataPinMode MServo = 4"
| "FirmataPinMode MI2c = 6"
| "FirmataPinMode MPullup = 11"

datatype i2c_mode = I2cWrite | I2cRead | I2cReadContinuous | I2cStopReading

fun FirmataI2cMode :: "i2c_mode \<Rightarrow> nat" where
  "FirmataI2cMode I2cWrite = 0"
| "FirmataI2cMode I2cRead = 8"
| "FirmataI2cMode I2cReadContinuous = 16"
| "FirmataI2cMode I2cStopReading = 24"

definition FirmataI2cRestartTx :: nat where "FirmataI2cRestartTx = 64"
definition FirmataI2cMaxReadBytes :: nat where "FirmataI2cMaxReadBytes = 62"
definition FirmataMax14Bit :: nat where "FirmataMax14Bit = 16383"

subsection \<open>Helpers\<close>

definition requireInteger :: "jsnum \<Rightarrow> nat \<Rightarrow> nat \<Rightarrow> firmata_error + nat" where
  "requireInteger v lo hi =
    (case v of
      Fin r \<Rightarrow> if of_int \<lfloor>r\<rfloor> = r \<and> real lo \<le> r \<and> r \<le> real hi then Inr (nat \<lfloor>r\<rfloor>) else Inl FValidation
    | _ \<Rightarrow> Inl FValidation)"

definition resolvePinMode :: "pin_mode + jsnum \<Rightarrow> firmata_error + nat" where
  "resolvePinMode m = (case m of Inl name \<Rightarrow> Inr (FirmataPinMode name) | Inr v \<Rightarrow> requireInteger v 0 127)"

definition pin_modes :: "pin_mode list" where
  "pin_modes = [MInput, MOutput, MAnalog, MPwm, MServo, MI2c, MPullup]"

definition pinModeName :: "nat \<Rightarrow> pin_mode option" where
  "pinModeName v = List.find (\<lambda>m. FirmataPinMode m = v) pin_modes"

definition split_pair :: "nat \<Rightarrow> nat list" where
  "split_pair v = [v AND 127, drop_bit 7 v AND 127]"

definition encodePair :: "jsnum \<Rightarrow> firmata_error + nat list" where
  "encodePair v = then_do (requireInteger v 0 FirmataMax14Bit) (\<lambda>n. Inr (split_pair n))"

definition pair_value :: "nat \<Rightarrow> nat \<Rightarrow> nat" where
  "pair_value low high = (low AND 127) OR push_bit 7 (high AND 127)"

definition readPair :: "nat list \<Rightarrow> nat \<Rightarrow> firmata_error + nat" where
  "readPair bs i = (if Suc i < length bs then Inr (pair_value (bs ! i) (bs ! Suc i)) else Inl FProtocol)"

subsection \<open>Encoders\<close>

definition encodeSysex :: "nat \<Rightarrow> nat list \<Rightarrow> firmata_error + nat list" where
  "encodeSysex command payload =
    (if command \<le> 127 \<and> (\<forall>b\<in>set payload. b \<le> 127) then Inr (startSysex # command # payload @ [endSysex])
     else Inl FValidation)"

definition encodeVersionRequest :: "nat list" where
  "encodeVersionRequest = [reportVersion]"

definition encodeSystemReset :: "nat list" where
  "encodeSystemReset = [systemReset]"

definition encodeFirmwareQuery :: "firmata_error + nat list" where
  "encodeFirmwareQuery = encodeSysex reportFirmware []"

definition encodeCapabilityQuery :: "firmata_error + nat list" where
  "encodeCapabilityQuery = encodeSysex capabilityQuery []"

definition encodeAnalogMappingQuery :: "firmata_error + nat list" where
  "encodeAnalogMappingQuery = encodeSysex analogMappingQuery []"

definition encodePinStateQuery :: "jsnum \<Rightarrow> firmata_error + nat list" where
  "encodePinStateQuery pin = then_do (requireInteger pin 0 127) (\<lambda>p. encodeSysex pinStateQuery [p])"

definition encodeSetPinMode :: "jsnum \<Rightarrow> pin_mode + jsnum \<Rightarrow> firmata_error + nat list" where
  "encodeSetPinMode pin mode =
    then_do (requireInteger pin 0 127) (\<lambda>p. then_do (resolvePinMode mode) (\<lambda>m. Inr [setPinModeByte, p, m]))"

definition encodeSetDigitalPinValue :: "jsnum \<Rightarrow> bool \<Rightarrow> firmata_error + nat list" where
  "encodeSetDigitalPinValue pin v =
    then_do (requireInteger pin 0 127) (\<lambda>p. Inr [setDigitalPinValue, p, if v then 1 else 0])"

definition encodeDigitalPortWrite :: "jsnum \<Rightarrow> jsnum \<Rightarrow> firmata_error + nat list" where
  "encodeDigitalPortWrite port v =
    then_do (requireInteger v 0 FirmataMax14Bit) (\<lambda>n.
      then_do (requireInteger port 0 15) (\<lambda>p. Inr ((digitalPort OR p) # split_pair n)))"

definition encodeReportAnalog :: "jsnum \<Rightarrow> bool \<Rightarrow> firmata_error + nat list" where
  "encodeReportAnalog channel enable =
    then_do (requireInteger channel 0 15) (\<lambda>c. Inr [reportAnalog OR c, if enable then 1 else 0])"

definition encodeReportDigitalPort :: "jsnum \<Rightarrow> bool \<Rightarrow> firmata_error + nat list" where
  "encodeReportDigitalPort port enable =
    then_do (requireInteger port 0 15) (\<lambda>p. Inr [reportDigital OR p, if enable then 1 else 0])"

definition encodeAnalogWrite :: "jsnum \<Rightarrow> jsnum \<Rightarrow> firmata_error + nat list" where
  "encodeAnalogWrite pin v =
    then_do (requireInteger pin 0 127) (\<lambda>p. then_do (requireInteger v 0 2097151) (\<lambda>n.
      if p \<le> 15 \<and> n \<le> FirmataMax14Bit then Inr ((analogStatus OR p) # split_pair n)
      else encodeSysex extendedAnalog
        (p # split_pair n @ (if n > FirmataMax14Bit then [drop_bit 14 n AND 127] else []))))"

definition encodeServoConfig :: "jsnum \<Rightarrow> jsnum \<Rightarrow> jsnum \<Rightarrow> firmata_error + nat list" where
  "encodeServoConfig pin minPulse maxPulse =
    then_do (requireInteger pin 0 127) (\<lambda>p. then_do (encodePair minPulse) (\<lambda>a. then_do (encodePair maxPulse) (\<lambda>b.
      encodeSysex servoConfig (p # a @ b))))"

definition encodeSamplingInterval :: "jsnum \<Rightarrow> firmata_error + nat list" where
  "encodeSamplingInterval ms =
    then_do (requireInteger ms 1 FirmataMax14Bit) (\<lambda>n. encodeSysex samplingInterval (split_pair n))"

definition encodeI2cConfig :: "jsnum \<Rightarrow> firmata_error + nat list" where
  "encodeI2cConfig delayMs = then_do (encodePair delayMs) (encodeSysex i2cConfig)"

definition i2cControl :: "i2c_mode \<Rightarrow> bool \<Rightarrow> nat" where
  "i2cControl mode stopTx = FirmataI2cMode mode OR (if stopTx then 0 else FirmataI2cRestartTx)"

definition requireI2cAddress :: "jsnum \<Rightarrow> firmata_error + nat" where
  "requireI2cAddress a = requireInteger a 0 127"

definition register_pair :: "jsnum option \<Rightarrow> firmata_error + nat list" where
  "register_pair r = (case r of None \<Rightarrow> Inr [] | Some v \<Rightarrow> encodePair v)"

definition encodeI2cReadRequest :: "jsnum \<Rightarrow> jsnum option \<Rightarrow> jsnum \<Rightarrow> bool \<Rightarrow> bool \<Rightarrow> firmata_error + nat list" where
  "encodeI2cReadRequest address reg count periodic stopTx =
    then_do (requireI2cAddress address) (\<lambda>a. then_do (requireInteger count 1 FirmataMax14Bit) (\<lambda>n.
      then_do (register_pair reg) (\<lambda>r.
        encodeSysex i2cRequest
          (a # i2cControl (if periodic then I2cReadContinuous else I2cRead) stopTx # r @ split_pair n))))"

fun require_bytes :: "jsnum list \<Rightarrow> firmata_error + nat list" where
  "require_bytes [] = Inr []"
| "require_bytes (v # vs) =
    then_do (requireInteger v 0 255) (\<lambda>b. then_do (require_bytes vs) (\<lambda>bs. Inr (b # bs)))"

definition encodeI2cWriteRequest :: "jsnum \<Rightarrow> jsnum option \<Rightarrow> jsnum list \<Rightarrow> bool \<Rightarrow> firmata_error + nat list" where
  "encodeI2cWriteRequest address reg data stopTx =
    then_do (requireI2cAddress address) (\<lambda>a. then_do (require_bytes data) (\<lambda>bs. then_do (register_pair reg) (\<lambda>r.
      encodeSysex i2cRequest (a # i2cControl I2cWrite stopTx # r @ concat (map split_pair bs)))))"

definition encodeI2cStopReading :: "jsnum \<Rightarrow> firmata_error + nat list" where
  "encodeI2cStopReading address =
    then_do (requireI2cAddress address) (\<lambda>a. encodeSysex i2cRequest [a, FirmataI2cMode I2cStopReading])"

subsection \<open>Decoders\<close>

record pin_capability =
  pc_mode :: nat
  pc_resolution :: nat

record pin_capabilities =
  pcs_pin :: nat
  pcs_capabilities :: "pin_capability list"

fun decodePackedBytes :: "nat list \<Rightarrow> nat list" where
  "decodePackedBytes (a # b # bs) = pair_value a b # decodePackedBytes bs"
| "decodePackedBytes _ = []"

definition decodeStringData :: "nat list \<Rightarrow> code_unit list" where
  "decodeStringData bs =
    (case decode_points (map (\<lambda>b. b mod 256) (decodePackedBytes bs)) new_decoder of
       (cs, d) \<Rightarrow> filter (\<lambda>u. u \<noteq> 0) (utf16 cs @ decode_flush d))"

text \<open>The loop: the pins so far and the capabilities of the current pin.\<close>

fun capability_loop :: "nat list \<Rightarrow> pin_capabilities list \<Rightarrow> pin_capability list \<Rightarrow> firmata_error + pin_capabilities list" where
  "capability_loop [] pins caps = Inr pins"
| "capability_loop [m] pins caps =
    (if m = 127 then Inr (pins @ [\<lparr>pcs_pin = length pins, pcs_capabilities = caps\<rparr>]) else Inl FProtocol)"
| "capability_loop (m # r # bs) pins caps =
    (if m = 127 then capability_loop (r # bs) (pins @ [\<lparr>pcs_pin = length pins, pcs_capabilities = caps\<rparr>]) []
     else if r = 127 then Inl FProtocol
     else capability_loop bs pins (caps @ [\<lparr>pc_mode = m, pc_resolution = r AND 127\<rparr>]))"

definition parseCapabilityResponse :: "nat list \<Rightarrow> firmata_error + pin_capabilities list" where
  "parseCapabilityResponse bs =
    then_do (capability_loop bs [] []) (\<lambda>pins. if pins = [] then Inl FProtocol else Inr pins)"

definition parseAnalogMappingResponse :: "nat list \<Rightarrow> firmata_error + nat option list" where
  "parseAnalogMappingResponse bs =
    (if bs = [] then Inl FProtocol else Inr (map (\<lambda>b. if b = 127 then None else Some (b AND 127)) bs))"

fun state_chunks :: "nat list \<Rightarrow> nat \<Rightarrow> nat \<Rightarrow> nat" where
  "state_chunks [] i acc = acc"
| "state_chunks (c # cs) i acc = state_chunks cs (Suc i) (acc OR push_bit (7 * i) (c AND 127))"

definition parsePinStateResponse :: "nat list \<Rightarrow> firmata_error + (nat \<times> nat \<times> nat)" where
  "parsePinStateResponse bs =
    (case bs of
      pin # mode # chunks \<Rightarrow>
        if length chunks > 3 then Inl FProtocol
        else Inr (pin AND 127, mode AND 127, state_chunks chunks 0 0)
    | _ \<Rightarrow> Inl FProtocol)"

definition parseFirmwareReport :: "nat list \<Rightarrow> nat \<times> nat \<times> code_unit list" where
  "parseFirmwareReport bs =
    (case bs of
      major # minor # name \<Rightarrow> (major AND 127, minor AND 127, decodeStringData name)
    | _ \<Rightarrow> (0, 0, []))"

definition parseI2cReply :: "nat list \<Rightarrow> firmata_error + (nat \<times> nat \<times> nat list)" where
  "parseI2cReply bs =
    (if length bs < 4 then Inl FProtocol
     else if odd (length (drop 4 bs)) then Inl FProtocol
     else then_do (readPair bs 0) (\<lambda>a. then_do (readPair bs 2) (\<lambda>r. Inr (a, r, decodePackedBytes (drop 4 bs)))))"

subsection \<open>The streaming decoder\<close>

datatype malformed_reason = SysexOverflow | EmptySysex | SysexInterrupted | BadPayload firmata_error

datatype firmata_message =
    FVersion nat nat
  | FFirmware nat nat "code_unit list"
  | FCapabilities "pin_capabilities list"
  | FAnalogMapping "nat option list"
  | FPinState nat nat nat
  | FDigital nat nat "nat list"
  | FAnalog nat nat
  | FI2cReply nat nat "nat list"
  | FString "code_unit list"
  | FSysex nat "nat list"
  | FDeviceError nat "code_unit list"
  | FMalformed malformed_reason
  | FVersionRequest
  | FSystemReset

datatype direction = FromDevice | FromHost

record firmata_decoder =
  fd_direction :: direction
  fd_maxSysexBytes :: nat
  fd_sysex :: "nat list option"
  fd_sysexOverflow :: bool
  fd_pendingStatus :: "nat option"
  fd_pendingLength :: nat
  fd_pendingData :: "nat list"

definition FirmataDecoder :: "direction option \<Rightarrow> nat option \<Rightarrow> firmata_decoder" where
  "FirmataDecoder dir maxBytes =
    \<lparr>fd_direction = (case dir of None \<Rightarrow> FromDevice | Some d \<Rightarrow> d),
     fd_maxSysexBytes = (case maxBytes of None \<Rightarrow> 4096 | Some n \<Rightarrow> n),
     fd_sysex = None, fd_sysexOverflow = False, fd_pendingStatus = None, fd_pendingLength = 0, fd_pendingData = []\<rparr>"

definition parsed :: "('a \<Rightarrow> firmata_message) \<Rightarrow> firmata_error + 'a \<Rightarrow> firmata_message" where
  "parsed f r = (case r of Inl e \<Rightarrow> FMalformed (BadPayload e) | Inr v \<Rightarrow> f v)"

definition decodeSysex :: "nat \<Rightarrow> nat list \<Rightarrow> firmata_message" where
  "decodeSysex command data =
    (if command = reportFirmware then (case parseFirmwareReport data of (a, b, name) \<Rightarrow> FFirmware a b name)
     else if command = stringData then FString (decodeStringData data)
     else if command = capabilityResponse then parsed FCapabilities (parseCapabilityResponse data)
     else if command = analogMappingResponse then parsed FAnalogMapping (parseAnalogMappingResponse data)
     else if command = pinStateResponse then parsed (\<lambda>(p, m, s). FPinState p m s) (parsePinStateResponse data)
     else if command = i2cReply then parsed (\<lambda>(a, r, d). FI2cReply a r d) (parseI2cReply data)
     else if command = FirmataSimulatorDiagnosticsSysex then
       FDeviceError (case data of [] \<Rightarrow> 0 | b # _ \<Rightarrow> b) (decodeStringData (drop 1 data))
     else FSysex command data)"

definition clear_pending :: "firmata_decoder \<Rightarrow> firmata_decoder" where
  "clear_pending d = d\<lparr>fd_pendingStatus := None, fd_pendingLength := 0, fd_pendingData := []\<rparr>"

definition beginStatus :: "nat \<Rightarrow> firmata_decoder \<Rightarrow> firmata_message list \<times> firmata_decoder" where
  "beginStatus b d0 =
    (let d = clear_pending d0; high = b AND 240 in
     if b = startSysex then ([], d\<lparr>fd_sysex := Some [], fd_sysexOverflow := False\<rparr>)
     else if b = endSysex then ([], d)
     else if high = digitalPort \<or> high = analogStatus then
       ([], d\<lparr>fd_pendingStatus := Some b, fd_pendingLength := 2\<rparr>)
     else if b = reportVersion then
       (if fd_direction d = FromHost then ([FVersionRequest], d)
        else ([], d\<lparr>fd_pendingStatus := Some b, fd_pendingLength := 2\<rparr>))
     else ([], d))"

definition pushSysexByte :: "nat \<Rightarrow> nat list \<Rightarrow> firmata_decoder \<Rightarrow> firmata_message list \<times> firmata_decoder" where
  "pushSysexByte b sysex d =
    (if b = startSysex then ([], d\<lparr>fd_sysex := Some [], fd_sysexOverflow := False\<rparr>)
     else if b = endSysex then
       (if fd_sysexOverflow d then ([FMalformed SysexOverflow], d\<lparr>fd_sysex := None, fd_sysexOverflow := False\<rparr>)
        else (case sysex of
            [] \<Rightarrow> ([FMalformed EmptySysex], d\<lparr>fd_sysex := None\<rparr>)
          | command # data \<Rightarrow> ([decodeSysex command data], d\<lparr>fd_sysex := None\<rparr>)))
     else if b AND 128 \<noteq> 0 then
       (case beginStatus b (d\<lparr>fd_sysex := None, fd_sysexOverflow := False\<rparr>) of
          (ms, d') \<Rightarrow> (FMalformed SysexInterrupted # ms, d'))
     else if fd_sysexOverflow d then ([], d)
     else if length sysex + 1 > fd_maxSysexBytes d then ([], d\<lparr>fd_sysex := Some [], fd_sysexOverflow := True\<rparr>)
     else ([], d\<lparr>fd_sysex := Some (sysex @ [b])\<rparr>))"

definition pin_bits :: "nat \<Rightarrow> nat list" where
  "pin_bits v = map (\<lambda>bit. drop_bit bit v AND 1) [0, 1, 2, 3, 4, 5, 6, 7]"

definition pushDataByte :: "nat \<Rightarrow> firmata_decoder \<Rightarrow> firmata_message list \<times> firmata_decoder" where
  "pushDataByte b d =
    (case fd_pendingStatus d of
      None \<Rightarrow> ([], d)
    | Some status \<Rightarrow>
        (let data = fd_pendingData d @ [b] in
         if length data < fd_pendingLength d then ([], d\<lparr>fd_pendingData := data\<rparr>)
         else
           ((if status = reportVersion then [FVersion (data ! 0 AND 127) (data ! 1 AND 127)]
             else if status AND 240 = digitalPort then
               (let v = pair_value (data ! 0) (data ! 1) in [FDigital (status AND 15) v (pin_bits v)])
             else if status AND 240 = analogStatus then
               [FAnalog (status AND 15) (pair_value (data ! 0) (data ! 1))]
             else []),
            clear_pending d)))"

definition pushByte :: "nat \<Rightarrow> firmata_decoder \<Rightarrow> firmata_message list \<times> firmata_decoder" where
  "pushByte b d =
    (if fd_direction d = FromHost \<and> b = systemReset then
       ([FSystemReset], (clear_pending d)\<lparr>fd_sysex := None, fd_sysexOverflow := False\<rparr>)
     else if b \<ge> 248 then ([], d)
     else (case fd_sysex d of
         Some sysex \<Rightarrow> pushSysexByte b sysex d
       | None \<Rightarrow>
           if b = startSysex then ([], (clear_pending d)\<lparr>fd_sysex := Some [], fd_sysexOverflow := False\<rparr>)
           else if b AND 128 \<noteq> 0 then beginStatus b d
           else pushDataByte b d))"

fun firmata_push :: "nat list \<Rightarrow> firmata_decoder \<Rightarrow> firmata_message list \<times> firmata_decoder" where
  "firmata_push [] d = ([], d)"
| "firmata_push (b # bs) d =
    (case pushByte b d of (ms, d1) \<Rightarrow> (case firmata_push bs d1 of (ns, d2) \<Rightarrow> (ms @ ns, d2)))"

text \<open>A chunk after another: what the decoder says is what it says of the bytes in one piece.\<close>

fun firmata_feed :: "nat list list \<Rightarrow> firmata_decoder \<Rightarrow> firmata_message list \<times> firmata_decoder" where
  "firmata_feed [] d = ([], d)"
| "firmata_feed (c # cs) d =
    (case firmata_push c d of (ms, d1) \<Rightarrow> (case firmata_feed cs d1 of (ns, d2) \<Rightarrow> (ms @ ns, d2)))"

subsection \<open>Bits\<close>

lemma and_127: "(x :: nat) AND 127 = x mod 128"
  using take_bit_eq_mask[of 7 x] by (simp add: take_bit_eq_mod mask_eq_exp_minus_1)

lemma take_or_push: "take_bit n a OR push_bit n b = take_bit n a + push_bit n (b :: nat)"
proof -
  have "take_bit n a AND push_bit n b = 0"
    by (rule bit_eqI) (auto simp: bit_simps)
  then show ?thesis
    by (simp add: disjunctive_add_eq_or)
qed

lemma or_shift: "a < 2 ^ n \<Longrightarrow> (a :: nat) OR push_bit n b = a + 2 ^ n * b"
  using take_or_push[of n a b] by (simp add: take_bit_nat_eq_self push_bit_eq_mult mult.commute)

lemma pair_value_eq: "pair_value a b = a mod 128 + 128 * (b mod 128)"
  using or_shift[of "a mod 128" 7 "b mod 128"] by (simp add: pair_value_def and_127)

lemma split_pair_eq: "n < 16384 \<Longrightarrow> split_pair n = [n mod 128, n div 128]"
  by (simp add: split_pair_def and_127 drop_bit_eq_div mod_less div_less_iff_less_mult)

lemma split_pair_7bit: "b \<in> set (split_pair n) \<Longrightarrow> b \<le> 127"
  by (auto simp: split_pair_def and_127 intro: order.trans[OF less_imp_le[OF mod_less_divisor]])

lemma pair_split: "n < 16384 \<Longrightarrow> pair_value (n mod 128) (n div 128) = n"
  by (simp add: pair_value_eq div_less_iff_less_mult)

lemma status_bits:
  "p < 16 \<Longrightarrow> (144 OR p) AND 240 = (144 :: nat) \<and> (144 OR p) AND 15 = p \<and> 144 OR p < 240 \<and> (144 OR p) AND 128 \<noteq> 0"
  "p < 16 \<Longrightarrow> (224 OR p) AND 240 = (224 :: nat) \<and> (224 OR p) AND 15 = p \<and> 224 OR p < 240 \<and> (224 OR p) AND 128 \<noteq> 0"
proof -
  have "\<forall>p\<in>set [0..<16]. (144 OR p) AND 240 = (144 :: nat) \<and> (144 OR p) AND 15 = p \<and> 144 OR p < 240 \<and> (144 OR p) AND 128 \<noteq> 0"
    by code_simp
  then show "p < 16 \<Longrightarrow> (144 OR p) AND 240 = (144 :: nat) \<and> (144 OR p) AND 15 = p \<and> 144 OR p < 240 \<and> (144 OR p) AND 128 \<noteq> 0"
    by auto
  have "\<forall>p\<in>set [0..<16]. (224 OR p) AND 240 = (224 :: nat) \<and> (224 OR p) AND 15 = p \<and> 224 OR p < 240 \<and> (224 OR p) AND 128 \<noteq> 0"
    by code_simp
  then show "p < 16 \<Longrightarrow> (224 OR p) AND 240 = (224 :: nat) \<and> (224 OR p) AND 15 = p \<and> 224 OR p < 240 \<and> (224 OR p) AND 128 \<noteq> 0"
    by auto
qed

lemma high_bit: "b < 256 \<Longrightarrow> b AND 128 \<noteq> (0 :: nat) \<longleftrightarrow> 128 \<le> b"
proof -
  have "\<forall>b\<in>set [0..<256]. (b AND 128 \<noteq> (0 :: nat)) = (128 \<le> b)"
    by code_simp
  then show "b < 256 \<Longrightarrow> b AND 128 \<noteq> (0 :: nat) \<longleftrightarrow> 128 \<le> b"
    by auto
qed

subsection \<open>The decoder, byte by byte\<close>

lemma firmata_push_append:
  "firmata_push (xs @ ys) d =
    (case firmata_push xs d of (ms, d1) \<Rightarrow> (case firmata_push ys d1 of (ns, d2) \<Rightarrow> (ms @ ns, d2)))"
  by (induction xs arbitrary: d) (auto split: prod.splits)

lemma firmata_feed_push: "firmata_feed cs d = firmata_push (concat cs) d"
  by (induction cs arbitrary: d) (auto simp: firmata_push_append split: prod.splits)

text \<open>\<open>decoder_ok\<close>: the buffers are bounded, and no version report is pending.\<close>

definition decoder_ok :: "firmata_decoder \<Rightarrow> bool" where
  "decoder_ok d \<longleftrightarrow> (case fd_sysex d of None \<Rightarrow> True | Some s \<Rightarrow> length s \<le> fd_maxSysexBytes d) \<and>
    fd_pendingStatus d \<noteq> Some reportVersion \<and>
    (case fd_pendingStatus d of None \<Rightarrow> fd_pendingData d = [] | Some s \<Rightarrow> fd_pendingLength d = 2 \<and> length (fd_pendingData d) < 2)"

definition never_version :: "firmata_message list \<Rightarrow> bool" where
  "never_version ms \<longleftrightarrow> (\<forall>m\<in>set ms. case m of FVersion _ _ \<Rightarrow> False | FVersionRequest \<Rightarrow> False | _ \<Rightarrow> True)"

lemma never_version_simps [simp]:
  "never_version []" "never_version (ms @ ns) \<longleftrightarrow> never_version ms \<and> never_version ns"
  "never_version (m # ms) \<longleftrightarrow> (case m of FVersion _ _ \<Rightarrow> False | FVersionRequest \<Rightarrow> False | _ \<Rightarrow> True) \<and> never_version ms"
  by (auto simp: never_version_def)

lemma decodeSysex_no_version: "never_version [decodeSysex c data]"
  by (auto simp: decodeSysex_def parsed_def split: prod.splits sum.splits)

lemma beginStatus_ok:
  assumes "decoder_ok d" "b < 248" "fd_sysex d = None"
  shows "decoder_ok (snd (beginStatus b d))" "never_version (fst (beginStatus b d))"
  using assms by (auto simp: beginStatus_def decoder_ok_def clear_pending_def Let_def reportVersion_def)

lemma decoder_ok_sysex:
  assumes "decoder_ok d" "\<forall>s. x = Some s \<longrightarrow> length s \<le> fd_maxSysexBytes d"
  shows "decoder_ok (d\<lparr>fd_sysex := x, fd_sysexOverflow := ov\<rparr>)" "decoder_ok (d\<lparr>fd_sysex := x\<rparr>)"
  using assms by (auto simp: decoder_ok_def split: option.splits)

lemma pushSysexByte_ok:
  assumes d: "decoder_ok d" and b: "b < 248"
  shows "decoder_ok (snd (pushSysexByte b s d)) \<and> never_version (fst (pushSysexByte b s d))"
proof -
  let ?d0 = "d\<lparr>fd_sysex := None, fd_sysexOverflow := False\<rparr>"
  have d0: "decoder_ok ?d0" "fd_sysex ?d0 = None"
    using decoder_ok_sysex[OF d, of None] by simp_all
  consider "b = startSysex" | "b = endSysex" "b \<noteq> startSysex" | "b AND 128 \<noteq> 0" "b \<noteq> startSysex" "b \<noteq> endSysex"
    | "b AND 128 = 0" "b \<noteq> startSysex" "b \<noteq> endSysex"
    by blast
  then show ?thesis
  proof cases
    case 1
    then show ?thesis
      using decoder_ok_sysex[OF d, of "Some []"] by (simp add: pushSysexByte_def)
  next
    case 2
    show ?thesis
      using decoder_ok_sysex[OF d, of None] decodeSysex_no_version 2
      by (cases s) (simp_all add: pushSysexByte_def)
  next
    case 3
    then show ?thesis
      using beginStatus_ok[OF d0(1) b d0(2)] by (simp add: pushSysexByte_def case_prod_unfold)
  next
    case 4
    then show ?thesis
      using d decoder_ok_sysex[OF d, of "Some []"] decoder_ok_sysex[OF d, of "Some (s @ [b])"]
      by (simp add: pushSysexByte_def)
  qed
qed

lemma pushByte_plain:
  "b < 248 \<Longrightarrow> pushByte b d =
    (case fd_sysex d of
       Some sysex \<Rightarrow> pushSysexByte b sysex d
     | None \<Rightarrow>
         if b = startSysex then ([], (clear_pending d)\<lparr>fd_sysex := Some [], fd_sysexOverflow := False\<rparr>)
         else if b AND 128 \<noteq> 0 then beginStatus b d
         else pushDataByte b d)"
  by (auto simp: pushByte_def systemReset_def)

lemma pushByte_ok:
  assumes "decoder_ok d"
  shows "decoder_ok (snd (pushByte b d)) \<and> never_version (fst (pushByte b d))"
proof (cases "fd_direction d = FromHost \<and> b = systemReset \<or> b \<ge> 248")
  case True
  then have "pushByte b d = ([FSystemReset], (clear_pending d)\<lparr>fd_sysex := None, fd_sysexOverflow := False\<rparr>) \<or>
      pushByte b d = ([], d)"
    by (auto simp: pushByte_def)
  moreover have "decoder_ok ((clear_pending d)\<lparr>fd_sysex := None, fd_sysexOverflow := False\<rparr>)"
    by (simp add: decoder_ok_def clear_pending_def)
  ultimately show ?thesis
    using assms by (elim disjE) simp_all
next
  case False
  then have b: "b < 248"
    by simp
  show ?thesis
  proof (cases "fd_sysex d")
    case None
    have "decoder_ok (snd (pushDataByte b d)) \<and> never_version (fst (pushDataByte b d))"
      using assms by (auto simp: pushDataByte_def decoder_ok_def clear_pending_def Let_def split: option.splits)
    moreover have "decoder_ok ((clear_pending d)\<lparr>fd_sysex := Some [], fd_sysexOverflow := False\<rparr>)"
      by (simp add: decoder_ok_def clear_pending_def)
    moreover have "pushByte b d = (if b = startSysex then ([], (clear_pending d)\<lparr>fd_sysex := Some [], fd_sysexOverflow := False\<rparr>)
        else if b AND 128 \<noteq> 0 then beginStatus b d else pushDataByte b d)"
      using None by (simp add: pushByte_plain[OF b])
    ultimately show ?thesis
      using beginStatus_ok[OF assms b None] by simp
  next
    case (Some s)
    have "decoder_ok (snd (pushSysexByte b s d)) \<and> never_version (fst (pushSysexByte b s d))"
      by (rule pushSysexByte_ok[OF assms b])
    moreover have "pushByte b d = pushSysexByte b s d"
      using Some by (simp add: pushByte_plain[OF b])
    ultimately show ?thesis
      by simp
  qed
qed

lemma beginStatus_max: "fd_maxSysexBytes (snd (beginStatus b d)) = fd_maxSysexBytes d"
  by (simp add: beginStatus_def clear_pending_def Let_def)

lemma pushByte_max: "fd_maxSysexBytes (snd (pushByte b d)) = fd_maxSysexBytes d"
proof -
  have "fd_maxSysexBytes (snd (pushSysexByte c s d)) = fd_maxSysexBytes d" for c s
    by (simp add: pushSysexByte_def case_prod_unfold beginStatus_max split: list.split)
  moreover have "fd_maxSysexBytes (snd (pushDataByte b d)) = fd_maxSysexBytes d"
    by (simp add: pushDataByte_def clear_pending_def Let_def split: option.split)
  ultimately show ?thesis
    by (simp add: pushByte_def clear_pending_def beginStatus_max split: option.split)
qed

lemma firmata_push_max: "fd_maxSysexBytes (snd (firmata_push bs d)) = fd_maxSysexBytes d"
proof (induction bs arbitrary: d)
  case (Cons b bs)
  show ?case
    using pushByte_max[of b d] Cons.IH[of "snd (pushByte b d)"] by (simp add: case_prod_unfold)
qed simp

lemma firmata_push_ok:
  "decoder_ok d \<Longrightarrow> decoder_ok (snd (firmata_push bs d)) \<and> never_version (fst (firmata_push bs d))"
proof (induction bs arbitrary: d)
  case (Cons b bs)
  obtain ms d1 where 1: "pushByte b d = (ms, d1)"
    by (cases "pushByte b d")
  obtain ns d2 where 2: "firmata_push bs d1 = (ns, d2)"
    by (cases "firmata_push bs d1")
  from pushByte_ok[OF Cons.prems, of b] Cons.IH[of d1] 1 2 show ?case
    by simp
qed simp

lemma new_decoder_ok: "decoder_ok (FirmataDecoder dir m)"
  by (simp add: decoder_ok_def FirmataDecoder_def)

subsection \<open>Frames\<close>

lemma bytes_below: "b \<le> 127 \<Longrightarrow> b < 248 \<and> b \<noteq> startSysex \<and> b \<noteq> endSysex \<and> b AND 128 = 0"
  using high_bit[of b] by (auto simp: status_bytes)

lemma push_sysex_data:
  "\<forall>b\<in>set p. b \<le> 127 \<Longrightarrow> fd_sysex d = Some s \<Longrightarrow> \<not> fd_sysexOverflow d \<Longrightarrow> length s + length p \<le> fd_maxSysexBytes d \<Longrightarrow>
    firmata_push p d = ([], d\<lparr>fd_sysex := Some (s @ p)\<rparr>)"
proof (induction p arbitrary: s d)
  case Nil
  then have "d\<lparr>fd_sysex := Some s\<rparr> = d"
    by (cases d) simp
  then show ?case
    by simp
next
  case (Cons b p)
  have b: "b < 248" "b \<noteq> startSysex" "b \<noteq> endSysex" "b AND 128 = 0"
    using bytes_below[of b] Cons.prems(1) by auto
  have "pushByte b d = ([], d\<lparr>fd_sysex := Some (s @ [b])\<rparr>)"
    using Cons.prems b by (simp add: pushByte_plain pushSysexByte_def)
  moreover have "firmata_push p (d\<lparr>fd_sysex := Some (s @ [b])\<rparr>) = ([], d\<lparr>fd_sysex := Some ((s @ [b]) @ p)\<rparr>)"
  proof -
    have "firmata_push p (d\<lparr>fd_sysex := Some (s @ [b])\<rparr>) =
        ([], (d\<lparr>fd_sysex := Some (s @ [b])\<rparr>)\<lparr>fd_sysex := Some ((s @ [b]) @ p)\<rparr>)"
      using Cons.prems by (intro Cons.IH) auto
    then show ?thesis
      by simp
  qed
  ultimately show ?case
    by simp
qed

lemma push_start_sysex:
  "\<exists>d'. pushByte startSysex d = ([], d') \<and> fd_sysex d' = Some [] \<and> \<not> fd_sysexOverflow d' \<and>
    fd_maxSysexBytes d' = fd_maxSysexBytes d"
proof -
  have "startSysex < 248"
    by (simp add: status_bytes)
  then show ?thesis
    by (cases "fd_sysex d") (simp_all add: pushByte_plain pushSysexByte_def clear_pending_def)
qed

lemma sysex_frame:
  assumes "encodeSysex c p = Inr fr" "length p < fd_maxSysexBytes d"
  shows "fst (firmata_push fr d) = [decodeSysex c p]" "fd_sysex (snd (firmata_push fr d)) = None"
proof -
  have fr: "fr = startSysex # (c # p) @ [endSysex]" "\<forall>b\<in>set (c # p). b \<le> 127"
    using assms(1) by (auto simp: encodeSysex_def split: if_splits)
  obtain d1 where d1: "pushByte startSysex d = ([], d1)" "fd_sysex d1 = Some []" "\<not> fd_sysexOverflow d1"
    "fd_maxSysexBytes d1 = fd_maxSysexBytes d"
    using push_start_sysex by blast
  have 2: "firmata_push (c # p) d1 = ([], d1\<lparr>fd_sysex := Some (c # p)\<rparr>)"
    using push_sysex_data[OF fr(2) d1(2,3)] assms(2) d1(4) by simp
  have e: "endSysex < 248" "endSysex \<noteq> startSysex"
    by (simp_all add: status_bytes)
  have 3: "pushByte endSysex (d1\<lparr>fd_sysex := Some (c # p)\<rparr>) = ([decodeSysex c p], d1\<lparr>fd_sysex := None\<rparr>)"
    using e d1(3) by (simp add: pushByte_plain pushSysexByte_def)
  have "firmata_push fr d = ([decodeSysex c p], d1\<lparr>fd_sysex := None\<rparr>)"
  proof -
    have "firmata_push ((c # p) @ [endSysex]) d1 = ([decodeSysex c p], d1\<lparr>fd_sysex := None\<rparr>)"
      unfolding firmata_push_append 2 using 3 by simp
    then show ?thesis
      unfolding fr(1) firmata_push.simps(2)[of startSysex] d1(1) by simp
  qed
  then show "fst (firmata_push fr d) = [decodeSysex c p]" "fd_sysex (snd (firmata_push fr d)) = None"
    by simp_all
qed

text \<open>A status byte and its two data bytes, outside a sysex frame.\<close>

lemma status_frame:
  assumes "fd_sysex d = None" "st AND 128 \<noteq> 0" "st < 240" "st AND 240 = digitalPort \<or> st AND 240 = analogStatus"
    and "a \<le> 127" "b \<le> 127"
  shows "fst (firmata_push [st, a, b] d) =
    [if st AND 240 = digitalPort then FDigital (st AND 15) (pair_value a b) (pin_bits (pair_value a b))
     else FAnalog (st AND 15) (pair_value a b)]"
proof -
  have st: "st < 248" "st \<noteq> startSysex" "st \<noteq> endSysex" "st \<noteq> reportVersion"
    using assms(3) by (simp_all add: status_bytes)
  have a: "a < 248" "a \<noteq> startSysex" "a AND 128 = 0" and b: "b < 248" "b \<noteq> startSysex" "b AND 128 = 0"
    using bytes_below[OF assms(5)] bytes_below[OF assms(6)] by auto
  let ?d1 = "(clear_pending d)\<lparr>fd_pendingStatus := Some st, fd_pendingLength := 2\<rparr>"
  have 1: "pushByte st d = ([], ?d1)"
    using st assms(1,2,4) by (auto simp: pushByte_plain beginStatus_def Let_def)
  have 2: "pushByte a ?d1 = ([], ?d1\<lparr>fd_pendingData := [a]\<rparr>)"
    using a assms(1) by (simp add: pushByte_plain pushDataByte_def clear_pending_def)
  have "fst (pushByte b (?d1\<lparr>fd_pendingData := [a]\<rparr>)) =
    [if st AND 240 = digitalPort then FDigital (st AND 15) (pair_value a b) (pin_bits (pair_value a b))
     else FAnalog (st AND 15) (pair_value a b)]"
    using b assms(1,4) st(4) by (auto simp: pushByte_plain pushDataByte_def clear_pending_def Let_def)
  with 1 2 show ?thesis
    by (simp add: case_prod_unfold)
qed

lemma requireInteger_nat: "requireInteger (Fin (real n)) lo hi = (if lo \<le> n \<and> n \<le> hi then Inr n else Inl FValidation)"
  by (simp add: requireInteger_def)

lemma requireInteger_Inr: "requireInteger v lo hi = Inr n \<Longrightarrow> v = Fin (real n) \<and> lo \<le> n \<and> n \<le> hi"
proof -
  assume a: "requireInteger v lo hi = Inr n"
  then obtain r where r: "v = Fin r" "of_int \<lfloor>r\<rfloor> = r" "real lo \<le> r" "r \<le> real hi" "n = nat \<lfloor>r\<rfloor>"
    by (auto simp: requireInteger_def split: jsnum.splits if_splits)
  have "0 \<le> \<lfloor>r\<rfloor>"
    using r(3) by (metis le_floor_iff of_int_0 of_nat_0_le_iff order.trans)
  then have "real n = r"
    using r(2,5) by (metis of_int_of_nat_eq of_nat_nat)
  with r show ?thesis
    by auto
qed

definition analog_of :: "firmata_message \<Rightarrow> (nat \<times> nat) option" where
  "analog_of m =
    (case m of
      FAnalog p v \<Rightarrow> Some (p, v)
    | FSysex c (p # chunks) \<Rightarrow> if c = extendedAnalog then Some (p, state_chunks chunks 0 0) else None
    | _ \<Rightarrow> None)"

lemma chunks2: "n < 16384 \<Longrightarrow> state_chunks (split_pair n) 0 0 = n"
  using pair_split[of n] by (simp add: split_pair_eq pair_value_def push_bit_0_id)

lemma chunks3: "n < 2097152 \<Longrightarrow> state_chunks [n AND 127, drop_bit 7 n AND 127, drop_bit 14 n AND 127] 0 0 = n"
proof -
  assume n: "n < 2097152"
  have d: "drop_bit 7 n = n div 128" "drop_bit 14 n = n div 128 div 128"
    by (simp_all add: drop_bit_eq_div div_mult2_eq[symmetric])
  have m: "n div 128 div 128 < 128"
    using n by (simp add: div_mult2_eq[symmetric] div_less_iff_less_mult)
  have 1: "(n mod 128) OR push_bit 7 (n div 128 mod 128) = n mod 128 + 128 * (n div 128 mod 128)"
    using or_shift[of "n mod 128" 7] by simp
  have lt: "n mod 128 + 128 * (n div 128 mod 128) < 2 ^ 14"
  proof -
    have "n mod 128 \<le> 127" "n div 128 mod 128 \<le> 127"
      using mod_less_divisor[of 128 n] mod_less_divisor[of 128 "n div 128"] by simp_all
    then show ?thesis
      by simp
  qed
  have "state_chunks [n AND 127, drop_bit 7 n AND 127, drop_bit 14 n AND 127] 0 0 =
      (n mod 128 + 128 * (n div 128 mod 128)) OR push_bit 14 (n div 128 div 128)"
    using m 1 by (simp add: and_127 d push_bit_0_id)
  also have "\<dots> = n mod 128 + 128 * (n div 128 mod 128) + 2 ^ 14 * (n div 128 div 128)"
    by (rule or_shift[OF lt])
  also have "\<dots> = n"
  proof -
    have "128 * (n div 128) + n mod 128 = n" "128 * (n div 128 div 128) + n div 128 mod 128 = n div 128"
      by simp_all
    moreover have "(2 :: nat) ^ 14 * (n div 128 div 128) = 16384 * (n div 128 div 128)"
      by simp
    ultimately show ?thesis
      by linarith
  qed
  finally show ?thesis .
qed

subsection \<open>Properties\<close>

text \<open>The decoder cannot report a protocol version. It skips every byte from 0xF8 on as a MIDI
  real-time byte before it looks for status bytes, and the version report is 0xF9: whatever bytes
  arrive in whatever chunks, on either side of the link, no version report and no version request
  ever comes out.\<close>

theorem version_is_never_decoded:
  "FVersion major minor \<notin> set (fst (firmata_feed chunks (FirmataDecoder dir maxBytes))) \<and>
   FVersionRequest \<notin> set (fst (firmata_feed chunks (FirmataDecoder dir maxBytes)))"
  using firmata_push_ok[OF new_decoder_ok[of dir maxBytes], of "concat chunks"]
  by (auto simp: firmata_feed_push never_version_def)

text \<open>Memory of the decoder: after any bytes, the collected sysex payload has at most the
  configured number of bytes and a pending message has less than two data bytes.\<close>

theorem firmata_decoder_bounded:
  "length (case fd_sysex (snd (firmata_feed chunks (FirmataDecoder dir maxBytes))) of None \<Rightarrow> [] | Some s \<Rightarrow> s)
      \<le> (case maxBytes of None \<Rightarrow> 4096 | Some n \<Rightarrow> n) \<and>
   length (fd_pendingData (snd (firmata_feed chunks (FirmataDecoder dir maxBytes)))) < 2"
proof -
  let ?d = "snd (firmata_push (concat chunks) (FirmataDecoder dir maxBytes))"
  have "decoder_ok ?d"
    using firmata_push_ok[OF new_decoder_ok] by simp
  moreover have "fd_maxSysexBytes ?d = (case maxBytes of None \<Rightarrow> 4096 | Some n \<Rightarrow> n)"
    by (simp add: firmata_push_max) (simp add: FirmataDecoder_def)
  ultimately show ?thesis
    by (auto simp: firmata_feed_push decoder_ok_def split: option.splits)
qed

text \<open>A sysex frame is read whatever came before it. From any state of the decoder, inside another
  frame or an overflowed one too, the bytes of \<open>encodeSysex\<close> give exactly the one message that the
  payload stands for.\<close>

theorem sysex_resynchronises:
  assumes "encodeSysex c p = Inr frame" and "length p < fd_maxSysexBytes d" and "concat chunks = frame"
  shows "fst (firmata_feed chunks d) = [decodeSysex c p]"
  using sysex_frame(1)[OF assms(1,2)] by (simp add: firmata_feed_push assms(3))

theorem sysex_resynchronises_witness:
  "fst (firmata_feed [[240, 121], [2, 5, 247]]
      ((FirmataDecoder None None)\<lparr>fd_sysex := Some [1, 2, 3], fd_sysexOverflow := True\<rparr>)) =
    [FFirmware 2 5 []]"
proof -
  have "encodeSysex reportFirmware [2, 5] = Inr [240, 121, 2, 5, 247]"
    by (simp add: encodeSysex_def sysex_commands status_bytes)
  from sysex_resynchronises[OF this, of "(FirmataDecoder None None)\<lparr>fd_sysex := Some [1, 2, 3], fd_sysexOverflow := True\<rparr>"
      "[[240, 121], [2, 5, 247]]"] show ?thesis
    by (simp add: FirmataDecoder_def decodeSysex_def parseFirmwareReport_def decodeStringData_def and_127
        utf16_def decode_flush_def new_decoder_def)
qed

text \<open>An analog write arrives with its value. Every pin and value that \<open>encodeAnalogWrite\<close> accepts is
  decoded on the other side as that pin and that value, up to 14 bits in an analog message, beyond that
  or for a pin above 15 in an extended analog message of two or three 7-bit groups.\<close>

theorem analog_write_survives:
  assumes "encodeAnalogWrite (Fin (real pin)) (Fin (real v)) = Inr frame"
    and "fd_sysex d = None" and "4 < fd_maxSysexBytes d" and "concat chunks = frame"
  shows "map analog_of (fst (firmata_feed chunks d)) = [Some (pin, v)]"
proof -
  have pv: "pin \<le> 127" "v \<le> 2097151"
    using assms(1) by (auto simp: encodeAnalogWrite_def requireInteger_nat then_do_Inr split: if_splits)
  have d: "fst (firmata_feed chunks d) = fst (firmata_push frame d)"
    by (simp add: firmata_feed_push assms(4))
  show ?thesis
  proof (cases "pin \<le> 15 \<and> v \<le> FirmataMax14Bit")
    case True
    then have v: "v < 16384" "pin < 16"
      by (simp_all add: FirmataMax14Bit_def)
    have "frame = [analogStatus OR pin, v mod 128, v div 128]"
      using assms(1) True pv split_pair_eq[OF v(1)] by (simp add: encodeAnalogWrite_def requireInteger_nat)
    moreover have "(analogStatus OR pin) AND 240 = analogStatus" "(analogStatus OR pin) AND 128 \<noteq> 0"
      "analogStatus OR pin < 240" "(analogStatus OR pin) AND 15 = pin" "digitalPort \<noteq> analogStatus"
      using status_bits(2)[OF v(2)] by (simp_all add: status_bytes)
    moreover have "v mod 128 \<le> 127" "v div 128 \<le> 127"
      using v(1) mod_less_divisor[of 128 v] by (simp_all add: less_Suc_eq_le[symmetric] div_less_iff_less_mult)
    ultimately have "fst (firmata_push frame d) = [FAnalog pin v]"
      using status_frame[OF assms(2), of "analogStatus OR pin" "v mod 128" "v div 128"] pair_split[OF v(1)] by simp
    then show ?thesis
      by (simp add: d analog_of_def)
  next
    case False
    define p where "p = pin # split_pair v @ (if v > FirmataMax14Bit then [drop_bit 14 v AND 127] else [])"
    have "encodeSysex extendedAnalog p = Inr frame"
      using assms(1) False pv by (simp add: encodeAnalogWrite_def requireInteger_nat p_def)
    moreover have "length p \<le> 4"
      by (simp add: p_def split_pair_def)
    ultimately have "fst (firmata_push frame d) = [decodeSysex extendedAnalog p]"
      using assms(3) by (intro sysex_frame(1)) auto
    moreover have "state_chunks (tl p) 0 0 = v"
      using chunks2[of v] chunks3[of v] pv(2) by (auto simp: p_def FirmataMax14Bit_def split_pair_def)
    ultimately show ?thesis
      by (simp add: d analog_of_def decodeSysex_def sysex_commands FirmataSimulatorDiagnosticsSysex_def p_def)
  qed
qed

theorem analog_write_survives_witness:
  "map analog_of (fst (firmata_feed [[240, 111], [3, 0, 0, 1, 247]] (FirmataDecoder (Some FromHost) None))) = [Some (3, 16384)]"
proof -
  have "encodeAnalogWrite (Fin (real 3)) (Fin (real 16384)) = Inr [240, 111, 3, 0, 0, 1, 247]"
    unfolding encodeAnalogWrite_def requireInteger_nat
    by (simp add: FirmataMax14Bit_def encodeSysex_def sysex_commands status_bytes split_pair_def and_127 drop_bit_eq_div)
  from analog_write_survives[OF this, of "FirmataDecoder (Some FromHost) None" "[[240, 111], [3, 0, 0, 1, 247]]"]
  show ?thesis
    by (simp add: FirmataDecoder_def)
qed

lemma decodePacked_pairs: "\<forall>n\<in>set ns. n < 16384 \<Longrightarrow> decodePackedBytes (concat (map split_pair ns)) = ns"
  by (induction ns) (simp_all add: split_pair_eq pair_split)

lemma require_bytes_Inr: "require_bytes vs = Inr bs \<Longrightarrow> vs = map (\<lambda>b. Fin (real b)) bs \<and> (\<forall>b\<in>set bs. b \<le> 255)"
  by (induction vs arbitrary: bs) (auto simp: then_do_Inr dest!: requireInteger_Inr)

text \<open>An I2C write arrives with its bytes. Every write request that the encoder accepts is decoded as
  an I2C request for that address whose 7-bit pairs unpack to the register, when there is one, followed
  by exactly the bytes to write.\<close>

theorem i2c_write_survives:
  assumes "encodeI2cWriteRequest (Fin (real a)) (map_option (Fin \<circ> real) reg) (map (Fin \<circ> real) bytes) stopTx = Inr frame"
    and "2 * length bytes + 4 < fd_maxSysexBytes d" and "concat chunks = frame"
  shows "\<exists>pairs. fst (firmata_feed chunks d) = [FSysex i2cRequest (a # i2cControl I2cWrite stopTx # pairs)] \<and>
    decodePackedBytes pairs = (case reg of None \<Rightarrow> [] | Some r \<Rightarrow> [r]) @ bytes"
proof -
  define ns where "ns = (case reg of None \<Rightarrow> [] | Some r \<Rightarrow> [r]) @ bytes"
  from assms(1) obtain bs r where br: "require_bytes (map (Fin \<circ> real) bytes) = Inr bs"
      "register_pair (map_option (Fin \<circ> real) reg) = Inr r"
      "encodeSysex i2cRequest (a # i2cControl I2cWrite stopTx # r @ concat (map split_pair bs)) = Inr frame"
    by (auto simp: encodeI2cWriteRequest_def requireI2cAddress_def then_do_Inr requireInteger_nat split: if_splits)
  have bs: "bs = bytes" "\<forall>b\<in>set bytes. b \<le> 255"
  proof -
    have "map (\<lambda>b. Fin (real b)) bytes = map (\<lambda>b. Fin (real b)) bs"
      using require_bytes_Inr[OF br(1)] by (simp add: comp_def)
    moreover have "inj (\<lambda>b :: nat. Fin (real b))"
      by (simp add: inj_def)
    ultimately show "bs = bytes"
      by (simp add: inj_map_eq_map)
    with require_bytes_Inr[OF br(1)] show "\<forall>b\<in>set bytes. b \<le> 255"
      by simp
  qed
  have r: "r = concat (map split_pair (case reg of None \<Rightarrow> [] | Some x \<Rightarrow> [x]))" "\<forall>x. reg = Some x \<longrightarrow> x < 16384"
    using br(2) by (auto simp: register_pair_def encodePair_def then_do_Inr requireInteger_nat FirmataMax14Bit_def
        split: option.splits if_splits)
  have pairs: "r @ concat (map split_pair bs) = concat (map split_pair ns)"
    by (simp add: ns_def r bs(1))
  have ns: "\<forall>n\<in>set ns. n < 16384"
    using bs(2) r(2) by (auto simp: ns_def split: option.splits)
  have "length (concat (map split_pair ns)) = 2 * length ns" for ns
    by (induction ns) (simp_all add: split_pair_def)
  then have "length (concat (map split_pair ns)) \<le> 2 * length bytes + 2"
    by (simp add: ns_def split: option.split)
  then have "fst (firmata_push frame d) = [decodeSysex i2cRequest (a # i2cControl I2cWrite stopTx # concat (map split_pair ns))]"
    using br(3) assms(2) unfolding pairs by (intro sysex_frame(1)) auto
  then show ?thesis
    using decodePacked_pairs[OF ns]
    by (simp add: firmata_feed_push assms(3) decodeSysex_def sysex_commands FirmataSimulatorDiagnosticsSysex_def ns_def)
qed

theorem i2c_write_survives_witness:
  "\<exists>pairs. fst (firmata_feed [[240, 118, 64, 0, 16, 0], [127, 1, 247]] (FirmataDecoder (Some FromHost) None)) =
      [FSysex i2cRequest (64 # i2cControl I2cWrite True # pairs)] \<and> decodePackedBytes pairs = [16, 255]"
proof -
  have "encodeI2cWriteRequest (Fin (real 64)) (map_option (Fin \<circ> real) (Some 16)) (map (Fin \<circ> real) [255]) True =
      Inr [240, 118, 64, 0, 16, 0, 127, 1, 247]"
    unfolding encodeI2cWriteRequest_def requireI2cAddress_def list.map require_bytes.simps option.map comp_def
      register_pair_def option.case encodePair_def requireInteger_nat
    by (simp add: FirmataMax14Bit_def encodeSysex_def sysex_commands status_bytes split_pair_def and_127 drop_bit_eq_div
        i2cControl_def)
  from i2c_write_survives[OF this, of "FirmataDecoder (Some FromHost) None" "[[240, 118, 64, 0, 16, 0], [127, 1, 247]]"]
  show ?thesis
    by (simp add: FirmataDecoder_def)
qed

text \<open>The capability response of a device with these pins.\<close>

definition capability_bytes :: "pin_capability list list \<Rightarrow> nat list" where
  "capability_bytes pins = concat (map (\<lambda>caps. concat (map (\<lambda>c. [pc_mode c, pc_resolution c]) caps) @ [127]) pins)"

lemma capability_loop_caps:
  "\<forall>c\<in>set caps. pc_mode c < 127 \<and> pc_resolution c < 127 \<Longrightarrow>
    capability_loop (concat (map (\<lambda>c. [pc_mode c, pc_resolution c]) caps) @ 127 # bs) pins acc =
    capability_loop bs (pins @ [\<lparr>pcs_pin = length pins, pcs_capabilities = acc @ caps\<rparr>]) []"
proof (induction caps arbitrary: acc)
  case Nil
  then show ?case
    by (cases bs) simp_all
next
  case (Cons c caps)
  obtain m r where "c = \<lparr>pc_mode = m, pc_resolution = r\<rparr>"
    by (cases c)
  with Cons show ?case
    by (simp add: and_127)
qed

lemma capability_loop_pins:
  "\<forall>caps\<in>set ps. \<forall>c\<in>set caps. pc_mode c < 127 \<and> pc_resolution c < 127 \<Longrightarrow>
    capability_loop (capability_bytes ps) pins [] =
    Inr (pins @ map (\<lambda>i. \<lparr>pcs_pin = length pins + i, pcs_capabilities = ps ! i\<rparr>) [0..<length ps])"
proof (induction ps arbitrary: pins)
  case Nil
  then show ?case
    by (simp add: capability_bytes_def)
next
  case (Cons caps ps)
  have "capability_loop (capability_bytes (caps # ps)) pins [] =
      capability_loop (capability_bytes ps) (pins @ [\<lparr>pcs_pin = length pins, pcs_capabilities = caps\<rparr>]) []"
    using Cons.prems capability_loop_caps[of caps "capability_bytes ps" pins "[]"] by (simp add: capability_bytes_def)
  also have "\<dots> = Inr ((pins @ [\<lparr>pcs_pin = length pins, pcs_capabilities = caps\<rparr>]) @
      map (\<lambda>i. \<lparr>pcs_pin = Suc (length pins) + i, pcs_capabilities = ps ! i\<rparr>) [0..<length ps])"
    using Cons by simp
  also have "\<dots> = Inr (pins @ map (\<lambda>i. \<lparr>pcs_pin = length pins + i, pcs_capabilities = (caps # ps) ! i\<rparr>) [0..<length (caps # ps)])"
    by (simp add: upt_conv_Cons map_Suc_upt[symmetric] comp_def del: upt_Suc)
  finally show ?case .
qed

text \<open>The capability parser reads every device: the response of a device with at least one pin, each
  mode and resolution a byte below 127, is decoded to those pins in order with exactly those modes and
  resolutions.\<close>

theorem capabilities_read_back:
  assumes "pins \<noteq> []" and "\<forall>caps\<in>set pins. \<forall>c\<in>set caps. pc_mode c < 127 \<and> pc_resolution c < 127"
  shows "parseCapabilityResponse (capability_bytes pins) =
    Inr (map (\<lambda>i. \<lparr>pcs_pin = i, pcs_capabilities = pins ! i\<rparr>) [0..<length pins])"
  using capability_loop_pins[OF assms(2), of "[]"] assms(1) by (simp add: parseCapabilityResponse_def)

theorem capabilities_read_back_witness:
  "parseCapabilityResponse [0, 1, 1, 1, 127, 127] =
    Inr [\<lparr>pcs_pin = 0, pcs_capabilities = [\<lparr>pc_mode = 0, pc_resolution = 1\<rparr>, \<lparr>pc_mode = 1, pc_resolution = 1\<rparr>]\<rparr>,
         \<lparr>pcs_pin = 1, pcs_capabilities = []\<rparr>]"
  using capabilities_read_back[of "[[\<lparr>pc_mode = 0, pc_resolution = 1\<rparr>, \<lparr>pc_mode = 1, pc_resolution = 1\<rparr>], []]"]
  by (simp add: capability_bytes_def upt_rec)

end
