(* ===== verification/Firmata_Client.thy ===== *)
theory Firmata_Client
  imports Firmata_Wire
begin

unbundle bit_operations_syntax

text \<open>
  The Firmata client, \<open>packages/protocols-firmata/src/client.ts\<close>: the handshake, the serialized requests,
  the waiters that match the device's messages, the subscriptions and the local checks.

  Requests run one after another (the promise \<open>tail\<close>); \<open>running\<close> is the request whose response is
  awaited. A write to the transport succeeds or fails at once (an argument). Timers are steps.
  \<open>settled\<close> lists the outcome of requests, in order; \<open>sent\<close> the frames written.
\<close>

datatype client_error = CValidation | CProtocol | CUnsupported | CClosed | CQueueFull | CTimeout | CTransport

datatype waiter_kind =
    WVersion
  | WFirmware
  | WCapabilities
  | WMapping
  | WPinState nat
  | WDigital nat
  | WAnalog nat
  | WI2c nat

fun waiter_match :: "waiter_kind \<Rightarrow> firmata_message \<Rightarrow> bool" where
  "waiter_match WVersion m = (case m of FVersion _ _ \<Rightarrow> True | _ \<Rightarrow> False)"
| "waiter_match WFirmware m = (case m of FFirmware _ _ _ \<Rightarrow> True | _ \<Rightarrow> False)"
| "waiter_match WCapabilities m = (case m of FCapabilities _ \<Rightarrow> True | _ \<Rightarrow> False)"
| "waiter_match WMapping m = (case m of FAnalogMapping _ \<Rightarrow> True | _ \<Rightarrow> False)"
| "waiter_match (WPinState pin) m = (case m of FPinState p _ _ \<Rightarrow> p = pin | _ \<Rightarrow> False)"
| "waiter_match (WDigital port) m = (case m of FDigital p _ _ \<Rightarrow> p = port | _ \<Rightarrow> False)"
| "waiter_match (WAnalog ch) m = (case m of FAnalog c _ \<Rightarrow> c = ch | _ \<Rightarrow> False)"
| "waiter_match (WI2c a) m = (case m of FI2cReply a' _ _ \<Rightarrow> a' = a | _ \<Rightarrow> False)"

datatype firmata_request =
    QCapabilities
  | QMapping
  | QPinState jsnum
  | QFirmware
  | QSetPinMode jsnum "pin_mode + jsnum"
  | QDigitalWrite jsnum bool bool
  | QDigitalRead jsnum
  | QAnalogRead jsnum
  | QPwmWrite jsnum jsnum
  | QServoWrite jsnum jsnum
  | QServoConfig jsnum jsnum jsnum
  | QReportAnalog jsnum bool
  | QReportDigital jsnum bool
  | QSampling jsnum
  | QI2cConfig jsnum
  | QI2cRead jsnum "jsnum option" jsnum
  | QI2cReadContinuous jsnum "jsnum option" jsnum
  | QI2cStop jsnum
  | QI2cWrite jsnum "jsnum option" "jsnum list"

datatype firmata_change = ChDigital nat nat "(nat \<times> nat) list" | ChAnalog nat nat | ChI2c nat nat "nat list"

datatype open_state = NotOpened | AwaitVersion | AwaitFirmware nat nat | OpenFailed client_error | OpenDone

record firmata_info =
  fi_protocolMajor :: nat
  fi_protocolMinor :: nat
  fi_firmware :: "(nat \<times> nat \<times> code_unit list) option"

record firmata_client =
  fc_maxQueueDepth :: nat
  fc_decoder :: firmata_decoder
  fc_waiters :: "(nat \<times> waiter_kind \<times> bool) list"
  fc_nextWaiter :: nat
  fc_lastPortValues :: "(nat, nat) jmap"
  fc_pinModes :: "(nat, nat) jmap"
  fc_portLatch :: "(nat, nat) jmap"
  fc_queue :: "(nat \<times> firmata_request) list"
  fc_running :: "(nat \<times> firmata_request \<times> nat) option"
  fc_opened :: bool
  fc_closed :: bool
  fc_open :: open_state
  fc_handshakeWaiter :: "nat option"
  fc_resolved :: "(nat \<times> firmata_message) list"
  fc_handshakeInfo :: "firmata_info option"
  fc_capabilityCache :: "pin_capabilities list option"
  fc_analogMappingCache :: "nat option list option"
  fc_i2cConfigured :: bool
  fc_sent :: "nat list list"
  fc_settled :: "(nat \<times> (client_error + firmata_message option)) list"
  fc_changes :: "firmata_change list"
  fc_notices :: "firmata_message list"

definition FirmataClient :: "nat option \<Rightarrow> nat option \<Rightarrow> firmata_client" where
  "FirmataClient maxQueue maxSysex =
    \<lparr>fc_maxQueueDepth = (case maxQueue of None \<Rightarrow> 64 | Some n \<Rightarrow> n),
     fc_decoder = FirmataDecoder (Some FromDevice) maxSysex, fc_waiters = [], fc_nextWaiter = 0,
     fc_lastPortValues = [], fc_pinModes = [], fc_portLatch = [], fc_queue = [], fc_running = None,
     fc_opened = False, fc_closed = False, fc_open = NotOpened, fc_handshakeWaiter = None, fc_resolved = [], fc_handshakeInfo = None,
     fc_capabilityCache = None, fc_analogMappingCache = None, fc_i2cConfigured = False,
     fc_sent = [], fc_settled = [], fc_changes = [], fc_notices = []\<rparr>"

subsection \<open>Local checks\<close>

definition wire_error :: "firmata_error \<Rightarrow> client_error" where
  "wire_error e = (case e of FValidation \<Rightarrow> CValidation | FProtocol \<Rightarrow> CProtocol)"

definition wired :: "firmata_error + 'a \<Rightarrow> client_error + 'a" where
  "wired r = (case r of Inl e \<Rightarrow> Inl (wire_error e) | Inr v \<Rightarrow> Inr v)"

definition assertPinKnown :: "jsnum \<Rightarrow> firmata_client \<Rightarrow> client_error + nat" where
  "assertPinKnown pin c =
    then_do (wired (requireInteger pin 0 127)) (\<lambda>p.
      case fc_capabilityCache c of
        Some caps \<Rightarrow> if p \<ge> length caps then Inl CUnsupported else Inr p
      | None \<Rightarrow> Inr p)"

definition assertModeSupported :: "nat \<Rightarrow> pin_mode \<Rightarrow> firmata_client \<Rightarrow> client_error + unit" where
  "assertModeSupported p m c =
    (case fc_capabilityCache c of
      None \<Rightarrow> Inr ()
    | Some pins \<Rightarrow>
        if p < length pins \<and> (\<exists>k\<in>set (pcs_capabilities (pins ! p)). pc_mode k = FirmataPinMode m) then Inr ()
        else Inl CUnsupported)"

definition assertModeIs :: "nat \<Rightarrow> pin_mode \<Rightarrow> firmata_client \<Rightarrow> client_error + unit" where
  "assertModeIs p m c =
    (case jget (fc_pinModes c) p of
      Some k \<Rightarrow> if k \<noteq> FirmataPinMode m then Inl CUnsupported else assertModeSupported p m c
    | None \<Rightarrow> assertModeSupported p m c)"

definition assertAnalogChannelKnown :: "jsnum \<Rightarrow> firmata_client \<Rightarrow> client_error + unit" where
  "assertAnalogChannelKnown channel c =
    (case fc_analogMappingCache c of
      None \<Rightarrow> Inr ()
    | Some l \<Rightarrow> if (\<exists>k\<in>set l. case k of None \<Rightarrow> False | Some n \<Rightarrow> channel = Fin (real n)) then Inr () else Inl CUnsupported)"

definition assertI2cCount :: "jsnum \<Rightarrow> client_error + nat" where
  "assertI2cCount count = wired (requireInteger count 1 FirmataI2cMaxReadBytes)"

subsection \<open>What a request sends\<close>

text \<open>
  A request that passes its checks gives the frames to write, the waiter of its response if it has
  one, and the change of the client's tables once the write is done.
\<close>

record firmata_plan =
  fp_frames :: "nat list list"
  fp_waiter :: "waiter_kind option"
  fp_update :: "firmata_client \<Rightarrow> firmata_client"

definition simple_plan :: "nat list \<Rightarrow> firmata_plan" where
  "simple_plan f = \<lparr>fp_frames = [f], fp_waiter = None, fp_update = (\<lambda>c. c)\<rparr>"

definition query_plan :: "waiter_kind \<Rightarrow> nat list list \<Rightarrow> firmata_plan" where
  "query_plan w fs = \<lparr>fp_frames = fs, fp_waiter = Some w, fp_update = (\<lambda>c. c)\<rparr>"

definition queryCapabilities :: "firmata_client \<Rightarrow> client_error + firmata_plan" where
  "queryCapabilities c =
    then_do (wired encodeCapabilityQuery) (\<lambda>f. Inr (query_plan WCapabilities [f]))"

definition queryAnalogMapping :: "firmata_client \<Rightarrow> client_error + firmata_plan" where
  "queryAnalogMapping c =
    then_do (wired encodeAnalogMappingQuery) (\<lambda>f. Inr (query_plan WMapping [f]))"

definition queryPinState :: "jsnum \<Rightarrow> firmata_client \<Rightarrow> client_error + firmata_plan" where
  "queryPinState pin c =
    then_do (wired (encodePinStateQuery pin)) (\<lambda>f. then_do (wired (requireInteger pin 0 127)) (\<lambda>p.
      Inr (query_plan (WPinState p) [f])))"

definition queryFirmware :: "firmata_client \<Rightarrow> client_error + firmata_plan" where
  "queryFirmware c =
    then_do (wired encodeFirmwareQuery) (\<lambda>f. Inr (query_plan WFirmware [f]))"

definition setPinMode :: "jsnum \<Rightarrow> (pin_mode + jsnum) \<Rightarrow> firmata_client \<Rightarrow> client_error + firmata_plan" where
  "setPinMode pin mode c =
    then_do (assertPinKnown pin c) (\<lambda>p.
      then_do (case mode of Inl m \<Rightarrow> assertModeSupported p m c | Inr _ \<Rightarrow> Inr ()) (\<lambda>_.
        then_do (wired (encodeSetPinMode pin mode)) (\<lambda>f. then_do (wired (resolvePinMode mode)) (\<lambda>m.
          Inr \<lparr>fp_frames = [f], fp_waiter = None, fp_update = (\<lambda>c. c\<lparr>fc_pinModes := jset p m (fc_pinModes c)\<rparr>)\<rparr>))))"

definition digitalWrite :: "jsnum \<Rightarrow> bool \<Rightarrow> bool \<Rightarrow> firmata_client \<Rightarrow> client_error + firmata_plan" where
  "digitalWrite pin v by_port c =
    then_do (assertPinKnown pin c) (\<lambda>p.
      if by_port then
        (let port = drop_bit 3 p; mask = push_bit (p AND 7) 1;
             current = (case jget (fc_portLatch c) port of None \<Rightarrow> 0 | Some n \<Rightarrow> n);
             nxt = (if v then current OR mask else (if bit current (p AND 7) then current - mask else current))
         in then_do (wired (encodeDigitalPortWrite (Fin (real port)) (Fin (real nxt)))) (\<lambda>f.
           Inr \<lparr>fp_frames = [f], fp_waiter = None, fp_update = (\<lambda>c. c\<lparr>fc_portLatch := jset port nxt (fc_portLatch c)\<rparr>)\<rparr>))
      else then_do (wired (encodeSetDigitalPinValue pin v)) (\<lambda>f. Inr (simple_plan f)))"

definition digitalRead :: "jsnum \<Rightarrow> firmata_client \<Rightarrow> client_error + firmata_plan" where
  "digitalRead pin c =
    then_do (assertPinKnown pin c) (\<lambda>p.
      let port = drop_bit 3 p in
      then_do (wired (encodeReportDigitalPort (Fin (real port)) False)) (\<lambda>f.
        then_do (wired (encodeReportDigitalPort (Fin (real port)) True)) (\<lambda>g.
          Inr (query_plan (WDigital port) [f, g]))))"

definition analogRead :: "jsnum \<Rightarrow> firmata_client \<Rightarrow> client_error + firmata_plan" where
  "analogRead channel c =
    then_do (assertAnalogChannelKnown channel c) (\<lambda>_.
      then_do (wired (encodeReportAnalog channel True)) (\<lambda>f. then_do (wired (requireInteger channel 0 15)) (\<lambda>ch.
        Inr (query_plan (WAnalog ch) [f]))))"

definition pwmWrite :: "jsnum \<Rightarrow> jsnum \<Rightarrow> firmata_client \<Rightarrow> client_error + firmata_plan" where
  "pwmWrite pin v c =
    then_do (assertPinKnown pin c) (\<lambda>p. then_do (wired (requireInteger v 0 255)) (\<lambda>_.
      then_do (assertModeIs p MPwm c) (\<lambda>_. then_do (wired (encodeAnalogWrite pin v)) (\<lambda>f. Inr (simple_plan f)))))"

definition servoWrite :: "jsnum \<Rightarrow> jsnum \<Rightarrow> firmata_client \<Rightarrow> client_error + firmata_plan" where
  "servoWrite pin v c =
    then_do (assertPinKnown pin c) (\<lambda>p. then_do (wired (requireInteger v 0 180)) (\<lambda>_.
      then_do (assertModeIs p MServo c) (\<lambda>_. then_do (wired (encodeAnalogWrite pin v)) (\<lambda>f. Inr (simple_plan f)))))"

definition servoConfig_request :: "jsnum \<Rightarrow> jsnum \<Rightarrow> jsnum \<Rightarrow> firmata_client \<Rightarrow> client_error + firmata_plan" where
  "servoConfig_request pin lo hi c =
    then_do (assertPinKnown pin c) (\<lambda>p. then_do (wired (encodeServoConfig pin lo hi)) (\<lambda>f.
      Inr \<lparr>fp_frames = [f], fp_waiter = None,
           fp_update = (\<lambda>c. c\<lparr>fc_pinModes := jset p (FirmataPinMode MServo) (fc_pinModes c)\<rparr>)\<rparr>))"

definition reportAnalog_request :: "jsnum \<Rightarrow> bool \<Rightarrow> firmata_client \<Rightarrow> client_error + firmata_plan" where
  "reportAnalog_request channel e c =
    then_do (wired (encodeReportAnalog channel e)) (\<lambda>f. Inr (simple_plan f))"

definition reportDigitalPort :: "jsnum \<Rightarrow> bool \<Rightarrow> firmata_client \<Rightarrow> client_error + firmata_plan" where
  "reportDigitalPort port e c =
    then_do (wired (encodeReportDigitalPort port e)) (\<lambda>f. Inr (simple_plan f))"

definition setSamplingInterval :: "jsnum \<Rightarrow> firmata_client \<Rightarrow> client_error + firmata_plan" where
  "setSamplingInterval ms c =
    then_do (wired (encodeSamplingInterval ms)) (\<lambda>f. Inr (simple_plan f))"

definition i2cConfig_request :: "jsnum \<Rightarrow> firmata_client \<Rightarrow> client_error + firmata_plan" where
  "i2cConfig_request d c =
    then_do (wired (encodeI2cConfig d)) (\<lambda>f.
      Inr \<lparr>fp_frames = [f], fp_waiter = None, fp_update = (\<lambda>c. c\<lparr>fc_i2cConfigured := True\<rparr>)\<rparr>)"

definition i2cRead :: "jsnum \<Rightarrow> (jsnum option) \<Rightarrow> jsnum \<Rightarrow> firmata_client \<Rightarrow> client_error + firmata_plan" where
  "i2cRead a reg count c =
    then_do (assertI2cCount count) (\<lambda>_.
      then_do (wired (encodeI2cReadRequest a reg count False True)) (\<lambda>f.
        then_do (wired (requireI2cAddress a)) (\<lambda>addr. Inr (query_plan (WI2c addr) [f]))))"

definition i2cReadContinuous :: "jsnum \<Rightarrow> (jsnum option) \<Rightarrow> jsnum \<Rightarrow> firmata_client \<Rightarrow> client_error + firmata_plan" where
  "i2cReadContinuous a reg count c =
    then_do (assertI2cCount count) (\<lambda>_.
      then_do (wired (encodeI2cReadRequest a reg count True True)) (\<lambda>f. Inr (simple_plan f)))"

definition i2cStopReading :: "jsnum \<Rightarrow> firmata_client \<Rightarrow> client_error + firmata_plan" where
  "i2cStopReading a c =
    then_do (wired (encodeI2cStopReading a)) (\<lambda>f. Inr (simple_plan f))"

definition i2cWrite :: "jsnum \<Rightarrow> (jsnum option) \<Rightarrow> (jsnum list) \<Rightarrow> firmata_client \<Rightarrow> client_error + firmata_plan" where
  "i2cWrite a reg data c =
    (if data = [] \<and> reg = None then Inl CValidation
     else then_do (wired (encodeI2cWriteRequest a reg data True)) (\<lambda>f. Inr (simple_plan f)))"

fun request_plan :: "firmata_request \<Rightarrow> firmata_client \<Rightarrow> client_error + firmata_plan" where
  "request_plan QCapabilities c = queryCapabilities c"
| "request_plan QMapping c = queryAnalogMapping c"
| "request_plan (QPinState pin) c = queryPinState pin c"
| "request_plan QFirmware c = queryFirmware c"
| "request_plan (QSetPinMode pin mode) c = setPinMode pin mode c"
| "request_plan (QDigitalWrite pin v by_port) c = digitalWrite pin v by_port c"
| "request_plan (QDigitalRead pin) c = digitalRead pin c"
| "request_plan (QAnalogRead channel) c = analogRead channel c"
| "request_plan (QPwmWrite pin v) c = pwmWrite pin v c"
| "request_plan (QServoWrite pin v) c = servoWrite pin v c"
| "request_plan (QServoConfig pin lo hi) c = servoConfig_request pin lo hi c"
| "request_plan (QReportAnalog channel e) c = reportAnalog_request channel e c"
| "request_plan (QReportDigital port e) c = reportDigitalPort port e c"
| "request_plan (QSampling ms) c = setSamplingInterval ms c"
| "request_plan (QI2cConfig d) c = i2cConfig_request d c"
| "request_plan (QI2cRead a reg count) c = i2cRead a reg count c"
| "request_plan (QI2cReadContinuous a reg count) c = i2cReadContinuous a reg count c"
| "request_plan (QI2cStop a) c = i2cStopReading a c"
| "request_plan (QI2cWrite a reg data) c = i2cWrite a reg data c"

lemmas plan_defs = queryCapabilities_def queryAnalogMapping_def queryPinState_def queryFirmware_def setPinMode_def digitalWrite_def digitalRead_def analogRead_def pwmWrite_def servoWrite_def servoConfig_request_def reportAnalog_request_def reportDigitalPort_def setSamplingInterval_def i2cConfig_request_def i2cRead_def i2cReadContinuous_def i2cStopReading_def i2cWrite_def simple_plan_def query_plan_def

subsection \<open>Waiters\<close>

definition waitFor :: "waiter_kind \<Rightarrow> bool \<Rightarrow> firmata_client \<Rightarrow> nat \<times> firmata_client" where
  "waitFor k closeOnTimeout c =
    (fc_nextWaiter c, c\<lparr>fc_waiters := fc_waiters c @ [(fc_nextWaiter c, k, closeOnTimeout)],
                        fc_nextWaiter := Suc (fc_nextWaiter c)\<rparr>)"

definition removeWaiter :: "nat \<Rightarrow> firmata_client \<Rightarrow> firmata_client" where
  "removeWaiter w c = c\<lparr>fc_waiters := filter (\<lambda>(i, _). i \<noteq> w) (fc_waiters c)\<rparr>"

definition settle_request :: "nat \<Rightarrow> client_error + firmata_message option \<Rightarrow> firmata_client \<Rightarrow> firmata_client" where
  "settle_request rid r c = c\<lparr>fc_settled := fc_settled c @ [(rid, r)]\<rparr>"

definition finish_handshake :: "nat \<Rightarrow> nat \<Rightarrow> (nat \<times> nat \<times> code_unit list) option \<Rightarrow> firmata_client \<Rightarrow> firmata_client" where
  "finish_handshake major minor fw c =
    c\<lparr>fc_open := OpenDone, fc_handshakeWaiter := None,
      fc_handshakeInfo := Some \<lparr>fi_protocolMajor = major, fi_protocolMinor = minor, fi_firmware = fw\<rparr>\<rparr>"

text \<open>A waiter is rejected: the request or the handshake that awaits it goes on with the error.\<close>

definition reject_waiter :: "client_error \<Rightarrow> nat \<Rightarrow> firmata_client \<Rightarrow> firmata_client" where
  "reject_waiter e w c =
    (if fc_handshakeWaiter c = Some w then
       (case fc_open c of
         AwaitFirmware major minor \<Rightarrow> finish_handshake major minor None c
       | _ \<Rightarrow> c\<lparr>fc_open := OpenFailed e, fc_handshakeWaiter := None\<rparr>)
     else (case fc_running c of
         Some (rid, q, w') \<Rightarrow> if w' = w then (settle_request rid (Inl e) c)\<lparr>fc_running := None\<rparr> else c
       | None \<Rightarrow> c))"

definition closeWithReason :: "firmata_client \<Rightarrow> firmata_client" where
  "closeWithReason c =
    (if fc_closed c then c
     else fold (reject_waiter CClosed) (map fst (fc_waiters c)) (c\<lparr>fc_closed := True, fc_waiters := []\<rparr>))"

subsection \<open>Messages\<close>

definition emitChange :: "firmata_change \<Rightarrow> firmata_client \<Rightarrow> firmata_client" where
  "emitChange ch c = c\<lparr>fc_changes := fc_changes c @ [ch]\<rparr>"

definition changed_pins :: "nat option \<Rightarrow> nat \<Rightarrow> nat \<Rightarrow> (nat \<times> nat) list" where
  "changed_pins previous port v =
    map (\<lambda>bit. (port * 8 + bit, drop_bit bit v AND 1))
      (filter (\<lambda>bit. case previous of None \<Rightarrow> True | Some p \<Rightarrow> drop_bit bit p AND 1 \<noteq> drop_bit bit v AND 1)
        [0, 1, 2, 3, 4, 5, 6, 7])"

definition handleDigital :: "nat \<Rightarrow> nat \<Rightarrow> firmata_client \<Rightarrow> firmata_client" where
  "handleDigital port v c =
    (let pins = changed_pins (jget (fc_lastPortValues c) port) port v;
         c1 = c\<lparr>fc_lastPortValues := jset port v (fc_lastPortValues c)\<rparr>
     in if pins \<noteq> [] then emitChange (ChDigital port v pins) c1 else c1)"

definition noticeFromMessage :: "firmata_message \<Rightarrow> firmata_client \<Rightarrow> firmata_client" where
  "noticeFromMessage m c =
    (case m of
      FString _ \<Rightarrow> c\<lparr>fc_notices := fc_notices c @ [m]\<rparr>
    | FDeviceError _ _ \<Rightarrow> c\<lparr>fc_notices := fc_notices c @ [m]\<rparr>
    | FMalformed _ \<Rightarrow> c\<lparr>fc_notices := fc_notices c @ [m]\<rparr>
    | FSysex _ _ \<Rightarrow> c\<lparr>fc_notices := fc_notices c @ [m]\<rparr>
    | FVersion _ _ \<Rightarrow> c\<lparr>fc_notices := fc_notices c @ [m]\<rparr>
    | FFirmware _ _ _ \<Rightarrow> c\<lparr>fc_notices := fc_notices c @ [m]\<rparr>
    | _ \<Rightarrow> c)"

definition firmata_dispatch :: "firmata_message \<Rightarrow> firmata_client \<Rightarrow> firmata_client" where
  "firmata_dispatch m c =
    (let hit = List.find (\<lambda>(i, k, _). waiter_match k m) (fc_waiters c);
         c1 = (case hit of None \<Rightarrow> c | Some (i, _) \<Rightarrow> (removeWaiter i c)\<lparr>fc_resolved := fc_resolved c @ [(i, m)]\<rparr>)
     in (case m of
          FDigital port v _ \<Rightarrow> handleDigital port v c1
        | FAnalog ch v \<Rightarrow> emitChange (ChAnalog ch v) c1
        | FI2cReply a r d \<Rightarrow> emitChange (ChI2c a r d) c1
        | _ \<Rightarrow> if hit = None then noticeFromMessage m c1 else c1))"

text \<open>After a chunk, what awaited the resolved promises goes on.\<close>

definition complete_request :: "firmata_request \<Rightarrow> firmata_message \<Rightarrow> firmata_client \<Rightarrow> firmata_client" where
  "complete_request q m c =
    (case (q, m) of
      (QCapabilities, FCapabilities pins) \<Rightarrow> c\<lparr>fc_capabilityCache := Some pins\<rparr>
    | (QMapping, FAnalogMapping chs) \<Rightarrow> c\<lparr>fc_analogMappingCache := Some chs\<rparr>
    | (QPinState _, FPinState p mode _) \<Rightarrow> c\<lparr>fc_pinModes := jset p mode (fc_pinModes c)\<rparr>
    | (QAnalogRead ch, FAnalog _ _) \<Rightarrow>
        (case encodeReportAnalog ch False of Inl _ \<Rightarrow> c | Inr f \<Rightarrow> c\<lparr>fc_sent := fc_sent c @ [f]\<rparr>)
    | _ \<Rightarrow> c)"

definition resume_waiter :: "nat \<times> firmata_message \<Rightarrow> firmata_client \<Rightarrow> firmata_client" where
  "resume_waiter wm c =
    (case wm of (w, m) \<Rightarrow>
      if fc_handshakeWaiter c = Some w then
        (case (fc_open c, m) of
          (AwaitVersion, FVersion major minor) \<Rightarrow>
            (case waitFor WFirmware False c of (w', c1) \<Rightarrow>
              c1\<lparr>fc_open := AwaitFirmware major minor, fc_handshakeWaiter := Some w',
                 fc_sent := fc_sent c1 @ [projr encodeFirmwareQuery]\<rparr>)
        | (AwaitFirmware major minor, FFirmware a b name) \<Rightarrow> finish_handshake major minor (Some (a, b, name)) c
        | _ \<Rightarrow> c)
      else (case fc_running c of
          Some (rid, q, w') \<Rightarrow>
            if w' = w then (settle_request rid (Inr (Some m)) (complete_request q m c))\<lparr>fc_running := None\<rparr> else c
        | None \<Rightarrow> c))"

definition receive_chunk :: "nat list \<Rightarrow> firmata_client \<Rightarrow> firmata_client" where
  "receive_chunk chunk c =
    (case firmata_push chunk (fc_decoder c) of
      (ms, d) \<Rightarrow>
        (let c1 = fold firmata_dispatch ms (c\<lparr>fc_decoder := d\<rparr>)
         in fold resume_waiter (fc_resolved c1) (c1\<lparr>fc_resolved := []\<rparr>)))"

subsection \<open>Requests and the handshake\<close>

definition enqueue :: "nat \<Rightarrow> firmata_request \<Rightarrow> firmata_client \<Rightarrow> firmata_client" where
  "enqueue rid q c =
    (if fc_closed c then settle_request rid (Inl CClosed) c
     else if length (fc_queue c) \<ge> fc_maxQueueDepth c then settle_request rid (Inl CQueueFull) c
     else c\<lparr>fc_queue := fc_queue c @ [(rid, q)]\<rparr>)"

definition start_request :: "bool \<Rightarrow> firmata_client \<Rightarrow> firmata_client" where
  "start_request write_ok c =
    (case (fc_running c, fc_queue c) of
      (None, (rid, q) # rest) \<Rightarrow>
        (let c0 = c\<lparr>fc_queue := rest\<rparr> in
         if fc_closed c \<or> \<not> fc_opened c then settle_request rid (Inl CClosed) c0
         else (case request_plan q c0 of
             Inl e \<Rightarrow> settle_request rid (Inl e) c0
           | Inr plan \<Rightarrow>
               if \<not> write_ok then settle_request rid (Inl CTransport) c0
               else (let c1 = (fp_update plan c0)\<lparr>fc_sent := fc_sent c0 @ fp_frames plan\<rparr> in
                 (case fp_waiter plan of
                   None \<Rightarrow> settle_request rid (Inr None) c1
                 | Some k \<Rightarrow> (case waitFor k True c1 of (w, c2) \<Rightarrow> c2\<lparr>fc_running := Some (rid, q, w)\<rparr>)))))
    | _ \<Rightarrow> c)"

definition open_client :: "bool \<Rightarrow> firmata_client \<Rightarrow> firmata_client" where
  "open_client transport_ok c =
    (if fc_open c \<noteq> NotOpened then c
     else (case waitFor WVersion True c of (w, c1) \<Rightarrow>
       if transport_ok then
         c1\<lparr>fc_open := AwaitVersion, fc_handshakeWaiter := Some w, fc_opened := True, fc_closed := False,
            fc_sent := fc_sent c1 @ [encodeVersionRequest]\<rparr>
       else closeWithReason ((removeWaiter w c1)\<lparr>fc_open := OpenFailed CTransport\<rparr>)))"

definition waiter_timeout :: "nat \<Rightarrow> firmata_client \<Rightarrow> firmata_client" where
  "waiter_timeout w c =
    (case List.find (\<lambda>(i, _). i = w) (fc_waiters c) of
      None \<Rightarrow> c
    | Some (_, k, closeOnTimeout) \<Rightarrow>
        (let c1 = removeWaiter w c;
             c2 = (if closeOnTimeout then closeWithReason c1 else c1);
             failed = (fc_handshakeWaiter c2 = Some w \<and> k = WVersion);
             c3 = reject_waiter CTimeout w c2
         in if failed then closeWithReason c3 else c3))"

datatype firmata_event =
    EOpen bool
  | EEnqueue nat firmata_request
  | EStart bool
  | EChunk "nat list"
  | ETimeout nat
  | EClose

fun firmata_step :: "firmata_event \<Rightarrow> firmata_client \<Rightarrow> firmata_client" where
  "firmata_step (EOpen ok) c = open_client ok c"
| "firmata_step (EEnqueue rid q) c = enqueue rid q c"
| "firmata_step (EStart ok) c = start_request ok c"
| "firmata_step (EChunk bs) c = (if fc_opened c \<and> \<not> fc_closed c then receive_chunk bs c else c)"
| "firmata_step (ETimeout w) c = waiter_timeout w c"
| "firmata_step EClose c = closeWithReason c"

definition firmata_run :: "firmata_event list \<Rightarrow> firmata_client \<Rightarrow> firmata_client" where
  "firmata_run es c = fold firmata_step es c"

subsection \<open>The handshake\<close>

text \<open>\<open>no_version c\<close>: the handshake has not got past its first message.\<close>

definition no_version :: "firmata_client \<Rightarrow> bool" where
  "no_version c \<longleftrightarrow> decoder_ok (fc_decoder c) \<and> never_version (map snd (fc_resolved c)) \<and> fc_handshakeInfo c = None \<and>
    (\<forall>a b. fc_open c \<noteq> AwaitFirmware a b) \<and> fc_open c \<noteq> OpenDone"

lemma no_version_reject: "no_version c \<Longrightarrow> no_version (reject_waiter e w c)"
  by (auto simp: no_version_def reject_waiter_def settle_request_def split: open_state.split option.split)

lemma no_version_fold: "(\<And>x c. no_version c \<Longrightarrow> no_version (f x c)) \<Longrightarrow> no_version c \<Longrightarrow> no_version (fold f xs c)"
  by (induction xs arbitrary: c) auto

lemma no_version_close: "no_version c \<Longrightarrow> no_version (closeWithReason c)"
proof -
  assume a: "no_version c"
  then have "no_version (c\<lparr>fc_closed := True, fc_waiters := []\<rparr>)"
    by (simp add: no_version_def)
  with a show ?thesis
    by (auto simp: closeWithReason_def intro: no_version_fold no_version_reject)
qed

text \<open>Subscriptions touch only what they report.\<close>

definition core_part :: "firmata_client \<Rightarrow> firmata_client" where
  "core_part c = c\<lparr>fc_changes := [], fc_notices := [], fc_lastPortValues := []\<rparr>"

lemma core_emit: "core_part (emitChange ch c) = core_part c"
  by (simp add: core_part_def emitChange_def)

lemma core_digital: "core_part (handleDigital port v c) = core_part c"
  by (simp add: handleDigital_def Let_def core_emit) (simp add: core_part_def)

lemma core_notice: "core_part (noticeFromMessage m c) = core_part c"
  by (cases m) (simp_all add: core_part_def noticeFromMessage_def)

lemma core_dispatch:
  "core_part (firmata_dispatch m c) = core_part
    (case List.find (\<lambda>(i, k, _). waiter_match k m) (fc_waiters c) of None \<Rightarrow> c
     | Some (i, _) \<Rightarrow> (removeWaiter i c)\<lparr>fc_resolved := fc_resolved c @ [(i, m)]\<rparr>)"
  unfolding firmata_dispatch_def Let_def
  by (cases m) (simp_all add: core_digital core_emit core_notice)

lemma core_fields:
  "core_part c = core_part c' \<Longrightarrow> fc_open c = fc_open c' \<and> fc_decoder c = fc_decoder c' \<and>
    fc_handshakeInfo c = fc_handshakeInfo c' \<and> fc_running c = fc_running c' \<and> fc_closed c = fc_closed c' \<and>
    fc_settled c = fc_settled c' \<and> fc_resolved c = fc_resolved c' \<and> fc_waiters c = fc_waiters c' \<and>
    fc_handshakeWaiter c = fc_handshakeWaiter c' \<and> fc_nextWaiter c = fc_nextWaiter c'"
  by (cases c; cases c') (simp add: core_part_def)

lemma dispatch_parts:
  "fc_open (firmata_dispatch m c) = fc_open c" "fc_decoder (firmata_dispatch m c) = fc_decoder c"
  "fc_handshakeInfo (firmata_dispatch m c) = fc_handshakeInfo c" "fc_running (firmata_dispatch m c) = fc_running c"
  "fc_closed (firmata_dispatch m c) = fc_closed c" "fc_settled (firmata_dispatch m c) = fc_settled c"
  "fc_handshakeWaiter (firmata_dispatch m c) = fc_handshakeWaiter c"
  "fc_resolved (firmata_dispatch m c) =
    fc_resolved c @ (case List.find (\<lambda>(i, k, _). waiter_match k m) (fc_waiters c) of None \<Rightarrow> [] | Some (i, _) \<Rightarrow> [(i, m)])"
  "fc_waiters (firmata_dispatch m c) =
    (case List.find (\<lambda>(i, k, _). waiter_match k m) (fc_waiters c) of None \<Rightarrow> fc_waiters c
     | Some (i, _) \<Rightarrow> filter (\<lambda>(j, _). j \<noteq> i) (fc_waiters c))"
  using core_fields[OF core_dispatch[of m c]] by (simp_all add: removeWaiter_def split: option.splits prod.splits)

lemma no_version_dispatch: "no_version c \<Longrightarrow> never_version [m] \<Longrightarrow> no_version (firmata_dispatch m c)"
  by (auto simp: no_version_def dispatch_parts split: option.split)

lemma no_version_dispatches: "no_version c \<Longrightarrow> never_version ms \<Longrightarrow> no_version (fold firmata_dispatch ms c)"
proof (induction ms arbitrary: c)
  case (Cons m ms)
  have "no_version (firmata_dispatch m c)"
    using Cons.prems by (intro no_version_dispatch) simp_all
  with Cons show ?case
    by simp
qed simp

lemma complete_request_parts:
  "fc_open (complete_request q m c) = fc_open c" "fc_decoder (complete_request q m c) = fc_decoder c"
  "fc_handshakeInfo (complete_request q m c) = fc_handshakeInfo c" "fc_resolved (complete_request q m c) = fc_resolved c"
  "fc_waiters (complete_request q m c) = fc_waiters c" "fc_closed (complete_request q m c) = fc_closed c"
  "fc_settled (complete_request q m c) = fc_settled c" "fc_handshakeWaiter (complete_request q m c) = fc_handshakeWaiter c"
  "fc_nextWaiter (complete_request q m c) = fc_nextWaiter c" "fc_running (complete_request q m c) = fc_running c"
  by (auto simp: complete_request_def split: firmata_request.split firmata_message.split sum.split)

lemma no_version_resume: "no_version c \<Longrightarrow> never_version [m] \<Longrightarrow> no_version (resume_waiter (w, m) c)"
  by (auto simp: no_version_def resume_waiter_def settle_request_def complete_request_parts
      split: open_state.split firmata_message.splits option.split)

lemma no_version_resumes:
  "no_version c \<Longrightarrow> never_version (map snd wms) \<Longrightarrow> no_version (fold resume_waiter wms c)"
proof (induction wms arbitrary: c)
  case (Cons wm wms)
  have "no_version (resume_waiter wm c)"
    using Cons.prems no_version_resume[of c "snd wm" "fst wm"] by simp
  with Cons show ?case
    by simp
qed simp

lemma no_version_chunk: "no_version c \<Longrightarrow> no_version (receive_chunk bs c)"
proof -
  assume a: "no_version c"
  obtain ms d where 1: "firmata_push bs (fc_decoder c) = (ms, d)"
    by (cases "firmata_push bs (fc_decoder c)")
  have "decoder_ok d" "never_version ms"
    using a firmata_push_ok[of "fc_decoder c" bs] 1 by (simp_all add: no_version_def)
  then have "no_version (fold firmata_dispatch ms (c\<lparr>fc_decoder := d\<rparr>))"
    using a by (intro no_version_dispatches) (simp_all add: no_version_def)
  then show ?thesis
    unfolding receive_chunk_def 1 by (simp add: Let_def) (intro no_version_resumes; simp add: no_version_def)
qed

lemma plan_update_parts:
  "request_plan q c = Inr p \<Longrightarrow> fc_open (fp_update p x) = fc_open x \<and> fc_decoder (fp_update p x) = fc_decoder x \<and>
    fc_handshakeInfo (fp_update p x) = fc_handshakeInfo x \<and> fc_resolved (fp_update p x) = fc_resolved x \<and>
    fc_waiters (fp_update p x) = fc_waiters x \<and> fc_closed (fp_update p x) = fc_closed x \<and>
    fc_settled (fp_update p x) = fc_settled x \<and> fc_running (fp_update p x) = fc_running x \<and>
    fc_nextWaiter (fp_update p x) = fc_nextWaiter x \<and> fc_handshakeWaiter (fp_update p x) = fc_handshakeWaiter x"
  by (cases q) (auto simp: then_do_Inr plan_defs Let_def split: if_splits)

lemma no_version_start: "no_version c \<Longrightarrow> no_version (start_request ok c)"
  using plan_update_parts
  by (auto simp: start_request_def settle_request_def waitFor_def Let_def no_version_def
      split: option.split list.split sum.split)

lemma no_version_timeout: "no_version c \<Longrightarrow> no_version (waiter_timeout w c)"
proof -
  assume "no_version c"
  then have "no_version (removeWaiter w c)"
    by (simp add: no_version_def removeWaiter_def)
  then show ?thesis
    using \<open>no_version c\<close> by (auto simp: waiter_timeout_def Let_def split: option.split intro: no_version_close no_version_reject)
qed

lemma no_version_step: "no_version c \<Longrightarrow> no_version (firmata_step e c)"
proof (cases e)
  case (EOpen ok)
  assume a: "no_version c"
  have "no_version ((removeWaiter w c1)\<lparr>fc_open := OpenFailed CTransport\<rparr>)" if "waitFor WVersion True c = (w, c1)" for w c1
    using a that by (auto simp: no_version_def removeWaiter_def waitFor_def)
  with a EOpen show ?thesis
    by (auto simp: open_client_def waitFor_def intro!: no_version_close split: prod.split) (auto simp: no_version_def)
next
  case (EEnqueue rid q)
  assume "no_version c"
  with EEnqueue show ?thesis
    by (auto simp: enqueue_def settle_request_def no_version_def)
qed (auto intro: no_version_start no_version_chunk no_version_timeout no_version_close)

lemma no_version_run: "no_version c \<Longrightarrow> no_version (firmata_run es c)"
  unfolding firmata_run_def by (rule no_version_fold[OF no_version_step])

lemma no_version_new: "no_version (FirmataClient q s)"
  by (simp add: no_version_def FirmataClient_def new_decoder_ok)

text \<open>Against this client the handshake never completes. Whatever is opened, queued, received, timed
  out or closed, in whatever order, \<open>open()\<close> never resolves and the handshake information is never
  set: the decoder drops every \<open>0xF9\<close> byte before it can start a version report, so the awaited version
  message does not exist.\<close>

theorem handshake_never_completes:
  "fc_open (firmata_run es (FirmataClient q s)) \<noteq> OpenDone \<and>
   (\<forall>major minor. fc_open (firmata_run es (FirmataClient q s)) \<noteq> AwaitFirmware major minor) \<and>
   fc_handshakeInfo (firmata_run es (FirmataClient q s)) = None"
  using no_version_run[OF no_version_new, of es q s] by (simp add: no_version_def)

subsection \<open>What subscribers see\<close>

text \<open>A subscriber that applies the reported pin levels in order.\<close>

definition apply_pins :: "(nat \<times> nat) list \<Rightarrow> (nat \<Rightarrow> nat) \<Rightarrow> nat \<Rightarrow> nat" where
  "apply_pins pins v = fold (\<lambda>(p, x) v. v(p := x)) pins v"

definition apply_change :: "firmata_change \<Rightarrow> (nat \<Rightarrow> nat) \<Rightarrow> nat \<Rightarrow> nat" where
  "apply_change ch v = (case ch of ChDigital _ _ pins \<Rightarrow> apply_pins pins v | _ \<Rightarrow> v)"

definition subscriber_view :: "firmata_change list \<Rightarrow> nat \<Rightarrow> nat" where
  "subscriber_view chs = fold apply_change chs (\<lambda>_. 0)"

definition view_ok :: "firmata_client \<Rightarrow> bool" where
  "view_ok c \<longleftrightarrow> (\<forall>port v k. jget (fc_lastPortValues c) port = Some v \<longrightarrow> k < 8 \<longrightarrow>
    subscriber_view (fc_changes c) (port * 8 + k) = drop_bit k v AND 1)"

lemma apply_pins_other: "p \<notin> fst ` set pins \<Longrightarrow> apply_pins pins v p = v p"
  unfolding apply_pins_def by (induction pins arbitrary: v) auto

lemma apply_pins_hit: "distinct (map fst pins) \<Longrightarrow> (p, x) \<in> set pins \<Longrightarrow> apply_pins pins v p = x"
proof (induction pins arbitrary: v)
  case (Cons a pins)
  show ?case
  proof (cases "a = (p, x)")
    case True
    then have "p \<notin> fst ` set pins"
      using Cons.prems(1) by force
    then show ?thesis
      using True apply_pins_other[of p pins] by (simp add: apply_pins_def)
  next
    case False
    then show ?thesis
      using Cons by (cases a) (auto simp: apply_pins_def)
  qed
qed simp

lemma below_8: "set [0, 1, 2, 3, 4, 5, 6, 7 :: nat] = {k. k < 8}"
  by (auto simp: numeral_eq_Suc less_Suc_eq)

lemma changed_pins_set:
  "(p, x) \<in> set (changed_pins previous port v) \<longleftrightarrow>
    (\<exists>k<8. p = port * 8 + k \<and> x = drop_bit k v AND 1 \<and>
      (case previous of None \<Rightarrow> True | Some p \<Rightarrow> drop_bit k p AND 1 \<noteq> drop_bit k v AND 1))"
  unfolding changed_pins_def set_map set_filter below_8 by (simp only: image_iff mem_Collect_eq prod.inject bex_simps) metis

lemma distinct_ports: "distinct (map (\<lambda>k. port * 8 + k) (filter P [0, 1, 2, 3, 4, 5, 6, 7 :: nat]))"
  by (intro distinct_map[THEN iffD2] conjI distinct_filter) (simp_all add: inj_on_def)

lemma changed_pins_distinct: "distinct (map fst (changed_pins previous port v))"
  unfolding changed_pins_def map_map comp_def fst_conv by (rule distinct_ports)

lemma view_snoc: "subscriber_view (chs @ [ch]) = apply_change ch (subscriber_view chs)"
  by (simp add: subscriber_view_def)

lemma view_digital: "view_ok c \<Longrightarrow> view_ok (handleDigital port v c)"
proof -
  assume a: "view_ok c"
  define pins where "pins = changed_pins (jget (fc_lastPortValues c) port) port v"
  have new: "apply_pins pins (subscriber_view (fc_changes c)) (port * 8 + k) = drop_bit k v AND 1" if "k < 8" for k
  proof (cases "(port * 8 + k, drop_bit k v AND 1) \<in> set pins")
    case True
    then show ?thesis
      using apply_pins_hit changed_pins_distinct unfolding pins_def by blast
  next
    case False
    then have "port * 8 + k \<notin> fst ` set pins"
      using that unfolding pins_def by (auto simp: changed_pins_set)
    then have 1: "apply_pins pins (subscriber_view (fc_changes c)) (port * 8 + k) = subscriber_view (fc_changes c) (port * 8 + k)"
      by (rule apply_pins_other)
    obtain p where "jget (fc_lastPortValues c) port = Some p" "drop_bit k p AND 1 = drop_bit k v AND 1"
      using False \<open>k < 8\<close> unfolding pins_def changed_pins_set by (cases "jget (fc_lastPortValues c) port") auto
    with 1 a \<open>k < 8\<close> show ?thesis
      by (simp add: view_ok_def)
  qed
  have old: "apply_pins pins (subscriber_view (fc_changes c)) (port' * 8 + k) = subscriber_view (fc_changes c) (port' * 8 + k)"
    if "port' \<noteq> port" "k < 8" for port' k
  proof (rule apply_pins_other, rule notI)
    assume "port' * 8 + k \<in> fst ` set pins"
    then obtain j where "j < 8" "port' * 8 + k = port * 8 + j"
      by (auto simp: pins_def changed_pins_set)
    then show False
      using that by presburger
  qed
  have "view_ok (emitChange (ChDigital port v pins) (c\<lparr>fc_lastPortValues := jset port v (fc_lastPortValues c)\<rparr>))"
    using a new old by (auto simp: view_ok_def emitChange_def view_snoc apply_change_def jget_set split: if_splits)
  moreover have "view_ok (c\<lparr>fc_lastPortValues := jset port v (fc_lastPortValues c)\<rparr>)" if "pins = []"
    using a new that by (auto simp: view_ok_def apply_pins_def jget_set split: if_splits)
  ultimately show ?thesis
    by (simp add: handleDigital_def Let_def pins_def[symmetric])
qed

lemma view_only: "fc_changes c' = fc_changes c \<Longrightarrow> fc_lastPortValues c' = fc_lastPortValues c \<Longrightarrow> view_ok c' = view_ok c"
  by (simp add: view_ok_def)

lemma view_other: "view_ok c \<Longrightarrow> (\<forall>a b d. ch \<noteq> ChDigital a b d) \<Longrightarrow> view_ok (emitChange ch c)"
  by (cases ch) (simp_all add: view_ok_def emitChange_def view_snoc apply_change_def)

lemma view_dispatch: "view_ok c \<Longrightarrow> view_ok (firmata_dispatch m c)"
proof -
  assume a: "view_ok c"
  define c1 where "c1 = (case List.find (\<lambda>(i, k, _). waiter_match k m) (fc_waiters c) of None \<Rightarrow> c
     | Some (i, _) \<Rightarrow> (removeWaiter i c)\<lparr>fc_resolved := fc_resolved c @ [(i, m)]\<rparr>)"
  have 1: "view_ok c1"
    using a unfolding c1_def by (auto simp: view_ok_def removeWaiter_def split: option.split)
  have 2: "view_ok (noticeFromMessage m c1)"
    using 1 by (cases m) (simp_all add: noticeFromMessage_def view_ok_def)
  show ?thesis
    unfolding firmata_dispatch_def Let_def c1_def[symmetric]
    using 1 2 view_digital view_other by (cases m) simp_all
qed

lemma same_view:
  "fc_changes (reject_waiter e w c) = fc_changes c" "fc_lastPortValues (reject_waiter e w c) = fc_lastPortValues c"
  "fc_changes (removeWaiter w c) = fc_changes c" "fc_lastPortValues (removeWaiter w c) = fc_lastPortValues c"
  "fc_changes (settle_request rid r c) = fc_changes c" "fc_lastPortValues (settle_request rid r c) = fc_lastPortValues c"
  "fc_changes (complete_request q m c) = fc_changes c" "fc_lastPortValues (complete_request q m c) = fc_lastPortValues c"
  by (auto simp: reject_waiter_def settle_request_def finish_handshake_def removeWaiter_def complete_request_def
      split: option.splits open_state.splits firmata_request.splits firmata_message.splits sum.splits)

lemma view_fold: "(\<And>x c. view_ok c \<Longrightarrow> view_ok (f x c)) \<Longrightarrow> view_ok c \<Longrightarrow> view_ok (fold f xs c)"
  by (induction xs arbitrary: c) auto

lemma view_close: "view_ok c \<Longrightarrow> view_ok (closeWithReason c)"
proof -
  assume a: "view_ok c"
  then have "view_ok (c\<lparr>fc_closed := True, fc_waiters := []\<rparr>)"
    by (simp add: view_ok_def)
  with a show ?thesis
    unfolding closeWithReason_def
    by (auto intro!: view_fold simp: view_only[OF same_view(1,2)])
qed

lemma view_resume: "view_ok c \<Longrightarrow> view_ok (resume_waiter wm c)"
  by (rule view_only[THEN iffD2], unfold resume_waiter_def)
    (auto simp: same_view waitFor_def finish_handshake_def split: option.splits open_state.splits firmata_message.splits prod.splits)

lemma view_chunk: "view_ok c \<Longrightarrow> view_ok (receive_chunk bs c)"
proof -
  assume a: "view_ok c"
  obtain ms d where 1: "firmata_push bs (fc_decoder c) = (ms, d)"
    by (cases "firmata_push bs (fc_decoder c)")
  have "view_ok (fold firmata_dispatch ms (c\<lparr>fc_decoder := d\<rparr>))"
    using a by (intro view_fold view_dispatch) (simp_all add: view_ok_def)
  then show ?thesis
    unfolding receive_chunk_def 1 by (simp add: Let_def) (intro view_fold view_resume; simp add: view_ok_def)
qed

lemma view_plan:
  "request_plan q c = Inr p \<Longrightarrow> fc_changes (fp_update p x) = fc_changes x \<and> fc_lastPortValues (fp_update p x) = fc_lastPortValues x"
  by (cases q) (auto simp: then_do_Inr plan_defs Let_def split: if_splits)

lemma view_start: "view_ok c \<Longrightarrow> view_ok (start_request ok c)"
  by (rule view_only[THEN iffD2], unfold start_request_def)
    (auto simp: same_view waitFor_def Let_def view_plan split: option.splits list.splits sum.splits prod.splits)

lemma view_step: "view_ok c \<Longrightarrow> view_ok (firmata_step e c)"
proof (cases e)
  case (EOpen ok)
  assume a: "view_ok c"
  have "view_ok ((removeWaiter w c1)\<lparr>fc_open := OpenFailed CTransport\<rparr>)" if "waitFor WVersion True c = (w, c1)" for w c1
    using a that by (auto simp: view_ok_def removeWaiter_def waitFor_def)
  with a EOpen show ?thesis
    by (auto simp: open_client_def waitFor_def intro!: view_close split: prod.split) (auto simp: view_ok_def)
next
  case (EEnqueue rid q)
  assume "view_ok c"
  with EEnqueue show ?thesis
    by (auto simp: enqueue_def settle_request_def view_ok_def)
next
  case (ETimeout w)
  assume "view_ok c"
  moreover have "view_ok (reject_waiter CTimeout w d)" if "view_ok d" for d
    using that by (simp add: view_only[OF same_view(1,2)])
  moreover from \<open>view_ok c\<close> have "view_ok (removeWaiter w c)"
    by (simp add: view_only[OF same_view(3,4)])
  ultimately show ?thesis
    using ETimeout by (auto simp: waiter_timeout_def Let_def split: option.split intro: view_close)
qed (auto intro: view_start view_chunk view_close)

lemma view_run: "view_ok (firmata_run es (FirmataClient q s))"
  unfolding firmata_run_def by (rule view_fold[OF view_step]) (simp_all add: view_ok_def FirmataClient_def)

text \<open>Digital change events lose nothing. In whatever order requests, chunks, timeouts and closings
  come, a subscriber that sets each pin to the level each change event reports has, for every port the
  device has reported, exactly the bits of the port's last value, though an event only lists the pins
  that changed and unchanged reports emit no event.\<close>

theorem digital_changes_rebuild_ports:
  assumes "jget (fc_lastPortValues (firmata_run es (FirmataClient q s))) port = Some v" and "k < 8"
  shows "subscriber_view (fc_changes (firmata_run es (FirmataClient q s))) (port * 8 + k) = drop_bit k v AND 1"
  using view_run[of es q s] assms by (simp add: view_ok_def)

theorem digital_changes_rebuild_ports_witness:
  "subscriber_view (fc_changes (firmata_run [EOpen True, EChunk [0x91, 5, 0, 0x91], EChunk [4, 1]] (FirmataClient None None))) (1 * 8 + 7) =
    drop_bit 7 132 AND 1"
proof (rule digital_changes_rebuild_ports)
  show "jget (fc_lastPortValues (firmata_run [EOpen True, EChunk [0x91, 5, 0, 0x91], EChunk [4, 1]] (FirmataClient None None))) 1 = Some 132"
    by code_simp
qed simp

end
