(* ===== verification/Mqtt_Wire.thy ===== *)
theory Mqtt_Wire
  imports Frame_Stream Text_Codec
begin

text \<open>
  The MQTT 3.1.1 codec, \<open>packages/protocols-mqtt/src/wire.ts\<close>, and the topic filters of
  \<open>mapping.ts\<close>. A byte is a number below 256, a string a list of UTF-16 code units. Node's
  \<open>writeUInt16BE\<close> throws a \<open>RangeError\<close> beyond 65535. The locale \<open>frame_codec\<close> is interpreted on
  the packet decoder: \<open>drain_packets\<close> is the loop of the client's \<open>drainRawBuffer\<close> and of the broker.
\<close>

datatype mqtt_error =
    MQTT_INVALID_LENGTH
  | MQTT_INVALID_CLIENT_ID
  | MQTT_INVALID_CREDENTIALS
  | MQTT_INVALID_TOPIC
  | MQTT_INVALID_INTEGER
  | MQTT_UNSUPPORTED_QOS
  | MQTT_PACKET_TOO_LARGE
  | MQTT_QUEUE_FULL
  | MQTT_CLOSED
  | MQTT_CONNECTION_REFUSED
  | MQTT_SUBSCRIPTION_REFUSED
  | MQTT_INFLIGHT_LIMIT
  | MQTT_TIMEOUT
  | RangeError

datatype mqtt_type = CONNECT | CONNACK | PUBLISH | PUBACK | SUBSCRIBE | SUBACK | PINGREQ | PINGRESP | DISCONNECT

definition TYPE_BY_NUMBER :: "(nat \<times> mqtt_type) list" where
  "TYPE_BY_NUMBER = [(1, CONNECT), (2, CONNACK), (3, PUBLISH), (4, PUBACK), (8, SUBSCRIBE), (9, SUBACK),
    (12, PINGREQ), (13, PINGRESP), (14, DISCONNECT)]"

fun TYPE_NUMBERS :: "mqtt_type \<Rightarrow> nat" where
  "TYPE_NUMBERS CONNECT = 1"
| "TYPE_NUMBERS CONNACK = 2"
| "TYPE_NUMBERS PUBLISH = 3"
| "TYPE_NUMBERS PUBACK = 4"
| "TYPE_NUMBERS SUBSCRIBE = 8"
| "TYPE_NUMBERS SUBACK = 9"
| "TYPE_NUMBERS PINGREQ = 12"
| "TYPE_NUMBERS PINGRESP = 13"
| "TYPE_NUMBERS DISCONNECT = 14"

subsection \<open>Encoders\<close>

fun length_bytes :: "nat \<Rightarrow> nat list" where
  "length_bytes n = (if n div 128 > 0 then (128 + n mod 128) # length_bytes (n div 128) else [n mod 128])"

declare length_bytes.simps [simp del]

definition encodeRemainingLength :: "nat \<Rightarrow> mqtt_error + nat list" where
  "encodeRemainingLength n = (if n > 268435455 then Inl MQTT_INVALID_LENGTH else Inr (length_bytes n))"

definition uint16_bytes :: "nat \<Rightarrow> nat list" where
  "uint16_bytes n = [n div 256, n mod 256]"

definition encodeMqttString :: "code_unit list \<Rightarrow> mqtt_error + nat list" where
  "encodeMqttString s =
    (let bytes = encode_text s
     in if length bytes > 65535 then Inl RangeError else Inr (uint16_bytes (length bytes) @ bytes))"

definition encodeUint16 :: "jsnum \<Rightarrow> bool \<Rightarrow> mqtt_error + nat list" where
  "encodeUint16 v allowZero =
    (case v of
      Fin r \<Rightarrow> if of_int \<lfloor>r\<rfloor> = r \<and> (if allowZero then 0 else 1) \<le> r \<and> r \<le> 65535
               then Inr (uint16_bytes (nat \<lfloor>r\<rfloor>)) else Inl MQTT_INVALID_INTEGER
    | _ \<Rightarrow> Inl MQTT_INVALID_INTEGER)"

definition validateQos :: "jsnum \<Rightarrow> mqtt_error + nat" where
  "validateQos q = (if q = Fin 0 then Inr 0 else if q = Fin 1 then Inr 1 else Inl MQTT_UNSUPPORTED_QOS)"

text \<open>The fixed header, the length and the body.\<close>

definition packet_bytes :: "nat \<Rightarrow> nat list \<Rightarrow> mqtt_error + nat list" where
  "packet_bytes header body = then_do (encodeRemainingLength (length body)) (\<lambda>l. Inr (header # l @ body))"

record connect_options =
  co_clientId :: "code_unit list"
  co_keepAliveSeconds :: "jsnum option"
  co_username :: "code_unit list option"
  co_password :: "code_unit list option"
  co_cleanSession :: "bool option"

definition optional_string :: "code_unit list option \<Rightarrow> mqtt_error + nat list" where
  "optional_string s = (case s of None \<Rightarrow> Inr [] | Some t \<Rightarrow> encodeMqttString t)"

definition connect_flags :: "connect_options \<Rightarrow> nat" where
  "connect_flags opts = (if co_cleanSession opts = Some False then 0 else 2) +
    (if co_username opts = None then 0 else 128) + (if co_password opts = None then 0 else 64)"

definition encodeConnect :: "connect_options \<Rightarrow> mqtt_error + nat list" where
  "encodeConnect opts =
    (if co_clientId opts = [] \<and> co_cleanSession opts = Some False then Inl MQTT_INVALID_CLIENT_ID
     else if co_password opts \<noteq> None \<and> co_username opts = None then Inl MQTT_INVALID_CREDENTIALS
     else then_do (encodeMqttString (co_clientId opts)) (\<lambda>cid.
       then_do (optional_string (co_username opts)) (\<lambda>user.
       then_do (optional_string (co_password opts)) (\<lambda>pass.
       then_do (encodeUint16 (case co_keepAliveSeconds opts of None \<Rightarrow> Fin 60 | Some k \<Rightarrow> k) True) (\<lambda>alive.
         packet_bytes (TYPE_NUMBERS CONNECT * 16)
           ([0, 4, 77, 81, 84, 84] @ [4] @ [connect_flags opts] @ alive @ cid @ user @ pass))))))"

text \<open>Topic filters: levels are separated by a slash (47); 35 is the multi-level wildcard, 43 the
  single-level one.\<close>

fun split_levels :: "code_unit list \<Rightarrow> code_unit list list" where
  "split_levels [] = [[]]"
| "split_levels (u # us) =
    (if u = 47 then [] # split_levels us else (u # hd (split_levels us)) # tl (split_levels us))"

fun bad_levels :: "code_unit list list \<Rightarrow> bool" where
  "bad_levels [] \<longleftrightarrow> False"
| "bad_levels (p # ps) \<longleftrightarrow>
    (35 \<in> set p \<and> (p \<noteq> [35] \<or> ps \<noteq> [])) \<or> (43 \<in> set p \<and> p \<noteq> [43]) \<or> bad_levels ps"

definition validateTopicFilter :: "code_unit list \<Rightarrow> mqtt_error + unit" where
  "validateTopicFilter f =
    (if f = [] \<or> 0 \<in> set f \<or> bad_levels (split_levels f) then Inl MQTT_INVALID_TOPIC else Inr ())"

definition encodeSubscribe :: "jsnum \<Rightarrow> code_unit list \<Rightarrow> jsnum \<Rightarrow> mqtt_error + nat list" where
  "encodeSubscribe packetId topicFilter qos =
    then_do (validateQos qos) (\<lambda>q. then_do (validateTopicFilter topicFilter) (\<lambda>_.
      then_do (encodeUint16 packetId False) (\<lambda>pid. then_do (encodeMqttString topicFilter) (\<lambda>t.
        packet_bytes (TYPE_NUMBERS SUBSCRIBE * 16 + 2) (pid @ t @ [q])))))"

definition payload_bytes :: "code_unit list + nat list \<Rightarrow> nat list" where
  "payload_bytes p = (case p of Inl s \<Rightarrow> encode_text s | Inr b \<Rightarrow> b)"

definition encodePublish ::
  "code_unit list \<Rightarrow> code_unit list + nat list \<Rightarrow> jsnum option \<Rightarrow> jsnum \<Rightarrow> mqtt_error + nat list" where
  "encodePublish topic payload packetId qos =
    then_do (validateQos qos) (\<lambda>q.
      if topic = [] \<or> 43 \<in> set topic \<or> 35 \<in> set topic \<or> 0 \<in> set topic then Inl MQTT_INVALID_TOPIC
      else then_do (encodeMqttString topic) (\<lambda>t.
        then_do (if q = 0 then Inr [] else encodeUint16 (case packetId of None \<Rightarrow> Fin 1 | Some i \<Rightarrow> i) False) (\<lambda>pid.
          packet_bytes (TYPE_NUMBERS PUBLISH * 16 + (if q = 0 then 0 else 2)) (t @ pid @ payload_bytes payload))))"

definition encodePingReq :: "nat list" where
  "encodePingReq = [TYPE_NUMBERS PINGREQ * 16, 0]"

definition encodeDisconnect :: "nat list" where
  "encodeDisconnect = [TYPE_NUMBERS DISCONNECT * 16, 0]"

definition encodePuback :: "jsnum \<Rightarrow> mqtt_error + nat list" where
  "encodePuback packetId = then_do (encodeUint16 packetId False) (\<lambda>p. Inr ([64, 2] @ p))"

subsection \<open>The decoder\<close>

record mqtt_packet =
  pk_type :: mqtt_type
  pk_topic :: "code_unit list option"
  pk_payload :: "nat list option"
  pk_qos :: "nat option"
  pk_packetId :: "nat option"
  pk_returnCodes :: "nat list option"
  pk_topicFilters :: "code_unit list list option"
  pk_connackReturnCode :: "nat option"

definition plain_packet :: "mqtt_type \<Rightarrow> mqtt_packet" where
  "plain_packet t = \<lparr>pk_type = t, pk_topic = None, pk_payload = None, pk_qos = None, pk_packetId = None,
     pk_returnCodes = None, pk_topicFilters = None, pk_connackReturnCode = None\<rparr>"

text \<open>\<open>buffer.toString('utf8')\<close>, which keeps a byte order mark.\<close>

definition buffer_string :: "nat list \<Rightarrow> code_unit list" where
  "buffer_string bs =
    (case decode_chunk bs (new_decoder\<lparr>ud_bomSeen := True\<rparr>) of (us, d) \<Rightarrow> us @ decode_flush d)"

definition readUInt16BE :: "nat list \<Rightarrow> nat \<Rightarrow> nat" where
  "readUInt16BE bs i = bs ! i * 256 + bs ! Suc i"

fun varint :: "nat \<Rightarrow> nat \<Rightarrow> nat \<Rightarrow> nat list \<Rightarrow> (nat \<times> nat) option" where
  "varint i mult v [] = None"
| "varint i mult v (b # bs) =
    (let v' = v + b mod 128 * mult
     in if b < 128 then Some (v', Suc i)
        else if Suc i > 4 then None
        else varint (Suc i) (mult * 128) v' bs)"

function subscribe_filters :: "nat list \<Rightarrow> code_unit list list option" where
  "subscribe_filters bs =
    (if length bs < 2 then Some []
     else (let n = readUInt16BE bs 0; rest = drop 2 bs
       in if n \<ge> length rest then None
          else (case subscribe_filters (drop (n + 1) rest) of
            None \<Rightarrow> None
          | Some fs \<Rightarrow> Some (buffer_string (take n rest) # fs))))"
  by pat_completeness auto
termination
  by (relation "measure length") auto

declare subscribe_filters.simps [simp del]

definition decode_publish :: "nat \<Rightarrow> nat list \<Rightarrow> mqtt_packet option" where
  "decode_publish header body =
    (if length body < 2 then None
     else (let qos = header div 2 mod 4
       in if qos > 1 then None
          else (let topicLength = readUInt16BE body 0; offset = 2 + topicLength
            in if offset > length body then None
               else (let p = (plain_packet PUBLISH)\<lparr>pk_qos := Some qos,
                         pk_topic := Some (buffer_string (take topicLength (drop 2 body)))\<rparr>
                 in if qos > 0 then
                      (if offset + 2 > length body then None
                       else Some (p\<lparr>pk_packetId := Some (readUInt16BE body offset),
                                    pk_payload := Some (drop (offset + 2) body)\<rparr>))
                    else Some (p\<lparr>pk_payload := Some (drop offset body)\<rparr>)))))"

definition decode_acked :: "mqtt_type \<Rightarrow> nat list \<Rightarrow> mqtt_packet option" where
  "decode_acked t body =
    (if length body < 2 then None
     else (let pid = readUInt16BE body 0; p = (plain_packet t)\<lparr>pk_packetId := Some pid\<rparr>
       in if pid = 0 then None
          else if t = SUBACK then
            (if length body < 3 then None else Some (p\<lparr>pk_returnCodes := Some (drop 2 body)\<rparr>))
          else if t = SUBSCRIBE then
            (case subscribe_filters (drop 2 body) of
              None \<Rightarrow> None
            | Some fs \<Rightarrow> Some (p\<lparr>pk_topicFilters := Some fs\<rparr>))
          else Some p))"

definition decode_body :: "mqtt_type \<Rightarrow> nat \<Rightarrow> nat list \<Rightarrow> mqtt_packet option" where
  "decode_body t header body =
    (case t of
      CONNACK \<Rightarrow> if length body \<noteq> 2 \<or> body ! 1 > 5 \<or> body ! 0 > 1 then None
                 else Some ((plain_packet CONNACK)\<lparr>pk_connackReturnCode := Some (body ! 1)\<rparr>)
    | PUBLISH \<Rightarrow> decode_publish header body
    | PUBACK \<Rightarrow> decode_acked PUBACK body
    | SUBACK \<Rightarrow> decode_acked SUBACK body
    | SUBSCRIBE \<Rightarrow> decode_acked SUBSCRIBE body
    | _ \<Rightarrow> Some (plain_packet t))"

definition tryDecodePacket :: "nat list \<Rightarrow> (mqtt_packet \<times> nat) option" where
  "tryDecodePacket bs =
    (if length bs < 2 then None
     else (case map_of TYPE_BY_NUMBER (hd bs div 16) of
       None \<Rightarrow> None
     | Some t \<Rightarrow> (case varint 1 1 0 (tl bs) of
         None \<Rightarrow> None
       | Some (v, i) \<Rightarrow>
           if length bs < i + v then None
           else (case decode_body t (hd bs) (take v (drop i bs)) of
             None \<Rightarrow> None
           | Some p \<Rightarrow> Some (p, i + v)))))"

subsection \<open>The head of the buffer\<close>

lemma length_bytes_pos: "length_bytes n \<noteq> []"
  by (subst length_bytes.simps) simp

lemma varint_encoded:
  "1 \<le> i \<Longrightarrow> i \<le> 4 \<Longrightarrow> n < 128 ^ (5 - i) \<Longrightarrow>
    varint i m v (length_bytes n @ rest) = Some (v + n * m, i + length (length_bytes n))"
proof (induction n arbitrary: i m v rule: length_bytes.induct)
  case (1 n)
  show ?case
  proof (cases "n div 128 > 0")
    case True
    have i: "i < 4"
    proof (rule ccontr)
      assume "\<not> i < 4"
      then have "n < 128"
        using 1(3,4) by (cases "i = 4") simp_all
      with True show False
        by simp
    qed
    have "5 - i = Suc (5 - Suc i)"
      using i by simp
    then have "n div 128 < 128 ^ (5 - Suc i)"
      using 1(4) by (simp add: less_mult_imp_div_less mult.commute)
    moreover have "v + a * m + b * (m * 128) = v + (a + b * 128) * m" for a b :: nat
      by (simp add: algebra_simps)
    then have "v + n mod 128 * m + n div 128 * (m * 128) = v + n * m"
      by (simp only: mod_div_mult_eq)
    ultimately show ?thesis
      using 1(1)[OF True, of "Suc i" "m * 128" "v + n mod 128 * m"] True i
      by (subst (1 2) length_bytes.simps) (simp add: Let_def)
  next
    case False
    then have "n < 128"
      by simp
    then show ?thesis
      by (subst (1 2) length_bytes.simps) (simp add: Let_def)
  qed
qed

lemma varint_extend: "varint i m v bs = Some r \<Longrightarrow> varint i m v (bs @ tail) = Some r"
  by (induction i m v bs rule: varint.induct) (auto simp: Let_def split: if_splits)

lemma varint_bound: "varint i m v bs = Some (w, j) \<Longrightarrow> i < j \<and> j \<le> i + length bs"
  by (induction i m v bs rule: varint.induct) (force simp: Let_def split: if_splits)+

text \<open>What the decoder reads, once the header is there.\<close>

lemma tryDecodePacket_Some:
  "tryDecodePacket bs = Some (p, n) \<longleftrightarrow>
    2 \<le> length bs \<and> (\<exists>t v i. map_of TYPE_BY_NUMBER (hd bs div 16) = Some t \<and> varint 1 1 0 (tl bs) = Some (v, i) \<and>
      n = i + v \<and> n \<le> length bs \<and> decode_body t (hd bs) (take v (drop i bs)) = Some p)"
  by (auto simp: tryDecodePacket_def split: option.splits)

lemma packet_consumes: "tryDecodePacket bs = Some (p, n) \<Longrightarrow> 0 < n \<and> n \<le> length bs"
  using varint_bound by (fastforce simp: tryDecodePacket_Some)

lemma packet_extend: "tryDecodePacket bs = Some (p, n) \<Longrightarrow> tryDecodePacket (bs @ tail) = Some (p, n)"
  unfolding tryDecodePacket_Some
  by (elim conjE exE, intro conjI exI; (assumption | simp)?; cases bs; simp add: varint_extend)

lemma packet_head:
  assumes "map_of TYPE_BY_NUMBER (h div 16) = Some t" "length body \<le> 268435455" "decode_body t h body = Some p"
  shows "tryDecodePacket (h # length_bytes (length body) @ body) = Some (p, Suc (length (length_bytes (length body)) + length body))"
proof -
  have "varint 1 1 0 (length_bytes (length body) @ body) = Some (length body, 1 + length (length_bytes (length body)))"
    using varint_encoded[of 1 "length body" 1 0 body] assms(2) by simp
  then show ?thesis
    using assms length_bytes_pos[of "length body"] by (auto simp: tryDecodePacket_Some Suc_le_eq)
qed

lemma packet_bytes_decode:
  assumes "packet_bytes h body = Inr bs" "map_of TYPE_BY_NUMBER (h div 16) = Some t" "decode_body t h body = Some p"
  shows "tryDecodePacket bs = Some (p, length bs)"
  using packet_head[OF assms(2) _ assms(3)] assms(1)
  by (auto simp: packet_bytes_def then_do_Inr encodeRemainingLength_def split: if_splits)

subsection \<open>Strings and integers\<close>

lemma uint16_read: "n \<le> 65535 \<Longrightarrow> readUInt16BE (uint16_bytes n @ rest) 0 = n"
  by (simp add: readUInt16BE_def uint16_bytes_def)

lemma uint16_read_at: "readUInt16BE (xs @ uint16_bytes n @ rest) (length xs) = n"
  by (simp add: readUInt16BE_def uint16_bytes_def nth_append)

lemma buffer_string_text: "\<forall>c\<in>set cs. scalar_value c \<Longrightarrow> buffer_string (encode_text (utf16 cs)) = utf16 cs"
  using decode_started[of "new_decoder\<lparr>ud_bomSeen := True\<rparr>" cs]
  by (simp add: buffer_string_def decode_chunk_def encode_text_def scalars_utf16 ready_def new_decoder_def decode_flush_def)

lemma encodeUint16_Inr:
  "encodeUint16 v z = Inr bs \<longleftrightarrow> (\<exists>n. v = Fin (real n) \<and> n \<le> 65535 \<and> (z \<or> 0 < n) \<and> bs = uint16_bytes n)"
proof
  assume "encodeUint16 v z = Inr bs"
  then obtain r where r: "v = Fin r" "of_int \<lfloor>r\<rfloor> = r" "(if z then 0 else 1) \<le> r" "r \<le> 65535" "bs = uint16_bytes (nat \<lfloor>r\<rfloor>)"
    by (auto simp: encodeUint16_def split: jsnum.splits if_splits)
  then have "0 \<le> r"
    by (auto split: if_splits)
  then have "real (nat \<lfloor>r\<rfloor>) = r"
    using r(2) by (metis of_nat_nat zero_le_floor of_int_of_nat_eq)
  with r show "\<exists>n. v = Fin (real n) \<and> n \<le> 65535 \<and> (z \<or> 0 < n) \<and> bs = uint16_bytes n"
    by (intro exI[of _ "nat \<lfloor>r\<rfloor>"]) (auto split: if_splits)
next
  assume "\<exists>n. v = Fin (real n) \<and> n \<le> 65535 \<and> (z \<or> 0 < n) \<and> bs = uint16_bytes n"
  then show "encodeUint16 v z = Inr bs"
    by (auto simp: encodeUint16_def)
qed

lemma string_Inr: "encodeMqttString s = Inr bs \<longleftrightarrow> length (encode_text s) \<le> 65535 \<and> bs = uint16_bytes (length (encode_text s)) @ encode_text s"
  by (auto simp: encodeMqttString_def Let_def)

lemma readUInt16BE_uint16: "readUInt16BE (uint16_bytes n @ rest) 0 = n" "readUInt16BE (uint16_bytes n) 0 = n"
  by (simp_all add: readUInt16BE_def uint16_bytes_def)

lemma uint16_length: "length (uint16_bytes n) = 2" "drop 2 (uint16_bytes n @ rest) = rest"
  by (simp_all add: uint16_bytes_def)

subsection \<open>Packets of the client\<close>

definition publish_packet :: "nat option \<Rightarrow> code_unit list \<Rightarrow> nat list \<Rightarrow> mqtt_packet" where
  "publish_packet pid topic payload = (plain_packet PUBLISH)\<lparr>pk_topic := Some topic, pk_payload := Some payload,
     pk_qos := Some (if pid = None then 0 else 1), pk_packetId := pid\<rparr>"

lemma publish_decoded:
  assumes "\<forall>c\<in>set cs. scalar_value c" "length (encode_text (utf16 cs)) \<le> 65535" "h div 2 mod 4 = (if pid = None then 0 else 1)"
  shows "decode_publish h (uint16_bytes (length (encode_text (utf16 cs))) @ encode_text (utf16 cs) @
      (case pid of None \<Rightarrow> [] | Some i \<Rightarrow> uint16_bytes i) @ payload) = Some (publish_packet pid (utf16 cs) payload)"
proof (cases pid)
  case None
  then show ?thesis
    using assms by (simp add: decode_publish_def Let_def readUInt16BE_uint16 uint16_length buffer_string_text publish_packet_def plain_packet_def)
next
  case (Some i)
  define t where "t = encode_text (utf16 cs)"
  have t: "buffer_string t = utf16 cs"
    unfolding t_def by (rule buffer_string_text[OF assms(1)])
  have 1: "readUInt16BE (uint16_bytes (length t) @ t @ uint16_bytes i @ payload) (Suc (Suc (length t))) = i"
    using uint16_read_at[of "uint16_bytes (length t) @ t" i payload] by (simp add: uint16_length)
  have 2: "drop (length t) (drop 2 (uint16_bytes (length t) @ t @ uint16_bytes i @ payload)) = uint16_bytes i @ payload"
    by (simp add: uint16_length)
  then have "drop (2 + length t + 2) (uint16_bytes (length t) @ t @ uint16_bytes i @ payload) = payload"
    by (metis drop_drop uint16_length(2) add.commute)
  with 1 show ?thesis
    using assms Some unfolding t_def[symmetric] decode_publish_def
    by (simp add: Let_def readUInt16BE_uint16 uint16_length t publish_packet_def plain_packet_def
        add.commute)
qed

lemma publish_survives:
  assumes "encodePublish (utf16 cs) payload pid qos = Inr bs" "\<forall>c\<in>set cs. scalar_value c"
  shows "\<exists>i. (qos = Fin 0 \<and> i = None \<or> qos = Fin 1 \<and> (\<exists>n. i = Some n \<and> (case pid of None \<Rightarrow> Fin 1 | Some p \<Rightarrow> p) = Fin (real n))) \<and>
    tryDecodePacket bs = Some (publish_packet i (utf16 cs) (payload_bytes payload), length bs)"
proof -
  obtain q t p where p: "validateQos qos = Inr q" "encodeMqttString (utf16 cs) = Inr t"
      "(if q = 0 then Inr [] else encodeUint16 (case pid of None \<Rightarrow> Fin 1 | Some i \<Rightarrow> i) False) = Inr p"
      "packet_bytes (TYPE_NUMBERS PUBLISH * 16 + (if q = 0 then 0 else 2)) (t @ p @ payload_bytes payload) = Inr bs"
    using assms(1) by (auto simp: encodePublish_def then_do_Inr split: if_splits)
  have t: "length (encode_text (utf16 cs)) \<le> 65535"
      "t = uint16_bytes (length (encode_text (utf16 cs))) @ encode_text (utf16 cs)"
    using p(2) by (auto simp: string_Inr)
  note decoded = publish_decoded[OF assms(2) t(1), of _ _ "payload_bytes payload"]
  from p(1) have q: "qos = Fin 0 \<and> q = 0 \<or> qos = Fin 1 \<and> q = 1"
    by (auto simp: validateQos_def split: if_splits)
  note dec = packet_bytes_decode[OF p(4)]
  show ?thesis
  proof (cases "q = 0")
    case True
    have "tryDecodePacket bs = Some (publish_packet None (utf16 cs) (payload_bytes payload), length bs)"
    proof (rule dec)
      show "map_of TYPE_BY_NUMBER ((TYPE_NUMBERS PUBLISH * 16 + (if q = 0 then 0 else 2)) div 16) = Some PUBLISH"
        using True by (simp add: TYPE_BY_NUMBER_def)
      show "decode_body PUBLISH (TYPE_NUMBERS PUBLISH * 16 + (if q = 0 then 0 else 2)) (t @ p @ payload_bytes payload) =
          Some (publish_packet None (utf16 cs) (payload_bytes payload))"
        using decoded[of 48 None] True p(3) by (simp add: decode_body_def t(2))
    qed
    with True q show ?thesis
      by (intro exI[of _ None]) simp
  next
    case False
    then obtain n where n: "(case pid of None \<Rightarrow> Fin 1 | Some i \<Rightarrow> i) = Fin (real n)" "p = uint16_bytes n"
      using p(3) by (auto simp: encodeUint16_Inr)
    have "tryDecodePacket bs = Some (publish_packet (Some n) (utf16 cs) (payload_bytes payload), length bs)"
    proof (rule dec)
      show "map_of TYPE_BY_NUMBER ((TYPE_NUMBERS PUBLISH * 16 + (if q = 0 then 0 else 2)) div 16) = Some PUBLISH"
        using False by (simp add: TYPE_BY_NUMBER_def)
      show "decode_body PUBLISH (TYPE_NUMBERS PUBLISH * 16 + (if q = 0 then 0 else 2)) (t @ p @ payload_bytes payload) =
          Some (publish_packet (Some n) (utf16 cs) (payload_bytes payload))"
        using decoded[of 50 "Some n"] False n(2) by (simp add: decode_body_def t(2))
    qed
    with False q n(1) show ?thesis
      by (intro exI[of _ "Some n"]) simp
  qed
qed

definition subscribe_packet :: "nat \<Rightarrow> code_unit list \<Rightarrow> mqtt_packet" where
  "subscribe_packet pid f = (plain_packet SUBSCRIBE)\<lparr>pk_packetId := Some pid, pk_topicFilters := Some [f]\<rparr>"

definition puback_packet :: "nat \<Rightarrow> mqtt_packet" where
  "puback_packet pid = (plain_packet PUBACK)\<lparr>pk_packetId := Some pid\<rparr>"

lemma one_filter:
  "\<forall>c\<in>set cs. scalar_value c \<Longrightarrow>
    subscribe_filters (uint16_bytes (length (encode_text (utf16 cs))) @ encode_text (utf16 cs) @ [q]) = Some [utf16 cs]"
  by (subst subscribe_filters.simps)
    (simp add: uint16_length readUInt16BE_uint16 Let_def buffer_string_text subscribe_filters.simps[of "[]"])

lemma subscribe_survives:
  assumes "encodeSubscribe pid (utf16 cs) qos = Inr bs" "\<forall>c\<in>set cs. scalar_value c"
  shows "\<exists>n. pid = Fin (real n) \<and> tryDecodePacket bs = Some (subscribe_packet n (utf16 cs), length bs)"
proof -
  obtain q p t where p: "encodeUint16 pid False = Inr p" "encodeMqttString (utf16 cs) = Inr t"
      "packet_bytes (TYPE_NUMBERS SUBSCRIBE * 16 + 2) (p @ t @ [q]) = Inr bs"
    using assms(1) by (auto simp: encodeSubscribe_def then_do_Inr)
  obtain n where n: "pid = Fin (real n)" "0 < n" "p = uint16_bytes n"
    using p(1) by (auto simp: encodeUint16_Inr)
  have "tryDecodePacket bs = Some (subscribe_packet n (utf16 cs), length bs)"
  proof (rule packet_bytes_decode[OF p(3), of SUBSCRIBE])
    show "map_of TYPE_BY_NUMBER ((TYPE_NUMBERS SUBSCRIBE * 16 + 2) div 16) = Some SUBSCRIBE"
      by (simp add: TYPE_BY_NUMBER_def)
    show "decode_body SUBSCRIBE (TYPE_NUMBERS SUBSCRIBE * 16 + 2) (p @ t @ [q]) = Some (subscribe_packet n (utf16 cs))"
      using n(2,3) p(2) one_filter[OF assms(2), of q]
      by (simp add: decode_body_def decode_acked_def string_Inr Let_def readUInt16BE_uint16 uint16_length subscribe_packet_def plain_packet_def)
  qed
  with n(1) show ?thesis
    by blast
qed

lemma puback_survives:
  assumes "encodePuback pid = Inr bs"
  shows "\<exists>n. pid = Fin (real n) \<and> tryDecodePacket bs = Some (puback_packet n, length bs)"
proof -
  obtain n where n: "pid = Fin (real n)" "0 < n" "bs = [64, 2] @ uint16_bytes n"
    using assms by (auto simp: encodePuback_def then_do_Inr encodeUint16_Inr)
  have "tryDecodePacket (64 # length_bytes (length (uint16_bytes n)) @ uint16_bytes n) =
      Some (puback_packet n, Suc (length (length_bytes (length (uint16_bytes n))) + length (uint16_bytes n)))"
    by (rule packet_head[of _ PUBACK])
      (use n(2) in \<open>simp_all add: TYPE_BY_NUMBER_def decode_body_def decode_acked_def Let_def readUInt16BE_uint16 uint16_length
        puback_packet_def plain_packet_def\<close>)
  moreover have "length_bytes 2 = [2]"
    by (simp add: length_bytes.simps)
  ultimately show ?thesis
    using n by (simp add: uint16_length)
qed

subsection \<open>The stream of packets\<close>

text \<open>The decoding loop of the client's \<open>drainRawBuffer\<close> and of the broker.\<close>

function drain_packets :: "nat list \<Rightarrow> mqtt_packet list \<times> nat list" where
  "drain_packets bs =
    (case tryDecodePacket bs of
      None \<Rightarrow> ([], bs)
    | Some (p, n) \<Rightarrow> (p # fst (drain_packets (drop n bs)), snd (drain_packets (drop n bs))))"
  by pat_completeness auto
termination
  by (relation "measure length") (auto dest!: packet_consumes)

declare drain_packets.simps [simp del]

text \<open>The packets that a client sends, and their bytes.\<close>

fun packet_wire :: "mqtt_packet \<Rightarrow> mqtt_error + nat list" where
  "packet_wire p =
    (case pk_type p of
      PUBLISH \<Rightarrow> encodePublish (the (pk_topic p)) (Inr (the (pk_payload p)))
        (map_option (\<lambda>n. Fin (real n)) (pk_packetId p)) (Fin (if pk_packetId p = None then 0 else 1))
    | SUBSCRIBE \<Rightarrow> encodeSubscribe (Fin (real (the (pk_packetId p)))) (hd (the (pk_topicFilters p))) (Fin 0)
    | PUBACK \<Rightarrow> encodePuback (Fin (real (the (pk_packetId p))))
    | PINGREQ \<Rightarrow> Inr encodePingReq
    | DISCONNECT \<Rightarrow> Inr encodeDisconnect
    | _ \<Rightarrow> Inl MQTT_INVALID_LENGTH)"

definition text_ok :: "code_unit list \<Rightarrow> bool" where
  "text_ok s \<longleftrightarrow> utf16 (scalars s) = s \<and> (\<forall>c\<in>set (scalars s). scalar_value c)"

definition client_packet :: "mqtt_packet \<Rightarrow> bool" where
  "client_packet p \<longleftrightarrow> (\<exists>bs. packet_wire p = Inr bs) \<and>
    (p = publish_packet (pk_packetId p) (the (pk_topic p)) (the (pk_payload p)) \<and> text_ok (the (pk_topic p)) \<or>
     p = subscribe_packet (the (pk_packetId p)) (hd (the (pk_topicFilters p))) \<and> text_ok (hd (the (pk_topicFilters p))) \<or>
     p = puback_packet (the (pk_packetId p)) \<or> p = plain_packet PINGREQ \<or> p = plain_packet DISCONNECT)"

definition client_bytes :: "mqtt_packet \<Rightarrow> nat list" where
  "client_bytes p = projr (packet_wire p)"

lemma empty_body: "tryDecodePacket [h, 0] = (case map_of TYPE_BY_NUMBER (h div 16) of None \<Rightarrow> None
    | Some t \<Rightarrow> (case decode_body t h [] of None \<Rightarrow> None | Some p \<Rightarrow> Some (p, 2)))"
  by (simp add: tryDecodePacket_def split: option.split)

lemma packet_types: "pk_type (publish_packet i t x) = PUBLISH" "pk_type (subscribe_packet n f) = SUBSCRIBE"
  "pk_type (puback_packet n) = PUBACK"
  by (simp_all add: publish_packet_def subscribe_packet_def puback_packet_def plain_packet_def)

lemma client_packet_dec:
  assumes "client_packet p"
  shows "tryDecodePacket (client_bytes p) = Some (p, length (client_bytes p))"
proof -
  obtain bs where bs: "packet_wire p = Inr bs"
    using assms by (auto simp: client_packet_def)
  then have w: "client_bytes p = bs"
    by (simp add: client_bytes_def)
  consider (pub) "p = publish_packet (pk_packetId p) (the (pk_topic p)) (the (pk_payload p))" "text_ok (the (pk_topic p))"
    | (sub) "p = subscribe_packet (the (pk_packetId p)) (hd (the (pk_topicFilters p)))" "text_ok (hd (the (pk_topicFilters p)))"
    | (ack) "p = puback_packet (the (pk_packetId p))"
    | (ping) "p = plain_packet PINGREQ" | (disc) "p = plain_packet DISCONNECT"
    using assms unfolding client_packet_def by blast
  then show ?thesis
  proof cases
    case pub
    define cs where "cs = scalars (the (pk_topic p))"
    have cs: "utf16 cs = the (pk_topic p)" "\<forall>c\<in>set cs. scalar_value c"
      using pub(2) by (simp_all add: text_ok_def cs_def)
    have t: "pk_type p = PUBLISH"
      by (subst pub(1)) (simp add: packet_types)
    have e: "encodePublish (utf16 cs) (Inr (the (pk_payload p))) (map_option (\<lambda>n. Fin (real n)) (pk_packetId p))
        (Fin (if pk_packetId p = None then 0 else 1)) = Inr bs"
      using bs unfolding packet_wire.simps t cs(1) by simp
    obtain i where i: "(Fin (if pk_packetId p = None then 0 else 1) = Fin 0 \<and> i = None \<or>
        Fin (if pk_packetId p = None then 0 else 1) = Fin 1 \<and> (\<exists>n. i = Some n \<and>
          (case map_option (\<lambda>n. Fin (real n)) (pk_packetId p) of None \<Rightarrow> Fin 1 | Some p \<Rightarrow> p) = Fin (real n)))"
        "tryDecodePacket bs = Some (publish_packet i (utf16 cs) (payload_bytes (Inr (the (pk_payload p)))), length bs)"
      using publish_survives[OF e cs(2)] by blast
    have "i = pk_packetId p"
      using i(1) by (cases "pk_packetId p") auto
    then show ?thesis
      using i(2) pub(1) w cs(1) by (simp add: payload_bytes_def)
  next
    case sub
    define cs where "cs = scalars (hd (the (pk_topicFilters p)))"
    have cs: "utf16 cs = hd (the (pk_topicFilters p))" "\<forall>c\<in>set cs. scalar_value c"
      using sub(2) by (simp_all add: text_ok_def cs_def)
    have t: "pk_type p = SUBSCRIBE"
      by (subst sub(1)) (simp add: packet_types)
    have "encodeSubscribe (Fin (real (the (pk_packetId p)))) (utf16 cs) (Fin 0) = Inr bs"
      using bs unfolding packet_wire.simps t cs(1) by simp
    from subscribe_survives[OF this cs(2)] show ?thesis
      using sub(1) w cs(1) by auto
  next
    case ack
    have t: "pk_type p = PUBACK"
      by (subst ack) (simp add: packet_types)
    have "encodePuback (Fin (real (the (pk_packetId p)))) = Inr bs"
      using bs unfolding packet_wire.simps t by simp
    from puback_survives[OF this] show ?thesis
      using ack w by auto
  next
    case ping
    then show ?thesis
      by (simp add: client_bytes_def plain_packet_def encodePingReq_def empty_body TYPE_BY_NUMBER_def decode_body_def)
  next
    case disc
    then show ?thesis
      by (simp add: client_bytes_def plain_packet_def encodeDisconnect_def empty_body TYPE_BY_NUMBER_def decode_body_def)
  qed
qed

interpretation mqtt: frame_codec client_bytes tryDecodePacket drain_packets client_packet
proof unfold_locales
  show "client_packet f \<Longrightarrow> tryDecodePacket (client_bytes f) = Some (f, length (client_bytes f))" for f
    by (rule client_packet_dec)
  show "tryDecodePacket bs = Some (f, n) \<Longrightarrow> 0 < n \<and> n \<le> length bs" for bs f n
    by (rule packet_consumes)
  show "tryDecodePacket bs = Some (f, n) \<Longrightarrow> tryDecodePacket (bs @ tail) = Some (f, n)" for bs f n tail
    by (rule packet_extend)
  show "tryDecodePacket [] = None"
    by (simp add: tryDecodePacket_def)
  show "drain_packets bs = (case tryDecodePacket bs of None \<Rightarrow> ([], bs)
      | Some (f, n) \<Rightarrow> (f # fst (drain_packets (drop n bs)), snd (drain_packets (drop n bs))))" for bs
    by (rule drain_packets.simps)
qed

end
