(* ===== verification/Mqtt_Client.thy ===== *)
theory Mqtt_Client
  imports Mqtt_Wire
begin

text \<open>
  The MQTT client, \<open>packages/protocols-mqtt/src/mqttClient.ts\<close>, with the topic matching of
  \<open>mapping.ts\<close>. A call that awaits a response (\<open>sendAwait\<close>) is a pending entry; each turn of its polling
  loop is a step that reads the clock. Handlers are numbers, and a handler neither throws nor calls the client.
  The transport's writes succeed; opening it may fail. \<open>settled\<close> lists the outcome of the calls.
\<close>

subsection \<open>Topics\<close>

fun match_levels :: "code_unit list list \<Rightarrow> code_unit list list \<Rightarrow> bool" where
  "match_levels [] ts \<longleftrightarrow> ts = []"
| "match_levels (p # ps) ts \<longleftrightarrow>
    (if p = [35] then ps = []
     else (case ts of
       [] \<Rightarrow> False
     | t # ts' \<Rightarrow> (p = [43] \<or> p = t) \<and> match_levels ps ts'))"

definition starts_dollar :: "code_unit list \<Rightarrow> bool" where
  "starts_dollar s \<longleftrightarrow> s \<noteq> [] \<and> hd s = 36"

definition topicMatches :: "code_unit list \<Rightarrow> code_unit list \<Rightarrow> bool" where
  "topicMatches f topic \<longleftrightarrow>
    (if starts_dollar topic \<and> \<not> starts_dollar f then False
     else if f = topic then True
     else match_levels (split_levels f) (split_levels topic))"

subsection \<open>State\<close>

datatype pending_kind =
    PConnect
  | PSubscribe "code_unit list" "nat option" nat
  | PPublish nat
  | PPing

record pending =
  pd_call :: nat
  pd_kind :: pending_kind
  pd_deadline :: real

record mqtt_client =
  mc_options :: connect_options
  mc_timeoutMs :: real
  mc_rawBuffer :: "nat list"
  mc_controlQueue :: "mqtt_packet list"
  mc_subscriptions :: "(code_unit list, nat) jmap"
  mc_activePacketIds :: "nat list"
  mc_connecting :: bool
  mc_reading :: bool
  mc_started :: bool
  mc_closed :: bool
  mc_nextPacketId :: nat
  mc_calls :: nat
  mc_pending :: "pending list"
  mc_sent :: "nat list list"
  mc_delivered :: "(nat \<times> code_unit list \<times> nat list) list"
  mc_settled :: "(nat \<times> (mqtt_error + unit)) list"

definition MqttClient :: "connect_options \<Rightarrow> real option \<Rightarrow> mqtt_client" where
  "MqttClient opts timeout =
    \<lparr>mc_options = opts, mc_timeoutMs = (case timeout of None \<Rightarrow> 5000 | Some t \<Rightarrow> t),
     mc_rawBuffer = [], mc_controlQueue = [], mc_subscriptions = [], mc_activePacketIds = [],
     mc_connecting = False, mc_reading = False, mc_started = False, mc_closed = False, mc_nextPacketId = 1,
     mc_calls = 0, mc_pending = [], mc_sent = [], mc_delivered = [], mc_settled = []\<rparr>"

definition settle_call :: "nat \<Rightarrow> mqtt_error + unit \<Rightarrow> mqtt_client \<Rightarrow> mqtt_client" where
  "settle_call i r c = c\<lparr>mc_settled := mc_settled c @ [(i, r)]\<rparr>"

definition send :: "nat list \<Rightarrow> mqtt_client \<Rightarrow> mqtt_client" where
  "send bs c = c\<lparr>mc_sent := mc_sent c @ [bs]\<rparr>"

definition abortConnection :: "mqtt_client \<Rightarrow> mqtt_client" where
  "abortConnection c = c\<lparr>mc_closed := True\<rparr>"

fun find_packet_id :: "nat \<Rightarrow> nat \<Rightarrow> nat list \<Rightarrow> (nat \<times> nat) option" where
  "find_packet_id 0 nxt active = None"
| "find_packet_id (Suc k) nxt active =
    (if nxt \<in> set active then find_packet_id k (nxt mod 65535 + 1) active else Some (nxt, nxt mod 65535 + 1))"

text \<open>After 65535 turns the counter is back where it was, so a failed search leaves it unchanged.\<close>

definition allocatePacketId :: "mqtt_client \<Rightarrow> (mqtt_error + nat) \<times> mqtt_client" where
  "allocatePacketId c =
    (case find_packet_id 65535 (mc_nextPacketId c) (mc_activePacketIds c) of
      None \<Rightarrow> (Inl MQTT_INFLIGHT_LIMIT, c)
    | Some (i, nxt) \<Rightarrow> (Inr i, c\<lparr>mc_nextPacketId := nxt, mc_activePacketIds := mc_activePacketIds c @ [i]\<rparr>))"

definition release_id :: "nat \<Rightarrow> mqtt_client \<Rightarrow> mqtt_client" where
  "release_id i c = c\<lparr>mc_activePacketIds := removeAll i (mc_activePacketIds c)\<rparr>"

definition connected :: "mqtt_client \<Rightarrow> bool" where
  "connected c \<longleftrightarrow> mc_started c \<and> \<not> mc_closed c"

subsection \<open>Incoming bytes\<close>

definition deliverIncoming :: "mqtt_packet \<Rightarrow> mqtt_client \<Rightarrow> mqtt_error option \<times> mqtt_client" where
  "deliverIncoming p c =
    (case (pk_topic p, pk_payload p) of
      (Some t, Some x) \<Rightarrow>
        (let c1 = c\<lparr>mc_delivered := mc_delivered c @
               map (\<lambda>(f, h). (h, t, x)) (filter (\<lambda>(f, h). topicMatches f t) (mc_subscriptions c))\<rparr>
         in (case (pk_qos p, pk_packetId p) of
           (Some q, Some i) \<Rightarrow>
             if q = 1 then
               (case encodePuback (Fin (real i)) of
                 Inl e \<Rightarrow> (Some e, c1)
               | Inr bs \<Rightarrow> (None, send bs c1))
             else (None, c1)
         | _ \<Rightarrow> (None, c1)))
    | _ \<Rightarrow> (None, c))"

fun take_packets :: "mqtt_packet list \<Rightarrow> mqtt_client \<Rightarrow> mqtt_error option \<times> mqtt_client" where
  "take_packets [] c = (None, c)"
| "take_packets (p # ps) c =
    (if pk_type p = PUBLISH then
       (case deliverIncoming p c of
         (Some e, c1) \<Rightarrow> (Some e, c1)
       | (None, c1) \<Rightarrow> take_packets ps c1)
     else if length (mc_controlQueue c) \<ge> 65535 then (Some MQTT_QUEUE_FULL, c)
     else take_packets ps (c\<lparr>mc_controlQueue := mc_controlQueue c @ [p]\<rparr>))"

definition drainRawBuffer :: "mqtt_client \<Rightarrow> mqtt_error option \<times> mqtt_client" where
  "drainRawBuffer c =
    (if length (mc_rawBuffer c) > 1024 * 1024 then (Some MQTT_PACKET_TOO_LARGE, c)
     else (case drain_packets (mc_rawBuffer c) of
       (ps, rest) \<Rightarrow> (case take_packets ps (c\<lparr>mc_rawBuffer := []\<rparr>) of
         (Some e, c1) \<Rightarrow> (Some e, c1)
       | (None, c1) \<Rightarrow> (None, c1\<lparr>mc_rawBuffer := rest\<rparr>))))"

definition consume_chunk :: "nat list \<Rightarrow> mqtt_client \<Rightarrow> mqtt_client" where
  "consume_chunk chunk c =
    (if mc_closed c \<or> \<not> mc_reading c then c
     else (case drainRawBuffer (c\<lparr>mc_rawBuffer := mc_rawBuffer c @ chunk\<rparr>) of
       (Some e, c1) \<Rightarrow> abortConnection c1
     | (None, c1) \<Rightarrow> c1))"

subsection \<open>Calls that wait\<close>

definition awaited :: "pending_kind \<Rightarrow> mqtt_packet \<Rightarrow> bool" where
  "awaited k p \<longleftrightarrow>
    (case k of
      PConnect \<Rightarrow> pk_type p = CONNACK
    | PSubscribe _ _ i \<Rightarrow> pk_type p = SUBACK \<and> pk_packetId p = Some i
    | PPublish i \<Rightarrow> pk_type p = PUBACK \<and> pk_packetId p = Some i
    | PPing \<Rightarrow> pk_type p = PINGRESP)"

text \<open>\<open>sendAwait\<close> up to its loop.\<close>

definition sendAwait :: "real \<Rightarrow> nat \<Rightarrow> pending_kind \<Rightarrow> nat list \<Rightarrow> mqtt_client \<Rightarrow> mqtt_client" where
  "sendAwait now i k bs c =
    (send bs c)\<lparr>mc_pending := mc_pending c @ [\<lparr>pd_call = i, pd_kind = k, pd_deadline = now + mc_timeoutMs c\<rparr>]\<rparr>"

text \<open>What the caller of \<open>sendAwait\<close> does when it throws.\<close>

definition fail_call :: "nat \<Rightarrow> pending_kind \<Rightarrow> mqtt_error \<Rightarrow> mqtt_client \<Rightarrow> mqtt_client" where
  "fail_call i k e c =
    settle_call i (Inl e)
      (case k of
        PConnect \<Rightarrow> abortConnection c
      | PSubscribe f previous pid \<Rightarrow>
          release_id pid (c\<lparr>mc_subscriptions :=
            (case previous of Some h \<Rightarrow> jset f h (mc_subscriptions c) | None \<Rightarrow> jdelete f (mc_subscriptions c))\<rparr>)
      | PPublish pid \<Rightarrow> release_id pid c
      | PPing \<Rightarrow> c)"

text \<open>And when it returns the response.\<close>

definition answer_call :: "nat \<Rightarrow> pending_kind \<Rightarrow> mqtt_packet \<Rightarrow> mqtt_client \<Rightarrow> mqtt_client" where
  "answer_call i k p c =
    (case k of
      PConnect \<Rightarrow>
        if pk_connackReturnCode p \<noteq> Some 0 then fail_call i k MQTT_CONNECTION_REFUSED c
        else settle_call i (Inr ()) (c\<lparr>mc_started := True\<rparr>)
    | PSubscribe f previous pid \<Rightarrow>
        if pk_returnCodes p \<noteq> Some [0] \<and> pk_returnCodes p \<noteq> Some [1] then fail_call i k MQTT_SUBSCRIPTION_REFUSED c
        else settle_call i (Inr ()) (release_id pid c)
    | PPublish pid \<Rightarrow> settle_call i (Inr ()) (release_id pid c)
    | PPing \<Rightarrow> settle_call i (Inr ()) c)"

fun take_first :: "('a \<Rightarrow> bool) \<Rightarrow> 'a list \<Rightarrow> ('a \<times> 'a list) option" where
  "take_first P [] = None"
| "take_first P (x # xs) =
    (if P x then Some (x, xs) else (case take_first P xs of None \<Rightarrow> None | Some (y, ys) \<Rightarrow> Some (y, x # ys)))"

definition drop_pending :: "nat \<Rightarrow> mqtt_client \<Rightarrow> mqtt_client" where
  "drop_pending i c = c\<lparr>mc_pending := filter (\<lambda>d. pd_call d \<noteq> i) (mc_pending c)\<rparr>"

text \<open>One turn of the polling loop of the call \<open>i\<close>.\<close>

definition poll :: "real \<Rightarrow> nat \<Rightarrow> mqtt_client \<Rightarrow> mqtt_client" where
  "poll now i c =
    (case List.find (\<lambda>d. pd_call d = i) (mc_pending c) of
      None \<Rightarrow> c
    | Some d \<Rightarrow> (case drainRawBuffer c of
        (Some e, c1) \<Rightarrow> fail_call i (pd_kind d) e (drop_pending i c1)
      | (None, c1) \<Rightarrow> (case take_first (awaited (pd_kind d)) (mc_controlQueue c1) of
          Some (p, rest) \<Rightarrow> answer_call i (pd_kind d) p (drop_pending i (c1\<lparr>mc_controlQueue := rest\<rparr>))
        | None \<Rightarrow>
            if now > pd_deadline d then fail_call i (pd_kind d) MQTT_TIMEOUT (abortConnection (drop_pending i c1))
            else if mc_closed c1 then fail_call i (pd_kind d) MQTT_CLOSED (drop_pending i c1)
            else c1)))"

subsection \<open>Methods\<close>

definition connect_call :: "real \<Rightarrow> nat \<Rightarrow> bool \<Rightarrow> mqtt_client \<Rightarrow> mqtt_client" where
  "connect_call now i open_ok c =
    (if mc_closed c then settle_call i (Inl MQTT_CLOSED) c
     else if mc_started c then settle_call i (Inr ()) c
     else if mc_connecting c then c
     else (case encodeConnect (mc_options c) of
       Inl e \<Rightarrow> settle_call i (Inl e) (c\<lparr>mc_connecting := True\<rparr>)
     | Inr bs \<Rightarrow>
         if open_ok then sendAwait now i PConnect bs (c\<lparr>mc_connecting := True, mc_reading := True\<rparr>)
         else settle_call i (Inl MQTT_CLOSED) (abortConnection (c\<lparr>mc_connecting := True\<rparr>))))"

definition subscribe_call :: "real \<Rightarrow> nat \<Rightarrow> code_unit list \<Rightarrow> nat \<Rightarrow> jsnum \<Rightarrow> mqtt_client \<Rightarrow> mqtt_client" where
  "subscribe_call now i f handler qos c =
    (if \<not> connected c then settle_call i (Inl MQTT_CLOSED) c
     else (case allocatePacketId c of
       (Inl e, c1) \<Rightarrow> settle_call i (Inl e) c1
     | (Inr pid, c1) \<Rightarrow>
         (let k = PSubscribe f (jget (mc_subscriptions c1) f) pid
          in (case encodeSubscribe (Fin (real pid)) f qos of
            Inl e \<Rightarrow> fail_call i k e c1
          | Inr bs \<Rightarrow> sendAwait now i k bs (c1\<lparr>mc_subscriptions := jset f handler (mc_subscriptions c1)\<rparr>)))))"

definition publish_call ::
  "real \<Rightarrow> nat \<Rightarrow> code_unit list \<Rightarrow> code_unit list + nat list \<Rightarrow> jsnum \<Rightarrow> mqtt_client \<Rightarrow> mqtt_client" where
  "publish_call now i topic payload qos c =
    (if \<not> connected c then settle_call i (Inl MQTT_CLOSED) c
     else if qos = Fin 0 then
       (case encodePublish topic payload None (Fin 0) of
         Inl e \<Rightarrow> settle_call i (Inl e) c
       | Inr bs \<Rightarrow> settle_call i (Inr ()) (send bs c))
     else (case allocatePacketId c of
       (Inl e, c1) \<Rightarrow> settle_call i (Inl e) c1
     | (Inr pid, c1) \<Rightarrow>
         (case encodePublish topic payload (Some (Fin (real pid))) qos of
           Inl e \<Rightarrow> fail_call i (PPublish pid) e c1
         | Inr bs \<Rightarrow> sendAwait now i (PPublish pid) bs c1)))"

definition ping_call :: "real \<Rightarrow> nat \<Rightarrow> mqtt_client \<Rightarrow> mqtt_client" where
  "ping_call now i c =
    (if \<not> connected c then settle_call i (Inl MQTT_CLOSED) c
     else if PPing \<in> pd_kind ` set (mc_pending c) then c
     else sendAwait now i PPing encodePingReq c)"

definition close_client :: "mqtt_client \<Rightarrow> mqtt_client" where
  "close_client c = (if mc_closed c then c else send encodeDisconnect (c\<lparr>mc_closed := True\<rparr>))"

text \<open>Calls are numbered as they come. A \<open>connect\<close> or \<open>ping\<close> that shares the promise of a running one has
  no outcome of its own.\<close>

datatype mqtt_event =
    MConnect real bool
  | MSubscribe real "code_unit list" nat jsnum
  | MPublish real "code_unit list" "code_unit list + nat list" jsnum
  | MPing real
  | MPoll real nat
  | MChunk "nat list"
  | MAbort
  | MClose

definition count_call :: "mqtt_client \<Rightarrow> mqtt_client" where
  "count_call c = c\<lparr>mc_calls := Suc (mc_calls c)\<rparr>"

fun mqtt_step :: "mqtt_event \<Rightarrow> mqtt_client \<Rightarrow> mqtt_client" where
  "mqtt_step (MConnect now ok) c = connect_call now (mc_calls c) ok (count_call c)"
| "mqtt_step (MSubscribe now f h q) c = subscribe_call now (mc_calls c) f h q (count_call c)"
| "mqtt_step (MPublish now t x q) c = publish_call now (mc_calls c) t x q (count_call c)"
| "mqtt_step (MPing now) c = ping_call now (mc_calls c) (count_call c)"
| "mqtt_step (MPoll now i) c = poll now i c"
| "mqtt_step (MChunk bs) c = consume_chunk bs c"
| "mqtt_step MAbort c = abortConnection c"
| "mqtt_step MClose c = close_client c"

definition mqtt_run :: "mqtt_event list \<Rightarrow> mqtt_client \<Rightarrow> mqtt_client" where
  "mqtt_run es c = fold mqtt_step es c"

subsection \<open>What a step leaves alone\<close>

text \<open>\<open>same_calls c c'\<close>: the calls, their packet ids and the counters are the same.\<close>

definition same_calls :: "mqtt_client \<Rightarrow> mqtt_client \<Rightarrow> bool" where
  "same_calls c c' \<longleftrightarrow> mc_pending c' = mc_pending c \<and> mc_activePacketIds c' = mc_activePacketIds c \<and>
    mc_nextPacketId c' = mc_nextPacketId c \<and> mc_calls c' = mc_calls c \<and> mc_connecting c' = mc_connecting c \<and>
    mc_subscriptions c' = mc_subscriptions c \<and> mc_started c' = mc_started c \<and> mc_options c' = mc_options c \<and>
    mc_timeoutMs c' = mc_timeoutMs c \<and> mc_settled c' = mc_settled c \<and> mc_closed c' = mc_closed c \<and> mc_reading c' = mc_reading c"

lemma same_calls_refl [simp]: "same_calls c c"
  by (simp add: same_calls_def)

lemma same_calls_trans: "same_calls a b \<Longrightarrow> same_calls b c \<Longrightarrow> same_calls a c"
  by (simp add: same_calls_def)

lemma deliver_same: "same_calls c (snd (deliverIncoming p c))"
  by (simp add: deliverIncoming_def same_calls_def send_def Let_def split: option.split sum.split)

lemma take_same: "same_calls c (snd (take_packets ps c))"
proof (induction ps arbitrary: c)
  case (Cons p ps)
  have 1: "same_calls c (c\<lparr>mc_controlQueue := mc_controlQueue c @ [p]\<rparr>)"
    by (simp add: same_calls_def)
  show ?case
    using same_calls_trans[OF 1 Cons.IH] same_calls_trans[OF deliver_same[of c p] Cons.IH] deliver_same[of c p]
    by (auto split: prod.splits option.splits)
qed simp

lemma drain_same: "same_calls c (snd (drainRawBuffer c))"
proof -
  obtain ps rest where 1: "drain_packets (mc_rawBuffer c) = (ps, rest)"
    by (cases "drain_packets (mc_rawBuffer c)")
  show ?thesis
    using take_same[of "c\<lparr>mc_rawBuffer := []\<rparr>" ps]
    by (auto simp: drainRawBuffer_def 1 same_calls_def split: prod.splits option.splits)
qed

subsection \<open>Packet identifiers\<close>

fun call_id :: "pending_kind \<Rightarrow> nat option" where
  "call_id (PSubscribe _ _ i) = Some i"
| "call_id (PPublish i) = Some i"
| "call_id _ = None"

definition open_ids :: "mqtt_client \<Rightarrow> nat list" where
  "open_ids c = List.map_filter (\<lambda>d. call_id (pd_kind d)) (mc_pending c)"

definition ids_ok :: "mqtt_client \<Rightarrow> bool" where
  "ids_ok c \<longleftrightarrow> distinct (open_ids c) \<and> set (open_ids c) \<subseteq> set (mc_activePacketIds c) \<and>
    distinct (map pd_call (mc_pending c)) \<and> (\<forall>d\<in>set (mc_pending c). pd_call d < mc_calls c) \<and>
    length (filter (\<lambda>d. pd_kind d = PPing) (mc_pending c)) \<le> 1 \<and>
    length (filter (\<lambda>d. pd_kind d = PConnect) (mc_pending c)) \<le> (if mc_connecting c then 1 else 0)"

lemma ids_ok_same: "same_calls c c' \<Longrightarrow> ids_ok c \<Longrightarrow> ids_ok c'"
  by (simp add: same_calls_def ids_ok_def open_ids_def)

lemma find_packet_id_fresh: "find_packet_id n nxt active = Some (i, nxt') \<Longrightarrow> i \<notin> set active"
  by (induction n nxt active rule: find_packet_id.induct) (auto split: if_splits)

lemma allocate_parts:
  "allocatePacketId c = (Inr i, c') \<Longrightarrow> i \<notin> set (mc_activePacketIds c) \<and>
    (\<exists>nxt. c' = c\<lparr>mc_nextPacketId := nxt, mc_activePacketIds := mc_activePacketIds c @ [i]\<rparr>)"
  "allocatePacketId c = (Inl e, c') \<Longrightarrow> c' = c"
  using find_packet_id_fresh[of 65535 "mc_nextPacketId c" "mc_activePacketIds c"]
  by (auto simp: allocatePacketId_def simp del: find_packet_id.simps split: option.splits)

lemma find_call:
  "List.find (\<lambda>d. pd_call d = i) ds = Some d \<Longrightarrow> distinct (map pd_call ds) \<Longrightarrow>
    \<exists>xs ys. ds = xs @ d # ys \<and> filter (\<lambda>d. pd_call d \<noteq> i) ds = xs @ ys \<and> pd_call d = i"
proof (induction ds)
  case (Cons a ds)
  show ?case
  proof (cases "pd_call a = i")
    case True
    then have "filter (\<lambda>d. pd_call d \<noteq> i) ds = ds"
      using Cons.prems(2) by (auto simp: filter_id_conv image_iff)
    with True Cons.prems(1) show ?thesis
      by (intro exI[of _ "[]"] exI[of _ ds]) simp
  next
    case False
    then obtain xs ys where "ds = xs @ d # ys" "filter (\<lambda>d. pd_call d \<noteq> i) ds = xs @ ys" "pd_call d = i"
      using Cons by auto
    with False show ?thesis
      by (intro exI[of _ "a # xs"] exI[of _ ys]) simp
  qed
qed simp

lemma map_filter_parts: "List.map_filter f (xs @ ys) = List.map_filter f xs @ List.map_filter f ys"
  "List.map_filter f (x # xs) = (case f x of None \<Rightarrow> List.map_filter f xs | Some y \<Rightarrow> y # List.map_filter f xs)"
  "List.map_filter f [] = []"
  by (simp_all add: List.map_filter_def split: option.split)

lemma ids_drop:
  assumes "ids_ok c" "List.find (\<lambda>d. pd_call d = i) (mc_pending c) = Some d"
  shows "ids_ok (drop_pending i c)" "call_id (pd_kind d) = Some pid \<Longrightarrow> pid \<notin> set (open_ids (drop_pending i c))"
proof -
  have "distinct (map pd_call (mc_pending c))"
    using assms(1) by (simp add: ids_ok_def)
  from find_call[OF assms(2) this] obtain xs ys where
    x: "mc_pending c = xs @ d # ys" "filter (\<lambda>d. pd_call d \<noteq> i) (mc_pending c) = xs @ ys"
    by auto
  show "ids_ok (drop_pending i c)"
    using assms(1) unfolding ids_ok_def open_ids_def drop_pending_def
    by (simp add: x(2)) (auto simp: x(1) map_filter_parts split: option.splits if_splits)
  show "call_id (pd_kind d) = Some pid \<Longrightarrow> pid \<notin> set (open_ids (drop_pending i c))"
    using assms(1) unfolding ids_ok_def open_ids_def drop_pending_def
    by (simp add: x(2)) (auto simp: x(1) map_filter_parts)
qed

lemma ids_release: "ids_ok c \<Longrightarrow> pid \<notin> set (open_ids c) \<Longrightarrow> ids_ok (release_id pid c)"
  by (auto simp: ids_ok_def open_ids_def release_id_def)

lemma ids_other:
  "ids_ok (settle_call i r c) = ids_ok c" "ids_ok (abortConnection c) = ids_ok c" "ids_ok (send bs c) = ids_ok c"
  "ids_ok (c\<lparr>mc_subscriptions := s\<rparr>) = ids_ok c" "ids_ok (c\<lparr>mc_started := b\<rparr>) = ids_ok c"
  "ids_ok (c\<lparr>mc_controlQueue := q\<rparr>) = ids_ok c" "ids_ok (c\<lparr>mc_rawBuffer := r'\<rparr>) = ids_ok c"
  "ids_ok (c\<lparr>mc_closed := b\<rparr>) = ids_ok c" "ids_ok (c\<lparr>mc_reading := b\<rparr>) = ids_ok c"
  "open_ids (c\<lparr>mc_subscriptions := s\<rparr>) = open_ids c" "open_ids (c\<lparr>mc_controlQueue := q\<rparr>) = open_ids c"
  "open_ids (abortConnection c) = open_ids c"
  by (simp_all add: ids_ok_def open_ids_def settle_call_def abortConnection_def send_def)

lemma ids_fail:
  "ids_ok c \<Longrightarrow> (\<And>pid. call_id k = Some pid \<Longrightarrow> pid \<notin> set (open_ids c)) \<Longrightarrow> ids_ok (fail_call i k e c)"
  by (cases k) (simp_all add: fail_call_def ids_other ids_release)

lemma ids_answer:
  "ids_ok c \<Longrightarrow> (\<And>pid. call_id k = Some pid \<Longrightarrow> pid \<notin> set (open_ids c)) \<Longrightarrow> ids_ok (answer_call i k p c)"
  using ids_fail[of c k] by (cases k) (simp_all add: answer_call_def ids_other ids_release)

lemma ids_poll: "ids_ok c \<Longrightarrow> ids_ok (poll now i c)"
proof (cases "List.find (\<lambda>d. pd_call d = i) (mc_pending c)")
  case (Some d)
  assume a: "ids_ok c"
  obtain e c1 where 1: "drainRawBuffer c = (e, c1)"
    by (cases "drainRawBuffer c")
  have s: "same_calls c c1"
    using drain_same[of c] 1 by simp
  then have b: "ids_ok c1" "List.find (\<lambda>d. pd_call d = i) (mc_pending c1) = Some d"
    using ids_ok_same a Some by (simp_all add: same_calls_def)
  have q: "drop_pending i (c1\<lparr>mc_controlQueue := r\<rparr>) = (drop_pending i c1)\<lparr>mc_controlQueue := r\<rparr>" for r
    by (simp add: drop_pending_def)
  show ?thesis
    using ids_drop[OF b] b(1)
    by (auto simp: poll_def Some 1 q ids_other intro!: ids_fail ids_answer split: option.split)
qed (simp add: poll_def)

lemma ids_send:
  assumes "ids_ok c" "i < mc_calls c" "\<forall>d\<in>set (mc_pending c). pd_call d \<noteq> i"
    "\<And>pid. call_id k = Some pid \<Longrightarrow> pid \<notin> set (open_ids c) \<and> pid \<in> set (mc_activePacketIds c)"
    "k = PPing \<Longrightarrow> PPing \<notin> pd_kind ` set (mc_pending c)"
    "k = PConnect \<Longrightarrow> PConnect \<notin> pd_kind ` set (mc_pending c) \<and> mc_connecting c"
  shows "ids_ok (sendAwait now i k bs c)"
  using assms unfolding ids_ok_def open_ids_def sendAwait_def send_def
  by (cases k) (auto simp: map_filter_parts filter_empty_conv image_iff)

lemma ids_count: "ids_ok c \<Longrightarrow> ids_ok (count_call c) \<and> mc_calls c < mc_calls (count_call c) \<and>
    (\<forall>d\<in>set (mc_pending (count_call c)). pd_call d \<noteq> mc_calls c)"
  by (auto simp: ids_ok_def open_ids_def count_call_def less_Suc_eq)

lemma ids_step: "ids_ok c \<Longrightarrow> ids_ok (mqtt_step e c)"
proof (cases e)
  case (MConnect now ok)
  assume a: "ids_ok c"
  let ?c = "count_call c"
  have n: "PConnect \<notin> pd_kind ` set (mc_pending ?c)" if "\<not> mc_connecting ?c"
    using a that by (auto simp: ids_ok_def count_call_def filter_empty_conv)
  have k: "ids_ok (?c\<lparr>mc_connecting := True\<rparr>)" "ids_ok (?c\<lparr>mc_connecting := True, mc_reading := True\<rparr>)"
    using ids_count[OF a] by (auto simp: ids_ok_def open_ids_def split: if_splits)
  show ?thesis
    using ids_count[OF a] n k unfolding MConnect
    by (auto simp: connect_call_def ids_other intro!: ids_send split: sum.split)
next
  case (MSubscribe now f h q)
  assume a: "ids_ok c"
  obtain r c1 where al: "allocatePacketId (count_call c) = (r, c1)"
    by (cases "allocatePacketId (count_call c)")
  show ?thesis
  proof (cases r)
    case (Inl e)
    then have "c1 = count_call c"
      using allocate_parts(2) al by blast
    with Inl show ?thesis
      using ids_count[OF a] al unfolding MSubscribe by (simp add: subscribe_call_def ids_other)
  next
    case (Inr pid)
    then obtain nxt where c1: "pid \<notin> set (mc_activePacketIds (count_call c))"
        "c1 = (count_call c)\<lparr>mc_nextPacketId := nxt, mc_activePacketIds := mc_activePacketIds (count_call c) @ [pid]\<rparr>"
      using allocate_parts(1) al by blast
    then have "ids_ok c1" "pid \<notin> set (open_ids c1)" "pid \<in> set (mc_activePacketIds c1)" "mc_calls c < mc_calls c1"
        "\<forall>d\<in>set (mc_pending c1). pd_call d \<noteq> mc_calls c"
      using ids_count[OF a] by (auto simp: ids_ok_def open_ids_def)
    then show ?thesis
      using ids_count[OF a] unfolding MSubscribe
      by (auto simp: subscribe_call_def al Inr ids_other Let_def intro!: ids_send ids_fail split: sum.split)
  qed
next
  case (MPublish now t x q)
  assume a: "ids_ok c"
  obtain r c1 where al: "allocatePacketId (count_call c) = (r, c1)"
    by (cases "allocatePacketId (count_call c)")
  show ?thesis
  proof (cases r)
    case (Inl e)
    then have "c1 = count_call c"
      using allocate_parts(2) al by blast
    with Inl show ?thesis
      using ids_count[OF a] al unfolding MPublish
      by (simp add: publish_call_def ids_other split: sum.split)
  next
    case (Inr pid)
    then obtain nxt where c1: "pid \<notin> set (mc_activePacketIds (count_call c))"
        "c1 = (count_call c)\<lparr>mc_nextPacketId := nxt, mc_activePacketIds := mc_activePacketIds (count_call c) @ [pid]\<rparr>"
      using allocate_parts(1) al by blast
    then have "ids_ok c1" "pid \<notin> set (open_ids c1)" "pid \<in> set (mc_activePacketIds c1)" "mc_calls c < mc_calls c1"
        "\<forall>d\<in>set (mc_pending c1). pd_call d \<noteq> mc_calls c"
      using ids_count[OF a] by (auto simp: ids_ok_def open_ids_def)
    then show ?thesis
      using ids_count[OF a] unfolding MPublish
      by (auto simp: publish_call_def al Inr ids_other intro!: ids_send ids_fail split: sum.split)
  qed
next
  case (MPing now)
  assume a: "ids_ok c"
  then show ?thesis
    using ids_count[OF a] unfolding MPing by (auto simp: ping_call_def ids_other intro!: ids_send)
next
  case (MPoll now i)
  then show "ids_ok c \<Longrightarrow> ?thesis"
    by (simp add: ids_poll)
next
  case (MChunk bs)
  assume "ids_ok c"
  then have "ids_ok (snd (drainRawBuffer (c\<lparr>mc_rawBuffer := mc_rawBuffer c @ bs\<rparr>)))"
    by (intro ids_ok_same[OF drain_same]) (simp add: ids_other)
  with \<open>ids_ok c\<close> MChunk show ?thesis
    by (auto simp: consume_chunk_def ids_other split: prod.splits option.splits)
qed (simp_all add: ids_other close_client_def)

lemma ids_run: "ids_ok (mqtt_run es (MqttClient opts t))"
proof -
  have "ids_ok (fold mqtt_step es c)" if "ids_ok c" for c
    using that by (induction es arbitrary: c) (simp_all add: ids_step)
  moreover have "ids_ok (MqttClient opts t)"
    by (simp add: ids_ok_def MqttClient_def open_ids_def map_filter_parts)
  ultimately show ?thesis
    by (simp add: mqtt_run_def)
qed

lemma two_in_filter:
  "x \<in> set xs \<Longrightarrow> y \<in> set xs \<Longrightarrow> x \<noteq> y \<Longrightarrow> P x \<Longrightarrow> P y \<Longrightarrow> 2 \<le> length (filter P xs)"
proof -
  assume a: "x \<in> set xs" "y \<in> set xs" "x \<noteq> y" "P x" "P y"
  then have "{x, y} \<subseteq> set (filter P xs)"
    by simp
  then have "card {x, y} \<le> card (set (filter P xs))"
    by (intro card_mono) simp_all
  also have "\<dots> \<le> length (filter P xs)"
    by (rule card_length)
  finally show ?thesis
    using a(3) by simp
qed

lemma same_id:
  "distinct (List.map_filter f xs) \<Longrightarrow> x \<in> set xs \<Longrightarrow> y \<in> set xs \<Longrightarrow> f x = Some i \<Longrightarrow> f y = Some i \<Longrightarrow> x = y"
proof (induction xs)
  case (Cons a xs)
  have "i \<in> set (List.map_filter f xs)" if "z \<in> set xs" "f z = Some i" for z
    using that by (induction xs) (auto simp: map_filter_parts split: option.split)
  with Cons show ?case
    by (auto simp: map_filter_parts split: option.splits)
qed (simp add: map_filter_parts)

text \<open>C40: A response answers one call. In every state that any sequence of calls, polls, chunks, aborts and
  closings leads to, no control packet is awaited by two pending calls: the packet identifiers of the
  pending subscriptions and publications are distinct, and at most one connection and one ping are
  pending.\<close>

theorem response_answers_one_call:
  assumes "d \<in> set (mc_pending (mqtt_run es (MqttClient opts t)))" "d' \<in> set (mc_pending (mqtt_run es (MqttClient opts t)))"
    and "awaited (pd_kind d) p" "awaited (pd_kind d') p"
  shows "d = d'"
proof (rule ccontr)
  assume n: "d \<noteq> d'"
  define c where "c = mqtt_run es (MqttClient opts t)"
  have c: "ids_ok c" "d \<in> set (mc_pending c)" "d' \<in> set (mc_pending c)"
    using ids_run assms(1,2) by (simp_all add: c_def)
  have "call_id (pd_kind d) \<noteq> call_id (pd_kind d') \<or> call_id (pd_kind d) = None"
    using same_id[of "\<lambda>d. call_id (pd_kind d)" "mc_pending c" d d'] c n
    by (cases "call_id (pd_kind d)") (auto simp: ids_ok_def open_ids_def)
  moreover have "\<not> (pd_kind d = k \<and> pd_kind d' = k)" if "k = PPing \<or> k = PConnect" for k
    using that two_in_filter[OF c(2,3) n, of "\<lambda>d. pd_kind d = k"] c(1) by (auto simp: ids_ok_def split: if_splits)
  ultimately show False
    using assms(3,4) by (cases "pd_kind d"; cases "pd_kind d'") (auto simp: awaited_def)
qed

text \<open>A client with one publication of quality 1 and one ping.\<close>

definition wit_options :: connect_options where
  "wit_options = \<lparr>co_clientId = [97], co_keepAliveSeconds = None, co_username = None, co_password = None, co_cleanSession = None\<rparr>"

definition wit_connecting :: mqtt_client where
  "wit_connecting = mqtt_step (MConnect 0 True) (MqttClient wit_options None)"

definition wit_connected :: mqtt_client where
  "wit_connected = mqtt_step (MPoll 1 0) (mqtt_step (MChunk [32, 2, 0, 0]) wit_connecting)"

lemma letter_a: "encode_text [97] = [97]" "split_levels [97] = [[97]]"
  by (simp_all add: encode_text_def utf8_of_def high_surrogate_def low_surrogate_def)

lemma find_packet_id_idle: "0 < n \<Longrightarrow> find_packet_id n nxt [] = Some (nxt, nxt mod 65535 + 1)"
  by (cases n) simp_all

lemma wit_connecting_parts:
  "mc_pending wit_connecting = [\<lparr>pd_call = 0, pd_kind = PConnect, pd_deadline = 5000\<rparr>]" "mc_rawBuffer wit_connecting = []"
  "mc_controlQueue wit_connecting = []" "\<not> mc_closed wit_connecting" "mc_reading wit_connecting"
  "mc_activePacketIds wit_connecting = []" "mc_nextPacketId wit_connecting = 1" "mc_calls wit_connecting = 1"
  "mc_timeoutMs wit_connecting = 5000" "mc_subscriptions wit_connecting = []" "mc_delivered wit_connecting = []"
  by (simp_all add: wit_connecting_def wit_options_def MqttClient_def connect_call_def count_call_def encodeConnect_def
      encodeMqttString_def letter_a encodeUint16_def packet_bytes_def encodeRemainingLength_def optional_string_def
      connect_flags_def uint16_bytes_def sendAwait_def send_def)

lemma connack: "drain_packets [32, 2, 0, 0] = ([(plain_packet CONNACK)\<lparr>pk_connackReturnCode := Some 0\<rparr>], [])"
  by (simp add: drain_packets.simps[of "[32, 2, 0, 0]"] drain_packets.simps[of "[]"] tryDecodePacket_def TYPE_BY_NUMBER_def
      decode_body_def)

lemma wit_connected_parts:
  "mc_pending wit_connected = []" "connected wit_connected" "mc_rawBuffer wit_connected = []" "mc_controlQueue wit_connected = []"
  "mc_reading wit_connected" "mc_activePacketIds wit_connected = []" "mc_nextPacketId wit_connected = 1"
  "mc_calls wit_connected = 1" "mc_timeoutMs wit_connected = 5000" "mc_subscriptions wit_connected = []" "mc_delivered wit_connected = []"
  by (simp_all add: wit_connected_def consume_chunk_def drainRawBuffer_def wit_connecting_parts connack plain_packet_def
      poll_def drain_packets.simps[of "[]"] tryDecodePacket_def awaited_def answer_call_def drop_pending_def settle_call_def
      connected_def)

definition wit_events :: "mqtt_event list" where
  "wit_events = [MConnect 0 True, MChunk [32, 2, 0, 0], MPoll 1 0, MPublish 2 [97] (Inr [1]) (Fin 1), MPing 3]"

lemma wit_pending:
  "mc_pending (mqtt_run wit_events (MqttClient wit_options None)) =
    [\<lparr>pd_call = 1, pd_kind = PPublish 1, pd_deadline = 5002\<rparr>, \<lparr>pd_call = 2, pd_kind = PPing, pd_deadline = 5003\<rparr>]"
proof -
  have "mqtt_run wit_events (MqttClient wit_options None) =
      mqtt_step (MPing 3) (mqtt_step (MPublish 2 [97] (Inr [1]) (Fin 1)) wit_connected)"
    by (simp add: wit_events_def mqtt_run_def wit_connected_def wit_connecting_def del: mqtt_step.simps)
  then show ?thesis
    using wit_connected_parts
    by (simp add: publish_call_def ping_call_def connected_def count_call_def allocatePacketId_def find_packet_id_idle
        encodePublish_def validateQos_def encodeMqttString_def letter_a encodeUint16_def packet_bytes_def
        encodeRemainingLength_def uint16_bytes_def sendAwait_def send_def payload_bytes_def)
qed

theorem response_answers_one_call_witness:
  "\<exists>!d. d \<in> set (mc_pending (mqtt_run wit_events (MqttClient wit_options None))) \<and> awaited (pd_kind d) (puback_packet 1)"
proof (rule ex1I)
  let ?d = "\<lparr>pd_call = 1, pd_kind = PPublish 1, pd_deadline = 5002\<rparr>"
  show a: "?d \<in> set (mc_pending (mqtt_run wit_events (MqttClient wit_options None))) \<and> awaited (pd_kind ?d) (puback_packet 1)"
    by (simp add: wit_pending awaited_def puback_packet_def plain_packet_def)
  show "d = ?d" if "d \<in> set (mc_pending (mqtt_run wit_events (MqttClient wit_options None))) \<and> awaited (pd_kind d) (puback_packet 1)" for d
    using that a by (intro response_answers_one_call[where p = "puback_packet 1"]) auto
qed

subsection \<open>Chunks\<close>

text \<open>The handlers' calls for a list of packets, on the subscriptions of the client.\<close>

lemma take_packets_append:
  "take_packets (ps @ qs) c = (case take_packets ps c of (Some e, c1) \<Rightarrow> (Some e, c1) | (None, c1) \<Rightarrow> take_packets qs c1)"
  by (induction ps arbitrary: c) (auto split: prod.splits option.splits)

lemma deliver_raw: "deliverIncoming p (c\<lparr>mc_rawBuffer := r\<rparr>) =
    (case deliverIncoming p c of (e, c1) \<Rightarrow> (e, c1\<lparr>mc_rawBuffer := r\<rparr>))"
  by (simp add: deliverIncoming_def send_def Let_def split: option.split sum.split)

lemma deliver_keeps_raw: "mc_rawBuffer (snd (deliverIncoming p c)) = mc_rawBuffer c"
  by (simp add: deliverIncoming_def send_def Let_def split: option.split sum.split)

lemma take_raw: "take_packets ps (c\<lparr>mc_rawBuffer := r\<rparr>) = (case take_packets ps c of (e, c1) \<Rightarrow> (e, c1\<lparr>mc_rawBuffer := r\<rparr>))"
proof (induction ps arbitrary: c)
  case (Cons p ps)
  have "take_packets ps (c\<lparr>mc_rawBuffer := r, mc_controlQueue := q\<rparr>) =
      (case take_packets ps (c\<lparr>mc_controlQueue := q\<rparr>) of (e, c1) \<Rightarrow> (e, c1\<lparr>mc_rawBuffer := r\<rparr>))" for q
  proof -
    have "c\<lparr>mc_rawBuffer := r, mc_controlQueue := q\<rparr> = c\<lparr>mc_controlQueue := q, mc_rawBuffer := r\<rparr>"
      by (cases c) simp
    then show ?thesis
      using Cons.IH[of "c\<lparr>mc_controlQueue := q\<rparr>"] by (simp only:)
  qed
  with Cons show ?case
    by (auto simp: deliver_raw split: prod.splits option.splits)
qed simp

lemma drain_take:
  "length (mc_rawBuffer c) \<le> 1048576 \<Longrightarrow> drain_packets (mc_rawBuffer c) = (ps, rest) \<Longrightarrow> take_packets ps c = (None, c') \<Longrightarrow>
    drainRawBuffer c = (None, c'\<lparr>mc_rawBuffer := rest\<rparr>)"
  by (simp add: drainRawBuffer_def take_raw)

lemma mqtt_drain_append:
  "drain_packets (a @ b) = (case drain_packets a of (ps, r) \<Rightarrow> case drain_packets (r @ b) of (qs, r') \<Rightarrow> (ps @ qs, r'))"
  using mqtt.drain_append[of a b] by (simp split: prod.split)

lemma drain_length: "drain_packets a = (ps, r) \<Longrightarrow> length r \<le> length a"
proof (induction a arbitrary: ps r rule: drain_packets.induct)
  case (1 a)
  show ?case
  proof (cases "tryDecodePacket a")
    case None
    then show ?thesis
      using 1(3) by (simp add: drain_packets.simps[of a])
  next
    case (Some p)
    then obtain q n where q: "tryDecodePacket a = Some (q, n)"
      by (cases p) simp
    then have "r = snd (drain_packets (drop n a))"
      using 1(3) by (simp add: drain_packets.simps[of a])
    then show ?thesis
      using 1(1)[OF q refl, of "fst (drain_packets (drop n a))" r] by simp
  qed
qed

lemma consume_chunks:
  "mc_reading c \<Longrightarrow> \<not> mc_closed c \<Longrightarrow> length (mc_rawBuffer c) + length (concat cs) \<le> 1048576 \<Longrightarrow>
    drain_packets (mc_rawBuffer c) = ([], mc_rawBuffer c) \<Longrightarrow>
    drain_packets (mc_rawBuffer c @ concat cs) = (ps, rest) \<Longrightarrow> take_packets ps c = (None, c') \<Longrightarrow>
    fold consume_chunk cs c = c'\<lparr>mc_rawBuffer := rest\<rparr>"
proof (induction cs arbitrary: c ps c')
  case (Cons x cs)
  obtain qs r where q: "drain_packets (mc_rawBuffer c @ x) = (qs, r)"
    by (cases "drain_packets (mc_rawBuffer c @ x)")
  obtain qs' where q': "drain_packets (r @ concat cs) = (qs', rest)" and ps: "ps = qs @ qs'"
    using Cons.prems(5) mqtt_drain_append[of "mc_rawBuffer c @ x" "concat cs"] q by (auto split: prod.splits)
  obtain c1 where c1: "take_packets qs c = (None, c1)" "take_packets qs' c1 = (None, c')"
    using Cons.prems(6) unfolding ps take_packets_append by (auto split: prod.splits option.splits)
  have len: "length r \<le> length (mc_rawBuffer c @ x)"
    by (rule drain_length[OF q])
  have s: "same_calls c c1"
    using take_same[of c qs] c1(1) by simp
  have "drainRawBuffer (c\<lparr>mc_rawBuffer := mc_rawBuffer c @ x\<rparr>) = (None, c1\<lparr>mc_rawBuffer := r\<rparr>)"
    using Cons.prems(3) q c1(1) by (subst drain_take[of _ qs r "c1\<lparr>mc_rawBuffer := mc_rawBuffer c @ x\<rparr>"]) (simp_all add: take_raw)
  then have step: "consume_chunk x c = c1\<lparr>mc_rawBuffer := r\<rparr>"
    using Cons.prems(1,2) by (simp add: consume_chunk_def)
  have "fold consume_chunk cs (c1\<lparr>mc_rawBuffer := r\<rparr>) = (c'\<lparr>mc_rawBuffer := r\<rparr>)\<lparr>mc_rawBuffer := rest\<rparr>"
  proof (rule Cons.IH)
    show "drain_packets (mc_rawBuffer (c1\<lparr>mc_rawBuffer := r\<rparr>)) = ([], mc_rawBuffer (c1\<lparr>mc_rawBuffer := r\<rparr>))"
      using mqtt.drain_rest[of "mc_rawBuffer c @ x"] q by simp
    show "take_packets qs' (c1\<lparr>mc_rawBuffer := r\<rparr>) = (None, c'\<lparr>mc_rawBuffer := r\<rparr>)"
      using c1(2) by (simp add: take_raw)
  qed (use s Cons.prems(1,2,3) len q' in \<open>simp_all add: same_calls_def\<close>)
  with step show ?case
    by simp
qed (simp add: mqtt.drain_rest)

text \<open>What the handlers of the client get for a list of packets.\<close>

definition handler_calls :: "(code_unit list, nat) jmap \<Rightarrow> mqtt_packet list \<Rightarrow> (nat \<times> code_unit list \<times> nat list) list" where
  "handler_calls subs ps = concat (map (\<lambda>p. map (\<lambda>(f, h). (h, the (pk_topic p), the (pk_payload p)))
     (filter (\<lambda>(f, h). topicMatches f (the (pk_topic p))) subs)) ps)"

lemma publish_fields: "pk_topic (publish_packet i t x) = Some t" "pk_payload (publish_packet i t x) = Some x"
  "pk_qos (publish_packet i t x) = Some (if i = None then 0 else 1)" "pk_packetId (publish_packet i t x) = i"
  by (simp_all add: publish_packet_def plain_packet_def)

lemma client_publish:
  assumes "client_packet p" "pk_type p = PUBLISH"
  shows "\<exists>i t x. p = publish_packet i t x \<and> (\<forall>n. i = Some n \<longrightarrow> 0 < n \<and> n \<le> 65535)"
proof -
  have "plain_packet PINGREQ \<noteq> p" "plain_packet DISCONNECT \<noteq> p" "subscribe_packet n f \<noteq> p" "puback_packet n \<noteq> p" for n f
    using assms(2) packet_types by (auto simp: plain_packet_def)
  then have p: "p = publish_packet (pk_packetId p) (the (pk_topic p)) (the (pk_payload p))"
    using assms(1) unfolding client_packet_def by metis
  moreover have "0 < n \<and> n \<le> 65535" if i: "pk_packetId p = Some n" for n
  proof -
    obtain bs where "packet_wire p = Inr bs"
      using assms(1) by (auto simp: client_packet_def)
    then have "encodePublish (the (pk_topic p)) (Inr (the (pk_payload p))) (Some (Fin (real n))) (Fin 1) = Inr bs"
      using assms(2) i by simp
    then show ?thesis
      by (auto simp: encodePublish_def then_do_Inr validateQos_def encodeUint16_Inr split: if_splits)
  qed
  ultimately show ?thesis
    by blast
qed

lemma deliver_publish:
  assumes "\<And>n. i = Some n \<Longrightarrow> 0 < n \<and> n \<le> 65535"
  shows "\<exists>sent. deliverIncoming (publish_packet i t x) c =
    (None, c\<lparr>mc_delivered := mc_delivered c @ handler_calls (mc_subscriptions c) [publish_packet i t x], mc_sent := sent\<rparr>)"
proof (cases i)
  case None
  then show ?thesis
    by (intro exI[of _ "mc_sent c"]) (simp add: deliverIncoming_def publish_fields handler_calls_def)
next
  case (Some n)
  then have "encodePuback (Fin (real n)) = Inr ([64, 2] @ uint16_bytes n)"
    using assms by (auto simp: encodePuback_def then_do_Inr encodeUint16_Inr)
  then show ?thesis
    using Some by (intro exI[of _ "mc_sent c @ [[64, 2] @ uint16_bytes n]"])
      (simp add: deliverIncoming_def publish_fields handler_calls_def send_def)
qed

lemma take_publishes:
  "\<forall>p\<in>set ps. client_packet p \<and> pk_type p = PUBLISH \<Longrightarrow>
    \<exists>sent. take_packets ps c = (None, c\<lparr>mc_delivered := mc_delivered c @ handler_calls (mc_subscriptions c) ps, mc_sent := sent\<rparr>)"
proof (induction ps arbitrary: c)
  case Nil
  show ?case
    by (intro exI[of _ "mc_sent c"]) (simp add: handler_calls_def)
next
  case (Cons p ps)
  then obtain i t x where p: "p = publish_packet i t x" "\<And>n. i = Some n \<Longrightarrow> 0 < n \<and> n \<le> 65535"
    using client_publish[of p] by (metis list.set_intros(1))
  obtain sent where d: "deliverIncoming p c =
      (None, c\<lparr>mc_delivered := mc_delivered c @ handler_calls (mc_subscriptions c) [p], mc_sent := sent\<rparr>)"
    using deliver_publish[OF p(2)] p(1) by blast
  obtain sent' where "take_packets ps (c\<lparr>mc_delivered := mc_delivered c @ handler_calls (mc_subscriptions c) [p], mc_sent := sent\<rparr>) =
      (None, c\<lparr>mc_delivered := (mc_delivered c @ handler_calls (mc_subscriptions c) [p]) @ handler_calls (mc_subscriptions c) ps,
        mc_sent := sent'\<rparr>)"
    using Cons.IH[of "c\<lparr>mc_delivered := mc_delivered c @ handler_calls (mc_subscriptions c) [p], mc_sent := sent\<rparr>"] Cons.prems
    by auto
  moreover have "handler_calls s (p # ps) = handler_calls s [p] @ handler_calls s ps" for s
    by (simp add: handler_calls_def)
  ultimately show ?case
    using Cons.prems d by (intro exI[of _ sent']) simp
qed

text \<open>C31: Publications survive the wire, up to 1 MiB of them. Publications that any client encodes, together at most 1 MiB
  long, sent one after the other and cut into any chunks, reach the handlers of a connected client that is reading,
  and whose buffer is empty at the start, in order, each once for every matching subscription, with the topic and the bytes of the payload; nothing
  stays in the buffer and the connection stays open. (A buffer of more than 1 MiB is the error
  \<open>MQTT_PACKET_TOO_LARGE\<close>.)\<close>

theorem publications_survive_chunking:
  assumes "\<forall>p\<in>set ps. client_packet p \<and> pk_type p = PUBLISH"
    and "concat chunks = concat (map client_bytes ps)" and "length (concat chunks) \<le> 1024 * 1024"
    and "connected c" and "mc_reading c" and "mc_rawBuffer c = []"
  shows "mc_delivered (fold consume_chunk chunks c) = mc_delivered c @ handler_calls (mc_subscriptions c) ps \<and>
    mc_rawBuffer (fold consume_chunk chunks c) = [] \<and> connected (fold consume_chunk chunks c)"
proof -
  have "drain_packets (concat chunks) = (ps, [])"
    using mqtt.drain_frames[of ps] assms(1,2) by auto
  moreover obtain sent where
    "take_packets ps c = (None, c\<lparr>mc_delivered := mc_delivered c @ handler_calls (mc_subscriptions c) ps, mc_sent := sent\<rparr>)"
    using take_publishes[OF assms(1)] by blast
  moreover have "drain_packets [] = ([], [])"
    by (simp add: drain_packets.simps[of "[]"] tryDecodePacket_def)
  ultimately have "fold consume_chunk chunks c =
      c\<lparr>mc_delivered := mc_delivered c @ handler_calls (mc_subscriptions c) ps, mc_sent := sent, mc_rawBuffer := []\<rparr>"
    using assms(3-6) by (intro consume_chunks) (simp_all add: connected_def)
  with assms(4) show ?thesis
    by (simp add: connected_def)
qed

lemma four_bytes: "length_bytes (Suc (Suc (Suc (Suc 0)))) = [4]"
  by (simp add: length_bytes.simps)

lemma wit_publish:
  "client_packet (publish_packet None [97] [1])" "client_bytes (publish_packet None [97] [1]) = [48, 4, 0, 1, 97, 1]"
proof -
  have w: "packet_wire (publish_packet None [97] [1]) = Inr [48, 4, 0, 1, 97, 1]"
    by (simp add: packet_types publish_fields encodePublish_def validateQos_def encodeMqttString_def letter_a payload_bytes_def
        packet_bytes_def encodeRemainingLength_def uint16_bytes_def four_bytes)
  show "client_bytes (publish_packet None [97] [1]) = [48, 4, 0, 1, 97, 1]"
    by (simp add: client_bytes_def w del: packet_wire.simps One_nat_def)
  show "client_packet (publish_packet None [97] [1])"
    unfolding client_packet_def w publish_fields
    by (simp add: text_ok_def high_surrogate_def low_surrogate_def utf16_def units_of_def scalar_value_def)
qed

theorem publications_survive_chunking_witness:
  "mc_delivered (fold consume_chunk [[48, 4, 0], [1, 97, 1]] (wit_connected\<lparr>mc_subscriptions := [([35], 7)]\<rparr>)) = [(7, [97], [1])]"
proof -
  have "mc_delivered (fold consume_chunk [[48, 4, 0], [1, 97, 1]] (wit_connected\<lparr>mc_subscriptions := [([35], 7)]\<rparr>)) =
    mc_delivered (wit_connected\<lparr>mc_subscriptions := [([35], 7)]\<rparr>) @
      handler_calls (mc_subscriptions (wit_connected\<lparr>mc_subscriptions := [([35], 7)]\<rparr>)) [publish_packet None [97] [1]]"
    by (rule publications_survive_chunking[THEN conjunct1])
      (use wit_connected_parts wit_publish in \<open>simp_all add: packet_types connected_def\<close>)
  then show ?thesis
    using wit_connected_parts by (simp add: handler_calls_def publish_fields topicMatches_def starts_dollar_def)
qed

text \<open>A client whose buffer starts with a byte that the decoder refuses.\<close>

definition blocked :: "nat \<Rightarrow> mqtt_client \<Rightarrow> bool" where
  "blocked b c \<longleftrightarrow> (\<exists>xs. mc_rawBuffer c = b # xs)"

lemma take_first_length: "take_first P xs = Some (y, ys) \<Longrightarrow> length ys \<le> length xs"
  by (induction xs arbitrary: ys) (fastforce split: if_splits option.splits)+

lemma calls_keep:
  "mc_rawBuffer (fail_call i k e c) = mc_rawBuffer c" "mc_delivered (fail_call i k e c) = mc_delivered c"
  "mc_controlQueue (fail_call i k e c) = mc_controlQueue c"
  "mc_rawBuffer (answer_call i k p c) = mc_rawBuffer c" "mc_delivered (answer_call i k p c) = mc_delivered c"
  "mc_controlQueue (answer_call i k p c) = mc_controlQueue c"
  "mc_rawBuffer (sendAwait now i k bs c) = mc_rawBuffer c" "mc_delivered (sendAwait now i k bs c) = mc_delivered c"
  "mc_controlQueue (sendAwait now i k bs c) = mc_controlQueue c"
  "mc_rawBuffer (settle_call i r c) = mc_rawBuffer c" "mc_delivered (settle_call i r c) = mc_delivered c"
  "mc_controlQueue (settle_call i r c) = mc_controlQueue c"
  "mc_rawBuffer (send bs c) = mc_rawBuffer c" "mc_delivered (send bs c) = mc_delivered c"
  "mc_controlQueue (send bs c) = mc_controlQueue c"
  "mc_rawBuffer (abortConnection c) = mc_rawBuffer c" "mc_delivered (abortConnection c) = mc_delivered c"
  "mc_controlQueue (abortConnection c) = mc_controlQueue c"
  "mc_rawBuffer (drop_pending i c) = mc_rawBuffer c" "mc_delivered (drop_pending i c) = mc_delivered c"
  "mc_controlQueue (drop_pending i c) = mc_controlQueue c"
  "mc_rawBuffer (count_call c) = mc_rawBuffer c" "mc_delivered (count_call c) = mc_delivered c"
  "mc_controlQueue (count_call c) = mc_controlQueue c"
  "mc_rawBuffer (snd (allocatePacketId c)) = mc_rawBuffer c" "mc_delivered (snd (allocatePacketId c)) = mc_delivered c"
  "mc_controlQueue (snd (allocatePacketId c)) = mc_controlQueue c"
  by (simp_all add: fail_call_def answer_call_def sendAwait_def settle_call_def send_def abortConnection_def drop_pending_def
      count_call_def release_id_def allocatePacketId_def split: pending_kind.split option.split)

lemma allocate_keeps:
  assumes "allocatePacketId c = (r, c1)"
  shows "mc_rawBuffer c1 = mc_rawBuffer c" "mc_delivered c1 = mc_delivered c" "mc_controlQueue c1 = mc_controlQueue c"
  using calls_keep(25-27)[of c] assms by simp_all

lemma blocked_step:
  assumes "blocked b c" and drain: "\<And>x. blocked b x \<Longrightarrow> snd (drainRawBuffer x) = x"
  shows "blocked b (mqtt_step e c) \<and> mc_delivered (mqtt_step e c) = mc_delivered c \<and>
    length (mc_controlQueue (mqtt_step e c)) \<le> length (mc_controlQueue c)"
proof (cases e)
  case (MPoll now i)
  obtain r where "drainRawBuffer c = (r, c)"
    using drain[OF assms(1)] by (cases "drainRawBuffer c") simp
  then show ?thesis
    using assms(1) take_first_length unfolding MPoll
    by (auto simp: poll_def calls_keep blocked_def split: option.split)
next
  case (MChunk bs)
  let ?c = "c\<lparr>mc_rawBuffer := mc_rawBuffer c @ bs\<rparr>"
  have "blocked b ?c"
    using assms(1) by (auto simp: blocked_def)
  then obtain r where "drainRawBuffer ?c = (r, ?c)"
    using drain by (cases "drainRawBuffer ?c") fastforce
  then show ?thesis
    using assms(1) unfolding MChunk by (auto simp: consume_chunk_def calls_keep blocked_def split: option.split)
next
  case (MSubscribe now f h q)
  then show ?thesis
    using assms(1) by (auto simp: subscribe_call_def calls_keep blocked_def Let_def allocate_keeps split: prod.split sum.split)
next
  case (MPublish now t x q)
  then show ?thesis
    using assms(1) by (auto simp: publish_call_def calls_keep blocked_def Let_def allocate_keeps split: prod.split sum.split)
qed (use assms(1) in \<open>auto simp: connect_call_def ping_call_def close_client_def calls_keep blocked_def split: sum.split\<close>)

text \<open>A packet that the decoder refuses is never skipped. Once the byte at the head of the buffer starts a
  packet of a type the codec does not know, or a publication of quality 2 or 3, the client delivers
  nothing more and takes no response any more, whatever arrives and whatever is called.\<close>

theorem refused_packet_blocks:
  assumes "mc_rawBuffer c = b # bs" and "map_of TYPE_BY_NUMBER (b div 16) = None \<or> b div 16 = 3 \<and> 2 \<le> b div 2 mod 4"
  shows "mc_delivered (mqtt_run es c) = mc_delivered c \<and> length (mc_controlQueue (mqtt_run es c)) \<le> length (mc_controlQueue c)"
proof -
  have refused: "drain_packets (b # xs) = ([], b # xs)" for xs
  proof -
    have "tryDecodePacket (b # xs) = None"
      using assms(2)
    proof
      assume "map_of TYPE_BY_NUMBER (b div 16) = None"
      then show ?thesis
        by (simp add: tryDecodePacket_def)
    next
      assume q: "b div 16 = 3 \<and> 2 \<le> b div 2 mod 4"
      then have "decode_body PUBLISH b body = None" for body
        by (simp add: decode_body_def decode_publish_def Let_def)
      moreover have "map_of TYPE_BY_NUMBER (b div 16) = Some PUBLISH"
        using q by (simp add: TYPE_BY_NUMBER_def)
      ultimately show ?thesis
        by (auto simp: tryDecodePacket_def split: option.split)
    qed
    then show ?thesis
      by (simp add: drain_packets.simps[of "b # xs"])
  qed
  have drain: "snd (drainRawBuffer x) = x" if "mc_rawBuffer x = b # xs" for x xs
  proof -
    have "x\<lparr>mc_rawBuffer := b # xs\<rparr> = x"
      using that by (cases x) simp
    then show ?thesis
      using that by (simp add: drainRawBuffer_def refused)
  qed
  have "blocked b (mqtt_step e x) \<and> mc_delivered (mqtt_step e x) = mc_delivered x \<and>
      length (mc_controlQueue (mqtt_step e x)) \<le> length (mc_controlQueue x)" if "blocked b x" for x e
    using that by (rule blocked_step) (auto simp: blocked_def intro: drain)
  then have "blocked b (fold mqtt_step es x) \<and> mc_delivered (fold mqtt_step es x) = mc_delivered x \<and>
      length (mc_controlQueue (fold mqtt_step es x)) \<le> length (mc_controlQueue x)" if "blocked b x" for x
    using that by (induction es arbitrary: x) (auto intro: order_trans)
  then show ?thesis
    using assms(1) by (auto simp: mqtt_run_def blocked_def)
qed

theorem refused_packet_blocks_witness:
  "mc_delivered (mqtt_run [MChunk [2, 0, 1], MChunk [48, 4, 0, 1, 97, 1]] (wit_connected\<lparr>mc_rawBuffer := [80]\<rparr>)) = []"
  using refused_packet_blocks[of "wit_connected\<lparr>mc_rawBuffer := [80]\<rparr>" 80 "[]"]
  by (simp add: TYPE_BY_NUMBER_def wit_connected_parts)

subsection \<open>Overlapping subscriptions\<close>

definition two_subscribed :: mqtt_client where
  "two_subscribed = mqtt_step (MSubscribe 3 [97] 8 (Fin 0)) (mqtt_step (MSubscribe 2 [97] 7 (Fin 0)) wit_connected)"

lemma subscribe_a: "\<exists>bs. encodeSubscribe (Fin 1) [97] (Fin 0) = Inr bs" "\<exists>bs. encodeSubscribe (Fin 2) [97] (Fin 0) = Inr bs"
  by (simp_all add: encodeSubscribe_def validateQos_def validateTopicFilter_def encodeUint16_def encodeMqttString_def letter_a
      packet_bytes_def encodeRemainingLength_def uint16_bytes_def)

lemma find_second_id: "1 < n \<Longrightarrow> find_packet_id n 2 [1] = Some (2, 3)"
  by (cases n) simp_all

lemma two_subscribed_parts:
  "mc_pending two_subscribed = [\<lparr>pd_call = 1, pd_kind = PSubscribe [97] None 1, pd_deadline = 5002\<rparr>,
     \<lparr>pd_call = 2, pd_kind = PSubscribe [97] (Some 7) 2, pd_deadline = 5003\<rparr>]"
  "mc_subscriptions two_subscribed = [([97], 8)]" "mc_rawBuffer two_subscribed = []" "mc_controlQueue two_subscribed = []"
  "mc_reading two_subscribed" "connected two_subscribed"
proof -
  obtain bs bs' where e: "encodeSubscribe (Fin 1) [97] (Fin 0) = Inr bs" "encodeSubscribe (Fin 2) [97] (Fin 0) = Inr bs'"
    using subscribe_a by blast
  note d = two_subscribed_def subscribe_call_def allocatePacketId_def count_call_def sendAwait_def send_def
  show "mc_pending two_subscribed = [\<lparr>pd_call = 1, pd_kind = PSubscribe [97] None 1, pd_deadline = 5002\<rparr>,
     \<lparr>pd_call = 2, pd_kind = PSubscribe [97] (Some 7) 2, pd_deadline = 5003\<rparr>]"
    "mc_subscriptions two_subscribed = [([97], 8)]" "mc_rawBuffer two_subscribed = []" "mc_controlQueue two_subscribed = []"
    "mc_reading two_subscribed" "connected two_subscribed"
    using wit_connected_parts e
    by (simp_all add: d connected_def find_packet_id_idle find_second_id Let_def del: find_packet_id.simps One_nat_def)
qed

lemma subacks: "drain_packets [144, 3, 0, 1, 128, 144, 3, 0, 2, 0] =
    ([(plain_packet SUBACK)\<lparr>pk_packetId := Some 1, pk_returnCodes := Some [128]\<rparr>,
      (plain_packet SUBACK)\<lparr>pk_packetId := Some 2, pk_returnCodes := Some [0]\<rparr>], [])"
  by (simp add: drain_packets.simps[of "[144, 3, 0, 1, 128, 144, 3, 0, 2, 0]"] drain_packets.simps[of "[144, 3, 0, 2, 0]"]
      drain_packets.simps[of "[]"] tryDecodePacket_def TYPE_BY_NUMBER_def decode_body_def decode_acked_def readUInt16BE_def
      del: One_nat_def)

text \<open>A refused subscription takes the handler of a later one with it. Two subscriptions to the same new
  filter are sent; the broker refuses the first and accepts the second. The second call succeeds, but
  the failure of the first has restored what it found before it, so no handler is left for the filter.\<close>

theorem refused_subscription_unsubscribes:
  "\<exists>c. c = mqtt_run [MSubscribe 2 [97] 7 (Fin 0), MSubscribe 3 [97] 8 (Fin 0),
        MChunk [144, 3, 0, 1, 128, 144, 3, 0, 2, 0], MPoll 4 1, MPoll 5 2] wit_connected \<and>
    connected c \<and> (1, Inl MQTT_SUBSCRIPTION_REFUSED) \<in> set (mc_settled c) \<and> (2, Inr ()) \<in> set (mc_settled c) \<and>
    mc_subscriptions c = []"
proof -
  define c1 where "c1 = consume_chunk [144, 3, 0, 1, 128, 144, 3, 0, 2, 0] two_subscribed"
  have c1: "mc_pending c1 = mc_pending two_subscribed" "mc_subscriptions c1 = [([97], 8)]" "mc_rawBuffer c1 = []"
    "mc_controlQueue c1 = [(plain_packet SUBACK)\<lparr>pk_packetId := Some 1, pk_returnCodes := Some [128]\<rparr>,
      (plain_packet SUBACK)\<lparr>pk_packetId := Some 2, pk_returnCodes := Some [0]\<rparr>]" "connected c1"
    using two_subscribed_parts(2-6)
    by (simp_all add: c1_def consume_chunk_def drainRawBuffer_def subacks plain_packet_def connected_def del: One_nat_def)
  define c2 where "c2 = poll 4 1 c1"
  have idle: "drainRawBuffer c = (None, c)" if "mc_rawBuffer c = []" for c
    using that by (cases c) (simp add: drainRawBuffer_def drain_packets.simps[of "[]"] tryDecodePacket_def)
  note d = poll_def awaited_def plain_packet_def answer_call_def fail_call_def settle_call_def
    release_id_def drop_pending_def connected_def
  have c2: "mc_pending c2 = [\<lparr>pd_call = 2, pd_kind = PSubscribe [97] (Some 7) 2, pd_deadline = 5003\<rparr>]" "mc_rawBuffer c2 = []"
    "mc_subscriptions c2 = []" "mc_controlQueue c2 = [(plain_packet SUBACK)\<lparr>pk_packetId := Some 2, pk_returnCodes := Some [0]\<rparr>]"
    "connected c2" "(1, Inl MQTT_SUBSCRIPTION_REFUSED) \<in> set (mc_settled c2)"
    using c1 two_subscribed_parts(1) by (simp_all add: c2_def d idle[OF c1(3)] del: One_nat_def)
  have "connected (poll 5 2 c2)" "(1, Inl MQTT_SUBSCRIPTION_REFUSED) \<in> set (mc_settled (poll 5 2 c2))"
    "(2, Inr ()) \<in> set (mc_settled (poll 5 2 c2))" "mc_subscriptions (poll 5 2 c2) = []"
    using c2 by (simp_all add: d idle[OF c2(2)] del: One_nat_def)
  moreover have "mqtt_run [MSubscribe 2 [97] 7 (Fin 0), MSubscribe 3 [97] 8 (Fin 0),
        MChunk [144, 3, 0, 1, 128, 144, 3, 0, 2, 0], MPoll 4 1, MPoll 5 2] wit_connected = poll 5 2 c2"
    unfolding mqtt_run_def fold_simps c2_def c1_def two_subscribed_def by simp
  ultimately show ?thesis
    by simp
qed

subsection \<open>Topic filters\<close>

text \<open>Section 4.7 of MQTT 3.1.1: a multi-level wildcard stands for any number of levels (none too), a
  single-level one for one level, and a filter whose first level is a wildcard matches no topic that
  starts with a dollar sign.\<close>

definition levels_agree :: "code_unit list list \<Rightarrow> code_unit list list \<Rightarrow> bool" where
  "levels_agree fs ts \<longleftrightarrow> length fs \<le> length ts \<and> (\<forall>i<length fs. fs ! i = [43] \<or> fs ! i = ts ! i)"

definition filter_spec :: "code_unit list \<Rightarrow> code_unit list \<Rightarrow> bool" where
  "filter_spec f t \<longleftrightarrow>
    (let fs = split_levels f; ts = split_levels t in
     \<not> (starts_dollar t \<and> (hd fs = [35] \<or> hd fs = [43])) \<and>
     (if List.last fs = [35] then levels_agree (butlast fs) ts else length fs = length ts \<and> levels_agree fs ts))"

lemma split_nonempty: "split_levels s \<noteq> []"
  by (cases s) auto

lemma levels_agree_Cons:
  "levels_agree [] ts" "levels_agree (f # fs) [] \<longleftrightarrow> False"
  "levels_agree (f # fs) (t # ts) \<longleftrightarrow> (f = [43] \<or> f = t) \<and> levels_agree fs ts"
  by (auto simp: levels_agree_def less_Suc_eq_0_disj)

lemma match_levels_spec:
  "\<not> bad_levels fs \<Longrightarrow> fs \<noteq> [] \<Longrightarrow> match_levels fs ts \<longleftrightarrow>
    (if List.last fs = [35] then levels_agree (butlast fs) ts else length fs = length ts \<and> levels_agree fs ts)"
proof (induction fs arbitrary: ts)
  case (Cons f fs)
  show ?case
  proof (cases "f = [35]")
    case True
    then show ?thesis
      using Cons.prems by (auto simp: levels_agree_Cons)
  next
    case f: False
    show ?thesis
    proof (cases fs)
      case Nil
      then show ?thesis
        using f by (cases ts) (auto simp: levels_agree_Cons)
    next
      case (Cons g gs)
      then show ?thesis
        using Cons.IH[of "tl ts"] Cons.prems f by (cases ts) (auto simp: levels_agree_Cons)
    qed
  qed
qed simp

lemma match_self: "\<not> bad_levels fs \<Longrightarrow> match_levels fs fs"
proof (induction fs)
  case (Cons f fs)
  then show ?case
    by (cases "f = [35]") simp_all
qed simp

lemma hd_split: "hd (split_levels s) = takeWhile (\<lambda>u. u \<noteq> 47) s"
  by (induction s) auto

text \<open>Matching is the standard's. For every valid filter, \<open>topicMatches\<close> accepts exactly the topics that
  section 4.7 of MQTT 3.1.1 gives the filter, whatever shortcuts it takes.\<close>

theorem topic_matching_exact:
  assumes "validateTopicFilter f = Inr ()"
  shows "topicMatches f t \<longleftrightarrow> filter_spec f t"
proof -
  have ok: "\<not> bad_levels (split_levels f)" "f \<noteq> []"
    using assms by (auto simp: validateTopicFilter_def split: if_splits)
  have m: "match_levels (split_levels f) (split_levels t) \<longleftrightarrow>
    (if List.last (split_levels f) = [35] then levels_agree (butlast (split_levels f)) (split_levels t)
     else length (split_levels f) = length (split_levels t) \<and> levels_agree (split_levels f) (split_levels t))"
    by (rule match_levels_spec[OF ok(1) split_nonempty])
  have eq: "match_levels (split_levels f) (split_levels t)" if "f = t"
    using match_self[OF ok(1)] that by simp
  have wild: "hd (split_levels f) = [35] \<or> hd (split_levels f) = [43]"
    if "match_levels (split_levels f) (split_levels t)" "starts_dollar t" "\<not> starts_dollar f"
  proof (rule ccontr)
    assume n: "\<not> ?thesis"
    obtain p ps where p: "split_levels f = p # ps"
      using split_nonempty by (metis neq_Nil_conv)
    obtain q qs where q: "split_levels t = q # qs"
      using split_nonempty by (metis neq_Nil_conv)
    have "p = q"
      using n that(1) unfolding p q by (auto split: if_splits)
    then have "takeWhile (\<lambda>u. u \<noteq> 47) f = takeWhile (\<lambda>u. u \<noteq> 47) t"
      using hd_split[of f] hd_split[of t] p q by simp
    then show False
      using that(2,3) by (cases t; cases f) (auto simp: starts_dollar_def split: if_splits)
  qed
  have dollar: "\<not> (hd (split_levels f) = [35] \<or> hd (split_levels f) = [43])" if "starts_dollar f"
    using that hd_split[of f] by (cases f) (auto simp: starts_dollar_def)
  show ?thesis
    using m eq wild dollar unfolding topicMatches_def filter_spec_def Let_def by auto
qed

theorem topic_matching_exact_witness: "topicMatches [97, 47, 35] [97] = filter_spec [97, 47, 35] [97]"
  by (rule topic_matching_exact) (simp add: validateTopicFilter_def)

end
