(* ===== verification/Fail_Safe.thy ===== *)
theory Fail_Safe
  imports Lease Safety
begin

text \<open>
  The daemon's fail-safe monitor, \<open>packages/daemon/src/failSafeMonitor.ts\<close>, over the lease manager and
  the safety engine: when a lease expires or the heartbeat of an armed device goes stale, the device's safe
  state is applied. Whether a device's \<open>applySafeState\<close> succeeds is a parameter. A tick is a sequence of
  steps, one per device it awaits; other calls may come between them. Payloads of the journal entries
  and events are not modelled beyond what they report.
\<close>

datatype fail_reason = LeaseExpiredReason | DeadmanStale

datatype fail_event = LeaseExpiredEvent lease | FailSafeApplied string fail_reason bool

record armed_device =
  ad_armedAt :: time
  ad_timeoutMs :: time
  ad_owner :: "string option"

datatype tick_phase = Idle | Reaping "lease list" | Checking time "time option" "string list"

record fail_safe_monitor =
  fm_leases :: lease_manager
  fm_safety :: safety_engine
  fm_devices :: "string list"
  fm_failSafeOnAuthorityLoss :: bool
  fm_defaultDeadmanMaxAgeMs :: time
  fm_armed :: "(string, armed_device) jmap"
  fm_timer :: bool
  fm_phase :: tick_phase
  fm_safe :: "(string \<times> fail_reason \<times> bool) list"
  fm_events :: "fail_event list"

definition DEFAULT_DEADMAN_MAX_AGE_MS :: time where
  "DEFAULT_DEADMAN_MAX_AGE_MS = 30000"

definition FailSafeMonitor ::
  "lease_manager \<Rightarrow> safety_engine \<Rightarrow> string list \<Rightarrow> bool option \<Rightarrow> time option \<Rightarrow> fail_safe_monitor" where
  "FailSafeMonitor leases safety devices enabled maxAge =
    \<lparr>fm_leases = leases, fm_safety = safety, fm_devices = devices,
     fm_failSafeOnAuthorityLoss = (enabled \<noteq> Some False),
     fm_defaultDeadmanMaxAgeMs = (case maxAge of None \<Rightarrow> DEFAULT_DEADMAN_MAX_AGE_MS | Some a \<Rightarrow> a),
     fm_armed = [], fm_timer = False, fm_phase = Idle, fm_safe = [], fm_events = []\<rparr>"

definition start_monitor :: "fail_safe_monitor \<Rightarrow> fail_safe_monitor" where
  "start_monitor m = (if \<not> fm_failSafeOnAuthorityLoss m \<or> fm_timer m then m else m\<lparr>fm_timer := True\<rparr>)"

definition stop_monitor :: "fail_safe_monitor \<Rightarrow> fail_safe_monitor" where
  "stop_monitor m = m\<lparr>fm_timer := False\<rparr>"

definition markArmed :: "time \<Rightarrow> string \<Rightarrow> string option \<Rightarrow> fail_safe_monitor \<Rightarrow> fail_safe_monitor" where
  "markArmed now d owner m =
    m\<lparr>fm_armed := jset d \<lparr>ad_armedAt = now, ad_timeoutMs = fm_defaultDeadmanMaxAgeMs m, ad_owner = owner\<rparr> (fm_armed m),
      fm_safety := heartbeatDeadman d now (fm_safety m)\<rparr>"

definition markDisarmed :: "string \<Rightarrow> fail_safe_monitor \<Rightarrow> fail_safe_monitor" where
  "markDisarmed d m = m\<lparr>fm_armed := jdelete d (fm_armed m), fm_safety := clearDeadman d (fm_safety m)\<rparr>"

definition isArmed :: "string \<Rightarrow> fail_safe_monitor \<Rightarrow> bool" where
  "isArmed d m \<longleftrightarrow> jhas (fm_armed m) d"

definition applyFailSafe :: "(string \<Rightarrow> bool) \<Rightarrow> string \<Rightarrow> fail_reason \<Rightarrow> fail_safe_monitor \<Rightarrow> fail_safe_monitor" where
  "applyFailSafe ok d reason m =
    (if d \<notin> set (fm_devices m) then markDisarmed d m
     else (let m1 = markDisarmed d (m\<lparr>fm_safe := fm_safe m @ [(d, reason, ok d)]\<rparr>)
       in m1\<lparr>fm_events := fm_events m1 @ [FailSafeApplied d reason (ok d)]\<rparr>))"

definition lease_device :: "lease \<Rightarrow> string" where
  "lease_device l = scope_device (l_scope l)"

definition reap_one :: "(string \<Rightarrow> bool) \<Rightarrow> lease \<Rightarrow> fail_safe_monitor \<Rightarrow> fail_safe_monitor" where
  "reap_one ok l m =
    applyFailSafe ok (lease_device l) LeaseExpiredReason (m\<lparr>fm_events := fm_events m @ [LeaseExpiredEvent l]\<rparr>)"

text \<open>The strictest age of the deadman rules.\<close>

definition rule_age :: "time \<Rightarrow> policy_rule \<Rightarrow> time" where
  "rule_age dflt r = (case pr_body r of Deadman (Some a) \<Rightarrow> a | _ \<Rightarrow> dflt)"

fun strictest :: "time list \<Rightarrow> time option \<Rightarrow> time option" where
  "strictest [] best = best"
| "strictest (a # ages) best =
    strictest ages (case best of None \<Rightarrow> Some a | Some b \<Rightarrow> if a < b then Some a else Some b)"

definition ruleMaxAge :: "fail_safe_monitor \<Rightarrow> time option" where
  "ruleMaxAge m = strictest (map (rule_age (fm_defaultDeadmanMaxAgeMs m)) (listDeadmanRules (fm_safety m))) None"

text \<open>A JavaScript \<open>Set\<close> of a list keeps first occurrences in order.\<close>

fun set_order :: "'a list \<Rightarrow> 'a list" where
  "set_order [] = []"
| "set_order (x # xs) = x # filter (\<lambda>y. y \<noteq> x) (set_order xs)"

definition monitored :: "fail_safe_monitor \<Rightarrow> string list" where
  "monitored m = set_order (map fst (fm_armed m) @ fm_devices m)"

definition check_one :: "(string \<Rightarrow> bool) \<Rightarrow> time \<Rightarrow> time option \<Rightarrow> string \<Rightarrow> fail_safe_monitor \<Rightarrow> fail_safe_monitor" where
  "check_one ok now ruleAge d m =
    (let armed = jget (fm_armed m) d; lastAlive = getDeadmanLastAlive d (fm_safety m) in
     if armed = None \<and> lastAlive = None \<and> ruleAge = None then m
     else (let maxAge = (case armed of Some a \<Rightarrow> ad_timeoutMs a
                         | None \<Rightarrow> (case ruleAge of Some x \<Rightarrow> x | None \<Rightarrow> fm_defaultDeadmanMaxAgeMs m))
       in if armed = None \<and> lastAlive = None then m
          else if armed = None \<and> ruleAge = None then m
          else (case (case lastAlive of Some t \<Rightarrow> Some t | None \<Rightarrow> map_option ad_armedAt armed) of
              None \<Rightarrow> m
            | Some reference \<Rightarrow> if now - reference \<le> maxAge then m else applyFailSafe ok d DeadmanStale m)))"

definition tick_begin :: "time \<Rightarrow> fail_safe_monitor \<Rightarrow> fail_safe_monitor" where
  "tick_begin now m =
    (if fm_phase m \<noteq> Idle \<or> \<not> fm_failSafeOnAuthorityLoss m then m
     else (case drainExpired now (fm_leases m) of
       (ls, lm) \<Rightarrow> m\<lparr>fm_leases := lm, fm_phase := Reaping ls\<rparr>))"

fun tick_next :: "(string \<Rightarrow> bool) \<Rightarrow> time \<Rightarrow> fail_safe_monitor \<Rightarrow> fail_safe_monitor" where
  "tick_next ok now m =
    (case fm_phase m of
      Idle \<Rightarrow> m
    | Reaping (l # ls) \<Rightarrow> (reap_one ok l m)\<lparr>fm_phase := Reaping ls\<rparr>
    | Reaping [] \<Rightarrow> m\<lparr>fm_phase := Checking now (ruleMaxAge m) (monitored m)\<rparr>
    | Checking t age (d # ds) \<Rightarrow> (check_one ok t age d m)\<lparr>fm_phase := Checking t age ds\<rparr>
    | Checking t age [] \<Rightarrow> m\<lparr>fm_phase := Idle\<rparr>)"

text \<open>A tick with no other call between its steps.\<close>

definition tick :: "(string \<Rightarrow> bool) \<Rightarrow> time \<Rightarrow> fail_safe_monitor \<Rightarrow> fail_safe_monitor" where
  "tick ok now m =
    (if fm_phase m \<noteq> Idle \<or> \<not> fm_failSafeOnAuthorityLoss m then m
     else (case drainExpired now (fm_leases m) of
       (ls, lm) \<Rightarrow> (let m1 = fold (reap_one ok) ls (m\<lparr>fm_leases := lm\<rparr>)
         in fold (check_one ok now (ruleMaxAge m1)) (monitored m1) m1)))"

subsection \<open>What a step touches\<close>

text \<open>\<open>touches d m m'\<close>: of the devices, only what concerns \<open>d\<close> has changed.\<close>

definition frame :: "fail_safe_monitor \<Rightarrow> fail_safe_monitor \<Rightarrow> bool" where
  "frame m m' \<longleftrightarrow> fm_devices m' = fm_devices m \<and> fm_phase m' = fm_phase m \<and> fm_leases m' = fm_leases m \<and>
    fm_failSafeOnAuthorityLoss m' = fm_failSafeOnAuthorityLoss m \<and> fm_timer m' = fm_timer m \<and>
    fm_defaultDeadmanMaxAgeMs m' = fm_defaultDeadmanMaxAgeMs m \<and> sg_rules (fm_safety m') = sg_rules (fm_safety m)"

definition alive_of :: "string \<Rightarrow> fail_safe_monitor \<Rightarrow> armed_device option \<times> time option" where
  "alive_of d m = (jget (fm_armed m) d, getDeadmanLastAlive d (fm_safety m))"

definition made_safe :: "fail_safe_monitor \<Rightarrow> string set" where
  "made_safe m = fst ` set (fm_safe m)"

lemma frame_refl [simp]: "frame m m"
  by (simp add: frame_def)

lemma frame_trans: "frame a b \<Longrightarrow> frame b c \<Longrightarrow> frame a c"
  by (simp add: frame_def)

lemma apply_parts:
  "frame m (applyFailSafe ok d r m)"
  "alive_of d' (applyFailSafe ok d r m) = (if d' = d then (None, None) else alive_of d' m)"
  "made_safe (applyFailSafe ok d r m) = made_safe m \<union> ({d} \<inter> set (fm_devices m))"
  by (auto simp: applyFailSafe_def markDisarmed_def frame_def clearDeadman_def alive_of_def getDeadmanLastAlive_def jget_delete
      made_safe_def Let_def)

lemma reap_parts:
  "frame m (reap_one ok l m)"
  "alive_of d (reap_one ok l m) = (if d = lease_device l then (None, None) else alive_of d m)"
  "made_safe (reap_one ok l m) = made_safe m \<union> ({lease_device l} \<inter> set (fm_devices m))"
  using apply_parts[where m = "m\<lparr>fm_events := fm_events m @ [LeaseExpiredEvent l]\<rparr>" and d = "lease_device l" and ok = ok]
  by (simp_all add: reap_one_def frame_def alive_of_def made_safe_def)

lemma reap_all_parts:
  "frame m (fold (reap_one ok) ls m) \<and>
   alive_of d (fold (reap_one ok) ls m) = (if d \<in> lease_device ` set ls then (None, None) else alive_of d m) \<and>
   made_safe (fold (reap_one ok) ls m) = made_safe m \<union> (lease_device ` set ls \<inter> set (fm_devices m))"
proof (induction ls arbitrary: m)
  case (Cons l ls)
  then show ?case
    using reap_parts[where m = m and ok = ok and l = l] frame_trans by (auto simp: frame_def)
qed simp

text \<open>Whether the deadman check finds a device stale.\<close>

definition stale :: "time \<Rightarrow> time option \<Rightarrow> armed_device option \<times> time option \<Rightarrow> bool" where
  "stale now age s =
    (case s of
      (Some a, None) \<Rightarrow> now - ad_armedAt a > ad_timeoutMs a
    | (Some a, Some t) \<Rightarrow> now - t > ad_timeoutMs a
    | (None, Some t) \<Rightarrow> (case age of None \<Rightarrow> False | Some x \<Rightarrow> now - t > x)
    | (None, None) \<Rightarrow> False)"

lemma check_eq: "check_one ok now age d m = (if stale now age (alive_of d m) then applyFailSafe ok d DeadmanStale m else m)"
  by (auto simp: check_one_def stale_def alive_of_def Let_def split: option.split)

lemma check_all_parts:
  "distinct ds \<Longrightarrow> frame m (fold (check_one ok now age) ds m) \<and>
    made_safe (fold (check_one ok now age) ds m) =
      made_safe m \<union> {d \<in> set ds \<inter> set (fm_devices m). stale now age (alive_of d m)}"
proof (induction ds arbitrary: m)
  case (Cons d ds)
  let ?m = "check_one ok now age d m"
  have f: "frame m ?m" "d' \<noteq> d \<Longrightarrow> alive_of d' ?m = alive_of d' m" for d'
    by (simp_all add: check_eq apply_parts)
  have s: "made_safe ?m = made_safe m \<union> ({d} \<inter> {d \<in> set (fm_devices m). stale now age (alive_of d m)})"
    by (auto simp: check_eq apply_parts)
  have "frame ?m (fold (check_one ok now age) ds ?m) \<and> made_safe (fold (check_one ok now age) ds ?m) =
      made_safe ?m \<union> {d \<in> set ds \<inter> set (fm_devices ?m). stale now age (alive_of d ?m)}"
    using Cons by simp
  moreover have "fm_devices ?m = fm_devices m"
    using f(1) by (simp add: frame_def)
  moreover have "{x \<in> set ds \<inter> set (fm_devices m). stale now age (alive_of x ?m)} =
      {x \<in> set ds \<inter> set (fm_devices m). stale now age (alive_of x m)}"
  proof -
    have "alive_of x ?m = alive_of x m" if "x \<in> set ds" for x
      using that Cons.prems by (intro f(2)) auto
    then show ?thesis
      by auto
  qed
  ultimately show ?case
    using s f(1) frame_trans by auto
qed simp

lemma set_set_order: "set (set_order xs) = set xs" "distinct (set_order xs)"
  by (induction xs) auto

lemma rule_age_frame: "frame m m' \<Longrightarrow> ruleMaxAge m' = ruleMaxAge m"
  by (simp add: frame_def ruleMaxAge_def listDeadmanRules_def)

subsection \<open>What a tick does\<close>

definition expired_on :: "time \<Rightarrow> fail_safe_monitor \<Rightarrow> string set" where
  "expired_on now m = lease_device ` {l \<in> set (jvalues (lm_leases (fm_leases m))). isExpired now l}"

lemma drained: "lease_device ` set (fst (drainExpired now (fm_leases m))) = expired_on now m"
  by (auto simp: drainExpired_def expired_on_def image_iff)

lemma tick_parts:
  assumes "fm_phase m = Idle" "fm_failSafeOnAuthorityLoss m"
  shows "made_safe (tick ok now m) = made_safe m \<union>
    {d \<in> set (fm_devices m). d \<in> expired_on now m \<or> stale now (ruleMaxAge m) (alive_of d m)}"
proof -
  obtain ls lm where d: "drainExpired now (fm_leases m) = (ls, lm)"
    by (cases "drainExpired now (fm_leases m)")
  have ls: "lease_device ` set ls = expired_on now m"
    using drained[of now m] d by simp
  define m0 where "m0 = m\<lparr>fm_leases := lm\<rparr>"
  define m1 where "m1 = fold (reap_one ok) ls m0"
  have r: "frame m0 m1" "\<And>d. alive_of d m1 = (if d \<in> expired_on now m then (None, None) else alive_of d m)"
    "made_safe m1 = made_safe m \<union> (expired_on now m \<inter> set (fm_devices m))"
    using reap_all_parts[of m0 ok ls] unfolding m1_def ls by (simp_all add: m0_def alive_of_def made_safe_def)
  have dev: "fm_devices m1 = fm_devices m"
    using r(1) by (simp add: frame_def m0_def)
  have age: "ruleMaxAge m1 = ruleMaxAge m"
    using rule_age_frame[OF r(1)] by (simp add: m0_def ruleMaxAge_def)
  have t: "tick ok now m = fold (check_one ok now (ruleMaxAge m)) (monitored m1) m1"
    using assms by (simp add: tick_def d Let_def m0_def[symmetric] m1_def[symmetric] age)
  have "made_safe (tick ok now m) = made_safe m1 \<union>
      {d \<in> set (monitored m1) \<inter> set (fm_devices m1). stale now (ruleMaxAge m) (alive_of d m1)}"
    unfolding t by (rule conjunct2[OF check_all_parts]) (simp add: monitored_def set_set_order)
  also have "set (monitored m1) \<inter> set (fm_devices m1) = set (fm_devices m)"
    by (auto simp: monitored_def set_set_order dev)
  finally show ?thesis
    using r(2,3) by (auto simp: stale_def split: if_splits)
qed

text \<open>C9: A tick makes safe exactly the devices that have lost their authority. From any state of an enabled
  monitor between two ticks, a tick applies the safe state to a device of the runtime if and only if
  the lease table holds an expired lease on it, or it is armed and its last heartbeat (its arming, if
  there was none) is older than the host's limit, or it has sent a heartbeat older than the strictest
  configured deadman rule.\<close>

theorem tick_makes_safe_exactly:
  assumes "fm_phase m = Idle" and "fm_failSafeOnAuthorityLoss m" and "fm_safe m = []"
  shows "d \<in> fst ` set (fm_safe (tick ok now m)) \<longleftrightarrow>
    d \<in> set (fm_devices m) \<and>
    ((\<exists>l\<in>set (jvalues (lm_leases (fm_leases m))). scope_device (l_scope l) = d \<and> l_expiresAt l \<le> now) \<or>
     (case (jget (fm_armed m) d, getDeadmanLastAlive d (fm_safety m)) of
       (Some a, None) \<Rightarrow> now - ad_armedAt a > ad_timeoutMs a
     | (Some a, Some t) \<Rightarrow> now - t > ad_timeoutMs a
     | (None, Some t) \<Rightarrow> (case ruleMaxAge m of None \<Rightarrow> False | Some x \<Rightarrow> now - t > x)
     | (None, None) \<Rightarrow> False))"
proof -
  have "(\<exists>l\<in>set (jvalues (lm_leases (fm_leases m))). scope_device (l_scope l) = d \<and> l_expiresAt l \<le> now) \<longleftrightarrow>
      d \<in> expired_on now m"
    by (auto simp: expired_on_def lease_device_def isExpired_def)
  then show ?thesis
    using tick_parts[OF assms(1,2), of ok now] assms(3) by (simp add: made_safe_def stale_def alive_of_def)
qed

subsection \<open>A tick in steps\<close>

lemma reap_phase: "fm_phase (reap_one ok l m) = fm_phase m"
  using reap_parts(1)[of m ok l] by (simp add: frame_def)

lemma reap_other_phase: "reap_one ok l (m\<lparr>fm_phase := p\<rparr>) = (reap_one ok l m)\<lparr>fm_phase := p\<rparr>"
  by (simp add: reap_one_def applyFailSafe_def markDisarmed_def Let_def)

lemma check_other_phase: "check_one ok now age d (m\<lparr>fm_phase := p\<rparr>) = (check_one ok now age d m)\<lparr>fm_phase := p\<rparr>"
  by (simp add: check_eq applyFailSafe_def markDisarmed_def Let_def alive_of_def)

lemma reaping_steps:
  "(tick_next ok now ^^ length ls) (m\<lparr>fm_phase := Reaping ls\<rparr>) = (fold (reap_one ok) ls m)\<lparr>fm_phase := Reaping []\<rparr>"
proof (induction ls arbitrary: m)
  case (Cons l ls)
  then show ?case
    by (simp add: funpow_Suc_right reap_other_phase del: funpow.simps)
qed simp

lemma checking_steps:
  "(tick_next ok now ^^ length ds) (m\<lparr>fm_phase := Checking t age ds\<rparr>) =
    (fold (check_one ok t age) ds m)\<lparr>fm_phase := Checking t age []\<rparr>"
proof (induction ds arbitrary: m)
  case (Cons d ds)
  then show ?case
    by (simp add: funpow_Suc_right check_other_phase del: funpow.simps)
qed simp

text \<open>A tick ends. Once begun, it is over after one step for each lease it drained, one for each device
  it then looks at, and two more; and if nothing comes between its steps it does what \<open>tick\<close> says.\<close>

theorem tick_ends:
  assumes "fm_phase m = Idle" and "fm_failSafeOnAuthorityLoss m"
  shows "(tick_next ok now ^^ (length (fst (drainExpired now (fm_leases m))) + 1 +
      length (monitored (fold (reap_one ok) (fst (drainExpired now (fm_leases m)))
        (m\<lparr>fm_leases := snd (drainExpired now (fm_leases m))\<rparr>))) + 1)) (tick_begin now m) = tick ok now m"
proof -
  obtain ls lm where d: "drainExpired now (fm_leases m) = (ls, lm)"
    by (cases "drainExpired now (fm_leases m)")
  define m1 where "m1 = fold (reap_one ok) ls (m\<lparr>fm_leases := lm\<rparr>)"
  define m2 where "m2 = fold (check_one ok now (ruleMaxAge m1)) (monitored m1) m1"
  have same: "monitored (m1\<lparr>fm_phase := p\<rparr>) = monitored m1" "ruleMaxAge (m1\<lparr>fm_phase := p\<rparr>) = ruleMaxAge m1" for p
    by (simp_all add: monitored_def ruleMaxAge_def)
  have "fm_phase m1 = Idle"
    using reap_all_parts[of "m\<lparr>fm_leases := lm\<rparr>" ok ls] assms(1) by (simp add: frame_def m1_def)
  then have "fm_phase m2 = Idle"
    using check_all_parts[of "monitored m1" m1 ok now "ruleMaxAge m1"]
    by (simp add: frame_def m2_def monitored_def set_set_order)
  then have i: "m2\<lparr>fm_phase := Idle\<rparr> = m2"
    by (cases m2) simp
  have b: "tick_begin now m = (m\<lparr>fm_leases := lm\<rparr>)\<lparr>fm_phase := Reaping ls\<rparr>"
    using assms by (simp add: tick_begin_def d)
  have "(tick_next ok now ^^ length ls) (tick_begin now m) = m1\<lparr>fm_phase := Reaping []\<rparr>"
    unfolding b reaping_steps m1_def by (rule refl)
  moreover have "tick_next ok now (m1\<lparr>fm_phase := Reaping []\<rparr>) = m1\<lparr>fm_phase := Checking now (ruleMaxAge m1) (monitored m1)\<rparr>"
    by (simp add: same)
  moreover have "(tick_next ok now ^^ length (monitored m1)) (m1\<lparr>fm_phase := Checking now (ruleMaxAge m1) (monitored m1)\<rparr>) =
      m2\<lparr>fm_phase := Checking now (ruleMaxAge m1) []\<rparr>"
    unfolding checking_steps m2_def by (rule refl)
  moreover have "tick_next ok now (m2\<lparr>fm_phase := Checking now (ruleMaxAge m1) []\<rparr>) = m2"
    by (simp add: i)
  moreover have "(tick_next ok now ^^ (length ls + 1 + length (monitored m1) + 1)) x =
      tick_next ok now ((tick_next ok now ^^ length (monitored m1)) (tick_next ok now ((tick_next ok now ^^ length ls) x)))" for x
  proof -
    have "length ls + 1 + length (monitored m1) + 1 = Suc (length (monitored m1) + Suc (length ls))"
      by simp
    then show ?thesis
      by (simp only: funpow.simps funpow_add comp_apply)
  qed
  ultimately have "(tick_next ok now ^^ (length ls + 1 + length (monitored m1) + 1)) (tick_begin now m) = m2"
    by simp
  moreover have "tick ok now m = m2"
    using assms by (simp add: tick_def d Let_def m1_def m2_def)
  ultimately show ?thesis
    unfolding d fst_conv snd_conv m1_def by simp
qed

subsection \<open>Authority that is lost unseen\<close>

text \<open>C34: A lease that any other call reaps is never made safe. Let a device be neither armed nor sending
  heartbeats, with a lease that has expired, as every lease on it has. A tick makes the device safe.
  But if anybody asks first whether any owner may use any device, the lease manager drops the expired
  lease on the way, and no later tick makes the device safe.\<close>

theorem reaped_lease_never_made_safe:
  assumes "fm_phase m = Idle" and "fm_failSafeOnAuthorityLoss m" and "fm_safe m = []"
    and "d \<in> set (fm_devices m)" and "jget (fm_armed m) d = None" and "getDeadmanLastAlive d (fm_safety m) = None"
    and "l \<in> set (jvalues (lm_leases (fm_leases m)))" and "scope_device (l_scope l) = d"
    and "\<And>k. k \<in> set (jvalues (lm_leases (fm_leases m))) \<Longrightarrow> scope_device (l_scope k) = d \<Longrightarrow> l_expiresAt k \<le> t"
  shows "d \<in> fst ` set (fm_safe (tick ok t m)) \<and>
    d \<notin> fst ` set (fm_safe (tick ok t' (m\<lparr>fm_leases := snd (permits owner d' cap mode t (fm_leases m))\<rparr>)))"
proof -
  let ?m = "m\<lparr>fm_leases := snd (permits owner d' cap mode t (fm_leases m))\<rparr>"
  have "alive_of d m = (None, None)" "alive_of d ?m = (None, None)"
    using assms(5,6) by (simp_all add: alive_of_def)
  moreover have "d \<in> expired_on t m"
    using assms(7-9) by (auto simp: expired_on_def lease_device_def isExpired_def)
  moreover have "d \<notin> expired_on t' ?m"
    using assms(9) by (auto simp: expired_on_def lease_device_def isExpired_def permits_state reapExpired_state)
  ultimately show ?thesis
    using tick_parts[of m ok t] tick_parts[of ?m ok t'] assms(1-4) by (auto simp: made_safe_def stale_def)
qed

text \<open>A safe state that fails is not tried again. When a device's safe state fails, the monitor drops the
  device's record and heartbeat all the same, and as long as no lease on it expires no later tick
  tries again, though the device may still be running.\<close>

theorem failed_safe_state_not_retried:
  assumes "fm_phase m = Idle" and "fm_failSafeOnAuthorityLoss m" and "d \<in> set (fm_devices m)" and "\<not> ok d"
    and "\<And>k. k \<in> set (jvalues (lm_leases (fm_leases m))) \<Longrightarrow> scope_device (l_scope k) = d \<Longrightarrow> now < l_expiresAt k"
  shows "fm_safe (applyFailSafe ok d r m) = fm_safe m @ [(d, r, False)] \<and>
    d \<notin> fst ` set (fm_safe (tick ok' now ((applyFailSafe ok d r m)\<lparr>fm_safe := []\<rparr>)))"
proof -
  let ?m = "(applyFailSafe ok d r m)\<lparr>fm_safe := []\<rparr>"
  have f: "frame m (applyFailSafe ok d r m)"
    by (rule apply_parts)
  have "alive_of d ?m = (None, None)"
    using apply_parts(2)[of d ok d r m] by (simp add: alive_of_def)
  moreover have "d \<notin> expired_on now ?m"
    using f assms(5) by (force simp: frame_def expired_on_def lease_device_def isExpired_def)
  ultimately have "d \<notin> made_safe (tick ok' now ?m)"
    using tick_parts[of ?m ok' now] f assms(1,2) by (simp add: frame_def made_safe_def stale_def)
  moreover have "fm_safe (applyFailSafe ok d r m) = fm_safe m @ [(d, r, False)]"
    using assms(3,4) by (simp add: applyFailSafe_def markDisarmed_def Let_def)
  ultimately show ?thesis
    by (simp add: made_safe_def)
qed

subsection \<open>Witnesses\<close>

definition pump_lease :: lease where
  "pump_lease = \<lparr>l_id = ''lease_1_a'', l_mode = Exclusive, l_scope = DeviceScope ''pump'', l_owner = ''a'',
     l_createdAt = 0, l_expiresAt = 10, l_renewable = True\<rparr>"

definition pump_monitor :: fail_safe_monitor where
  "pump_monitor = FailSafeMonitor \<lparr>lm_leases = [(''lease_1_a'', pump_lease)], lm_sequence = 1, lm_maxTtl = 60000\<rparr>
     (SafetyEngine [] None False) [''pump'', ''lamp''] None None"

lemma pump_parts: "fm_phase pump_monitor = Idle" "fm_failSafeOnAuthorityLoss pump_monitor" "fm_safe pump_monitor = []"
  "fm_devices pump_monitor = [''pump'', ''lamp'']" "fm_armed pump_monitor = []"
  "getDeadmanLastAlive d (fm_safety pump_monitor) = None" "jvalues (lm_leases (fm_leases pump_monitor)) = [pump_lease]"
  "ruleMaxAge pump_monitor = None"
  by (simp_all add: pump_monitor_def FailSafeMonitor_def getDeadmanLastAlive_def SafetyEngine_def ruleMaxAge_def
      listDeadmanRules_def)

theorem tick_makes_safe_exactly_witness:
  "''pump'' \<in> fst ` set (fm_safe (tick (\<lambda>_. True) 20 pump_monitor)) \<and> ''lamp'' \<notin> fst ` set (fm_safe (tick (\<lambda>_. True) 20 pump_monitor))"
  using tick_makes_safe_exactly[of pump_monitor "''pump''" "\<lambda>_. True" 20] tick_makes_safe_exactly[of pump_monitor "''lamp''" "\<lambda>_. True" 20]
  by (simp add: pump_parts) (simp add: pump_lease_def)

theorem tick_ends_witness: "(tick_next (\<lambda>_. True) 20 ^^ 5) (tick_begin 20 pump_monitor) = tick (\<lambda>_. True) 20 pump_monitor"
proof -
  have d: "drainExpired 20 (fm_leases pump_monitor) = ([pump_lease], \<lparr>lm_leases = [], lm_sequence = 1, lm_maxTtl = 60000\<rparr>)"
    by (simp add: pump_monitor_def FailSafeMonitor_def drainExpired_def isExpired_def pump_lease_def)
  have "monitored (fold (reap_one (\<lambda>_. True)) [pump_lease]
      (pump_monitor\<lparr>fm_leases := \<lparr>lm_leases = [], lm_sequence = 1, lm_maxTtl = 60000\<rparr>\<rparr>)) = [''pump'', ''lamp'']"
    by (simp add: monitored_def reap_one_def applyFailSafe_def markDisarmed_def pump_parts Let_def)
  then show ?thesis
    using tick_ends[where m = pump_monitor and ok = "\<lambda>_. True" and now = 20] unfolding d by (simp add: pump_parts eval_nat_numeral del: funpow.simps)
qed

theorem reaped_lease_never_made_safe_witness:
  "''pump'' \<in> fst ` set (fm_safe (tick (\<lambda>_. True) 20 pump_monitor)) \<and>
   ''pump'' \<notin> fst ` set (fm_safe (tick (\<lambda>_. True) 30
     (pump_monitor\<lparr>fm_leases := snd (permits ''b'' ''lamp'' ''on'' Exclusive 20 (fm_leases pump_monitor))\<rparr>)))"
  by (rule reaped_lease_never_made_safe[where l = pump_lease]) (simp_all add: pump_parts, simp_all add: pump_lease_def)

theorem failed_safe_state_not_retried_witness:
  "fm_safe (applyFailSafe (\<lambda>_. False) ''lamp'' DeadmanStale pump_monitor) = [(''lamp'', DeadmanStale, False)] \<and>
   ''lamp'' \<notin> fst ` set (fm_safe (tick (\<lambda>_. True) 20 ((applyFailSafe (\<lambda>_. False) ''lamp'' DeadmanStale pump_monitor)\<lparr>fm_safe := []\<rparr>)))"
  using failed_safe_state_not_retried[of pump_monitor "''lamp''" "\<lambda>_. False" 20 DeadmanStale "\<lambda>_. True"]
  by (simp add: pump_parts) (simp add: pump_lease_def)

end
