(* ===== verification/Device_Instance.thy ===== *)
theory Device_Instance
  imports Schema Evidence Halt Safety
begin

text \<open>
  A device of the runtime, \<open>packages/core/src/runtime/deviceInstance.ts\<close>: the invocation pipeline in
  front of a backend (schema, prerequisites, halt gate, policies, safety engine, backend, output check),
  the evidence it records, its events and its life cycle. The backend is not part of the model: what its
  state functions answer is an argument (\<open>reading\<close>), its calls are a log, and the end of a call is a
  step of its own, so that anything may come between the two. The halt coordinator and the safety engine
  belong to the runtime and are shared (\<open>governance\<close>).

  An evidence value \<open>None\<close> is \<open>null\<close>. \<open>nt\<close> is the text of a number in a template string.
\<close>

datatype lifecycle_status = Connecting | Ready | Busy | LcFaulted | LcStopped | LcDisconnected

record capability_descriptor =
  cd_name :: string
  cd_input :: schema
  cd_output :: schema
  cd_physicalOutput :: bool

text \<open>An absent \<open>expectedValue\<close> is \<open>JUndefined\<close>.\<close>

record state_prerequisite =
  sp_key :: string
  sp_expectedValue :: jsval
  sp_maxAgeMs :: "int option"

text \<open>
  What a method reads of the outside: the clocks, the backend's operational state with its fields
  \<open>commanded\<close>, \<open>acknowledged\<close> and \<open>observed\<close> if it has all three, and the backend's evidence.
\<close>

record reading =
  rd_wall :: int
  rd_now :: time
  rd_state :: jsval
  rd_lamp :: "jsval partial_evidence option"
  rd_backend :: "(string \<times> jsval evidence_state) list"

record governance =
  gv_halt :: "halt_coordinator option"
  gv_safety :: "safety_engine option"
  gv_engine :: nat

datatype device_error =
    DeviceDisconnected
  | UnsupportedCapability string
  | SchemaError schema_error
  | PrerequisiteError perr string
  | PrerequisiteTypeError string
  | HaltError perr
  | PolicyError policy_thrown
  | PreviewDenied string
  | BackendError thrown

record invoke_options =
  io_owner :: "string option"
  io_dryRun :: bool

text \<open>An invocation that waits for the backend; its reservation with the engine it was made on.\<close>

record pending_invocation =
  pi_id :: nat
  pi_descriptor :: capability_descriptor
  pi_reservation :: "(nat \<times> safety_reservation) option"

record event_envelope =
  en_deviceId :: string
  en_event :: string
  en_payload :: jsrecord
  en_timestamp :: int
  en_stateEvidence :: "(string, jsval evidence_state) jmap"

record device_instance =
  di_id :: string
  di_capabilities :: "capability_descriptor list"
  di_policies :: "policy_rule list"
  di_simulated :: bool
  di_evidence :: "(string, jsval evidence_state) jmap"
  di_prerequisites :: "(string, state_prerequisite list) jmap"
  di_maxStateAge :: "(string, int) jmap"
  di_defaultMaxAge :: "int option"
  di_handlers :: "nat list"
  di_lifecycle :: lifecycle_status
  di_lastUpdated :: int
  di_active :: int
  di_closing :: bool
  di_subscribed :: bool
  di_bridges :: "string list"
  di_flight :: "pending_invocation list"
  di_next :: nat
  di_calls :: "(nat \<times> string \<times> jsrecord) list"
  di_closes :: nat
  di_delivered :: "(nat \<times> event_envelope) list"

datatype max_age_option = MaxAgeNone | MaxAgeAll int | MaxAgePerKey "(string \<times> int) list"

definition DeviceInstance ::
  "string \<Rightarrow> capability_descriptor list \<Rightarrow> policy_rule list \<Rightarrow> bool \<Rightarrow> (string \<times> state_prerequisite list) list \<Rightarrow>
    max_age_option \<Rightarrow> nat option \<Rightarrow> int \<Rightarrow> device_instance" where
  "DeviceInstance i caps rules sim prereqs ages onEvent wall =
    \<lparr>di_id = i, di_capabilities = caps, di_policies = rules, di_simulated = sim, di_evidence = [],
     di_prerequisites = fold (\<lambda>(c, ps). jset c ps) prereqs [],
     di_maxStateAge = (case ages of MaxAgePerKey kvs \<Rightarrow> fold (\<lambda>(k, a). jset k a) kvs [] | _ \<Rightarrow> []),
     di_defaultMaxAge = (case ages of MaxAgeAll a \<Rightarrow> Some a | _ \<Rightarrow> None),
     di_handlers = (case onEvent of Some h \<Rightarrow> [h] | None \<Rightarrow> []),
     di_lifecycle = Ready, di_lastUpdated = wall, di_active = 0, di_closing = False, di_subscribed = True,
     di_bridges = [], di_flight = [], di_next = 0, di_calls = [], di_closes = 0, di_delivered = []\<rparr>"

definition attachGovernance :: "halt_coordinator \<Rightarrow> safety_engine \<Rightarrow> governance \<Rightarrow> governance" where
  "attachGovernance h s gv = \<lparr>gv_halt = Some h, gv_safety = Some s, gv_engine = Suc (gv_engine gv)\<rparr>"

definition device_provenance :: "device_instance \<Rightarrow> provenance" where
  "device_provenance d = (if di_simulated d then ProvSimulated else ProvHardware)"

definition getMaxAgeMs :: "device_instance \<Rightarrow> string \<Rightarrow> int option" where
  "getMaxAgeMs d k = (case jget (di_maxStateAge d) k of Some a \<Rightarrow> Some a | None \<Rightarrow> di_defaultMaxAge d)"

definition setMaxAgeMs :: "string option \<Rightarrow> int option \<Rightarrow> device_instance \<Rightarrow> device_instance" where
  "setMaxAgeMs key age d =
    (case key of
      None \<Rightarrow> (case age of Some a \<Rightarrow> d\<lparr>di_defaultMaxAge := Some a\<rparr> | None \<Rightarrow> d)
    | Some k \<Rightarrow> (case age of Some a \<Rightarrow> d\<lparr>di_maxStateAge := jset k a (di_maxStateAge d)\<rparr> | None \<Rightarrow> d))"

definition setPrerequisite :: "string \<Rightarrow> state_prerequisite \<Rightarrow> device_instance \<Rightarrow> device_instance" where
  "setPrerequisite c p d =
    d\<lparr>di_prerequisites := jset c (or_nil (jget (di_prerequisites d) c) @ [p]) (di_prerequisites d)\<rparr>"

subsection \<open>Evidence\<close>

definition aged :: "device_instance \<Rightarrow> reading \<Rightarrow> string \<Rightarrow> jsval evidence_state \<Rightarrow> jsval evidence_state" where
  "aged d rd k s = Evidence.fresh_state (computeFreshness (Some (StampMs (rd_wall rd))) (getMaxAgeMs d k) (rd_wall rd) s)"

definition lamp_evidence :: "device_instance \<Rightarrow> jsval partial_evidence \<Rightarrow> jsval evidence_state" where
  "lamp_evidence d p =
    \<lparr>es_commanded = given (pe_commanded p) no_value, es_acknowledged = given (pe_acknowledged p) no_value,
     es_observed = given (pe_observed p) no_value, es_freshnessMs = given (pe_freshnessMs p) None,
     es_stale = False, es_provenance = given (pe_provenance p) (device_provenance d)\<rparr>"

definition add_aged ::
  "device_instance \<Rightarrow> reading \<Rightarrow> string \<times> jsval evidence_state \<Rightarrow>
    (string, jsval evidence_state) jmap \<Rightarrow> (string, jsval evidence_state) jmap" where
  "add_aged d rd e m = jset (fst e) (aged d rd (fst e) (snd e)) m"

definition getStateEvidence :: "device_instance \<Rightarrow> reading \<Rightarrow> (string, jsval evidence_state) jmap" where
  "getStateEvidence d rd =
    fold (add_aged d rd)
      (rd_backend rd
       @ (case rd_lamp rd of Some p \<Rightarrow> [(''status'', lamp_evidence d p)] | None \<Rightarrow> [])
       @ di_evidence d) []"

definition getEvidence :: "device_instance \<Rightarrow> reading \<Rightarrow> string \<Rightarrow> jsval evidence_state option" where
  "getEvidence d rd k = jget (getStateEvidence d rd) k"

definition null_of :: "jsval \<Rightarrow> jsval option" where
  "null_of v = (if v = JNull then None else Some v)"

definition existing_evidence :: "device_instance \<Rightarrow> string \<Rightarrow> jsval evidence_state" where
  "existing_evidence d k =
    (case jget (di_evidence d) k of Some s \<Rightarrow> s | None \<Rightarrow> unknownEvidence (device_provenance d))"

definition put_evidence :: "string \<Rightarrow> jsval evidence_state \<Rightarrow> device_instance \<Rightarrow> device_instance" where
  "put_evidence k s d = d\<lparr>di_evidence := jset k s (di_evidence d)\<rparr>"

definition recordCommandedState ::
  "stamp_input option \<Rightarrow> int \<Rightarrow> string \<Rightarrow> jsval \<Rightarrow> device_instance \<Rightarrow> device_instance" where
  "recordCommandedState t wall k v d =
    put_evidence k (recordCommanded (null_of v) t (Some (device_provenance d)) wall (existing_evidence d k)) d"

definition recordAcknowledgedState ::
  "stamp_input option \<Rightarrow> int \<Rightarrow> string \<Rightarrow> jsval \<Rightarrow> device_instance \<Rightarrow> device_instance" where
  "recordAcknowledgedState t wall k v d =
    put_evidence k (recordAcknowledged (null_of v) t (Some (device_provenance d)) wall (existing_evidence d k)) d"

definition recordObservedState ::
  "evidence_source \<Rightarrow> stamp_input option \<Rightarrow> int \<Rightarrow> string \<Rightarrow> jsval \<Rightarrow> device_instance \<Rightarrow> device_instance" where
  "recordObservedState src t wall k v d =
    put_evidence k
      (recordObserved (null_of v) src t (Some (device_provenance d)) (getMaxAgeMs d k) wall (existing_evidence d k)) d"

text \<open>The entries of a record, then the value of its pin.\<close>

definition pin_key :: "(jsnum \<Rightarrow> string) \<Rightarrow> jsnum \<Rightarrow> string" where
  "pin_key nt n = ''gpio.'' @ nt n"

definition nullish :: "jsval \<Rightarrow> jsval" where
  "nullish v = (if v = JUndefined then JNull else v)"

definition record_entries ::
  "(string \<Rightarrow> jsval \<Rightarrow> device_instance \<Rightarrow> device_instance) \<Rightarrow> jsrecord \<Rightarrow> device_instance \<Rightarrow> device_instance" where
  "record_entries f r d = fold (\<lambda>(k, v). f k v) r d"

definition record_with_pin ::
  "(jsnum \<Rightarrow> string) \<Rightarrow> (string \<Rightarrow> jsval \<Rightarrow> device_instance \<Rightarrow> device_instance) \<Rightarrow> jsrecord \<Rightarrow>
    device_instance \<Rightarrow> device_instance" where
  "record_with_pin nt f r d =
    (let d1 = record_entries f r d
     in case ownprop r ''pin'' of
       JNum n \<Rightarrow> f (pin_key nt n) (nullish (ownprop r ''value'')) d1
     | _ \<Rightarrow> d1)"

subsection \<open>Prerequisites\<close>

definition missing_prerequisite :: "string \<Rightarrow> device_error option" where
  "missing_prerequisite k = Some (PrerequisiteError (PErr ''PREREQUISITE_MISSING'' SAFETY) k)"

text \<open>
  A name inherited from \<open>Object.prototype\<close> answers a value without \<open>observed\<close>, whose property read throws.
\<close>

definition check_prerequisite ::
  "device_instance \<Rightarrow> reading \<Rightarrow> state_prerequisite \<Rightarrow> device_error option" where
  "check_prerequisite d rd p =
    (case getEvidence d rd (sp_key p) of
      None \<Rightarrow>
        if sp_key p \<in> set object_prototype then Some (PrerequisiteTypeError (sp_key p))
        else missing_prerequisite (sp_key p)
    | Some e \<Rightarrow>
        (case (ev_value (es_observed e), ev_at (es_observed e)) of
          (Some v, Some seen) \<Rightarrow>
            if ev_source (es_observed e) = NoSource then missing_prerequisite (sp_key p)
            else if sp_expectedValue p \<noteq> JUndefined \<and> \<not> js_strict_eq v (sp_expectedValue p)
            then missing_prerequisite (sp_key p)
            else (case (case sp_maxAgeMs p of Some a \<Rightarrow> Some a | None \<Rightarrow> getMaxAgeMs d (sp_key p)) of
                None \<Rightarrow> None
              | Some a \<Rightarrow>
                  if (case seen of Instant t \<Rightarrow> rd_wall rd - t > a \<or> rd_wall rd - t < 0 | NotADate _ \<Rightarrow> True)
                  then Some (PrerequisiteError (PErr ''PREREQUISITE_STALE'' SAFETY) (sp_key p))
                  else None)
        | _ \<Rightarrow> missing_prerequisite (sp_key p)))"

fun check_prerequisites ::
  "device_instance \<Rightarrow> reading \<Rightarrow> state_prerequisite list \<Rightarrow> device_error option" where
  "check_prerequisites d rd [] = None"
| "check_prerequisites d rd (p # ps) =
    (case check_prerequisite d rd p of Some e \<Rightarrow> Some e | None \<Rightarrow> check_prerequisites d rd ps)"

definition evaluatePrerequisites :: "device_instance \<Rightarrow> reading \<Rightarrow> string \<Rightarrow> device_error option" where
  "evaluatePrerequisites d rd c = check_prerequisites d rd (or_nil (jget (di_prerequisites d) c))"

subsection \<open>Events\<close>

definition subscribeRuntimeEvents :: "nat \<Rightarrow> device_instance \<Rightarrow> device_instance" where
  "subscribeRuntimeEvents h d =
    d\<lparr>di_handlers := (if h \<in> set (di_handlers d) then di_handlers d else di_handlers d @ [h])\<rparr>"

definition unsubscribeRuntimeEvents :: "nat \<Rightarrow> device_instance \<Rightarrow> device_instance" where
  "unsubscribeRuntimeEvents h d = d\<lparr>di_handlers := removeAll h (di_handlers d)\<rparr>"

definition attachProtocolEventBridge :: "string list \<Rightarrow> device_instance \<Rightarrow> device_instance" where
  "attachProtocolEventBridge es d = d\<lparr>di_bridges := di_bridges d @ es\<rparr>"

definition emitRuntimeEvent :: "reading \<Rightarrow> string \<Rightarrow> jsrecord \<Rightarrow> device_instance \<Rightarrow> device_instance" where
  "emitRuntimeEvent rd event payload d =
    (let envelope = \<lparr>en_deviceId = di_id d, en_event = event, en_payload = payload,
                     en_timestamp = rd_wall rd, en_stateEvidence = getStateEvidence d rd\<rparr>
     in d\<lparr>di_delivered := di_delivered d @ map (\<lambda>h. (h, envelope)) (di_handlers d)\<rparr>)"

definition observed_source :: "device_instance \<Rightarrow> evidence_source \<Rightarrow> evidence_source" where
  "observed_source d physical = (if di_simulated d then Simulated else physical)"

definition is_sample_event :: "string \<Rightarrow> bool" where
  "is_sample_event event \<longleftrightarrow>
    ends_with ''.changed'' event \<or> ends_with ''.reading'' event \<or> ends_with ''.sample'' event"

definition now_iso :: "reading \<Rightarrow> stamp_input option" where
  "now_iso rd = Some (StampText (formatIsoTimestamp None (rd_wall rd)))"

definition observe :: "reading \<Rightarrow> evidence_source \<Rightarrow> string \<Rightarrow> jsval \<Rightarrow> device_instance \<Rightarrow> device_instance" where
  "observe rd src k v d = recordObservedState src (now_iso rd) (rd_wall rd) k v d"

definition observe_event ::
  "(jsnum \<Rightarrow> string) \<Rightarrow> reading \<Rightarrow> string \<Rightarrow> jsrecord \<Rightarrow> device_instance \<Rightarrow> device_instance" where
  "observe_event nt rd event payload d =
    (case (if event = ''gpio.changed'' \<and> ownprop payload ''value'' \<noteq> JUndefined then ownprop payload ''pin''
           else JUndefined) of
      JNum n \<Rightarrow>
        observe rd (observed_source d GpioReadback) ''value'' (ownprop payload ''value'')
          (observe rd (observed_source d GpioReadback) (pin_key nt n) (ownprop payload ''value'') d)
    | _ \<Rightarrow>
        if is_sample_event event
        then record_entries (observe rd (observed_source d Sensor))
               (filter (\<lambda>(k, v). k \<noteq> ''driver'' \<and> k \<noteq> ''event'') payload) d
        else d)"

definition handleIncomingEvent ::
  "(jsnum \<Rightarrow> string) \<Rightarrow> reading \<Rightarrow> string \<Rightarrow> jsrecord \<Rightarrow> device_instance \<Rightarrow> device_instance" where
  "handleIncomingEvent nt rd event payload d =
    emitRuntimeEvent rd event payload (observe_event nt rd event payload d)"

text \<open>An event of the backend, and one of a protocol bridge: both only while the subscription stands.\<close>

definition backend_event ::
  "(jsnum \<Rightarrow> string) \<Rightarrow> reading \<Rightarrow> string \<Rightarrow> jsrecord \<Rightarrow> device_instance \<Rightarrow> device_instance" where
  "backend_event nt rd event payload d =
    (if \<not> di_subscribed d \<or> event = [] then d else handleIncomingEvent nt rd event payload d)"

definition bridge_event ::
  "(jsnum \<Rightarrow> string) \<Rightarrow> reading \<Rightarrow> string \<Rightarrow> jsrecord \<Rightarrow> device_instance \<Rightarrow> device_instance" where
  "bridge_event nt rd event payload d =
    (handleIncomingEvent nt rd event payload ^^ length (filter (\<lambda>e. e = event) (di_bridges d))) d"

subsection \<open>Invocation\<close>

definition setLifecycle :: "int \<Rightarrow> lifecycle_status \<Rightarrow> device_instance \<Rightarrow> device_instance" where
  "setLifecycle wall lc d = d\<lparr>di_lifecycle := lc, di_lastUpdated := wall\<rparr>"

definition supports :: "device_instance \<Rightarrow> string \<Rightarrow> bool" where
  "supports d c \<longleftrightarrow> c \<in> set (map cd_name (di_capabilities d))"

definition resolveCapability :: "device_instance \<Rightarrow> string \<Rightarrow> capability_descriptor option" where
  "resolveCapability d c = find (\<lambda>e. cd_name e = c) (di_capabilities d)"

definition unavailable :: "device_instance \<Rightarrow> bool" where
  "unavailable d \<longleftrightarrow> di_closing d \<or> di_lifecycle d = LcDisconnected"

text \<open>The checks before any side effect, up to the prerequisites.\<close>

definition resolve_call ::
  "reading \<Rightarrow> string \<Rightarrow> jsval \<Rightarrow> device_instance \<Rightarrow> device_error + capability_descriptor \<times> jsrecord" where
  "resolve_call rd c input d =
    (if unavailable d then Inl DeviceDisconnected
     else case (if supports d c then resolveCapability d c else None) of
       None \<Rightarrow> Inl (UnsupportedCapability c)
     | Some cd \<Rightarrow>
         (case validateInputSchema (cd_input cd) input [] of
           Inl e \<Rightarrow> Inl (SchemaError e)
         | Inr payload \<Rightarrow>
             (case evaluatePrerequisites d rd c of
               Some e \<Rightarrow> Inl e
             | None \<Rightarrow> Inr (cd, payload))))"

definition invoke_context ::
  "device_instance \<Rightarrow> reading \<Rightarrow> string \<Rightarrow> jsrecord \<Rightarrow> string option \<Rightarrow> safety_context" where
  "invoke_context d rd c payload owner =
    \<lparr>pc_deviceId = di_id d, pc_capability = c, pc_payload = payload, pc_state = rd_state rd, sc_owner = owner\<rparr>"

definition halt_gate :: "governance \<Rightarrow> perr + unit" where
  "halt_gate gv = (case gv_halt gv of None \<Rightarrow> Inr () | Some h \<Rightarrow> enforceGate h)"

text \<open>The safety engine: a preview for a dry run, else a reservation.\<close>

definition engine_pass ::
  "safety_context \<Rightarrow> reading \<Rightarrow> bool \<Rightarrow> governance \<Rightarrow>
    (device_error + (nat \<times> safety_reservation) option) \<times> governance" where
  "engine_pass ctx rd dry gv =
    (case gv_safety gv of
      None \<Rightarrow> (Inr None, gv)
    | Some s \<Rightarrow>
        if dry then
          (case preview ctx (rd_now rd) (of_int (rd_wall rd)) s of
            (res, s') \<Rightarrow>
              (case res of
                Inl e \<Rightarrow> Inl (PolicyError e)
              | Inr dec \<Rightarrow>
                  if pd_allowed dec then Inr None
                  else Inl (PreviewDenied (case pd_code dec of Some c \<Rightarrow> c | None \<Rightarrow> ''POLICY_ACTION_DENIED'')),
               gv\<lparr>gv_safety := Some s'\<rparr>))
        else
          (case reserve ctx (rd_now rd) (of_int (rd_wall rd)) s of
            (res, s') \<Rightarrow>
              (case res of Inl e \<Rightarrow> Inl (PolicyError e) | Inr rv \<Rightarrow> Inr (Some (gv_engine gv, rv)),
               gv\<lparr>gv_safety := Some s'\<rparr>)))"

definition admit ::
  "reading \<Rightarrow> string \<Rightarrow> jsval \<Rightarrow> invoke_options \<Rightarrow> governance \<Rightarrow> device_instance \<Rightarrow>
    (device_error + capability_descriptor \<times> jsrecord \<times> (nat \<times> safety_reservation) option) \<times> governance" where
  "admit rd c input opts gv d =
    (case resolve_call rd c input d of
      Inl e \<Rightarrow> (Inl e, gv)
    | Inr (cd, payload) \<Rightarrow>
        (case (if io_dryRun opts then Inr () else halt_gate gv) of
          Inl e \<Rightarrow> (Inl (HaltError e), gv)
        | Inr _ \<Rightarrow>
            (let ctx = invoke_context d rd c payload (io_owner opts)
             in case evaluatePolicies (di_policies d) (policy_context.truncate ctx) (of_int (rd_wall rd)) of
               Inl e \<Rightarrow> (Inl (PolicyError e), gv)
             | Inr _ \<Rightarrow>
                 (case engine_pass ctx rd (io_dryRun opts) gv of
                   (Inl e, gv') \<Rightarrow> (Inl e, gv')
                 | (Inr rv, gv') \<Rightarrow> (Inr (cd, payload, rv), gv')))))"

datatype begun = Refused device_error | DryRun jsrecord safety_state | Started nat

definition start_invocation ::
  "(jsnum \<Rightarrow> string) \<Rightarrow> reading \<Rightarrow> string \<Rightarrow> capability_descriptor \<Rightarrow> jsrecord \<Rightarrow>
    (nat \<times> safety_reservation) option \<Rightarrow> device_instance \<Rightarrow> device_instance" where
  "start_invocation nt rd c cd payload rv d =
    (let d1 = record_with_pin nt (recordCommandedState (now_iso rd) (rd_wall rd)) payload d;
         d2 = setLifecycle (rd_wall rd) Busy (d1\<lparr>di_active := di_active d1 + 1\<rparr>)
     in d2\<lparr>di_flight := di_flight d2 @ [\<lparr>pi_id = di_next d2, pi_descriptor = cd, pi_reservation = rv\<rparr>],
          di_calls := di_calls d2 @ [(di_next d2, c, payload)], di_next := Suc (di_next d2)\<rparr>)"

definition begin_invoke ::
  "(jsnum \<Rightarrow> string) \<Rightarrow> reading \<Rightarrow> string \<Rightarrow> jsval \<Rightarrow> invoke_options \<Rightarrow> governance \<Rightarrow> device_instance \<Rightarrow>
    begun \<times> governance \<times> device_instance" where
  "begin_invoke nt rd c input opts gv d =
    (case admit rd c input opts gv d of
      (Inl e, gv') \<Rightarrow> (Refused e, gv', d)
    | (Inr (cd, payload, rv), gv') \<Rightarrow>
        if io_dryRun opts
        then (DryRun payload (case gv_halt gv' of Some h \<Rightarrow> currentState h | None \<Rightarrow> NORMAL), gv', d)
        else (Started (di_next d), gv', start_invocation nt rd c cd payload rv d))"

definition is_read_action :: "capability_descriptor \<Rightarrow> bool" where
  "is_read_action cd \<longleftrightarrow>
    \<not> cd_physicalOutput cd \<or> ends_with ''.read'' (cd_name cd) \<or> cd_name cd = ''gpio.read'' \<or>
    starts_with ''sensor.'' (cd_name cd)"

definition observe_result ::
  "(jsnum \<Rightarrow> string) \<Rightarrow> reading \<Rightarrow> jsrecord \<Rightarrow> device_instance \<Rightarrow> device_instance" where
  "observe_result nt rd r d =
    (let d1 = record_entries (observe rd (observed_source d Sensor)) r d
     in case (if ownprop r ''value'' = JUndefined then JUndefined else ownprop r ''pin'') of
       JNum n \<Rightarrow>
         observe rd (observed_source d GpioReadback) ''value'' (ownprop r ''value'')
           (observe rd (observed_source d GpioReadback) (pin_key nt n) (ownprop r ''value'') d1)
     | _ \<Rightarrow> d1)"

definition settle_lifecycle :: "int \<Rightarrow> device_instance \<Rightarrow> device_instance" where
  "settle_lifecycle wall d =
    (let d1 = d\<lparr>di_active := di_active d - 1\<rparr>
     in if di_closing d1 then d1 else setLifecycle wall (if di_active d1 > 0 then Busy else Ready) d1)"

definition rollback_on :: "(nat \<times> safety_reservation) option \<Rightarrow> governance \<Rightarrow> governance" where
  "rollback_on rv gv =
    (case rv of
      Some (n, r) \<Rightarrow>
        if n = gv_engine gv then gv\<lparr>gv_safety := map_option (\<lambda>s. snd (rollback r s)) (gv_safety gv)\<rparr> else gv
    | None \<Rightarrow> gv)"

definition accept_result ::
  "(jsnum \<Rightarrow> string) \<Rightarrow> reading \<Rightarrow> capability_descriptor \<Rightarrow> jsrecord \<Rightarrow> device_instance \<Rightarrow> device_instance" where
  "accept_result nt rd cd r d =
    (let d1 = record_with_pin nt (recordAcknowledgedState (now_iso rd) (rd_wall rd)) r d
     in if is_read_action cd then observe_result nt rd r d1 else d1)"

text \<open>The end of the backend call \<open>i\<close>: it throws or answers. A reservation is committed before the answer is checked.\<close>

definition finish_invoke ::
  "(jsnum \<Rightarrow> string) \<Rightarrow> reading \<Rightarrow> nat \<Rightarrow> thrown + jsval \<Rightarrow> governance \<Rightarrow> device_instance \<Rightarrow>
    (device_error + jsrecord) option \<times> governance \<times> device_instance" where
  "finish_invoke nt rd i out gv d =
    (case find (\<lambda>p. pi_id p = i) (di_flight d) of
      None \<Rightarrow> (None, gv, d)
    | Some p \<Rightarrow>
        (let d0 = d\<lparr>di_flight := filter (\<lambda>q. pi_id q \<noteq> i) (di_flight d)\<rparr>
         in case out of
           Inl e \<Rightarrow> (Some (Inl (BackendError e)), rollback_on (pi_reservation p) gv, settle_lifecycle (rd_wall rd) d0)
         | Inr v \<Rightarrow>
             (case validateOutputSchema (cd_output (pi_descriptor p)) v of
               Inl e \<Rightarrow> (Some (Inl (SchemaError e)), gv, settle_lifecycle (rd_wall rd) d0)
             | Inr r \<Rightarrow>
                 (Some (Inr r), gv,
                  settle_lifecycle (rd_wall rd) (accept_result nt rd (pi_descriptor p) r d0)))))"

definition begin_close :: "device_instance \<Rightarrow> device_instance" where
  "begin_close d =
    (if unavailable d then d
     else d\<lparr>di_closing := True, di_subscribed := False, di_bridges := [], di_handlers := [],
            di_closes := Suc (di_closes d)\<rparr>)"

text \<open>The backend's \<open>close\<close> has ended, normally or not.\<close>

definition end_close :: "int \<Rightarrow> device_instance \<Rightarrow> device_instance" where
  "end_close wall d = setLifecycle wall LcDisconnected d"


subsection \<open>What the parts touch\<close>

text \<open>Recording evidence changes nothing but the evidence map.\<close>

definition evidence_only :: "device_instance \<Rightarrow> device_instance \<Rightarrow> bool" where
  "evidence_only d d' \<longleftrightarrow> d' = d\<lparr>di_evidence := di_evidence d'\<rparr>"

lemma evidence_only_refl [simp]: "evidence_only d d"
  by (simp add: evidence_only_def)

lemma evidence_only_trans: "evidence_only a b \<Longrightarrow> evidence_only b c \<Longrightarrow> evidence_only a c"
  by (cases a, cases b, cases c) (simp add: evidence_only_def)

lemma evidence_only_put [simp]: "evidence_only d (put_evidence k s d)"
  by (simp add: evidence_only_def put_evidence_def)

lemma evidence_only_records [simp]:
  "evidence_only d (recordCommandedState t w k v d)"
  "evidence_only d (recordAcknowledgedState t w k v d)"
  "evidence_only d (recordObservedState src t w k v d)"
  "evidence_only d (observe rd src k v d)"
  by (simp_all add: recordCommandedState_def recordAcknowledgedState_def recordObservedState_def observe_def)

lemma evidence_only_entries:
  assumes "\<And>k v d. evidence_only d (f k v d)"
  shows "evidence_only d (record_entries f r d)"
proof (induction r arbitrary: d)
  case (Cons p r)
  then show ?case
    using assms[of d "fst p" "snd p"] by (cases p) (auto simp: record_entries_def intro: evidence_only_trans)
qed (simp add: record_entries_def)

lemma evidence_only_pin:
  assumes "\<And>k v d. evidence_only d (f k v d)"
  shows "evidence_only d (record_with_pin nt f r d)"
  using evidence_only_entries[of f, OF assms] evidence_only_trans[OF evidence_only_entries[of f, OF assms] assms]
  by (simp add: record_with_pin_def Let_def split: jsval.split)

lemma evidence_only_observe_result: "evidence_only d (observe_result nt rd r d)"
  using evidence_only_entries[of "observe rd src" d r for src, OF evidence_only_records(4)]
  by (auto simp: observe_result_def Let_def split: jsval.split intro!: evidence_only_trans[OF _ evidence_only_records(4)])

lemma evidence_only_accept: "evidence_only d (accept_result nt rd cd r d)"
  using evidence_only_trans[OF evidence_only_pin evidence_only_observe_result, OF evidence_only_records(2)]
    evidence_only_pin[OF evidence_only_records(2)]
  by (simp add: accept_result_def Let_def)

lemma evidence_only_event: "evidence_only d (observe_event nt rd e p d)"
  using evidence_only_entries[of "observe rd src" d r for src r, OF evidence_only_records(4)]
  by (auto simp: observe_event_def split: jsval.split
      intro: evidence_only_trans[OF evidence_only_records(4) evidence_only_records(4)])

lemma evidence_only_fields:
  assumes "evidence_only d d'"
  shows "di_id d' = di_id d" "di_capabilities d' = di_capabilities d" "di_policies d' = di_policies d"
    "di_simulated d' = di_simulated d" "di_prerequisites d' = di_prerequisites d"
    "di_maxStateAge d' = di_maxStateAge d" "di_defaultMaxAge d' = di_defaultMaxAge d"
    "di_handlers d' = di_handlers d" "di_lifecycle d' = di_lifecycle d" "di_active d' = di_active d"
    "di_closing d' = di_closing d" "di_subscribed d' = di_subscribed d" "di_bridges d' = di_bridges d"
    "di_flight d' = di_flight d" "di_next d' = di_next d" "di_calls d' = di_calls d"
    "di_closes d' = di_closes d" "di_delivered d' = di_delivered d"
  using assms by (cases d; cases d'; simp add: evidence_only_def)+

lemmas start_fields [simp] = evidence_only_fields[OF evidence_only_pin, OF evidence_only_records(1)]
lemmas accept_fields [simp] = evidence_only_fields[OF evidence_only_accept]
lemmas event_fields [simp] = evidence_only_fields[OF evidence_only_event]

subsection \<open>Histories of a device\<close>

text \<open>
  The methods of a device in any order, interleaved with anything the rest of the runtime does to the
  shared halt coordinator and safety engine (\<open>Governing\<close>).
\<close>

datatype device_label =
    Invoking begun
  | Finishing "(device_error + jsrecord) option"
  | Observing
  | Recording
  | Configuring
  | Closing
  | Governing

inductive device_step ::
  "(jsnum \<Rightarrow> string) \<Rightarrow> device_label \<Rightarrow> governance \<times> device_instance \<Rightarrow> governance \<times> device_instance \<Rightarrow> bool"
  for nt where
  invoke: "begin_invoke nt rd c input opts gv d = (b, gv', d') \<Longrightarrow> device_step nt (Invoking b) (gv, d) (gv', d')"
| finish: "finish_invoke nt rd i out gv d = (ans, gv', d') \<Longrightarrow> device_step nt (Finishing ans) (gv, d) (gv', d')"
| event: "device_step nt Observing (gv, d) (gv, backend_event nt rd e payload d)"
| bridge: "device_step nt Observing (gv, d) (gv, bridge_event nt rd e payload d)"
| observe: "device_step nt Observing (gv, d) (gv, recordObservedState src t w k v d)"
| command: "device_step nt Recording (gv, d) (gv, recordCommandedState t w k v d)"
| acknowledge: "device_step nt Recording (gv, d) (gv, recordAcknowledgedState t w k v d)"
| max_age: "device_step nt Configuring (gv, d) (gv, setMaxAgeMs key age d)"
| prerequisite: "device_step nt Configuring (gv, d) (gv, setPrerequisite c p d)"
| subscribe: "device_step nt Configuring (gv, d) (gv, subscribeRuntimeEvents h d)"
| unsubscribe: "device_step nt Configuring (gv, d) (gv, unsubscribeRuntimeEvents h d)"
| attach: "device_step nt Configuring (gv, d) (gv, attachProtocolEventBridge es d)"
| close: "device_step nt Closing (gv, d) (gv, begin_close d)"
| closed: "di_closing d \<Longrightarrow> device_step nt Closing (gv, d) (gv, end_close w d)"
| govern: "device_step nt Governing (gv, d) (gv', d)"

inductive_cases device_stepE: "device_step nt l (gv, d) (gv', d')"

inductive device_steps ::
  "(jsnum \<Rightarrow> string) \<Rightarrow> device_label list \<Rightarrow> governance \<times> device_instance \<Rightarrow> governance \<times> device_instance \<Rightarrow> bool"
  for nt where
  none: "device_steps nt [] s s"
| step: "device_step nt l s s1 \<Longrightarrow> device_steps nt ls s1 s2 \<Longrightarrow> device_steps nt (l # ls) s s2"

lemma device_steps_invariant:
  assumes "device_steps nt ls s s'" "P (snd s)"
    and "\<And>l gv d gv' d'. l \<in> set ls \<Longrightarrow> device_step nt l (gv, d) (gv', d') \<Longrightarrow> P d \<Longrightarrow> P d'"
  shows "P (snd s')"
  using assms
proof (induction rule: device_steps.induct)
  case (step l s s1 ls s2)
  have "P (snd s1)"
    using step.prems(2)[of l "fst s" "snd s" "fst s1" "snd s1"] step.hyps(1) step.prems(1) by simp
  then show ?case
    using step.IH step.prems(2) by (meson list.set_intros(2))
qed simp

subsection \<open>Shapes of a step\<close>

lemma bridge_only:
  assumes "\<And>d. R d d" "\<And>a b c. R a b \<Longrightarrow> R b c \<Longrightarrow> R a c" "\<And>d. R d (f d)"
  shows "R d ((f ^^ n) d)"
  by (induction n) (simp_all add: assms(1), blast intro: assms(2,3))

text \<open>Events touch evidence and deliveries only.\<close>

definition quiet :: "device_instance \<Rightarrow> device_instance \<Rightarrow> bool" where
  "quiet d d' \<longleftrightarrow> d' = d\<lparr>di_evidence := di_evidence d', di_delivered := di_delivered d'\<rparr>"

lemma quiet_refl [simp]: "quiet d d"
  by (simp add: quiet_def)

lemma quiet_trans: "quiet a b \<Longrightarrow> quiet b c \<Longrightarrow> quiet a c"
  by (cases a, cases b, cases c) (simp add: quiet_def)

lemma evidence_only_quiet: "evidence_only d d' \<Longrightarrow> quiet d d'"
  by (cases d, cases d') (simp add: quiet_def evidence_only_def)

lemma quiet_emit: "quiet d (emitRuntimeEvent rd e p d)"
  by (simp add: quiet_def emitRuntimeEvent_def Let_def)

lemma quiet_incoming: "quiet d (handleIncomingEvent nt rd e p d)"
  using quiet_trans[OF evidence_only_quiet[OF evidence_only_event] quiet_emit] by (simp add: handleIncomingEvent_def)

lemma quiet_backend_event: "quiet d (backend_event nt rd e p d)"
  by (simp add: backend_event_def quiet_incoming)

lemma quiet_bridge_event: "quiet d (bridge_event nt rd e p d)"
  unfolding bridge_event_def by (rule bridge_only[of quiet]) (auto intro: quiet_trans quiet_incoming)

lemma quiet_fields:
  assumes "quiet d d'"
  shows "di_capabilities d' = di_capabilities d" "di_policies d' = di_policies d" "di_lifecycle d' = di_lifecycle d" "di_active d' = di_active d"
    "di_closing d' = di_closing d" "di_subscribed d' = di_subscribed d" "di_flight d' = di_flight d"
    "di_next d' = di_next d" "di_calls d' = di_calls d" "di_closes d' = di_closes d"
  using assms by (cases d; cases d'; simp add: quiet_def)+

definition invocations_of where
  "invocations_of d =
    (di_capabilities d, di_policies d, di_lifecycle d, di_active d, di_closing d, di_flight d, di_next d, di_calls d)"

lemma invocations_quiet: "quiet d d' \<Longrightarrow> invocations_of d' = invocations_of d"
  by (simp add: invocations_of_def quiet_fields)

lemmas config_defs = setMaxAgeMs_def setPrerequisite_def subscribeRuntimeEvents_def unsubscribeRuntimeEvents_def
  attachProtocolEventBridge_def

text \<open>A step as the client of the invariants sees it.\<close>

lemma device_step_shape:
  assumes "device_step nt l (gv, d) (gv', d')"
  shows "invocations_of d' = invocations_of d \<and> (\<forall>b. l = Invoking b \<longrightarrow> d' = d) \<or>
    (\<exists>rd c cd payload rv. \<not> unavailable d \<and> cd \<in> set (di_capabilities d) \<and> l = Invoking (Started (di_next d)) \<and>
      d' = start_invocation nt rd c cd payload rv d) \<or>
    (\<exists>rd i out p ans. l = Finishing ans \<and> finish_invoke nt rd i out gv d = (ans, gv', d') \<and>
      find (\<lambda>p. pi_id p = i) (di_flight d) = Some p) \<or>
    l = Closing \<and> d' = begin_close d \<or>
    l = Closing \<and> di_closing d \<and> (\<exists>w. d' = end_close w d)"
  using assms
proof (cases rule: device_step.cases)
  case (invoke rd c input opts b)
  show ?thesis
  proof (cases "admit rd c input opts gv d")
    case (Pair r gv1)
    show ?thesis
    proof (cases r)
      case (Inr t)
      obtain cd payload rv where t: "t = (cd, payload, rv)"
        by (cases t)
      have "resolve_call rd c input d = Inr (cd, payload)"
        using Pair Inr t by (auto simp: admit_def Let_def split: sum.splits prod.splits)
      then have "\<not> unavailable d \<and> cd \<in> set (di_capabilities d)"
        by (auto simp: resolve_call_def resolveCapability_def find_Some_iff split: if_splits option.splits sum.splits)
      show ?thesis
      proof (cases "io_dryRun opts")
        case False
        have "d' = start_invocation nt rd c cd payload rv d" "l = Invoking (Started (di_next d))"
          using invoke Pair Inr t False by (auto simp: begin_invoke_def)
        then show ?thesis
          using \<open>\<not> unavailable d \<and> cd \<in> set (di_capabilities d)\<close> by blast
      qed (use invoke Pair Inr t in \<open>auto simp: begin_invoke_def\<close>)
    qed (use invoke Pair in \<open>auto simp: begin_invoke_def\<close>)
  qed
next
  case (finish rd i out ans)
  show ?thesis
  proof (cases "find (\<lambda>p. pi_id p = i) (di_flight d)")
    case None
    then show ?thesis
      using finish by (auto simp: finish_invoke_def)
  qed (use finish in blast)
next
  case (event rd e payload)
  then show ?thesis
    using invocations_quiet[OF quiet_backend_event] by auto
next
  case (bridge rd e payload)
  then show ?thesis
    using invocations_quiet[OF quiet_bridge_event] by auto
next
  case (observe src t w k v)
  then show ?thesis
    using invocations_quiet[OF evidence_only_quiet[OF evidence_only_records(3)]] by auto
next
  case (command t w k v)
  then show ?thesis
    using invocations_quiet[OF evidence_only_quiet[OF evidence_only_records(1)]] by auto
next
  case (acknowledge t w k v)
  then show ?thesis
    using invocations_quiet[OF evidence_only_quiet[OF evidence_only_records(2)]] by auto
qed (auto simp: invocations_of_def config_defs split: option.splits)

subsection \<open>Accounting of the invocations\<close>

definition accounted :: "device_instance \<Rightarrow> bool" where
  "accounted d \<longleftrightarrow>
    di_active d = int (length (di_flight d)) \<and> distinct (map pi_id (di_flight d)) \<and>
    (\<forall>p\<in>set (di_flight d). pi_id p < di_next d \<and> pi_descriptor p \<in> set (di_capabilities d)) \<and>
    map fst (di_calls d) = [0..<di_next d] \<and>
    (\<not> di_closing d \<longrightarrow> di_lifecycle d = (if di_flight d = [] then Ready else Busy)) \<and>
    (di_lifecycle d = LcDisconnected \<longrightarrow> di_closing d)"

lemma accounted_same: "invocations_of d' = invocations_of d \<Longrightarrow> accounted d \<Longrightarrow> accounted d'"
  by (simp add: accounted_def invocations_of_def)

lemma start_invocation_fields [simp]:
  "di_capabilities (start_invocation nt rd c cd payload rv d) = di_capabilities d"
  "di_policies (start_invocation nt rd c cd payload rv d) = di_policies d"
  "di_lifecycle (start_invocation nt rd c cd payload rv d) = Busy"
  "di_active (start_invocation nt rd c cd payload rv d) = di_active d + 1"
  "di_closing (start_invocation nt rd c cd payload rv d) = di_closing d"
  "di_flight (start_invocation nt rd c cd payload rv d) =
    di_flight d @ [\<lparr>pi_id = di_next d, pi_descriptor = cd, pi_reservation = rv\<rparr>]"
  "di_next (start_invocation nt rd c cd payload rv d) = Suc (di_next d)"
  "di_calls (start_invocation nt rd c cd payload rv d) = di_calls d @ [(di_next d, c, payload)]"
  "di_simulated (start_invocation nt rd c cd payload rv d) = di_simulated d"
  "di_subscribed (start_invocation nt rd c cd payload rv d) = di_subscribed d"
  by (simp_all add: start_invocation_def setLifecycle_def Let_def)

lemma settle_fields [simp]:
  "di_capabilities (settle_lifecycle w d) = di_capabilities d"
  "di_policies (settle_lifecycle w d) = di_policies d"
  "di_active (settle_lifecycle w d) = di_active d - 1"
  "di_closing (settle_lifecycle w d) = di_closing d"
  "di_flight (settle_lifecycle w d) = di_flight d"
  "di_next (settle_lifecycle w d) = di_next d"
  "di_calls (settle_lifecycle w d) = di_calls d"
  "di_subscribed (settle_lifecycle w d) = di_subscribed d"
  "di_evidence (settle_lifecycle w d) = di_evidence d"
  "di_simulated (settle_lifecycle w d) = di_simulated d"
  "di_lifecycle (settle_lifecycle w d) =
    (if di_closing d then di_lifecycle d else if di_active d > 1 then Busy else Ready)"
  by (simp_all add: settle_lifecycle_def setLifecycle_def Let_def)

text \<open>What every end of an invocation does, whatever the backend answered.\<close>

definition unflown :: "nat \<Rightarrow> device_instance \<Rightarrow> device_instance" where
  "unflown i d = d\<lparr>di_flight := filter (\<lambda>q. pi_id q \<noteq> i) (di_flight d)\<rparr>"

lemma unflown_fields [simp]:
  "di_flight (unflown i d) = filter (\<lambda>q. pi_id q \<noteq> i) (di_flight d)"
  "di_capabilities (unflown i d) = di_capabilities d" "di_policies (unflown i d) = di_policies d" "di_active (unflown i d) = di_active d"
  "di_closing (unflown i d) = di_closing d" "di_next (unflown i d) = di_next d"
  "di_calls (unflown i d) = di_calls d" "di_lifecycle (unflown i d) = di_lifecycle d"
  "di_evidence (unflown i d) = di_evidence d" "di_simulated (unflown i d) = di_simulated d"
  "di_subscribed (unflown i d) = di_subscribed d"
  by (simp_all add: unflown_def)

lemma finish_invoke_shape:
  assumes "finish_invoke nt rd i out gv d = (ans, gv', d')" "find (\<lambda>p. pi_id p = i) (di_flight d) = Some p"
  shows "\<exists>x. evidence_only (unflown i d) x \<and> d' = settle_lifecycle (rd_wall rd) x \<and>
    ((\<exists>e. ans = Some (Inl e) \<and> x = unflown i d) \<or>
     (\<exists>r. ans = Some (Inr r) \<and> x = accept_result nt rd (pi_descriptor p) r (unflown i d)))"
  using assms evidence_only_accept[of "unflown i d" nt rd "pi_descriptor p"]
  by (auto simp: finish_invoke_def Let_def unflown_def[symmetric] split: sum.splits)

lemma length_filter_ids:
  "distinct (map pi_id ps) \<Longrightarrow> find (\<lambda>p. pi_id p = i) ps = Some p \<Longrightarrow>
    int (length (filter (\<lambda>q. pi_id q \<noteq> i) ps)) = int (length ps) - 1"
proof (induction ps)
  case (Cons q ps)
  show ?case
  proof (cases "pi_id q = i")
    case True
    with Cons.prems(1) have "filter (\<lambda>q. pi_id q \<noteq> i) ps = ps"
      by (auto simp: filter_id_conv image_iff)
    with True show ?thesis by simp
  qed (use Cons in auto)
qed simp

lemma accounted_finish:
  assumes "accounted d" "finish_invoke nt rd i out gv d = (ans, gv', d')"
    "find (\<lambda>p. pi_id p = i) (di_flight d) = Some p"
  shows "accounted d'"
proof -
  obtain x where x: "evidence_only (unflown i d) x" "d' = settle_lifecycle (rd_wall rd) x"
    using finish_invoke_shape[OF assms(2,3)] by blast
  note f = evidence_only_fields[OF x(1)]
  have len: "int (length (di_flight x)) = di_active d - 1"
    using length_filter_ids[of "di_flight d" i p] assms(1,3) f by (simp add: accounted_def)
  then have "di_flight x = [] \<longleftrightarrow> \<not> di_active d > 1"
    using length_greater_0_conv[of "di_flight x"] by linarith
  then show ?thesis
    using assms(1) f len x(2) by (auto simp: accounted_def distinct_map_filter)
qed

lemma accounted_step:
  assumes "device_step nt l (gv, d) (gv', d')" "accounted d"
  shows "accounted d'"
  using device_step_shape[OF assms(1)] assms(2)
proof (elim disjE exE conjE)
  fix rd i out p ans
  assume "finish_invoke nt rd i out gv d = (ans, gv', d')" "find (\<lambda>p. pi_id p = i) (di_flight d) = Some p"
  then show ?thesis
    using accounted_finish assms(2) by blast
next
  assume "d' = begin_close d"
  then show ?thesis
    using assms(2) by (auto simp: accounted_def begin_close_def)
next
  fix w
  assume "di_closing d" "d' = end_close w d"
  then show ?thesis
    using assms(2) by (simp add: accounted_def end_close_def setLifecycle_def)
next
  fix rd c cd payload rv
  assume "\<not> unavailable d" "cd \<in> set (di_capabilities d)" "d' = start_invocation nt rd c cd payload rv d"
  then show ?thesis
    using assms(2) by (auto simp: accounted_def unavailable_def)
qed (auto intro: accounted_same)

lemma accounted_new: "accounted (DeviceInstance i caps rules sim prereqs ages onEvent wall)"
  by (simp add: accounted_def DeviceInstance_def)

lemma device_step_static:
  assumes "device_step nt l (gv, d) (gv', d')"
  shows "di_capabilities d' = di_capabilities d" "di_policies d' = di_policies d" "di_next d \<le> di_next d'"
  using device_step_shape[OF assms]
  by (auto simp: invocations_of_def begin_close_def end_close_def setLifecycle_def
      dest!: finish_invoke_shape dest: evidence_only_fields(2,3,15))

subsection \<open>Properties\<close>

text \<open>Every invocation is accounted for. After any history of a device, the count of active
  invocations is the number of calls the backend has not answered, each invocation that was let through
  called the backend exactly once under its own number, the device reads busy exactly while calls are
  outstanding (until it is closed), and it reads disconnected only after a close.\<close>

theorem invocations_accounted:
  assumes "device_steps nt ls (gv, DeviceInstance i caps rules sim prereqs ages onEvent wall) (gv', d)"
  shows "di_active d = int (length (di_flight d)) \<and> map fst (di_calls d) = [0..<di_next d] \<and>
    (di_closing d \<or> di_lifecycle d = (if di_flight d = [] then Ready else Busy)) \<and>
    (di_lifecycle d = LcDisconnected \<longrightarrow> di_closing d)"
proof -
  have "accounted (snd (gv', d))"
    using device_steps_invariant[OF assms, of accounted] accounted_new accounted_step by simp
  then show ?thesis
    by (auto simp: accounted_def)
qed

lemma closing_step:
  assumes "device_step nt l (gv, d) (gv', d')" "di_closing d"
  shows "di_closing d' \<and> di_calls d' = di_calls d"
  using device_step_shape[OF assms(1)] assms(2)
proof (elim disjE exE conjE)
  fix rd i out p ans
  assume "finish_invoke nt rd i out gv d = (ans, gv', d')" "find (\<lambda>p. pi_id p = i) (di_flight d) = Some p"
  then obtain x where "evidence_only (unflown i d) x" "d' = settle_lifecycle (rd_wall rd) x"
    using finish_invoke_shape by blast
  then show ?thesis
    using assms(2) evidence_only_fields[of "unflown i d" x] by simp
qed (auto simp: invocations_of_def begin_close_def end_close_def setLifecycle_def unavailable_def)

text \<open>A closed device is silent: once \<open>close\<close> was called, no step of any history reaches the
  backend again, and every invocation is refused as disconnected.\<close>

theorem closed_device_silent:
  assumes "device_steps nt ls (gv, begin_close d) (gv', d')" "accounted d"
  shows "di_calls d' = di_calls d \<and> fst (begin_invoke nt rd c input opts gv'' d') = Refused DeviceDisconnected"
proof -
  have "di_closing (begin_close d)" "di_calls (begin_close d) = di_calls d"
    using assms(2) by (auto simp: begin_close_def unavailable_def accounted_def)
  then have "di_closing (snd (gv', d')) \<and> di_calls (snd (gv', d')) = di_calls d"
    using device_steps_invariant[OF assms(1), of "\<lambda>x. di_closing x \<and> di_calls x = di_calls d"] closing_step
    by simp
  then show ?thesis
    by (simp add: begin_invoke_def admit_def resolve_call_def unavailable_def)
qed

subsection \<open>Admission\<close>

lemma find_append: "find P (xs @ ys) = (case find P xs of Some x \<Rightarrow> Some x | None \<Rightarrow> find P ys)"
  by (induction xs) auto

lemma resolve_supports: "resolveCapability d c = Some cd \<Longrightarrow> supports d c"
  by (auto simp: supports_def resolveCapability_def find_Some_iff)

lemma resolve_call_ok:
  "resolve_call rd c input d = Inr (cd, payload) \<longleftrightarrow>
    \<not> unavailable d \<and> resolveCapability d c = Some cd \<and>
    validateInputSchema (cd_input cd) input [] = Inr payload \<and> evaluatePrerequisites d rd c = None"
proof (cases "resolveCapability d c")
  case (Some x)
  then show ?thesis
    using resolve_supports[OF Some] by (auto simp: resolve_call_def split: option.splits sum.splits)
qed (simp add: resolve_call_def)

lemma preview_ok:
  "(\<exists>dec. fst (preview ctx now wall s) = Inr dec \<and> pd_allowed dec) \<longleftrightarrow> (\<exists>rv. fst (reserve ctx now wall s) = Inr rv)"
  by (auto simp: preview_def check_def enforce_def decision_of_def Let_def split: prod.splits sum.splits)

definition engine_accepts :: "safety_context \<Rightarrow> reading \<Rightarrow> governance \<Rightarrow> bool" where
  "engine_accepts ctx rd gv =
    (case gv_safety gv of None \<Rightarrow> True
     | Some s \<Rightarrow> (case fst (reserve ctx (rd_now rd) (of_int (rd_wall rd)) s) of Inl _ \<Rightarrow> False | Inr _ \<Rightarrow> True))"

lemma engine_pass_ok:
  "(\<exists>rv. fst (engine_pass ctx rd dry gv) = Inr rv) \<longleftrightarrow> engine_accepts ctx rd gv"
proof (cases "gv_safety gv")
  case (Some s)
  show ?thesis
    using preview_ok[of ctx "rd_now rd" "of_int (rd_wall rd)" s] Some
    by (auto simp: engine_pass_def engine_accepts_def split: prod.splits sum.splits if_splits)
qed (simp add: engine_pass_def engine_accepts_def)

text \<open>All the checks in front of the backend, for a payload already validated.\<close>

definition cleared :: "reading \<Rightarrow> string \<Rightarrow> string option \<Rightarrow> governance \<Rightarrow> device_instance \<Rightarrow> jsrecord \<Rightarrow> bool" where
  "cleared rd c owner gv d payload \<longleftrightarrow>
    evaluatePolicies (di_policies d) (policy_context.truncate (invoke_context d rd c payload owner))
      (of_int (rd_wall rd)) = Inr () \<and>
    engine_accepts (invoke_context d rd c payload owner) rd gv"

lemma admit_ok:
  "(\<exists>rv. fst (admit rd c input opts gv d) = Inr (cd, payload, rv)) \<longleftrightarrow>
    resolve_call rd c input d = Inr (cd, payload) \<and> (io_dryRun opts \<or> halt_gate gv = Inr ()) \<and>
    cleared rd c (io_owner opts) gv d payload"
  using engine_pass_ok[of "invoke_context d rd c payload (io_owner opts)" rd "io_dryRun opts" gv]
  by (auto simp: admit_def cleared_def Let_def split: sum.splits prod.splits)

text \<open>The consumables of the shared engine.\<close>

definition charges :: "governance \<Rightarrow> consumables option" where
  "charges gv = map_option snapshotConsumables (gv_safety gv)"

lemma engine_pass_charges:
  "(dry \<or> (\<exists>e. r = Inl e)) \<Longrightarrow> engine_pass ctx rd dry gv = (r, gv') \<Longrightarrow> charges gv' = charges gv \<and> gv_halt gv' = gv_halt gv"
  using preview_view[of ctx "rd_now rd" "of_int (rd_wall rd)" "the (gv_safety gv)"]
  by (auto simp: engine_pass_def charges_def split: option.splits prod.splits sum.splits if_splits dest: reserve_refused)

lemma admit_charges:
  "(io_dryRun opts \<or> (\<exists>e. r = Inl e)) \<Longrightarrow> admit rd c input opts gv d = (r, gv') \<Longrightarrow>
    charges gv' = charges gv \<and> gv_halt gv' = gv_halt gv"
  by (auto simp: admit_def Let_def split: sum.splits prod.splits dest!: engine_pass_charges[rotated])

text \<open>A governance in which at most expired leases were reaped and one refusal was noted.\<close>

definition undisturbed :: "reading \<Rightarrow> governance \<Rightarrow> governance \<Rightarrow> bool" where
  "undisturbed rd gv gv' \<longleftrightarrow> gv_halt gv' = gv_halt gv \<and> gv_engine gv' = gv_engine gv \<and>
    (case (gv_safety gv, gv_safety gv') of
      (None, None) \<Rightarrow> True
    | (Some s, Some s') \<Rightarrow> untouched (rd_now rd) s s'
    | _ \<Rightarrow> False)"

lemma undisturbed_refl [simp]: "undisturbed rd gv gv"
proof -
  have "untouched now s s" for now s
    by (auto simp: untouched_def reaped_def intro!: exI[of _ "sg_leaseManager s"] exI[of _ "[]"])
  then show ?thesis
    by (simp add: undisturbed_def split: option.split)
qed

lemma engine_pass_undisturbed:
  "(dry \<or> (\<exists>e. r = Inl e)) \<Longrightarrow> engine_pass ctx rd dry gv = (r, gv') \<Longrightarrow> undisturbed rd gv gv'"
  using preview_untouched[of "rd_now rd" "the (gv_safety gv)" ctx "of_int (rd_wall rd)"]
  by (auto simp: engine_pass_def undisturbed_def split: option.splits prod.splits sum.splits if_splits
      dest: refused_untouched)

lemma admit_undisturbed:
  "(io_dryRun opts \<or> (\<exists>e. r = Inl e)) \<Longrightarrow> admit rd c input opts gv d = (r, gv') \<Longrightarrow> undisturbed rd gv gv'"
  by (auto simp: admit_def Let_def split: sum.splits prod.splits dest!: engine_pass_undisturbed[rotated])

lemma begin_started:
  "(\<exists>i. fst (begin_invoke nt rd c input opts gv d) = Started i) \<longleftrightarrow>
    \<not> io_dryRun opts \<and> (\<exists>cd payload rv. fst (admit rd c input opts gv d) = Inr (cd, payload, rv))"
  by (auto simp: begin_invoke_def split: prod.splits sum.splits)

lemma begin_dry:
  "(\<exists>p h. fst (begin_invoke nt rd c input opts gv d) = DryRun p h) \<longleftrightarrow>
    io_dryRun opts \<and> (\<exists>cd payload rv. fst (admit rd c input opts gv d) = Inr (cd, payload, rv))"
  by (auto simp: begin_invoke_def split: prod.splits sum.splits)

lemma begin_started_cleared:
  assumes "begin_invoke nt rd c input opts gv d = (Started k, gv', d')"
  shows "\<exists>cd payload rv. k = di_next d \<and> halt_gate gv = Inr () \<and> cleared rd c (io_owner opts) gv d payload \<and>
    d' = start_invocation nt rd c cd payload rv d"
proof -
  obtain cd payload rv where a: "admit rd c input opts gv d = (Inr (cd, payload, rv), gv')"
    and d: "d' = start_invocation nt rd c cd payload rv d" "k = di_next d" "\<not> io_dryRun opts"
    using assms by (auto simp: begin_invoke_def split: prod.splits sum.splits if_splits)
  then show ?thesis
    using admit_ok[of rd c input opts gv d cd payload] by auto
qed

lemma begin_dry_traceless:
  assumes "io_dryRun opts"
  shows "snd (snd (begin_invoke nt rd c input opts gv d)) = d \<and>
    charges (fst (snd (begin_invoke nt rd c input opts gv d))) = charges gv"
proof (cases "admit rd c input opts gv d")
  case (Pair r gv')
  then show ?thesis
    using admit_charges[OF _ Pair] assms by (simp add: begin_invoke_def split: sum.split prod.split)
qed

text \<open>C2: An invocation calls the backend exactly when every check passes. The device must be open,
  the capability declared, the input valid for its schema, every prerequisite observed and fresh, the
  halt gate open, the policies and the safety engine in favour, and it must not be a dry run. It then
  calls the backend once, with the validated input. In every other case, a dry run included, the backend is not called,
  the device with its evidence and life cycle is unchanged, and of the governance at most expired leases are reaped and
  one refusal is noted for the listener: the engine is not charged and the halt coordinator is as it was.\<close>

theorem backend_called_exactly_when_admitted:
  assumes "begin_invoke nt rd c input opts gv d = (b, gv', d')"
  shows "(b = Started (di_next d) \<longleftrightarrow>
      \<not> io_dryRun opts \<and> \<not> unavailable d \<and> halt_gate gv = Inr () \<and> evaluatePrerequisites d rd c = None \<and>
      (\<exists>cd payload. resolveCapability d c = Some cd \<and> validateInputSchema (cd_input cd) input [] = Inr payload \<and>
        cleared rd c (io_owner opts) gv d payload)) \<and>
    (b = Started (di_next d) \<longrightarrow> (\<exists>cd payload. resolveCapability d c = Some cd \<and>
        validateInputSchema (cd_input cd) input [] = Inr payload \<and>
        di_calls d' = di_calls d @ [(di_next d, c, payload)])) \<and>
    (b \<noteq> Started (di_next d) \<longrightarrow> d' = d \<and> charges gv' = charges gv \<and> undisturbed rd gv gv')"
proof (intro conjI)
  have b: "b = Started (di_next d) \<longleftrightarrow> (\<exists>i. b = Started i)"
    using assms by (auto simp: begin_invoke_def split: prod.splits sum.splits if_splits)
  show "b = Started (di_next d) \<longleftrightarrow>
      \<not> io_dryRun opts \<and> \<not> unavailable d \<and> halt_gate gv = Inr () \<and> evaluatePrerequisites d rd c = None \<and>
      (\<exists>cd payload. resolveCapability d c = Some cd \<and> validateInputSchema (cd_input cd) input [] = Inr payload \<and>
        cleared rd c (io_owner opts) gv d payload)"
    unfolding b using begin_started[of nt rd c input opts gv d] assms
    by (auto simp: admit_ok resolve_call_ok)
  show "b = Started (di_next d) \<longrightarrow> (\<exists>cd payload. resolveCapability d c = Some cd \<and>
        validateInputSchema (cd_input cd) input [] = Inr payload \<and>
        di_calls d' = di_calls d @ [(di_next d, c, payload)])"
  proof
    assume "b = Started (di_next d)"
    then obtain cd payload rv where a: "admit rd c input opts gv d = (Inr (cd, payload, rv), gv')"
      and "d' = start_invocation nt rd c cd payload rv d"
      using assms by (auto simp: begin_invoke_def split: prod.splits sum.splits if_splits)
    moreover have "resolve_call rd c input d = Inr (cd, payload)"
      using a admit_ok[of rd c input opts gv d cd payload] by auto
    ultimately show "\<exists>cd payload. resolveCapability d c = Some cd \<and>
        validateInputSchema (cd_input cd) input [] = Inr payload \<and> di_calls d' = di_calls d @ [(di_next d, c, payload)]"
      by (auto simp: resolve_call_ok)
  qed
  show "b \<noteq> Started (di_next d) \<longrightarrow> d' = d \<and> charges gv' = charges gv \<and> undisturbed rd gv gv'"
    using assms admit_charges[of opts _ rd c input gv d] admit_undisturbed[of opts _ rd c input gv d]
    by (auto simp: begin_invoke_def split: prod.splits sum.splits if_splits)
qed

text \<open>C12: A dry run predicts the real invocation and uses nothing up. It does not ask the halt gate: it is accepted exactly
  when the real call, made at that moment, would reach the backend if no coordinator were attached, and so, when the gate
  is open, exactly when the real call reaches it. It leaves the device as it is and charges nothing; of the governance
  at most expired leases are reaped and one refusal is noted for the listener.\<close>

theorem dry_run_predicts:
  assumes "begin_invoke nt rd c input \<lparr>io_owner = u, io_dryRun = True\<rparr> gv d = (dry, gv', d')"
  shows "((\<exists>p h. dry = DryRun p h) \<longleftrightarrow>
      (\<exists>i. fst (begin_invoke nt rd c input \<lparr>io_owner = u, io_dryRun = False\<rparr> (gv\<lparr>gv_halt := None\<rparr>) d) = Started i)) \<and>
    ((\<exists>i. fst (begin_invoke nt rd c input \<lparr>io_owner = u, io_dryRun = False\<rparr> gv d) = Started i) \<longleftrightarrow>
      halt_gate gv = Inr () \<and> (\<exists>p h. dry = DryRun p h)) \<and>
    d' = d \<and> charges gv' = charges gv \<and> undisturbed rd gv gv'"
proof -
  let ?dry = "\<lparr>io_owner = u, io_dryRun = True\<rparr>"
  have dry: "dry = fst (begin_invoke nt rd c input ?dry gv d)"
    using assms by simp
  have "d' = d \<and> charges gv' = charges gv"
    using begin_dry_traceless[of ?dry nt rd c input gv d] assms by simp
  moreover have "undisturbed rd gv gv'"
    using admit_undisturbed[of ?dry _ rd c input gv d] assms
    by (auto simp: begin_invoke_def split: prod.splits sum.splits)
  moreover have "(\<exists>i. fst (begin_invoke nt rd c input \<lparr>io_owner = u, io_dryRun = False\<rparr> gv d) = Started i) \<longleftrightarrow>
      halt_gate gv = Inr () \<and> (\<exists>p h. dry = DryRun p h)"
    unfolding dry begin_started begin_dry admit_ok by (simp only: invoke_options.simps simp_thms) blast
  moreover have "(\<exists>p h. dry = DryRun p h) \<longleftrightarrow>
      (\<exists>i. fst (begin_invoke nt rd c input \<lparr>io_owner = u, io_dryRun = False\<rparr> (gv\<lparr>gv_halt := None\<rparr>) d) = Started i)"
    unfolding dry begin_started begin_dry admit_ok by (simp add: halt_gate_def cleared_def engine_accepts_def)
  ultimately show ?thesis
    by blast
qed

lemma failed_call_charges:
  assumes "begin_invoke nt rd c input opts gv d = (Started i, gv1, d1)"
    and "finish_invoke nt rd' i out gv2 d2 = (Some ans, gv3, d3)"
    and "find (\<lambda>p. pi_id p = i) (di_flight d2) = find (\<lambda>p. pi_id p = i) (di_flight d1)"
    and "accounted d" and "gv_engine gv2 = gv_engine gv" and "(gv_safety gv2 = None) = (gv_safety gv = None)"
  shows "(\<forall>e. out = Inl e \<longrightarrow> ans = Inl (BackendError e) \<and> charges gv3 = charges gv) \<and>
    (\<forall>v. out = Inr v \<longrightarrow> gv3 = gv2) \<and> ((\<exists>e. ans = Inl e) \<longrightarrow> di_evidence d3 = di_evidence d2)"
proof -
  obtain cd payload rv where a: "admit rd c input opts gv d = (Inr (cd, payload, rv), gv1)"
    and d1: "d1 = start_invocation nt rd c cd payload rv d" and i: "i = di_next d" and dry: "\<not> io_dryRun opts"
    using assms(1) by (auto simp: begin_invoke_def split: prod.splits sum.splits if_splits)
  have "find (\<lambda>p. pi_id p = i) (di_flight d) = None"
    using assms(4) i by (auto simp: accounted_def find_None_iff)
  then have p: "find (\<lambda>p. pi_id p = i) (di_flight d2) =
      Some \<lparr>pi_id = di_next d, pi_descriptor = cd, pi_reservation = rv\<rparr>"
    using assms(3) d1 i by (simp add: find_append)
  have rv: "(case gv_safety gv of None \<Rightarrow> rv = None
      | Some s \<Rightarrow> \<exists>r s'. rv = Some (gv_engine gv, r) \<and>
          reserve (invoke_context d rd c payload (io_owner opts)) (rd_now rd) (of_int (rd_wall rd)) s = (Inr r, s'))"
    using a dry by (auto simp: admit_def engine_pass_def Let_def split: sum.splits prod.splits option.splits)
  have "charges (rollback_on rv gv2) = charges gv"
    using rv assms(5,6)
    by (auto simp: charges_def rollback_on_def rollback_def split: option.splits dest!: reserve_saved)
  then show ?thesis
    using assms(2) p by (auto simp: finish_invoke_def Let_def split: sum.splits)
qed

text \<open>C14: A failed backend call is not charged, and nothing it did becomes evidence: whatever came between
  the begin and the end of an invocation, when the backend threw or its result does not fit the output
  schema the evidence stays as it was. A throw takes the engine's consumables back to what they were when the
  invocation began; a result of the wrong shape leaves them charged.\<close>

theorem failed_call_is_refunded:
  assumes "begin_invoke nt rd c input opts gv d = (Started i, gv1, d1)"
    and "finish_invoke nt rd' i out gv2 d2 = (Some ans, gv3, d3)"
    and "find (\<lambda>p. pi_id p = i) (di_flight d2) = find (\<lambda>p. pi_id p = i) (di_flight d1)"
    and "accounted d" and "gv_engine gv2 = gv_engine gv" and "(gv_safety gv2 = None) = (gv_safety gv = None)"
  shows "(\<forall>e. out = Inl e \<longrightarrow> ans = Inl (BackendError e) \<and> charges gv3 = charges gv) \<and>
    (\<forall>v. out = Inr v \<longrightarrow> gv3 = gv2) \<and> ((\<exists>e. ans = Inl e) \<longrightarrow> di_evidence d3 = di_evidence d2)"
  by (rule failed_call_charges[OF assms])

text \<open>The refund is too large when invocations overlap. Of two invocations in flight, the second one
  succeeds and then the first one fails: the engine is back where it was before both, so the approval,
  the rate slot and the budget of the one that did move the device are available again.\<close>

theorem overlapping_invocation_unpaid:
  assumes "begin_invoke nt rd c input opts gv d = (Started i, gv1, d1)"
    and "begin_invoke nt rd2 c2 input2 opts2 gv1 d1 = (Started j, gv2, d2)"
    and "finish_invoke nt rd3 j (Inr v) gv2 d2 = (Some (Inr r), gv3, d3)"
    and "finish_invoke nt rd4 i (Inl e) gv3 d3 = (Some ans, gv4, d4)"
    and "accounted d"
  shows "charges gv4 = charges gv \<and> [(i, c), (j, c2)] = map (\<lambda>(n, cap, p). (n, cap)) (drop (length (di_calls d)) (di_calls d2))"
proof -
  have start: "\<exists>cd payload rv. d' = start_invocation nt rd c cd payload rv d \<and> i = di_next d \<and>
      gv_engine gv' = gv_engine gv \<and> (gv_safety gv' = None) = (gv_safety gv = None)"
    if "begin_invoke nt rd c input opts gv d = (Started i, gv', d')" for rd c input opts gv d i gv' d'
    using that by (auto simp: begin_invoke_def admit_def engine_pass_def Let_def
        split: prod.splits sum.splits if_splits option.splits)
  obtain cd p rv where d1: "d1 = start_invocation nt rd c cd p rv d" "i = di_next d"
    and g1: "gv_engine gv1 = gv_engine gv" "(gv_safety gv1 = None) = (gv_safety gv = None)"
    using start[OF assms(1)] by auto
  obtain cd2 p2 rv2 where d2: "d2 = start_invocation nt rd2 c2 cd2 p2 rv2 d1" "j = di_next d1"
    and g2: "gv_engine gv2 = gv_engine gv1" "(gv_safety gv2 = None) = (gv_safety gv1 = None)"
    using start[OF assms(2)] by auto
  have g3: "gv3 = gv2"
    using assms(3) by (auto simp: finish_invoke_def Let_def split: option.splits sum.splits)
  have none: "find (\<lambda>q. pi_id q = i) (di_flight d) = None"
    using assms(5) d1(2) by (auto simp: accounted_def find_None_iff)
  have ij: "i \<noteq> j"
    using d1 d2 by simp
  obtain q where "find (\<lambda>q. pi_id q = j) (di_flight d2) = Some q"
    using assms(3) by (auto simp: finish_invoke_def split: option.splits)
  then obtain x where x: "evidence_only (unflown j d2) x" "d3 = settle_lifecycle (rd_wall rd3) x"
    using finish_invoke_shape[OF assms(3)] by blast
  have keep: "find (\<lambda>q. pi_id q = i) (filter (\<lambda>q. pi_id q \<noteq> j) ps) = find (\<lambda>q. pi_id q = i) ps" for ps
    using ij by (induction ps) auto
  have "find (\<lambda>q. pi_id q = i) (di_flight d3) = find (\<lambda>q. pi_id q = i) (di_flight d2)"
    using x evidence_only_fields(14)[OF x(1)] keep by simp
  moreover have "find (\<lambda>q. pi_id q = i) (di_flight d2) = find (\<lambda>q. pi_id q = i) (di_flight d1)"
    using d1 d2 ij none by (simp add: find_append)
  ultimately have "charges gv4 = charges gv"
    using failed_call_charges[OF assms(1,4)] assms(5) g1 g2 g3 by simp
  then show ?thesis
    using d1 d2 by simp
qed

subsection \<open>Evidence\<close>

definition observed_fresh :: "device_instance \<Rightarrow> reading \<Rightarrow> state_prerequisite \<Rightarrow> bool" where
  "observed_fresh d rd p \<longleftrightarrow>
    (\<exists>e v seen. getEvidence d rd (sp_key p) = Some e \<and> hasObservedValue e \<and>
      ev_value (es_observed e) = Some v \<and> ev_at (es_observed e) = Some seen \<and>
      (sp_expectedValue p = JUndefined \<or> js_strict_eq v (sp_expectedValue p)) \<and>
      (\<forall>a. (sp_maxAgeMs p = Some a \<or> sp_maxAgeMs p = None \<and> getMaxAgeMs d (sp_key p) = Some a) \<longrightarrow>
        (\<exists>t. seen = Instant t \<and> t \<le> rd_wall rd \<and> rd_wall rd - t \<le> a)))"

lemma check_prerequisite_ok: "check_prerequisite d rd p = None \<longleftrightarrow> observed_fresh d rd p"
  by (cases "getEvidence d rd (sp_key p)")
    (auto simp: check_prerequisite_def observed_fresh_def missing_prerequisite_def hasObservedValue_def
      split: option.splits if_splits stamp.splits)

text \<open>Prerequisites are checked exactly: they hold when every one of them names a state whose value
  was observed (not only commanded or acknowledged), is the expected value if one is given, and was
  observed neither in the future nor longer ago than the allowed age.\<close>

theorem prerequisites_exact:
  "evaluatePrerequisites d rd c = None \<longleftrightarrow>
    list_all (observed_fresh d rd) (or_nil (jget (di_prerequisites d) c))"
proof -
  have "check_prerequisites d rd ps = None \<longleftrightarrow> list_all (observed_fresh d rd) ps" for ps
    by (induction ps) (auto simp: check_prerequisite_ok[symmetric] split: option.splits)
  then show ?thesis
    by (simp add: evaluatePrerequisites_def)
qed

definition observed_of :: "device_instance \<Rightarrow> string \<Rightarrow> jsval evidence_value" where
  "observed_of d k = es_observed (existing_evidence d k)"

lemma observed_of_map:
  "observed_of d k = (case jget (di_evidence d) k of None \<Rightarrow> no_value | Some s \<Rightarrow> es_observed s)"
  by (simp add: observed_of_def existing_evidence_def unknownEvidence_def split: option.split)

lemma observed_put: "es_observed s = es_observed (existing_evidence d k) \<Longrightarrow> observed_of (put_evidence k s d) k' = observed_of d k'"
  using observed_of_def[of d k] by (simp add: observed_of_map put_evidence_def jmap_simps)

lemma observed_commanded [simp]: "observed_of (recordCommandedState t w k v d) k' = observed_of d k'"
  by (simp add: recordCommandedState_def recordCommanded_def observed_put)

lemma observed_acknowledged [simp]: "observed_of (recordAcknowledgedState t w k v d) k' = observed_of d k'"
  by (simp add: recordAcknowledgedState_def recordAcknowledged_def observed_put)

lemma observed_entries:
  assumes "\<And>k v d k'. observed_of (f k v d) k' = observed_of d k'"
  shows "observed_of (record_with_pin nt f r d) k' = observed_of d k'"
proof -
  have "observed_of (record_entries f r d) k' = observed_of d k'" for d
    by (induction r arbitrary: d) (auto simp: record_entries_def assms)
  then show ?thesis
    by (simp add: record_with_pin_def Let_def assms split: jsval.split)
qed

lemma observed_same: "di_evidence d' = di_evidence d \<Longrightarrow> observed_of d' k = observed_of d k"
  by (simp add: observed_of_map)

lemma start_evidence:
  "di_evidence (start_invocation nt rd c cd payload rv d) =
    di_evidence (record_with_pin nt (recordCommandedState (now_iso rd) (rd_wall rd)) payload d)"
  by (simp add: start_invocation_def setLifecycle_def Let_def)

lemma observed_start: "observed_of (start_invocation nt rd c cd payload rv d) k = observed_of d k"
  using observed_same[of "start_invocation nt rd c cd payload rv d"
      "record_with_pin nt (recordCommandedState (now_iso rd) (rd_wall rd)) payload d" k]
  by (simp add: start_evidence observed_entries)

text \<open>
  A history in which nothing is observed: no event and no explicit observation, and no invocation of a read
  capability ends. Reads may be declared, begun and under way.
\<close>

definition ends_no_read :: "device_instance \<Rightarrow> device_instance \<Rightarrow> bool" where
  "ends_no_read d d' \<longleftrightarrow> list_all (\<lambda>p. is_read_action (pi_descriptor p) \<longrightarrow> p \<in> set (di_flight d')) (di_flight d)"

inductive actuating ::
  "(jsnum \<Rightarrow> string) \<Rightarrow> governance \<times> device_instance \<Rightarrow> governance \<times> device_instance \<Rightarrow> bool" for nt where
  still: "actuating nt s s"
| act: "device_step nt l s s1 \<Longrightarrow> l \<noteq> Observing \<Longrightarrow> ends_no_read (snd s) (snd s1) \<Longrightarrow> actuating nt s1 s2 \<Longrightarrow> actuating nt s s2"

lemma unobserved_finish:
  assumes "finish_invoke nt rd i out gv d = (ans, gv', d')" and "ends_no_read d d'"
  shows "observed_of d' = observed_of d"
proof (cases "find (\<lambda>p. pi_id p = i) (di_flight d)")
  case (Some p)
  obtain x where x: "evidence_only (unflown i d) x" "d' = settle_lifecycle (rd_wall rd) x"
    "x = unflown i d \<or> (\<exists>r. x = accept_result nt rd (pi_descriptor p) r (unflown i d))"
    using finish_invoke_shape[OF assms(1) Some] by blast
  have "di_flight d' = filter (\<lambda>q. pi_id q \<noteq> i) (di_flight d)"
  proof -
    obtain e where "x = (unflown i d)\<lparr>di_evidence := e\<rparr>"
      using x(1) unfolding evidence_only_def by blast
    then show ?thesis
      using x(2) by (simp add: unflown_def settle_lifecycle_def setLifecycle_def Let_def)
  qed
  then have "\<not> is_read_action (pi_descriptor p)"
    using assms(2) Some by (auto simp: ends_no_read_def list_all_iff find_Some_iff dest!: nth_mem)
  then have acc: "observed_of (accept_result nt rd (pi_descriptor p) r x) k = observed_of x k" for r x k
    by (simp add: accept_result_def observed_entries)
  have un: "observed_of (unflown i d) k = observed_of d k" for k
    by (rule observed_same) simp_all
  have set: "observed_of (settle_lifecycle w x) k = observed_of x k" for w x k
    by (rule observed_same) simp_all
  show ?thesis
    using x(2,3) acc un set by (auto simp: fun_eq_iff)
qed (use assms(1) in \<open>simp add: finish_invoke_def\<close>)

lemma unobserved_step:
  assumes "device_step nt l (gv, d) (gv', d')" "l \<noteq> Observing" "ends_no_read d d'"
  shows "observed_of d' = observed_of d"
  using assms(1)
proof (cases rule: device_step.cases)
  case (invoke rd c input opts b)
  then have "d' = d \<or> (\<exists>cd payload rv. d' = start_invocation nt rd c cd payload rv d)"
    by (auto simp: begin_invoke_def split: prod.splits sum.splits if_splits)
  then show ?thesis
    using observed_start by (auto simp: fun_eq_iff)
next
  case (finish rd i out ans)
  then show ?thesis
    using unobserved_finish assms(3) by blast
next
  case (command t w k v)
  then show ?thesis
    by (simp add: fun_eq_iff)
next
  case (acknowledge t w k v)
  then show ?thesis
    by (simp add: fun_eq_iff)
qed (use assms(2) in \<open>auto simp: fun_eq_iff config_defs begin_close_def end_close_def
    setLifecycle_def observed_of_map split: option.splits\<close>)

lemma unobserved_history: "actuating nt s s' \<Longrightarrow> observed_of (snd s') = observed_of (snd s)"
proof (induction rule: actuating.induct)
  case (act l s s1 s2)
  then show ?case
    using unobserved_step[of nt l "fst s" "snd s" "fst s1" "snd s1"] by simp
qed simp

text \<open>C26: An actuation is never its own proof. On any device, whatever capabilities it has, no history of invocations, with
  whatever results the backend reports, of recorded commands and acknowledgements, configuration, closing and
  governance changes what is observed, as long as no event and no explicit observation comes in and no invocation of a
  read capability ends: the result of an invocation of a physical output is never recorded as observed. A read is what
  the code takes for one: a capability without physical output, or one named \<open>*.read\<close> or \<open>sensor.*\<close>.\<close>

theorem actuation_is_not_observation:
  assumes "actuating nt (gv, d) (gv', d')"
  shows "observed_of d' k = observed_of d k"
  using unobserved_history[OF assms] by simp

subsection \<open>Witnesses\<close>

text \<open>An arm with one capability that needs an approval; two approvals are there.\<close>

definition wit_move :: capability_descriptor where
  "wit_move = \<lparr>cd_name = ''move'', cd_input = plain_schema, cd_output = plain_schema, cd_physicalOutput = True\<rparr>"

definition wit_arm :: device_instance where
  "wit_arm = DeviceInstance ''arm'' [wit_move] [] False [] MaxAgeNone None 0"

definition wit_reading :: reading where
  "wit_reading = \<lparr>rd_wall = 5, rd_now = 5, rd_state = JNull, rd_lamp = None, rd_backend = []\<rparr>"

definition wit_opts_real :: invoke_options where
  "wit_opts_real = \<lparr>io_owner = None, io_dryRun = False\<rparr>"

definition wit_engine :: safety_engine where
  "wit_engine = (SafetyEngine [plain_rule ''move'' Approval] None False)\<lparr>sg_approvals :=
    [(''a'', wit_approval ''a''), (''b'', wit_approval ''b'')]\<rparr>"

definition wit_gov :: governance where
  "wit_gov = \<lparr>gv_halt = Some (HaltCoordinator False), gv_safety = Some wit_engine, gv_engine = 0\<rparr>"

lemmas wit_device_defs = wit_move_def wit_reading_def wit_opts_real_def plain_schema_def

lemma wit_validate: "validateInputSchema plain_schema (JObj []) [] = Inr []"
  "validateOutputSchema plain_schema (JObj []) = Inr []"
  by (simp_all add: validateInputSchema_def validateOutputSchema_def assertSchema.simps assert_scalar_def
      enum_check_def plain_schema_def)

lemma wit_begin:
  assumes "\<not> unavailable d" "resolveCapability d ''move'' = Some wit_move" "di_policies d = []" "di_prerequisites d = []"
    and "di_id d = ''arm''" "halt_gate gv = Inr ()" "gv_safety gv = Some s"
    and "reserve (wit_ctx None) 5 5 s = (Inr rv, s1)"
  shows "begin_invoke nt wit_reading ''move'' (JObj []) wit_opts_real gv d =
    (Started (di_next d), gv\<lparr>gv_safety := Some s1\<rparr>,
     start_invocation nt wit_reading ''move'' wit_move [] (Some (gv_engine gv, rv)) d)"
proof -
  have ctx: "invoke_context d wit_reading ''move'' [] None = wit_ctx None"
    using assms(5) by (simp add: invoke_context_def wit_ctx_def wit_reading_def)
  have "resolve_call wit_reading ''move'' (JObj []) d = Inr (wit_move, [])"
    using assms(1,2,4) by (simp add: resolve_call_ok evaluatePrerequisites_def or_nil_def
        wit_move_def wit_validate)
  then show ?thesis
    using assms ctx by (simp add: begin_invoke_def admit_def engine_pass_def wit_opts_real_def wit_reading_def Let_def
        evaluatePolicies.simps)
qed

lemma wit_reserve:
  "\<exists>rv s1. reserve (wit_ctx None) 5 5 wit_engine = (Inr rv, s1) \<and> sg_rules s1 = sg_rules wit_engine \<and>
    sg_approvals s1 = [(''a'', (wit_approval ''a'')\<lparr>ap_usedAt := Some 5\<rparr>), (''b'', wit_approval ''b'')]"
  by (simp add: wit_engine_def engine_eval enforceApproval_def approval_usable_def wit_approval_def)

lemma wit_arm_open: "\<not> unavailable wit_arm" "di_capabilities wit_arm = [wit_move]" "di_policies wit_arm = []"
    "di_prerequisites wit_arm = []" "di_id wit_arm = ''arm''" "accounted wit_arm" "di_next wit_arm = 0"
    "di_flight wit_arm = []" "di_calls wit_arm = []" "di_closing wit_arm = False"
  by (simp_all add: wit_arm_def DeviceInstance_def unavailable_def accounted_def)

lemma wit_arm_move: "resolveCapability wit_arm ''move'' = Some wit_move"
  by (simp add: resolveCapability_def wit_arm_open wit_move_def)

lemma wit_gov_open: "halt_gate wit_gov = Inr ()" "gv_safety wit_gov = Some wit_engine" "gv_engine wit_gov = 0"
  by (simp_all add: wit_gov_def halt_gate_def enforceGate_def gate_def HaltCoordinator_def)

abbreviation (input) "wit_call gv d \<equiv> begin_invoke (\<lambda>_. []) wit_reading ''move'' (JObj []) wit_opts_real gv d"

lemma wit_first:
  obtains rv s1 where "wit_call wit_gov wit_arm = (Started 0, wit_gov\<lparr>gv_safety := Some s1\<rparr>,
      start_invocation (\<lambda>_. []) wit_reading ''move'' wit_move [] (Some (0, rv)) wit_arm)"
    "sg_rules s1 = sg_rules wit_engine"
    "sg_approvals s1 = [(''a'', (wit_approval ''a'')\<lparr>ap_usedAt := Some 5\<rparr>), (''b'', wit_approval ''b'')]"
  using wit_reserve wit_begin[OF wit_arm_open(1) wit_arm_move wit_arm_open(3-5) wit_gov_open(1,2)] wit_arm_open(7) wit_gov_open(3) by force

theorem backend_called_exactly_when_admitted_witness:
  "di_calls (snd (snd (wit_call wit_gov wit_arm))) = [(0, ''move'', [])]"
proof -
  obtain rv s1 where 1: "wit_call wit_gov wit_arm = (Started 0, wit_gov\<lparr>gv_safety := Some s1\<rparr>,
      start_invocation (\<lambda>_. []) wit_reading ''move'' wit_move [] (Some (0, rv)) wit_arm)"
    by (rule wit_first)
  show ?thesis
    using backend_called_exactly_when_admitted[OF 1] 1 wit_arm_open(7,9) by simp
qed

theorem dry_run_predicts_witness:
  "let (dry, gv, d) = begin_invoke (\<lambda>_. []) wit_reading ''move'' (JObj []) \<lparr>io_owner = None, io_dryRun = True\<rparr> wit_gov wit_arm
   in (\<exists>p h. dry = DryRun p h) \<and> d = wit_arm \<and> charges gv = charges wit_gov"
proof -
  obtain rv s1 where 1: "wit_call wit_gov wit_arm = (Started 0, wit_gov\<lparr>gv_safety := Some s1\<rparr>,
      start_invocation (\<lambda>_. []) wit_reading ''move'' wit_move [] (Some (0, rv)) wit_arm)"
    by (rule wit_first)
  obtain dry gv d where 2: "begin_invoke (\<lambda>_. []) wit_reading ''move'' (JObj []) \<lparr>io_owner = None, io_dryRun = True\<rparr>
      wit_gov wit_arm = (dry, gv, d)"
    by (rule prod_cases3)
  show ?thesis
    using dry_run_predicts[OF 2] 1 by (auto simp: 2 wit_opts_real_def)
qed

theorem invocations_accounted_witness:
  "\<exists>ls gv d. device_steps (\<lambda>_. []) ls (wit_gov, wit_arm) (gv, d) \<and> di_flight d \<noteq> [] \<and> di_lifecycle d = Busy"
proof -
  obtain rv s1 where 1: "wit_call wit_gov wit_arm = (Started 0, wit_gov\<lparr>gv_safety := Some s1\<rparr>,
      start_invocation (\<lambda>_. []) wit_reading ''move'' wit_move [] (Some (0, rv)) wit_arm)"
    by (rule wit_first)
  have steps: "device_steps (\<lambda>_. []) [Invoking (Started 0)] (wit_gov, wit_arm) (wit_gov\<lparr>gv_safety := Some s1\<rparr>,
      start_invocation (\<lambda>_. []) wit_reading ''move'' wit_move [] (Some (0, rv)) wit_arm)"
    by (rule device_steps.step[OF device_step.invoke[OF 1] device_steps.none])
  then show ?thesis
    using invocations_accounted[OF steps[unfolded wit_arm_def], folded wit_arm_def] wit_arm_open(8,10)
    by (intro exI[of _ "[Invoking (Started 0)]"]) (auto intro!: exI[of _ "wit_gov\<lparr>gv_safety := Some s1\<rparr>"])
qed

theorem closed_device_silent_witness:
  "fst (wit_call wit_gov (begin_close wit_arm)) = Refused DeviceDisconnected"
  using closed_device_silent[OF device_steps.none wit_arm_open(6)] by blast

theorem failed_call_is_refunded_witness:
  "charges (fst (snd (finish_invoke (\<lambda>_. []) wit_reading 0 (Inl (ThrownError ''jam''))
      (fst (snd (wit_call wit_gov wit_arm))) (snd (snd (wit_call wit_gov wit_arm)))))) = charges wit_gov"
proof -
  obtain rv s1 where 1: "wit_call wit_gov wit_arm = (Started 0, wit_gov\<lparr>gv_safety := Some s1\<rparr>,
      start_invocation (\<lambda>_. []) wit_reading ''move'' wit_move [] (Some (0, rv)) wit_arm)" (is "_ = (_, ?g, ?d)")
    by (rule wit_first)
  obtain ans g3 d3 where 2: "finish_invoke (\<lambda>_. []) wit_reading 0 (Inl (ThrownError ''jam'')) ?g ?d = (Some ans, g3, d3)"
    by (auto simp: finish_invoke_def Let_def wit_arm_open(7,8))
  show ?thesis
    using failed_call_is_refunded[OF 1 2] wit_arm_open(6) wit_gov_open 1 2 by (simp add: wit_gov_def)
qed

theorem overlapping_invocation_unpaid_witness:
  "\<exists>(gv2 :: governance) (gv4 :: governance) s2 s4. gv_safety gv2 = Some s2 \<and> gv_safety gv4 = Some s4 \<and>
      unused_approvals s2 ''arm'' ''move'' = 0 \<and> unused_approvals s4 ''arm'' ''move'' = 2"
proof -
  obtain rv s1 where 1: "wit_call wit_gov wit_arm = (Started 0, wit_gov\<lparr>gv_safety := Some s1\<rparr>,
      start_invocation (\<lambda>_. []) wit_reading ''move'' wit_move [] (Some (0, rv)) wit_arm)" (is "_ = (_, ?g1, ?d1)")
    and s1: "sg_rules s1 = sg_rules wit_engine"
      "sg_approvals s1 = [(''a'', (wit_approval ''a'')\<lparr>ap_usedAt := Some 5\<rparr>), (''b'', wit_approval ''b'')]"
    by (rule wit_first)
  obtain rv2 s2 where r2: "reserve (wit_ctx None) 5 5 s1 = (Inr rv2, s2)" "unused_approvals s2 ''arm'' ''move'' = 0"
    using s1 by (simp add: wit_engine_def engine_eval enforceApproval_def approval_usable_def wit_approval_def
        unused_approvals_def)
  have 2: "wit_call ?g1 ?d1 = (Started 1, ?g1\<lparr>gv_safety := Some s2\<rparr>,
      start_invocation (\<lambda>_. []) wit_reading ''move'' wit_move [] (Some (0, rv2)) ?d1)" (is "_ = (_, ?g2, ?d2)")
    using wit_begin[where d = ?d1 and gv = ?g1 and s = s1 and nt = "\<lambda>_. []", OF _ _ _ _ _ _ _ r2(1)] wit_arm_open wit_gov_open
    by (simp add: unavailable_def halt_gate_def start_invocation_def setLifecycle_def record_with_pin_def record_entries_def
        Let_def resolveCapability_def wit_move_def)
  obtain g3 d3 where 3: "finish_invoke (\<lambda>_. []) wit_reading 1 (Inr (JObj [])) ?g2 ?d2 = (Some (Inr []), g3, d3)"
    by (auto simp: finish_invoke_def Let_def wit_arm_open(7,8) wit_move_def wit_validate)
  have f3: "di_flight d3 = di_flight ?d1" "g3 = ?g2"
    using 3 by (auto simp: finish_invoke_def Let_def wit_arm_open(7,8) wit_move_def wit_validate)
  obtain ans g4 d4 where 4: "finish_invoke (\<lambda>_. []) wit_reading 0 (Inl (ThrownError ''jam'')) g3 d3 = (Some ans, g4, d4)"
    using f3 by (auto simp: finish_invoke_def Let_def wit_arm_open(7,8))
  have c: "charges g4 = charges wit_gov"
    using overlapping_invocation_unpaid[OF 1 2 3 4 wit_arm_open(6)] by blast
  then obtain s4 where "gv_safety g4 = Some s4" "snapshotConsumables s4 = snapshotConsumables wit_engine"
    by (auto simp: charges_def wit_gov_open)
  moreover from this(2) have "unused_approvals s4 ''arm'' ''move'' = 2"
    using view_unused by (fastforce simp: wit_engine_def unused_approvals_def wit_approval_def)
  moreover have "gv_safety ?g2 = Some s2"
    by simp
  ultimately show ?thesis
    using r2(2) by blast
qed

text \<open>The arm can also read its position; it is moved and reports a position, and none is observed.\<close>

definition wit_duo :: device_instance where
  "wit_duo = wit_arm\<lparr>di_capabilities := [wit_move, wit_move\<lparr>cd_name := ''arm.read''\<rparr>]\<rparr>"

theorem actuation_is_not_observation_witness:
  "let (b, gv, d) = wit_call wit_gov wit_duo;
       (ans, gv', d') = finish_invoke (\<lambda>_. []) wit_reading 0 (Inr (JObj [(''position'', JNum (Fin 7))])) gv d
   in ans = Some (Inr [(''position'', JNum (Fin 7))]) \<and> observed_of d' ''position'' = no_value"
proof -
  have open_duo: "\<not> unavailable wit_duo" "resolveCapability wit_duo ''move'' = Some wit_move" "di_policies wit_duo = []"
    "di_prerequisites wit_duo = []" "di_id wit_duo = ''arm''" "di_next wit_duo = 0" "di_flight wit_duo = []"
    by (simp_all add: wit_duo_def wit_arm_def DeviceInstance_def unavailable_def resolveCapability_def wit_move_def)
  obtain rv s1 where "reserve (wit_ctx None) 5 5 wit_engine = (Inr rv, s1)"
    using wit_reserve by blast
  from wit_begin[OF open_duo(1-5) wit_gov_open(1,2) this, of "\<lambda>_. []"]
  obtain g1 d1 where 1: "wit_call wit_gov wit_duo = (Started 0, g1, d1)"
    "d1 = start_invocation (\<lambda>_. []) wit_reading ''move'' wit_move [] (Some (0, rv)) wit_duo"
    by (simp add: open_duo(6) wit_gov_open(3))
  have flight: "di_flight d1 = [\<lparr>pi_id = 0, pi_descriptor = wit_move, pi_reservation = Some (0, rv)\<rparr>]"
    using open_duo(6,7) 1(2) by simp
  obtain ans g2 d2 where 2: "finish_invoke (\<lambda>_. []) wit_reading 0 (Inr (JObj [(''position'', JNum (Fin 7))])) g1 d1 = (ans, g2, d2)"
    by (rule prod_cases3)
  have ans: "ans = Some (Inr [(''position'', JNum (Fin 7))])"
    using 2 flight by (auto simp: finish_invoke_def wit_move_def plain_schema_def validateOutputSchema_def assertSchema.simps
        assert_scalar_def enum_check_def split: sum.splits)
  have "actuating (\<lambda>_. []) (g1, d1) (g2, d2)"
    by (rule actuating.act[OF device_step.finish[OF 2] _ _ actuating.still])
      (simp_all add: ends_no_read_def flight is_read_action_def wit_move_def ends_with_def starts_with_def)
  then have "actuating (\<lambda>_. []) (wit_gov, wit_duo) (g2, d2)"
    by (rule actuating.act[OF device_step.invoke[OF 1(1)], rotated 2]) (simp_all add: ends_no_read_def open_duo)
  from actuation_is_not_observation[OF this, of "''position''"] have "observed_of d2 ''position'' = no_value"
    by (simp add: observed_of_map wit_duo_def wit_arm_def DeviceInstance_def)
  then show ?thesis
    by (simp add: 1(1) 2 ans)
qed

end
