(* ===== verification/Pinout_Runtime.thy ===== *)
theory Pinout_Runtime
  imports Device_Instance Journal Safety_Merge
begin

text \<open>
  The runtime, \<open>packages/core/src/runtime/runtime.ts\<close>: the registered devices under one halt
  coordinator, one safety engine and one journal. Device objects live in a store and are known by
  their index, since an invocation may end after its device was unregistered; the map of the runtime
  leads from device ids to indices. The safe states that a halt asks for are applied in passes, one
  after the other. Creating a backend is not part of the model. \<open>mt\<close> is the message of an error. The event handlers are
  code outside: \<open>rt_throws\<close> says what each of them throws on an event, if anything.
  They also get the events the devices send on their own; that one of them throws there is not modelled.
\<close>

datatype invocation_kind = InvocationRequested | InvocationCompleted | InvocationFailed

datatype runtime_error =
    DuplicateDevice string
  | DeviceNotFound string
  | DeviceRaised device_error
  | PolicyConstraintConflict "constraint_conflict list"

record open_invocation =
  oi_device :: string
  oi_object :: nat
  oi_id :: nat
  oi_capability :: string

record pinout_runtime =
  rt_gov :: governance
  rt_journal :: "invocation_kind journal"
  rt_store :: "device_instance list"
  rt_devices :: "(string, nat) jmap"
  rt_handlers :: "nat list"
  rt_forwards :: "(string, nat) jmap"
  rt_open :: "open_invocation list"
  rt_queued :: nat
  rt_pass :: "(string \<times> nat) list option"
  rt_safe_calls :: "(string \<times> nat) list"
  rt_emitted :: "(nat \<times> event_envelope) list"
  rt_throws :: "nat \<Rightarrow> event_envelope \<Rightarrow> string option"
  rt_chainFailed :: bool

text \<open>The listener the runtime registers at its halt coordinator.\<close>

definition RUNTIME_LISTENER :: nat where
  "RUNTIME_LISTENER = 0"

definition subscribeHalt :: "governance \<Rightarrow> governance" where
  "subscribeHalt gv = gv\<lparr>gv_halt := map_option (subscribe_halt RUNTIME_LISTENER) (gv_halt gv)\<rparr>"

definition unsubscribeHalt :: "governance \<Rightarrow> governance" where
  "unsubscribeHalt gv = gv\<lparr>gv_halt := map_option (unsubscribe_halt RUNTIME_LISTENER) (gv_halt gv)\<rparr>"

definition PinoutRuntime ::
  "(nat \<Rightarrow> event_envelope \<Rightarrow> string option) \<Rightarrow> halt_coordinator option \<Rightarrow> safety_engine option \<Rightarrow>
    invocation_kind journal option \<Rightarrow> pinout_runtime" where
  "PinoutRuntime throws h s j =
    \<lparr>rt_gov = subscribeHalt \<lparr>gv_halt = Some (case h of Some x \<Rightarrow> x | None \<Rightarrow> HaltCoordinator False),
        gv_safety = Some (case s of Some x \<Rightarrow> x | None \<Rightarrow> SafetyEngine [] None False), gv_engine = 0\<rparr>,
     rt_journal = (case j of Some x \<Rightarrow> x | None \<Rightarrow> Journal None),
     rt_store = [], rt_devices = [], rt_handlers = [], rt_forwards = [], rt_open = [], rt_queued = 0,
     rt_pass = None, rt_safe_calls = [], rt_emitted = [], rt_throws = throws, rt_chainFailed = False\<rparr>"

definition on_runtime :: "nat \<Rightarrow> pinout_runtime \<Rightarrow> pinout_runtime" where
  "on_runtime h rt = rt\<lparr>rt_handlers := (if h \<in> set (rt_handlers rt) then rt_handlers rt else rt_handlers rt @ [h])\<rparr>"

definition off_runtime :: "nat \<Rightarrow> pinout_runtime \<Rightarrow> pinout_runtime" where
  "off_runtime h rt = rt\<lparr>rt_handlers := removeAll h (rt_handlers rt)\<rparr>"

text \<open>The handlers are called in order; what one throws ends the call, and is the answer.\<close>

definition emit_runtime :: "event_envelope \<Rightarrow> pinout_runtime \<Rightarrow> string option \<times> pinout_runtime" where
  "emit_runtime e rt =
    (case dropWhile (\<lambda>h. rt_throws rt h e = None) (rt_handlers rt) of
      [] \<Rightarrow> (None, rt\<lparr>rt_emitted := rt_emitted rt @ map (\<lambda>h. (h, e)) (rt_handlers rt)\<rparr>)
    | h # hs \<Rightarrow>
        (rt_throws rt h e,
         rt\<lparr>rt_emitted := rt_emitted rt @
           map (\<lambda>h. (h, e)) (takeWhile (\<lambda>h. rt_throws rt h e = None) (rt_handlers rt) @ [h])\<rparr>))"

definition getDevice :: "pinout_runtime \<Rightarrow> string \<Rightarrow> runtime_error + nat" where
  "getDevice rt i = (case jget (rt_devices rt) i of Some n \<Rightarrow> Inr n | None \<Rightarrow> Inl (DeviceNotFound i))"

definition hasDevice :: "pinout_runtime \<Rightarrow> string \<Rightarrow> bool" where
  "hasDevice rt i \<longleftrightarrow> jhas (rt_devices rt) i"

definition runtimeStateEvidence ::
  "(string \<Rightarrow> reading) \<Rightarrow> pinout_runtime \<Rightarrow> (string \<times> (string, jsval evidence_state) jmap) list" where
  "runtimeStateEvidence rds rt = map (\<lambda>(i, n). (i, getStateEvidence (rt_store rt ! n) (rds i))) (rt_devices rt)"

subsection \<open>Registration\<close>

text \<open>\<open>fwd\<close> is the closure that forwards the device's events to the runtime.\<close>

definition register_device :: "nat \<Rightarrow> device_instance \<Rightarrow> pinout_runtime \<Rightarrow> runtime_error + pinout_runtime" where
  "register_device fwd d rt =
    (if hasDevice rt (di_id d) then Inl (DuplicateDevice (di_id d))
     else Inr (rt\<lparr>rt_store := rt_store rt @ [subscribeRuntimeEvents fwd d],
                 rt_forwards := jset (di_id d) fwd (rt_forwards rt),
                 rt_devices := jset (di_id d) (length (rt_store rt)) (rt_devices rt)\<rparr>))"

record module_definition =
  md_capabilities :: "capability_descriptor list"
  md_capabilityNames :: "string list"
  md_policies :: "policy_rule list"

record register_options =
  ro_id :: string
  ro_simulated :: bool
  ro_deploymentPolicies :: "policy_rule list"
  ro_prerequisites :: "(string \<times> state_prerequisite list) list"
  ro_maxStateAgeMs :: max_age_option

text \<open>
  \<open>protocol\<close> holds the capabilities of the connected device if the backend speaks the protocol. The
  first test runs before the backend is created, the rest after it.
\<close>

definition registration_open :: "register_options \<Rightarrow> pinout_runtime \<Rightarrow> runtime_error option" where
  "registration_open o' rt = (if hasDevice rt (ro_id o') then Some (DuplicateDevice (ro_id o')) else None)"

definition module_capabilities ::
  "module_definition \<Rightarrow> capability_descriptor list option \<Rightarrow> capability_descriptor list" where
  "module_capabilities md protocol =
    (case protocol of
      Some caps \<Rightarrow> filter (\<lambda>c. cd_name c \<in> set (md_capabilityNames md)) caps
    | None \<Rightarrow> md_capabilities md)"

definition registerModuleDevice ::
  "module_definition \<Rightarrow> register_options \<Rightarrow> capability_descriptor list option \<Rightarrow> nat \<Rightarrow> int \<Rightarrow> pinout_runtime \<Rightarrow>
    runtime_error + pinout_runtime" where
  "registerModuleDevice md o' protocol fwd wall rt =
    (case mergeModuleAndDeploymentRules (md_policies md) (ro_deploymentPolicies o') of
      (rules, conflicts) \<Rightarrow>
        if conflicts \<noteq> [] then Inl (PolicyConstraintConflict conflicts)
        else (let d = DeviceInstance (ro_id o') (module_capabilities md protocol) rules (ro_simulated o')
                    (ro_prerequisites o') (ro_maxStateAgeMs o') None wall
              in register_device fwd
                  (case protocol of Some _ \<Rightarrow> attachProtocolEventBridge [''gpio.changed''] d | None \<Rightarrow> d) rt))"

text \<open>
  \<open>unregister\<close> closes the device, waits for its backend and forgets the device, whether the backend's
  close succeeded or not. The close of a device that is already closing does nothing (the flag).
\<close>

definition update_device :: "nat \<Rightarrow> (device_instance \<Rightarrow> device_instance) \<Rightarrow> pinout_runtime \<Rightarrow> pinout_runtime" where
  "update_device n f rt =
    (if n < length (rt_store rt) then rt\<lparr>rt_store := (rt_store rt)[n := f (rt_store rt ! n)]\<rparr> else rt)"

definition begin_unregister :: "string \<Rightarrow> pinout_runtime \<Rightarrow> runtime_error + (nat \<times> bool) \<times> pinout_runtime" where
  "begin_unregister i rt =
    (case getDevice rt i of
      Inl e \<Rightarrow> Inl e
    | Inr n \<Rightarrow> Inr ((n, \<not> unavailable (rt_store rt ! n)), update_device n begin_close rt))"

definition end_unregister :: "string \<Rightarrow> nat \<times> bool \<Rightarrow> int \<Rightarrow> pinout_runtime \<Rightarrow> pinout_runtime" where
  "end_unregister i nc wall rt =
    (let n = fst nc;
         rt1 = (if snd nc then update_device n (end_close wall) rt else rt);
         rt2 = (case jget (rt_forwards rt1) i of
                  Some h \<Rightarrow> update_device n (unsubscribeRuntimeEvents h) rt1 | None \<Rightarrow> rt1)
     in rt2\<lparr>rt_forwards := jdelete i (rt_forwards rt2), rt_devices := jdelete i (rt_devices rt2)\<rparr>)"

definition configureGovernance ::
  "halt_coordinator option \<Rightarrow> safety_engine option \<Rightarrow> invocation_kind journal option \<Rightarrow> pinout_runtime \<Rightarrow>
    pinout_runtime" where
  "configureGovernance h s j rt =
    (let g1 = (case h of Some x \<Rightarrow> subscribeHalt ((rt_gov rt)\<lparr>gv_halt := Some x\<rparr>) | None \<Rightarrow> rt_gov rt);
         g2 = (case s of Some x \<Rightarrow> g1\<lparr>gv_safety := Some x, gv_engine := Suc (gv_engine g1)\<rparr> | None \<Rightarrow> g1)
     in rt\<lparr>rt_gov := g2, rt_journal := (case j of Some x \<Rightarrow> x | None \<Rightarrow> rt_journal rt)\<rparr>)"

subsection \<open>Invocation\<close>

definition thrown_code :: "thrown \<Rightarrow> string" where
  "thrown_code t =
    (case t of ThrownStructured s \<Rightarrow> ps_code s | ThrownPinout c _ \<Rightarrow> c | _ \<Rightarrow> ''INTERNAL_ERROR'')"

definition device_error_code :: "device_error \<Rightarrow> string" where
  "device_error_code e =
    (case e of
      DeviceDisconnected \<Rightarrow> ''DISCONNECTED''
    | UnsupportedCapability _ \<Rightarrow> ''UNSUPPORTED_CAPABILITY''
    | SchemaError (InputInvalid _ _) \<Rightarrow> ''VALIDATION_ERROR''
    | SchemaError (OutputInvalid _ _) \<Rightarrow> ''PROTOCOL_ERROR''
    | PrerequisiteError (PErr c _) _ \<Rightarrow> c
    | PrerequisiteTypeError _ \<Rightarrow> ''INTERNAL_ERROR''
    | HaltError (PErr c _) \<Rightarrow> c
    | PolicyError p \<Rightarrow>
        (case (policy_error_code p, p) of
          (Some c, _) \<Rightarrow> c | (None, PolicyOther t) \<Rightarrow> thrown_code t | _ \<Rightarrow> ''INTERNAL_ERROR'')
    | PreviewDenied c \<Rightarrow> c
    | BackendError t \<Rightarrow> thrown_code t)"

definition runtime_error_code :: "runtime_error \<Rightarrow> string" where
  "runtime_error_code e =
    (case e of
      DuplicateDevice _ \<Rightarrow> ''DUPLICATE_DEVICE''
    | DeviceNotFound _ \<Rightarrow> ''DEVICE_NOT_FOUND''
    | DeviceRaised d \<Rightarrow> device_error_code d
    | PolicyConstraintConflict _ \<Rightarrow> ''POLICY_CONSTRAINT_CONFLICT'')"

definition dry_field :: "bool \<Rightarrow> jsrecord" where
  "dry_field dry = (if dry then [(''dryRun'', JBool True)] else [])"

definition journal_request ::
  "(jsnum \<Rightarrow> string) \<Rightarrow> time \<Rightarrow> string \<Rightarrow> string \<Rightarrow> jsval \<Rightarrow> invoke_options \<Rightarrow> pinout_runtime \<Rightarrow> pinout_runtime" where
  "journal_request nt t i c input opts rt =
    rt\<lparr>rt_journal := snd (journal_append nt InvocationRequested (Some i) None
      ([(''capability'', JStr c), (''input'', input)]
       @ (case io_owner opts of Some u \<Rightarrow> [(''owner'', JStr u)] | None \<Rightarrow> []) @ dry_field (io_dryRun opts)) t (rt_journal rt))\<rparr>"

definition journal_outcome ::
  "(jsnum \<Rightarrow> string) \<Rightarrow> (runtime_error \<Rightarrow> string) \<Rightarrow> time \<Rightarrow> string \<Rightarrow> string \<Rightarrow> bool \<Rightarrow> runtime_error + jsrecord \<Rightarrow>
    pinout_runtime \<Rightarrow> pinout_runtime" where
  "journal_outcome nt mt t i c dry ans rt =
    rt\<lparr>rt_journal := snd (case ans of
      Inr r \<Rightarrow> journal_append nt InvocationCompleted (Some i) None
        ([(''capability'', JStr c), (''result'', JObj r)] @ dry_field dry) t (rt_journal rt)
    | Inl e \<Rightarrow> journal_append nt InvocationFailed (Some i) None
        ([(''capability'', JStr c), (''code'', JStr (runtime_error_code e)), (''message'', JStr (mt e))] @ dry_field dry)
        t (rt_journal rt))\<rparr>"

fun safety_state_name :: "safety_state \<Rightarrow> string" where
  "safety_state_name NORMAL = ''NORMAL''"
| "safety_state_name RESTRICTED = ''RESTRICTED''"
| "safety_state_name HALTED = ''HALTED''"
| "safety_state_name ESTOP_REQUESTED = ''ESTOP_REQUESTED''"
| "safety_state_name FAULTED = ''FAULTED''"

definition dry_result :: "string \<Rightarrow> string \<Rightarrow> jsrecord \<Rightarrow> safety_state \<Rightarrow> jsrecord" where
  "dry_result i c payload st =
    [(''dryRun'', JBool True), (''deviceId'', JStr i), (''capability'', JStr c), (''resolvedArgs'', JObj payload),
     (''haltState'', JStr (safety_state_name st))]"

text \<open>The answer is \<open>None\<close> while the backend works.\<close>

definition runtime_begin ::
  "(jsnum \<Rightarrow> string) \<Rightarrow> (runtime_error \<Rightarrow> string) \<Rightarrow> reading \<Rightarrow> string \<Rightarrow> string \<Rightarrow> jsval \<Rightarrow> invoke_options \<Rightarrow>
    pinout_runtime \<Rightarrow> (runtime_error + jsrecord) option \<times> pinout_runtime" where
  "runtime_begin nt mt rd i c input opts rt =
    (let t = of_int (rd_wall rd); rt1 = journal_request nt t i c input opts rt in
     case getDevice rt1 i of
       Inl e \<Rightarrow> (Some (Inl e), journal_outcome nt mt t i c (io_dryRun opts) (Inl e) rt1)
     | Inr n \<Rightarrow>
         (case begin_invoke nt rd c input opts (rt_gov rt1) (rt_store rt1 ! n) of
           (b, gv, d) \<Rightarrow>
             (let rt2 = rt1\<lparr>rt_gov := gv, rt_store := (rt_store rt1)[n := d]\<rparr> in
              case b of
                Refused e \<Rightarrow>
                  (Some (Inl (DeviceRaised e)), journal_outcome nt mt t i c (io_dryRun opts) (Inl (DeviceRaised e)) rt2)
              | DryRun payload st \<Rightarrow>
                  (Some (Inr (dry_result (di_id d) c payload st)),
                   journal_outcome nt mt t i c True (Inr (dry_result (di_id d) c payload st)) rt2)
              | Started k \<Rightarrow>
                  (None, rt2\<lparr>rt_open := rt_open rt2 @ [\<lparr>oi_device = i, oi_object = n, oi_id = k, oi_capability = c\<rparr>]\<rparr>))))"

definition runtime_finish ::
  "(jsnum \<Rightarrow> string) \<Rightarrow> (runtime_error \<Rightarrow> string) \<Rightarrow> reading \<Rightarrow> nat \<Rightarrow> nat \<Rightarrow> thrown + jsval \<Rightarrow>
    pinout_runtime \<Rightarrow> (runtime_error + jsrecord) option \<times> pinout_runtime" where
  "runtime_finish nt mt rd n k out rt =
    (case find (\<lambda>o'. oi_object o' = n \<and> oi_id o' = k) (rt_open rt) of
      None \<Rightarrow> (None, rt)
    | Some oi \<Rightarrow>
        (case finish_invoke nt rd k out (rt_gov rt) (rt_store rt ! n) of
          (None, _, _) \<Rightarrow> (None, rt)
        | (Some ans, gv, d) \<Rightarrow>
            (let rt1 = rt\<lparr>rt_gov := gv, rt_store := (rt_store rt)[n := d],
                   rt_open := filter (\<lambda>o'. \<not> (oi_object o' = n \<and> oi_id o' = k)) (rt_open rt)\<rparr>;
                 res = (case ans of Inl e \<Rightarrow> Inl (DeviceRaised e) | Inr r \<Rightarrow> Inr r)
             in (Some res,
                 journal_outcome nt mt (of_int (rd_wall rd)) (oi_device oi) (oi_capability oi) False res rt1))))"

subsection \<open>Halting\<close>

text \<open>The state changes that ask for safe states.\<close>

definition asks_safe_state :: "nat option \<times> state_change \<Rightarrow> bool" where
  "asks_safe_state d \<longleftrightarrow> fst d = Some RUNTIME_LISTENER \<and> ch_to (snd d) \<in> {HALTED, ESTOP_REQUESTED}"

text \<open>A call of the halt coordinator, by anyone, with what the runtime hears of it.\<close>

definition runtime_halt :: "halt_call \<Rightarrow> pinout_runtime \<Rightarrow> pinout_runtime" where
  "runtime_halt c rt =
    (case gv_halt (rt_gov rt) of
      None \<Rightarrow> rt
    | Some h \<Rightarrow>
        (let h' = halt_apply h c in
         rt\<lparr>rt_gov := (rt_gov rt)\<lparr>gv_halt := Some h'\<rparr>,
            rt_queued := rt_queued rt + length (filter asks_safe_state (drop (length (deliveries h)) (deliveries h')))\<rparr>))"

text \<open>
  A pass calls \<open>applySafeState\<close> of every device of that moment; it ends when all have answered. Once the chain was
  rejected, no later pass begins: a \<open>then\<close> on a rejected promise is skipped.
\<close>

definition begin_pass :: "pinout_runtime \<Rightarrow> pinout_runtime" where
  "begin_pass rt =
    (if rt_queued rt = 0 \<or> rt_pass rt \<noteq> None \<or> rt_chainFailed rt then rt
     else rt\<lparr>rt_queued := rt_queued rt - 1, rt_pass := Some (rt_devices rt),
             rt_safe_calls := rt_safe_calls rt @ rt_devices rt\<rparr>)"

definition safe_event :: "int \<Rightarrow> string \<Rightarrow> string + jsrecord option \<Rightarrow> event_envelope" where
  "safe_event wall i res =
    (case res of
      Inr r \<Rightarrow> \<lparr>en_deviceId = i, en_event = ''device.safe_state_applied'',
        en_payload = (case r of Some p \<Rightarrow> p
          | None \<Rightarrow> [(''applied'', JBool False), (''reason'', JStr ''safe-state-not-supported'')]),
        en_timestamp = wall, en_stateEvidence = []\<rparr>
    | Inl m \<Rightarrow> \<lparr>en_deviceId = i, en_event = ''device.safe_state_failed'', en_payload = [(''message'', JStr m)],
        en_timestamp = wall, en_stateEvidence = []\<rparr>)"

text \<open>
  The answer of a device is reported to the handlers. When one of them throws on a success, the \<open>catch\<close> reports a failure
  with what it threw; when one throws on a failure, the pass and with it the chain is rejected.
\<close>

definition report_safe :: "int \<Rightarrow> string \<Rightarrow> string + jsrecord option \<Rightarrow> pinout_runtime \<Rightarrow> bool \<times> pinout_runtime" where
  "report_safe wall i res rt =
    (case emit_runtime (safe_event wall i res) rt of
      (None, rt1) \<Rightarrow> (False, rt1)
    | (Some m, rt1) \<Rightarrow>
        (case res of
          Inl _ \<Rightarrow> (True, rt1)
        | Inr _ \<Rightarrow>
            (case emit_runtime (safe_event wall i (Inl m)) rt1 of
              (None, rt2) \<Rightarrow> (False, rt2)
            | (Some _, rt2) \<Rightarrow> (True, rt2))))"

definition answer_pass :: "int \<Rightarrow> string \<Rightarrow> string + jsrecord option \<Rightarrow> pinout_runtime \<Rightarrow> pinout_runtime" where
  "answer_pass wall i res rt =
    (case rt_pass rt of
      None \<Rightarrow> rt
    | Some ws \<Rightarrow>
        if jhas ws i
        then (case report_safe wall i res rt of
            (rejected, rt1) \<Rightarrow> rt1\<lparr>rt_pass := Some (jdelete i ws), rt_chainFailed := rt_chainFailed rt1 \<or> rejected\<rparr>)
        else rt)"

lemma emit_shape: "\<exists>em. snd (emit_runtime e rt) = rt\<lparr>rt_emitted := em\<rparr>"
  by (simp add: emit_runtime_def split: list.split) blast

lemma report_shape: "\<exists>em. snd (report_safe w i res rt) = rt\<lparr>rt_emitted := em\<rparr>"
proof -
  obtain em where 1: "snd (emit_runtime (safe_event w i res) rt) = rt\<lparr>rt_emitted := em\<rparr>"
    using emit_shape by blast
  obtain em2 where 2: "snd (emit_runtime (safe_event w i (Inl m)) (rt\<lparr>rt_emitted := em\<rparr>)) = rt\<lparr>rt_emitted := em2 m\<rparr>" for m
    using emit_shape[of "safe_event w i (Inl _)" "rt\<lparr>rt_emitted := em\<rparr>"] by (simp add: choice_iff[symmetric]) metis
  show ?thesis
  proof (cases "emit_runtime (safe_event w i res) rt")
    case (Pair t rt1)
    then have rt1: "rt1 = rt\<lparr>rt_emitted := em\<rparr>"
      using 1 by simp
    show ?thesis
      using Pair rt1 2 by (auto simp: report_safe_def split: option.split sum.split prod.split) (metis snd_conv)+
  qed
qed

lemma answer_fields [simp]:
  "rt_queued (answer_pass w i r rt) = rt_queued rt" "rt_safe_calls (answer_pass w i r rt) = rt_safe_calls rt"
  "rt_devices (answer_pass w i r rt) = rt_devices rt" "rt_gov (answer_pass w i r rt) = rt_gov rt"
  "rt_store (answer_pass w i r rt) = rt_store rt" "rt_journal (answer_pass w i r rt) = rt_journal rt"
  "rt_open (answer_pass w i r rt) = rt_open rt" "rt_forwards (answer_pass w i r rt) = rt_forwards rt"
  "rt_handlers (answer_pass w i r rt) = rt_handlers rt" "rt_throws (answer_pass w i r rt) = rt_throws rt"
proof -
  obtain em where "snd (report_safe w i r rt) = rt\<lparr>rt_emitted := em\<rparr>"
    using report_shape by blast
  then show "rt_queued (answer_pass w i r rt) = rt_queued rt" "rt_safe_calls (answer_pass w i r rt) = rt_safe_calls rt"
    "rt_devices (answer_pass w i r rt) = rt_devices rt" "rt_gov (answer_pass w i r rt) = rt_gov rt"
    "rt_store (answer_pass w i r rt) = rt_store rt" "rt_journal (answer_pass w i r rt) = rt_journal rt"
    "rt_open (answer_pass w i r rt) = rt_open rt" "rt_forwards (answer_pass w i r rt) = rt_forwards rt"
    "rt_handlers (answer_pass w i r rt) = rt_handlers rt" "rt_throws (answer_pass w i r rt) = rt_throws rt"
    by (simp_all add: answer_pass_def case_prod_unfold split: option.split)
qed

definition end_pass :: "pinout_runtime \<Rightarrow> pinout_runtime" where
  "end_pass rt = (if rt_pass rt = Some [] then rt\<lparr>rt_pass := None\<rparr> else rt)"

text \<open>
  \<open>close\<close> unregisters the devices one by one and then stops listening to the coordinator. A backend
  whose close fails (\<open>ok\<close>) ends it there: the answer is \<open>False\<close>.
\<close>

fun close_devices :: "(string \<Rightarrow> bool) \<Rightarrow> string list \<Rightarrow> int \<Rightarrow> pinout_runtime \<Rightarrow> bool \<times> pinout_runtime" where
  "close_devices ok [] wall rt = (True, rt)"
| "close_devices ok (i # is) wall rt =
    (case begin_unregister i rt of
      Inl e \<Rightarrow> (False, rt)
    | Inr (nc, rt1) \<Rightarrow>
        (let rt2 = end_unregister i nc wall rt1
         in if snd nc \<and> \<not> ok i then (False, rt2) else close_devices ok is wall rt2))"

definition close_runtime :: "(string \<Rightarrow> bool) \<Rightarrow> int \<Rightarrow> pinout_runtime \<Rightarrow> bool \<times> pinout_runtime" where
  "close_runtime ok wall rt =
    (case close_devices ok (map fst (rt_devices rt)) wall rt of
      (True, rt1) \<Rightarrow> (True, rt1\<lparr>rt_gov := unsubscribeHalt (rt_gov rt1)\<rparr>)
    | (False, rt1) \<Rightarrow> (False, rt1))"

subsection \<open>Histories\<close>

text \<open>
  Calls in any order; the continuation of an \<open>unregister\<close> runs only for a device that is closing.
\<close>

datatype runtime_call =
    RInvoke reading string string jsval invoke_options
  | RFinish reading nat nat "thrown + jsval"
  | REvent reading nat string jsrecord
  | RRegister nat device_instance
  | RRegisterModule module_definition register_options "capability_descriptor list option" nat int
  | RBeginUnregister string
  | REndUnregister string "nat \<times> bool" int
  | RHalt halt_call
  | RBeginPass
  | RAnswerPass int string "string + jsrecord option"
  | REndPass
  | RConfigure "halt_coordinator option" "safety_engine option" "invocation_kind journal option"

definition kept :: "'e + pinout_runtime \<Rightarrow> pinout_runtime \<Rightarrow> pinout_runtime" where
  "kept r rt = (case r of Inl _ \<Rightarrow> rt | Inr rt' \<Rightarrow> rt')"

fun runtime_apply ::
  "(jsnum \<Rightarrow> string) \<Rightarrow> (runtime_error \<Rightarrow> string) \<Rightarrow> runtime_call \<Rightarrow> pinout_runtime \<Rightarrow> pinout_runtime" where
  "runtime_apply nt mt (RInvoke rd i c input opts) rt = snd (runtime_begin nt mt rd i c input opts rt)"
| "runtime_apply nt mt (RFinish rd n k out) rt = snd (runtime_finish nt mt rd n k out rt)"
| "runtime_apply nt mt (REvent rd n e p) rt = update_device n (backend_event nt rd e p) rt"
| "runtime_apply nt mt (RRegister fwd d) rt = kept (register_device fwd d rt) rt"
| "runtime_apply nt mt (RRegisterModule md o' pr fwd wall) rt = kept (registerModuleDevice md o' pr fwd wall rt) rt"
| "runtime_apply nt mt (RBeginUnregister i) rt = kept (map_sum id snd (begin_unregister i rt)) rt"
| "runtime_apply nt mt (REndUnregister i nc wall) rt =
    (if fst nc < length (rt_store rt) \<and> di_closing (rt_store rt ! fst nc) then end_unregister i nc wall rt else rt)"
| "runtime_apply nt mt (RHalt c) rt = runtime_halt c rt"
| "runtime_apply nt mt RBeginPass rt = begin_pass rt"
| "runtime_apply nt mt (RAnswerPass wall i res) rt = answer_pass wall i res rt"
| "runtime_apply nt mt REndPass rt = end_pass rt"
| "runtime_apply nt mt (RConfigure h s j) rt = configureGovernance h s j rt"

definition runtime_run ::
  "(jsnum \<Rightarrow> string) \<Rightarrow> (runtime_error \<Rightarrow> string) \<Rightarrow> runtime_call list \<Rightarrow> pinout_runtime \<Rightarrow> pinout_runtime" where
  "runtime_run nt mt cs rt = fold (runtime_apply nt mt) cs rt"

lemma runtime_run_simps [simp]:
  "runtime_run nt mt [] rt = rt"
  "runtime_run nt mt (c # cs) rt = runtime_run nt mt cs (runtime_apply nt mt c rt)"
  by (simp_all add: runtime_run_def)

lemma runtime_run_invariant:
  assumes "P rt" "\<And>c rt. c \<in> set cs \<Longrightarrow> P rt \<Longrightarrow> P (runtime_apply nt mt c rt)"
  shows "P (runtime_run nt mt cs rt)"
  using assms by (induction cs arbitrary: rt) auto

text \<open>A call as the device objects see it: each takes one step of its own or none.\<close>

inductive object_step ::
  "(jsnum \<Rightarrow> string) \<Rightarrow> governance \<Rightarrow> device_instance \<Rightarrow> device_instance \<Rightarrow> bool" for nt gv where
  stay: "object_step nt gv d d"
| step: "device_step nt l (gv, d) (gv', d') \<Longrightarrow> object_step nt gv d d'"

lemma journal_fields [simp]:
  "rt_gov (journal_request nt t i c input opts rt) = rt_gov rt"
  "rt_store (journal_request nt t i c input opts rt) = rt_store rt"
  "rt_devices (journal_request nt t i c input opts rt) = rt_devices rt"
  "rt_open (journal_request nt t i c input opts rt) = rt_open rt"
  "rt_gov (journal_outcome nt mt t i c dry ans rt) = rt_gov rt"
  "rt_store (journal_outcome nt mt t i c dry ans rt) = rt_store rt"
  "rt_devices (journal_outcome nt mt t i c dry ans rt) = rt_devices rt"
  "rt_open (journal_outcome nt mt t i c dry ans rt) = rt_open rt"
  "getDevice (journal_request nt t i c input opts rt) = getDevice rt"
  by (auto simp: journal_request_def journal_outcome_def getDevice_def fun_eq_iff)

text \<open>The device map points into the store.\<close>

definition wf_runtime :: "pinout_runtime \<Rightarrow> bool" where
  "wf_runtime rt \<longleftrightarrow> (\<forall>i n. jget (rt_devices rt) i = Some n \<longrightarrow> n < length (rt_store rt))"

lemma wf_getDevice: "wf_runtime rt \<Longrightarrow> getDevice rt i = Inr n \<Longrightarrow> n < length (rt_store rt)"
  by (auto simp: wf_runtime_def getDevice_def split: option.splits)

lemma update_device_fields [simp]:
  "rt_gov (update_device n f rt) = rt_gov rt" "rt_devices (update_device n f rt) = rt_devices rt"
  "length (rt_store (update_device n f rt)) = length (rt_store rt)" "rt_open (update_device n f rt) = rt_open rt"
  "rt_journal (update_device n f rt) = rt_journal rt" "rt_queued (update_device n f rt) = rt_queued rt"
  "rt_pass (update_device n f rt) = rt_pass rt" "rt_safe_calls (update_device n f rt) = rt_safe_calls rt"
  "rt_forwards (update_device n f rt) = rt_forwards rt"
  by (simp_all add: update_device_def)

lemma update_device_nth:
  "m < length (rt_store rt) \<Longrightarrow>
    rt_store (update_device n f rt) ! m = (if m = n then f (rt_store rt ! m) else rt_store rt ! m)"
  by (auto simp: update_device_def)

lemma runtime_begin_shape:
  assumes "runtime_begin nt mt rd i c input opts rt = (ans, rt')" "wf_runtime rt"
  shows "(\<exists>e. getDevice rt i = Inl e \<and> rt_store rt' = rt_store rt \<and> rt_gov rt' = rt_gov rt \<and>
      rt_open rt' = rt_open rt \<and> ans = Some (Inl e)) \<or>
    (\<exists>n b gv d. getDevice rt i = Inr n \<and> n < length (rt_store rt) \<and>
      begin_invoke nt rd c input opts (rt_gov rt) (rt_store rt ! n) = (b, gv, d) \<and>
      rt_store rt' = (rt_store rt)[n := d] \<and> rt_gov rt' = gv \<and>
      (case b of
        Started k \<Rightarrow> ans = None \<and>
          rt_open rt' = rt_open rt @ [\<lparr>oi_device = i, oi_object = n, oi_id = k, oi_capability = c\<rparr>]
      | Refused e \<Rightarrow> ans = Some (Inl (DeviceRaised e)) \<and> rt_open rt' = rt_open rt
      | DryRun p st \<Rightarrow> (\<exists>r. ans = Some (Inr r)) \<and> rt_open rt' = rt_open rt))"
  using assms wf_getDevice[OF assms(2), of i]
  by (auto simp: runtime_begin_def Let_def split: sum.splits prod.splits begun.splits)

lemma runtime_finish_shape:
  assumes "runtime_finish nt mt rd n k out rt = (ans, rt')"
  shows "rt' = rt \<or>
    (\<exists>oi a gv d. find (\<lambda>o'. oi_object o' = n \<and> oi_id o' = k) (rt_open rt) = Some oi \<and>
      finish_invoke nt rd k out (rt_gov rt) (rt_store rt ! n) = (Some a, gv, d) \<and>
      rt_store rt' = (rt_store rt)[n := d] \<and> rt_gov rt' = gv \<and>
      rt_open rt' = filter (\<lambda>o'. \<not> (oi_object o' = n \<and> oi_id o' = k)) (rt_open rt))"
proof -
  obtain a gv d where f: "finish_invoke nt rd k out (rt_gov rt) (rt_store rt ! n) = (a, gv, d)"
    by (metis prod_cases3)
  show ?thesis
    using assms by (cases a) (auto simp: runtime_finish_def f Let_def split: option.splits)
qed

lemma end_unregister_nth:
  "m < length (rt_store rt) \<Longrightarrow>
    rt_store (end_unregister i nc w rt) ! m =
      (if m \<noteq> fst nc then rt_store rt ! m
       else (case jget (rt_forwards rt) i of None \<Rightarrow> id | Some h \<Rightarrow> unsubscribeRuntimeEvents h)
         ((if snd nc then end_close w else id) (rt_store rt ! m)))"
  by (simp add: end_unregister_def Let_def update_device_nth split: option.split)

lemma end_unregister_fields [simp]:
  "rt_gov (end_unregister i nc w rt) = rt_gov rt"
  "length (rt_store (end_unregister i nc w rt)) = length (rt_store rt)"
  "rt_open (end_unregister i nc w rt) = rt_open rt"
  "rt_journal (end_unregister i nc w rt) = rt_journal rt"
  "rt_queued (end_unregister i nc w rt) = rt_queued rt" "rt_pass (end_unregister i nc w rt) = rt_pass rt"
  "rt_safe_calls (end_unregister i nc w rt) = rt_safe_calls rt"
  by (simp_all add: end_unregister_def Let_def split: option.split)

lemma runtime_begin_devices [simp]:
  "rt_devices (snd (runtime_begin nt mt rd i c input opts rt)) = rt_devices rt"
  by (simp add: runtime_begin_def Let_def split: sum.split prod.split begun.split)

lemma runtime_finish_devices [simp]:
  "rt_devices (snd (runtime_finish nt mt rd n k out rt)) = rt_devices rt"
  "length (rt_store (snd (runtime_finish nt mt rd n k out rt))) = length (rt_store rt)"
  by (simp_all add: runtime_finish_def Let_def split: sum.split prod.split option.split)

lemma wf_apply: "wf_runtime rt \<Longrightarrow> wf_runtime (runtime_apply nt mt c rt)"
proof (cases c)
  case (RInvoke rd i cap input opts)
  assume wf: "wf_runtime rt"
  have "length (rt_store (snd (runtime_begin nt mt rd i cap input opts rt))) = length (rt_store rt)"
    by (simp add: runtime_begin_def Let_def split: sum.split prod.split begun.split)
  then show ?thesis
    using wf RInvoke by (simp add: wf_runtime_def)
next
  case (RRegister fwd d)
  assume "wf_runtime rt"
  then show ?thesis
    using RRegister by (fastforce simp: wf_runtime_def register_device_def kept_def jmap_simps split: if_splits)
next
  case (RRegisterModule md o' pr fwd wall)
  assume "wf_runtime rt"
  then show ?thesis
    using RRegisterModule
    by (fastforce simp: wf_runtime_def registerModuleDevice_def register_device_def kept_def jmap_simps Let_def
        split: if_splits prod.splits)
qed (auto simp: wf_runtime_def begin_unregister_def end_unregister_def kept_def jmap_simps runtime_halt_def
    begin_pass_def end_pass_def configureGovernance_def Let_def
    split: sum.splits option.splits if_splits)

lemma wf_run: "wf_runtime rt \<Longrightarrow> wf_runtime (runtime_run nt mt cs rt)"
  by (induction cs arbitrary: rt) (auto intro: wf_apply)

lemma wf_new: "wf_runtime (PinoutRuntime throws h s j)"
  by (simp add: wf_runtime_def PinoutRuntime_def)

text \<open>Every call moves every object by at most two steps (closing and unsubscribing).\<close>

lemma one_step: "object_step nt gv d d' \<Longrightarrow> \<exists>d1. object_step nt gv d d1 \<and> object_step nt gv d1 d'"
  using object_step.stay by blast

lemma update_object:
  "n < length (rt_store rt) \<Longrightarrow> (\<And>d. object_step nt gv d (f d)) \<Longrightarrow>
    object_step nt gv (rt_store rt ! n) (rt_store (update_device m f rt) ! n)"
  by (simp add: update_device_nth object_step.stay)

lemma apply_objects:
  assumes "wf_runtime rt" "n < length (rt_store rt)"
  shows "n < length (rt_store (runtime_apply nt mt c rt)) \<and>
    (\<exists>d1. object_step nt (rt_gov rt) (rt_store rt ! n) d1 \<and>
      object_step nt (rt_gov rt) d1 (rt_store (runtime_apply nt mt c rt) ! n))"
proof (cases c)
  case (RInvoke rd i cap input opts)
  obtain ans rt' where b: "runtime_begin nt mt rd i cap input opts rt = (ans, rt')"
    by fastforce
  have "n < length (rt_store rt') \<and> object_step nt (rt_gov rt) (rt_store rt ! n) (rt_store rt' ! n)"
    using runtime_begin_shape[OF b assms(1)] assms(2)
    by (auto simp: nth_list_update intro: object_step.stay object_step.step[OF device_step.invoke])
  then show ?thesis
    using RInvoke b by (auto intro!: one_step)
next
  case (RFinish rd m k out)
  obtain ans rt' where f: "runtime_finish nt mt rd m k out rt = (ans, rt')"
    by fastforce
  have "object_step nt (rt_gov rt) (rt_store rt ! n) (rt_store rt' ! n)"
    using runtime_finish_shape[OF f] assms(2) object_step.step[OF device_step.finish]
    by (cases "m = n") (auto intro: object_step.stay)
  then show ?thesis
    using RFinish f assms(2) runtime_finish_devices(2)[of nt mt rd m k out rt] by (auto intro!: one_step)
next
  case (REvent rd m e p)
  have "object_step nt (rt_gov rt) (rt_store rt ! n) (rt_store (update_device m (backend_event nt rd e p) rt) ! n)"
    by (rule update_object[OF assms(2)], rule object_step.step, rule device_step.event)
  then show ?thesis
    using REvent assms(2) by (auto intro!: one_step)
next
  case (RBeginUnregister i)
  have "object_step nt (rt_gov rt) (rt_store rt ! n) (rt_store (update_device m begin_close rt) ! n)" for m
    by (rule update_object[OF assms(2)], rule object_step.step, rule device_step.close)
  then show ?thesis
    using RBeginUnregister assms(2) object_step.stay[of nt "rt_gov rt" "rt_store rt ! n"]
    by (cases "getDevice rt i") (auto simp: begin_unregister_def kept_def intro!: one_step)
next
  case (REndUnregister i nc wall)
  have "\<exists>d1. object_step nt (rt_gov rt) (rt_store rt ! n) d1 \<and>
      object_step nt (rt_gov rt) d1 (rt_store (end_unregister i nc wall rt) ! n)"
    if "fst nc < length (rt_store rt)" "di_closing (rt_store rt ! fst nc)"
  proof (intro exI conjI)
    show "object_step nt (rt_gov rt) (rt_store rt ! n)
        (if n = fst nc \<and> snd nc then end_close wall (rt_store rt ! n) else rt_store rt ! n)"
      using that object_step.step[OF device_step.closed] by (auto intro: object_step.stay)
    show "object_step nt (rt_gov rt) (if n = fst nc \<and> snd nc then end_close wall (rt_store rt ! n) else rt_store rt ! n)
        (rt_store (end_unregister i nc wall rt) ! n)"
      using assms(2) object_step.step[OF device_step.unsubscribe]
      by (auto simp: end_unregister_nth split: option.split intro: object_step.stay)
  qed
  then show ?thesis
    using REndUnregister assms(2) object_step.stay[of nt "rt_gov rt" "rt_store rt ! n"] by (auto intro: one_step)
next
  case (RRegister fwd d)
  then show ?thesis
    using assms(2) object_step.stay[of nt "rt_gov rt" "rt_store rt ! n"]
    by (auto simp: register_device_def kept_def nth_append intro!: one_step)
next
  case (RRegisterModule md o' pr fwd wall)
  then show ?thesis
    using assms(2) object_step.stay[of nt "rt_gov rt" "rt_store rt ! n"]
    by (auto simp: registerModuleDevice_def register_device_def kept_def nth_append Let_def split: prod.split
        intro!: one_step)
qed (use assms(2) object_step.stay[of nt "rt_gov rt" "rt_store rt ! n"] in \<open>auto simp: runtime_halt_def begin_pass_def
    end_pass_def configureGovernance_def Let_def split: option.split intro!: one_step\<close>)

lemma run_objects:
  assumes "wf_runtime rt" "n < length (rt_store rt)" "P (rt_store rt ! n)"
    and "\<And>gv l d gv' d'. device_step nt l (gv, d) (gv', d') \<Longrightarrow> P d \<Longrightarrow> P d'"
  shows "n < length (rt_store (runtime_run nt mt cs rt)) \<and> P (rt_store (runtime_run nt mt cs rt) ! n)"
proof -
  have *: "object_step nt gv d d' \<Longrightarrow> P d \<Longrightarrow> P d'" for gv d d'
    by (auto elim!: object_step.cases intro: assms(4))
  show ?thesis
    using assms(1-3)
  proof (induction cs arbitrary: rt)
    case (Cons c cs)
    show ?case
      using Cons.IH[OF wf_apply[OF Cons.prems(1)], of nt mt c] apply_objects[OF Cons.prems(1,2), of nt mt c] Cons.prems(3) *
      by auto
  qed simp
qed

subsection \<open>A halted runtime\<close>

text \<open>The calls that can open a closed gate.\<close>

fun reopening :: "runtime_call \<Rightarrow> bool" where
  "reopening (RHalt c) = (is_Resume c \<or> is_ClearFault c)"
| "reopening (RConfigure (Some h) s j) = True"
| "reopening _ = False"

definition gate_closed :: "governance \<Rightarrow> bool" where
  "gate_closed gv \<longleftrightarrow> (case gv_halt gv of Some h \<Rightarrow> \<not> v_allowed (gate h) | None \<Rightarrow> False)"

lemma gate_closed_refuses: "gate_closed gv \<Longrightarrow> halt_gate gv \<noteq> Inr ()"
  by (auto simp: gate_closed_def halt_gate_def enforceGate_def split: option.splits)

lemma begin_started_gate: "begin_invoke nt rd c input opts gv d = (Started k, gv', d') \<Longrightarrow> halt_gate gv = Inr ()"
  by (auto simp: begin_invoke_def admit_def Let_def split: prod.splits sum.splits if_splits)

lemma begin_dry_only: "begin_invoke nt rd c input \<lparr>io_owner = u, io_dryRun = False\<rparr> gv d \<noteq> (DryRun p st, gv', d')"
  by (auto simp: begin_invoke_def split: prod.splits sum.splits)

lemma begin_halt: "begin_invoke nt rd c input opts gv d = (b, gv', d') \<Longrightarrow> gv_halt gv' = gv_halt gv"
  by (auto simp: begin_invoke_def admit_def engine_pass_def Let_def
      split: prod.splits sum.splits if_splits option.splits)

lemma finish_halt: "finish_invoke nt rd i out gv d = (ans, gv', d') \<Longrightarrow> gv_halt gv' = gv_halt gv"
  by (auto simp: finish_invoke_def rollback_on_def Let_def split: prod.splits sum.splits if_splits option.splits)

lemma gate_closed_cong: "gv_halt gv' = gv_halt gv \<Longrightarrow> gate_closed gv' = gate_closed gv"
  by (simp add: gate_closed_def)

lemma begin_gov: "gv_halt (rt_gov (snd (runtime_begin nt mt rd i c input opts rt))) = gv_halt (rt_gov rt)"
proof (cases "getDevice rt i")
  case (Inr n)
  obtain b gv d where b: "begin_invoke nt rd c input opts (rt_gov rt) (rt_store rt ! n) = (b, gv, d)"
    by (metis prod_cases3)
  show ?thesis
    using begin_halt[OF b] by (cases b) (simp_all add: runtime_begin_def Inr b Let_def)
qed (simp add: runtime_begin_def Let_def)

lemma finish_gov: "gv_halt (rt_gov (snd (runtime_finish nt mt rd n k out rt))) = gv_halt (rt_gov rt)"
proof -
  obtain ans rt' where f: "runtime_finish nt mt rd n k out rt = (ans, rt')"
    by fastforce
  show ?thesis
    using runtime_finish_shape[OF f] finish_halt f by auto
qed

lemma gate_closed_apply:
  assumes "gate_closed (rt_gov rt)" "\<not> reopening c"
  shows "gate_closed (rt_gov (runtime_apply nt mt c rt))"
proof (cases c)
  case (RHalt hc)
  then show ?thesis
    using assms closed_gate_apply[of _ hc]
    by (auto simp: gate_closed_def runtime_halt_def Let_def split: option.splits)
next
  case (RConfigure h s j)
  then show ?thesis
    using assms by (cases h) (auto simp: gate_closed_def configureGovernance_def Let_def split: option.splits)
next
  case (RRegisterModule md o' pr fwd wall)
  then show ?thesis
    using assms by (simp add: registerModuleDevice_def register_device_def kept_def Let_def split: prod.split)
qed (use assms gate_closed_cong[OF begin_gov] gate_closed_cong[OF finish_gov] in
    \<open>auto simp: register_device_def kept_def begin_unregister_def end_unregister_def begin_pass_def
      end_pass_def Let_def split: sum.split option.split\<close>)

lemma closed_gate_object:
  assumes "object_step nt gv d d'" "gate_closed gv"
  shows "di_calls d' = di_calls d"
  using assms(1)
proof cases
  case (step l gv')
  show ?thesis
    using device_step_shape[OF step]
  proof (elim disjE exE conjE)
    fix rd i out p ans
    assume "finish_invoke nt rd i out gv d = (ans, gv', d')" "find (\<lambda>p. pi_id p = i) (di_flight d) = Some p"
    then obtain x where "evidence_only (unflown i d) x" "d' = settle_lifecycle (rd_wall rd) x"
      using finish_invoke_shape by blast
    then show ?thesis
      using evidence_only_fields[of "unflown i d" x] by simp
  next
    fix rd c cd payload rv
    assume l: "l = Invoking (Started (di_next d))"
    from step have False
    proof (cases rule: device_step.cases)
      case (invoke rd c input opts b)
      then show ?thesis
        using l begin_started_gate[of nt rd c input opts gv d "di_next d"] gate_closed_refuses[OF assms(2)] by auto
    qed (use l in auto)
    then show ?thesis ..
  qed (auto simp: invocations_of_def begin_close_def end_close_def setLifecycle_def)
qed simp

subsection \<open>Properties\<close>

text \<open>C3: A halted runtime is still. While the gate of the shared coordinator is closed, no sequence of
  calls without a resume, a fault clearing or a new coordinator makes any device, of whichever module and
  whenever registered, call its backend: every invocation that is not a dry run fails, also those of
  devices that are being closed or unknown.\<close>

theorem halted_runtime_is_still:
  assumes "wf_runtime rt" "gate_closed (rt_gov rt)" "\<forall>c\<in>set cs. \<not> reopening c"
  shows "(\<forall>n<length (rt_store rt). di_calls (rt_store (runtime_run nt mt cs rt) ! n) = di_calls (rt_store rt ! n)) \<and>
    (\<exists>e. fst (runtime_begin nt mt rd i c input \<lparr>io_owner = u, io_dryRun = False\<rparr> (runtime_run nt mt cs rt)) =
      Some (Inl e))"
proof -
  have run: "wf_runtime (runtime_run nt mt cs rt) \<and> gate_closed (rt_gov (runtime_run nt mt cs rt)) \<and>
      (\<forall>n<length (rt_store rt). n < length (rt_store (runtime_run nt mt cs rt)) \<and>
        di_calls (rt_store (runtime_run nt mt cs rt) ! n) = di_calls (rt_store rt ! n))"
    using assms
  proof (induction cs arbitrary: rt)
    case (Cons x cs)
    have closed: "gate_closed (rt_gov (runtime_apply nt mt x rt))"
      using Cons.prems by (auto intro: gate_closed_apply)
    have "n < length (rt_store (runtime_apply nt mt x rt)) \<and>
        di_calls (rt_store (runtime_apply nt mt x rt) ! n) = di_calls (rt_store rt ! n)"
      if n: "n < length (rt_store rt)" for n
    proof -
      obtain d1 where "object_step nt (rt_gov rt) (rt_store rt ! n) d1"
        "object_step nt (rt_gov rt) d1 (rt_store (runtime_apply nt mt x rt) ! n)"
        "n < length (rt_store (runtime_apply nt mt x rt))"
        using apply_objects[OF Cons.prems(1) n, of nt mt x] by blast
      then show ?thesis
        using closed_gate_object[OF _ Cons.prems(2)] by metis
    qed
    then show ?case
      using Cons.IH[OF wf_apply[OF Cons.prems(1)] closed] Cons.prems(3) by auto
  qed simp
  let ?rt = "runtime_run nt mt cs rt"
  obtain ans rt' where b: "runtime_begin nt mt rd i c input \<lparr>io_owner = u, io_dryRun = False\<rparr> ?rt = (ans, rt')"
    by fastforce
  have "\<exists>e. ans = Some (Inl e)"
    using runtime_begin_shape[OF b conjunct1[OF run]]
  proof (elim disjE exE conjE)
    fix n bb gv d
    assume bb: "begin_invoke nt rd c input \<lparr>io_owner = u, io_dryRun = False\<rparr> (rt_gov ?rt) (rt_store ?rt ! n) = (bb, gv, d)"
      and "case bb of Refused e \<Rightarrow> ans = Some (Inl (DeviceRaised e)) \<and> rt_open rt' = rt_open ?rt
        | DryRun p st \<Rightarrow> (\<exists>r. ans = Some (Inr r)) \<and> rt_open rt' = rt_open ?rt
        | Started k \<Rightarrow> ans = None \<and>
            rt_open rt' = rt_open ?rt @ [\<lparr>oi_device = i, oi_object = n, oi_id = k, oi_capability = c\<rparr>]"
    moreover have "bb \<noteq> Started k" "bb \<noteq> DryRun p st" for k p st
      using bb run gate_closed_refuses[of "rt_gov ?rt"] begin_started_gate[of nt rd c input _ "rt_gov ?rt"] begin_dry_only
      by blast+
    ultimately show ?thesis
      by (cases bb) (simp, blast, blast)
  qed auto
  with run b show ?thesis
    by simp
qed

subsection \<open>Safe states\<close>

text \<open>Handlers that throw nothing on a failure report; the chain then stays.\<close>

definition takes_failures :: "pinout_runtime \<Rightarrow> bool" where
  "takes_failures rt \<longleftrightarrow> \<not> rt_chainFailed rt \<and>
    (\<forall>h\<in>set (rt_handlers rt). \<forall>e. en_event e = ''device.safe_state_failed'' \<longrightarrow> rt_throws rt h e = None)"

lemma emit_failure:
  "takes_failures rt \<Longrightarrow> fst (emit_runtime (safe_event w i (Inl m)) rt) = None"
proof -
  assume "takes_failures rt"
  then have "dropWhile (\<lambda>h. rt_throws rt h (safe_event w i (Inl m)) = None) (rt_handlers rt) = []"
    by (simp add: takes_failures_def safe_event_def)
  then show ?thesis
    unfolding emit_runtime_def by (simp only: list.case fst_conv Let_def)
qed

lemma answer_keeps_chain: "takes_failures rt \<Longrightarrow> takes_failures (answer_pass w i res rt)"
proof -
  assume t: "takes_failures rt"
  obtain em where 1: "snd (emit_runtime (safe_event w i res) rt) = rt\<lparr>rt_emitted := em\<rparr>"
    using emit_shape by blast
  have "takes_failures (rt\<lparr>rt_emitted := em\<rparr>)"
    using t by (simp add: takes_failures_def)
  then have "fst (emit_runtime (safe_event w i (Inl m)) (rt\<lparr>rt_emitted := em\<rparr>)) = None" for m
    by (rule emit_failure)
  then have "\<not> fst (report_safe w i res rt)"
    using 1 emit_failure[OF t] by (auto simp: report_safe_def split: option.split sum.split prod.split) (metis fst_conv option.distinct(1) snd_conv)+
  moreover obtain em2 where "snd (report_safe w i res rt) = rt\<lparr>rt_emitted := em2\<rparr>"
    using report_shape by blast
  ultimately show ?thesis
    using t by (simp add: takes_failures_def answer_pass_def case_prod_unfold split: option.split)
qed

text \<open>One undisturbed pass: every device answers, in any way. \<open>finish_pass\<close> is the rest of the pass under way.\<close>

definition finish_pass :: "int \<Rightarrow> (string \<Rightarrow> string + jsrecord option) \<Rightarrow> pinout_runtime \<Rightarrow> pinout_runtime" where
  "finish_pass wall res rt =
    (case rt_pass rt of None \<Rightarrow> rt | Some ws \<Rightarrow> end_pass (fold (\<lambda>i. answer_pass wall i (res i)) (map fst ws) rt))"

definition run_pass :: "int \<Rightarrow> (string \<Rightarrow> string + jsrecord option) \<Rightarrow> pinout_runtime \<Rightarrow> pinout_runtime" where
  "run_pass wall res rt = finish_pass wall res (begin_pass rt)"

lemma answer_pass_map: "rt_pass (answer_pass w i r rt) = map_option (jdelete i) (rt_pass rt)"
  by (auto simp: answer_pass_def case_prod_unfold delete_id jhas_iff[symmetric] split: option.split)

lemma answer_all:
  "rt_pass rt = Some ws \<Longrightarrow>
    rt_pass (fold (\<lambda>i. answer_pass w i (res i)) is rt) = Some (filter (\<lambda>p. fst p \<notin> set is) ws)"
  by (induction "is" arbitrary: rt ws) (auto simp: answer_pass_map AList.delete_eq filter_filter intro: filter_cong)

lemma answer_all_fields:
  "rt_queued (fold (\<lambda>i. answer_pass w i (res i)) is rt) = rt_queued rt \<and>
   rt_safe_calls (fold (\<lambda>i. answer_pass w i (res i)) is rt) = rt_safe_calls rt \<and>
   rt_devices (fold (\<lambda>i. answer_pass w i (res i)) is rt) = rt_devices rt \<and>
   rt_gov (fold (\<lambda>i. answer_pass w i (res i)) is rt) = rt_gov rt"
  by (induction "is" arbitrary: rt) simp_all

lemma answer_all_chain: "takes_failures rt \<Longrightarrow> takes_failures (fold (\<lambda>i. answer_pass w i (res i)) is rt)"
  by (induction "is" arbitrary: rt) (simp_all add: answer_keeps_chain)

lemma finish_pass_effect:
  assumes "takes_failures rt"
  shows "rt_pass (finish_pass w res rt) = None \<and> rt_queued (finish_pass w res rt) = rt_queued rt \<and>
    rt_devices (finish_pass w res rt) = rt_devices rt \<and> rt_gov (finish_pass w res rt) = rt_gov rt \<and>
    rt_safe_calls (finish_pass w res rt) = rt_safe_calls rt \<and> takes_failures (finish_pass w res rt)"
proof (cases "rt_pass rt")
  case (Some ws)
  have "filter (\<lambda>p. fst p \<notin> fst ` set ds) ds = []" for ds :: "(string \<times> nat) list"
    by (simp add: filter_empty_conv)
  then have "rt_pass (fold (\<lambda>i. answer_pass w i (res i)) (map fst ws) rt) = Some []"
    using answer_all[OF Some, of w res "map fst ws"] by simp
  then show ?thesis
    using Some answer_all_fields[of w res "map fst ws" rt] answer_all_chain[OF assms, of w res "map fst ws"]
    by (simp add: finish_pass_def end_pass_def takes_failures_def)
qed (use assms in \<open>simp add: finish_pass_def\<close>)

lemma run_pass_effect:
  assumes "rt_pass rt = None" "takes_failures rt"
  shows "rt_pass (run_pass w res rt) = None \<and> rt_queued (run_pass w res rt) = rt_queued rt - 1 \<and>
    rt_devices (run_pass w res rt) = rt_devices rt \<and> rt_gov (run_pass w res rt) = rt_gov rt \<and>
    rt_safe_calls (run_pass w res rt) = rt_safe_calls rt @ (if rt_queued rt = 0 then [] else rt_devices rt) \<and>
    takes_failures (run_pass w res rt)"
proof -
  have "takes_failures (begin_pass rt)"
    using assms(2) by (simp add: takes_failures_def begin_pass_def)
  from finish_pass_effect[OF this, of w res] show ?thesis
    using assms by (simp add: run_pass_def begin_pass_def takes_failures_def)
qed

lemma run_passes_effect:
  "rt_pass rt = None \<Longrightarrow> takes_failures rt \<Longrightarrow> n \<le> rt_queued rt \<Longrightarrow>
    rt_pass ((run_pass w res ^^ n) rt) = None \<and> rt_queued ((run_pass w res ^^ n) rt) = rt_queued rt - n \<and>
    rt_devices ((run_pass w res ^^ n) rt) = rt_devices rt \<and> rt_gov ((run_pass w res ^^ n) rt) = rt_gov rt \<and>
    rt_safe_calls ((run_pass w res ^^ n) rt) = rt_safe_calls rt @ concat (replicate n (rt_devices rt)) \<and>
    takes_failures ((run_pass w res ^^ n) rt)"
proof (induction n)
  case (Suc n)
  have app: "concat (replicate n ds) @ ds = ds @ concat (replicate n ds)" for ds :: "(string \<times> nat) list"
    by (induction n) simp_all
  show ?case
    using Suc run_pass_effect[of "(run_pass w res ^^ n) rt" w res] by (simp add: app)
qed simp

text \<open>The changes one call of the coordinator delivers to the runtime.\<close>

lemma halting_asks:
  assumes "RUNTIME_LISTENER \<in> set (listeners h)" "distinct (listeners h)"
    and "currentState h \<noteq> to \<or> currentReason h \<noteq> r" "to = HALTED \<or> to = ESTOP_REQUESTED"
  shows "length (filter asks_safe_state (drop (length (deliveries h)) (deliveries (transition_halt to r a t h)))) = 1"
proof -
  have "x \<in> set xs \<Longrightarrow> distinct xs \<Longrightarrow> length (filter (\<lambda>l. l = x) xs) = 1" for x and xs :: "nat list"
    by (induction xs) (auto simp: filter_empty_conv)
  from this[OF assms(1,2)] have "length (filter (\<lambda>l. l = RUNTIME_LISTENER) (listeners h)) = 1" .
  then show ?thesis
    using assms(3,4) by (auto simp: transition_halt_def asks_safe_state_def Let_def filter_map comp_def)
qed

text \<open>C28: A halt reaches every device, if the devices answer and the handlers bear bad news. When the runtime listens to its
  coordinator, the chain of passes was not rejected and no event handler throws on a failure report, a halt or an
  emergency stop that changes the state or the reason closes the gate and queues one more pass. Once every device of the
  pass under way and of the queued ones has answered or failed, in any way, the safe state of every registered device has
  been requested once for each queued pass, and nothing is left in the queue.\<close>

theorem halt_reaches_every_device:
  assumes "gv_halt (rt_gov rt) = Some h" "RUNTIME_LISTENER \<in> set (listeners h)" "distinct (listeners h)"
    and "takes_failures rt" "c = Halt r a t \<and> to = HALTED \<or> c = RequestEstop r a t \<and> to = ESTOP_REQUESTED"
    and "currentState h \<noteq> to \<or> currentReason h \<noteq> r"
    and "rt1 = runtime_halt c rt" "rt2 = (run_pass w res ^^ rt_queued rt1) (finish_pass w res rt1)"
  shows "gate_closed (rt_gov rt1) \<and> rt_queued rt1 = Suc (rt_queued rt) \<and> rt_queued rt2 = 0 \<and> rt_pass rt2 = None \<and>
    gate_closed (rt_gov rt2) \<and>
    rt_safe_calls rt2 = rt_safe_calls rt @ concat (replicate (Suc (rt_queued rt)) (rt_devices rt))"
proof -
  have q: "rt_queued rt1 = Suc (rt_queued rt)"
    using assms(1,5,7) halting_asks[OF assms(2,3), of HALTED r a t] assms(6)
      halting_asks[of "h\<lparr>estopRequested := True\<rparr>" ESTOP_REQUESTED r a t] assms(2,3)
    by (auto simp: runtime_halt_def halt_def requestEstop_def Let_def)
  have rt1: "takes_failures rt1" "rt_devices rt1 = rt_devices rt" "rt_safe_calls rt1 = rt_safe_calls rt"
    and g: "gate_closed (rt_gov rt1)"
    using assms(1,4,5,7)
    by (auto simp: runtime_halt_def Let_def gate_closed_def gate_allowed halt_def requestEstop_def takes_failures_def)
  note fin = finish_pass_effect[OF rt1(1), of w res]
  show ?thesis
    using run_passes_effect[of "finish_pass w res rt1" "rt_queued rt1" w res] fin rt1 q g assms(8) by simp
qed

lemma pass_invocations [simp]:
  "rt_pass (snd (runtime_begin nt mt rd i c input opts rt)) = rt_pass rt"
  "rt_safe_calls (snd (runtime_begin nt mt rd i c input opts rt)) = rt_safe_calls rt"
  "rt_chainFailed (snd (runtime_begin nt mt rd i c input opts rt)) = rt_chainFailed rt"
  "rt_chainFailed (snd (runtime_finish nt mt rd n k out rt)) = rt_chainFailed rt"
  "rt_pass (snd (runtime_finish nt mt rd n k out rt)) = rt_pass rt"
  "rt_safe_calls (snd (runtime_finish nt mt rd n k out rt)) = rt_safe_calls rt"
  by (simp_all add: runtime_begin_def runtime_finish_def journal_request_def journal_outcome_def Let_def
      split: sum.split prod.split begun.split option.split)

lemma pass_untouched:
  assumes "rt_pass rt = Some ws" "jhas ws i" "\<nexists>w j r. c = RAnswerPass w j r"
  shows "rt_safe_calls (runtime_apply nt mt c rt) = rt_safe_calls rt \<and> rt_pass (runtime_apply nt mt c rt) = rt_pass rt"
proof (cases c)
  case (RRegisterModule md o' pr fwd wall)
  then show ?thesis
    by (simp add: registerModuleDevice_def register_device_def kept_def Let_def split: prod.split)
qed (use assms in \<open>auto simp: register_device_def kept_def begin_unregister_def runtime_halt_def begin_pass_def
    end_pass_def configureGovernance_def Let_def split: sum.split option.split\<close>)

text \<open>A handler that throws on a failure report puts an end to all safe states: after it threw once, no call of any kind,
  further emergency stops included, has a device asked for its safe state again.\<close>

lemma answer_chain: "rt_chainFailed rt \<Longrightarrow> rt_chainFailed (answer_pass w i r rt)"
proof -
  obtain em where "snd (report_safe w i r rt) = rt\<lparr>rt_emitted := em\<rparr>"
    using report_shape by blast
  then show "rt_chainFailed rt \<Longrightarrow> ?thesis"
    by (simp add: answer_pass_def case_prod_unfold split: option.split)
qed

lemma update_device_chain: "rt_chainFailed (update_device n f rt) = rt_chainFailed rt"
  by (simp add: update_device_def case_prod_unfold Let_def)

lemma failed_chain_apply:
  assumes "rt_chainFailed rt"
  shows "rt_safe_calls (runtime_apply nt mt c rt) = rt_safe_calls rt \<and> rt_chainFailed (runtime_apply nt mt c rt)"
proof (cases c)
  case (RRegisterModule md o' pr fwd wall)
  then show ?thesis
    using assms by (simp add: registerModuleDevice_def register_device_def kept_def Let_def split: prod.split)
qed (use assms answer_chain in \<open>auto simp: update_device_chain register_device_def kept_def begin_unregister_def end_unregister_def runtime_halt_def
    begin_pass_def end_pass_def configureGovernance_def Let_def split: sum.split option.split\<close>)

theorem throwing_handler_disables_safe_states:
  assumes "rt_pass rt = Some ws" "jhas ws i" "h \<in> set (rt_handlers rt)"
    and "rt_throws rt h (safe_event wall i (Inl m)) \<noteq> None"
  shows "rt_safe_calls (runtime_run nt mt cs (answer_pass wall i (Inl m) rt)) = rt_safe_calls rt"
proof -
  have "dropWhile (\<lambda>h. rt_throws rt h (safe_event wall i (Inl m)) = None) (rt_handlers rt) \<noteq> []"
    using assms(3,4) by (auto simp: dropWhile_eq_Nil_conv)
  moreover from this obtain x xs where x: "dropWhile (\<lambda>h. rt_throws rt h (safe_event wall i (Inl m)) = None) (rt_handlers rt) = x # xs"
    by (cases "dropWhile (\<lambda>h. rt_throws rt h (safe_event wall i (Inl m)) = None) (rt_handlers rt)") auto
  ultimately have "rt_throws rt x (safe_event wall i (Inl m)) \<noteq> None"
    using hd_dropWhile[of "\<lambda>h. rt_throws rt h (safe_event wall i (Inl m)) = None" "rt_handlers rt"] by simp
  then have "fst (report_safe wall i (Inl m) rt)"
    using x by (auto simp: report_safe_def emit_runtime_def)
  then have "rt_chainFailed (answer_pass wall i (Inl m) rt)"
    using assms(1,2) by (simp add: answer_pass_def case_prod_unfold)
  moreover have "rt_chainFailed rt0 \<Longrightarrow> rt_safe_calls (runtime_run nt mt cs rt0) = rt_safe_calls rt0" for rt0
    by (induction cs arbitrary: rt0) (simp_all add: failed_chain_apply)
  ultimately show ?thesis
    by simp
qed

text \<open>C29: One device that never answers keeps every other device from a safe state. While the pass under
  way waits for some device, no call of any kind (further emergency stops included) lets another pass
  begin, so no device is asked for its safe state again.\<close>

theorem hung_safe_state_blocks:
  assumes "rt_pass rt = Some ws" "jhas ws i" "\<forall>w r. RAnswerPass w i r \<notin> set cs"
  shows "rt_safe_calls (runtime_run nt mt cs rt) = rt_safe_calls rt \<and>
    (\<exists>ws'. rt_pass (runtime_run nt mt cs rt) = Some ws' \<and> jhas ws' i)"
  using assms
proof (induction cs arbitrary: rt ws)
  case (Cons c cs)
  have "rt_safe_calls (runtime_apply nt mt c rt) = rt_safe_calls rt \<and>
      (\<exists>ws'. rt_pass (runtime_apply nt mt c rt) = Some ws' \<and> jhas ws' i)"
  proof (cases "\<exists>w j r. c = RAnswerPass w j r")
    case True
    then obtain w j r where c: "c = RAnswerPass w j r"
      by blast
    have "j \<noteq> i"
      using Cons.prems(3) c by auto
    then show ?thesis
      using Cons.prems(1,2) c by (simp add: answer_pass_map jmap_simps)
  next
    case False
    have "rt_safe_calls (runtime_apply nt mt c rt) = rt_safe_calls rt \<and>
        rt_pass (runtime_apply nt mt c rt) = rt_pass rt"
      using Cons.prems(1,2) False pass_untouched[where c = c and rt = rt] by simp
    then show ?thesis
      using Cons.prems(1,2) by simp
  qed
  then show ?case
    using Cons.IH[of "runtime_apply nt mt c rt"] Cons.prems(3) by auto
qed simp

subsection \<open>The journal\<close>

definition journal_count :: "invocation_kind \<Rightarrow> pinout_runtime \<Rightarrow> nat" where
  "journal_count k rt = length (filter (\<lambda>e. je_kind e = k) (jn_storage (rt_journal rt)))"

lemma journal_count_append:
  "length (filter (\<lambda>e. je_kind e = k) (jn_storage (snd (journal_append nt kind dev op p t j)))) =
    length (filter (\<lambda>e. je_kind e = k) (jn_storage j)) + (if kind = k then 1 else 0)"
  by (simp add: journal_append_def Let_def)

lemma journal_count_request [simp]:
  "journal_count k (journal_request nt t i c input opts rt) = journal_count k rt + (if k = InvocationRequested then 1 else 0)"
  by (simp add: journal_count_def journal_request_def journal_count_append)

lemma journal_count_outcome [simp]:
  "journal_count k (journal_outcome nt mt t i c dry ans rt) = journal_count k rt +
    (if k = (case ans of Inl _ \<Rightarrow> InvocationFailed | Inr _ \<Rightarrow> InvocationCompleted) then 1 else 0)"
  by (simp add: journal_count_def journal_outcome_def journal_count_append split: sum.split)

lemma journal_count_same: "rt_journal rt' = rt_journal rt \<Longrightarrow> journal_count k rt' = journal_count k rt"
  by (simp add: journal_count_def)

lemma journal_count_updates [simp]:
  "journal_count k (rt\<lparr>rt_gov := g, rt_store := st\<rparr>) = journal_count k rt"
  "journal_count k (rt\<lparr>rt_gov := g, rt_store := st, rt_open := os\<rparr>) = journal_count k rt"
  by (simp_all add: journal_count_def)

text \<open>The open invocations are distinct, and younger ones get larger numbers.\<close>

definition journaled :: "pinout_runtime \<Rightarrow> bool" where
  "journaled rt \<longleftrightarrow>
    distinct (map (\<lambda>o'. (oi_object o', oi_id o')) (rt_open rt)) \<and>
    (\<forall>o'\<in>set (rt_open rt). oi_object o' < length (rt_store rt) \<and> oi_id o' < di_next (rt_store rt ! oi_object o')) \<and>
    journal_count InvocationRequested rt =
      journal_count InvocationCompleted rt + journal_count InvocationFailed rt + length (rt_open rt)"

lemma object_step_next: "object_step nt gv d d' \<Longrightarrow> di_next d \<le> di_next d'"
proof (induction rule: object_step.induct)
  case (step l d gv' d')
  show ?case
    using device_step_static(3)[OF step] .
qed simp

lemma apply_next:
  assumes "wf_runtime rt" "n < length (rt_store rt)"
  shows "n < length (rt_store (runtime_apply nt mt c rt)) \<and>
    di_next (rt_store rt ! n) \<le> di_next (rt_store (runtime_apply nt mt c rt) ! n)"
  using apply_objects[OF assms, of nt mt c] object_step_next by (meson order_trans)

lemma journaled_frame:
  assumes "journaled rt" "wf_runtime rt" "rt' = runtime_apply nt mt c rt" "rt_open rt' = rt_open rt" "rt_journal rt' = rt_journal rt"
  shows "journaled rt'"
proof -
  have "oi_object o' < length (rt_store rt') \<and> oi_id o' < di_next (rt_store rt' ! oi_object o')"
    if "o' \<in> set (rt_open rt)" for o'
    using apply_next[OF assms(2), of "oi_object o'" nt mt c] that assms(1,3) by (fastforce simp: journaled_def)
  then show ?thesis
    using assms(1,4) journal_count_same[OF assms(5)] by (auto simp: journaled_def)
qed

lemma find_filter_length:
  "distinct (map (\<lambda>o'. (oi_object o', oi_id o')) os) \<Longrightarrow>
    find (\<lambda>o'. oi_object o' = n \<and> oi_id o' = k) os = Some oi \<Longrightarrow>
    Suc (length (filter (\<lambda>o'. \<not> (oi_object o' = n \<and> oi_id o' = k)) os)) = length os"
proof (induction os)
  case (Cons q os)
  show ?case
  proof (cases "oi_object q = n \<and> oi_id q = k")
    case True
    with Cons.prems(1) have "filter (\<lambda>o'. \<not> (oi_object o' = n \<and> oi_id o' = k)) os = os"
      by (auto simp: filter_id_conv image_iff)
    with True show ?thesis by simp
  qed (use Cons in auto)
qed simp

lemma begin_started_next: "begin_invoke nt rd c input opts gv d = (Started k, gv', d') \<Longrightarrow> k = di_next d \<and> di_next d' = Suc k"
  by (auto simp: begin_invoke_def split: prod.splits sum.splits if_splits)

lemma journaled_begin:
  assumes "journaled rt" "wf_runtime rt"
  shows "journaled (snd (runtime_begin nt mt rd i c input opts rt))"
proof -
  obtain ans rt' where b: "runtime_begin nt mt rd i c input opts rt = (ans, rt')"
    by fastforce
  have rt': "rt' = runtime_apply nt mt (RInvoke rd i c input opts) rt"
    by (simp add: b)
  have old: "oi_object o' < length (rt_store rt') \<and> oi_id o' < di_next (rt_store rt' ! oi_object o')"
    if "o' \<in> set (rt_open rt)" for o'
    using apply_next[OF assms(2), of "oi_object o'" nt mt "RInvoke rd i c input opts"] that assms(1) rt'
    by (fastforce simp: journaled_def)
  have count: "journal_count k rt' = journal_count k rt + (if k = InvocationRequested then 1 else 0) +
      (case ans of None \<Rightarrow> 0 | Some a \<Rightarrow> if k = (case a of Inl _ \<Rightarrow> InvocationFailed | Inr _ \<Rightarrow> InvocationCompleted) then 1 else 0)"
    for k
    using b by (auto simp: runtime_begin_def Let_def split: sum.splits prod.splits begun.splits)
  show ?thesis
    using runtime_begin_shape[OF b assms(2)]
  proof (elim disjE exE conjE)
    fix n bb gv d
    assume n: "n < length (rt_store rt)" "begin_invoke nt rd c input opts (rt_gov rt) (rt_store rt ! n) = (bb, gv, d)"
      and st: "rt_store rt' = (rt_store rt)[n := d]"
      and c: "case bb of Refused e \<Rightarrow> ans = Some (Inl (DeviceRaised e)) \<and> rt_open rt' = rt_open rt
        | DryRun p st \<Rightarrow> (\<exists>r. ans = Some (Inr r)) \<and> rt_open rt' = rt_open rt
        | Started k \<Rightarrow> ans = None \<and>
            rt_open rt' = rt_open rt @ [\<lparr>oi_device = i, oi_object = n, oi_id = k, oi_capability = c\<rparr>]"
    show ?thesis
    proof (cases bb)
      case (Started k)
      have k: "k = di_next (rt_store rt ! n)" "di_next d = Suc k"
        using begin_started_next[OF n(2)[unfolded Started]] by auto
      have "(n, k) \<notin> (\<lambda>o'. (oi_object o', oi_id o')) ` set (rt_open rt)"
        using assms(1) k(1) by (auto simp: journaled_def)
      then show ?thesis
        using assms(1) old c Started k(2) n(1) st count b by (auto simp: journaled_def)
    qed (use assms(1) old c count b in \<open>auto simp: journaled_def\<close>)
  qed (use assms(1) old count b in \<open>auto simp: journaled_def\<close>)
qed

lemma journaled_finish:
  assumes "journaled rt" "wf_runtime rt"
  shows "journaled (snd (runtime_finish nt mt rd n k out rt))"
proof -
  obtain ans rt' where f: "runtime_finish nt mt rd n k out rt = (ans, rt')"
    by fastforce
  have rt': "rt' = runtime_apply nt mt (RFinish rd n k out) rt"
    by (simp add: f)
  have old: "oi_object o' < length (rt_store rt') \<and> oi_id o' < di_next (rt_store rt' ! oi_object o')"
    if "o' \<in> set (rt_open rt)" for o'
    using apply_next[OF assms(2), of "oi_object o'" nt mt "RFinish rd n k out"] that assms(1) rt'
    by (fastforce simp: journaled_def)
  have count: "rt' = rt \<or> journal_count InvocationRequested rt' = journal_count InvocationRequested rt \<and>
      journal_count InvocationCompleted rt' + journal_count InvocationFailed rt' =
        Suc (journal_count InvocationCompleted rt + journal_count InvocationFailed rt)"
    using f by (auto simp: runtime_finish_def Let_def split: sum.splits prod.splits option.splits)
  show ?thesis
    using runtime_finish_shape[OF f]
  proof (elim disjE exE conjE)
    fix oi a gv d
    assume o: "find (\<lambda>o'. oi_object o' = n \<and> oi_id o' = k) (rt_open rt) = Some oi"
      and "rt_open rt' = filter (\<lambda>o'. \<not> (oi_object o' = n \<and> oi_id o' = k)) (rt_open rt)"
    then show ?thesis
      using assms(1) old count f find_filter_length[OF _ o] by (auto simp: journaled_def distinct_map_filter)
  qed (use assms(1) f in simp)
qed

lemma journaled_apply:
  assumes "journaled rt" "wf_runtime rt" "\<nexists>h s j. c = RConfigure h s (Some j)"
  shows "journaled (runtime_apply nt mt c rt)"
proof (cases c)
  case (RRegisterModule md o' pr fwd wall)
  show ?thesis
    by (rule journaled_frame[OF assms(1,2) refl])
      (simp_all add: RRegisterModule registerModuleDevice_def register_device_def kept_def Let_def split: prod.split)
next
  case (RInvoke rd i cap input opts)
  then show ?thesis
    using journaled_begin[OF assms(1,2)] by simp
next
  case (RFinish rd n k out)
  then show ?thesis
    using journaled_finish[OF assms(1,2)] by simp
next
  case (RConfigure h s j)
  show ?thesis
    by (rule journaled_frame[OF assms(1,2) refl]) (use assms(3) RConfigure in \<open>auto simp: configureGovernance_def Let_def split: option.split\<close>)
qed (rule journaled_frame[OF assms(1,2) refl]; simp add: register_device_def kept_def begin_unregister_def runtime_halt_def
    begin_pass_def end_pass_def Let_def split: sum.split option.split)+

text \<open>C13: The journal accounts for every invocation. After any history of a runtime that keeps its journal,
  there are exactly as many requests as completed, failed and still open invocations: every
  invocation, refused and unknown devices included, gets one request and at most one outcome.\<close>

theorem journal_accounts_for_invocations:
  assumes "\<forall>h s j'. RConfigure h s (Some j') \<notin> set cs" "rt = runtime_run nt mt cs (PinoutRuntime throws h s None)"
  shows "journal_count InvocationRequested rt =
    journal_count InvocationCompleted rt + journal_count InvocationFailed rt + length (rt_open rt)"
proof -
  have "journaled (PinoutRuntime throws h s None)"
    by (simp add: journaled_def PinoutRuntime_def journal_count_def Journal_def)
  moreover have "journaled (runtime_run nt mt cs rt0)" if "wf_runtime rt0" "journaled rt0" for rt0
    using that assms(1)
  proof (induction cs arbitrary: rt0)
    case (Cons c cs)
    have "\<nexists>h s j. c = RConfigure h s (Some j)"
      using Cons.prems(3) by auto
    then show ?case
      using Cons.IH[OF wf_apply[OF Cons.prems(1)] journaled_apply[OF Cons.prems(2,1)]] Cons.prems(3) by auto
  qed simp
  ultimately show ?thesis
    using assms(2) wf_new by (auto simp: journaled_def)
qed

lemma runtime_started:
  assumes "runtime_begin nt mt rd i c input opts rt = (None, rt')" "wf_runtime rt" "getDevice rt i = Inr n"
  shows "\<exists>k gv d. begin_invoke nt rd c input opts (rt_gov rt) (rt_store rt ! n) = (Started k, gv, d) \<and>
    rt_store rt' = (rt_store rt)[n := d]"
  using runtime_begin_shape[OF assms(1,2)]
proof (elim disjE exE conjE)
  fix m b gv d
  assume "getDevice rt i = Inr m" "begin_invoke nt rd c input opts (rt_gov rt) (rt_store rt ! m) = (b, gv, d)"
    "rt_store rt' = (rt_store rt)[m := d]"
    "case b of Refused e \<Rightarrow> None = Some (Inl (DeviceRaised e) :: runtime_error + jsrecord) \<and> rt_open rt' = rt_open rt
      | DryRun p st \<Rightarrow> (\<exists>r. None = Some (Inr r :: runtime_error + jsrecord)) \<and> rt_open rt' = rt_open rt
      | Started k \<Rightarrow> None = (None :: (runtime_error + jsrecord) option) \<and>
          rt_open rt' = rt_open rt @ [\<lparr>oi_device = i, oi_object = m, oi_id = k, oi_capability = c\<rparr>]"
  then show ?thesis
    using assms(3) by (cases b) auto
qed (use assms(3) in simp)

text \<open>C27: The rules of a module follow its devices. A device that was registered from a module with any
  deployment policies enforces the module's own rules for as long as it lives: whatever happened since,
  a call that its id still answers reaches the backend only with a payload the module's rules accept.\<close>

theorem module_rules_always_enforced:
  assumes "registerModuleDevice md ro protocol fwd wall rt = Inr rt1" "wf_runtime rt"
    and "rt2 = runtime_run nt mt cs rt1" "getDevice rt2 (ro_id ro) = Inr (length (rt_store rt))"
    and "runtime_begin nt mt rd (ro_id ro) c input opts rt2 = (None, rt3)"
  shows "\<exists>payload. List.last (di_calls (rt_store rt3 ! length (rt_store rt))) =
      (di_next (rt_store rt2 ! length (rt_store rt)), c, payload) \<and>
    evaluatePolicies (md_policies md)
      (policy_context.truncate (invoke_context (rt_store rt2 ! length (rt_store rt)) rd c payload (io_owner opts)))
      (of_int (rd_wall rd)) = Inr ()"
proof -
  let ?n = "length (rt_store rt)"
  obtain rules where m: "mergeModuleAndDeploymentRules (md_policies md) (ro_deploymentPolicies ro) = (rules, [])"
    and pol: "di_policies (rt_store rt1 ! ?n) = rules" and len: "?n < length (rt_store rt1)"
    using assms(1)
    by (auto simp: registerModuleDevice_def register_device_def Let_def subscribeRuntimeEvents_def
        attachProtocolEventBridge_def DeviceInstance_def split: prod.splits if_splits option.splits)
  have wf1: "wf_runtime rt1"
    using wf_apply[OF assms(2), of nt mt "RRegisterModule md ro protocol fwd wall"] assms(1) by (simp add: kept_def)
  have n2: "?n < length (rt_store rt2) \<and> di_policies (rt_store rt2 ! ?n) = rules"
    unfolding assms(3) by (rule run_objects[OF wf1 len]) (use pol device_step_static(2) in auto)
  have wf2: "wf_runtime rt2"
    using wf_run[OF wf1] assms(3) by simp
  from runtime_started[OF assms(5) wf2 assms(4)] obtain k gv d where
    b: "begin_invoke nt rd c input opts (rt_gov rt2) (rt_store rt2 ! ?n) = (Started k, gv, d)"
    and d: "rt_store rt3 = (rt_store rt2)[?n := d]"
    by blast
  from begin_started_cleared[OF b] obtain cd payload rv where k: "k = di_next (rt_store rt2 ! ?n)"
    and cl: "cleared rd c (io_owner opts) (rt_gov rt2) (rt_store rt2 ! ?n) payload"
    and calls: "d = start_invocation nt rd c cd payload rv (rt_store rt2 ! ?n)"
    by blast
  show ?thesis
    using merged_rules_accept[OF m] cl n2 d k calls by (intro exI[of _ payload]) (simp add: cleared_def)
qed

subsection \<open>Witnesses\<close>

definition wit_module :: module_definition where
  "wit_module = \<lparr>md_capabilities = [wit_move], md_capabilityNames = [''move''],
    md_policies = [plain_rule ''move'' (Custom (\<lambda>_. None))]\<rparr>"

definition wit_register :: register_options where
  "wit_register = \<lparr>ro_id = ''arm'', ro_simulated = False, ro_deploymentPolicies = [], ro_prerequisites = [],
    ro_maxStateAgeMs = MaxAgeNone\<rparr>"

definition wit_empty :: pinout_runtime where
  "wit_empty = PinoutRuntime (\<lambda>_ _. None) None None None"

definition wit_device :: device_instance where
  "wit_device = DeviceInstance ''arm'' [wit_move] [plain_rule ''move'' (Custom (\<lambda>_. None))] False [] MaxAgeNone None 0"

definition wit_runtime :: pinout_runtime where
  "wit_runtime = wit_empty\<lparr>rt_store := [subscribeRuntimeEvents 7 wit_device], rt_forwards := [(''arm'', 7)],
    rt_devices := [(''arm'', 0)]\<rparr>"

lemma wit_registered: "registerModuleDevice wit_module wit_register None 7 0 wit_empty = Inr wit_runtime"
  by (simp add: registerModuleDevice_def register_device_def wit_module_def wit_register_def wit_empty_def PinoutRuntime_def
      hasDevice_def mergeModuleAndDeploymentRules_def module_capabilities_def wit_runtime_def wit_device_def DeviceInstance_def
      Let_def)

lemma wit_runtime_wf: "wf_runtime wit_runtime" "wf_runtime wit_empty"
  by (auto simp: wf_runtime_def wit_runtime_def wit_empty_def PinoutRuntime_def)

abbreviation (input) "wit_invoke rt \<equiv>
  runtime_begin (\<lambda>_. []) (\<lambda>_. []) wit_reading ''arm'' ''move'' (JObj []) wit_opts_real rt"

lemma wit_runtime_gov: "gv_halt (rt_gov wit_runtime) = Some (subscribe_halt RUNTIME_LISTENER (HaltCoordinator False))"
    "gv_safety (rt_gov wit_runtime) = Some (SafetyEngine [] None False)"
  by (simp_all add: wit_runtime_def wit_empty_def PinoutRuntime_def subscribeHalt_def)

lemma wit_starts: "fst (wit_invoke wit_runtime) = None"
proof -
  let ?d = "subscribeRuntimeEvents 7 wit_device"
  have res: "resolve_call wit_reading ''move'' (JObj []) ?d = Inr (wit_move, [])"
    by (simp add: resolve_call_ok resolveCapability_def evaluatePrerequisites_def or_nil_def wit_move_def wit_validate
        wit_device_def DeviceInstance_def subscribeRuntimeEvents_def unavailable_def)
  have "cleared wit_reading ''move'' None (rt_gov wit_runtime) ?d []"
    by (simp add: cleared_def engine_accepts_def wit_runtime_gov wit_device_def DeviceInstance_def subscribeRuntimeEvents_def
        evaluatePolicies.simps evaluate_rule_def plain_rule_def invoke_context_def policy_context.defs reserve_def
        enforceRules_def SafetyEngine_def enforce_v2.simps Let_def wit_reading_def)
  moreover have "halt_gate (rt_gov wit_runtime) = Inr ()"
    by (simp add: halt_gate_def wit_runtime_gov enforceGate_def gate_def subscribe_halt_def HaltCoordinator_def)
  ultimately obtain k where "fst (begin_invoke (\<lambda>_. []) wit_reading ''move'' (JObj []) wit_opts_real (rt_gov wit_runtime) ?d) = Started k"
    using begin_started[of "\<lambda>_. []" wit_reading "''move''" "JObj []" wit_opts_real "rt_gov wit_runtime" ?d] res
      admit_ok[of wit_reading "''move''" "JObj []" wit_opts_real "rt_gov wit_runtime" ?d wit_move "[]"]
    by (auto simp: wit_opts_real_def)
  moreover have "getDevice wit_runtime ''arm'' = Inr 0" "rt_store wit_runtime ! 0 = ?d"
    by (simp_all add: getDevice_def wit_runtime_def)
  ultimately show ?thesis
    by (auto simp: runtime_begin_def Let_def split: prod.splits begun.splits)
qed

theorem module_rules_always_enforced_witness:
  "\<exists>payload. evaluatePolicies (md_policies wit_module)
    (policy_context.truncate (invoke_context (subscribeRuntimeEvents 7 wit_device) wit_reading ''move'' payload None)) 5 = Inr ()"
proof -
  have b: "wit_invoke wit_runtime = (None, snd (wit_invoke wit_runtime))"
    using wit_starts by (metis prod.collapse)
  have "ro_id wit_register = ''arm''" "length (rt_store wit_empty) = 0"
    by (simp_all add: wit_register_def wit_empty_def PinoutRuntime_def)
  moreover have "getDevice wit_runtime ''arm'' = Inr 0" "rt_store wit_runtime ! 0 = subscribeRuntimeEvents 7 wit_device"
    by (simp_all add: getDevice_def wit_runtime_def)
  ultimately show ?thesis
    using module_rules_always_enforced[OF wit_registered wit_runtime_wf(2), where cs = "[]" and ?rt2.0 = wit_runtime
        and nt = "\<lambda>_. []" and mt = "\<lambda>_. []" and rd = wit_reading and c = "''move''" and input = "JObj []"
        and opts = wit_opts_real] b
    by (auto simp: wit_opts_real_def wit_reading_def)
qed

theorem halted_runtime_is_still_witness:
  "di_calls (rt_store (runtime_run (\<lambda>_. []) (\<lambda>_. []) [RInvoke wit_reading ''arm'' ''move'' (JObj []) wit_opts_real]
      (runtime_halt (Halt ''smoke'' None 1) wit_runtime)) ! 0) = []"
proof -
  let ?rt = "runtime_halt (Halt ''smoke'' None 1) wit_runtime"
  have 0: "rt_store ?rt = rt_store wit_runtime" "wf_runtime ?rt" "gate_closed (rt_gov ?rt)"
    using wit_runtime_wf(1)
    by (simp_all add: runtime_halt_def wit_runtime_gov Let_def wf_runtime_def gate_closed_def gate_allowed halt_def)
  have "\<forall>n<length (rt_store ?rt). di_calls (rt_store (runtime_run (\<lambda>_. []) (\<lambda>_. [])
      [RInvoke wit_reading ''arm'' ''move'' (JObj []) wit_opts_real] ?rt) ! n) = di_calls (rt_store ?rt ! n)"
    by (rule halted_runtime_is_still[OF 0(2,3), THEN conjunct1]) simp
  moreover have "0 < length (rt_store ?rt)" "di_calls (rt_store ?rt ! 0) = []"
    by (simp_all add: 0(1)) (simp_all add: wit_runtime_def wit_device_def DeviceInstance_def subscribeRuntimeEvents_def)
  ultimately show ?thesis
    by metis
qed

theorem halt_reaches_every_device_witness:
  "rt_safe_calls ((run_pass 0 (\<lambda>_. Inl ''no answer'') ^^ 1)
    (finish_pass 0 (\<lambda>_. Inl ''no answer'') (runtime_halt (Halt ''smoke'' None 1) wit_runtime))) = [(''arm'', 0)]"
proof -
  let ?h = "subscribe_halt RUNTIME_LISTENER (HaltCoordinator False)"
  let ?rt1 = "runtime_halt (Halt ''smoke'' None 1) wit_runtime"
  have pre: "RUNTIME_LISTENER \<in> set (listeners ?h)" "distinct (listeners ?h)" "takes_failures wit_runtime"
    "currentState ?h \<noteq> HALTED \<or> currentReason ?h \<noteq> ''smoke''" "rt_queued wit_runtime = 0"
    "rt_safe_calls wit_runtime = []" "rt_devices wit_runtime = [(''arm'', 0)]"
    by (simp_all add: subscribe_halt_def HaltCoordinator_def wit_runtime_def wit_empty_def PinoutRuntime_def takes_failures_def)
  have "rt_queued ?rt1 = Suc (rt_queued wit_runtime) \<and>
      rt_safe_calls ((run_pass 0 (\<lambda>_. Inl ''no answer'') ^^ rt_queued ?rt1) (finish_pass 0 (\<lambda>_. Inl ''no answer'') ?rt1)) =
        rt_safe_calls wit_runtime @ concat (replicate (Suc (rt_queued wit_runtime)) (rt_devices wit_runtime))"
    using halt_reaches_every_device[OF wit_runtime_gov(1) pre(1,2,3), of "Halt ''smoke'' None 1" "''smoke''" None 1 HALTED
        ?rt1 _ 0 "\<lambda>_. Inl ''no answer''", OF _ pre(4) refl refl] by blast
  then have q: "rt_queued ?rt1 = Suc (rt_queued wit_runtime)"
    and s: "rt_safe_calls ((run_pass 0 (\<lambda>_. Inl ''no answer'') ^^ rt_queued ?rt1) (finish_pass 0 (\<lambda>_. Inl ''no answer'') ?rt1)) =
        rt_safe_calls wit_runtime @ concat (replicate (Suc (rt_queued wit_runtime)) (rt_devices wit_runtime))"
    by blast+
  show ?thesis
    using s unfolding q by (simp add: pre)
qed

theorem throwing_handler_disables_safe_states_witness:
  "rt_safe_calls (runtime_run (\<lambda>_. []) (\<lambda>_. []) [RHalt (RequestEstop ''fire'' None 2), REndPass, RBeginPass]
      (answer_pass 3 ''arm'' (Inl ''stuck'')
        (wit_runtime\<lparr>rt_handlers := [4], rt_throws := \<lambda>_ _. Some ''full'', rt_pass := Some [(''arm'', 0)]\<rparr>))) = []"
proof -
  let ?rt = "wit_runtime\<lparr>rt_handlers := [4], rt_throws := \<lambda>_ _. Some ''full'', rt_pass := Some [(''arm'', 0)]\<rparr>"
  have "rt_pass ?rt = Some [(''arm'', 0)]" "jhas [(''arm'', 0)] ''arm''" "4 \<in> set (rt_handlers ?rt)"
    "rt_throws ?rt 4 (safe_event 3 ''arm'' (Inl ''stuck'')) \<noteq> None"
    by simp_all
  then have "rt_safe_calls (runtime_run (\<lambda>_. []) (\<lambda>_. []) [RHalt (RequestEstop ''fire'' None 2), REndPass, RBeginPass]
      (answer_pass 3 ''arm'' (Inl ''stuck'') ?rt)) = rt_safe_calls ?rt"
    by (rule throwing_handler_disables_safe_states)
  also have "\<dots> = []"
    by (simp add: wit_runtime_def wit_empty_def PinoutRuntime_def)
  finally show ?thesis .
qed

theorem hung_safe_state_blocks_witness:
  "rt_safe_calls (runtime_run (\<lambda>_. []) (\<lambda>_. [])
      [RHalt (RequestEstop ''fire'' None 2), RAnswerPass 3 ''lamp'' (Inr None), RBeginPass, REndPass]
      (wit_runtime\<lparr>rt_pass := Some [(''arm'', 0), (''lamp'', 1)]\<rparr>)) = []"
  using hung_safe_state_blocks[of "wit_runtime\<lparr>rt_pass := Some [(''arm'', 0), (''lamp'', 1)]\<rparr>"
      "[(''arm'', 0), (''lamp'', 1)]" "''arm''"
      "[RHalt (RequestEstop ''fire'' None 2), RAnswerPass 3 ''lamp'' (Inr None), RBeginPass, REndPass]"
      "\<lambda>_. []" "\<lambda>_. []"]
  by (simp add: wit_runtime_def wit_empty_def PinoutRuntime_def)

theorem journal_accounts_for_invocations_witness:
  "journal_count InvocationRequested (runtime_run (\<lambda>_. []) (\<lambda>_. [])
      [RRegisterModule wit_module wit_register None 7 0, RInvoke wit_reading ''arm'' ''move'' (JObj []) wit_opts_real,
       RInvoke wit_reading ''leg'' ''move'' (JObj []) wit_opts_real] wit_empty) = 2 \<and>
   length (rt_open (runtime_run (\<lambda>_. []) (\<lambda>_. [])
      [RRegisterModule wit_module wit_register None 7 0, RInvoke wit_reading ''arm'' ''move'' (JObj []) wit_opts_real,
       RInvoke wit_reading ''leg'' ''move'' (JObj []) wit_opts_real] wit_empty)) = 1"
proof -
  let ?cs = "[RRegisterModule wit_module wit_register None 7 0, RInvoke wit_reading ''arm'' ''move'' (JObj []) wit_opts_real,
       RInvoke wit_reading ''leg'' ''move'' (JObj []) wit_opts_real]"
  obtain rt1 where 1: "wit_invoke wit_runtime = (None, rt1)"
    using wit_starts by (metis prod.collapse)
  have g: "getDevice wit_runtime ''arm'' = Inr 0"
    by (simp add: getDevice_def wit_runtime_def)
  have dv: "rt_devices rt1 = rt_devices wit_runtime"
    using runtime_begin_devices[of "\<lambda>_. []" "\<lambda>_. []" wit_reading "''arm''" "''move''" "JObj []" wit_opts_real wit_runtime] 1
    by simp
  have leg: "getDevice rt1 ''leg'' = Inl (DeviceNotFound ''leg'')"
    by (simp add: getDevice_def dv wit_runtime_def)
  obtain k gv d where 2: "begin_invoke (\<lambda>_. []) wit_reading ''move'' (JObj []) wit_opts_real (rt_gov wit_runtime)
      (rt_store wit_runtime ! 0) = (Started k, gv, d)"
    using runtime_started[OF 1 wit_runtime_wf(1) g] by blast
  have none: "rt_open wit_runtime = []" "journal_count x wit_runtime = 0" for x
    by (simp_all add: wit_runtime_def wit_empty_def PinoutRuntime_def journal_count_def Journal_def)
  have open1: "length (rt_open rt1) = 1" "journal_count InvocationCompleted rt1 = 0" "journal_count InvocationFailed rt1 = 0"
    using 1 by (auto simp: runtime_begin_def g 2 Let_def none)
  define rt2 where "rt2 = runtime_run (\<lambda>_. []) (\<lambda>_. []) ?cs wit_empty"
  have rt2: "rt2 = snd (runtime_begin (\<lambda>_. []) (\<lambda>_. []) wit_reading ''leg'' ''move'' (JObj []) wit_opts_real rt1)"
    by (simp add: rt2_def wit_registered kept_def 1)
  have o2: "length (rt_open rt2) = 1" "journal_count InvocationCompleted rt2 = 0" "journal_count InvocationFailed rt2 = 1"
    unfolding rt2 by (simp_all add: runtime_begin_def leg Let_def open1)
  have "journal_count InvocationRequested rt2 =
      journal_count InvocationCompleted rt2 + journal_count InvocationFailed rt2 + length (rt_open rt2)"
    by (rule journal_accounts_for_invocations[of ?cs rt2]) (simp_all add: rt2_def wit_empty_def)
  with o2 show ?thesis
    by (simp add: rt2_def del: One_nat_def)
qed

end
