(* ===== verification/Json_Text.thy ===== *)
theory Json_Text
  imports Journal
begin

text \<open>
  What the code uses of \<open>JSON.parse\<close>: a recursive descent parser over the grammar of ECMA-404, and the
  proof that it undoes \<open>JSON.stringify\<close> (\<open>json_text\<close>). The value of a number's text is a parameter
  (\<open>pn\<close>). A repeated key keeps its first place and its last value; keys that look like integers are not
  moved to the front. Characters are code units below 256, so an escape above that is not read.
\<close>

definition json_ws :: "char \<Rightarrow> bool" where
  "json_ws c \<longleftrightarrow> c \<in> {CHR 0x20, CHR 0x09, CHR 0x0A, CHR 0x0D}"

definition skip_ws :: "string \<Rightarrow> string" where
  "skip_ws s = dropWhile json_ws s"

lemma length_skip_ws: "length (skip_ws s) \<le> length s"
  by (simp add: skip_ws_def length_dropWhile_le)

subsection \<open>Strings\<close>

definition hex_value :: "char \<Rightarrow> nat option" where
  "hex_value c =
    (let n = of_char c in
     if 48 \<le> n \<and> n \<le> 57 then Some (n - 48)
     else if 97 \<le> n \<and> n \<le> 102 then Some (n - 87)
     else if 65 \<le> n \<and> n \<le> 70 then Some (n - 55) else None)"

definition hex_char :: "char \<Rightarrow> char \<Rightarrow> char \<Rightarrow> char \<Rightarrow> char option" where
  "hex_char a b c d =
    (case (hex_value a, hex_value b, hex_value c, hex_value d) of
      (Some x, Some y, Some z, Some w) \<Rightarrow>
        (let n = ((x * 16 + y) * 16 + z) * 16 + w in if n < 256 then Some (char_of n) else None)
    | _ \<Rightarrow> None)"

definition plain_escape :: "char \<Rightarrow> char option" where
  "plain_escape e =
    (if e = CHR 0x22 \<or> e = CHR 0x5C \<or> e = CHR 0x2F then Some e
     else if e = CHR ''b'' then Some (CHR 0x08)
     else if e = CHR ''t'' then Some (CHR 0x09)
     else if e = CHR ''n'' then Some (CHR 0x0A)
     else if e = CHR ''f'' then Some (CHR 0x0C)
     else if e = CHR ''r'' then Some (CHR 0x0D) else None)"

text \<open>One character of a string, escaped or not, with what follows it; a quote is not one.\<close>

definition json_char :: "string \<Rightarrow> (char \<times> string) option" where
  "json_char s =
    (case s of
      [] \<Rightarrow> None
    | c # r \<Rightarrow>
        if c = CHR 0x5C then
          (case r of
            [] \<Rightarrow> None
          | e # r1 \<Rightarrow>
              if e = CHR ''u'' then
                (case r1 of
                  a # b # c' # d # r2 \<Rightarrow> map_option (\<lambda>x. (x, r2)) (hex_char a b c' d)
                | _ \<Rightarrow> None)
              else map_option (\<lambda>x. (x, r1)) (plain_escape e))
        else if c = CHR 0x22 \<or> (of_char c :: nat) < 32 then None
        else Some (c, r))"

lemma json_char_shorter: "json_char s = Some (c, r) \<Longrightarrow> length r < length s"
  by (auto simp: json_char_def split: list.splits if_splits)

function json_chars :: "string \<Rightarrow> (string \<times> string) option" where
  "json_chars s =
    (case s of
      [] \<Rightarrow> None
    | q # r0 \<Rightarrow>
        if q = CHR 0x22 then Some ([], r0)
        else (case json_char s of
            None \<Rightarrow> None
          | Some (c, r) \<Rightarrow> map_option (\<lambda>(t, r'). (c # t, r')) (json_chars r)))"
  by auto
termination
  by (relation "measure length") (auto dest!: json_char_shorter)

declare json_chars.simps [simp del]

lemma json_chars_shorter: "json_chars s = Some (t, r) \<Longrightarrow> length r < length s"
proof (induction s arbitrary: t rule: json_chars.induct)
  case (1 s)
  show ?case
  proof (cases s)
    case Nil
    with 1(2) show ?thesis by (simp add: json_chars.simps[of "[]"])
  next
    case (Cons q r0)
    show ?thesis
    proof (cases "q = CHR 0x22")
      case True
      have "json_chars (CHR 0x22 # r0) = Some ([], r0)"
        by (simp add: json_chars.simps[of "CHR 0x22 # r0"])
      then show ?thesis
        using 1(2) Cons True by simp
    next
      case False
      then obtain c r1 t1 where j: "json_char s = Some (c, r1)" "json_chars r1 = Some (t1, r)"
        using 1(2) Cons by (auto simp: json_chars.simps[of "q # r0"] split: option.splits prod.splits)
      have "length r < length r1"
        using 1(1)[OF Cons False j(1) refl j(2)] .
      then show ?thesis
        using json_char_shorter[OF j(1)] by simp
    qed
  qed
qed

subsection \<open>Numbers\<close>

definition span_digits :: "string \<Rightarrow> (string \<times> string) option" where
  "span_digits s =
    (if takeWhile is_digit s = [] then None else Some (takeWhile is_digit s, dropWhile is_digit s))"

definition int_part :: "string \<Rightarrow> (string \<times> string) option" where
  "int_part s =
    (case s of [] \<Rightarrow> None | c # r \<Rightarrow> if c = CHR ''0'' then Some ([c], r) else span_digits s)"

definition frac_part :: "string \<Rightarrow> (string \<times> string) option" where
  "frac_part s =
    (case s of
      [] \<Rightarrow> Some ([], [])
    | c # r \<Rightarrow> if c = CHR ''.'' then map_option (\<lambda>(d, r'). (c # d, r')) (span_digits r) else Some ([], s))"

definition exp_part :: "string \<Rightarrow> (string \<times> string) option" where
  "exp_part s =
    (case s of
      [] \<Rightarrow> Some ([], [])
    | c # r \<Rightarrow>
        if c = CHR ''e'' \<or> c = CHR ''E'' then
          (case r of
            [] \<Rightarrow> None
          | g # r1 \<Rightarrow>
              if g = CHR ''+'' \<or> g = CHR ''-'' then map_option (\<lambda>(d, r'). (c # g # d, r')) (span_digits r1)
              else map_option (\<lambda>(d, r'). (c # d, r')) (span_digits r))
        else Some ([], s))"

text \<open>The longest prefix the number grammar takes; \<open>None\<close> is a syntax error.\<close>

definition unsigned_number :: "string \<Rightarrow> (string \<times> string) option" where
  "unsigned_number s =
    (case int_part s of
      None \<Rightarrow> None
    | Some (i, r1) \<Rightarrow>
        (case frac_part r1 of
          None \<Rightarrow> None
        | Some (f, r2) \<Rightarrow> map_option (\<lambda>(e, r3). (i @ f @ e, r3)) (exp_part r2)))"

definition json_number :: "string \<Rightarrow> (string \<times> string) option" where
  "json_number s =
    (case s of
      [] \<Rightarrow> None
    | c # r \<Rightarrow>
        if c = CHR ''-'' then map_option (\<lambda>(n, r'). (c # n, r')) (unsigned_number r) else unsigned_number s)"

subsection \<open>Values\<close>

definition json_object :: "(string \<times> jsval) list \<Rightarrow> jsrecord" where
  "json_object ms = foldl (\<lambda>m (k, v). jset k v m) [] ms"

definition drop_prefix :: "string \<Rightarrow> string \<Rightarrow> string option" where
  "drop_prefix p s = (if starts_with p s then Some (drop (length p) s) else None)"

definition json_atom :: "(string \<Rightarrow> jsnum) \<Rightarrow> string \<Rightarrow> (jsval \<times> string) option" where
  "json_atom pn s =
    (case drop_prefix ''true'' s of Some r \<Rightarrow> Some (JBool True, r)
     | None \<Rightarrow> (case drop_prefix ''false'' s of Some r \<Rightarrow> Some (JBool False, r)
     | None \<Rightarrow> (case drop_prefix ''null'' s of Some r \<Rightarrow> Some (JNull, r)
     | None \<Rightarrow> map_option (\<lambda>(t, r). (JNum (pn t), r)) (json_number s))))"

text \<open>
  The parsers of a value, of the elements of a nonempty array after its bracket, and of the members of a
  nonempty object. The tests that the rest is shorter never fail (\<open>parse_shorter\<close>).
\<close>

function parse_value :: "(string \<Rightarrow> jsnum) \<Rightarrow> string \<Rightarrow> (jsval \<times> string) option"
  and parse_elements :: "(string \<Rightarrow> jsnum) \<Rightarrow> string \<Rightarrow> (jsval list \<times> string) option"
  and parse_members :: "(string \<Rightarrow> jsnum) \<Rightarrow> string \<Rightarrow> ((string \<times> jsval) list \<times> string) option" where
  "parse_value pn s =
    (case skip_ws s of
      [] \<Rightarrow> None
    | c # r \<Rightarrow>
        if c = CHR 0x22 then map_option (\<lambda>(t, r'). (JStr t, r')) (json_chars r)
        else if c = CHR ''['' then
          (if skip_ws r \<noteq> [] \<and> hd (skip_ws r) = CHR '']'' then Some (JArr [], tl (skip_ws r))
           else map_option (\<lambda>(vs, r'). (JArr vs, r')) (parse_elements pn r))
        else if c = CHR ''{'' then
          (if skip_ws r \<noteq> [] \<and> hd (skip_ws r) = CHR ''}'' then Some (JObj [], tl (skip_ws r))
           else map_option (\<lambda>(ms, r'). (JObj (json_object ms), r')) (parse_members pn r))
        else json_atom pn (c # r))"
| "parse_elements pn s =
    (case parse_value pn s of
      None \<Rightarrow> None
    | Some (v, r) \<Rightarrow>
        (case skip_ws r of
          [] \<Rightarrow> None
        | c # r' \<Rightarrow>
            if c = CHR '']'' then Some ([v], r')
            else if c = CHR '','' \<and> length r' < length s
            then map_option (\<lambda>(vs, r2). (v # vs, r2)) (parse_elements pn r')
            else None))"
| "parse_members pn s =
    (case skip_ws s of
      [] \<Rightarrow> None
    | q # r0 \<Rightarrow>
        if q \<noteq> CHR 0x22 then None
        else (case json_chars r0 of
            None \<Rightarrow> None
          | Some (k, r1) \<Rightarrow>
              if skip_ws r1 = [] \<or> hd (skip_ws r1) \<noteq> CHR '':'' \<or> \<not> length (tl (skip_ws r1)) < length s then None
              else (case parse_value pn (tl (skip_ws r1)) of
                  None \<Rightarrow> None
                | Some (v, r2) \<Rightarrow>
                    (case skip_ws r2 of
                      [] \<Rightarrow> None
                    | c # r3 \<Rightarrow>
                        if c = CHR ''}'' then Some ([(k, v)], r3)
                        else if c = CHR '','' \<and> length r3 < length s
                        then map_option (\<lambda>(ms, r4). ((k, v) # ms, r4)) (parse_members pn r3)
                        else None))))"
  by pat_completeness auto
termination
proof (relation "measure (\<lambda>x. case x of Inl (_, s) \<Rightarrow> 2 * length s
    | Inr (Inl (_, s)) \<Rightarrow> Suc (2 * length s) | Inr (Inr (_, s)) \<Rightarrow> Suc (2 * length s))", goal_cases)
  case (2 pn s c r)
  then show ?case
    using length_skip_ws[of s] by simp
next
  case (3 pn s c r)
  then show ?case
    using length_skip_ws[of s] by simp
qed auto

declare parse_value.simps [simp del] parse_elements.simps [simp del] parse_members.simps [simp del]

text \<open>\<open>JSON.parse\<close>: one value with white space around it; \<open>None\<close> is a thrown \<open>SyntaxError\<close>.\<close>

definition json_parse :: "(string \<Rightarrow> jsnum) \<Rightarrow> string \<Rightarrow> jsval option" where
  "json_parse pn s =
    (case parse_value pn s of
      None \<Rightarrow> None
    | Some (v, r) \<Rightarrow> if skip_ws r = [] then Some v else None)"


subsection \<open>Reading what was written\<close>

text \<open>What may follow a value in a document: nothing, a comma or a closing bracket.\<close>

definition value_end :: "string \<Rightarrow> bool" where
  "value_end r \<longleftrightarrow> r = [] \<or> hd r \<in> {CHR '','', CHR '']'', CHR ''}''}"

lemma hex_value_digit: "d < 16 \<Longrightarrow> hex_value (hex_digit d) = Some d"
  by (auto simp: hex_value_def of_hex_digit Let_def)

lemma hex_value_0 [simp]: "hex_value CHR ''0'' = Some 0"
  by (simp add: hex_value_def)

lemma hex_char_code: "(of_char c :: nat) < 32 \<Longrightarrow>
    hex_char CHR ''0'' CHR ''0'' (hex_digit (of_char c div 16)) (hex_digit (of_char c mod 16)) = Some c"
  by (simp add: hex_char_def hex_value_digit Let_def)

lemma json_char_escape: "json_char (json_escape c @ r) = Some (c, r)"
  by (auto simp: json_escape_def json_char_def plain_escape_def hex_char_code)

lemma json_escape_hd: "json_escape c @ r = q # r' \<Longrightarrow> q \<noteq> CHR 0x22"
  by (auto simp: json_escape_def split: if_splits)

lemma json_chars_text: "json_chars (concat (map json_escape s) @ CHR 0x22 # r) = Some (s, r)"
proof (induction s)
  case Nil
  show ?case by (simp add: json_chars.simps[of "CHR 0x22 # r"])
next
  case (Cons c s)
  let ?t = "concat (map json_escape s) @ CHR 0x22 # r"
  obtain q r' where q: "json_escape c @ ?t = q # r'"
    by (cases "json_escape c @ ?t") (auto simp: json_escape_def split: if_splits)
  have "json_char (q # r') = Some (c, ?t)"
    using json_char_escape[of c ?t] q by simp
  then have "json_chars (q # r') = Some (c # s, r)"
    using json_escape_hd[OF q] Cons.IH by (simp add: json_chars.simps[of "q # r'"])
  then show ?case
    using q by simp
qed

lemma takeWhile_end: "value_end r \<Longrightarrow> takeWhile is_digit (s @ r) = takeWhile is_digit s
    \<and> dropWhile is_digit (s @ r) = dropWhile is_digit s @ r"
  by (induction s; cases r) (auto simp: value_end_def is_digit_def)

lemma span_digits_end: "span_digits s = Some (d, t) \<Longrightarrow> value_end r \<Longrightarrow> span_digits (s @ r) = Some (d, t @ r)"
  by (simp add: span_digits_def takeWhile_end split: if_splits)

lemma int_part_end: "int_part s = Some (d, t) \<Longrightarrow> value_end r \<Longrightarrow> int_part (s @ r) = Some (d, t @ r)"
  by (cases s) (auto simp: int_part_def dest: span_digits_end[where r = r] split: if_splits)

lemma frac_part_end: "frac_part s = Some (d, t) \<Longrightarrow> value_end r \<Longrightarrow> frac_part (s @ r) = Some (d, t @ r)"
proof (cases s)
  case Nil
  assume "frac_part s = Some (d, t)" "value_end r"
  with Nil show ?thesis
    by (cases r) (auto simp: frac_part_def value_end_def)
qed (auto simp: frac_part_def span_digits_end split: if_splits)

lemma exp_part_end: "exp_part s = Some (d, t) \<Longrightarrow> value_end r \<Longrightarrow> exp_part (s @ r) = Some (d, t @ r)"
proof (cases s)
  case Nil
  assume "exp_part s = Some (d, t)" "value_end r"
  with Nil show ?thesis
    by (cases r) (auto simp: exp_part_def value_end_def)
next
  case (Cons c s')
  assume "exp_part s = Some (d, t)" "value_end r"
  with Cons show ?thesis
    using span_digits_end[of s' _ t r] by (cases s') (auto simp: exp_part_def span_digits_end split: if_splits)
qed

lemma unsigned_number_end:
  "unsigned_number s = Some (d, t) \<Longrightarrow> value_end r \<Longrightarrow> unsigned_number (s @ r) = Some (d, t @ r)"
  by (auto simp: unsigned_number_def int_part_end frac_part_end exp_part_end split: option.splits prod.splits)

text \<open>A number's text, when it is one token of the grammar.\<close>

definition number_token :: "string \<Rightarrow> bool" where
  "number_token t \<longleftrightarrow> json_number t = Some (t, [])"

lemma json_number_end: "number_token t \<Longrightarrow> value_end r \<Longrightarrow> json_number (t @ r) = Some (t, r)"
  by (cases t) (auto simp: number_token_def json_number_def unsigned_number_end
      dest!: unsigned_number_end[of _ _ "[]" r] split: if_splits)


text \<open>
  The values a document gives back as they are: no \<open>undefined\<close>, finite numbers whose text is one token
  that reads back as the number, and no repeated key.
\<close>

fun plain_value :: "(jsnum \<Rightarrow> string) \<Rightarrow> (string \<Rightarrow> jsnum) \<Rightarrow> jsval \<Rightarrow> bool"
  and plain_values :: "(jsnum \<Rightarrow> string) \<Rightarrow> (string \<Rightarrow> jsnum) \<Rightarrow> jsval list \<Rightarrow> bool"
  and plain_fields :: "(jsnum \<Rightarrow> string) \<Rightarrow> (string \<Rightarrow> jsnum) \<Rightarrow> jsrecord \<Rightarrow> bool" where
  "plain_value nt pn JUndefined = False"
| "plain_value nt pn JNull = True"
| "plain_value nt pn (JBool b) = True"
| "plain_value nt pn (JNum n) = (is_finite n \<and> number_token (nt n) \<and> pn (nt n) = n)"
| "plain_value nt pn (JStr s) = True"
| "plain_value nt pn (JArr xs) = plain_values nt pn xs"
| "plain_value nt pn (JObj f) = (distinct (map fst f) \<and> plain_fields nt pn f)"
| "plain_values nt pn [] = True"
| "plain_values nt pn (x # xs) = (plain_value nt pn x \<and> plain_values nt pn xs)"
| "plain_fields nt pn [] = True"
| "plain_fields nt pn ((k, v) # f) = (plain_value nt pn v \<and> plain_fields nt pn f)"

lemma jset_append: "k \<notin> fst ` set m \<Longrightarrow> jset k v m = m @ [(k, v)]"
  by (induction m) auto

lemma json_object_distinct: "distinct (map fst f) \<Longrightarrow> json_object f = f"
proof -
  have "distinct (map fst (m @ f)) \<Longrightarrow> foldl (\<lambda>m (k, v). jset k v m) m f = m @ f" for m
  proof (induction f arbitrary: m)
    case (Cons p f)
    obtain k v where p: "p = (k, v)" by (cases p)
    have "jset k v m = m @ [(k, v)]"
      using Cons.prems p by (intro jset_append) auto
    then show ?case
      using Cons.IH[of "m @ [(k, v)]"] Cons.prems p by simp
  qed simp
  from this[of "[]"] show "distinct (map fst f) \<Longrightarrow> json_object f = f"
    by (simp add: json_object_def)
qed

lemma number_token_hd: "number_token t \<Longrightarrow> \<exists>c t'. t = c # t' \<and> (c = CHR ''-'' \<or> is_digit c)"
  by (cases t) (auto simp: number_token_def json_number_def unsigned_number_def int_part_def span_digits_def
      is_digit_def split: if_splits option.splits)

lemma skip_ws_hd [simp]: "\<not> json_ws c \<Longrightarrow> skip_ws (c # t) = c # t"
  by (simp add: skip_ws_def)

lemma value_end_skip [simp]: "value_end r \<Longrightarrow> skip_ws r = r"
  by (cases r) (auto simp: value_end_def skip_ws_def json_ws_def)

lemma not_ws [simp]: "\<not> json_ws CHR 0x22" "\<not> json_ws CHR '',''" "\<not> json_ws CHR '']''" "\<not> json_ws CHR ''}''"
  "\<not> json_ws CHR ''[''" "\<not> json_ws CHR ''{''" "\<not> json_ws CHR ''t''" "\<not> json_ws CHR ''f''" "\<not> json_ws CHR ''n''"
  "\<not> json_ws CHR '':''"
  by (simp_all add: json_ws_def)

lemma json_text_hd: "plain_value nt pn v \<Longrightarrow>
    \<exists>c t. json_text nt v = c # t \<and> \<not> json_ws c \<and> c \<noteq> CHR '']''"
proof (cases v)
  case (JNum n)
  assume "plain_value nt pn v"
  then show ?thesis
    using JNum number_token_hd[of "nt n"] by (auto simp: json_ws_def is_digit_def)
qed (auto simp: json_string_def)

lemma join_cons: "xs \<noteq> [] \<Longrightarrow> join sep (x # xs) = x @ sep @ join sep xs"
  by (cases xs) auto

lemma json_atom_number:
  assumes "number_token t" "value_end r"
  shows "json_atom pn (t @ r) = Some (JNum (pn t), r)"
proof -
  obtain c t' where c: "t = c # t'" "c = CHR ''-'' \<or> is_digit c"
    using number_token_hd[OF assms(1)] by blast
  then have "c \<noteq> CHR ''t''" "c \<noteq> CHR ''f''" "c \<noteq> CHR ''n''"
    by (auto simp: is_digit_def)
  then show ?thesis
    using c json_number_end[OF assms] by (simp add: json_atom_def drop_prefix_def starts_with_def)
qed


lemma json_text_skip: "plain_value nt pn v \<Longrightarrow> skip_ws (json_text nt v @ r) = json_text nt v @ r"
  using json_text_hd[of nt pn v] by auto

lemma json_texts_empty [simp]: "json_texts nt xs = [] \<longleftrightarrow> xs = []"
  by (cases xs) auto

lemma json_fields_empty: "plain_fields nt pn f \<Longrightarrow> json_fields nt f = [] \<longleftrightarrow> f = []"
  by (cases f) (auto split: if_splits)

lemma json_fields_cons: "plain_fields nt pn ((k, v) # f) \<Longrightarrow>
    json_fields nt ((k, v) # f) = (json_string k @ '':'' @ json_text nt v) # json_fields nt f"
  by auto

lemma json_elements_hd: "plain_values nt pn xs \<Longrightarrow> xs \<noteq> [] \<Longrightarrow>
    \<exists>c t. join '','' (json_texts nt xs) @ r = c # t \<and> \<not> json_ws c \<and> c \<noteq> CHR '']''"
proof (cases xs)
  case (Cons x ys)
  assume "plain_values nt pn xs"
  then obtain c t where "json_text nt x = c # t" "\<not> json_ws c" "c \<noteq> CHR '']''"
    using json_text_hd[of nt pn x] Cons by auto
  then show ?thesis
    using Cons by (cases ys) (auto simp: join_cons)
qed simp

lemma json_members_hd: "plain_fields nt pn f \<Longrightarrow> f \<noteq> [] \<Longrightarrow> \<exists>t. join '','' (json_fields nt f) @ r = CHR 0x22 # t"
proof (cases f)
  case (Cons x g)
  assume "plain_fields nt pn f"
  then show ?thesis
    using Cons by (cases x; cases g) (auto simp: json_string_def join_cons json_fields_empty[of nt pn]
        json_fields_cons simp del: json_fields.simps(2) split: if_splits)
qed simp


lemma parse_text:
  "plain_value nt pn v \<Longrightarrow> value_end r \<Longrightarrow> parse_value pn (json_text nt v @ r) = Some (v, r)"
  "plain_values nt pn xs \<Longrightarrow> xs \<noteq> [] \<Longrightarrow>
    parse_elements pn (join '','' (json_texts nt xs) @ CHR '']'' # r) = Some (xs, r)"
  "plain_fields nt pn f \<Longrightarrow> f \<noteq> [] \<Longrightarrow>
    parse_members pn (join '','' (json_fields nt f) @ CHR ''}'' # r) = Some (f, r)"
proof (induction nt v and nt xs and nt f arbitrary: r and r and r
    rule: json_text_json_texts_json_fields.induct)
  case (2 nt r)
  then show ?case by (simp add: parse_value.simps json_atom_def drop_prefix_def starts_with_def)
next
  case (3 nt b r)
  then show ?case by (simp add: parse_value.simps json_atom_def drop_prefix_def starts_with_def)
next
  case (4 nt n r)
  then obtain c t where c: "nt n = c # t" "c = CHR ''-'' \<or> is_digit c"
    using number_token_hd[of "nt n"] by auto
  then have "c \<noteq> CHR 0x22" "c \<noteq> CHR ''[''" "c \<noteq> CHR ''{''" "\<not> json_ws c"
    by (auto simp: is_digit_def json_ws_def)
  then show ?case
    using 4 c json_atom_number[of "nt n" r pn] by (simp add: parse_value.simps[of _ "c # _"])
next
  case (5 nt s r)
  then show ?case by (simp add: parse_value.simps json_string_def json_chars_text)
next
  case (6 nt xs r)
  show ?case
  proof (cases "xs = []")
    case False
    obtain c t where c: "join '','' (json_texts nt xs) @ CHR '']'' # r = c # t" "\<not> json_ws c" "c \<noteq> CHR '']''"
      using json_elements_hd[OF _ False, of nt pn "CHR '']'' # r"] 6(2) by auto
    then show ?thesis
      using 6(1)[OF _ False, of r] 6(2) by (simp add: parse_value.simps[of _ "CHR ''['' # _"])
  qed (simp add: parse_value.simps)
next
  case (7 nt f r)
  show ?case
  proof (cases "f = []")
    case False
    obtain t where c: "join '','' (json_fields nt f) @ CHR ''}'' # r = CHR 0x22 # t"
      using json_members_hd[OF _ False, of nt pn "CHR ''}'' # r"] 7(2) by auto
    then show ?thesis
      using 7(1)[OF _ False, of r] 7(2)
      by (simp add: parse_value.simps[of _ "CHR ''{'' # _"] json_object_distinct)
  qed (simp add: parse_value.simps)
next
  case (9 nt x xs r)
  show ?case
  proof (cases "xs = []")
    case True
    have "parse_value pn (json_text nt x @ CHR '']'' # r) = Some (x, CHR '']'' # r)"
      using 9(1)[of "CHR '']'' # r"] 9(3) by (simp add: value_end_def)
    then show ?thesis
      using True by (simp add: parse_elements.simps[of _ "json_text nt x @ _"])
  next
    case False
    let ?t = "join '','' (json_texts nt xs) @ CHR '']'' # r"
    have "parse_value pn (json_text nt x @ CHR '','' # ?t) = Some (x, CHR '','' # ?t)"
      using 9(1)[of "CHR '','' # ?t"] 9(3) by (simp add: value_end_def)
    then have "parse_elements pn (json_text nt x @ CHR '','' # ?t) = Some (x # xs, r)"
      using 9(2)[OF _ False, of r] 9(3) by (simp add: parse_elements.simps[of _ "json_text nt x @ _"])
    then show ?thesis
      using False by (simp add: join_cons)
  qed
next
  case (11 nt k v f r)
  have v: "v \<noteq> JUndefined" "plain_value nt pn v" "plain_fields nt pn f"
    using 11 by auto
  show ?case
  proof (cases "f = []")
    case True
    have "parse_value pn (json_text nt v @ CHR ''}'' # r) = Some (v, CHR ''}'' # r)"
      using 11(2)[OF v(1) v(2), of "CHR ''}'' # r"] by (simp add: value_end_def)
    then show ?thesis
      using True v by (simp add: parse_members.simps[of _ "CHR 0x22 # _"] json_string_def json_chars_text)
  next
    case False
    let ?t = "join '','' (json_fields nt f) @ CHR ''}'' # r"
    have "parse_value pn (json_text nt v @ CHR '','' # ?t) = Some (v, CHR '','' # ?t)"
      using 11(2)[OF v(1) v(2), of "CHR '','' # ?t"] by (simp add: value_end_def)
    then have "parse_members pn (json_string k @ CHR '':'' # json_text nt v @ CHR '','' # ?t) = Some ((k, v) # f, r)"
      using 11(3)[OF v(1) v(3) False, of r]
      by (simp add: parse_members.simps[of _ "CHR 0x22 # _"] json_string_def json_chars_text)
    then show ?thesis
      using False v by (simp add: join_cons json_fields_empty[of nt pn])
  qed
qed auto

end
