(* ===== verification/Protocol.thy ===== *)
theory Protocol
  imports Json_Text Line_Reader
begin

text \<open>
  The JSON line protocol between the host and a board, \<open>packages/core/src/protocol.ts\<close>: the four
  kinds of message, their encoders, \<open>decodeLine\<close>, \<open>parseLine\<close> and \<open>parseDeviceInfo\<close>. A line is a
  string of characters below 256; \<open>nt\<close> and \<open>pn\<close> are the text of a number and its value. The messages
  of errors are not modelled.
\<close>

definition maxProtocolLineBytes :: nat where
  "maxProtocolLineBytes = 1024"

definition protocolVersion :: jsval where
  "protocolVersion = JNum (Fin 1)"

datatype protocol_message =
    Request (msg_id: string) string jsrecord
  | Success (msg_id: string) jsrecord
  | Failure (msg_id: string) string string
  | Event string jsrecord

subsection \<open>Encoders\<close>

definition request_object :: "string \<Rightarrow> string \<Rightarrow> jsrecord \<Rightarrow> jsval" where
  "request_object i action payload =
    JObj [(''v'', protocolVersion), (''id'', JStr i), (''action'', JStr action), (''payload'', JObj payload)]"

definition response_object :: "string \<Rightarrow> jsrecord \<Rightarrow> jsval" where
  "response_object i result =
    JObj [(''v'', protocolVersion), (''id'', JStr i), (''ok'', JBool True), (''result'', JObj result)]"

definition failure_object :: "string \<Rightarrow> string \<Rightarrow> string \<Rightarrow> jsval" where
  "failure_object i code message =
    JObj [(''v'', protocolVersion), (''id'', JStr i), (''ok'', JBool False),
      (''error'', JObj [(''code'', JStr code), (''message'', JStr message)])]"

definition event_object :: "string \<Rightarrow> jsrecord \<Rightarrow> jsval" where
  "event_object event payload =
    JObj [(''v'', protocolVersion), (''event'', JStr event), (''payload'', JObj payload)]"

definition encodeRequest :: "(jsnum \<Rightarrow> string) \<Rightarrow> string \<Rightarrow> string \<Rightarrow> jsrecord \<Rightarrow> string" where
  "encodeRequest nt i action payload = json_text nt (request_object i action payload) @ [CHR 0x0A]"

definition encodeResponse :: "(jsnum \<Rightarrow> string) \<Rightarrow> string \<Rightarrow> jsrecord \<Rightarrow> string" where
  "encodeResponse nt i result = json_text nt (response_object i result) @ [CHR 0x0A]"

definition encodeFailure :: "(jsnum \<Rightarrow> string) \<Rightarrow> string \<Rightarrow> string \<Rightarrow> string \<Rightarrow> string" where
  "encodeFailure nt i code message = json_text nt (failure_object i code message) @ [CHR 0x0A]"

definition encodeEvent :: "(jsnum \<Rightarrow> string) \<Rightarrow> string \<Rightarrow> jsrecord \<Rightarrow> string" where
  "encodeEvent nt event payload = json_text nt (event_object event payload) @ [CHR 0x0A]"

text \<open>The encoder of each kind of message.\<close>

fun message_object :: "protocol_message \<Rightarrow> jsval" where
  "message_object (Request i a p) = request_object i a p"
| "message_object (Success i r) = response_object i r"
| "message_object (Failure i c m) = failure_object i c m"
| "message_object (Event e p) = event_object e p"

fun encode_message :: "(jsnum \<Rightarrow> string) \<Rightarrow> protocol_message \<Rightarrow> string" where
  "encode_message nt (Request i a p) = encodeRequest nt i a p"
| "encode_message nt (Success i r) = encodeResponse nt i r"
| "encode_message nt (Failure i c m) = encodeFailure nt i c m"
| "encode_message nt (Event e p) = encodeEvent nt e p"

subsection \<open>Decoder\<close>

datatype decoded =
    Ignored
  | InvalidJson
  | InvalidMessage
  | Message protocol_message

fun isPlainObject :: "jsval \<Rightarrow> bool" where
  "isPlainObject (JObj _) = True"
| "isPlainObject _ = False"

fun is_string :: "jsval \<Rightarrow> bool" where
  "is_string (JStr _) = True"
| "is_string _ = False"

fun string_of :: "jsval \<Rightarrow> string" where
  "string_of (JStr s) = s"
| "string_of _ = []"

text \<open>\<open>isPlainObject(x) ? x : {}\<close>\<close>

fun object_or_empty :: "jsval \<Rightarrow> jsrecord" where
  "object_or_empty (JObj f) = f"
| "object_or_empty _ = []"

text \<open>\<open>line.replace(/\r$/, '').trim()\<close>\<close>

definition trim_line :: "string \<Rightarrow> string" where
  "trim_line line = map char_of (trim (strip_cr (map of_char line)))"

definition decode_record :: "jsrecord \<Rightarrow> decoded" where
  "decode_record rec =
    (if \<not> js_strict_eq (ownprop rec ''v'') protocolVersion then InvalidMessage
     else if is_string (ownprop rec ''event'') then
       Message (Event (string_of (ownprop rec ''event'')) (object_or_empty (ownprop rec ''payload'')))
     else if \<not> is_string (ownprop rec ''id'') \<or> string_of (ownprop rec ''id'') = [] then InvalidMessage
     else
       (let i = string_of (ownprop rec ''id'') in
        if is_string (ownprop rec ''action'') then
          Message (Request i (string_of (ownprop rec ''action'')) (object_or_empty (ownprop rec ''payload'')))
        else if ownprop rec ''ok'' = JBool True then
          Message (Success i (object_or_empty (ownprop rec ''result'')))
        else if ownprop rec ''ok'' = JBool False then
          (let error = ownprop rec ''error''; f = object_or_empty error in
           if \<not> isPlainObject error \<or> \<not> is_string (ownprop f ''code'') \<or> \<not> is_string (ownprop f ''message'')
           then InvalidMessage
           else Message (Failure i (string_of (ownprop f ''code'')) (string_of (ownprop f ''message''))))
        else InvalidMessage))"

definition decodeLine :: "(string \<Rightarrow> jsnum) \<Rightarrow> string \<Rightarrow> decoded" where
  "decodeLine pn line =
    (let trimmed = trim_line line in
     if \<not> starts_with ''{'' trimmed then Ignored
     else (case json_parse pn trimmed of
         None \<Rightarrow> InvalidJson
       | Some value \<Rightarrow>
           if \<not> isPlainObject value then InvalidMessage else decode_record (object_or_empty value)))"

text \<open>\<open>Inl\<close> is the thrown \<open>ProtocolError\<close>.\<close>

definition parseLine :: "(string \<Rightarrow> jsnum) \<Rightarrow> string \<Rightarrow> perr + protocol_message option" where
  "parseLine pn line =
    (case decodeLine pn line of
      Ignored \<Rightarrow> Inr None
    | InvalidJson \<Rightarrow> Inl (PErr ''PROTOCOL_ERROR'' PROTOCOL)
    | InvalidMessage \<Rightarrow> Inl (PErr ''PROTOCOL_ERROR'' PROTOCOL)
    | Message m \<Rightarrow> Inr (Some m))"

subsection \<open>Device identity\<close>

record device_info =
  dv_firmware :: string
  dv_version :: string
  dv_capabilities :: "string list"
  dv_features :: "string list"
  dv_boardId :: "string option"

text \<open>\<open>Array.isArray(x) && x.every((item) => typeof item === 'string')\<close>\<close>

fun string_array :: "jsval \<Rightarrow> string list option" where
  "string_array (JArr xs) = (if list_all is_string xs then Some (map string_of xs) else None)"
| "string_array _ = None"

definition parseDeviceInfo :: "jsrecord \<Rightarrow> perr + device_info" where
  "parseDeviceInfo payload =
    (let features = (case string_array (ownprop payload ''features'') of Some fs \<Rightarrow> fs | None \<Rightarrow> []);
         bad = Inl (PErr ''PROTOCOL_ERROR'' PROTOCOL) in
     if \<not> is_string (ownprop payload ''firmware'') \<or> string_of (ownprop payload ''firmware'') = [] then bad
     else if \<not> is_string (ownprop payload ''version'') then bad
     else if \<not> js_strict_eq (ownprop payload ''protocol'') protocolVersion then bad
     else (case string_array (ownprop payload ''capabilities'') of
         None \<Rightarrow> bad
       | Some caps \<Rightarrow>
           Inr \<lparr>dv_firmware = string_of (ownprop payload ''firmware''),
                dv_version = string_of (ownprop payload ''version''),
                dv_capabilities = caps, dv_features = features,
                dv_boardId = (case ownprop payload ''boardId'' of JStr b \<Rightarrow> Some b | _ \<Rightarrow> None)\<rparr>))"

subsection \<open>The text of a message\<close>

text \<open>Escaping leaves no control character, so a document of plain values is one line.\<close>

lemma hex_digit_plain: "d < 16 \<Longrightarrow> 32 \<le> (of_char (hex_digit d) :: nat)"
  by (simp add: of_hex_digit)

lemma json_escape_printable: "c \<in> set (json_escape d) \<Longrightarrow> 32 \<le> (of_char c :: nat)"
  by (auto simp: json_escape_def less_mult_imp_div_less intro!: hex_digit_plain split: if_splits)

lemma json_string_printable: "c \<in> set (json_string s) \<Longrightarrow> 32 \<le> (of_char c :: nat)"
  by (auto simp: json_string_def dest: json_escape_printable)

lemma span_digits_printable: "span_digits s = Some (t, r) \<Longrightarrow> c \<in> set t \<Longrightarrow> 32 \<le> (of_char c :: nat)"
  by (auto simp: span_digits_def is_digit_def dest: set_takeWhileD split: if_splits)

lemma unsigned_number_printable:
  assumes "unsigned_number s = Some (t, r)" "c \<in> set t"
  shows "32 \<le> (of_char c :: nat)"
proof -
  obtain i f e r1 r2 where p: "int_part s = Some (i, r1)" "frac_part r1 = Some (f, r2)"
      "exp_part r2 = Some (e, r)" "t = i @ f @ e"
    using assms(1) by (auto simp: unsigned_number_def split: option.splits)
  have "32 \<le> (of_char c :: nat)" if "c \<in> set i"
    using p(1) that by (auto simp: int_part_def dest: span_digits_printable split: list.splits if_splits)
  moreover have "32 \<le> (of_char c :: nat)" if "c \<in> set f"
    using p(2) that by (auto simp: frac_part_def dest: span_digits_printable split: list.splits if_splits)
  moreover have "32 \<le> (of_char c :: nat)" if "c \<in> set e"
    using p(3) that by (auto simp: exp_part_def dest: span_digits_printable split: list.splits if_splits)
  ultimately show ?thesis
    using assms(2) p(4) by auto
qed

lemma number_token_printable: "number_token t \<Longrightarrow> c \<in> set t \<Longrightarrow> 32 \<le> (of_char c :: nat)"
  by (cases t) (auto simp: number_token_def json_number_def dest: unsigned_number_printable split: if_splits)

lemma join_printable: "c \<in> set (join '','' xs) \<Longrightarrow> \<forall>x\<in>set xs. \<forall>c\<in>set x. 32 \<le> (of_char c :: nat) \<Longrightarrow> 32 \<le> (of_char c :: nat)"
  by (induction "'',''" xs rule: join.induct) auto

lemma json_text_printable:
  "plain_value nt pn v \<Longrightarrow> \<forall>c\<in>set (json_text nt v). 32 \<le> (of_char c :: nat)"
  "plain_values nt pn xs \<Longrightarrow> \<forall>x\<in>set (json_texts nt xs). \<forall>c\<in>set x. 32 \<le> (of_char c :: nat)"
  "plain_fields nt pn f \<Longrightarrow> \<forall>x\<in>set (json_fields nt f). \<forall>c\<in>set x. 32 \<le> (of_char c :: nat)"
  by (induction nt v and nt xs and nt f rule: json_text_json_texts_json_fields.induct)
    (auto dest: number_token_printable json_string_printable join_printable)


subsection \<open>Round trip\<close>

text \<open>
  A message whose payload a document gives back, with the identifier the decoder asks for; the number 1
  is written as a token that reads as 1.
\<close>

fun plain_message :: "(jsnum \<Rightarrow> string) \<Rightarrow> (string \<Rightarrow> jsnum) \<Rightarrow> protocol_message \<Rightarrow> bool" where
  "plain_message nt pn (Request i a p) = (i \<noteq> [] \<and> plain_value nt pn (JObj p))"
| "plain_message nt pn (Success i r) = (i \<noteq> [] \<and> plain_value nt pn (JObj r))"
| "plain_message nt pn (Failure i c m) = (i \<noteq> [])"
| "plain_message nt pn (Event e p) = plain_value nt pn (JObj p)"

definition message_text :: "(jsnum \<Rightarrow> string) \<Rightarrow> protocol_message \<Rightarrow> string" where
  "message_text nt m = json_text nt (message_object m)"

lemma encode_message_text: "encode_message nt m = message_text nt m @ [CHR 0x0A]"
  by (cases m) (simp_all add: message_text_def encodeRequest_def encodeResponse_def encodeFailure_def encodeEvent_def)

lemmas object_defs = request_object_def response_object_def failure_object_def event_object_def

lemma plain_message_object:
  "plain_message nt pn m \<Longrightarrow> plain_value nt pn protocolVersion \<Longrightarrow> plain_value nt pn (message_object m)"
  by (cases m) (auto simp: object_defs)

lemma decode_message_object:
  "plain_message nt pn m \<Longrightarrow> decode_record (object_or_empty (message_object m)) = Message m"
  by (cases m) (auto simp: decode_record_def object_defs protocolVersion_def)

lemma json_parse_text: "plain_value nt pn v \<Longrightarrow> json_parse pn (json_text nt v) = Some v"
  using parse_text(1)[of nt pn v "[]"] by (simp add: json_parse_def value_end_def skip_ws_def)

text \<open>A document of an object starts and ends with a brace, so trimming leaves it.\<close>

lemma trim_line_same:
  assumes "s \<noteq> []" "hd s = CHR ''{''" "List.last s = CHR ''}''"
  shows "trim_line s = s"
proof -
  let ?u = "map of_char s :: nat list"
  have u: "?u \<noteq> []" "hd ?u = 123" "List.last ?u = 125"
    using assms by (auto simp: hd_map last_map)
  have "dropWhile white_space ?u = ?u"
    using u(1,2) by (cases ?u) (auto simp: white_space_def)
  moreover have "dropWhile white_space (rev ?u) = rev ?u"
    using u(1,3) by (cases "rev ?u") (auto simp: white_space_def hd_rev[symmetric])
  ultimately have "trim (strip_cr ?u) = ?u"
    using u by (simp add: trim_def strip_cr_def)
  then show ?thesis
    by (simp add: trim_line_def comp_def)
qed

lemma message_text_braces:
  "message_text nt m \<noteq> []" "hd (message_text nt m) = CHR ''{''" "List.last (message_text nt m) = CHR ''}''"
  by (cases m; simp add: message_text_def object_defs)+

lemma decode_message_text:
  assumes "plain_message nt pn m" "plain_value nt pn protocolVersion"
  shows "decodeLine pn (message_text nt m) = Message m"
proof -
  have "json_parse pn (message_text nt m) = Some (message_object m)"
    using json_parse_text[OF plain_message_object[OF assms]] by (simp add: message_text_def)
  moreover have "starts_with ''{'' (message_text nt m)"
    using message_text_braces[of nt m] by (cases "message_text nt m") (auto simp: starts_with_def)
  moreover have "isPlainObject (message_object m)"
    by (cases m) (simp_all add: object_defs)
  ultimately show ?thesis
    using decode_message_object[OF assms(1)] trim_line_same[OF message_text_braces[of nt m]]
    by (simp add: decodeLine_def)
qed


subsection \<open>Over a transport\<close>

text \<open>What \<open>textEncoder.encode\<close> sends for a message, and what the read loop makes of a line.\<close>

definition send_message :: "(jsnum \<Rightarrow> string) \<Rightarrow> protocol_message \<Rightarrow> nat list" where
  "send_message nt m = encode_text (map of_char (encode_message nt m))"

definition receive_line :: "(string \<Rightarrow> jsnum) \<Rightarrow> code_unit list \<Rightarrow> decoded" where
  "receive_line pn l = decodeLine pn (map char_of l)"

lemma utf16_chars: "utf16 (map of_char s) = map of_char s"
proof (induction s)
  case (Cons c s)
  have "(of_char c :: nat) < 65536"
    by (rule order_less_trans[of _ 256]) simp_all
  with Cons show ?case
    by (simp add: utf16_def units_of_def)
qed (simp add: utf16_def)

lemma send_message_line: "send_message nt m = encodeLine (map of_char (message_text nt m))"
proof -
  have "(of_char (List.last (message_text nt m)) :: nat) = 125"
    using message_text_braces[of nt m] by simp
  then show ?thesis
    using message_text_braces(1)[of nt m]
    by (simp add: send_message_def encodeLine_def encode_message_text last_map)
qed

lemma message_line_good:
  assumes "plain_message nt pn m" "plain_value nt pn protocolVersion" "length (message_text nt m) \<le> n"
  shows "good_line n (map of_char (message_text nt m))"
proof -
  have "\<forall>c\<in>set (message_text nt m). 32 \<le> (of_char c :: nat)"
    using json_text_printable(1)[OF plain_message_object[OF assms(1,2)]] by (simp add: message_text_def)
  then have "10 \<notin> (of_char :: char \<Rightarrow> nat) ` set (message_text nt m)"
    by force
  then show ?thesis
    using assms(3) message_text_braces[of nt m] by (simp add: good_line_def last_map)
qed

text \<open>C33: Messages survive the wire. Any sequence of protocol messages whose lines fit the limit of 1024,
  encoded, sent one after the other and cut into any chunks whatever, comes out of the line reader and the
  decoder as exactly these messages: no payload, quote, newline or control character inside a string can
  break a frame or change a message.\<close>

theorem messages_survive_the_wire:
  assumes "\<forall>m\<in>set ms. plain_message nt pn m \<and> length (message_text nt m) \<le> maxProtocolLineBytes"
    and "plain_value nt pn protocolVersion"
    and "concat chunks = concat (map (send_message nt) ms)"
  shows "\<exists>ls. readLines maxProtocolLineBytes chunks = map Line ls \<and> map (receive_line pn) ls = map Message ms"
proof -
  let ?ls = "map (\<lambda>m. map of_char (message_text nt m)) ms :: code_unit list list"
  have "\<forall>l\<in>set ?ls. good_line maxProtocolLineBytes l \<and> (\<exists>cs. l = utf16 cs \<and> (\<forall>c\<in>set cs. scalar_value c))"
  proof clarsimp
    fix m assume m: "m \<in> set ms"
    have "\<forall>c\<in>set (map of_char (message_text nt m) :: nat list). scalar_value c"
      by (auto simp: scalar_value_def intro: order_less_trans[of _ 256])
    then show "good_line maxProtocolLineBytes (map of_char (message_text nt m)) \<and>
        (\<exists>cs. map of_char (message_text nt m) = utf16 cs \<and> (\<forall>c\<in>set cs. scalar_value c))"
      using message_line_good assms(1,2) m utf16_chars by metis
  qed
  moreover have "?ls = [] \<or> hd (hd ?ls) \<noteq> 65279"
    using message_text_braces[of nt "hd ms"] by (cases ms) (auto simp: hd_map)
  moreover have "concat chunks = concat (map encodeLine ?ls)"
    using assms(3) by (simp add: send_message_line[abs_def] comp_def)
  ultimately have "readLines maxProtocolLineBytes chunks = map Line ?ls"
    by (rule lines_survive_chunking)
  moreover have "map (receive_line pn) ?ls = map Message ms"
    using decode_message_text[OF _ assms(2)] assms(1) by (simp add: receive_line_def comp_def)
  ultimately show ?thesis
    by blast
qed

text \<open>A failure whose message holds a quote and a line feed, cut inside the escape.\<close>

definition wit_num_text :: "jsnum \<Rightarrow> string" where
  "wit_num_text n = (if n = Fin 1 then ''1'' else ''0'')"

definition wit_num_value :: "string \<Rightarrow> jsnum" where
  "wit_num_value t = (if t = ''1'' then Fin 1 else Fin 0)"

definition wit_failure :: protocol_message where
  "wit_failure = Failure ''s:0'' ''E'' [CHR 0x22, CHR 0x0A]"

lemma wit_num_one: "number_token ''1''"
  by (simp add: number_token_def json_number_def unsigned_number_def int_part_def span_digits_def frac_part_def
      exp_part_def is_digit_def)

theorem messages_survive_the_wire_witness:
  "\<exists>ls. readLines maxProtocolLineBytes [take 50 (send_message wit_num_text wit_failure),
       drop 50 (send_message wit_num_text wit_failure)] = map Line ls \<and>
     map (receive_line wit_num_value) ls = [Message wit_failure]"
proof -
  have "\<exists>ls. readLines maxProtocolLineBytes [take 50 (send_message wit_num_text wit_failure),
       drop 50 (send_message wit_num_text wit_failure)] = map Line ls \<and>
     map (receive_line wit_num_value) ls = map Message [wit_failure]"
    by (rule messages_survive_the_wire[where nt = wit_num_text and pn = wit_num_value])
      (simp_all add: wit_failure_def message_text_def failure_object_def protocolVersion_def json_string_def json_escape_def
        wit_num_text_def wit_num_value_def wit_num_one maxProtocolLineBytes_def)
  then show ?thesis
    by simp
qed

text \<open>\<open>decodeLine\<close> never reports a JSON value that is not an object: the brace test before the parser
  leaves only objects and syntax errors.\<close>

theorem not_an_object_unreachable:
  assumes "starts_with ''{'' (trim_line line)" and "json_parse pn (trim_line line) = Some v"
  shows "isPlainObject v"
proof -
  obtain s where "trim_line line = CHR ''{'' # s"
    using assms(1) by (cases "trim_line line") (auto simp: starts_with_def)
  then show ?thesis
    using assms(2) by (auto simp: json_parse_def parse_value.simps[of _ "CHR ''{'' # _"] split: option.splits if_splits)
qed

text \<open>A decoded request or response always names its request.\<close>

theorem decoded_id_nonempty: "decodeLine pn line = Message m \<Longrightarrow> (\<exists>e p. m = Event e p) \<or> msg_id m \<noteq> []"
  by (auto simp: decodeLine_def decode_record_def Let_def split: if_splits option.splits)

end
