(* ===== verification/Session.thy ===== *)
theory Session
  imports Protocol
begin

text \<open>
  A session with a board, \<open>packages/core/src/session.ts\<close>: requests with their timers and abort
  listeners, the read loop, the \<open>ready\<close> event, \<open>connect\<close> with its hello attempts, and \<open>close\<close>. One step
  is a stretch between two awaits, or the firing of a timer, an abort signal, a failed write or a line of
  the transport. Signals, connect calls and listeners are numbered. A promise of a request is an entry of
  \<open>ss_outcome\<close>, which later calls of \<open>resolve\<close> and \<open>reject\<close> do not change.
\<close>

datatype outcome = Answered protocol_message | Rejected perr

text \<open>Where a call of \<open>connect\<close> stands.\<close>

datatype connect_phase =
    Opening
  | AwaitReady
  | ReadySettled
  | ReadyAborted
  | Hello time nat "perr + string"
  | Closing perr
  | Failed perr
  | Connected device_info

record session =
  ss_sessionId :: string
  ss_timeoutMs :: time
  ss_connectSignal :: "nat option"
  ss_pending :: "(string, nat option) jmap"
  ss_timers :: "string list"
  ss_abortListeners :: "(nat \<times> string) list"
  ss_nextRequestId :: nat
  ss_outcome :: "(string, outcome) jmap"
  ss_writes :: "(string \<times> string \<times> jsrecord) list"
  ss_aborted :: "nat list"
  ss_readers :: nat
  ss_open :: bool
  ss_closed :: bool
  ss_transport :: bool
  ss_deviceInfo :: "device_info option"
  ss_readyWaiters :: "nat list"
  ss_readyTimers :: "nat list"
  ss_readyAborts :: "nat list"
  ss_connects :: "connect_phase list"
  ss_eventListeners :: "nat list"
  ss_delivered :: "(nat \<times> string \<times> jsrecord) list"

definition Session :: "string \<Rightarrow> time \<Rightarrow> nat option \<Rightarrow> session" where
  "Session sid timeoutMs sg =
    \<lparr>ss_sessionId = sid, ss_timeoutMs = timeoutMs, ss_connectSignal = sg, ss_pending = [], ss_timers = [],
     ss_abortListeners = [], ss_nextRequestId = 0, ss_outcome = [], ss_writes = [], ss_aborted = [],
     ss_readers = 0, ss_open = False, ss_closed = False, ss_transport = False, ss_deviceInfo = None,
     ss_readyWaiters = [], ss_readyTimers = [], ss_readyAborts = [], ss_connects = [],
     ss_eventListeners = [], ss_delivered = []\<rparr>"

abbreviation "DisconnectedError \<equiv> PErr ''DISCONNECTED'' TRANSPORT"
abbreviation "AbortedError \<equiv> PErr ''ABORTED'' OPERATION"
abbreviation "TimeoutError \<equiv> PErr ''TIMEOUT'' TIMEOUT"
abbreviation "TransportError \<equiv> PErr ''TRANSPORT_ERROR'' TRANSPORT"

definition request_id :: "string \<Rightarrow> nat \<Rightarrow> string" where
  "request_id sid k = sid @ '':'' @ nat_str k"

subsection \<open>Requests\<close>

definition finishPending :: "string \<Rightarrow> session \<Rightarrow> session" where
  "finishPending i s =
    (case jget (ss_pending s) i of
      None \<Rightarrow> s
    | Some sg \<Rightarrow>
        s\<lparr>ss_timers := removeAll i (ss_timers s),
          ss_abortListeners := (case sg of None \<Rightarrow> ss_abortListeners s
            | Some g \<Rightarrow> removeAll (g, i) (ss_abortListeners s)),
          ss_pending := jdelete i (ss_pending s)\<rparr>)"

text \<open>\<open>resolve\<close> or \<open>reject\<close> of the promise of a request: only the first call counts.\<close>

definition settle :: "string \<Rightarrow> outcome \<Rightarrow> session \<Rightarrow> session" where
  "settle i r s =
    (if jget (ss_outcome s) i \<noteq> None then s else s\<lparr>ss_outcome := jset i r (ss_outcome s)\<rparr>)"

definition finish_and_settle :: "outcome \<Rightarrow> string \<Rightarrow> session \<Rightarrow> session" where
  "finish_and_settle r i s = settle i r (finishPending i s)"

text \<open>The part of \<open>request\<close> before its promise settles: the id of the sent request, or what it throws.\<close>

definition request :: "string \<Rightarrow> jsrecord \<Rightarrow> nat option \<Rightarrow> session \<Rightarrow> (perr + string) \<times> session" where
  "request action payload options_signal s =
    (if \<not> ss_open s \<or> ss_closed s then (Inl DisconnectedError, s)
     else
       (let sg = (case options_signal of Some g \<Rightarrow> Some g | None \<Rightarrow> ss_connectSignal s) in
        if (case sg of Some g \<Rightarrow> g \<in> set (ss_aborted s) | None \<Rightarrow> False) then (Inl AbortedError, s)
        else
          (let i = request_id (ss_sessionId s) (ss_nextRequestId s) in
           (Inr i,
            s\<lparr>ss_nextRequestId := Suc (ss_nextRequestId s),
              ss_timers := ss_timers s @ [i],
              ss_abortListeners := (case sg of None \<Rightarrow> ss_abortListeners s
                | Some g \<Rightarrow> ss_abortListeners s @ [(g, i)]),
              ss_pending := jset i sg (ss_pending s),
              ss_writes := ss_writes s @ [(i, action, payload)]\<rparr>))))"

text \<open>What the caller of \<open>request\<close> gets from its settled promise.\<close>

fun request_result :: "outcome \<Rightarrow> perr + jsrecord" where
  "request_result (Answered (Success i r)) = Inr r"
| "request_result (Answered (Failure i code message)) = Inl (PErr code (classifyCode code))"
| "request_result (Answered m) = Inr []"
| "request_result (Rejected e) = Inl e"

definition request_timer :: "string \<Rightarrow> session \<Rightarrow> session" where
  "request_timer i s =
    (if i \<in> set (ss_timers s)
     then finish_and_settle (Rejected TimeoutError) i (s\<lparr>ss_timers := removeAll i (ss_timers s)\<rparr>) else s)"

definition write_failed :: "string \<Rightarrow> session \<Rightarrow> session" where
  "write_failed i s =
    (if i \<in> fst ` set (ss_writes s) then finish_and_settle (Rejected TransportError) i s else s)"

definition rejectAll :: "perr \<Rightarrow> session \<Rightarrow> session" where
  "rejectAll e s = fold (finish_and_settle (Rejected e)) (map fst (ss_pending s)) s"

subsection \<open>Connecting\<close>

definition set_phase :: "nat \<Rightarrow> connect_phase \<Rightarrow> session \<Rightarrow> session" where
  "set_phase n p s = s\<lparr>ss_connects := (ss_connects s)[n := p]\<rparr>"

definition close :: "session \<Rightarrow> session" where
  "close s =
    (if ss_closed s then s
     else (rejectAll DisconnectedError (s\<lparr>ss_closed := True, ss_open := False\<rparr>))\<lparr>ss_transport := False\<rparr>)"

definition connect :: "session \<Rightarrow> session" where
  "connect s = s\<lparr>ss_connects := ss_connects s @ [if ss_open s then Failed TransportError else Opening]\<rparr>"

definition waitForReady :: "nat \<Rightarrow> session \<Rightarrow> session" where
  "waitForReady n s =
    (if ss_deviceInfo s \<noteq> None then set_phase n ReadySettled s
     else if (case ss_connectSignal s of Some g \<Rightarrow> g \<in> set (ss_aborted s) | None \<Rightarrow> False)
     then set_phase n ReadyAborted s
     else set_phase n AwaitReady
       (s\<lparr>ss_readyTimers := ss_readyTimers s @ [n], ss_readyWaiters := ss_readyWaiters s @ [n],
          ss_readyAborts := (if ss_connectSignal s = None then ss_readyAborts s else ss_readyAborts s @ [n])\<rparr>))"

text \<open>\<open>await this.transport.open()\<close> returns.\<close>

definition transport_opened :: "nat \<Rightarrow> bool \<Rightarrow> session \<Rightarrow> session" where
  "transport_opened n ok s =
    (if n < length (ss_connects s) \<and> ss_connects s ! n = Opening then
       (if \<not> ok then set_phase n (Failed TransportError) s
        else waitForReady n (s\<lparr>ss_transport := True, ss_open := True, ss_readers := Suc (ss_readers s)\<rparr>))
     else s)"

definition leave_ready :: "nat \<Rightarrow> connect_phase \<Rightarrow> session \<Rightarrow> session" where
  "leave_ready n p s =
    set_phase n p (s\<lparr>ss_readyTimers := removeAll n (ss_readyTimers s),
      ss_readyWaiters := removeAll n (ss_readyWaiters s), ss_readyAborts := removeAll n (ss_readyAborts s)\<rparr>)"

definition ready_timer :: "nat \<Rightarrow> session \<Rightarrow> session" where
  "ready_timer n s = (if n \<in> set (ss_readyTimers s) then leave_ready n ReadySettled s else s)"

definition connect_fails :: "nat \<Rightarrow> perr \<Rightarrow> session \<Rightarrow> session" where
  "connect_fails n e s = set_phase n (Closing e) (close s)"

text \<open>One round of the loop of \<open>requestHello\<close>.\<close>

definition hello_attempt :: "nat \<Rightarrow> time \<Rightarrow> nat \<Rightarrow> time \<Rightarrow> session \<Rightarrow> session" where
  "hello_attempt n deadline attempts now s =
    (if now < deadline then
       (case request ''sys.hello'' [] (ss_connectSignal s) s of
         (r, s') \<Rightarrow> set_phase n (Hello deadline (Suc attempts) r) s')
     else connect_fails n TimeoutError s)"

definition hello_settled :: "nat \<Rightarrow> time \<Rightarrow> nat \<Rightarrow> time \<Rightarrow> outcome \<Rightarrow> session \<Rightarrow> session" where
  "hello_settled n deadline attempts now r s =
    (if (case r of Rejected (PErr c _) \<Rightarrow> c = ''TIMEOUT'' | _ \<Rightarrow> False)
     then hello_attempt n deadline attempts now s
     else (case request_result r of
         Inl e \<Rightarrow> connect_fails n e s
       | Inr payload \<Rightarrow>
           (case parseDeviceInfo payload of
             Inl e \<Rightarrow> connect_fails n e s
           | Inr info \<Rightarrow> set_phase n (Connected info) (s\<lparr>ss_deviceInfo := Some info\<rparr>))))"

text \<open>The continuation of \<open>connect\<close> after the await it stands at.\<close>

definition connect_next :: "nat \<Rightarrow> time \<Rightarrow> session \<Rightarrow> session" where
  "connect_next n now s =
    (if length (ss_connects s) \<le> n then s
     else (case ss_connects s ! n of
         ReadySettled \<Rightarrow> hello_attempt n (now + ss_timeoutMs s) 0 now s
       | ReadyAborted \<Rightarrow> connect_fails n AbortedError s
       | Hello deadline attempts (Inl e) \<Rightarrow> connect_fails n e s
       | Hello deadline attempts (Inr i) \<Rightarrow>
           (case jget (ss_outcome s) i of
             None \<Rightarrow> s
           | Some r \<Rightarrow> hello_settled n deadline attempts now r s)
       | Closing e \<Rightarrow> set_phase n (Failed e) s
       | _ \<Rightarrow> s))"

definition abort_signal :: "nat \<Rightarrow> session \<Rightarrow> session" where
  "abort_signal g s =
    (if g \<in> set (ss_aborted s) then s
     else
       (let s1 = fold (finish_and_settle (Rejected AbortedError))
              (map snd (filter (\<lambda>l. fst l = g) (ss_abortListeners s))) (s\<lparr>ss_aborted := g # ss_aborted s\<rparr>)
        in if ss_connectSignal s = Some g then fold (\<lambda>n. leave_ready n ReadyAborted) (ss_readyAborts s1) s1 else s1))"

subsection \<open>The read loop\<close>

text \<open>The catch and the finally of the loop.\<close>

definition reader_fails :: "perr \<Rightarrow> session \<Rightarrow> session" where
  "reader_fails e s = (rejectAll DisconnectedError (rejectAll e s))\<lparr>ss_readers := ss_readers s - 1\<rparr>"

definition reader_ends :: "session \<Rightarrow> session" where
  "reader_ends s = (rejectAll DisconnectedError s)\<lparr>ss_readers := ss_readers s - 1\<rparr>"

text \<open>The listeners get the event in turn, up to the first that throws; \<open>throwing\<close> says which do and what.\<close>

definition notify :: "(nat, perr) jmap \<Rightarrow> string \<Rightarrow> jsrecord \<Rightarrow> session \<Rightarrow> session" where
  "notify throwing event payload s =
    (let calm = takeWhile (\<lambda>l. jget throwing l = None) (ss_eventListeners s);
         rest = dropWhile (\<lambda>l. jget throwing l = None) (ss_eventListeners s);
         s1 = s\<lparr>ss_delivered := ss_delivered s @ map (\<lambda>l. (l, event, payload)) (calm @ take 1 rest)\<rparr>
     in case rest of
          [] \<Rightarrow> s1
        | l # _ \<Rightarrow> reader_fails (case jget throwing l of Some e \<Rightarrow> e | None \<Rightarrow> TransportError) s1)"

definition handleEvent :: "(nat, perr) jmap \<Rightarrow> string \<Rightarrow> jsrecord \<Rightarrow> session \<Rightarrow> session" where
  "handleEvent throwing event payload s =
    (if event = ''ready'' then
       (case parseDeviceInfo payload of
         Inl e \<Rightarrow> reader_fails e s
       | Inr info \<Rightarrow>
           notify throwing event payload
             (fold (\<lambda>n. leave_ready n ReadySettled) (ss_readyWaiters s) (s\<lparr>ss_deviceInfo := Some info\<rparr>)))
     else notify throwing event payload s)"

definition handleResponse :: "protocol_message \<Rightarrow> session \<Rightarrow> session" where
  "handleResponse m s =
    (if jget (ss_pending s) (msg_id m) = None then s
     else finish_and_settle (Answered m) (msg_id m) s)"

definition read_line :: "(string \<Rightarrow> jsnum) \<Rightarrow> (nat, perr) jmap \<Rightarrow> string \<Rightarrow> session \<Rightarrow> session" where
  "read_line pn throwing line s =
    (if ss_readers s = 0 then s
     else (case parseLine pn line of
         Inl _ \<Rightarrow> s
       | Inr None \<Rightarrow> s
       | Inr (Some m) \<Rightarrow>
           (case m of
             Event event payload \<Rightarrow> handleEvent throwing event payload s
           | Request _ _ _ \<Rightarrow> s
           | _ \<Rightarrow> handleResponse m s)))"

subsection \<open>Everything that happens to a session\<close>

datatype session_event =
    EConnect
  | EOpened nat bool
  | EReadyTimer nat
  | EConnectNext nat time
  | ERequest string jsrecord "nat option"
  | ETimer string
  | EAbort nat
  | EWriteFailed string
  | ELine "(nat, perr) jmap" string
  | EStreamEnd
  | EStreamError perr
  | EClose
  | EListen nat
  | EUnlisten nat

fun session_step :: "(string \<Rightarrow> jsnum) \<Rightarrow> session_event \<Rightarrow> session \<Rightarrow> session" where
  "session_step pn EConnect s = connect s"
| "session_step pn (EOpened n ok) s = transport_opened n ok s"
| "session_step pn (EReadyTimer n) s = ready_timer n s"
| "session_step pn (EConnectNext n now) s = connect_next n now s"
| "session_step pn (ERequest a p sg) s = snd (request a p sg s)"
| "session_step pn (ETimer i) s = request_timer i s"
| "session_step pn (EAbort g) s = abort_signal g s"
| "session_step pn (EWriteFailed i) s = write_failed i s"
| "session_step pn (ELine throwing line) s = read_line pn throwing line s"
| "session_step pn EStreamEnd s = (if ss_readers s = 0 then s else reader_ends s)"
| "session_step pn (EStreamError e) s = (if ss_readers s = 0 then s else reader_fails e s)"
| "session_step pn EClose s = close s"
| "session_step pn (EListen l) s =
    s\<lparr>ss_eventListeners := if l \<in> set (ss_eventListeners s) then ss_eventListeners s else ss_eventListeners s @ [l]\<rparr>"
| "session_step pn (EUnlisten l) s = s\<lparr>ss_eventListeners := removeAll l (ss_eventListeners s)\<rparr>"

definition session_run :: "(string \<Rightarrow> jsnum) \<Rightarrow> session_event list \<Rightarrow> session \<Rightarrow> session" where
  "session_run pn evs s = fold (session_step pn) evs s"

lemma session_run_simps [simp]:
  "session_run pn [] s = s"
  "session_run pn (ev # evs) s = session_run pn evs (session_step pn ev s)"
  by (simp_all add: session_run_def)

lemma session_run_append: "session_run pn (es @ fs) s = session_run pn fs (session_run pn es s)"
  by (simp add: session_run_def)


subsection \<open>What the operations leave alone\<close>

lemma finish_fields [simp]:
  "ss_sessionId (finish_and_settle r i s) = ss_sessionId s"
  "ss_nextRequestId (finish_and_settle r i s) = ss_nextRequestId s"
  "ss_writes (finish_and_settle r i s) = ss_writes s"
  "ss_connectSignal (finish_and_settle r i s) = ss_connectSignal s"
  "ss_readers (finish_and_settle r i s) = ss_readers s"
  "ss_open (finish_and_settle r i s) = ss_open s"
  "ss_closed (finish_and_settle r i s) = ss_closed s"
  "ss_transport (finish_and_settle r i s) = ss_transport s"
  "ss_connects (finish_and_settle r i s) = ss_connects s"
  "ss_eventListeners (finish_and_settle r i s) = ss_eventListeners s"
  "ss_readyAborts (finish_and_settle r i s) = ss_readyAborts s"
  by (simp_all add: finish_and_settle_def settle_def finishPending_def split: option.split)

lemma fold_finish_fields [simp]:
  "ss_sessionId (fold (finish_and_settle r) is s) = ss_sessionId s"
  "ss_nextRequestId (fold (finish_and_settle r) is s) = ss_nextRequestId s"
  "ss_writes (fold (finish_and_settle r) is s) = ss_writes s"
  "ss_connectSignal (fold (finish_and_settle r) is s) = ss_connectSignal s"
  "ss_readers (fold (finish_and_settle r) is s) = ss_readers s"
  "ss_open (fold (finish_and_settle r) is s) = ss_open s"
  "ss_closed (fold (finish_and_settle r) is s) = ss_closed s"
  "ss_transport (fold (finish_and_settle r) is s) = ss_transport s"
  "ss_connects (fold (finish_and_settle r) is s) = ss_connects s"
  "ss_eventListeners (fold (finish_and_settle r) is s) = ss_eventListeners s"
  "ss_readyAborts (fold (finish_and_settle r) is s) = ss_readyAborts s"
  by (induction "is" arbitrary: s) simp_all

lemma set_phase_fields [simp]:
  "ss_sessionId (set_phase n p s) = ss_sessionId s" "ss_nextRequestId (set_phase n p s) = ss_nextRequestId s"
  "ss_writes (set_phase n p s) = ss_writes s" "ss_pending (set_phase n p s) = ss_pending s"
  "ss_outcome (set_phase n p s) = ss_outcome s" "ss_timers (set_phase n p s) = ss_timers s"
  "ss_abortListeners (set_phase n p s) = ss_abortListeners s" "ss_closed (set_phase n p s) = ss_closed s"
  "ss_transport (set_phase n p s) = ss_transport s" "ss_open (set_phase n p s) = ss_open s"
  "ss_readers (set_phase n p s) = ss_readers s" "ss_connects (set_phase n p s) = (ss_connects s)[n := p]"
  by (simp_all add: set_phase_def)

lemma leave_ready_fields [simp]:
  "ss_sessionId (leave_ready n p s) = ss_sessionId s" "ss_nextRequestId (leave_ready n p s) = ss_nextRequestId s"
  "ss_writes (leave_ready n p s) = ss_writes s" "ss_pending (leave_ready n p s) = ss_pending s"
  "ss_outcome (leave_ready n p s) = ss_outcome s" "ss_timers (leave_ready n p s) = ss_timers s"
  "ss_abortListeners (leave_ready n p s) = ss_abortListeners s" "ss_closed (leave_ready n p s) = ss_closed s"
  "ss_transport (leave_ready n p s) = ss_transport s" "ss_open (leave_ready n p s) = ss_open s"
  "ss_readers (leave_ready n p s) = ss_readers s" "ss_connects (leave_ready n p s) = (ss_connects s)[n := p]"
  by (simp_all add: leave_ready_def)

lemma fold_leave_ready_fields [simp]:
  "ss_sessionId (fold (\<lambda>n. leave_ready n p) ns s) = ss_sessionId s"
  "ss_nextRequestId (fold (\<lambda>n. leave_ready n p) ns s) = ss_nextRequestId s"
  "ss_writes (fold (\<lambda>n. leave_ready n p) ns s) = ss_writes s"
  "ss_pending (fold (\<lambda>n. leave_ready n p) ns s) = ss_pending s"
  "ss_outcome (fold (\<lambda>n. leave_ready n p) ns s) = ss_outcome s"
  "ss_timers (fold (\<lambda>n. leave_ready n p) ns s) = ss_timers s"
  "ss_abortListeners (fold (\<lambda>n. leave_ready n p) ns s) = ss_abortListeners s"
  "ss_closed (fold (\<lambda>n. leave_ready n p) ns s) = ss_closed s"
  "ss_transport (fold (\<lambda>n. leave_ready n p) ns s) = ss_transport s"
  "ss_open (fold (\<lambda>n. leave_ready n p) ns s) = ss_open s"
  "ss_readers (fold (\<lambda>n. leave_ready n p) ns s) = ss_readers s"
  by (induction ns arbitrary: s) simp_all

subsection \<open>The books\<close>

text \<open>
  Every id given out is pending or settled, never both; exactly the pending ones have a timer, and an abort
  listener when they have a signal.
\<close>

definition issued :: "session \<Rightarrow> string \<Rightarrow> bool" where
  "issued s i \<longleftrightarrow> i \<in> request_id (ss_sessionId s) ` {..<ss_nextRequestId s}"

definition books :: "session \<Rightarrow> bool" where
  "books s \<longleftrightarrow> wf_map (ss_pending s) \<and> wf_map (ss_outcome s) \<and>
    (\<forall>i. i \<in> set (ss_timers s) \<longleftrightarrow> jhas (ss_pending s) i) \<and>
    (\<forall>g i. (g, i) \<in> set (ss_abortListeners s) \<longleftrightarrow> jget (ss_pending s) i = Some (Some g)) \<and>
    (\<forall>i. \<not> (jhas (ss_pending s) i \<and> jhas (ss_outcome s) i)) \<and>
    (\<forall>i. jhas (ss_pending s) i \<or> jhas (ss_outcome s) i \<longleftrightarrow> issued s i) \<and>
    map fst (ss_writes s) = map (request_id (ss_sessionId s)) [0..<ss_nextRequestId s]"

definition session_inv :: "session \<Rightarrow> bool" where
  "session_inv s \<longleftrightarrow> books s \<and> (ss_closed s \<longrightarrow> ss_pending s = [])"

lemma request_id_inject [simp]: "request_id sid k = request_id sid k' \<longleftrightarrow> k = k'"
  by (auto simp: request_id_def) (metis str_nat_str)

lemma finish_pending: "jget (ss_pending (finish_and_settle r i s)) j = (if j = i then None else jget (ss_pending s) j)"
  by (auto simp: finish_and_settle_def settle_def finishPending_def jmap_simps split: option.splits)

lemma finish_outcome: "jget (ss_outcome (finish_and_settle r i s)) j =
    (if j = i \<and> jget (ss_outcome s) i = None then Some r else jget (ss_outcome s) j)"
  by (auto simp: finish_and_settle_def settle_def finishPending_def jmap_simps split: option.splits)

lemma finish_timers: "books s \<Longrightarrow> set (ss_timers (finish_and_settle r i s)) = set (ss_timers s) - {i}"
  by (auto simp: finish_and_settle_def settle_def finishPending_def books_def split: option.splits)

lemma finish_listeners: "books s \<Longrightarrow>
    set (ss_abortListeners (finish_and_settle r i s)) = {l \<in> set (ss_abortListeners s). snd l \<noteq> i}"
  by (auto simp: finish_and_settle_def settle_def finishPending_def books_def split: option.splits)

lemma finish_wf: "wf_map (ss_pending s) \<Longrightarrow> wf_map (ss_pending (finish_and_settle r i s))"
  "wf_map (ss_outcome s) \<Longrightarrow> wf_map (ss_outcome (finish_and_settle r i s))"
  by (auto simp: finish_and_settle_def settle_def finishPending_def wf_intros split: option.splits)

lemma books_finish:
  assumes "books s" "issued s i"
  shows "books (finish_and_settle r i s)"
proof -
  note b = assms(1)[unfolded books_def]
  have "issued (finish_and_settle r i s) j = issued s j" for j
    by (simp add: issued_def)
  then show ?thesis
    unfolding books_def
    using b finish_wf assms(2)
    by (auto simp: finish_pending finish_outcome finish_timers[OF assms(1)] finish_listeners[OF assms(1)])
qed

lemma issued_finish [simp]: "issued (finish_and_settle r i s) = issued s"
  by (simp add: issued_def fun_eq_iff)

lemma books_fold_finish: "books s \<Longrightarrow> \<forall>i\<in>set is. issued s i \<Longrightarrow> books (fold (finish_and_settle r) is s)"
  by (induction "is" arbitrary: s) (auto simp: books_finish)

lemma fold_finish_pending:
  "jget (ss_pending (fold (finish_and_settle r) is s)) j = (if j \<in> set is then None else jget (ss_pending s) j)"
  by (induction "is" arbitrary: s) (auto simp: finish_pending)

lemma fold_finish_outcome:
  "jget (ss_outcome (fold (finish_and_settle r) is s)) j =
    (if j \<in> set is \<and> jget (ss_outcome s) j = None then Some r else jget (ss_outcome s) j)"
  by (induction "is" arbitrary: s) (auto simp: finish_outcome)

lemma map_of_None_Nil: "(\<And>i. jget m i = None) \<Longrightarrow> m = []"
  by (cases m) (auto, metis option.distinct(1))

lemma rejectAll_pending: "ss_pending (rejectAll e s) = []"
  by (rule map_of_None_Nil) (auto simp: rejectAll_def fold_finish_pending map_of_eq_None_iff)

lemma books_issued: "books s \<Longrightarrow> jget (ss_pending s) i = Some x \<Longrightarrow> issued s i"
  by (auto simp: books_def)

lemma books_rejectAll: "books s \<Longrightarrow> books (rejectAll e s)"
  unfolding rejectAll_def by (rule books_fold_finish) (auto dest!: weak_map_of_SomeI simp: books_issued)

lemma rejectAll_fields [simp]:
  "ss_sessionId (rejectAll e s) = ss_sessionId s" "ss_nextRequestId (rejectAll e s) = ss_nextRequestId s"
  "ss_writes (rejectAll e s) = ss_writes s" "ss_closed (rejectAll e s) = ss_closed s"
  "ss_transport (rejectAll e s) = ss_transport s" "ss_open (rejectAll e s) = ss_open s"
  "ss_readers (rejectAll e s) = ss_readers s" "ss_connects (rejectAll e s) = ss_connects s"
  by (simp_all add: rejectAll_def)


text \<open>The steps that only move the handshake do not touch the books.\<close>

lemma books_phase [simp]:
  "books (set_phase n p s) = books s" "books (leave_ready n p s) = books s"
  "books (fold (\<lambda>n. leave_ready n p) ns s) = books s"
  by (simp_all add: books_def issued_def)

lemma inv_phase [simp]:
  "session_inv (set_phase n p s) = session_inv s" "session_inv (leave_ready n p s) = session_inv s"
  "session_inv (fold (\<lambda>n. leave_ready n p) ns s) = session_inv s"
  by (simp_all add: session_inv_def)

lemma inv_other [simp]:
  "session_inv (s\<lparr>ss_connects := c\<rparr>) = session_inv s"
  "session_inv (s\<lparr>ss_deviceInfo := di\<rparr>) = session_inv s"
  "session_inv (s\<lparr>ss_transport := t\<rparr>) = session_inv s"
  "session_inv (s\<lparr>ss_open := q\<rparr>) = session_inv s"
  "session_inv (s\<lparr>ss_readers := k\<rparr>) = session_inv s"
  "session_inv (s\<lparr>ss_aborted := a\<rparr>) = session_inv s"
  "session_inv (s\<lparr>ss_eventListeners := el\<rparr>) = session_inv s"
  "session_inv (s\<lparr>ss_delivered := dl\<rparr>) = session_inv s"
  "session_inv (s\<lparr>ss_readyTimers := rt\<rparr>) = session_inv s"
  "session_inv (s\<lparr>ss_readyWaiters := rw\<rparr>) = session_inv s"
  "session_inv (s\<lparr>ss_readyAborts := ra\<rparr>) = session_inv s"
  by (simp_all add: session_inv_def books_def issued_def)

lemma inv_finish: "session_inv s \<Longrightarrow> issued s i \<Longrightarrow> session_inv (finish_and_settle r i s)"
  by (auto simp: session_inv_def books_finish finish_pending intro!: map_of_None_Nil)

lemma inv_fold_finish: "session_inv s \<Longrightarrow> \<forall>i\<in>set is. issued s i \<Longrightarrow> session_inv (fold (finish_and_settle r) is s)"
  by (auto simp: session_inv_def books_fold_finish fold_finish_pending intro!: map_of_None_Nil)

lemma inv_rejectAll: "session_inv s \<Longrightarrow> session_inv (rejectAll e s)"
  by (simp add: session_inv_def books_rejectAll rejectAll_pending)

lemma inv_close: "session_inv s \<Longrightarrow> session_inv (close s)"
proof -
  assume "session_inv s"
  then have "books (s\<lparr>ss_closed := True, ss_open := False\<rparr>)"
    by (simp add: session_inv_def books_def issued_def)
  from books_rejectAll[OF this, of DisconnectedError]
  have "session_inv (rejectAll DisconnectedError (s\<lparr>ss_closed := True, ss_open := False\<rparr>))"
    by (simp add: session_inv_def rejectAll_pending)
  then show ?thesis
    using \<open>session_inv s\<close> by (simp add: close_def)
qed

lemma request_id_fresh: "\<not> issued s (request_id (ss_sessionId s) (ss_nextRequestId s))"
  by (auto simp: issued_def)

lemma inv_request: "session_inv s \<Longrightarrow> session_inv (snd (request a p sg s))"
proof (cases "request a p sg s")
  case (Pair r s')
  assume inv: "session_inv s"
  let ?i = "request_id (ss_sessionId s) (ss_nextRequestId s)"
  have b: "books s"
    using inv by (simp add: session_inv_def)
  have f: "jget (ss_pending s) ?i = None" "jget (ss_outcome s) ?i = None"
    using b request_id_fresh[of s] unfolding books_def by blast+
  have l: "(g, ?i) \<notin> set (ss_abortListeners s)" for g
    using b f(1) unfolding books_def by simp
  have is': "issued (s\<lparr>ss_nextRequestId := Suc (ss_nextRequestId s), ss_timers := t, ss_abortListeners := ab,
        ss_pending := q, ss_writes := w\<rparr>) j \<longleftrightarrow> j = ?i \<or> issued s j" for t ab q w j
    by (auto simp: issued_def lessThan_Suc)
  show ?thesis
  proof (cases r)
    case (Inl e)
    then have "s' = s"
      using Pair by (auto simp: request_def Let_def split: if_splits option.splits)
    then show ?thesis
      using Pair inv by simp
  next
    case (Inr i)
    define g where "g = (case sg of Some g \<Rightarrow> Some g | None \<Rightarrow> ss_connectSignal s)"
    have o: "ss_open s" "\<not> ss_closed s"
      using Pair Inr by (auto simp: request_def split: if_splits)
    have s': "s' = s\<lparr>ss_nextRequestId := Suc (ss_nextRequestId s), ss_timers := ss_timers s @ [?i],
        ss_abortListeners := (case g of None \<Rightarrow> ss_abortListeners s | Some g \<Rightarrow> ss_abortListeners s @ [(g, ?i)]),
        ss_pending := jset ?i g (ss_pending s), ss_writes := ss_writes s @ [(?i, a, p)]\<rparr>"
      using Pair Inr o by (auto simp: request_def Let_def g_def split: if_splits)
    have "books s'"
      using b f l unfolding s' books_def is'
      by (cases g) (auto simp: jmap_simps wf_intros)
    then show ?thesis
      using Pair o unfolding session_inv_def by (simp add: s')
  qed
qed

lemma inv_timer: "session_inv s \<Longrightarrow> session_inv (request_timer i s)"
proof (cases "i \<in> set (ss_timers s)")
  case True
  assume inv: "session_inv s"
  then obtain x where x: "jget (ss_pending s) i = Some x"
    using True by (auto simp: session_inv_def books_def)
  then have "finish_and_settle r i (s\<lparr>ss_timers := removeAll i (ss_timers s)\<rparr>) = finish_and_settle r i s" for r
    by (cases x) (simp_all add: finish_and_settle_def finishPending_def)
  moreover have "issued s i"
    using inv x books_issued by (simp add: session_inv_def)
  ultimately show ?thesis
    using inv True inv_finish by (simp add: request_timer_def)
qed (simp add: request_timer_def)

lemma inv_write_failed: "session_inv s \<Longrightarrow> session_inv (write_failed i s)"
proof (cases "i \<in> fst ` set (ss_writes s)")
  case True
  assume inv: "session_inv s"
  have "fst ` set (ss_writes s) = request_id (ss_sessionId s) ` {..<ss_nextRequestId s}"
    using inv arg_cong[of "map fst (ss_writes s)" _ set] unfolding session_inv_def books_def
    by (metis (no_types, lifting) atLeast_upt list.set_map)
  then have "issued s i"
    using True by (simp add: issued_def)
  then show ?thesis
    using inv True inv_finish by (simp add: write_failed_def)
qed (simp add: write_failed_def)

lemma inv_hello_attempt: "session_inv s \<Longrightarrow> session_inv (hello_attempt n d k now s)"
  using inv_request[of s "''sys.hello''" "[]" "ss_connectSignal s"] inv_close[of s]
  by (auto simp: hello_attempt_def connect_fails_def split: prod.split)

lemma inv_connect_fails: "session_inv s \<Longrightarrow> session_inv (connect_fails n e s)"
  by (simp add: connect_fails_def inv_close)

lemma inv_hello_settled: "session_inv s \<Longrightarrow> session_inv (hello_settled n d k now r s)"
  by (simp add: hello_settled_def inv_hello_attempt inv_connect_fails split: sum.split)

lemma inv_connect_next: "session_inv s \<Longrightarrow> session_inv (connect_next n now s)"
proof -
  assume inv: "session_inv s"
  note steps = inv_hello_attempt[OF inv] inv_hello_settled[OF inv] inv_connect_fails[OF inv] inv
  have "session_inv (case r of Inl e \<Rightarrow> connect_fails n e s
      | Inr i \<Rightarrow> (case jget (ss_outcome s) i of None \<Rightarrow> s | Some q \<Rightarrow> hello_settled n d k now q s))" for r d k
    by (cases r) (simp_all add: steps split: option.split)
  then show ?thesis
    by (cases "ss_connects s ! n") (simp_all add: connect_next_def steps)
qed

lemma inv_abort: "session_inv s \<Longrightarrow> session_inv (abort_signal g s)"
proof -
  assume inv: "session_inv s"
  have "issued s i" if l: "(g, i) \<in> set (ss_abortListeners s)" for i
  proof -
    have "books s"
      using inv by (simp add: session_inv_def)
    moreover from this l have "jget (ss_pending s) i = Some (Some g)"
      unfolding books_def by blast
    ultimately show ?thesis
      by (rule books_issued)
  qed
  then have "\<forall>i\<in>set (map snd (filter (\<lambda>l. fst l = g) (ss_abortListeners s))). issued (s\<lparr>ss_aborted := g # ss_aborted s\<rparr>) i"
    by (auto simp: issued_def)
  from inv_fold_finish[OF _ this] inv show ?thesis
    by (simp add: abort_signal_def Let_def)
qed

lemma inv_reader_fails: "session_inv s \<Longrightarrow> session_inv (reader_fails e s)"
  by (simp add: reader_fails_def inv_rejectAll)

lemma inv_notify: "session_inv s \<Longrightarrow> session_inv (notify th ev p s)"
  by (simp add: notify_def Let_def inv_reader_fails split: list.split)

lemma inv_read_line: "session_inv s \<Longrightarrow> session_inv (read_line pn th line s)"
proof -
  assume inv: "session_inv s"
  have "session_inv (handleResponse m s)" for m
  proof (cases "jget (ss_pending s) (msg_id m)")
    case (Some x)
    have "issued s (msg_id m)"
      using inv Some by (intro books_issued) (simp_all add: session_inv_def)
    then show ?thesis
      using inv Some inv_finish by (simp add: handleResponse_def)
  qed (use inv in \<open>simp add: handleResponse_def\<close>)
  moreover have "session_inv (handleEvent th ev p s)" for ev p
    using inv by (simp add: handleEvent_def inv_notify inv_reader_fails split: sum.split)
  ultimately show ?thesis
    using inv by (simp add: read_line_def split: sum.split option.split protocol_message.split)
qed

lemma inv_step: "session_inv s \<Longrightarrow> session_inv (session_step pn ev s)"
proof (cases ev)
  case (EOpened n ok)
  assume "session_inv s"
  then show ?thesis
    using EOpened by (simp add: transport_opened_def waitForReady_def)
qed (simp_all add: connect_def inv_connect_next inv_request inv_timer inv_abort inv_write_failed inv_read_line
    inv_reader_fails inv_close ready_timer_def reader_ends_def inv_rejectAll)

lemma inv_run: "session_inv s \<Longrightarrow> session_inv (session_run pn evs s)"
  by (induction evs arbitrary: s) (simp_all add: inv_step)

lemma inv_new: "session_inv (Session sid t sg)"
  by (simp add: Session_def session_inv_def books_def issued_def wf_intros)


subsection \<open>How promises settle\<close>

text \<open>Every entry is kept, or is new and a rejection.\<close>

definition only_rejects :: "session \<Rightarrow> session \<Rightarrow> bool" where
  "only_rejects s s' \<longleftrightarrow> (\<forall>i. jget (ss_outcome s') i = jget (ss_outcome s) i \<or>
    (jget (ss_outcome s) i = None \<and> (\<exists>e. jget (ss_outcome s') i = Some (Rejected e))))"

lemma only_rejects_same: "ss_outcome s' = ss_outcome s \<Longrightarrow> only_rejects s s'"
  by (simp add: only_rejects_def)

lemma only_rejects_trans: "only_rejects s s' \<Longrightarrow> only_rejects s' s'' \<Longrightarrow> only_rejects s s''"
  unfolding only_rejects_def by metis

lemma only_rejects_fold: "ss_outcome s0 = ss_outcome s \<Longrightarrow> only_rejects s (fold (finish_and_settle (Rejected e)) is s0)"
  by (auto simp: only_rejects_def fold_finish_outcome)

lemma only_rejects_finish: "ss_outcome s0 = ss_outcome s \<Longrightarrow> only_rejects s (finish_and_settle (Rejected e) i s0)"
  by (auto simp: only_rejects_def finish_outcome)

lemma only_rejects_all: "ss_outcome s0 = ss_outcome s \<Longrightarrow> only_rejects s (rejectAll e s0)"
  by (simp add: rejectAll_def only_rejects_fold)

lemma only_rejects_close: "only_rejects s (close s)"
  using only_rejects_all[of "s\<lparr>ss_closed := True, ss_open := False\<rparr>" s]
  by (simp add: close_def only_rejects_def)

lemma request_outcome [simp]: "ss_outcome (snd (request a p sg s)) = ss_outcome s"
  by (simp add: request_def Let_def)

lemma only_rejects_fails: "only_rejects s (connect_fails n e s)"
  using only_rejects_close[of s] by (simp add: connect_fails_def only_rejects_def)

lemma only_rejects_attempt: "only_rejects s (hello_attempt n d k now s)"
  by (simp add: hello_attempt_def only_rejects_fails case_prod_unfold only_rejects_same)

lemma only_rejects_settled: "only_rejects s (hello_settled n d k now r s)"
  by (simp add: hello_settled_def only_rejects_attempt only_rejects_fails only_rejects_same split: sum.split)

lemma only_rejects_next: "only_rejects s (connect_next n now s)"
proof -
  have "only_rejects s (case r of Inl e \<Rightarrow> connect_fails n e s
      | Inr i \<Rightarrow> (case jget (ss_outcome s) i of None \<Rightarrow> s | Some q \<Rightarrow> hello_settled n d k now q s))" for r d k
    by (cases r) (simp_all add: only_rejects_fails only_rejects_settled only_rejects_same split: option.split)
  then show ?thesis
    by (cases "ss_connects s ! n")
      (simp_all add: connect_next_def only_rejects_attempt only_rejects_fails only_rejects_same)
qed

lemma only_rejects_reader: "ss_outcome s0 = ss_outcome s \<Longrightarrow> only_rejects s (reader_fails e s0)"
  using only_rejects_trans[OF only_rejects_all[of s0 s e] only_rejects_all[of "rejectAll e s0" "rejectAll e s0" DisconnectedError]]
  by (simp add: reader_fails_def only_rejects_def)

lemma only_rejects_event: "only_rejects s (handleEvent th event payload s)"
proof -
  have n: "ss_outcome s0 = ss_outcome s \<Longrightarrow> only_rejects s (notify th ev payload s0)" for s0 ev
    by (simp add: notify_def Let_def only_rejects_same only_rejects_reader split: list.split)
  show ?thesis
    by (simp add: handleEvent_def n only_rejects_reader split: sum.split)
qed

text \<open>Only a line that decodes to a response with its id answers a request.\<close>

lemma outcome_step:
  "only_rejects s (session_step pn ev s) \<or>
   (\<exists>th line m. ev = ELine th line \<and> parseLine pn line = Inr (Some m) \<and> 0 < ss_readers s \<and>
      jhas (ss_pending s) (msg_id m) \<and> (\<forall>e p. m \<noteq> Event e p) \<and> (\<forall>i a p. m \<noteq> Request i a p) \<and>
      session_step pn ev s = finish_and_settle (Answered m) (msg_id m) s)"
proof (cases ev)
  case (ELine th line)
  show ?thesis
  proof (cases "only_rejects s (session_step pn ev s)")
    case False
    then have n: "\<not> only_rejects s (read_line pn th line s)"
      using ELine by simp
    then obtain m where m: "0 < ss_readers s" "parseLine pn line = Inr (Some m)"
      by (auto simp: read_line_def only_rejects_same split: if_splits sum.splits option.splits)
    with n have k: "(\<forall>e p. m \<noteq> Event e p) \<and> (\<forall>i a p. m \<noteq> Request i a p)"
      by (cases m) (auto simp: read_line_def only_rejects_same only_rejects_event)
    with m have r: "read_line pn th line s = handleResponse m s"
      by (cases m) (auto simp: read_line_def)
    with n have "jhas (ss_pending s) (msg_id m) \<and> handleResponse m s = finish_and_settle (Answered m) (msg_id m) s"
      by (auto simp: handleResponse_def only_rejects_same split: if_splits)
    then show ?thesis
      using ELine m k r by auto
  qed simp
next
  case (EAbort g)
  then show ?thesis
    by (simp add: abort_signal_def Let_def) (auto simp: only_rejects_def fold_finish_outcome)
qed (simp_all add: connect_def only_rejects_same only_rejects_next only_rejects_finish only_rejects_close
    only_rejects_reader request_timer_def write_failed_def transport_opened_def waitForReady_def ready_timer_def
    reader_ends_def, simp_all add: only_rejects_def rejectAll_def fold_finish_outcome)

lemma outcome_kept: "jget (ss_outcome s) i = Some r \<Longrightarrow> jget (ss_outcome (session_run pn evs s)) i = Some r"
proof (induction evs arbitrary: s)
  case (Cons ev evs)
  have "jget (ss_outcome (session_step pn ev s)) i = Some r"
    using outcome_step[of s pn ev]
  proof (elim disjE exE conjE)
    assume "only_rejects s (session_step pn ev s)"
    then show ?thesis
      using Cons.prems unfolding only_rejects_def by (metis option.distinct(1))
  qed (use Cons.prems in \<open>auto simp: finish_outcome\<close>)
  with Cons.IH show ?case by simp
qed simp

text \<open>An answer was read while its request was pending.\<close>

definition answered_by :: "(string \<Rightarrow> jsnum) \<Rightarrow> session_event list \<Rightarrow> session \<Rightarrow> string \<Rightarrow> protocol_message \<Rightarrow> bool" where
  "answered_by pn evs s i m \<longleftrightarrow> (\<exists>before th line later. evs = before @ ELine th line # later \<and>
    parseLine pn line = Inr (Some m) \<and> jhas (ss_pending (session_run pn before s)) i \<and>
    ((\<exists>p. m = Success i p) \<or> (\<exists>c x. m = Failure i c x)))"

lemma answered_by_later: "answered_by pn evs (session_step pn ev s) i m \<Longrightarrow> answered_by pn (ev # evs) s i m"
  unfolding answered_by_def by (elim exE conjE) (intro exI[of _ "ev # _"], force)

lemma answered_by_now:
  "parseLine pn line = Inr (Some m) \<Longrightarrow> jhas (ss_pending s) (msg_id m) \<Longrightarrow> \<forall>e p. m \<noteq> Event e p \<Longrightarrow>
    \<forall>j a p. m \<noteq> Request j a p \<Longrightarrow> answered_by pn (ELine th line # evs) s (msg_id m) m"
  unfolding answered_by_def by (intro exI[of _ "[]"] exI[of _ th] exI[of _ line] exI[of _ evs]) (cases m; simp)

lemma answered_run:
  "jget (ss_outcome (session_run pn evs s)) i = Some (Answered m) \<Longrightarrow>
    jget (ss_outcome s) i = Some (Answered m) \<or> answered_by pn evs s i m"
proof (induction evs arbitrary: s)
  case (Cons ev evs)
  from Cons.IH[of "session_step pn ev s"] Cons.prems
  consider "answered_by pn evs (session_step pn ev s) i m"
    | "jget (ss_outcome (session_step pn ev s)) i = Some (Answered m)"
    by auto
  then show ?case
  proof cases
    case 2
    from outcome_step[of s pn ev] show ?thesis
    proof (elim disjE exE conjE)
      assume "only_rejects s (session_step pn ev s)"
      with 2 show ?thesis
        unfolding only_rejects_def by (metis option.inject outcome.distinct(1))
    next
      fix th line m'
      assume a: "ev = ELine th line" "parseLine pn line = Inr (Some m')" "jhas (ss_pending s) (msg_id m')"
        "\<forall>e p. m' \<noteq> Event e p" "\<forall>j a p. m' \<noteq> Request j a p"
        "session_step pn ev s = finish_and_settle (Answered m') (msg_id m') s"
      with 2 show ?thesis
        using answered_by_now[OF a(2-5), of th evs] by (auto simp: finish_outcome split: if_splits)
    qed
  qed (simp add: answered_by_later)
qed simp

subsection \<open>After close\<close>

lemma closed_fails [simp]: "ss_closed s \<Longrightarrow> connect_fails n e s = set_phase n (Closing e) s"
  by (simp add: connect_fails_def close_def)

lemma closed_request [simp]: "ss_closed s \<Longrightarrow> snd (request a p sg s) = s"
  by (simp add: request_def)

definition quiet :: "session \<Rightarrow> session \<Rightarrow> bool" where
  "quiet s s' \<longleftrightarrow> ss_closed s' \<and> ss_writes s' = ss_writes s \<and> (ss_transport s \<longrightarrow> ss_transport s')"

lemma quiet_notify: "ss_closed s \<Longrightarrow> quiet s (notify th event payload s)"
  by (simp add: notify_def Let_def quiet_def reader_fails_def split: list.split)

lemma quiet_read_line: "ss_closed s \<Longrightarrow> quiet s (read_line pn th line s)"
proof -
  assume c: "ss_closed s"
  let ?ready = "\<lambda>info. fold (\<lambda>n. leave_ready n ReadySettled) (ss_readyWaiters s) (s\<lparr>ss_deviceInfo := Some info\<rparr>)"
  have "quiet s (notify th event payload (?ready info))" for event payload info
    using quiet_notify[of "?ready info" th event payload] c by (simp add: quiet_def)
  then have "quiet s (handleEvent th event payload s)" for event payload
    using c by (cases "event = ''ready''")
      (simp_all add: handleEvent_def quiet_notify, simp add: quiet_def reader_fails_def split: sum.split)
  moreover have "quiet s (handleResponse m s)" for m
    using c by (simp add: handleResponse_def quiet_def)
  ultimately show ?thesis
    using c by (simp add: read_line_def quiet_def[of s s] split: sum.split option.split protocol_message.split)
qed

lemma quiet_step: "ss_closed s \<Longrightarrow> quiet s (session_step pn ev s)"
proof (cases ev)
  case (EConnectNext n now)
  assume "ss_closed s"
  then show ?thesis
    using EConnectNext
    by (cases "ss_connects s ! n")
      (auto simp: connect_next_def quiet_def hello_attempt_def hello_settled_def case_prod_unfold split: sum.split option.split)
next
  case (ELine th line)
  assume "ss_closed s"
  then show ?thesis
    using ELine quiet_read_line by simp
qed (auto simp: quiet_def connect_def transport_opened_def waitForReady_def ready_timer_def request_timer_def
    abort_signal_def write_failed_def reader_ends_def reader_fails_def close_def Let_def)

lemma quiet_run: "ss_closed s \<Longrightarrow> quiet s (session_run pn evs s)"
proof (induction evs arbitrary: s)
  case (Cons ev evs)
  have q: "quiet s (session_step pn ev s)"
    by (rule quiet_step[OF Cons.prems])
  then have "quiet (session_step pn ev s) (session_run pn evs (session_step pn ev s))"
    by (intro Cons.IH) (simp add: quiet_def)
  with q show ?case
    by (simp add: quiet_def)
qed (simp add: quiet_def)

subsection \<open>Without a reader\<close>

lemma readers_gone:
  "ss_readers s = 0 \<Longrightarrow> (\<And>n ok. ev \<noteq> EOpened n ok) \<Longrightarrow> ss_readers (session_step pn ev s) = 0"
proof (cases ev)
  case (EConnectNext n now)
  assume z: "ss_readers s = 0"
  have r: "ss_readers (snd (request a p sg s)) = ss_readers s" for a p sg
    by (simp add: request_def Let_def)
  have a: "ss_readers (hello_attempt n d k now s) = 0" for d k
    using z by (simp add: hello_attempt_def case_prod_unfold r connect_fails_def close_def)
  have f: "ss_readers (connect_fails n e s) = 0" for e
    using z by (simp add: connect_fails_def close_def)
  show ?thesis
    using EConnectNext z
    by (cases "ss_connects s ! n") (auto simp: connect_next_def hello_settled_def a f split: sum.split option.split)
qed (auto simp: connect_def ready_timer_def request_timer_def abort_signal_def write_failed_def read_line_def
    close_def request_def Let_def)

lemma no_reader_no_answer:
  "ss_readers s = 0 \<Longrightarrow> \<forall>n ok. EOpened n ok \<notin> set evs \<Longrightarrow>
    jget (ss_outcome (session_run pn evs s)) i = Some (Answered m) \<Longrightarrow> jget (ss_outcome s) i = Some (Answered m)"
proof (induction evs arbitrary: s)
  case (Cons ev evs)
  have z: "ss_readers (session_step pn ev s) = 0"
    using Cons.prems by (intro readers_gone) auto
  from Cons.IH[OF z] Cons.prems have a: "jget (ss_outcome (session_step pn ev s)) i = Some (Answered m)"
    by auto
  have "only_rejects s (session_step pn ev s)"
    using outcome_step[of s pn ev] Cons.prems(1) by auto
  then show ?case
    using a unfolding only_rejects_def by (metis option.inject outcome.distinct(1))
qed simp


subsection \<open>Properties\<close>

lemma sessionId_step: "ss_sessionId (session_step pn ev s) = ss_sessionId s"
proof (cases ev)
  case (EConnectNext n now)
  have r: "ss_sessionId (snd (request a p sg s)) = ss_sessionId s" for a p sg
    by (simp add: request_def Let_def)
  have a: "ss_sessionId (hello_attempt n d k now s) = ss_sessionId s" for d k
    by (simp add: hello_attempt_def case_prod_unfold r connect_fails_def close_def)
  have f: "ss_sessionId (connect_fails n e s) = ss_sessionId s" for e
    by (simp add: connect_fails_def close_def)
  show ?thesis
    using EConnectNext
    by (cases "ss_connects s ! n") (auto simp: connect_next_def hello_settled_def a f split: sum.split option.split)
next
  case (ELine th line)
  have n: "ss_sessionId (notify th ev p s') = ss_sessionId s'" for ev p s'
    by (simp add: notify_def Let_def reader_fails_def split: list.split)
  have "ss_sessionId (handleEvent th ev p s) = ss_sessionId s" for ev p
    by (simp add: handleEvent_def n reader_fails_def split: sum.split)
  then show ?thesis
    using ELine by (simp add: read_line_def handleResponse_def split: sum.split option.split protocol_message.split)
qed (auto simp: connect_def ready_timer_def request_timer_def abort_signal_def write_failed_def read_line_def
    close_def request_def Let_def transport_opened_def waitForReady_def reader_fails_def reader_ends_def)

lemma sessionId_run: "ss_sessionId (session_run pn evs s) = ss_sessionId s"
  by (induction evs arbitrary: s) (simp_all add: sessionId_step)

lemma run_inv: "session_inv (session_run pn evs (Session sid t sg))"
  by (rule inv_run[OF inv_new])

text \<open>C15: The books of a session balance. Whatever happens to it, the request ids it has given out are
  exactly those that are pending, with their timers running, or settled, and none is both; and a settled
  request keeps its outcome, whatever arrives later.\<close>

theorem requests_settle_once:
  "let s = session_run pn evs (Session sid t sg) in
    ((\<exists>k<ss_nextRequestId s. i = request_id sid k) \<longleftrightarrow> jhas (ss_pending s) i \<or> jhas (ss_outcome s) i) \<and>
    \<not> (jhas (ss_pending s) i \<and> jhas (ss_outcome s) i) \<and>
    (i \<in> set (ss_timers s) \<longleftrightarrow> jhas (ss_pending s) i) \<and>
    (jget (ss_outcome s) i = Some r \<longrightarrow> jget (ss_outcome (session_run pn later s)) i = Some r)"
proof -
  let ?s = "session_run pn evs (Session sid t sg)"
  have sid: "ss_sessionId ?s = sid"
    by (simp add: sessionId_run) (simp add: Session_def)
  have "issued ?s i \<longleftrightarrow> (\<exists>k<ss_nextRequestId ?s. i = request_id sid k)"
    unfolding issued_def sid by auto
  moreover have "books ?s"
    using run_inv by (simp add: session_inv_def)
  ultimately show ?thesis
    using outcome_kept[of ?s i r pn later] unfolding Let_def books_def by blast
qed

definition wit_events :: "session_event list" where
  "wit_events = [EConnect, EOpened 0 True, ERequest ''move'' [] None]"

definition wit_open :: session where
  "wit_open =
    \<lparr>ss_sessionId = ''s'', ss_timeoutMs = 500, ss_connectSignal = None, ss_pending = [(request_id ''s'' 0, None)],
     ss_timers = [request_id ''s'' 0], ss_abortListeners = [], ss_nextRequestId = 1, ss_outcome = [],
     ss_writes = [(request_id ''s'' 0, ''move'', [])], ss_aborted = [], ss_readers = 1, ss_open = True,
     ss_closed = False, ss_transport = True, ss_deviceInfo = None, ss_readyWaiters = [0], ss_readyTimers = [0],
     ss_readyAborts = [], ss_connects = [AwaitReady], ss_eventListeners = [], ss_delivered = []\<rparr>"

lemma wit_session: "session_run pn wit_events (Session ''s'' 500 None) = wit_open"
  by (simp add: wit_events_def Session_def connect_def transport_opened_def waitForReady_def set_phase_def
      request_def Let_def wit_open_def)

lemmas wit_parts = session_run_append wit_session wit_open_def finish_and_settle_def settle_def finishPending_def

theorem requests_settle_once_witness:
  "jget (ss_outcome (session_run wit_num_value [EClose, EConnect]
      (session_run wit_num_value (wit_events @ [ETimer (request_id ''s'' 0)]) (Session ''s'' 500 None))))
     (request_id ''s'' 0) = Some (Rejected TimeoutError)"
proof -
  have "jget (ss_outcome (session_run wit_num_value (wit_events @ [ETimer (request_id ''s'' 0)]) (Session ''s'' 500 None)))
      (request_id ''s'' 0) = Some (Rejected TimeoutError)"
    by (simp add: wit_parts request_timer_def)
  then show ?thesis
    using requests_settle_once[where evs = "wit_events @ [ETimer (request_id ''s'' 0)]" and sid = "''s''" and t = 500
        and sg = None and i = "request_id ''s'' 0" and r = "Rejected TimeoutError" and pn = wit_num_value
        and later = "[EClose, EConnect]"]
    unfolding Let_def by blast
qed

text \<open>C16: A request gets its own answer. The promise of a request resolves only with a success or failure
  that carries its id and that was read from the transport while the request was pending; no other message,
  and no late answer, reaches it.\<close>

theorem answers_are_own:
  assumes "jget (ss_outcome (session_run pn evs (Session sid t sg))) i = Some (Answered m)"
  shows "\<exists>before th line later. evs = before @ ELine th line # later \<and> parseLine pn line = Inr (Some m) \<and>
    jhas (ss_pending (session_run pn before (Session sid t sg))) i \<and>
    ((\<exists>p. m = Success i p) \<or> (\<exists>c x. m = Failure i c x))"
proof -
  have "answered_by pn evs (Session sid t sg) i m"
    using answered_run[OF assms] by (simp add: Session_def)
  then show ?thesis
    by (simp add: answered_by_def)
qed

definition wit_answer :: protocol_message where
  "wit_answer = Success (request_id ''s'' 0) []"

lemma wit_answer_parsed: "parseLine wit_num_value (message_text wit_num_text wit_answer) = Inr (Some wit_answer)"
proof -
  have "decodeLine wit_num_value (message_text wit_num_text wit_answer) = Message wit_answer"
    by (rule decode_message_text)
      (simp_all add: wit_answer_def request_id_def protocolVersion_def wit_num_one wit_num_text_def wit_num_value_def)
  then show ?thesis
    by (simp add: parseLine_def)
qed

theorem answers_are_own_witness:
  "\<exists>before th line later. wit_events @ [ELine [] (message_text wit_num_text wit_answer)] = before @ ELine th line # later \<and>
    parseLine wit_num_value line = Inr (Some wit_answer) \<and>
    jhas (ss_pending (session_run wit_num_value before (Session ''s'' 500 None))) (request_id ''s'' 0)"
proof -
  have "jget (ss_outcome (session_run wit_num_value (wit_events @ [ELine [] (message_text wit_num_text wit_answer)])
      (Session ''s'' 500 None))) (request_id ''s'' 0) = Some (Answered wit_answer)"
    using wit_answer_parsed by (simp add: wit_parts read_line_def handleResponse_def wit_answer_def)
  from answers_are_own[OF this] show ?thesis
    by blast
qed

text \<open>C17: A closed session is final. From the moment it is closed nothing is pending, every request it ever
  gave out is settled, a new request is refused, and nothing more is written to the transport, whatever
  happens later, a new \<open>connect\<close> included.\<close>

theorem closed_session_is_final:
  assumes "s = session_run pn evs (Session sid t sg)" and "ss_closed s"
  shows "ss_pending s = [] \<and> (\<forall>k<ss_nextRequestId s. jhas (ss_outcome s) (request_id sid k)) \<and>
    fst (request action payload signal s) = Inl DisconnectedError \<and>
    ss_closed (session_run pn later s) \<and> ss_writes (session_run pn later s) = ss_writes s"
proof -
  have p: "ss_pending s = []" "books s"
    using run_inv[of pn evs sid t sg] assms by (simp_all add: session_inv_def)
  have "issued s (request_id sid k)" if "k < ss_nextRequestId s" for k
    using that assms(1) by (simp add: issued_def sessionId_run) (simp add: Session_def)
  then have "\<forall>k<ss_nextRequestId s. jhas (ss_outcome s) (request_id sid k)"
    using p unfolding books_def by fastforce
  then show ?thesis
    using p quiet_run[OF assms(2), of pn later] assms(2) by (simp add: quiet_def request_def)
qed

theorem closed_session_is_final_witness:
  "ss_writes (session_run wit_num_value [EConnect, EOpened 1 True, EConnectNext 1 5, ERequest ''move'' [] None]
     (session_run wit_num_value (wit_events @ [EClose]) (Session ''s'' 500 None))) = [(request_id ''s'' 0, ''move'', [])]"
proof -
  let ?s = "session_run wit_num_value (wit_events @ [EClose]) (Session ''s'' 500 None)"
  have c: "ss_closed ?s" and w: "ss_writes ?s = [(request_id ''s'' 0, ''move'', [])]"
    by (simp_all add: session_run_append wit_session close_def wit_open_def)
  show ?thesis
    using closed_session_is_final[OF refl c, of "''move''" "[]" None
        "[EConnect, EOpened 1 True, EConnectNext 1 5, ERequest ''move'' [] None]"] unfolding w by blast
qed

text \<open>One malformed \<open>ready\<close> event deafens a session. The identity in the event is parsed outside the
  guard that discards malformed frames, so its error ends the read loop: every pending request is rejected,
  the session still counts as open, and no later request is ever answered unless the transport is opened again.\<close>

theorem malformed_ready_deafens:
  assumes "ss_readers s = 1" and "parseLine pn line = Inr (Some (Event ''ready'' payload))"
    and "parseDeviceInfo payload = Inl e" and "\<forall>n ok. EOpened n ok \<notin> set later"
  shows "let s' = session_step pn (ELine throwing line) s in
    ss_pending s' = [] \<and> ss_open s' = ss_open s \<and> ss_closed s' = ss_closed s \<and>
    (jget (ss_outcome (session_run pn later s')) i = Some (Answered m) \<longrightarrow> jget (ss_outcome s) i = Some (Answered m))"
proof -
  let ?s = "reader_fails e s"
  have step: "session_step pn (ELine throwing line) s = ?s"
    using assms(1-3) by (simp add: read_line_def handleEvent_def)
  have "ss_readers ?s = 0"
    using assms(1) by (simp add: reader_fails_def)
  from no_reader_no_answer[OF this assms(4)]
  have "jget (ss_outcome (session_run pn later ?s)) i = Some (Answered m) \<Longrightarrow> jget (ss_outcome ?s) i = Some (Answered m)"
    by simp
  moreover have "only_rejects s ?s"
    by (rule only_rejects_reader) simp
  ultimately show ?thesis
    unfolding step Let_def only_rejects_def
    by (simp add: reader_fails_def rejectAll_pending) (metis option.inject outcome.distinct(1))
qed

definition wit_ready :: protocol_message where
  "wit_ready = Event ''ready'' []"

lemma wit_ready_parsed: "parseLine wit_num_value (message_text wit_num_text wit_ready) = Inr (Some wit_ready)"
proof -
  have "decodeLine wit_num_value (message_text wit_num_text wit_ready) = Message wit_ready"
    by (rule decode_message_text)
      (simp_all add: wit_ready_def protocolVersion_def wit_num_one wit_num_text_def wit_num_value_def)
  then show ?thesis
    by (simp add: parseLine_def)
qed

theorem malformed_ready_deafens_witness:
  "let s = session_run wit_num_value wit_events (Session ''s'' 500 None);
       s' = session_step wit_num_value (ELine [] (message_text wit_num_text wit_ready)) s
   in ss_pending s' = [] \<and> ss_open s' \<and> \<not> ss_closed s' \<and>
     jget (ss_outcome (session_run wit_num_value
       [ERequest ''move'' [] None, ELine [] (message_text wit_num_text (Success (request_id ''s'' 1) []))] s'))
       (request_id ''s'' 1) \<noteq> Some (Answered (Success (request_id ''s'' 1) []))"
proof -
  let ?s = "session_run wit_num_value wit_events (Session ''s'' 500 None)"
  have "ss_readers ?s = 1 \<and> ss_open ?s \<and> \<not> ss_closed ?s \<and> ss_outcome ?s = []"
    by (simp add: wit_session wit_open_def)
  moreover have "parseDeviceInfo [] = Inl (PErr ''PROTOCOL_ERROR'' PROTOCOL)"
    by (simp add: parseDeviceInfo_def)
  ultimately show ?thesis
    using malformed_ready_deafens[of ?s wit_num_value "message_text wit_num_text wit_ready" "[]"
        "PErr ''PROTOCOL_ERROR'' PROTOCOL"
        "[ERequest ''move'' [] None, ELine [] (message_text wit_num_text (Success (request_id ''s'' 1) []))]" "[]"
        "request_id ''s'' 1" "Success (request_id ''s'' 1) []"] wit_ready_parsed
    by (simp add: wit_ready_def Let_def)
qed

text \<open>Closing a session while \<open>connect\<close> waits for the transport leaks the transport. When the open
  completes afterwards, the connection is up and stays up: \<open>connect\<close> gives up, but its \<open>close\<close>, and every
  later one, returns at once because the session is already closed.\<close>

theorem close_while_opening_leaks:
  assumes "ss_closed s" and "n < length (ss_connects s)" and "ss_connects s ! n = Opening"
  shows "ss_transport (session_run pn later (session_step pn (EOpened n True) s))"
proof -
  let ?s = "session_step pn (EOpened n True) s"
  have "ss_closed ?s \<and> ss_transport ?s"
    using assms by (simp add: transport_opened_def waitForReady_def)
  then show ?thesis
    using quiet_run[of ?s pn later] by (simp add: quiet_def)
qed

theorem close_while_opening_leaks_witness:
  "ss_transport (session_run wit_num_value [EReadyTimer 0, EConnectNext 0 300, EConnectNext 0 300, EClose]
     (session_step wit_num_value (EOpened 0 True) (session_run wit_num_value [EConnect, EClose] (Session ''s'' 500 None))))"
  by (rule close_while_opening_leaks) (simp_all add: Session_def connect_def close_def rejectAll_def)

lemma timers_fire:
  "session_inv s \<Longrightarrow> jget (ss_pending (session_run pn (map ETimer is) s)) j =
    (if j \<in> set is then None else jget (ss_pending s) j)"
proof (induction "is" arbitrary: s)
  case (Cons i "is")
  have "jget (ss_pending (request_timer i s)) j = (if j = i then None else jget (ss_pending s) j)"
    using Cons.prems by (auto simp: request_timer_def finish_pending session_inv_def books_def)
  then show ?case
    using Cons.IH[OF inv_timer[OF Cons.prems, of i]] by auto
qed simp

text \<open>No request hangs: once the timers that are running have fired, nothing is pending, whatever the board
  or the transport did or did not do.\<close>

theorem requests_time_out:
  "let s = session_run pn evs (Session sid t sg) in ss_pending (session_run pn (map ETimer (ss_timers s)) s) = []"
proof -
  let ?s = "session_run pn evs (Session sid t sg)"
  have "i \<in> set (ss_timers ?s) \<longleftrightarrow> jhas (ss_pending ?s) i" for i
    using run_inv[of pn evs sid t sg] by (simp add: session_inv_def books_def)
  then show ?thesis
    unfolding Let_def by (intro map_of_None_Nil) (auto simp: timers_fire[OF run_inv])
qed

end
