(* ===== verification/Boards.thy ===== *)
theory Boards
  imports Protocol Schema
begin

text \<open>
  The board descriptors and pin rules of \<open>packages/core/src/boards\<close> and \<open>drivers/esp32/pins.ts\<close>: the
  built-in table, \<open>validateBoardDescriptor\<close>, \<open>validateBoardAction\<close>, \<open>pinRole\<close> and the assertions on
  pins and values. A check that throws is \<open>None\<close>; warnings and the wireless notes are texts and left out.
\<close>

subsection \<open>Descriptors\<close>

record board =
  bd_schemaVersion :: string
  bd_boardId :: string
  bd_family :: string
  bd_mcu :: string
  bd_gpioPins :: "nat list"
  bd_adcPins :: "nat list option"
  bd_dacPins :: "nat list option"
  bd_pwmPins :: "nat list option"
  bd_reservedPins :: "nat list"
  bd_inputOnlyPins :: "nat list option"
  bd_uartPins :: "(nat \<times> nat \<times> nat) list"
  bd_i2cDefaults :: "(nat \<times> nat) option"
  bd_spiDefaults :: "(nat \<times> nat \<times> nat \<times> nat option) option"
  bd_logic :: real
  bd_adcMax :: "real option"
  bd_usb :: "(string \<times> string) option"
  bd_firmwareTarget :: string
  bd_support :: string

text \<open>\<open>list?.includes(pin)\<close> for a number of the payload.\<close>

definition js_nat :: "nat \<Rightarrow> jsval" where
  "js_nat n = JNum (Fin (real n))"

definition includes_pin :: "nat list \<Rightarrow> jsval \<Rightarrow> bool" where
  "includes_pin ps v = (\<exists>p\<in>set ps. v = js_nat p)"

definition maybe_includes :: "nat list option \<Rightarrow> jsval \<Rightarrow> bool" where
  "maybe_includes ps v = (case ps of None \<Rightarrow> False | Some qs \<Rightarrow> includes_pin qs v)"

datatype pin_role = RoleReserved | RoleUsable | RoleAdc | RoleInputOnly | RoleUnknown

definition pinRole :: "board \<Rightarrow> nat \<Rightarrow> pin_role" where
  "pinRole b pin =
    (if pin \<in> set (bd_reservedPins b) then RoleReserved
     else if maybe_includes (bd_inputOnlyPins b) (js_nat pin) then RoleInputOnly
     else if pin \<notin> set (bd_gpioPins b) then RoleUnknown
     else if maybe_includes (bd_adcPins b) (js_nat pin) then RoleAdc
     else RoleUsable)"

text \<open>
  The checks of \<open>validateBoardDescriptor\<close> on a JSON value. \<open>trim\<close> of the processor name only asks for a
  character that is not white space.
\<close>

definition SUPPORTED_FAMILIES :: "string list" where
  "SUPPORTED_FAMILIES =
    [''esp32'', ''esp32-s2'', ''esp32-s3'', ''esp32-c3'', ''esp32-c6'', ''rp2040'', ''avr'', ''linux'', ''micropython'']"

definition support_statuses :: "string list" where
  "support_statuses = [''IMPLEMENTED'', ''COMPILE_TESTED'', ''SIMULATED'', ''PLANNED'', ''EXPERIMENTAL'']"

definition pin_value :: "jsval \<Rightarrow> bool" where
  "pin_value v = (case v of JNum n \<Rightarrow> is_integer n \<and> \<not> js_less n (Fin 0) | _ \<Rightarrow> False)"

definition pin_array :: "jsval \<Rightarrow> bool" where
  "pin_array v = (case v of JArr xs \<Rightarrow> list_all pin_value xs \<and> distinct xs | _ \<Rightarrow> False)"

definition array_items :: "jsval \<Rightarrow> jsval list" where
  "array_items v = (case v of JArr xs \<Rightarrow> xs | _ \<Rightarrow> [])"

definition validateBoardDescriptor :: "jsval \<Rightarrow> jsrecord option" where
  "validateBoardDescriptor descriptor =
    (case descriptor of
      JObj b \<Rightarrow>
        (let field = ownprop b;
             subset = (\<lambda>k. set (array_items (field k)) \<subseteq> set (array_items (field ''gpioPins'')));
             logic = (case field ''voltage'' of JObj v \<Rightarrow> ownprop v ''logic'' | _ \<Rightarrow> JUndefined) in
         if field ''schemaVersion'' \<noteq> JStr ''1'' then None
         else if \<not> is_string (field ''boardId'') \<or> field ''boardId'' = JStr [] then None
         else if field ''family'' \<notin> JStr ` set SUPPORTED_FAMILIES then None
         else if \<not> is_string (field ''mcu'') \<or> list_all (\<lambda>c. white_space (of_char c)) (string_of (field ''mcu'')) then None
         else if field ''support'' \<notin> JStr ` set support_statuses then None
         else if \<not> pin_array (field ''gpioPins'') \<or> \<not> pin_array (field ''reservedPins'') then None
         else if \<not> list_all (\<lambda>k. field k = JUndefined \<or> pin_array (field k))
             [''adcPins'', ''dacPins'', ''pwmPins'', ''inputOnlyPins''] then None
         else if array_items (field ''gpioPins'') = [] then None
         else if set (array_items (field ''reservedPins'')) \<inter> set (array_items (field ''gpioPins'')) \<noteq> {} then None
         else if \<not> list_all subset [''adcPins'', ''dacPins'', ''pwmPins'', ''inputOnlyPins''] then None
         else if logic \<noteq> JNum (Fin (33 / 10)) \<and> logic \<noteq> JNum (Fin 5) then None
         else Some b)
    | _ \<Rightarrow> None)"

subsection \<open>The built-in table\<close>

definition board_arduino_uno :: board where
  "board_arduino_uno =
    \<lparr>bd_schemaVersion = ''1'', bd_boardId = ''arduino-uno'', bd_family = ''avr'', bd_mcu = ''ATmega328P'',
     bd_gpioPins = [2, 3, 4, 5, 6, 7, 8, 9, 10, 11, 12, 13, 14, 15, 16, 17, 18, 19],
     bd_adcPins = Some [14, 15, 16, 17, 18, 19], bd_dacPins = None,
     bd_pwmPins = Some [3, 5, 6, 9, 10, 11],
     bd_reservedPins = [0, 1],
     bd_inputOnlyPins = Some [],
     bd_uartPins = [(0, 1, 0)],
     bd_i2cDefaults = Some (18, 19), bd_spiDefaults = Some (13, 12, 11, Some 10),
     bd_logic = 5, bd_adcMax = Some (5),
     bd_usb = Some (''2341'', ''0043''), bd_firmwareTarget = ''uno'',
     bd_support = ''COMPILE_TESTED''\<rparr>"

definition board_esp32_devkit_v1 :: board where
  "board_esp32_devkit_v1 =
        \<lparr>bd_schemaVersion = ''1'', bd_boardId = ''esp32-devkit-v1'', bd_family = ''esp32'', bd_mcu =
       ''ESP32-D0WD'',
     bd_gpioPins = [0, 2, 4, 5, 13, 14, 15, 16, 17, 18, 19, 21, 22, 23, 25, 26, 27, 32, 33, 34, 35, 36, 39],
     bd_adcPins = Some [32, 33, 34, 35, 36, 39], bd_dacPins = None,
     bd_pwmPins = Some [0, 2, 4, 5, 13, 14, 15, 16, 17, 18, 19, 21, 22, 23, 25, 26, 27, 32, 33],
     bd_reservedPins = [1, 3, 6, 7, 8, 9, 10, 11, 12],
     bd_inputOnlyPins = Some [34, 35, 36, 39],
     bd_uartPins = [(0, 1, 3)],
     bd_i2cDefaults = Some (21, 22), bd_spiDefaults = Some (18, 19, 23, Some 5),
     bd_logic = 33 / 10, bd_adcMax = Some (33 / 10),
     bd_usb = Some (''10c4'', ''ea60''), bd_firmwareTarget = ''esp32dev'',
     bd_support = ''IMPLEMENTED''\<rparr>"

definition board_esp32_c3_supermini :: board where
  "board_esp32_c3_supermini =
        \<lparr>bd_schemaVersion = ''1'', bd_boardId = ''esp32-c3-supermini'', bd_family = ''esp32-c3'', bd_mcu =
       ''ESP32-C3'',
     bd_gpioPins = [0, 1, 3, 4, 5, 6, 7, 10],
     bd_adcPins = Some [0, 1, 3, 4], bd_dacPins = None,
     bd_pwmPins = Some [0, 1, 3, 4, 5, 6, 7, 10],
     bd_reservedPins = [2, 8, 9, 11, 12, 13, 14, 15, 16, 17, 18, 19, 20, 21, 22, 23],
     bd_inputOnlyPins = Some [],
     bd_uartPins = [(0, 21, 20)],
     bd_i2cDefaults = Some (4, 5), bd_spiDefaults = Some (4, 5, 6, Some 7),
     bd_logic = 33 / 10, bd_adcMax = Some (25 / 10),
     bd_usb = Some (''303a'', ''1001''), bd_firmwareTarget = ''esp32-c3-supermini'',
     bd_support = ''COMPILE_TESTED''\<rparr>"

definition board_esp32_s2_devkitc_1 :: board where
  "board_esp32_s2_devkitc_1 =
        \<lparr>bd_schemaVersion = ''1'', bd_boardId = ''esp32-s2-devkitc-1'', bd_family = ''esp32-s2'', bd_mcu =
       ''ESP32-S2'',
          bd_gpioPins = [1, 2, 3, 4, 5, 6, 7, 8, 9, 10, 11, 12, 13, 14, 15, 16, 17, 18, 21, 33, 34, 35, 36, 37, 38,
       39, 40, 41, 42, 46],
     bd_adcPins = Some [1, 2, 3, 4, 5, 6, 7, 8, 9, 10], bd_dacPins = None,
          bd_pwmPins = Some [1, 2, 3, 4, 5, 6, 7, 8, 9, 10, 11, 12, 13, 14, 15, 16, 17, 18, 21, 33, 34, 35, 36, 37,
       38, 39, 40, 41, 42],
     bd_reservedPins = [0, 19, 20, 22, 23, 24, 25, 26, 27, 28, 29, 30, 31, 32, 43, 44, 45],
     bd_inputOnlyPins = Some [46],
     bd_uartPins = [(0, 43, 44)],
     bd_i2cDefaults = Some (8, 9), bd_spiDefaults = Some (12, 13, 11, Some 10),
     bd_logic = 33 / 10, bd_adcMax = None,
     bd_usb = None, bd_firmwareTarget = ''esp32s2-devkit'',
     bd_support = ''EXPERIMENTAL''\<rparr>"

definition board_esp32_s3_devkitc_1 :: board where
  "board_esp32_s3_devkitc_1 =
        \<lparr>bd_schemaVersion = ''1'', bd_boardId = ''esp32-s3-devkitc-1'', bd_family = ''esp32-s3'', bd_mcu =
       ''ESP32-S3'',
     bd_gpioPins = [1, 2, 4, 5, 6, 7, 8, 9, 10, 11, 12, 13, 14, 15, 16, 17, 18, 21, 38, 39, 40, 41, 42, 47, 48],
     bd_adcPins = Some [1, 2, 4, 5, 6, 7, 8, 9, 10], bd_dacPins = None,
     bd_pwmPins = Some [1, 2, 4, 5, 6, 7, 8, 9, 10, 11, 12, 13, 14, 15, 16, 17, 18, 21, 38, 39, 40, 41, 42, 47, 48],
     bd_reservedPins = [0, 3, 19, 20, 22, 23, 24, 25, 26, 27, 28, 29, 30, 31, 32, 33, 34, 35, 36, 37, 43, 44, 45, 46],
     bd_inputOnlyPins = Some [],
     bd_uartPins = [(0, 43, 44)],
     bd_i2cDefaults = Some (8, 9), bd_spiDefaults = Some (12, 13, 11, Some 10),
     bd_logic = 33 / 10, bd_adcMax = Some (33 / 10),
     bd_usb = Some (''303a'', ''1001''), bd_firmwareTarget = ''esp32-s3-devkitc-1'',
     bd_support = ''COMPILE_TESTED''\<rparr>"

definition board_esp32_c6_devkitc_1 :: board where
  "board_esp32_c6_devkitc_1 =
        \<lparr>bd_schemaVersion = ''1'', bd_boardId = ''esp32-c6-devkitc-1'', bd_family = ''esp32-c6'', bd_mcu =
       ''ESP32-C6'',
     bd_gpioPins = [0, 1, 2, 3, 4, 5, 6, 7, 10, 11, 18, 19, 20, 21, 22, 23],
     bd_adcPins = Some [0, 1, 2, 3, 4, 5, 6], bd_dacPins = None,
     bd_pwmPins = Some [0, 1, 2, 3, 4, 5, 6, 7, 10, 11, 18, 19, 20, 21, 22, 23],
     bd_reservedPins = [8, 9, 12, 13, 14, 15, 16, 17, 24, 25, 26, 27, 28, 29, 30],
     bd_inputOnlyPins = Some [],
     bd_uartPins = [(0, 16, 17)],
     bd_i2cDefaults = Some (6, 7), bd_spiDefaults = Some (10, 2, 3, Some 11),
     bd_logic = 33 / 10, bd_adcMax = None,
     bd_usb = None, bd_firmwareTarget = ''esp32c6-devkit'',
     bd_support = ''EXPERIMENTAL''\<rparr>"

definition board_raspberry_pi_pico :: board where
  "board_raspberry_pi_pico =
    \<lparr>bd_schemaVersion = ''1'', bd_boardId = ''raspberry-pi-pico'', bd_family = ''rp2040'', bd_mcu = ''RP2040'',
     bd_gpioPins = [0, 1, 2, 3, 4, 5, 6, 7, 8, 9, 10, 11, 12, 13, 14, 15, 16, 17, 18, 19, 20, 21, 22, 25, 26, 27, 28],
     bd_adcPins = Some [26, 27, 28], bd_dacPins = None,
     bd_pwmPins = Some [0, 1, 2, 3, 4, 5, 6, 7, 8, 9, 10, 11, 12, 13, 14, 15, 16, 17, 18, 19, 20, 21, 22, 25],
     bd_reservedPins = [23, 24, 29],
     bd_inputOnlyPins = Some [],
     bd_uartPins = [(0, 0, 1), (1, 4, 5)],
     bd_i2cDefaults = Some (4, 5), bd_spiDefaults = Some (18, 16, 19, Some 17),
     bd_logic = 33 / 10, bd_adcMax = Some (33 / 10),
     bd_usb = Some (''2e8a'', ''0005''), bd_firmwareTarget = ''pico'',
     bd_support = ''SIMULATED''\<rparr>"

definition builtinBoards :: "board list" where
  "builtinBoards =
        [board_arduino_uno, board_esp32_devkit_v1, board_esp32_c3_supermini, board_esp32_s2_devkitc_1,
       board_esp32_s3_devkitc_1, board_esp32_c6_devkitc_1, board_raspberry_pi_pico]"

text \<open>\<open>boardForInfo\<close>: an unknown identity throws, no identity is no board.\<close>

definition find_board :: "string \<Rightarrow> board option" where
  "find_board i = find (\<lambda>b. bd_boardId b = i) builtinBoards"

definition boardForInfo :: "device_info \<Rightarrow> board option option" where
  "boardForInfo info =
    (let i = (case dv_boardId info of Some i \<Rightarrow> Some i
       | None \<Rightarrow> if dv_firmware info = ''esp32-bridge'' then Some ''esp32-devkit-v1'' else None) in
     case i of
       None \<Rightarrow> Some None
     | Some x \<Rightarrow>
         (case find_board x of
           None \<Rightarrow> if x = [] then Some None else None
         | Some b \<Rightarrow> Some (Some b)))"

text \<open>The number of PWM channels by family.\<close>

definition pwmChannelLimits :: "string \<Rightarrow> nat option" where
  "pwmChannelLimits =
    map_of [(''esp32'', 16), (''esp32-s2'', 8), (''esp32-s3'', 8), (''esp32-c3'', 6), (''esp32-c6'', 6)]"

definition pin_keys :: "string list" where
  "pin_keys = [''pin'', ''pwmPin'', ''dirPin'', ''sda'', ''scl'', ''sck'', ''miso'', ''mosi'', ''chipSelect'']"

definition read_actions :: "string list" where
  "read_actions = [''gpio.read'', ''gpio.watch'', ''gpio.unwatch'', ''gpio.analogRead'']"

text \<open>The closure \<open>pin\<close> of \<open>validateBoardAction\<close>.\<close>

definition pin_ok :: "board \<Rightarrow> bool \<Rightarrow> jsval \<Rightarrow> bool" where
  "pin_ok b output v \<longleftrightarrow> includes_pin (bd_gpioPins b) v \<and> \<not> (output \<and> maybe_includes (bd_inputOnlyPins b) v)"

text \<open>An entry of \<open>writes\<close> that is \<open>null\<close> or \<open>undefined\<close> throws when its pin is read; other values that
  are no object have no pin.\<close>

definition entry_pin :: "jsval \<Rightarrow> jsval" where
  "entry_pin w = (case w of JObj f \<Rightarrow> ownprop f ''pin'' | _ \<Rightarrow> JUndefined)"

definition validateBoardAction :: "board \<Rightarrow> string \<Rightarrow> jsrecord \<Rightarrow> unit option" where
  "validateBoardAction b action payload =
    (let reads = (action \<in> set read_actions \<or> (action = ''gpio.mode'' \<and> ownprop payload ''mode'' = JStr ''input''));
         over = (case (pwmChannelLimits (bd_family b), ownprop payload ''channel'') of
           (Some m, JNum n) \<Rightarrow> js_less (Fin (real m - 1)) n | _ \<Rightarrow> False) in
     if over then None
     else if \<not> list_all (\<lambda>k. ownprop payload k = JUndefined \<or>
         pin_ok b (if k = ''miso'' then False else \<not> reads) (ownprop payload k)) pin_keys then None
     else if \<not> list_all (\<lambda>w. pin_ok b (\<not> reads) (entry_pin w)) (array_items (ownprop payload ''writes'')) then None
     else if action = ''gpio.analogRead'' \<and> \<not> maybe_includes (bd_adcPins b) (ownprop payload ''pin'') then None
     else if (action = ''gpio.pwm'' \<or> action = ''gpio.servo'') \<and>
         \<not> maybe_includes (bd_pwmPins b) (ownprop payload ''pin'') then None
     else if bd_family b = ''avr'' \<and> ownprop payload ''mode'' = JStr ''pulldown'' then None
     else Some ())"

subsection \<open>Pin rules of the ESP32 families\<close>

record pin_rules =
  pr_family :: string
  pr_maxPin :: nat
  pr_pwmChannelCount :: nat
  pr_flashPins :: "nat list"
  pr_usbPins :: "nat list"
  pr_uart0Pins :: "nat list"
  pr_strapPins :: "nat list"
  pr_adcPins :: "nat list"
  pr_inputOnlyPins :: "nat list"
  pr_defaultI2c :: "nat \<times> nat \<times> nat"
  pr_defaultSpi :: "nat \<times> nat \<times> nat \<times> nat \<times> nat"

definition esp32ClassicPinRules :: pin_rules where
  "esp32ClassicPinRules =
    \<lparr>pr_family = ''esp32'', pr_maxPin = 39, pr_pwmChannelCount = 16,
     pr_flashPins = [6, 7, 8, 9, 10, 11], pr_usbPins = [], pr_uart0Pins = [1, 3], pr_strapPins = [12],
     pr_adcPins = [32, 33, 34, 35, 36, 37, 38, 39], pr_inputOnlyPins = [34, 35, 36, 37, 38, 39],
     pr_defaultI2c = (21, 22, 100000), pr_defaultSpi = (18, 19, 23, 5, 1000000)\<rparr>"

definition esp32C3PinRules :: pin_rules where
  "esp32C3PinRules =
    \<lparr>pr_family = ''esp32-c3'', pr_maxPin = 21, pr_pwmChannelCount = 6,
     pr_flashPins = [11, 12, 13, 14, 15, 16, 17], pr_usbPins = [18, 19], pr_uart0Pins = [20, 21],
     pr_strapPins = [2, 8, 9], pr_adcPins = [0, 1, 3, 4], pr_inputOnlyPins = [],
     pr_defaultI2c = (4, 5, 100000), pr_defaultSpi = (4, 5, 6, 7, 1000000)\<rparr>"

definition esp32S3PinRules :: pin_rules where
  "esp32S3PinRules =
    \<lparr>pr_family = ''esp32-s3'', pr_maxPin = 48, pr_pwmChannelCount = 8,
     pr_flashPins = [22, 23, 24, 25, 26, 27, 28, 29, 30, 31, 32, 33], pr_usbPins = [19, 20],
     pr_uart0Pins = [43, 44], pr_strapPins = [45, 46], pr_adcPins = [1, 2, 3, 4, 5, 6, 7, 8, 9, 10],
     pr_inputOnlyPins = [], pr_defaultI2c = (8, 9, 100000), pr_defaultSpi = (12, 13, 11, 10, 1000000)\<rparr>"

definition pinRulesForFamily :: "string \<Rightarrow> pin_rules" where
  "pinRulesForFamily family =
    (if family = ''esp32-c3'' then esp32C3PinRules
     else if family = ''esp32-s3'' then esp32S3PinRules else esp32ClassicPinRules)"

definition assertFamilyReadPin :: "pin_rules \<Rightarrow> nat \<Rightarrow> unit option" where
  "assertFamilyReadPin r pin =
    (if pr_maxPin r < pin \<or> pin \<in> set (pr_flashPins r) \<or> pin \<in> set (pr_usbPins r) \<or>
        pin \<in> set (pr_uart0Pins r) \<or> pin \<in> set (pr_strapPins r) then None else Some ())"

definition assertFamilyWritePin :: "pin_rules \<Rightarrow> nat \<Rightarrow> unit option" where
  "assertFamilyWritePin r pin =
    (if pr_maxPin r < pin \<or> pin \<in> set (pr_flashPins r) \<or> pin \<in> set (pr_usbPins r) \<or>
        pin \<in> set (pr_uart0Pins r) \<or> pin \<in> set (pr_strapPins r) \<or> pin \<in> set (pr_inputOnlyPins r)
     then None else Some ())"

definition assertFamilyAdcPin :: "pin_rules \<Rightarrow> nat \<Rightarrow> unit option" where
  "assertFamilyAdcPin r pin = (if pin \<notin> set (pr_adcPins r) then None else assertFamilyReadPin r pin)"

subsection \<open>Assertions on payload values\<close>

definition assertSafeLevel :: "jsval \<Rightarrow> jsval option" where
  "assertSafeLevel v = (if v \<in> JStr ` {''low'', ''high'', ''high-z'', ''hold''} then Some v else None)"

definition assertPolarity :: "jsval \<Rightarrow> jsval option" where
  "assertPolarity v = (if v \<in> JStr ` {''active-high'', ''active-low''} then Some v else None)"

definition assertGpioMode :: "jsval \<Rightarrow> jsval option" where
  "assertGpioMode v = (if v \<in> JStr ` {''input'', ''output'', ''pullup'', ''pulldown''} then Some v else None)"

definition assertGpioValue :: "jsval \<Rightarrow> jsval option" where
  "assertGpioValue v = (case v of JBool _ \<Rightarrow> Some v | _ \<Rightarrow> None)"

text \<open>An integer between two bounds; \<open>Number.isInteger\<close> and the comparisons.\<close>

definition int_between :: "int \<Rightarrow> int option \<Rightarrow> jsval \<Rightarrow> nat option" where
  "int_between lo hi v =
    (case v of
      JNum (Fin x) \<Rightarrow>
        if of_int \<lfloor>x\<rfloor> = x \<and> lo \<le> \<lfloor>x\<rfloor> \<and> (case hi of None \<Rightarrow> True | Some h \<Rightarrow> \<lfloor>x\<rfloor> \<le> h) then Some (nat \<lfloor>x\<rfloor>) else None
    | _ \<Rightarrow> None)"

definition assertNonNegativeInt :: "jsval \<Rightarrow> nat option" where
  "assertNonNegativeInt v = int_between 0 None v"

definition assertGpioPin :: "jsval \<Rightarrow> nat option" where
  "assertGpioPin v = int_between 0 None v"

definition assertI2cAddress :: "jsval \<Rightarrow> nat option" where
  "assertI2cAddress v = int_between 0 (Some 127) v"

definition maxEsp32BusPayloadBytes :: nat where
  "maxEsp32BusPayloadBytes = 32"

fun all_some :: "'a option list \<Rightarrow> 'a list option" where
  "all_some [] = Some []"
| "all_some (None # xs) = None"
| "all_some (Some x # xs) = map_option ((#) x) (all_some xs)"

definition assertBusBytes :: "jsval \<Rightarrow> nat list option" where
  "assertBusBytes v =
    (case v of
      JArr xs \<Rightarrow>
        if length xs < 1 \<or> length xs > maxEsp32BusPayloadBytes then None
        else all_some (map (int_between 0 (Some 255)) xs)
    | _ \<Rightarrow> None)"

definition assertBusLength :: "jsval \<Rightarrow> nat option" where
  "assertBusLength v = int_between 1 (Some (int maxEsp32BusPayloadBytes)) v"

definition number_between :: "real \<Rightarrow> real \<Rightarrow> jsval \<Rightarrow> jsval option" where
  "number_between lo hi v = (case v of JNum (Fin x) \<Rightarrow> if lo \<le> x \<and> x \<le> hi then Some v else None | _ \<Rightarrow> None)"

definition assertServoAngle :: "jsval \<Rightarrow> jsval option" where
  "assertServoAngle v = number_between 0 180 v"

definition assertMotorSpeed :: "jsval \<Rightarrow> bool \<Rightarrow> jsval option" where
  "assertMotorSpeed v allowReverse = number_between (if allowReverse then -1 else 0) 1 v"

definition isEsp32FlashPin :: "nat \<Rightarrow> bool" where
  "isEsp32FlashPin pin \<longleftrightarrow> 6 \<le> pin \<and> pin \<le> 11"

definition isEsp32InputOnlyPin :: "nat \<Rightarrow> bool" where
  "isEsp32InputOnlyPin pin \<longleftrightarrow> 34 \<le> pin \<and> pin \<le> 39"

definition isEsp32Uart0Pin :: "nat \<Rightarrow> bool" where
  "isEsp32Uart0Pin pin \<longleftrightarrow> pin = 1 \<or> pin = 3"

definition isEsp32StrapPin :: "nat \<Rightarrow> bool" where
  "isEsp32StrapPin pin \<longleftrightarrow> pin = 12"

definition isEsp32AdcPin :: "nat \<Rightarrow> bool" where
  "isEsp32AdcPin pin \<longleftrightarrow> 32 \<le> pin \<and> pin \<le> 39"

definition assertEsp32ReadPin :: "nat \<Rightarrow> unit option" where
  "assertEsp32ReadPin pin =
    (if 39 < pin \<or> isEsp32FlashPin pin \<or> isEsp32Uart0Pin pin \<or> isEsp32StrapPin pin then None else Some ())"

definition assertEsp32WritePin :: "nat \<Rightarrow> unit option" where
  "assertEsp32WritePin pin =
    (if 39 < pin \<or> isEsp32FlashPin pin \<or> isEsp32InputOnlyPin pin \<or> isEsp32Uart0Pin pin \<or> isEsp32StrapPin pin
     then None else Some ())"

definition assertEsp32ModePin :: "nat \<Rightarrow> unit option" where
  "assertEsp32ModePin pin =
    (if 39 < pin \<or> isEsp32FlashPin pin \<or> isEsp32Uart0Pin pin \<or> isEsp32StrapPin pin then None else Some ())"

definition assertEsp32PwmPin :: "nat \<Rightarrow> unit option" where
  "assertEsp32PwmPin pin = assertEsp32WritePin pin"

definition assertEsp32AnalogPin :: "nat \<Rightarrow> unit option" where
  "assertEsp32AnalogPin pin = (if \<not> isEsp32AdcPin pin then None else assertEsp32ReadPin pin)"

definition assertEsp32BusPin :: "nat \<Rightarrow> unit option" where
  "assertEsp32BusPin pin = assertEsp32WritePin pin"

definition resolveEsp32BoardPin :: "string \<Rightarrow> nat option" where
  "resolveEsp32BoardPin name = (if map lower_char (trim_line name) = ''led'' then Some 2 else None)"

subsection \<open>The table is consistent\<close>

lemmas board_defs = board_arduino_uno_def board_esp32_devkit_v1_def board_esp32_c3_supermini_def
  board_esp32_s2_devkitc_1_def board_esp32_s3_devkitc_1_def board_esp32_c6_devkitc_1_def board_raspberry_pi_pico_def

definition consistent_board :: "board \<Rightarrow> bool" where
  "consistent_board b \<longleftrightarrow>
    distinct (bd_gpioPins b) \<and> bd_gpioPins b \<noteq> [] \<and>
    list_all (\<lambda>p. p \<notin> set (bd_gpioPins b)) (bd_reservedPins b) \<and>
    list_all (\<lambda>p. p \<in> set (bd_gpioPins b)) (or_empty (bd_adcPins b) @ or_empty (bd_pwmPins b) @ or_empty (bd_inputOnlyPins b)) \<and>
    list_all (\<lambda>p. p \<notin> set (or_empty (bd_inputOnlyPins b))) (or_empty (bd_pwmPins b))"

lemma builtin_consistent: "list_all consistent_board builtinBoards"
  by (simp add: builtinBoards_def consistent_board_def board_defs or_empty_def)

lemma builtin_ids: "distinct (map bd_boardId builtinBoards)"
  by (simp add: builtinBoards_def board_defs)

text \<open>The default buses of a board are pins it can drive, and its serial pins are reserved unless it is a Pico.\<close>

definition drivable :: "board \<Rightarrow> nat \<Rightarrow> bool" where
  "drivable b p \<longleftrightarrow> p \<in> set (bd_gpioPins b) \<and> p \<notin> set (bd_reservedPins b) \<and> p \<notin> set (or_empty (bd_inputOnlyPins b))"

theorem default_buses_drivable:
  "list_all (\<lambda>b. (case bd_i2cDefaults b of None \<Rightarrow> True | Some (sda, scl) \<Rightarrow> drivable b sda \<and> drivable b scl) \<and>
     (case bd_spiDefaults b of None \<Rightarrow> True
      | Some (sck, miso, mosi, cs) \<Rightarrow> drivable b sck \<and> drivable b miso \<and> drivable b mosi \<and>
          (case cs of None \<Rightarrow> True | Some c \<Rightarrow> drivable b c))) builtinBoards"
  by (simp add: builtinBoards_def drivable_def board_defs or_empty_def)

text \<open>
  The family rules mirror the boards of three families: a pin the board offers passes the read rule, and
  the write rule unless it is input-only. The rules of the other ESP32 families are those of the classic
  chip: they refuse pins the ESP32-C6 board offers and let its USB pins through.
\<close>

theorem family_rules_cover_boards:
  "list_all (\<lambda>b. list_all (\<lambda>p. assertFamilyReadPin (pinRulesForFamily (bd_family b)) p = Some () \<and>
      (p \<in> set (or_empty (bd_inputOnlyPins b)) \<or> assertFamilyWritePin (pinRulesForFamily (bd_family b)) p = Some ()))
      (bd_gpioPins b)) [board_esp32_devkit_v1, board_esp32_c3_supermini, board_esp32_s3_devkitc_1]"
  by (simp add: board_defs pinRulesForFamily_def esp32ClassicPinRules_def esp32C3PinRules_def esp32S3PinRules_def
      assertFamilyReadPin_def assertFamilyWritePin_def or_empty_def)

theorem family_rules_wrong_chip:
  "assertFamilyWritePin (pinRulesForFamily (bd_family board_esp32_c6_devkitc_1)) 6 = None \<and>
   pinRole board_esp32_c6_devkitc_1 6 = RoleAdc \<and>
   assertFamilyWritePin (pinRulesForFamily (bd_family board_esp32_c6_devkitc_1)) 13 = Some () \<and>
   pinRole board_esp32_c6_devkitc_1 13 = RoleReserved \<and>
   assertFamilyWritePin (pinRulesForFamily (bd_family board_esp32_s3_devkitc_1)) 0 = Some () \<and>
   pinRole board_esp32_s3_devkitc_1 0 = RoleReserved"
  by (simp add: board_defs pinRulesForFamily_def esp32ClassicPinRules_def esp32S3PinRules_def assertFamilyWritePin_def
      pinRole_def maybe_includes_def includes_pin_def js_nat_def)

text \<open>A descriptor that is accepted never lists a pin as usable and reserved, and its special pins are usable.\<close>

theorem accepted_descriptor_consistent:
  assumes "validateBoardDescriptor v = Some b"
  shows "set (array_items (ownprop b ''gpioPins'')) \<inter> set (array_items (ownprop b ''reservedPins'')) = {} \<and>
    list_all (\<lambda>k. set (array_items (ownprop b k)) \<subseteq> set (array_items (ownprop b ''gpioPins'')))
      [''adcPins'', ''dacPins'', ''pwmPins'', ''inputOnlyPins''] \<and>
    list_all pin_value (array_items (ownprop b ''gpioPins'')) \<and> array_items (ownprop b ''gpioPins'') \<noteq> []"
proof (cases v)
  case (JObj f)
  have "b = f \<and> pin_array (ownprop f ''gpioPins'') \<and> array_items (ownprop f ''gpioPins'') \<noteq> [] \<and>
      set (array_items (ownprop f ''reservedPins'')) \<inter> set (array_items (ownprop f ''gpioPins'')) = {} \<and>
      list_all (\<lambda>k. set (array_items (ownprop f k)) \<subseteq> set (array_items (ownprop f ''gpioPins'')))
        [''adcPins'', ''dacPins'', ''pwmPins'', ''inputOnlyPins'']"
    using assms JObj by (simp only: validateBoardDescriptor_def jsval.case Let_def option.inject option.distinct
        not_not de_Morgan_disj simp_thms split: if_split_asm)
  moreover from this have "list_all pin_value (array_items (ownprop f ''gpioPins''))"
    by (auto simp: pin_array_def array_items_def split: jsval.splits)
  ultimately show ?thesis
    by (simp add: Int_commute)
qed (use assms in \<open>simp_all add: validateBoardDescriptor_def\<close>)

end
