(* ===== verification/Device_Actions.thy ===== *)
theory Device_Actions
  imports Boards "HOL-Library.Monad_Syntax"
begin

text \<open>
  A connected board as the host sees it, \<open>packages/core/src/device.ts\<close>: \<open>invoke\<close> checks an action against
  the advertised capabilities, the input schema, the board's pin map and the rules of the firmware, and
  sends the normalised payload; \<open>Gpio\<close> and the event handlers. \<open>None\<close> is a thrown error. The schemas of
  an action (\<open>capabilities.ts\<close>) are an argument.
\<close>

subsection \<open>Normalising a payload\<close>

definition assertPositiveInt :: "jsval \<Rightarrow> nat option" where
  "assertPositiveInt v = int_between 1 None v"

definition assertChannel :: "jsval \<Rightarrow> nat option" where
  "assertChannel v = int_between 0 (Some 15) v"

definition assertDuty :: "jsval \<Rightarrow> jsval option" where
  "assertDuty v = number_between 0 1 v"

definition assertEmptyPayload :: "jsrecord \<Rightarrow> unit option" where
  "assertEmptyPayload payload = (if payload = [] then Some () else None)"

definition unless_aware :: "bool \<Rightarrow> unit option \<Rightarrow> unit option" where
  "unless_aware boardAware check = (if boardAware then Some () else check)"

text \<open>The optional fields that are copied when they are given.\<close>

definition add_positive :: "string \<Rightarrow> jsrecord \<Rightarrow> jsrecord \<Rightarrow> jsrecord option" where
  "add_positive k p r =
    (if ownprop p k = JUndefined then Some r
     else do { n \<leftarrow> assertPositiveInt (ownprop p k); Some (r @ [(k, js_nat n)]) })"

definition add_checked :: "string \<Rightarrow> (jsval \<Rightarrow> jsval option) \<Rightarrow> jsrecord \<Rightarrow> jsrecord \<Rightarrow> jsrecord option" where
  "add_checked k check p r =
    (if ownprop p k = JUndefined then Some r
     else do { v \<leftarrow> check (ownprop p k); Some (r @ [(k, v)]) })"

definition add_pin :: "string \<Rightarrow> (nat \<Rightarrow> unit option) \<Rightarrow> bool \<Rightarrow> jsrecord \<Rightarrow> jsrecord \<Rightarrow> jsrecord option" where
  "add_pin k check boardAware p r =
    (if ownprop p k = JUndefined then Some r
     else do { n \<leftarrow> assertGpioPin (ownprop p k); unless_aware boardAware (check n); Some (r @ [(k, js_nat n)]) })"

definition the_pin :: "string \<Rightarrow> (nat \<Rightarrow> unit option) \<Rightarrow> bool \<Rightarrow> jsrecord \<Rightarrow> nat option" where
  "the_pin k check boardAware p =
    do { n \<leftarrow> assertGpioPin (ownprop p k); unless_aware boardAware (check n); Some n }"

definition default_to :: "jsval \<Rightarrow> (jsval \<Rightarrow> jsval option) \<Rightarrow> jsval \<Rightarrow> jsval option" where
  "default_to d check v = (if v = JUndefined then Some d else check v)"

definition action_configSafeState :: "bool \<Rightarrow> jsrecord \<Rightarrow> jsrecord option" where
  "action_configSafeState aware p = do {
    pin \<leftarrow> the_pin ''pin'' assertEsp32ModePin aware p;
    level \<leftarrow> default_to (JStr ''low'') assertSafeLevel (ownprop p ''safeLevel'');
    polarity \<leftarrow> default_to (JStr ''active-high'') assertPolarity (ownprop p ''polarity'');
    Some [(''pin'', js_nat pin), (''safeLevel'', level), (''polarity'', polarity)] }"

definition action_mode :: "bool \<Rightarrow> jsrecord \<Rightarrow> jsrecord option" where
  "action_mode aware p = do {
    pin \<leftarrow> the_pin ''pin'' assertEsp32ModePin aware p;
    mode \<leftarrow> assertGpioMode (ownprop p ''mode'');
    r \<leftarrow> add_checked ''safeLevel'' assertSafeLevel p [(''pin'', js_nat pin), (''mode'', mode)];
    add_checked ''polarity'' assertPolarity p r }"

definition action_write :: "bool \<Rightarrow> jsrecord \<Rightarrow> jsrecord option" where
  "action_write aware p = do {
    pin \<leftarrow> the_pin ''pin'' assertEsp32WritePin aware p;
    v \<leftarrow> assertGpioValue (ownprop p ''value'');
    add_positive ''validityMs'' p [(''pin'', js_nat pin), (''value'', v)] }"

definition batch_entry :: "bool \<Rightarrow> jsval \<Rightarrow> jsval option" where
  "batch_entry aware w =
    (case w of
      JObj item \<Rightarrow> do {
        pin \<leftarrow> the_pin ''pin'' assertEsp32WritePin aware item;
        v \<leftarrow> assertGpioValue (ownprop item ''value'');
        Some (JObj [(''pin'', js_nat pin), (''value'', v)]) }
    | _ \<Rightarrow> None)"

definition action_batchWrite :: "bool \<Rightarrow> jsrecord \<Rightarrow> jsrecord option" where
  "action_batchWrite aware p =
    (case ownprop p ''writes'' of
      JArr ws \<Rightarrow>
        if length ws < 1 \<or> 16 < length ws then None
        else do {
          es \<leftarrow> all_some (map (batch_entry aware) ws);
          add_positive ''validityMs'' p [(''writes'', JArr es)] }
    | _ \<Rightarrow> None)"

definition action_read :: "(nat \<Rightarrow> unit option) \<Rightarrow> bool \<Rightarrow> jsrecord \<Rightarrow> jsrecord option" where
  "action_read check aware p = do { pin \<leftarrow> the_pin ''pin'' check aware p; Some [(''pin'', js_nat pin)] }"

definition action_toggle :: "bool \<Rightarrow> jsrecord \<Rightarrow> jsrecord option" where
  "action_toggle aware p = do {
    pin \<leftarrow> the_pin ''pin'' assertEsp32WritePin aware p;
    add_positive ''validityMs'' p [(''pin'', js_nat pin)] }"

definition action_pulse :: "bool \<Rightarrow> jsrecord \<Rightarrow> jsrecord option" where
  "action_pulse aware p = do {
    pin \<leftarrow> the_pin ''pin'' assertEsp32WritePin aware p;
    ms \<leftarrow> assertPositiveInt (ownprop p ''durationMs'');
    v \<leftarrow> default_to (JBool True) assertGpioValue (ownprop p ''value'');
    add_positive ''validityMs'' p [(''pin'', js_nat pin), (''durationMs'', js_nat ms), (''value'', v)] }"

definition action_pwm :: "bool \<Rightarrow> jsrecord \<Rightarrow> jsrecord option" where
  "action_pwm aware p = do {
    pin \<leftarrow> the_pin ''pin'' assertEsp32PwmPin aware p;
    ch \<leftarrow> (if ownprop p ''channel'' = JUndefined then Some (pin mod 8) else assertChannel (ownprop p ''channel''));
    duty \<leftarrow> assertDuty (ownprop p ''duty'');
    freq \<leftarrow> (if ownprop p ''frequency'' = JUndefined then Some 5000 else assertPositiveInt (ownprop p ''frequency''));
    add_positive ''validityMs'' p
      [(''channel'', js_nat ch), (''pin'', js_nat pin), (''duty'', duty), (''frequency'', js_nat freq)] }"

definition action_i2c_begin :: "bool \<Rightarrow> jsrecord \<Rightarrow> jsrecord option" where
  "action_i2c_begin aware p = do {
    r1 \<leftarrow> add_pin ''sda'' assertEsp32BusPin aware p [];
    r2 \<leftarrow> add_pin ''scl'' assertEsp32BusPin aware p r1;
    add_positive ''frequency'' p r2 }"

definition action_i2c_write :: "jsrecord \<Rightarrow> jsrecord option" where
  "action_i2c_write p = do {
    a \<leftarrow> assertI2cAddress (ownprop p ''address'');
    bs \<leftarrow> assertBusBytes (ownprop p ''data'');
    add_positive ''validityMs'' p [(''address'', js_nat a), (''data'', JArr (map js_nat bs))] }"

definition action_i2c_read :: "jsrecord \<Rightarrow> jsrecord option" where
  "action_i2c_read p = do {
    a \<leftarrow> assertI2cAddress (ownprop p ''address'');
    n \<leftarrow> assertBusLength (ownprop p ''length'');
    Some [(''address'', js_nat a), (''length'', js_nat n)] }"

definition action_spi_begin :: "bool \<Rightarrow> jsrecord \<Rightarrow> jsrecord option" where
  "action_spi_begin aware p = do {
    r1 \<leftarrow> add_pin ''sck'' assertEsp32BusPin aware p [];
    r2 \<leftarrow> add_pin ''miso'' assertEsp32ReadPin aware p r1;
    r3 \<leftarrow> add_pin ''mosi'' assertEsp32BusPin aware p r2;
    r4 \<leftarrow> add_pin ''chipSelect'' assertEsp32BusPin aware p r3;
    add_positive ''frequency'' p r4 }"

definition action_spi_transfer :: "bool \<Rightarrow> jsrecord \<Rightarrow> jsrecord option" where
  "action_spi_transfer aware p = do {
    bs \<leftarrow> assertBusBytes (ownprop p ''data'');
    r \<leftarrow> add_pin ''chipSelect'' assertEsp32BusPin aware p [(''data'', JArr (map js_nat bs))];
    add_positive ''validityMs'' p r }"

definition action_servo :: "bool \<Rightarrow> jsrecord \<Rightarrow> jsrecord option" where
  "action_servo aware p = do {
    pin \<leftarrow> the_pin ''pin'' assertEsp32PwmPin aware p;
    angle \<leftarrow> assertServoAngle (ownprop p ''angle'');
    add_positive ''validityMs'' p [(''pin'', js_nat pin), (''angle'', angle)] }"

definition action_motor :: "bool \<Rightarrow> jsrecord \<Rightarrow> jsrecord option" where
  "action_motor aware p = do {
    pwm \<leftarrow> the_pin ''pwmPin'' assertEsp32PwmPin aware p;
    r \<leftarrow> add_pin ''dirPin'' assertEsp32WritePin aware p [(''pwmPin'', js_nat pwm)];
    speed \<leftarrow> assertMotorSpeed (ownprop p ''speed'') (ownprop p ''dirPin'' \<noteq> JUndefined);
    add_positive ''validityMs'' p (r @ [(''speed'', speed)]) }"

text \<open>The actions every firmware shares, and the switch of the ESP32 bridge.\<close>

definition common_action :: "string \<Rightarrow> jsrecord \<Rightarrow> jsrecord option option" where
  "common_action action p =
    (if action \<in> {''sys.hello'', ''sys.ping'', ''sys.info'', ''sys.disarm''} then
       Some (do { assertEmptyPayload p; Some [] })
     else if action = ''sys.arm'' then
       Some (if ownprop p ''timeoutMs'' = JUndefined then Some []
         else do { n \<leftarrow> assertNonNegativeInt (ownprop p ''timeoutMs''); Some [(''timeoutMs'', js_nat n)] })
     else if action = ''watchdog.configure'' then
       Some (do { n \<leftarrow> assertNonNegativeInt (ownprop p ''timeoutMs''); Some [(''timeoutMs'', js_nat n)] })
     else if action = ''watchdog.kick'' then Some (add_positive ''validityMs'' p [])
     else None)"

definition esp32_actions :: "bool \<Rightarrow> (string \<times> (jsrecord \<Rightarrow> jsrecord option)) list" where
  "esp32_actions aware =
    [(''gpio.configSafeState'', action_configSafeState aware), (''gpio.mode'', action_mode aware),
     (''gpio.write'', action_write aware), (''gpio.batchWrite'', action_batchWrite aware),
     (''gpio.stopAll'', \<lambda>p. do { assertEmptyPayload p; Some [] }),
     (''gpio.read'', action_read assertEsp32ReadPin aware), (''gpio.watch'', action_read assertEsp32ReadPin aware),
     (''gpio.unwatch'', action_read assertEsp32ReadPin aware), (''gpio.toggle'', action_toggle aware),
     (''gpio.pulse'', action_pulse aware), (''gpio.pwm'', action_pwm aware),
     (''gpio.analogRead'', action_read assertEsp32AnalogPin aware), (''i2c.begin'', action_i2c_begin aware),
     (''i2c.write'', action_i2c_write), (''i2c.read'', action_i2c_read),
     (''i2c.scan'', \<lambda>p. do { assertEmptyPayload p; Some [] }), (''spi.begin'', action_spi_begin aware),
     (''spi.transfer'', action_spi_transfer aware), (''gpio.servo'', action_servo aware),
     (''gpio.motor'', action_motor aware)]"

definition validateAction :: "string \<Rightarrow> string \<Rightarrow> jsrecord \<Rightarrow> bool \<Rightarrow> jsrecord option" where
  "validateAction firmware action payload aware =
    (case common_action action payload of
      Some r \<Rightarrow> r
    | None \<Rightarrow>
        if firmware \<noteq> ''esp32-bridge'' then Some payload
        else (case map_of (esp32_actions aware) action of
            Some f \<Rightarrow> f payload
          | None \<Rightarrow> Some payload))"

subsection \<open>Invoking an action\<close>

text \<open>\<open>capabilities.find(\<dots>) ?? describeCapability(action)\<close>: the input and the output schema of an action.\<close>

type_synonym descriptors = "string \<Rightarrow> schema \<times> schema"

definition supports :: "device_info \<Rightarrow> string \<Rightarrow> bool" where
  "supports info action \<longleftrightarrow> action \<in> set (dv_capabilities info)"

definition hasFeature :: "device_info \<Rightarrow> string \<Rightarrow> bool" where
  "hasFeature info f \<longleftrightarrow> f \<in> set (dv_features info)"

text \<open>\<open>Number(checked.pin) % m\<close>, for a pin that is a number.\<close>

definition pin_mod :: "jsval \<Rightarrow> nat \<Rightarrow> jsval" where
  "pin_mod v m =
    (case v of
      JNum (Fin x) \<Rightarrow> JNum (Fin (if 0 \<le> x then x - real m * of_int \<lfloor>x / real m\<rfloor> else - (- x - real m * of_int \<lfloor>- x / real m\<rfloor>)))
    | _ \<Rightarrow> JNum NaN)"

definition default_channel :: "board option \<Rightarrow> string \<Rightarrow> jsrecord \<Rightarrow> jsrecord" where
  "default_channel b action checked =
    (case b of
      Some bd \<Rightarrow>
        if action = ''gpio.pwm'' \<and> ownprop checked ''channel'' = JUndefined then
          (if bd_family bd = ''esp32-c3'' then jset ''channel'' (pin_mod (ownprop checked ''pin'') 6) checked
           else if bd_family bd = ''esp32-s3'' then jset ''channel'' (pin_mod (ownprop checked ''pin'') 8) checked
           else checked)
        else checked
    | None \<Rightarrow> checked)"

text \<open>The part of \<open>invoke\<close> before the request: the payload that is sent, and after it: the checked result.\<close>

definition invoke_request :: "descriptors \<Rightarrow> device_info \<Rightarrow> string \<Rightarrow> jsrecord \<Rightarrow> jsrecord option" where
  "invoke_request desc info action payload =
    (if \<not> supports info action then None
     else (case validateInputSchema (fst (desc action)) (JObj payload) [] of
         Inl _ \<Rightarrow> None
       | Inr checked \<Rightarrow> do {
           b \<leftarrow> boardForInfo info;
           (case b of None \<Rightarrow> Some () | Some bd \<Rightarrow> validateBoardAction bd action checked);
           validateAction (dv_firmware info) action (default_channel b action checked)
             (case dv_boardId info of Some i \<Rightarrow> i \<noteq> [] | None \<Rightarrow> False) }))"

definition invoke_result :: "descriptors \<Rightarrow> string \<Rightarrow> jsrecord \<Rightarrow> jsrecord option" where
  "invoke_result desc action result =
    (case validateOutputSchema (snd (desc action)) (JObj result) of Inl _ \<Rightarrow> None | Inr r \<Rightarrow> Some r)"

text \<open>The typed answers of \<open>Gpio\<close>.\<close>

definition stopAll_result :: "jsrecord \<Rightarrow> jsval list option" where
  "stopAll_result r =
    (case ownprop r ''stoppedPins'' of
      JArr ps \<Rightarrow> if list_all (\<lambda>p. case p of JNum _ \<Rightarrow> True | _ \<Rightarrow> False) ps then Some ps else None
    | _ \<Rightarrow> None)"

definition boolean_result :: "jsrecord \<Rightarrow> bool option" where
  "boolean_result r = (case ownprop r ''value'' of JBool b \<Rightarrow> Some b | _ \<Rightarrow> None)"

definition number_result :: "jsrecord \<Rightarrow> jsnum option" where
  "number_result r = (case ownprop r ''value'' of JNum n \<Rightarrow> Some n | _ \<Rightarrow> None)"

definition resolveBoardPin :: "device_info \<Rightarrow> string \<Rightarrow> nat option" where
  "resolveBoardPin info name = (if dv_firmware info = ''esp32-bridge'' then resolveEsp32BoardPin name else None)"

subsection \<open>Event handlers\<close>

record handlers =
  hd_on :: "(string, nat list) jmap"
  hd_once :: "(string, nat list) jmap"

definition addHandler :: "(string, nat list) jmap \<Rightarrow> string \<Rightarrow> nat \<Rightarrow> (string, nat list) jmap" where
  "addHandler store event h =
    (case jget store event of
      Some hs \<Rightarrow> jset event (if h \<in> set hs then hs else hs @ [h]) store
    | None \<Rightarrow> jset event [h] store)"

definition on_event :: "string \<Rightarrow> nat \<Rightarrow> handlers \<Rightarrow> handlers" where
  "on_event event h s = s\<lparr>hd_on := addHandler (hd_on s) event h\<rparr>"

definition once_event :: "string \<Rightarrow> nat \<Rightarrow> handlers \<Rightarrow> handlers" where
  "once_event event h s = s\<lparr>hd_once := addHandler (hd_once s) event h\<rparr>"

definition remove_handler :: "string \<Rightarrow> nat \<Rightarrow> (string, nat list) jmap \<Rightarrow> (string, nat list) jmap" where
  "remove_handler event h store =
    (case jget store event of None \<Rightarrow> store | Some hs \<Rightarrow> jset event (removeAll h hs) store)"

definition off_event :: "string \<Rightarrow> nat \<Rightarrow> handlers \<Rightarrow> handlers" where
  "off_event event h s =
    s\<lparr>hd_on := remove_handler event h (hd_on s), hd_once := remove_handler event h (hd_once s)\<rparr>"

text \<open>\<open>emit\<close>, for handlers that do not change the registrations: who is called, in order.\<close>

definition emit :: "string \<Rightarrow> handlers \<Rightarrow> nat list \<times> handlers" where
  "emit event s =
    (case jget (hd_once s) event of
      Some hs \<Rightarrow> (or_empty (jget (hd_on s) event) @ hs, s\<lparr>hd_once := jdelete event (hd_once s)\<rparr>)
    | None \<Rightarrow> (or_empty (jget (hd_on s) event), s))"

definition device_event :: "string \<Rightarrow> handlers \<Rightarrow> nat list \<times> handlers" where
  "device_event event s = (if event = ''ready'' then ([], s) else emit event s)"

text \<open>\<open>close\<close>: no handler is called any more; the session is closed after that.\<close>

definition close_device :: "handlers \<Rightarrow> handlers" where
  "close_device s = s\<lparr>hd_on := [], hd_once := []\<rparr>"

subsection \<open>The pins a request names\<close>

lemma int_between_value: "int_between lo hi v = Some n \<Longrightarrow> 0 \<le> lo \<Longrightarrow> v = js_nat n"
  by (auto simp: int_between_def js_nat_def of_nat_nat split: jsval.splits jsnum.splits if_splits)

lemma assertGpioPin_value: "assertGpioPin v = Some n \<Longrightarrow> v = js_nat n"
  by (simp add: assertGpioPin_def int_between_value)

text \<open>A normalised payload holds at a pin key nothing, or what the payload holds; likewise for batch writes.\<close>

definition write_pins :: "jsrecord \<Rightarrow> jsval set" where
  "write_pins p = entry_pin ` set (array_items (ownprop p ''writes''))"

definition copies :: "jsrecord \<Rightarrow> jsrecord \<Rightarrow> bool" where
  "copies p r \<longleftrightarrow> (\<forall>k\<in>set pin_keys. ownprop r k = JUndefined \<or> ownprop r k = ownprop p k) \<and> write_pins r \<subseteq> write_pins p"

lemma ownprop_snoc: "ownprop (r @ [(k, v)]) j = (if jget r j = None then (if j = k then v else JUndefined) else ownprop r j)"
  by (auto simp: ownprop_def map_add_def split: option.splits)

lemma copies_Nil [simp]: "copies p []"
  by (simp add: copies_def write_pins_def array_items_def)

lemma copies_refl [simp]: "copies p p"
  by (simp add: copies_def)

lemma write_pins_snoc: "k \<noteq> ''writes'' \<Longrightarrow> write_pins (r @ [(k, v)]) = write_pins r"
proof -
  assume "k \<noteq> ''writes''"
  then have "ownprop (r @ [(k, v)]) ''writes'' = ownprop r ''writes''"
    by (simp add: ownprop_snoc) (simp add: ownprop_def)
  then show ?thesis
    by (simp only: write_pins_def)
qed

lemma pin_key_not_writes: "k \<in> set pin_keys \<Longrightarrow> k \<noteq> ''writes''"
  by (auto simp: pin_keys_def)

lemma ownprop_None: "jget r j = None \<Longrightarrow> ownprop r j = JUndefined"
  by (simp add: ownprop_def)

lemma copies_snoc_other: "copies p r \<Longrightarrow> k \<notin> set pin_keys \<Longrightarrow> k \<noteq> ''writes'' \<Longrightarrow> copies p (r @ [(k, v)])"
  unfolding copies_def by (auto simp: ownprop_snoc write_pins_snoc)

lemma copies_snoc_pin:
  assumes "copies p r" "k \<in> set pin_keys"
  shows "copies p (r @ [(k, ownprop p k)])"
  using assms unfolding copies_def by (auto simp: ownprop_snoc write_pins_snoc[OF pin_key_not_writes])

text \<open>Every piece of a normalisation copies.\<close>

lemma copies_the_pin: "the_pin k check aware p = Some n \<Longrightarrow> js_nat n = ownprop p k"
  by (auto simp: the_pin_def bind_eq_Some_conv dest: assertGpioPin_value)

lemma copies_single: "copies p [(k, v)] = copies p ([] @ [(k, v)])"
  by simp

lemma copies_add_positive:
  "add_positive k p r = Some r' \<Longrightarrow> copies p r \<Longrightarrow> k \<notin> set pin_keys \<Longrightarrow> k \<noteq> ''writes'' \<Longrightarrow> copies p r'"
  by (auto simp: add_positive_def bind_eq_Some_conv copies_snoc_other split: if_splits)

lemma copies_add_checked:
  "add_checked k check p r = Some r' \<Longrightarrow> copies p r \<Longrightarrow> k \<notin> set pin_keys \<Longrightarrow> k \<noteq> ''writes'' \<Longrightarrow> copies p r'"
  by (auto simp: add_checked_def bind_eq_Some_conv copies_snoc_other split: if_splits)

lemma copies_add_pin:
  "add_pin k check aware p r = Some r' \<Longrightarrow> copies p r \<Longrightarrow> k \<in> set pin_keys \<Longrightarrow> copies p r'"
  using copies_snoc_pin[of p r k]
  by (auto simp: add_pin_def bind_eq_Some_conv dest!: assertGpioPin_value split: if_splits)

lemma copies_lists:
  "k \<in> set pin_keys \<Longrightarrow> copies p [(k, ownprop p k)]"
  "k \<notin> set pin_keys \<Longrightarrow> k \<noteq> ''writes'' \<Longrightarrow> copies p [(k, v)]"
  using copies_snoc_pin[of p "[]" k] copies_snoc_other[of p "[]" k v] by auto

lemma copies_pin_more:
  "js_nat n = ownprop p k \<Longrightarrow> k \<in> set pin_keys \<Longrightarrow> list_all (\<lambda>(j, v). j \<notin> set pin_keys \<and> j \<noteq> ''writes'') rest \<Longrightarrow>
    copies p ((k, js_nat n) # rest)"
proof (induction rest rule: rev_induct)
  case (snoc x rest)
  then show ?case
    using copies_snoc_other[of p "(k, js_nat n) # rest" "fst x" "snd x"] by (cases x) simp
qed (simp add: copies_lists)

lemmas copies_simps = bind_eq_Some_conv pin_keys_def

lemma copies_batch_entry: "batch_entry aware w = Some e \<Longrightarrow> entry_pin e = entry_pin w"
  by (auto simp: batch_entry_def bind_eq_Some_conv entry_pin_def copies_the_pin split: jsval.splits)

lemma all_some_set: "all_some (map f xs) = Some ys \<Longrightarrow> y \<in> set ys \<Longrightarrow> \<exists>x\<in>set xs. f x = Some y"
proof (induction xs arbitrary: ys)
  case (Cons x xs)
  then show ?case
    by (cases "f x") (auto split: option.splits)
qed simp

lemma copies_batch: "action_batchWrite aware p = Some r \<Longrightarrow> copies p r"
proof -
  assume a: "action_batchWrite aware p = Some r"
  then obtain ws es where w: "ownprop p ''writes'' = JArr ws" "all_some (map (batch_entry aware) ws) = Some es"
      "add_positive ''validityMs'' p [(''writes'', JArr es)] = Some r"
    by (auto simp: action_batchWrite_def bind_eq_Some_conv split: jsval.splits if_splits)
  have "write_pins [(''writes'', JArr es)] \<subseteq> write_pins p"
    using w(1) all_some_set[OF w(2)] copies_batch_entry unfolding write_pins_def by (fastforce simp: array_items_def)
  then have "copies p [(''writes'', JArr es)]"
    by (simp add: copies_def pin_keys_def)
  from copies_add_positive[OF w(3) this] show ?thesis
    by (simp add: pin_keys_def)
qed

lemma other_keys [simp]: "''validityMs'' \<notin> set pin_keys" "''safeLevel'' \<notin> set pin_keys" "''polarity'' \<notin> set pin_keys"
  "''mode'' \<notin> set pin_keys" "''value'' \<notin> set pin_keys" "''durationMs'' \<notin> set pin_keys" "''channel'' \<notin> set pin_keys"
  "''duty'' \<notin> set pin_keys" "''frequency'' \<notin> set pin_keys" "''address'' \<notin> set pin_keys" "''data'' \<notin> set pin_keys"
  "''length'' \<notin> set pin_keys" "''angle'' \<notin> set pin_keys" "''speed'' \<notin> set pin_keys" "''timeoutMs'' \<notin> set pin_keys"
  by (simp_all add: pin_keys_def)

lemma some_keys [simp]: "''pin'' \<in> set pin_keys" "''pwmPin'' \<in> set pin_keys" "''dirPin'' \<in> set pin_keys"
  "''sda'' \<in> set pin_keys" "''scl'' \<in> set pin_keys" "''sck'' \<in> set pin_keys" "''miso'' \<in> set pin_keys"
  "''mosi'' \<in> set pin_keys" "''chipSelect'' \<in> set pin_keys"
  by (simp_all add: pin_keys_def)

lemma copies_pwm: "action_pwm aware p = Some r \<Longrightarrow> copies p r"
proof -
  assume "action_pwm aware p = Some r"
  then obtain pin ch duty freq where r: "the_pin ''pin'' assertEsp32PwmPin aware p = Some pin"
      "add_positive ''validityMs'' p [(''channel'', js_nat ch), (''pin'', js_nat pin), (''duty'', duty), (''frequency'', js_nat freq)] = Some r"
    by (auto simp: action_pwm_def bind_eq_Some_conv)
  have "copies p ((([(''channel'', js_nat ch)] @ [(''pin'', js_nat pin)]) @ [(''duty'', duty)]) @ [(''frequency'', js_nat freq)])"
    unfolding copies_the_pin[OF r(1)] by (intro copies_snoc_other copies_snoc_pin copies_lists(2)) simp_all
  with copies_add_positive[OF r(2)] show ?thesis
    by simp
qed

lemma copies_motor: "action_motor aware p = Some r \<Longrightarrow> copies p r"
proof -
  assume "action_motor aware p = Some r"
  then obtain pwm r1 speed where r: "the_pin ''pwmPin'' assertEsp32PwmPin aware p = Some pwm"
      "add_pin ''dirPin'' assertEsp32WritePin aware p [(''pwmPin'', js_nat pwm)] = Some r1"
      "add_positive ''validityMs'' p (r1 @ [(''speed'', speed)]) = Some r"
    by (auto simp: action_motor_def bind_eq_Some_conv)
  have "copies p r1"
    by (rule copies_add_pin[OF r(2)]) (simp_all add: copies_lists copies_the_pin[OF r(1)])
  with copies_add_positive[OF r(3)] copies_snoc_other[of p r1 "''speed''" speed] show ?thesis
    by simp
qed

lemmas copies_pieces = copies_add_positive copies_add_checked copies_add_pin

lemma copies_simple:
  "action_configSafeState aware p = Some r \<Longrightarrow> copies p r"
  "action_write aware p = Some r \<Longrightarrow> copies p r"
  "action_read check aware p = Some r \<Longrightarrow> copies p r"
  "action_toggle aware p = Some r \<Longrightarrow> copies p r"
  "action_pulse aware p = Some r \<Longrightarrow> copies p r"
  "action_servo aware p = Some r \<Longrightarrow> copies p r"
  by (auto simp: action_configSafeState_def action_write_def action_read_def action_toggle_def action_pulse_def
      action_servo_def bind_eq_Some_conv copies_the_pin intro!: copies_pin_more elim!: copies_add_positive)

lemma copies_mode: "action_mode aware p = Some r \<Longrightarrow> copies p r"
proof -
  assume "action_mode aware p = Some r"
  then obtain pin mode r1 where r: "the_pin ''pin'' assertEsp32ModePin aware p = Some pin"
      "add_checked ''safeLevel'' assertSafeLevel p [(''pin'', js_nat pin), (''mode'', mode)] = Some r1"
      "add_checked ''polarity'' assertPolarity p r1 = Some r"
    by (auto simp: action_mode_def bind_eq_Some_conv)
  have "copies p [(''pin'', js_nat pin), (''mode'', mode)]"
    by (rule copies_pin_more[OF copies_the_pin[OF r(1)]]) simp_all
  from copies_add_checked[OF r(3) copies_add_checked[OF r(2) this]] show ?thesis
    by simp
qed

lemma copies_i2c_write: "action_i2c_write p = Some r \<Longrightarrow> copies p r"
proof -
  assume "action_i2c_write p = Some r"
  then obtain a bs where r: "add_positive ''validityMs'' p [(''address'', js_nat a), (''data'', JArr (map js_nat bs))] = Some r"
    by (auto simp: action_i2c_write_def bind_eq_Some_conv)
  have "copies p ([(''address'', js_nat a)] @ [(''data'', JArr (map js_nat bs))])"
    by (intro copies_snoc_other copies_lists(2)) simp_all
  with copies_add_positive[OF r] show ?thesis by simp
qed

lemma copies_i2c_read: "action_i2c_read p = Some r \<Longrightarrow> copies p r"
proof -
  assume "action_i2c_read p = Some r"
  then obtain a n where r: "r = [(''address'', js_nat a)] @ [(''length'', js_nat n)]"
    by (auto simp: action_i2c_read_def bind_eq_Some_conv)
  show ?thesis
    unfolding r by (intro copies_snoc_other copies_lists(2)) simp_all
qed

lemma copies_buses:
  "action_i2c_begin aware p = Some r \<Longrightarrow> copies p r"
  "action_spi_begin aware p = Some r \<Longrightarrow> copies p r"
  by (auto simp: action_i2c_begin_def action_spi_begin_def bind_eq_Some_conv dest!: copies_pieces)

lemma copies_transfer: "action_spi_transfer aware p = Some r \<Longrightarrow> copies p r"
  by (auto simp: action_spi_transfer_def bind_eq_Some_conv copies_lists dest!: copies_pieces)

lemma copies_empty: "assertEmptyPayload p \<bind> (\<lambda>_. Some []) = Some r \<Longrightarrow> copies p r"
  by (auto simp: bind_eq_Some_conv)

lemma copies_esp32: "map_of (esp32_actions aware) action = Some f \<Longrightarrow> f p = Some r \<Longrightarrow> copies p r"
  by (auto simp: esp32_actions_def copies_simple copies_mode copies_batch copies_pwm copies_motor copies_i2c_write
      copies_i2c_read copies_buses copies_transfer copies_empty split: if_splits)

lemma copies_common: "common_action action p = Some (Some r) \<Longrightarrow> copies p r"
  by (auto simp: common_action_def bind_eq_Some_conv copies_lists split: if_splits dest!: copies_add_positive)

lemma copies_validateAction: "validateAction fw action p aware = Some r \<Longrightarrow> copies p r"
  by (auto simp: validateAction_def split: option.splits if_splits intro: copies_common copies_esp32)

subsection \<open>Properties\<close>

text \<open>The actions that only read a pin, and the keys an action drives.\<close>

definition reads_pins :: "string \<Rightarrow> jsrecord \<Rightarrow> bool" where
  "reads_pins action payload \<longleftrightarrow> action \<in> set read_actions \<or> (action = ''gpio.mode'' \<and> ownprop payload ''mode'' = JStr ''input'')"

lemma board_action_pins:
  assumes "validateBoardAction b action payload = Some ()"
  shows "k \<in> set pin_keys \<Longrightarrow> ownprop payload k = JUndefined \<or>
      pin_ok b (k \<noteq> ''miso'' \<and> \<not> reads_pins action payload) (ownprop payload k)"
    and "v \<in> write_pins payload \<Longrightarrow> pin_ok b (\<not> reads_pins action payload) v"
proof -
  let ?r = "reads_pins action payload"
  have "list_all (\<lambda>k. ownprop payload k = JUndefined \<or> pin_ok b (if k = ''miso'' then False else \<not> ?r) (ownprop payload k)) pin_keys
      \<and> list_all (\<lambda>w. pin_ok b (\<not> ?r) (entry_pin w)) (array_items (ownprop payload ''writes''))"
    using assms unfolding validateBoardAction_def Let_def reads_pins_def
    by (simp only: option.distinct split: if_split_asm)
  then have a: "\<forall>k\<in>set pin_keys. ownprop payload k = JUndefined \<or> pin_ok b (if k = ''miso'' then False else \<not> ?r) (ownprop payload k)"
    and w: "\<forall>w\<in>set (array_items (ownprop payload ''writes'')). pin_ok b (\<not> ?r) (entry_pin w)"
    unfolding list_all_iff by blast+
  show "k \<in> set pin_keys \<Longrightarrow> ownprop payload k = JUndefined \<or> pin_ok b (k \<noteq> ''miso'' \<and> \<not> ?r) (ownprop payload k)"
    using a by (cases "k = ''miso''") auto
  show "v \<in> write_pins payload \<Longrightarrow> pin_ok b (\<not> ?r) v"
    using w unfolding write_pins_def by blast
qed

lemma default_channel_other: "k \<noteq> ''channel'' \<Longrightarrow> ownprop (default_channel b action p) k = ownprop p k"
  by (simp add: default_channel_def ownprop_def jget_set split: option.split)

text \<open>What a sent request was derived from.\<close>

lemma invoke_request_parts:
  assumes "invoke_request desc info action payload = Some req"
  obtains b where "boardForInfo info = Some b" "b = None \<or> validateBoardAction (the b) action payload = Some ()"
    "validateAction (dv_firmware info) action (default_channel b action payload)
       (case dv_boardId info of Some i \<Rightarrow> i \<noteq> [] | None \<Rightarrow> False) = Some req"
    "supports info action"
proof -
  have v: "checked = payload" if "validateInputSchema (fst (desc action)) (JObj payload) [] = Inr checked" for checked
    using that by (auto simp: validateInputSchema_def split: sum.splits)
  obtain b where b: "supports info action" "boardForInfo info = Some b"
      "(case b of None \<Rightarrow> Some () | Some bd \<Rightarrow> validateBoardAction bd action payload) = Some ()"
      "validateAction (dv_firmware info) action (default_channel b action payload)
         (case dv_boardId info of Some i \<Rightarrow> i \<noteq> [] | None \<Rightarrow> False) = Some req"
    using assms v by (auto simp: invoke_request_def bind_eq_Some_conv simp del: option.case split: if_splits sum.splits)
  show thesis
    using b by (intro that[of b]) (cases b; simp)+
qed

definition allowed_pin :: "board \<Rightarrow> bool \<Rightarrow> jsval \<Rightarrow> bool" where
  "allowed_pin b output v \<longleftrightarrow> (\<exists>p. v = js_nat p \<and> p \<in> set (bd_gpioPins b) \<and> p \<notin> set (bd_reservedPins b) \<and>
    (output \<longrightarrow> p \<notin> set (or_empty (bd_inputOnlyPins b))))"

lemma js_nat_inject [simp]: "js_nat m = js_nat n \<longleftrightarrow> m = n"
  by (simp add: js_nat_def)

lemma pin_ok_allowed: "consistent_board b \<Longrightarrow> pin_ok b out v \<Longrightarrow> allowed_pin b out v"
  by (auto simp: pin_ok_def allowed_pin_def includes_pin_def maybe_includes_def consistent_board_def list_all_iff
      or_empty_def split: option.splits)

lemma board_builtin: "boardForInfo info = Some (Some b) \<Longrightarrow> b \<in> set builtinBoards"
  by (auto simp: boardForInfo_def find_board_def Let_def find_Some_iff split: option.splits if_splits)

text \<open>C18: No request touches a pin the board reserves. When a board is identified, every pin named in the
  request that is sent to it, under any of the nine pin keys and in any batch entry, after all defaults and
  normalisation, is a pin the board's descriptor offers and does not reserve, and it is not an input-only pin
  unless the action only reads it.\<close>

theorem requests_spare_reserved_pins:
  assumes "invoke_request desc info action payload = Some req" and "boardForInfo info = Some (Some b)"
  shows "(\<forall>k\<in>set pin_keys. ownprop req k = JUndefined \<or>
      allowed_pin b (k \<noteq> ''miso'' \<and> \<not> reads_pins action payload) (ownprop req k)) \<and>
    (\<forall>v\<in>write_pins req. allowed_pin b (\<not> reads_pins action payload) v)"
proof -
  have ok: "consistent_board b"
    using builtin_consistent board_builtin[OF assms(2)] by (simp add: list_all_iff)
  from invoke_request_parts[OF assms(1)] assms(2)
  have v: "validateBoardAction b action payload = Some ()"
    and c: "copies (default_channel (Some b) action payload) req"
    by (metis option.distinct(1) option.inject option.sel, metis copies_validateAction option.inject)
  have w: "write_pins (default_channel (Some b) action payload) = write_pins payload"
    by (simp add: write_pins_def default_channel_other)
  have "k \<in> set pin_keys \<Longrightarrow> ownprop (default_channel (Some b) action payload) k = ownprop payload k" for k
    by (rule default_channel_other) auto
  then show ?thesis
    using c board_action_pins[OF v] pin_ok_allowed[OF ok] unfolding copies_def w by (metis subsetD)
qed

text \<open>A UNO whose capabilities are taken as they come, and a batch write on it.\<close>

definition wit_uno :: device_info where
  "wit_uno = \<lparr>dv_firmware = ''avr-bridge'', dv_version = ''1'', dv_capabilities = [''gpio.batchWrite''],
     dv_features = [], dv_boardId = Some ''arduino-uno''\<rparr>"

definition any_schema :: "string \<Rightarrow> schema \<times> schema" where
  "any_schema action = (plain_schema, plain_schema)"

lemma any_schema_input [simp]: "validateInputSchema (fst (any_schema action)) (JObj p) [] = Inr p"
  by (simp add: any_schema_def validateInputSchema_def plain_schema_def assertSchema.simps assert_scalar_def enum_check_def)

definition wit_batch :: jsrecord where
  "wit_batch = [(''writes'', JArr [JObj [(''pin'', js_nat 13), (''value'', JBool True)]])]"

lemma wit_uno_board: "boardForInfo wit_uno = Some (Some board_arduino_uno)"
  by (simp add: boardForInfo_def wit_uno_def find_board_def builtinBoards_def board_arduino_uno_def Let_def)

lemma ownprop_not_in: "k \<notin> fst ` set r \<Longrightarrow> ownprop r k = JUndefined"
  by (simp add: ownprop_def map_of_eq_None_iff[THEN iffD2])

theorem requests_spare_reserved_pins_witness:
  "\<exists>req. invoke_request any_schema wit_uno ''gpio.batchWrite'' wit_batch = Some req \<and>
    js_nat 13 \<in> write_pins req \<and> allowed_pin board_arduino_uno True (js_nat 13)"
proof -
  have ok: "includes_pin (bd_gpioPins board_arduino_uno) (js_nat 13)"
    by (simp add: includes_pin_def board_arduino_uno_def)
  have v: "validateBoardAction board_arduino_uno ''gpio.batchWrite'' wit_batch = Some ()"
    using ok by (simp add: validateBoardAction_def wit_batch_def pin_keys_def array_items_def entry_pin_def pin_ok_def
        maybe_includes_def read_actions_def)
      (simp add: board_arduino_uno_def pwmChannelLimits_def includes_pin_def)
  have r: "invoke_request any_schema wit_uno ''gpio.batchWrite'' wit_batch = Some wit_batch"
    by (simp add: invoke_request_def wit_uno_board v default_channel_def validateAction_def common_action_def)
      (simp add: wit_uno_def supports_def)
  have "js_nat 13 \<in> write_pins wit_batch"
    by (simp add: write_pins_def wit_batch_def array_items_def entry_pin_def)
  moreover from this requests_spare_reserved_pins[OF r wit_uno_board]
  have "allowed_pin board_arduino_uno True (js_nat 13)"
    by (simp add: reads_pins_def read_actions_def)
  ultimately show ?thesis
    using r by blast
qed

lemma pin_mod_nat: "0 < m \<Longrightarrow> pin_mod (js_nat p) m = js_nat (p mod m)"
proof -
  assume "0 < m"
  have "\<lfloor>real p / real m\<rfloor> = int (p div m)"
    by (simp add: floor_divide_of_nat_eq)
  moreover have "real p - real m * real (p div m) = real (p mod m)"
    by (metis add_diff_cancel_left' mult_div_mod_eq of_nat_add of_nat_mult)
  ultimately show ?thesis
    by (simp add: pin_mod_def js_nat_def)
qed

lemma board_action_channel:
  assumes "validateBoardAction b action payload = Some ()" and "pwmChannelLimits (bd_family b) = Some m"
    and "ownprop payload ''channel'' = js_nat c" and "0 < m"
  shows "c < m"
proof -
  have "\<not> js_less (Fin (real m - 1)) (Fin (real c))"
    using assms(1-3) by (auto simp: validateBoardAction_def Let_def js_nat_def split: if_split_asm)
  with assms(4) show ?thesis by auto
qed

lemma js_nat_defined [simp]: "js_nat n \<noteq> JUndefined" "JUndefined \<noteq> js_nat n"
  by (simp_all add: js_nat_def)

lemma pwm_pin: "action_pwm aware p = Some r \<Longrightarrow> \<exists>pin. ownprop p ''pin'' = js_nat pin"
  by (auto simp: action_pwm_def bind_eq_Some_conv intro: copies_the_pin[symmetric])

lemma pwm_channel: "action_pwm aware p = Some r \<Longrightarrow>
    (ownprop p ''channel'' = JUndefined \<and> (\<exists>pin. ownprop p ''pin'' = js_nat pin \<and> ownprop r ''channel'' = js_nat (pin mod 8))) \<or>
    (\<exists>c. ownprop p ''channel'' = js_nat c \<and> c \<le> 15 \<and> ownprop r ''channel'' = js_nat c)"
proof -
  assume "action_pwm aware p = Some r"
  then obtain pin ch duty freq where r: "the_pin ''pin'' assertEsp32PwmPin aware p = Some pin"
      "(if ownprop p ''channel'' = JUndefined then Some (pin mod 8) else assertChannel (ownprop p ''channel'')) = Some ch"
      "add_positive ''validityMs'' p [(''channel'', js_nat ch), (''pin'', js_nat pin), (''duty'', duty), (''frequency'', js_nat freq)] = Some r"
    by (auto simp: action_pwm_def bind_eq_Some_conv)
  have "ownprop r ''channel'' = js_nat ch"
    using r(3) by (auto simp: add_positive_def bind_eq_Some_conv split: if_splits)
  moreover have "ownprop p ''channel'' \<noteq> JUndefined \<Longrightarrow> ownprop p ''channel'' = js_nat ch \<and> ch \<le> 15"
    using r(2) int_between_value[of 0 "Some 15" "ownprop p ''channel''" ch]
    by (auto simp: assertChannel_def) (auto simp: int_between_def split: jsval.splits jsnum.splits if_splits)
  ultimately show ?thesis
    using r(2) copies_the_pin[OF r(1), symmetric] by (cases "ownprop p ''channel'' = JUndefined") auto
qed

text \<open>A PWM request asks for a channel the chip has. On every ESP32 board but the C6, the channel of the
  request that is sent, given or chosen by default, is below the number of channels of the family.\<close>

theorem pwm_channel_exists:
  assumes "invoke_request desc info ''gpio.pwm'' payload = Some req" and "dv_firmware info = ''esp32-bridge''"
    and "boardForInfo info = Some (Some b)" and "pwmChannelLimits (bd_family b) = Some m" and "bd_family b \<noteq> ''esp32-c6''"
  shows "\<exists>c<m. ownprop req ''channel'' = js_nat c"
proof -
  let ?p = "default_channel (Some b) ''gpio.pwm'' payload"
  obtain aware where v: "validateBoardAction b ''gpio.pwm'' payload = Some ()"
    and a: "validateAction (dv_firmware info) ''gpio.pwm'' ?p aware = Some req"
    by (rule invoke_request_parts[OF assms(1)]) (use assms(3) in auto)
  have pwm: "action_pwm aware ?p = Some req"
    using a assms(2) by (simp add: validateAction_def common_action_def esp32_actions_def)
  note ch = pwm_channel[OF pwm]
  have fam: "(bd_family b = ''esp32'' \<and> m = 16) \<or> (bd_family b = ''esp32-s2'' \<and> m = 8) \<or>
      (bd_family b = ''esp32-s3'' \<and> m = 8) \<or> (bd_family b = ''esp32-c3'' \<and> m = 6)"
    using assms(4,5) by (auto simp: pwmChannelLimits_def split: if_splits)
  show ?thesis
  proof (cases "ownprop payload ''channel'' = JUndefined")
    case False
    then have "?p = payload"
      by (simp add: default_channel_def)
    with False ch obtain c where "ownprop payload ''channel'' = js_nat c" "ownprop req ''channel'' = js_nat c"
      by auto
    then show ?thesis
      using board_action_channel[OF v assms(4)] fam by auto
  next
    case True
    have pin: "ownprop ?p ''pin'' = ownprop payload ''pin''"
      by (rule default_channel_other) simp
    obtain n where "ownprop payload ''pin'' = js_nat n"
      using pwm_pin[OF pwm] pin by auto
    moreover have "ownprop ?p ''channel'' = (if bd_family b = ''esp32-c3'' then pin_mod (ownprop payload ''pin'') 6
        else if bd_family b = ''esp32-s3'' then pin_mod (ownprop payload ''pin'') 8 else JUndefined)"
      using True by (simp add: default_channel_def ownprop_def jget_set)
    ultimately show ?thesis
      using ch fam pin by (auto simp: pin_mod_nat)
  qed
qed

definition wit_board_info :: "string \<Rightarrow> device_info" where
  "wit_board_info i = \<lparr>dv_firmware = ''esp32-bridge'', dv_version = ''1'', dv_capabilities = [''gpio.pwm''],
     dv_features = [], dv_boardId = Some i\<rparr>"

definition wit_pwm :: "nat \<Rightarrow> jsrecord" where
  "wit_pwm pin = [(''pin'', js_nat pin), (''duty'', JNum (Fin (1 / 2)))]"

lemma wit_pwm_request:
  assumes "boardForInfo (wit_board_info i) = Some (Some b)" "i \<noteq> []"
    and "includes_pin (bd_gpioPins b) (js_nat pin)" "maybe_includes (bd_pwmPins b) (js_nat pin)"
    and "\<not> maybe_includes (bd_inputOnlyPins b) (js_nat pin)" "bd_family b \<noteq> ''avr''"
    and "bd_family b \<noteq> ''esp32-c3''" "bd_family b \<noteq> ''esp32-s3''"
  shows "invoke_request any_schema (wit_board_info i) ''gpio.pwm'' (wit_pwm pin) =
    Some [(''channel'', js_nat (pin mod 8)), (''pin'', js_nat pin), (''duty'', JNum (Fin (1 / 2))), (''frequency'', js_nat 5000)]"
proof -
  have v: "validateBoardAction b ''gpio.pwm'' (wit_pwm pin) = Some ()"
    using assms by (simp add: validateBoardAction_def wit_pwm_def pin_keys_def array_items_def pin_ok_def read_actions_def
        split: option.split)
  have d: "default_channel (Some b) ''gpio.pwm'' (wit_pwm pin) = wit_pwm pin"
    using assms by (simp add: default_channel_def)
  have n: "assertGpioPin (js_nat pin) = Some pin"
    by (simp add: assertGpioPin_def int_between_def js_nat_def)
  have "action_pwm True (wit_pwm pin) =
      Some [(''channel'', js_nat (pin mod 8)), (''pin'', js_nat pin), (''duty'', JNum (Fin (1 / 2))), (''frequency'', js_nat 5000)]"
    by (simp add: action_pwm_def the_pin_def wit_pwm_def n unless_aware_def assertDuty_def number_between_def add_positive_def)
  then show ?thesis
    using assms(1,2) v d
    by (simp add: invoke_request_def validateAction_def common_action_def esp32_actions_def)
      (simp add: wit_board_info_def supports_def)
qed

lemma wit_boards:
  "boardForInfo (wit_board_info ''esp32-devkit-v1'') = Some (Some board_esp32_devkit_v1)"
  "boardForInfo (wit_board_info ''esp32-c6-devkitc-1'') = Some (Some board_esp32_c6_devkitc_1)"
  by (simp_all add: boardForInfo_def wit_board_info_def find_board_def builtinBoards_def board_defs Let_def)

theorem pwm_channel_exists_witness:
  "\<exists>req. invoke_request any_schema (wit_board_info ''esp32-devkit-v1'') ''gpio.pwm'' (wit_pwm 13) = Some req \<and>
    (\<exists>c<16. ownprop req ''channel'' = js_nat c)"
proof -
  have r: "\<exists>req. invoke_request any_schema (wit_board_info ''esp32-devkit-v1'') ''gpio.pwm'' (wit_pwm 13) = Some req"
    by (intro exI, rule wit_pwm_request[OF wit_boards(1)])
      (simp_all add: includes_pin_def maybe_includes_def board_esp32_devkit_v1_def)
  then obtain req where "invoke_request any_schema (wit_board_info ''esp32-devkit-v1'') ''gpio.pwm'' (wit_pwm 13) = Some req"
    by blast
  moreover from pwm_channel_exists[OF this _ wit_boards(1), of 16] have "\<exists>c<16. ownprop req ''channel'' = js_nat c"
    by (simp add: wit_board_info_def board_esp32_devkit_v1_def pwmChannelLimits_def)
  ultimately show ?thesis
    by blast
qed

text \<open>On the ESP32-C6 the default channel of pin 6 is 6, which the same check refuses when it is asked for:
  the chip has six channels.\<close>

theorem c6_default_channel_missing:
  "\<exists>req. invoke_request any_schema (wit_board_info ''esp32-c6-devkitc-1'') ''gpio.pwm'' (wit_pwm 6) = Some req \<and>
    ownprop req ''channel'' = js_nat 6 \<and> pwmChannelLimits (bd_family board_esp32_c6_devkitc_1) = Some 6 \<and>
    validateBoardAction board_esp32_c6_devkitc_1 ''gpio.pwm'' req = None"
proof -
  have "invoke_request any_schema (wit_board_info ''esp32-c6-devkitc-1'') ''gpio.pwm'' (wit_pwm 6) =
    Some [(''channel'', js_nat (6 mod 8)), (''pin'', js_nat 6), (''duty'', JNum (Fin (1 / 2))), (''frequency'', js_nat 5000)]"
    by (rule wit_pwm_request[OF wit_boards(2)])
      (simp_all add: includes_pin_def maybe_includes_def board_esp32_c6_devkitc_1_def)
  then show ?thesis
    by (simp add: validateBoardAction_def board_esp32_c6_devkitc_1_def pwmChannelLimits_def js_nat_def)
qed

text \<open>The motor's PWM pin is not compared with the pins that can do PWM: pin 2 of a UNO is accepted.\<close>

theorem motor_pin_unchecked:
  "validateBoardAction board_arduino_uno ''gpio.motor'' [(''pwmPin'', js_nat 2), (''speed'', JNum (Fin 1))] = Some () \<and>
   \<not> maybe_includes (bd_pwmPins board_arduino_uno) (js_nat 2) \<and>
   validateBoardAction board_arduino_uno ''gpio.pwm'' [(''pin'', js_nat 2), (''duty'', JNum (Fin 1))] = None"
  by (simp add: validateBoardAction_def board_arduino_uno_def pin_keys_def array_items_def pin_ok_def read_actions_def
      includes_pin_def maybe_includes_def pwmChannelLimits_def)

text \<open>A one-shot handler is called at most once, and the others by every event until they are removed.\<close>

theorem once_is_once:
  "h \<notin> set (or_empty (jget (hd_on s) event)) \<Longrightarrow> h \<notin> set (fst (emit event (snd (emit event s))))"
  by (auto simp: emit_def or_empty_def jget_delete split: option.splits)

end
