(* ===== verification/Protocol_Backend.thy ===== *)
theory Protocol_Backend
  imports Device_Actions Evidence
begin

text \<open>
  The backend of a governed board, \<open>packages/core/src/runtime/protocolBackend.ts\<close>: arming with its
  watchdog and heartbeat, disarming, the safe state, actions with their evidence, and closing. A call that
  awaits the board is an entry of \<open>pb_calls\<close>; the board answers the calls in any order, and its events
  arrive in between. An await of a promise that is already resolved does not split a step. \<open>nt\<close> is the
  text of a number, \<open>wall\<close> the clock.
\<close>

datatype arming = Disarmed | Armed | Tripped

datatype device_error = DeviceError string | OtherError

datatype backend_call =
    ArmConfig nat jsrecord
  | ArmSend jsrecord
  | DisarmSend bool
  | DisarmStop bool
  | SafeDisarm
  | SafeStop
  | Invoking string jsrecord
  | Configuring
  | Kicking
  | Closing

datatype call_state = Awaiting backend_call | Returned "device_error + jsrecord"

record backend_options =
  bo_autoHeartbeat :: "bool option"
  bo_heartbeatIntervalMs :: "jsnum option"
  bo_watchdogTimeoutMs :: "jsnum option"
  bo_requireWatchdog :: "bool option"

record protocol_backend =
  pb_info :: device_info
  pb_provenance :: provenance
  pb_options :: backend_options
  pb_state :: arming
  pb_tripReason :: "string option"
  pb_heartbeat :: "jsval option"
  pb_timeoutMs :: jsnum
  pb_outputs :: "(nat, jsval \<times> jsval) jmap"
  pb_evidence :: "(string, jsval evidence_state) jmap"
  pb_listening :: bool
  pb_calls :: "call_state list"
  pb_sent :: "(string \<times> jsrecord) list"
  pb_deviceOpen :: bool

abbreviation pb_supports :: "protocol_backend \<Rightarrow> string \<Rightarrow> bool" where
  "pb_supports s action \<equiv> supports (pb_info s) action"

subsection \<open>Evidence\<close>

definition provenance_of :: "string option \<Rightarrow> provenance" where
  "provenance_of kind =
    (case kind of
      None \<Rightarrow> ProvUnknown
    | Some k \<Rightarrow>
        if starts_with ''simulated'' k \<or> k = ''loopback'' then ProvSimulated
        else if k = [] then ProvUnknown else ProvHardware)"

definition evidence_of :: "protocol_backend \<Rightarrow> string \<Rightarrow> jsval evidence_state" where
  "evidence_of s k = (case jget (pb_evidence s) k of Some e \<Rightarrow> e | None \<Rightarrow> unknownEvidence (pb_provenance s))"

text \<open>\<open>v ?? null\<close>; \<open>None\<close> is \<open>null\<close>.\<close>

definition nullable :: "jsval \<Rightarrow> jsval option" where
  "nullable v = (if v = JUndefined \<or> v = JNull then None else Some v)"

definition recordCommandedState :: "int \<Rightarrow> string \<Rightarrow> jsval option \<Rightarrow> protocol_backend \<Rightarrow> protocol_backend" where
  "recordCommandedState wall k v s =
    s\<lparr>pb_evidence := jset k (recordCommanded v None (Some (pb_provenance s)) wall (evidence_of s k)) (pb_evidence s)\<rparr>"

definition recordAcknowledgedState :: "int \<Rightarrow> string \<Rightarrow> jsval option \<Rightarrow> protocol_backend \<Rightarrow> protocol_backend" where
  "recordAcknowledgedState wall k v s =
    s\<lparr>pb_evidence := jset k (recordAcknowledged v None (Some (pb_provenance s)) wall (evidence_of s k)) (pb_evidence s)\<rparr>"

definition recordObservedState ::
  "evidence_source \<Rightarrow> int \<Rightarrow> string \<Rightarrow> jsval option \<Rightarrow> protocol_backend \<Rightarrow> protocol_backend" where
  "recordObservedState src wall k v s =
    s\<lparr>pb_evidence := jset k (recordObserved v src None (Some (pb_provenance s)) None wall (evidence_of s k)) (pb_evidence s)\<rparr>"

definition pin_key :: "(jsnum \<Rightarrow> string) \<Rightarrow> jsnum \<Rightarrow> string" where
  "pin_key nt n = ''gpio.'' @ nt n"

definition ack_armed :: "int \<Rightarrow> string \<Rightarrow> protocol_backend \<Rightarrow> protocol_backend" where
  "ack_armed wall v s = recordAcknowledgedState wall ''armed'' (Some (JStr v)) s"

definition command_armed :: "int \<Rightarrow> string \<Rightarrow> protocol_backend \<Rightarrow> protocol_backend" where
  "command_armed wall v s = recordCommandedState wall ''armed'' (Some (JStr v)) s"

text \<open>The writes of a batch whose pin is a number: pin and value.\<close>

definition write_entries :: "jsrecord \<Rightarrow> (jsnum \<times> jsval) list" where
  "write_entries payload =
    concat (map (\<lambda>w. case w of
        JObj f \<Rightarrow> (case ownprop f ''pin'' of JNum n \<Rightarrow> [(n, ownprop f ''value'')] | _ \<Rightarrow> [])
      | _ \<Rightarrow> [])
      (array_items (ownprop payload ''writes'')))"

definition command_field :: "string \<Rightarrow> string option" where
  "command_field =
    map_of [(''gpio.write'', ''value''), (''gpio.toggle'', ''value''), (''gpio.pwm'', ''duty''),
      (''gpio.servo'', ''angle''), (''gpio.motor'', ''speed'')]"

definition record_command :: "(jsnum \<Rightarrow> string) \<Rightarrow> int \<Rightarrow> string \<Rightarrow> jsrecord \<Rightarrow> protocol_backend \<Rightarrow> protocol_backend" where
  "record_command nt wall action payload s =
    (if action = ''gpio.batchWrite'' then
       fold (\<lambda>(n, v). recordCommandedState wall (pin_key nt n) (nullable v)) (write_entries payload) s
     else (case (command_field action, ownprop payload ''pin'') of
         (Some f, JNum n) \<Rightarrow> recordCommandedState wall (pin_key nt n) (nullable (ownprop payload f)) s
       | _ \<Rightarrow> s))"

text \<open>
  What an answer acknowledges: the result's field, or the commanded one when the result has none; a toggle
  takes the result's. A \<open>null\<close> in the result is kept as \<open>null\<close>.
\<close>

definition record_answer ::
  "(jsnum \<Rightarrow> string) \<Rightarrow> int \<Rightarrow> string \<Rightarrow> jsrecord \<Rightarrow> jsrecord \<Rightarrow> protocol_backend \<Rightarrow> protocol_backend" where
  "record_answer nt wall action payload result s =
    (if action = ''gpio.batchWrite'' then
       fold (\<lambda>(n, v). recordAcknowledgedState wall (pin_key nt n) (nullable v)) (write_entries payload) s
     else (case (command_field action, ownprop payload ''pin'') of
         (Some f, JNum n) \<Rightarrow>
           recordAcknowledgedState wall (pin_key nt n)
             (if action \<noteq> ''gpio.toggle'' \<and> ownprop result f = JUndefined then nullable (ownprop payload f)
              else nullable (ownprop result f)) s
       | _ \<Rightarrow>
           (if action = ''gpio.read'' \<or> action = ''gpio.analogRead'' then
              (case ownprop payload ''pin'' of
                JNum n \<Rightarrow>
                  if ownprop result ''value'' = JUndefined then s
                  else recordObservedState GpioReadback wall (pin_key nt n) (nullable (ownprop result ''value'')) s
              | _ \<Rightarrow> s)
            else if action = ''sys.info'' \<or> action = ''sys.hello'' then
              (case ownprop result ''state'' of
                JStr st \<Rightarrow> recordObservedState Sensor wall ''armed'' (Some (JStr st)) s
              | _ \<Rightarrow> s)
            else s)))"

subsection \<open>Calls\<close>

definition put_call :: "nat \<Rightarrow> call_state \<Rightarrow> protocol_backend \<Rightarrow> protocol_backend" where
  "put_call i c s = s\<lparr>pb_calls := (pb_calls s)[i := c]\<rparr>"

text \<open>\<open>device.invoke\<close>: what the board is asked, and the call that waits for its answer.\<close>

definition ask :: "nat \<Rightarrow> backend_call \<Rightarrow> string \<Rightarrow> jsrecord \<Rightarrow> protocol_backend \<Rightarrow> protocol_backend" where
  "ask i c action payload s = put_call i (Awaiting c) (s\<lparr>pb_sent := pb_sent s @ [(action, payload)]\<rparr>)"

definition give :: "nat \<Rightarrow> device_error + jsrecord \<Rightarrow> protocol_backend \<Rightarrow> protocol_backend" where
  "give i r s = put_call i (Returned r) s"

definition new_call :: "protocol_backend \<Rightarrow> nat \<times> protocol_backend" where
  "new_call s = (length (pb_calls s), s\<lparr>pb_calls := pb_calls s @ [Returned (Inl OtherError)]\<rparr>)"

definition stopHeartbeat :: "protocol_backend \<Rightarrow> protocol_backend" where
  "stopHeartbeat s = s\<lparr>pb_heartbeat := None\<rparr>"

definition js_num_value :: "jsnum option \<Rightarrow> jsval" where
  "js_num_value n = (case n of None \<Rightarrow> JUndefined | Some x \<Rightarrow> JNum x)"

text \<open>\<open>a ?? b\<close>\<close>

definition coalesce :: "jsval \<Rightarrow> jsval \<Rightarrow> jsval" where
  "coalesce a b = (if a = JUndefined \<or> a = JNull then b else a)"

text \<open>\<open>Math.max(50, Math.floor(timeoutMs / 2))\<close>\<close>

definition half_timeout :: "jsnum \<Rightarrow> jsnum" where
  "half_timeout n =
    (case n of
      Fin x \<Rightarrow> Fin (max 50 (of_int \<lfloor>x / 2\<rfloor>))
    | NegInf \<Rightarrow> Fin 50
    | x \<Rightarrow> x)"

definition startHeartbeat :: "jsval \<Rightarrow> protocol_backend \<Rightarrow> protocol_backend" where
  "startHeartbeat intervalMs s =
    (if bo_autoHeartbeat (pb_options s) = Some False \<or> \<not> pb_supports s ''watchdog.kick'' then s
     else s\<lparr>pb_heartbeat :=
       Some (coalesce intervalMs (coalesce (js_num_value (bo_heartbeatIntervalMs (pb_options s)))
         (JNum (half_timeout (pb_timeoutMs s)))))\<rparr>)"

subsection \<open>Arming\<close>

definition js_true :: "jsval \<Rightarrow> bool" where
  "js_true v = (case v of
      JUndefined \<Rightarrow> False | JNull \<Rightarrow> False | JBool b \<Rightarrow> b
    | JNum n \<Rightarrow> n \<noteq> Fin 0 \<and> n \<noteq> NaN | JStr s \<Rightarrow> s \<noteq> [] | _ \<Rightarrow> True)"

definition watchdog_range :: "jsval \<Rightarrow> bool" where
  "watchdog_range v = (case v of JNum n \<Rightarrow> \<not> js_less n (Fin 250) \<and> \<not> js_less (Fin 10000) n | _ \<Rightarrow> False)"

definition requested_timeout :: "jsrecord \<Rightarrow> protocol_backend \<Rightarrow> jsval" where
  "requested_timeout opts s =
    coalesce (ownprop opts ''timeoutMs'') (js_num_value (bo_watchdogTimeoutMs (pb_options s)))"

definition require_watchdog :: "jsrecord \<Rightarrow> protocol_backend \<Rightarrow> bool" where
  "require_watchdog opts s =
    js_true (coalesce (ownprop opts ''requireWatchdog'')
      (case bo_requireWatchdog (pb_options s) of None \<Rightarrow> JBool False | Some b \<Rightarrow> JBool b))"

definition has_board_id :: "device_info \<Rightarrow> bool" where
  "has_board_id info = (case dv_boardId info of Some i \<Rightarrow> i \<noteq> [] | None \<Rightarrow> False)"

definition become :: "arming \<Rightarrow> protocol_backend \<Rightarrow> protocol_backend" where
  "become a s = s\<lparr>pb_state := a, pb_tripReason := None\<rparr>"

text \<open>After the outputs: command, and ask the board or answer for it.\<close>

definition arm_ready :: "int \<Rightarrow> nat \<Rightarrow> jsrecord \<Rightarrow> protocol_backend \<Rightarrow> protocol_backend" where
  "arm_ready wall i opts s =
    (let s1 = command_armed wall ''armed'' s in
     if pb_supports s ''sys.arm'' then
       ask i (ArmSend opts) ''sys.arm''
         (if requested_timeout opts s = JUndefined then [] else [(''timeoutMs'', requested_timeout opts s)]) s1
     else give i (Inr [(''armed'', JBool True), (''state'', JStr ''armed''), (''legacy'', JBool True)])
       (ack_armed wall ''armed'' (become Armed s1)))"

text \<open>The loop of \<open>initializeOutputs\<close> at the output with index \<open>k\<close>; new outputs go to the end of the map.\<close>

definition arm_config :: "int \<Rightarrow> nat \<Rightarrow> nat \<Rightarrow> jsrecord \<Rightarrow> protocol_backend \<Rightarrow> protocol_backend" where
  "arm_config wall i k opts s =
    (if k < length (pb_outputs s) then
       (case pb_outputs s ! k of
         (pin, level, polarity) \<Rightarrow>
           ask i (ArmConfig k opts) ''gpio.configSafeState''
             [(''pin'', js_nat pin), (''safeLevel'', level), (''polarity'', polarity)] s)
     else arm_ready wall i opts s)"

definition arm_in :: "int \<Rightarrow> nat \<Rightarrow> jsrecord \<Rightarrow> protocol_backend \<Rightarrow> protocol_backend" where
  "arm_in wall i opts s =
    (let rw = require_watchdog opts s;
         watchdog = (pb_supports s ''sys.arm'' \<or> hasFeature (pb_info s) ''watchdog'' \<or> hasFeature (pb_info s) ''arming'');
         t = coalesce (requested_timeout opts s) (JNum (Fin 1000)) in
     if rw \<and> \<not> watchdog then give i (Inl (DeviceError ''WATCHDOG_NOT_SUPPORTED'')) s
     else if rw \<and> has_board_id (pb_info s) \<and>
         \<not> (watchdog_range t \<and> (case t of JNum n \<Rightarrow> is_integer n | _ \<Rightarrow> False))
     then give i (Inl (DeviceError ''INVALID_PAYLOAD'')) s
     else if pb_supports s ''gpio.configSafeState'' then arm_config wall i 0 opts s
     else arm_ready wall i opts s)"

definition arm :: "int \<Rightarrow> jsrecord \<Rightarrow> protocol_backend \<Rightarrow> protocol_backend" where
  "arm wall opts s = (case new_call s of (i, s1) \<Rightarrow> arm_in wall i opts s1)"

subsection \<open>Disarming and the safe state\<close>

text \<open>\<open>closing\<close> says that \<open>close\<close> is the caller: it ends by closing the device, however this ends.\<close>

definition disarm_result :: "bool \<Rightarrow> nat \<Rightarrow> device_error + jsrecord \<Rightarrow> protocol_backend \<Rightarrow> protocol_backend" where
  "disarm_result closing i r s =
    (if closing then put_call i (Awaiting Closing) (s\<lparr>pb_deviceOpen := False\<rparr>) else give i r s)"

definition disarm_in :: "int \<Rightarrow> bool \<Rightarrow> nat \<Rightarrow> protocol_backend \<Rightarrow> protocol_backend" where
  "disarm_in wall closing i s =
    (let s1 = command_armed wall ''disarmed'' (stopHeartbeat s) in
     if pb_supports s ''sys.disarm'' then ask i (DisarmSend closing) ''sys.disarm'' [] s1
     else if pb_supports s ''gpio.stopAll'' then ask i (DisarmStop closing) ''gpio.stopAll'' [] s1
     else disarm_result closing i (Inr [(''armed'', JBool False), (''state'', JStr ''disarmed'')])
       (ack_armed wall ''disarmed'' (become Disarmed s1)))"

definition disarm :: "int \<Rightarrow> protocol_backend \<Rightarrow> protocol_backend" where
  "disarm wall s = (case new_call s of (i, s1) \<Rightarrow> disarm_in wall False i s1)"

definition safe_stop :: "nat \<Rightarrow> protocol_backend \<Rightarrow> protocol_backend" where
  "safe_stop i s =
    (if \<not> pb_supports s ''gpio.stopAll'' then
       give i (Inr [(''applied'', JBool False), (''reason'', JStr ''safe-state-not-supported'')])
         (s\<lparr>pb_state := Disarmed\<rparr>)
     else ask i SafeStop ''gpio.stopAll'' [] s)"

definition safeState :: "protocol_backend \<Rightarrow> protocol_backend" where
  "safeState s =
    (case new_call (stopHeartbeat s) of (i, s1) \<Rightarrow>
       if pb_supports s ''sys.disarm'' then ask i SafeDisarm ''sys.disarm'' [] s1 else safe_stop i s1)"

definition close_backend :: "int \<Rightarrow> protocol_backend \<Rightarrow> protocol_backend" where
  "close_backend wall s =
    (case new_call ((stopHeartbeat s)\<lparr>pb_listening := False\<rparr>) of (i, s1) \<Rightarrow>
       if pb_state s = Armed then disarm_in wall True i s1
       else put_call i (Awaiting Closing) (s1\<lparr>pb_deviceOpen := False\<rparr>))"

subsection \<open>Other operations\<close>

definition check_output_pin :: "device_info \<Rightarrow> nat \<Rightarrow> unit option" where
  "check_output_pin info pin =
    (case boardForInfo info of
      None \<Rightarrow> None
    | Some None \<Rightarrow> assertEsp32WritePin pin
    | Some (Some b) \<Rightarrow> validateBoardAction b ''gpio.write'' [(''pin'', js_nat pin)])"

definition configSafeState :: "nat \<Rightarrow> jsval \<Rightarrow> jsval \<Rightarrow> protocol_backend \<Rightarrow> protocol_backend" where
  "configSafeState pin level polarity s =
    (case new_call s of (i, s1) \<Rightarrow>
       if check_output_pin (pb_info s) pin = None then s1
       else
         (let s2 = s1\<lparr>pb_outputs := jset pin (level, polarity) (pb_outputs s1)\<rparr>;
              config = [(''pin'', js_nat pin), (''safeLevel'', level), (''polarity'', polarity)] in
          if pb_supports s ''gpio.configSafeState'' then ask i Configuring ''gpio.configSafeState'' config s2
          else give i (Inr config) s2))"

definition backend_invoke ::
  "(jsnum \<Rightarrow> string) \<Rightarrow> int \<Rightarrow> string \<Rightarrow> jsrecord \<Rightarrow> protocol_backend \<Rightarrow> protocol_backend" where
  "backend_invoke nt wall action payload s =
    (case new_call s of (i, s1) \<Rightarrow>
       if action = ''watchdog.configure'' \<and> bo_requireWatchdog (pb_options s) = Some True \<and>
           \<not> watchdog_range (ownprop payload ''timeoutMs'')
       then give i (Inl (DeviceError ''INVALID_PAYLOAD'')) s1
       else if action = ''sys.arm'' then arm_in wall i payload s1
       else if action = ''sys.disarm'' then disarm_in wall False i s1
       else ask i (Invoking action payload) action payload (record_command nt wall action payload s1))"

definition tripped :: "int \<Rightarrow> jsrecord \<Rightarrow> protocol_backend \<Rightarrow> protocol_backend" where
  "tripped wall payload s =
    (if pb_listening s then
       ack_armed wall ''tripped''
         (stopHeartbeat (s\<lparr>pb_state := Tripped,
            pb_tripReason := Some (case ownprop payload ''reason'' of JStr r \<Rightarrow> r | _ \<Rightarrow> ''WATCHDOG_EXPIRED'')\<rparr>))
     else s)"

definition gpio_changed :: "(jsnum \<Rightarrow> string) \<Rightarrow> int \<Rightarrow> jsrecord \<Rightarrow> protocol_backend \<Rightarrow> protocol_backend" where
  "gpio_changed nt wall payload s =
    (case ownprop payload ''pin'' of
      JNum n \<Rightarrow>
        if pb_listening s \<and> ownprop payload ''value'' \<noteq> JUndefined
        then recordObservedState GpioReadback wall (pin_key nt n) (nullable (ownprop payload ''value'')) s
        else s
    | _ \<Rightarrow> s)"

text \<open>The interval callback.\<close>

definition heartbeat :: "protocol_backend \<Rightarrow> protocol_backend" where
  "heartbeat s =
    (if pb_heartbeat s = None then s
     else if pb_state s \<noteq> Armed then stopHeartbeat s
     else (case new_call s of (i, s1) \<Rightarrow> ask i Kicking ''watchdog.kick'' [] s1))"

subsection \<open>Answers of the board\<close>

definition arm_answered :: "int \<Rightarrow> nat \<Rightarrow> jsrecord \<Rightarrow> jsrecord \<Rightarrow> protocol_backend \<Rightarrow> protocol_backend" where
  "arm_answered wall i opts result s =
    (let s1 = ack_armed wall ''armed'' (become Armed s);
         s2 = (case ownprop result ''timeoutMs'' of JNum n \<Rightarrow> s1\<lparr>pb_timeoutMs := n\<rparr> | _ \<Rightarrow> s1)
     in give i (Inr result) (startHeartbeat (ownprop opts ''heartbeatIntervalMs'') s2))"

definition kick_answered :: "int \<Rightarrow> nat \<Rightarrow> device_error + jsrecord \<Rightarrow> protocol_backend \<Rightarrow> protocol_backend" where
  "kick_answered wall i r s =
    give i r
      (case r of
        Inl (DeviceError c) \<Rightarrow>
          if c = ''WATCHDOG_TRIPPED'' then
            ack_armed wall ''tripped'' (stopHeartbeat (s\<lparr>pb_state := Tripped, pb_tripReason := Some ''WATCHDOG_EXPIRED''\<rparr>))
          else if c = ''NOT_ARMED'' then ack_armed wall ''disarmed'' (stopHeartbeat (s\<lparr>pb_state := Disarmed\<rparr>))
          else s
      | _ \<Rightarrow> s)"

definition stopped_pins :: "device_error + jsrecord \<Rightarrow> device_error + jsval list" where
  "stopped_pins r =
    (case r of
      Inl e \<Rightarrow> Inl e
    | Inr res \<Rightarrow> (case stopAll_result res of None \<Rightarrow> Inl OtherError | Some ps \<Rightarrow> Inr ps))"

definition call_answered ::
  "(jsnum \<Rightarrow> string) \<Rightarrow> int \<Rightarrow> nat \<Rightarrow> backend_call \<Rightarrow> device_error + jsrecord \<Rightarrow> protocol_backend \<Rightarrow> protocol_backend" where
  "call_answered nt wall i c r s =
    (case c of
      ArmConfig k opts \<Rightarrow> (case r of Inl e \<Rightarrow> give i (Inl e) s | Inr _ \<Rightarrow> arm_config wall i (Suc k) opts s)
    | ArmSend opts \<Rightarrow> (case r of Inl e \<Rightarrow> give i (Inl e) s | Inr res \<Rightarrow> arm_answered wall i opts res s)
    | DisarmSend closing \<Rightarrow>
        (case r of
          Inl e \<Rightarrow> disarm_result closing i (Inl e) s
        | Inr res \<Rightarrow> disarm_result closing i (Inr res) (ack_armed wall ''disarmed'' (become Disarmed s)))
    | DisarmStop closing \<Rightarrow>
        (case stopped_pins r of
          Inl e \<Rightarrow> disarm_result closing i (Inl e) s
        | Inr ps \<Rightarrow>
            disarm_result closing i
              (Inr [(''armed'', JBool False), (''state'', JStr ''disarmed''), (''stoppedPins'', JArr ps)])
              (ack_armed wall ''disarmed'' (become Disarmed s)))
    | SafeDisarm \<Rightarrow> safe_stop i s
    | SafeStop \<Rightarrow>
        (case stopped_pins r of
          Inl e \<Rightarrow> give i (Inl e) s
        | Inr ps \<Rightarrow> give i (Inr [(''applied'', JBool True), (''stoppedPins'', JArr ps)]) (s\<lparr>pb_state := Disarmed\<rparr>))
    | Invoking action payload \<Rightarrow>
        (case r of
          Inl e \<Rightarrow> give i (Inl e) s
        | Inr res \<Rightarrow> give i (Inr res) (record_answer nt wall action payload res s))
    | Configuring \<Rightarrow> give i r s
    | Kicking \<Rightarrow> kick_answered wall i r s
    | Closing \<Rightarrow> give i r s)"

definition answer :: "(jsnum \<Rightarrow> string) \<Rightarrow> int \<Rightarrow> nat \<Rightarrow> device_error + jsrecord \<Rightarrow> protocol_backend \<Rightarrow> protocol_backend" where
  "answer nt wall i r s =
    (if i < length (pb_calls s) then
       (case pb_calls s ! i of Awaiting c \<Rightarrow> call_answered nt wall i c r s | Returned _ \<Rightarrow> s)
     else s)"

subsection \<open>Everything that happens to a backend\<close>

datatype backend_event =
    BArm jsrecord
  | BDisarm
  | BSafeState
  | BClose
  | BConfig nat jsval jsval
  | BInvoke string jsrecord
  | BTripped jsrecord
  | BChanged jsrecord
  | BTick
  | BAnswer nat "device_error + jsrecord"

fun backend_step :: "(jsnum \<Rightarrow> string) \<Rightarrow> int \<Rightarrow> backend_event \<Rightarrow> protocol_backend \<Rightarrow> protocol_backend" where
  "backend_step nt wall (BArm opts) s = arm wall opts s"
| "backend_step nt wall BDisarm s = disarm wall s"
| "backend_step nt wall BSafeState s = safeState s"
| "backend_step nt wall BClose s = close_backend wall s"
| "backend_step nt wall (BConfig p l q) s = configSafeState p l q s"
| "backend_step nt wall (BInvoke a p) s = backend_invoke nt wall a p s"
| "backend_step nt wall (BTripped p) s = tripped wall p s"
| "backend_step nt wall (BChanged p) s = gpio_changed nt wall p s"
| "backend_step nt wall BTick s = heartbeat s"
| "backend_step nt wall (BAnswer i r) s = answer nt wall i r s"

definition backend_run :: "(jsnum \<Rightarrow> string) \<Rightarrow> (int \<times> backend_event) list \<Rightarrow> protocol_backend \<Rightarrow> protocol_backend" where
  "backend_run nt evs s = fold (\<lambda>(wall, ev). backend_step nt wall ev) evs s"

text \<open>The constructor; \<open>None\<close> is a thrown error.\<close>

fun add_outputs :: "device_info \<Rightarrow> (jsval \<times> jsval \<times> jsval) list \<Rightarrow> (nat, jsval \<times> jsval) jmap \<Rightarrow> (nat, jsval \<times> jsval) jmap option" where
  "add_outputs info [] m = Some m"
| "add_outputs info ((p, l, q) # os) m = do {
     pin \<leftarrow> assertGpioPin p;
     check_output_pin info pin;
     level \<leftarrow> default_to (JStr ''low'') assertSafeLevel l;
     polarity \<leftarrow> default_to (JStr ''active-high'') assertPolarity q;
     add_outputs info os (jset pin (level, polarity) m) }"

definition ProtocolDeviceBackend ::
  "device_info \<Rightarrow> string option \<Rightarrow> backend_options \<Rightarrow> (jsval \<times> jsval \<times> jsval) list \<Rightarrow> int \<Rightarrow> protocol_backend option" where
  "ProtocolDeviceBackend info kind opts outputs wall =
    map_option (\<lambda>m. ack_armed wall ''disarmed''
      \<lparr>pb_info = info, pb_provenance = provenance_of kind, pb_options = opts, pb_state = Disarmed,
       pb_tripReason = None, pb_heartbeat = None,
       pb_timeoutMs = (case bo_watchdogTimeoutMs opts of Some n \<Rightarrow> n | None \<Rightarrow> Fin 1000),
       pb_outputs = m, pb_evidence = [], pb_listening = True, pb_calls = [], pb_sent = [], pb_deviceOpen = True\<rparr>)
      (add_outputs info outputs [])"

text \<open>\<open>getOperationalStateEvidence\<close> and the state part of \<open>getOperationalState\<close>.\<close>

definition getOperationalStateEvidence :: "int \<Rightarrow> protocol_backend \<Rightarrow> (string \<times> jsval fresh) list" where
  "getOperationalStateEvidence now s = map (\<lambda>(k, e). (k, computeFreshness (Some (StampMs now)) None now e)) (pb_evidence s)"

definition state_name :: "arming \<Rightarrow> string" where
  "state_name a = (case a of Disarmed \<Rightarrow> ''disarmed'' | Armed \<Rightarrow> ''armed'' | Tripped \<Rightarrow> ''tripped'')"

definition operational_state :: "protocol_backend \<Rightarrow> jsrecord" where
  "operational_state s =
    [(''state'', JStr (state_name (pb_state s))), (''armed'', JBool (pb_state s = Armed)),
     (''disarmed'', JBool (pb_state s = Disarmed)), (''tripped'', JBool (pb_state s = Tripped))] @
    (case pb_tripReason s of Some r \<Rightarrow> if r = [] then [] else [(''tripReason'', JStr r)] | None \<Rightarrow> []) @
    [(''watchdog'', JObj [(''enabled'', JBool True), (''timeoutMs'', JNum (pb_timeoutMs s))])]"

subsection \<open>Outputs before arming\<close>

definition configured :: "nat \<Rightarrow> (string \<times> jsrecord) list \<Rightarrow> bool" where
  "configured pin xs \<longleftrightarrow> (\<exists>level polarity.
    (''gpio.configSafeState'', [(''pin'', js_nat pin), (''safeLevel'', level), (''polarity'', polarity)]) \<in> set xs)"

text \<open>The level and polarity the board was last told to keep for a pin.\<close>

definition config_of :: "nat \<Rightarrow> string \<times> jsrecord \<Rightarrow> (jsval \<times> jsval) option" where
  "config_of pin x =
    (if fst x \<noteq> ''gpio.configSafeState'' \<or> ownprop (snd x) ''pin'' \<noteq> js_nat pin then None
     else Some (ownprop (snd x) ''safeLevel'', ownprop (snd x) ''polarity''))"

definition last_config :: "nat \<Rightarrow> (string \<times> jsrecord) list \<Rightarrow> (jsval \<times> jsval) option" where
  "last_config pin xs = foldl (\<lambda>v x. case config_of pin x of None \<Rightarrow> v | Some w \<Rightarrow> Some w) None xs"

lemma last_config_snoc:
  "last_config pin (xs @ [x]) = (case config_of pin x of None \<Rightarrow> last_config pin xs | Some w \<Rightarrow> Some w)"
  by (simp add: last_config_def split: option.split)

lemma configured_last: "configured pin xs \<Longrightarrow> last_config pin xs \<noteq> None"
proof (induction xs rule: rev_induct)
  case (snoc x xs)
  then show ?case
    by (auto simp: last_config_snoc configured_def config_of_def split: option.split)
qed (simp add: configured_def)

text \<open>
  The outputs \<open>P\<close> are among those of the backend, which are \<open>M\<close>. Whenever the board was asked to arm, \<open>P\<close> had been
  configured before; an arming call that waits for output \<open>k\<close> has configured the outputs up to it; and what the board
  was last told of a pin is what the backend keeps for it.
\<close>

fun is_config :: "call_state \<Rightarrow> bool" where
  "is_config (Awaiting (ArmConfig k opts)) = True"
| "is_config _ = False"

definition calls_ok :: "protocol_backend \<Rightarrow> bool" where
  "calls_ok s \<longleftrightarrow> (\<forall>k opts. Awaiting (ArmConfig k opts) \<in> set (pb_calls s) \<longrightarrow> k < length (pb_outputs s) \<and>
    (\<forall>j\<le>k. configured (fst (pb_outputs s ! j)) (pb_sent s)))"

definition told_ok :: "protocol_backend \<Rightarrow> bool" where
  "told_ok s \<longleftrightarrow> (\<forall>pin v. last_config pin (pb_sent s) = Some v \<longrightarrow> jget (pb_outputs s) pin = Some v) \<and> wf_map (pb_outputs s)"

type_synonym arm_frame = "nat set \<times> (nat, jsval \<times> jsval) jmap \<times> device_info"

definition arm_inv :: "arm_frame \<Rightarrow> protocol_backend \<Rightarrow> bool" where
  "arm_inv P s \<longleftrightarrow> pb_supports s ''gpio.configSafeState'' \<and> fst P \<subseteq> fst ` set (pb_outputs s) \<and>
    (\<forall>xs p ys. pb_sent s = xs @ (''sys.arm'', p) # ys \<longrightarrow> (\<forall>pin\<in>fst P. configured pin xs)) \<and> calls_ok s \<and>
    told_ok s \<and> fst (snd P) = pb_outputs s \<and> snd (snd P) = pb_info s"

lemma arm_inv_other [simp]:
  "arm_inv P (s\<lparr>pb_state := a\<rparr>) = arm_inv P s" "arm_inv P (s\<lparr>pb_tripReason := r\<rparr>) = arm_inv P s"
  "arm_inv P (s\<lparr>pb_heartbeat := h\<rparr>) = arm_inv P s" "arm_inv P (s\<lparr>pb_timeoutMs := t\<rparr>) = arm_inv P s"
  "arm_inv P (s\<lparr>pb_evidence := e\<rparr>) = arm_inv P s" "arm_inv P (s\<lparr>pb_listening := l\<rparr>) = arm_inv P s"
  "arm_inv P (s\<lparr>pb_deviceOpen := d\<rparr>) = arm_inv P s"
  by (simp_all add: arm_inv_def calls_ok_def told_ok_def)

lemma arm_inv_records [simp]:
  "arm_inv P (recordCommandedState w k v s) = arm_inv P s" "arm_inv P (recordAcknowledgedState w k v s) = arm_inv P s"
  "arm_inv P (recordObservedState src w k v s) = arm_inv P s"
  "arm_inv P (ack_armed w x s) = arm_inv P s" "arm_inv P (command_armed w x s) = arm_inv P s"
  "arm_inv P (become a s) = arm_inv P s" "arm_inv P (stopHeartbeat s) = arm_inv P s" "arm_inv P (startHeartbeat iv s) = arm_inv P s"
  by (simp_all add: recordCommandedState_def recordAcknowledgedState_def recordObservedState_def ack_armed_def
      command_armed_def become_def stopHeartbeat_def startHeartbeat_def)

lemma fold_keeps: "(\<And>x s. Q (f x s) = Q s) \<Longrightarrow> Q (fold f xs s) = Q s"
  by (induction xs arbitrary: s) simp_all

lemma arm_inv_folds [simp]:
  "arm_inv P (fold (\<lambda>(n, v). recordCommandedState w (pin_key nt n) (nullable v)) ws s) = arm_inv P s"
  "arm_inv P (fold (\<lambda>(n, v). recordAcknowledgedState w (pin_key nt n) (nullable v)) ws s) = arm_inv P s"
  by (rule fold_keeps[where Q = "arm_inv P"], simp split: prod.split)+

lemma arm_inv_command [simp]: "arm_inv P (record_command nt w action payload s) = arm_inv P s"
proof (cases "action = ''gpio.batchWrite''")
  case False
  then show ?thesis
    by (cases "command_field action"; cases "ownprop payload ''pin''") (simp_all add: record_command_def)
qed (simp add: record_command_def)

lemma arm_inv_answer [simp]: "arm_inv P (record_answer nt w action payload res s) = arm_inv P s"
proof (cases "action = ''gpio.batchWrite''")
  case False
  have "arm_inv P (if c then (case v of JNum n \<Rightarrow> if d then s else recordObservedState src w (pin_key nt n) x s | _ \<Rightarrow> s)
      else if e then (case y of JStr st \<Rightarrow> recordObservedState Sensor w ''armed'' (Some (JStr st)) s | _ \<Rightarrow> s) else s) = arm_inv P s"
    for c v d src x e y
    by (cases v; cases y) simp_all
  then show ?thesis
    using False by (cases "command_field action"; cases "ownprop payload ''pin''") (simp_all add: record_answer_def)
qed (simp add: record_answer_def)

lemma calls_ok_put: "calls_ok s \<Longrightarrow> \<not> is_config c \<Longrightarrow> calls_ok (put_call i c s)"
proof -
  assume s: "calls_ok s" and c: "\<not> is_config c"
  have "Awaiting (ArmConfig k opts) \<in> set (pb_calls s)" if "Awaiting (ArmConfig k opts) \<in> set ((pb_calls s)[i := c])" for k opts
    using subsetD[OF set_update_subset_insert that] c by auto
  then show ?thesis
    using s unfolding calls_ok_def put_call_def by (simp, blast)
qed

lemma arm_inv_put: "arm_inv P s \<Longrightarrow> \<not> is_config c \<Longrightarrow> arm_inv P (put_call i c s)"
  using calls_ok_put[of s c i] by (simp add: arm_inv_def) (simp add: put_call_def told_ok_def)

lemma arm_inv_new: "arm_inv P s \<Longrightarrow> arm_inv P (snd (new_call s))"
  by (simp add: arm_inv_def new_call_def calls_ok_def told_ok_def)

lemma configured_more: "configured pin xs \<Longrightarrow> configured pin (xs @ ys)"
  by (auto simp: configured_def)

lemma snoc_split: "xs' @ [a] = xs @ b # ys \<longleftrightarrow> (ys = [] \<and> xs' = xs \<and> a = b) \<or> (\<exists>ys'. ys = ys' @ [a] \<and> xs' = xs @ b # ys')"
  by (cases ys rule: rev_cases) auto

lemma calls_ok_send: "calls_ok s \<Longrightarrow> calls_ok (s\<lparr>pb_sent := pb_sent s @ xs\<rparr>)"
  unfolding calls_ok_def by (simp add: configured_more)

lemma arm_inv_send:
  assumes "arm_inv P s" and "action = ''sys.arm'' \<longrightarrow> (\<forall>pin\<in>fst ` set (pb_outputs s). configured pin (pb_sent s))"
    and "action = ''gpio.configSafeState'' \<longrightarrow>
      (\<forall>pin. ownprop payload ''pin'' = js_nat pin \<longrightarrow>
        jget (pb_outputs s) pin = Some (ownprop payload ''safeLevel'', ownprop payload ''polarity''))"
  shows "arm_inv P (s\<lparr>pb_sent := pb_sent s @ [(action, payload)]\<rparr>)"
proof -
  have "\<forall>xs p ys. pb_sent s @ [(action, payload)] = xs @ (''sys.arm'', p) # ys \<longrightarrow> (\<forall>pin\<in>fst P. configured pin xs)"
    using assms(1,2) unfolding arm_inv_def snoc_split by blast
  moreover have "told_ok (s\<lparr>pb_sent := pb_sent s @ [(action, payload)]\<rparr>)"
    using assms(1,3) by (auto simp: arm_inv_def told_ok_def last_config_snoc config_of_def split: option.splits if_splits)
  ultimately show ?thesis
    using assms(1) calls_ok_send[of s "[(action, payload)]"] unfolding arm_inv_def by simp
qed

lemma arm_inv_ask:
  "arm_inv P s \<Longrightarrow> \<not> is_config (Awaiting c) \<Longrightarrow> action \<noteq> ''sys.arm'' \<Longrightarrow> action \<noteq> ''gpio.configSafeState'' \<Longrightarrow>
    arm_inv P (ask i c action payload s)"
  unfolding ask_def by (intro arm_inv_put arm_inv_send) auto

lemma arm_inv_ask_config:
  assumes "arm_inv P s" and "k < length (pb_outputs s)" and "\<forall>j<k. configured (fst (pb_outputs s ! j)) (pb_sent s)"
    and "snd (pb_outputs s ! k) = (l, q)"
  shows "arm_inv P (ask i (ArmConfig k opts) ''gpio.configSafeState''
    [(''pin'', js_nat (fst (pb_outputs s ! k))), (''safeLevel'', l), (''polarity'', q)] s)"
proof -
  let ?x = "(''gpio.configSafeState'',
    [(''pin'', js_nat (fst (pb_outputs s ! k))), (''safeLevel'', l), (''polarity'', q)])"
  let ?s = "s\<lparr>pb_sent := pb_sent s @ [?x]\<rparr>"
  have "jget (pb_outputs s) (fst (pb_outputs s ! k)) = Some (l, q)"
  proof -
    have "(fst (pb_outputs s ! k), (l, q)) \<in> set (pb_outputs s)"
      using nth_mem[OF assms(2)] by (simp add: assms(4)[symmetric])
    moreover have "wf_map (pb_outputs s)"
      using assms(1) by (simp add: arm_inv_def told_ok_def)
    ultimately show ?thesis
      by (simp only: jget_in)
  qed
  then have inv: "arm_inv P ?s"
    using assms(1) by (intro arm_inv_send) (auto simp: js_nat_def)
  have "configured (fst (pb_outputs s ! k)) (pb_sent s @ [?x])"
    unfolding configured_def by (intro exI[of _ l] exI[of _ q]) simp
  then have k: "\<forall>j\<le>k. configured (fst (pb_outputs s ! j)) (pb_sent s @ [?x])"
    using assms(3) by (auto simp: le_less intro: configured_more)
  have "calls_ok (put_call i (Awaiting (ArmConfig k opts)) ?s)"
    unfolding calls_ok_def
  proof (intro allI impI)
    fix k' opts'
    assume "Awaiting (ArmConfig k' opts') \<in> set (pb_calls (put_call i (Awaiting (ArmConfig k opts)) ?s))"
    then have "k' = k \<or> Awaiting (ArmConfig k' opts') \<in> set (pb_calls ?s)"
      using set_update_subset_insert[of "pb_calls ?s" i "Awaiting (ArmConfig k opts)"] by (auto simp: put_call_def)
    then show "k' < length (pb_outputs (put_call i (Awaiting (ArmConfig k opts)) ?s)) \<and>
        (\<forall>j\<le>k'. configured (fst (pb_outputs (put_call i (Awaiting (ArmConfig k opts)) ?s) ! j))
          (pb_sent (put_call i (Awaiting (ArmConfig k opts)) ?s)))"
      using k assms(2) inv by (auto simp: put_call_def arm_inv_def calls_ok_def)
  qed
  then show ?thesis
    using inv by (simp add: arm_inv_def ask_def) (simp add: put_call_def told_ok_def)
qed

lemma arm_inv_ready:
  assumes "arm_inv P s" and "\<forall>pin\<in>fst ` set (pb_outputs s). configured pin (pb_sent s)"
  shows "arm_inv P (arm_ready w i opts s)"
proof -
  let ?s = "command_armed w ''armed'' s"
  have f: "pb_outputs ?s = pb_outputs s" "pb_sent ?s = pb_sent s"
    by (simp_all add: command_armed_def recordCommandedState_def)
  have "arm_inv P (ask i (ArmSend opts) ''sys.arm'' payload ?s)" for payload
    unfolding ask_def by (intro arm_inv_put arm_inv_send) (use assms f in auto)
  then show ?thesis
    using assms(1) by (simp add: arm_ready_def Let_def give_def arm_inv_put)
qed

lemma arm_inv_config:
  assumes "arm_inv P s" and "\<forall>j<k. j < length (pb_outputs s) \<longrightarrow> configured (fst (pb_outputs s ! j)) (pb_sent s)"
  shows "arm_inv P (arm_config w i k opts s)"
proof (cases "k < length (pb_outputs s)")
  case True
  obtain pin l q where o: "pb_outputs s ! k = (pin, l, q)"
    by (cases "pb_outputs s ! k") auto
  have "\<forall>j<k. configured (fst (pb_outputs s ! j)) (pb_sent s)"
    using assms(2) True by auto
  from arm_inv_ask_config[OF assms(1) True this, of l q i opts] show ?thesis
    using True o by (simp add: arm_config_def)
next
  case False
  have "configured pin (pb_sent s)" if p: "pin \<in> fst ` set (pb_outputs s)" for pin
  proof -
    obtain j where "j < length (pb_outputs s)" "pin = fst (pb_outputs s ! j)"
      using p by (metis imageE in_set_conv_nth)
    then show ?thesis
      using assms(2) False by auto
  qed
  then show ?thesis
    using False assms(1) by (simp add: arm_config_def arm_inv_ready)
qed

lemma arm_inv_arm_in: "arm_inv P s \<Longrightarrow> arm_inv P (arm_in w i opts s)"
proof -
  assume a: "arm_inv P s"
  then have "pb_supports s ''gpio.configSafeState''"
    by (simp add: arm_inv_def)
  then show ?thesis
    using a arm_inv_config[OF a, of 0] by (simp add: arm_in_def Let_def give_def arm_inv_put)
qed

lemma arm_inv_disarm_result: "arm_inv P s \<Longrightarrow> arm_inv P (disarm_result closing i r s)"
  by (simp add: disarm_result_def give_def arm_inv_put)

lemma arm_inv_disarm_in: "arm_inv P s \<Longrightarrow> arm_inv P (disarm_in w closing i s)"
  by (simp add: disarm_in_def Let_def arm_inv_ask arm_inv_disarm_result)

lemma arm_inv_safe_stop: "arm_inv P s \<Longrightarrow> arm_inv P (safe_stop i s)"
  by (simp add: safe_stop_def give_def arm_inv_put arm_inv_ask)

text \<open>A call of \<open>configSafeState\<close> tells the board what the backend now keeps.\<close>

lemma arm_inv_configure:
  assumes "arm_inv P s"
  shows "arm_inv (fst P, jset pin (l, q) (fst (snd P)), snd (snd P))
    (ask i Configuring ''gpio.configSafeState'' [(''pin'', js_nat pin), (''safeLevel'', l), (''polarity'', q)]
      (s\<lparr>pb_outputs := jset pin (l, q) (pb_outputs s)\<rparr>))"
proof -
  let ?o = "jset pin (l, q) (pb_outputs s)" and ?x = "[(''pin'', js_nat pin), (''safeLevel'', l), (''polarity'', q)]"
  let ?s = "s\<lparr>pb_outputs := ?o, pb_sent := pb_sent s @ [(''gpio.configSafeState'', ?x)]\<rparr>"
  have keys: "map fst ?o = map fst (pb_outputs s) @ (if pin \<in> fst ` set (pb_outputs s) then [] else [pin])"
    by (simp add: update_keys)
  have "length (pb_outputs s) \<le> length ?o"
    using arg_cong[OF keys, of length] by simp
  moreover have "fst (?o ! j) = fst (pb_outputs s ! j)" if "j < length (pb_outputs s)" for j
    using arg_cong[OF keys, of "\<lambda>xs. xs ! j"] that calculation by (simp add: nth_append)
  ultimately have "calls_ok ?s"
    using assms by (auto simp: arm_inv_def calls_ok_def configured_more)
  moreover have "told_ok ?s"
    using assms
    by (auto simp: arm_inv_def told_ok_def last_config_snoc config_of_def jget_set js_nat_def wf_map_set
        split: option.splits if_splits)
  moreover have "\<forall>xs p ys. pb_sent ?s = xs @ (''sys.arm'', p) # ys \<longrightarrow> (\<forall>pin\<in>fst P. configured pin xs)"
    using assms by (auto simp: arm_inv_def snoc_split)
  ultimately have "arm_inv (fst P, jset pin (l, q) (fst (snd P)), snd (snd P)) ?s"
    using assms by (auto simp: arm_inv_def dom_update)
  then show ?thesis
    by (simp add: ask_def arm_inv_put)
qed

text \<open>The safe states a history asks for: those of the construction, changed by the accepted calls of \<open>configSafeState\<close>.\<close>

fun asked_state :: "device_info \<Rightarrow> backend_event \<Rightarrow> (nat, jsval \<times> jsval) jmap \<Rightarrow> (nat, jsval \<times> jsval) jmap" where
  "asked_state info (BConfig pin l q) m = (if check_output_pin info pin = None then m else jset pin (l, q) m)"
| "asked_state info ev m = m"

text \<open>An invocation of the bare \<open>gpio.configSafeState\<close> action goes past what the backend keeps.\<close>

fun bare_config :: "backend_event \<Rightarrow> bool" where
  "bare_config (BInvoke action payload) = (action = ''gpio.configSafeState'')"
| "bare_config ev = False"

definition asked :: "backend_event \<Rightarrow> arm_frame \<Rightarrow> arm_frame" where
  "asked ev P = (fst P, asked_state (snd (snd P)) ev (fst (snd P)), snd (snd P))"

lemma arm_inv_step: "arm_inv P s \<Longrightarrow> \<not> bare_config ev \<Longrightarrow> arm_inv (asked ev P) (backend_step nt w ev s)"
proof -
  assume a: "arm_inv P s" and bare: "\<not> bare_config ev"
  have info: "pb_info s = snd (snd P)" "pb_supports s ''gpio.configSafeState''"
    using a by (simp_all add: arm_inv_def)
  have n: "arm_inv P s1" if "new_call s = (i, s1)" for i s1
    using arm_inv_new[OF a] that by simp
  show ?thesis
  proof (cases ev)
    case (BAnswer i r)
    have "arm_inv P (call_answered nt w i c r s)" if "Awaiting c \<in> set (pb_calls s)" for c
    proof (cases c)
      case (ArmConfig k opts)
      then have "\<forall>j\<le>k. configured (fst (pb_outputs s ! j)) (pb_sent s)"
        using a that unfolding arm_inv_def calls_ok_def by blast
      then have "arm_inv P (arm_config w i (Suc k) opts s)"
        by (intro arm_inv_config[OF a]) auto
      then show ?thesis
        using ArmConfig a by (simp add: call_answered_def give_def arm_inv_put split: sum.split)
    qed (use a in \<open>simp_all add: call_answered_def give_def arm_inv_put arm_inv_disarm_result arm_inv_safe_stop
        arm_answered_def kick_answered_def Let_def split: sum.split jsval.split device_error.split\<close>)
    then show ?thesis
      using BAnswer a by (simp add: asked_def answer_def split: call_state.split) (metis nth_mem)
  next
    case BSafeState
    have "arm_inv P (snd (new_call (stopHeartbeat s)))"
      using a by (simp add: arm_inv_new)
    then show ?thesis
      using BSafeState by (simp add: asked_def safeState_def case_prod_unfold arm_inv_ask arm_inv_safe_stop)
  next
    case BClose
    have "arm_inv P (snd (new_call ((stopHeartbeat s)\<lparr>pb_listening := False\<rparr>)))"
      using a by (simp add: arm_inv_new)
    then show ?thesis
      using BClose by (simp add: asked_def close_backend_def case_prod_unfold arm_inv_disarm_in arm_inv_put)
  next
    case (BConfig pin l q)
    then show ?thesis
      using arm_inv_new[OF a] arm_inv_configure[OF arm_inv_new[OF a], of pin l q] info
      by (simp add: asked_def configSafeState_def case_prod_unfold Let_def)
  qed (use a n bare in \<open>auto simp: asked_def arm_def disarm_def configSafeState_def backend_invoke_def tripped_def gpio_changed_def
      heartbeat_def give_def Let_def arm_inv_arm_in arm_inv_disarm_in arm_inv_put arm_inv_ask 
      split: prod.split jsval.split\<close>)
qed

lemma arm_inv_run:
  "arm_inv P s \<Longrightarrow> list_all (\<lambda>(w, ev). \<not> bare_config ev) evs \<Longrightarrow>
    arm_inv (fold (\<lambda>(w, ev). asked ev) evs P) (backend_run nt evs s)"
proof (induction evs arbitrary: s P)
  case (Cons e evs)
  then show ?case
    using arm_inv_step[of P s "snd e" nt "fst e"] by (simp add: backend_run_def case_prod_unfold)
qed (simp add: backend_run_def)

definition asked_states ::
  "device_info \<Rightarrow> (int \<times> backend_event) list \<Rightarrow> (nat, jsval \<times> jsval) jmap \<Rightarrow> (nat, jsval \<times> jsval) jmap" where
  "asked_states info evs m = fold (\<lambda>(w, ev). asked_state info ev) evs m"

lemma fold_asked: "fold (\<lambda>(w, ev). asked ev) evs (P, M, info) = (P, asked_states info evs M, info)"
  by (induction evs arbitrary: M) (auto simp: asked_def asked_states_def)

subsection \<open>What is observed\<close>

definition observations :: "protocol_backend \<Rightarrow> string \<Rightarrow> jsval evidence_value" where
  "observations s k = es_observed (evidence_of s k)"

definition observing :: "string set" where
  "observing = {''gpio.read'', ''gpio.analogRead'', ''sys.info'', ''sys.hello''}"

lemma obs_cong: "pb_evidence s' = pb_evidence s \<Longrightarrow> observations s' = observations s"
  by (rule ext) (simp add: observations_def evidence_of_def unknownEvidence_def split: option.split)

lemma obs_fields [simp]:
  "observations (s\<lparr>pb_state := a\<rparr>) = observations s" "observations (s\<lparr>pb_tripReason := r\<rparr>) = observations s"
  "observations (s\<lparr>pb_heartbeat := h\<rparr>) = observations s" "observations (s\<lparr>pb_timeoutMs := t\<rparr>) = observations s"
  "observations (s\<lparr>pb_listening := l\<rparr>) = observations s" "observations (s\<lparr>pb_deviceOpen := d\<rparr>) = observations s"
  "observations (s\<lparr>pb_outputs := os\<rparr>) = observations s" "observations (s\<lparr>pb_sent := xs\<rparr>) = observations s"
  "observations (put_call i c s) = observations s" "observations (ask i c' action payload s) = observations s"
  "observations (give i g s) = observations s" "observations (snd (new_call s)) = observations s"
  "observations (become b s) = observations s" "observations (stopHeartbeat s) = observations s"
  "observations (startHeartbeat iv s) = observations s"
  by (rule obs_cong, simp add: put_call_def ask_def give_def new_call_def become_def stopHeartbeat_def startHeartbeat_def)+

lemma obs_records [simp]:
  "observations (recordCommandedState w k v s) = observations s"
  "observations (recordAcknowledgedState w k v s) = observations s"
  by (rule ext, simp add: observations_def evidence_of_def recordCommandedState_def recordAcknowledgedState_def
      recordCommanded_def recordAcknowledged_def jget_set unknownEvidence_def split: option.split)+

lemma obs_armed [simp]: "observations (ack_armed w x s) = observations s" "observations (command_armed w x s) = observations s"
  by (simp_all add: ack_armed_def command_armed_def)

lemma obs_folds [simp]:
  "observations (fold (\<lambda>(n, v). recordCommandedState w (pin_key nt n) (nullable v)) ws s) = observations s"
  "observations (fold (\<lambda>(n, v). recordAcknowledgedState w (pin_key nt n) (nullable v)) ws s) = observations s"
  by (rule fold_keeps[where Q = observations], simp split: prod.split)+

lemma obs_command [simp]: "observations (record_command nt w action payload s) = observations s"
proof (cases "action = ''gpio.batchWrite''")
  case False
  then show ?thesis
    by (cases "command_field action"; cases "ownprop payload ''pin''") (simp_all add: record_command_def)
qed (simp add: record_command_def)

lemma obs_answer: "action \<notin> observing \<Longrightarrow> observations (record_answer nt w action payload res s) = observations s"
proof (cases "action = ''gpio.batchWrite''")
  case False
  assume "action \<notin> observing"
  then show ?thesis
    using False by (cases "command_field action"; cases "ownprop payload ''pin''") (simp_all add: record_answer_def observing_def)
qed (simp add: record_answer_def)

lemma obs_arm [simp]: "observations (arm_ready w i opts s) = observations s" "observations (arm_config w i k opts s) = observations s"
  "observations (arm_in w i opts s) = observations s"
proof -
  show r: "observations (arm_ready w i opts s) = observations s" for w i opts s
    by (simp add: arm_ready_def Let_def)
  show c: "observations (arm_config w i k opts s) = observations s" for w i k opts s
    by (simp add: arm_config_def r split: prod.split)
  show "observations (arm_in w i opts s) = observations s"
    by (simp add: arm_in_def Let_def r c)
qed

lemma obs_disarm [simp]: "observations (disarm_result cl i r s) = observations s" "observations (disarm_in w cl i s) = observations s"
  "observations (safe_stop i s) = observations s"
  by (simp_all add: disarm_result_def disarm_in_def safe_stop_def Let_def)

lemma obs_call:
  "(\<And>action payload res. c = Invoking action payload \<Longrightarrow> r = Inr res \<Longrightarrow> action \<notin> observing) \<Longrightarrow>
    observations (call_answered nt w i c r s) = observations s"
proof (cases c)
  case (Kicking)
  have "observations (kick_answered w i r s) = observations s"
    by (cases r; simp add: kick_answered_def split: device_error.split)
  then show ?thesis
    using Kicking by (simp add: call_answered_def)
next
  case (ArmSend opts)
  have "observations (arm_answered w i opts res s) = observations s" for res
    by (cases "ownprop res ''timeoutMs''") (simp_all add: arm_answered_def Let_def)
  then show ?thesis
    using ArmSend by (simp add: call_answered_def split: sum.split)
next
  case (Invoking action payload)
  assume "\<And>action payload res. c = Invoking action payload \<Longrightarrow> r = Inr res \<Longrightarrow> action \<notin> observing"
  with Invoking show ?thesis
    by (cases r) (simp_all add: call_answered_def obs_answer)
qed (simp_all add: call_answered_def split: sum.split)

subsection \<open>The heartbeat\<close>

definition hb_inv :: "protocol_backend \<Rightarrow> bool" where
  "hb_inv s \<longleftrightarrow> (pb_heartbeat s \<noteq> None \<longrightarrow> pb_state s \<noteq> Tripped)"

definition hb_view :: "protocol_backend \<Rightarrow> jsval option \<times> arming" where
  "hb_view s = (pb_heartbeat s, pb_state s)"

lemma hb_cong: "hb_view s' = hb_view s \<Longrightarrow> hb_inv s' = hb_inv s"
  by (simp add: hb_inv_def hb_view_def)

lemma hb_fields [simp]:
  "hb_view (s\<lparr>pb_evidence := e\<rparr>) = hb_view s" "hb_view (s\<lparr>pb_tripReason := r\<rparr>) = hb_view s"
  "hb_view (s\<lparr>pb_timeoutMs := t\<rparr>) = hb_view s"
  "hb_view (s\<lparr>pb_listening := l\<rparr>) = hb_view s" "hb_view (s\<lparr>pb_deviceOpen := d\<rparr>) = hb_view s"
  "hb_view (s\<lparr>pb_outputs := os\<rparr>) = hb_view s" "hb_view (s\<lparr>pb_sent := xs\<rparr>) = hb_view s"
  "hb_view (put_call i c s) = hb_view s" "hb_view (ask i c' action payload s) = hb_view s"
  "hb_view (give i g s) = hb_view s" "hb_view (snd (new_call s)) = hb_view s"
  "hb_view (become b s) = (pb_heartbeat s, b)" "hb_view (stopHeartbeat s) = (None, pb_state s)"
  "hb_view (s\<lparr>pb_state := b\<rparr>) = (pb_heartbeat s, b)"
  "hb_view (recordCommandedState w k v s) = hb_view s" "hb_view (recordAcknowledgedState w k v s) = hb_view s"
  "hb_view (recordObservedState src w k v s) = hb_view s" "hb_view (ack_armed w x s) = hb_view s"
  "hb_view (command_armed w x s) = hb_view s"
  by (simp_all add: hb_view_def put_call_def ask_def give_def new_call_def become_def stopHeartbeat_def
      recordCommandedState_def recordAcknowledgedState_def recordObservedState_def ack_armed_def command_armed_def)

lemma hb_parts: "pb_heartbeat s = fst (hb_view s)" "pb_state s = snd (hb_view s)"
  by (simp_all add: hb_view_def)

lemma hb_inv_view: "hb_inv s \<longleftrightarrow> (fst (hb_view s) \<noteq> None \<longrightarrow> snd (hb_view s) \<noteq> Tripped)"
  by (simp add: hb_inv_def hb_view_def)

lemma hb_folds [simp]:
  "hb_view (fold (\<lambda>(n, v). recordCommandedState w (pin_key nt n) (nullable v)) ws s) = hb_view s"
  "hb_view (fold (\<lambda>(n, v). recordAcknowledgedState w (pin_key nt n) (nullable v)) ws s) = hb_view s"
  by (rule fold_keeps[where Q = hb_view], simp split: prod.split)+

lemma hb_command [simp]: "hb_view (record_command nt w action payload s) = hb_view s"
proof (cases "action = ''gpio.batchWrite''")
  case False
  then show ?thesis
    by (cases "command_field action"; cases "ownprop payload ''pin''") (simp_all add: record_command_def)
qed (simp add: record_command_def)

lemma hb_answer [simp]: "hb_view (record_answer nt w action payload res s) = hb_view s"
proof (cases "action = ''gpio.batchWrite''")
  case False
  have "hb_view (if c then (case v of JNum n \<Rightarrow> if d then s else recordObservedState src w (pin_key nt n) x s | _ \<Rightarrow> s)
      else if e then (case y of JStr st \<Rightarrow> recordObservedState Sensor w ''armed'' (Some (JStr st)) s | _ \<Rightarrow> s) else s) = hb_view s"
    for c v d src x e y
    by (cases v; cases y) simp_all
  then show ?thesis
    using False by (cases "command_field action"; cases "ownprop payload ''pin''") (simp_all add: record_answer_def)
qed (simp add: record_answer_def)

lemma hb_arm: "hb_inv s \<Longrightarrow> hb_inv (arm_ready w i opts s)" "hb_inv s \<Longrightarrow> hb_inv (arm_config w i k opts s)"
  "hb_inv s \<Longrightarrow> hb_inv (arm_in w i opts s)"
proof -
  show r: "hb_inv s \<Longrightarrow> hb_inv (arm_ready w i opts s)" for w i opts s
    by (simp add: arm_ready_def Let_def hb_inv_view)
  show c: "hb_inv s \<Longrightarrow> hb_inv (arm_config w i k opts s)" for w i k opts s
    using r by (simp add: arm_config_def hb_inv_view[of "ask _ _ _ _ _"] hb_inv_view[of s] split: prod.split)
  show "hb_inv s \<Longrightarrow> hb_inv (arm_in w i opts s)"
    using r c by (simp add: arm_in_def Let_def hb_inv_view[of "give _ _ _"] hb_inv_view[of s])
qed

lemma hb_disarm: "hb_inv s \<Longrightarrow> hb_inv (disarm_result cl i r s)" "hb_inv s \<Longrightarrow> hb_inv (disarm_in w cl i s)"
  "hb_inv s \<Longrightarrow> hb_inv (safe_stop i s)"
  by (simp_all add: disarm_result_def disarm_in_def safe_stop_def Let_def hb_inv_view)

lemma hb_call: "hb_inv s \<Longrightarrow> hb_inv (call_answered nt w i c r s)"
proof (cases c)
  case (Kicking)
  assume "hb_inv s"
  then have "hb_inv (kick_answered w i r s)"
    by (cases r; simp add: kick_answered_def hb_inv_view split: device_error.split)
  then show ?thesis
    using Kicking by (simp add: call_answered_def)
next
  case (ArmSend opts)
  have h: "snd (hb_view (startHeartbeat iv s)) = pb_state s" for iv s
    by (simp add: startHeartbeat_def hb_view_def)
  have "hb_inv (arm_answered w i opts res s)" for res
    by (cases "ownprop res ''timeoutMs''") (simp_all add: arm_answered_def Let_def hb_inv_view h hb_parts)
  moreover assume "hb_inv s"
  ultimately show ?thesis
    using ArmSend by (simp add: call_answered_def hb_inv_view[of "give _ _ _"] hb_inv_view[of s] split: sum.split)
next
  case (ArmConfig k opts)
  assume "hb_inv s"
  then show ?thesis
    using ArmConfig hb_arm(2) by (simp add: call_answered_def hb_inv_view[of "give _ _ _"] hb_inv_view[of s] split: sum.split)
next
  case (SafeDisarm)
  assume "hb_inv s"
  then show ?thesis
    using SafeDisarm hb_disarm(3) by (simp add: call_answered_def)
next
  case (DisarmSend cl)
  assume "hb_inv s"
  then show ?thesis
    using DisarmSend by (simp add: call_answered_def disarm_result_def hb_inv_view split: sum.split)
next
  case (DisarmStop cl)
  assume "hb_inv s"
  then show ?thesis
    using DisarmStop by (simp add: call_answered_def disarm_result_def hb_inv_view split: sum.split)
qed (simp_all add: call_answered_def hb_inv_view split: sum.split)

lemma hb_step: "hb_inv s \<Longrightarrow> hb_inv (backend_step nt w ev s)"
proof (cases ev)
  case (BAnswer i r)
  assume "hb_inv s"
  then show ?thesis
    using BAnswer by (simp add: answer_def hb_call split: call_state.split)
next
  case (BArm opts)
  assume "hb_inv s"
  then have "hb_inv (snd (new_call s))"
    by (simp add: hb_inv_view)
  then show ?thesis
    using BArm by (simp add: arm_def case_prod_unfold hb_arm)
next
  case BDisarm
  assume "hb_inv s"
  then have "hb_inv (snd (new_call s))"
    by (simp add: hb_inv_view)
  then show ?thesis
    using BDisarm by (simp add: disarm_def case_prod_unfold hb_disarm)
next
  case BSafeState
  have "hb_inv (snd (new_call (stopHeartbeat s)))"
    by (simp add: hb_inv_view)
  then show ?thesis
    using BSafeState by (simp add: safeState_def case_prod_unfold hb_disarm) (simp add: hb_inv_view)
next
  case BClose
  have "hb_inv (snd (new_call ((stopHeartbeat s)\<lparr>pb_listening := False\<rparr>)))"
    by (simp add: hb_inv_view)
  then show ?thesis
    using BClose by (simp add: close_backend_def case_prod_unfold hb_disarm) (simp add: hb_inv_view)
next
  case (BInvoke action payload)
  assume "hb_inv s"
  then have "hb_inv (snd (new_call s))"
    by (simp add: hb_inv_view)
  then show ?thesis
    using BInvoke by (simp add: backend_invoke_def case_prod_unfold hb_disarm hb_arm) (simp add: hb_inv_view)
next
  case (BConfig p l q)
  assume "hb_inv s"
  then show ?thesis
    using BConfig by (simp add: configSafeState_def case_prod_unfold Let_def hb_inv_view)
next
  case BTick
  assume "hb_inv s"
  then show ?thesis
    using BTick by (simp add: heartbeat_def case_prod_unfold hb_inv_view)
next
  case (BChanged p)
  assume "hb_inv s"
  then show ?thesis
    using BChanged by (simp add: gpio_changed_def hb_inv_view split: jsval.split)
next
  case (BTripped p)
  assume "hb_inv s"
  then show ?thesis
    using BTripped by (simp add: tripped_def hb_inv_view)
qed

lemma hb_run: "hb_inv s \<Longrightarrow> hb_inv (backend_run nt evs s)"
  by (induction evs arbitrary: s) (auto simp: backend_run_def hb_step)

subsection \<open>Properties\<close>

lemma add_outputs_wf: "add_outputs info outs m = Some m' \<Longrightarrow> wf_map m \<Longrightarrow> wf_map m'"
  by (induction info outs m rule: add_outputs.induct) (auto simp: wf_map_set split: bind_splits)

lemma backend_new:
  assumes "ProtocolDeviceBackend info kind opts outs w = Some s"
  shows "pb_info s = info \<and> pb_calls s = [] \<and> pb_sent s = [] \<and> pb_heartbeat s = None \<and> pb_state s = Disarmed \<and>
    wf_map (pb_outputs s)"
  using assms add_outputs_wf[of info outs "[]"]
  by (auto simp: ProtocolDeviceBackend_def ack_armed_def recordAcknowledgedState_def wf_map_Nil)

text \<open>C23: The safe states come before the arming, as they were asked for. Whenever a step makes the backend ask a board that
  keeps safe states to arm, whatever calls, answers, trips and ticks came before (but no bare \<open>gpio.configSafeState\<close>
  invocation, which the backend does not keep), the last level and polarity that the board was told for every output
  the backend was built with are those of the construction or, where \<open>configSafeState\<close> was called and accepted for the
  pin, of the last such call.\<close>

theorem outputs_configured_before_arming:
  assumes "ProtocolDeviceBackend info kind opts outs w = Some s" and "supports info ''gpio.configSafeState''"
    and "list_all (\<lambda>(w, ev). \<not> bare_config ev) ((w', ev) # evs)"
    and "pb_sent (backend_step nt w' ev (backend_run nt evs s)) = pb_sent (backend_run nt evs s) @ (''sys.arm'', payload) # after"
    and "pin \<in> fst ` set (pb_outputs s)"
  shows "last_config pin (pb_sent (backend_run nt evs s)) = jget (asked_states info evs (pb_outputs s)) pin \<and>
    jget (asked_states info evs (pb_outputs s)) pin \<noteq> None"
proof -
  let ?s = "backend_run nt evs s" and ?P = "(fst ` set (pb_outputs s), asked_states info evs (pb_outputs s), info)"
  have "arm_inv (fst ` set (pb_outputs s), pb_outputs s, info) s"
    using backend_new[OF assms(1)] assms(2) by (simp add: arm_inv_def calls_ok_def told_ok_def last_config_def)
  from arm_inv_run[OF this, of evs nt] have inv: "arm_inv ?P ?s"
    using assms(3) by (simp add: fold_asked)
  from arm_inv_step[OF this, of ev nt w'] have "configured pin (pb_sent ?s)"
    using assms(3-5) unfolding arm_inv_def asked_def by (simp, blast)
  then obtain v where "last_config pin (pb_sent ?s) = Some v"
    using configured_last by blast
  moreover have "fst (snd ?P) = pb_outputs ?s" "told_ok ?s"
    using inv unfolding arm_inv_def by blast+
  with calculation have "jget (asked_states info evs (pb_outputs s)) pin = Some v"
    unfolding told_ok_def by (simp only: fst_conv snd_conv)
  ultimately show ?thesis
    by simp
qed

definition wit_caps :: "string list \<Rightarrow> device_info" where
  "wit_caps caps = \<lparr>dv_firmware = ''sim'', dv_version = ''1'', dv_capabilities = caps, dv_features = [], dv_boardId = None\<rparr>"

definition wit_backend_opts :: backend_options where
  "wit_backend_opts = \<lparr>bo_autoHeartbeat = None, bo_heartbeatIntervalMs = None, bo_watchdogTimeoutMs = None,
     bo_requireWatchdog = None\<rparr>"

definition wit_backend :: "string list \<Rightarrow> (nat, jsval \<times> jsval) jmap \<Rightarrow> protocol_backend" where
  "wit_backend caps outs = ack_armed 0 ''disarmed''
     \<lparr>pb_info = wit_caps caps, pb_provenance = ProvSimulated, pb_options = wit_backend_opts, pb_state = Disarmed,
      pb_tripReason = None, pb_heartbeat = None, pb_timeoutMs = Fin 1000, pb_outputs = outs, pb_evidence = [],
      pb_listening = True, pb_calls = [], pb_sent = [], pb_deviceOpen = True\<rparr>"

abbreviation "lamp_output \<equiv> (js_nat 4, JUndefined, JUndefined)"
abbreviation "lamp_config \<equiv> [(4 :: nat, (JStr ''low'', JStr ''active-high''))]"
abbreviation "wit_arming \<equiv> [''sys.arm'', ''gpio.configSafeState'']"

lemma wit_backend_new: "ProtocolDeviceBackend (wit_caps caps) (Some ''loopback'') wit_backend_opts [lamp_output] 0 =
    Some (wit_backend caps lamp_config)"
proof -
  have "check_output_pin (wit_caps caps) 4 = Some ()"
    by (simp add: check_output_pin_def boardForInfo_def wit_caps_def Let_def assertEsp32WritePin_def isEsp32FlashPin_def
        isEsp32InputOnlyPin_def isEsp32Uart0Pin_def isEsp32StrapPin_def)
  moreover have "assertGpioPin (js_nat 4) = Some 4"
    by (simp add: assertGpioPin_def int_between_def js_nat_def)
  ultimately show ?thesis
    by (simp add: ProtocolDeviceBackend_def default_to_def wit_backend_def provenance_of_def wit_backend_opts_def
        starts_with_def)
qed

lemmas backend_call_defs = backend_run_def arm_def new_call_def arm_in_def require_watchdog_def arm_config_def
  arm_ready_def ask_def put_call_def answer_def call_answered_def Let_def requested_timeout_def js_num_value_def
  coalesce_def command_armed_def recordCommandedState_def ack_armed_def recordAcknowledgedState_def js_true_def

theorem outputs_configured_before_arming_witness:
  "last_config 4 (pb_sent (backend_run (\<lambda>_. []) [(1, BArm [])] (wit_backend wit_arming lamp_config))) =
     Some (JStr ''low'', JStr ''active-high'')"
proof -
  let ?s = "wit_backend wit_arming lamp_config"
  have s: "pb_sent (backend_step (\<lambda>_. []) 2 (BAnswer 0 (Inr [])) (backend_run (\<lambda>_. []) [(1, BArm [])] ?s)) =
      pb_sent (backend_run (\<lambda>_. []) [(1, BArm [])] ?s) @ (''sys.arm'', []) # []"
    by (simp add: backend_call_defs wit_backend_def wit_caps_def wit_backend_opts_def supports_def)
  have "jget (asked_states (wit_caps wit_arming) [(1, BArm [])] (pb_outputs ?s)) 4 = Some (JStr ''low'', JStr ''active-high'')"
    and "4 \<in> fst ` set (pb_outputs ?s)" and "supports (wit_caps wit_arming) ''gpio.configSafeState''"
    by (simp_all add: asked_states_def wit_backend_def wit_caps_def supports_def ack_armed_def recordAcknowledgedState_def)
  then show ?thesis
    using outputs_configured_before_arming[OF wit_backend_new _ _ s, of 4] by simp
qed

text \<open>C24: Only a reading observes. A step changes what the backend reports as observed, of any pin or of the
  arming state, only if it is a change event of the board or the successful answer to a read, an analog read
  or an identity query; commands, writes and their acknowledgements never do.\<close>

theorem only_readings_observe:
  assumes "observations (backend_step nt w ev s) \<noteq> observations s"
  shows "(\<exists>payload. ev = BChanged payload) \<or>
    (\<exists>i res action payload. ev = BAnswer i (Inr res) \<and> i < length (pb_calls s) \<and>
      pb_calls s ! i = Awaiting (Invoking action payload) \<and>
      action \<in> {''gpio.read'', ''gpio.analogRead'', ''sys.info'', ''sys.hello''})"
proof (rule ccontr)
  assume n: "\<not> ?thesis"
  have "observations (backend_step nt w ev s) = observations s"
  proof (cases ev)
    case (BAnswer i r)
    have "observations (call_answered nt w i c r s) = observations s" if "i < length (pb_calls s)" "pb_calls s ! i = Awaiting c" for c
      using n BAnswer that by (intro obs_call) (auto simp: observing_def)
    then show ?thesis
      using BAnswer by (simp add: answer_def split: call_state.split)
  qed (use n in \<open>simp_all add: arm_def disarm_def safeState_def close_backend_def configSafeState_def backend_invoke_def
      tripped_def heartbeat_def case_prod_unfold Let_def\<close>)
  with assms show False
    by simp
qed

theorem only_readings_observe_witness:
  "observations (answer (\<lambda>_. ''4'') 5 0 (Inr [(''value'', JBool True)])
      (backend_invoke (\<lambda>_. ''4'') 4 ''gpio.read'' [(''pin'', js_nat 4)] (wit_backend [''gpio.read''] []))) ''gpio.4'' \<noteq> no_value \<and>
   (\<exists>i action payload. BAnswer 0 (Inr [(''value'', JBool True)]) = BAnswer i (Inr [(''value'', JBool True)]) \<and>
      pb_calls (backend_invoke (\<lambda>_. ''4'') 4 ''gpio.read'' [(''pin'', js_nat 4)] (wit_backend [''gpio.read''] [])) ! i =
        Awaiting (Invoking action payload) \<and> action \<in> {''gpio.read'', ''gpio.analogRead'', ''sys.info'', ''sys.hello''})"
proof -
  let ?s = "backend_invoke (\<lambda>_. ''4'') 4 ''gpio.read'' [(''pin'', js_nat 4)] (wit_backend [''gpio.read''] [])"
  have c: "pb_calls ?s = [Awaiting (Invoking ''gpio.read'' [(''pin'', js_nat 4)])]"
    by (simp add: backend_invoke_def new_call_def ask_def put_call_def wit_backend_def ack_armed_def
        recordAcknowledgedState_def record_command_def command_field_def)
  have a: "answer (\<lambda>_. ''4'') 5 0 (Inr [(''value'', JBool True)]) ?s =
      give 0 (Inr [(''value'', JBool True)]) (record_answer (\<lambda>_. ''4'') 5 ''gpio.read'' [(''pin'', js_nat 4)] [(''value'', JBool True)] ?s)"
    unfolding answer_def c by (simp add: call_answered_def)
  have r: "record_answer (\<lambda>_. ''4'') 5 ''gpio.read'' [(''pin'', js_nat 4)] [(''value'', JBool True)] s =
      recordObservedState GpioReadback 5 ''gpio.4'' (Some (JBool True)) s" for s
    by (simp add: record_answer_def command_field_def js_nat_def pin_key_def nullable_def)
  have o: "observations (answer (\<lambda>_. ''4'') 5 0 (Inr [(''value'', JBool True)]) ?s) ''gpio.4'' \<noteq> no_value"
    unfolding a r by (simp add: observations_def evidence_of_def recordObservedState_def give_def put_call_def jget_set recordObserved_def Let_def
        computeFreshness_def formatIsoTimestamp_def getTimestampMs_def Evidence.fresh_state_def no_value_def)
  have e: "observations ?s ''gpio.4'' = no_value"
    by (simp add: backend_invoke_def case_prod_unfold)
      (simp add: observations_def evidence_of_def wit_backend_def ack_armed_def recordAcknowledgedState_def
        unknownEvidence_def jget_set)
  have "observations (backend_step (\<lambda>_. ''4'') 5 (BAnswer 0 (Inr [(''value'', JBool True)])) ?s) \<noteq> observations ?s"
    using o e by (metis backend_step.simps(10))
  from only_readings_observe[OF this] o show ?thesis
    by auto
qed

text \<open>A board that refused to disarm counts as disarmed. When the board cannot stop its pins on command,
  the safe state ends with \<open>applied: false\<close> and the backend in the disarmed state even if the disarm request
  failed; what is acknowledged of the arming is left as it was, and a later \<open>close\<close> does not disarm the
  board any more.\<close>

theorem failed_safe_state_reads_disarmed:
  assumes "i < length (pb_calls s)" and "pb_calls s ! i = Awaiting SafeDisarm" and "\<not> pb_supports s ''gpio.stopAll''"
  shows "let s' = answer nt w i (Inl e) s in
    pb_state s' = Disarmed \<and> pb_evidence s' = pb_evidence s \<and>
    pb_calls s' ! i = Returned (Inr [(''applied'', JBool False), (''reason'', JStr ''safe-state-not-supported'')]) \<and>
    pb_sent (close_backend w' s') = pb_sent s"
  using assms by (simp add: answer_def call_answered_def safe_stop_def give_def put_call_def close_backend_def
      new_call_def stopHeartbeat_def)

theorem failed_safe_state_reads_disarmed_witness:
  "let s = safeState (wit_backend [''sys.disarm''] []\<lparr>pb_state := Armed\<rparr>) in
    pb_state s = Armed \<and> pb_state (answer (\<lambda>_. []) 5 0 (Inl (DeviceError ''BUSY'')) s) = Disarmed"
proof -
  let ?s = "safeState (wit_backend [''sys.disarm''] []\<lparr>pb_state := Armed\<rparr>)"
  have c: "pb_calls ?s = [Awaiting SafeDisarm] \<and> pb_state ?s = Armed \<and> \<not> pb_supports ?s ''gpio.stopAll''"
    by (simp add: safeState_def new_call_def ask_def put_call_def stopHeartbeat_def wit_backend_def ack_armed_def
        recordAcknowledgedState_def wit_caps_def supports_def)
  then show ?thesis
    using failed_safe_state_reads_disarmed[of 0 ?s "\<lambda>_. []" 5 "DeviceError ''BUSY''" 6] by (simp add: Let_def)
qed

text \<open>The heartbeat stops with a trip. In every state a backend can reach, the heartbeat timer does not run
  while the board is known to have tripped; and the timer asks the board for nothing unless it is armed.\<close>

theorem no_heartbeat_after_trip:
  assumes "ProtocolDeviceBackend info kind opts outs w = Some s0" and "s = backend_run nt evs s0"
  shows "(pb_state s = Tripped \<longrightarrow> pb_heartbeat s = None) \<and>
    (pb_sent (heartbeat s) \<noteq> pb_sent s \<longrightarrow> pb_state s = Armed)"
proof -
  have "hb_inv s0"
    using backend_new[OF assms(1)] by (simp add: hb_inv_def)
  from hb_run[OF this] have "hb_inv s"
    unfolding assms(2) .
  then show ?thesis
    by (auto simp: hb_inv_def heartbeat_def stopHeartbeat_def)
qed

theorem no_heartbeat_after_trip_witness:
  "pb_heartbeat (backend_run (\<lambda>_. []) [(1, BTripped [])] (wit_backend [''watchdog.kick''] lamp_config)) = None"
proof -
  have "pb_state (backend_run (\<lambda>_. []) [(1, BTripped [])] (wit_backend [''watchdog.kick''] lamp_config)) = Tripped"
    by (simp add: backend_run_def tripped_def wit_backend_def stopHeartbeat_def ack_armed_def recordAcknowledgedState_def)
  then show ?thesis
    using no_heartbeat_after_trip[OF wit_backend_new refl, of "\<lambda>_. []" "[(1, BTripped [])]" "[''watchdog.kick'']"] by blast
qed

text \<open>An arming that is answered after the trip event that followed it hides the trip.\<close>

theorem trip_hidden_by_arm_answer:
  assumes "i < length (pb_calls s)" and "pb_calls s ! i = Awaiting (ArmSend opts)"
  shows "let s' = answer nt w i (Inr res) (tripped w' payload s) in pb_state s' = Armed \<and> pb_tripReason s' = None"
proof -
  have "pb_calls (tripped w' payload s) = pb_calls s"
    by (simp add: tripped_def stopHeartbeat_def ack_armed_def recordAcknowledgedState_def)
  moreover have "pb_state (startHeartbeat iv t) = pb_state t \<and> pb_tripReason (startHeartbeat iv t) = pb_tripReason t" for iv t
    by (simp add: startHeartbeat_def)
  ultimately show ?thesis
    using assms by (simp add: answer_def call_answered_def arm_answered_def Let_def give_def put_call_def ack_armed_def
        recordAcknowledgedState_def become_def split: jsval.split)
qed

text \<open>Motor commands name \<open>pwmPin\<close>, not \<open>pin\<close>, so neither the command nor its answer leaves any evidence.\<close>

theorem motor_leaves_no_evidence:
  "ownprop payload ''pin'' = JUndefined \<Longrightarrow>
    record_command nt w ''gpio.motor'' payload s = s \<and> record_answer nt w ''gpio.motor'' payload res s = s"
  by (simp add: record_command_def record_answer_def command_field_def)

end
