(* ===== verification/Esp32_Bridge.thy ===== *)
theory Esp32_Bridge
  imports Device_Actions
begin

text \<open>
  The simulated ESP32 firmware, \<open>packages/core/src/drivers/esp32/bridge.ts\<close>: its pins, PWM channels, servos,
  motors and buses, arming, the watchdog deadline and the safe states. A handler takes the payload and the
  state and gives the result, or the code of the thrown \<open>DeviceError\<close>, with the state as it is left: what a
  handler changed before it threw stays changed. Messages are not modelled. \<open>emitEvent\<close> is called in order
  with the entries of \<open>gs_emitted\<close>; \<open>now\<close> is \<open>Date.now()\<close>.
\<close>

subsection \<open>State\<close>

record pwm_channel =
  pc_pin :: nat
  pc_duty :: jsnum
  pc_frequency :: jsnum

record pin_safe_config =
  sc_safeLevel :: string
  sc_polarity :: string

record i2c_bus =
  ib_sda :: nat
  ib_scl :: nat
  ib_frequency :: nat
  ib_started :: bool
  ib_memory :: "(nat, nat list) jmap"

record spi_bus =
  sb_sck :: nat
  sb_miso :: nat
  sb_mosi :: nat
  sb_chipSelect :: nat
  sb_frequency :: nat
  sb_started :: bool
  sb_lastTransfer :: "(nat, nat list) jmap"

datatype lifecycle = LDisarmed | LArmed | LTripped

record watchdog_config =
  wd_enabled :: bool
  wd_timeoutMs :: nat
  wd_deadlineMs :: int

record gpio_state =
  gs_levels :: "(nat, bool) jmap"
  gs_modes :: "(nat, string) jmap"
  gs_watched :: "nat list"
  gs_pwmChannels :: "(nat, pwm_channel) jmap"
  gs_analogLevels :: "(nat, jsnum) jmap"
  gs_i2c :: i2c_bus
  gs_spi :: spi_bus
  gs_servos :: "(nat, jsval) jmap"
  gs_motors :: "(nat, jsnum \<times> nat option) jmap"
  gs_safePinConfigs :: "(nat, pin_safe_config) jmap"
  gs_deviceState :: lifecycle
  gs_tripReason :: "string option"
  gs_watchdog :: watchdog_config
  gs_emitted :: "(string \<times> jsrecord) list"

type_synonym reply = "(string + jsrecord) \<times> gpio_state"

definition createGpioState :: gpio_state where
  "createGpioState =
    \<lparr>gs_levels = [], gs_modes = [], gs_watched = [], gs_pwmChannels = [], gs_analogLevels = [],
     gs_i2c = \<lparr>ib_sda = 21, ib_scl = 22, ib_frequency = 100000, ib_started = False, ib_memory = []\<rparr>,
     gs_spi = \<lparr>sb_sck = 18, sb_miso = 19, sb_mosi = 23, sb_chipSelect = 5, sb_frequency = 1000000,
       sb_started = False, sb_lastTransfer = []\<rparr>,
     gs_servos = [], gs_motors = [], gs_safePinConfigs = [], gs_deviceState = LDisarmed, gs_tripReason = None,
     gs_watchdog = \<lparr>wd_enabled = True, wd_timeoutMs = 1000, wd_deadlineMs = 0\<rparr>, gs_emitted = []\<rparr>"

definition esp32BridgeCapabilities :: "string list" where
  "esp32BridgeCapabilities =
    [''sys.hello'', ''sys.ping'', ''sys.info'', ''sys.arm'', ''sys.disarm'', ''watchdog.configure'', ''watchdog.kick'',
     ''gpio.mode'', ''gpio.configSafeState'', ''gpio.write'', ''gpio.batchWrite'', ''gpio.stopAll'', ''gpio.read'',
     ''gpio.toggle'', ''gpio.pulse'', ''gpio.pwm'', ''gpio.analogRead'', ''gpio.watch'', ''gpio.unwatch'', ''i2c.begin'',
     ''i2c.write'', ''i2c.read'', ''i2c.scan'', ''spi.begin'', ''spi.transfer'', ''gpio.servo'', ''gpio.motor'']"

definition esp32BridgeFeatures :: "string list" where
  "esp32BridgeFeatures = [''watchdog'', ''arming'', ''safe-state'', ''command-validity'']"

definition esp32BridgeInfo :: jsrecord where
  "esp32BridgeInfo =
    [(''firmware'', JStr ''esp32-bridge''), (''version'', JStr ''0.3.0''), (''protocol'', protocolVersion),
     (''capabilities'', JArr (map JStr esp32BridgeCapabilities)), (''features'', JArr (map JStr esp32BridgeFeatures))]"

subsection \<open>Pins\<close>

definition readPinLevel :: "gpio_state \<Rightarrow> nat \<Rightarrow> bool" where
  "readPinLevel s pin =
    (case jget (gs_levels s) pin of Some b \<Rightarrow> b | None \<Rightarrow> jget (gs_modes s) pin = Some ''pullup'')"

definition emit_event :: "string \<Rightarrow> jsrecord \<Rightarrow> gpio_state \<Rightarrow> gpio_state" where
  "emit_event event payload s = s\<lparr>gs_emitted := gs_emitted s @ [(event, payload)]\<rparr>"

definition setPinLevel :: "nat \<Rightarrow> bool \<Rightarrow> gpio_state \<Rightarrow> gpio_state" where
  "setPinLevel pin v s =
    (let s' = s\<lparr>gs_levels := jset pin v (gs_levels s)\<rparr> in
     if readPinLevel s pin \<noteq> v \<and> pin \<in> set (gs_watched s)
     then emit_event ''gpio.changed'' [(''pin'', js_nat pin), (''value'', JBool v)] s' else s')"

definition set_mode :: "nat \<Rightarrow> string \<Rightarrow> gpio_state \<Rightarrow> gpio_state" where
  "set_mode pin mode s = s\<lparr>gs_modes := jset pin mode (gs_modes s)\<rparr>"

definition drive :: "nat \<Rightarrow> bool \<Rightarrow> gpio_state \<Rightarrow> gpio_state" where
  "drive pin v s = set_mode pin ''output'' (setPinLevel pin v s)"

subsection \<open>Arming and the watchdog\<close>

definition touchWatchdog :: "int \<Rightarrow> gpio_state \<Rightarrow> gpio_state" where
  "touchWatchdog now s =
    (let w = gs_watchdog s in
     if gs_deviceState s = LArmed \<and> wd_enabled w \<and> 0 < wd_timeoutMs w
     then s\<lparr>gs_watchdog := w\<lparr>wd_deadlineMs := now + int (wd_timeoutMs w)\<rparr>\<rparr> else s)"

definition assertArmed :: "gpio_state \<Rightarrow> string option" where
  "assertArmed s =
    (case gs_deviceState s of LDisarmed \<Rightarrow> Some ''NOT_ARMED'' | LTripped \<Rightarrow> Some ''WATCHDOG_TRIPPED'' | LArmed \<Rightarrow> None)"

definition assertValidity :: "jsrecord \<Rightarrow> string option" where
  "assertValidity payload =
    (case ownprop payload ''validityMs'' of
      JUndefined \<Rightarrow> None
    | JNum n \<Rightarrow>
        if js_less n (Fin 0) \<or> n = Fin 0 \<or> ownprop payload ''expired'' = JBool True then Some ''COMMAND_EXPIRED'' else None
    | _ \<Rightarrow> Some ''COMMAND_EXPIRED'')"

definition set_timeout :: "nat \<Rightarrow> gpio_state \<Rightarrow> gpio_state" where
  "set_timeout t s = s\<lparr>gs_watchdog := (gs_watchdog s)\<lparr>wd_timeoutMs := t, wd_enabled := 0 < t\<rparr>\<rparr>"

definition arm_state :: "int \<Rightarrow> gpio_state \<Rightarrow> reply" where
  "arm_state now s =
    (let s' = touchWatchdog now (s\<lparr>gs_deviceState := LArmed, gs_tripReason := None\<rparr>) in
     (Inr [(''armed'', JBool True), (''state'', JStr ''armed''), (''timeoutMs'', js_nat (wd_timeoutMs (gs_watchdog s')))], s'))"

definition sysArm :: "int \<Rightarrow> jsrecord \<Rightarrow> gpio_state \<Rightarrow> reply" where
  "sysArm now payload s =
    (if ownprop payload ''timeoutMs'' = JUndefined then arm_state now s
     else (case assertNonNegativeInt (ownprop payload ''timeoutMs'') of
         None \<Rightarrow> (Inl ''INVALID_PAYLOAD'', s)
       | Some t \<Rightarrow> arm_state now (set_timeout t s)))"

definition watchdogConfigure :: "int \<Rightarrow> jsrecord \<Rightarrow> gpio_state \<Rightarrow> reply" where
  "watchdogConfigure now payload s =
    (case assertNonNegativeInt (ownprop payload ''timeoutMs'') of
      None \<Rightarrow> (Inl ''INVALID_PAYLOAD'', s)
    | Some t \<Rightarrow> (Inr [(''timeoutMs'', js_nat t), (''enabled'', JBool (0 < t))], touchWatchdog now (set_timeout t s)))"

definition watchdogKick :: "int \<Rightarrow> jsrecord \<Rightarrow> gpio_state \<Rightarrow> reply" where
  "watchdogKick now payload s =
    (case assertValidity payload of
      Some c \<Rightarrow> (Inl c, s)
    | None \<Rightarrow> (Inr [(''kicked'', JBool True), (''timeoutMs'', js_nat (wd_timeoutMs (gs_watchdog s)))], touchWatchdog now s))"

subsection \<open>Safe states\<close>

definition safe_config :: "jsrecord \<Rightarrow> pin_safe_config option" where
  "safe_config payload = do {
    level \<leftarrow> default_to (JStr ''low'') assertSafeLevel (ownprop payload ''safeLevel'');
    polarity \<leftarrow> default_to (JStr ''active-high'') assertPolarity (ownprop payload ''polarity'');
    Some \<lparr>sc_safeLevel = string_of level, sc_polarity = string_of polarity\<rparr> }"

definition put_safe_config :: "nat \<Rightarrow> pin_safe_config \<Rightarrow> gpio_state \<Rightarrow> gpio_state" where
  "put_safe_config pin c s = s\<lparr>gs_safePinConfigs := jset pin c (gs_safePinConfigs s)\<rparr>"

text \<open>\<open>requirePin\<close> and the check that follows; both give \<open>INVALID_PIN\<close>.\<close>

definition checked_pin :: "(nat \<Rightarrow> unit option) \<Rightarrow> jsval \<Rightarrow> nat option" where
  "checked_pin check v = do { n \<leftarrow> assertGpioPin v; check n; Some n }"

definition gpioConfigSafeState :: "jsrecord \<Rightarrow> gpio_state \<Rightarrow> reply" where
  "gpioConfigSafeState payload s =
    (case checked_pin assertEsp32WritePin (ownprop payload ''pin'') of
      None \<Rightarrow> (Inl ''INVALID_PIN'', s)
    | Some pin \<Rightarrow>
        (case safe_config payload of
          None \<Rightarrow> (Inl ''INVALID_PAYLOAD'', s)
        | Some c \<Rightarrow>
            (Inr [(''pin'', js_nat pin), (''safeLevel'', JStr (sc_safeLevel c)), (''polarity'', JStr (sc_polarity c))],
             put_safe_config pin c s)))"

text \<open>The pins a stop visits, each once, in the order of insertion into the \<open>Set\<close>.\<close>

definition stopped_pins :: "gpio_state \<Rightarrow> nat list" where
  "stopped_pins s = rev (remdups (rev
    (map fst (filter (\<lambda>(pin, mode). mode = ''output'') (gs_modes s)) @ map pc_pin (jvalues (gs_pwmChannels s)) @
     jkeys (gs_servos s) @ jkeys (gs_motors s) @ jkeys (gs_safePinConfigs s) @
     List.map_filter snd (jvalues (gs_motors s)))))"

definition safe_level :: "gpio_state \<Rightarrow> nat \<Rightarrow> string" where
  "safe_level s pin = (case jget (gs_safePinConfigs s) pin of Some c \<Rightarrow> sc_safeLevel c | None \<Rightarrow> ''low'')"

definition stop_pin :: "nat \<Rightarrow> gpio_state \<Rightarrow> gpio_state" where
  "stop_pin pin s =
    (let level = safe_level s pin in
     if level = ''high'' then drive pin True s
     else if level = ''high-z'' then set_mode pin ''input'' s
     else if level = ''hold'' then s
     else drive pin False s)"

definition gpioStopAll :: "gpio_state \<Rightarrow> jsval \<times> gpio_state" where
  "gpioStopAll s =
    (JArr (map js_nat (sort (stopped_pins s))),
     (fold stop_pin (stopped_pins s) s)\<lparr>gs_pwmChannels := [], gs_servos := [], gs_motors := []\<rparr>)"

definition stop_action :: "gpio_state \<Rightarrow> reply" where
  "stop_action s = (case gpioStopAll s of (pins, s') \<Rightarrow> (Inr [(''stoppedPins'', pins)], s'))"

definition sysDisarm :: "gpio_state \<Rightarrow> reply" where
  "sysDisarm s =
    (Inr [(''armed'', JBool False), (''state'', JStr ''disarmed'')],
     snd (gpioStopAll (s\<lparr>gs_deviceState := LDisarmed, gs_tripReason := None\<rparr>)))"

text \<open>The text of the event is left out of its payload.\<close>

definition tripWatchdog :: "string \<Rightarrow> gpio_state \<Rightarrow> gpio_state" where
  "tripWatchdog reason s =
    (case gpioStopAll (s\<lparr>gs_deviceState := LTripped, gs_tripReason := Some reason\<rparr>) of
      (pins, s') \<Rightarrow> emit_event ''device.tripped'' [(''reason'', JStr reason), (''stoppedPins'', pins)] s')"

subsection \<open>Digital input and output\<close>

definition gpioWrite :: "jsrecord \<Rightarrow> gpio_state \<Rightarrow> reply" where
  "gpioWrite payload s =
    (case assertGpioPin (ownprop payload ''pin'') of
      None \<Rightarrow> (Inl ''INVALID_PIN'', s)
    | Some pin \<Rightarrow>
        (case ownprop payload ''value'' of
          JBool v \<Rightarrow>
            if assertEsp32WritePin pin = None then (Inl ''INVALID_PIN'', s)
            else (Inr [(''pin'', js_nat pin), (''value'', JBool v)], drive pin v s)
        | _ \<Rightarrow> (Inl ''INVALID_PAYLOAD'', s)))"

text \<open>One entry of a batch: the code of its error, or the pin and the value.\<close>

definition batch_write :: "jsval \<Rightarrow> string + nat \<times> bool" where
  "batch_write entry =
    (case entry of
      JObj item \<Rightarrow>
        (case assertGpioPin (ownprop item ''pin'') of
          None \<Rightarrow> Inl ''INVALID_PIN''
        | Some pin \<Rightarrow>
            (case ownprop item ''value'' of
              JBool v \<Rightarrow> if assertEsp32WritePin pin = None then Inl ''INVALID_PAYLOAD'' else Inr (pin, v)
            | _ \<Rightarrow> Inl ''INVALID_PAYLOAD''))
    | _ \<Rightarrow> Inl ''INVALID_PAYLOAD'')"

fun batch_writes :: "jsval list \<Rightarrow> string + (nat \<times> bool) list" where
  "batch_writes [] = Inr []"
| "batch_writes (e # es) = then_do (batch_write e) (\<lambda>w. then_do (batch_writes es) (\<lambda>ws. Inr (w # ws)))"

definition write_result :: "nat \<times> bool \<Rightarrow> jsval" where
  "write_result w = JObj [(''pin'', js_nat (fst w)), (''value'', JBool (snd w))]"

definition gpioBatchWrite :: "jsrecord \<Rightarrow> gpio_state \<Rightarrow> reply" where
  "gpioBatchWrite payload s =
    (case ownprop payload ''writes'' of
      JArr xs \<Rightarrow>
        if length xs < 1 \<or> 16 < length xs then (Inl ''INVALID_PAYLOAD'', s)
        else (case batch_writes xs of
            Inl c \<Rightarrow> (Inl c, s)
          | Inr ws \<Rightarrow> (Inr [(''writes'', JArr (map write_result ws))], fold (\<lambda>(pin, v). drive pin v) ws s))
    | _ \<Rightarrow> (Inl ''INVALID_PAYLOAD'', s))"

definition gpioRead :: "jsrecord \<Rightarrow> gpio_state \<Rightarrow> reply" where
  "gpioRead payload s =
    (case checked_pin assertEsp32ReadPin (ownprop payload ''pin'') of
      None \<Rightarrow> (Inl ''INVALID_PIN'', s)
    | Some pin \<Rightarrow> (Inr [(''pin'', js_nat pin), (''value'', JBool (readPinLevel s pin))], s))"

definition default_level :: "string \<Rightarrow> nat \<Rightarrow> gpio_state \<Rightarrow> gpio_state" where
  "default_level mode pin s =
    (if (mode = ''pullup'' \<or> mode = ''pulldown'') \<and> \<not> jhas (gs_levels s) pin
     then s\<lparr>gs_levels := jset pin (mode = ''pullup'') (gs_levels s)\<rparr> else s)"

definition gpioMode :: "jsrecord \<Rightarrow> gpio_state \<Rightarrow> reply" where
  "gpioMode payload s =
    (case assertGpioPin (ownprop payload ''pin'') of
      None \<Rightarrow> (Inl ''INVALID_PIN'', s)
    | Some pin \<Rightarrow>
        (case map_option string_of (assertGpioMode (ownprop payload ''mode'')) of
          None \<Rightarrow> (Inl ''INVALID_PAYLOAD'', s)
        | Some mode \<Rightarrow>
            if (if mode = ''output'' then assertEsp32WritePin pin else assertEsp32ReadPin pin) = None
            then (Inl ''INVALID_PIN'', s)
            else
              (let done = (\<lambda>t. (Inr [(''pin'', js_nat pin), (''mode'', JStr mode)], default_level mode pin (set_mode pin mode t))) in
               if ownprop payload ''safeLevel'' = JUndefined \<and> ownprop payload ''polarity'' = JUndefined then done s
               else (case safe_config payload of
                   None \<Rightarrow> (Inl ''INVALID_PAYLOAD'', s)
                 | Some c \<Rightarrow> done (put_safe_config pin c s)))))"

definition gpioToggle :: "jsrecord \<Rightarrow> gpio_state \<Rightarrow> reply" where
  "gpioToggle payload s =
    (case checked_pin assertEsp32WritePin (ownprop payload ''pin'') of
      None \<Rightarrow> (Inl ''INVALID_PIN'', s)
    | Some pin \<Rightarrow>
        if jget (gs_modes s) pin \<notin> {None, Some ''output''} then (Inl ''INVALID_PIN'', s)
        else
          (let v = (\<not> readPinLevel s pin) in (Inr [(''pin'', js_nat pin), (''value'', JBool v)], drive pin v s)))"

definition gpioPulse :: "jsrecord \<Rightarrow> gpio_state \<Rightarrow> reply" where
  "gpioPulse payload s =
    (case assertGpioPin (ownprop payload ''pin'') of
      None \<Rightarrow> (Inl ''INVALID_PIN'', s)
    | Some pin \<Rightarrow>
        (case (default_to (JBool True) assertGpioValue (ownprop payload ''value''),
               assertPositiveInt (ownprop payload ''durationMs'')) of
          (Some (JBool v), Some d) \<Rightarrow>
            if assertEsp32WritePin pin = None then (Inl ''INVALID_PIN'', s)
            else (Inr [(''pin'', js_nat pin), (''value'', JBool v), (''durationMs'', js_nat d),
                       (''previousValue'', JBool (readPinLevel s pin))], drive pin v s)
        | _ \<Rightarrow> (Inl ''INVALID_PAYLOAD'', s)))"

definition gpioAnalogRead :: "jsrecord \<Rightarrow> gpio_state \<Rightarrow> reply" where
  "gpioAnalogRead payload s =
    (case checked_pin assertEsp32AnalogPin (ownprop payload ''pin'') of
      None \<Rightarrow> (Inl ''INVALID_PIN'', s)
    | Some pin \<Rightarrow>
        (Inr [(''pin'', js_nat pin),
          (''value'', (case jget (gs_analogLevels s) pin of
              Some n \<Rightarrow> JNum n
            | None \<Rightarrow> js_nat (if readPinLevel s pin then 4095 else 0)))], s))"

definition gpioWatch :: "jsrecord \<Rightarrow> gpio_state \<Rightarrow> reply" where
  "gpioWatch payload s =
    (case checked_pin assertEsp32ReadPin (ownprop payload ''pin'') of
      None \<Rightarrow> (Inl ''INVALID_PIN'', s)
    | Some pin \<Rightarrow>
        (Inr [(''pin'', js_nat pin), (''watching'', JBool True)],
         s\<lparr>gs_watched := (if pin \<in> set (gs_watched s) then gs_watched s else gs_watched s @ [pin])\<rparr>))"

definition gpioUnwatch :: "jsrecord \<Rightarrow> gpio_state \<Rightarrow> reply" where
  "gpioUnwatch payload s =
    (case checked_pin assertEsp32ReadPin (ownprop payload ''pin'') of
      None \<Rightarrow> (Inl ''INVALID_PIN'', s)
    | Some pin \<Rightarrow>
        (Inr [(''pin'', js_nat pin), (''watching'', JBool False)], s\<lparr>gs_watched := removeAll pin (gs_watched s)\<rparr>))"

subsection \<open>PWM, servos and motors\<close>

definition requireDuty :: "jsval \<Rightarrow> jsnum option" where
  "requireDuty v = (case v of JNum n \<Rightarrow> if js_less n (Fin 0) \<or> js_less (Fin 1) n then None else Some n | _ \<Rightarrow> None)"

definition requireFrequency :: "jsval \<Rightarrow> jsnum option" where
  "requireFrequency v = (case v of JNum n \<Rightarrow> if is_finite n \<and> js_less (Fin 0) n then Some n else None | _ \<Rightarrow> None)"

definition pwm_arguments :: "nat \<Rightarrow> jsrecord \<Rightarrow> (jsnum \<times> jsnum \<times> nat) option" where
  "pwm_arguments pin payload = do {
    duty \<leftarrow> requireDuty (ownprop payload ''duty'');
    frequency \<leftarrow> (if ownprop payload ''frequency'' = JUndefined then Some (Fin 5000) else requireFrequency (ownprop payload ''frequency''));
    channel \<leftarrow> (if ownprop payload ''channel'' = JUndefined then Some (pin mod 8) else assertChannel (ownprop payload ''channel''));
    Some (duty, frequency, channel) }"

definition gpioPwm :: "jsrecord \<Rightarrow> gpio_state \<Rightarrow> reply" where
  "gpioPwm payload s =
    (case assertGpioPin (ownprop payload ''pin'') of
      None \<Rightarrow> (Inl ''INVALID_PIN'', s)
    | Some pin \<Rightarrow>
        (case pwm_arguments pin payload of
          None \<Rightarrow> (Inl ''INVALID_PAYLOAD'', s)
        | Some (duty, frequency, channel) \<Rightarrow>
            if assertEsp32PwmPin pin = None then (Inl ''INVALID_PIN'', s)
            else
              (Inr [(''pin'', js_nat pin), (''duty'', JNum duty), (''frequency'', JNum frequency), (''channel'', js_nat channel)],
               set_mode pin ''output'' s
                 \<lparr>gs_pwmChannels := jset channel \<lparr>pc_pin = pin, pc_duty = duty, pc_frequency = frequency\<rparr> (gs_pwmChannels s),
                  gs_levels := jset pin (duty = Fin (1 / 2) \<or> js_less (Fin (1 / 2)) duty) (gs_levels s)\<rparr>)))"

definition gpioServo :: "jsrecord \<Rightarrow> gpio_state \<Rightarrow> reply" where
  "gpioServo payload s =
    (case checked_pin assertEsp32PwmPin (ownprop payload ''pin'') of
      None \<Rightarrow> (Inl ''INVALID_PIN'', s)
    | Some pin \<Rightarrow>
        (case assertServoAngle (ownprop payload ''angle'') of
          None \<Rightarrow> (Inl ''INVALID_PAYLOAD'', s)
        | Some angle \<Rightarrow>
            (Inr [(''pin'', js_nat pin), (''angle'', angle)],
             set_mode pin ''output'' s\<lparr>gs_servos := jset pin angle (gs_servos s)\<rparr>)))"

fun js_abs :: "jsnum \<Rightarrow> jsnum" where
  "js_abs NaN = NaN"
| "js_abs NegInf = PosInf"
| "js_abs PosInf = PosInf"
| "js_abs (Fin x) = Fin \<bar>x\<bar>"

fun number_of :: "jsval \<Rightarrow> jsnum" where
  "number_of (JNum n) = n"
| "number_of _ = NaN"

definition motor_pins :: "jsrecord \<Rightarrow> (nat \<times> nat option) option" where
  "motor_pins payload = do {
    pwmPin \<leftarrow> checked_pin assertEsp32PwmPin (ownprop payload ''pwmPin'');
    (if ownprop payload ''dirPin'' = JUndefined then Some (pwmPin, None)
     else do { dirPin \<leftarrow> checked_pin assertEsp32WritePin (ownprop payload ''dirPin''); Some (pwmPin, Some dirPin) }) }"

definition set_direction :: "nat option \<Rightarrow> jsnum \<Rightarrow> gpio_state \<Rightarrow> gpio_state" where
  "set_direction dirPin speed s =
    (case dirPin of
      None \<Rightarrow> s
    | Some d \<Rightarrow> set_mode d ''output'' s\<lparr>gs_levels := jset d (speed = Fin 0 \<or> js_less (Fin 0) speed) (gs_levels s)\<rparr>)"

definition gpioMotor :: "jsrecord \<Rightarrow> gpio_state \<Rightarrow> reply" where
  "gpioMotor payload s =
    (case motor_pins payload of
      None \<Rightarrow> (Inl ''INVALID_PIN'', s)
    | Some (pwmPin, dirPin) \<Rightarrow>
        (case map_option number_of (assertMotorSpeed (ownprop payload ''speed'') (dirPin \<noteq> None)) of
          None \<Rightarrow> (Inl ''INVALID_PAYLOAD'', s)
        | Some speed \<Rightarrow>
            (let s1 = set_mode pwmPin ''output'' (set_direction dirPin speed s) in
             (Inr ([(''pwmPin'', js_nat pwmPin)] @ (case dirPin of None \<Rightarrow> [] | Some d \<Rightarrow> [(''dirPin'', js_nat d)]) @ [(''speed'', JNum speed)]),
              s1\<lparr>gs_motors := jset pwmPin (speed, dirPin) (gs_motors s1),
                 gs_pwmChannels := jset (pwmPin mod 8) \<lparr>pc_pin = pwmPin, pc_duty = js_abs speed, pc_frequency = Fin 1000\<rparr> (gs_pwmChannels s1)\<rparr>))))"

subsection \<open>Buses\<close>

text \<open>The optional fields of \<open>i2c.begin\<close> and \<open>spi.begin\<close>, set one after the other until one is refused.\<close>

definition put_field :: "string \<Rightarrow> (jsval \<Rightarrow> nat option) \<Rightarrow> (nat \<Rightarrow> gpio_state \<Rightarrow> gpio_state) \<Rightarrow> jsrecord \<Rightarrow> bool \<times> gpio_state \<Rightarrow> bool \<times> gpio_state" where
  "put_field k check upd payload acc =
    (case acc of (ok, s) \<Rightarrow>
       if \<not> ok \<or> ownprop payload k = JUndefined then acc
       else (case check (ownprop payload k) of None \<Rightarrow> (False, s) | Some n \<Rightarrow> (True, upd n s)))"

definition i2cBegin :: "jsrecord \<Rightarrow> gpio_state \<Rightarrow> reply" where
  "i2cBegin payload s =
    (case put_field ''frequency'' assertPositiveInt (\<lambda>n t. t\<lparr>gs_i2c := gs_i2c t\<lparr>ib_frequency := n\<rparr>\<rparr>) payload
        (put_field ''scl'' (checked_pin assertEsp32BusPin) (\<lambda>n t. t\<lparr>gs_i2c := gs_i2c t\<lparr>ib_scl := n\<rparr>\<rparr>) payload
        (put_field ''sda'' (checked_pin assertEsp32BusPin) (\<lambda>n t. t\<lparr>gs_i2c := gs_i2c t\<lparr>ib_sda := n\<rparr>\<rparr>) payload (True, s))) of
      (ok, s1) \<Rightarrow>
        if \<not> ok then (Inl ''INVALID_PIN'', s1)
        else
          (let b = gs_i2c s1 in
           (Inr [(''sda'', js_nat (ib_sda b)), (''scl'', js_nat (ib_scl b)), (''frequency'', js_nat (ib_frequency b))],
            s1\<lparr>gs_i2c := b\<lparr>ib_started := True\<rparr>\<rparr>)))"

definition i2cWrite :: "jsrecord \<Rightarrow> gpio_state \<Rightarrow> reply" where
  "i2cWrite payload s =
    (case (assertI2cAddress (ownprop payload ''address''), assertBusBytes (ownprop payload ''data'')) of
      (Some a, Some bytes) \<Rightarrow>
        (Inr [(''address'', js_nat a), (''bytesWritten'', js_nat (length bytes))],
         s\<lparr>gs_i2c := gs_i2c s\<lparr>ib_started := True, ib_memory := jset a bytes (ib_memory (gs_i2c s))\<rparr>\<rparr>)
    | _ \<Rightarrow> (Inl ''INVALID_PAYLOAD'', s))"

definition i2cRead :: "jsrecord \<Rightarrow> gpio_state \<Rightarrow> reply" where
  "i2cRead payload s =
    (case (assertI2cAddress (ownprop payload ''address''), assertBusLength (ownprop payload ''length'')) of
      (Some a, Some n) \<Rightarrow>
        (let stored = or_empty (jget (ib_memory (gs_i2c s)) a) in
         (Inr [(''address'', js_nat a),
               (''data'', JArr (map (\<lambda>i. js_nat (if i < length stored then stored ! i else 0)) [0..<n]))],
          s\<lparr>gs_i2c := gs_i2c s\<lparr>ib_started := True\<rparr>\<rparr>))
    | _ \<Rightarrow> (Inl ''INVALID_PAYLOAD'', s))"

definition i2cScan :: "gpio_state \<Rightarrow> reply" where
  "i2cScan s =
    (Inr [(''addresses'', JArr (map js_nat (sort (jkeys (ib_memory (gs_i2c s))))))],
     s\<lparr>gs_i2c := gs_i2c s\<lparr>ib_started := True\<rparr>\<rparr>)"

definition spiBegin :: "jsrecord \<Rightarrow> gpio_state \<Rightarrow> reply" where
  "spiBegin payload s =
    (case put_field ''frequency'' assertPositiveInt (\<lambda>n t. t\<lparr>gs_spi := gs_spi t\<lparr>sb_frequency := n\<rparr>\<rparr>) payload
        (put_field ''chipSelect'' (checked_pin assertEsp32BusPin) (\<lambda>n t. t\<lparr>gs_spi := gs_spi t\<lparr>sb_chipSelect := n\<rparr>\<rparr>) payload
        (put_field ''mosi'' (checked_pin assertEsp32BusPin) (\<lambda>n t. t\<lparr>gs_spi := gs_spi t\<lparr>sb_mosi := n\<rparr>\<rparr>) payload
        (put_field ''miso'' (checked_pin assertEsp32ReadPin) (\<lambda>n t. t\<lparr>gs_spi := gs_spi t\<lparr>sb_miso := n\<rparr>\<rparr>) payload
        (put_field ''sck'' (checked_pin assertEsp32BusPin) (\<lambda>n t. t\<lparr>gs_spi := gs_spi t\<lparr>sb_sck := n\<rparr>\<rparr>) payload (True, s))))) of
      (ok, s1) \<Rightarrow>
        if \<not> ok then (Inl ''INVALID_PIN'', s1)
        else
          (let b = gs_spi s1 in
           (Inr [(''sck'', js_nat (sb_sck b)), (''miso'', js_nat (sb_miso b)), (''mosi'', js_nat (sb_mosi b)),
                 (''chipSelect'', js_nat (sb_chipSelect b)), (''frequency'', js_nat (sb_frequency b))],
            s1\<lparr>gs_spi := b\<lparr>sb_started := True\<rparr>\<rparr>)))"

definition spiTransfer :: "jsrecord \<Rightarrow> gpio_state \<Rightarrow> reply" where
  "spiTransfer payload s =
    (case assertBusBytes (ownprop payload ''data'') of
      None \<Rightarrow> (Inl ''INVALID_PAYLOAD'', s)
    | Some bytes \<Rightarrow>
        (case (if ownprop payload ''chipSelect'' = JUndefined then Some (sb_chipSelect (gs_spi s))
               else checked_pin assertEsp32BusPin (ownprop payload ''chipSelect'')) of
          None \<Rightarrow> (Inl ''INVALID_PIN'', s)
        | Some cs \<Rightarrow>
            (Inr [(''chipSelect'', js_nat cs), (''data'', JArr (map js_nat bytes))],
             s\<lparr>gs_spi := gs_spi s\<lparr>sb_started := True, sb_lastTransfer := jset cs bytes (sb_lastTransfer (gs_spi s))\<rparr>\<rparr>)))"

subsection \<open>Requests\<close>

text \<open>\<open>assertValidity\<close>, \<open>assertArmed\<close>, \<open>touchWatchdog\<close>, then the handler.\<close>

definition actuate :: "int \<Rightarrow> (jsrecord \<Rightarrow> gpio_state \<Rightarrow> reply) \<Rightarrow> jsrecord \<Rightarrow> gpio_state \<Rightarrow> reply" where
  "actuate now f payload s =
    (case assertValidity payload of
      Some c \<Rightarrow> (Inl c, s)
    | None \<Rightarrow> (case assertArmed s of Some c \<Rightarrow> (Inl c, s) | None \<Rightarrow> f payload (touchWatchdog now s)))"

definition bridge_actions :: "int \<Rightarrow> (string \<times> (jsrecord \<Rightarrow> gpio_state \<Rightarrow> reply)) list" where
  "bridge_actions now =
    [(''sys.hello'', \<lambda>p s. (Inr esp32BridgeInfo, s)),
     (''sys.ping'', \<lambda>p s. (Inr [(''pong'', JBool True)], s)),
     (''sys.info'', \<lambda>p s. (Inr [(''uptimeMs'', js_nat 0), (''freeHeap'', js_nat 200000)], s)),
     (''sys.arm'', sysArm now),
     (''sys.disarm'', \<lambda>p. sysDisarm),
     (''watchdog.configure'', watchdogConfigure now),
     (''watchdog.kick'', watchdogKick now),
     (''gpio.configSafeState'', gpioConfigSafeState),
     (''gpio.write'', actuate now gpioWrite),
     (''gpio.batchWrite'', actuate now gpioBatchWrite),
     (''gpio.stopAll'', \<lambda>p. stop_action),
     (''gpio.read'', gpioRead),
     (''gpio.mode'', gpioMode),
     (''gpio.toggle'', actuate now gpioToggle),
     (''gpio.pulse'', actuate now gpioPulse),
     (''gpio.pwm'', actuate now gpioPwm),
     (''gpio.analogRead'', gpioAnalogRead),
     (''gpio.watch'', gpioWatch),
     (''gpio.unwatch'', gpioUnwatch),
     (''i2c.begin'', i2cBegin),
     (''i2c.write'', actuate now i2cWrite),
     (''i2c.read'', i2cRead),
     (''i2c.scan'', \<lambda>p. i2cScan),
     (''spi.begin'', spiBegin),
     (''spi.transfer'', actuate now spiTransfer),
     (''gpio.servo'', actuate now gpioServo),
     (''gpio.motor'', actuate now gpioMotor)]"

definition handleBridgeAction :: "int \<Rightarrow> string \<Rightarrow> jsrecord \<Rightarrow> gpio_state \<Rightarrow> reply" where
  "handleBridgeAction now action payload s =
    (case map_of (bridge_actions now) action of None \<Rightarrow> (Inl ''UNKNOWN_ACTION'', s) | Some f \<Rightarrow> f payload s)"

subsection \<open>What the pins do\<close>

text \<open>What a pin drives: nothing unless it is an output. \<open>outputs_of\<close> is all that reaches the world.\<close>

definition driven :: "gpio_state \<Rightarrow> nat \<Rightarrow> bool option" where
  "driven s pin = (if jget (gs_modes s) pin = Some ''output'' then Some (readPinLevel s pin) else None)"

definition outputs_of ::
  "gpio_state \<Rightarrow> (nat, bool) jmap \<times> (nat, string) jmap \<times> (nat, pwm_channel) jmap \<times> (nat, jsval) jmap \<times> (nat, jsnum \<times> nat option) jmap" where
  "outputs_of s = (gs_levels s, gs_modes s, gs_pwmChannels s, gs_servos s, gs_motors s)"

lemma driven_outputs: "outputs_of s = outputs_of t \<Longrightarrow> driven s pin = driven t pin"
  by (simp add: outputs_of_def driven_def readPinLevel_def split: option.split)

lemma outputs_neutral [simp]:
  "outputs_of (touchWatchdog now s) = outputs_of s" "outputs_of (set_timeout t s) = outputs_of s"
  "outputs_of (put_safe_config pin c s) = outputs_of s" "outputs_of (emit_event e p s) = outputs_of s"
  "outputs_of (s\<lparr>gs_deviceState := d\<rparr>) = outputs_of s" "outputs_of (s\<lparr>gs_tripReason := r\<rparr>) = outputs_of s"
  "outputs_of (s\<lparr>gs_watched := ws\<rparr>) = outputs_of s" "outputs_of (s\<lparr>gs_i2c := i\<rparr>) = outputs_of s"
  "outputs_of (s\<lparr>gs_spi := b\<rparr>) = outputs_of s"
  by (simp_all add: outputs_of_def touchWatchdog_def set_timeout_def put_safe_config_def emit_event_def Let_def)

text \<open>The mode and the level of one pin, and what a stop makes of them.\<close>

definition pin_view :: "gpio_state \<Rightarrow> nat \<Rightarrow> string option \<times> bool option" where
  "pin_view s pin = (jget (gs_modes s) pin, jget (gs_levels s) pin)"

definition stopped_view :: "string \<Rightarrow> string option \<times> bool option \<Rightarrow> string option \<times> bool option" where
  "stopped_view level v =
    (if level = ''high'' then (Some ''output'', Some True)
     else if level = ''high-z'' then (Some ''input'', snd v)
     else if level = ''hold'' then v else (Some ''output'', Some False))"

lemma stopped_view_idem [simp]: "stopped_view l (stopped_view l v) = stopped_view l v"
  by (simp add: stopped_view_def)

lemma driven_view: "driven s pin = (case pin_view s pin of (m, l) \<Rightarrow> if m = Some ''output'' then Some (l = Some True) else None)"
  by (auto simp: driven_def pin_view_def readPinLevel_def split: option.split)

lemma setPinLevel_fields [simp]:
  "gs_modes (setPinLevel pin v s) = gs_modes s" "gs_levels (setPinLevel pin v s) = jset pin v (gs_levels s)"
  "gs_safePinConfigs (setPinLevel pin v s) = gs_safePinConfigs s" "gs_pwmChannels (setPinLevel pin v s) = gs_pwmChannels s"
  "gs_servos (setPinLevel pin v s) = gs_servos s" "gs_motors (setPinLevel pin v s) = gs_motors s"
  "gs_deviceState (setPinLevel pin v s) = gs_deviceState s" "gs_watchdog (setPinLevel pin v s) = gs_watchdog s"
  by (simp_all add: setPinLevel_def emit_event_def Let_def)

lemma set_mode_fields [simp]:
  "gs_modes (set_mode pin m s) = jset pin m (gs_modes s)" "gs_levels (set_mode pin m s) = gs_levels s"
  "gs_safePinConfigs (set_mode pin m s) = gs_safePinConfigs s" "gs_pwmChannels (set_mode pin m s) = gs_pwmChannels s"
  "gs_servos (set_mode pin m s) = gs_servos s" "gs_motors (set_mode pin m s) = gs_motors s"
  "gs_deviceState (set_mode pin m s) = gs_deviceState s" "gs_watchdog (set_mode pin m s) = gs_watchdog s"
  by (simp_all add: set_mode_def)

lemma stop_pin_view:
  "pin_view (stop_pin p s) pin = (if pin = p then stopped_view (safe_level s p) (pin_view s p) else pin_view s pin)"
  unfolding stop_pin_def stopped_view_def drive_def Let_def by (simp add: pin_view_def update_conv')

lemma stop_pin_fields [simp]:
  "gs_safePinConfigs (stop_pin p s) = gs_safePinConfigs s" "gs_deviceState (stop_pin p s) = gs_deviceState s"
  "gs_watchdog (stop_pin p s) = gs_watchdog s"
  by (simp_all add: stop_pin_def drive_def Let_def)

lemma safe_level_stop [simp]: "safe_level (stop_pin p s) = safe_level s"
  by (simp add: safe_level_def fun_eq_iff)

lemma fold_stop_view:
  "pin_view (fold stop_pin ps s) pin =
    (if pin \<in> set ps then stopped_view (safe_level s pin) (pin_view s pin) else pin_view s pin)"
  by (induction ps arbitrary: s) (simp_all add: stop_pin_view)

lemma stopped_pins_outputs: "jget (gs_modes s) pin = Some ''output'' \<Longrightarrow> pin \<in> set (stopped_pins s)"
proof -
  assume "jget (gs_modes s) pin = Some ''output''"
  then have "(pin, ''output'') \<in> set (filter (\<lambda>(pin, mode). mode = ''output'') (gs_modes s))"
    by (simp add: map_of_SomeD)
  then have "pin \<in> set (map fst (filter (\<lambda>(pin, mode). mode = ''output'') (gs_modes s)))"
    using image_iff by fastforce
  then show ?thesis
    by (simp only: stopped_pins_def set_rev set_remdups set_append Un_iff simp_thms)
qed

lemma stopAll_view:
  "pin_view (snd (gpioStopAll s)) pin =
    (if pin \<in> set (stopped_pins s) then stopped_view (safe_level s pin) (pin_view s pin) else pin_view s pin)"
proof -
  have "pin_view (snd (gpioStopAll s)) pin = pin_view (fold stop_pin (stopped_pins s) s) pin"
    by (simp add: gpioStopAll_def pin_view_def)
  then show ?thesis
    by (simp add: fold_stop_view)
qed

lemma stopAll_driven:
  "driven (snd (gpioStopAll s)) pin \<in> {None, Some (safe_level s pin = ''high'')} \<or>
   safe_level s pin = ''hold'' \<and> driven (snd (gpioStopAll s)) pin = driven s pin"
proof (cases "pin \<in> set (stopped_pins s)")
  case True
  then show ?thesis
    by (auto simp: driven_view stopAll_view stopped_view_def split: prod.splits)
next
  case False
  then have "jget (gs_modes s) pin \<noteq> Some ''output''"
    using stopped_pins_outputs by blast
  with False show ?thesis
    by (simp add: driven_view stopAll_view) (simp add: pin_view_def)
qed

lemma safe_level_state [simp]: "safe_level (s\<lparr>gs_deviceState := d, gs_tripReason := r\<rparr>) = safe_level s"
  "driven (s\<lparr>gs_deviceState := d, gs_tripReason := r\<rparr>) = driven s"
  by (simp_all add: safe_level_def driven_def readPinLevel_def fun_eq_iff split: option.split)

lemma stopAll_idle:
  "gs_pwmChannels (snd (gpioStopAll s)) = []" "gs_servos (snd (gpioStopAll s)) = []" "gs_motors (snd (gpioStopAll s)) = []"
  by (simp_all add: gpioStopAll_def)

lemma trip_outputs: "outputs_of (tripWatchdog reason s) =
    outputs_of (snd (gpioStopAll (s\<lparr>gs_deviceState := LTripped, gs_tripReason := Some reason\<rparr>)))"
  by (simp add: tripWatchdog_def case_prod_unfold)

lemma disarm_outputs: "outputs_of (snd (sysDisarm s)) =
    outputs_of (snd (gpioStopAll (s\<lparr>gs_deviceState := LDisarmed, gs_tripReason := None\<rparr>)))"
  by (simp add: sysDisarm_def)

lemma stop_action_outputs: "outputs_of (snd (stop_action s)) = outputs_of (snd (gpioStopAll s))"
  by (simp add: stop_action_def case_prod_unfold)

subsection \<open>Requests that fail, and requests to a board that is not armed\<close>

lemma put_field_outputs:
  "(\<And>n t. outputs_of (upd n t) = outputs_of t) \<Longrightarrow> outputs_of (snd (put_field k check upd p acc)) = outputs_of (snd acc)"
  by (auto simp: put_field_def split: prod.split option.split)

lemma read_actions_outputs:
  "outputs_of (snd (gpioRead p s)) = outputs_of s" "outputs_of (snd (gpioAnalogRead p s)) = outputs_of s"
  "outputs_of (snd (gpioWatch p s)) = outputs_of s" "outputs_of (snd (gpioUnwatch p s)) = outputs_of s"
  "outputs_of (snd (gpioConfigSafeState p s)) = outputs_of s"
  "outputs_of (snd (watchdogConfigure now p s)) = outputs_of s" "outputs_of (snd (watchdogKick now p s)) = outputs_of s"
  by (simp_all add: gpioRead_def gpioAnalogRead_def gpioWatch_def gpioUnwatch_def gpioConfigSafeState_def
      watchdogConfigure_def watchdogKick_def split: option.split)

lemma bus_actions_outputs:
  "outputs_of (snd (i2cBegin p s)) = outputs_of s" "outputs_of (snd (i2cWrite p s)) = outputs_of s"
  "outputs_of (snd (i2cRead p s)) = outputs_of s" "outputs_of (snd (i2cScan s)) = outputs_of s"
  "outputs_of (snd (spiBegin p s)) = outputs_of s" "outputs_of (snd (spiTransfer p s)) = outputs_of s"
  by (simp_all add: i2cBegin_def i2cWrite_def i2cRead_def i2cScan_def spiBegin_def spiTransfer_def case_prod_unfold Let_def
      put_field_outputs split: option.split)

lemma arm_outputs: "outputs_of (snd (sysArm now p s)) = outputs_of s"
  by (simp add: sysArm_def arm_state_def Let_def split: option.split)

text \<open>The handlers that drive the pins leave the state as it is when they fail.\<close>

lemma drive_actions_fail:
  "fst (gpioWrite p s) = Inl c \<Longrightarrow> snd (gpioWrite p s) = s"
  "fst (gpioBatchWrite p s) = Inl c \<Longrightarrow> snd (gpioBatchWrite p s) = s"
  "fst (gpioMode p s) = Inl c \<Longrightarrow> snd (gpioMode p s) = s"
  "fst (gpioToggle p s) = Inl c \<Longrightarrow> snd (gpioToggle p s) = s"
  "fst (gpioPulse p s) = Inl c \<Longrightarrow> snd (gpioPulse p s) = s"
  "fst (gpioPwm p s) = Inl c \<Longrightarrow> snd (gpioPwm p s) = s"
  "fst (gpioServo p s) = Inl c \<Longrightarrow> snd (gpioServo p s) = s"
  "fst (gpioMotor p s) = Inl c \<Longrightarrow> snd (gpioMotor p s) = s"
  by (auto simp: gpioWrite_def gpioBatchWrite_def gpioMode_def gpioToggle_def gpioPulse_def gpioPwm_def gpioServo_def
      gpioMotor_def Let_def split: option.splits jsval.splits if_splits sum.splits prod.splits)

lemma actuate_fail:
  assumes "\<And>t. fst (f p t) = Inl c \<Longrightarrow> snd (f p t) = t" and "fst (actuate now f p s) = Inl c"
  shows "outputs_of (snd (actuate now f p s)) = outputs_of s"
  using assms by (auto simp: actuate_def split: option.splits)

lemmas actuated_fail = actuate_fail[OF drive_actions_fail(1)] actuate_fail[OF drive_actions_fail(2)]
  actuate_fail[OF drive_actions_fail(4)] actuate_fail[OF drive_actions_fail(5)] actuate_fail[OF drive_actions_fail(6)]
  actuate_fail[OF drive_actions_fail(7)] actuate_fail[OF drive_actions_fail(8)]

lemma actuate_keeps:
  "(\<And>t. outputs_of (snd (f p t)) = outputs_of t) \<Longrightarrow> outputs_of (snd (actuate now f p s)) = outputs_of s"
  by (simp add: actuate_def split: option.split)

lemma actuate_unarmed: "gs_deviceState s \<noteq> LArmed \<Longrightarrow> snd (actuate now f p s) = s"
  by (cases "gs_deviceState s") (auto simp: actuate_def assertArmed_def split: option.split)

lemma bridge_cases:
  assumes "\<And>f. (action, f) \<in> set (bridge_actions now) \<Longrightarrow> P (f payload s)" and "P (Inl ''UNKNOWN_ACTION'', s)"
  shows "P (handleBridgeAction now action payload s)"
  using assms by (auto simp: handleBridgeAction_def dest: map_of_SomeD split: option.split)

subsection \<open>The pins a state names\<close>

definition usable_pins :: "nat set" where
  "usable_pins = {p. assertEsp32ReadPin p \<noteq> None}"

definition touched :: "gpio_state \<Rightarrow> nat set" where
  "touched s = fst ` set (gs_modes s) \<union> pc_pin ` snd ` set (gs_pwmChannels s) \<union> fst ` set (gs_servos s) \<union>
    fst ` set (gs_motors s) \<union> {d. \<exists>k v. (k, v, Some d) \<in> set (gs_motors s)} \<union> fst ` set (gs_safePinConfigs s)"

lemma jset_subset: "set (jset k v m) \<subseteq> insert (k, v) (set m)"
  by (induction m) auto

lemma touched_neutral [simp]:
  "touched (touchWatchdog now s) = touched s" "touched (set_timeout t s) = touched s"
  "touched (setPinLevel pin v s) = touched s" "touched (emit_event e p s) = touched s"
  "touched (s\<lparr>gs_deviceState := d\<rparr>) = touched s" "touched (s\<lparr>gs_tripReason := r\<rparr>) = touched s"
  "touched (s\<lparr>gs_watched := ws\<rparr>) = touched s" "touched (s\<lparr>gs_i2c := i\<rparr>) = touched s"
  "touched (s\<lparr>gs_spi := b\<rparr>) = touched s" "touched (s\<lparr>gs_levels := ls\<rparr>) = touched s"
  by (simp_all add: touched_def touchWatchdog_def set_timeout_def emit_event_def Let_def)

lemma touched_set [simp]:
  "touched (set_mode pin m s) = insert pin (touched s)" "touched (put_safe_config pin c s) = insert pin (touched s)"
  "gs_servos t = gs_servos s \<Longrightarrow> touched (t\<lparr>gs_servos := jset pin a (gs_servos s)\<rparr>) = insert pin (touched t)"
  by (simp_all add: touched_def set_mode_def put_safe_config_def dom_update)

lemma touched_drive [simp]: "touched (drive pin v s) = insert pin (touched s)"
  by (simp add: drive_def)

lemma touched_default [simp]: "touched (default_level m pin s) = touched s"
  by (simp add: default_level_def)

lemma touched_pwm:
  assumes "gs_pwmChannels t = gs_pwmChannels s"
  shows "touched (t\<lparr>gs_pwmChannels := jset k c (gs_pwmChannels s)\<rparr>) \<subseteq> insert (pc_pin c) (touched t)"
proof -
  have "pc_pin ` snd ` set (jset k c (gs_pwmChannels s)) \<subseteq> pc_pin ` snd ` insert (k, c) (set (gs_pwmChannels s))"
    using jset_subset by (intro image_mono)
  then show ?thesis
    unfolding touched_def by (simp add: assms) blast
qed

lemma touched_motor:
  assumes "gs_motors t = gs_motors s"
  shows "touched (t\<lparr>gs_motors := jset k (v, d) (gs_motors s)\<rparr>) \<subseteq> insert k (touched t) \<union> set_option d"
proof -
  have "(k', v', Some d') \<in> set (jset k (v, d) (gs_motors s)) \<Longrightarrow> d' \<in> set_option d \<or> (k', v', Some d') \<in> set (gs_motors s)"
    for k' v' d' using jset_subset[of k "(v, d)" "gs_motors s"] by auto
  then show ?thesis
    unfolding touched_def by (simp add: assms dom_update) blast
qed

lemma touched_direction: "touched (set_direction d v s) = touched s \<union> set_option d"
  by (auto simp: set_direction_def split: option.split)

lemma touched_writes: "touched (fold (\<lambda>(pin, v). drive pin v) ws s) = touched s \<union> fst ` set ws"
  by (induction ws arbitrary: s) auto

lemma touched_stop_pin: "touched (stop_pin p s) \<subseteq> insert p (touched s)"
  by (auto simp: stop_pin_def Let_def)

lemma touched_stop_fold: "touched (fold stop_pin ps s) \<subseteq> touched s \<union> set ps"
  by (induction ps arbitrary: s) (use touched_stop_pin in fastforce)+

lemma fst_filter: "set (map fst (filter P ms)) \<subseteq> fst ` set ms"
  by auto

lemma motor_dirs: "set (List.map_filter snd (jvalues ms)) = {d. \<exists>k v. (k, v, Some d) \<in> set ms}"
proof (induction ms)
  case (Cons m ms)
  obtain k v d where "m = (k, v, d)"
    by (cases m)
  with Cons show ?case
    by (cases d) (auto simp: List.map_filter_simps)
qed (simp add: List.map_filter_simps)

lemma stopped_pins_touched: "set (stopped_pins s) \<subseteq> touched s"
  unfolding stopped_pins_def touched_def set_rev set_remdups set_append motor_dirs
  using fst_filter[of "\<lambda>(pin, mode). mode = ''output''" "gs_modes s"] by (simp add: image_comp le_supI1 le_supI2)

lemma touched_stopAll: "touched (snd (gpioStopAll s)) \<subseteq> touched s"
proof -
  have "touched (snd (gpioStopAll s)) \<subseteq> touched (fold stop_pin (stopped_pins s) s)"
    by (auto simp: gpioStopAll_def touched_def)
  then show ?thesis
    using touched_stop_fold[of "stopped_pins s" s] stopped_pins_touched[of s] by blast
qed

lemma checked_pin_usable:
  "checked_pin assertEsp32WritePin v = Some p \<Longrightarrow> p \<in> usable_pins" "checked_pin assertEsp32PwmPin v = Some p \<Longrightarrow> p \<in> usable_pins"
  "assertEsp32WritePin p \<noteq> None \<Longrightarrow> p \<in> usable_pins" "assertEsp32ReadPin p \<noteq> None \<Longrightarrow> p \<in> usable_pins"
  by (auto simp: checked_pin_def usable_pins_def assertEsp32PwmPin_def assertEsp32WritePin_def assertEsp32ReadPin_def
      split: Option.bind_splits if_splits)

lemma batch_writes_usable: "batch_writes es = Inr ws \<Longrightarrow> fst ` set ws \<subseteq> usable_pins"
proof (induction es arbitrary: ws)
  case (Cons e es)
  then obtain w ws' where "batch_write e = Inr w" "batch_writes es = Inr ws'" "ws = w # ws'"
    by (auto simp: then_do_Inr)
  with Cons.IH show ?case
    by (auto simp: batch_write_def checked_pin_usable split: jsval.splits option.splits if_splits)
qed simp

definition within_pins :: "gpio_state \<Rightarrow> reply \<Rightarrow> bool" where
  "within_pins s r \<longleftrightarrow> touched (snd r) \<subseteq> touched s \<union> usable_pins"

lemma put_field_pins:
  "(\<And>n t. touched (upd n t) = touched t) \<Longrightarrow> touched (snd (put_field k check upd p acc)) = touched (snd acc)"
  by (auto simp: put_field_def split: prod.split option.split)

lemma read_actions_pins:
  "within_pins s (gpioRead p s)" "within_pins s (gpioAnalogRead p s)" "within_pins s (gpioWatch p s)" "within_pins s (gpioUnwatch p s)"
  "within_pins s (watchdogConfigure now p s)" "within_pins s (watchdogKick now p s)" "within_pins s (sysArm now p s)"
  by (simp_all add: within_pins_def gpioRead_def gpioAnalogRead_def gpioWatch_def gpioUnwatch_def watchdogConfigure_def
      watchdogKick_def sysArm_def arm_state_def Let_def split: option.split)

lemma bus_actions_pins:
  "within_pins s (i2cBegin p s)" "within_pins s (i2cWrite p s)" "within_pins s (i2cRead p s)" "within_pins s (i2cScan s)"
  "within_pins s (spiBegin p s)" "within_pins s (spiTransfer p s)"
  by (simp_all add: within_pins_def i2cBegin_def i2cWrite_def i2cRead_def i2cScan_def spiBegin_def spiTransfer_def
      case_prod_unfold Let_def put_field_pins split: option.split)

lemma stop_actions_pins: "within_pins s (stop_action s)" "within_pins s (sysDisarm s)"
  using touched_stopAll[of s] touched_stopAll[of "s\<lparr>gs_deviceState := LDisarmed, gs_tripReason := None\<rparr>"]
  by (auto simp: within_pins_def stop_action_def sysDisarm_def case_prod_unfold)

lemma drive_actions_pins:
  "within_pins s (gpioWrite p s)" "within_pins s (gpioBatchWrite p s)" "within_pins s (gpioToggle p s)"
  "within_pins s (gpioPulse p s)" "within_pins s (gpioServo p s)" "within_pins s (gpioConfigSafeState p s)"
  by (auto simp: within_pins_def gpioWrite_def gpioBatchWrite_def gpioToggle_def gpioPulse_def gpioServo_def
      gpioConfigSafeState_def Let_def touched_writes checked_pin_usable
      dest: batch_writes_usable split: option.split jsval.split bool.split sum.split)

lemma mode_pins: "within_pins s (gpioMode p s)"
  by (auto simp: within_pins_def gpioMode_def Let_def checked_pin_usable split: option.split if_splits)

lemma touched_pwm_step:
  "touched (set_mode pin m s\<lparr>gs_pwmChannels := jset k \<lparr>pc_pin = pin, pc_duty = d, pc_frequency = f\<rparr> (gs_pwmChannels s)\<rparr>) \<subseteq> insert pin (touched s)"
  using touched_pwm[of "set_mode pin m s" s k "\<lparr>pc_pin = pin, pc_duty = d, pc_frequency = f\<rparr>"] by simp

lemma pwm_pins: "within_pins s (gpioPwm p s)"
  unfolding gpioPwm_def
  by (auto simp: within_pins_def assertEsp32PwmPin_def checked_pin_usable
      dest: subsetD[OF touched_pwm_step] split: option.split)

lemma motor_pins_usable:
  "motor_pins p = Some (pwmPin, dirPin) \<Longrightarrow> pwmPin \<in> usable_pins \<and> set_option dirPin \<subseteq> usable_pins"
  by (auto simp: motor_pins_def dest: checked_pin_usable split: Option.bind_splits if_splits)

lemma touched_motor_step:
  fixes pwmPin dirPin speed m s
  defines "s1 \<equiv> set_mode pwmPin m (set_direction dirPin speed s)"
  shows "touched (s1\<lparr>gs_motors := jset pwmPin (speed, dirPin) (gs_motors s1),
      gs_pwmChannels := jset k \<lparr>pc_pin = pwmPin, pc_duty = d, pc_frequency = f\<rparr> (gs_pwmChannels s1)\<rparr>)
    \<subseteq> insert pwmPin (touched s \<union> set_option dirPin)"
proof -
  let ?s2 = "s1\<lparr>gs_motors := jset pwmPin (speed, dirPin) (gs_motors s1)\<rparr>" and ?c = "\<lparr>pc_pin = pwmPin, pc_duty = d, pc_frequency = f\<rparr>"
  have "touched (?s2\<lparr>gs_pwmChannels := jset k ?c (gs_pwmChannels s1)\<rparr>) \<subseteq> insert (pc_pin ?c) (touched ?s2)"
    by (rule touched_pwm) simp
  moreover have "touched ?s2 \<subseteq> insert pwmPin (touched s1) \<union> set_option dirPin"
    by (rule touched_motor) simp
  ultimately show ?thesis
    unfolding s1_def by (auto simp: touched_direction)
qed

lemmas touched_motor_steps = touched_motor_step[unfolded set_mode_fields]

lemma motor_drive_pins: "within_pins s (gpioMotor p s)"
  unfolding gpioMotor_def
  by (auto simp: within_pins_def Let_def dest: subsetD[OF touched_motor_steps] motor_pins_usable split: option.split prod.split)

subsection \<open>Histories\<close>

text \<open>What happens to the firmware: a request, or the watchdog.\<close>

datatype bridge_event = Action int string jsrecord | Trip string

fun bridge_step :: "bridge_event \<Rightarrow> gpio_state \<Rightarrow> gpio_state" where
  "bridge_step (Action now action payload) s = snd (handleBridgeAction now action payload s)"
| "bridge_step (Trip reason) s = tripWatchdog reason s"

definition bridge_run :: "bridge_event list \<Rightarrow> gpio_state" where
  "bridge_run evs = fold bridge_step evs createGpioState"

lemma trip_pins: "touched (tripWatchdog reason s) \<subseteq> touched s"
  using touched_stopAll[of "s\<lparr>gs_deviceState := LTripped, gs_tripReason := Some reason\<rparr>"]
  by (simp add: tripWatchdog_def case_prod_unfold)

lemma actuate_pins:
  assumes "\<And>t. within_pins t (f p t)"
  shows "within_pins s (actuate now f p s)"
  using assms[of "touchWatchdog now s"] by (simp add: actuate_def within_pins_def split: option.split)

lemmas all_actions_pins = read_actions_pins bus_actions_pins stop_actions_pins drive_actions_pins mode_pins pwm_pins
  motor_drive_pins actuate_pins

lemma action_pins: "within_pins s (handleBridgeAction now action payload s)"
proof (rule bridge_cases)
  have "within_pins s (Inr r, s)" for r
    by (simp add: within_pins_def)
  then show "(action, f) \<in> set (bridge_actions now) \<Longrightarrow> within_pins s (f payload s)" for f
    by (auto simp: bridge_actions_def all_actions_pins)
qed (simp add: within_pins_def)

lemma run_pins: "touched (bridge_run evs) \<subseteq> usable_pins"
proof -
  have "touched s \<subseteq> usable_pins \<Longrightarrow> touched (bridge_step ev s) \<subseteq> usable_pins" for ev s
    using action_pins[of s] trip_pins by (cases ev) (fastforce simp: within_pins_def)+
  then have "touched s \<subseteq> usable_pins \<Longrightarrow> touched (fold bridge_step evs s) \<subseteq> usable_pins" for s
    by (induction evs arbitrary: s) simp_all
  then show ?thesis
    by (simp add: bridge_run_def touched_def createGpioState_def)
qed

lemma driven_touched: "driven s pin \<noteq> None \<Longrightarrow> pin \<in> touched s"
  by (auto simp: driven_def touched_def dest: map_of_SomeD split: if_splits intro!: rev_image_eqI)

subsection \<open>The arming state and the timeout\<close>

definition wd_view :: "gpio_state \<Rightarrow> lifecycle \<times> bool \<times> nat" where
  "wd_view s = (gs_deviceState s, wd_enabled (gs_watchdog s), wd_timeoutMs (gs_watchdog s))"

lemma wd_neutral [simp]:
  "wd_view (touchWatchdog now s) = wd_view s" "wd_view (put_safe_config pin c s) = wd_view s"
  "wd_view (emit_event e p s) = wd_view s" "wd_view (setPinLevel pin v s) = wd_view s" "wd_view (set_mode pin m s) = wd_view s"
  "wd_view (s\<lparr>gs_watched := ws\<rparr>) = wd_view s" "wd_view (s\<lparr>gs_i2c := i\<rparr>) = wd_view s" "wd_view (s\<lparr>gs_spi := b\<rparr>) = wd_view s"
  "wd_view (s\<lparr>gs_levels := ls\<rparr>) = wd_view s" "wd_view (s\<lparr>gs_pwmChannels := ps\<rparr>) = wd_view s"
  "wd_view (s\<lparr>gs_servos := sv\<rparr>) = wd_view s" "wd_view (s\<lparr>gs_motors := ms\<rparr>) = wd_view s"
  "wd_view (s\<lparr>gs_emitted := es\<rparr>) = wd_view s"
  by (simp_all add: wd_view_def touchWatchdog_def put_safe_config_def emit_event_def Let_def)

lemma wd_drive [simp]: "wd_view (drive pin v s) = wd_view s" "wd_view (default_level m pin s) = wd_view s"
  "wd_view (set_direction d speed s) = wd_view s" "wd_view (stop_pin p s) = wd_view s"
  by (simp_all add: drive_def default_level_def set_direction_def stop_pin_def Let_def split: option.split)

lemma fold_same: "(\<And>x t. g (f x t) = g t) \<Longrightarrow> g (fold f xs s) = g s"
  by (induction xs arbitrary: s) auto

lemma wd_folds [simp]: "wd_view (fold (\<lambda>(pin, v). drive pin v) ws s) = wd_view s" "wd_view (fold stop_pin ps s) = wd_view s"
  by (rule fold_same, simp split: prod.split)+

lemma wd_stopAll [simp]: "wd_view (snd (gpioStopAll s)) = wd_view s"
  by (simp add: gpioStopAll_def)

lemma put_field_wd:
  "(\<And>n t. wd_view (upd n t) = wd_view t) \<Longrightarrow> wd_view (snd (put_field k check upd p acc)) = wd_view (snd acc)"
  by (auto simp: put_field_def split: prod.split option.split)

lemma read_actions_wd:
  "wd_view (snd (gpioRead p s)) = wd_view s" "wd_view (snd (gpioAnalogRead p s)) = wd_view s"
  "wd_view (snd (gpioWatch p s)) = wd_view s" "wd_view (snd (gpioUnwatch p s)) = wd_view s"
  "wd_view (snd (gpioConfigSafeState p s)) = wd_view s" "wd_view (snd (watchdogKick now p s)) = wd_view s"
  "wd_view (snd (stop_action s)) = wd_view s" "wd_view (snd (gpioMode p s)) = wd_view s"
  by (simp_all add: gpioRead_def gpioAnalogRead_def gpioWatch_def gpioUnwatch_def gpioConfigSafeState_def Let_def
      watchdogKick_def stop_action_def case_prod_unfold gpioMode_def split: option.split)

lemma bus_actions_wd:
  "wd_view (snd (i2cBegin p s)) = wd_view s" "wd_view (snd (i2cWrite p s)) = wd_view s"
  "wd_view (snd (i2cRead p s)) = wd_view s" "wd_view (snd (i2cScan s)) = wd_view s"
  "wd_view (snd (spiBegin p s)) = wd_view s" "wd_view (snd (spiTransfer p s)) = wd_view s"
  by (simp_all add: i2cBegin_def i2cWrite_def i2cRead_def i2cScan_def spiBegin_def spiTransfer_def case_prod_unfold Let_def
      put_field_wd split: option.split)

lemma drive_actions_wd:
  "wd_view (snd (gpioWrite p s)) = wd_view s" "wd_view (snd (gpioBatchWrite p s)) = wd_view s"
  "wd_view (snd (gpioToggle p s)) = wd_view s" "wd_view (snd (gpioPulse p s)) = wd_view s"
  "wd_view (snd (gpioPwm p s)) = wd_view s" "wd_view (snd (gpioServo p s)) = wd_view s"
  "wd_view (snd (gpioMotor p s)) = wd_view s"
  by (simp_all add: gpioWrite_def gpioBatchWrite_def gpioToggle_def gpioPulse_def gpioPwm_def gpioServo_def gpioMotor_def
      Let_def split: option.split jsval.split bool.split sum.split prod.split)

lemma actuate_wd: "(\<And>t. wd_view (snd (f p t)) = wd_view t) \<Longrightarrow> wd_view (snd (actuate now f p s)) = wd_view s"
  by (simp add: actuate_def split: option.split)

lemmas all_actions_wd = read_actions_wd bus_actions_wd drive_actions_wd actuate_wd

abbreviation "state_actions \<equiv> {''sys.arm'', ''sys.disarm'', ''watchdog.configure''}"

lemma action_wd:
  assumes "action \<notin> state_actions"
  shows "wd_view (snd (handleBridgeAction now action payload s)) = wd_view s"
proof (rule bridge_cases)
  have "list_all (\<lambda>(a, f). wd_view (snd (f payload s)) = wd_view s \<or> a \<in> state_actions) (bridge_actions now)"
    by (simp add: bridge_actions_def all_actions_wd)
  then show "wd_view (snd (f payload s)) = wd_view s" if "(action, f) \<in> set (bridge_actions now)" for f
    using that assms by (fastforce simp only: list_all_iff)
qed simp

lemma arm_wd: "fst (sysArm now p s) = Inl c \<Longrightarrow> snd (sysArm now p s) = s"
  "fst (watchdogConfigure now p s) = Inl c \<Longrightarrow> snd (watchdogConfigure now p s) = s"
  by (auto simp: sysArm_def arm_state_def watchdogConfigure_def Let_def split: if_splits option.splits)

lemma bridge_dispatch [simp]:
  "handleBridgeAction now ''sys.arm'' p s = sysArm now p s" "handleBridgeAction now ''sys.disarm'' p s = sysDisarm s"
  "handleBridgeAction now ''watchdog.configure'' p s = watchdogConfigure now p s"
  "handleBridgeAction now ''gpio.pulse'' p s = actuate now gpioPulse p s"
  "handleBridgeAction now ''gpio.stopAll'' p s = stop_action s"
  by (simp_all add: handleBridgeAction_def bridge_actions_def)

lemma failed_wd:
  assumes "fst (handleBridgeAction now action payload s) = Inl c"
  shows "wd_view (snd (handleBridgeAction now action payload s)) = wd_view s"
proof (cases "action \<in> state_actions")
  case True
  with assms show ?thesis
    by (auto simp: arm_wd sysDisarm_def)
qed (rule action_wd)

text \<open>What a request can make of the arming state.\<close>

lemma action_state:
  "gs_deviceState (snd (handleBridgeAction now action payload s)) =
    (if action = ''sys.disarm'' then LDisarmed
     else if action = ''sys.arm'' \<and> (\<exists>r. fst (handleBridgeAction now action payload s) = Inr r) then LArmed
     else gs_deviceState s)"
proof -
  have touch: "gs_deviceState (touchWatchdog now t) = gs_deviceState t" for t
    by (simp add: touchWatchdog_def Let_def)
  have stop: "gs_deviceState (snd (gpioStopAll t)) = gs_deviceState t" for t
    using wd_stopAll[of t] by (simp add: wd_view_def)
  consider "action = ''sys.arm''" | "action = ''sys.disarm''" | "action = ''watchdog.configure''" | "action \<notin> state_actions"
    by blast
  then show ?thesis
  proof cases
    case 1
    show ?thesis
      unfolding 1 by (simp add: sysArm_def arm_state_def touch Let_def split: option.split)
  next
    case 2
    show ?thesis
      unfolding 2 by (simp add: sysDisarm_def stop)
  next
    case 3
    show ?thesis
      unfolding 3 by (simp add: watchdogConfigure_def touch set_timeout_def split: option.split)
  next
    case 4
    with action_wd[of action now payload s] show ?thesis
      by (simp add: wd_view_def)
  qed
qed

subsection \<open>Properties\<close>

text \<open>A stop makes every pin safe. After \<open>gpio.stopAll\<close>, \<open>sys.disarm\<close> or a trip of the watchdog, in any
  state, a pin drives nothing or its configured safe level (low when none is configured), unless it is configured
  to hold, when it drives what it drove; and no PWM channel, servo or motor is left.\<close>

theorem stop_makes_safe:
  "list_all (\<lambda>s'. (driven s' pin \<in> {None, Some (safe_level s pin = ''high'')} \<or>
      safe_level s pin = ''hold'' \<and> driven s' pin = driven s pin) \<and>
      gs_pwmChannels s' = [] \<and> gs_servos s' = [] \<and> gs_motors s' = [])
    [snd (stop_action s), snd (sysDisarm s), tripWatchdog reason s]"
proof -
  have safe: "(driven s' pin \<in> {None, Some (safe_level s pin = ''high'')} \<or>
      safe_level s pin = ''hold'' \<and> driven s' pin = driven s pin) \<and>
      gs_pwmChannels s' = [] \<and> gs_servos s' = [] \<and> gs_motors s' = []"
    if o: "outputs_of s' = outputs_of (snd (gpioStopAll t))" and t: "t = s\<lparr>gs_deviceState := d, gs_tripReason := r\<rparr>" for s' t d r
  proof -
    have "gs_pwmChannels s' = [] \<and> gs_servos s' = [] \<and> gs_motors s' = []"
      using o by (simp add: outputs_of_def stopAll_idle)
    then show ?thesis
      using stopAll_driven[of t pin] driven_outputs[OF o, of pin] unfolding t by simp
  qed
  have "s = s\<lparr>gs_deviceState := gs_deviceState s, gs_tripReason := gs_tripReason s\<rparr>"
    by simp
  from safe[OF stop_action_outputs this] safe[OF disarm_outputs refl] safe[OF trip_outputs refl] show ?thesis
    by simp
qed

lemma unarmed_outputs:
  assumes "gs_deviceState s \<noteq> LArmed" and "action \<notin> {''gpio.stopAll'', ''sys.disarm'', ''gpio.mode''}"
  shows "outputs_of (snd (handleBridgeAction now action payload s)) = outputs_of s"
proof (rule bridge_cases)
  have "list_all (\<lambda>(a, f). outputs_of (snd (f payload s)) = outputs_of s \<or> a \<in> {''gpio.stopAll'', ''sys.disarm'', ''gpio.mode''})
      (bridge_actions now)"
    by (simp add: bridge_actions_def read_actions_outputs bus_actions_outputs arm_outputs actuate_unarmed[OF assms(1)])
  then show "outputs_of (snd (f payload s)) = outputs_of s" if "(action, f) \<in> set (bridge_actions now)" for f
    using that assms(2) by (fastforce simp only: list_all_iff)
qed simp

text \<open>A board that is not armed is not moved by a command. Whatever a request asks of a board that is disarmed or
  tripped, its pins drive what they drove, and its PWM channels, servos and motors stay, unless the request
  stops or disarms the board, or sets the mode of a pin.\<close>

theorem unarmed_requests_drive_nothing:
  assumes "gs_deviceState s \<noteq> LArmed" and "action \<notin> {''gpio.stopAll'', ''sys.disarm'', ''gpio.mode''}"
  shows "let s' = snd (handleBridgeAction now action payload s) in
    driven s' = driven s \<and> gs_pwmChannels s' = gs_pwmChannels s \<and> gs_servos s' = gs_servos s \<and> gs_motors s' = gs_motors s"
proof -
  note o = unarmed_outputs[OF assms, of now payload]
  then have "driven (snd (handleBridgeAction now action payload s)) = driven s"
    by (intro ext driven_outputs)
  with o show ?thesis
    by (simp add: outputs_of_def Let_def)
qed

theorem unarmed_requests_drive_nothing_witness:
  "driven (snd (handleBridgeAction 0 ''gpio.write'' [(''pin'', js_nat 4), (''value'', JBool True)] createGpioState)) = driven createGpioState"
  using unarmed_requests_drive_nothing[of createGpioState "''gpio.write''" 0 "[(''pin'', js_nat 4), (''value'', JBool True)]"]
  by (simp add: createGpioState_def Let_def)

text \<open>C22: A request that fails drives nothing. If a request is answered by an error, every level and mode, PWM
  channel, servo and motor is as it was; a batch of writes is done as a whole or not at all.\<close>

theorem failed_requests_drive_nothing:
  assumes "fst (handleBridgeAction now action payload s) = Inl code"
  shows "outputs_of (snd (handleBridgeAction now action payload s)) = outputs_of s"
proof -
  have "fst (handleBridgeAction now action payload s) = Inl code \<longrightarrow> outputs_of (snd (handleBridgeAction now action payload s)) = outputs_of s"
  proof (rule bridge_cases)
    show "fst (f payload s) = Inl code \<longrightarrow> outputs_of (snd (f payload s)) = outputs_of s" if "(action, f) \<in> set (bridge_actions now)" for f
      using that by (auto simp: bridge_actions_def read_actions_outputs bus_actions_outputs arm_outputs drive_actions_fail
          sysDisarm_def stop_action_def case_prod_unfold actuated_fail actuate_keeps)
  qed simp
  with assms show ?thesis
    by simp
qed

theorem failed_requests_drive_nothing_witness:
  "outputs_of (snd (handleBridgeAction 0 ''gpio.write'' [(''pin'', js_nat 6), (''value'', JBool True)]
      (createGpioState\<lparr>gs_deviceState := LArmed\<rparr>))) = outputs_of createGpioState"
proof -
  have "fst (handleBridgeAction 0 ''gpio.write'' [(''pin'', js_nat 6), (''value'', JBool True)]
      (createGpioState\<lparr>gs_deviceState := LArmed\<rparr>)) = Inl ''INVALID_PIN''"
    by (simp add: handleBridgeAction_def bridge_actions_def actuate_def assertValidity_def assertArmed_def gpioWrite_def
        assertGpioPin_def int_between_def js_nat_def assertEsp32WritePin_def isEsp32FlashPin_def)
  from failed_requests_drive_nothing[OF this] show ?thesis
    by simp
qed

text \<open>The flash, the console and the boot strap are never driven. In every state the firmware can reach, a pin
  that drives something is a pin of the chip that is not wired to the flash memory, the console or the strap.\<close>

theorem only_usable_pins_driven:
  assumes "driven (bridge_run evs) pin \<noteq> None"
  shows "pin \<le> 39 \<and> \<not> isEsp32FlashPin pin \<and> \<not> isEsp32Uart0Pin pin \<and> \<not> isEsp32StrapPin pin"
proof -
  have "pin \<in> usable_pins"
    using driven_touched[OF assms] run_pins by blast
  then show ?thesis
    by (auto simp: usable_pins_def assertEsp32ReadPin_def split: if_splits)
qed

abbreviation "wit_mode pin mode rest \<equiv>
  Action 0 ''gpio.mode'' ([(''pin'', js_nat pin), (''mode'', JStr mode)] @ rest)"

lemmas mode_run_simps = bridge_run_def handleBridgeAction_def bridge_actions_def gpioMode_def checked_pin_def
  assertGpioPin_def int_between_def js_nat_def assertGpioMode_def assertEsp32WritePin_def assertEsp32ReadPin_def
  isEsp32FlashPin_def isEsp32InputOnlyPin_def isEsp32Uart0Pin_def isEsp32StrapPin_def default_level_def driven_def
  readPinLevel_def createGpioState_def set_mode_def

theorem only_usable_pins_driven_witness:
  "driven (bridge_run [wit_mode 4 ''output'' []]) 4 = Some False \<and> (4 :: nat) \<le> 39"
proof -
  have "driven (bridge_run [wit_mode 4 ''output'' []]) 4 = Some False"
    by (simp add: mode_run_simps)
  with only_usable_pins_driven[of "[wit_mode 4 ''output'' []]" 4] show ?thesis
    by simp
qed

text \<open>A board that was never armed can be made to drive a pin high: \<open>gpio.mode\<close> needs no arming, a pull-up
  leaves the level true, and the next \<open>gpio.mode\<close> makes the pin an output at that level.\<close>

theorem unarmed_pin_driven_high:
  "let s = bridge_run [wit_mode 4 ''pullup'' [], wit_mode 4 ''output'' []] in
    gs_deviceState s = LDisarmed \<and> driven s 4 = Some True"
  by (simp add: mode_run_simps Let_def)

text \<open>An input-only pin can be driven: a safe level is accepted for it with an input mode, and a stop then makes
  it an output.\<close>

theorem input_only_pin_driven:
  "isEsp32InputOnlyPin 34 \<and>
   driven (bridge_run [wit_mode 34 ''input'' [(''safeLevel'', JStr ''high'')], Action 0 ''gpio.stopAll'' []]) 34 = Some True"
  by (simp add: mode_run_simps safe_config_def default_to_def assertSafeLevel_def put_safe_config_def stop_action_def
      gpioStopAll_def stopped_pins_def stop_pin_def safe_level_def drive_def setPinLevel_def List.map_filter_simps Let_def)

subsection \<open>A board that tripped\<close>

definition safe_pin :: "(nat \<Rightarrow> string) \<Rightarrow> (nat \<Rightarrow> bool option) \<Rightarrow> (nat \<Rightarrow> bool option) \<Rightarrow> nat \<Rightarrow> bool" where
  "safe_pin level was is pin \<longleftrightarrow> is pin \<in> {None, Some (level pin = ''high'')} \<or> level pin = ''hold'' \<and> is pin = was pin"

text \<open>Everything that can happen to a board but arming it, setting a pin's mode and declaring a safe level.\<close>

fun quiet :: "bridge_event \<Rightarrow> bool" where
  "quiet (Action now action payload) = (action \<notin> {''sys.arm'', ''gpio.mode'', ''gpio.configSafeState''})"
| "quiet (Trip reason) = True"

lemma safe_configs_neutral [simp]:
  "gs_safePinConfigs (touchWatchdog now s) = gs_safePinConfigs s" "gs_safePinConfigs (set_timeout t s) = gs_safePinConfigs s"
  "gs_safePinConfigs (emit_event e p s) = gs_safePinConfigs s" "gs_safePinConfigs (drive pin v s) = gs_safePinConfigs s"
  "gs_safePinConfigs (set_direction d speed s) = gs_safePinConfigs s"
  by (simp_all add: touchWatchdog_def set_timeout_def emit_event_def drive_def set_direction_def Let_def split: option.split)

lemma safe_configs_folds [simp]:
  "gs_safePinConfigs (fold (\<lambda>(pin, v). drive pin v) ws s) = gs_safePinConfigs s"
  "gs_safePinConfigs (fold stop_pin ps s) = gs_safePinConfigs s"
  by (rule fold_same, simp split: prod.split)+

lemma safe_configs_stop [simp]: "gs_safePinConfigs (snd (gpioStopAll s)) = gs_safePinConfigs s"
  by (simp add: gpioStopAll_def)

lemma put_field_configs:
  "(\<And>n t. gs_safePinConfigs (upd n t) = gs_safePinConfigs t) \<Longrightarrow>
    gs_safePinConfigs (snd (put_field k check upd p acc)) = gs_safePinConfigs (snd acc)"
  by (auto simp: put_field_def split: prod.split option.split)

lemma read_actions_configs:
  "gs_safePinConfigs (snd (gpioRead p s)) = gs_safePinConfigs s" "gs_safePinConfigs (snd (gpioAnalogRead p s)) = gs_safePinConfigs s"
  "gs_safePinConfigs (snd (gpioWatch p s)) = gs_safePinConfigs s" "gs_safePinConfigs (snd (gpioUnwatch p s)) = gs_safePinConfigs s"
  "gs_safePinConfigs (snd (watchdogKick now p s)) = gs_safePinConfigs s"
  "gs_safePinConfigs (snd (watchdogConfigure now p s)) = gs_safePinConfigs s"
  "gs_safePinConfigs (snd (stop_action s)) = gs_safePinConfigs s" "gs_safePinConfigs (snd (sysDisarm s)) = gs_safePinConfigs s"
  by (simp_all add: gpioRead_def gpioAnalogRead_def gpioWatch_def gpioUnwatch_def watchdogConfigure_def
      watchdogKick_def stop_action_def sysDisarm_def case_prod_unfold split: option.split)

lemma bus_actions_configs:
  "gs_safePinConfigs (snd (i2cBegin p s)) = gs_safePinConfigs s" "gs_safePinConfigs (snd (i2cWrite p s)) = gs_safePinConfigs s"
  "gs_safePinConfigs (snd (i2cRead p s)) = gs_safePinConfigs s" "gs_safePinConfigs (snd (i2cScan s)) = gs_safePinConfigs s"
  "gs_safePinConfigs (snd (spiBegin p s)) = gs_safePinConfigs s" "gs_safePinConfigs (snd (spiTransfer p s)) = gs_safePinConfigs s"
  by (simp_all add: i2cBegin_def i2cWrite_def i2cRead_def i2cScan_def spiBegin_def spiTransfer_def case_prod_unfold Let_def
      put_field_configs split: option.split)

lemma unarmed_configs:
  assumes "gs_deviceState s \<noteq> LArmed" and "action \<notin> {''sys.arm'', ''gpio.mode'', ''gpio.configSafeState''}"
  shows "gs_safePinConfigs (snd (handleBridgeAction now action payload s)) = gs_safePinConfigs s"
proof (rule bridge_cases)
  have "list_all (\<lambda>(a, f). gs_safePinConfigs (snd (f payload s)) = gs_safePinConfigs s \<or>
      a \<in> {''sys.arm'', ''gpio.mode'', ''gpio.configSafeState''}) (bridge_actions now)"
    by (simp add: bridge_actions_def read_actions_configs bus_actions_configs actuate_unarmed[OF assms(1)])
  then show "gs_safePinConfigs (snd (f payload s)) = gs_safePinConfigs s" if "(action, f) \<in> set (bridge_actions now)" for f
    using that assms(2) by (fastforce simp only: list_all_iff)
qed simp

text \<open>The board \<open>s\<close> is not armed, has the safe levels of \<open>s0\<close>, and every pin is safe.\<close>

definition made_safe :: "gpio_state \<Rightarrow> gpio_state \<Rightarrow> bool" where
  "made_safe s0 s \<longleftrightarrow> gs_deviceState s \<noteq> LArmed \<and> gs_safePinConfigs s = gs_safePinConfigs s0 \<and>
    (\<forall>pin. safe_pin (safe_level s0) (driven s0) (driven s) pin)"

lemma safe_level_configs: "gs_safePinConfigs s = gs_safePinConfigs t \<Longrightarrow> safe_level s = safe_level t"
  by (simp add: safe_level_def fun_eq_iff)

lemma safe_after_stop:
  assumes "outputs_of s' = outputs_of (snd (gpioStopAll t))" and "t = s\<lparr>gs_deviceState := d, gs_tripReason := r\<rparr>"
    and "safe_level s = level" and "\<And>pin. level pin = ''hold'' \<Longrightarrow> safe_pin level was (driven s) pin"
  shows "safe_pin level was (driven s') pin"
  using stopAll_driven[of t pin] driven_outputs[OF assms(1), of pin] assms(3) assms(4)[of pin]
  unfolding assms(2) by (auto simp: safe_pin_def)

lemma state_same: "s = s\<lparr>gs_deviceState := gs_deviceState s, gs_tripReason := gs_tripReason s\<rparr>"
  by simp

lemma trip_made_safe:
  assumes "gs_safePinConfigs s = gs_safePinConfigs s0"
    and "\<And>pin. safe_level s0 pin = ''hold'' \<Longrightarrow> safe_pin (safe_level s0) (driven s0) (driven s) pin"
  shows "made_safe s0 (tripWatchdog reason s)"
proof -
  let ?t = "s\<lparr>gs_deviceState := LTripped, gs_tripReason := Some reason\<rparr>"
  have "gs_deviceState (snd (gpioStopAll ?t)) = LTripped"
    using wd_stopAll[of ?t] by (simp add: wd_view_def)
  moreover have "gs_deviceState (tripWatchdog reason s) = gs_deviceState (snd (gpioStopAll ?t))"
    "gs_safePinConfigs (tripWatchdog reason s) = gs_safePinConfigs s"
    by (simp_all add: tripWatchdog_def case_prod_unfold emit_event_def)
  ultimately show ?thesis
    using safe_after_stop[OF trip_outputs refl safe_level_configs[OF assms(1)] assms(2)] assms(1)
    by (simp add: made_safe_def)
qed

lemma quiet_keeps_safe:
  assumes "made_safe s0 s" and "quiet ev"
  shows "made_safe s0 (bridge_step ev s)"
proof (cases ev)
  case (Trip reason)
  from assms(1) have "made_safe s0 (tripWatchdog reason s)"
    by (intro trip_made_safe) (simp_all add: made_safe_def)
  with Trip show ?thesis
    by simp
next
  case (Action now action payload)
  from assms have m: "gs_deviceState s \<noteq> LArmed" "gs_safePinConfigs s = gs_safePinConfigs s0"
    and safe: "\<And>pin. safe_pin (safe_level s0) (driven s0) (driven s) pin"
    by (simp_all add: made_safe_def)
  from assms(2) Action have a: "action \<notin> {''sys.arm'', ''gpio.mode'', ''gpio.configSafeState''}"
    by simp
  let ?s = "snd (handleBridgeAction now action payload s)"
  have "gs_deviceState ?s \<noteq> LArmed"
    using m(1) a by (simp add: action_state)
  moreover have "gs_safePinConfigs ?s = gs_safePinConfigs s0"
    using unarmed_configs[OF m(1) a] m(2) by simp
  moreover have "safe_pin (safe_level s0) (driven s0) (driven ?s) pin" for pin
  proof -
    consider "action = ''gpio.stopAll''" | "action = ''sys.disarm''" | "action \<notin> {''gpio.stopAll'', ''sys.disarm'', ''gpio.mode''}"
      using a by blast
    then show ?thesis
    proof cases
      case 1
      show ?thesis
        unfolding 1 using safe_after_stop[OF stop_action_outputs state_same safe_level_configs[OF m(2)] safe] by simp
    next
      case 2
      show ?thesis
        unfolding 2 using safe_after_stop[OF disarm_outputs refl safe_level_configs[OF m(2)] safe] by simp
    next
      case 3
      have "driven ?s pin = driven s pin"
        using unarmed_outputs[OF m(1) 3] by (rule driven_outputs)
      with safe[of pin] show ?thesis
        by (simp add: safe_pin_def)
    qed
  qed
  ultimately show ?thesis
    unfolding Action by (simp add: made_safe_def)
qed

text \<open>C19: A board that tripped stays safe. After the watchdog has tripped, in whatever state it was, and as long as the
  host does not arm the board, set the mode of a pin or declare a safe level, every pin drives nothing or its safe
  level (what it drove, if it is to hold), whatever else the host asks for.\<close>

theorem tripped_board_stays_safe:
  assumes "list_all quiet evs" and "s = fold bridge_step evs (tripWatchdog reason s0)"
  shows "gs_deviceState s \<noteq> LArmed \<and> safe_pin (safe_level s0) (driven s0) (driven s) pin"
proof -
  have "made_safe s0 (fold bridge_step evs t)" if "made_safe s0 t" for t
    using that assms(1) by (induction evs arbitrary: t) (simp_all add: quiet_keeps_safe)
  moreover have "made_safe s0 (tripWatchdog reason s0)"
    by (rule trip_made_safe) (simp_all add: safe_pin_def)
  ultimately show ?thesis
    unfolding assms(2) by (simp add: made_safe_def)
qed

definition wit_running :: gpio_state where
  "wit_running = drive 4 True (createGpioState\<lparr>gs_deviceState := LArmed\<rparr>)"

theorem tripped_board_stays_safe_witness:
  "driven wit_running 4 = Some True \<and>
   driven (fold bridge_step [Action 5 ''gpio.write'' [(''pin'', js_nat 4), (''value'', JBool True)]] (tripWatchdog [] wit_running)) 4
     \<in> {None, Some False}"
proof -
  have "driven wit_running 4 = Some True" "safe_level wit_running 4 = ''low''"
    by (simp_all add: wit_running_def driven_def readPinLevel_def drive_def safe_level_def createGpioState_def)
  with tripped_board_stays_safe[OF _ refl, of "[Action 5 ''gpio.write'' [(''pin'', js_nat 4), (''value'', JBool True)]]" "[]" wit_running 4]
  show ?thesis
    by (simp add: safe_pin_def)
qed

end
