(* ===== verification/Esp32_Board.thy ===== *)
theory Esp32_Board
  imports Esp32_Bridge
begin

text \<open>
  The simulated board behind a serial line, \<open>packages/core/src/drivers/esp32/simulatedTransport.ts\<close>: it splits
  what the host writes into lines, gives each request to the firmware of \<open>Esp32_Bridge\<close>, answers, and keeps the
  timers of pulses and of the watchdog. A step is a write, the firing of a timer, \<open>open\<close> or \<open>close\<close>. Chunks are
  text: the decoder in front is that of \<open>Text_Codec\<close>. The queue to the host is the list of encoded messages;
  error messages are sent with an empty text.
\<close>

record sim_board =
  sx_state :: gpio_state
  sx_buffer :: string
  sx_inbound :: "string list"
  sx_closed :: bool
  sx_pulses :: "(nat, bool \<times> nat) jmap"
  sx_watchdog :: "nat option"
  sx_started :: bool

definition SimulatedEsp32Transport :: "int \<Rightarrow> bool \<Rightarrow> sim_board" where
  "SimulatedEsp32Transport now autoArm =
    \<lparr>sx_state =
       (if autoArm
        then createGpioState\<lparr>gs_deviceState := LArmed, gs_watchdog := gs_watchdog createGpioState\<lparr>wd_deadlineMs := now + 1000\<rparr>\<rparr>
        else createGpioState),
     sx_buffer = [], sx_inbound = [], sx_closed = False, sx_pulses = [], sx_watchdog = None, sx_started = False\<rparr>"

definition push :: "string \<Rightarrow> sim_board \<Rightarrow> sim_board" where
  "push line b = (if sx_closed b then b else b\<lparr>sx_inbound := sx_inbound b @ [line]\<rparr>)"

text \<open>The new state of the firmware; what it emitted meanwhile is sent.\<close>

definition put_state :: "(jsnum \<Rightarrow> string) \<Rightarrow> gpio_state \<Rightarrow> sim_board \<Rightarrow> sim_board" where
  "put_state nt s b =
    fold (\<lambda>(event, payload). push (encodeEvent nt event payload)) (gs_emitted s) (b\<lparr>sx_state := s\<lparr>gs_emitted := []\<rparr>\<rparr>)"

definition emitError :: "(jsnum \<Rightarrow> string) \<Rightarrow> string \<Rightarrow> string \<Rightarrow> sim_board \<Rightarrow> sim_board" where
  "emitError nt i code b = push (encodeFailure nt i code []) b"

definition resetWatchdogTimer :: "sim_board \<Rightarrow> sim_board" where
  "resetWatchdogTimer b =
    (let w = gs_watchdog (sx_state b) in
     b\<lparr>sx_watchdog := (if gs_deviceState (sx_state b) = LArmed \<and> wd_enabled w \<and> 0 < wd_timeoutMs w then Some (wd_timeoutMs w) else None)\<rparr>)"

definition triggerWatchdogExpiry :: "(jsnum \<Rightarrow> string) \<Rightarrow> sim_board \<Rightarrow> sim_board" where
  "triggerWatchdogExpiry nt b =
    (if gs_deviceState (sx_state b) \<noteq> LArmed then b
     else put_state nt (tripWatchdog ''WATCHDOG_EXPIRED'' (sx_state b)) (b\<lparr>sx_pulses := []\<rparr>))"

definition expireWatchdog :: "(jsnum \<Rightarrow> string) \<Rightarrow> sim_board \<Rightarrow> sim_board" where
  "expireWatchdog nt b = triggerWatchdogExpiry nt (b\<lparr>sx_watchdog := None\<rparr>)"

definition watchdog_fires :: "(jsnum \<Rightarrow> string) \<Rightarrow> sim_board \<Rightarrow> sim_board" where
  "watchdog_fires nt b = (if sx_watchdog b = None then b else triggerWatchdogExpiry nt (b\<lparr>sx_watchdog := None\<rparr>))"

definition open_board :: "(jsnum \<Rightarrow> string) \<Rightarrow> sim_board \<Rightarrow> sim_board" where
  "open_board nt b =
    (if sx_started b then b
     else resetWatchdogTimer (push (encodeEvent nt ''ready'' esp32BridgeInfo) (b\<lparr>sx_started := True\<rparr>)))"

definition close_board :: "sim_board \<Rightarrow> sim_board" where
  "close_board b =
    b\<lparr>sx_watchdog := None, sx_pulses := [], sx_state := sx_state b\<lparr>gs_watched := []\<rparr>, sx_closed := True\<rparr>"

subsection \<open>Pulses\<close>

definition schedulePulseRevert :: "jsrecord \<Rightarrow> sim_board \<Rightarrow> sim_board" where
  "schedulePulseRevert res b =
    (case (assertGpioPin (ownprop res ''pin''), ownprop res ''previousValue'', assertNonNegativeInt (ownprop res ''durationMs'')) of
      (Some pin, JBool prev, Some d) \<Rightarrow> b\<lparr>sx_pulses := jset pin (prev, d) (sx_pulses b)\<rparr>
    | _ \<Rightarrow> b)"

definition output_actions :: "string list" where
  "output_actions = [''gpio.mode'', ''gpio.write'', ''gpio.batchWrite'', ''gpio.toggle'', ''gpio.pwm'', ''gpio.servo'',
    ''gpio.motor'', ''i2c.begin'', ''spi.begin'']"

text \<open>The values a result names as pins.\<close>

definition result_pins :: "jsrecord \<Rightarrow> jsval list" where
  "result_pins res = map (ownprop res) pin_keys @ map entry_pin (array_items (ownprop res ''writes''))"

definition cancelSupersededPulses :: "string \<Rightarrow> jsrecord \<Rightarrow> sim_board \<Rightarrow> sim_board" where
  "cancelSupersededPulses action res b =
    (if action \<in> set output_actions
     then b\<lparr>sx_pulses := filter (\<lambda>(pin, t). js_nat pin \<notin> set (result_pins res)) (sx_pulses b)\<rparr> else b)"

definition pulse_fires :: "(jsnum \<Rightarrow> string) \<Rightarrow> nat \<Rightarrow> sim_board \<Rightarrow> sim_board" where
  "pulse_fires nt pin b =
    (case jget (sx_pulses b) pin of
      None \<Rightarrow> b
    | Some (prev, d) \<Rightarrow>
        (let s = sx_state b\<lparr>gs_levels := jset pin prev (gs_levels (sx_state b))\<rparr>;
             s' = (if pin \<in> set (gs_watched s) then emit_event ''gpio.changed'' [(''pin'', js_nat pin), (''value'', JBool prev)] s else s) in
         (put_state nt s' b)\<lparr>sx_pulses := jdelete pin (sx_pulses b)\<rparr>))"

subsection \<open>Requests\<close>

definition pulse_timers :: "string \<Rightarrow> jsrecord \<Rightarrow> sim_board \<Rightarrow> sim_board" where
  "pulse_timers action res b =
    (if action = ''gpio.pulse'' then schedulePulseRevert res b
     else if action = ''gpio.stopAll'' \<or> action = ''sys.disarm'' then b\<lparr>sx_pulses := []\<rparr> else b)"

definition handle_request :: "(jsnum \<Rightarrow> string) \<Rightarrow> int \<Rightarrow> string \<Rightarrow> string \<Rightarrow> jsrecord \<Rightarrow> sim_board \<Rightarrow> sim_board" where
  "handle_request nt now i action payload b =
    (case handleBridgeAction now action payload (sx_state b) of
      (Inl code, s) \<Rightarrow> emitError nt i code (put_state nt s b)
    | (Inr res, s) \<Rightarrow>
        resetWatchdogTimer (pulse_timers action res
          (push (encodeResponse nt i res) (cancelSupersededPulses action res (put_state nt s b)))))"

definition handleLine :: "(jsnum \<Rightarrow> string) \<Rightarrow> (string \<Rightarrow> jsnum) \<Rightarrow> int \<Rightarrow> string \<Rightarrow> sim_board \<Rightarrow> sim_board" where
  "handleLine nt pn now line b =
    (if maxProtocolLineBytes \<le> length (encode_text (map of_char line)) then emitError nt ''invalid'' ''INVALID_MESSAGE'' b
     else (case decodeLine pn line of
         Ignored \<Rightarrow> b
       | InvalidJson \<Rightarrow> emitError nt ''invalid'' ''INVALID_JSON'' b
       | InvalidMessage \<Rightarrow> emitError nt ''invalid'' ''INVALID_MESSAGE'' b
       | Message m \<Rightarrow>
           (case m of
             Request i action payload \<Rightarrow> handle_request nt now i action payload b
           | _ \<Rightarrow> emitError nt ''invalid'' ''INVALID_MESSAGE'' b)))"

text \<open>The loop of \<open>write\<close>: the lines of the text, and what follows the last line feed.\<close>

fun split_lines :: "string \<Rightarrow> string \<Rightarrow> string list \<times> string" where
  "split_lines acc [] = ([], rev acc)"
| "split_lines acc (c # cs) =
    (if c = CHR 0x0A then (case split_lines [] cs of (ls, r) \<Rightarrow> (rev acc # ls, r)) else split_lines (c # acc) cs)"

definition write_board :: "(jsnum \<Rightarrow> string) \<Rightarrow> (string \<Rightarrow> jsnum) \<Rightarrow> int \<Rightarrow> string \<Rightarrow> sim_board \<Rightarrow> sim_board" where
  "write_board nt pn now chunk b =
    (case split_lines [] (sx_buffer b @ chunk) of
      (ls, r) \<Rightarrow> fold (handleLine nt pn now) ls (b\<lparr>sx_buffer := r\<rparr>))"

subsection \<open>Steps\<close>

datatype board_event =
    Opened
  | Closed
  | Written int string
  | PulseFires nat
  | WatchdogFires
  | Expired

fun board_step :: "(jsnum \<Rightarrow> string) \<Rightarrow> (string \<Rightarrow> jsnum) \<Rightarrow> board_event \<Rightarrow> sim_board \<Rightarrow> sim_board" where
  "board_step nt pn Opened b = open_board nt b"
| "board_step nt pn Closed b = close_board b"
| "board_step nt pn (Written now chunk) b = write_board nt pn now chunk b"
| "board_step nt pn (PulseFires pin) b = pulse_fires nt pin b"
| "board_step nt pn WatchdogFires b = watchdog_fires nt b"
| "board_step nt pn Expired b = expireWatchdog nt b"

definition board_run :: "(jsnum \<Rightarrow> string) \<Rightarrow> (string \<Rightarrow> jsnum) \<Rightarrow> board_event list \<Rightarrow> sim_board \<Rightarrow> sim_board" where
  "board_run nt pn evs b = fold (board_step nt pn) evs b"

subsection \<open>What a step leaves alone\<close>

lemma push_fields [simp]:
  "sx_state (push l b) = sx_state b" "sx_pulses (push l b) = sx_pulses b" "sx_watchdog (push l b) = sx_watchdog b"
  "sx_started (push l b) = sx_started b" "sx_closed (push l b) = sx_closed b" "sx_buffer (push l b) = sx_buffer b"
  by (simp_all add: push_def)

lemma push_fold [simp]:
  "sx_state (fold (\<lambda>(e, p). push (f e p)) es b) = sx_state b" "sx_pulses (fold (\<lambda>(e, p). push (f e p)) es b) = sx_pulses b"
  "sx_watchdog (fold (\<lambda>(e, p). push (f e p)) es b) = sx_watchdog b"
  "sx_started (fold (\<lambda>(e, p). push (f e p)) es b) = sx_started b"
  "sx_closed (fold (\<lambda>(e, p). push (f e p)) es b) = sx_closed b"
  by (rule fold_same, simp split: prod.split)+

lemma put_state_fields [simp]:
  "sx_state (put_state nt s b) = s\<lparr>gs_emitted := []\<rparr>" "sx_pulses (put_state nt s b) = sx_pulses b"
  "sx_watchdog (put_state nt s b) = sx_watchdog b" "sx_started (put_state nt s b) = sx_started b"
  "sx_closed (put_state nt s b) = sx_closed b"
  by (simp_all add: put_state_def)

lemma reset_fields [simp]:
  "sx_state (resetWatchdogTimer b) = sx_state b" "sx_pulses (resetWatchdogTimer b) = sx_pulses b"
  "sx_started (resetWatchdogTimer b) = sx_started b" "sx_closed (resetWatchdogTimer b) = sx_closed b"
  by (simp_all add: resetWatchdogTimer_def Let_def)

lemma pulse_timers_fields [simp]:
  "sx_state (pulse_timers a r b) = sx_state b" "sx_watchdog (pulse_timers a r b) = sx_watchdog b"
  "sx_started (pulse_timers a r b) = sx_started b" "sx_closed (pulse_timers a r b) = sx_closed b"
  by (simp_all add: pulse_timers_def schedulePulseRevert_def split: option.split jsval.split)

lemma cancel_fields [simp]:
  "sx_state (cancelSupersededPulses a r b) = sx_state b" "sx_watchdog (cancelSupersededPulses a r b) = sx_watchdog b"
  "sx_started (cancelSupersededPulses a r b) = sx_started b" "sx_closed (cancelSupersededPulses a r b) = sx_closed b"
  by (simp_all add: cancelSupersededPulses_def)

lemma emitError_fields [simp]:
  "sx_state (emitError nt i c b) = sx_state b" "sx_pulses (emitError nt i c b) = sx_pulses b"
  "sx_watchdog (emitError nt i c b) = sx_watchdog b" "sx_started (emitError nt i c b) = sx_started b"
  "sx_closed (emitError nt i c b) = sx_closed b"
  by (simp_all add: emitError_def)

lemma device_state_emitted [simp]: "gs_deviceState (s\<lparr>gs_emitted := es\<rparr>) = gs_deviceState s"
  by simp

lemma trip_state: "gs_deviceState (tripWatchdog reason s) = LTripped"
proof -
  let ?t = "s\<lparr>gs_deviceState := LTripped, gs_tripReason := Some reason\<rparr>"
  have "gs_deviceState (snd (gpioStopAll ?t)) = LTripped"
    using wd_stopAll[of ?t] by (simp add: wd_view_def)
  then show ?thesis
    by (simp add: tripWatchdog_def case_prod_unfold emit_event_def)
qed

subsection \<open>Invariants\<close>

text \<open>Pulses run only while the board is armed; an armed board that was opened has its watchdog timer running.\<close>

definition watched_board :: "sim_board \<Rightarrow> bool" where
  "watched_board b \<longleftrightarrow>
    (gs_deviceState (sx_state b) = LArmed \<and> wd_enabled (gs_watchdog (sx_state b)) \<and> 0 < wd_timeoutMs (gs_watchdog (sx_state b))
      \<longrightarrow> sx_watchdog b \<noteq> None)"

definition pulses_armed :: "sim_board \<Rightarrow> bool" where
  "pulses_armed b \<longleftrightarrow> sx_pulses b = [] \<or> gs_deviceState (sx_state b) = LArmed"

lemma watched_reset: "watched_board (resetWatchdogTimer b)"
  by (simp add: watched_board_def resetWatchdogTimer_def Let_def)

lemma watched_view:
  "wd_view (sx_state b) = wd_view (sx_state b') \<Longrightarrow> sx_watchdog b = sx_watchdog b' \<Longrightarrow> watched_board b = watched_board b'"
  by (simp add: watched_board_def wd_view_def)

lemma pulse_needs_armed:
  "fst (actuate now f p s) = Inr r \<Longrightarrow> gs_deviceState s = LArmed"
  by (auto simp: actuate_def assertArmed_def split: option.splits lifecycle.splits)

lemma request_pulses:
  assumes "pulses_armed b"
  shows "pulses_armed (handle_request nt now i action payload b)"
proof (cases "handleBridgeAction now action payload (sx_state b)")
  case (Pair r s)
  note st = action_state[of now action payload "sx_state b", unfolded Pair fst_conv snd_conv]
  show ?thesis
  proof (cases r)
    case (Inl c)
    have "gs_deviceState s = gs_deviceState (sx_state b)"
      using failed_wd[of now action payload "sx_state b" c] Pair Inl by (simp add: wd_view_def)
    with assms Pair Inl show ?thesis
      by (simp add: handle_request_def pulses_armed_def)
  next
    case (Inr res)
    let ?b = "push (encodeResponse nt i res) (cancelSupersededPulses action res (put_state nt s b))"
    have out: "handle_request nt now i action payload b = resetWatchdogTimer (pulse_timers action res ?b)"
      using Pair Inr by (simp add: handle_request_def)
    have sub: "sx_pulses ?b = [] \<or> gs_deviceState (sx_state b) = LArmed"
      using assms by (auto simp: pulses_armed_def cancelSupersededPulses_def)
    consider "action = ''gpio.pulse''" | "action = ''sys.disarm''" | "action \<noteq> ''gpio.pulse''" "action \<noteq> ''sys.disarm''"
      by blast
    then show ?thesis
    proof cases
      case 1
      have "gs_deviceState (sx_state b) = LArmed"
        using Pair Inr unfolding 1 by (intro pulse_needs_armed[of now gpioPulse payload _ res]) simp
      with st show ?thesis
        unfolding out by (simp add: 1 pulses_armed_def)
    next
      case 2
      show ?thesis
        unfolding out by (simp add: 2 pulses_armed_def pulse_timers_def)
    next
      case 3
      have "gs_deviceState (sx_state b) = LArmed \<Longrightarrow> gs_deviceState s = LArmed"
        using st 3(2) by simp
      with sub have "sx_pulses ?b = [] \<or> gs_deviceState s = LArmed"
        by blast
      with 3(1) show ?thesis
        unfolding out by (simp add: pulses_armed_def pulse_timers_def)
    qed
  qed
qed

lemma request_watched:
  assumes "watched_board b"
  shows "watched_board (handle_request nt now i action payload b)"
proof (cases "handleBridgeAction now action payload (sx_state b)")
  case (Pair r s)
  show ?thesis
  proof (cases r)
    case (Inl c)
    have "wd_view s = wd_view (sx_state b)"
      using failed_wd[of now action payload "sx_state b" c] Pair Inl by simp
    then have "watched_board (handle_request nt now i action payload b) = watched_board b"
      using Pair Inl by (intro watched_view) (simp_all add: handle_request_def)
    with assms show ?thesis
      by blast
  next
    case (Inr res)
    with Pair show ?thesis
      by (simp add: handle_request_def watched_reset)
  qed
qed

lemma line_keeps:
  assumes "\<And>i action payload. P b \<Longrightarrow> P (handle_request nt now i action payload b)" and "\<And>i c. P b \<Longrightarrow> P (emitError nt i c b)" and "P b"
  shows "P (handleLine nt pn now line b)"
  using assms by (simp add: handleLine_def split: decoded.split protocol_message.split)

lemma write_keeps:
  assumes "\<And>i action payload b. P b \<Longrightarrow> P (handle_request nt now i action payload b)" and "\<And>i c b. P b \<Longrightarrow> P (emitError nt i c b)"
    and "\<And>r. P (b\<lparr>sx_buffer := r\<rparr>)"
  shows "P (write_board nt pn now chunk b)"
proof -
  have "P (fold (handleLine nt pn now) ls b')" if "P b'" for ls b'
    using that by (induction ls arbitrary: b') (simp_all add: line_keeps assms(1,2))
  then show ?thesis
    using assms(3) by (simp add: write_board_def case_prod_unfold)
qed

lemma trigger_keeps:
  "pulses_armed b \<Longrightarrow> pulses_armed (triggerWatchdogExpiry nt b)"
  "gs_deviceState (sx_state (triggerWatchdogExpiry nt b)) \<noteq> LArmed"
  by (auto simp: triggerWatchdogExpiry_def pulses_armed_def trip_state)

lemma timer_cleared: "pulses_armed b \<Longrightarrow> pulses_armed (b\<lparr>sx_watchdog := w\<rparr>)"
  by (simp add: pulses_armed_def)

lemma pulse_fires_state:
  "wd_view (sx_state (pulse_fires nt pin b)) = wd_view (sx_state b)" "sx_watchdog (pulse_fires nt pin b) = sx_watchdog b"
  by (simp_all add: pulse_fires_def Let_def split: option.split prod.split)

lemma pulses_step:
  assumes "pulses_armed b"
  shows "pulses_armed (board_step nt pn ev b)"
proof (cases ev)
  case (Written now chunk)
  have "pulses_armed (write_board nt pn now chunk b)"
    by (rule write_keeps) (use assms in \<open>simp_all add: request_pulses, simp_all add: pulses_armed_def\<close>)
  with Written show ?thesis
    by simp
next
  case (PulseFires pin)
  have "gs_deviceState (sx_state (pulse_fires nt pin b)) = gs_deviceState (sx_state b)"
    using pulse_fires_state(1)[of nt pin b] by (simp add: wd_view_def)
  moreover have "sx_pulses b = [] \<Longrightarrow> sx_pulses (pulse_fires nt pin b) = []"
    by (simp add: pulse_fires_def)
  ultimately show ?thesis
    using assms PulseFires by (auto simp: pulses_armed_def)
qed (use assms in \<open>simp_all add: watchdog_fires_def expireWatchdog_def trigger_keeps(1) timer_cleared,
    simp_all add: open_board_def close_board_def pulses_armed_def\<close>)

lemma pulses_run: "pulses_armed (board_run nt pn evs (SimulatedEsp32Transport now autoArm))"
proof -
  have "pulses_armed b \<Longrightarrow> pulses_armed (fold (board_step nt pn) evs b)" for b
    by (induction evs arbitrary: b) (simp_all add: pulses_step)
  then show ?thesis
    by (simp add: board_run_def SimulatedEsp32Transport_def pulses_armed_def)
qed

lemma watched_unarmed: "gs_deviceState (sx_state b) \<noteq> LArmed \<Longrightarrow> watched_board b"
  by (simp add: watched_board_def)

lemma watched_step:
  assumes "watched_board b" and "ev \<noteq> Closed" and "sx_started b"
  shows "watched_board (board_step nt pn ev b)"
proof (cases ev)
  case (Written now chunk)
  have "watched_board (write_board nt pn now chunk b)"
  proof (rule write_keeps)
    show "watched_board (b\<lparr>sx_buffer := r\<rparr>)" for r
      using assms(1) by (simp add: watched_board_def)
    show "watched_board b \<Longrightarrow> watched_board (emitError nt i c b)" for i c b
      by (simp add: watched_board_def)
  qed (rule request_watched)
  with Written show ?thesis
    by simp
next
  case (PulseFires pin)
  have "watched_board (pulse_fires nt pin b) = watched_board b"
    by (intro watched_view pulse_fires_state)
  with assms PulseFires show ?thesis
    by simp
qed (use assms in \<open>simp_all add: watchdog_fires_def expireWatchdog_def watched_unarmed trigger_keeps(2), simp add: open_board_def\<close>)

lemma request_started: "sx_started (handle_request nt now i action payload b) = sx_started b"
  by (simp add: handle_request_def split: sum.split prod.split)

lemma started_step: "sx_started b \<Longrightarrow> sx_started (board_step nt pn ev b)"
proof (cases ev)
  case (Written now chunk)
  assume "sx_started b"
  then have "sx_started (write_board nt pn now chunk b)"
    by (intro write_keeps[where P = sx_started]) (simp_all add: request_started)
  with Written show ?thesis
    by simp
qed (simp_all add: open_board_def close_board_def pulse_fires_def watchdog_fires_def expireWatchdog_def
    triggerWatchdogExpiry_def Let_def split: option.split prod.split)

lemma watched_run:
  assumes "list_all (\<lambda>ev. ev \<noteq> Closed) evs" and "watched_board b" and "sx_started b"
  shows "watched_board (fold (board_step nt pn) evs b)"
  using assms by (induction evs arbitrary: b) (simp_all add: watched_step started_step)

subsection \<open>Properties\<close>

text \<open>A board that is not armed moves nothing by itself. In every state the board can reach, if it is not armed then
  no pulse is pending, and neither a timer of a pulse nor the watchdog changes it.\<close>

theorem unarmed_board_is_still:
  assumes "b = board_run nt pn evs (SimulatedEsp32Transport now autoArm)" and "gs_deviceState (sx_state b) \<noteq> LArmed"
  shows "sx_pulses b = [] \<and> pulse_fires nt pin b = b \<and> sx_state (watchdog_fires nt b) = sx_state b"
proof -
  have "sx_pulses b = []"
    using pulses_run[of nt pn evs now autoArm] assms by (simp add: pulses_armed_def)
  with assms(2) show ?thesis
    by (simp add: pulse_fires_def watchdog_fires_def triggerWatchdogExpiry_def)
qed

theorem unarmed_board_is_still_witness:
  "sx_pulses (board_run (\<lambda>_. []) (\<lambda>_. NaN) [Opened] (SimulatedEsp32Transport 0 False)) = []"
  using unarmed_board_is_still[of "board_run (\<lambda>_. []) (\<lambda>_. NaN) [Opened] (SimulatedEsp32Transport 0 False)" "\<lambda>_. []" "\<lambda>_. NaN" "[Opened]" 0 False]
  by (simp add: board_run_def open_board_def SimulatedEsp32Transport_def createGpioState_def)

text \<open>C20: An armed board is watched. From its opening until it is closed, an armed board with a watchdog timeout has
  its timer running, whatever the host has sent; and if the host then falls silent, the timer trips the board.\<close>

theorem armed_board_is_watched:
  assumes "b = board_run nt pn (Opened # evs) (SimulatedEsp32Transport now autoArm)" and "list_all (\<lambda>ev. ev \<noteq> Closed) evs"
    and "gs_deviceState (sx_state b) = LArmed" and "wd_enabled (gs_watchdog (sx_state b))" and "0 < wd_timeoutMs (gs_watchdog (sx_state b))"
  shows "sx_watchdog b \<noteq> None \<and> gs_deviceState (sx_state (watchdog_fires nt b)) = LTripped"
proof -
  let ?b = "open_board nt (SimulatedEsp32Transport now autoArm)"
  have "watched_board ?b" "sx_started ?b"
    by (simp_all add: open_board_def SimulatedEsp32Transport_def watched_reset)
  from watched_run[OF assms(2) this] have "watched_board b"
    unfolding assms(1) by (simp add: board_run_def)
  with assms(3,4,5) have "sx_watchdog b \<noteq> None"
    by (simp add: watched_board_def)
  with assms(3) show ?thesis
    by (simp add: watchdog_fires_def triggerWatchdogExpiry_def trip_state)
qed

theorem armed_board_is_watched_witness:
  "sx_watchdog (board_run (\<lambda>_. []) (\<lambda>_. NaN) [Opened] (SimulatedEsp32Transport 0 True)) \<noteq> None"
  using armed_board_is_watched[of "board_run (\<lambda>_. []) (\<lambda>_. NaN) [Opened] (SimulatedEsp32Transport 0 True)" "\<lambda>_. []" "\<lambda>_. NaN" "[]" 0 True]
  by (simp add: board_run_def open_board_def SimulatedEsp32Transport_def createGpioState_def)

text \<open>The messages pushed by a fold.\<close>

lemma push_open: "\<not> sx_closed b \<Longrightarrow> sx_inbound (push l b) = sx_inbound b @ [l]"
  by (simp add: push_def)

lemma push_fold_open:
  "\<not> sx_closed b \<Longrightarrow>
    sx_inbound (fold (\<lambda>(e, p). push (encodeEvent nt e p)) es b) = sx_inbound b @ map (\<lambda>(e, p). encodeEvent nt e p) es"
  by (induction es arbitrary: b) (simp_all add: push_open case_prod_unfold)

lemma put_state_open:
  "\<not> sx_closed b \<Longrightarrow> sx_inbound (put_state nt s b) = sx_inbound b @ map (\<lambda>(e, p). encodeEvent nt e p) (gs_emitted s)"
  by (simp add: put_state_def push_fold_open)

lemma other_inbound [simp]:
  "sx_inbound (resetWatchdogTimer b) = sx_inbound b" "sx_inbound (pulse_timers a r b) = sx_inbound b"
  "sx_inbound (cancelSupersededPulses a r b) = sx_inbound b"
  by (simp_all add: resetWatchdogTimer_def pulse_timers_def schedulePulseRevert_def cancelSupersededPulses_def Let_def
      split: option.split jsval.split)

text \<open>C21: The board does what the host asked, and answers it once. For the line that the encoder makes of a request,
  the firmware handles the action with the payload of the request; the host is sent the events of that action, then
  one answer with the identifier of the request: its result, or the code of its error.\<close>

theorem requests_are_answered:
  assumes "plain_message nt pn (Request i action payload)" and "plain_value nt pn protocolVersion"
    and "length (encode_text (map of_char (message_text nt (Request i action payload)))) < maxProtocolLineBytes" and "\<not> sx_closed b"
  shows "let r = handleBridgeAction now action payload (sx_state b);
      b' = handleLine nt pn now (message_text nt (Request i action payload)) b in
    sx_state b' = snd r\<lparr>gs_emitted := []\<rparr> \<and>
    sx_inbound b' = sx_inbound b @ map (\<lambda>(e, p). encode_message nt (Event e p)) (gs_emitted (snd r)) @
      [encode_message nt (case fst r of Inl code \<Rightarrow> Failure i code [] | Inr res \<Rightarrow> Success i res)]"
proof -
  have "handleLine nt pn now (message_text nt (Request i action payload)) b = handle_request nt now i action payload b"
    using assms(3) decode_message_text[OF assms(1,2)] by (simp add: handleLine_def)
  with assms(4) show ?thesis
    by (cases "handleBridgeAction now action payload (sx_state b)"; cases "fst (handleBridgeAction now action payload (sx_state b))")
      (simp_all add: handle_request_def emitError_def push_open put_state_open)
qed

lemma encode_text_length: "length (encode_text (map of_char s)) \<le> 2 * length s"
proof (induction s)
  case (Cons c s)
  have "(of_char c :: nat) < 256"
    by simp
  then have "(of_char c :: nat) < 2048" "\<not> high_surrogate (of_char c)" "\<not> low_surrogate (of_char c)"
    unfolding high_surrogate_def low_surrogate_def by linarith+
  with Cons show ?case
    by (auto simp: encode_text_def utf8_of_def)
qed (simp add: encode_text_def)

definition wit_ping :: protocol_message where
  "wit_ping = Request ''s:0'' ''sys.ping'' []"

theorem requests_are_answered_witness:
  "last (sx_inbound (handleLine wit_num_text wit_num_value 0 (message_text wit_num_text wit_ping) (SimulatedEsp32Transport 0 False))) =
    encode_message wit_num_text (Success ''s:0'' [(''pong'', JBool True)])"
proof -
  have "plain_message wit_num_text wit_num_value wit_ping" "plain_value wit_num_text wit_num_value protocolVersion"
    by (simp_all add: wit_ping_def protocolVersion_def wit_num_text_def wit_num_value_def wit_num_one)
  moreover have "length (message_text wit_num_text wit_ping) \<le> 400"
    by (simp add: wit_ping_def message_text_def request_object_def protocolVersion_def wit_num_text_def json_string_def json_escape_def)
  then have "length (encode_text (map of_char (message_text wit_num_text wit_ping))) < maxProtocolLineBytes"
    using encode_text_length[of "message_text wit_num_text wit_ping"] by (simp add: maxProtocolLineBytes_def)
  ultimately show ?thesis
    using requests_are_answered[of wit_num_text wit_num_value "''s:0''" "''sys.ping''" "[]" "SimulatedEsp32Transport 0 False" 0]
    unfolding wit_ping_def by (simp add: handleBridgeAction_def bridge_actions_def SimulatedEsp32Transport_def Let_def)
qed

abbreviation "wit_pulse \<equiv> [(''pin'', js_nat 4), (''durationMs'', js_nat 100)]"

lemma readPinLevel_touch [simp]: "readPinLevel (touchWatchdog now s) = readPinLevel s"
  by (simp add: fun_eq_iff readPinLevel_def touchWatchdog_def Let_def split: option.split)

lemma pulse_action:
  assumes "gs_deviceState s = LArmed"
  shows "handleBridgeAction now ''gpio.pulse'' wit_pulse s =
      (Inr [(''pin'', js_nat 4), (''value'', JBool True), (''durationMs'', js_nat 100), (''previousValue'', JBool (readPinLevel s 4))],
       drive 4 True (touchWatchdog now s))"
proof -
  have "assertGpioPin (js_nat 4) = Some 4" "assertPositiveInt (js_nat 100) = Some 100"
    by (simp_all add: assertGpioPin_def assertPositiveInt_def int_between_def js_nat_def)
  with assms show ?thesis
    by (simp add: actuate_def assertValidity_def assertArmed_def gpioPulse_def default_to_def assertEsp32WritePin_def
        isEsp32FlashPin_def isEsp32InputOnlyPin_def isEsp32Uart0Pin_def isEsp32StrapPin_def)
qed

lemma pulse_request:
  assumes "gs_deviceState (sx_state b) = LArmed"
  shows "let b' = handle_request nt now i ''gpio.pulse'' wit_pulse b in
    gs_deviceState (sx_state b') = LArmed \<and> readPinLevel (sx_state b') 4 \<and> jget (gs_modes (sx_state b')) 4 = Some ''output'' \<and>
    sx_pulses b' = jset 4 (readPinLevel (sx_state b) 4, 100) (sx_pulses b)"
proof -
  have p: "schedulePulseRevert [(''pin'', js_nat 4), (''value'', JBool True), (''durationMs'', js_nat 100), (''previousValue'', JBool v)] b =
      b\<lparr>sx_pulses := jset 4 (v, 100) (sx_pulses b)\<rparr>" for v b
    by (simp add: schedulePulseRevert_def assertGpioPin_def assertNonNegativeInt_def int_between_def js_nat_def)
  have d: "gs_deviceState (drive 4 True (touchWatchdog now s)) = gs_deviceState s" for s
    by (simp add: drive_def touchWatchdog_def Let_def)
  show ?thesis
    using assms by (simp del: bridge_dispatch add: handle_request_def pulse_action p d pulse_timers_def cancelSupersededPulses_def output_actions_def Let_def)
      (simp add: drive_def readPinLevel_def jget_set)
qed

lemma pulse_over:
  assumes "jget (sx_pulses b) pin = Some (prev, d)" and "jget (gs_modes (sx_state b)) pin = Some ''output''"
  shows "driven (sx_state (pulse_fires nt pin b)) pin = Some prev \<and> sx_pulses (pulse_fires nt pin b) = jdelete pin (sx_pulses b)"
  using assms by (simp add: pulse_fires_def Let_def) (simp add: driven_def readPinLevel_def emit_event_def jget_set)

text \<open>Overlapping pulses can leave the pin on. Here the second of two pulses of 100 ms on pin 4 begins 50 ms after the first:
  it records the level of the first as the one to go back to, so when both are over the pin stays high.\<close>

theorem overlapping_pulses_stick:
  "let b0 = SimulatedEsp32Transport 0 True;
       b1 = handle_request nt 0 ''a'' ''gpio.pulse'' wit_pulse b0;
       b2 = handle_request nt 50 ''b'' ''gpio.pulse'' wit_pulse b1;
       b3 = pulse_fires nt 4 b2 in
    sx_pulses b3 = [] \<and> driven (sx_state b0) 4 = None \<and> driven (sx_state (pulse_fires nt 4 b1)) 4 = Some False \<and>
    driven (sx_state b3) 4 = Some True"
proof -
  let ?b0 = "SimulatedEsp32Transport 0 True"
  let ?b1 = "handle_request nt 0 ''a'' ''gpio.pulse'' wit_pulse ?b0"
  let ?b2 = "handle_request nt 50 ''b'' ''gpio.pulse'' wit_pulse ?b1"
  have l0: "gs_deviceState (sx_state ?b0) = LArmed" "driven (sx_state ?b0) 4 = None" "readPinLevel (sx_state ?b0) 4 = False" "sx_pulses ?b0 = []"
    by (simp_all add: SimulatedEsp32Transport_def driven_def readPinLevel_def createGpioState_def)
  note s1 = pulse_request[OF l0(1), of nt 0 "''a''", unfolded l0 Let_def]
  note s2 = pulse_request[OF conjunct1[OF s1], of nt 50 "''b''", unfolded Let_def]
  show ?thesis
    using l0(2) s1 s2 pulse_over[of ?b1 4 False 100 nt] pulse_over[of ?b2 4 True 100 nt] by (simp add: Let_def)
qed

text \<open>A ping puts the watchdog off although the firmware's deadline stays where it was.\<close>

theorem ping_postpones_watchdog:
  assumes "gs_deviceState (sx_state b) = LArmed" and "wd_enabled (gs_watchdog (sx_state b))" and "0 < wd_timeoutMs (gs_watchdog (sx_state b))"
  shows "let b' = handle_request nt now i ''sys.ping'' payload b in
    sx_watchdog b' = Some (wd_timeoutMs (gs_watchdog (sx_state b))) \<and> gs_watchdog (sx_state b') = gs_watchdog (sx_state b)"
  using assms by (simp add: handle_request_def handleBridgeAction_def bridge_actions_def pulse_timers_def
      cancelSupersededPulses_def output_actions_def resetWatchdogTimer_def Let_def)

end
