(* ===== verification/Discovery.thy ===== *)
theory Discovery
  imports Prelude
begin

text \<open>
  Device discovery, \<open>packages/discovery/src/core.ts\<close>: the rules a candidate must keep, the merge of what several
  plugins saw at one endpoint, and the run of all plugins. A plugin is what it returned: its candidates, or the
  text of its failure. Weights and confidences are exact reals; the hash of an endpoint is a parameter,
  and no plugin returns the same candidate object twice (the merge writes to it).
\<close>

record identity_guess =
  ig_moduleId :: string
  ig_vendor :: "string option"
  ig_deviceClass :: "string option"

record candidate =
  cd_id :: string
  cd_kind :: string
  cd_address :: string
  cd_port :: "nat option"
  cd_details :: jsrecord
  cd_possibleIdentity :: "identity_guess list"
  cd_evidence :: "(string \<times> string \<times> real) list"
  cd_confidence :: real
  cd_interfaces :: "string list"

definition port_text :: "nat option \<Rightarrow> string" where
  "port_text p = (case p of None \<Rightarrow> [] | Some n \<Rightarrow> nat_str n)"

definition endpoint_key :: "string \<Rightarrow> string \<Rightarrow> nat option \<Rightarrow> string" where
  "endpoint_key kind address port = kind @ '':'' @ address @ '':'' @ port_text port"

definition candidateId :: "(string \<Rightarrow> string) \<Rightarrow> string \<Rightarrow> string \<Rightarrow> nat option \<Rightarrow> string" where
  "candidateId sha kind address port = ''cand_'' @ take 12 (sha (endpoint_key kind address port))"

definition ABSOLUTE_CONFIDENCE_CAP :: real where
  "ABSOLUTE_CONFIDENCE_CAP = 95 / 100"

definition WEAK_HEURISTIC_CAP :: real where
  "WEAK_HEURISTIC_CAP = 1 / 2"

fun largest :: "real list \<Rightarrow> real" where
  "largest [] = 0"
| "largest [x] = x"
| "largest (x # xs) = max x (largest xs)"

definition weights :: "candidate \<Rightarrow> real list" where
  "weights c = map (snd \<circ> snd) (cd_evidence c)"

text \<open>\<open>None\<close> is the thrown \<open>CandidateValidationError\<close>.\<close>

definition validateCandidate :: "candidate \<Rightarrow> candidate option" where
  "validateCandidate c =
    (if cd_evidence c = [] then None
     else if ABSOLUTE_CONFIDENCE_CAP < cd_confidence c then None
     else if largest (weights c) < 9 / 10 \<and> WEAK_HEURISTIC_CAP < cd_confidence c then None
     else Some c)"

definition candidate_key :: "candidate \<Rightarrow> string" where
  "candidate_key c = endpoint_key (cd_kind c) (cd_address c) (cd_port c)"

definition add_interfaces :: "string list \<Rightarrow> string list \<Rightarrow> string list" where
  "add_interfaces xs ys = fold (\<lambda>i acc. if i \<in> set acc then acc else acc @ [i]) ys xs"

definition merge_into :: "candidate \<Rightarrow> candidate \<Rightarrow> candidate" where
  "merge_into existing c =
    existing\<lparr>cd_possibleIdentity := cd_possibleIdentity existing @ cd_possibleIdentity c,
      cd_evidence := cd_evidence existing @ cd_evidence c,
      cd_confidence := max (cd_confidence existing) (cd_confidence c),
      cd_interfaces := add_interfaces (cd_interfaces existing) (cd_interfaces c)\<rparr>"

definition merge_step :: "candidate \<Rightarrow> (string, candidate) jmap \<Rightarrow> (string, candidate) jmap" where
  "merge_step c byKey =
    (case jget byKey (candidate_key c) of
      None \<Rightarrow> jset (candidate_key c) c byKey
    | Some existing \<Rightarrow> jset (candidate_key c) (merge_into existing c) byKey)"

definition mergeCandidates :: "candidate list \<Rightarrow> candidate list" where
  "mergeCandidates cs = jvalues (fold merge_step cs [])"

record discovery_run =
  dr_candidates :: "candidate list"
  dr_pluginsRun :: "string list"
  dr_errors :: "(string \<times> string) list"

text \<open>The candidates of one plugin that are accepted, and the error of each that is not (its text is left empty).\<close>

definition accepted :: "string \<times> (string + candidate list) \<Rightarrow> candidate list" where
  "accepted p = (case snd p of Inl e \<Rightarrow> [] | Inr cs \<Rightarrow> List.map_filter validateCandidate cs)"

definition plugin_errors :: "string \<times> (string + candidate list) \<Rightarrow> (string \<times> string) list" where
  "plugin_errors p =
    (case snd p of
      Inl e \<Rightarrow> [(fst p, e)]
    | Inr cs \<Rightarrow> map (\<lambda>_. (fst p, [])) (filter (\<lambda>c. validateCandidate c = None) cs))"

definition runDiscovery :: "(string \<times> (string + candidate list)) list \<Rightarrow> discovery_run" where
  "runDiscovery plugins =
    \<lparr>dr_candidates = sort_key (\<lambda>c. - cd_confidence c) (mergeCandidates (concat (map accepted plugins))),
     dr_pluginsRun = map fst plugins, dr_errors = concat (map plugin_errors plugins)\<rparr>"

subsection \<open>Merging keeps the rules\<close>

definition honest :: "candidate \<Rightarrow> bool" where
  "honest c \<longleftrightarrow> cd_evidence c \<noteq> [] \<and> cd_confidence c \<le> 95 / 100 \<and>
    (cd_confidence c \<le> 1 / 2 \<or> list_ex (\<lambda>w. 9 / 10 \<le> w) (weights c))"

lemma largest_attained: "ws \<noteq> [] \<Longrightarrow> largest ws \<in> set ws"
  by (induction ws rule: largest.induct) (auto simp: max_def)

lemma largest_bound: "w \<in> set ws \<Longrightarrow> w \<le> largest ws"
  by (induction ws rule: largest.induct) auto

lemma validate_honest: "validateCandidate c = Some c' \<longleftrightarrow> c' = c \<and> honest c"
proof -
  have "list_ex (\<lambda>w. 9 / 10 \<le> w) (weights c) \<longleftrightarrow> 9 / 10 \<le> largest (weights c)" if "cd_evidence c \<noteq> []"
  proof -
    have "weights c \<noteq> []"
      using that by (simp add: weights_def)
    then show ?thesis
      using largest_attained[of "weights c"] largest_bound[of _ "weights c"] by (auto simp: list_ex_iff intro: order_trans)
  qed
  then show ?thesis
    by (auto simp: validateCandidate_def honest_def ABSOLUTE_CONFIDENCE_CAP_def WEAK_HEURISTIC_CAP_def not_less)
qed

lemma set_map_filter: "y \<in> set (List.map_filter f xs) \<longleftrightarrow> (\<exists>x\<in>set xs. f x = Some y)"
  by (induction xs) (auto simp: List.map_filter_simps split: option.split)

lemma accepted_honest: "c \<in> set (accepted p) \<Longrightarrow> honest c"
  by (auto simp: accepted_def set_map_filter validate_honest split: sum.splits)

lemma merge_honest: "honest a \<Longrightarrow> honest b \<Longrightarrow> honest (merge_into a b)"
  by (auto simp: honest_def merge_into_def weights_def max_def)

lemma merge_into_key [simp]: "candidate_key (merge_into a b) = candidate_key a"
  by (simp add: candidate_key_def merge_into_def)

definition merged_ok :: "(string, candidate) jmap \<Rightarrow> bool" where
  "merged_ok m \<longleftrightarrow> wf_map m \<and> (\<forall>(k, c)\<in>set m. honest c \<and> candidate_key c = k)"

lemma merge_step_ok:
  assumes "merged_ok m" and "honest c"
  shows "merged_ok (merge_step c m)"
proof -
  have "honest e \<and> candidate_key e = candidate_key c" if "jget m (candidate_key c) = Some e" for e
    using assms(1) map_of_SomeD[OF that] by (auto simp: merged_ok_def)
  with assms show ?thesis
    by (auto simp: merge_step_def merged_ok_def set_jset merge_honest intro: wf_intros split: option.split)
qed

lemma merge_fold_ok: "merged_ok m \<Longrightarrow> \<forall>c\<in>set cs. honest c \<Longrightarrow> merged_ok (fold merge_step cs m)"
  by (induction cs arbitrary: m) (simp_all add: merge_step_ok)

lemma distinct_sort_key: "distinct (map f xs) \<Longrightarrow> distinct (map f (sort_key g xs))"
  by (simp add: distinct_map)

text \<open>Discovery does not overstate what it saw. Whatever the plugins return, every candidate of a run has evidence,
  a confidence of at most 0.95, and one above 0.5 only with a piece of evidence of weight 0.9 or more, merged or not;
  no two candidates describe the same endpoint, and the surest come first.\<close>

theorem discovery_never_overstates:
  "list_all honest (dr_candidates (runDiscovery plugins)) \<and>
   distinct (map candidate_key (dr_candidates (runDiscovery plugins))) \<and>
   sorted_wrt (\<lambda>a b. cd_confidence b \<le> cd_confidence a) (dr_candidates (runDiscovery plugins))"
proof -
  let ?m = "fold merge_step (concat (map accepted plugins)) []"
  have m: "merged_ok ?m"
    by (rule merge_fold_ok) (auto simp: merged_ok_def wf_map_def accepted_honest)
  then have "map (candidate_key \<circ> snd) ?m = map fst ?m" "distinct (map fst ?m)"
    by (auto simp: merged_ok_def wf_map_def)
  then have "distinct (map candidate_key (jvalues ?m))"
    by (simp only: map_map)
  then have "distinct (map candidate_key (sort_key g (jvalues ?m)))" for g :: "candidate \<Rightarrow> real"
    by (rule distinct_sort_key)
  moreover have "sorted_wrt (\<lambda>a b. cd_confidence b \<le> cd_confidence a) (sort_key (\<lambda>c. - cd_confidence c) cs)" for cs
    using sorted_sort_key[of "\<lambda>c. - cd_confidence c" cs] by (simp add: sorted_map)
  ultimately show ?thesis
    using m by (simp add: runDiscovery_def mergeCandidates_def merged_ok_def list_all_iff case_prod_unfold)
qed

end
