(* ===== verification/Awareness.thy ===== *)
theory Awareness
  imports Discovery Support_Level Protocol "HOL-Library.Sublist"
begin

text \<open>
  The registry of every device ever seen, \<open>packages/awareness/src\<close>: the states of a record (\<open>stateMachine.ts\<close>),
  observation, enrolment, ageing and mock records (\<open>store.ts\<close>). The file is its list of records; the identity of a
  device is the object the code spreads. A step that throws leaves what it had already changed. Hashes, the clock (read
  once per operation) and the identifiers of the enrolled devices are arguments; a file that is not a valid store, a
  write that fails and a journal sink that throws are not modelled, and \<open>upsertMock\<close> is given complete records.
\<close>

subsection \<open>States\<close>

datatype aw_state = SEEN | IDENTIFIED | PENDING_ENROLL | ONLINE | STALE | OFFLINE

fun AWARENESS_TRANSITIONS :: "aw_state \<Rightarrow> aw_state list" where
  "AWARENESS_TRANSITIONS SEEN = [IDENTIFIED, PENDING_ENROLL, STALE, OFFLINE]"
| "AWARENESS_TRANSITIONS IDENTIFIED = [PENDING_ENROLL, ONLINE, STALE, OFFLINE, SEEN]"
| "AWARENESS_TRANSITIONS PENDING_ENROLL = [ONLINE, IDENTIFIED, STALE, OFFLINE]"
| "AWARENESS_TRANSITIONS ONLINE = [STALE, OFFLINE, PENDING_ENROLL]"
| "AWARENESS_TRANSITIONS STALE = [ONLINE, PENDING_ENROLL, IDENTIFIED, SEEN, OFFLINE]"
| "AWARENESS_TRANSITIONS OFFLINE = [SEEN, IDENTIFIED, PENDING_ENROLL, ONLINE, STALE]"

definition canTransition :: "aw_state \<Rightarrow> aw_state \<Rightarrow> bool" where
  "canTransition from to \<longleftrightarrow> from = to \<or> to \<in> set (AWARENESS_TRANSITIONS from)"

record aw_health =
  ah_status :: string
  ah_lifecycle :: string
  ah_message :: "string option"
  ah_lastUpdated :: time

record aw_record =
  ar_id :: string
  ar_transport :: string
  ar_identity :: jsrecord
  ar_state :: aw_state
  ar_firstSeen :: time
  ar_lastSeen :: time
  ar_health :: aw_health
  ar_capabilities :: "string list option"
  ar_moduleId :: "string option"
  ar_evidenceLevel :: support_level
  ar_connector :: "jsrecord option"
  ar_confidence :: "real option"
  ar_mock :: bool

record staleness =
  st_staleAfterMs :: time
  st_offlineAfterMs :: time

definition DEFAULT_STALENESS :: staleness where
  "DEFAULT_STALENESS = \<lparr>st_staleAfterMs = 30000, st_offlineAfterMs = 120000\<rparr>"

text \<open>The object spread \<open>{...a, ...b}\<close>.\<close>

definition spread :: "jsrecord \<Rightarrow> jsrecord \<Rightarrow> jsrecord" where
  "spread a b = fold (\<lambda>(k, v). jset k v) b a"

text \<open>The error of a transition the table does not have is \<open>Inl\<close>; \<open>upd\<close> is the patch but for identity and state.\<close>

definition transition_record ::
  "aw_record \<Rightarrow> aw_state \<Rightarrow> (aw_record \<Rightarrow> aw_record) \<Rightarrow> jsrecord option \<Rightarrow> string + aw_record" where
  "transition_record r to upd identity =
    (if \<not> canTransition (ar_state r) to then Inl ''InvalidAwarenessTransitionError''
     else Inr ((upd r)\<lparr>ar_state := to,
       ar_identity := (case identity of None \<Rightarrow> ar_identity r | Some i \<Rightarrow> spread (ar_identity r) i)\<rparr>))"

definition isKnownModule :: "string option \<Rightarrow> bool" where
  "isKnownModule m =
    (case m of None \<Rightarrow> False | Some i \<Rightarrow> i \<noteq> [] \<and> \<not> starts_with ''unknown/'' i \<and> i \<noteq> ''unknown'')"

definition presenceStateForObservation :: "bool \<Rightarrow> string option \<Rightarrow> bool \<Rightarrow> aw_state" where
  "presenceStateForObservation enrolled guessedModuleId hasIdentitySignal =
    (if enrolled then ONLINE
     else if isKnownModule guessedModuleId then PENDING_ENROLL
     else if hasIdentitySignal then IDENTIFIED
     else SEEN)"

definition evaluateStaleness :: "aw_record \<Rightarrow> time \<Rightarrow> staleness \<Rightarrow> aw_state option" where
  "evaluateStaleness r now config =
    (if ar_state r = OFFLINE then None
     else
       (let age = now - ar_lastSeen r in
        if st_offlineAfterMs config \<le> age \<and> canTransition (ar_state r) OFFLINE then Some OFFLINE
        else if st_staleAfterMs config \<le> age \<and> ar_state r \<noteq> STALE \<and> canTransition (ar_state r) STALE then Some STALE
        else None))"

text \<open>\<open>None\<close> is the error thrown when no path is known.\<close>

definition transitionPath :: "aw_state \<Rightarrow> aw_state \<Rightarrow> aw_state list option" where
  "transitionPath from to =
    (if from = to then Some []
     else if canTransition from to then Some [to]
     else if from = SEEN \<and> to = PENDING_ENROLL then Some [IDENTIFIED, PENDING_ENROLL]
     else if from = SEEN \<and> to = ONLINE then Some [IDENTIFIED, PENDING_ENROLL, ONLINE]
     else if from = IDENTIFIED \<and> to = ONLINE then Some [PENDING_ENROLL, ONLINE]
     else if (from = STALE \<or> from = OFFLINE) \<and> to = PENDING_ENROLL then
       (if canTransition from PENDING_ENROLL then Some [PENDING_ENROLL] else Some [IDENTIFIED, PENDING_ENROLL])
     else if (from = STALE \<or> from = OFFLINE) \<and> to = ONLINE then Some [ONLINE]
     else if (from = STALE \<or> from = OFFLINE) \<and> to = IDENTIFIED then Some [IDENTIFIED]
     else if (from = STALE \<or> from = OFFLINE) \<and> to = SEEN then Some [SEEN]
     else if from = PENDING_ENROLL \<and> to = SEEN then Some [IDENTIFIED, SEEN]
     else None)"

subsection \<open>What a candidate says of a device\<close>

definition transportFromCandidate :: "candidate \<Rightarrow> string" where
  "transportFromCandidate c =
    (if cd_kind c \<in> {''serial'', ''usb'', ''ble'', ''mdns''} then cd_kind c
     else if cd_kind c = ''network'' then
       (if sublist ''mqtt'' (map lower_char (cd_address c)) \<or> ''mqtt'' \<in> set (cd_interfaces c) then ''mqtt'' else ''mdns'')
     else ''serial'')"

text \<open>The optional fields: the value of the guess, a string of the details, the strings of a list.\<close>

definition opt_field :: "string \<Rightarrow> string option \<Rightarrow> jsrecord" where
  "opt_field k v = (case v of None \<Rightarrow> [] | Some s \<Rightarrow> [(k, JStr s)])"

definition put_string :: "string \<Rightarrow> jsval \<Rightarrow> jsrecord \<Rightarrow> jsrecord" where
  "put_string k v r = (if is_string v then jset k v r else r)"

definition identityFromCandidate :: "(string \<Rightarrow> string) \<Rightarrow> candidate \<Rightarrow> jsrecord" where
  "identityFromCandidate hashMac c =
    (let d = cd_details c;
         guess = (case cd_possibleIdentity c of [] \<Rightarrow> [] | g # gs \<Rightarrow>
           [(''guessedModuleId'', JStr (ig_moduleId g))] @ opt_field ''vendor'' (ig_vendor g) @
           opt_field ''deviceClass'' (ig_deviceClass g));
         i0 = [(''endpoint'', JStr (cd_address c))] @ guess;
         i1 = put_string ''vid'' (ownprop d ''vendorId'') i0;
         i2 = put_string ''pid'' (ownprop d ''productId'') i1;
         i3 = put_string ''vid'' (ownprop d ''vid'') i2;
         i4 = put_string ''pid'' (ownprop d ''pid'') i3;
         i5 = (if ownprop i4 ''vendor'' \<in> {JUndefined, JStr []} then put_string ''vendor'' (ownprop d ''manufacturer'') i4 else i4);
         i6 = put_string ''advertisedName'' (ownprop d ''localName'') i5;
         i7 = put_string ''advertisedName'' (ownprop d ''advertisedName'') i6;
         i8 = (case ownprop d ''serviceUuids'' of
             JArr xs \<Rightarrow> jset ''uuids'' (JArr (filter is_string xs)) i7 | _ \<Rightarrow> i7);
         i9 = (if cd_kind c = ''ble'' then jset ''macHash'' (JStr (hashMac (cd_address c))) i8 else i8);
         i10 = put_string ''firmware'' (ownprop d ''firmware'') i9
     in put_string ''version'' (ownprop d ''version'') i10)"

definition hashMac_of :: "(string \<Rightarrow> string) \<Rightarrow> string \<Rightarrow> string" where
  "hashMac_of sha address = take 16 (sha (map lower_char address))"

definition truthy_text :: "jsval \<Rightarrow> bool" where
  "truthy_text v \<longleftrightarrow> is_string v \<and> string_of v \<noteq> []"

definition hasIdentitySignal :: "jsrecord \<Rightarrow> bool" where
  "hasIdentitySignal i \<longleftrightarrow>
    list_ex (\<lambda>k. truthy_text (ownprop i k)) [''vid'', ''pid'', ''firmware'', ''advertisedName'', ''guessedModuleId''] \<or>
    (case ownprop i ''uuids'' of JArr xs \<Rightarrow> xs \<noteq> [] | _ \<Rightarrow> False)"

text \<open>The module an identity guesses; absent when there is no guess.\<close>

definition guessed :: "jsrecord \<Rightarrow> string option" where
  "guessed i = (case ownprop i ''guessedModuleId'' of JStr m \<Rightarrow> Some m | _ \<Rightarrow> None)"

definition defaultHealth :: "time \<Rightarrow> bool \<Rightarrow> aw_health" where
  "defaultHealth t up =
    \<lparr>ah_status = (if up then ''CONNECTED'' else ''DISCONNECTED''),
     ah_lifecycle = (if up then ''ready'' else ''disconnected''), ah_message = None, ah_lastUpdated = t\<rparr>"

subsection \<open>The registry\<close>

datatype aw_event_type = Ev_seen | Ev_identified | Ev_state_changed | Ev_online | Ev_offline

record aw_event =
  ae_type :: aw_event_type
  ae_record :: aw_record
  ae_at :: time
  ae_previous :: "aw_state option"

record registry =
  rg_records :: "(string, aw_record) jmap"
  rg_loaded :: bool
  rg_staleness :: staleness
  rg_file :: "aw_record list option"
  rg_events :: "aw_event list"

definition AwarenessRegistry :: "staleness option \<Rightarrow> aw_record list option \<Rightarrow> registry" where
  "AwarenessRegistry config file =
    \<lparr>rg_records = [], rg_loaded = False,
     rg_staleness = (case config of None \<Rightarrow> DEFAULT_STALENESS | Some c \<Rightarrow> c), rg_file = file, rg_events = []\<rparr>"

text \<open>The resolver used when none is given.\<close>

definition default_level :: "string option \<Rightarrow> aw_record \<Rightarrow> support_level" where
  "default_level hardwareRecordDate r =
    applyEvidenceRules (if ar_mock r then SIMULATED_LEVEL else ar_evidenceLevel r)
      \<lparr>sl_generated = None, sl_hardwareRecordDate = hardwareRecordDate\<rparr>"

definition load :: "registry \<Rightarrow> registry" where
  "load g =
    (if rg_loaded g then g
     else (case rg_file g of
         None \<Rightarrow> g\<lparr>rg_loaded := True\<rparr>
       | Some rs \<Rightarrow> g\<lparr>rg_loaded := True, rg_records := fold (\<lambda>r. jset (ar_id r) r) rs (rg_records g)\<rparr>))"

definition put_record :: "aw_record \<Rightarrow> registry \<Rightarrow> registry" where
  "put_record r g = g\<lparr>rg_records := jset (ar_id r) r (rg_records g)\<rparr>"

definition emit_aw :: "time \<Rightarrow> aw_event_type \<Rightarrow> aw_record \<Rightarrow> aw_state option \<Rightarrow> registry \<Rightarrow> registry" where
  "emit_aw now t r prev g =
    g\<lparr>rg_events := rg_events g @ [\<lparr>ae_type = t, ae_record = r, ae_at = now, ae_previous = prev\<rparr>]\<rparr>"

definition persist :: "registry \<Rightarrow> registry" where
  "persist g = g\<lparr>rg_file := Some (jvalues (rg_records g))\<rparr>"

text \<open>The fields every observation sets.\<close>

definition observed :: "time \<Rightarrow> jsrecord \<Rightarrow> real \<Rightarrow> aw_record \<Rightarrow> aw_record" where
  "observed now identity confidence r =
    r\<lparr>ar_lastSeen := now, ar_health := defaultHealth now True, ar_confidence := Some confidence,
      ar_moduleId := (if isKnownModule (guessed identity) then guessed identity else ar_moduleId r)\<rparr>"

text \<open>One step of the path to the state of an observation.\<close>

definition emit_step :: "time \<Rightarrow> aw_state \<Rightarrow> aw_record \<Rightarrow> aw_state \<Rightarrow> registry \<Rightarrow> registry" where
  "emit_step now before r to g =
    (let g1 = (if (to = IDENTIFIED \<or> to = PENDING_ENROLL) \<and> (before = SEEN \<or> before = OFFLINE \<or> before = STALE)
               then emit_aw now Ev_identified r (Some before) g else g);
         g2 = emit_aw now Ev_state_changed r (Some before) g1
     in if to = ONLINE then emit_aw now Ev_online r (Some before) g2 else g2)"

fun walk_path :: "time \<Rightarrow> jsrecord \<Rightarrow> real \<Rightarrow> aw_state list \<Rightarrow> aw_record \<Rightarrow> registry \<Rightarrow> (string + aw_record) \<times> registry" where
  "walk_path now identity confidence [] r g = (Inr r, g)"
| "walk_path now identity confidence (to # path) r g =
    (case transition_record r to (observed now identity confidence) (Some identity) of
      Inl e \<Rightarrow> (Inl e, g)
    | Inr r' \<Rightarrow> walk_path now identity confidence path r' (emit_step now (ar_state r) r' to (put_record r' g)))"

definition applyObservationState ::
  "time \<Rightarrow> jsrecord \<Rightarrow> real \<Rightarrow> aw_record \<Rightarrow> aw_state \<Rightarrow> registry \<Rightarrow> (string + aw_record) \<times> registry" where
  "applyObservationState now identity confidence r next g =
    (let current = r\<lparr>ar_lastSeen := now, ar_identity := identity\<rparr> in
     if ar_state current = next then (Inr current, put_record current g)
     else (case transitionPath (ar_state current) next of
         None \<Rightarrow> (Inl ''No transition path'', g)
       | Some path \<Rightarrow> walk_path now identity confidence path current g))"

definition new_record :: "time \<Rightarrow> candidate \<Rightarrow> string \<Rightarrow> jsrecord \<Rightarrow> bool \<Rightarrow> string list option \<Rightarrow> aw_record" where
  "new_record now c transport identity mock capabilities =
    \<lparr>ar_id = cd_id c, ar_transport = transport, ar_identity = identity, ar_state = SEEN, ar_firstSeen = now,
     ar_lastSeen = now, ar_health = defaultHealth now True, ar_capabilities = capabilities,
     ar_moduleId = (if isKnownModule (guessed identity) then guessed identity else None),
     ar_evidenceLevel = SIMULATED_LEVEL, ar_connector = Some [(''status'', JStr ''none'')],
     ar_confidence = Some (cd_confidence c), ar_mock = mock\<rparr>"

definition patched_record ::
  "(aw_record \<Rightarrow> support_level) \<Rightarrow> time \<Rightarrow> candidate \<Rightarrow> string \<Rightarrow> jsrecord \<Rightarrow> bool \<Rightarrow> string list option \<Rightarrow> aw_record \<Rightarrow> aw_record" where
  "patched_record resolve now c transport merged mock capabilities existing =
    (let m = (mock \<or> ar_mock existing) in
     existing\<lparr>ar_transport := transport, ar_identity := merged, ar_lastSeen := now, ar_health := defaultHealth now True,
       ar_confidence := Some (cd_confidence c), ar_evidenceLevel := resolve (existing\<lparr>ar_mock := m\<rparr>), ar_mock := m,
       ar_capabilities := (case capabilities of None \<Rightarrow> ar_capabilities existing | Some cs \<Rightarrow> Some cs),
       ar_moduleId := (if isKnownModule (guessed merged) then guessed merged else ar_moduleId existing)\<rparr>)"

text \<open>\<open>persist\<close> after the record was moved, unless that threw.\<close>

definition then_persist :: "(string + aw_record) \<times> registry \<Rightarrow> (string + aw_record) \<times> registry" where
  "then_persist p = (case fst p of Inl e \<Rightarrow> p | Inr r \<Rightarrow> (Inr r, persist (snd p)))"

definition observation_state :: "string list \<Rightarrow> (string \<Rightarrow> string) \<Rightarrow> candidate \<Rightarrow> aw_state" where
  "observation_state enrolled hashMac c =
    (let identity = identityFromCandidate hashMac c in
     presenceStateForObservation (cd_id c \<in> set enrolled) (guessed identity) (hasIdentitySignal identity))"

definition observeCandidate ::
  "(aw_record \<Rightarrow> support_level) \<Rightarrow> (string \<Rightarrow> string) \<Rightarrow> string list \<Rightarrow> time \<Rightarrow> bool \<Rightarrow> string list option \<Rightarrow> candidate \<Rightarrow> registry \<Rightarrow>
    (string + aw_record) \<times> registry" where
  "observeCandidate resolve hashMac enrolled now mock capabilities c g0 =
    (let g = load g0; transport = transportFromCandidate c; identity = identityFromCandidate hashMac c;
         next = observation_state enrolled hashMac c in
     (case jget (rg_records g) (cd_id c) of
       None \<Rightarrow>
         (let r = new_record now c transport identity mock capabilities in
          then_persist (applyObservationState now identity (cd_confidence c) r next
            (emit_aw now Ev_seen r None (put_record r g))))
     | Some existing \<Rightarrow>
         (let merged = spread (ar_identity existing) identity;
              r = patched_record resolve now c transport merged mock capabilities existing in
          then_persist (applyObservationState now merged (cd_confidence c) r next (put_record r g)))))"

definition enrol_fields :: "time \<Rightarrow> string option \<Rightarrow> aw_record \<Rightarrow> aw_record" where
  "enrol_fields now moduleId r =
    r\<lparr>ar_lastSeen := now, ar_health := defaultHealth now True,
      ar_moduleId := (if moduleId = None \<or> moduleId = Some [] then ar_moduleId r else moduleId),
      ar_connector := (case ar_connector r of None \<Rightarrow> Some [(''status'', JStr ''none'')] | Some c \<Rightarrow> Some c)\<rparr>"

definition enrol_identity :: "string option \<Rightarrow> jsrecord option" where
  "enrol_identity moduleId =
    (case moduleId of None \<Rightarrow> None | Some m \<Rightarrow> if m = [] then None else Some [(''guessedModuleId'', JStr m)])"

definition markEnrolled :: "time \<Rightarrow> string \<Rightarrow> string option \<Rightarrow> registry \<Rightarrow> (string + aw_record) \<times> registry" where
  "markEnrolled now i moduleId g0 =
    (let g = load g0 in
     (case jget (rg_records g) i of
       None \<Rightarrow> (Inl ''not found'', g)
     | Some existing \<Rightarrow>
         if ar_state existing \<noteq> PENDING_ENROLL \<and> ar_state existing \<noteq> IDENTIFIED then (Inl ''Cannot enroll'', g)
         else
           (let pending = (if ar_state existing = IDENTIFIED
                  then transition_record existing PENDING_ENROLL (\<lambda>r. r\<lparr>ar_lastSeen := now, ar_health := defaultHealth now True\<rparr>) None
                  else Inr existing) in
            (case pending of
              Inl e \<Rightarrow> (Inl e, g)
            | Inr current \<Rightarrow>
                (let g1 = (if ar_state existing = IDENTIFIED
                       then emit_aw now Ev_state_changed current (Some IDENTIFIED) (g\<lparr>rg_records := jset i current (rg_records g)\<rparr>) else g) in
                 (case transition_record current ONLINE (enrol_fields now moduleId) (enrol_identity moduleId) of
                   Inl e \<Rightarrow> (Inl e, g1)
                 | Inr r \<Rightarrow>
                     (Inr r, persist (emit_aw now Ev_online r (Some (ar_state current))
                       (emit_aw now Ev_state_changed r (Some (ar_state current))
                         (g1\<lparr>rg_records := jset i r (rg_records g1)\<rparr>))))))))))"

text \<open>One record of a sweep; the records are visited in the order of the map.\<close>

definition tick_one :: "time \<Rightarrow> string \<times> aw_record \<Rightarrow> registry \<times> aw_record list \<Rightarrow> registry \<times> aw_record list" where
  "tick_one now e acc =
    (case e of (i, r) \<Rightarrow>
      (case evaluateStaleness r now (rg_staleness (fst acc)) of
        None \<Rightarrow> acc
      | Some to \<Rightarrow>
          if to = ar_state r then acc
          else (case transition_record r to (\<lambda>r. r\<lparr>ar_health := defaultHealth now False\<rparr>) None of
              Inl e \<Rightarrow> acc
            | Inr r' \<Rightarrow>
                (let g1 = emit_aw now Ev_state_changed r' (Some (ar_state r))
                       ((fst acc)\<lparr>rg_records := jset i r' (rg_records (fst acc))\<rparr>);
                     g2 = (if to = OFFLINE then emit_aw now Ev_offline r' (Some (ar_state r)) g1 else g1)
                 in (g2, snd acc @ [r'])))))"

definition tick_registry :: "time \<Rightarrow> registry \<Rightarrow> aw_record list \<times> registry" where
  "tick_registry now g0 =
    (let g = load g0; (g', changed) = fold (tick_one now) (rg_records g) (g, []) in
     (changed, if changed = [] then g' else persist g'))"

definition upsertMock :: "time \<Rightarrow> aw_record \<Rightarrow> registry \<Rightarrow> aw_record \<times> registry" where
  "upsertMock now r g0 =
    (let g = load g0;
         full = r\<lparr>ar_evidenceLevel := SIMULATED_LEVEL, ar_mock := True,
           ar_connector := (case ar_connector r of None \<Rightarrow> Some [(''status'', JStr ''none'')] | Some c \<Rightarrow> Some c)\<rparr>;
         g1 = put_record full g;
         g2 = (case jget (rg_records g) (ar_id full) of
             None \<Rightarrow>
               (let h1 = emit_aw now Ev_seen full None g1;
                    h2 = (if ar_state full \<in> {IDENTIFIED, PENDING_ENROLL, ONLINE} then emit_aw now Ev_identified full (Some SEEN) h1 else h1);
                    h3 = (if ar_state full = ONLINE then emit_aw now Ev_online full (Some SEEN) h2 else h2)
                in if ar_state full \<noteq> SEEN then emit_aw now Ev_state_changed full (Some SEEN) h3 else h3)
           | Some existing \<Rightarrow>
               if ar_state existing \<noteq> ar_state full then emit_aw now Ev_state_changed full (Some (ar_state existing)) g1 else g1)
     in (full, persist g2))"

subsection \<open>Transitions\<close>

lemma transitionPath_none: "transitionPath s t = None \<longleftrightarrow> s = ONLINE \<and> (t = SEEN \<or> t = IDENTIFIED)"
  by (cases s; cases t) (simp_all add: transitionPath_def canTransition_def)

text \<open>A path is a chain of legal transitions that ends in the state asked for.\<close>

fun legal_path :: "aw_state \<Rightarrow> aw_state list \<Rightarrow> bool" where
  "legal_path s [] = True"
| "legal_path s (t # ts) = (canTransition s t \<and> legal_path t ts)"

lemma transitionPath_legal: "transitionPath s t = Some p \<Longrightarrow> legal_path s p \<and> last (s # p) = t"
  by (cases s; cases t) (auto simp: transitionPath_def canTransition_def)

lemma transition_record_iff: "transition_record r to upd i = Inr r' \<longleftrightarrow> canTransition (ar_state r) to \<and>
    r' = (upd r)\<lparr>ar_state := to, ar_identity := (case i of None \<Rightarrow> ar_identity r | Some x \<Rightarrow> spread (ar_identity r) x)\<rparr>"
  by (auto simp: transition_record_def)

lemma transition_record_Inl: "transition_record r to upd i = Inl e \<Longrightarrow> \<not> canTransition (ar_state r) to"
  by (auto simp: transition_record_def split: if_splits)

lemma evaluateStaleness_legal: "evaluateStaleness r now config = Some to \<Longrightarrow> canTransition (ar_state r) to \<and> to \<noteq> ar_state r"
  by (auto simp: evaluateStaleness_def Let_def split: if_splits)

subsection \<open>The log of events\<close>

text \<open>
  A reader of the log that knows the states of the file: \<open>seen\<close> starts a device, a \<open>state_changed\<close> must continue
  from the state the device is in and be a transition of the table; other events do not change a state. \<open>None\<close> is a
  log that does not fit.
\<close>

definition replay_event :: "aw_event \<Rightarrow> (string \<Rightarrow> aw_state option) \<Rightarrow> (string \<Rightarrow> aw_state option) option" where
  "replay_event e m =
    (case ae_type e of
      Ev_seen \<Rightarrow> if m (ar_id (ae_record e)) = None then Some (m(ar_id (ae_record e) := Some SEEN)) else None
    | Ev_state_changed \<Rightarrow>
        (case m (ar_id (ae_record e)) of
          None \<Rightarrow> None
        | Some s \<Rightarrow> if ae_previous e = Some s \<and> canTransition s (ar_state (ae_record e))
                    then Some (m(ar_id (ae_record e) := Some (ar_state (ae_record e)))) else None)
    | _ \<Rightarrow> Some m)"

fun replay :: "(string \<Rightarrow> aw_state option) \<Rightarrow> aw_event list \<Rightarrow> (string \<Rightarrow> aw_state option) option" where
  "replay m [] = Some m"
| "replay m (e # es) = (case replay_event e m of None \<Rightarrow> None | Some m' \<Rightarrow> replay m' es)"

lemma replay_snoc: "replay b es = Some m \<Longrightarrow> replay b (es @ [e]) = replay_event e m"
  by (induction es arbitrary: b) (auto split: option.splits)

lemma replay_append: "replay b es = Some m \<Longrightarrow> replay b (es @ es') = replay m es'"
  by (induction es arbitrary: b) (auto split: option.splits)

definition states_of :: "(string, aw_record) jmap \<Rightarrow> string \<Rightarrow> aw_state option" where
  "states_of m i = map_option ar_state (jget m i)"

definition keyed :: "(string, aw_record) jmap \<Rightarrow> bool" where
  "keyed m \<longleftrightarrow> wf_map m \<and> list_all (\<lambda>(i, r). ar_id r = i) m"

lemma states_of_set: "states_of (jset i r m) = (states_of m)(i := Some (ar_state r))"
  by (auto simp: states_of_def jget_set fun_eq_iff)

lemma keyed_set: "keyed m \<Longrightarrow> keyed (jset (ar_id r) r m)"
  by (auto simp: keyed_def list_all_iff set_jset intro: wf_intros)

lemma keyed_get: "keyed m \<Longrightarrow> jget m i = Some r \<Longrightarrow> ar_id r = i"
  by (auto simp: keyed_def list_all_iff dest: map_of_SomeD)

definition tracked :: "(string \<Rightarrow> aw_state option) \<Rightarrow> registry \<Rightarrow> bool" where
  "tracked b g \<longleftrightarrow> rg_loaded g \<and> keyed (rg_records g) \<and> replay b (rg_events g) = Some (states_of (rg_records g))"

lemma tracked_fields:
  assumes "tracked b g"
  shows "rg_loaded g" and "keyed (rg_records g)" and "replay b (rg_events g) = Some (states_of (rg_records g))"
  using assms by (auto simp: tracked_def)

lemma registry_fields [simp]:
  "rg_loaded (put_record r g) = rg_loaded g" "rg_file (put_record r g) = rg_file g"
  "rg_events (put_record r g) = rg_events g" "rg_staleness (put_record r g) = rg_staleness g"
  "rg_records (put_record r g) = jset (ar_id r) r (rg_records g)"
  "rg_loaded (emit_aw now t r p g) = rg_loaded g" "rg_file (emit_aw now t r p g) = rg_file g"
  "rg_records (emit_aw now t r p g) = rg_records g" "rg_staleness (emit_aw now t r p g) = rg_staleness g"
  "rg_events (emit_aw now t r p g) = rg_events g @ [\<lparr>ae_type = t, ae_record = r, ae_at = now, ae_previous = p\<rparr>]"
  "rg_loaded (persist g) = rg_loaded g" "rg_events (persist g) = rg_events g" "rg_records (persist g) = rg_records g"
  "rg_staleness (persist g) = rg_staleness g" "rg_file (persist g) = Some (jvalues (rg_records g))"
  by (simp_all add: put_record_def emit_aw_def persist_def)

lemma tracked_persist: "tracked b g \<Longrightarrow> tracked b (persist g)"
  by (simp add: tracked_def)

lemma tracked_emit:
  "tracked b g \<Longrightarrow> t \<in> {Ev_identified, Ev_online, Ev_offline} \<Longrightarrow> tracked b (emit_aw now t r p g)"
  by (auto simp: tracked_def replay_snoc replay_event_def)

text \<open>A write that keeps the state, and one that is announced.\<close>

lemma tracked_put:
  assumes "tracked b g" and "states_of (rg_records g) (ar_id r) = Some (ar_state r)"
  shows "tracked b (put_record r g)"
  using assms by (simp add: tracked_def keyed_set states_of_set fun_upd_idem)

lemma tracked_change:
  assumes "tracked b g" and "states_of (rg_records g) (ar_id r) = Some s" and "canTransition s (ar_state r)"
  shows "tracked b (emit_aw now Ev_state_changed r (Some s) (put_record r g))"
  using assms by (simp add: tracked_def keyed_set states_of_set replay_snoc replay_event_def)

lemma tracked_seen:
  assumes "tracked b g" and "jget (rg_records g) (ar_id r) = None" and "ar_state r = SEEN"
  shows "tracked b (emit_aw now Ev_seen r None (put_record r g))"
  using assms by (simp add: tracked_def keyed_set states_of_set replay_snoc replay_event_def) (simp add: states_of_def)

subsection \<open>Operations follow the log\<close>

lemma emit_step_fields [simp]:
  "rg_records (emit_step now before r to g) = rg_records g" "rg_file (emit_step now before r to g) = rg_file g"
  by (simp_all add: emit_step_def Let_def)

lemma tracked_step:
  assumes "tracked b g" and "states_of (rg_records g) (ar_id r) = Some s" and "canTransition s (ar_state r)"
  shows "tracked b (emit_step now s r to (put_record r g))"
proof -
  let ?g = "put_record r g"
  have emit: "tracked b (emit_aw now Ev_state_changed r (Some s) (emit_aw now Ev_identified r p ?g))" for p
    using assms by (simp add: tracked_def keyed_set states_of_set replay_append replay_event_def)
  show ?thesis
    using emit tracked_change[OF assms] by (simp add: emit_step_def Let_def tracked_emit)
qed

lemma observed_id [simp]: "ar_id (observed now identity confidence r) = ar_id r"
  by (simp add: observed_def)

lemma walk_path_tracked:
  assumes "tracked b g" and "jget (rg_records g) (ar_id r) = Some r0" and "ar_state r0 = ar_state r"
    and "legal_path (ar_state r) path"
  shows "\<exists>r' g'. walk_path now identity confidence path r g = (Inr r', g') \<and> tracked b g' \<and> ar_id r' = ar_id r \<and>
    ar_state r' = last (ar_state r # path) \<and> (path \<noteq> [] \<longrightarrow> jget (rg_records g') (ar_id r) = Some r') \<and> rg_file g' = rg_file g"
  using assms
proof (induction path arbitrary: r r0 g)
  case (Cons to path)
  define n where "n = (observed now identity confidence r)\<lparr>ar_state := to, ar_identity := spread (ar_identity r) identity\<rparr>"
  have n: "transition_record r to (observed now identity confidence) (Some identity) = Inr n" "ar_id n = ar_id r" "ar_state n = to"
    using Cons.prems(4) by (simp_all add: transition_record_iff n_def)
  let ?g = "emit_step now (ar_state r) n to (put_record n g)"
  have "tracked b ?g"
    by (rule tracked_step) (use Cons.prems n in \<open>simp_all add: states_of_def\<close>)
  from Cons.IH[OF this, of n n] show ?case
    using Cons.prems(4) n by (cases path) (auto simp: jget_set)
qed simp

lemma applyObservationState_outcome:
  assumes "tracked b g" and "jget (rg_records g) (ar_id r) = Some r0" and "ar_state r0 = ar_state r"
  shows "\<exists>g'. tracked b g' \<and> rg_file g' = rg_file g \<and>
    (if ar_state r = ONLINE \<and> (next = SEEN \<or> next = IDENTIFIED)
     then (\<exists>e. applyObservationState now identity confidence r next g = (Inl e, g)) \<and> g' = g
     else (\<exists>r'. applyObservationState now identity confidence r next g = (Inr r', g') \<and> ar_state r' = next \<and>
       ar_id r' = ar_id r \<and> jget (rg_records g') (ar_id r) = Some r'))"
proof -
  define c where "c = r\<lparr>ar_lastSeen := now, ar_identity := identity\<rparr>"
  have c: "ar_id c = ar_id r" "ar_state c = ar_state r"
    by (simp_all add: c_def)
  have same: "tracked b (put_record c g)"
    by (rule tracked_put) (use assms c in \<open>simp_all add: states_of_def\<close>)
  show ?thesis
  proof (cases "transitionPath (ar_state r) next")
    case None
    then show ?thesis
      using assms(1) transitionPath_none[of "ar_state r" "next"]
      by (auto simp: applyObservationState_def Let_def)
  next
    case (Some path)
    have legal: "legal_path (ar_state c) path" "last (ar_state c # path) = next"
      using transitionPath_legal[OF Some] c by simp_all
    have not_stuck: "\<not> (ar_state r = ONLINE \<and> (next = SEEN \<or> next = IDENTIFIED))"
      using Some transitionPath_none[of "ar_state r" "next"] by auto
    show ?thesis
    proof (cases "ar_state r = next")
      case True
      then show ?thesis
        using same c not_stuck by (auto simp: applyObservationState_def Let_def c_def[symmetric] jget_set)
    next
      case False
      with Some have "path \<noteq> []"
        using legal c by auto
      then show ?thesis
        using walk_path_tracked[OF assms(1), of c r0 path now identity confidence] assms c legal not_stuck False Some
        by (auto simp: applyObservationState_def Let_def c_def[symmetric])
    qed
  qed
qed

lemma load_loaded [simp]: "rg_loaded g \<Longrightarrow> load g = g"
  by (simp add: load_def)

lemma observation_outcome:
  assumes "tracked b g"
    and before: "before = map_option ar_state (jget (rg_records g) (cd_id c))"
    and s: "s = observation_state enrolled hashMac c"
  shows "\<exists>res g'. observeCandidate resolve hashMac enrolled now mock caps c g = (res, g') \<and> tracked b g' \<and>
    (if before = Some ONLINE \<and> (s = SEEN \<or> s = IDENTIFIED)
     then (\<exists>e. res = Inl e) \<and> rg_file g' = rg_file g
     else (\<exists>r. res = Inr r \<and> ar_state r = s \<and> jget (rg_records g') (cd_id c) = Some r) \<and>
       rg_file g' = Some (jvalues (rg_records g')))"
proof (cases "jget (rg_records g) (cd_id c)")
  case None
  define r where "r = new_record now c (transportFromCandidate c) (identityFromCandidate hashMac c) mock caps"
  have r: "ar_id r = cd_id c" "ar_state r = SEEN"
    by (simp_all add: r_def new_record_def)
  let ?g = "emit_aw now Ev_seen r None (put_record r g)"
  have "tracked b ?g"
    by (rule tracked_seen[OF assms(1)]) (use None r in simp_all)
  then obtain g' r' where "tracked b g'" "ar_state r' = s" "jget (rg_records g') (cd_id c) = Some r'"
    "applyObservationState now (identityFromCandidate hashMac c) (cd_confidence c) r s ?g = (Inr r', g')"
    using applyObservationState_outcome[of b ?g r r s now "identityFromCandidate hashMac c" "cd_confidence c"] r
    by (auto simp: jget_set)
  then show ?thesis
    using None assms(1) before by (simp add: observeCandidate_def Let_def tracked_fields(1)[OF assms(1)] s[symmetric] r_def[symmetric]
        then_persist_def tracked_persist)
next
  case (Some x)
  define r where "r = patched_record resolve now c (transportFromCandidate c)
    (spread (ar_identity x) (identityFromCandidate hashMac c)) mock caps x"
  have r: "ar_id r = cd_id c" "ar_state r = ar_state x"
    using keyed_get[OF tracked_fields(2)[OF assms(1)] Some] by (simp_all add: r_def patched_record_def Let_def)
  let ?g = "put_record r g" and ?i = "spread (ar_identity x) (identityFromCandidate hashMac c)"
  have "tracked b ?g"
    by (rule tracked_put[OF assms(1)]) (use Some r in \<open>simp add: states_of_def\<close>)
  moreover have "jget (rg_records ?g) (ar_id r) = Some r"
    by (simp add: jget_set)
  ultimately have "\<exists>g'. tracked b g' \<and> rg_file g' = rg_file ?g \<and>
    (if ar_state r = ONLINE \<and> (s = SEEN \<or> s = IDENTIFIED)
     then (\<exists>e. applyObservationState now ?i (cd_confidence c) r s ?g = (Inl e, ?g)) \<and> g' = ?g
     else (\<exists>r'. applyObservationState now ?i (cd_confidence c) r s ?g = (Inr r', g') \<and> ar_state r' = s \<and>
       ar_id r' = ar_id r \<and> jget (rg_records g') (ar_id r) = Some r'))"
    by (rule applyObservationState_outcome) (rule refl)
  then show ?thesis
    using Some assms(1) before r by (auto simp: observeCandidate_def Let_def tracked_fields(1)[OF assms(1)] s[symmetric]
        r_def[symmetric] then_persist_def tracked_persist split: if_splits)
qed

text \<open>Enrolment moves an identified device over \<open>PENDING_ENROLL\<close>; from any other state it changes nothing.\<close>

lemma put_record_at: "ar_id r = i \<Longrightarrow> g\<lparr>rg_records := jset i r (rg_records g)\<rparr> = put_record r g"
  by (auto simp: put_record_def)

lemma enrolment_outcome:
  assumes "tracked b g"
  shows "\<exists>res g'. markEnrolled now i moduleId g = (res, g') \<and> tracked b g' \<and>
    (case jget (rg_records g) i of
      None \<Rightarrow> (\<exists>e. res = Inl e) \<and> g' = g
    | Some x \<Rightarrow> if ar_state x \<in> {PENDING_ENROLL, IDENTIFIED}
        then (\<exists>r. res = Inr r \<and> ar_state r = ONLINE \<and> jget (rg_records g') i = Some r) \<and>
          rg_file g' = Some (jvalues (rg_records g'))
        else (\<exists>e. res = Inl e) \<and> g' = g)"
proof (cases "jget (rg_records g) i")
  case (Some x)
  have x: "ar_id x = i"
    by (rule keyed_get[OF tracked_fields(2)[OF assms] Some])
  define online where "online cur = (enrol_fields now moduleId cur)\<lparr>ar_state := ONLINE,
    ar_identity := (case enrol_identity moduleId of None \<Rightarrow> ar_identity cur | Some y \<Rightarrow> spread (ar_identity cur) y)\<rparr>"
    for cur
  have online: "transition_record cur ONLINE (enrol_fields now moduleId) (enrol_identity moduleId) = Inr (online cur)"
    "ar_id (online cur) = ar_id cur" "ar_state (online cur) = ONLINE" if "ar_state cur = PENDING_ENROLL" for cur
    using that by (simp_all add: transition_record_iff online_def canTransition_def enrol_fields_def)
  have finish: "tracked b (persist (emit_aw now Ev_online (online cur) (Some PENDING_ENROLL)
      (emit_aw now Ev_state_changed (online cur) (Some PENDING_ENROLL) (put_record (online cur) h))))"
    if "tracked b h" "jget (rg_records h) i = Some cur" "ar_state cur = PENDING_ENROLL" "ar_id cur = i" for h cur
    by (rule tracked_persist, rule tracked_emit, rule tracked_change)
      (use that online[OF that(3)] in \<open>simp_all add: states_of_def canTransition_def\<close>)
  show ?thesis
  proof (cases "ar_state x")
    case IDENTIFIED
    define cur where "cur = x\<lparr>ar_lastSeen := now, ar_health := defaultHealth now True, ar_state := PENDING_ENROLL\<rparr>"
    have cur: "ar_id cur = i" "ar_state cur = PENDING_ENROLL"
      "transition_record x PENDING_ENROLL (\<lambda>r. r\<lparr>ar_lastSeen := now, ar_health := defaultHealth now True\<rparr>) None = Inr cur"
      using x IDENTIFIED by (simp_all add: cur_def transition_record_iff canTransition_def)
    let ?h = "emit_aw now Ev_state_changed cur (Some IDENTIFIED) (put_record cur g)"
    have "tracked b ?h"
      by (rule tracked_change[OF assms]) (use Some IDENTIFIED cur in \<open>simp_all add: states_of_def canTransition_def\<close>)
    then show ?thesis
      using finish[of ?h cur] cur Some IDENTIFIED online[OF cur(2)]
      by (simp add: markEnrolled_def Let_def tracked_fields(1)[OF assms] put_record_def emit_aw_def persist_def jget_set
          del: registry_fields)
  next
    case PENDING_ENROLL
    then show ?thesis
      using finish[OF assms Some PENDING_ENROLL x] online[OF PENDING_ENROLL] Some x
      by (simp add: markEnrolled_def Let_def tracked_fields(1)[OF assms] put_record_at jget_set)
  qed (use Some assms in \<open>simp_all add: markEnrolled_def Let_def tracked_fields(1)[OF assms]\<close>)
qed (use assms in \<open>simp add: markEnrolled_def Let_def tracked_fields(1)[OF assms]\<close>)

text \<open>A sweep ages every record by the record's own times, one transition of the table each.\<close>

definition aged :: "time \<Rightarrow> staleness \<Rightarrow> aw_record \<Rightarrow> aw_record" where
  "aged now config r =
    (case evaluateStaleness r now config of
      None \<Rightarrow> r
    | Some to \<Rightarrow> r\<lparr>ar_health := defaultHealth now False, ar_state := to\<rparr>)"

lemma tick_one_effect:
  assumes "tracked b g" and "jget (rg_records g) i = Some r"
  shows "\<exists>g' changed'. tick_one now (i, r) (g, changed) = (g', changed') \<and> tracked b g' \<and>
    rg_records g' = jset i (aged now (rg_staleness g) r) (rg_records g) \<and> rg_staleness g' = rg_staleness g \<and>
    rg_file g' = rg_file g \<and> (changed' = [] \<longrightarrow> g' = g)"
proof -
  have r: "ar_id r = i"
    by (rule keyed_get[OF tracked_fields(2)[OF assms(1)] assms(2)])
  show ?thesis
  proof (cases "evaluateStaleness r now (rg_staleness g)")
    case None
    then show ?thesis
      using assms by (simp add: tick_one_def aged_def update_triv)
  next
    case (Some to)
    note to = evaluateStaleness_legal[OF Some]
    let ?r = "aged now (rg_staleness g) r"
    have n: "transition_record r to (\<lambda>r. r\<lparr>ar_health := defaultHealth now False\<rparr>) None = Inr ?r"
      "ar_id ?r = i" "ar_state ?r = to"
      using to r Some by (simp_all add: transition_record_iff aged_def)
    have "tracked b (emit_aw now Ev_state_changed ?r (Some (ar_state r)) (put_record ?r g))"
      by (rule tracked_change[OF assms(1)]) (use assms(2) n to in \<open>simp_all add: states_of_def\<close>)
    then show ?thesis
      using Some to n by (simp add: tick_one_def Let_def put_record_at tracked_emit)
  qed
qed

lemma tick_fold_grows: "prefix ch (snd (fold (tick_one now) es (g, ch)))"
proof (induction es arbitrary: g ch)
  case (Cons e es)
  have "prefix ch (snd (tick_one now e (g, ch)))"
    by (simp add: tick_one_def Let_def split: prod.split option.split sum.split)
  then show ?case
    using Cons.IH[of "snd (tick_one now e (g, ch))" "fst (tick_one now e (g, ch))"] by (auto intro: prefix_order.trans)
qed simp

lemma tick_fold_effect:
  assumes "tracked b g" and "rg_records g = done @ es"
  shows "\<exists>g' changed'. fold (tick_one now) es (g, changed) = (g', changed') \<and> tracked b g' \<and>
    rg_records g' = done @ map (\<lambda>(i, r). (i, aged now (rg_staleness g) r)) es \<and>
    rg_file g' = rg_file g \<and> (changed' = [] \<longrightarrow> g' = g)"
  using assms
proof (induction es arbitrary: g "done" changed)
  case (Cons e es)
  obtain i r where e: "e = (i, r)"
    by (cases e)
  have d: "distinct (map fst (done @ (i, r) # es))"
    using tracked_fields(2)[OF Cons.prems(1)] Cons.prems(2) e by (simp add: keyed_def wf_map_def)
  then have i: "i \<notin> fst ` set done"
    by auto
  then have "jget (rg_records g) i = Some r"
    using Cons.prems(2) e by (simp add: map_add_dom_app_simps map_of_eq_None_iff[symmetric] map_add_def)
  then obtain g1 changed1 where 1: "tick_one now (i, r) (g, changed) = (g1, changed1)" "tracked b g1"
    "rg_records g1 = jset i (aged now (rg_staleness g) r) (rg_records g)" "rg_staleness g1 = rg_staleness g"
    "rg_file g1 = rg_file g" "changed1 = [] \<longrightarrow> g1 = g"
    using tick_one_effect[OF Cons.prems(1)] by blast
  have "rg_records g1 = (done @ [(i, aged now (rg_staleness g) r)]) @ es"
    using 1(3) Cons.prems(2) e jset_here[OF i] by simp
  from Cons.IH[OF 1(2) this, of changed1] obtain g' changed' where
    2: "fold (tick_one now) es (g1, changed1) = (g', changed')" "tracked b g'"
    "rg_records g' = (done @ [(i, aged now (rg_staleness g) r)]) @ map (\<lambda>(i, r). (i, aged now (rg_staleness g1) r)) es"
    "rg_file g' = rg_file g1" "changed' = [] \<longrightarrow> g' = g1"
    by blast
  have "changed' = [] \<Longrightarrow> changed1 = []"
    using 2(1) tick_fold_grows[where ch = changed1 and now = now and es = es and g = g1] by (metis fst_conv prefix_Nil snd_conv)
  then show ?case
    using 1 2 e by simp
qed simp

lemma tick_outcome:
  assumes "tracked b g"
  shows "\<exists>changed g'. tick_registry now g = (changed, g') \<and> tracked b g' \<and>
    rg_records g' = map (\<lambda>(i, r). (i, aged now (rg_staleness g) r)) (rg_records g) \<and>
    (if changed = [] then g' = g else rg_file g' = Some (jvalues (rg_records g')))"
proof -
  obtain g' changed where
    *: "fold (tick_one now) (rg_records g) (g, []) = (g', changed)" "tracked b g'"
    "rg_records g' = map (\<lambda>(i, r). (i, aged now (rg_staleness g) r)) (rg_records g)" "changed = [] \<longrightarrow> g' = g"
    using tick_fold_effect[OF assms, of "[]" "rg_records g" now "[]"] by auto
  have "tick_registry now g = (changed, if changed = [] then g' else persist g')"
    by (simp add: tick_registry_def Let_def tracked_fields(1)[OF assms] *(1))
  with * show ?thesis
    by (cases "changed = []") (simp_all add: tracked_persist)
qed

subsection \<open>Histories\<close>

datatype aw_op =
    Observe "aw_record \<Rightarrow> support_level" "string \<Rightarrow> string" "string list" time bool "string list option" candidate
  | Enrol time string "string option"
  | Tick time

fun aw_apply :: "aw_op \<Rightarrow> registry \<Rightarrow> registry" where
  "aw_apply (Observe resolve sha enrolled now mock caps c) g =
    snd (observeCandidate resolve (hashMac_of sha) enrolled now mock caps c g)"
| "aw_apply (Enrol now i moduleId) g = snd (markEnrolled now i moduleId g)"
| "aw_apply (Tick now) g = snd (tick_registry now g)"

fun aw_run :: "aw_op list \<Rightarrow> registry \<Rightarrow> registry" where
  "aw_run [] g = g"
| "aw_run (x # xs) g = aw_run xs (aw_apply x g)"

lemma load_idem [simp]: "load (load g) = load g"
  by (simp add: load_def split: option.split)

lemma aw_apply_load: "aw_apply x (load g) = aw_apply x g"
  by (cases x) (simp_all add: observeCandidate_def markEnrolled_def tick_registry_def)

text \<open>An observation is thrown out when a device that is online is seen without what would make it known.\<close>

definition thrown_out :: "aw_op \<Rightarrow> registry \<Rightarrow> bool" where
  "thrown_out x g =
    (case x of
      Observe resolve sha enrolled now mock caps c \<Rightarrow>
        map_option ar_state (jget (rg_records (load g)) (cd_id c)) = Some ONLINE \<and>
        observation_state enrolled (hashMac_of sha) c \<in> {SEEN, IDENTIFIED}
    | _ \<Rightarrow> False)"

fun any_thrown_out :: "aw_op list \<Rightarrow> registry \<Rightarrow> bool" where
  "any_thrown_out [] g = False"
| "any_thrown_out (x # xs) g = (thrown_out x g \<or> any_thrown_out xs (aw_apply x g))"

text \<open>The map a registry reads from a file.\<close>

definition read_file :: "aw_record list option \<Rightarrow> (string, aw_record) jmap" where
  "read_file file = (case file of None \<Rightarrow> [] | Some rs \<Rightarrow> fold (\<lambda>r. jset (ar_id r) r) rs [])"

lemma load_fresh: "rg_records (load (AwarenessRegistry config file)) = read_file file"
  by (simp add: load_def AwarenessRegistry_def read_file_def split: option.split)

lemma read_keyed: "keyed (read_file file)"
proof -
  have "keyed m \<Longrightarrow> keyed (fold (\<lambda>r. jset (ar_id r) r) rs m)" for rs m
    by (induction rs arbitrary: m) (simp_all add: keyed_set)
  moreover have "keyed []"
    by (simp add: keyed_def wf_intros)
  ultimately show ?thesis
    by (simp add: read_file_def split: option.split)
qed

lemma read_written: "keyed m \<Longrightarrow> read_file (Some (jvalues m)) = m"
proof -
  have "keyed (a @ m) \<Longrightarrow> fold (\<lambda>r. jset (ar_id r) r) (jvalues m) a = a @ m" for a
  proof (induction m arbitrary: a)
    case (Cons e m)
    have "jget a (ar_id (snd e)) = None" "fst e = ar_id (snd e)"
      using Cons.prems by (auto simp: keyed_def wf_map_def map_of_eq_None_iff case_prod_unfold)
    then have "jset (ar_id (snd e)) (snd e) a = a @ [e]"
      by (simp add: jset_new prod.expand)
    then show ?case
      using Cons.IH[of "a @ [e]"] Cons.prems by simp
  qed simp
  from this[of "[]"] show "keyed m \<Longrightarrow> ?thesis"
    by (simp add: read_file_def)
qed

lemma fresh_tracked: "tracked (states_of (read_file file)) (load (AwarenessRegistry config file))"
  using read_keyed by (simp add: tracked_def load_fresh) (simp add: load_def AwarenessRegistry_def split: option.split)

lemma aw_apply_tracked:
  assumes "tracked b (load g)"
  shows "tracked b (aw_apply x g)"
proof -
  have "tracked b (aw_apply x (load g))"
  proof (cases x)
    case (Observe resolve sha enrolled now mock caps c)
    then show ?thesis
      using observation_outcome[OF assms refl refl, where c = c and enrolled = enrolled and hashMac = "hashMac_of sha"
          and resolve = resolve and now = now and mock = mock and caps = caps] by auto
  next
    case (Enrol now i moduleId)
    then show ?thesis
      using enrolment_outcome[OF assms, of now i moduleId] by auto
  next
    case (Tick now)
    then show ?thesis
      using tick_outcome[OF assms, of now] by auto
  qed
  then show ?thesis
    by (simp add: aw_apply_load)
qed

lemma aw_apply_synced:
  assumes "tracked b (load g)" and "read_file (rg_file (load g)) = rg_records (load g)"
  shows "\<not> thrown_out x g \<Longrightarrow> read_file (rg_file (aw_apply x g)) = rg_records (aw_apply x g)"
proof -
  have "\<not> thrown_out x g \<longrightarrow> read_file (rg_file (aw_apply x (load g))) = rg_records (aw_apply x (load g))"
  proof (cases x)
    case (Observe resolve sha enrolled now mock caps c)
    show ?thesis
      using observation_outcome[OF assms(1) refl refl, where c = c and enrolled = enrolled and hashMac = "hashMac_of sha" and resolve = resolve and now = now and mock = mock and caps = caps] Observe
      by (auto simp: thrown_out_def read_written dest: tracked_fields(2) split: if_splits)
  next
    case (Enrol now i moduleId)
    obtain res g' where m: "markEnrolled now i moduleId (load g) = (res, g')" and "tracked b g'"
      and "g' = load g \<or> rg_file g' = Some (jvalues (rg_records g'))"
      using enrolment_outcome[OF assms(1), of now i moduleId]
      by (cases "jget (rg_records (load g)) i") (auto split: if_splits)
    then show ?thesis
      using Enrol assms(2) tracked_fields(2) by (auto simp: read_written)
  next
    case (Tick now)
    obtain changed g' where m: "tick_registry now (load g) = (changed, g')" and "tracked b g'"
      and "g' = load g \<or> rg_file g' = Some (jvalues (rg_records g'))"
      using tick_outcome[OF assms(1), of now] by (auto split: if_splits)
    then show ?thesis
      using Tick assms(2) tracked_fields(2) by (auto simp: read_written)
  qed
  then show "\<not> thrown_out x g \<Longrightarrow> read_file (rg_file (aw_apply x g)) = rg_records (aw_apply x g)"
    by (simp add: aw_apply_load)
qed

lemma aw_run_tracked: "tracked b (load g) \<Longrightarrow> tracked b (load (aw_run ops g))"
proof (induction ops arbitrary: g)
  case (Cons x ops)
  from aw_apply_tracked[OF Cons.prems, of x] show ?case
    using Cons.IH[of "aw_apply x g"] by (simp add: tracked_fields(1))
qed simp

lemma aw_run_synced:
  "tracked b (load g) \<Longrightarrow> read_file (rg_file (load g)) = rg_records (load g) \<Longrightarrow> \<not> any_thrown_out ops g \<Longrightarrow>
    read_file (rg_file (load (aw_run ops g))) = rg_records (load (aw_run ops g))"
proof (induction ops arbitrary: g)
  case (Cons x ops)
  note t = aw_apply_tracked[OF Cons.prems(1), of x]
  have "read_file (rg_file (aw_apply x g)) = rg_records (aw_apply x g)"
    using aw_apply_synced[OF Cons.prems(1,2), of x] Cons.prems(3) by simp
  then show ?case
    using Cons.IH[of "aw_apply x g"] t Cons.prems(3) by (simp add: tracked_fields(1))
qed simp

lemma load_file [simp]: "rg_file (load g) = rg_file g"
  by (simp add: load_def split: option.split)

text \<open>C25: The log of the awareness registry tells the whole story. From any file of records, after any observations,
  enrolments and sweeps, in any order and with any clock, the events replayed over the states of the file give exactly
  the states the registry holds: each \<open>seen\<close> starts a device that was not known, each \<open>state_changed\<close> continues from the
  state the device was in and is a transition of the table, and no state changes without one. And while no observation
  is thrown out (that of a device online which is seen with no module that is known and is not enrolled), what a restart
  reads from the file is what the registry holds.\<close>

theorem awareness_log_replays:
  "replay (states_of (read_file file)) (rg_events (load (aw_run ops (AwarenessRegistry config file)))) =
     Some (states_of (rg_records (load (aw_run ops (AwarenessRegistry config file))))) \<and>
   (\<not> any_thrown_out ops (AwarenessRegistry config file) \<longrightarrow>
     rg_records (load (AwarenessRegistry config (rg_file (aw_run ops (AwarenessRegistry config file))))) =
     rg_records (load (aw_run ops (AwarenessRegistry config file))))"
proof -
  let ?g = "AwarenessRegistry config file"
  have "read_file (rg_file (load ?g)) = rg_records (load ?g)"
    by (simp add: load_fresh) (simp add: AwarenessRegistry_def)
  from aw_run_synced[OF fresh_tracked this, of ops] have
    "\<not> any_thrown_out ops ?g \<longrightarrow> rg_records (load (AwarenessRegistry config (rg_file (aw_run ops ?g)))) =
      rg_records (load (aw_run ops ?g))"
    by (simp add: load_fresh)
  moreover have "replay (states_of (read_file file)) (rg_events (load (aw_run ops ?g))) =
      Some (states_of (rg_records (load (aw_run ops ?g))))"
    by (rule tracked_fields(3)[OF aw_run_tracked[OF fresh_tracked]])
  ultimately show ?thesis
    by blast
qed

text \<open>A board of a known module is seen, approved and not seen again for 200 s.\<close>

definition wit_seen_board :: candidate where
  "wit_seen_board =
    \<lparr>cd_id = ''cand_1'', cd_kind = ''serial'', cd_address = ''/dev/ttyUSB0'', cd_port = None, cd_details = [],
     cd_possibleIdentity = [\<lparr>ig_moduleId = ''arduino/uno'', ig_vendor = None, ig_deviceClass = None\<rparr>],
     cd_evidence = [(''vid-pid'', ''match'', 1 / 2)], cd_confidence = 1 / 2, cd_interfaces = []\<rparr>"

definition wit_day :: "aw_op list" where
  "wit_day =
    [Observe (\<lambda>r. ar_evidenceLevel r) (\<lambda>s. s) [] 0 False None wit_seen_board, Enrol 5 ''cand_1'' None, Tick 200000]"

theorem awareness_log_replays_witness:
  "replay (states_of (read_file None)) (rg_events (load (aw_run wit_day (AwarenessRegistry None None)))) =
     Some (states_of (rg_records (load (aw_run wit_day (AwarenessRegistry None None))))) \<and>
   rg_records (load (AwarenessRegistry None (rg_file (aw_run wit_day (AwarenessRegistry None None))))) =
     rg_records (load (aw_run wit_day (AwarenessRegistry None None)))"
proof -
  have "\<not> any_thrown_out wit_day (AwarenessRegistry None None)"
    by (simp add: wit_day_def thrown_out_def load_def AwarenessRegistry_def)
  then show ?thesis
    using awareness_log_replays[of None wit_day None] by blast
qed

text \<open>What is thrown out stays in memory only: the file, and so the next start, has the record as it was before.\<close>

theorem thrown_out_observation_unsaved:
  assumes "rg_loaded g" "keyed (rg_records g)" "jget (rg_records g) (cd_id c) = Some x" "ar_state x = ONLINE"
    and "observation_state enrolled hashMac c \<in> {SEEN, IDENTIFIED}"
  shows "\<exists>e g'. observeCandidate resolve hashMac enrolled now mock caps c g = (Inl e, g') \<and> rg_file g' = rg_file g \<and>
    rg_events g' = rg_events g \<and> (\<exists>y. jget (rg_records g') (cd_id c) = Some y \<and> ar_state y = ONLINE \<and> ar_lastSeen y = now)"
proof -
  define r where "r = patched_record resolve now c (transportFromCandidate c)
    (spread (ar_identity x) (identityFromCandidate hashMac c)) mock caps x"
  have r: "ar_id r = cd_id c" "ar_state r = ONLINE" "ar_lastSeen r = now"
    using keyed_get[OF assms(2,3)] assms(4) by (simp_all add: r_def patched_record_def Let_def)
  have "transitionPath ONLINE (observation_state enrolled hashMac c) = None"
    using assms(5) by (auto simp: transitionPath_none)
  then show ?thesis
    using assms r by (auto simp: observeCandidate_def Let_def r_def[symmetric] applyObservationState_def then_persist_def jget_set)
qed

end
