(* ===== verification/Spec2Isabelle.thy ===== *)
theory Spec2Isabelle
  imports Prelude Errors Halt Lease Json_Key Idempotency Journal Policy Safety Safety_Merge Operations Op_Recovery
    Frame_Stream Modbus_Wire Modbus_Sim Modbus_Client Modbus_Laws Register_Map
    Frames Units Schema Support_Level Evidence Device_Graph Stream_Bus Stream_Order
    Text_Codec Line_Reader Firmata_Wire Firmata_Client Mqtt_Wire Mqtt_Client
    Fail_Safe Device_Instance Pinout_Runtime Json_Text Protocol Session
    Boards Device_Actions Protocol_Backend Esp32_Bridge Esp32_Board Discovery Awareness
begin

text \<open>
  Pinout is a runtime between software agents and hardware. A call on a device's capability
  passes through the safety core of \<open>packages/core\<close> before it reaches a device backend:

  \<^enum> the halt gate (\<open>halt/haltCoordinator.ts\<close>) refuses every physical call while the runtime is
    halted, faulted or stopped;
  \<^enum> the safety engine (\<open>policy/safety.ts\<close>) evaluates the baseline policies (\<open>policy/engine.ts\<close>,
    \<open>module/policies.ts\<close>), rate limits, interlocks, sequences, approvals, leases
    (\<open>lease/leaseManager.ts\<close>), deadman switches and budgets, and reserves what they consume;
  \<^enum> the operation manager (\<open>operation/operationManager.ts\<close>) runs the call as an operation with
    deadline, cancellation and progress, answers retries from the idempotency store
    (\<open>operation/idempotencyStore.ts\<close>) and journals every transition (\<open>journal/journal.ts\<close>);
    after a restart it classifies the journaled operations again;
  \<^enum> a protocol adapter talks to the device. Modelled is Modbus (\<open>packages/protocols-modbus\<close>):
    the codec, the simulated server, the TCP and RTU clients, and the register map that names registers.

  \<^bold>\<open>Theories.\<close> Each opens with a note on what it holds; definitions have the names of the source.

  \<^item> \<open>Prelude\<close>: JavaScript numbers, values, strings and the insertion-ordered \<open>Map\<close>.
  \<^item> \<open>Errors\<close> (\<open>core/src/errors.ts\<close>): the error taxonomy and \<open>toStructuredError\<close>.
  \<^item> \<open>Halt\<close>: the coordinator and its gate. An emergency stop stays until it is cleared, except
    through a fault and \<open>clearFault\<close>; the listeners see an unbroken audit trail.
  \<^item> \<open>Lease\<close>: the lease table. The locale \<open>lease_authority\<close> is what the safety engine relies on;
    its interpretation is on the lease manager. Exclusion, durability, crash safety.
  \<^item> \<open>Json_Key\<close>, \<open>Idempotency\<close>: the store behind retries. The locale \<open>dedupe_store\<close> is the
    contract the operation manager uses. Memory bound, separation of callers, retention.
  \<^item> \<open>Journal\<close>: redaction, truncation, numbering and queries over the in-memory storage.
  \<^item> \<open>Policy\<close>, \<open>Safety\<close>, \<open>Safety_Merge\<close>: the rules. An accepted call satisfies every rule that applies to it;
    a refusal or rollback restores what was reserved (the locale \<open>reservations\<close>); rate and
    approval bounds over whole histories of calls; merging can only tighten ranges.
  \<^item> \<open>Operations\<close>, \<open>Op_Recovery\<close>: operation objects in a heap, one step per stretch between two
    awaits, and the recovery from the journal. Retries, finality of terminal states, crash windows.
  \<^item> \<open>Frame_Stream\<close>: the locale \<open>frame_codec\<close>, a codec whose frames do not depend on chunk boundaries.
  \<^item> \<open>Modbus_Wire\<close>, \<open>Modbus_Sim\<close>, \<open>Modbus_Client\<close>: \<open>wire.ts\<close>, \<open>simulator.ts\<close>, \<open>tcpClient.ts\<close> and
    \<open>rtuClient.ts\<close>; \<open>Modbus_Laws\<close>: the locale \<open>modbus_slave\<close> (a request answered by the server),
    its interpretation on the TCP link, and the round trips; \<open>Register_Map\<close>: \<open>registerMap.ts\<close>.
  \<^item> \<open>Frames\<close>, \<open>Units\<close>, \<open>Support_Level\<close>, \<open>Evidence\<close> (\<open>core/src/frames\<close>, \<open>core/src/spec\<close>): coordinate
    transforms, unit conversions, the order of support levels, and what counts as observed.
  \<^item> \<open>Schema\<close> (\<open>core/src/schema.ts\<close>): the payload validator against the type a schema describes.
  \<^item> \<open>Device_Graph\<close> (\<open>core/src/graph\<close>): devices, links and addresses; when the walks over them end.
  \<^item> \<open>Stream_Bus\<close>, \<open>Stream_Order\<close> (\<open>core/src/stream\<close>): bounded subscriber queues, as the refinement of a
    log with a cursor; order, bounds, and the read that is lost.
  \<^item> \<open>Text_Codec\<close>, \<open>Line_Reader\<close> (\<open>core/src/lineReader.ts\<close>): UTF-8 decoding in chunks and line framing.
  \<^item> \<open>Firmata_Wire\<close>, \<open>Firmata_Client\<close> (\<open>packages/protocols-firmata\<close>): the codec, the incremental decoder
    and the client with its handshake, serialized requests and subscriptions.
  \<^item> \<open>Mqtt_Wire\<close>, \<open>Mqtt_Client\<close> (\<open>packages/protocols-mqtt\<close>): the packet codec, on which \<open>frame_codec\<close> is
    interpreted a second time, topic filters against the standard's rules, and the client's calls,
    packet identifiers and deliveries.
  \<^item> \<open>Fail_Safe\<close> (\<open>packages/daemon/src/failSafeMonitor.ts\<close>): the daemon's monitor, composed of the lease
    manager and the safety engine. What a tick makes safe, and the expired leases it never sees.
  \<^item> \<open>Device_Instance\<close> (\<open>core/src/runtime/deviceInstance.ts\<close>): the invocation pipeline that composes the
    schema validator, evidence, the halt gate, the policies and the safety engine in front of a backend.
    When the backend is called, what a dry run predicts, what a failure gives back, what counts as observed.
  \<^item> \<open>Pinout_Runtime\<close> (\<open>core/src/runtime/runtime.ts\<close>): the registered devices under one coordinator, engine
    and journal. A halted runtime is still, the journal is complete, and the rules of a module hold for its devices.
    When a halt reaches every device, and how a device that never answers or an event handler that throws prevents it.
  \<^item> \<open>Json_Text\<close>: \<open>JSON.parse\<close> and the proof that it undoes \<open>JSON.stringify\<close>. \<open>Protocol\<close>
    (\<open>core/src/protocol.ts\<close>): the messages to and from a board survive the wire. \<open>Session\<close>
    (\<open>core/src/session.ts\<close>): requests, timers, aborts, the read loop, \<open>connect\<close> and \<open>close\<close>. Every
    request settles once, with its own answer; what a malformed \<open>ready\<close> event and an early \<open>close\<close> do.
  \<^item> \<open>Boards\<close> (\<open>core/src/boards\<close>, \<open>drivers/esp32/pins.ts\<close>): the boards and their pins. \<open>Device_Actions\<close>
    (\<open>core/src/device.ts\<close>): what is sent for a call, and that no reserved pin is ever asked for.
    \<open>Protocol_Backend\<close> (\<open>core/src/runtime/protocolBackend.ts\<close>): arming, heartbeat, safe state and evidence
    of a board. Outputs are configured before it is armed, only readings count as observed.
  \<^item> \<open>Esp32_Bridge\<close>, \<open>Esp32_Board\<close> (\<open>core/src/drivers/esp32\<close>): the simulated firmware and the board around it,
    at the other end of the line protocol. What drives a pin and when: a stop makes every pin safe, a board that
    is not armed is still, an armed one is watched, and a request line is answered once.
  \<^item> \<open>Discovery\<close> (\<open>packages/discovery/src/core.ts\<close>): the rules for what plugins may claim of a device they saw;
    \<open>Awareness\<close> (\<open>packages/awareness/src\<close>): the registry of all devices seen. A run of discovery never overstates,
    and the registry's events, replayed over its file, give the states it holds.

  \<^bold>\<open>Conventions.\<close>

  \<^item> State is a record passed and returned; a thrown error is \<open>Inl\<close>. A synchronous method is one
    function; an asynchronous one is split at its awaits. Clocks, timers that fire, random ids and the
    device's answers are arguments, so a theorem about all of them covers every schedule.
  \<^item> Clock readings and scaled values are exact reals; numbers that come from a caller are \<open>jsnum\<close>,
    with \<open>NaN\<close> and the infinities. Bytes and checksums are machine words.
  \<^item> English messages are not modelled, error codes are. Characters are code units below 256.
  \<^item> Every recursion terminates by its structure or a measure, except the walks over the device graph,
    which are partial functions that give \<open>None\<close> where the code does not return. Bounds that
    appear in statements are the code's own: 125 registers and 2000 coils in one read, 65536
    transaction ids; block writes are followed up to 30000 registers, where the frame's length
    field still holds them.

  \<^bold>\<open>Not modelled.\<close> Sockets, serial ports, files and HTTP; the composite backend and the workbench of
  \<open>packages/core\<close>; event handlers that throw outside of the safe states; the other protocol adapters, the daemon, the agent surfaces, the generator, the
  registry and the command line. They are next in this order: the SCPI parser, the
  UR codec, the module device models.
\<close>

end
